(* ===== verification/Zeus_Prelude.thy ===== *)
theory Zeus_Prelude
  imports Main "HOL-Library.Word" "HOL-Library.Multiset"
begin

text \<open>
  The part of the Go language and its standard library that the zeusync sources rest on, and the
  generic lemmas the component theories share: fixed-width integers, panics and blocking as values
  of an outcome type, slice access with its bounds check, \<open>sort.SliceStable\<close>, \<open>sort.Search\<close>.
\<close>

section \<open>Integers and outcomes\<close>

type_synonym uint64 = "64 word"
type_synonym int64 = "64 word"
type_synonym uint32 = "32 word"
type_synonym int32 = "32 word"
type_synonym bytes = "8 word list"

named_theorems outcome_simps \<open>evaluation of outcomes\<close>

text \<open>
  A call returns, panics, or waits: a channel operation or a condition variable that cannot proceed
  in the present state parks the goroutine, which is the value \<open>Blocked\<close>.
\<close>

datatype go_panic = SendOnClosedChannel | CloseOfClosedChannel | IndexOutOfRange
  | DivideByZero | NegativeSize | NilDereference | NilStore | InconsistentType | Uncomparable
  | UnlockOfUnlocked | NegativeCounter | InvalidArgument | NotImplemented

datatype 'a outcome = Ret 'a | Panic go_panic | Blocked

primrec bind_outcome :: "'a outcome \<Rightarrow> ('a \<Rightarrow> 'b outcome) \<Rightarrow> 'b outcome" where
  "bind_outcome (Ret x) f = f x"
| "bind_outcome (Panic p) f = Panic p"
| "bind_outcome Blocked f = Blocked"

primrec returns :: "'a outcome \<Rightarrow> bool" where
  "returns (Ret x) = True"
| "returns (Panic p) = False"
| "returns Blocked = False"

lemma bind_outcome_Ret_iff [outcome_simps]:
  "bind_outcome m f = Ret y \<longleftrightarrow> (\<exists>x. m = Ret x \<and> f x = Ret y)"
  by (cases m) auto

lemma returns_iff: "returns m \<longleftrightarrow> (\<exists>x. m = Ret x)"
  by (cases m) auto

text \<open>Errors: \<open>errors.New\<close>, \<open>errors.Join\<close> of two errors, and \<open>fmt.Errorf\<close> that wraps an error.\<close>

datatype go_err = Err string | JoinErr go_err go_err | WrapErr string go_err

text \<open>Integer division truncates towards zero; a zero divisor panics.\<close>

definition go_quot :: "int \<Rightarrow> int \<Rightarrow> int outcome" where
  "go_quot a b = (if b = 0 then Panic DivideByZero else Ret (sgn a * sgn b * (\<bar>a\<bar> div \<bar>b\<bar>)))"

lemma go_quot_pos: "0 \<le> a \<Longrightarrow> 0 < b \<Longrightarrow> go_quot a b = Ret (a div b)"
  by (cases "a = 0") (simp_all add: go_quot_def)

text \<open>Times are nanoseconds since the zero time; the difference \<open>Time.Sub\<close> saturates at the range of a duration.\<close>

definition time_Sub :: "int \<Rightarrow> int \<Rightarrow> int" where
  "time_Sub a b = max (- (2 ^ 63)) (min (2 ^ 63 - 1) (a - b))"

section \<open>Decimal numbers\<close>

text \<open>\<open>strconv\<close>'s decimal digits.\<close>

definition digit_char :: "nat \<Rightarrow> char" where
  "digit_char d = ''0123456789'' ! d"

fun decimal :: "nat \<Rightarrow> string" where
  "decimal n = (if n < 10 then [digit_char n] else decimal (n div 10) @ [digit_char (n mod 10)])"

declare decimal.simps [simp del]

text \<open>An integer as \<open>%d\<close> prints it.\<close>

definition show_int :: "int \<Rightarrow> string" where
  "show_int i = (if i < 0 then ''-'' @ decimal (nat (- i)) else decimal (nat i))"

lemma digit_char_inj: "d < 10 \<Longrightarrow> e < 10 \<Longrightarrow> digit_char d = digit_char e \<Longrightarrow> d = e"
proof -
  have "distinct ''0123456789''" by simp
  then show "d < 10 \<Longrightarrow> e < 10 \<Longrightarrow> digit_char d = digit_char e \<Longrightarrow> d = e"
    unfolding digit_char_def by (subst (asm) nth_eq_iff_index_eq) simp_all
qed

lemma digit_chars: "d < 10 \<Longrightarrow> digit_char d \<in> set ''0123456789''"
  unfolding digit_char_def by (rule nth_mem) simp

lemma decimal_chars: "set (decimal n) \<subseteq> set ''0123456789''"
proof (induction n rule: decimal.induct)
  case (1 n)
  then show ?case using digit_chars [of n] digit_chars [of "n mod 10"] decimal.simps [of n] by (cases "n < 10") auto
qed

lemma decimal_not_Nil: "decimal n \<noteq> []"
  by (subst decimal.simps) simp

lemma decimal_inj: "decimal m = decimal n \<Longrightarrow> m = n"
proof (induction m arbitrary: n rule: decimal.induct)
  case (1 m)
  show ?case
  proof (cases "m < 10"; cases "n < 10")
    assume "m < 10" "n < 10"
    with 1 show ?thesis by (simp add: decimal.simps [of m] decimal.simps [of n] digit_char_inj)
  next
    assume "\<not> m < 10" "\<not> n < 10"
    with 1 have "m div 10 = n div 10" "digit_char (m mod 10) = digit_char (n mod 10)"
      by (simp_all add: decimal.simps [of m] decimal.simps [of n])
    then show ?thesis using digit_char_inj [of "m mod 10" "n mod 10"] by (metis div_mod_decomp mod_less_divisor zero_less_numeral)
  qed (use 1 in \<open>simp_all add: decimal.simps [of m] decimal.simps [of n] decimal_not_Nil not_sym [OF decimal_not_Nil]\<close>)
qed

lemma show_int_inj: "show_int i = show_int j \<longleftrightarrow> i = j"
proof
  have minus: "CHR ''-'' \<notin> set (decimal n)" for n using decimal_chars [of n] by auto
  have sign: "''-'' @ decimal m \<noteq> decimal n" for m n
    using minus [of n] by (metis append_Cons list.set_intros(1))
  assume eq: "show_int i = show_int j"
  show "i = j"
  proof (cases "i < 0"; cases "j < 0")
    assume "i < 0" "j < 0"
    with eq have "nat (- i) = nat (- j)" by (simp add: show_int_def decimal_inj)
    with \<open>i < 0\<close> \<open>j < 0\<close> show ?thesis by simp
  next
    assume "\<not> i < 0" "\<not> j < 0"
    with eq have "nat i = nat j" by (simp add: show_int_def decimal_inj)
    with \<open>\<not> i < 0\<close> \<open>\<not> j < 0\<close> show ?thesis by simp
  qed (use eq sign not_sym [OF sign] in \<open>auto simp: show_int_def\<close>)
qed simp

lemma show_int_no_underscore: "CHR ''_'' \<notin> set (show_int i)"
  using decimal_chars [of "nat i"] decimal_chars [of "nat (- i)"] by (auto simp: show_int_def)

section \<open>Slices\<close>

definition slice_get :: "'a list \<Rightarrow> nat \<Rightarrow> 'a outcome" where
  "slice_get xs i = (if i < length xs then Ret (xs ! i) else Panic IndexOutOfRange)"

definition slice_set :: "'a list \<Rightarrow> nat \<Rightarrow> 'a \<Rightarrow> 'a list outcome" where
  "slice_set xs i x = (if i < length xs then Ret (xs[i := x]) else Panic IndexOutOfRange)"

lemma slice_get_in [simp]: "i < length xs \<Longrightarrow> slice_get xs i = Ret (xs ! i)"
  by (simp add: slice_get_def)

lemma slice_set_in [simp]: "i < length xs \<Longrightarrow> slice_set xs i x = Ret (xs[i := x])"
  by (simp add: slice_set_def)

lemma slice_get_out [simp]: "length xs \<le> i \<Longrightarrow> slice_get xs i = Panic IndexOutOfRange"
  by (simp add: slice_get_def)

lemma slice_set_out [simp]: "length xs \<le> i \<Longrightarrow> slice_set xs i x = Panic IndexOutOfRange"
  by (simp add: slice_set_def)

section \<open>sort.SliceStable\<close>

text \<open>
  The insertion step of the library's \<open>insertionSort\<close>: the element moves left over its neighbours
  as long as the comparison says it is less. The prefix is kept reversed. Every comparison the
  library makes, in the insertion sort of its blocks and in the merges above them, asks
  \<open>less later earlier\<close>, with \<open>later\<close> after \<open>earlier\<close> in the input, so for a strict order
  the result is the stable sort, and for its reflexive closure it is the sort in which equal
  elements come out in reverse; the insertion sort computes both.
\<close>

fun sink :: "('a \<Rightarrow> 'a \<Rightarrow> bool) \<Rightarrow> 'a \<Rightarrow> 'a list \<Rightarrow> 'a list" where
  "sink lt x [] = [x]"
| "sink lt x (y # ys) = (if lt x y then y # sink lt x ys else x # y # ys)"

definition slice_stable :: "('a \<Rightarrow> 'a \<Rightarrow> bool) \<Rightarrow> 'a list \<Rightarrow> 'a list" where
  "slice_stable lt xs = rev (fold (sink lt) xs [])"

lemma mset_sink [simp]: "mset (sink lt x ys) = add_mset x (mset ys)"
  by (induction ys) auto

lemma set_sink [simp]: "set (sink lt x ys) = insert x (set ys)"
  by (induction ys) auto

lemma mset_fold_sink [simp]: "mset (fold (sink lt) xs acc) = mset xs + mset acc"
  by (induction xs arbitrary: acc) auto

lemma mset_slice_stable [simp]: "mset (slice_stable lt xs) = mset xs"
  by (simp add: slice_stable_def)

lemma set_slice_stable [simp]: "set (slice_stable lt xs) = set xs"
  using mset_slice_stable by (rule mset_eq_setD)

lemma length_slice_stable [simp]: "length (slice_stable lt xs) = length xs"
  using mset_slice_stable by (rule mset_eq_length)

lemma slice_stable_Nil [simp]: "slice_stable lt [] = []"
  by (simp add: slice_stable_def)

text \<open>
  A comparison by a key, strict or not: the sorted prefix, reversed, is descending in the key.
\<close>

definition key_less :: "('a \<Rightarrow> 'k::linorder) \<Rightarrow> ('a \<Rightarrow> 'a \<Rightarrow> bool) \<Rightarrow> bool" where
  "key_less key lt \<longleftrightarrow> (\<forall>x y. (key x < key y \<longrightarrow> lt x y) \<and> (lt x y \<longrightarrow> key x \<le> key y))"

lemma sink_descending:
  assumes "key_less key lt" and "sorted_wrt (\<lambda>a b. key b \<le> key a) ys"
  shows "sorted_wrt (\<lambda>a b. key b \<le> key a) (sink lt x ys)"
  using assms(2)
proof (induction ys)
  case Nil
  then show ?case by simp
next
  case (Cons y ys)
  show ?case
  proof (cases "lt x y")
    case True
    with assms(1) have "key x \<le> key y" by (auto simp: key_less_def)
    with True Cons show ?thesis by auto
  next
    case False
    with assms(1) have "key y \<le> key x" by (meson key_less_def not_le)
    with False Cons.prems show ?thesis by (auto intro: order_trans)
  qed
qed

lemma fold_sink_descending:
  assumes "key_less key lt" and "sorted_wrt (\<lambda>a b. key b \<le> key a) acc"
  shows "sorted_wrt (\<lambda>a b. key b \<le> key a) (fold (sink lt) xs acc)"
  using assms(2) by (induction xs arbitrary: acc) (auto intro: sink_descending [OF assms(1)])

lemma sorted_slice_stable:
  assumes "key_less key lt"
  shows "sorted (map key (slice_stable lt xs))"
  using fold_sink_descending [OF assms, of "[]" xs]
  by (simp add: slice_stable_def sorted_map sorted_wrt_rev)

section \<open>sort.Search\<close>

text \<open>Binary search as the library writes it: the midpoint test decides which half is kept.\<close>

function search_loop :: "(nat \<Rightarrow> bool) \<Rightarrow> nat \<Rightarrow> nat \<Rightarrow> nat" where
  "search_loop f i j =
     (if i < j then
        (let h = (i + j) div 2
         in if \<not> f h then search_loop f (h + 1) j else search_loop f i h)
      else i)"
  by pat_completeness auto
termination
  by (relation "measure (\<lambda>(f, i, j). j - i)") (auto simp: Let_def)

declare search_loop.simps [simp del]

lemma search_loop_stop [simp]: "\<not> i < j \<Longrightarrow> search_loop f i j = i"
  by (simp add: search_loop.simps)

definition sort_Search :: "nat \<Rightarrow> (nat \<Rightarrow> bool) \<Rightarrow> nat" where
  "sort_Search n f = search_loop f 0 n"

lemma search_loop_bounds: "i \<le> j \<Longrightarrow> i \<le> search_loop f i j \<and> search_loop f i j \<le> j"
proof (induction f i j rule: search_loop.induct)
  case (1 f i j)
  show ?case
  proof (cases "i < j")
    case True
    then have h: "i \<le> (i + j) div 2" "(i + j) div 2 < j" by auto
    show ?thesis
    proof (cases "f ((i + j) div 2)")
      case True
      with \<open>i < j\<close> h "1.IH"(2) [OF _ refl] show ?thesis
        by (auto simp: search_loop.simps [of f i j] Let_def)
    next
      case False
      with \<open>i < j\<close> h "1.IH"(1) [OF _ refl] show ?thesis
        by (auto simp: search_loop.simps [of f i j] Let_def)
    qed
  next
    case False
    with "1.prems" show ?thesis by simp
  qed
qed

lemma search_loop_true: "i \<le> j \<Longrightarrow> search_loop f i j < j \<Longrightarrow> f (search_loop f i j)"
proof (induction f i j rule: search_loop.induct)
  case (1 f i j)
  show ?case
  proof (cases "i < j")
    case True
    then have h: "i \<le> (i + j) div 2" "(i + j) div 2 < j" by auto
    show ?thesis
    proof (cases "f ((i + j) div 2)")
      case True
      have eq: "search_loop f i j = search_loop f i ((i + j) div 2)"
        using \<open>i < j\<close> True by (simp add: search_loop.simps [of f i j] Let_def)
      have "search_loop f i ((i + j) div 2) \<le> (i + j) div 2"
        using search_loop_bounds h by blast
      then consider "search_loop f i ((i + j) div 2) = (i + j) div 2"
        | "search_loop f i ((i + j) div 2) < (i + j) div 2" by linarith
      then show ?thesis
        using eq True \<open>i < j\<close> h "1.IH"(2) [OF _ refl] by cases auto
    next
      case False
      with \<open>i < j\<close> h "1.IH"(1) [OF _ refl] "1.prems" show ?thesis
        by (auto simp: search_loop.simps [of f i j] Let_def)
    qed
  next
    case False
    with "1.prems" show ?thesis by simp
  qed
qed

lemma search_loop_least:
  "i \<le> j \<Longrightarrow> (\<And>a b. a \<le> b \<Longrightarrow> b < j \<Longrightarrow> f a \<Longrightarrow> f b) \<Longrightarrow> i \<le> k \<Longrightarrow> k < search_loop f i j \<Longrightarrow> \<not> f k"
proof (induction f i j rule: search_loop.induct)
  case (1 f i j)
  show ?case
  proof (cases "i < j")
    case True
    then have h: "i \<le> (i + j) div 2" "(i + j) div 2 < j" by auto
    show ?thesis
    proof (cases "f ((i + j) div 2)")
      case True
      have "search_loop f i j = search_loop f i ((i + j) div 2)"
        using \<open>i < j\<close> True by (simp add: search_loop.simps [of f i j] Let_def)
      with "1.IH"(2) [OF \<open>i < j\<close> refl] True h "1.prems" show ?thesis
        by (metis (no_types, lifting) order_less_trans)
    next
      case False
      have eq: "search_loop f i j = search_loop f ((i + j) div 2 + 1) j"
        using \<open>i < j\<close> False by (simp add: search_loop.simps [of f i j] Let_def)
      show ?thesis
      proof (cases "k \<le> (i + j) div 2")
        case True
        with False h "1.prems"(2) show ?thesis by blast
      next
        case False2: False
        with "1.IH"(1) [OF \<open>i < j\<close> refl False] h "1.prems" eq show ?thesis
          by auto
      qed
    qed
  next
    case False
    with "1.prems" show ?thesis by simp
  qed
qed

lemma sort_Search_le: "sort_Search n f \<le> n"
  by (simp add: sort_Search_def search_loop_bounds)

lemma sort_Search_true: "sort_Search n f < n \<Longrightarrow> f (sort_Search n f)"
  by (simp add: sort_Search_def search_loop_true)

lemma sort_Search_least:
  "(\<And>a b. a \<le> b \<Longrightarrow> b < n \<Longrightarrow> f a \<Longrightarrow> f b) \<Longrightarrow> k < sort_Search n f \<Longrightarrow> \<not> f k"
  unfolding sort_Search_def by (rule search_loop_least [of 0 n]) auto

end
