(* ===== verification/Npc_World.thy ===== *)
theory Npc_World
  imports Zeus_Prelude
begin

text \<open>
  The grid of the web demo, \<open>examples/npc_web/main.go\<close>: its tiles, the bounds checks, and the random
  generation, which draws positions until it meets an empty one. Coordinates are mathematical
  integers; every coordinate the demo computes is at most a step outside a grid that fits a machine.
\<close>

section \<open>Tiles and grids\<close>

datatype Tile = Empty | Trap | Artifact | Exit | Fog

primrec Tile_String :: "Tile \<Rightarrow> string" where
  "Tile_String Empty = ''empty''"
| "Tile_String Trap = ''trap''"
| "Tile_String Artifact = ''artifact''"
| "Tile_String Exit = ''exit''"
| "Tile_String Fog = ''fog''"

record grid_world =
  gw_W :: int
  gw_H :: int
  gw_Grid :: "Tile list list"

definition InBounds :: "grid_world \<Rightarrow> int \<Rightarrow> int \<Rightarrow> bool" where
  "InBounds g x y \<longleftrightarrow> x \<ge> 0 \<and> y \<ge> 0 \<and> x < gw_W g \<and> y < gw_H g"

definition TileAt :: "grid_world \<Rightarrow> int \<Rightarrow> int \<Rightarrow> Tile" where
  "TileAt g x y = (if \<not> InBounds g x y then Empty else gw_Grid g ! nat y ! nat x)"

text \<open>The assignment \<open>Grid[y][x] = t\<close>, and \<open>ClearTile\<close>.\<close>

definition set_tile :: "int \<Rightarrow> int \<Rightarrow> Tile \<Rightarrow> grid_world \<Rightarrow> grid_world" where
  "set_tile x y t g = g\<lparr>gw_Grid := (gw_Grid g)[nat y := (gw_Grid g ! nat y)[nat x := t]]\<rparr>"

definition ClearTile :: "int \<Rightarrow> int \<Rightarrow> grid_world \<Rightarrow> grid_world" where
  "ClearTile x y g = (if InBounds g x y then set_tile x y Empty g else g)"

section \<open>Generation\<close>

text \<open>
  \<open>rand.Intn\<close> gives the next draw of a sequence, reduced to its range. The inner loop of \<open>place\<close> may
  draw forever: it has fuel, and \<open>None\<close> is a loop that has used it up.
\<close>

fun place_one :: "nat \<Rightarrow> (nat \<Rightarrow> nat) \<Rightarrow> Tile \<Rightarrow> grid_world \<Rightarrow> nat \<Rightarrow> (grid_world \<times> nat) option" where
  "place_one 0 d t g k = None"
| "place_one (Suc fuel) d t g k =
     (let x = int (d k mod nat (gw_W g)); y = int (d (k + 1) mod nat (gw_H g))
      in if TileAt g x y = Empty then Some (set_tile x y t g, k + 2) else place_one fuel d t g (k + 2))"

fun place :: "nat \<Rightarrow> (nat \<Rightarrow> nat) \<Rightarrow> Tile \<Rightarrow> nat \<Rightarrow> grid_world \<Rightarrow> nat \<Rightarrow> (grid_world \<times> nat) option" where
  "place fuel d t 0 g k = Some (g, k)"
| "place fuel d t (Suc n) g k =
     (case place_one fuel d t g k of None \<Rightarrow> None | Some (g, k) \<Rightarrow> place fuel d t n g k)"

definition place_all :: "nat \<Rightarrow> (nat \<Rightarrow> nat) \<Rightarrow> nat \<Rightarrow> nat \<Rightarrow> nat \<Rightarrow> grid_world \<Rightarrow> nat \<Rightarrow> (grid_world \<times> nat) option" where
  "place_all fuel d traps artifacts fog g k =
     (case place fuel d Trap traps g k of None \<Rightarrow> None
      | Some (g, k) \<Rightarrow> (case place fuel d Artifact artifacts g k of None \<Rightarrow> None
      | Some (g, k) \<Rightarrow> place fuel d Fog fog g k))"

text \<open>\<open>make\<close> panics for a negative size, \<open>Intn\<close> for a range that is not positive.\<close>

definition NewWorldRandom ::
    "nat \<Rightarrow> (nat \<Rightarrow> nat) \<Rightarrow> nat \<Rightarrow> int \<Rightarrow> int \<Rightarrow> int \<Rightarrow> int \<Rightarrow> int \<Rightarrow> (grid_world \<times> nat) outcome option" where
  "NewWorldRandom fuel d k w h traps artifacts fog =
     (if h < 0 \<or> h > 0 \<and> w < 0 then Some (Panic NegativeSize)
      else if w \<le> 0 \<or> h \<le> 0 then Some (Panic InvalidArgument)
      else let wr = \<lparr>gw_W = w, gw_H = h, gw_Grid = replicate (nat h) (replicate (nat w) Empty)\<rparr>;
               ex = int (d k mod nat w); ey = int (d (k + 1) mod nat h)
           in map_option Ret (place_all fuel d (nat traps) (nat artifacts) (nat fog) (set_tile ex ey Exit wr) (k + 2)))"

section \<open>Well-formed grids\<close>

definition grid_wf :: "grid_world \<Rightarrow> bool" where
  "grid_wf g \<longleftrightarrow> 0 < gw_W g \<and> 0 < gw_H g \<and> int (length (gw_Grid g)) = gw_H g \<and>
     (\<forall>row\<in>set (gw_Grid g). int (length row) = gw_W g)"

definition cells :: "grid_world \<Rightarrow> (int \<times> int) set" where
  "cells g = {0..<gw_W g} \<times> {0..<gw_H g}"

definition tiles :: "Tile \<Rightarrow> grid_world \<Rightarrow> (int \<times> int) set" where
  "tiles t g = {p \<in> cells g. TileAt g (fst p) (snd p) = t}"

lemma in_cells: "(x, y) \<in> cells g \<longleftrightarrow> InBounds g x y"
  by (auto simp: cells_def InBounds_def)

lemma finite_cells [simp]: "finite (cells g)"
  by (simp add: cells_def)

lemma finite_tiles [simp]: "finite (tiles t g)"
  by (simp add: tiles_def)

lemma in_tiles: "(x, y) \<in> tiles t g \<longleftrightarrow> InBounds g x y \<and> TileAt g x y = t"
  by (simp add: tiles_def in_cells)

lemma card_cells: "grid_wf g \<Longrightarrow> int (card (cells g)) = gw_W g * gw_H g"
  by (simp add: cells_def grid_wf_def)

lemma set_tile_size [simp]:
  "gw_W (set_tile x y t g) = gw_W g" "gw_H (set_tile x y t g) = gw_H g"
  "InBounds (set_tile x y t g) = InBounds g" "cells (set_tile x y t g) = cells g"
  by (simp_all add: set_tile_def InBounds_def cells_def fun_eq_iff)

lemma rows:
  assumes "grid_wf g" and "InBounds g x y"
  shows "nat y < length (gw_Grid g)" "nat x < length (gw_Grid g ! nat y)"
proof -
  show row: "nat y < length (gw_Grid g)" using assms by (auto simp: grid_wf_def InBounds_def)
  then have "int (length (gw_Grid g ! nat y)) = gw_W g" using assms(1) by (simp add: grid_wf_def)
  then show "nat x < length (gw_Grid g ! nat y)" using assms(2) by (simp add: InBounds_def nat_less_iff)
qed

lemma grid_wf_set_tile: "grid_wf g \<Longrightarrow> InBounds g x y \<Longrightarrow> grid_wf (set_tile x y t g)"
  using rows [of g x y] by (auto simp: grid_wf_def set_tile_def set_conv_nth nth_list_update)

lemma TileAt_set_tile:
  assumes "grid_wf g" and "InBounds g x y"
  shows "TileAt (set_tile x y t g) x' y' = (if x' = x \<and> y' = y then t else TileAt g x' y')"
proof (cases "InBounds g x' y'")
  case True
  then have "nat x' = nat x \<longleftrightarrow> x' = x" "nat y' = nat y \<longleftrightarrow> y' = y"
    using assms(2) by (auto simp: InBounds_def)
  with True show ?thesis using rows [OF assms] rows [OF assms(1) True]
    by (cases "y' = y") (auto simp: TileAt_def set_tile_def [of x y t g] nth_list_update InBounds_def)
qed (use assms(2) in \<open>auto simp: TileAt_def\<close>)

lemma tiles_set_tile:
  assumes "grid_wf g" and "InBounds g x y"
  shows "tiles t' (set_tile x y t g) = (if t' = t then insert (x, y) (tiles t' g) else tiles t' g - {(x, y)})"
  using assms(2) by (auto simp: tiles_def TileAt_set_tile [OF assms] in_cells)

lemma card_tiles_set_tile:
  assumes "grid_wf g" and "InBounds g x y" and "TileAt g x y = u" and "u \<noteq> t"
  shows "int (card (tiles t' (set_tile x y t g))) =
    int (card (tiles t' g)) + (if t' = t then 1 else 0) - (if t' = u then 1 else 0)"
proof -
  have at: "(x, y) \<in> tiles u g" "(x, y) \<notin> tiles t g" using assms by (simp_all add: in_tiles)
  then have "0 < card (tiles u g)" by (auto simp: card_gt_0_iff)
  with at assms(4) show ?thesis
    by (auto simp: tiles_set_tile [OF assms(1,2)] card_Diff_singleton in_tiles assms(3) split: if_split)
qed

section \<open>What generation makes\<close>

definition census :: "Tile \<Rightarrow> grid_world \<Rightarrow> int" where
  "census t g = int (card (tiles t g))"

lemma census_set_tile:
  "grid_wf g \<Longrightarrow> InBounds g x y \<Longrightarrow> TileAt g x y = u \<Longrightarrow> u \<noteq> t \<Longrightarrow>
   census t' (set_tile x y t g) = census t' g + (if t' = t then 1 else 0) - (if t' = u then 1 else 0)"
  by (simp add: census_def card_tiles_set_tile)

lemma drawn_InBounds: "grid_wf g \<Longrightarrow> InBounds g (int (a mod nat (gw_W g))) (int (b mod nat (gw_H g)))"
  by (simp add: InBounds_def grid_wf_def zmod_int)

lemma place_one_places:
  assumes "place_one fuel d t g k = Some (g', k')" and "grid_wf g"
  shows "\<exists>x y. InBounds g x y \<and> TileAt g x y = Empty \<and> g' = set_tile x y t g"
  using assms(1)
proof (induction fuel arbitrary: k)
  case (Suc fuel)
  then show ?case using drawn_InBounds [OF assms(2)] by (auto simp: Let_def split: if_splits)
qed simp

lemma place_spec:
  assumes "place fuel d t n g k = Some (g', k')" and "grid_wf g" and "t \<noteq> Empty"
  shows "grid_wf g' \<and> gw_W g' = gw_W g \<and> gw_H g' = gw_H g \<and>
    (\<forall>t'. census t' g' = census t' g + (if t' = t then int n else 0) - (if t' = Empty then int n else 0))"
  using assms(1,2)
proof (induction n arbitrary: g k)
  case (Suc n)
  then obtain g1 k1 where one: "place_one fuel d t g k = Some (g1, k1)" and rest: "place fuel d t n g1 k1 = Some (g', k')"
    by (auto split: option.splits)
  obtain x y where xy: "InBounds g x y" "TileAt g x y = Empty" "g1 = set_tile x y t g"
    using place_one_places [OF one Suc.prems(2)] by blast
  with Suc.IH [OF rest] grid_wf_set_tile [OF Suc.prems(2) xy(1)] assms(3) show ?case
    by (auto simp: census_set_tile [OF Suc.prems(2)])
qed simp

text \<open>Draws that come back to every position, from wherever one looks.\<close>

definition fair_draws :: "(nat \<Rightarrow> nat) \<Rightarrow> int \<Rightarrow> int \<Rightarrow> bool" where
  "fair_draws d w h \<longleftrightarrow> (\<forall>k x y. 0 \<le> x \<and> x < w \<and> 0 \<le> y \<and> y < h \<longrightarrow>
     (\<exists>i. int (d (k + 2 * i) mod nat w) = x \<and> int (d (k + 2 * i + 1) mod nat h) = y))"

lemma place_one_more_fuel: "place_one fuel d t g k = Some r \<Longrightarrow> fuel \<le> fuel' \<Longrightarrow> place_one fuel' d t g k = Some r"
proof (induction fuel arbitrary: k fuel')
  case (Suc fuel)
  then obtain n where "fuel' = Suc n" by (cases fuel') auto
  with Suc show ?case by (auto simp: Let_def split: if_splits)
qed simp

lemma place_one_meets:
  assumes "int (d (k + 2 * i) mod nat (gw_W g)) = x" and "int (d (k + 2 * i + 1) mod nat (gw_H g)) = y" and "TileAt g x y = Empty"
  shows "\<exists>r. place_one (Suc i) d t g k = Some r"
  using assms(1,2)
proof (induction i arbitrary: k)
  case 0
  with assms(3) show ?case by (simp add: Let_def)
next
  case (Suc i)
  from Suc.prems have "\<exists>r. place_one (Suc i) d t g (k + 2) = Some r" by (intro Suc.IH) simp_all
  then show ?case by (simp only: place_one.simps(2) [of "Suc i"] Let_def split: if_split) blast
qed

lemma census_Empty: "0 < census Empty g \<Longrightarrow> \<exists>x y. InBounds g x y \<and> TileAt g x y = Empty"
  by (auto simp: census_def card_gt_0_iff in_tiles)

lemma place_one_returns:
  assumes "fair_draws d (gw_W g) (gw_H g)" and "0 < census Empty g"
  shows "\<exists>fuel r. place_one fuel d t g k = Some r"
proof -
  obtain x y where xy: "InBounds g x y" "TileAt g x y = Empty" using census_Empty [OF assms(2)] by blast
  then obtain i where "int (d (k + 2 * i) mod nat (gw_W g)) = x" "int (d (k + 2 * i + 1) mod nat (gw_H g)) = y"
    using assms(1) unfolding fair_draws_def InBounds_def by blast
  from place_one_meets [OF this xy(2)] show ?thesis by blast
qed

lemma place_more_fuel: "place fuel d t n g k = Some r \<Longrightarrow> fuel \<le> fuel' \<Longrightarrow> place fuel' d t n g k = Some r"
proof (induction n arbitrary: g k)
  case (Suc n)
  then obtain g1 k1 where "place_one fuel d t g k = Some (g1, k1)" by (auto split: option.splits)
  with Suc place_one_more_fuel [OF this Suc.prems(2)] show ?case by simp
qed simp

lemma place_returns:
  assumes "grid_wf g" and "t \<noteq> Empty" and "fair_draws d (gw_W g) (gw_H g)" and "int n \<le> census Empty g"
  shows "\<exists>fuel r. place fuel d t n g k = Some r"
  using assms(1,3,4)
proof (induction n arbitrary: g k)
  case (Suc n)
  obtain f1 g1 k1 where one: "place_one f1 d t g k = Some (g1, k1)"
    using place_one_returns [OF Suc.prems(2), of t k] Suc.prems(3) by fastforce
  obtain x y where xy: "InBounds g x y" "TileAt g x y = Empty" "g1 = set_tile x y t g"
    using place_one_places [OF one Suc.prems(1)] by blast
  have "\<exists>fuel r. place fuel d t n g1 k1 = Some r"
  proof (rule Suc.IH)
    show "grid_wf g1" using xy Suc.prems(1) by (simp add: grid_wf_set_tile)
    show "int n \<le> census Empty g1" using xy Suc.prems(1,3) assms(2) by (simp add: census_set_tile [OF Suc.prems(1)])
  qed (use xy Suc.prems(2) in simp)
  then obtain f2 r where rest: "place f2 d t n g1 k1 = Some r" by blast
  have "place (max f1 f2) d t (Suc n) g k = Some r"
    using place_one_more_fuel [OF one, of "max f1 f2"] place_more_fuel [OF rest, of "max f1 f2"] by simp
  then show ?case by blast
qed simp

lemma census_total: "grid_wf g \<Longrightarrow> census Empty g + census Trap g + census Artifact g + census Exit g + census Fog g = gw_W g * gw_H g"
proof -
  assume wf: "grid_wf g"
  have "cells g = (\<Union>t\<in>{Empty, Trap, Artifact, Exit, Fog}. tiles t g)"
    using Tile.exhaust by (auto simp: tiles_def)
  moreover have "card (\<Union>t\<in>{Empty, Trap, Artifact, Exit, Fog}. tiles t g) = (\<Sum>t\<in>{Empty, Trap, Artifact, Exit, Fog}. card (tiles t g))"
    by (rule card_UN_disjoint) (auto simp: tiles_def)
  ultimately have "int (card (cells g)) = census Empty g + census Trap g + census Artifact g + census Exit g + census Fog g"
    by (simp add: census_def)
  with wf show ?thesis by (simp add: card_cells)
qed

lemma empty_grid:
  assumes "0 < w" and "0 < h"
  shows "grid_wf \<lparr>gw_W = w, gw_H = h, gw_Grid = replicate (nat h) (replicate (nat w) Empty)\<rparr>" (is "grid_wf ?g")
    and "census t \<lparr>gw_W = w, gw_H = h, gw_Grid = replicate (nat h) (replicate (nat w) Empty)\<rparr> = (if t = Empty then w * h else 0)"
proof -
  show wf: "grid_wf ?g" using assms by (auto simp: grid_wf_def)
  have none: "census t ?g = 0" if "t \<noteq> Empty" for t
    using that by (auto simp: census_def tiles_def cells_def TileAt_def InBounds_def)
  with census_total [OF wf] show "census t ?g = (if t = Empty then w * h else 0)" by simp
qed

text \<open>The grid the placements start from: all empty but for the exit.\<close>

definition exit_grid :: "(nat \<Rightarrow> nat) \<Rightarrow> nat \<Rightarrow> int \<Rightarrow> int \<Rightarrow> grid_world" where
  "exit_grid d k w h = set_tile (int (d k mod nat w)) (int (d (k + 1) mod nat h)) Exit
     \<lparr>gw_W = w, gw_H = h, gw_Grid = replicate (nat h) (replicate (nat w) Empty)\<rparr>"

lemma exit_grid_spec:
  assumes "0 < w" and "0 < h"
  shows "grid_wf (exit_grid d k w h)" "gw_W (exit_grid d k w h) = w" "gw_H (exit_grid d k w h) = h"
    "census t (exit_grid d k w h) = (if t = Exit then 1 else if t = Empty then w * h - 1 else 0)"
proof -
  let ?g = "\<lparr>gw_W = w, gw_H = h, gw_Grid = replicate (nat h) (replicate (nat w) Empty)\<rparr>"
  note wf = empty_grid(1) [OF assms]
  have b: "InBounds ?g (int (d k mod nat w)) (int (d (k + 1) mod nat h))"
    using drawn_InBounds [OF wf, of "d k" "d (k + 1)"] by simp
  then have at: "TileAt ?g (int (d k mod nat w)) (int (d (k + 1) mod nat h)) = Empty"
    by (simp add: TileAt_def InBounds_def nat_less_iff)
  from wf b show "grid_wf (exit_grid d k w h)" unfolding exit_grid_def by (rule grid_wf_set_tile)
  show "gw_W (exit_grid d k w h) = w" "gw_H (exit_grid d k w h) = h" by (simp_all add: exit_grid_def)
  show "census t (exit_grid d k w h) = (if t = Exit then 1 else if t = Empty then w * h - 1 else 0)"
    unfolding exit_grid_def by (subst census_set_tile [OF wf b at]) (simp_all add: empty_grid(2) [OF assms])
qed

lemma New_is_place_all:
  "0 < w \<Longrightarrow> 0 < h \<Longrightarrow> NewWorldRandom fuel d k w h traps artifacts fog =
   map_option Ret (place_all fuel d (nat traps) (nat artifacts) (nat fog) (exit_grid d k w h) (k + 2))"
  by (simp add: NewWorldRandom_def exit_grid_def)

lemma place_all_spec:
  assumes "place_all fuel d a b c g k = Some (g', k')" and "grid_wf g"
  shows "grid_wf g' \<and> gw_W g' = gw_W g \<and> gw_H g' = gw_H g \<and> census Trap g' = census Trap g + int a \<and>
    census Artifact g' = census Artifact g + int b \<and> census Fog g' = census Fog g + int c \<and>
    census Exit g' = census Exit g \<and> census Empty g' = census Empty g - int (a + b + c)"
proof -
  from assms(1) obtain g1 k1 g2 k2 where p: "place fuel d Trap a g k = Some (g1, k1)"
    "place fuel d Artifact b g1 k1 = Some (g2, k2)" "place fuel d Fog c g2 k2 = Some (g', k')"
    by (auto simp: place_all_def split: option.splits)
  from place_spec [OF p(1) assms(2)] have 1: "grid_wf g1 \<and> gw_W g1 = gw_W g \<and> gw_H g1 = gw_H g \<and>
    (\<forall>t'. census t' g1 = census t' g + (if t' = Trap then int a else 0) - (if t' = Empty then int a else 0))" by simp
  with place_spec [OF p(2)] have 2: "grid_wf g2 \<and> gw_W g2 = gw_W g1 \<and> gw_H g2 = gw_H g1 \<and>
    (\<forall>t'. census t' g2 = census t' g1 + (if t' = Artifact then int b else 0) - (if t' = Empty then int b else 0))" by simp
  with place_spec [OF p(3)] have "grid_wf g' \<and> gw_W g' = gw_W g2 \<and> gw_H g' = gw_H g2 \<and>
    (\<forall>t'. census t' g' = census t' g2 + (if t' = Fog then int c else 0) - (if t' = Empty then int c else 0))" by simp
  with 1 2 show ?thesis by simp
qed

lemma place_all_returns:
  assumes "grid_wf g" and "fair_draws d (gw_W g) (gw_H g)" and "int (a + b + c) \<le> census Empty g"
  shows "\<exists>fuel r. place_all fuel d a b c g k = Some r"
proof -
  obtain f1 g1 k1 where p1: "place f1 d Trap a g k = Some (g1, k1)"
    using place_returns [OF assms(1) _ assms(2), of Trap a] assms(3) by fastforce
  from place_spec [OF p1 assms(1)] have 1: "grid_wf g1" "gw_W g1 = gw_W g" "gw_H g1 = gw_H g" "census Empty g1 = census Empty g - int a"
    by simp_all
  obtain f2 g2 k2 where p2: "place f2 d Artifact b g1 k1 = Some (g2, k2)"
    using place_returns [OF 1(1), of Artifact d b] 1 assms(2,3) by fastforce
  from place_spec [OF p2 1(1)] 1 have 2: "grid_wf g2" "gw_W g2 = gw_W g" "gw_H g2 = gw_H g" "census Empty g2 = census Empty g - int a - int b"
    by simp_all
  obtain f3 r where p3: "place f3 d Fog c g2 k2 = Some r"
    using place_returns [OF 2(1), of Fog d c] 2 assms(2,3) by fastforce
  let ?f = "max f1 (max f2 f3)"
  have "place ?f d Trap a g k = Some (g1, k1)" "place ?f d Artifact b g1 k1 = Some (g2, k2)" "place ?f d Fog c g2 k2 = Some r"
    by (rule place_more_fuel [OF p1] place_more_fuel [OF p2] place_more_fuel [OF p3], simp)+
  then have "place_all ?f d a b c g k = Some r" by (simp add: place_all_def)
  then show ?thesis by blast
qed

text \<open>
  C19. The random grid. Under draws that keep coming back to every position, the generation returns for
  exactly those numbers of traps, artifacts and fog tiles that fit beside the exit; with more it draws
  forever, whatever the fuel. Whenever it returns, with these draws or others, the grid has the asked
  size, one exit, exactly the asked numbers of each kind, and is empty elsewhere.
\<close>

theorem generation_fills:
  assumes "0 < w" and "0 < h" and "0 \<le> traps" and "0 \<le> artifacts" and "0 \<le> fog"
  shows "(fair_draws d w h \<longrightarrow>
      ((\<exists>fuel r. NewWorldRandom fuel d k w h traps artifacts fog = Some r) \<longleftrightarrow> 1 + traps + artifacts + fog \<le> w * h)) \<and>
    (\<forall>fuel r. NewWorldRandom fuel d k w h traps artifacts fog = Some r \<longrightarrow>
      (\<exists>g k'. r = Ret (g, k') \<and> grid_wf g \<and> gw_W g = w \<and> gw_H g = h \<and> census Exit g = 1 \<and> census Trap g = traps \<and>
         census Artifact g = artifacts \<and> census Fog g = fog \<and> census Empty g = w * h - 1 - traps - artifacts - fog))"
proof -
  note start = exit_grid_spec [OF assms(1,2), where d = d and k = k]
  have made: "\<exists>g k'. r = Ret (g, k') \<and> grid_wf g \<and> gw_W g = w \<and> gw_H g = h \<and> census Exit g = 1 \<and> census Trap g = traps \<and>
      census Artifact g = artifacts \<and> census Fog g = fog \<and> census Empty g = w * h - 1 - traps - artifacts - fog"
    if returned: "NewWorldRandom fuel d k w h traps artifacts fog = Some r" for fuel r
  proof -
    obtain g k' where r: "r = Ret (g, k')"
      and p: "place_all fuel d (nat traps) (nat artifacts) (nat fog) (exit_grid d k w h) (k + 2) = Some (g, k')"
      using returned by (auto simp: New_is_place_all [OF assms(1,2)])
    with place_all_spec [OF p start(1)] start assms show ?thesis by auto
  qed
  have "1 + traps + artifacts + fog \<le> w * h" if "NewWorldRandom fuel d k w h traps artifacts fog = Some r" for fuel r
  proof -
    obtain g where "census Empty g = w * h - 1 - traps - artifacts - fog" using made [OF \<open>NewWorldRandom _ _ _ _ _ _ _ _ = _\<close>] by blast
    moreover have "0 \<le> census Empty g" by (simp add: census_def)
    ultimately show ?thesis by linarith
  qed
  moreover have "\<exists>fuel r. NewWorldRandom fuel d k w h traps artifacts fog = Some r"
    if fair: "fair_draws d w h" and fits: "1 + traps + artifacts + fog \<le> w * h"
  proof -
    have "\<exists>fuel r. place_all fuel d (nat traps) (nat artifacts) (nat fog) (exit_grid d k w h) (k + 2) = Some r"
      by (rule place_all_returns) (use start fair fits assms in simp_all)
    then show ?thesis by (auto simp: New_is_place_all [OF assms(1,2)])
  qed
  ultimately show ?thesis using made by blast
qed

lemma halves_fair: "fair_draws (\<lambda>j. j div 2) 2 1"
proof -
  have "\<exists>i. int ((k + 2 * i) div 2 mod 2) = x" if "0 \<le> x" "x < 2" for k x
  proof (cases "int (k div 2 mod 2) = x")
    case True
    then have "int ((k + 2 * 0) div 2 mod 2) = x" by simp
    then show ?thesis by blast
  next
    case False
    with that have "int ((k + 2 * 1) div 2 mod 2) = x" by presburger
    then show ?thesis by blast
  qed
  then show ?thesis by (auto simp: fair_draws_def)
qed

theorem generation_fills_witness:
  "(\<exists>fuel r. NewWorldRandom fuel (\<lambda>j. j div 2) 0 2 1 1 0 0 = Some r) \<and>
   \<not> (\<exists>fuel r. NewWorldRandom fuel (\<lambda>j. j div 2) 0 2 1 1 1 0 = Some r)"
  using generation_fills [of 2 1 1 0 0 "\<lambda>j. j div 2" 0] generation_fills [of 2 1 1 1 0 "\<lambda>j. j div 2" 0] halves_fair
  by simp

end
