(* ===== verification/Npc_Blackboard.thy ===== *)
theory Npc_Blackboard
  imports Zeus_Prelude "HOL-Library.AList" "HOL-Library.List_Lexorder" "HOL-Library.Char_ord"
begin

text \<open>
  The blackboard of the agents, \<open>internal/core/npc/blackboard.go\<close>: one map of dynamically typed values,
  seen through views. A view is the prefix of its namespace; all views of a blackboard share the map
  of the root, which is the state the operations pass on. The interface \<open>blackboard\<close> states what the
  nodes and sensors rely on, and every view provides it.
\<close>

section \<open>Values\<close>

text \<open>
  The values a blackboard holds, by their dynamic type. Floats are of a type \<open>'f\<close>; a time is its
  distance in nanoseconds from the zero time; \<open>AObject\<close> is a value that may implement the physics
  package's \<open>Transform\<close> and \<open>Vector2\<close>, with the coordinates those give; the two function types a sensor
  looks for are represented by what the function returns; \<open>AOther\<close> is a value of any other type.
\<close>

datatype 'f any = ANil | ABool bool | AInt int64 | AInt64 int64 | AUint64 uint64 | AFloat64 'f | AFloat32 'f
  | AString string | ATime int | AObject "('f \<times> 'f) option" "('f \<times> 'f) option"
  | ABoolFunc bool | AErrFunc "go_err option" | AOther nat

type_synonym 'f bbData = "(string \<times> 'f any) list"

section \<open>Operations\<close>

definition NewBlackboard :: "'f bbData" where
  "NewBlackboard = []"

definition fullKey :: "string \<Rightarrow> string \<Rightarrow> string" where
  "fullKey pre key = (if pre = [] then key else pre @ '':'' @ key)"

definition bb_Get :: "string \<Rightarrow> 'f bbData \<Rightarrow> string \<Rightarrow> 'f any option" where
  "bb_Get pre data key = map_of data (fullKey pre key)"

definition bb_Set :: "string \<Rightarrow> string \<Rightarrow> 'f any \<Rightarrow> 'f bbData \<Rightarrow> 'f bbData" where
  "bb_Set pre key v data = AList.update (fullKey pre key) v data"

definition bb_Delete :: "string \<Rightarrow> string \<Rightarrow> 'f bbData \<Rightarrow> 'f bbData" where
  "bb_Delete pre key data = AList.delete (fullKey pre key) data"

text \<open>\<open>strings.ReplaceAll(ns, ":", "_")\<close>. The new view starts from the root, whatever view it is asked of.\<close>

definition sanitize :: "string \<Rightarrow> string" where
  "sanitize ns = map (\<lambda>c. if c = CHR '':'' then CHR ''_'' else c) ns"

definition bb_Namespace :: "string \<Rightarrow> string \<Rightarrow> string" where
  "bb_Namespace pre ns = (if CHR '':'' \<in> set ns then sanitize ns else ns)"

definition HasPrefix :: "string \<Rightarrow> string \<Rightarrow> bool" where
  "HasPrefix s p \<longleftrightarrow> take (length p) s = p"

definition bb_Keys :: "string \<Rightarrow> 'f bbData \<Rightarrow> string list" where
  "bb_Keys pre data =
     (let keys = sort (map fst data)
      in if pre = [] then keys
         else map (drop (length (pre @ '':''))) (filter (\<lambda>k. HasPrefix k (pre @ '':'')) keys))"

text \<open>
  Persistence through \<open>encoding/gob\<close>. A value inside an interface can be encoded when its type is
  registered, which the basic types are and no other type is here. Decoding into a map that is
  there already stores the decoded entries into it. The encoded bytes are represented by the map
  they encode.
\<close>

fun gob_registered :: "'f any \<Rightarrow> bool" where
  "gob_registered (ATime t) = False"
| "gob_registered (AObject p q) = False"
| "gob_registered (ABoolFunc b) = False"
| "gob_registered (AErrFunc e) = False"
| "gob_registered (AOther n) = False"
| "gob_registered v = True"

definition bb_MarshalBinary :: "'f bbData \<Rightarrow> go_err + 'f bbData" where
  "bb_MarshalBinary data =
     (if list_all (\<lambda>e. gob_registered (snd e)) data then Inr data
      else Inl (Err ''gob: type not registered for interface''))"

definition bb_UnmarshalBinary :: "'f bbData \<Rightarrow> 'f bbData \<Rightarrow> 'f bbData" where
  "bb_UnmarshalBinary enc data = fold (\<lambda>(k, v). AList.update k v) enc data"

section \<open>The interface\<close>

text \<open>What a client of one view relies on.\<close>

locale blackboard =
  fixes get :: "'s \<Rightarrow> string \<Rightarrow> 'v option"
    and set_key :: "string \<Rightarrow> 'v \<Rightarrow> 's \<Rightarrow> 's"
    and delete_key :: "string \<Rightarrow> 's \<Rightarrow> 's"
    and keys :: "'s \<Rightarrow> string list"
    and ok :: "'s \<Rightarrow> bool"
  assumes get_set: "get (set_key k v s) k' = (if k' = k then Some v else get s k')"
    and get_delete: "get (delete_key k s) k' = (if k' = k then None else get s k')"
    and keys_defined: "ok s \<Longrightarrow> set (keys s) = {k. get s k \<noteq> None}"
    and keys_sorted: "ok s \<Longrightarrow> sorted (keys s) \<and> distinct (keys s)"
    and ok_set: "ok s \<Longrightarrow> ok (set_key k v s)"
    and ok_delete: "ok s \<Longrightarrow> ok (delete_key k s)"
begin

lemma delete_set: "get s k = None \<Longrightarrow> get (delete_key k (set_key k v s)) k' = get s k'"
  by (simp add: get_set get_delete)

lemma keys_set:
  assumes "ok s"
  shows "keys (set_key k v s) = (if k \<in> set (keys s) then keys s else insort k (keys s))"
proof -
  have new: "set (keys (set_key k v s)) = insert k (set (keys s))"
    using assms by (auto simp: keys_defined ok_set get_set)
  note new_sorted = keys_sorted [OF ok_set [OF assms, of k v]] and old_sorted = keys_sorted [OF assms]
  show ?thesis
  proof (cases "k \<in> set (keys s)")
    case True
    then have "set (keys (set_key k v s)) = set (keys s)" using new by (simp add: insert_absorb)
    with new_sorted old_sorted True show ?thesis by (simp add: sorted_distinct_set_unique)
  next
    case False
    have "sorted (insort k (keys s))" "distinct (insort k (keys s))"
      using old_sorted False by (simp_all add: sorted_insort distinct_insort)
    moreover have "set (insort k (keys s)) = set (keys (set_key k v s))" using new by (simp add: set_insort_key)
    ultimately show ?thesis using new_sorted False by (simp add: sorted_distinct_set_unique)
  qed
qed

end

section \<open>Every view provides it\<close>

definition bb_inv :: "'f bbData \<Rightarrow> bool" where
  "bb_inv data \<longleftrightarrow> distinct (map fst data)"

lemma fullKey_inj: "fullKey pre k = fullKey pre k' \<longleftrightarrow> k = k'"
  by (simp add: fullKey_def)

lemma HasPrefix_fullKey:
  assumes "pre \<noteq> []"
  shows "HasPrefix k (pre @ '':'') \<longleftrightarrow> (\<exists>k'. k = fullKey pre k')"
proof
  assume "HasPrefix k (pre @ '':'')"
  then have "k = (pre @ '':'') @ drop (length (pre @ '':'')) k"
    unfolding HasPrefix_def by (metis append_take_drop_id)
  then have "k = fullKey pre (drop (length (pre @ '':'')) k)" using assms by (simp add: fullKey_def)
  then show "\<exists>k'. k = fullKey pre k'" by blast
qed (use assms in \<open>auto simp: HasPrefix_def fullKey_def\<close>)

lemma drop_fullKey: "pre \<noteq> [] \<Longrightarrow> drop (length (pre @ '':'')) (fullKey pre k) = k"
  by (simp add: fullKey_def)

lemma fullKey_mono:
  fixes k k' :: string
  shows "fullKey pre k \<le> fullKey pre k' \<longleftrightarrow> k \<le> k'"
proof -
  have "p @ k \<le> p @ k' \<longleftrightarrow> k \<le> k'" for p :: string by (induction p) auto
  from this [of "pre @ '':''"] show ?thesis by (simp add: fullKey_def)
qed

lemma keys_as_fullKeys:
  assumes "pre \<noteq> []"
  shows "map (fullKey pre) (map (drop (length (pre @ '':''))) (filter (\<lambda>k. HasPrefix k (pre @ '':'')) ks)) =
    filter (\<lambda>k. HasPrefix k (pre @ '':'')) ks"
proof (induction ks)
  case (Cons k ks)
  have "fullKey pre (drop (length (pre @ '':'')) k) = k" if p: "HasPrefix k (pre @ '':'')"
  proof -
    from p obtain k' where "k = fullKey pre k'" using HasPrefix_fullKey [OF assms] by blast
    then show ?thesis by (simp only: drop_fullKey [OF assms])
  qed
  with Cons show ?case by (simp only: filter.simps list.map if_True if_False split: if_split) simp
qed simp

lemma filter_sorted_keys:
  assumes "bb_inv data" and "pre \<noteq> []"
  shows "map (fullKey pre) (bb_Keys pre data) = filter (\<lambda>k. HasPrefix k (pre @ '':'')) (sort (map fst data))"
  using keys_as_fullKeys [OF assms(2)] assms(2) by (simp add: bb_Keys_def Let_def)

lemma bb_Keys_spec:
  assumes "bb_inv data"
  shows "set (bb_Keys pre data) = {k. bb_Get pre data k \<noteq> None}" and "sorted (bb_Keys pre data)"
    and "distinct (bb_Keys pre data)"
proof -
  have dom: "bb_Get pre data k \<noteq> None \<longleftrightarrow> fullKey pre k \<in> fst ` set data" for k
    by (simp add: bb_Get_def map_of_eq_None_iff)
  have root: "map (fullKey []) ks = ks" for ks by (induction ks) (simp_all add: fullKey_def)
  have d: "distinct (sort (map fst data))" using assms by (simp add: bb_inv_def)
  show "set (bb_Keys pre data) = {k. bb_Get pre data k \<noteq> None}"
  proof (cases "pre = []")
    case True
    with dom show ?thesis by (auto simp: bb_Keys_def fullKey_def)
  next
    case False
    have "fullKey pre ` set (bb_Keys pre data) = {k \<in> fst ` set data. \<exists>k'. k = fullKey pre k'}"
      using arg_cong [OF filter_sorted_keys [OF assms False], of set] HasPrefix_fullKey [OF False] by auto
    moreover have "fullKey pre k \<in> fullKey pre ` set (bb_Keys pre data) \<longleftrightarrow> k \<in> set (bb_Keys pre data)" for k
      by (simp add: inj_image_mem_iff inj_def fullKey_inj)
    ultimately have "k \<in> set (bb_Keys pre data) \<longleftrightarrow> fullKey pre k \<in> fst ` set data" for k by blast
    with dom show ?thesis by blast
  qed
  have m: "map (fullKey pre) (bb_Keys pre data) =
      (if pre = [] then bb_Keys pre data else filter (\<lambda>k. HasPrefix k (pre @ '':'')) (sort (map fst data)))"
    using filter_sorted_keys [OF assms] root by (cases "pre = []") simp_all
  then have fs: "sorted (map (fullKey pre) (bb_Keys pre data))" "distinct (map (fullKey pre) (bb_Keys pre data))"
    using d by (auto simp: bb_Keys_def sorted_wrt_filter)
  then show "distinct (bb_Keys pre data)" by (simp add: distinct_map)
  from fs(1) show "sorted (bb_Keys pre data)" by (simp add: sorted_map fullKey_mono)
qed

interpretation view: blackboard "bb_Get pre" "bb_Set pre" "bb_Delete pre" "bb_Keys pre" bb_inv
  for pre :: string
  by unfold_locales
    (simp_all add: bb_Get_def bb_Set_def bb_Delete_def AList.update_conv' AList.delete_conv' fullKey_inj bb_Keys_spec
      bb_inv_def AList.distinct_update AList.distinct_delete)

section \<open>Namespaces\<close>

lemma sanitize_no_colon: "CHR '':'' \<notin> set (sanitize ns)"
  by (auto simp: sanitize_def)

lemma sanitize_id: "CHR '':'' \<notin> set ns \<Longrightarrow> sanitize ns = ns"
  by (auto simp: sanitize_def intro: map_idI)

lemma Namespace_sanitize: "bb_Namespace pre ns = sanitize ns"
  by (simp add: bb_Namespace_def sanitize_id)

lemma sanitize_Nil: "sanitize ns = [] \<longleftrightarrow> ns = []"
  by (simp add: sanitize_def)

lemma split_at_colon:
  "CHR '':'' \<notin> set a \<Longrightarrow> CHR '':'' \<notin> set b \<Longrightarrow> a @ '':'' @ k = b @ '':'' @ k' \<longleftrightarrow> a = b \<and> k = k'"
proof (induction a arbitrary: b)
  case Nil
  then show ?case by (cases b) auto
next
  case (Cons c a)
  then show ?case by (cases b) auto
qed

lemma fullKey_namespaces:
  assumes "ns \<noteq> []" and "ms \<noteq> []"
  shows "fullKey (bb_Namespace p ns) k = fullKey (bb_Namespace q ms) k' \<longleftrightarrow> sanitize ns = sanitize ms \<and> k = k'"
  using assms split_at_colon [OF sanitize_no_colon sanitize_no_colon]
  by (simp add: fullKey_def Namespace_sanitize sanitize_Nil)

text \<open>
  Namespaces of a blackboard. A write or delete through one namespace shows in another exactly when
  their names agree up to writing \<open>_\<close> for \<open>:\<close>, and there at the same key; every other entry of every
  namespace stays. A namespace asked of a namespace is one of the root, so namespaces do not nest.
  After the write, \<open>Keys\<close> of any view lists in ascending order exactly the keys \<open>Get\<close> finds there.
\<close>

theorem namespace_isolation:
  assumes "ns \<noteq> []" and "ms \<noteq> []" and "bb_inv data"
  shows "bb_Get (bb_Namespace q ms) (bb_Set (bb_Namespace p ns) k v data) k' =
      (if sanitize ms = sanitize ns \<and> k' = k then Some v else bb_Get (bb_Namespace q ms) data k') \<and>
    bb_Get (bb_Namespace q ms) (bb_Delete (bb_Namespace p ns) k data) k' =
      (if sanitize ms = sanitize ns \<and> k' = k then None else bb_Get (bb_Namespace q ms) data k') \<and>
    bb_Namespace (bb_Namespace p ns) ms = bb_Namespace [] ms \<and>
    set (bb_Keys pre (bb_Set (bb_Namespace p ns) k v data)) = {x. bb_Get pre (bb_Set (bb_Namespace p ns) k v data) x \<noteq> None} \<and>
    sorted (bb_Keys pre (bb_Set (bb_Namespace p ns) k v data))"
proof (intro conjI)
  show "bb_Get (bb_Namespace q ms) (bb_Set (bb_Namespace p ns) k v data) k' =
      (if sanitize ms = sanitize ns \<and> k' = k then Some v else bb_Get (bb_Namespace q ms) data k')"
    by (simp add: bb_Get_def bb_Set_def AList.update_conv' fullKey_namespaces [OF assms(2,1)])
  show "bb_Get (bb_Namespace q ms) (bb_Delete (bb_Namespace p ns) k data) k' =
      (if sanitize ms = sanitize ns \<and> k' = k then None else bb_Get (bb_Namespace q ms) data k')"
    by (simp add: bb_Get_def bb_Delete_def AList.delete_conv' fullKey_namespaces [OF assms(2,1)])
qed (simp_all add: Namespace_sanitize view.keys_defined view.keys_sorted view.ok_set assms(3))

theorem namespace_isolation_witness:
  "bb_Get (bb_Namespace [] ''ai'') (bb_Set (bb_Namespace [] ''a:i'') ''hp'' (AInt 3 :: nat any) NewBlackboard) ''hp'' = None \<and>
   bb_Get (bb_Namespace [] ''a_i'') (bb_Set (bb_Namespace [] ''a:i'') ''hp'' (AInt 3 :: nat any) NewBlackboard) ''hp'' = Some (AInt 3)"
  using namespace_isolation [of "''a:i''" "''ai''" NewBlackboard "[]" "[]" "''hp''" "AInt 3 :: nat any" "''hp''" "[]"]
    namespace_isolation [of "''a:i''" "''a_i''" NewBlackboard "[]" "[]" "''hp''" "AInt 3 :: nat any" "''hp''" "[]"]
  by (simp add: bb_inv_def NewBlackboard_def sanitize_def bb_Get_def)

section \<open>Persistence\<close>

lemma bb_Unmarshal_map_of:
  "map_of (bb_UnmarshalBinary enc data) = map_of data ++ map_of (rev enc)"
  unfolding bb_UnmarshalBinary_def
proof (induction enc arbitrary: data)
  case (Cons e enc)
  obtain k v where "e = (k, v)" by (rule prod.exhaust)
  with Cons show ?case by (simp add: AList.update_conv' map_add_upd_left fun_eq_iff map_add_def split: option.split)
qed simp

text \<open>
  A blackboard is encoded exactly when no value in it is of a type \<open>gob\<close> does not know, and a time,
  which waits, timers and cooldowns store, is one. Decoding does not restore the saved state: it adds
  the saved entries to those present, so that a key set since the save is still there.
\<close>

theorem blackboard_persistence:
  assumes "bb_inv data"
  shows "(case bb_MarshalBinary data of
      Inl e \<Rightarrow> \<exists>k v. bb_Get [] data k = Some v \<and> \<not> gob_registered v
    | Inr enc \<Rightarrow> bb_Get pre (bb_UnmarshalBinary enc data') key =
        (case bb_Get pre data key of Some v \<Rightarrow> Some v | None \<Rightarrow> bb_Get pre data' key)) \<and>
   (bb_Get pre data key = Some (ATime t) \<longrightarrow> (\<exists>e. bb_MarshalBinary data = Inl e))"
proof -
  have "\<exists>k v. bb_Get [] data k = Some v \<and> \<not> gob_registered v" if "\<not> list_all (\<lambda>e. gob_registered (snd e)) data"
    using assms that by (force simp: bb_inv_def list_all_iff bb_Get_def fullKey_def)
  moreover have "map_of (rev data) = map_of data"
    using assms by (subst map_of_inject_set) (simp_all add: bb_inv_def rev_map [symmetric])
  moreover have "\<not> list_all (\<lambda>e. gob_registered (snd e)) data" if "bb_Get pre data key = Some (ATime t)"
    using that by (force simp: bb_Get_def list_all_iff dest: map_of_SomeD)
  ultimately show ?thesis
    by (auto simp: bb_MarshalBinary_def bb_Get_def bb_Unmarshal_map_of map_add_def split: option.split)
qed

theorem blackboard_persistence_witness:
  "bb_Get [] (bb_UnmarshalBinary [(''x'', AInt 42)] [(''x'', AInt 1), (''y'', ABool True :: nat any)]) ''y'' = Some (ABool True) \<and>
   (\<exists>e. bb_MarshalBinary [(''Wait.start'', ATime 5 :: nat any)] = Inl e)"
  using blackboard_persistence [where data = "[(''x'', AInt 42)]" and pre = "[]" and key = "''y''" and t = 0
      and data' = "[(''x'', AInt 1), (''y'', ABool True :: nat any)]"]
    blackboard_persistence [where data = "[(''Wait.start'', ATime 5 :: nat any)]" and pre = "[]" and key = "''Wait.start''"
      and t = 5 and data' = "[]"]
  by (simp add: bb_inv_def bb_Get_def fullKey_def bb_MarshalBinary_def)

end
