(* ===== verification/Npc_Memory.thy ===== *)
theory Npc_Memory
  imports Npc_Blackboard
begin

text \<open>
  The decision history of an agent, \<open>internal/core/npc/memory.go\<close>, and the small wrappers of \<open>learning.go\<close>
  around it. The slice that holds the records is modelled with its backing array, because \<open>Reset\<close> and
  \<open>Load\<close> go on using the array that is there.
\<close>

section \<open>Records\<close>

text \<open>A \<open>Status\<close> is an integer; an action may return one that is none of the three.\<close>

datatype Status = StatusSuccess | StatusFailure | StatusRunning | StatusOther int

record DecisionRecord =
  dr_Node :: string
  dr_Status :: Status
  dr_Duration :: int
  dr_Timestamp :: int
  dr_Metadata :: string

text \<open>The zero value; \<open>StatusSuccess\<close> is zero.\<close>

definition zero_record :: DecisionRecord where
  "zero_record = \<lparr>dr_Node = [], dr_Status = StatusSuccess, dr_Duration = 0, dr_Timestamp = 0, dr_Metadata = []\<rparr>"

section \<open>The memory\<close>

text \<open>
  \<open>m_list\<close> is the slice, \<open>m_spare\<close> the rest of its backing array up to its capacity. When \<open>append\<close> needs
  a larger array, \<open>m_grow\<close> says how many elements beyond the new one it gets.
\<close>

record Memory =
  m_list :: "DecisionRecord list"
  m_spare :: "DecisionRecord list"
  m_grow :: "nat \<Rightarrow> nat"

definition NewMemory :: "(nat \<Rightarrow> nat) \<Rightarrow> Memory" where
  "NewMemory grow = \<lparr>m_list = [], m_spare = replicate 128 zero_record, m_grow = grow\<rparr>"

definition AppendDecision :: "DecisionRecord \<Rightarrow> Memory \<Rightarrow> Memory" where
  "AppendDecision rec m =
     m\<lparr>m_list := m_list m @ [rec],
       m_spare := (case m_spare m of
           [] \<Rightarrow> replicate (m_grow m (length (m_list m))) zero_record
         | x # xs \<Rightarrow> xs)\<rparr>"

definition History :: "Memory \<Rightarrow> DecisionRecord list" where
  "History m = m_list m"

definition Memory_Reset :: "Memory \<Rightarrow> Memory" where
  "Memory_Reset m = m\<lparr>m_list := [], m_spare := m_list m @ m_spare m\<rparr>"

text \<open>The encoded bytes are represented by the records they encode.\<close>

definition Memory_Save :: "Memory \<Rightarrow> DecisionRecord list" where
  "Memory_Save m = m_list m"

text \<open>
  \<open>gob\<close> does not transmit a field that is zero, and decodes a struct into what is there: such a field
  keeps its old value. A slice whose capacity is enough is decoded into its own array.
\<close>

definition gob_overlay :: "DecisionRecord \<Rightarrow> DecisionRecord \<Rightarrow> DecisionRecord" where
  "gob_overlay old new =
     \<lparr>dr_Node = (if dr_Node new = [] then dr_Node old else dr_Node new),
      dr_Status = (if dr_Status new \<in> {StatusSuccess, StatusOther 0} then dr_Status old else dr_Status new),
      dr_Duration = (if dr_Duration new = 0 then dr_Duration old else dr_Duration new),
      dr_Timestamp = (if dr_Timestamp new = 0 then dr_Timestamp old else dr_Timestamp new),
      dr_Metadata = (if dr_Metadata new = [] then dr_Metadata old else dr_Metadata new)\<rparr>"

definition Memory_Load :: "DecisionRecord list \<Rightarrow> Memory \<Rightarrow> Memory" where
  "Memory_Load enc m =
     (let arr = m_list m @ m_spare m
      in if length enc \<le> length arr
         then m\<lparr>m_list := map2 gob_overlay (take (length enc) arr) enc, m_spare := drop (length enc) arr\<rparr>
         else m\<lparr>m_list := map (gob_overlay zero_record) enc, m_spare := []\<rparr>)"

section \<open>Wrappers\<close>

definition MemoryManager_Append :: "DecisionRecord \<Rightarrow> Memory \<Rightarrow> Memory" where
  "MemoryManager_Append rec m = AppendDecision rec m"

definition MemoryManager_All :: "Memory \<Rightarrow> DecisionRecord list" where
  "MemoryManager_All m = History m"

definition MemoryManager_Reset :: "Memory \<Rightarrow> Memory" where
  "MemoryManager_Reset m = Memory_Reset m"

text \<open>\<open>SuccessRate\<close> as a numerator and a denominator, the two integers it divides as floats.\<close>

definition count_successes :: "DecisionRecord list \<Rightarrow> nat" where
  "count_successes h = fold (\<lambda>r s. if dr_Status r = StatusSuccess then s + 1 else s) h 0"

definition SuccessRate :: "('f \<Rightarrow> 'f \<Rightarrow> 'f) \<Rightarrow> (int \<Rightarrow> 'f) \<Rightarrow> Memory \<Rightarrow> 'f" where
  "SuccessRate fdiv of_i m =
     (let h = History m
      in if length h = 0 then of_i 0 else fdiv (of_i (int (count_successes h))) (of_i (int (length h))))"

definition Analytics_Total :: "Memory \<Rightarrow> int" where
  "Analytics_Total m = int (length (History m))"

section \<open>Saving and loading\<close>

text \<open>Records of the program: their status is one of the named ones.\<close>

lemma overlay_zero: "dr_Status r \<noteq> StatusOther 0 \<Longrightarrow> gob_overlay zero_record r = r"
  by (cases r) (auto simp: gob_overlay_def zero_record_def)

lemma map2_overlay_zero:
  "list_all (\<lambda>r. dr_Status r \<noteq> StatusOther 0) rs \<Longrightarrow> length rs \<le> n \<Longrightarrow>
   map2 gob_overlay (take (length rs) (replicate n zero_record)) rs = rs"
proof (induction rs arbitrary: n)
  case (Cons r rs)
  then show ?case by (cases n) (simp_all add: overlay_zero)
qed simp

lemma list_length_2: "length xs = 1 \<Longrightarrow> \<exists>x. xs = [x]"
  by (cases xs) simp_all

text \<open>
  A history of any length, saved and loaded into a new memory, is the same history. Loaded into a
  memory that was in use, even one that was reset, it is not: a saved success takes the status of the
  old record in its place, so a loaded success can read as the old failure.
\<close>

theorem memory_roundtrip:
  assumes "list_all (\<lambda>r. dr_Status r \<noteq> StatusOther 0) (History m)"
  shows "History (Memory_Load (Memory_Save m) (NewMemory grow)) = History m \<and>
    (dr_Status new = StatusSuccess \<longrightarrow>
      map dr_Status (History (Memory_Load (Memory_Save (AppendDecision new (NewMemory grow)))
        (Memory_Reset (AppendDecision old (NewMemory grow))))) = [dr_Status old])"
proof (intro conjI impI)
  show "History (Memory_Load (Memory_Save m) (NewMemory grow)) = History m"
  proof (cases "length (m_list m) \<le> 128")
    case True
    with assms map2_overlay_zero [of "m_list m" 128] show ?thesis
      by (simp add: History_def Memory_Load_def Memory_Save_def NewMemory_def Let_def)
  next
    case False
    with assms show ?thesis
      by (auto simp: History_def Memory_Load_def Memory_Save_def NewMemory_def Let_def list_all_iff overlay_zero
          intro!: map_idI)
  qed
  assume "dr_Status new = StatusSuccess"
  then show "map dr_Status (History (Memory_Load (Memory_Save (AppendDecision new (NewMemory grow)))
        (Memory_Reset (AppendDecision old (NewMemory grow))))) = [dr_Status old]"
    by (simp add: History_def Memory_Load_def Memory_Save_def Memory_Reset_def AppendDecision_def NewMemory_def
        gob_overlay_def numeral_nat)
qed

theorem memory_roundtrip_witness:
  "map dr_Status (History (Memory_Load
      (Memory_Save (AppendDecision (zero_record\<lparr>dr_Node := ''Root''\<rparr>) (NewMemory id)))
      (Memory_Reset (AppendDecision (zero_record\<lparr>dr_Status := StatusFailure\<rparr>) (NewMemory id))))) = [StatusFailure]"
  using memory_roundtrip [where m = "NewMemory id" and grow = id and new = "zero_record\<lparr>dr_Node := ''Root''\<rparr>"
      and old = "zero_record\<lparr>dr_Status := StatusFailure\<rparr>"]
  by (simp add: History_def NewMemory_def zero_record_def)

end
