(* ===== verification/Npc_Tree.thy ===== *)
theory Npc_Tree
  imports Npc_Memory
begin

text \<open>
  The behaviour trees of the agents: the nodes of \<open>internal/core/npc/base.go\<close>, \<open>composites.go\<close>,
  \<open>decorators.go\<close> and \<open>actions.go\<close> and their \<open>Tick\<close>. A tree is a value of the datatype \<open>node\<close>, a tick is
  a function on the world: the blackboard with the prefix of the view in use, the readings of the
  clock and the random draws still to come, and the memory. A tick is \<open>None\<close> when the fuel,
  which only the unbounded loops of \<open>UntilSuccess\<close> and \<open>UntilFailure\<close> use, runs out.
\<close>

section \<open>Results, world and nodes\<close>

text \<open>The operations on floats the nodes use.\<close>

record 'f float_ops =
  f_add :: "'f \<Rightarrow> 'f \<Rightarrow> 'f"
  f_sub :: "'f \<Rightarrow> 'f \<Rightarrow> 'f"
  f_mul :: "'f \<Rightarrow> 'f \<Rightarrow> 'f"
  f_div :: "'f \<Rightarrow> 'f \<Rightarrow> 'f"
  f_hypot :: "'f \<Rightarrow> 'f \<Rightarrow> 'f"
  f_le :: "'f \<Rightarrow> 'f \<Rightarrow> bool"
  f_eq :: "'f \<Rightarrow> 'f \<Rightarrow> bool"
  f_of_int :: "int \<Rightarrow> 'f"
  f_to_int :: "'f \<Rightarrow> int"

record 'f world =
  w_bb :: "'f bbData"
  w_view :: string
  w_clock :: "nat \<Rightarrow> int"
  w_reads :: nat
  w_ints :: "nat \<Rightarrow> nat"
  w_floats :: "nat \<Rightarrow> 'f"
  w_draws :: nat
  w_memory :: Memory

type_synonym tick_result = "Status \<times> go_err option"
type_synonym ('f, 'z) ticker = "('f, 'z) world_scheme \<Rightarrow> (tick_result \<times> ('f, 'z) world_scheme) outcome option"

datatype ParallelPolicy = ParallelRequireAllSuccess | ParallelRequireOneSuccess | ParallelUnknown int

text \<open>A child is \<open>None\<close> when the interface is nil.\<close>

datatype ('f, 'z) node =
    Sequence string "('f, 'z) node option list"
  | Selector string "('f, 'z) node option list"
  | Parallel string ParallelPolicy "('f, 'z) node option list"
  | Random string "('f, 'z) node option list"
  | Priority string "('f, 'z) node option list"
  | Repeat string int bool "('f, 'z) node option"
  | Timer string int "('f, 'z) node option"
  | Probability string 'f "('f, 'z) node option"
  | Inverter string "('f, 'z) node option"
  | Succeeder string "('f, 'z) node option"
  | Cooldown string int bool "('f, 'z) node option"
  | UntilSuccess string int "('f, 'z) node option"
  | UntilFailure string int "('f, 'z) node option"
  | WaitAction string int
  | LogAction string string string
  | SetValueAction string string "'f any"
  | CalculateAction string string string string string
  | ActionFunc string "('f, 'z) world_scheme \<Rightarrow> (tick_result \<times> ('f, 'z) world_scheme) outcome"
  | ConditionFunc string "('f, 'z) world_scheme \<Rightarrow> ((bool \<times> go_err option) \<times> ('f, 'z) world_scheme) outcome"

primrec node_Name :: "('f, 'z) node \<Rightarrow> string" where
  "node_Name (Sequence n cs) = n"
| "node_Name (Selector n cs) = n"
| "node_Name (Parallel n p cs) = n"
| "node_Name (Random n cs) = n"
| "node_Name (Priority n cs) = n"
| "node_Name (Repeat n k b c) = n"
| "node_Name (Timer n d c) = n"
| "node_Name (Probability n p c) = n"
| "node_Name (Inverter n c) = n"
| "node_Name (Succeeder n c) = n"
| "node_Name (Cooldown n d b c) = n"
| "node_Name (UntilSuccess n k c) = n"
| "node_Name (UntilFailure n k c) = n"
| "node_Name (WaitAction n d) = n"
| "node_Name (LogAction n k m) = n"
| "node_Name (SetValueAction n k v) = n"
| "node_Name (CalculateAction n p l r out) = n"
| "node_Name (ActionFunc n f) = n"
| "node_Name (ConditionFunc n f) = n"

section \<open>What a node does to the world\<close>

definition w_Get :: "('f, 'z) world_scheme \<Rightarrow> string \<Rightarrow> 'f any option" where
  "w_Get w key = bb_Get (w_view w) (w_bb w) key"

definition w_Set :: "string \<Rightarrow> 'f any \<Rightarrow> ('f, 'z) world_scheme \<Rightarrow> ('f, 'z) world_scheme" where
  "w_Set key v w = w\<lparr>w_bb := bb_Set (w_view w) key v (w_bb w)\<rparr>"

definition w_Delete :: "string \<Rightarrow> ('f, 'z) world_scheme \<Rightarrow> ('f, 'z) world_scheme" where
  "w_Delete key w = w\<lparr>w_bb := bb_Delete (w_view w) key (w_bb w)\<rparr>"

text \<open>Each reading of the clock is the next of the sequence.\<close>

definition read_clock :: "('f, 'z) world_scheme \<Rightarrow> int \<times> ('f, 'z) world_scheme" where
  "read_clock w = (w_clock w (w_reads w), w\<lparr>w_reads := w_reads w + 1\<rparr>)"

definition ret :: "Status \<Rightarrow> go_err option \<Rightarrow> ('f, 'z) ticker" where
  "ret st err w = Some (Ret ((st, err), w))"

definition then_tick ::
    "(('b \<times> ('f, 'z) world_scheme) outcome) option \<Rightarrow> ('b \<Rightarrow> ('f, 'z) ticker) \<Rightarrow> (tick_result \<times> ('f, 'z) world_scheme) outcome option" where
  "then_tick r k = (case r of
       None \<Rightarrow> None
     | Some Blocked \<Rightarrow> Some Blocked
     | Some (Panic p) \<Rightarrow> Some (Panic p)
     | Some (Ret (x, w)) \<Rightarrow> k x w)"

text \<open>The call of a child through its interface; a nil child panics.\<close>

definition tick_child :: "('f, 'z) ticker option \<Rightarrow> ('f, 'z) ticker" where
  "tick_child ch w = (case ch of None \<Rightarrow> Some (Panic NilDereference) | Some f \<Rightarrow> f w)"

section \<open>Composites\<close>

fun tick_sequence :: "('f, 'z) ticker option list \<Rightarrow> ('f, 'z) ticker" where
  "tick_sequence [] w = ret StatusSuccess None w"
| "tick_sequence (ch # chs) w =
     then_tick (tick_child ch w) (\<lambda>(st, err) w.
       case err of
         Some e \<Rightarrow> ret StatusFailure (Some e) w
       | None \<Rightarrow>
           (case st of
              StatusFailure \<Rightarrow> ret StatusFailure None w
            | StatusRunning \<Rightarrow> ret StatusRunning None w
            | _ \<Rightarrow> tick_sequence chs w))"

definition later_err :: "go_err option \<Rightarrow> go_err option \<Rightarrow> go_err option" where
  "later_err lastErr err = (case err of Some e \<Rightarrow> Some e | None \<Rightarrow> lastErr)"

fun tick_selector :: "go_err option \<Rightarrow> ('f, 'z) ticker option list \<Rightarrow> ('f, 'z) ticker" where
  "tick_selector lastErr [] w = ret StatusFailure lastErr w"
| "tick_selector lastErr (ch # chs) w =
     then_tick (tick_child ch w) (\<lambda>(st, err) w.
       let lastErr = later_err lastErr err
       in case st of
            StatusSuccess \<Rightarrow> ret StatusSuccess err w
          | StatusRunning \<Rightarrow> ret StatusRunning err w
          | _ \<Rightarrow> tick_selector lastErr chs w)"

text \<open>\<open>errors.Join\<close> of the errors so far and the next.\<close>

definition join_err :: "go_err option \<Rightarrow> go_err option \<Rightarrow> go_err option" where
  "join_err allErr err = (case err of
       None \<Rightarrow> allErr
     | Some e \<Rightarrow> (case allErr of None \<Rightarrow> Some e | Some a \<Rightarrow> Some (JoinErr a e)))"

definition parallel_status :: "ParallelPolicy \<Rightarrow> nat \<Rightarrow> nat \<Rightarrow> bool \<Rightarrow> go_err option \<Rightarrow> tick_result" where
  "parallel_status policy successes n anyRunning allErr = (case policy of
       ParallelRequireAllSuccess \<Rightarrow>
         (if successes = n then (StatusSuccess, allErr)
          else if anyRunning then (StatusRunning, allErr) else (StatusFailure, allErr))
     | ParallelRequireOneSuccess \<Rightarrow>
         (if successes > 0 then (StatusSuccess, allErr)
          else if anyRunning then (StatusRunning, allErr) else (StatusFailure, allErr))
     | ParallelUnknown p \<Rightarrow> (StatusFailure, Some (Err ''unknown parallel policy'')))"

fun parallel_loop :: "ParallelPolicy \<Rightarrow> nat \<Rightarrow> nat \<Rightarrow> bool \<Rightarrow> go_err option \<Rightarrow> ('f, 'z) ticker option list \<Rightarrow> ('f, 'z) ticker" where
  "parallel_loop policy n successes anyRunning allErr [] w =
     (case parallel_status policy successes n anyRunning allErr of (st, err) \<Rightarrow> ret st err w)"
| "parallel_loop policy n successes anyRunning allErr (ch # chs) w =
     then_tick (tick_child ch w) (\<lambda>(st, err) w.
       let allErr = join_err allErr err
       in case st of
            StatusSuccess \<Rightarrow> parallel_loop policy n (successes + 1) anyRunning allErr chs w
          | StatusRunning \<Rightarrow> parallel_loop policy n successes True allErr chs w
          | _ \<Rightarrow> parallel_loop policy n successes anyRunning allErr chs w)"

definition tick_parallel :: "ParallelPolicy \<Rightarrow> ('f, 'z) ticker option list \<Rightarrow> ('f, 'z) ticker" where
  "tick_parallel policy chs w =
     (if chs = [] then ret StatusSuccess None w else parallel_loop policy (length chs) 0 False None chs w)"

text \<open>\<open>rand.Intn(n)\<close>: a draw below \<open>n\<close>.\<close>

definition tick_random :: "('f, 'z) ticker option list \<Rightarrow> ('f, 'z) ticker" where
  "tick_random chs w =
     (if chs = [] then ret StatusSuccess None w
      else tick_child (chs ! (w_ints w (w_draws w) mod length chs)) (w\<lparr>w_draws := w_draws w + 1\<rparr>))"

fun tick_priority :: "go_err option \<Rightarrow> ('f, 'z) ticker option list \<Rightarrow> ('f, 'z) ticker" where
  "tick_priority allErr [] w = ret StatusFailure allErr w"
| "tick_priority allErr (ch # chs) w =
     then_tick (tick_child ch w) (\<lambda>(st, err) w.
       let allErr = join_err allErr err
       in case st of
            StatusSuccess \<Rightarrow> ret StatusSuccess allErr w
          | StatusRunning \<Rightarrow> ret StatusRunning allErr w
          | _ \<Rightarrow> tick_priority allErr chs w)"

section \<open>Decorators\<close>

fun repeat_loop :: "nat \<Rightarrow> bool \<Rightarrow> ('f, 'z) ticker \<Rightarrow> ('f, 'z) ticker" where
  "repeat_loop 0 stopOnFailure ch w = ret StatusSuccess None w"
| "repeat_loop (Suc n) stopOnFailure ch w =
     then_tick (ch w) (\<lambda>(st, err) w.
       case err of
         Some e \<Rightarrow> ret StatusFailure (Some e) w
       | None \<Rightarrow>
           if st = StatusRunning then ret StatusRunning None w
           else if st = StatusFailure \<and> stopOnFailure then ret StatusFailure None w
           else repeat_loop n stopOnFailure ch w)"

definition tick_repeat :: "int \<Rightarrow> bool \<Rightarrow> ('f, 'z) ticker option \<Rightarrow> ('f, 'z) ticker" where
  "tick_repeat Times stopOnFailure child w = (case child of
       None \<Rightarrow> ret StatusFailure (Some (Err ''repeat: child is nil'')) w
     | Some ch \<Rightarrow> repeat_loop (nat Times) stopOnFailure ch w)"

text \<open>A failed type assertion gives the zero time.\<close>

definition as_time :: "'f any \<Rightarrow> int" where
  "as_time v = (case v of ATime t \<Rightarrow> t | _ \<Rightarrow> 0)"

definition tick_timer :: "string \<Rightarrow> int \<Rightarrow> ('f, 'z) ticker option \<Rightarrow> ('f, 'z) ticker" where
  "tick_timer name d child w = (case child of
       None \<Rightarrow> ret StatusFailure (Some (Err ''timer: child is nil'')) w
     | Some ch \<Rightarrow>
         (let key = name @ ''.start''; val = w_Get w key; (now, w) = read_clock w
          in case val of
               None \<Rightarrow> ret StatusRunning None (w_Set key (ATime now) w)
             | Some v \<Rightarrow>
                 if time_Sub now (as_time v) < d then ret StatusRunning None w
                 else then_tick (ch w) (\<lambda>(st, err) w. ret st err (w_Delete key w))))"

definition tick_probability :: "'f float_ops \<Rightarrow> 'f \<Rightarrow> ('f, 'z) ticker option \<Rightarrow> ('f, 'z) ticker" where
  "tick_probability F p child w = (case child of
       None \<Rightarrow> ret StatusFailure (Some (Err ''probability: child is nil'')) w
     | Some ch \<Rightarrow>
         if f_le F p (f_of_int F 0) then ret StatusFailure None w
         else if f_le F (f_of_int F 1) p then ch w
         else let w' = w\<lparr>w_draws := w_draws w + 1\<rparr>
              in if f_le F (w_floats w (w_draws w)) p then ch w' else ret StatusFailure None w')"

definition invert :: "Status \<Rightarrow> Status" where
  "invert st = (case st of StatusSuccess \<Rightarrow> StatusFailure | StatusFailure \<Rightarrow> StatusSuccess | _ \<Rightarrow> st)"

definition tick_inverter :: "('f, 'z) ticker option \<Rightarrow> ('f, 'z) ticker" where
  "tick_inverter child w = (case child of
       None \<Rightarrow> ret StatusFailure (Some (Err ''inverter: child is nil'')) w
     | Some ch \<Rightarrow> then_tick (ch w) (\<lambda>(st, err) w. ret (invert st) err w))"

definition tick_succeeder :: "('f, 'z) ticker option \<Rightarrow> ('f, 'z) ticker" where
  "tick_succeeder child w = (case child of
       None \<Rightarrow> ret StatusSuccess None w
     | Some ch \<Rightarrow> then_tick (ch w) (\<lambda>(st, err) w.
         if st = StatusRunning then ret StatusRunning err w else ret StatusSuccess err w))"

definition cooling :: "int \<Rightarrow> int \<Rightarrow> 'f any option \<Rightarrow> bool" where
  "cooling now d v = (case v of Some (ATime t) \<Rightarrow> time_Sub now t < d | _ \<Rightarrow> False)"

definition tick_cooldown :: "string \<Rightarrow> int \<Rightarrow> bool \<Rightarrow> ('f, 'z) ticker option \<Rightarrow> ('f, 'z) ticker" where
  "tick_cooldown name d successOnly child w = (case child of
       None \<Rightarrow> ret StatusFailure (Some (Err ''cooldown: child is nil'')) w
     | Some ch \<Rightarrow>
         (let key = name @ ''.last''; (now, w) = read_clock w
          in if cooling now d (w_Get w key) then ret StatusFailure None w
             else then_tick (ch w) (\<lambda>(st, err) w.
               ret st err
                 (if (if successOnly then st = StatusSuccess else st \<noteq> StatusRunning)
                  then w_Set key (ATime now) w else w))))"

text \<open>
  The loop of \<open>UntilSuccess\<close> and \<open>UntilFailure\<close>, which differ in the status that ends it; both report
  it as \<open>stop\<close> and the end of the attempts as \<open>spent\<close>.
\<close>

fun until_loop :: "nat \<Rightarrow> Status \<Rightarrow> Status \<Rightarrow> Status \<Rightarrow> int \<Rightarrow> int \<Rightarrow> ('f, 'z) ticker \<Rightarrow> ('f, 'z) ticker" where
  "until_loop 0 goal stop spent maxAttempts attempts ch w = None"
| "until_loop (Suc fuel) goal stop spent maxAttempts attempts ch w =
     then_tick (ch w) (\<lambda>(st, err) w.
       case err of
         Some e \<Rightarrow> ret StatusFailure (Some e) w
       | None \<Rightarrow>
           if st = goal then ret stop None w
           else if st = StatusRunning then ret StatusRunning None w
           else if maxAttempts > 0 \<and> attempts + 1 \<ge> maxAttempts then ret spent None w
           else until_loop fuel goal stop spent maxAttempts (attempts + 1) ch w)"

definition tick_until_success :: "nat \<Rightarrow> int \<Rightarrow> ('f, 'z) ticker option \<Rightarrow> ('f, 'z) ticker" where
  "tick_until_success fuel maxAttempts child w = (case child of
       None \<Rightarrow> ret StatusFailure (Some (Err ''until-success: child is nil'')) w
     | Some ch \<Rightarrow> until_loop fuel StatusSuccess StatusSuccess StatusFailure maxAttempts 0 ch w)"

definition tick_until_failure :: "nat \<Rightarrow> int \<Rightarrow> ('f, 'z) ticker option \<Rightarrow> ('f, 'z) ticker" where
  "tick_until_failure fuel maxAttempts child w = (case child of
       None \<Rightarrow> ret StatusFailure (Some (Err ''until-failure: child is nil'')) w
     | Some ch \<Rightarrow> until_loop fuel StatusFailure StatusSuccess StatusSuccess maxAttempts 0 ch w)"

section \<open>Actions\<close>

definition tick_wait :: "string \<Rightarrow> int \<Rightarrow> ('f, 'z) ticker" where
  "tick_wait name dur w =
     (let key = name @ ''.start''
      in case w_Get w key of
           Some (ATime start) \<Rightarrow>
             (let (now, w) = read_clock w
              in if time_Sub now start \<ge> dur then ret StatusSuccess None (w_Delete key w)
                 else ret StatusRunning None w)
         | _ \<Rightarrow> (let (now, w) = read_clock w in ret StatusRunning None (w_Set key (ATime now) w)))"

definition getFloat :: "'f float_ops \<Rightarrow> string \<Rightarrow> 'f bbData \<Rightarrow> string \<Rightarrow> 'f option" where
  "getFloat F pre data key = (case bb_Get pre data key of
       Some (AFloat64 x) \<Rightarrow> Some x
     | Some (AFloat32 x) \<Rightarrow> Some x
     | Some (AInt i) \<Rightarrow> Some (f_of_int F (sint i))
     | Some (AInt64 i) \<Rightarrow> Some (f_of_int F (sint i))
     | _ \<Rightarrow> None)"

definition tick_calculate :: "'f float_ops \<Rightarrow> string \<Rightarrow> string \<Rightarrow> string \<Rightarrow> string \<Rightarrow> ('f, 'z) ticker" where
  "tick_calculate F op leftKey rightKey out w =
     (case (getFloat F (w_view w) (w_bb w) leftKey, getFloat F (w_view w) (w_bb w) rightKey) of
        (Some lv, Some rv) \<Rightarrow>
          if op = ''+'' then ret StatusSuccess None (w_Set out (AFloat64 (f_add F lv rv)) w)
          else if op = ''-'' then ret StatusSuccess None (w_Set out (AFloat64 (f_sub F lv rv)) w)
          else if op = ''*'' then ret StatusSuccess None (w_Set out (AFloat64 (f_mul F lv rv)) w)
          else if op = ''/'' then
            (if f_eq F rv (f_of_int F 0) then ret StatusFailure (Some (Err ''division by zero'')) w
             else ret StatusSuccess None (w_Set out (AFloat64 (f_div F lv rv)) w))
          else ret StatusFailure (Some (Err (''unknown op: '' @ op))) w
      | _ \<Rightarrow> ret StatusFailure (Some (Err ''calc: operands missing'')) w)"

definition tick_condition :: "(('f, 'z) world_scheme \<Rightarrow> ((bool \<times> go_err option) \<times> ('f, 'z) world_scheme) outcome) \<Rightarrow> ('f, 'z) ticker" where
  "tick_condition fn w =
     then_tick (Some (fn w)) (\<lambda>(ok, err) w. case err of
         Some e \<Rightarrow> ret StatusFailure (Some e) w
       | None \<Rightarrow> if ok then ret StatusSuccess None w else ret StatusFailure None w)"

section \<open>Tick\<close>

primrec tick :: "'f float_ops \<Rightarrow> nat \<Rightarrow> ('f, 'z) node \<Rightarrow> ('f, 'z) ticker" where
  "tick F fuel (Sequence name cs) = tick_sequence (map (map_option (tick F fuel)) cs)"
| "tick F fuel (Selector name cs) = tick_selector None (map (map_option (tick F fuel)) cs)"
| "tick F fuel (Parallel name policy cs) = tick_parallel policy (map (map_option (tick F fuel)) cs)"
| "tick F fuel (Random name cs) = tick_random (map (map_option (tick F fuel)) cs)"
| "tick F fuel (Priority name cs) = tick_priority None (map (map_option (tick F fuel)) cs)"
| "tick F fuel (Repeat name n stopOnFailure c) = tick_repeat n stopOnFailure (map_option (tick F fuel) c)"
| "tick F fuel (Timer name d c) = tick_timer name d (map_option (tick F fuel) c)"
| "tick F fuel (Probability name p c) = tick_probability F p (map_option (tick F fuel) c)"
| "tick F fuel (Inverter name c) = tick_inverter (map_option (tick F fuel) c)"
| "tick F fuel (Succeeder name c) = tick_succeeder (map_option (tick F fuel) c)"
| "tick F fuel (Cooldown name d successOnly c) = tick_cooldown name d successOnly (map_option (tick F fuel) c)"
| "tick F fuel (UntilSuccess name k c) = tick_until_success fuel k (map_option (tick F fuel) c)"
| "tick F fuel (UntilFailure name k c) = tick_until_failure fuel k (map_option (tick F fuel) c)"
| "tick F fuel (WaitAction name dur) = tick_wait name dur"
| "tick F fuel (LogAction name key msg) = (\<lambda>w. ret StatusSuccess None (w_Set key (AString msg) w))"
| "tick F fuel (SetValueAction name key v) = (\<lambda>w. ret StatusSuccess None (w_Set key v w))"
| "tick F fuel (CalculateAction name op l r out) = tick_calculate F op l r out"
| "tick F fuel (ActionFunc name fn) = (\<lambda>w. Some (fn w))"
| "tick F fuel (ConditionFunc name fn) = tick_condition fn"

text \<open>\<open>Tree.Tick\<close>; a tree without a root succeeds.\<close>

definition Tree_Tick :: "'f float_ops \<Rightarrow> nat \<Rightarrow> ('f, 'z) node option \<Rightarrow> ('f, 'z) ticker" where
  "Tree_Tick F fuel root w = (case root of None \<Rightarrow> ret StatusSuccess None w | Some n \<Rightarrow> tick F fuel n w)"

end
