(* ===== verification/Npc_Behaviour.thy ===== *)
theory Npc_Behaviour
  imports Npc_Tree
begin

text \<open>
  What the behaviour trees do: ticks return within enough fuel, a selector of inverted children is an
  inverted sequence, \<open>Priority\<close> differs from \<open>Selector\<close> in its error only, cooldowns keep their
  distance, and waits that share a name keep each other from finishing.
\<close>

section \<open>Fuel\<close>

lemma then_tick_Some [simp]:
  "then_tick (Some (Ret (x, w))) k = k x w" "then_tick None k = None"
  "then_tick (Some (Panic p)) k = Some (Panic p)" "then_tick (Some Blocked) k = Some Blocked"
  by (simp_all add: then_tick_def)

lemma then_tick_cases:
  obtains (none) "r = None" | (panic) p where "r = Some (Panic p)" | (blocked) "r = Some Blocked"
    | (result) st err w where "r = Some (Ret ((st, err), w))"
proof (cases r)
  case (Some a)
  then show thesis by (cases a) (auto intro: that)
qed (rule that)

text \<open>
  A result that depends on fuel is settled from some fuel on when it is there with that fuel, and the
  same with any more. The rules follow the shape of the tick functions.
\<close>

named_theorems settled_intros \<open>results that more fuel does not change\<close>

definition settled :: "(nat \<Rightarrow> 'r option) \<Rightarrow> nat \<Rightarrow> bool" where
  "settled f fuel \<longleftrightarrow> (\<exists>r. \<forall>fuel'\<ge>fuel. f fuel' = Some r)"

lemma settled_then_tick [settled_intros]:
  assumes r: "settled r fuel" and k: "\<And>st err w. settled (\<lambda>fuel. k fuel (st, err) w) fuel"
  shows "settled (\<lambda>fuel. then_tick (r fuel) (k fuel)) fuel"
proof -
  obtain v where v: "\<And>fuel'. fuel \<le> fuel' \<Longrightarrow> r fuel' = Some v" using r unfolding settled_def by blast
  show ?thesis
  proof (cases v)
    case (Ret x)
    then obtain st err w where "v = Ret ((st, err), w)" by (cases x) auto
    moreover obtain u where "\<And>fuel'. fuel \<le> fuel' \<Longrightarrow> k fuel' (st, err) w = Some u"
      using k unfolding settled_def by blast
    ultimately show ?thesis using v by (auto simp: settled_def)
  qed (use v in \<open>auto simp: settled_def\<close>)
qed

lemma settled_ret [settled_intros]: "settled (\<lambda>_. ret st err w) fuel"
  by (simp add: settled_def ret_def)

lemma settled_Some [settled_intros]: "settled (\<lambda>_. Some r) fuel"
  by (simp add: settled_def)

lemma settled_if [settled_intros]:
  "settled f fuel \<Longrightarrow> settled g fuel \<Longrightarrow> settled (\<lambda>fuel. if b then f fuel else g fuel) fuel"
  by (cases b) simp_all

lemma settled_option [settled_intros]:
  "settled g fuel \<Longrightarrow> (\<And>e. settled (\<lambda>fuel. f fuel e) fuel) \<Longrightarrow>
   settled (\<lambda>fuel. case err of None \<Rightarrow> g fuel | Some e \<Rightarrow> f fuel e) fuel"
  by (cases err) simp_all

lemma settled_status [settled_intros]:
  "settled a fuel \<Longrightarrow> settled b fuel \<Longrightarrow> settled c fuel \<Longrightarrow> (\<And>i. settled (\<lambda>fuel. d fuel i) fuel) \<Longrightarrow>
   settled (\<lambda>fuel. case st of StatusSuccess \<Rightarrow> a fuel | StatusFailure \<Rightarrow> b fuel
     | StatusRunning \<Rightarrow> c fuel | StatusOther i \<Rightarrow> d fuel i) fuel"
  by (cases st) simp_all

text \<open>Children: a list of tickers that depend on the fuel.\<close>

definition settled_child :: "nat \<Rightarrow> (nat \<Rightarrow> ('f, 'z) ticker option) \<Rightarrow> bool" where
  "settled_child fuel c \<longleftrightarrow> (\<forall>w. settled (\<lambda>fuel. tick_child (c fuel) w) fuel)"

lemma settled_child [settled_intros]: "settled_child fuel c \<Longrightarrow> settled (\<lambda>fuel. tick_child (c fuel) w) fuel"
  by (simp add: settled_child_def)

lemma settled_sequence:
  "list_all (settled_child fuel) cs \<Longrightarrow> settled (\<lambda>fuel. tick_sequence (map (\<lambda>c. c fuel) cs) w) fuel"
  by (induction cs arbitrary: w) (auto intro!: settled_intros)

lemma settled_selector:
  "list_all (settled_child fuel) cs \<Longrightarrow> settled (\<lambda>fuel. tick_selector e (map (\<lambda>c. c fuel) cs) w) fuel"
  by (induction cs arbitrary: e w) (auto simp: Let_def intro!: settled_intros)

lemma settled_priority:
  "list_all (settled_child fuel) cs \<Longrightarrow> settled (\<lambda>fuel. tick_priority e (map (\<lambda>c. c fuel) cs) w) fuel"
  by (induction cs arbitrary: e w) (auto simp: Let_def intro!: settled_intros)

lemma settled_parallel_loop:
  "list_all (settled_child fuel) cs \<Longrightarrow>
   settled (\<lambda>fuel. parallel_loop p n k r e (map (\<lambda>c. c fuel) cs) w) fuel"
  by (induction cs arbitrary: k r e w) (auto simp: Let_def split: prod.split intro!: settled_intros)

lemma settled_repeat_loop:
  "(\<And>w. settled (\<lambda>fuel. ch fuel w) fuel) \<Longrightarrow> settled (\<lambda>fuel. repeat_loop n b (ch fuel) w) fuel"
  by (induction n arbitrary: w) (auto intro!: settled_intros)

text \<open>An until loop needs no more fuel than attempts are left.\<close>

lemma until_loop_settled:
  assumes "\<And>w. settled (\<lambda>fuel. ch fuel w) fuel" and "0 \<le> a" and "a < k" and "nat (k - a) = j"
  shows "\<exists>r. \<forall>m\<ge>j. \<forall>fuel'\<ge>fuel. until_loop m goal stop spent k a (ch fuel') w = Some r"
  using assms(2-4)
proof (induction j arbitrary: a w)
  case (Suc j)
  obtain v where v: "\<And>fuel'. fuel \<le> fuel' \<Longrightarrow> ch fuel' w = Some v" using assms(1) unfolding settled_def by blast
  show ?case
  proof (cases v)
    case (Ret x)
    then obtain st err w' where x: "v = Ret ((st, err), w')" by (cases x) auto
    show ?thesis
    proof (cases "err = None \<and> st \<noteq> goal \<and> st \<noteq> StatusRunning \<and> a + 1 < k")
      case True
      then have "0 \<le> a + 1" "a + 1 < k" "nat (k - (a + 1)) = j" using Suc.prems by simp_all
      from Suc.IH [OF this, where w = w'] obtain r where
        "\<And>m fuel'. j \<le> m \<Longrightarrow> fuel \<le> fuel' \<Longrightarrow> until_loop m goal stop spent k (a + 1) (ch fuel') w' = Some r" by blast
      then have "until_loop m goal stop spent k a (ch fuel') w = Some r" if "Suc j \<le> m" "fuel \<le> fuel'" for m fuel'
        using that True v x by (cases m) simp_all
      then show ?thesis by blast
    next
      case False
      define r where "r = (case err of Some e \<Rightarrow> Ret ((StatusFailure, Some e), w')
        | None \<Rightarrow> if st = goal then Ret ((stop, None), w')
            else if st = StatusRunning then Ret ((StatusRunning, None), w') else Ret ((spent, None), w'))"
      have "until_loop m goal stop spent k a (ch fuel') w = Some r" if "Suc j \<le> m" "fuel \<le> fuel'" for m fuel'
        using that False Suc.prems v x by (cases m) (auto simp: r_def ret_def split: option.split)
      then show ?thesis by blast
    qed
  next
    case (Panic p)
    have "until_loop m goal stop spent k a (ch fuel') w = Some (Panic p)" if "Suc j \<le> m" "fuel \<le> fuel'" for m fuel'
      using that v Panic by (cases m) simp_all
    then show ?thesis by blast
  next
    case Blocked
    have "until_loop m goal stop spent k a (ch fuel') w = Some Blocked" if "Suc j \<le> m" "fuel \<le> fuel'" for m fuel'
      using that v Blocked by (cases m) simp_all
    then show ?thesis by blast
  qed
qed simp

lemma settled_until_loop:
  assumes "\<And>w. settled (\<lambda>fuel. ch fuel w) fuel" and "0 < k" and "nat k \<le> fuel"
  shows "settled (\<lambda>fuel. until_loop fuel goal stop spent k 0 (ch fuel) w) fuel"
proof -
  have "\<exists>r. \<forall>m\<ge>nat k. \<forall>fuel'\<ge>fuel. until_loop m goal stop spent k 0 (ch fuel') w = Some r"
    by (rule until_loop_settled [OF assms(1)]) (use assms(2) in simp_all)
  then show ?thesis unfolding settled_def using assms(3) le_trans by blast
qed

text \<open>The trees whose every \<open>UntilSuccess\<close> and \<open>UntilFailure\<close> has a positive limit within the fuel.\<close>

primrec bounded_untils :: "nat \<Rightarrow> ('f, 'z) node \<Rightarrow> bool" where
  "bounded_untils fuel (Sequence n cs) = list_all (pred_option (bounded_untils fuel)) cs"
| "bounded_untils fuel (Selector n cs) = list_all (pred_option (bounded_untils fuel)) cs"
| "bounded_untils fuel (Parallel n p cs) = list_all (pred_option (bounded_untils fuel)) cs"
| "bounded_untils fuel (Random n cs) = list_all (pred_option (bounded_untils fuel)) cs"
| "bounded_untils fuel (Priority n cs) = list_all (pred_option (bounded_untils fuel)) cs"
| "bounded_untils fuel (Repeat n k b c) = pred_option (bounded_untils fuel) c"
| "bounded_untils fuel (Timer n d c) = pred_option (bounded_untils fuel) c"
| "bounded_untils fuel (Probability n p c) = pred_option (bounded_untils fuel) c"
| "bounded_untils fuel (Inverter n c) = pred_option (bounded_untils fuel) c"
| "bounded_untils fuel (Succeeder n c) = pred_option (bounded_untils fuel) c"
| "bounded_untils fuel (Cooldown n d b c) = pred_option (bounded_untils fuel) c"
| "bounded_untils fuel (UntilSuccess n k c) = (0 < k \<and> nat k \<le> fuel \<and> pred_option (bounded_untils fuel) c)"
| "bounded_untils fuel (UntilFailure n k c) = (0 < k \<and> nat k \<le> fuel \<and> pred_option (bounded_untils fuel) c)"
| "bounded_untils fuel (WaitAction n d) = True"
| "bounded_untils fuel (LogAction n k m) = True"
| "bounded_untils fuel (SetValueAction n k v) = True"
| "bounded_untils fuel (CalculateAction n p l r out) = True"
| "bounded_untils fuel (ActionFunc n f) = True"
| "bounded_untils fuel (ConditionFunc n f) = True"

definition settled_node :: "'f float_ops \<Rightarrow> nat \<Rightarrow> ('f, 'z) node \<Rightarrow> bool" where
  "settled_node F fuel n \<longleftrightarrow> (\<forall>w. settled (\<lambda>fuel. tick F fuel n w) fuel)"

definition fueled :: "'f float_ops \<Rightarrow> ('f, 'z) node option \<Rightarrow> nat \<Rightarrow> ('f, 'z) ticker option" where
  "fueled F c fuel = map_option (tick F fuel) c"

lemma fueled_children: "map (\<lambda>c. c fuel) (map (fueled F) cs) = map (map_option (tick F fuel)) cs"
  by (simp add: fueled_def)

lemma settled_fueled: "pred_option (settled_node F fuel) c \<Longrightarrow> settled_child fuel (fueled F c)"
  by (cases c) (auto simp: settled_child_def tick_child_def fueled_def settled_node_def settled_Some)

lemma settled_children:
  "list_all (pred_option (settled_node F fuel)) cs \<Longrightarrow> list_all (settled_child fuel) (map (fueled F) cs)"
  by (induction cs) (auto simp: settled_fueled)

lemma pred_children:
  assumes "list_all (pred_option P) cs" and "\<And>c n. c \<in> set cs \<Longrightarrow> n \<in> set_option c \<Longrightarrow> P n \<Longrightarrow> Q n"
  shows "list_all (pred_option Q) cs"
  using assms by (fastforce simp: list_all_iff option.pred_set)

lemma pred_child:
  assumes "pred_option P c" and "\<And>n. n \<in> set_option c \<Longrightarrow> P n \<Longrightarrow> Q n"
  shows "pred_option Q c"
  using assms by (cases c) auto

lemma settled_random:
  assumes "list_all (settled_child fuel) cs"
  shows "settled (\<lambda>fuel. tick_random (map (\<lambda>c. c fuel) cs) w) fuel"
proof (cases "cs = []")
  case False
  then have "w_ints w (w_draws w) mod length cs < length cs" by simp
  with assms False show ?thesis by (auto simp: tick_random_def list_all_length intro!: settled_intros)
qed (simp add: tick_random_def settled_ret)

lemma settled_parallel:
  "list_all (settled_child fuel) cs \<Longrightarrow> settled (\<lambda>fuel. tick_parallel p (map (\<lambda>c. c fuel) cs) w) fuel"
  using settled_parallel_loop [of fuel cs p "length cs" 0 False None w]
  by (cases "cs = []") (simp_all add: tick_parallel_def settled_ret)

lemma settled_one_child:
  assumes "pred_option (settled_node F fuel) c" and "bounded_untils fuel n"
    and "(\<exists>m k b. n = Repeat m k b c) \<or> (\<exists>m d. n = Timer m d c) \<or> (\<exists>m p. n = Probability m p c) \<or>
      (\<exists>m. n = Inverter m c) \<or> (\<exists>m. n = Succeeder m c) \<or> (\<exists>m d b. n = Cooldown m d b c) \<or>
      (\<exists>m k. n = UntilSuccess m k c) \<or> (\<exists>m k. n = UntilFailure m k c)"
  shows "settled (\<lambda>fuel. tick F fuel n w) fuel"
proof (cases c)
  case None
  with assms(3) show ?thesis
    by (auto simp: tick_repeat_def tick_timer_def tick_probability_def tick_inverter_def tick_succeeder_def
        tick_cooldown_def tick_until_success_def tick_until_failure_def settled_ret)
next
  case (Some ch)
  have s [settled_intros]: "settled (\<lambda>fuel. tick F fuel ch w) fuel" for w
    using assms(1) Some by (simp add: settled_node_def)
  note [settled_intros] = settled_repeat_loop [OF s] settled_until_loop [OF s]
  from Some assms(2,3) show ?thesis
    by (auto simp: tick_repeat_def tick_timer_def tick_probability_def tick_inverter_def tick_succeeder_def
        tick_cooldown_def tick_until_success_def tick_until_failure_def Let_def read_clock_def intro!: settled_intros)
qed

text \<open>One step of the induction over the tree: a node is settled when its children are.\<close>

primrec children :: "('f, 'z) node \<Rightarrow> ('f, 'z) node option list" where
  "children (Sequence n cs) = cs"
| "children (Selector n cs) = cs"
| "children (Parallel n p cs) = cs"
| "children (Random n cs) = cs"
| "children (Priority n cs) = cs"
| "children (Repeat n k b c) = [c]"
| "children (Timer n d c) = [c]"
| "children (Probability n p c) = [c]"
| "children (Inverter n c) = [c]"
| "children (Succeeder n c) = [c]"
| "children (Cooldown n d b c) = [c]"
| "children (UntilSuccess n k c) = [c]"
| "children (UntilFailure n k c) = [c]"
| "children (WaitAction n d) = []"
| "children (LogAction n k m) = []"
| "children (SetValueAction n k v) = []"
| "children (CalculateAction n p l r out) = []"
| "children (ActionFunc n f) = []"
| "children (ConditionFunc n f) = []"

lemma settled_step:
  assumes "list_all (pred_option (settled_node F fuel)) (children n)" and "bounded_untils fuel n"
  shows "settled_node F fuel n"
proof -
  note many = settled_children [OF assms(1)]
  note [settled_intros] = settled_sequence [OF many] settled_selector [OF many] settled_parallel [OF many]
    settled_random [OF many] settled_priority [OF many]
  have "settled (\<lambda>fuel. tick F fuel n w) fuel" for w
  proof (cases "\<exists>c. children n = [c] \<and> (\<forall>m cs. n \<noteq> Sequence m cs \<and> n \<noteq> Selector m cs \<and> n \<noteq> Random m cs \<and>
      n \<noteq> Priority m cs \<and> (\<forall>p. n \<noteq> Parallel m p cs))")
    case True
    then obtain c where "children n = [c]" by blast
    with True assms show ?thesis by (cases n) (auto intro!: settled_one_child [of F fuel c] simp del: tick.simps)
  next
    case False
    with settled_sequence [OF many] settled_selector [OF many] settled_parallel [OF many]
      settled_random [OF many] settled_priority [OF many] show ?thesis
      unfolding fueled_children
      by (cases n) (auto simp: tick_wait_def tick_calculate_def tick_condition_def Let_def read_clock_def
        split: any.split intro!: settled_intros)
  qed
  then show ?thesis by (simp add: settled_node_def)
qed

lemma bounded_children: "bounded_untils fuel n \<Longrightarrow> list_all (pred_option (bounded_untils fuel)) (children n)"
  by (cases n) simp_all

lemma node_induct:
  assumes step: "\<And>n. (\<And>c m. c \<in> set (children n) \<Longrightarrow> m \<in> set_option c \<Longrightarrow> P m) \<Longrightarrow> P n"
  shows "P n"
  by (induction n; rule step; auto)

lemma tick_settled: "bounded_untils fuel n \<Longrightarrow> settled_node F fuel n"
proof (induction n rule: node_induct)
  case (1 n)
  then have "list_all (pred_option (settled_node F fuel)) (children n)"
    by (auto intro: pred_children [OF bounded_children])
  then show ?case using 1(2) by (rule settled_step)
qed

text \<open>
  C7. A tick returns when every \<open>UntilSuccess\<close> and \<open>UntilFailure\<close> in the tree has a positive limit: fuel
  of the largest limit is enough, and more fuel does not change the result.
\<close>

theorem tick_terminates:
  assumes "bounded_untils fuel n"
  shows "\<exists>r. tick F fuel n w = Some r \<and> (\<forall>fuel'\<ge>fuel. tick F fuel' n w = Some r)"
  using tick_settled [OF assms, of F] unfolding settled_node_def settled_def by blast

text \<open>
  Without a limit (\<open>MaxAttempts\<close> not positive) \<open>UntilSuccess\<close> over a child that keeps failing, and
  \<open>UntilFailure\<close> over one that keeps succeeding, without error, never return: no fuel is enough.
\<close>

theorem until_without_limit:
  assumes "k \<le> 0" and "\<And>w. \<exists>w'. tick F fuel c w = Some (Ret ((StatusFailure, None), w'))"
    and "\<And>w. \<exists>w'. tick F fuel d w = Some (Ret ((StatusSuccess, None), w'))"
  shows "tick F fuel (UntilSuccess name k (Some c)) w = None \<and> tick F fuel (UntilFailure name k (Some d)) w = None"
proof -
  have "until_loop m goal stop spent k a (tick F fuel e) w = None"
    if e: "\<And>w. \<exists>w'. tick F fuel e w = Some (Ret ((st, None), w'))" and st: "st \<noteq> goal" "st \<noteq> StatusRunning"
    for m e st goal stop spent a w
  proof (induction m arbitrary: a w)
    case (Suc m)
    obtain w' where "tick F fuel e w = Some (Ret ((st, None), w'))" using e by blast
    with Suc assms(1) st show ?case by simp
  qed simp
  from this [OF assms(2)] this [OF assms(3)] show ?thesis
    by (simp add: tick_until_success_def tick_until_failure_def)
qed

section \<open>Concrete runs\<close>

text \<open>Integers for floats, a clock that shows seconds, and an empty blackboard.\<close>

definition int_ops :: "int float_ops" where
  "int_ops = \<lparr>f_add = (+), f_sub = (-), f_mul = (*), f_div = (div), f_hypot = (\<lambda>x y. \<bar>x\<bar> + \<bar>y\<bar>), f_le = (\<le>),
     f_eq = (=), f_of_int = id, f_to_int = id\<rparr>"

definition start_world :: "int world" where
  "start_world = \<lparr>w_bb = NewBlackboard, w_view = [], w_clock = (\<lambda>n. int n * 1000000000), w_reads = 0,
     w_ints = id, w_floats = int, w_draws = 0, w_memory = NewMemory (\<lambda>n. n)\<rparr>"

abbreviation (input) set_x :: "(int, unit) node" where
  "set_x \<equiv> SetValueAction ''SetValue'' ''x'' (AInt 1)"

theorem tick_terminates_witness:
  "\<exists>r. tick int_ops 3 (UntilSuccess ''u'' 3 (Some (Inverter ''i'' (Some set_x)))) start_world = Some r"
  using tick_terminates [of 3 "UntilSuccess ''u'' 3 (Some (Inverter ''i'' (Some set_x)))" int_ops start_world]
  by auto

theorem until_without_limit_witness:
  "tick int_ops 100 (UntilSuccess ''u'' 0 (Some (Inverter ''i'' (Some set_x)))) start_world = None"
  using until_without_limit [of 0 int_ops 100 "Inverter ''i'' (Some set_x)" set_x "''u''" start_world]
  by (simp add: tick_inverter_def ret_def invert_def)

section \<open>Composites\<close>

text \<open>
  De Morgan for behaviour trees: over children that are there and return no error, an inverted
  \<open>Sequence\<close> ticks, in every world, exactly like the \<open>Selector\<close> of the inverted children, in status,
  in panics and in what happens to the world.
\<close>

theorem inverted_sequence:
  assumes "\<And>c w st err w'. c \<in> set cs \<Longrightarrow> tick F fuel c w = Some (Ret ((st, err), w')) \<Longrightarrow> err = None"
  shows "tick F fuel (Inverter i (Some (Sequence name (map Some cs)))) w =
    tick F fuel (Selector name (map (\<lambda>c. Some (Inverter j (Some c))) cs)) w"
proof -
  let ?seq = "\<lambda>cs. tick_sequence (map (map_option (tick F fuel)) (map Some cs))"
  let ?sel = "\<lambda>cs. tick_selector None (map (map_option (tick F fuel)) (map (\<lambda>c. Some (Inverter j (Some c))) cs))"
  have "then_tick (?seq cs w) (\<lambda>(st, err) w. ret (invert st) err w) = ?sel cs w"
    using assms
  proof (induction cs arbitrary: w)
    case (Cons c cs)
    show ?case
    proof (cases "tick F fuel c w" rule: then_tick_cases)
      case (result st err w')
      moreover have "err = None" by (rule Cons.prems [OF _ result]) simp
      moreover have "then_tick (?seq cs w') (\<lambda>(st, err) w. ret (invert st) err w) = ?sel cs w'"
        by (rule Cons.IH, rule Cons.prems) auto
      ultimately show ?thesis
        by (cases st) (simp_all add: tick_child_def tick_inverter_def ret_def invert_def later_err_def)
    qed (simp_all add: tick_child_def tick_inverter_def)
  qed (simp add: ret_def invert_def)
  then show ?thesis by (simp add: tick_inverter_def)
qed

theorem inverted_sequence_witness:
  "tick int_ops 0 (Inverter ''i'' (Some (Sequence ''s'' (map Some [WaitAction ''w'' 5, set_x])))) start_world =
   tick int_ops 0 (Selector ''s'' (map (\<lambda>c. Some (Inverter ''j'' (Some c))) [WaitAction ''w'' 5, set_x])) start_world"
  by (rule inverted_sequence)
    (auto simp: ret_def tick_wait_def Let_def read_clock_def split: if_splits option.splits any.splits)

definition without_err :: "(tick_result \<times> ('f, 'z) world_scheme) outcome option \<Rightarrow> (Status \<times> ('f, 'z) world_scheme) outcome option" where
  "without_err r = map_option (\<lambda>m. bind_outcome m (\<lambda>((st, err), w). Ret (st, w))) r"

text \<open>
  \<open>Priority\<close> and \<open>Selector\<close> take the same course over the same children: the same status, the same
  panics and the same effects, whatever the children do. Only the errors they report can differ.
\<close>

theorem priority_is_selector:
  "without_err (tick F fuel (Priority name cs) w) = without_err (tick F fuel (Selector name' cs) w)"
proof -
  have "without_err (tick_priority e ts w) = without_err (tick_selector e' ts w)" for e e' :: "go_err option" and ts
  proof (induction ts arbitrary: e e' w)
    case (Cons t ts)
    then show ?case
    proof (cases "tick_child t w" rule: then_tick_cases)
      case (result st err w')
      with Cons show ?thesis by (cases st) (simp_all add: Let_def ret_def without_err_def)
    qed (simp_all add: without_err_def)
  qed (simp add: ret_def without_err_def)
  then show ?thesis by simp
qed

section \<open>Waits and cooldowns\<close>

lemma w_Get_Set: "w_Get (w_Set k v w) k' = (if k' = k then Some v else w_Get w k')"
  by (simp add: w_Get_def w_Set_def view.get_set)

lemma w_Get_Delete: "w_Get (w_Delete k w) k' = (if k' = k then None else w_Get w k')"
  by (simp add: w_Get_def w_Delete_def view.get_delete)

lemma w_Get_reads: "w_Get (w\<lparr>w_reads := n\<rparr>) k = w_Get w k"
  by (simp add: w_Get_def)

lemma tick_wait_over:
  assumes "w_Get w (name @ ''.start'') = Some (ATime t)" and "d \<le> time_Sub (w_clock w (w_reads w)) t"
  shows "tick_wait name d w =
    Some (Ret ((StatusSuccess, None), w_Delete (name @ ''.start'') (w\<lparr>w_reads := w_reads w + 1\<rparr>)))"
  using assms by (simp add: tick_wait_def read_clock_def Let_def ret_def)

lemma tick_wait_absent:
  assumes "w_Get w (name @ ''.start'') = None"
  shows "\<exists>w'. tick_wait name d w = Some (Ret ((StatusRunning, None), w'))"
  using assms by (simp add: tick_wait_def read_clock_def Let_def ret_def)

text \<open>
  Two waits of the same name in one sequence never let it succeed: in every world, at every time and
  for all durations, its tick returns Running, because the first wait, once over, deletes the start
  the second one needs. Waits with names of their own do succeed once both are over.
\<close>

lemma same_name_waits:
  "\<exists>w'. tick F fuel (Sequence s [Some (WaitAction name d), Some (WaitAction name d')]) w = Some (Ret ((StatusRunning, None), w'))"
proof -
  let ?key = "name @ ''.start''"
  show "\<exists>w'. tick F fuel (Sequence s [Some (WaitAction name d), Some (WaitAction name d')]) w = Some (Ret ((StatusRunning, None), w'))"
  proof (cases "\<exists>t. w_Get w ?key = Some (ATime t) \<and> d \<le> time_Sub (w_clock w (w_reads w)) t")
    case True
    then have "tick_wait name d w = Some (Ret ((StatusSuccess, None), w_Delete ?key (w\<lparr>w_reads := w_reads w + 1\<rparr>)))"
      using tick_wait_over by blast
    moreover have "\<exists>w'. tick_wait name d' (w_Delete ?key (w\<lparr>w_reads := w_reads w + 1\<rparr>)) = Some (Ret ((StatusRunning, None), w'))"
      by (rule tick_wait_absent) (simp add: w_Get_Delete)
    ultimately show ?thesis by (auto simp: tick_child_def ret_def)
  next
    case False
    then have "\<exists>w'. tick_wait name d w = Some (Ret ((StatusRunning, None), w'))"
      by (auto simp: tick_wait_def read_clock_def Let_def ret_def split: option.split any.split)
    then show ?thesis by (auto simp: tick_child_def ret_def)
  qed
qed

lemma own_name_waits:
  assumes over: "nam \<noteq> nam' \<and> w_Get v (nam @ ''.start'') = Some (ATime t) \<and> w_Get v (nam' @ ''.start'') = Some (ATime t') \<and>
       d \<le> time_Sub (w_clock v (w_reads v)) t \<and> d' \<le> time_Sub (w_clock v (w_reads v + 1)) t'"
  shows "\<exists>v'. tick F fuel (Sequence s [Some (WaitAction nam d), Some (WaitAction nam' d')]) v = Some (Ret ((StatusSuccess, None), v'))"
proof -
  let ?v = "w_Delete (nam @ ''.start'') (v\<lparr>w_reads := w_reads v + 1\<rparr>)"
  have "tick_wait nam d v = Some (Ret ((StatusSuccess, None), ?v))" using over by (simp add: tick_wait_over)
  moreover have "w_Get ?v (nam' @ ''.start'') = Some (ATime t')" "d' \<le> time_Sub (w_clock ?v (w_reads ?v)) t'"
    unfolding w_Get_Delete w_Get_reads using over by (auto simp: w_Delete_def)
  from tick_wait_over [OF this] have
    "tick_wait nam' d' ?v = Some (Ret ((StatusSuccess, None), w_Delete (nam' @ ''.start'') (?v\<lparr>w_reads := w_reads ?v + 1\<rparr>)))" .
  ultimately show "\<exists>v'. tick F fuel (Sequence s [Some (WaitAction nam d), Some (WaitAction nam' d')]) v = Some (Ret ((StatusSuccess, None), v'))"
    by (simp add: tick_child_def ret_def)
qed

text \<open>Ticking one node again and again, with what the clock showed and the status of each tick.\<close>

fun tick_log :: "'f float_ops \<Rightarrow> nat \<Rightarrow> ('f, 'z) node \<Rightarrow> nat \<Rightarrow> ('f, 'z) world_scheme \<Rightarrow> (int \<times> Status) list" where
  "tick_log F fuel n 0 w = []"
| "tick_log F fuel n (Suc k) w =
     (case tick F fuel n w of
        Some (Ret ((st, err), w')) \<Rightarrow> (w_clock w (w_reads w), st) # tick_log F fuel n k w'
      | _ \<Rightarrow> [])"

definition success_times :: "(int \<times> Status) list \<Rightarrow> int list" where
  "success_times log = map fst (filter (\<lambda>e. snd e = StatusSuccess) log)"

text \<open>A child that leaves the key of the cooldown and the view alone.\<close>

definition leaves :: "'f float_ops \<Rightarrow> nat \<Rightarrow> ('f, 'z) node \<Rightarrow> string \<Rightarrow> bool" where
  "leaves F fuel c key \<longleftrightarrow> (\<forall>w st err w'. tick F fuel c w = Some (Ret ((st, err), w')) \<longrightarrow> w_Get w' key = w_Get w key)"

lemma cooldown_tick:
  assumes "leaves F fuel c (name @ ''.last'')" and "0 \<le> d \<and> d < 2 ^ 63"
    and "tick F fuel (Cooldown name d b (Some c)) w = Some (Ret ((st, err), w'))"
  shows "(if st = StatusSuccess
      then w_Get w' (name @ ''.last'') = Some (ATime (w_clock w (w_reads w))) \<and>
        (\<forall>t. w_Get w (name @ ''.last'') = Some (ATime t) \<longrightarrow> d \<le> w_clock w (w_reads w) - t)
      else w_Get w' (name @ ''.last'') = w_Get w (name @ ''.last'') \<or>
        w_Get w' (name @ ''.last'') = Some (ATime (w_clock w (w_reads w))) \<and>
        (\<forall>t. w_Get w (name @ ''.last'') = Some (ATime t) \<longrightarrow> d \<le> w_clock w (w_reads w) - t))"
proof -
  let ?key = "name @ ''.last''" and ?now = "w_clock w (w_reads w)"
  let ?w = "w\<lparr>w_reads := w_reads w + 1\<rparr>"
  show ?thesis
  proof (cases "cooling ?now d (w_Get w ?key)")
    case True
    with assms(3) show ?thesis by (auto simp: tick_cooldown_def read_clock_def Let_def ret_def w_Get_reads)
  next
    case False
    then have far: "w_Get w ?key = Some (ATime t) \<Longrightarrow> d \<le> ?now - t" for t
      using assms(2) by (auto simp: cooling_def time_Sub_def)
    from False assms(3) obtain w1 where w1: "tick F fuel c ?w = Some (Ret ((st, err), w1))"
      "w' = (if (if b then st = StatusSuccess else st \<noteq> StatusRunning) then w_Set ?key (ATime ?now) w1 else w1)"
      by (cases "tick F fuel c ?w" rule: then_tick_cases)
        (auto simp: tick_cooldown_def read_clock_def Let_def ret_def w_Get_reads)
    moreover have "w_Get w1 ?key = w_Get w ?key"
      using assms(1) w1(1) unfolding leaves_def by (metis w_Get_reads)
    ultimately show ?thesis using far by (auto simp: w_Get_Set)
  qed
qed

text \<open>
  A cooldown keeps its distance: however often it is ticked, and whatever the clock shows, the
  successful runs of its child are at least the duration apart, in both modes, provided the child
  does not touch the cooldown's key.
\<close>

theorem cooldown_spacing:
  assumes "leaves F fuel c (name @ ''.last'')" and "0 \<le> d" and "d < 2 ^ 63"
  shows "sorted_wrt (\<lambda>t t'. d \<le> t' - t) (success_times (tick_log F fuel (Cooldown name d b (Some c)) k w))"
proof -
  let ?n = "Cooldown name d b (Some c)" and ?key = "name @ ''.last''"
  have "(\<forall>t. w_Get w ?key = Some (ATime t) \<longrightarrow> (\<forall>t'\<in>set (success_times (tick_log F fuel ?n k w)). d \<le> t' - t)) \<and>
      sorted_wrt (\<lambda>t t'. d \<le> t' - t) (success_times (tick_log F fuel ?n k w))"
  proof (induction k arbitrary: w)
    case (Suc k)
    show ?case
    proof (cases "tick F fuel ?n w" rule: then_tick_cases)
      case (result st err w')
      let ?now = "w_clock w (w_reads w)" and ?later = "success_times (tick_log F fuel ?n k w')"
      note step = cooldown_tick [OF assms(1) conjI [OF assms(2,3)] result] and IH = Suc [of w']
      have log: "success_times (tick_log F fuel ?n (Suc k) w) = (if st = StatusSuccess then ?now # ?later else ?later)"
        using result by (simp add: success_times_def del: tick.simps)
      show ?thesis unfolding log using step IH assms(2) by (fastforce split: if_splits)
    qed (simp_all add: success_times_def)
  qed (simp add: success_times_def)
  then show ?thesis by blast
qed

theorem cooldown_spacing_witness:
  "sorted_wrt (\<lambda>t t'. 2000000000 \<le> t' - t)
     (success_times (tick_log int_ops 0 (Cooldown ''c'' 2000000000 True (Some set_x)) 10 start_world))"
proof (rule cooldown_spacing)
  show "leaves int_ops 0 set_x (''c'' @ ''.last'')"
    by (auto simp: leaves_def ret_def w_Get_Set)
qed simp_all

end
