(* ===== verification/Npc_Agent.thy ===== *)
theory Npc_Agent
  imports Npc_Behaviour
begin

text \<open>
  The sensors and the step of an agent: \<open>internal/core/npc/sensors.go\<close>, \<open>agent.go\<close>, \<open>tree.go\<close>, and the
  distances of \<open>internal/core/systems/physics/physics.go\<close> the distance sensor uses.
\<close>

section \<open>Distances\<close>

definition Distance2 :: "'f float_ops \<Rightarrow> 'f \<Rightarrow> 'f \<Rightarrow> 'f \<Rightarrow> 'f \<Rightarrow> 'f" where
  "Distance2 F x1 y1 x2 y2 = f_hypot F (f_sub F x2 x1) (f_sub F y2 y1)"

definition Distance2V :: "'f float_ops \<Rightarrow> 'f \<times> 'f \<Rightarrow> 'f \<times> 'f \<Rightarrow> 'f" where
  "Distance2V F a b = f_hypot F (f_sub F (fst b) (fst a)) (f_sub F (snd b) (snd a))"

definition DistanceT :: "'f float_ops \<Rightarrow> 'f \<times> 'f \<Rightarrow> 'f \<times> 'f \<Rightarrow> 'f" where
  "DistanceT F a b = (case a of (x1, y1) \<Rightarrow> case b of (x2, y2) \<Rightarrow> Distance2 F x1 y1 x2 y2)"

section \<open>Sensors\<close>

text \<open>\<open>SensorFunc\<close> stands for a sensor of the user.\<close>

datatype ('f, 'z) sensor =
    DistanceSensor string string string string string string string string
  | InventorySensor string string 'f string
  | TimerSensor string int64 string
  | SystemResourceSensor string string
  | NetworkSensor string string
  | DatabaseSensor string string
  | SensorFunc string "('f, 'z) world_scheme \<Rightarrow> go_err option \<times> ('f, 'z) world_scheme"

definition w_getFloat :: "'f float_ops \<Rightarrow> ('f, 'z) world_scheme \<Rightarrow> string \<Rightarrow> 'f option" where
  "w_getFloat F w key = getFloat F (w_view w) (w_bb w) key"

text \<open>The object part of \<open>DistanceSensor.Update\<close>: the distance, if both objects are there and of one kind.\<close>

definition object_distance :: "'f float_ops \<Rightarrow> 'f any option \<Rightarrow> 'f any option \<Rightarrow> 'f option" where
  "object_distance F a b = (case (a, b) of
       (Some (AObject at av), Some (AObject bt bv)) \<Rightarrow>
         (case (at, bt) of
            (Some p, Some q) \<Rightarrow> Some (DistanceT F p q)
          | _ \<Rightarrow> (case (av, bv) of (Some p, Some q) \<Rightarrow> Some (Distance2V F p q) | _ \<Rightarrow> None))
     | _ \<Rightarrow> None)"

definition update_distance ::
    "'f float_ops \<Rightarrow> string \<Rightarrow> string \<Rightarrow> string \<Rightarrow> string \<Rightarrow> string \<Rightarrow> string \<Rightarrow> string \<Rightarrow> ('f, 'z) world_scheme \<Rightarrow> go_err option \<times> ('f, 'z) world_scheme" where
  "update_distance F srcKey dstKey srcX srcY dstX dstY out w =
     (case (if srcKey \<noteq> [] \<and> dstKey \<noteq> [] then object_distance F (w_Get w srcKey) (w_Get w dstKey) else None) of
        Some d \<Rightarrow> (None, w_Set out (AFloat64 d) w)
      | None \<Rightarrow>
          (case (w_getFloat F w srcX, w_getFloat F w srcY, w_getFloat F w dstX, w_getFloat F w dstY) of
             (Some x1, Some y1, Some x2, Some y2) \<Rightarrow>
               (None, w_Set out (AFloat64 (f_hypot F (f_sub F x2 x1) (f_sub F y2 y1))) w)
           | _ \<Rightarrow> (Some (Err ''distance sensor missing coordinates or objects''), w)))"

text \<open>
  \<open>UnixNano\<close> is an \<open>int64\<close>, and \<open>1e6\<close> is one here: the milliseconds are an integer division. The zero
  time lies \<open>62135596800\<close> seconds before the Unix epoch.
\<close>

definition timeNowMS :: "('f, 'z) world_scheme \<Rightarrow> int64 \<times> ('f, 'z) world_scheme" where
  "timeNowMS w =
     (let (now, w) = read_clock w;
          nanos = sint (word_of_int (now - 62135596800 * 1000000000) :: int64)
      in (word_of_int (sgn nanos * (\<bar>nanos\<bar> div 1000000)), w))"

definition update_timer :: "string \<Rightarrow> int64 \<Rightarrow> string \<Rightarrow> ('f, 'z) world_scheme \<Rightarrow> go_err option \<times> ('f, 'z) world_scheme" where
  "update_timer name interval out w =
     (let key = name @ ''.last'';
          (nowMS, w) = (case w_Get w ''__now_ms__'' of Some (AInt64 v) \<Rightarrow> (v, w) | _ \<Rightarrow> timeNowMS w)
      in case w_Get w key of
           Some (AInt64 t) \<Rightarrow>
             if nowMS - interval <s t then (None, w_Set out (ABool False) w)
             else (None, w_Set key (AInt64 nowMS) (w_Set out (ABool True) w))
         | _ \<Rightarrow> (None, w_Set key (AInt64 nowMS) (w_Set out (ABool True) w)))"

text \<open>The numbers of goroutines and of allocated bytes are draws of the world.\<close>

definition update_system :: "string \<Rightarrow> ('f, 'z) world_scheme \<Rightarrow> go_err option \<times> ('f, 'z) world_scheme" where
  "update_system out w =
     (let n = w_ints w (w_draws w); alloc = w_ints w (w_draws w + 1); w = w\<lparr>w_draws := w_draws w + 2\<rparr>
      in (None, w_Set (out @ ''.alloc_bytes'') (AUint64 (of_nat alloc)) (w_Set (out @ ''.goroutines'') (AInt (of_nat n)) w)))"

definition update_network :: "string \<Rightarrow> ('f, 'z) world_scheme \<Rightarrow> go_err option \<times> ('f, 'z) world_scheme" where
  "update_network out w =
     (case w_Get w ''network_check'' of
        Some (ABoolFunc b) \<Rightarrow> (None, w_Set (out @ ''.ok'') (ABool b) w)
      | _ \<Rightarrow>
          (case w_Get w ''network.ok'' of
             Some (ABool b) \<Rightarrow> (None, w_Set (out @ ''.ok'') (ABool b) w)
           | _ \<Rightarrow> (None, w_Set (out @ ''.ok'') (ABool False) w)))"

definition update_database :: "string \<Rightarrow> ('f, 'z) world_scheme \<Rightarrow> go_err option \<times> ('f, 'z) world_scheme" where
  "update_database out w =
     (case w_Get w ''db_ping'' of
        Some (AErrFunc err) \<Rightarrow> (None, w_Set (out @ ''.ok'') (ABool (err = None)) w)
      | _ \<Rightarrow> (None, w_Set (out @ ''.ok'') (ABool False) w))"

definition update_inventory :: "'f float_ops \<Rightarrow> string \<Rightarrow> 'f \<Rightarrow> string \<Rightarrow> ('f, 'z) world_scheme \<Rightarrow> go_err option \<times> ('f, 'z) world_scheme" where
  "update_inventory F invKey threshold out w =
     (case w_getFloat F w invKey of
        None \<Rightarrow> (Some (Err ''inventory sensor: invalid inv value type''), w)
      | Some v \<Rightarrow> (None, w_Set out (ABool (f_le F threshold v)) w))"

primrec sensor_Update :: "'f float_ops \<Rightarrow> ('f, 'z) sensor \<Rightarrow> ('f, 'z) world_scheme \<Rightarrow> go_err option \<times> ('f, 'z) world_scheme" where
  "sensor_Update F (DistanceSensor name srcKey dstKey srcX srcY dstX dstY out) =
     update_distance F srcKey dstKey srcX srcY dstX dstY out"
| "sensor_Update F (InventorySensor name invKey threshold out) = update_inventory F invKey threshold out"
| "sensor_Update F (TimerSensor name interval out) = update_timer name interval out"
| "sensor_Update F (SystemResourceSensor name out) = update_system out"
| "sensor_Update F (NetworkSensor name out) = update_network out"
| "sensor_Update F (DatabaseSensor name out) = update_database out"
| "sensor_Update F (SensorFunc name fn) = fn"

section \<open>The agent\<close>

record ('f, 'z) agent =
  ag_root :: "('f, 'z) node option"
  ag_sensors :: "('f, 'z) sensor list"

fun update_sensors :: "'f float_ops \<Rightarrow> ('f, 'z) sensor list \<Rightarrow> ('f, 'z) world_scheme \<Rightarrow> go_err option \<times> ('f, 'z) world_scheme" where
  "update_sensors F [] w = (None, w)"
| "update_sensors F (s # ss) w =
     (case sensor_Update F s w of
        (Some e, w) \<Rightarrow> (Some e, w)
      | (None, w) \<Rightarrow> update_sensors F ss w)"

text \<open>
  \<open>agent.Step\<close>. The record names the root of the tree, so a tree without a root panics there, after
  its tick.
\<close>

definition agent_Step :: "'f float_ops \<Rightarrow> nat \<Rightarrow> ('f, 'z) agent \<Rightarrow> ('f, 'z) ticker" where
  "agent_Step F fuel a w =
     (case update_sensors F (ag_sensors a) w of
        (Some e, w) \<Rightarrow> ret StatusFailure (Some e) w
      | (None, w) \<Rightarrow>
          (let (start, w) = read_clock w
           in then_tick (Tree_Tick F fuel (ag_root a) w) (\<lambda>(st, err) w.
                case ag_root a of
                  None \<Rightarrow> Some (Panic NilDereference)
                | Some root \<Rightarrow>
                    (let (stop, w) = read_clock w; (now, w) = read_clock w;
                         rec = \<lparr>dr_Node = node_Name root, dr_Status = st, dr_Duration = time_Sub stop start,
                                dr_Timestamp = now, dr_Metadata = []\<rparr>
                     in ret st err (w\<lparr>w_memory := AppendDecision rec (w_memory w)\<rparr>)))))"

text \<open>\<open>SaveState\<close> and \<open>LoadState\<close>; an empty encoding of a part is not loaded, but none is empty.\<close>

definition agent_SaveState :: "('f, 'z) world_scheme \<Rightarrow> go_err + ('f bbData \<times> DecisionRecord list)" where
  "agent_SaveState w = (case bb_MarshalBinary (w_bb w) of
       Inl e \<Rightarrow> Inl e
     | Inr bb \<Rightarrow> Inr (bb, Memory_Save (w_memory w)))"

definition agent_LoadState :: "'f bbData \<times> DecisionRecord list \<Rightarrow> ('f, 'z) world_scheme \<Rightarrow> ('f, 'z) world_scheme" where
  "agent_LoadState state w = (case state of (bb, mem) \<Rightarrow>
     w\<lparr>w_bb := bb_UnmarshalBinary bb (w_bb w), w_memory := Memory_Load mem (w_memory w)\<rparr>)"

text \<open>Any number of steps, each result with the length of the history after it.\<close>

fun agent_run :: "'f float_ops \<Rightarrow> nat \<Rightarrow> ('f, 'z) agent \<Rightarrow> nat \<Rightarrow> ('f, 'z) world_scheme \<Rightarrow> ((Status list \<times> ('f, 'z) world_scheme) outcome) option" where
  "agent_run F fuel a 0 w = Some (Ret ([], w))"
| "agent_run F fuel a (Suc k) w =
     (case agent_Step F fuel a w of
        None \<Rightarrow> None
      | Some Blocked \<Rightarrow> Some Blocked
      | Some (Panic p) \<Rightarrow> Some (Panic p)
      | Some (Ret ((st, err), w)) \<Rightarrow>
          (case agent_run F fuel a k w of
             Some (Ret (sts, w)) \<Rightarrow> Some (Ret (st # sts, w))
           | r \<Rightarrow> r))"

section \<open>Who writes the history\<close>

text \<open>Nodes and sensors leave the memory alone, unless a function of the user writes to it.\<close>

named_theorems quiet_intros \<open>ticks that leave the memory alone\<close>

definition quiet_result :: "Memory \<Rightarrow> ('b \<times> ('f, 'z) world_scheme) outcome option \<Rightarrow> bool" where
  "quiet_result m r \<longleftrightarrow> (\<forall>x w. r = Some (Ret (x, w)) \<longrightarrow> w_memory w = m)"

definition quiet_ticker :: "('f, 'z) ticker \<Rightarrow> bool" where
  "quiet_ticker f \<longleftrightarrow> (\<forall>w. quiet_result (w_memory w) (f w))"

lemma w_memory_ops [simp]:
  "w_memory (w_Set k v w) = w_memory w" "w_memory (w_Delete k w) = w_memory w"
  by (simp_all add: w_Set_def w_Delete_def)

lemma quiet_ret [quiet_intros]: "w_memory w = m \<Longrightarrow> quiet_result m (ret st err w)"
  by (simp add: quiet_result_def ret_def)

lemma quiet_then_tick [quiet_intros]:
  assumes r: "quiet_result m r" and k: "\<And>a b w. w_memory w = m \<Longrightarrow> quiet_result m (k (a, b) w)"
  shows "quiet_result m (then_tick r k)"
proof (cases r)
  case None
  then show ?thesis by (simp add: quiet_result_def)
next
  case (Some v)
  show ?thesis
  proof (cases v)
    case (Ret x)
    obtain y w where "x = (y, w)" by (rule prod.exhaust)
    moreover obtain a b where "y = (a, b)" by (rule prod.exhaust)
    ultimately have v: "r = Some (Ret ((a, b), w))" using Some Ret by simp
    then have "w_memory w = m" using r by (simp add: quiet_result_def)
    from k [OF this] show ?thesis unfolding v by (simp only: then_tick_Some)
  qed (use Some in \<open>simp_all add: quiet_result_def\<close>)
qed

lemma quiet_call: "quiet_ticker f \<Longrightarrow> w_memory w = m \<Longrightarrow> quiet_result m (f w)"
  by (auto simp: quiet_ticker_def)

lemma quiet_option [quiet_intros]:
  "(x = None \<Longrightarrow> quiet_result m a) \<Longrightarrow> (\<And>y. x = Some y \<Longrightarrow> quiet_result m (b y)) \<Longrightarrow>
   quiet_result m (case x of None \<Rightarrow> a | Some y \<Rightarrow> b y)"
  by (cases x) auto

lemma quiet_if [quiet_intros]: "quiet_result m a \<Longrightarrow> quiet_result m b \<Longrightarrow> quiet_result m (if p then a else b)"
  by simp

lemma quiet_status [quiet_intros]:
  "quiet_result m a \<Longrightarrow> quiet_result m b \<Longrightarrow> quiet_result m c \<Longrightarrow> (\<And>i. quiet_result m (d i)) \<Longrightarrow>
   quiet_result m (case st of StatusSuccess \<Rightarrow> a | StatusFailure \<Rightarrow> b | StatusRunning \<Rightarrow> c | StatusOther i \<Rightarrow> d i)"
  by (cases st) simp_all

lemma quiet_pair [quiet_intros]:
  "(\<And>a b. x = (a, b) \<Longrightarrow> quiet_result m (f a b)) \<Longrightarrow> quiet_result m (case x of (a, b) \<Rightarrow> f a b)"
  by (cases x) simp

definition quiet_child :: "('f, 'z) ticker option \<Rightarrow> bool" where
  "quiet_child c = pred_option quiet_ticker c"

lemma quiet_tick_child [quiet_intros]: "quiet_child c \<Longrightarrow> w_memory w = m \<Longrightarrow> quiet_result m (tick_child c w)"
  by (cases c) (auto simp: quiet_child_def tick_child_def quiet_result_def quiet_ticker_def)

lemma quiet_sequence [quiet_intros]:
  "list_all quiet_child cs \<Longrightarrow> w_memory w = m \<Longrightarrow> quiet_result m (tick_sequence cs w)"
  by (induction cs arbitrary: w) (auto intro!: quiet_intros)

lemma quiet_selector [quiet_intros]:
  "list_all quiet_child cs \<Longrightarrow> w_memory w = m \<Longrightarrow> quiet_result m (tick_selector e cs w)"
  by (induction cs arbitrary: e w) (auto simp: Let_def intro!: quiet_intros)

lemma quiet_priority [quiet_intros]:
  "list_all quiet_child cs \<Longrightarrow> w_memory w = m \<Longrightarrow> quiet_result m (tick_priority e cs w)"
  by (induction cs arbitrary: e w) (auto simp: Let_def intro!: quiet_intros)

lemma quiet_parallel_loop:
  "list_all quiet_child cs \<Longrightarrow> w_memory w = m \<Longrightarrow> quiet_result m (parallel_loop p n k r e cs w)"
  by (induction cs arbitrary: k r e w) (auto simp: Let_def intro!: quiet_intros)

lemma quiet_many [quiet_intros]:
  assumes "list_all quiet_child cs" and "w_memory w = m"
  shows "quiet_result m (tick_parallel p cs w)" and "quiet_result m (tick_random cs w)"
proof -
  show "quiet_result m (tick_parallel p cs w)"
    using quiet_parallel_loop [OF assms] assms(2) by (simp add: tick_parallel_def quiet_ret)
  have "cs \<noteq> [] \<Longrightarrow> quiet_child (cs ! (k mod length cs))" for k
    using assms(1) by (simp add: list_all_length)
  then show "quiet_result m (tick_random cs w)"
    using assms(2) by (auto simp: tick_random_def intro!: quiet_intros)
qed

lemma quiet_loops [quiet_intros]:
  assumes "quiet_ticker ch" and "w_memory w = m"
  shows "quiet_result m (repeat_loop n b ch w)" and "quiet_result m (until_loop fuel goal stop spent k i ch w)"
proof -
  show "quiet_result m (repeat_loop n b ch w)"
    using assms(2) by (induction n arbitrary: w) (auto intro!: quiet_intros quiet_call [OF assms(1)])
  show "quiet_result m (until_loop fuel goal stop spent k i ch w)"
    using assms(2)
  proof (induction fuel arbitrary: w i)
    case 0
    then show ?case by (simp add: quiet_result_def)
  next
    case (Suc fuel)
    then show ?case by (auto intro!: quiet_intros quiet_call [OF assms(1)])
  qed
qed

definition quiet_function :: "(('f, 'z) world_scheme \<Rightarrow> ('b \<times> ('f, 'z) world_scheme) outcome) \<Rightarrow> bool" where
  "quiet_function fn \<longleftrightarrow> (\<forall>w x w'. fn w = Ret (x, w') \<longrightarrow> w_memory w' = w_memory w)"

fun quiet_leaf :: "('f, 'z) node \<Rightarrow> bool" where
  "quiet_leaf (ActionFunc name fn) = quiet_function fn"
| "quiet_leaf (ConditionFunc name fn) = quiet_function fn"
| "quiet_leaf n = True"

inductive quiet_node :: "('f, 'z) node \<Rightarrow> bool" where
  quiet_node: "quiet_leaf n \<Longrightarrow> \<forall>c\<in>set (children n). pred_option quiet_node c \<Longrightarrow> quiet_node n"
monos option.pred_mono

lemma quiet_present:
  assumes ch: "quiet_ticker ch"
  shows "quiet_ticker (tick_repeat k b (Some ch))" "quiet_ticker (tick_timer name d (Some ch))"
    "quiet_ticker (tick_probability F p (Some ch))" "quiet_ticker (tick_inverter (Some ch))"
    "quiet_ticker (tick_succeeder (Some ch))" "quiet_ticker (tick_cooldown name d b (Some ch))"
    "quiet_ticker (tick_until_success fuel k (Some ch))" "quiet_ticker (tick_until_failure fuel k (Some ch))"
  by (auto simp: quiet_ticker_def [of "tick_repeat _ _ _"] quiet_ticker_def [of "tick_timer _ _ _"]
      quiet_ticker_def [of "tick_probability _ _ _"] quiet_ticker_def [of "tick_inverter _"]
      quiet_ticker_def [of "tick_succeeder _"] quiet_ticker_def [of "tick_cooldown _ _ _ _"]
      quiet_ticker_def [of "tick_until_success _ _ _"] quiet_ticker_def [of "tick_until_failure _ _ _"]
      tick_repeat_def tick_timer_def tick_probability_def tick_inverter_def
      tick_succeeder_def tick_cooldown_def tick_until_success_def tick_until_failure_def Let_def read_clock_def
      intro!: quiet_intros quiet_call [OF ch] ch)

lemma quiet_absent:
  "quiet_ticker (tick_repeat k b None)" "quiet_ticker (tick_timer name d None)"
  "quiet_ticker (tick_probability F p None)" "quiet_ticker (tick_inverter None)"
  "quiet_ticker (tick_succeeder None)" "quiet_ticker (tick_cooldown name d b None)"
  "quiet_ticker (tick_until_success fuel k None)" "quiet_ticker (tick_until_failure fuel k None)"
  by (simp_all add: quiet_ticker_def quiet_ret tick_repeat_def tick_timer_def tick_probability_def tick_inverter_def
      tick_succeeder_def tick_cooldown_def tick_until_success_def tick_until_failure_def)

lemma quiet_decorators:
  assumes "quiet_child c"
  shows "quiet_ticker (tick_repeat k b c)" "quiet_ticker (tick_timer name d c)" "quiet_ticker (tick_probability F p c)"
    "quiet_ticker (tick_inverter c)" "quiet_ticker (tick_succeeder c)" "quiet_ticker (tick_cooldown name d b c)"
    "quiet_ticker (tick_until_success fuel k c)" "quiet_ticker (tick_until_failure fuel k c)"
  by (insert assms; cases c; simp only: quiet_child_def option.pred_inject quiet_absent quiet_present)+

lemma quiet_leaves:
  "quiet_ticker (tick_wait name d)" "quiet_ticker (tick_calculate F op l r out)"
  "quiet_ticker (\<lambda>w. ret st err (w_Set key v w))"
  "quiet_function af \<Longrightarrow> quiet_ticker (\<lambda>w. Some (af w))" "quiet_function cf \<Longrightarrow> quiet_ticker (tick_condition cf)"
proof -
  show "quiet_ticker (tick_wait name d)" "quiet_ticker (tick_calculate F op l r out)"
    "quiet_ticker (\<lambda>w. ret st err (w_Set key v w))"
    by (auto simp: quiet_ticker_def tick_wait_def tick_calculate_def Let_def read_clock_def
        split: option.split any.split intro!: quiet_intros)
  show "quiet_function af \<Longrightarrow> quiet_ticker (\<lambda>w. Some (af w))"
    by (simp add: quiet_ticker_def quiet_function_def quiet_result_def)
  assume "quiet_function cf"
  then have "quiet_result (w_memory w) (Some (cf w))" for w
    by (simp add: quiet_function_def quiet_result_def)
  then show "quiet_ticker (tick_condition cf)"
    by (auto simp: quiet_ticker_def tick_condition_def intro!: quiet_intros)
qed

lemma quiet_tick: "quiet_node n \<Longrightarrow> quiet_ticker (tick F fuel n)"
proof (induction rule: quiet_node.induct)
  case (quiet_node n)
  then have "list_all quiet_child (map (map_option (tick F fuel)) (children n))"
    by (fastforce simp: list_all_iff quiet_child_def option.pred_map option.pred_set)
  with quiet_node.hyps(1) show ?case
    by (cases n) (auto simp: quiet_leaves quiet_decorators quiet_ticker_def [of "tick_sequence _"]
      quiet_ticker_def [of "tick_selector _ _"] quiet_ticker_def [of "tick_parallel _ _"]
      quiet_ticker_def [of "tick_random _"] quiet_ticker_def [of "tick_priority _ _"] intro!: quiet_intros)
qed

primrec quiet_sensor :: "('f, 'z) sensor \<Rightarrow> bool" where
  "quiet_sensor (DistanceSensor name srcKey dstKey srcX srcY dstX dstY out) = True"
| "quiet_sensor (InventorySensor name invKey threshold out) = True"
| "quiet_sensor (TimerSensor name interval out) = True"
| "quiet_sensor (SystemResourceSensor name out) = True"
| "quiet_sensor (NetworkSensor name out) = True"
| "quiet_sensor (DatabaseSensor name out) = True"
| "quiet_sensor (SensorFunc name fn) = (\<forall>w. w_memory (snd (fn w)) = w_memory w)"

lemma quiet_update_timer: "w_memory (snd (update_timer name interval out w)) = w_memory w"
proof -
  obtain now w' where r: "(case w_Get w ''__now_ms__'' of Some (AInt64 v) \<Rightarrow> (v, w) | _ \<Rightarrow> timeNowMS w) = (now, w')"
    by (rule prod.exhaust)
  moreover have "w_memory (snd (case w_Get w ''__now_ms__'' of Some (AInt64 v) \<Rightarrow> (v, w) | _ \<Rightarrow> timeNowMS w)) = w_memory w"
    by (simp add: timeNowMS_def read_clock_def Let_def split: option.split any.split)
  ultimately have "w_memory w' = w_memory w" by simp
  then show ?thesis unfolding update_timer_def r by (simp add: Let_def split: option.split any.split)
qed

lemma quiet_update_network: "w_memory (snd (update_network out w)) = w_memory w"
proof -
  have "w_memory (snd (case x of Some (ABool b) \<Rightarrow> (None, w_Set k (ABool b) w)
      | _ \<Rightarrow> (None, w_Set k (ABool False) w))) = w_memory w" for x k
    by (simp split: option.split any.split)
  then show ?thesis unfolding update_network_def by (simp split: option.split any.split)
qed

lemma quiet_update_distance: "w_memory (snd (update_distance F srcKey dstKey srcX srcY dstX dstY out w)) = w_memory w"
  unfolding update_distance_def by (simp split: option.split)

lemma quiet_Update: "quiet_sensor s \<Longrightarrow> w_memory (snd (sensor_Update F s w)) = w_memory w"
  by (cases s) (simp_all add: quiet_update_timer quiet_update_network quiet_update_distance update_inventory_def
      update_system_def update_database_def Let_def split: option.split any.split)

lemma quiet_sensors: "list_all quiet_sensor ss \<Longrightarrow> w_memory (snd (update_sensors F ss w)) = w_memory w"
proof (induction ss arbitrary: w)
  case (Cons s ss)
  obtain e v where u: "sensor_Update F s w = (e, v)" by (rule prod.exhaust)
  with quiet_Update [of s F w] Cons show ?case by (cases e) simp_all
qed simp

section \<open>Steps\<close>

lemma agent_Step_cases:
  assumes "list_all quiet_sensor (ag_sensors a)" and "\<And>root. ag_root a = Some root \<Longrightarrow> quiet_node root"
    and "agent_Step F fuel a w = Some (Ret ((st, err), w'))"
  shows "(\<exists>e v. update_sensors F (ag_sensors a) w = (Some e, v) \<and> st = StatusFailure \<and> err = Some e \<and>
       w_memory w' = w_memory w) \<or>
     (\<exists>v root rec. update_sensors F (ag_sensors a) w = (None, v) \<and> ag_root a = Some root \<and>
       dr_Node rec = node_Name root \<and> dr_Status rec = st \<and> w_memory w' = AppendDecision rec (w_memory w))"
proof -
  obtain e v where u: "update_sensors F (ag_sensors a) w = (e, v)" by (rule prod.exhaust)
  then have mv: "w_memory v = w_memory w" using quiet_sensors [OF assms(1), of F w] by simp
  show ?thesis
  proof (cases e)
    case (Some e')
    with assms(3) u mv show ?thesis by (auto simp: agent_Step_def ret_def)
  next
    case None
    let ?v = "v\<lparr>w_reads := w_reads v + 1\<rparr>"
    obtain st' err' w1 where t: "Tree_Tick F fuel (ag_root a) ?v = Some (Ret ((st', err'), w1))"
      using assms(3) u None
      by (cases "Tree_Tick F fuel (ag_root a) ?v" rule: then_tick_cases)
        (simp_all add: agent_Step_def read_clock_def Let_def)
    obtain root where r: "ag_root a = Some root"
      using assms(3) u None t by (cases "ag_root a") (simp_all add: agent_Step_def read_clock_def Let_def)
    have "w_memory w1 = w_memory w"
      using quiet_tick [OF assms(2) [OF r], of F fuel] t mv
      by (simp add: Tree_Tick_def r quiet_ticker_def quiet_result_def)
    with assms(3) u None t r show ?thesis
      by (auto simp: agent_Step_def read_clock_def Let_def ret_def
          intro!: exI [where x = "\<lparr>dr_Node = n, dr_Status = st, dr_Duration = d, dr_Timestamp = ts, dr_Metadata = []\<rparr>" for n d ts])
  qed
qed

text \<open>
  C20. A step of an agent. If a sensor fails, the later sensors and the tree are not run, the step fails
  with that error and no decision is recorded. Otherwise exactly one decision is recorded at the end of
  the history, under the name of the root and with the status the step returns. An agent without a
  root, which a configuration with an empty root name builds, panics in every step its sensors survive.
\<close>

theorem agent_step:
  assumes "list_all quiet_sensor (ag_sensors a)" and "\<And>root. ag_root a = Some root \<Longrightarrow> quiet_node root"
  shows "(case agent_Step F fuel a w of
      Some (Ret ((st, err), w')) \<Rightarrow>
        (case fst (update_sensors F (ag_sensors a) w) of
           Some e \<Rightarrow> st = StatusFailure \<and> err = Some e \<and> History (w_memory w') = History (w_memory w)
         | None \<Rightarrow> \<exists>root rec. ag_root a = Some root \<and> dr_Node rec = node_Name root \<and> dr_Status rec = st \<and>
             History (w_memory w') = History (w_memory w) @ [rec])
    | _ \<Rightarrow> fst (update_sensors F (ag_sensors a) w) = None) \<and>
   (ag_root a = None \<and> fst (update_sensors F (ag_sensors a) w) = None \<longrightarrow>
     agent_Step F fuel a w = Some (Panic NilDereference))"
proof (intro conjI impI)
  assume none: "ag_root a = None \<and> fst (update_sensors F (ag_sensors a) w) = None"
  then obtain v where "update_sensors F (ag_sensors a) w = (None, v)"
    by (cases "update_sensors F (ag_sensors a) w") simp
  with none show "agent_Step F fuel a w = Some (Panic NilDereference)"
    by (simp add: agent_Step_def read_clock_def Tree_Tick_def ret_def Let_def)
next
  obtain e v where u: "update_sensors F (ag_sensors a) w = (e, v)" by (rule prod.exhaust)
  show "case agent_Step F fuel a w of
      Some (Ret ((st, err), w')) \<Rightarrow>
        (case fst (update_sensors F (ag_sensors a) w) of
           Some e \<Rightarrow> st = StatusFailure \<and> err = Some e \<and> History (w_memory w') = History (w_memory w)
         | None \<Rightarrow> \<exists>root rec. ag_root a = Some root \<and> dr_Node rec = node_Name root \<and> dr_Status rec = st \<and>
             History (w_memory w') = History (w_memory w) @ [rec])
    | _ \<Rightarrow> fst (update_sensors F (ag_sensors a) w) = None"
  proof (cases "agent_Step F fuel a w" rule: then_tick_cases)
    case (result st err w')
    from agent_Step_cases [OF assms result] show ?thesis
      unfolding result u by (auto simp: History_def AppendDecision_def)
  qed (use u in \<open>cases e; simp add: agent_Step_def ret_def\<close>)+
qed

text \<open>
  Any number of steps of an agent whose sensors do not fail: the history grows by one record per
  step, in order, each with the name of the root and the status of its step.
\<close>

theorem agent_history:
  assumes "list_all quiet_sensor (ag_sensors a)" and "ag_root a = Some root" and "quiet_node root"
    and "\<And>w. fst (update_sensors F (ag_sensors a) w) = None"
    and "agent_run F fuel a k w = Some (Ret (sts, w'))"
  shows "length sts = k \<and>
    map (\<lambda>r. (dr_Node r, dr_Status r)) (History (w_memory w')) =
    map (\<lambda>r. (dr_Node r, dr_Status r)) (History (w_memory w)) @ map (\<lambda>st. (node_Name root, st)) sts"
  using assms(5)
proof (induction k arbitrary: w sts)
  case (Suc k)
  have q: "ag_root a = Some root' \<Longrightarrow> quiet_node root'" for root' using assms(2,3) by simp
  show ?case
  proof (cases "agent_Step F fuel a w" rule: then_tick_cases)
    case (result st err w1)
    obtain sts' where r: "agent_run F fuel a k w1 = Some (Ret (sts', w'))" "sts = st # sts'"
      using Suc.prems result by (auto split: option.splits outcome.splits)
    from agent_Step_cases [OF assms(1) q result] assms(2,4) obtain rec where
      "dr_Node rec = node_Name root" "dr_Status rec = st" "w_memory w1 = AppendDecision rec (w_memory w)"
      by (metis fst_conv option.distinct(1) option.inject)
    with Suc.IH [OF r(1)] r(2) show ?thesis by (simp add: History_def AppendDecision_def)
  qed (use Suc.prems in simp_all)
qed simp

definition small_agent :: "(int, unit) agent" where
  "small_agent = \<lparr>ag_root = Some set_x, ag_sensors = [NetworkSensor ''NetworkSensor'' ''network'']\<rparr>"

lemma small_agent_quiet: "list_all quiet_sensor (ag_sensors small_agent)" "quiet_node set_x"
  by (simp_all add: small_agent_def quiet_node.simps [of "SetValueAction _ _ _"])

lemma small_agent_sensors: "fst (update_sensors F (ag_sensors small_agent) w) = None"
  by (auto simp: small_agent_def update_network_def split: option.split any.split)

theorem agent_step_witness:
  "agent_Step int_ops 0 \<lparr>ag_root = None, ag_sensors = ag_sensors small_agent\<rparr> start_world = Some (Panic NilDereference)"
  using agent_step [where a = "\<lparr>ag_root = None, ag_sensors = ag_sensors small_agent\<rparr>" and F = int_ops and fuel = 0 and w = start_world]
    small_agent_quiet(1) small_agent_sensors by simp

lemma small_agent_steps: "\<exists>sts w'. agent_run int_ops 0 small_agent k w = Some (Ret (sts, w'))"
proof (induction k arbitrary: w)
  case (Suc k)
  obtain v where "update_sensors int_ops (ag_sensors small_agent) w = (None, v)"
    using small_agent_sensors [of int_ops w] by (metis prod.collapse)
  then obtain w1 where "agent_Step int_ops 0 small_agent w = Some (Ret ((StatusSuccess, None), w1))"
    by (simp add: agent_Step_def Tree_Tick_def read_clock_def Let_def ret_def small_agent_def)
  moreover obtain sts w' where "agent_run int_ops 0 small_agent k w1 = Some (Ret (sts, w'))" using Suc by blast
  ultimately show ?case by simp
qed simp

theorem agent_history_witness:
  "\<exists>sts w'. agent_run int_ops 0 small_agent 3 start_world = Some (Ret (sts, w')) \<and> length sts = 3"
proof -
  obtain sts w' where r: "agent_run int_ops 0 small_agent 3 start_world = Some (Ret (sts, w'))"
    using small_agent_steps by blast
  have "ag_root small_agent = Some set_x" by (simp add: small_agent_def)
  from agent_history [OF small_agent_quiet(1) this small_agent_quiet(2) small_agent_sensors r] r show ?thesis by blast
qed

end
