(* ===== verification/Go_Channel.thy ===== *)
theory Go_Channel
  imports Zeus_Prelude
begin

text \<open>
  The Go channel the channel variables are built on: a buffer, a capacity, a closed flag and the two
  queues of parked goroutines. An operation that can proceed may complete a parked goroutine; those
  completions are the list of wake-ups it returns.
\<close>

section \<open>State and primitive operations\<close>

record 'a gochan =
  gc_buf :: "'a list"
  gc_cap :: nat
  gc_closed :: bool
  gc_recvq :: "nat list"
  gc_sendq :: "(nat \<times> 'a) list"

text \<open>What a parked goroutine finds when it runs again: its received value (with the flag that is
  false for the zero value of a closed channel), its completed send, or the panic of a sender whose
  channel was closed under it.\<close>

datatype 'a wake = Received nat 'a bool | Sent nat 'a | SendPanics nat

definition make_chan :: "int \<Rightarrow> 'a gochan outcome" where
  "make_chan n = (if n < 0 then Panic NegativeSize
     else Ret \<lparr>gc_buf = [], gc_cap = nat n, gc_closed = False, gc_recvq = [], gc_sendq = []\<rparr>)"

text \<open>\<open>None\<close>: the operation cannot proceed now.\<close>

definition chan_offer :: "'a \<Rightarrow> 'a gochan \<Rightarrow> ('a wake list \<times> 'a gochan) option outcome" where
  "chan_offer v ch =
     (if gc_closed ch then Panic SendOnClosedChannel
      else case gc_recvq ch of
        r # rs \<Rightarrow> Ret (Some ([Received r v True], ch\<lparr>gc_recvq := rs\<rparr>))
      | [] \<Rightarrow>
          if length (gc_buf ch) < gc_cap ch
          then Ret (Some ([], ch\<lparr>gc_buf := gc_buf ch @ [v]\<rparr>))
          else Ret None)"

definition chan_poll :: "'a \<Rightarrow> 'a gochan \<Rightarrow> (('a \<times> bool) \<times> 'a wake list \<times> 'a gochan) option" where
  "chan_poll zero ch =
     (case gc_buf ch of
        v # vs \<Rightarrow>
          (case gc_sendq ch of
             [] \<Rightarrow> Some ((v, True), [], ch\<lparr>gc_buf := vs\<rparr>)
           | (s, w) # ss \<Rightarrow> Some ((v, True), [Sent s w], ch\<lparr>gc_buf := vs @ [w], gc_sendq := ss\<rparr>))
      | [] \<Rightarrow>
          (case gc_sendq ch of
             (s, w) # ss \<Rightarrow> Some ((w, True), [Sent s w], ch\<lparr>gc_sendq := ss\<rparr>)
           | [] \<Rightarrow> if gc_closed ch then Some ((zero, False), [], ch) else None))"

definition park_sender :: "nat \<Rightarrow> 'a \<Rightarrow> 'a gochan \<Rightarrow> 'a gochan" where
  "park_sender g v ch = ch\<lparr>gc_sendq := gc_sendq ch @ [(g, v)]\<rparr>"

definition park_receiver :: "nat \<Rightarrow> 'a gochan \<Rightarrow> 'a gochan" where
  "park_receiver g ch = ch\<lparr>gc_recvq := gc_recvq ch @ [g]\<rparr>"

definition chan_close :: "'a \<Rightarrow> 'a gochan \<Rightarrow> ('a wake list \<times> 'a gochan) outcome" where
  "chan_close zero ch =
     (if gc_closed ch then Panic CloseOfClosedChannel
      else Ret (map (\<lambda>r. Received r zero False) (gc_recvq ch) @ map (\<lambda>(s, w). SendPanics s) (gc_sendq ch),
                ch\<lparr>gc_closed := True, gc_recvq := [], gc_sendq := []\<rparr>))"

section \<open>Well-formedness and the order of values\<close>

definition chan_wf :: "'a gochan \<Rightarrow> bool" where
  "chan_wf ch \<longleftrightarrow> length (gc_buf ch) \<le> gc_cap ch \<and>
     (gc_recvq ch \<noteq> [] \<longrightarrow> gc_buf ch = [] \<and> gc_sendq ch = []) \<and>
     (gc_sendq ch \<noteq> [] \<longrightarrow> length (gc_buf ch) = gc_cap ch) \<and>
     (gc_closed ch \<longrightarrow> gc_recvq ch = [] \<and> gc_sendq ch = [])"

text \<open>The values inside the channel, oldest first: the buffer, then the parked senders.\<close>

definition chan_values :: "'a gochan \<Rightarrow> 'a list" where
  "chan_values ch = gc_buf ch @ map snd (gc_sendq ch)"

fun woken_values :: "'a wake list \<Rightarrow> 'a list" where
  "woken_values [] = []"
| "woken_values (Received r v True # ws) = v # woken_values ws"
| "woken_values (_ # ws) = woken_values ws"

lemma make_chan_wf: "make_chan n = Ret ch \<Longrightarrow> chan_wf ch \<and> chan_values ch = []"
  by (auto simp: make_chan_def chan_wf_def chan_values_def split: if_splits)

lemma chan_offer_ok:
  assumes "chan_offer v ch = Ret (Some (ws, ch'))" and "chan_wf ch"
  shows "chan_wf ch'" and "chan_values ch @ [v] = woken_values ws @ chan_values ch'"
    and "gc_closed ch' = gc_closed ch" and "gc_cap ch' = gc_cap ch"
  using assms by (auto simp: chan_offer_def chan_wf_def chan_values_def split: if_splits list.splits)

lemma chan_offer_none:
  assumes "chan_offer v ch = Ret None" and "chan_wf ch"
  shows "chan_wf (park_sender g v ch)" and "chan_values (park_sender g v ch) = chan_values ch @ [v]"
    and "gc_recvq ch = []" and "length (gc_buf ch) = gc_cap ch" and "\<not> gc_closed ch"
  using assms
  by (auto simp: chan_offer_def chan_wf_def chan_values_def park_sender_def split: if_splits list.splits)

lemma chan_offer_open: "\<not> gc_closed ch \<Longrightarrow> returns (chan_offer v ch)"
  by (simp add: chan_offer_def split: list.split)

lemma chan_poll_value:
  assumes "chan_poll zero ch = Some ((v, True), ws, ch')" and "chan_wf ch"
  shows "chan_wf ch'" and "chan_values ch = v # chan_values ch'" and "woken_values ws = []"
    and "gc_closed ch' = gc_closed ch" and "gc_cap ch' = gc_cap ch"
  using assms by (auto simp: chan_poll_def chan_wf_def chan_values_def split: if_splits list.splits)

lemma chan_poll_none:
  assumes "chan_poll zero ch = None" and "chan_wf ch"
  shows "chan_wf (park_receiver g ch)" and "chan_values ch = []" and "\<not> gc_closed ch"
    and "chan_values (park_receiver g ch) = []"
  using assms
  by (auto simp: chan_poll_def chan_wf_def chan_values_def park_receiver_def split: if_splits list.splits)

lemma chan_poll_closed:
  "chan_poll zero ch = Some ((v, False), ws, ch') \<Longrightarrow> gc_closed ch \<and> chan_values ch = [] \<and> ws = [] \<and> ch' = ch \<and> v = zero"
  by (auto simp: chan_poll_def chan_values_def split: if_splits list.splits)

lemma chan_close_ok:
  "chan_close zero ch = Ret (ws, ch') \<Longrightarrow> chan_wf ch \<Longrightarrow> chan_wf ch' \<and> gc_closed ch' \<and> gc_buf ch' = gc_buf ch"
  by (auto simp: chan_close_def chan_wf_def split: if_splits)

end
