(* ===== verification/Npc_Game.thy ===== *)
theory Npc_Game
  imports Npc_World Npc_Agent Go_Channel
begin

text \<open>
  The web demo of the agents, \<open>examples/npc_web/main.go\<close>: its vision sensor, its actions and
  conditions, the tree it builds from them, the frame of its main loop and the hub that sends the
  frames out. It runs on the model of the agents: the sensor is a \<open>SensorFunc\<close>, the actions and
  conditions are \<open>ActionFunc\<close> and \<open>ConditionFunc\<close>, and a step of the demo is \<open>agent_Step\<close>.
\<close>

section \<open>State\<close>

text \<open>
  The world of the ticks with the grid the closures share, and the store of the maps of visited cells:
  the blackboard holds a reference to one, an \<open>AOther\<close> with its address.
\<close>

record 'f game_state = "'f world" +
  gs_world :: grid_world
  gs_maps :: "(int \<times> int) list list"

definition getInt :: "'f float_ops \<Rightarrow> ('f, 'z) world_scheme \<Rightarrow> string \<Rightarrow> int" where
  "getInt F w key = (case w_Get w key of
       Some (AInt i) \<Rightarrow> sint i
     | Some (AInt64 i) \<Rightarrow> sint i
     | Some (AFloat64 x) \<Rightarrow> f_to_int F x
     | _ \<Rightarrow> 0)"

definition getBool :: "('f, 'z) world_scheme \<Rightarrow> string \<Rightarrow> bool" where
  "getBool w key = (case w_Get w key of Some (ABool b) \<Rightarrow> b | _ \<Rightarrow> False)"

definition set_int :: "string \<Rightarrow> int \<Rightarrow> ('f, 'z) world_scheme \<Rightarrow> ('f, 'z) world_scheme" where
  "set_int key i w = w_Set key (AInt (word_of_int i)) w"

definition set_bool :: "string \<Rightarrow> bool \<Rightarrow> ('f, 'z) world_scheme \<Rightarrow> ('f, 'z) world_scheme" where
  "set_bool key b w = w_Set key (ABool b) w"

text \<open>\<open>fmt.Sprintf("danger_%d_%d", x, y)\<close>\<close>

definition danger_key :: "int \<Rightarrow> int \<Rightarrow> string" where
  "danger_key x y = ''danger_'' @ show_int x @ ''_'' @ show_int y"

section \<open>The vision sensor\<close>

record scan =
  sc_exitVisible :: bool
  sc_nTrap :: bool
  sc_nArt :: bool
  sc_nearestArtDist :: int
  sc_ax :: int
  sc_ay :: int

definition look_at ::
    "int \<Rightarrow> int \<Rightarrow> int \<times> int \<Rightarrow> scan \<times> ('f, 'z) game_state_scheme \<Rightarrow> scan \<times> ('f, 'z) game_state_scheme" where
  "look_at xi yi d sw = (case d of (dx, dy) \<Rightarrow> case sw of (s, w) \<Rightarrow>
     let x = xi + dx; y = yi + dy
     in if \<not> InBounds (gs_world w) x y then (s, w)
        else case TileAt (gs_world w) x y of
          Exit \<Rightarrow> (s\<lparr>sc_exitVisible := True\<rparr>, set_int ''exit_y'' y (set_int ''exit_x'' x w))
        | Trap \<Rightarrow> (s\<lparr>sc_nTrap := True\<rparr>, w)
        | Artifact \<Rightarrow>
            (let s = s\<lparr>sc_nArt := True\<rparr>; d = \<bar>dx\<bar> + \<bar>dy\<bar>
             in (if d < sc_nearestArtDist s then s\<lparr>sc_nearestArtDist := d, sc_ax := x, sc_ay := y\<rparr> else s, w))
        | _ \<Rightarrow> (s, w))"

definition square :: "int \<Rightarrow> (int \<times> int) list" where
  "square r = concat (map (\<lambda>dy. map (\<lambda>dx. (dx, dy)) [- r..r]) [- r..r])"

definition VisionSensor_Update ::
    "'f float_ops \<Rightarrow> int \<Rightarrow> ('f, 'z) game_state_scheme \<Rightarrow> go_err option \<times> ('f, 'z) game_state_scheme" where
  "VisionSensor_Update F r w =
     (let xi = getInt F w ''pos_x''; yi = getInt F w ''pos_y'';
          tile = TileAt (gs_world w) xi yi;
          w = set_bool ''fog_here'' (tile = Fog) (set_bool ''artifact_here'' (tile = Artifact)
                (set_bool ''trap_here'' (tile = Trap) w));
          (s, w) = fold (look_at xi yi) (square r)
            (\<lparr>sc_exitVisible = False, sc_nTrap = False, sc_nArt = False, sc_nearestArtDist = 2 ^ 30, sc_ax = - 1, sc_ay = - 1\<rparr>, w);
          w = set_bool ''nearby_artifact'' (sc_nArt s) (set_bool ''nearby_trap'' (sc_nTrap s)
                (set_bool ''exit_visible'' (sc_exitVisible s) w));
          w = (if sc_nArt s \<and> sc_ax s \<ge> 0
               then set_int ''artifact_y'' (sc_ay s) (set_int ''artifact_x'' (sc_ax s) (set_bool ''artifact_visible'' True w))
               else set_bool ''artifact_visible'' False w);
          tenth = f_div F (f_of_int F 1) (f_of_int F 10)
      in (None, w_Set ''speed_mod''
            (AFloat64 (f_add F (f_of_int F 1) (f_mul F (f_of_int F (getInt F w ''energy'')) tenth))) w))"

section \<open>Actions and conditions\<close>

definition dirs :: "(int \<times> int) list" where
  "dirs = [(1, 0), (- 1, 0), (0, 1), (0, - 1)]"

definition open_cell :: "('f, 'z) game_state_scheme \<Rightarrow> int \<Rightarrow> int \<Rightarrow> bool" where
  "open_cell w x y \<longleftrightarrow> InBounds (gs_world w) x y \<and> \<not> getBool w (danger_key x y)"

text \<open>The first open neighbour, which both movements fall back to.\<close>

definition first_open :: "('f, 'z) game_state_scheme \<Rightarrow> int \<Rightarrow> int \<Rightarrow> (int \<times> int) option" where
  "first_open w x y = find (\<lambda>(nx, ny). open_cell w nx ny) (map (\<lambda>(dx, dy). (x + dx, y + dy)) dirs)"

definition weigh ::
    "('f, 'z) game_state_scheme \<Rightarrow> int \<Rightarrow> int \<Rightarrow> int \<Rightarrow> int \<Rightarrow> int \<times> int \<Rightarrow> int \<times> int \<times> int \<Rightarrow> int \<times> int \<times> int" where
  "weigh w cx cy gx gy d best = (case d of (dx, dy) \<Rightarrow>
     let nx = cx + dx; ny = cy + dy
     in if \<not> open_cell w nx ny then best
        else let s = (\<bar>gx - nx\<bar> + \<bar>gy - ny\<bar>) * 10 + (if TileAt (gs_world w) nx ny = Fog then 3 else 0)
             in if s < snd (snd best) then (nx, ny, s) else best)"

definition move_target :: "('f, 'z) game_state_scheme \<Rightarrow> int \<Rightarrow> int \<Rightarrow> int \<Rightarrow> int \<Rightarrow> int \<times> int" where
  "move_target w cx cy gx gy =
     (case fold (weigh w cx cy gx gy) dirs (cx, cy, 2 ^ 30) of (bx, by1, score) \<Rightarrow>
        if score = 2 ^ 30 then (case first_open w cx cy of Some p \<Rightarrow> p | None \<Rightarrow> (bx, by1)) else (bx, by1))"

definition set_pos :: "int \<times> int \<Rightarrow> ('f, 'z) world_scheme \<Rightarrow> ('f, 'z) world_scheme" where
  "set_pos p w = set_int ''pos_y'' (snd p) (set_int ''pos_x'' (fst p) w)"

text \<open>\<open>rand.Float64() < 0.5\<close> takes a draw only in fog.\<close>

definition MoveSmartAction ::
    "'f float_ops \<Rightarrow> string \<Rightarrow> string \<Rightarrow> ('f, 'z) game_state_scheme \<Rightarrow> (tick_result \<times> ('f, 'z) game_state_scheme) outcome" where
  "MoveSmartAction F tx ty w =
     (let cx = getInt F w ''pos_x''; cy = getInt F w ''pos_y''; gx = getInt F w tx; gy = getInt F w ty
      in if cx = gx \<and> cy = gy then Ret ((StatusSuccess, None), w)
         else let best = move_target w cx cy gx gy
              in if getBool w ''fog_here''
                 then let r = w_floats w (w_draws w); w = w\<lparr>w_draws := w_draws w + 1\<rparr>
                      in if \<not> f_le F (f_div F (f_of_int F 1) (f_of_int F 2)) r then Ret ((StatusRunning, None), w)
                         else Ret ((StatusRunning, None), set_pos best w)
                 else Ret ((StatusRunning, None), set_pos best w))"

text \<open>
  The breadth-first search of \<open>Explore\<close>: the neighbours of one cell, then the queue, of which the
  cells before \<open>qi\<close> are dropped here. The newest entry of \<open>parents\<close> comes first.
\<close>

definition admitted :: "('f, 'z) game_state_scheme \<Rightarrow> bool \<Rightarrow> int \<times> int \<Rightarrow> bool" where
  "admitted w allowFog np \<longleftrightarrow> open_cell w (fst np) (snd np) \<and>
     \<not> (TileAt (gs_world w) (fst np) (snd np) = Fog \<and> \<not> allowFog)"

type_synonym parent_map = "((int \<times> int) \<times> (int \<times> int)) list"

fun bfs_dirs ::
    "(int \<times> int \<Rightarrow> bool) \<Rightarrow> (int \<times> int) list \<Rightarrow> int \<times> int \<Rightarrow> (int \<times> int) list \<Rightarrow>
     (int \<times> int) list \<Rightarrow> parent_map \<Rightarrow> (int \<times> int) list \<Rightarrow>
     (int \<times> int) option \<times> (int \<times> int) list \<times> parent_map \<times> (int \<times> int) list" where
  "bfs_dirs adm vm cur [] seen parents queue = (None, seen, parents, queue)"
| "bfs_dirs adm vm cur (d # ds) seen parents queue =
     (let np = (fst cur + fst d, snd cur + snd d)
      in if \<not> adm np \<or> np \<in> set seen then bfs_dirs adm vm cur ds seen parents queue
         else if np \<notin> set vm then (Some np, np # seen, (np, cur) # parents, queue)
         else bfs_dirs adm vm cur ds (np # seen) ((np, cur) # parents) (queue @ [np]))"

lemma bfs_dirs_budget:
  assumes "bfs_dirs adm vm cur ds seen parents queue = (r, seen', parents', queue')"
    and "finite C" and "\<And>np. adm np \<Longrightarrow> np \<in> C"
  shows "length queue' + card (C - set seen') \<le> length queue + card (C - set seen)"
  using assms(1)
proof (induction ds arbitrary: seen parents queue)
  case (Cons d ds)
  let ?np = "(fst cur + fst d, snd cur + snd d)"
  have "Suc (card (C - insert ?np (set seen))) \<le> card (C - set seen)" if "adm ?np" "?np \<notin> set seen"
    using that assms(2) assms(3) [of ?np] card_Suc_Diff1 [of "C - set seen" ?np] by (simp add: Diff_insert [of C])
  with Cons.prems show ?case
    by (auto simp: Let_def split: if_splits dest!: Cons.IH)
qed simp

lemma admitted_cells: "admitted w allowFog np \<Longrightarrow> np \<in> cells (gs_world w)"
  by (cases np) (simp add: admitted_def open_cell_def in_cells)

function bfs_loop ::
    "('f, 'z) game_state_scheme \<Rightarrow> bool \<Rightarrow> (int \<times> int) list \<Rightarrow> (int \<times> int) list \<Rightarrow> (int \<times> int) list \<Rightarrow>
     parent_map \<Rightarrow> (int \<times> int) option \<times> parent_map" where
  "bfs_loop w allowFog vm [] seen parents = (None, parents)"
| "bfs_loop w allowFog vm (cur # queue) seen parents =
     (case bfs_dirs (admitted w allowFog) vm cur dirs seen parents queue of (r, seen', parents', queue') \<Rightarrow>
        if r \<noteq> None then (r, parents') else bfs_loop w allowFog vm queue' seen' parents')"
  by pat_completeness auto

termination
proof (relation "measure (\<lambda>(w, allowFog, vm, queue, seen, parents). length queue + card (cells (gs_world w) - set seen))", goal_cases)
  case (2 w allowFog vm cur queue seen parents r y seen' z parents' queue')
  then have "bfs_dirs (admitted w allowFog) vm cur dirs seen parents queue = (r, seen', parents', queue')" by simp
  then have "length queue' + card (cells (gs_world w) - set seen') \<le> length queue + card (cells (gs_world w) - set seen)"
    by (rule bfs_dirs_budget [OF _ finite_cells]) (rule admitted_cells)
  then show ?case by simp
qed simp

definition bfs ::
    "('f, 'z) game_state_scheme \<Rightarrow> (int \<times> int) list \<Rightarrow> int \<times> int \<Rightarrow> bool \<Rightarrow> (int \<times> int) option \<times> parent_map" where
  "bfs w vm start allowFog = bfs_loop w allowFog vm [start] [start] []"

text \<open>The way back from the target. It has fuel, and \<open>None\<close> is a way that does not end within it.\<close>

fun backtrack :: "nat \<Rightarrow> parent_map \<Rightarrow> int \<times> int \<Rightarrow> int \<times> int \<Rightarrow> (int \<times> int) option" where
  "backtrack 0 parents start cell = None"
| "backtrack (Suc fuel) parents start cell =
     (case map_of parents cell of
        None \<Rightarrow> Some cell
      | Some prev \<Rightarrow> if prev = start then Some cell else backtrack fuel parents start prev)"

text \<open>
  \<open>v.(map[[2]int]bool)\<close>: the map behind the reference, or a new one when the value is no such map. The
  map is updated where it is, and the reference is stored back.
\<close>

definition visited_map :: "('f, 'z) game_state_scheme \<Rightarrow> nat \<times> ('f, 'z) game_state_scheme" where
  "visited_map w = (case w_Get w ''visited'' of
       Some (AOther a) \<Rightarrow> if a < length (gs_maps w) then (a, w) else (length (gs_maps w), w\<lparr>gs_maps := gs_maps w @ [[]]\<rparr>)
     | _ \<Rightarrow> (length (gs_maps w), w\<lparr>gs_maps := gs_maps w @ [[]]\<rparr>))"

definition explore_next :: "('f, 'z) game_state_scheme \<Rightarrow> (int \<times> int) list \<Rightarrow> int \<times> int \<Rightarrow> (int \<times> int) option" where
  "explore_next w vm start =
     (case bfs w vm start False of
        (Some target, parents) \<Rightarrow> backtrack (length parents + 1) parents start target
      | (None, _) \<Rightarrow>
          (case bfs w vm start True of
             (Some target, parents) \<Rightarrow> backtrack (length parents + 1) parents start target
           | (None, _) \<Rightarrow> (case first_open w (fst start) (snd start) of Some p \<Rightarrow> Some p | None \<Rightarrow> Some (0, 0))))"

definition ExploreAction ::
    "'f float_ops \<Rightarrow> ('f, 'z) game_state_scheme \<Rightarrow> (tick_result \<times> ('f, 'z) game_state_scheme) outcome" where
  "ExploreAction F w =
     (let start = (getInt F w ''pos_x'', getInt F w ''pos_y'');
          (a, w) = visited_map w;
          vm = List.insert start (gs_maps w ! a);
          w = w\<lparr>gs_maps := (gs_maps w)[a := vm]\<rparr>
      in case explore_next w vm start of
           None \<Rightarrow> Blocked
         | Some next \<Rightarrow> Ret ((StatusRunning, None), set_pos next (w_Set ''visited'' (AOther a) w)))"

definition PickupArtifactAction ::
    "'f float_ops \<Rightarrow> ('f, 'z) game_state_scheme \<Rightarrow> (tick_result \<times> ('f, 'z) game_state_scheme) outcome" where
  "PickupArtifactAction F w =
     (let x = getInt F w ''pos_x''; y = getInt F w ''pos_y''
      in if TileAt (gs_world w) x y \<noteq> Artifact then Ret ((StatusFailure, None), w)
         else let w = set_int ''energy'' (getInt F w ''energy'' + 1) w
              in Ret ((StatusSuccess, None), w\<lparr>gs_world := ClearTile x y (gs_world w)\<rparr>))"

definition mark_danger :: "int \<Rightarrow> int \<Rightarrow> int \<times> int \<Rightarrow> ('f, 'z) game_state_scheme \<Rightarrow> ('f, 'z) game_state_scheme" where
  "mark_danger x y d w = (case d of (dx, dy) \<Rightarrow>
     let nx = x + dx; ny = y + dy
     in if InBounds (gs_world w) nx ny \<and> TileAt (gs_world w) nx ny = Trap then set_bool (danger_key nx ny) True w else w)"

definition RememberTrapAction ::
    "'f float_ops \<Rightarrow> ('f, 'z) game_state_scheme \<Rightarrow> (tick_result \<times> ('f, 'z) game_state_scheme) outcome" where
  "RememberTrapAction F w =
     (let x = getInt F w ''pos_x''; y = getInt F w ''pos_y''; hp = getInt F w ''hp'';
          on_trap = TileAt (gs_world w) x y = Trap
      in if on_trap \<and> hp \<le> 0 then Ret ((StatusFailure, None), w)
         else let w = (if on_trap then set_int ''hp'' (hp - 1) w else w)
              in Ret ((StatusSuccess, None), fold (mark_danger x y) (square 1) w))"

definition ConditionKeyBool :: "string \<Rightarrow> string \<Rightarrow> ('f, 'z) node" where
  "ConditionKeyBool name key = ConditionFunc name (\<lambda>w. Ret ((getBool w key, None), w))"

definition at_exit :: "'f float_ops \<Rightarrow> ('f, 'z) game_state_scheme \<Rightarrow> bool" where
  "at_exit F w \<longleftrightarrow> TileAt (gs_world w) (getInt F w ''pos_x'') (getInt F w ''pos_y'') = Exit"

text \<open>\<open>CheckAtExit\<close>, the action around \<open>IsAtExitCondition\<close>.\<close>

definition CheckAtExit ::
    "'f float_ops \<Rightarrow> ('f, 'z) game_state_scheme \<Rightarrow> (tick_result \<times> ('f, 'z) game_state_scheme) outcome" where
  "CheckAtExit F w = Ret ((if at_exit F w then StatusSuccess else StatusFailure, None), w)"


section \<open>The tree and the game\<close>

type_synonym 'f game_node = "('f, \<lparr>gs_world :: grid_world, gs_maps :: (int \<times> int) list list\<rparr>) node"

definition toExit :: "'f float_ops \<Rightarrow> 'f game_node" where
  "toExit F = Sequence ''ToExit'' [Some (ConditionKeyBool ''ExitVisible'' ''exit_visible''),
     Some (Selector ''MoveOrDone'' [Some (ActionFunc ''CheckAtExit'' (CheckAtExit F)),
       Some (Cooldown ''MoveCD'' 1000000000 False (Some (ActionFunc ''MoveToExit'' (MoveSmartAction F ''exit_x'' ''exit_y''))))])]"

definition toArtifact :: "'f float_ops \<Rightarrow> 'f game_node" where
  "toArtifact F = Sequence ''ToArtifact'' [Some (ConditionKeyBool ''ArtifactVisible'' ''artifact_visible''),
     Some (ActionFunc ''MoveToArtifact'' (MoveSmartAction F ''artifact_x'' ''artifact_y''))]"

definition collect :: "'f float_ops \<Rightarrow> 'f game_node" where
  "collect F = Sequence ''Collect'' [Some (ConditionKeyBool ''ArtifactHere'' ''artifact_here''),
     Some (ActionFunc ''PickupArtifact'' (PickupArtifactAction F))]"

definition trapImpact :: "'f float_ops \<Rightarrow> 'f game_node" where
  "trapImpact F = Sequence ''TrapImpact'' [Some (ConditionKeyBool ''TrapHere'' ''trap_here''),
     Some (ActionFunc ''RememberTrap'' (RememberTrapAction F))]"

definition safety :: "'f float_ops \<Rightarrow> 'f game_node" where
  "safety F = Sequence ''Safety'' [Some (ConditionKeyBool ''NearTrap'' ''nearby_trap''),
     Some (ActionFunc ''RememberTrap'' (RememberTrapAction F))]"

definition exploreCD :: "'f float_ops \<Rightarrow> 'f game_node" where
  "exploreCD F = Cooldown ''ExploreCD'' 1000000000 False (Some (ActionFunc ''Explore'' (ExploreAction F)))"

definition game_root :: "'f float_ops \<Rightarrow> 'f game_node" where
  "game_root F = Selector ''Root''
     [Some (toExit F), Some (trapImpact F), Some (collect F), Some (toArtifact F), Some (exploreCD F), Some (safety F)]"

definition game_agent :: "'f float_ops \<Rightarrow> ('f, \<lparr>gs_world :: grid_world, gs_maps :: (int \<times> int) list list\<rparr>) agent" where
  "game_agent F = \<lparr>ag_root = Some (game_root F), ag_sensors = [SensorFunc ''VisionSensor'' (VisionSensor_Update F 4)]\<rparr>"

text \<open>
  \<open>Game.build\<close>: a new grid, blackboard and memory. The clock and the draws go on from where they are.
  The map store is kept, since the maps of the old game may still be referenced.
\<close>

definition new_board :: "'f bbData" where
  "new_board = bb_Set [] ''energy'' (AInt 0) (bb_Set [] ''hp'' (AInt 5)
     (bb_Set [] ''pos_y'' (AInt 0) (bb_Set [] ''pos_x'' (AInt 0) NewBlackboard)))"

definition game_build :: "nat \<Rightarrow> (nat \<Rightarrow> nat) \<Rightarrow> 'f game_state \<Rightarrow> 'f game_state outcome option" where
  "game_build fuel grow w = map_option (\<lambda>r. bind_outcome r (\<lambda>(g, k).
       Ret (w\<lparr>gs_world := g, w_draws := k, w_bb := new_board, w_view := [], w_memory := NewMemory grow\<rparr>)))
     (NewWorldRandom fuel (w_ints w) (w_draws w) 22 14 30 7 24)"

record 'f Game =
  g_state :: "'f game_state"
  g_startTime :: int
  g_pendingRestart :: bool

definition Game_Restart :: "nat \<Rightarrow> (nat \<Rightarrow> nat) \<Rightarrow> 'f Game \<Rightarrow> 'f Game outcome option" where
  "Game_Restart fuel grow gm = map_option (\<lambda>r. bind_outcome r (\<lambda>w.
       let (now, w) = read_clock w
       in Ret \<lparr>g_state = w, g_startTime = now, g_pendingRestart = False\<rparr>)) (game_build fuel grow (g_state gm))"

text \<open>The \<open>/restart\<close> handler.\<close>

definition restart_handler :: "nat \<Rightarrow> (nat \<Rightarrow> nat) \<Rightarrow> string \<Rightarrow> 'f Game \<Rightarrow> (nat \<times> 'f Game) outcome option" where
  "restart_handler fuel grow method gm =
     (if method \<noteq> ''POST'' then Some (Ret (405, gm))
      else map_option (\<lambda>r. bind_outcome r (\<lambda>gm. Ret (204, gm))) (Game_Restart fuel grow gm))"

section \<open>Frames\<close>

text \<open>A frame is what the JSON of it says; the status is printed as the number it is.\<close>

record TickFrame =
  tf_Tick :: int
  tf_Elapsed :: int
  tf_Status :: Status
  tf_Outcome :: string
  tf_PosX :: int
  tf_PosY :: int
  tf_HP :: int
  tf_Energy :: int
  tf_ExitVis :: bool
  tf_Remembered :: nat
  tf_Events :: "string list"
  tf_Grid :: "string list list"

text \<open>The variables of the loop, with the start it saw last.\<close>

record frame_loop =
  fl_tick :: int
  fl_prevHP :: int
  fl_prevEnergy :: int
  fl_lastStart :: int

text \<open>
  The part of an iteration after the step: the frame of the state, the next values of the loop's
  variables, and whether the game has a restart pending, which the iteration sets when the agent has
  no life left.
\<close>

definition make_frame ::
    "'f float_ops \<Rightarrow> Status \<Rightarrow> int \<Rightarrow> int \<Rightarrow> 'f game_state \<Rightarrow> bool \<Rightarrow> frame_loop \<Rightarrow> TickFrame \<times> frame_loop \<times> bool" where
  "make_frame F st start now w pending fl =
     (let grid = map (map Tile_String) (gw_Grid (gs_world w));
          rem = length (filter (\<lambda>k. HasPrefix k ''danger_'') (bb_Keys (w_view w) (w_bb w)));
          px = getInt F w ''pos_x''; py = getInt F w ''pos_y''; hp = getInt F w ''hp''; energy = getInt F w ''energy'';
          fl = (if start \<noteq> fl_lastStart fl then fl\<lparr>fl_prevHP := hp, fl_prevEnergy := energy, fl_lastStart := start\<rparr> else fl);
          dh = fl_prevHP fl - hp; de = energy - fl_prevEnergy fl;
          events = (if dh > 0 then [''-'' @ show_int dh @ '' HP (trap)''] else []) @
            (if de > 0 then [''+'' @ show_int de @ '' energy (artifact)''] else []);
          exit = TileAt (gs_world w) px py = Exit;
          outcome = (if exit then ''success'' else if hp \<le> 0 then ''dead'' else []);
          frame = \<lparr>tf_Tick = fl_tick fl, tf_Elapsed = sgn (now - start) * (\<bar>time_Sub now start\<bar> div 80000000), tf_Status = st,
            tf_Outcome = outcome, tf_PosX = px, tf_PosY = py, tf_HP = hp, tf_Energy = energy,
            tf_ExitVis = getBool w ''exit_visible'', tf_Remembered = rem, tf_Events = events, tf_Grid = grid\<rparr>
      in (frame, fl\<lparr>fl_prevHP := hp, fl_prevEnergy := energy, fl_tick := fl_tick fl + 1\<rparr>,
          pending \<or> \<not> exit \<and> hp \<le> 0))"

section \<open>The hub\<close>

text \<open>The clients by their address, each with its channel of capacity 64.\<close>

type_synonym 'b wsHub = "(nat \<times> 'b gochan) list"

definition newHub :: "'b wsHub" where
  "newHub = []"

definition new_client :: "'b gochan outcome" where
  "new_client = make_chan 64"

definition hub_add :: "nat \<Rightarrow> 'b gochan \<Rightarrow> 'b wsHub \<Rightarrow> 'b wsHub" where
  "hub_add c ch h = AList.update c ch h"

definition hub_remove :: "nat \<Rightarrow> 'b wsHub \<Rightarrow> 'b wsHub" where
  "hub_remove c h = AList.delete c h"

text \<open>The select with a default: a client whose channel cannot take the frame misses it.\<close>

fun hub_broadcast :: "'b \<Rightarrow> 'b wsHub \<Rightarrow> 'b wsHub outcome" where
  "hub_broadcast b [] = Ret []"
| "hub_broadcast b ((c, ch) # h) =
     bind_outcome (chan_offer b ch) (\<lambda>r.
     bind_outcome (hub_broadcast b h) (\<lambda>h.
       Ret ((c, case r of Some (_, ch) \<Rightarrow> ch | None \<Rightarrow> ch) # h)))"

text \<open>
  While no channel is closed, and the demo closes none, a broadcast returns at once: a client without
  a waiting reader gets the frame at the end of its buffer if there is room, and misses it if not.
\<close>

lemma hub_broadcast_spec:
  assumes "list_all (\<lambda>(c, ch). \<not> gc_closed ch) h"
  shows "\<exists>h'. hub_broadcast b h = Ret h' \<and>
    list_all2 (\<lambda>(c, ch) (c', ch'). c' = c \<and> \<not> gc_closed ch' \<and>
      (gc_recvq ch = [] \<longrightarrow> gc_buf ch' = (if length (gc_buf ch) < gc_cap ch then gc_buf ch @ [b] else gc_buf ch))) h h'"
  using assms
proof (induction h)
  case (Cons e h)
  obtain c ch where e: "e = (c, ch)" by (rule prod.exhaust)
  obtain h' where "hub_broadcast b h = Ret h'" "list_all2 (\<lambda>(c, ch) (c', ch'). c' = c \<and> \<not> gc_closed ch' \<and>
      (gc_recvq ch = [] \<longrightarrow> gc_buf ch' = (if length (gc_buf ch) < gc_cap ch then gc_buf ch @ [b] else gc_buf ch))) h h'"
    using Cons by auto
  with Cons.prems show ?case by (auto simp: e chan_offer_def split: list.split)
qed simp

end
