(* ===== verification/Npc_Play.thy ===== *)
theory Npc_Play
  imports Npc_Game
begin

text \<open>
  What the web demo does: the search of \<open>Explore\<close> always finds its way back, a step of the agent
  carries out a plan that depends on the grid, the position and the lives only, and a game keeps its
  invariant however long it runs.
\<close>

section \<open>The search\<close>

definition next_to :: "int \<times> int \<Rightarrow> int \<times> int \<Rightarrow> bool" where
  "next_to p c \<longleftrightarrow> (\<exists>d\<in>set dirs. c = (fst p + fst d, snd p + snd d))"

text \<open>The parents lead back to the start: each is the start or has a parent itself, of an older entry.\<close>

fun chained :: "int \<times> int \<Rightarrow> parent_map \<Rightarrow> bool" where
  "chained s [] = True"
| "chained s ((c, p) # ps) \<longleftrightarrow>
     c \<noteq> s \<and> c \<notin> fst ` set ps \<and> (p = s \<or> p \<in> fst ` set ps) \<and> next_to p c \<and> chained s ps"

lemma chained_parent:
  "chained s ps \<Longrightarrow> c \<in> fst ` set ps \<Longrightarrow>
   \<exists>p. map_of ps c = Some p \<and> next_to p c \<and> (p = s \<or> p \<in> fst ` set ps)"
proof (induction s ps rule: chained.induct)
  case (2 s c' p ps)
  then show ?case by (cases "c = c'") auto
qed simp

lemma backtrack_older:
  "chained s ps \<Longrightarrow> c' \<notin> fst ` set ps \<Longrightarrow> c \<in> fst ` set ps \<Longrightarrow>
   backtrack fuel ((c', p) # ps) s c = backtrack fuel ps s c"
proof (induction fuel arbitrary: c)
  case (Suc fuel)
  obtain q where "map_of ps c = Some q" "q = s \<or> q \<in> fst ` set ps"
    using chained_parent [OF Suc.prems(1,3)] by blast
  moreover have "c \<noteq> c'" using Suc.prems by blast
  ultimately show ?case using Suc by (cases "q = s") simp_all
qed simp

lemma backtrack_more_fuel: "backtrack fuel ps s c = Some n \<Longrightarrow> backtrack (Suc fuel) ps s c = Some n"
proof (induction fuel arbitrary: c)
  case (Suc fuel)
  then show ?case by (cases "map_of ps c") (simp_all split: if_splits)
qed simp

lemma backtrack_returns:
  assumes "chained s ps" and "c \<in> fst ` set ps"
  shows "\<exists>n. backtrack (length ps + 1) ps s c = Some n \<and> map_of ps n = Some s \<and> next_to s n \<and> n \<in> fst ` set ps"
  using assms
proof (induction ps arbitrary: c)
  case (Cons e ps)
  obtain c' p where e: "e = (c', p)" by (rule prod.exhaust)
  from Cons.prems(1) have ch: "chained s ps" "c' \<notin> fst ` set ps" "p = s \<or> p \<in> fst ` set ps" "next_to p c'"
    by (simp_all add: e)
  have older: "\<exists>n. backtrack (length ps + 1) (e # ps) s q = Some n \<and> map_of (e # ps) n = Some s \<and> next_to s n \<and>
      n \<in> fst ` set (e # ps)" if q: "q \<in> fst ` set ps" for q
  proof -
    obtain n where "backtrack (length ps + 1) ps s q = Some n" "map_of ps n = Some s" "next_to s n" "n \<in> fst ` set ps"
      using Cons.IH [OF ch(1) q] by blast
    moreover have "n \<noteq> c'" using calculation(4) ch(2) by blast
    ultimately show ?thesis using backtrack_older [OF ch(1,2) q, of "length ps + 1"] by (auto simp: e)
  qed
  show ?case
  proof (cases "c \<in> fst ` set ps")
    case True
    then obtain n where n: "backtrack (length ps + 1) (e # ps) s c = Some n"
      "map_of (e # ps) n = Some s \<and> next_to s n \<and> n \<in> fst ` set (e # ps)"
      using older by blast
    from backtrack_more_fuel [OF n(1)] have "backtrack (length (e # ps) + 1) (e # ps) s c = Some n" by simp
    with n(2) show ?thesis by blast
  next
    case False
    with Cons.prems(2) have c: "c = c'" by (auto simp: e)
    show ?thesis
    proof (cases "p = s")
      case True
      with c ch(4) show ?thesis by (auto simp: e)
    next
      case False
      with older [of p] ch(3) obtain n where n: "backtrack (length ps + 1) (e # ps) s p = Some n"
        "map_of (e # ps) n = Some s \<and> next_to s n \<and> n \<in> fst ` set (e # ps)"
        by blast
      with False c have "backtrack (length (e # ps) + 1) (e # ps) s c = Some n" by (simp add: e)
      with n(2) show ?thesis by blast
    qed
  qed
qed simp

text \<open>What the search keeps: the parents lead back, and every cell it met is admitted.\<close>

definition search_inv :: "(int \<times> int \<Rightarrow> bool) \<Rightarrow> int \<times> int \<Rightarrow> (int \<times> int) list \<Rightarrow> parent_map \<Rightarrow> (int \<times> int) list \<Rightarrow> bool" where
  "search_inv adm s seen ps queue \<longleftrightarrow> chained s ps \<and> set seen = insert s (fst ` set ps) \<and>
     (\<forall>c\<in>fst ` set ps. adm c) \<and> set queue \<subseteq> set seen"

lemma bfs_dirs_inv:
  assumes "bfs_dirs adm vm cur ds seen ps queue = (r, seen', ps', queue')"
    and "search_inv adm s seen ps queue" and "cur \<in> set seen" and "set ds \<subseteq> set dirs"
  shows "search_inv adm s seen' ps' queue' \<and> set seen \<subseteq> set seen' \<and> (\<forall>t. r = Some t \<longrightarrow> t \<in> fst ` set ps' \<and> t \<notin> set vm)"
  using assms
proof (induction ds arbitrary: seen ps queue)
  case (Cons d ds)
  let ?np = "(fst cur + fst d, snd cur + snd d)"
  have near: "next_to cur ?np" using Cons.prems(4) by (auto simp: next_to_def)
  show ?case
  proof (cases "adm ?np \<and> ?np \<notin> set seen")
    case False
    with Cons show ?thesis by (auto simp: Let_def)
  next
    case True
    have seen: "set seen = insert s (fst ` set ps)" using Cons.prems(2) by (simp add: search_inv_def)
    then have inv: "search_inv adm s (?np # seen) ((?np, cur) # ps) queue"
      "search_inv adm s (?np # seen) ((?np, cur) # ps) (queue @ [?np])"
      using Cons.prems(2,3) True near by (auto simp: search_inv_def)
    show ?thesis
    proof (cases "?np \<in> set vm")
      case False
      with True Cons.prems(1) inv(1) show ?thesis by (auto simp: Let_def)
    next
      case vm: True
      with True Cons.prems(1) have "bfs_dirs adm vm cur ds (?np # seen) ((?np, cur) # ps) (queue @ [?np]) = (r, seen', ps', queue')"
        by (simp add: Let_def)
      from Cons.IH [OF this inv(2)] Cons.prems(3,4) show ?thesis by auto
    qed
  qed
qed auto

lemma bfs_loop_inv:
  assumes "bfs_loop w allowFog vm queue seen ps = (r, ps')" and "search_inv (admitted w allowFog) s seen ps queue"
  shows "chained s ps' \<and> (\<forall>c\<in>fst ` set ps'. admitted w allowFog c) \<and> (\<forall>t. r = Some t \<longrightarrow> t \<in> fst ` set ps' \<and> t \<notin> set vm)"
  using assms
proof (induction w allowFog vm queue seen ps rule: bfs_loop.induct)
  case (2 w allowFog vm cur queue seen ps)
  obtain r1 seen1 ps1 queue1 where d: "bfs_dirs (admitted w allowFog) vm cur dirs seen ps queue = (r1, seen1, ps1, queue1)"
    by (metis prod.exhaust)
  have "search_inv (admitted w allowFog) s seen ps queue" "cur \<in> set seen"
    using 2(3) by (auto simp: search_inv_def)
  from bfs_dirs_inv [OF d this] have 1: "search_inv (admitted w allowFog) s seen1 ps1 queue1"
    "\<forall>t. r1 = Some t \<longrightarrow> t \<in> fst ` set ps1 \<and> t \<notin> set vm" by simp_all
  show ?case
  proof (cases r1)
    case None
    with 2(2) d have "bfs_loop w allowFog vm queue1 seen1 ps1 = (r, ps')" by simp
    with 2(1) [OF d [symmetric] refl refl] None 1(1) show ?thesis by simp
  next
    case (Some t)
    with 2(2) d have "ps' = ps1" "r = r1" by auto
    with 1 show ?thesis by (simp add: search_inv_def)
  qed
qed (simp add: search_inv_def)

lemma bfs_spec:
  assumes "bfs w vm s allowFog = (Some t, ps)"
  shows "\<exists>n. backtrack (length ps + 1) ps s t = Some n \<and> next_to s n \<and> open_cell w (fst n) (snd n)" "t \<notin> set vm"
proof -
  have "search_inv (admitted w allowFog) s [s] [] [s]" by (simp add: search_inv_def)
  from bfs_loop_inv [OF assms [unfolded bfs_def] this]
  have b: "chained s ps" "\<forall>c\<in>fst ` set ps. admitted w allowFog c" "t \<in> fst ` set ps" "t \<notin> set vm"
    by simp_all
  from backtrack_returns [OF b(1,3)] b(2)
  show "\<exists>n. backtrack (length ps + 1) ps s t = Some n \<and> next_to s n \<and> open_cell w (fst n) (snd n)"
    unfolding admitted_def by blast
  show "t \<notin> set vm" by (rule b(4))
qed

lemma first_open_spec:
  "first_open w x y = (Some p) \<Longrightarrow> next_to (x, y) p \<and> open_cell w (fst p) (snd p)"
  "first_open w x y = None \<Longrightarrow> next_to (x, y) p \<Longrightarrow> \<not> open_cell w (fst p) (snd p)"
  by (auto simp: first_open_def next_to_def dirs_def split: if_splits)

text \<open>The next cell of \<open>Explore\<close> exists: an open neighbour, or the corner when there is none.\<close>

lemma explore_next_spec:
  "\<exists>p. explore_next w vm s = Some p \<and>
     (next_to s p \<and> open_cell w (fst p) (snd p) \<or> p = (0, 0) \<and> (\<forall>q. next_to s q \<longrightarrow> \<not> open_cell w (fst q) (snd q)))"
proof -
  obtain r1 ps1 where b1: "bfs w vm s False = (r1, ps1)" by (rule prod.exhaust)
  obtain r2 ps2 where b2: "bfs w vm s True = (r2, ps2)" by (rule prod.exhaust)
  show ?thesis
  proof (cases r1)
    case (Some t)
    with bfs_spec(1) [of w vm s False t ps1] b1 show ?thesis by (auto simp: explore_next_def)
  next
    case none1: None
    show ?thesis
    proof (cases r2)
      case (Some t)
      with bfs_spec(1) [of w vm s True t ps2] b1 b2 none1 show ?thesis by (auto simp: explore_next_def)
    next
      case None
      with b1 b2 none1 first_open_spec [of w "fst s" "snd s"] show ?thesis
        by (cases "first_open w (fst s) (snd s)") (auto simp: explore_next_def)
    qed
  qed
qed

section \<open>Keys and values\<close>

lemma sint_within: "- (2 ^ 62) \<le> i \<Longrightarrow> i \<le> 2 ^ 62 \<Longrightarrow> sint (word_of_int i :: int64) = i"
  by (simp add: sint_sbintrunc' signed_take_bit_int_eq_self)

lemma danger_key_inj: "danger_key x y = danger_key x' y' \<longleftrightarrow> x = x' \<and> y = y'"
proof -
  have split: "CHR ''_'' \<notin> set a \<Longrightarrow> CHR ''_'' \<notin> set b \<Longrightarrow> a @ ''_'' @ k = b @ ''_'' @ k' \<longleftrightarrow> a = b \<and> k = k'" for a b k k' :: string
  proof (induction a arbitrary: b)
    case Nil
    then show ?case by (cases b) auto
  next
    case (Cons c a)
    then show ?case by (cases b) auto
  qed
  show ?thesis
    using split [OF show_int_no_underscore show_int_no_underscore, of x "show_int y" x' "show_int y'"]
    by (simp add: danger_key_def show_int_inj)
qed

named_theorems board_simps \<open>reading after writing\<close>

lemma writes [board_simps]:
  "w_Get (set_int k i w) k' = (if k' = k then Some (AInt (word_of_int i)) else w_Get w k')"
  "w_Get (set_bool k b w) k' = (if k' = k then Some (ABool b) else w_Get w k')"
  "w_Get (w_Set k v w) k' = (if k' = k then Some v else w_Get w k')"
  by (simp_all add: set_int_def set_bool_def w_Get_Set)

lemma other_fields [board_simps]:
  "gs_world (w_Set k v w) = gs_world w" "gs_world (set_int k i w) = gs_world w" "gs_world (set_bool k b w) = gs_world w"
  "gs_maps (w_Set k v w) = gs_maps w" "gs_maps (set_int k i w) = gs_maps w" "gs_maps (set_bool k b w) = gs_maps w"
  "w_Get (w\<lparr>gs_world := g\<rparr>) k = w_Get w k" "w_Get (w\<lparr>gs_maps := m\<rparr>) k = w_Get w k"
  "w_Get (w'\<lparr>w_reads := n\<rparr>) k = w_Get w' k" "w_Get (w'\<lparr>w_draws := n\<rparr>) k = w_Get w' k"
  "w_Get (w'\<lparr>w_memory := mem\<rparr>) k = w_Get w' k"
  by (simp_all add: set_int_def set_bool_def w_Set_def w_Get_def)

lemma getInt_writes [board_simps]:
  "getInt F (set_int k i w) k' = (if k' = k then sint (word_of_int i :: int64) else getInt F w k')"
  "getInt F (set_bool k b w) k' = (if k' = k then 0 else getInt F w k')"
  by (simp_all add: getInt_def board_simps)

lemma getBool_writes [board_simps]:
  "getBool (set_bool k b w) k' = (if k' = k then b else getBool w k')"
  "getBool (set_int k i w) k' = (if k' = k then False else getBool w k')"
  by (simp_all add: getBool_def board_simps)

text \<open>The danger keys are no keys of anything else.\<close>

lemma danger_key_other: "k = [] \<or> hd k \<noteq> CHR ''d'' \<Longrightarrow> danger_key x y \<noteq> k \<and> k \<noteq> danger_key x y"
  by (auto simp: danger_key_def)

section \<open>Facts of a game\<close>

definition pos :: "'f float_ops \<Rightarrow> ('f, 'z) world_scheme \<Rightarrow> int \<times> int" where
  "pos F w = (getInt F w ''pos_x'', getInt F w ''pos_y'')"

definition dangers :: "('f, 'z) world_scheme \<Rightarrow> (int \<times> int) set" where
  "dangers w = {p. getBool w (danger_key (fst p) (snd p))}"

text \<open>What a plan depends on: the grid, the position, lives, energy, the remembered dangers, and that no cooldown has started.\<close>

record facts =
  fc_grid :: grid_world
  fc_pos :: "int \<times> int"
  fc_hp :: int
  fc_energy :: int
  fc_dangers :: "(int \<times> int) set"
  fc_cooling :: bool

definition facts_of :: "'f float_ops \<Rightarrow> ('f, 'z) game_state_scheme \<Rightarrow> facts" where
  "facts_of F w = \<lparr>fc_grid = gs_world w, fc_pos = pos F w, fc_hp = getInt F w ''hp'', fc_energy = getInt F w ''energy'',
     fc_dangers = dangers w, fc_cooling = (w_Get w ''MoveCD.last'' \<noteq> None \<or> w_Get w ''ExploreCD.last'' \<noteq> None)\<rparr>"

lemma facts_of_other_keys:
  assumes "k \<notin> {''pos_x'', ''pos_y'', ''hp'', ''energy'', ''MoveCD.last'', ''ExploreCD.last''}" and "hd k \<noteq> CHR ''d''"
  shows "facts_of F (w_Set k v w) = facts_of F w"
    "facts_of F (set_int k i w) = facts_of F w" "facts_of F (set_bool k b w) = facts_of F w"
  using assms danger_key_other [of k]
  by (auto simp: facts_of_def pos_def dangers_def board_simps getInt_def getBool_def)

lemma facts_of_fields:
  "facts_of F (w\<lparr>w_reads := n\<rparr>) = facts_of F w" "facts_of F (w\<lparr>w_draws := n\<rparr>) = facts_of F w"
  "facts_of F (w\<lparr>w_memory := mem\<rparr>) = facts_of F w" "facts_of F (w\<lparr>gs_maps := m\<rparr>) = facts_of F w"
  by (simp_all add: facts_of_def pos_def dangers_def getInt_def getBool_def w_Get_def)

lemma facts_of_set_pos:
  "\<bar>fst p\<bar> \<le> 2 ^ 62 \<Longrightarrow> \<bar>snd p\<bar> \<le> 2 ^ 62 \<Longrightarrow> facts_of F (set_pos p w) = (facts_of F w)\<lparr>fc_pos := p\<rparr>"
  using danger_key_other [of "''pos_x''"] danger_key_other [of "''pos_y''"]
  by (simp add: facts_of_def pos_def dangers_def set_pos_def board_simps sint_within)

section \<open>What the sensor sees\<close>

definition offset_tile :: "grid_world \<Rightarrow> int \<times> int \<Rightarrow> int \<times> int \<Rightarrow> Tile option" where
  "offset_tile g p d = (let x = fst p + fst d; y = snd p + snd d in if InBounds g x y then Some (TileAt g x y) else None)"

definition far :: "int \<times> int \<Rightarrow> int" where
  "far d = \<bar>fst d\<bar> + \<bar>snd d\<bar>"

definition scan_start :: scan where
  "scan_start = \<lparr>sc_exitVisible = False, sc_nTrap = False, sc_nArt = False, sc_nearestArtDist = 2 ^ 30, sc_ax = - 1, sc_ay = - 1\<rparr>"

lemma look_at_cases:
  "look_at (fst p) (snd p) d (s, w) = (case offset_tile (gs_world w) p d of
      Some Exit \<Rightarrow> (s\<lparr>sc_exitVisible := True\<rparr>, set_int ''exit_y'' (snd p + snd d) (set_int ''exit_x'' (fst p + fst d) w))
    | Some Trap \<Rightarrow> (s\<lparr>sc_nTrap := True\<rparr>, w)
    | Some Artifact \<Rightarrow> (if far d < sc_nearestArtDist s
        then s\<lparr>sc_nArt := True, sc_nearestArtDist := far d, sc_ax := fst p + fst d, sc_ay := snd p + snd d\<rparr>
        else s\<lparr>sc_nArt := True\<rparr>, w)
    | _ \<Rightarrow> (s, w))"
  by (simp add: look_at_def offset_tile_def far_def Let_def split: prod.split Tile.split)

text \<open>The scan of a list of offsets: where an exit is, a nearest artifact, and what stays as it was.\<close>

definition exit_found :: "'f float_ops \<Rightarrow> grid_world \<Rightarrow> int \<times> int \<Rightarrow> (int \<times> int) set \<Rightarrow> bool \<Rightarrow> ('f, 'z) world_scheme \<Rightarrow> bool" where
  "exit_found F g p D found w \<longleftrightarrow>
     (if found then \<exists>d\<in>D. offset_tile g p d = Some Exit \<and> (getInt F w ''exit_x'', getInt F w ''exit_y'') = (fst p + fst d, snd p + snd d)
      else \<forall>d\<in>D. offset_tile g p d \<noteq> Some Exit)"

definition artifact_found :: "grid_world \<Rightarrow> int \<times> int \<Rightarrow> (int \<times> int) set \<Rightarrow> scan \<Rightarrow> bool" where
  "artifact_found g p D s \<longleftrightarrow>
     (if sc_nArt s then \<exists>d\<in>D. offset_tile g p d = Some Artifact \<and> (sc_ax s, sc_ay s) = (fst p + fst d, snd p + snd d) \<and>
          sc_nearestArtDist s = far d \<and> (\<forall>e\<in>D. offset_tile g p e = Some Artifact \<longrightarrow> far d \<le> far e)
      else sc_nearestArtDist s = 2 ^ 30 \<and> (\<forall>d\<in>D. offset_tile g p d \<noteq> Some Artifact))"

definition undisturbed :: "'f float_ops \<Rightarrow> ('f, 'z) game_state_scheme \<Rightarrow> ('f, 'z) game_state_scheme \<Rightarrow> bool" where
  "undisturbed F w w' \<longleftrightarrow>
     (\<forall>k. k \<noteq> ''exit_x'' \<and> k \<noteq> ''exit_y'' \<longrightarrow> w_Get w' k = w_Get w k) \<and> gs_maps w' = gs_maps w \<and> facts_of F w' = facts_of F w"

definition scanned :: "'f float_ops \<Rightarrow> int \<times> int \<Rightarrow> (int \<times> int) set \<Rightarrow> ('f, 'z) game_state_scheme \<Rightarrow> scan \<Rightarrow> ('f, 'z) game_state_scheme \<Rightarrow> bool" where
  "scanned F p D w s w' \<longleftrightarrow> undisturbed F w w' \<and> exit_found F (gs_world w) p D (sc_exitVisible s) w' \<and>
     (sc_nTrap s \<longleftrightarrow> (\<exists>d\<in>D. offset_tile (gs_world w) p d = Some Trap)) \<and> artifact_found (gs_world w) p D s"

lemma exit_found_more:
  "offset_tile g p d \<noteq> Some Exit \<Longrightarrow> exit_found F g p D found w \<Longrightarrow> exit_found F g p (insert d D) found w"
  by (auto simp: exit_found_def split: if_splits)

lemma artifact_found_more:
  assumes "offset_tile g p d \<noteq> Some Artifact" and "artifact_found g p D s"
  shows "artifact_found g p (insert d D) s"
proof (cases "sc_nArt s")
  case True
  with assms(2) obtain d0 where "d0 \<in> D" "offset_tile g p d0 = Some Artifact \<and> (sc_ax s, sc_ay s) = (fst p + fst d0, snd p + snd d0) \<and>
      sc_nearestArtDist s = far d0 \<and> (\<forall>e\<in>D. offset_tile g p e = Some Artifact \<longrightarrow> far d0 \<le> far e)"
    unfolding artifact_found_def by auto
  with True assms(1) show ?thesis unfolding artifact_found_def by (simp only: if_True) (intro bexI [of _ d0]; simp)
qed (use assms in \<open>simp add: artifact_found_def\<close>)

lemma artifact_found_here:
  assumes "offset_tile g p d = Some Artifact" and "artifact_found g p D s" and "far d < 2 ^ 30"
  shows "artifact_found g p (insert d D) (if far d < sc_nearestArtDist s
     then s\<lparr>sc_nArt := True, sc_nearestArtDist := far d, sc_ax := fst p + fst d, sc_ay := snd p + snd d\<rparr> else s\<lparr>sc_nArt := True\<rparr>)"
proof (cases "sc_nArt s")
  case True
  with assms(2) obtain d0 where "d0 \<in> D" "offset_tile g p d0 = Some Artifact \<and> (sc_ax s, sc_ay s) = (fst p + fst d0, snd p + snd d0) \<and>
      sc_nearestArtDist s = far d0 \<and> (\<forall>e\<in>D. offset_tile g p e = Some Artifact \<longrightarrow> far d0 \<le> far e)"
    unfolding artifact_found_def by auto
  then show ?thesis using assms(1)
    by (cases "far d < far d0") (auto simp: artifact_found_def intro: bexI [of _ d0])
next
  case False
  with assms(2) have "sc_nearestArtDist s = 2 ^ 30" "\<forall>d\<in>D. offset_tile g p d \<noteq> Some Artifact"
    by (simp_all add: artifact_found_def)
  with assms(1,3) show ?thesis by (simp add: artifact_found_def)
qed

lemma small_coordinates:
  assumes "offset_tile g p d = Some t" and "gw_W g \<le> 2 ^ 30" and "gw_H g \<le> 2 ^ 30"
  shows "sint (word_of_int (fst p + fst d) :: int64) = fst p + fst d" "sint (word_of_int (snd p + snd d) :: int64) = snd p + snd d"
proof -
  have "InBounds g (fst p + fst d) (snd p + snd d)" using assms(1) by (auto simp: offset_tile_def Let_def split: if_splits)
  with assms(2,3) have "- (2 ^ 62) \<le> fst p + fst d" "fst p + fst d \<le> 2 ^ 62" "- (2 ^ 62) \<le> snd p + snd d" "snd p + snd d \<le> 2 ^ 62"
    by (auto simp: InBounds_def)
  then show "sint (word_of_int (fst p + fst d) :: int64) = fst p + fst d" "sint (word_of_int (snd p + snd d) :: int64) = snd p + snd d"
    by (simp_all only: sint_within)
qed

lemma scanned_step:
  assumes "scanned F p D w s w'" and "look_at (fst p) (snd p) d (s, w') = (s2, w2)"
    and "far d < 2 ^ 30" and "gw_W (gs_world w) \<le> 2 ^ 30" and "gw_H (gs_world w) \<le> 2 ^ 30"
  shows "scanned F p (insert d D) w s2 w2"
proof -
  have parts: "undisturbed F w w'" "exit_found F (gs_world w) p D (sc_exitVisible s) w'"
    "sc_nTrap s \<longleftrightarrow> (\<exists>d\<in>D. offset_tile (gs_world w) p d = Some Trap)" "artifact_found (gs_world w) p D s"
    using assms(1) by (simp_all add: scanned_def)
  then have "facts_of F w' = facts_of F w" by (simp add: undisturbed_def)
  then have g: "gs_world w' = gs_world w" by (simp add: facts_of_def)
  note look = assms(2) [unfolded look_at_cases g]
  consider (skip) "offset_tile (gs_world w) p d \<notin> {Some Exit, Some Trap, Some Artifact}"
    | (exit) "offset_tile (gs_world w) p d = Some Exit" | (trap) "offset_tile (gs_world w) p d = Some Trap"
    | (art) "offset_tile (gs_world w) p d = Some Artifact" by auto
  then show ?thesis
  proof cases
    case skip
    with look have "s2 = s" "w2 = w'" by (auto split: option.splits Tile.splits)
    with skip parts show ?thesis by (simp add: scanned_def exit_found_more artifact_found_more)
  next
    case trap
    with look have "s2 = s\<lparr>sc_nTrap := True\<rparr>" "w2 = w'" by simp_all
    moreover have "artifact_found (gs_world w) p (insert d D) (s\<lparr>sc_nTrap := True\<rparr>) = artifact_found (gs_world w) p (insert d D) s"
      by (simp add: artifact_found_def)
    ultimately show ?thesis using trap parts by (simp add: scanned_def exit_found_more artifact_found_more)
  next
    case exit
    with look have e: "s2 = s\<lparr>sc_exitVisible := True\<rparr>" "w2 = set_int ''exit_y'' (snd p + snd d) (set_int ''exit_x'' (fst p + fst d) w')"
      by simp_all
    have "getInt F w2 ''exit_x'' = fst p + fst d" "getInt F w2 ''exit_y'' = snd p + snd d"
      unfolding e getInt_writes small_coordinates [OF exit assms(4,5)] by simp_all
    with exit have "exit_found F (gs_world w) p (insert d D) True w2" by (simp add: exit_found_def)
    moreover have "undisturbed F w w2" using parts(1) by (simp add: e undisturbed_def facts_of_other_keys board_simps)
    moreover have "artifact_found (gs_world w) p (insert d D) s2 = artifact_found (gs_world w) p (insert d D) s"
      by (simp add: e artifact_found_def)
    ultimately show ?thesis using exit parts by (simp add: scanned_def e(1) artifact_found_more)
  next
    case art
    with look have e: "w2 = w'" "s2 = (if far d < sc_nearestArtDist s
        then s\<lparr>sc_nArt := True, sc_nearestArtDist := far d, sc_ax := fst p + fst d, sc_ay := snd p + snd d\<rparr> else s\<lparr>sc_nArt := True\<rparr>)"
      by simp_all
    have "artifact_found (gs_world w) p (insert d D) s2"
      unfolding e(2) by (rule artifact_found_here [OF art parts(4) assms(3)])
    moreover have "sc_exitVisible s2 = sc_exitVisible s" "sc_nTrap s2 = sc_nTrap s" by (simp_all add: e(2))
    ultimately show ?thesis using art parts(1-3) by (simp add: scanned_def e(1) exit_found_more)
  qed
qed

lemma scan_fold:
  assumes "\<forall>d\<in>set ds. far d < 2 ^ 30" and "gw_W (gs_world w) \<le> 2 ^ 30" and "gw_H (gs_world w) \<le> 2 ^ 30"
    and "fold (look_at (fst p) (snd p)) ds (scan_start, w) = (s, w')"
  shows "scanned F p (set ds) w s w'"
  using assms(1,4)
proof (induction ds arbitrary: s w' rule: rev_induct)
  case Nil
  then show ?case by (auto simp: scanned_def scan_start_def undisturbed_def exit_found_def artifact_found_def)
next
  case (snoc d ds)
  obtain s1 w1 where f: "fold (look_at (fst p) (snd p)) ds (scan_start, w) = (s1, w1)" by (rule prod.exhaust)
  with snoc.prems(2) have "look_at (fst p) (snd p) d (s1, w1) = (s, w')" by simp
  from scanned_step [OF snoc.IH [OF _ f] this] snoc.prems(1) assms(2,3) show ?case by simp
qed

definition in_sight :: "grid_world \<Rightarrow> int \<times> int \<Rightarrow> int \<Rightarrow> Tile \<Rightarrow> bool" where
  "in_sight g p r t \<longleftrightarrow> (\<exists>d\<in>set (square r). offset_tile g p d = Some t)"

lemma set_square: "set (square r) = {- r..r} \<times> {- r..r}"
  by (auto simp: square_def)

lemma square_near: "d \<in> set (square r) \<Longrightarrow> r < 2 ^ 28 \<Longrightarrow> far d < 2 ^ 30"
  by (auto simp: set_square far_def)

text \<open>What the tree finds on the blackboard after the sensor.\<close>

definition points_at :: "'f float_ops \<Rightarrow> Tile \<Rightarrow> string \<Rightarrow> string \<Rightarrow> ('f, 'z) game_state_scheme \<Rightarrow> bool" where
  "points_at F t kx ky w \<longleftrightarrow> InBounds (gs_world w) (getInt F w kx) (getInt F w ky) \<and> TileAt (gs_world w) (getInt F w kx) (getInt F w ky) = t"

definition sensed :: "'f float_ops \<Rightarrow> int \<Rightarrow> ('f, 'z) game_state_scheme \<Rightarrow> bool" where
  "sensed F r w \<longleftrightarrow>
     (let p = pos F w; g = gs_world w; tile = TileAt g (fst p) (snd p)
      in getBool w ''trap_here'' = (tile = Trap) \<and> getBool w ''artifact_here'' = (tile = Artifact) \<and>
         getBool w ''exit_visible'' = in_sight g p r Exit \<and> getBool w ''artifact_visible'' = in_sight g p r Artifact \<and>
         (in_sight g p r Exit \<longrightarrow> points_at F Exit ''exit_x'' ''exit_y'' w) \<and>
         (in_sight g p r Artifact \<longrightarrow> points_at F Artifact ''artifact_x'' ''artifact_y'' w))"

lemma offset_tile_Some: "offset_tile g p d = Some t \<longleftrightarrow> InBounds g (fst p + fst d) (snd p + snd d) \<and> TileAt g (fst p + fst d) (snd p + snd d) = t"
  by (simp add: offset_tile_def Let_def)

lemma exit_found_sight:
  "exit_found F g p (set (square r)) found w \<Longrightarrow> found = in_sight g p r Exit"
  by (auto simp: exit_found_def in_sight_def split: if_splits)

lemma artifact_found_sight:
  "artifact_found g p (set (square r)) s \<Longrightarrow> sc_nArt s = in_sight g p r Artifact"
  by (auto simp: artifact_found_def in_sight_def split: if_splits)

lemma same_facts:
  assumes "facts_of F v = facts_of F w"
  shows "gs_world v = gs_world w" "pos F v = pos F w" "getInt F v ''hp'' = getInt F w ''hp''"
    "getInt F v ''energy'' = getInt F w ''energy''" "dangers v = dangers w"
  using assms by (simp_all add: facts_of_def)

lemma VisionSensor_spec:
  assumes "gw_W (gs_world w) \<le> 2 ^ 30" and "gw_H (gs_world w) \<le> 2 ^ 30" and "r < 2 ^ 28"
  shows "\<exists>v. VisionSensor_Update F r w = (None, v) \<and> facts_of F v = facts_of F w \<and> sensed F r v"
proof -
  let ?p = "pos F w" and ?g = "gs_world w"
  let ?tile = "TileAt ?g (fst ?p) (snd ?p)"
  let ?w1 = "set_bool ''fog_here'' (?tile = Fog) (set_bool ''artifact_here'' (?tile = Artifact) (set_bool ''trap_here'' (?tile = Trap) w))"
  obtain s w2 where f: "fold (look_at (fst ?p) (snd ?p)) (square r) (scan_start, ?w1) = (s, w2)" by (rule prod.exhaust)
  have f1: "facts_of F ?w1 = facts_of F w" and g1: "gs_world ?w1 = ?g" by (simp_all add: facts_of_other_keys board_simps)
  have "scanned F ?p (set (square r)) ?w1 s w2"
    using scan_fold [OF _ _ _ f] assms square_near by (simp add: board_simps)
  then have u: "undisturbed F ?w1 w2" and ex: "exit_found F ?g ?p (set (square r)) (sc_exitVisible s) w2"
    and art: "artifact_found ?g ?p (set (square r)) s" by (simp_all only: scanned_def g1)
  let ?w3 = "set_bool ''nearby_artifact'' (sc_nArt s) (set_bool ''nearby_trap'' (sc_nTrap s) (set_bool ''exit_visible'' (sc_exitVisible s) w2))"
  let ?w4 = "if sc_nArt s \<and> sc_ax s \<ge> 0 then set_int ''artifact_y'' (sc_ay s) (set_int ''artifact_x'' (sc_ax s) (set_bool ''artifact_visible'' True ?w3))
    else set_bool ''artifact_visible'' False ?w3"
  let ?sp = "AFloat64 (f_add F (f_of_int F 1) (f_mul F (f_of_int F (getInt F ?w4 ''energy'')) (f_div F (f_of_int F 1) (f_of_int F 10))))"
  let ?v = "w_Set ''speed_mod'' ?sp ?w4"
  have upd: "VisionSensor_Update F r w = (None, ?v)"
    using f by (simp add: VisionSensor_Update_def pos_def scan_start_def Let_def)
  have fv: "facts_of F ?v = facts_of F w"
    using u f1 by (simp add: facts_of_other_keys undisturbed_def)
  note same = same_facts [OF fv]
  have kept: "w_Get w2 k = w_Get ?w1 k" if "k \<noteq> ''exit_x'' \<and> k \<noteq> ''exit_y''" for k
    using u that by (simp add: undisturbed_def)
  have "getBool ?v ''trap_here'' = (?tile = Trap) \<and> getBool ?v ''artifact_here'' = (?tile = Artifact)"
    by (simp add: getBool_def board_simps kept)
  moreover have "getBool ?v ''exit_visible'' = in_sight ?g ?p r Exit"
    using exit_found_sight [OF ex] by (simp add: getBool_def board_simps)
  moreover have "points_at F Exit ''exit_x'' ''exit_y'' ?v" if vis: "in_sight ?g ?p r Exit"
  proof -
    obtain d where d: "offset_tile ?g ?p d = Some Exit" "getInt F w2 ''exit_x'' = fst ?p + fst d" "getInt F w2 ''exit_y'' = snd ?p + snd d"
      using ex exit_found_sight [OF ex] vis by (auto simp: exit_found_def)
    moreover have "getInt F ?v ''exit_x'' = getInt F w2 ''exit_x''" "getInt F ?v ''exit_y'' = getInt F w2 ''exit_y''"
      by (simp_all add: getInt_def board_simps)
    ultimately show ?thesis unfolding points_at_def same by (simp add: offset_tile_Some)
  qed
  moreover have "getBool ?v ''artifact_visible'' = in_sight ?g ?p r Artifact \<and>
      (in_sight ?g ?p r Artifact \<longrightarrow> points_at F Artifact ''artifact_x'' ''artifact_y'' ?v)"
  proof (cases "sc_nArt s")
    case True
    then obtain d where d: "offset_tile ?g ?p d = Some Artifact" "sc_ax s = fst ?p + fst d" "sc_ay s = snd ?p + snd d"
      using art by (auto simp: artifact_found_def)
    have "getInt F ?v ''artifact_x'' = sc_ax s" "getInt F ?v ''artifact_y'' = sc_ay s" "sc_ax s \<ge> 0"
      using True small_coordinates [OF d(1) assms(1,2)] d
      by (simp_all only: if_True simp_thms) (auto simp: getInt_def board_simps offset_tile_Some InBounds_def)
    with d True artifact_found_sight [OF art] show ?thesis
      unfolding points_at_def same by (simp add: offset_tile_Some getBool_def board_simps)
  next
    case False
    with artifact_found_sight [OF art] show ?thesis by (simp add: getBool_def board_simps)
  qed
  ultimately have "sensed F r ?v" unfolding sensed_def same Let_def by blast
  with upd fv show ?thesis by blast
qed

section \<open>The plan of a step\<close>

text \<open>
  What a step means to do, from the facts alone, and what the facts may be after it. Status and effect
  of the step follow the plan.
\<close>

datatype plan = StayAtExit | GoToExit | LoseLife | Collect | GoToArtifact | Wander

definition plan_of :: "facts \<Rightarrow> plan" where
  "plan_of f =
     (let see = in_sight (fc_grid f) (fc_pos f) 4; tile = TileAt (fc_grid f) (fst (fc_pos f)) (snd (fc_pos f))
      in if see Exit then if tile = Exit then StayAtExit else GoToExit
         else if tile = Trap \<and> fc_hp f > 0 then LoseLife
         else if tile = Artifact then Collect
         else if see Artifact then GoToArtifact else Wander)"

primrec plan_status :: "plan \<Rightarrow> Status" where
  "plan_status StayAtExit = StatusSuccess"
| "plan_status GoToExit = StatusRunning"
| "plan_status LoseLife = StatusSuccess"
| "plan_status Collect = StatusSuccess"
| "plan_status GoToArtifact = StatusRunning"
| "plan_status Wander = StatusRunning"

definition open_neighbour :: "facts \<Rightarrow> int \<times> int \<Rightarrow> bool" where
  "open_neighbour f q \<longleftrightarrow> next_to (fc_pos f) q \<and> InBounds (fc_grid f) (fst q) (snd q) \<and> q \<notin> fc_dangers f"

definition near_traps :: "grid_world \<Rightarrow> int \<times> int \<Rightarrow> (int \<times> int) set" where
  "near_traps g p = {q \<in> tiles Trap g. \<bar>fst q - fst p\<bar> \<le> 1 \<and> \<bar>snd q - snd p\<bar> \<le> 1}"

definition goes :: "facts \<Rightarrow> facts \<Rightarrow> bool" where
  "goes f f' \<longleftrightarrow> f' = f \<or> (\<exists>q. open_neighbour f q \<and> f' = f\<lparr>fc_pos := q\<rparr>)"

primrec carried_out :: "plan \<Rightarrow> facts \<Rightarrow> facts \<Rightarrow> bool" where
  "carried_out StayAtExit f f' \<longleftrightarrow> f' = f"
| "carried_out GoToExit f f' \<longleftrightarrow> goes f f'"
| "carried_out LoseLife f f' \<longleftrightarrow>
     f' = f\<lparr>fc_hp := fc_hp f - 1, fc_dangers := fc_dangers f \<union> near_traps (fc_grid f) (fc_pos f)\<rparr>"
| "carried_out Collect f f' \<longleftrightarrow>
     f' = f\<lparr>fc_energy := fc_energy f + 1, fc_grid := ClearTile (fst (fc_pos f)) (snd (fc_pos f)) (fc_grid f)\<rparr>"
| "carried_out GoToArtifact f f' \<longleftrightarrow> goes f f'"
| "carried_out Wander f f' \<longleftrightarrow>
     (\<exists>q. f' = f\<lparr>fc_pos := q\<rparr> \<and> (open_neighbour f q \<or> q = (0, 0) \<and> \<not> (\<exists>q'. open_neighbour f q')))"

section \<open>The invariant of a game\<close>

definition game_inv :: "int \<Rightarrow> facts \<Rightarrow> bool" where
  "game_inv n f \<longleftrightarrow> grid_wf (fc_grid f) \<and> gw_W (fc_grid f) \<le> 2 ^ 30 \<and> gw_H (fc_grid f) \<le> 2 ^ 30 \<and>
     InBounds (fc_grid f) (fst (fc_pos f)) (snd (fc_pos f)) \<and> 0 \<le> fc_hp f \<and> fc_hp f \<le> 5 \<and> 0 \<le> fc_energy f \<and>
     fc_energy f + census Artifact (fc_grid f) = n \<and> n \<le> 2 ^ 61 \<and> fc_dangers f \<subseteq> tiles Trap (fc_grid f) \<and> \<not> fc_cooling f"

lemma game_inv_pos:
  "game_inv n f \<Longrightarrow> InBounds (fc_grid f) (fst q) (snd q) \<Longrightarrow> game_inv n (f\<lparr>fc_pos := q\<rparr>)"
  by (simp add: game_inv_def)

lemma game_inv_goes: "game_inv n f \<Longrightarrow> goes f f' \<Longrightarrow> game_inv n f'"
  by (auto simp: goes_def open_neighbour_def intro: game_inv_pos)

lemma game_inv_carried_out:
  assumes "game_inv n f" and "carried_out (plan_of f) f f'"
  shows "game_inv n f'"
proof (cases "plan_of f")
  case Wander
  have "InBounds (fc_grid f) 0 0" using assms(1) by (simp add: game_inv_def grid_wf_def InBounds_def)
  with Wander assms show ?thesis by (auto simp: open_neighbour_def intro!: game_inv_pos)
next
  case LoseLife
  then have "fc_hp f > 0" by (auto simp: plan_of_def Let_def split: if_splits)
  with LoseLife assms show ?thesis by (auto simp: game_inv_def near_traps_def)
next
  case Collect
  let ?x = "fst (fc_pos f)" and ?y = "snd (fc_pos f)" and ?g = "fc_grid f"
  have b: "grid_wf ?g" "InBounds ?g ?x ?y" using assms(1) by (simp_all add: game_inv_def)
  from Collect have at: "TileAt ?g ?x ?y = Artifact" by (auto simp: plan_of_def Let_def split: if_splits)
  have cl: "ClearTile ?x ?y ?g = set_tile ?x ?y Empty ?g" using b(2) by (simp add: ClearTile_def)
  have "census Artifact (set_tile ?x ?y Empty ?g) = census Artifact ?g - 1"
    using census_set_tile [OF b at, of Empty Artifact] by simp
  moreover have "tiles Trap (set_tile ?x ?y Empty ?g) = tiles Trap ?g"
    using tiles_set_tile [OF b, of Trap Empty] at by (auto simp: tiles_def)
  ultimately show ?thesis using Collect assms b grid_wf_set_tile [OF b, of Empty] by (simp add: game_inv_def cl)
qed (use assms in \<open>simp_all add: game_inv_goes\<close>)

lemma census_nonneg: "0 \<le> census t g"
  by (simp add: census_def)

section \<open>The nodes carry the plan out\<close>

lemma open_cell_facts:
  "next_to (pos F w) q \<and> open_cell w (fst q) (snd q) \<longleftrightarrow> open_neighbour (facts_of F w) q"
  by (simp add: open_neighbour_def open_cell_def facts_of_def dangers_def)

lemma facts_of_set_pos_inside:
  assumes "game_inv n (facts_of F w)" and "InBounds (gs_world w) (fst q) (snd q)"
  shows "facts_of F (set_pos q w) = (facts_of F w)\<lparr>fc_pos := q\<rparr>"
proof (rule facts_of_set_pos)
  show "\<bar>fst q\<bar> \<le> 2 ^ 62" "\<bar>snd q\<bar> \<le> 2 ^ 62"
    using assms by (auto simp: game_inv_def facts_of_def InBounds_def)
qed

lemma weigh_best:
  assumes "set ds \<subseteq> set dirs" and "best = (cx, cy, 2 ^ 30) \<or> next_to (cx, cy) (fst best, fst (snd best)) \<and> open_cell w (fst best) (fst (snd best))"
  shows "(let r = fold (weigh w cx cy gx gy) ds best
    in r = (cx, cy, 2 ^ 30) \<or> next_to (cx, cy) (fst r, fst (snd r)) \<and> open_cell w (fst r) (fst (snd r)))"
  using assms
proof (induction ds arbitrary: best)
  case (Cons d ds)
  have "next_to (cx, cy) (cx + fst d, cy + snd d)" using Cons.prems(1) by (auto simp: next_to_def)
  with Cons.prems have "weigh w cx cy gx gy d best = (cx, cy, 2 ^ 30) \<or>
      next_to (cx, cy) (fst (weigh w cx cy gx gy d best), fst (snd (weigh w cx cy gx gy d best))) \<and>
      open_cell w (fst (weigh w cx cy gx gy d best)) (fst (snd (weigh w cx cy gx gy d best)))"
    by (cases d) (simp add: weigh_def Let_def)
  from Cons.IH [OF _ this] Cons.prems(1) show ?case by simp
qed simp

lemma move_target_spec:
  "move_target w cx cy gx gy = (cx, cy) \<or>
   next_to (cx, cy) (move_target w cx cy gx gy) \<and> open_cell w (fst (move_target w cx cy gx gy)) (snd (move_target w cx cy gx gy))"
proof -
  obtain bx byy score where r: "fold (weigh w cx cy gx gy) dirs (cx, cy, 2 ^ 30) = (bx, byy, score)" by (rule prod_cases3)
  have "(let r = fold (weigh w cx cy gx gy) dirs (cx, cy, 2 ^ 30)
    in r = (cx, cy, 2 ^ 30) \<or> next_to (cx, cy) (fst r, fst (snd r)) \<and> open_cell w (fst r) (fst (snd r)))"
    by (rule weigh_best) simp_all
  then have "(bx, byy) = (cx, cy) \<or> next_to (cx, cy) (bx, byy) \<and> open_cell w bx byy" unfolding r by (auto simp: Let_def)
  moreover have "move_target w cx cy gx gy =
      (if score = 2 ^ 30 then (case first_open w cx cy of Some p \<Rightarrow> p | None \<Rightarrow> (bx, byy)) else (bx, byy))"
    by (simp only: move_target_def r prod.case)
  ultimately show ?thesis
    using first_open_spec(1) [of w cx cy] by (cases "first_open w cx cy") auto
qed

lemma set_same_pos:
  assumes "game_inv n (facts_of F w)"
  shows "facts_of F (set_pos (pos F w) w) = facts_of F w"
proof -
  have "InBounds (gs_world w) (fst (pos F w)) (snd (pos F w))" using assms by (simp add: game_inv_def facts_of_def)
  from facts_of_set_pos_inside [OF assms this] show ?thesis by (simp add: facts_of_def)
qed

lemma MoveSmart_spec:
  assumes inv: "game_inv n (facts_of F w)" and goal: "points_at F t tx ty w" "TileAt (gs_world w) (fst (pos F w)) (snd (pos F w)) \<noteq> t"
  shows "\<exists>w'. MoveSmartAction F tx ty w = Ret ((StatusRunning, None), w') \<and> goes (facts_of F w) (facts_of F w')"
proof -
  let ?x = "fst (pos F w)" and ?y = "snd (pos F w)" and ?gx = "getInt F w tx" and ?gy = "getInt F w ty"
  let ?best = "move_target w ?x ?y ?gx ?gy"
  have away: "\<not> (getInt F w ''pos_x'' = ?gx \<and> getInt F w ''pos_y'' = ?gy)"
    using goal by (auto simp: points_at_def pos_def)
  have move: "goes (facts_of F w) (facts_of F (set_pos ?best v))" if v: "facts_of F v = facts_of F w" for v
  proof (cases "?best = pos F w")
    case True
    then show ?thesis using set_same_pos [of n F v] inv v same_facts(2) [OF v] by (simp add: goes_def)
  next
    case False
    with move_target_spec [of w ?x ?y ?gx ?gy] have "next_to (pos F w) ?best \<and> open_cell w (fst ?best) (snd ?best)" by simp
    moreover from this have "InBounds (gs_world v) (fst ?best) (snd ?best)" by (simp add: open_cell_def same_facts(1) [OF v])
    ultimately show ?thesis
      using facts_of_set_pos_inside [of n F v ?best] inv v open_cell_facts [of F w ?best]
      unfolding goes_def by (intro disjI2 exI [of _ ?best]) simp
  qed
  have draw: "facts_of F (w\<lparr>w_draws := k\<rparr>) = facts_of F w" for k by (rule facts_of_fields)
  show ?thesis
    using away move [OF refl] move [OF draw] draw
    by (auto simp: MoveSmartAction_def Let_def pos_def goes_def)
qed

lemma visited_map_spec:
  "visited_map w = (a, v) \<Longrightarrow> facts_of F v = facts_of F w \<and> (\<forall>k. w_Get v k = w_Get w k) \<and> gs_world v = gs_world w"
  by (auto simp: visited_map_def facts_of_fields board_simps split: option.splits any.splits if_splits)

lemma Explore_spec:
  assumes inv: "game_inv n (facts_of F w)"
  shows "\<exists>w'. ExploreAction F w = Ret ((StatusRunning, None), w') \<and> carried_out Wander (facts_of F w) (facts_of F w')"
proof -
  obtain a v where v: "visited_map w = (a, v)" by (rule prod.exhaust)
  let ?vm = "List.insert (pos F w) (gs_maps v ! a)"
  let ?u = "v\<lparr>gs_maps := (gs_maps v)[a := ?vm]\<rparr>"
  let ?z = "w_Set ''visited'' (AOther a) ?u"
  have u: "facts_of F ?u = facts_of F w" using visited_map_spec [OF v] by (simp add: facts_of_fields)
  have z: "facts_of F ?z = facts_of F w" using u by (simp add: facts_of_other_keys)
  obtain q where q: "explore_next ?u ?vm (pos F w) = Some q"
    and near: "next_to (pos F w) q \<and> open_cell ?u (fst q) (snd q) \<or>
      q = (0, 0) \<and> (\<forall>q'. next_to (pos F w) q' \<longrightarrow> \<not> open_cell ?u (fst q') (snd q'))"
    using explore_next_spec by blast
  have "next_to (pos F w) q' \<and> open_cell ?u (fst q') (snd q') \<longleftrightarrow> open_neighbour (facts_of F w) q'" for q'
    using open_cell_facts [of F ?u q'] unfolding u same_facts(2) [OF u] .
  with near have ends: "open_neighbour (facts_of F w) q \<or> q = (0, 0) \<and> \<not> (\<exists>q'. open_neighbour (facts_of F w) q')"
    by blast
  then have "InBounds (gs_world ?z) (fst q) (snd q)"
    using inv same_facts(1) [OF z] by (auto simp: open_neighbour_def game_inv_def facts_of_def grid_wf_def InBounds_def)
  then have "facts_of F (set_pos q ?z) = (facts_of F w)\<lparr>fc_pos := q\<rparr>"
    using facts_of_set_pos_inside [of n F ?z q] inv z by simp
  with ends have "carried_out Wander (facts_of F w) (facts_of F (set_pos q ?z))"
    unfolding carried_out.simps by blast
  moreover have "ExploreAction F w = Ret ((StatusRunning, None), set_pos q ?z)"
    using v q by (simp add: ExploreAction_def pos_def Let_def)
  ultimately show ?thesis by blast
qed

text \<open>Picking up and remembering.\<close>

lemma danger_key_facts:
  "facts_of F (set_bool (danger_key x y) True w) = (facts_of F w)\<lparr>fc_dangers := insert (x, y) (fc_dangers (facts_of F w))\<rparr>"
  using danger_key_other [of "''pos_x''"] danger_key_other [of "''pos_y''"] danger_key_other [of "''hp''"]
    danger_key_other [of "''energy''"] danger_key_other [of "''MoveCD.last''"] danger_key_other [of "''ExploreCD.last''"]
  by (auto simp: facts_of_def pos_def dangers_def board_simps danger_key_inj)

lemma Pickup_spec:
  assumes inv: "game_inv n (facts_of F w)" and at: "TileAt (gs_world w) (fst (pos F w)) (snd (pos F w)) = Artifact"
  shows "\<exists>w'. PickupArtifactAction F w = Ret ((StatusSuccess, None), w') \<and> carried_out Collect (facts_of F w) (facts_of F w')"
proof -
  let ?e = "getInt F w ''energy''"
  let ?w = "set_int ''energy'' (?e + 1) w"
  let ?w' = "?w\<lparr>gs_world := ClearTile (fst (pos F w)) (snd (pos F w)) (gs_world w)\<rparr>"
  have "0 \<le> ?e" "?e \<le> 2 ^ 61" using inv census_nonneg [of Artifact "gs_world w"] by (auto simp: game_inv_def facts_of_def)
  then have "sint (word_of_int (?e + 1) :: int64) = ?e + 1" by (intro sint_within) simp_all
  then have "facts_of F ?w' = (facts_of F w)\<lparr>fc_energy := ?e + 1, fc_grid := ClearTile (fst (pos F w)) (snd (pos F w)) (gs_world w)\<rparr>"
    using danger_key_other [of "''energy''"]
    by (simp add: facts_of_def pos_def dangers_def board_simps getInt_def getBool_def del: of_int_add)
  then show ?thesis using at by (simp add: PickupArtifactAction_def pos_def Let_def board_simps facts_of_def)
qed

lemma mark_danger_fold:
  "facts_of F (fold (mark_danger x y) ds w) = (facts_of F w)\<lparr>fc_dangers := fc_dangers (facts_of F w) \<union>
     {q \<in> tiles Trap (gs_world w). \<exists>d\<in>set ds. q = (x + fst d, y + snd d)}\<rparr>"
proof (induction ds arbitrary: w)
  case (Cons d ds)
  have "facts_of F (mark_danger x y d w) = (facts_of F w)\<lparr>fc_dangers := fc_dangers (facts_of F w) \<union>
      {q \<in> tiles Trap (gs_world w). q = (x + fst d, y + snd d)}\<rparr>"
  proof (cases "(x + fst d, y + snd d) \<in> tiles Trap (gs_world w)")
    case True
    then have "mark_danger x y d w = set_bool (danger_key (x + fst d) (y + snd d)) True w"
      by (cases d) (auto simp: mark_danger_def in_tiles Let_def)
    moreover have "{q \<in> tiles Trap (gs_world w). q = (x + fst d, y + snd d)} = {(x + fst d, y + snd d)}" using True by auto
    ultimately show ?thesis by (simp add: danger_key_facts)
  next
    case False
    then have m: "mark_danger x y d w = w" by (cases d) (auto simp: mark_danger_def in_tiles Let_def)
    have n: "{q \<in> tiles Trap (gs_world w). q = (x + fst d, y + snd d)} = {}" using False by auto
    show ?thesis unfolding m n by simp
  qed
  note one = this
  have same: "gs_world (mark_danger x y d w) = gs_world w"
    by (cases d) (simp add: mark_danger_def Let_def board_simps)
  have "{q \<in> tiles Trap (gs_world w). \<exists>d'\<in>set (d # ds). q = (x + fst d', y + snd d')} =
      {q \<in> tiles Trap (gs_world w). q = (x + fst d, y + snd d)} \<union> {q \<in> tiles Trap (gs_world w). \<exists>d'\<in>set ds. q = (x + fst d', y + snd d')}"
    by auto
  moreover have "f\<lparr>fc_dangers := A, fc_dangers := B\<rparr> = f\<lparr>fc_dangers := B\<rparr>" "fc_dangers (f\<lparr>fc_dangers := A\<rparr>) = A" for f :: facts and A B
    by simp_all
  ultimately show ?case unfolding fold.simps comp_def Cons.IH one same by (simp only: Un_assoc)
qed (simp add: facts_of_def)

lemma Remember_spec:
  assumes inv: "game_inv n (facts_of F w)" and at: "TileAt (gs_world w) (fst (pos F w)) (snd (pos F w)) = Trap"
  shows "if getInt F w ''hp'' > 0
    then \<exists>w'. RememberTrapAction F w = Ret ((StatusSuccess, None), w') \<and> carried_out LoseLife (facts_of F w) (facts_of F w')
    else RememberTrapAction F w = Ret ((StatusFailure, None), w)"
proof (cases "getInt F w ''hp'' > 0")
  case True
  let ?x = "fst (pos F w)" and ?y = "snd (pos F w)" and ?hp = "getInt F w ''hp''"
  let ?w = "set_int ''hp'' (?hp - 1) w"
  let ?w' = "fold (mark_danger ?x ?y) (square 1) ?w"
  have "?hp \<le> 5" using inv by (simp add: game_inv_def facts_of_def)
  with True have "sint (word_of_int (?hp - 1) :: int64) = ?hp - 1" by (intro sint_within) simp_all
  then have 1: "facts_of F ?w = (facts_of F w)\<lparr>fc_hp := ?hp - 1\<rparr>"
    using danger_key_other [of "''hp''"]
    by (simp add: facts_of_def pos_def dangers_def board_simps getInt_def getBool_def del: of_int_diff)
  have "(\<exists>d\<in>set (square 1). q = (?x + fst d, ?y + snd d)) \<longleftrightarrow> \<bar>fst q - ?x\<bar> \<le> 1 \<and> \<bar>snd q - ?y\<bar> \<le> 1" for q
  proof
    assume "\<bar>fst q - ?x\<bar> \<le> 1 \<and> \<bar>snd q - ?y\<bar> \<le> 1"
    then have "(fst q - ?x, snd q - ?y) \<in> set (square 1)" by (auto simp: set_square)
    then show "\<exists>d\<in>set (square 1). q = (?x + fst d, ?y + snd d)" by (rule bexI [rotated]) simp
  qed (auto simp: set_square)
  then have "facts_of F ?w' = (facts_of F w)\<lparr>fc_hp := ?hp - 1, fc_dangers := dangers w \<union> near_traps (gs_world w) (pos F w)\<rparr>"
    by (simp add: mark_danger_fold 1 near_traps_def board_simps) (simp add: facts_of_def)
  with True at show ?thesis by (simp add: RememberTrapAction_def pos_def Let_def facts_of_def)
qed (use at in \<open>simp add: RememberTrapAction_def pos_def Let_def\<close>)

section \<open>A step\<close>

definition root_spec :: "'f float_ops \<Rightarrow> nat \<Rightarrow> 'f game_state \<Rightarrow> bool" where
  "root_spec F fuel v \<longleftrightarrow> (\<exists>w'. tick F fuel (game_root F) v = Some (Ret ((plan_status (plan_of (facts_of F v)), None), w')) \<and>
     carried_out (plan_of (facts_of F v)) (facts_of F v) (facts_of F w'))"

lemma tick_condition_key:
  "tick F fuel (ConditionKeyBool name key) w = ret (if getBool w key then StatusSuccess else StatusFailure) None w"
  by (simp add: ConditionKeyBool_def tick_condition_def)

lemma tick_guarded:
  "\<not> getBool w key \<Longrightarrow>
   tick F fuel (Sequence name [Some (ConditionKeyBool cname key), Some (ActionFunc aname act)]) w = ret StatusFailure None w"
  "getBool w key \<Longrightarrow> act w = Ret ((st, None), w') \<Longrightarrow> st \<in> {StatusSuccess, StatusFailure, StatusRunning} \<Longrightarrow>
   tick F fuel (Sequence name [Some (ConditionKeyBool cname key), Some (ActionFunc aname act)]) w = ret st None w'"
  by (auto simp: tick_condition_key tick_child_def ret_def)

lemma tick_fresh_cooldown:
  "w_Get w (name @ ''.last'') = None \<Longrightarrow> act (w\<lparr>w_reads := w_reads w + 1\<rparr>) = Ret ((StatusRunning, None), w') \<Longrightarrow>
   tick F fuel (Cooldown name d False (Some (ActionFunc aname act))) w = Some (Ret ((StatusRunning, None), w'))"
  by (simp add: tick_cooldown_def read_clock_def w_Get_reads cooling_def ret_def)

lemma not_cooling:
  "\<not> fc_cooling (facts_of F w) \<Longrightarrow> w_Get w (''MoveCD'' @ ''.last'') = None \<and> w_Get w (''ExploreCD'' @ ''.last'') = None"
  by (simp add: facts_of_def)

lemma sight_here:
  "TileAt g (fst p) (snd p) = t \<Longrightarrow> t \<noteq> Empty \<Longrightarrow> in_sight g p 4 t"
  unfolding in_sight_def by (rule bexI [of _ "(0, 0)"]) (auto simp: offset_tile_Some set_square TileAt_def split: if_splits)

lemma root_carries_out:
  assumes inv: "game_inv n (facts_of F v)" and sen: "sensed F 4 v"
  shows "root_spec F fuel v"
proof -
  let ?f = "facts_of F v" and ?g = "gs_world v" and ?p = "pos F v"
  let ?tile = "TileAt ?g (fst ?p) (snd ?p)"
  have f: "fc_grid ?f = ?g" "fc_pos ?f = ?p" "fc_hp ?f = getInt F v ''hp''" by (simp_all add: facts_of_def)
  have s: "getBool v ''trap_here'' = (?tile = Trap)" "getBool v ''artifact_here'' = (?tile = Artifact)"
    "getBool v ''exit_visible'' = in_sight ?g ?p 4 Exit" "getBool v ''artifact_visible'' = in_sight ?g ?p 4 Artifact"
    "in_sight ?g ?p 4 Exit \<Longrightarrow> points_at F Exit ''exit_x'' ''exit_y'' v"
    "in_sight ?g ?p 4 Artifact \<Longrightarrow> points_at F Artifact ''artifact_x'' ''artifact_y'' v"
    using sen by (simp_all add: sensed_def Let_def)
  have plan: "plan_of ?f = (if in_sight ?g ?p 4 Exit then if ?tile = Exit then StayAtExit else GoToExit
      else if ?tile = Trap \<and> getInt F v ''hp'' > 0 then LoseLife
      else if ?tile = Artifact then Collect else if in_sight ?g ?p 4 Artifact then GoToArtifact else Wander)"
    by (simp add: plan_of_def f Let_def)
  note fresh = not_cooling [of F v]
  let ?v = "v\<lparr>w_reads := w_reads v + 1\<rparr>"
  have fv: "facts_of F ?v = ?f" by (rule facts_of_fields)
  have nc: "w_Get v (''MoveCD'' @ ''.last'') = None" "w_Get v (''ExploreCD'' @ ''.last'') = None"
    using inv not_cooling [of F v] by (simp_all add: game_inv_def)
  show ?thesis
  proof (cases "in_sight ?g ?p 4 Exit")
    case exit: True
    show ?thesis
    proof (cases "?tile = Exit")
      case True
      with exit s(3) show ?thesis
        by (auto simp: root_spec_def plan game_root_def toExit_def tick_condition_key tick_child_def ret_def CheckAtExit_def at_exit_def pos_def)
    next
      case False
      have "points_at F Exit ''exit_x'' ''exit_y'' ?v" using s(5) [OF exit] by (simp add: points_at_def getInt_def board_simps)
      moreover have "TileAt (gs_world ?v) (fst (pos F ?v)) (snd (pos F ?v)) \<noteq> Exit"
        using False same_facts(2) [OF fv] by simp
      ultimately obtain w' where m: "MoveSmartAction F ''exit_x'' ''exit_y'' ?v = Ret ((StatusRunning, None), w')" "goes ?f (facts_of F w')"
        using MoveSmart_spec [of n F ?v Exit] inv fv by auto
      from tick_fresh_cooldown [of v "''MoveCD''" "MoveSmartAction F ''exit_x'' ''exit_y''", OF nc(1) m(1)]
      have "tick F fuel (toExit F) v = Some (Ret ((StatusRunning, None), w'))"
        using exit s(3) False
        by (simp add: toExit_def tick_condition_key tick_child_def ret_def CheckAtExit_def at_exit_def pos_def)
      with exit False m(2) show ?thesis
        by (simp add: root_spec_def plan game_root_def tick_child_def ret_def)
    qed
  next
    case no_exit: False
    then have e: "tick F fuel (toExit F) v = ret StatusFailure None v"
      using s(3) by (simp add: toExit_def tick_condition_key tick_child_def ret_def)
    show ?thesis
    proof (cases "?tile = Trap \<and> getInt F v ''hp'' > 0")
      case True
      with Remember_spec [OF inv] obtain w' where
        r: "RememberTrapAction F v = Ret ((StatusSuccess, None), w')" "carried_out LoseLife ?f (facts_of F w')" by auto
      have "tick F fuel (trapImpact F) v = ret StatusSuccess None w'"
        unfolding trapImpact_def by (rule tick_guarded(2)) (use True s(1) r(1) in simp_all)
      with True no_exit e r(2) show ?thesis by (simp add: root_spec_def plan game_root_def tick_child_def ret_def)
    next
      case no_loss: False
      have t: "tick F fuel (trapImpact F) v = ret StatusFailure None v"
      proof (cases "?tile = Trap")
        case True
        show ?thesis unfolding trapImpact_def
          by (rule tick_guarded(2)) (use True Remember_spec [OF inv True] no_loss s(1) in simp_all)
      next
        case False
        show ?thesis unfolding trapImpact_def by (rule tick_guarded(1)) (use False s(1) in simp)
      qed
      show ?thesis
      proof (cases "?tile = Artifact")
        case True
        with Pickup_spec [OF inv] obtain w' where
          r: "PickupArtifactAction F v = Ret ((StatusSuccess, None), w')" "carried_out Collect ?f (facts_of F w')" by auto
        have "tick F fuel (collect F) v = ret StatusSuccess None w'"
          unfolding collect_def by (rule tick_guarded(2)) (use True s(2) r(1) in simp_all)
        with True no_exit no_loss e t r(2) show ?thesis by (simp add: root_spec_def plan game_root_def tick_child_def ret_def)
      next
        case no_art: False
        have c: "tick F fuel (collect F) v = ret StatusFailure None v"
          unfolding collect_def by (rule tick_guarded(1)) (use no_art s(2) in simp)
        show ?thesis
        proof (cases "in_sight ?g ?p 4 Artifact")
          case True
          obtain w' where m: "MoveSmartAction F ''artifact_x'' ''artifact_y'' v = Ret ((StatusRunning, None), w')" "goes ?f (facts_of F w')"
            using MoveSmart_spec [OF inv s(6) [OF True] no_art] by blast
          have "tick F fuel (toArtifact F) v = ret StatusRunning None w'"
            unfolding toArtifact_def by (rule tick_guarded(2)) (use True s(4) m(1) in simp_all)
          with True no_exit no_loss no_art e t c m(2) show ?thesis
            by (simp add: root_spec_def plan game_root_def tick_child_def ret_def)
        next
          case False
          have a: "tick F fuel (toArtifact F) v = ret StatusFailure None v"
            unfolding toArtifact_def by (rule tick_guarded(1)) (use False s(4) in simp)
          obtain w' where m: "ExploreAction F ?v = Ret ((StatusRunning, None), w')" "carried_out Wander ?f (facts_of F w')"
            using Explore_spec [of n F ?v] inv fv by auto
          have "tick F fuel (exploreCD F) v = Some (Ret ((StatusRunning, None), w'))"
            unfolding exploreCD_def by (rule tick_fresh_cooldown [of v "''ExploreCD''" "ExploreAction F", OF nc(2) m(1)])
          with False no_exit no_loss no_art e t c a m(2) show ?thesis
            by (simp add: root_spec_def plan game_root_def tick_child_def ret_def)
        qed
      qed
    qed
  qed
qed

lemma game_agent_Step:
  assumes "game_inv n (facts_of F w)"
  shows "\<exists>w'. agent_Step F fuel (game_agent F) w = Some (Ret ((plan_status (plan_of (facts_of F w)), None), w')) \<and>
    carried_out (plan_of (facts_of F w)) (facts_of F w) (facts_of F w')"
proof -
  have "gw_W (gs_world w) \<le> 2 ^ 30" "gw_H (gs_world w) \<le> 2 ^ 30" using assms by (simp_all add: game_inv_def facts_of_def)
  then obtain v where v: "VisionSensor_Update F 4 w = (None, v)" "facts_of F v = facts_of F w" "sensed F 4 v"
    using VisionSensor_spec [of w 4 F] by auto
  let ?v = "v\<lparr>w_reads := w_reads v + 1\<rparr>"
  have f: "facts_of F ?v = facts_of F w" by (simp add: facts_of_fields v(2))
  have "sensed F 4 ?v"
    using v(3) by (simp add: sensed_def points_at_def pos_def getBool_def getInt_def board_simps)
  with assms f have "root_spec F fuel ?v" by (intro root_carries_out [of n]) simp_all
  then obtain w1 where t: "tick F fuel (game_root F) ?v = Some (Ret ((plan_status (plan_of (facts_of F w)), None), w1))"
    and c: "carried_out (plan_of (facts_of F w)) (facts_of F w) (facts_of F w1)"
    unfolding root_spec_def f by blast
  have "\<exists>w'. agent_Step F fuel (game_agent F) w = Some (Ret ((plan_status (plan_of (facts_of F w)), None), w')) \<and> facts_of F w' = facts_of F w1"
    by (simp add: agent_Step_def game_agent_def v(1) read_clock_def Tree_Tick_def t [unfolded Suc_eq_plus1 [symmetric]] ret_def Let_def facts_of_fields)
  with c show ?thesis by auto
qed

text \<open>
  C10. A step of the demo refines its plan, which is a function of the grid, the position, the lives and
  the energy: in a state of the invariant the step returns, without error or panic, with the status of
  the plan; grid, position, lives, energy and remembered traps after it are those the plan says; and the
  invariant holds again. The search always returns, no cooldown ever starts, and no step reaches the
  last branch of the tree.
\<close>

theorem game_step:
  assumes "game_inv n (facts_of F w)"
  shows "\<exists>w'. agent_Step F fuel (game_agent F) w = Some (Ret ((plan_status (plan_of (facts_of F w)), None), w')) \<and>
    carried_out (plan_of (facts_of F w)) (facts_of F w) (facts_of F w') \<and> game_inv n (facts_of F w')"
  using game_agent_Step [OF assms] game_inv_carried_out [OF assms] by blast

section \<open>Games\<close>

definition same_terrain :: "grid_world \<Rightarrow> grid_world \<Rightarrow> bool" where
  "same_terrain g g' \<longleftrightarrow> gw_W g' = gw_W g \<and> gw_H g' = gw_H g \<and>
     (\<forall>t\<in>{Trap, Exit, Fog}. tiles t g' = tiles t g) \<and> tiles Artifact g' \<subseteq> tiles Artifact g"

lemma same_terrain_refl [simp]: "same_terrain g g"
  by (simp add: same_terrain_def)

lemma same_terrain_trans: "same_terrain g g' \<Longrightarrow> same_terrain g' g'' \<Longrightarrow> same_terrain g g''"
  by (auto simp: same_terrain_def)

lemma carried_out_terrain:
  assumes "game_inv n f" and "carried_out (plan_of f) f f'"
  shows "same_terrain (fc_grid f) (fc_grid f') \<and> fc_hp f' \<le> fc_hp f \<and> fc_energy f \<le> fc_energy f' \<and> fc_dangers f \<subseteq> fc_dangers f'"
proof (cases "plan_of f")
  case Collect
  let ?x = "fst (fc_pos f)" and ?y = "snd (fc_pos f)" and ?g = "fc_grid f"
  have b: "grid_wf ?g" "InBounds ?g ?x ?y" using assms(1) by (simp_all add: game_inv_def)
  from Collect have at: "TileAt ?g ?x ?y = Artifact" by (auto simp: plan_of_def Let_def split: if_splits)
  then have "same_terrain ?g (set_tile ?x ?y Empty ?g)"
    using tiles_set_tile [OF b, of _ Empty] by (auto simp: same_terrain_def tiles_def)
  with Collect assms(2) b(2) show ?thesis by (simp add: ClearTile_def)
qed (use assms(2) in \<open>auto simp: goes_def\<close>)

lemma game_runs:
  assumes "game_inv n (facts_of F w)"
  shows "\<exists>sts w'. agent_run F fuel (game_agent F) k w = Some (Ret (sts, w')) \<and> length sts = k \<and>
    set sts \<subseteq> {StatusSuccess, StatusRunning} \<and> game_inv n (facts_of F w') \<and> same_terrain (gs_world w) (gs_world w') \<and>
    fc_hp (facts_of F w') \<le> fc_hp (facts_of F w) \<and> fc_energy (facts_of F w) \<le> fc_energy (facts_of F w') \<and> dangers w \<subseteq> dangers w'"
  using assms
proof (induction k arbitrary: w)
  case (Suc k)
  let ?pl = "plan_of (facts_of F w)"
  obtain w1 where s: "agent_Step F fuel (game_agent F) w = Some (Ret ((plan_status ?pl, None), w1))"
    and c: "carried_out ?pl (facts_of F w) (facts_of F w1)"
    using game_agent_Step [OF Suc.prems] by blast
  from game_inv_carried_out [OF Suc.prems c] have inv: "game_inv n (facts_of F w1)" .
  obtain sts w' where r: "agent_run F fuel (game_agent F) k w1 = Some (Ret (sts, w'))" "length sts = k"
    "set sts \<subseteq> {StatusSuccess, StatusRunning}" "game_inv n (facts_of F w')" "same_terrain (gs_world w1) (gs_world w')"
    "fc_hp (facts_of F w') \<le> fc_hp (facts_of F w1)" "fc_energy (facts_of F w1) \<le> fc_energy (facts_of F w')" "dangers w1 \<subseteq> dangers w'"
    using Suc.IH [OF inv] by blast
  have t: "same_terrain (gs_world w) (gs_world w1)" "fc_hp (facts_of F w1) \<le> fc_hp (facts_of F w)"
    "fc_energy (facts_of F w) \<le> fc_energy (facts_of F w1)" "dangers w \<subseteq> dangers w1"
    using carried_out_terrain [OF Suc.prems c] by (simp_all add: facts_of_def)
  have "plan_status ?pl \<in> {StatusSuccess, StatusRunning}" by (cases ?pl) simp_all
  then show ?case using s r(1-4) same_terrain_trans [OF t(1) r(5)] t(2-) r(6-) by (auto intro: order_trans)
qed auto

lemma build_start:
  assumes "game_build fuel grow w0 = Some r"
  shows "\<exists>w. r = Ret w \<and> game_inv 7 (facts_of F w) \<and> pos F w = (0, 0) \<and> getInt F w ''hp'' = 5 \<and> dangers w = {} \<and>
    gw_W (gs_world w) = 22 \<and> gw_H (gs_world w) = 14 \<and> census Trap (gs_world w) = 30 \<and> census Exit (gs_world w) = 1"
proof -
  obtain x where x: "NewWorldRandom fuel (w_ints w0) (w_draws w0) 22 14 30 7 24 = Some x"
    and r: "r = bind_outcome x (\<lambda>(g, k). Ret (w0\<lparr>gs_world := g, w_draws := k, w_bb := new_board, w_view := [], w_memory := NewMemory grow\<rparr>))"
    using assms by (auto simp: game_build_def)
  obtain g k where g: "x = Ret (g, k)" and p: "place_all fuel (w_ints w0) 30 7 24 (exit_grid (w_ints w0) (w_draws w0) 22 14) (w_draws w0 + 2) = Some (g, k)"
    using x by (auto simp: New_is_place_all)
  note start = exit_grid_spec [of 22 14, where d = "w_ints w0" and k = "w_draws w0"]
  have made: "grid_wf g" "gw_W g = 22" "gw_H g = 14" "census Trap g = 30" "census Artifact g = 7" "census Exit g = 1"
    using place_all_spec [OF p] start by simp_all
  let ?w = "w0\<lparr>gs_world := g, w_draws := k, w_bb := new_board, w_view := [], w_memory := NewMemory grow\<rparr>"
  have get: "w_Get ?w key = (if key = ''energy'' then Some (AInt 0) else if key = ''hp'' then Some (AInt 5)
      else if key = ''pos_y'' then Some (AInt 0) else if key = ''pos_x'' then Some (AInt 0) else None)" for key
    by (simp add: w_Get_def new_board_def view.get_set) (simp add: bb_Get_def NewBlackboard_def)
  have "dangers ?w = {}"
    using danger_key_other [of "''pos_x''"] danger_key_other [of "''pos_y''"] danger_key_other [of "''hp''"] danger_key_other [of "''energy''"]
    by (simp add: dangers_def getBool_def get)
  then have "facts_of F ?w = \<lparr>fc_grid = g, fc_pos = (0, 0), fc_hp = 5, fc_energy = 0, fc_dangers = {}, fc_cooling = False\<rparr>"
    by (simp add: facts_of_def pos_def getInt_def get)
  moreover from this have "game_inv 7 (facts_of F ?w)" using made by (simp add: game_inv_def InBounds_def)
  ultimately show ?thesis using made by (auto simp: r g facts_of_def)
qed

text \<open>
  C13. A game of any length. After \<open>build\<close> every number of steps returns, each with Success or Running
  and without error: the agent stays on the 22 by 14 grid, has between 0 and 5 lives, the energy and the
  artifacts left make seven, the 30 traps and the exit are where they were, and every remembered danger
  is a trap. Lives never rise, and energy and memory never fall, between two moments of a game.
\<close>

theorem game_invariant:
  assumes "game_build fuel0 grow w0 = Some r"
  shows "\<exists>w. r = Ret w \<and> (\<forall>k. \<exists>sts w1. agent_run F fuel (game_agent F) k w = Some (Ret (sts, w1)) \<and>
    length sts = k \<and> set sts \<subseteq> {StatusSuccess, StatusRunning} \<and>
    fst (pos F w1) \<in> {0..<22} \<and> snd (pos F w1) \<in> {0..<14} \<and> getInt F w1 ''hp'' \<in> {0..5} \<and>
    getInt F w1 ''energy'' + census Artifact (gs_world w1) = 7 \<and> same_terrain (gs_world w) (gs_world w1) \<and>
    card (tiles Trap (gs_world w1)) = 30 \<and> dangers w1 \<subseteq> tiles Trap (gs_world w1) \<and>
    (\<forall>j. \<exists>sts' w2. agent_run F fuel (game_agent F) j w1 = Some (Ret (sts', w2)) \<and>
      getInt F w2 ''hp'' \<le> getInt F w1 ''hp'' \<and> getInt F w1 ''energy'' \<le> getInt F w2 ''energy'' \<and> dangers w1 \<subseteq> dangers w2))"
proof -
  obtain w where w: "r = Ret w" "game_inv 7 (facts_of F w)" "gw_W (gs_world w) = 22" "gw_H (gs_world w) = 14" "census Trap (gs_world w) = 30"
    using build_start [OF assms] by blast
  show ?thesis
  proof (intro exI [of _ w] conjI allI w(1))
    fix k
    obtain sts w1 where run: "agent_run F fuel (game_agent F) k w = Some (Ret (sts, w1))" "length sts = k"
      "set sts \<subseteq> {StatusSuccess, StatusRunning}" "game_inv 7 (facts_of F w1)" "same_terrain (gs_world w) (gs_world w1)"
      using game_runs [OF w(2), of fuel k] by blast
    have "InBounds (gs_world w1) (fst (pos F w1)) (snd (pos F w1))" "getInt F w1 ''hp'' \<in> {0..5}"
      "getInt F w1 ''energy'' + census Artifact (gs_world w1) = 7" "dangers w1 \<subseteq> tiles Trap (gs_world w1)"
      using run(4) by (simp_all add: game_inv_def facts_of_def)
    moreover have "gw_W (gs_world w1) = 22" "gw_H (gs_world w1) = 14" "card (tiles Trap (gs_world w1)) = 30"
      using run(5) w(3-5) by (simp_all add: same_terrain_def census_def)
    moreover have "\<exists>sts' w2. agent_run F fuel (game_agent F) j w1 = Some (Ret (sts', w2)) \<and>
      getInt F w2 ''hp'' \<le> getInt F w1 ''hp'' \<and> getInt F w1 ''energy'' \<le> getInt F w2 ''energy'' \<and> dangers w1 \<subseteq> dangers w2" for j
      using game_runs [OF run(4), of fuel j] by (auto simp: facts_of_def)
    ultimately show "\<exists>sts w1. agent_run F fuel (game_agent F) k w = Some (Ret (sts, w1)) \<and>
      length sts = k \<and> set sts \<subseteq> {StatusSuccess, StatusRunning} \<and>
      fst (pos F w1) \<in> {0..<22} \<and> snd (pos F w1) \<in> {0..<14} \<and> getInt F w1 ''hp'' \<in> {0..5} \<and>
      getInt F w1 ''energy'' + census Artifact (gs_world w1) = 7 \<and> same_terrain (gs_world w) (gs_world w1) \<and>
      card (tiles Trap (gs_world w1)) = 30 \<and> dangers w1 \<subseteq> tiles Trap (gs_world w1) \<and>
      (\<forall>j. \<exists>sts' w2. agent_run F fuel (game_agent F) j w1 = Some (Ret (sts', w2)) \<and>
        getInt F w2 ''hp'' \<le> getInt F w1 ''hp'' \<and> getInt F w1 ''energy'' \<le> getInt F w2 ''energy'' \<and> dangers w1 \<subseteq> dangers w2)"
      using run(1-3,5) by (rule_tac exI [of _ sts], rule_tac exI [of _ w1]) (simp add: InBounds_def)
  qed
qed

section \<open>Traps\<close>

text \<open>
  A trap takes every life. An agent that stands on a trap with no exit in sight stays there, step
  after step with Success, and loses one life in each of them, until it has none; only then does it
  move on. So the first trap it meets out of sight of the exit ends the game.
\<close>

theorem trap_is_fatal:
  assumes "game_inv n (facts_of F w)"
    and "TileAt (gs_world w) (fst (pos F w)) (snd (pos F w)) = Trap" and "\<not> in_sight (gs_world w) (pos F w) 4 Exit"
  shows "k \<le> nat (getInt F w ''hp'') \<longrightarrow>
    (\<exists>w'. agent_run F fuel (game_agent F) k w = Some (Ret (replicate k StatusSuccess, w')) \<and>
      pos F w' = pos F w \<and> getInt F w' ''hp'' = getInt F w ''hp'' - int k \<and> gs_world w' = gs_world w \<and>
      (0 < k \<longrightarrow> near_traps (gs_world w) (pos F w) \<subseteq> dangers w') \<and>
      (getInt F w' ''hp'' = 0 \<longrightarrow> plan_of (facts_of F w') \<in> {GoToArtifact, Wander}))"
proof
  assume "k \<le> nat (getInt F w ''hp'')"
  then show "\<exists>w'. agent_run F fuel (game_agent F) k w = Some (Ret (replicate k StatusSuccess, w')) \<and>
      pos F w' = pos F w \<and> getInt F w' ''hp'' = getInt F w ''hp'' - int k \<and> gs_world w' = gs_world w \<and>
      (0 < k \<longrightarrow> near_traps (gs_world w) (pos F w) \<subseteq> dangers w') \<and>
      (getInt F w' ''hp'' = 0 \<longrightarrow> plan_of (facts_of F w') \<in> {GoToArtifact, Wander})"
    using assms
  proof (induction k arbitrary: w)
    case 0
    then show ?case by (auto simp: plan_of_def Let_def facts_of_def)
  next
    case (Suc k)
    then have "getInt F w ''hp'' > 0" by linarith
    with Suc.prems(3,4) have pl: "plan_of (facts_of F w) = LoseLife" by (simp add: plan_of_def facts_of_def)
    obtain w1 where s: "agent_Step F fuel (game_agent F) w = Some (Ret ((StatusSuccess, None), w1))"
      and c: "carried_out LoseLife (facts_of F w) (facts_of F w1)"
      using game_agent_Step [OF Suc.prems(2), of fuel] by (auto simp: pl)
    then have e: "gs_world w1 = gs_world w" "pos F w1 = pos F w" "getInt F w1 ''hp'' = getInt F w ''hp'' - 1"
      "dangers w1 = dangers w \<union> near_traps (gs_world w) (pos F w)"
      by (simp_all add: facts_of_def)
    have inv: "game_inv n (facts_of F w1)" using game_inv_carried_out [OF Suc.prems(2)] c pl by simp
    have "k \<le> nat (getInt F w1 ''hp'')" using Suc.prems(1) e(3) by linarith
    from Suc.IH [OF this inv] Suc.prems(3,4) obtain w' where
      r: "agent_run F fuel (game_agent F) k w1 = Some (Ret (replicate k StatusSuccess, w'))" "pos F w' = pos F w"
      "getInt F w' ''hp'' = getInt F w1 ''hp'' - int k" "gs_world w' = gs_world w"
      "getInt F w' ''hp'' = 0 \<longrightarrow> plan_of (facts_of F w') \<in> {GoToArtifact, Wander}"
      by (auto simp: e)
    obtain sts w2 where "agent_run F fuel (game_agent F) k w1 = Some (Ret (sts, w2))" "dangers w1 \<subseteq> dangers w2"
      using game_runs [OF inv, of fuel k] by blast
    then have "near_traps (gs_world w) (pos F w) \<subseteq> dangers w'" using r(1) e(4) by auto
    with s r e(3) show ?case by (intro exI [of _ w']) simp
  qed
qed

section \<open>Concrete games\<close>

text \<open>A grid of one trap, and draws that walk the columns of the grid of the demo one after the other.\<close>

definition trap_state :: "int game_state" where
  "trap_state = world.extend (start_world\<lparr>w_bb := new_board\<rparr>)
     \<lparr>gs_world = \<lparr>gw_W = 1, gw_H = 1, gw_Grid = [[Trap]]\<rparr>, gs_maps = []\<rparr>"

definition column_draws :: "nat \<Rightarrow> nat" where
  "column_draws j = (if even j then j div 2 mod 22 else j div 2 div 22)"

definition idle_state :: "int game_state" where
  "idle_state = trap_state\<lparr>w_ints := column_draws\<rparr>"

lemma trap_state_facts:
  "facts_of int_ops trap_state = \<lparr>fc_grid = \<lparr>gw_W = 1, gw_H = 1, gw_Grid = [[Trap]]\<rparr>, fc_pos = (0, 0), fc_hp = 5, fc_energy = 0,
     fc_dangers = {}, fc_cooling = False\<rparr>"
proof -
  have get: "w_Get trap_state key = (if key = ''energy'' then Some (AInt 0) else if key = ''hp'' then Some (AInt 5)
      else if key = ''pos_y'' then Some (AInt 0) else if key = ''pos_x'' then Some (AInt 0) else None)" for key
    by (simp add: w_Get_def trap_state_def new_board_def start_world_def world.defs view.get_set) (simp add: bb_Get_def NewBlackboard_def)
  have "dangers trap_state = {}"
    using danger_key_other [of "''pos_x''"] danger_key_other [of "''pos_y''"] danger_key_other [of "''hp''"] danger_key_other [of "''energy''"]
    by (simp add: dangers_def getBool_def get)
  then show ?thesis by (simp add: facts_of_def pos_def getInt_def get) (simp add: trap_state_def world.defs)
qed

lemma trap_state_inv: "game_inv 0 (facts_of int_ops trap_state)"
proof -
  have "tiles Artifact \<lparr>gw_W = 1, gw_H = 1, gw_Grid = [[Trap]]\<rparr> = {}"
    by (auto simp: tiles_def cells_def TileAt_def InBounds_def)
  then show ?thesis by (simp add: trap_state_facts game_inv_def grid_wf_def InBounds_def census_def)
qed

theorem game_step_witness:
  "\<exists>st w'. agent_Step int_ops 0 (game_agent int_ops) trap_state = Some (Ret ((st, None), w')) \<and> game_inv 0 (facts_of int_ops w')"
  using game_step [OF trap_state_inv] by blast

theorem trap_is_fatal_witness:
  "\<exists>w'. agent_run int_ops 0 (game_agent int_ops) 5 trap_state = Some (Ret (replicate 5 StatusSuccess, w')) \<and>
    getInt int_ops w' ''hp'' = 0"
proof -
  have f: "gs_world trap_state = \<lparr>gw_W = 1, gw_H = 1, gw_Grid = [[Trap]]\<rparr>" "pos int_ops trap_state = (0, 0)"
    "getInt int_ops trap_state ''hp'' = 5"
    using trap_state_facts by (simp_all add: facts_of_def)
  then have "TileAt (gs_world trap_state) (fst (pos int_ops trap_state)) (snd (pos int_ops trap_state)) = Trap"
    by (simp add: TileAt_def InBounds_def)
  moreover have "\<not> in_sight (gs_world trap_state) (pos int_ops trap_state) 4 Exit"
    by (auto simp: in_sight_def f offset_tile_Some InBounds_def TileAt_def)
  ultimately show ?thesis using trap_is_fatal [OF trap_state_inv, of 5 0] f(3) by auto
qed

lemma column_draws_build: "NewWorldRandom 1 column_draws 0 22 14 30 7 24 \<noteq> None"
  by code_simp

theorem game_invariant_witness:
  "\<exists>w. game_build 1 id idle_state = Some (Ret w) \<and>
    (\<exists>sts w1. agent_run int_ops 0 (game_agent int_ops) 1000 w = Some (Ret (sts, w1)) \<and> length sts = 1000)"
proof -
  obtain r where r: "game_build 1 id idle_state = Some r"
    using column_draws_build by (auto simp: game_build_def idle_state_def trap_state_def start_world_def world.defs)
  from game_invariant [OF r, of int_ops 0] r show ?thesis by blast
qed

end
