(* ===== verification/Seq_Iterator.thy ===== *)
theory Seq_Iterator
  imports Zeus_Prelude
begin

text \<open>
  The chainable iterators of \<open>pkg/sequence/functional.go\<close>. An \<open>iter.Seq[T]\<close> is a function that
  calls its argument \<open>yield\<close> once per element and is told by the result whether to go on. What the
  consumer answers depends on the elements it has been given, so a consumer is a function from the
  elements yielded so far (the newest last) to its answer, and a sequence maps a consumer to the
  list of all elements it yields to it. A source that ignores the answer, as \<open>From\<close> does, is a
  constant function; one that stops at the first \<open>false\<close> is \<open>yields_until\<close>.
\<close>

section \<open>Sources and combinators\<close>

type_synonym 'a consumer = "'a list \<Rightarrow> bool"
type_synonym 'a iterator = "'a consumer \<Rightarrow> 'a list"

named_theorems iter_defs \<open>definitions of the iterator operations\<close>

definition From :: "'a list \<Rightarrow> 'a iterator" where
  "From data = (\<lambda>yield. data)"

text \<open>A Go map is ranged over in an order the runtime picks: its entries are listed in that order.\<close>

definition FromMap :: "('k \<times> 'a) list \<Rightarrow> 'a iterator" where
  "FromMap data = (\<lambda>yield. map snd data)"

text \<open>The values received from the channel until it is closed.\<close>

definition FromChannel :: "'a list \<Rightarrow> 'a iterator" where
  "FromChannel ch = (\<lambda>yield. ch)"

definition Collect_iter :: "'a iterator \<Rightarrow> 'a list" where
  "Collect_iter i = foldl (\<lambda>out v. out @ [v]) [] (i (\<lambda>h. True))"

definition Sort :: "('a \<Rightarrow> 'a \<Rightarrow> bool) \<Rightarrow> 'a iterator \<Rightarrow> 'a iterator" where
  "Sort lt i = From (slice_stable lt (Collect_iter i))"

text \<open>
  \<open>Each\<close> applies the action and never calls its own \<open>yield\<close>; \<open>Each_actions\<close> lists the elements
  the action is applied to when the resulting sequence is run.
\<close>

definition Each :: "'a iterator \<Rightarrow> 'a iterator" where
  "Each i = (\<lambda>yield. [])"

definition Each_actions :: "'a iterator \<Rightarrow> 'a list" where
  "Each_actions i = i (\<lambda>h. True)"

definition Filter_iter :: "('a \<Rightarrow> bool) \<Rightarrow> 'a iterator \<Rightarrow> 'a iterator" where
  "Filter_iter pred i =
     (\<lambda>yield. filter pred (i (\<lambda>h. if pred (last h) then yield (filter pred h) else True)))"

definition Take :: "int \<Rightarrow> 'a iterator \<Rightarrow> 'a iterator" where
  "Take n i = (\<lambda>yield. take (nat n) (i (\<lambda>h. if length h \<le> nat n then yield h else False)))"

definition Drop :: "int \<Rightarrow> 'a iterator \<Rightarrow> 'a iterator" where
  "Drop n i =
     (\<lambda>yield. drop (nat n) (i (\<lambda>h. if length h \<le> nat n then True else yield (drop (nat n) h))))"

text \<open>The elements not in the map \<open>seen\<close> when they are reached, which each one enters.\<close>

fun keep_unseen :: "'a set \<Rightarrow> 'a list \<Rightarrow> 'a list" where
  "keep_unseen seen [] = []"
| "keep_unseen seen (v # vs) =
     (if v \<in> seen then keep_unseen seen vs else v # keep_unseen (insert v seen) vs)"

definition Distinct :: "'a iterator \<Rightarrow> 'a iterator" where
  "Distinct i =
     (\<lambda>yield. keep_unseen {} (i (\<lambda>h. if last h \<in> set (butlast h) then True
                                     else yield (keep_unseen {} h))))"

fun flatten_slice :: "'a consumer \<Rightarrow> 'a list \<Rightarrow> 'a list \<Rightarrow> 'a list \<times> bool" where
  "flatten_slice yield out [] = (out, True)"
| "flatten_slice yield out (v # vs) =
     (if yield (out @ [v]) then flatten_slice yield (out @ [v]) vs else (out @ [v], False))"

definition flatten_run :: "'a consumer \<Rightarrow> 'a list list \<Rightarrow> 'a list \<times> bool" where
  "flatten_run yield slices = foldl (\<lambda>(out, ok) sl. flatten_slice yield out sl) ([], True) slices"

definition Flatten :: "'a list iterator \<Rightarrow> 'a iterator" where
  "Flatten i = (\<lambda>yield. fst (flatten_run yield (i (\<lambda>h. snd (flatten_run yield h)))))"

definition Chain :: "'a iterator list \<Rightarrow> 'a iterator" where
  "Chain iters = (\<lambda>yield. foldl (\<lambda>out i. out @ i (\<lambda>h. yield (out @ h))) [] iters)"

section \<open>Consumers\<close>

definition Reduce :: "'a \<Rightarrow> ('a \<Rightarrow> 'a \<Rightarrow> 'a) \<Rightarrow> 'a iterator \<Rightarrow> 'a" where
  "Reduce init reducer i = foldl (\<lambda>acc v. reducer acc v) init (i (\<lambda>h. True))"

text \<open>A pair \<open>(value, true)\<close> is \<open>Some\<close>, the zero value with \<open>false\<close> is \<open>None\<close>.\<close>

definition Find :: "('a \<Rightarrow> bool) \<Rightarrow> 'a iterator \<Rightarrow> 'a option" where
  "Find pred i =
     foldl (\<lambda>found v. if pred v then Some v else found) None (i (\<lambda>h. \<not> pred (last h)))"

definition Any_iter :: "('a \<Rightarrow> bool) \<Rightarrow> 'a iterator \<Rightarrow> bool" where
  "Any_iter pred i = foldl (\<lambda>found v. if pred v then True else found) False (i (\<lambda>h. \<not> pred (last h)))"

definition All_iter :: "('a \<Rightarrow> bool) \<Rightarrow> 'a iterator \<Rightarrow> bool" where
  "All_iter pred i = foldl (\<lambda>all v. if \<not> pred v then False else all) True (i (\<lambda>h. pred (last h)))"

definition Partition :: "('a \<Rightarrow> bool) \<Rightarrow> 'a iterator \<Rightarrow> 'a list \<times> 'a list" where
  "Partition pred i =
     foldl (\<lambda>(matches, rest) v. if pred v then (matches @ [v], rest) else (matches, rest @ [v]))
       ([], []) (i (\<lambda>h. True))"

definition First :: "'a iterator \<Rightarrow> 'a option" where
  "First i = foldl (\<lambda>found v. Some v) None (i (\<lambda>h. False))"

definition Last :: "'a iterator \<Rightarrow> 'a option" where
  "Last i = foldl (\<lambda>found v. Some v) None (i (\<lambda>h. True))"

definition Count :: "'a iterator \<Rightarrow> int" where
  "Count i = foldl (\<lambda>count v. count + 1) 0 (i (\<lambda>h. True))"

text \<open>The in-place reversal: the two ends are exchanged and move towards each other.\<close>

function reverse_loop :: "nat \<Rightarrow> nat \<Rightarrow> 'a list \<Rightarrow> 'a list" where
  "reverse_loop l r data =
     (if l < r then reverse_loop (l + 1) (r - 1) (data[l := data ! r, r := data ! l]) else data)"
  by pat_completeness auto
termination
  by (relation "measure (\<lambda>(l, r, data). r - l)") auto

declare reverse_loop.simps [simp del]

lemma reverse_loop_stop [simp]: "\<not> l < r \<Longrightarrow> reverse_loop l r data = data"
  by (simp add: reverse_loop.simps)

definition Reverse :: "'a iterator \<Rightarrow> 'a iterator" where
  "Reverse i = (let data = Collect_iter i in From (reverse_loop 0 (length data - 1) data))"

definition GroupBy :: "'a iterator \<Rightarrow> ('a \<Rightarrow> 'k) \<Rightarrow> ('k \<rightharpoonup> 'a list)" where
  "GroupBy i keyFn =
     foldl (\<lambda>groups v. groups(keyFn v \<mapsto> (case groups (keyFn v) of None \<Rightarrow> [] | Some g \<Rightarrow> g) @ [v]))
       Map.empty (i (\<lambda>h. True))"

definition ToMap :: "'a iterator \<Rightarrow> ('a \<Rightarrow> 'k) \<Rightarrow> ('a \<Rightarrow> 'v) \<Rightarrow> ('k \<rightharpoonup> 'v)" where
  "ToMap i keyFn valFn = foldl (\<lambda>m v. m(keyFn v \<mapsto> valFn v)) Map.empty (i (\<lambda>h. True))"

definition ToSet :: "'a iterator \<Rightarrow> 'a set" where
  "ToSet i = foldl (\<lambda>s v. insert v s) {} (i (\<lambda>h. True))"

definition ToArray :: "'a iterator \<Rightarrow> ('a \<Rightarrow> 'b) \<Rightarrow> 'b list" where
  "ToArray i callback = foldl (\<lambda>arr v. arr @ [callback v]) [] (i (\<lambda>h. True))"

fun transform_loop :: "('a \<Rightarrow> 'a) \<Rightarrow> nat \<Rightarrow> 'a list \<Rightarrow> 'a list \<Rightarrow> 'a list" where
  "transform_loop mutate idx [] transformed = transformed"
| "transform_loop mutate idx (value # rest) transformed =
     transform_loop mutate (idx + 1) rest (transformed[idx := mutate value])"

definition Transform :: "'a \<Rightarrow> 'a list \<Rightarrow> ('a \<Rightarrow> 'a) \<Rightarrow> 'a list" where
  "Transform zero data mutate = transform_loop mutate 0 data (replicate (length data) zero)"

text \<open>A producer that stops at the first \<open>false\<close>, starting with \<open>out\<close> already yielded.\<close>

fun yields_until :: "'a consumer \<Rightarrow> 'a list \<Rightarrow> 'a list \<Rightarrow> 'a list" where
  "yields_until yield out [] = out"
| "yields_until yield out (v # vs) =
     (if yield (out @ [v]) then yields_until yield (out @ [v]) vs else out @ [v])"

definition TransformIterator :: "'a list \<Rightarrow> ('a \<Rightarrow> 'a) \<Rightarrow> (nat \<times> 'a) iterator" where
  "TransformIterator data mutate =
     (\<lambda>yield. yields_until yield [] (zip [0..<length data] (map mutate data)))"

text \<open>
  \<open>Join\<close> receives one element from each side per round; a side that is exhausted delivers its
  zero value, and the loop ends when both are.
\<close>

fun join_rounds :: "'a \<Rightarrow> 'b \<Rightarrow> ('a \<Rightarrow> 'b \<Rightarrow> 'c) \<Rightarrow> 'a list \<Rightarrow> 'b list \<Rightarrow> 'c list" where
  "join_rounds zT zS join [] [] = []"
| "join_rounds zT zS join [] (w # ws) = join zT w # join_rounds zT zS join [] ws"
| "join_rounds zT zS join (v # vs) [] = join v zS # join_rounds zT zS join vs []"
| "join_rounds zT zS join (v # vs) (w # ws) = join v w # join_rounds zT zS join vs ws"

definition Join :: "'a \<Rightarrow> 'b \<Rightarrow> 'a iterator \<Rightarrow> 'b iterator \<Rightarrow> ('a \<Rightarrow> 'b \<Rightarrow> 'c) \<Rightarrow> 'c iterator" where
  "Join zT zS first second join =
     (\<lambda>yield. yields_until yield [] (join_rounds zT zS join (first (\<lambda>h. True)) (second (\<lambda>h. True))))"

section \<open>Folding lemmas shared by the consumers\<close>

lemma foldl_snoc [simp]: "foldl (\<lambda>out v. out @ [f v]) acc xs = acc @ map f xs"
  by (induction xs arbitrary: acc) auto

lemma foldl_append [simp]: "foldl (\<lambda>out v. out @ [v]) acc xs = acc @ xs"
  by (induction xs arbitrary: acc) auto

lemma foldl_Some [simp]:
  "foldl (\<lambda>found v. Some v) acc xs = (if xs = [] then acc else Some (last xs))"
  by (induction xs arbitrary: acc) auto

lemma foldl_match [simp]:
  "foldl (\<lambda>found v. if p v then Some v else found) acc xs =
     (if filter p xs = [] then acc else Some (last (filter p xs)))"
  by (induction xs arbitrary: acc) auto

lemma foldl_any [simp]: "foldl (\<lambda>found v. if p v then True else found) acc xs = (acc \<or> (\<exists>x\<in>set xs. p x))"
  by (induction xs arbitrary: acc) auto

lemma foldl_all [simp]: "foldl (\<lambda>all v. if \<not> p v then False else all) acc xs = (acc \<and> (\<forall>x\<in>set xs. p x))"
  by (induction xs arbitrary: acc) auto

lemma foldl_partition [simp]:
  "foldl (\<lambda>(ms, rs) v. if p v then (ms @ [v], rs) else (ms, rs @ [v])) (a, b) xs =
     (a @ filter p xs, b @ filter (\<lambda>x. \<not> p x) xs)"
  by (induction xs arbitrary: a b) auto

lemma foldl_count [simp]: "foldl (\<lambda>count v. count + 1) (n :: int) xs = n + int (length xs)"
  by (induction xs arbitrary: n) auto

lemma foldl_insert [simp]: "foldl (\<lambda>s v. insert v s) S xs = S \<union> set xs"
  by (induction xs arbitrary: S) auto

lemma foldl_group:
  "foldl (\<lambda>groups v. groups(f v \<mapsto> (case groups (f v) of None \<Rightarrow> [] | Some g \<Rightarrow> g) @ [v])) g xs k =
     (let ys = filter (\<lambda>v. f v = k) xs
      in if ys = [] then g k else Some ((case g k of None \<Rightarrow> [] | Some zs \<Rightarrow> zs) @ ys))"
  by (induction xs arbitrary: g) (auto simp: Let_def)

lemma foldl_map_upd:
  "foldl (\<lambda>m v. m(f v \<mapsto> g v)) m xs k =
     (let ys = filter (\<lambda>v. f v = k) xs in if ys = [] then m k else Some (g (last ys)))"
  by (induction xs arbitrary: m) (auto simp: Let_def)

lemma keep_unseen_props:
  "distinct (keep_unseen seen xs) \<and> set (keep_unseen seen xs) = set xs - seen"
  by (induction seen xs rule: keep_unseen.induct) auto

section \<open>Sources that ignore the consumer's answer\<close>

text \<open>
  The contract of \<open>From\<close>, \<open>FromMap\<close> and \<open>FromChannel\<close>: all elements are yielded whatever the
  consumer answers. Every combinator keeps it, and under it each consumer is a list function.
\<close>

locale exhaustive =
  fixes it :: "'a iterator" and xs :: "'a list"
  assumes yields: "it k = xs"
begin

lemma collect_all: "Collect_iter it = xs"
  by (simp add: Collect_iter_def yields)

lemma filter_exhaustive: "exhaustive (Filter_iter p it) (filter p xs)"
  by unfold_locales (simp add: Filter_iter_def yields)

lemma take_exhaustive: "exhaustive (Take n it) (take (nat n) xs)"
  by unfold_locales (simp add: Take_def yields)

lemma drop_exhaustive: "exhaustive (Drop n it) (drop (nat n) xs)"
  by unfold_locales (simp add: Drop_def yields)

lemma distinct_exhaustive: "exhaustive (Distinct it) (keep_unseen {} xs)"
  by unfold_locales (simp add: Distinct_def yields)

lemma sort_exhaustive: "exhaustive (Sort lt it) (slice_stable lt xs)"
  by unfold_locales (simp add: Sort_def From_def collect_all)

lemma each_exhaustive: "exhaustive (Each it) []"
  by unfold_locales (simp add: Each_def)

lemma each_actions_all: "Each_actions it = xs"
  by (simp add: Each_actions_def yields)

lemma reduce_all: "Reduce z f it = foldl f z xs"
  by (simp add: Reduce_def yields)

lemma find_last_match: "Find p it = (if filter p xs = [] then None else Some (last (filter p xs)))"
  by (simp add: Find_def yields)

lemma any_ex: "Any_iter p it = (\<exists>x\<in>set xs. p x)"
  by (simp add: Any_iter_def yields)

lemma all_ball: "All_iter p it = (\<forall>x\<in>set xs. p x)"
  by (simp add: All_iter_def yields)

lemma partition_filters: "Partition p it = (filter p xs, filter (\<lambda>x. \<not> p x) xs)"
  by (simp add: Partition_def yields)

lemma first_is_last: "First it = (if xs = [] then None else Some (last xs))"
  by (simp add: First_def yields)

lemma last_is_last: "Last it = (if xs = [] then None else Some (last xs))"
  by (simp add: Last_def yields)

lemma count_length: "Count it = int (length xs)"
  by (simp add: Count_def yields)

lemma group_filter:
  "GroupBy it f k = (let ys = filter (\<lambda>v. f v = k) xs in if ys = [] then None else Some ys)"
  by (simp add: GroupBy_def yields foldl_group Let_def)

lemma to_map_last:
  "ToMap it f g k =
     (let ys = filter (\<lambda>v. f v = k) xs in if ys = [] then None else Some (g (last ys)))"
  by (simp add: ToMap_def yields foldl_map_upd Let_def)

lemma to_set_set: "ToSet it = set xs"
  by (simp add: ToSet_def yields)

lemma to_array_map: "ToArray it f = map f xs"
  by (simp add: ToArray_def yields)

end

interpretation from_slice: exhaustive "From xs" xs for xs
  by unfold_locales (simp add: From_def)

interpretation from_map: exhaustive "FromMap m" "map snd m" for m
  by unfold_locales (simp add: FromMap_def)

interpretation from_channel: exhaustive "FromChannel ch" ch for ch
  by unfold_locales (simp add: FromChannel_def)

section \<open>Sources that stop at the first refusal\<close>

lemma yields_until_True [simp]: "yields_until (\<lambda>h. True) out xs = out @ xs"
  by (induction xs arbitrary: out) auto

lemma yields_until_False [simp]: "yields_until (\<lambda>h. False) out xs = out @ take 1 xs"
  by (cases xs) auto

lemma yields_until_not_last:
  "yields_until (\<lambda>h. \<not> p (last h)) out xs =
     out @ takeWhile (\<lambda>x. \<not> p x) xs @ take 1 (dropWhile (\<lambda>x. \<not> p x) xs)"
  by (induction xs arbitrary: out) auto

lemma find_takeWhile: "List.find p xs = (case dropWhile (\<lambda>x. \<not> p x) xs of [] \<Rightarrow> None | y # ys \<Rightarrow> Some y)"
  by (induction xs) auto

lemma filter_until:
  "filter p (takeWhile (\<lambda>x. \<not> p x) xs @ take 1 (dropWhile (\<lambda>x. \<not> p x) xs)) =
     take 1 (dropWhile (\<lambda>x. \<not> p x) xs)"
  by (induction xs) auto

locale cooperative =
  fixes it :: "'a iterator" and xs :: "'a list"
  assumes yields_until: "it k = yields_until k [] xs"
begin

lemma collect_coop: "Collect_iter it = xs"
  by (simp add: Collect_iter_def yields_until)

lemma first_is_first: "First it = (case xs of [] \<Rightarrow> None | x # _ \<Rightarrow> Some x)"
  by (cases xs) (simp_all add: First_def yields_until)

lemma find_is_find: "Find p it = List.find p xs"
proof -
  have *: "it (\<lambda>h. \<not> p (last h)) = takeWhile (\<lambda>x. \<not> p x) xs @ take 1 (dropWhile (\<lambda>x. \<not> p x) xs)"
    by (simp add: yields_until yields_until_not_last)
  show ?thesis
    unfolding Find_def * foldl_match filter_until find_takeWhile
    by (cases "dropWhile (\<lambda>x. \<not> p x) xs") (simp_all del: dropWhile_eq_Nil_conv)
qed

end

interpretation transform_iter: cooperative "TransformIterator data mutate"
    "zip [0..<length data] (map mutate data)" for data mutate
  by unfold_locales (simp add: TransformIterator_def)

interpretation join_iter: cooperative "Join zT zS (From xs) (From ys) join"
    "join_rounds zT zS join xs ys" for zT zS xs ys join
  by unfold_locales (simp add: Join_def From_def)

section \<open>The remaining operations on lists\<close>

lemma reverse_loop_props:
  "r < length data \<or> \<not> l < r \<Longrightarrow>
     length (reverse_loop l r data) = length data \<and>
     (\<forall>i<length data. reverse_loop l r data ! i =
        (if l \<le> i \<and> i \<le> r \<and> l < r then data ! (l + r - i) else data ! i))"
proof (induction l r data rule: reverse_loop.induct)
  case (1 l r data)
  show ?case
  proof (cases "l < r")
    case True
    with "1.prems" have r: "r < length data" by simp
    let ?d = "data[l := data ! r, r := data ! l]"
    have IH: "length (reverse_loop (l + 1) (r - 1) ?d) = length data \<and>
      (\<forall>i<length data. reverse_loop (l + 1) (r - 1) ?d ! i =
        (if l + 1 \<le> i \<and> i \<le> r - 1 \<and> l + 1 < r - 1 then ?d ! (l + 1 + (r - 1) - i) else ?d ! i))"
      by (rule "1.IH" [OF True, simplified length_list_update]) (use r in linarith)
    have eq: "reverse_loop l r data = reverse_loop (l + 1) (r - 1) ?d"
      using True by (simp add: reverse_loop.simps [of l r data])
    have sum: "l + 1 + (r - 1) = l + r" using True by simp
    show ?thesis
      unfolding eq using IH True r sum
      by (auto simp: nth_list_update intro: arg_cong [where f = "nth data"])
  next
    case False
    then show ?thesis by simp
  qed
qed

lemma reverse_loop_rev: "reverse_loop 0 (length xs - 1) xs = rev xs"
proof (cases "length xs \<le> 1")
  case True
  then show ?thesis
    by (cases xs) auto
next
  case False
  then have "length xs - 1 < length xs" by simp
  then have props: "length (reverse_loop 0 (length xs - 1) xs) = length xs"
    "\<And>i. i < length xs \<Longrightarrow> reverse_loop 0 (length xs - 1) xs ! i =
        (if i \<le> length xs - 1 \<and> 0 < length xs - 1 then xs ! (length xs - 1 - i) else xs ! i)"
    using reverse_loop_props [of "length xs - 1" xs 0] by auto
  show ?thesis
  proof (rule nth_equalityI)
    show "length (reverse_loop 0 (length xs - 1) xs) = length (rev xs)"
      using props(1) by simp
    fix i assume "i < length (reverse_loop 0 (length xs - 1) xs)"
    then have i: "i < length xs" using props(1) by simp
    moreover from i have "i \<le> length xs - 1" by linarith
    ultimately show "reverse_loop 0 (length xs - 1) xs ! i = rev xs ! i"
      using False props(2) [OF i] by (simp add: rev_nth)
  qed
qed

lemma transform_loop_map:
  "length t = idx + length data \<Longrightarrow> transform_loop f idx data t = take idx t @ map f data"
proof (induction f idx data t rule: transform_loop.induct)
  case (1 f idx t)
  then show ?case by simp
next
  case (2 f idx v rest t)
  then have "idx < length t" by simp
  with 2 show ?case by (simp add: take_Suc_conv_app_nth)
qed

lemma Transform_map: "Transform zero data f = map f data"
  by (simp add: Transform_def transform_loop_map)

lemma flatten_slice_True [simp]: "flatten_slice (\<lambda>h. True) out sl = (out @ sl, True)"
  by (induction sl arbitrary: out) auto

lemma flatten_run_True [simp]: "flatten_run (\<lambda>h. True) sls = (concat sls, True)"
proof -
  have "foldl (\<lambda>(out, ok) sl. flatten_slice (\<lambda>h. True) out sl) (acc, ok) sls =
      (acc @ concat sls, ok \<or> sls \<noteq> [])" if "ok" for acc :: "'a list" and ok
    using that by (induction sls arbitrary: acc ok) auto
  then show ?thesis by (simp add: flatten_run_def)
qed

lemma Collect_Flatten_From: "Collect_iter (Flatten (From sls)) = concat sls"
  by (simp add: Collect_iter_def Flatten_def From_def)

lemma Chain_From: "Chain (map From xss) = From (concat xss)"
proof -
  have "foldl (\<lambda>out i. out @ i (\<lambda>h. yield (out @ h))) acc (map From xss) = acc @ concat xss"
    for acc :: "'a list" and yield
    by (induction xss arbitrary: acc) (auto simp: From_def)
  then show ?thesis by (simp add: Chain_def From_def)
qed

lemma Reverse_From: "Reverse (From xs) = From (rev xs)"
  by (simp only: Reverse_def from_slice.collect_all reverse_loop_rev Let_def)

lemma length_join_rounds: "length (join_rounds zT zS f xs ys) = max (length xs) (length ys)"
  by (induction zT zS f xs ys rule: join_rounds.induct) auto

lemma join_rounds_nth:
  "i < max (length xs) (length ys) \<Longrightarrow> join_rounds zT zS f xs ys ! i =
     f (if i < length xs then xs ! i else zT) (if i < length ys then ys ! i else zS)"
proof (induction zT zS f xs ys arbitrary: i rule: join_rounds.induct)
  case (1 zT zS f)
  then show ?case by simp
next
  case (2 zT zS f w ws)
  then show ?case by (cases i) auto
next
  case (3 zT zS f v vs)
  then show ?case by (cases i) auto
next
  case (4 zT zS f v vs w ws)
  then show ?case by (cases i) auto
qed

section \<open>Pipelines\<close>

text \<open>
  A pipeline is a source followed by combinators. The reference semantics of each combinator is the
  list function its comment names.
\<close>

datatype 'a stage = StFilter "'a \<Rightarrow> bool" | StTake int | StDrop int | StDistinct
  | StSort "'a \<Rightarrow> 'a \<Rightarrow> bool" | StReverse

fun apply_stage :: "'a iterator \<Rightarrow> 'a stage \<Rightarrow> 'a iterator" where
  "apply_stage i (StFilter p) = Filter_iter p i"
| "apply_stage i (StTake n) = Take n i"
| "apply_stage i (StDrop n) = Drop n i"
| "apply_stage i StDistinct = Distinct i"
| "apply_stage i (StSort lt) = Sort lt i"
| "apply_stage i StReverse = Reverse i"

fun stage_list :: "'a list \<Rightarrow> 'a stage \<Rightarrow> 'a list" where
  "stage_list xs (StFilter p) = filter p xs"
| "stage_list xs (StTake n) = take (nat n) xs"
| "stage_list xs (StDrop n) = drop (nat n) xs"
| "stage_list xs StDistinct = rev (remdups (rev xs))"
| "stage_list xs (StSort lt) = slice_stable lt xs"
| "stage_list xs StReverse = rev xs"

lemma keep_unseen_snoc:
  "keep_unseen seen (xs @ [x]) = keep_unseen seen xs @ (if x \<in> seen \<union> set xs then [] else [x])"
  by (induction seen xs rule: keep_unseen.induct) auto

lemma keep_unseen_remdups: "keep_unseen {} xs = rev (remdups (rev xs))"
  by (induction xs rule: rev_induct) (auto simp: keep_unseen_snoc)

lemma stage_exhaustive: "exhaustive i xs \<Longrightarrow> exhaustive (apply_stage i st) (stage_list xs st)"
proof (cases st)
  case StReverse
  assume "exhaustive i xs"
  then have "Collect_iter i = xs" by (rule exhaustive.collect_all)
  then have "Reverse i = From (rev xs)"
    by (simp only: Reverse_def reverse_loop_rev Let_def)
  with StReverse show ?thesis by (simp add: from_slice.exhaustive_axioms)
qed (auto simp: keep_unseen_remdups [symmetric] intro: exhaustive.filter_exhaustive
  exhaustive.take_exhaustive exhaustive.drop_exhaustive exhaustive.distinct_exhaustive
  exhaustive.sort_exhaustive)

lemma pipeline_exhaustive:
  "exhaustive i xs \<Longrightarrow> exhaustive (foldl apply_stage i sts) (foldl stage_list xs sts)"
  by (induction sts arbitrary: i xs) (auto intro: stage_exhaustive)

text \<open>
  A pipeline of \<open>Filter\<close>, \<open>Take\<close>, \<open>Drop\<close>, \<open>Distinct\<close>, \<open>Sort\<close> and \<open>Reverse\<close> stages over a slice
  collects exactly what the list functions of its stages give in sequence, and \<open>Count\<close>, \<open>ToArray\<close>,
  \<open>Any\<close> and \<open>All\<close> at its end agree with that list.
\<close>

theorem pipeline_list:
  "Collect_iter (foldl apply_stage (From xs) sts) = foldl stage_list xs sts \<and>
   Count (foldl apply_stage (From xs) sts) = int (length (foldl stage_list xs sts)) \<and>
   ToArray (foldl apply_stage (From xs) sts) f = map f (foldl stage_list xs sts) \<and>
   Any_iter p (foldl apply_stage (From xs) sts) = list_ex p (foldl stage_list xs sts) \<and>
   All_iter p (foldl apply_stage (From xs) sts) = list_all p (foldl stage_list xs sts)"
proof -
  have ex: "exhaustive (foldl apply_stage (From xs) sts) (foldl stage_list xs sts)"
    by (rule pipeline_exhaustive) (rule from_slice.exhaustive_axioms)
  show ?thesis
    by (simp add: exhaustive.collect_all [OF ex] exhaustive.count_length [OF ex]
        exhaustive.to_array_map [OF ex] exhaustive.any_ex [OF ex] exhaustive.all_ball [OF ex]
        list_ex_iff list_all_iff)
qed

section \<open>Sorting\<close>

lemma sink_stable:
  "sorted_wrt (\<lambda>a b. key b \<le> key a) ys \<Longrightarrow>
   filter (\<lambda>y. key y = k) (sink (\<lambda>a b. key a < (key b :: 'k :: linorder)) x ys) =
     (if key x = k then [x] else []) @ filter (\<lambda>y. key y = k) ys"
proof (induction ys)
  case Nil
  then show ?case by simp
next
  case (Cons y ys)
  then show ?case by auto
qed

lemma fold_sink_stable:
  fixes key :: "'a \<Rightarrow> 'k :: linorder"
  assumes "sorted_wrt (\<lambda>a b. key b \<le> key a) acc"
  shows "filter (\<lambda>y. key y = k) (fold (sink (\<lambda>a b. key a < key b)) xs acc) =
     rev (filter (\<lambda>y. key y = k) xs) @ filter (\<lambda>y. key y = k) acc"
  using assms
proof (induction xs arbitrary: acc)
  case Nil
  then show ?case by simp
next
  case (Cons x xs)
  have "sorted_wrt (\<lambda>a b. key b \<le> key a) (sink (\<lambda>a b. key a < key b) x acc)"
    by (rule sink_descending) (use Cons.prems in \<open>auto simp: key_less_def\<close>)
  with Cons show ?case by (simp add: sink_stable)
qed

text \<open>
  \<open>Sort\<close> by a strict comparison of a key is a stable sort: the collected elements ascend in the
  key, are a permutation of the input, and elements of equal key keep their order.
\<close>

theorem Sort_stable:
  fixes key :: "'a \<Rightarrow> 'k :: linorder"
  defines "out \<equiv> \<lambda>xs. Collect_iter (Sort (\<lambda>a b. key a < key b) (From xs))"
  shows "sorted (map key (out xs)) \<and> mset (out xs) = mset xs \<and>
     filter (\<lambda>y. key y = k) (out xs) = filter (\<lambda>y. key y = k) xs"
proof -
  have out: "out xs = slice_stable (\<lambda>a b. key a < key b) xs"
    unfolding out_def
    by (rule exhaustive.collect_all [OF from_slice.sort_exhaustive])
  have "sorted (map key (slice_stable (\<lambda>a b. key a < key b) xs))"
    by (rule sorted_slice_stable) (auto simp: key_less_def)
  moreover have "filter (\<lambda>y. key y = k) (slice_stable (\<lambda>a b. key a < key b) xs) =
      filter (\<lambda>y. key y = k) xs"
    by (simp add: slice_stable_def rev_filter [symmetric] fold_sink_stable)
  ultimately show ?thesis by (simp add: out)
qed

section \<open>First and Find\<close>

text \<open>
  Because \<open>From\<close> does not look at the consumer's answer, \<open>First\<close> on a slice returns its last
  element, the same as \<open>Last\<close>, and \<open>Find\<close> returns the last match; on a sequence that stops when it
  is told to, as \<open>Join\<close> produces, they return the first element and the first match.
\<close>

theorem First_Find_behaviour:
  "First (From xs) = (if xs = [] then None else Some (last xs)) \<and>
   First (From xs) = Last (From xs) \<and>
   Find p (From xs) = List.find p (rev xs) \<and>
   First (Join zT zS (From ys) (From zs) join) =
     (case join_rounds zT zS join ys zs of [] \<Rightarrow> None | v # _ \<Rightarrow> Some v) \<and>
   Find q (Join zT zS (From ys) (From zs) join) = List.find q (join_rounds zT zS join ys zs)"
proof -
  have "(if filter p xs = [] then None else Some (last (filter p xs))) = List.find p (rev xs)"
    by (induction xs rule: rev_induct) (auto split: if_splits)
  then show ?thesis
    by (simp add: from_slice.first_is_last from_slice.last_is_last from_slice.find_last_match
        join_iter.first_is_first join_iter.find_is_find)
qed

section \<open>Pull\<close>

text \<open>
  \<open>Pull\<close> runs the sequence in a coroutine: each \<open>next\<close> lets it go on to its next value, so it never sees a stop before \<open>stop\<close> is called, and
  \<open>stop\<close> lets it run to its end without taking values. The state is what is still to come.
\<close>

definition Pull :: "'a iterator \<Rightarrow> 'a list" where
  "Pull i = i (\<lambda>h. True)"

definition pull_next :: "'a list \<Rightarrow> 'a option \<times> 'a list" where
  "pull_next rest = (case rest of [] \<Rightarrow> (None, []) | v # vs \<Rightarrow> (Some v, vs))"

definition pull_stop :: "'a list \<Rightarrow> 'a list" where
  "pull_stop rest = []"

fun pulls :: "nat \<Rightarrow> 'a list \<Rightarrow> 'a option list \<times> 'a list" where
  "pulls 0 rest = ([], rest)"
| "pulls (Suc n) rest = (case pull_next rest of (v, rest) \<Rightarrow> apfst ((#) v) (pulls n rest))"

lemma pulls_take: "pulls n xs = (map Some (take n xs) @ replicate (n - length xs) None, drop n xs)"
  by (induction n arbitrary: xs) (simp_all add: pull_next_def split: list.split)

theorem Pull_collects:
  "pulls n (Pull i) = (map Some (take n (Collect_iter i)) @ replicate (n - length (Collect_iter i)) None, drop n (Pull i)) \<and>
   fst (pull_next (pull_stop (drop n (Pull i)))) = None"
proof -
  have "foldl (\<lambda>out v. out @ [v]) ys xs = ys @ xs" for xs ys :: "'a list" by (induction xs arbitrary: ys) simp_all
  then have "Collect_iter i = Pull i" by (simp add: Collect_iter_def Pull_def)
  then show ?thesis by (simp add: pulls_take pull_stop_def pull_next_def)
qed

end
