(* ===== verification/Seq_Priority_Queue.thy ===== *)
theory Seq_Priority_Queue
  imports Zeus_Prelude
begin

text \<open>
  The priority queue of \<open>pkg/sequence/queue.go\<close> over Go's \<open>container/heap\<close>. Items are pointers in
  the source: \<open>pi_ptr\<close> is the identity an item was allocated with, and the slice holds the items
  themselves, since each pointer is in the slice at most once. The heap functions are those of the
  library (\<open>up\<close>, \<open>down\<close>, \<open>Push\<close>, \<open>Pop\<close>, \<open>Fix\<close>), written over the queue's \<open>Less\<close> and \<open>Swap\<close>.
\<close>

section \<open>Items and the heap interface\<close>

record 'a PriorityItem =
  pi_ptr :: nat
  pi_Value :: 'a
  pi_Priority :: int
  pi_index :: int

record 'a PriorityQueue =
  pq_items :: "'a PriorityItem list"
  pq_next :: nat

definition pq_Less :: "'a PriorityItem list \<Rightarrow> nat \<Rightarrow> nat \<Rightarrow> bool" where
  "pq_Less items i j \<longleftrightarrow> pi_Priority (items ! i) > pi_Priority (items ! j)"

definition pq_Swap :: "'a PriorityItem list \<Rightarrow> nat \<Rightarrow> nat \<Rightarrow> 'a PriorityItem list" where
  "pq_Swap items i j =
     (let items1 = items[i := items ! j, j := items ! i];
          items2 = items1[i := (items1 ! i)\<lparr>pi_index := int i\<rparr>]
      in items2[j := (items2 ! j)\<lparr>pi_index := int j\<rparr>])"

definition pq_Push :: "'a PriorityItem list \<Rightarrow> 'a PriorityItem \<Rightarrow> 'a PriorityItem list" where
  "pq_Push items item = items @ [item\<lparr>pi_index := int (length items)\<rparr>]"

definition pq_Pop :: "'a PriorityItem list \<Rightarrow> 'a PriorityItem \<times> 'a PriorityItem list" where
  "pq_Pop items = ((last items)\<lparr>pi_index := -1\<rparr>, butlast items)"

section \<open>container/heap\<close>

function heap_up :: "'a PriorityItem list \<Rightarrow> nat \<Rightarrow> 'a PriorityItem list" where
  "heap_up h j =
     (let i = (j - 1) div 2
      in if i = j \<or> \<not> pq_Less h j i then h else heap_up (pq_Swap h i j) i)"
  by pat_completeness auto
termination
  by (relation "measure snd") auto

function heap_down :: "'a PriorityItem list \<Rightarrow> nat \<Rightarrow> nat \<Rightarrow> 'a PriorityItem list \<times> nat" where
  "heap_down h i n =
     (let j1 = 2 * i + 1
      in if j1 \<ge> n then (h, i)
         else let j = (if j1 + 1 < n \<and> pq_Less h (j1 + 1) j1 then j1 + 1 else j1)
              in if \<not> pq_Less h j i then (h, i) else heap_down (pq_Swap h i j) j n)"
  by pat_completeness auto
termination
  by (relation "measure (\<lambda>(h, i, n). n - i)") auto

declare heap_up.simps [simp del] heap_down.simps [simp del]

definition heap_Push :: "'a PriorityItem list \<Rightarrow> 'a PriorityItem \<Rightarrow> 'a PriorityItem list" where
  "heap_Push h x = (let h1 = pq_Push h x in heap_up h1 (length h1 - 1))"

definition heap_Pop :: "'a PriorityItem list \<Rightarrow> 'a PriorityItem \<times> 'a PriorityItem list" where
  "heap_Pop h = (let n = length h - 1 in pq_Pop (fst (heap_down (pq_Swap h 0 n) 0 n)))"

definition heap_Fix :: "'a PriorityItem list \<Rightarrow> nat \<Rightarrow> 'a PriorityItem list" where
  "heap_Fix h i =
     (case heap_down h i (length h) of (h1, i1) \<Rightarrow> if \<not> i < i1 then heap_up h1 i else h1)"

text \<open>\<open>heap.Init\<close>: every inner node from the last one to the root is pushed down.\<close>

fun heap_Init_loop :: "nat \<Rightarrow> 'a PriorityItem list \<Rightarrow> 'a PriorityItem list" where
  "heap_Init_loop 0 h = h"
| "heap_Init_loop (Suc i) h = heap_Init_loop i (fst (heap_down h i (length h)))"

definition heap_Init :: "'a PriorityItem list \<Rightarrow> 'a PriorityItem list" where
  "heap_Init h = heap_Init_loop (length h div 2) h"

section \<open>The queue\<close>

definition NewPriorityQueue :: "'a PriorityQueue" where
  "NewPriorityQueue = \<lparr>pq_items = heap_Init [], pq_next = 0\<rparr>"

text \<open>\<open>Enqueue\<close> allocates the item and returns its pointer.\<close>

definition pq_Enqueue :: "'a PriorityQueue \<Rightarrow> 'a \<Rightarrow> int \<Rightarrow> nat \<times> 'a PriorityQueue" where
  "pq_Enqueue q v priority =
     (let item = \<lparr>pi_ptr = pq_next q, pi_Value = v, pi_Priority = priority, pi_index = 0\<rparr>
      in (pq_next q, \<lparr>pq_items = heap_Push (pq_items q) item, pq_next = pq_next q + 1\<rparr>))"

definition pq_Len :: "'a PriorityQueue \<Rightarrow> nat" where
  "pq_Len q = length (pq_items q)"

definition pq_IsEmpty :: "'a PriorityQueue \<Rightarrow> bool" where
  "pq_IsEmpty q \<longleftrightarrow> pq_Len q = 0"

definition pq_Dequeue :: "'a PriorityQueue \<Rightarrow> 'a option \<times> 'a PriorityQueue" where
  "pq_Dequeue q =
     (if pq_Len q = 0 then (None, q)
      else case heap_Pop (pq_items q) of
        (item, items) \<Rightarrow> (Some (pi_Value item), q\<lparr>pq_items := items\<rparr>))"

definition pq_Peek :: "'a PriorityQueue \<Rightarrow> 'a option" where
  "pq_Peek q = (if pq_Len q = 0 then None else Some (pi_Value (pq_items q ! 0)))"

text \<open>
  \<open>Update\<close> through an item's pointer. The position comes from the item's own \<open>index\<close> field; an
  item that has been popped carries \<open>-1\<close>, for which \<open>heap.Fix\<close> returns without a change.
\<close>

definition pq_find :: "'a PriorityItem list \<Rightarrow> nat \<Rightarrow> 'a PriorityItem option" where
  "pq_find items ptr = List.find (\<lambda>it. pi_ptr it = ptr) items"

definition pq_Update :: "'a PriorityQueue \<Rightarrow> nat \<Rightarrow> 'a \<Rightarrow> int \<Rightarrow> 'a PriorityQueue" where
  "pq_Update q ptr v priority =
     (case pq_find (pq_items q) ptr of
        None \<Rightarrow> q
      | Some item \<Rightarrow>
          let items = map (\<lambda>it. if pi_ptr it = ptr then it\<lparr>pi_Value := v, pi_Priority := priority\<rparr> else it)
                        (pq_items q)
          in q\<lparr>pq_items := heap_Fix items (nat (pi_index item))\<rparr>)"

section \<open>Swapping\<close>

abbreviation prios :: "'a PriorityItem list \<Rightarrow> int list" where
  "prios h \<equiv> map pi_Priority h"

definition payload :: "'a PriorityItem \<Rightarrow> nat \<times> 'a \<times> int" where
  "payload it = (pi_ptr it, pi_Value it, pi_Priority it)"

definition indexed :: "'a PriorityItem list \<Rightarrow> bool" where
  "indexed h \<longleftrightarrow> (\<forall>i<length h. pi_index (h ! i) = int i)"

lemma length_pq_Swap [simp]: "length (pq_Swap h i j) = length h"
  by (simp add: pq_Swap_def Let_def)

lemma nth_pq_Swap:
  "i < length h \<Longrightarrow> j < length h \<Longrightarrow> k < length h \<Longrightarrow>
   pq_Swap h i j ! k =
     (if k = j then (h ! i)\<lparr>pi_index := int j\<rparr> else if k = i then (h ! j)\<lparr>pi_index := int i\<rparr> else h ! k)"
  by (auto simp: pq_Swap_def Let_def nth_list_update)

lemma payload_index [simp]: "payload (it\<lparr>pi_index := n\<rparr>) = payload it"
  by (simp add: payload_def)

lemma map_payload_swap:
  assumes "i < length h" and "j < length h"
  shows "map payload (pq_Swap h i j) = (map payload h)[i := payload (h ! j), j := payload (h ! i)]"
  using assms by (intro nth_equalityI) (auto simp: nth_pq_Swap nth_list_update)

lemma mset_payload_swap [simp]:
  assumes "i < length h" and "j < length h"
  shows "image_mset payload (mset (pq_Swap h i j)) = image_mset payload (mset h)"
proof -
  have "mset (map payload (pq_Swap h i j)) = mset (map payload h)"
    using mset_swap [of j "map payload h" i] assms by (simp add: map_payload_swap del: mset_map)
  then show ?thesis by simp
qed

lemma prio_swap [simp]:
  "i < length h \<Longrightarrow> j < length h \<Longrightarrow> k < length h \<Longrightarrow>
   pi_Priority (pq_Swap h i j ! k) =
     pi_Priority (h ! (if k = j then i else if k = i then j else k))"
  by (simp add: nth_pq_Swap)

lemma indexed_swap [simp]: "indexed h \<Longrightarrow> i < length h \<Longrightarrow> j < length h \<Longrightarrow> indexed (pq_Swap h i j)"
  by (auto simp: indexed_def nth_pq_Swap)

lemma swap_outside:
  "i < length h \<Longrightarrow> j < length h \<Longrightarrow> k < length h \<Longrightarrow> k \<noteq> i \<Longrightarrow> k \<noteq> j \<Longrightarrow> pq_Swap h i j ! k = h ! k"
  by (simp add: nth_pq_Swap)

section \<open>The heap order\<close>

definition parent :: "nat \<Rightarrow> nat" where
  "parent k = (k - 1) div 2"

abbreviation prio :: "'a PriorityItem list \<Rightarrow> nat \<Rightarrow> int" where
  "prio h k \<equiv> pi_Priority (h ! k)"

definition heap_ordered :: "'a PriorityItem list \<Rightarrow> nat \<Rightarrow> bool" where
  "heap_ordered h n \<longleftrightarrow> (\<forall>k. 0 < k \<and> k < n \<longrightarrow> prio h k \<le> prio h (parent k))"

text \<open>
  While an item moves, the order is broken at one place only: between the item and its parent on
  the way up, between the item and its children on the way down.
\<close>

definition up_inv :: "'a PriorityItem list \<Rightarrow> nat \<Rightarrow> bool" where
  "up_inv h j \<longleftrightarrow>
     (\<forall>k. 0 < k \<and> k < length h \<and> k \<noteq> j \<longrightarrow> prio h k \<le> prio h (parent k)) \<and>
     (\<forall>k. 0 < k \<and> k < length h \<and> parent k = j \<and> 0 < j \<longrightarrow> prio h k \<le> prio h (parent j))"

definition down_inv :: "'a PriorityItem list \<Rightarrow> nat \<Rightarrow> nat \<Rightarrow> bool" where
  "down_inv h i n \<longleftrightarrow>
     (\<forall>k. 0 < k \<and> k < n \<and> parent k \<noteq> i \<longrightarrow> prio h k \<le> prio h (parent k)) \<and>
     (\<forall>k. 0 < k \<and> k < n \<and> parent k = i \<and> 0 < i \<longrightarrow> prio h k \<le> prio h (parent i))"

lemma parent_less: "0 < k \<Longrightarrow> parent k < k"
  unfolding parent_def by linarith

lemma parent_le: "parent k \<le> k"
  unfolding parent_def by linarith

lemma up_inv_swap:
  assumes inv: "up_inv h j" and j: "0 < j" "j < length h" and lt: "prio h (parent j) < prio h j"
  shows "up_inv (pq_Swap h (parent j) j) (parent j)"
proof -
  define i where "i = parent j"
  have i: "i < j" "i < length h" using parent_less [OF j(1)] j by (auto simp: i_def)
  have new: "prio (pq_Swap h i j) k = prio h (if k = j then i else if k = i then j else k)"
    if "k < length h" for k using that i j by simp
  have pair: "prio h k \<le> prio h (parent k)" if "0 < k" "k < length h" "k \<noteq> j" for k
    using inv that by (auto simp: up_inv_def)
  have grand: "prio h k \<le> prio h i" if "0 < k" "k < length h" "parent k = j" for k
    using inv that j by (auto simp: up_inv_def i_def)
  have lt': "prio h i < prio h j" using lt by (simp add: i_def)
  have one: "prio (pq_Swap h i j) k \<le> prio (pq_Swap h i j) (parent k)"
    if k: "0 < k" "k < length h" "k \<noteq> i" for k
  proof -
    have pk: "parent k < k" "parent k < length h" using parent_less [OF k(1)] k by auto
    show ?thesis
      unfolding new [OF k(2)] new [OF pk(2)]
      using pair [OF k(1,2)] grand [OF k(1,2)] lt' i(1) k(3) pk(1)
      by (cases "k = j") (auto simp: i_def [symmetric])
  qed
  have two: "prio (pq_Swap h i j) k \<le> prio (pq_Swap h i j) (parent i)"
    if k: "0 < k" "k < length h" "parent k = i" "0 < i" for k
  proof -
    have pi: "parent i < i" "parent i < length h" using parent_less [OF k(4)] i by auto
    have "prio h i \<le> prio h (parent i)" using pair [OF k(4) i(2)] i(1) by simp
    moreover have "k \<noteq> i" using k parent_less [OF k(1)] by auto
    ultimately show ?thesis
      unfolding new [OF k(2)] new [OF pi(2)]
      using pair [OF k(1,2)] k(3) i(1) pi(1) by (cases "k = j") auto
  qed
  from one two show ?thesis by (auto simp: up_inv_def i_def [symmetric])
qed

lemma heap_up_unfold:
  "heap_up h j = (if parent j = j \<or> \<not> pq_Less h j (parent j) then h
     else heap_up (pq_Swap h (parent j) j) (parent j))"
  by (subst heap_up.simps) (simp add: parent_def Let_def)

lemma up_inv_done:
  assumes "up_inv h j" and "parent j = j \<or> \<not> pq_Less h j (parent j)"
  shows "heap_ordered h (length h)"
  unfolding heap_ordered_def
proof (intro allI impI)
  fix k assume k: "0 < k \<and> k < length h"
  show "prio h k \<le> prio h (parent k)"
  proof (cases "k = j")
    case False
    with k assms(1) show ?thesis by (auto simp: up_inv_def)
  next
    case True
    with k have "parent j \<noteq> j" using parent_less [of j] by auto
    with assms(2) True show ?thesis by (auto simp: pq_Less_def)
  qed
qed

lemma heap_up_correct:
  "j < length h \<Longrightarrow> up_inv h j \<Longrightarrow>
     heap_ordered (heap_up h j) (length h) \<and> length (heap_up h j) = length h \<and>
     image_mset payload (mset (heap_up h j)) = image_mset payload (mset h) \<and>
     (indexed h \<longrightarrow> indexed (heap_up h j))"
proof (induction j arbitrary: h rule: less_induct)
  case (less j)
  show ?case
  proof (cases "parent j = j \<or> \<not> pq_Less h j (parent j)")
    case True
    with up_inv_done [OF less.prems(2) True] show ?thesis
      by (simp add: heap_up_unfold [of h j])
  next
    case False
    then have pj: "parent j < j" using parent_le [of j] by simp
    have "up_inv (pq_Swap h (parent j) j) (parent j)"
      using False pj less.prems by (intro up_inv_swap) (auto simp: pq_Less_def)
    with less.IH [OF pj, of "pq_Swap h (parent j) j"] pj less.prems(1) False show ?thesis
      by (auto simp: heap_up_unfold [of h j])
  qed
qed

text \<open>The child the way down follows: the second one when it exists and has the higher priority.\<close>

definition big_child :: "'a PriorityItem list \<Rightarrow> nat \<Rightarrow> nat \<Rightarrow> nat" where
  "big_child h i n = (if 2 * i + 2 < n \<and> pq_Less h (2 * i + 2) (2 * i + 1) then 2 * i + 2 else 2 * i + 1)"

lemma heap_down_unfold:
  "heap_down h i n =
     (if n \<le> 2 * i + 1 then (h, i)
      else if \<not> pq_Less h (big_child h i n) i then (h, i)
      else heap_down (pq_Swap h i (big_child h i n)) (big_child h i n) n)"
  by (subst heap_down.simps) (simp add: big_child_def Let_def)

lemma parent_eq_iff: "0 < k \<Longrightarrow> parent k = i \<longleftrightarrow> k = 2 * i + 1 \<or> k = 2 * i + 2"
  unfolding parent_def by auto

lemma big_child_props:
  assumes "2 * i + 1 < n"
  shows "i < big_child h i n" "big_child h i n < n" "parent (big_child h i n) = i"
    "0 < k \<Longrightarrow> k < n \<Longrightarrow> parent k = i \<Longrightarrow> prio h k \<le> prio h (big_child h i n)"
proof -
  show b: "i < big_child h i n" "big_child h i n < n"
    using assms by (auto simp: big_child_def)
  show "parent (big_child h i n) = i"
    using b(1) by (subst parent_eq_iff) (auto simp: big_child_def)
  assume "0 < k" "k < n" "parent k = i"
  then have "k = 2 * i + 1 \<or> k = 2 * i + 2" by (simp add: parent_eq_iff)
  with \<open>k < n\<close> show "prio h k \<le> prio h (big_child h i n)"
    by (auto simp: big_child_def pq_Less_def)
qed

lemma down_inv_swap:
  assumes inv: "down_inv h i n" and n: "2 * i + 1 < n" "n \<le> length h"
    and lt: "prio h i < prio h (big_child h i n)"
  shows "down_inv (pq_Swap h i (big_child h i n)) (big_child h i n) n"
proof -
  define j where "j = big_child h i n"
  have j: "i < j" "j < n" "parent j = i" "j < length h" "i < length h"
    using big_child_props(1-3) [OF n(1), of h] n unfolding j_def by linarith+
  have best: "prio h k \<le> prio h j" if "0 < k" "k < n" "parent k = i" for k
    using big_child_props(4) [OF n(1) that] by (simp add: j_def)
  have new: "prio (pq_Swap h i j) k = prio h (if k = j then i else if k = i then j else k)"
    if "k < n" for k using that j n by simp
  have pair: "prio h k \<le> prio h (parent k)" if "0 < k" "k < n" "parent k \<noteq> i" for k
    using inv that by (auto simp: down_inv_def)
  have grand: "prio h k \<le> prio h (parent i)" if "0 < k" "k < n" "parent k = i" "0 < i" for k
    using inv that by (auto simp: down_inv_def)
  have lt': "prio h i < prio h j" using lt by (simp add: j_def)
  have one: "prio (pq_Swap h i j) k \<le> prio (pq_Swap h i j) (parent k)"
    if k: "0 < k" "k < n" "parent k \<noteq> j" for k
  proof -
    have pk: "parent k < k" "parent k < n" using parent_less [OF k(1)] k by auto
    have gi: "k = i \<Longrightarrow> prio h j \<le> prio h (parent i)" using grand [of j] j k(1) by auto
    have pi: "k = i \<Longrightarrow> parent k \<noteq> i" using pk by auto
    show ?thesis
      unfolding new [OF k(2)] new [OF pk(2)]
      using pair [OF k(1,2)] best [OF k(1,2)] gi pi lt' j k(3) pk(1)
      by (cases "k = j"; cases "k = i"; cases "parent k = i") auto
  qed
  have two: "prio (pq_Swap h i j) k \<le> prio (pq_Swap h i j) (parent j)"
    if k: "0 < k" "k < n" "parent k = j" for k
  proof -
    have pk: "j < k" using parent_less [OF k(1)] k(3) by simp
    have i: "i < n" using j by simp
    show ?thesis
      unfolding j(3) new [OF k(2)] new [OF i]
      using pair [OF k(1,2)] k(3) pk j(1) by auto
  qed
  from one two show ?thesis by (auto simp: down_inv_def j_def [symmetric])
qed

lemma down_inv_done:
  assumes inv: "down_inv h i n" and stop: "n \<le> 2 * i + 1 \<or> \<not> pq_Less h (big_child h i n) i"
  shows "heap_ordered h n"
  unfolding heap_ordered_def
proof (intro allI impI)
  fix k assume k: "0 < k \<and> k < n"
  show "prio h k \<le> prio h (parent k)"
  proof (cases "parent k = i")
    case False
    with k inv show ?thesis by (auto simp: down_inv_def)
  next
    case True
    with k have n: "2 * i + 1 < n" by (auto simp: parent_eq_iff)
    with stop have "prio h (big_child h i n) \<le> prio h i" by (auto simp: pq_Less_def)
    with big_child_props(4) [OF n, of k h] k True show ?thesis by auto
  qed
qed

lemma heap_down_frame:
  "n \<le> length h \<Longrightarrow>
     length (fst (heap_down h i n)) = length h \<and>
     image_mset payload (mset (fst (heap_down h i n))) = image_mset payload (mset h) \<and>
     (indexed h \<longrightarrow> indexed (fst (heap_down h i n))) \<and>
     (\<forall>k. n \<le> k \<and> k < length h \<longrightarrow> fst (heap_down h i n) ! k = h ! k) \<and>
     i \<le> snd (heap_down h i n)"
proof (induction "n - i" arbitrary: h i rule: less_induct)
  case less
  show ?case
  proof (cases "n \<le> 2 * i + 1 \<or> \<not> pq_Less h (big_child h i n) i")
    case True
    then show ?thesis by (auto simp: heap_down_unfold [of h i n])
  next
    case False
    define j where "j = big_child h i n"
    have j: "i < j" "j < n" using big_child_props(1,2) [of i n h] False by (auto simp: j_def)
    then have "n - j < n - i" by simp
    from less.hyps [OF this, of "pq_Swap h i j"] less.prems j False show ?thesis
      by (auto simp: heap_down_unfold [of h i n] j_def [symmetric] swap_outside)
  qed
qed

lemma heap_down_ordered:
  "n \<le> length h \<Longrightarrow> down_inv h i n \<Longrightarrow> heap_ordered (fst (heap_down h i n)) n"
proof (induction "n - i" arbitrary: h i rule: less_induct)
  case less
  show ?case
  proof (cases "n \<le> 2 * i + 1 \<or> \<not> pq_Less h (big_child h i n) i")
    case True
    with down_inv_done [OF less.prems(2)] show ?thesis
      by (auto simp: heap_down_unfold [of h i n])
  next
    case False
    define j where "j = big_child h i n"
    have j: "i < j" "j < n" using big_child_props(1,2) [of i n h] False by (auto simp: j_def)
    have "down_inv (pq_Swap h i j) j n"
      using down_inv_swap [OF less.prems(2)] False less.prems(1) by (auto simp: pq_Less_def j_def)
    moreover have "n - j < n - i" using j by simp
    ultimately show ?thesis
      using less.hyps [of j "pq_Swap h i j"] less.prems(1) False
      by (auto simp: heap_down_unfold [of h i n] j_def [symmetric])
  qed
qed

lemma ordered_root_max: "heap_ordered h n \<Longrightarrow> k < n \<Longrightarrow> prio h k \<le> prio h 0"
proof (induction k rule: less_induct)
  case (less k)
  show ?case
  proof (cases "k = 0")
    case False
    with less.prems have "prio h k \<le> prio h (parent k)" by (auto simp: heap_ordered_def)
    also have "\<dots> \<le> prio h 0"
      using less.IH [of "parent k"] less.prems parent_less [of k] False by auto
    finally show ?thesis .
  qed simp
qed

lemma ordered_up_inv: "heap_ordered h (length h) \<Longrightarrow> i < length h \<Longrightarrow> up_inv h i"
  unfolding up_inv_def heap_ordered_def by (metis order_trans)

section \<open>Correctness of the heap operations\<close>

lemma heap_Push_correct:
  assumes "heap_ordered h (length h)" and "indexed h"
  shows "heap_ordered (heap_Push h x) (Suc (length h))" "length (heap_Push h x) = Suc (length h)"
    "image_mset payload (mset (heap_Push h x)) = add_mset (payload x) (image_mset payload (mset h))"
    "indexed (heap_Push h x)"
proof -
  let ?h = "pq_Push h x"
  have len: "length ?h = Suc (length h)" by (simp add: pq_Push_def)
  have idx: "indexed ?h" using assms(2) by (auto simp: indexed_def pq_Push_def nth_append less_Suc_eq)
  have "up_inv ?h (length h)"
    unfolding up_inv_def
  proof (intro conjI allI impI)
    fix k assume k: "0 < k \<and> k < length ?h \<and> k \<noteq> length h"
    then have "k < length h" "parent k < length h" using len parent_less [of k] by auto
    with k assms(1) show "prio ?h k \<le> prio ?h (parent k)"
      by (simp add: pq_Push_def nth_append heap_ordered_def)
  next
    fix k assume k: "0 < k \<and> k < length ?h \<and> parent k = length h \<and> 0 < length h"
    then have False using len parent_less [of k] by auto
    then show "prio ?h k \<le> prio ?h (parent (length h))" ..
  qed
  from heap_up_correct [OF _ this] len idx
  show "heap_ordered (heap_Push h x) (Suc (length h))" "length (heap_Push h x) = Suc (length h)"
    "image_mset payload (mset (heap_Push h x)) = add_mset (payload x) (image_mset payload (mset h))"
    "indexed (heap_Push h x)"
    by (auto simp: heap_Push_def Let_def pq_Push_def)
qed

lemma heap_Pop_correct:
  assumes h: "heap_ordered h (length h)" "indexed h" "h \<noteq> []"
    and pop: "heap_Pop h = (item, h')"
  shows "payload item = payload (h ! 0)" "heap_ordered h' (length h')" "Suc (length h') = length h"
    "add_mset (payload item) (image_mset payload (mset h')) = image_mset payload (mset h)" "indexed h'"
proof -
  define n where "n = length h - 1"
  define s where "s = pq_Swap h 0 n"
  define d where "d = fst (heap_down s 0 n)"
  have n: "n < length h" "0 < length h" "length h = Suc n" using h(3) by (auto simp: n_def)
  have s: "length s = length h" "indexed s" "image_mset payload (mset s) = image_mset payload (mset h)"
    using n h(2) by (auto simp: s_def)
  have "down_inv s 0 n"
    unfolding down_inv_def
  proof (intro conjI allI impI)
    fix k assume k: "0 < k \<and> k < n \<and> parent k \<noteq> 0"
    then have "parent k < k" using parent_less by blast
    with k n h(1) show "prio s k \<le> prio s (parent k)"
      by (auto simp: s_def heap_ordered_def)
  qed auto
  then have "heap_ordered d n" using heap_down_ordered [of n s 0] n s(1) by (simp add: d_def)
  note frame = heap_down_frame [of n s 0, folded d_def]
  have d: "length d = length h" "indexed d" "image_mset payload (mset d) = image_mset payload (mset h)"
    "d ! n = s ! n"
    using frame n s by auto
  have pd: "(last d)\<lparr>pi_index := -1\<rparr> = item" "butlast d = h'"
    using pop by (auto simp: heap_Pop_def pq_Pop_def Let_def d_def s_def n_def)
  have "d \<noteq> []" using d(1) n(2) by auto
  then have d_split: "d = butlast d @ [last d]" by simp
  have "last d = s ! n" using d(1,4) n by (metis diff_Suc_1 last_conv_nth length_0_conv less_irrefl_nat)
  moreover have "payload (s ! n) = payload (h ! 0)" using n by (simp add: s_def nth_pq_Swap)
  ultimately show item: "payload item = payload (h ! 0)" using pd(1) by auto
  have lh': "length h' = n" using pd(2) d(1) n(3) by auto
  then show "Suc (length h') = length h" using n(3) by simp
  have nth: "k < n \<Longrightarrow> h' ! k = d ! k" for k using pd(2) lh' d(1) by (auto simp: nth_butlast)
  show "heap_ordered h' (length h')"
    using \<open>heap_ordered d n\<close> nth lh' parent_less unfolding heap_ordered_def
    by (metis less_trans)
  show "indexed h'" using d(1,2) nth lh' n(3) by (auto simp: indexed_def)
  have "image_mset payload (mset d) = add_mset (payload (last d)) (image_mset payload (mset h'))"
    using arg_cong [OF d_split, of "\<lambda>x. image_mset payload (mset x)"] pd(2) by simp
  then show "add_mset (payload item) (image_mset payload (mset h')) = image_mset payload (mset h)"
    using d(3) pd(1) by auto
qed

definition fix_inv :: "'a PriorityItem list \<Rightarrow> nat \<Rightarrow> bool" where
  "fix_inv h i \<longleftrightarrow>
     (\<forall>k. 0 < k \<and> k < length h \<and> k \<noteq> i \<and> parent k \<noteq> i \<longrightarrow> prio h k \<le> prio h (parent k)) \<and>
     (\<forall>k. 0 < k \<and> k < length h \<and> parent k = i \<and> 0 < i \<longrightarrow> prio h k \<le> prio h (parent i))"

lemma heap_Fix_correct:
  assumes i: "i < length h" and inv: "fix_inv h i"
  shows "heap_ordered (heap_Fix h i) (length h) \<and> length (heap_Fix h i) = length h \<and>
     image_mset payload (mset (heap_Fix h i)) = image_mset payload (mset h) \<and>
     (indexed h \<longrightarrow> indexed (heap_Fix h i))"
proof (cases "0 < i \<and> prio h (parent i) < prio h i")
  case True
  have up: "up_inv h i"
    unfolding up_inv_def
  proof (intro conjI allI impI)
    fix k assume k: "0 < k \<and> k < length h \<and> k \<noteq> i"
    show "prio h k \<le> prio h (parent k)"
    proof (cases "parent k = i")
      case pk: True
      with k inv True have "prio h k \<le> prio h (parent i)" by (auto simp: fix_inv_def)
      with True pk show ?thesis by simp
    next
      case False
      with k inv show ?thesis by (auto simp: fix_inv_def)
    qed
  qed (use inv in \<open>auto simp: fix_inv_def\<close>)
  have "heap_down h i (length h) = (h, i)"
  proof (cases "length h \<le> 2 * i + 1")
    case False
    then have c: "0 < big_child h i (length h)" "big_child h i (length h) < length h"
      "parent (big_child h i (length h)) = i"
      using big_child_props(1-3) [of i "length h" h] by auto
    then have "prio h (big_child h i (length h)) \<le> prio h (parent i)"
      using inv True by (auto simp: fix_inv_def)
    with True have "\<not> pq_Less h (big_child h i (length h)) i" by (auto simp: pq_Less_def)
    then show ?thesis by (simp add: heap_down_unfold [of h i])
  qed (simp add: heap_down_unfold [of h i])
  then have "heap_Fix h i = heap_up h i" by (simp add: heap_Fix_def)
  with heap_up_correct [OF i up] show ?thesis by simp
next
  case False
  have "down_inv h i (length h)"
    unfolding down_inv_def
  proof (intro conjI allI impI)
    fix k assume k: "0 < k \<and> k < length h \<and> parent k \<noteq> i"
    show "prio h k \<le> prio h (parent k)"
    proof (cases "k = i")
      case True
      with False k show ?thesis by auto
    qed (use k inv in \<open>auto simp: fix_inv_def\<close>)
  qed (use inv in \<open>auto simp: fix_inv_def\<close>)
  then have ord: "heap_ordered (fst (heap_down h i (length h))) (length h)"
    by (simp add: heap_down_ordered)
  note frame = heap_down_frame [of "length h" h i]
  obtain h1 i1 where d: "heap_down h i (length h) = (h1, i1)" by fastforce
  show ?thesis
    using ord frame d i heap_up_correct [of i h1] ordered_up_inv [of h1 i]
    by (auto simp: heap_Fix_def)
qed

section \<open>The queue as a priority queue\<close>

text \<open>
  What a client of the queue may rely on, over the multiset of the values with their priorities:
  \<open>Enqueue\<close> adds an element, \<open>Dequeue\<close> removes one of maximal priority and fails on the empty queue
  only, \<open>Len\<close> counts.
\<close>

locale prio_queue =
  fixes enqueue :: "'q \<Rightarrow> 'a \<Rightarrow> int \<Rightarrow> 'q" and dequeue :: "'q \<Rightarrow> 'a option \<times> 'q"
    and len :: "'q \<Rightarrow> nat" and content :: "'q \<Rightarrow> ('a \<times> int) multiset" and invar :: "'q \<Rightarrow> bool"
  assumes content_enqueue: "invar q \<Longrightarrow> content (enqueue q v p) = add_mset (v, p) (content q)"
    and invar_enqueue: "invar q \<Longrightarrow> invar (enqueue q v p)"
    and len_content: "invar q \<Longrightarrow> len q = size (content q)"
    and dequeue_empty: "invar q \<Longrightarrow> content q = {#} \<Longrightarrow> dequeue q = (None, q)"
    and dequeue_max: "invar q \<Longrightarrow> content q \<noteq> {#} \<Longrightarrow>
       \<exists>v p q'. dequeue q = (Some v, q') \<and> invar q' \<and> content q = add_mset (v, p) (content q') \<and>
         (\<forall>w r. (w, r) \<in># content q' \<longrightarrow> r \<le> p)"

text \<open>Dequeuing until the queue is empty.\<close>

fun drain :: "('q \<Rightarrow> 'a option \<times> 'q) \<Rightarrow> nat \<Rightarrow> 'q \<Rightarrow> 'a list" where
  "drain deq 0 q = []"
| "drain deq (Suc n) q =
     (case deq q of (None, q') \<Rightarrow> [] | (Some v, q') \<Rightarrow> v # drain deq n q')"

context prio_queue
begin

lemma len_zero: "invar q \<Longrightarrow> len q = 0 \<longleftrightarrow> content q = {#}"
  by (simp add: len_content)

lemma len_enqueue: "invar q \<Longrightarrow> len (enqueue q v p) = Suc (len q)"
  by (simp add: len_content content_enqueue invar_enqueue)

lemma dequeue_len: "invar q \<Longrightarrow> dequeue q = (Some v, q') \<Longrightarrow> len q = Suc (len q') \<and> invar q'"
  using dequeue_max [of q] dequeue_empty [of q] by (cases "content q = {#}") (auto simp: len_content)

lemma drain_sorted:
  "invar q \<Longrightarrow> \<exists>ps. length ps = len q \<and> sorted_wrt (\<ge>) ps \<and>
     length (drain dequeue (len q) q) = len q \<and>
     mset (zip (drain dequeue (len q) q) ps) = content q"
proof (induction "len q" arbitrary: q)
  case 0
  then show ?case by (auto simp: len_content intro: exI [of _ "[]"])
next
  case (Suc n)
  then have "content q \<noteq> {#}" by (auto simp: len_content)
  with dequeue_max [OF Suc.prems] obtain v p q' where
    d: "dequeue q = (Some v, q')" "invar q'" "content q = add_mset (v, p) (content q')"
       "\<And>w r. (w, r) \<in># content q' \<Longrightarrow> r \<le> p" by blast
  with Suc have n: "n = len q'" by (simp add: len_content)
  from Suc.hyps(1) [OF n d(2)] obtain ps where
    ps: "length ps = len q'" "sorted_wrt (\<ge>) ps" "length (drain dequeue (len q') q') = len q'"
        "mset (zip (drain dequeue (len q') q') ps) = content q'" by blast
  have "r \<le> p" if "r \<in> set ps" for r
  proof -
    from that ps(1,3) obtain w where "(w, r) \<in> set (zip (drain dequeue (len q') q') ps)"
      by (metis in_set_impl_in_set_zip2)
    then have "(w, r) \<in># content q'" using ps(4) by (metis set_mset_mset)
    then show ?thesis by (rule d(4))
  qed
  with ps d n Suc.hyps(2) show ?case
    by (intro exI [of _ "p # ps"]) (simp flip: Suc.hyps(2))
qed

end

definition pq_content :: "'a PriorityQueue \<Rightarrow> ('a \<times> int) multiset" where
  "pq_content q = image_mset (\<lambda>it. (pi_Value it, pi_Priority it)) (mset (pq_items q))"

definition pq_inv :: "'a PriorityQueue \<Rightarrow> bool" where
  "pq_inv q \<longleftrightarrow> heap_ordered (pq_items q) (length (pq_items q)) \<and> indexed (pq_items q) \<and>
     distinct (map pi_ptr (pq_items q)) \<and> (\<forall>it\<in>set (pq_items q). pi_ptr it < pq_next q)"

text \<open>Everything but the positions is a function of the multiset of payloads.\<close>

lemma content_payload:
  "pq_content q = image_mset snd (image_mset payload (mset (pq_items q)))"
  by (simp add: pq_content_def payload_def multiset.map_comp comp_def)

lemma ptrs_payload: "mset (map pi_ptr h) = image_mset fst (image_mset payload (mset h))"
  by (simp add: payload_def multiset.map_comp comp_def)

lemma distinct_ptrs_cong:
  assumes "image_mset payload (mset h) = image_mset payload (mset h')"
  shows "distinct (map pi_ptr h) = distinct (map pi_ptr h')" and "pi_ptr ` set h = pi_ptr ` set h'"
proof -
  have "mset (map pi_ptr h) = mset (map pi_ptr h')" by (simp only: ptrs_payload assms)
  from mset_eq_imp_distinct_iff [OF this] mset_eq_setD [OF this]
  show "distinct (map pi_ptr h) = distinct (map pi_ptr h')" "pi_ptr ` set h = pi_ptr ` set h'"
    by simp_all
qed

lemma NewPriorityQueue_inv: "pq_inv NewPriorityQueue" "pq_content NewPriorityQueue = {#}"
  by (simp_all add: NewPriorityQueue_def heap_Init_def pq_inv_def pq_content_def heap_ordered_def
      indexed_def)

lemma Enqueue_correct:
  assumes "pq_inv q"
  shows "pq_inv (snd (pq_Enqueue q v p))"
    "pq_content (snd (pq_Enqueue q v p)) = add_mset (v, p) (pq_content q)"
proof -
  let ?it = "\<lparr>pi_ptr = pq_next q, pi_Value = v, pi_Priority = p, pi_index = 0\<rparr>"
  let ?h = "heap_Push (pq_items q) ?it"
  have q: "heap_ordered (pq_items q) (length (pq_items q))" "indexed (pq_items q)"
    "distinct (map pi_ptr (pq_items q))" "\<forall>it\<in>set (pq_items q). pi_ptr it < pq_next q"
    using assms by (auto simp: pq_inv_def)
  note push = heap_Push_correct [OF q(1,2), of ?it]
  have pay: "image_mset payload (mset ?h) = image_mset payload (mset (?it # pq_items q))"
    using push(3) by simp
  have ptr: "distinct (map pi_ptr ?h)" "pi_ptr ` set ?h = insert (pq_next q) (pi_ptr ` set (pq_items q))"
    using distinct_ptrs_cong [OF pay] q(3,4) by (auto dest: bspec)
  have "pi_ptr it < Suc (pq_next q)" if "it \<in> set ?h" for it
  proof -
    have "pi_ptr it \<in> insert (pq_next q) (pi_ptr ` set (pq_items q))" using ptr(2) that by blast
    then show ?thesis using q(4) by (auto intro: less_SucI)
  qed
  with push ptr(1) show "pq_inv (snd (pq_Enqueue q v p))"
    by (auto simp: pq_inv_def pq_Enqueue_def Let_def)
  show "pq_content (snd (pq_Enqueue q v p)) = add_mset (v, p) (pq_content q)"
    using pay by (simp add: content_payload pq_Enqueue_def Let_def payload_def del: image_mset_add_mset)
      (simp add: payload_def)
qed

lemma Dequeue_correct:
  assumes "pq_inv q" and "pq_items q \<noteq> []"
  shows "\<exists>v p q'. pq_Dequeue q = (Some v, q') \<and> pq_inv q' \<and>
     pq_content q = add_mset (v, p) (pq_content q') \<and> (\<forall>w r. (w, r) \<in># pq_content q \<longrightarrow> r \<le> p)"
proof -
  have q: "heap_ordered (pq_items q) (length (pq_items q))" "indexed (pq_items q)"
    "distinct (map pi_ptr (pq_items q))" "\<forall>it\<in>set (pq_items q). pi_ptr it < pq_next q"
    using assms by (auto simp: pq_inv_def)
  obtain item h' where pop: "heap_Pop (pq_items q) = (item, h')" by fastforce
  note P = heap_Pop_correct [OF q(1,2) assms(2) pop]
  let ?q = "q\<lparr>pq_items := h'\<rparr>"
  have deq: "pq_Dequeue q = (Some (pi_Value item), ?q)"
    using assms(2) pop by (simp add: pq_Dequeue_def pq_Len_def)
  have pay: "image_mset payload (mset (item # h')) = image_mset payload (mset (pq_items q))"
    using P(4) by simp
  have ptr: "distinct (map pi_ptr h')" "pi_ptr ` set h' \<subseteq> pi_ptr ` set (pq_items q)"
    using distinct_ptrs_cong [OF pay] q(3) by auto
  have "pi_ptr it < pq_next q" if "it \<in> set h'" for it
    using ptr(2) that q(4) by auto
  with P(2,5) ptr(1) have inv: "pq_inv ?q" by (auto simp: pq_inv_def)
  have cont: "pq_content q = add_mset (pi_Value item, pi_Priority item) (pq_content ?q)"
    unfolding content_payload pay [symmetric] by (simp add: payload_def)
  have "pi_Priority it \<le> pi_Priority item" if "it \<in> set (pq_items q)" for it
  proof -
    from that obtain k where "k < length (pq_items q)" "it = pq_items q ! k" by (auto simp: in_set_conv_nth)
    then have "pi_Priority it \<le> prio (pq_items q) 0" using ordered_root_max [OF q(1)] by auto
    also have "\<dots> = pi_Priority item" using P(1) by (auto simp: payload_def)
    finally show ?thesis .
  qed
  then have "\<forall>w r. (w, r) \<in># pq_content q \<longrightarrow> r \<le> pi_Priority item"
    by (auto simp: pq_content_def)
  with deq inv cont show ?thesis by blast
qed

interpretation heap_queue: prio_queue "\<lambda>q v p. snd (pq_Enqueue q v p)" pq_Dequeue pq_Len pq_content pq_inv
proof (unfold_locales, goal_cases)
  case (1 q v p)
  then show ?case by (rule Enqueue_correct(2))
next
  case (2 q v p)
  then show ?case by (rule Enqueue_correct(1))
next
  case (3 q)
  then show ?case by (simp add: pq_Len_def pq_content_def)
next
  case (4 q)
  then show ?case by (simp add: pq_Dequeue_def pq_Len_def pq_content_def)
next
  case (5 q)
  then have "pq_items q \<noteq> []" by (auto simp: pq_content_def)
  with Dequeue_correct [OF 5(1)] show ?case by fastforce
qed

lemma find_ptr:
  assumes "indexed h" and "distinct (map pi_ptr h)" and "pq_find h ptr = Some it"
  shows "\<exists>i<length h. h ! i = it \<and> pi_ptr it = ptr \<and> nat (pi_index it) = i \<and>
     (\<forall>k<length h. pi_ptr (h ! k) = ptr \<longleftrightarrow> k = i)"
proof -
  from assms(3) obtain i where i: "i < length h" "h ! i = it" "pi_ptr it = ptr"
    by (auto simp: pq_find_def find_Some_iff)
  moreover have "pi_ptr (h ! k) = ptr \<longleftrightarrow> k = i" if "k < length h" for k
    using nth_eq_iff_index_eq [OF assms(2), of k i] that i by auto
  ultimately show ?thesis using assms(1) by (auto simp: indexed_def)
qed

lemma Update_correct:
  assumes inv: "pq_inv q" and f: "pq_find (pq_items q) ptr = Some it"
  shows "pq_inv (pq_Update q ptr v p)" and
    "image_mset payload (mset (pq_items (pq_Update q ptr v p))) =
       add_mset (ptr, v, p) (image_mset payload (mset (pq_items q)) - {#payload it#})"
proof -
  let ?h = "pq_items q"
  let ?f = "\<lambda>it. if pi_ptr it = ptr then it\<lparr>pi_Value := v, pi_Priority := p\<rparr> else it"
  let ?g = "map ?f ?h"
  have q: "heap_ordered ?h (length ?h)" "indexed ?h" "distinct (map pi_ptr ?h)"
    "\<forall>it\<in>set ?h. pi_ptr it < pq_next q" using inv by (auto simp: pq_inv_def)
  from find_ptr [OF q(2,3) f] obtain i where i: "i < length ?h" "?h ! i = it" "pi_ptr it = ptr"
    "nat (pi_index it) = i" "\<And>k. k < length ?h \<Longrightarrow> pi_ptr (?h ! k) = ptr \<longleftrightarrow> k = i" by auto
  have g: "?g = ?h[i := it\<lparr>pi_Value := v, pi_Priority := p\<rparr>]"
    using i by (intro nth_equalityI) (auto simp: nth_list_update)
  have same: "prio ?g k = prio ?h k" if "k < length ?h" "k \<noteq> i" for k using that i(5) by simp
  have "fix_inv ?g i"
    unfolding fix_inv_def
  proof (intro conjI allI impI)
    fix k assume k: "0 < k \<and> k < length ?g \<and> k \<noteq> i \<and> parent k \<noteq> i"
    then have pk: "parent k < length ?h" using parent_less [of k] by auto
    have "prio ?h k \<le> prio ?h (parent k)" using q(1) k by (auto simp: heap_ordered_def)
    with same [of k] same [OF pk] k show "prio ?g k \<le> prio ?g (parent k)" by auto
  next
    fix k assume k: "0 < k \<and> k < length ?g \<and> parent k = i \<and> 0 < i"
    then have pk: "i < k" "parent i < i" using parent_less by blast+
    have "prio ?h k \<le> prio ?h i" "prio ?h i \<le> prio ?h (parent i)"
      using q(1) k i(1) by (auto simp: heap_ordered_def)
    with same [of k] same [of "parent i"] k pk i(1) show "prio ?g k \<le> prio ?g (parent i)" by auto
  qed
  moreover have ig: "i < length ?g" "indexed ?g" using i(1) q(2) by (auto simp: indexed_def)
  ultimately have fx: "heap_ordered (heap_Fix ?g i) (length ?g)" "length (heap_Fix ?g i) = length ?g"
    "image_mset payload (mset (heap_Fix ?g i)) = image_mset payload (mset ?g)" "indexed (heap_Fix ?g i)"
    using heap_Fix_correct [of i ?g] by auto
  have u: "pq_Update q ptr v p = q\<lparr>pq_items := heap_Fix ?g i\<rparr>"
    using f i(4) by (simp add: pq_Update_def Let_def)
  have "map pi_ptr ?g = map pi_ptr ?h" by auto
  then have "distinct (map pi_ptr ?g)" "pi_ptr ` set ?g = pi_ptr ` set ?h"
    using q(3) by (metis, metis list.set_map)
  with distinct_ptrs_cong [OF fx(3)] have
    ptr: "distinct (map pi_ptr (heap_Fix ?g i))" "pi_ptr ` set (heap_Fix ?g i) = pi_ptr ` set ?h" by auto
  have "pi_ptr x < pq_next q" if "x \<in> set (heap_Fix ?g i)" for x
  proof -
    have "pi_ptr x \<in> pi_ptr ` set ?h" using imageI [OF that, of pi_ptr] ptr(2) by simp
    then show ?thesis using q(4) by auto
  qed
  with fx ptr(1) show "pq_inv (pq_Update q ptr v p)" by (auto simp: pq_inv_def u)
  show "image_mset payload (mset (pq_items (pq_Update q ptr v p))) =
       add_mset (ptr, v, p) (image_mset payload (mset ?h) - {#payload it#})"
  proof -
    have it: "it \<in> set ?h" using i(1,2) nth_mem by blast
    have "image_mset payload (mset ?g) = add_mset (ptr, v, p) (image_mset payload (mset ?h - {#it#}))"
      using i by (simp add: g mset_update payload_def)
    with it fx(3) show ?thesis by (simp add: u image_mset_Diff)
  qed
qed

section \<open>Claims\<close>

fun pq_enqueue_all :: "'a PriorityQueue \<Rightarrow> ('a \<times> int) list \<Rightarrow> 'a PriorityQueue" where
  "pq_enqueue_all q [] = q"
| "pq_enqueue_all q ((v, p) # xs) = pq_enqueue_all (snd (pq_Enqueue q v p)) xs"

lemma enqueue_all_correct:
  "pq_inv q \<Longrightarrow> pq_inv (pq_enqueue_all q xs) \<and> pq_content (pq_enqueue_all q xs) = mset xs + pq_content q"
  by (induction q xs rule: pq_enqueue_all.induct) (auto simp: Enqueue_correct)

text \<open>
  C17. Enqueuing any list of values with priorities into a new queue and dequeuing until it is empty
  gives every value exactly once, in descending order of priority.
\<close>

theorem priority_queue_sorts:
  "\<exists>ps. sorted_wrt (\<ge>) ps \<and>
     length (drain pq_Dequeue (length xs) (pq_enqueue_all NewPriorityQueue xs)) = length xs \<and>
     length ps = length xs \<and>
     mset (zip (drain pq_Dequeue (length xs) (pq_enqueue_all NewPriorityQueue xs)) ps) = mset xs"
proof -
  have inv: "pq_inv (pq_enqueue_all NewPriorityQueue xs)"
    and cont: "pq_content (pq_enqueue_all NewPriorityQueue xs) = mset xs"
    using enqueue_all_correct [OF NewPriorityQueue_inv(1), of xs] NewPriorityQueue_inv(2) by auto
  then have "pq_Len (pq_enqueue_all NewPriorityQueue xs) = length xs"
    by (simp add: heap_queue.len_content)
  with heap_queue.drain_sorted [OF inv] cont show ?thesis by metis
qed

text \<open>
  C18. \<open>Update\<close> through an item's pointer keeps the heap order, the index bookkeeping and the
  uniqueness of pointers, and replaces exactly that item's value and priority.
\<close>

theorem Update_preserves_heap:
  assumes "pq_inv q" and "pq_find (pq_items q) ptr = Some it"
  shows "pq_inv (pq_Update q ptr v p) \<and>
     pq_content (pq_Update q ptr v p) =
       add_mset (v, p) (pq_content q - {#(pi_Value it, pi_Priority it)#})"
proof -
  from assms(2) have "it \<in> set (pq_items q)" by (auto simp: pq_find_def find_Some_iff)
  then have "{#payload it#} \<subseteq># image_mset payload (mset (pq_items q))" by auto
  then have "image_mset snd (image_mset payload (mset (pq_items q)) - {#payload it#}) =
      pq_content q - {#(pi_Value it, pi_Priority it)#}"
    by (simp add: content_payload image_mset_Diff payload_def)
  with Update_correct [OF assms] show ?thesis by (simp add: content_payload)
qed

theorem Update_preserves_heap_witness:
  "pq_content (pq_Update (pq_enqueue_all NewPriorityQueue [(10, 1), (20, 5)]) 0 (11 :: int) 9) =
     {#(11, 9), (20, 5)#}"
proof -
  let ?q = "pq_enqueue_all NewPriorityQueue [(10 :: int, 1), (20, 5)]"
  have inv: "pq_inv ?q" "pq_content ?q = {#(10, 1), (20, 5)#}"
    using enqueue_all_correct [OF NewPriorityQueue_inv(1), of "[(10 :: int, 1), (20, 5)]"]
      NewPriorityQueue_inv(2) by (simp_all del: pq_enqueue_all.simps add: add_mset_commute)
  have f: "pq_find (pq_items ?q) 0 =
      Some \<lparr>pi_ptr = 0, pi_Value = 10, pi_Priority = 1, pi_index = 1\<rparr>"
    by code_simp
  show ?thesis using Update_preserves_heap [OF inv(1) f, of 11 9] inv(2) by simp
qed

end
