(* ===== verification/Sync_Root.thy ===== *)
theory Sync_Root
  imports Zeus_Prelude
begin

text \<open>
  The interfaces of \<open>internal/core/syncv2/variable.go\<close> and \<open>root.go\<close>: what every synchronized
  variable promises (\<open>Root\<close>: \<open>Get\<close>, \<open>Set\<close>, \<open>Version\<close>, \<open>IsDirty\<close>, \<open>MarkClean\<close>) and what the
  channel variables add (\<open>ChannelRoot\<close>: \<open>Send\<close>, \<open>Receive\<close>). Each variable of the later theories is
  an interpretation of one of these locales.
\<close>

section \<open>Root\<close>

text \<open>
  The writes of a client, one after the other: \<open>None\<close> is \<open>MarkClean\<close>, \<open>Some v\<close> is \<open>Set v\<close>.
\<close>

fun run_writes :: "('s \<Rightarrow> 'a \<Rightarrow> 's outcome) \<Rightarrow> ('s \<Rightarrow> 's) \<Rightarrow> 's \<Rightarrow> 'a option list \<Rightarrow> 's outcome" where
  "run_writes set_op clean s [] = Ret s"
| "run_writes set_op clean s (None # ws) = run_writes set_op clean (clean s) ws"
| "run_writes set_op clean s (Some v # ws) =
     bind_outcome (set_op s v) (\<lambda>s'. run_writes set_op clean s' ws)"

definition sets_of :: "'a option list \<Rightarrow> 'a list" where
  "sets_of ws = map the (filter (\<lambda>w. w \<noteq> None) ws)"

text \<open>The dirty flag a client sees after its writes.\<close>

definition dirty_after :: "bool \<Rightarrow> 'a option list \<Rightarrow> bool" where
  "dirty_after d ws = (if ws = [] then d else last ws \<noteq> None)"

lemma sets_of_simps [simp]:
  "sets_of [] = []" "sets_of (None # ws) = sets_of ws" "sets_of (Some v # ws) = v # sets_of ws"
  by (simp_all add: sets_of_def)

locale sync_root =
  fixes get :: "'s \<Rightarrow> 'a outcome" and set_op :: "'s \<Rightarrow> 'a \<Rightarrow> 's outcome"
    and version :: "'s \<Rightarrow> uint64" and dirty :: "'s \<Rightarrow> bool" and clean :: "'s \<Rightarrow> 's"
    and invar :: "'s \<Rightarrow> bool"
  assumes set_ok: "invar s \<Longrightarrow> \<exists>s'. set_op s v = Ret s' \<and> invar s' \<and> get s' = Ret v \<and>
      version s' = version s + 1 \<and> dirty s'"
    and clean_invar: "invar s \<Longrightarrow> invar (clean s)"
    and clean_get: "invar s \<Longrightarrow> get (clean s) = get s"
    and clean_version: "invar s \<Longrightarrow> version (clean s) = version s"
    and clean_dirty: "invar s \<Longrightarrow> \<not> dirty (clean s)"
begin

lemma run_writes_ok:
  "invar s \<Longrightarrow> \<exists>s'. run_writes set_op clean s ws = Ret s' \<and> invar s' \<and>
     get s' = (if sets_of ws = [] then get s else Ret (last (sets_of ws))) \<and>
     version s' = version s + of_nat (length (sets_of ws)) \<and>
     dirty s' = dirty_after (dirty s) ws"
proof (induction ws arbitrary: s)
  case Nil
  then show ?case by (simp add: dirty_after_def)
next
  case (Cons w ws)
  show ?case
  proof (cases w)
    case None
    with Cons.IH [OF clean_invar [OF Cons.prems]] Cons.prems show ?thesis
      by (auto simp: clean_get clean_version clean_dirty dirty_after_def)
  next
    case (Some v)
    from set_ok [OF Cons.prems, of v] obtain s1 where
      s1: "set_op s v = Ret s1" "invar s1" "get s1 = Ret v" "version s1 = version s + 1" "dirty s1"
      by blast
    from Cons.IH [OF s1(2)] s1 Some show ?thesis
      by (auto simp: dirty_after_def)
  qed
qed

end

section \<open>AtomicRoot\<close>

text \<open>What \<open>Swap\<close> adds: it does what \<open>Set\<close> does and returns the value it replaced.\<close>

locale atomic_root = sync_root +
  fixes swap :: "'s \<Rightarrow> 'a \<Rightarrow> 'a outcome \<times> 's"
  assumes swap_set: "invar s \<Longrightarrow> set_op s v = Ret (snd (swap s v))"
    and swap_old: "invar s \<Longrightarrow> fst (swap s v) = get s"

fun swap_all :: "('s \<Rightarrow> 'a \<Rightarrow> 'a outcome \<times> 's) \<Rightarrow> 's \<Rightarrow> 'a list \<Rightarrow> 'a outcome list \<times> 's" where
  "swap_all swp s [] = ([], s)"
| "swap_all swp s (v # vs) =
     (let (old, s') = swp s v; (olds, s'') = swap_all swp s' vs in (old # olds, s''))"

context atomic_root
begin

text \<open>A chain of swaps hands every value on exactly once: each returns what the one before it stored.\<close>

lemma swap_chain:
  "invar s \<Longrightarrow> swap_all swap s vs = (olds, s') \<Longrightarrow>
     invar s' \<and> olds @ [get s'] = get s # map Ret vs \<and> version s' = version s + of_nat (length vs)"
proof (induction vs arbitrary: s olds s')
  case Nil
  then show ?case by simp
next
  case (Cons v vs)
  obtain old s1 where sw: "swap s v = (old, s1)" by (cases "swap s v")
  obtain olds1 s2 where r: "swap_all swap s1 vs = (olds1, s2)" by (cases "swap_all swap s1 vs")
  from swap_set [OF Cons.prems(1), of v] sw set_ok [OF Cons.prems(1), of v] have
    s1: "invar s1" "get s1 = Ret v" "version s1 = version s + 1" by auto
  from Cons.IH [OF s1(1) r] s1 sw r Cons.prems swap_old [OF Cons.prems(1), of v] show ?case by auto
qed

end

section \<open>ShardedRoot\<close>

text \<open>
  A sharded variable stores one value per shard and sends each key to one shard. A write through a key
  is seen by exactly the keys of that shard; \<open>Get\<close> and \<open>Set\<close> use a fixed key.
\<close>

locale sharded_root =
  fixes get_shard :: "'s \<Rightarrow> 'k \<Rightarrow> 'a outcome" and set_shard :: "'s \<Rightarrow> 'k \<Rightarrow> 'a \<Rightarrow> 's outcome"
    and shard_of :: "'s \<Rightarrow> 'k \<Rightarrow> nat" and default_key :: 'k
    and version :: "'s \<Rightarrow> uint64" and dirty :: "'s \<Rightarrow> bool" and clean :: "'s \<Rightarrow> 's" and invar :: "'s \<Rightarrow> bool"
  assumes set_shard_ok: "invar s \<Longrightarrow> \<exists>s'. set_shard s k v = Ret s' \<and> invar s' \<and> shard_of s' = shard_of s \<and>
      (\<forall>k'. get_shard s' k' = (if shard_of s k' = shard_of s k then Ret v else get_shard s k')) \<and>
      version s' = version s + 1 \<and> dirty s'"
    and clean_shards: "invar s \<Longrightarrow> invar (clean s) \<and> get_shard (clean s) = get_shard s \<and>
      version (clean s) = version s \<and> \<not> dirty (clean s)"

sublocale sharded_root \<subseteq> root: sync_root "\<lambda>s. get_shard s default_key" "\<lambda>s v. set_shard s default_key v"
  version dirty clean invar
proof unfold_locales
  fix s v
  assume "invar s"
  then show "\<exists>s'. set_shard s default_key v = Ret s' \<and> invar s' \<and> get_shard s' default_key = Ret v \<and>
      version s' = version s + 1 \<and> dirty s'"
    using set_shard_ok [of s default_key v] by auto
qed (simp_all add: clean_shards)

fun write_shards :: "('s \<Rightarrow> 'k \<Rightarrow> 'a \<Rightarrow> 's outcome) \<Rightarrow> 's \<Rightarrow> ('k \<times> 'a) list \<Rightarrow> 's outcome" where
  "write_shards st s [] = Ret s"
| "write_shards st s ((k, v) # ws) = bind_outcome (st s k v) (\<lambda>s'. write_shards st s' ws)"

context sharded_root
begin

lemma write_shards_ok:
  "invar s \<Longrightarrow> \<exists>s'. write_shards set_shard s ws = Ret s' \<and> invar s' \<and> shard_of s' = shard_of s \<and>
     (\<forall>k. get_shard s' k =
        (case filter (\<lambda>w. shard_of s (fst w) = shard_of s k) ws of
           [] \<Rightarrow> get_shard s k | w # rest \<Rightarrow> Ret (snd (last (w # rest))))) \<and>
     version s' = version s + of_nat (length ws)"
proof (induction ws arbitrary: s)
  case Nil
  then show ?case by simp
next
  case (Cons w ws)
  obtain k v where w: "w = (k, v)" by (cases w)
  from set_shard_ok [OF Cons.prems, of k v] obtain s1 where s1: "set_shard s k v = Ret s1" "invar s1"
    "shard_of s1 = shard_of s" "\<And>k'. get_shard s1 k' = (if shard_of s k' = shard_of s k then Ret v else get_shard s k')"
    "version s1 = version s + 1" by blast
  from Cons.IH [OF s1(2)] s1(3) obtain s2 where s2: "write_shards set_shard s1 ws = Ret s2" "invar s2"
    "shard_of s2 = shard_of s" "\<And>k'. get_shard s2 k' = (case filter (\<lambda>w. shard_of s (fst w) = shard_of s k') ws of
           [] \<Rightarrow> get_shard s1 k' | w # rest \<Rightarrow> Ret (snd (last (w # rest))))"
    "version s2 = version s1 + of_nat (length ws)" by auto
  have "get_shard s2 k' = (case filter (\<lambda>w. shard_of s (fst w) = shard_of s k') (w # ws) of
           [] \<Rightarrow> get_shard s k' | w # rest \<Rightarrow> Ret (snd (last (w # rest))))" for k'
    using s2(4) [of k'] s1(4) [of k'] w by (auto split: list.split)
  with s1 s2 w show ?case by simp
qed

end

section \<open>ChannelRoot\<close>

text \<open>
  A channel variable whose pending values form a queue: \<open>Receive\<close> takes the oldest one, makes it the
  current value and leaves version and dirty flag alone; on an empty open channel it reports
  \<open>false\<close> and changes nothing. \<open>invar\<close> may exclude closed channels.
\<close>

locale fifo_channel = sync_root +
  fixes receive :: "'s \<Rightarrow> ('a option \<times> 's) outcome" and contents :: "'s \<Rightarrow> 'a list"
  assumes receive_cons: "invar s \<Longrightarrow> contents s = v # vs \<Longrightarrow>
      \<exists>s'. receive s = Ret (Some v, s') \<and> invar s' \<and> contents s' = vs \<and> get s' = Ret v \<and>
        version s' = version s \<and> dirty s' = dirty s"
    and receive_empty: "invar s \<Longrightarrow> contents s = [] \<Longrightarrow> receive s = Ret (None, s)"

fun receive_all :: "('s \<Rightarrow> ('a option \<times> 's) outcome) \<Rightarrow> nat \<Rightarrow> 's \<Rightarrow> 'a list outcome" where
  "receive_all rcv 0 s = Ret []"
| "receive_all rcv (Suc n) s =
     bind_outcome (rcv s) (\<lambda>(r, s').
       case r of None \<Rightarrow> Ret []
       | Some v \<Rightarrow> bind_outcome (receive_all rcv n s') (\<lambda>vs. Ret (v # vs)))"

context fifo_channel
begin

lemma receive_all_fifo:
  "invar s \<Longrightarrow> length (contents s) \<le> n \<Longrightarrow> receive_all receive n s = Ret (contents s)"
proof (induction n arbitrary: s)
  case 0
  then show ?case by simp
next
  case (Suc n)
  show ?case
  proof (cases "contents s")
    case Nil
    with receive_empty [OF Suc.prems(1)] show ?thesis by simp
  next
    case (Cons v vs)
    from receive_cons [OF Suc.prems(1) Cons] obtain s' where
      "receive s = Ret (Some v, s')" "invar s'" "contents s' = vs" by blast
    with Suc Cons show ?thesis by simp
  qed
qed

end

end
