(* ===== verification/Var_Cycle.thy ===== *)
theory Var_Cycle
  imports Sync_Root
begin

text \<open>
  \<open>CycleChannel\<close> of \<open>internal/core/syncv2/vars/channel.go\<close>: a ring buffer that overwrites its oldest
  value when it is full. The write and read positions are \<open>uint32\<close> counters reduced modulo the size
  at every access, and the number of values is an \<open>int32\<close>; both wrap as in the source. Every method
  that touches the buffer holds the mutex from its first to its last access, so a method is one
  step; \<open>Blocked\<close> is a receiver that waits on \<open>notEmpty\<close>.
\<close>

section \<open>State and operations\<close>

record 'a CycleChannel =
  cy_buffer :: "'a list"
  cy_size :: uint32
  cy_head :: uint32
  cy_tail :: uint32
  cy_count :: int32
  cy_version :: uint64
  cy_dirty :: bool
  cy_closed :: bool
  cy_current :: 'a

definition NewCycleChannel :: "'a \<Rightarrow> int \<Rightarrow> 'a \<Rightarrow> 'a CycleChannel" where
  "NewCycleChannel zero bufferSize initialValue =
     (let bufferSize = (if bufferSize \<le> 0 then 1 else bufferSize)
      in \<lparr>cy_buffer = replicate (nat bufferSize) zero, cy_size = word_of_int bufferSize,
          cy_head = 0, cy_tail = 0, cy_count = 0, cy_version = 0, cy_dirty = False,
          cy_closed = False, cy_current = initialValue\<rparr>)"

definition CycleChannel_Get :: "'a CycleChannel \<Rightarrow> 'a" where
  "CycleChannel_Get c = cy_current c"

definition CycleChannel_Set :: "'a CycleChannel \<Rightarrow> 'a \<Rightarrow> 'a CycleChannel" where
  "CycleChannel_Set c v = c\<lparr>cy_current := v, cy_version := cy_version c + 1, cy_dirty := True\<rparr>"

text \<open>A position counter modulo the size; Go panics on a zero divisor.\<close>

definition cy_pos :: "'a CycleChannel \<Rightarrow> uint32 \<Rightarrow> nat outcome" where
  "cy_pos c w = (if cy_size c = 0 then Panic DivideByZero else Ret (unat (w mod cy_size c)))"

definition CycleChannel_Send :: "'a CycleChannel \<Rightarrow> 'a \<Rightarrow> (bool \<times> 'a CycleChannel) outcome" where
  "CycleChannel_Send c v =
     (if cy_closed c then Ret (False, c)
      else bind_outcome (cy_pos c (cy_head c)) (\<lambda>headPos.
           bind_outcome (slice_set (cy_buffer c) headPos v) (\<lambda>buf.
             let currentCount = cy_count c + 1;
                 c1 = c\<lparr>cy_buffer := buf, cy_head := cy_head c + 1, cy_count := currentCount\<rparr>;
                 c2 = (if sint currentCount > sint (cy_size c1)
                       then c1\<lparr>cy_tail := cy_tail c1 + 1, cy_count := cy_size c1\<rparr> else c1)
             in Ret (True, c2\<lparr>cy_current := v, cy_version := cy_version c2 + 1, cy_dirty := True\<rparr>))))"

text \<open>The read that \<open>Receive\<close> and \<open>ReceiveBlocking\<close> share.\<close>

definition cy_take :: "'a CycleChannel \<Rightarrow> ('a \<times> 'a CycleChannel) outcome" where
  "cy_take c =
     bind_outcome (cy_pos c (cy_tail c)) (\<lambda>tailPos.
     bind_outcome (slice_get (cy_buffer c) tailPos) (\<lambda>v.
       Ret (v, c\<lparr>cy_tail := cy_tail c + 1, cy_count := cy_count c - 1, cy_current := v\<rparr>)))"

definition CycleChannel_Receive :: "'a CycleChannel \<Rightarrow> ('a option \<times> 'a CycleChannel) outcome" where
  "CycleChannel_Receive c =
     (if cy_count c = 0 then Ret (None, c)
      else bind_outcome (cy_take c) (\<lambda>(v, c'). Ret (Some v, c')))"

definition CycleChannel_ReceiveBlocking :: "'a \<Rightarrow> 'a CycleChannel \<Rightarrow> ('a \<times> 'a CycleChannel) outcome" where
  "CycleChannel_ReceiveBlocking zero c =
     (if cy_count c = 0 \<and> \<not> cy_closed c then Blocked
      else if cy_count c = 0 then Ret (zero, c)
      else cy_take c)"

definition CycleChannel_SendBlocking :: "'a CycleChannel \<Rightarrow> 'a \<Rightarrow> 'a CycleChannel outcome" where
  "CycleChannel_SendBlocking c v = bind_outcome (CycleChannel_Send c v) (\<lambda>(ok, c'). Ret c')"

definition CycleChannel_BufferSize :: "'a CycleChannel \<Rightarrow> int" where
  "CycleChannel_BufferSize c = uint (cy_size c)"

definition CycleChannel_Version :: "'a CycleChannel \<Rightarrow> uint64" where
  "CycleChannel_Version c = cy_version c"

definition CycleChannel_IsDirty :: "'a CycleChannel \<Rightarrow> bool" where
  "CycleChannel_IsDirty c = cy_dirty c"

definition CycleChannel_MarkClean :: "'a CycleChannel \<Rightarrow> 'a CycleChannel" where
  "CycleChannel_MarkClean c = c\<lparr>cy_dirty := False\<rparr>"

definition CycleChannel_Close :: "'a CycleChannel \<Rightarrow> 'a CycleChannel" where
  "CycleChannel_Close c = (if \<not> cy_closed c then c\<lparr>cy_closed := True\<rparr> else c)"

text \<open>Copying \<open>n\<close> values from the tail on, as \<open>SetBufferSize\<close> and \<open>DrainAll\<close> do.\<close>

fun cy_copy :: "'a CycleChannel \<Rightarrow> nat \<Rightarrow> nat \<Rightarrow> 'a list \<Rightarrow> 'a list outcome" where
  "cy_copy c i 0 out = Ret out"
| "cy_copy c i (Suc n) out =
     bind_outcome (cy_pos c (cy_tail c + of_nat i)) (\<lambda>pos.
     bind_outcome (slice_get (cy_buffer c) pos) (\<lambda>v.
     bind_outcome (slice_set out i v) (\<lambda>out'.
       cy_copy c (i + 1) n out')))"

datatype cycle_error = BufferSizeMustBePositive | ChannelIsClosed

definition CycleChannel_SetBufferSize ::
    "'a \<Rightarrow> 'a CycleChannel \<Rightarrow> int \<Rightarrow> (cycle_error option \<times> 'a CycleChannel) outcome" where
  "CycleChannel_SetBufferSize zero c sz =
     (if sz \<le> 0 then Ret (Some BufferSizeMustBePositive, c)
      else if cy_closed c then Ret (Some ChannelIsClosed, c)
      else
        let newBuffer = replicate (nat sz) zero;
            currentCount = cy_count c;
            size32 = (word_of_int sz :: int32);
            (preserveCount, c1) =
              (if sint currentCount > sint size32
               then (size32, c\<lparr>cy_tail := cy_tail c + (currentCount - size32)\<rparr>)
               else (currentCount, c))
        in bind_outcome (cy_copy c1 0 (nat (sint preserveCount)) newBuffer) (\<lambda>newBuffer'.
             Ret (None, c1\<lparr>cy_buffer := newBuffer', cy_size := word_of_int sz,
                cy_head := preserveCount, cy_tail := 0, cy_count := preserveCount,
                cy_version := cy_version c1 + 1, cy_dirty := True\<rparr>)))"

definition CycleChannel_Peek :: "'a CycleChannel \<Rightarrow> 'a option outcome" where
  "CycleChannel_Peek c =
     (if cy_count c = 0 then Ret None
      else bind_outcome (cy_pos c (cy_tail c)) (\<lambda>tailPos.
           bind_outcome (slice_get (cy_buffer c) tailPos) (\<lambda>v. Ret (Some v))))"

text \<open>\<open>make([]T, count)\<close> panics on a negative count.\<close>

definition CycleChannel_DrainAll :: "'a \<Rightarrow> 'a CycleChannel \<Rightarrow> ('a list \<times> 'a CycleChannel) outcome" where
  "CycleChannel_DrainAll zero c =
     (let count = sint (cy_count c)
      in if count = 0 then Ret ([], c)
         else if count < 0 then Panic NegativeSize
         else bind_outcome (cy_copy c 0 (nat count) (replicate (nat count) zero)) (\<lambda>result.
                Ret (result, c\<lparr>cy_head := 0, cy_tail := 0, cy_count := 0,
                   cy_version := cy_version c + 1, cy_dirty := True\<rparr>)))"

section \<open>The buffer as a list\<close>

named_theorems cycle_defs \<open>definitions of the CycleChannel operations\<close>

declare CycleChannel_Get_def [cycle_defs] CycleChannel_Set_def [cycle_defs]
  CycleChannel_Version_def [cycle_defs] CycleChannel_IsDirty_def [cycle_defs]
  CycleChannel_MarkClean_def [cycle_defs] CycleChannel_Close_def [cycle_defs]

text \<open>The pending values, oldest first.\<close>

definition cy_contents :: "'a CycleChannel \<Rightarrow> 'a list" where
  "cy_contents c =
     map (\<lambda>i. cy_buffer c ! unat ((cy_tail c + of_nat i) mod cy_size c)) [0..<unat (cy_count c)]"

text \<open>
  The write counter is ahead of the read counter by the number of values. The positions the two
  counters give are consistent when neither has wrapped yet, or when the size divides \<open>2 ^ 32\<close>. The
  size is bounded because \<open>Send\<close> compares the incremented \<open>int32\<close> count with it.
\<close>

definition cy_inv :: "'a CycleChannel \<Rightarrow> bool" where
  "cy_inv c \<longleftrightarrow> 0 < unat (cy_size c) \<and> unat (cy_size c) < 2 ^ 31 - 1 \<and>
     length (cy_buffer c) = unat (cy_size c) \<and> unat (cy_count c) \<le> unat (cy_size c) \<and>
     cy_head c = cy_tail c + cy_count c \<and>
     (unat (cy_tail c) + unat (cy_count c) < 2 ^ 32 \<or> unat (cy_size c) dvd 2 ^ 32)"

lemma cy_position:
  assumes "unat w + i < 2 ^ 32 \<or> unat s dvd 2 ^ 32"
  shows "unat ((w + of_nat i) mod s) = (unat w + i) mod unat (s :: uint32)"
proof -
  have sum: "unat (w + of_nat i) = (unat w + i) mod 2 ^ 32"
    by (simp add: unat_word_ariths unat_of_nat mod_simps)
  have "unat ((w + of_nat i) mod s) = ((unat w + i) mod 2 ^ 32) mod unat s"
    by (simp add: unat_mod sum)
  also have "\<dots> = (unat w + i) mod unat s"
    using assms by (auto simp: mod_mod_cancel)
  finally show ?thesis .
qed

lemma sint_small:
  assumes "unat (w :: int32) < 2 ^ 31"
  shows "sint w = int (unat w)"
proof -
  have "int (unat w) < int (2 ^ 31)" using assms by (simp only: of_nat_less_iff)
  then have "uint w < 2 ^ 31" by (simp only: uint_nat of_nat_power of_nat_numeral)
  moreover have "- (2 ^ 31) \<le> uint w" by (rule order_trans [of _ 0]) simp_all
  ultimately have "sint w = uint w" unfolding sint_uint by (intro signed_take_bit_int_eq_self) simp_all
  then show ?thesis by simp
qed

lemma slots_differ:
  fixes i j t S :: nat
  assumes "i < j" and "j - i < S"
  shows "(t + i) mod S \<noteq> (t + j) mod S"
proof
  assume "(t + i) mod S = (t + j) mod S"
  then have "S dvd (t + j) - (t + i)"
    using assms(1) mod_eq_dvd_iff_nat [of "t + i" "t + j" S] by simp
  with assms show False by (auto dest: dvd_imp_le)
qed

lemma unat_add_one: "unat (w :: 'a :: len word) + 1 < 2 ^ LENGTH('a) \<Longrightarrow> unat (w + 1) = unat w + 1"
  by (simp add: unat_word_ariths)

text \<open>
  The facts of the invariant in natural numbers: \<open>t\<close> the read counter, \<open>n\<close> the number of values,
  \<open>S\<close> the size.
\<close>

lemma cy_slot:
  assumes "cy_inv c" and "i \<le> unat (cy_count c)"
  shows "unat ((cy_tail c + of_nat i) mod cy_size c) = (unat (cy_tail c) + i) mod unat (cy_size c)"
  using assms by (intro cy_position) (auto simp: cy_inv_def)

lemma cy_contents_nat:
  assumes "cy_inv c"
  shows "cy_contents c =
    map (\<lambda>i. cy_buffer c ! ((unat (cy_tail c) + i) mod unat (cy_size c))) [0..<unat (cy_count c)]"
  using cy_slot [OF assms] by (auto simp: cy_contents_def)

lemma length_cy_contents [simp]: "length (cy_contents c) = unat (cy_count c)"
  by (simp add: cy_contents_def)

lemma cy_head_pos:
  assumes "cy_inv c"
  shows "cy_pos c (cy_head c) =
    Ret ((unat (cy_tail c) + unat (cy_count c)) mod unat (cy_size c))"
  using cy_slot [OF assms, of "unat (cy_count c)"] assms
  by (auto simp: cy_pos_def cy_inv_def)

lemma cy_tail_pos:
  assumes "cy_inv c"
  shows "cy_pos c (cy_tail c) = Ret (unat (cy_tail c) mod unat (cy_size c))"
  using cy_slot [OF assms, of 0] assms by (auto simp: cy_pos_def cy_inv_def)

definition cy_written :: "'a CycleChannel \<Rightarrow> nat" where
  "cy_written c = unat (cy_tail c) + unat (cy_count c)"

lemma unat_Suc_le: "unat (w + 1 :: 'a :: len word) \<le> unat w + 1"
  by (simp add: unat_word_ariths)

text \<open>Counters that do not wrap with the next value, or whose wrap the size absorbs.\<close>

definition cy_room :: "'a CycleChannel \<Rightarrow> bool" where
  "cy_room c \<longleftrightarrow> cy_written c + 1 < 2 ^ 32 \<or> unat (cy_size c) dvd 2 ^ 32"

definition push_latest :: "nat \<Rightarrow> 'a list \<Rightarrow> 'a \<Rightarrow> 'a list" where
  "push_latest n xs v = (if length xs < n then xs @ [v] else tl xs @ [v])"

lemma ring_append:
  fixes t n S :: nat
  assumes "n < S" and "length buf = S"
  shows "map (\<lambda>i. buf[(t + n) mod S := v] ! ((t + i) mod S)) [0..<Suc n] =
    map (\<lambda>i. buf ! ((t + i) mod S)) [0..<n] @ [v]"
proof -
  have "buf[(t + n) mod S := v] ! ((t + i) mod S) = buf ! ((t + i) mod S)" if "i < n" for i
  proof -
    have "(t + i) mod S \<noteq> (t + n) mod S" using that assms(1) by (intro slots_differ) auto
    then show ?thesis by simp
  qed
  then show ?thesis using assms by simp
qed

lemma ring_overwrite:
  fixes t S :: nat
  assumes "0 < S" and "length buf = S"
  shows "map (\<lambda>i. buf[(t + S) mod S := v] ! ((t + 1 + i) mod S)) [0..<S] =
      tl (map (\<lambda>i. buf ! ((t + i) mod S)) [0..<S]) @ [v]"
proof (rule nth_equalityI)
  show "length (map (\<lambda>i. buf[(t + S) mod S := v] ! ((t + 1 + i) mod S)) [0..<S]) =
      length (tl (map (\<lambda>i. buf ! ((t + i) mod S)) [0..<S]) @ [v])"
    using assms by simp
  fix i assume "i < length (map (\<lambda>i. buf[(t + S) mod S := v] ! ((t + 1 + i) mod S)) [0..<S])"
  then have i: "i < S" by simp
  show "map (\<lambda>i. buf[(t + S) mod S := v] ! ((t + 1 + i) mod S)) [0..<S] ! i =
      (tl (map (\<lambda>i. buf ! ((t + i) mod S)) [0..<S]) @ [v]) ! i"
  proof (cases "i = S - 1")
    case True
    then have "t + 1 + i = t + S" using i by simp
    with True i assms show ?thesis by (simp add: nth_append)
  next
    case False
    then have "(t + (i + 1)) mod S \<noteq> (t + S) mod S" using i by (intro slots_differ) auto
    moreover have "i < S - 1" "Suc i < S" using False i by linarith+
    ultimately show ?thesis by (simp add: nth_append nth_tl)
  qed
qed

section \<open>The operations on the list\<close>

lemma cy_contents_shift:
  assumes "cy_inv c" and "n \<le> unat (cy_count c)"
  shows "map (\<lambda>i. buf ! unat ((cy_tail c + 1 + of_nat i) mod cy_size c)) [0..<n] =
    map (\<lambda>i. buf ! ((unat (cy_tail c) + 1 + i) mod unat (cy_size c))) [0..<n]"
proof (rule map_cong [OF refl])
  fix i assume "i \<in> set [0..<n]"
  then have "i + 1 \<le> unat (cy_count c)" using assms(2) by simp
  from cy_slot [OF assms(1) this]
  show "buf ! unat ((cy_tail c + 1 + of_nat i) mod cy_size c) =
      buf ! ((unat (cy_tail c) + 1 + i) mod unat (cy_size c))"
    by (simp add: add.assoc)
qed

lemma Send_ok:
  assumes inv: "cy_inv c" and "\<not> cy_closed c" and room: "cy_room c"
  shows "\<exists>c'. CycleChannel_Send c v = Ret (True, c') \<and> cy_inv c' \<and>
     cy_contents c' = push_latest (unat (cy_size c)) (cy_contents c) v \<and>
     cy_size c' = cy_size c \<and> cy_head c' = cy_head c + 1 \<and> cy_current c' = v \<and>
     cy_version c' = cy_version c + 1 \<and> cy_dirty c' \<and> \<not> cy_closed c' \<and>
     cy_written c' \<le> cy_written c + 1"
proof -
  define t n S where "t = unat (cy_tail c)" and "n = unat (cy_count c)" and "S = unat (cy_size c)"
  have I: "0 < S" "S < 2 ^ 31 - 1" "length (cy_buffer c) = S" "n \<le> S" "cy_head c = cy_tail c + cy_count c"
    "t + n < 2 ^ 32 \<or> S dvd 2 ^ 32" "t + n + 1 < 2 ^ 32 \<or> S dvd 2 ^ 32"
    using inv room by (auto simp: cy_inv_def cy_room_def cy_written_def t_def n_def S_def)
  have n1: "unat (cy_count c + 1) = n + 1" using I by (simp add: unat_word_ariths n_def)
  then have cnt: "sint (cy_count c + 1) = int (n + 1)" "sint (cy_size c) = int S"
    using I by (simp_all add: sint_small S_def)
  let ?buf = "(cy_buffer c)[(t + n) mod S := v]"
  have pos: "cy_pos c (cy_head c) = Ret ((t + n) mod S)"
    using cy_head_pos [OF inv] by (simp add: t_def n_def S_def)
  have slot: "(t + n) mod S < length (cy_buffer c)" using I by simp
  show ?thesis
  proof (cases "n < S")
    case True
    let ?c = "c\<lparr>cy_buffer := ?buf, cy_head := cy_head c + 1, cy_count := cy_count c + 1,
      cy_current := v, cy_version := cy_version c + 1, cy_dirty := True\<rparr>"
    have send: "CycleChannel_Send c v = Ret (True, ?c)"
      using assms(2) pos slot True by (simp add: CycleChannel_Send_def cnt)
    have inv': "cy_inv ?c"
      using I n1 True by (auto simp: cy_inv_def t_def S_def)
    have "cy_contents ?c = cy_contents c @ [v]"
      using ring_append [OF True I(3), of t v] n1 cy_contents_nat [OF inv'] cy_contents_nat [OF inv]
      by (simp add: t_def n_def S_def)
    moreover have "cy_written ?c \<le> cy_written c + 1" using n1 by (simp add: cy_written_def n_def)
    ultimately show ?thesis using send inv' assms(2) True
      by (intro exI [of _ ?c]) (simp add: push_latest_def n_def S_def)
  next
    case False
    with I have nS: "n = S" by simp
    let ?c = "c\<lparr>cy_buffer := ?buf, cy_head := cy_head c + 1, cy_count := cy_size c,
      cy_tail := cy_tail c + 1, cy_current := v, cy_version := cy_version c + 1, cy_dirty := True\<rparr>"
    have send: "CycleChannel_Send c v = Ret (True, ?c)"
      using assms(2) pos slot nS by (simp add: CycleChannel_Send_def cnt)
    have cs: "cy_count c = cy_size c" using nS by (simp add: n_def S_def word_unat_eq_iff)
    have "unat (cy_tail c + 1) = t + 1 \<or> S dvd 2 ^ 32"
      using I(7) by (auto simp: unat_word_ariths t_def)
    then have inv': "cy_inv ?c"
      using I nS cs by (auto simp: cy_inv_def S_def t_def)
    have "cy_contents ?c = tl (cy_contents c) @ [v]"
    proof -
      have "cy_contents ?c = map (\<lambda>i. ?buf ! unat ((cy_tail c + 1 + of_nat i) mod cy_size c)) [0..<S]"
        by (simp add: cy_contents_def S_def)
      also have "\<dots> = map (\<lambda>i. ?buf ! ((t + 1 + i) mod S)) [0..<S]"
        using cy_contents_shift [OF inv, of S ?buf] nS unfolding t_def S_def n_def by simp
      also have "\<dots> = tl (map (\<lambda>i. cy_buffer c ! ((t + i) mod S)) [0..<S]) @ [v]"
        using ring_overwrite [OF I(1,3), of t v] nS by simp
      also have "map (\<lambda>i. cy_buffer c ! ((t + i) mod S)) [0..<S] = cy_contents c"
        using cy_contents_nat [OF inv] nS unfolding t_def S_def n_def by simp
      finally show ?thesis .
    qed
    moreover have "cy_written ?c \<le> cy_written c + 1"
      using cs unat_Suc_le [of "cy_tail c"] by (simp add: cy_written_def)
    ultimately show ?thesis using send inv' assms(2) nS
      by (intro exI [of _ ?c]) (simp add: push_latest_def n_def S_def)
  qed
qed

lemma cy_take_ok:
  assumes inv: "cy_inv c" and ne: "cy_contents c = v # vs"
  shows "\<exists>c'. cy_take c = Ret (v, c') \<and> cy_inv c' \<and> cy_contents c' = vs \<and> cy_current c' = v \<and>
     cy_size c' = cy_size c \<and> cy_head c' = cy_head c \<and> cy_version c' = cy_version c \<and>
     cy_dirty c' = cy_dirty c \<and> cy_closed c' = cy_closed c \<and> cy_written c' \<le> cy_written c"
proof -
  define t n S where "t = unat (cy_tail c)" and "n = unat (cy_count c)" and "S = unat (cy_size c)"
  have I: "0 < S" "S < 2 ^ 31 - 1" "length (cy_buffer c) = S" "n \<le> S" "cy_head c = cy_tail c + cy_count c"
    "t + n < 2 ^ 32 \<or> S dvd 2 ^ 32"
    using inv by (auto simp: cy_inv_def t_def n_def S_def)
  have n0: "0 < n" using ne length_cy_contents [of c] by (simp add: n_def)
  then have n1: "unat (cy_count c - 1) = n - 1" by (simp add: n_def unat_minus_one unat_gt_0)
  let ?c = "c\<lparr>cy_tail := cy_tail c + 1, cy_count := cy_count c - 1, cy_current := v\<rparr>"
  have cont: "cy_contents c = map (\<lambda>i. cy_buffer c ! ((t + i) mod S)) [0..<n]"
    using cy_contents_nat [OF inv] by (simp add: t_def n_def S_def)
  have hd: "cy_buffer c ! (t mod S) = v"
    using arg_cong [OF cont, of hd] ne n0 by (simp add: upt_conv_Cons)
  have "cy_take c = Ret (v, ?c)"
    using cy_tail_pos [OF inv] hd I by (simp add: cy_take_def t_def S_def)
  moreover have "cy_inv ?c"
  proof -
    have "unat (cy_tail c + 1) + (n - 1) = t + n \<or> S dvd 2 ^ 32"
      using I(6) n0 by (auto simp: unat_word_ariths t_def)
    then show ?thesis using I n1 by (auto simp: cy_inv_def S_def)
  qed
  moreover have "cy_contents ?c = vs"
  proof -
    have "cy_contents ?c = map (\<lambda>i. cy_buffer c ! unat ((cy_tail c + 1 + of_nat i) mod cy_size c)) [0..<n - 1]"
      using n1 by (simp add: cy_contents_def)
    also have "\<dots> = map (\<lambda>i. cy_buffer c ! ((t + (i + 1)) mod S)) [0..<n - 1]"
      using cy_contents_shift [OF inv, of "n - 1" "cy_buffer c"] unfolding t_def S_def n_def by simp
    also have "\<dots> = tl (cy_contents c)"
    proof (rule nth_equalityI)
      fix i assume "i < length (map (\<lambda>i. cy_buffer c ! ((t + (i + 1)) mod S)) [0..<n - 1])"
      then have "i < n - 1" "Suc i < n" by simp_all
      then show "map (\<lambda>i. cy_buffer c ! ((t + (i + 1)) mod S)) [0..<n - 1] ! i = tl (cy_contents c) ! i"
        by (simp add: cont nth_tl)
    qed (simp add: cont)
    finally show ?thesis using ne by simp
  qed
  moreover have "cy_written ?c \<le> cy_written c"
    using n0 n1 unat_Suc_le [of "cy_tail c"] by (simp add: cy_written_def n_def)
  ultimately show ?thesis by (intro exI [of _ ?c]) simp
qed

lemma cy_count_0: "cy_count c = 0 \<longleftrightarrow> cy_contents c = []"
  using length_cy_contents [of c] by (metis length_0_conv unat_eq_zero)

lemma cy_copy_ok:
  assumes "\<And>j. i \<le> j \<Longrightarrow> j < i + n \<Longrightarrow>
      cy_pos c (cy_tail c + of_nat j) = Ret (p j) \<and> p j < length (cy_buffer c)"
    and "i + n \<le> length out"
  shows "cy_copy c i n out =
    Ret (take i out @ map (\<lambda>j. cy_buffer c ! p j) [i..<i + n] @ drop (i + n) out)"
  using assms
proof (induction n arbitrary: i out)
  case 0
  then show ?case by simp
next
  case (Suc n)
  let ?out = "out[i := cy_buffer c ! p i]"
  have step: "cy_copy c i (Suc n) out = cy_copy c (i + 1) n ?out"
    using Suc.prems(1) [of i] Suc.prems(2) by simp
  have "cy_copy c (i + 1) n ?out =
      Ret (take (i + 1) ?out @ map (\<lambda>j. cy_buffer c ! p j) [i + 1..<i + 1 + n] @ drop (i + 1 + n) ?out)"
    using Suc.prems by (intro Suc.IH) auto
  moreover have "take (i + 1) ?out = take i out @ [cy_buffer c ! p i]"
    using Suc.prems(2) by (simp add: take_Suc_conv_app_nth)
  moreover have "[i..<i + Suc n] = i # [i + 1..<i + 1 + n]" by (simp add: upt_conv_Cons del: upt_Suc)
  moreover have "drop (i + 1 + n) ?out = drop (i + Suc n) out" by simp
  ultimately show ?case
    unfolding step by (simp del: upt_Suc)
qed

lemma DrainAll_ok:
  assumes inv: "cy_inv c"
  shows "\<exists>c'. CycleChannel_DrainAll zero c = Ret (cy_contents c, c') \<and> cy_inv c' \<and>
     cy_contents c' = [] \<and> cy_current c' = cy_current c \<and> cy_size c' = cy_size c \<and>
     cy_closed c' = cy_closed c \<and> cy_written c' \<le> cy_written c"
proof (cases "cy_count c = 0")
  case True
  then show ?thesis using inv cy_count_0 [of c] by (simp add: CycleChannel_DrainAll_def)
next
  case False
  have cnt: "sint (cy_count c) = int (unat (cy_count c))"
    using inv by (intro sint_small) (auto simp: cy_inv_def)
  moreover have "unat (cy_count c) \<noteq> 0" using False by (simp only: unat_eq_zero not_False_eq_True)
  ultimately have nz: "sint (cy_count c) \<noteq> 0" by (simp only: of_nat_eq_0_iff not_False_eq_True)
  have copy: "cy_copy c 0 (unat (cy_count c)) (replicate (unat (cy_count c)) zero) = Ret (cy_contents c)"
  proof (subst cy_copy_ok [where p = "\<lambda>i. unat ((cy_tail c + of_nat i) mod cy_size c)"])
    fix j
    show "cy_pos c (cy_tail c + of_nat j) = Ret (unat ((cy_tail c + of_nat j) mod cy_size c)) \<and>
        unat ((cy_tail c + of_nat j) mod cy_size c) < length (cy_buffer c)"
      using inv by (auto simp: cy_pos_def cy_inv_def unat_mod)
  qed (simp_all add: cy_contents_def)
  let ?c = "c\<lparr>cy_head := 0, cy_tail := 0, cy_count := 0, cy_version := cy_version c + 1, cy_dirty := True\<rparr>"
  have "CycleChannel_DrainAll zero c = Ret (cy_contents c, ?c)"
    using cnt nz copy by (simp add: CycleChannel_DrainAll_def Let_def)
  then show ?thesis using inv by (intro exI [of _ ?c]) (auto simp: cy_inv_def cy_contents_def cy_written_def)
qed

lemma unat_word_of_int32: "0 \<le> k \<Longrightarrow> k < 2 ^ 32 \<Longrightarrow> unat (word_of_int k :: 32 word) = nat k"
  by (simp add: unat_eq_nat_uint uint_word_of_int)

lemma SetBufferSize_ok:
  assumes inv: "cy_inv c" and opn: "\<not> cy_closed c" and sz: "0 < sz" "sz < 2 ^ 31 - 1"
  shows "\<exists>c'. CycleChannel_SetBufferSize zero c sz = Ret (None, c') \<and> cy_inv c' \<and>
     cy_contents c' = drop (length (cy_contents c) - nat sz) (cy_contents c) \<and>
     unat (cy_size c') = nat sz \<and> cy_current c' = cy_current c \<and> \<not> cy_closed c' \<and>
     cy_written c' \<le> cy_written c"
proof -
  define n where "n = unat (cy_count c)"
  define m where "m = min n (nat sz)"
  define k where "k = n - m"
  define w where "w = (word_of_int sz :: int32)"
  have uw: "unat w = nat sz" unfolding w_def using sz by (intro unat_word_of_int32) auto
  have I: "length (cy_buffer c) = unat (cy_size c)" "0 < unat (cy_size c)" "n < 2 ^ 31"
    using inv by (auto simp: cy_inv_def n_def)
  have cnt: "sint (cy_count c) = int n" "sint w = int (nat sz)"
    using I(3) uw sz by (auto simp: sint_small n_def)
  define pc where "pc = (if sint (cy_count c) > sint w then w else cy_count c)"
  define c1 where "c1 = (if sint (cy_count c) > sint w then c\<lparr>cy_tail := cy_tail c + (cy_count c - w)\<rparr> else c)"
  have cond: "(sint (cy_count c) > sint w) = (nat sz < n)"
    unfolding cnt by (rule of_nat_less_iff)
  have un: "unat (cy_count c) = n" by (simp add: n_def)
  have pc1: "unat pc = m" unfolding pc_def cond m_def using uw un by auto
  have "sint pc = int (unat pc)" by (rule sint_small) (use pc1 I(3) in \<open>simp add: m_def\<close>)
  with pc1 have pc: "unat pc = m" "nat (sint pc) = m" by (simp_all only: nat_int)
  have tail: "cy_tail c1 = cy_tail c + of_nat k"
  proof (cases "nat sz < n")
    case True
    then have "n - nat sz = k" "w \<le> cy_count c" using un uw by (auto simp: k_def m_def word_le_nat_alt)
    then have "unat (cy_count c - w) = k" using uw un by (simp add: unat_sub)
    moreover have "cy_count c - w = of_nat (unat (cy_count c - w))" by simp
    ultimately have "cy_count c - w = of_nat k" by (simp only:)
    with True show ?thesis by (simp only: c1_def cond) simp
  next
    case False
    then have "k = 0" by (auto simp: k_def m_def)
    with False show ?thesis by (simp only: c1_def cond) simp
  qed
  have c1: "cy_size c1 = cy_size c" "cy_buffer c1 = cy_buffer c" by (auto simp: c1_def)
  let ?p = "\<lambda>j. unat ((cy_tail c + of_nat (k + j)) mod cy_size c)"
  let ?vs = "map (\<lambda>j. cy_buffer c ! ?p j) [0..<m]"
  have vs: "?vs = drop k (cy_contents c)"
  proof (rule nth_equalityI)
    show "length ?vs = length (drop k (cy_contents c))" by (simp add: k_def m_def n_def)
    fix i assume "i < length ?vs"
    then have "k + i < n" by (auto simp: k_def m_def)
    then show "?vs ! i = drop k (cy_contents c) ! i"
      using \<open>i < length ?vs\<close> by (simp add: cy_contents_def n_def)
  qed
  have copy: "cy_copy c1 0 m (replicate (nat sz) zero) = Ret (?vs @ replicate (nat sz - m) zero)"
  proof (subst cy_copy_ok [where p = ?p])
    fix j
    show "cy_pos c1 (cy_tail c1 + of_nat j) = Ret (?p j) \<and> ?p j < length (cy_buffer c1)"
      using I by (auto simp: cy_pos_def c1 tail unat_mod add.assoc)
  qed (simp_all add: m_def c1)
  let ?c = "c1\<lparr>cy_buffer := ?vs @ replicate (nat sz - m) zero, cy_size := w, cy_head := pc, cy_tail := 0,
    cy_count := pc, cy_version := cy_version c1 + 1, cy_dirty := True\<rparr>"
  have eq: "CycleChannel_SetBufferSize zero c sz = Ret (None, ?c)"
    using opn sz copy pc(2) unfolding CycleChannel_SetBufferSize_def
    by (auto simp: Let_def w_def [symmetric] pc_def c1_def)
  have inv': "cy_inv ?c"
    using sz uw pc(1) I(3) by (auto simp: cy_inv_def m_def)
  have "cy_contents ?c = ?vs"
  proof (rule nth_equalityI)
    fix i assume i: "i < length (cy_contents ?c)"
    then have "i < m" "i < nat sz" using pc by (auto simp: m_def)
    then show "cy_contents ?c ! i = ?vs ! i"
      using cy_contents_nat [OF inv'] pc(1) uw by (simp add: nth_append)
  qed (simp add: pc)
  moreover have "k = length (cy_contents c) - nat sz" by (auto simp: k_def m_def n_def)
  moreover have "cy_written ?c \<le> cy_written c" using pc(1) by (auto simp: cy_written_def m_def n_def)
  ultimately show ?thesis
    using eq inv' uw vs opn by (intro exI [of _ ?c]) (auto simp: c1_def)
qed

section \<open>The channel contract\<close>

lemma Receive_ok:
  assumes "cy_inv c" and "cy_contents c = v # vs"
  shows "\<exists>c'. CycleChannel_Receive c = Ret (Some v, c') \<and> cy_inv c' \<and> cy_contents c' = vs \<and>
     cy_current c' = v \<and> cy_size c' = cy_size c \<and> cy_head c' = cy_head c \<and>
     cy_version c' = cy_version c \<and> cy_dirty c' = cy_dirty c \<and> cy_closed c' = cy_closed c \<and>
     cy_written c' \<le> cy_written c"
proof -
  have "cy_count c \<noteq> 0" using assms(2) cy_count_0 [of c] by auto
  with cy_take_ok [OF assms] show ?thesis by (auto simp: CycleChannel_Receive_def)
qed

lemma Receive_empty: "cy_contents c = [] \<Longrightarrow> CycleChannel_Receive c = Ret (None, c)"
  by (simp add: CycleChannel_Receive_def cy_count_0)

lemma cy_inv_meta [simp]:
  "cy_inv (c\<lparr>cy_current := v\<rparr>) = cy_inv c"
  "cy_inv (c\<lparr>cy_version := n\<rparr>) = cy_inv c"
  "cy_inv (c\<lparr>cy_dirty := d\<rparr>) = cy_inv c"
  "cy_inv (c\<lparr>cy_closed := b\<rparr>) = cy_inv c"
  by (simp_all add: cy_inv_def)

interpretation cycle: fifo_channel "\<lambda>c. Ret (CycleChannel_Get c)" "\<lambda>c v. Ret (CycleChannel_Set c v)"
  CycleChannel_Version CycleChannel_IsDirty CycleChannel_MarkClean cy_inv CycleChannel_Receive cy_contents
proof (unfold_locales, goal_cases)
  case (6 s v vs)
  from Receive_ok [OF this] show ?case by (auto simp: cycle_defs)
next
  case (7 s)
  from Receive_empty [OF this(2)] show ?case .
qed (auto simp: cycle_defs)

lemma New_inv:
  assumes "n < 2 ^ 31 - 1"
  shows "cy_inv (NewCycleChannel zero n v)" "cy_contents (NewCycleChannel zero n v) = []"
    "unat (cy_size (NewCycleChannel zero n v)) = nat (max 1 n)"
proof -
  have "unat (word_of_int n :: uint32) = nat n" if "0 < n"
    using that assms by (intro unat_word_of_int32) auto
  then show "cy_inv (NewCycleChannel zero n v)" "cy_contents (NewCycleChannel zero n v) = []"
    "unat (cy_size (NewCycleChannel zero n v)) = nat (max 1 n)"
    using assms by (auto simp: NewCycleChannel_def cy_inv_def cy_contents_def Let_def max_def)
qed

section \<open>Refinement of a keep-latest queue\<close>

text \<open>
  The abstract channel: a list of at most \<open>cap\<close> values. A client is a sequence of calls with the
  results it sees; the run of the ring buffer gives the same results.
\<close>

datatype 'a cycle_call = CallSend 'a | CallReceive | CallResize int | CallDrain | CallPeek | CallClose

datatype 'a cycle_result = SentR bool | ReceivedR "'a option" | ResizedR "cycle_error option"
  | DrainedR "'a list" | PeekedR "'a option" | ClosedR

fun do_call :: "'a \<Rightarrow> 'a CycleChannel \<Rightarrow> 'a cycle_call \<Rightarrow> ('a cycle_result \<times> 'a CycleChannel) outcome" where
  "do_call z c (CallSend v) = bind_outcome (CycleChannel_Send c v) (\<lambda>(r, c'). Ret (SentR r, c'))"
| "do_call z c CallReceive = bind_outcome (CycleChannel_Receive c) (\<lambda>(r, c'). Ret (ReceivedR r, c'))"
| "do_call z c (CallResize n) =
     bind_outcome (CycleChannel_SetBufferSize z c n) (\<lambda>(r, c'). Ret (ResizedR r, c'))"
| "do_call z c CallDrain = bind_outcome (CycleChannel_DrainAll z c) (\<lambda>(r, c'). Ret (DrainedR r, c'))"
| "do_call z c CallPeek = bind_outcome (CycleChannel_Peek c) (\<lambda>r. Ret (PeekedR r, c))"
| "do_call z c CallClose = Ret (ClosedR, CycleChannel_Close c)"

record 'a latest_queue =
  lq_values :: "'a list"
  lq_cap :: nat
  lq_closed :: bool

fun latest_call :: "'a latest_queue \<Rightarrow> 'a cycle_call \<Rightarrow> 'a cycle_result \<times> 'a latest_queue" where
  "latest_call q (CallSend v) =
     (if lq_closed q then (SentR False, q)
      else (SentR True, q\<lparr>lq_values := push_latest (lq_cap q) (lq_values q) v\<rparr>))"
| "latest_call q CallReceive =
     (case lq_values q of [] \<Rightarrow> (ReceivedR None, q) | v # vs \<Rightarrow> (ReceivedR (Some v), q\<lparr>lq_values := vs\<rparr>))"
| "latest_call q (CallResize n) =
     (if n \<le> 0 then (ResizedR (Some BufferSizeMustBePositive), q)
      else if lq_closed q then (ResizedR (Some ChannelIsClosed), q)
      else (ResizedR None, q\<lparr>lq_cap := nat n,
              lq_values := drop (length (lq_values q) - nat n) (lq_values q)\<rparr>))"
| "latest_call q CallDrain = (DrainedR (lq_values q), q\<lparr>lq_values := []\<rparr>)"
| "latest_call q CallPeek = (PeekedR (case lq_values q of [] \<Rightarrow> None | v # vs \<Rightarrow> Some v), q)"
| "latest_call q CallClose = (ClosedR, q\<lparr>lq_closed := True\<rparr>)"

fun run_cycle :: "'a \<Rightarrow> 'a CycleChannel \<Rightarrow> 'a cycle_call list \<Rightarrow> 'a cycle_result list outcome" where
  "run_cycle z c [] = Ret []"
| "run_cycle z c (x # xs) =
     bind_outcome (do_call z c x) (\<lambda>(r, c'). bind_outcome (run_cycle z c' xs) (\<lambda>rs. Ret (r # rs)))"

fun run_latest :: "'a latest_queue \<Rightarrow> 'a cycle_call list \<Rightarrow> 'a cycle_result list" where
  "run_latest q [] = []"
| "run_latest q (x # xs) = (case latest_call q x of (r, q') \<Rightarrow> r # run_latest q' xs)"

fun call_ok :: "'a cycle_call \<Rightarrow> bool" where
  "call_ok (CallResize n) \<longleftrightarrow> n < 2 ^ 31 - 1"
| "call_ok _ \<longleftrightarrow> True"

fun is_send :: "'a cycle_call \<Rightarrow> bool" where
  "is_send (CallSend v) \<longleftrightarrow> True"
| "is_send _ \<longleftrightarrow> False"

definition abs_cycle :: "'a CycleChannel \<Rightarrow> 'a latest_queue" where
  "abs_cycle c = \<lparr>lq_values = cy_contents c, lq_cap = unat (cy_size c), lq_closed = cy_closed c\<rparr>"

lemma Peek_ok:
  assumes "cy_inv c"
  shows "CycleChannel_Peek c = Ret (case cy_contents c of [] \<Rightarrow> None | v # vs \<Rightarrow> Some v)"
proof (cases "cy_contents c")
  case Nil
  then show ?thesis by (simp add: CycleChannel_Peek_def cy_count_0)
next
  case (Cons v vs)
  then have "cy_count c \<noteq> 0" using cy_count_0 [of c] by auto
  with cy_take_ok [OF assms Cons] Cons show ?thesis
    by (auto simp: CycleChannel_Peek_def cy_take_def bind_outcome_Ret_iff)
qed

lemma cycle_call_simulates:
  assumes inv: "cy_inv c" and ok: "call_ok x" and sp: "is_send x \<longrightarrow> cy_written c + 1 < 2 ^ 32"
  shows "\<exists>r c'. do_call z c x = Ret (r, c') \<and> cy_inv c' \<and>
     latest_call (abs_cycle c) x = (r, abs_cycle c') \<and>
     cy_written c' \<le> cy_written c + (if is_send x then 1 else 0)"
proof (cases x)
  case (CallSend v)
  show ?thesis
  proof (cases "cy_closed c")
    case True
    with CallSend inv show ?thesis by (simp add: CycleChannel_Send_def abs_cycle_def)
  next
    case False
    have "cy_room c" using sp CallSend by (simp add: cy_room_def)
    from Send_ok [OF inv False this, of v] CallSend False show ?thesis
      by (auto simp: abs_cycle_def)
  qed
next
  case CallReceive
  show ?thesis
  proof (cases "cy_contents c")
    case Nil
    with Receive_empty [OF Nil] CallReceive inv show ?thesis by (simp add: abs_cycle_def)
  next
    case (Cons v vs)
    from Receive_ok [OF inv Cons] Cons CallReceive show ?thesis by (auto simp: abs_cycle_def)
  qed
next
  case (CallResize n)
  show ?thesis
  proof (cases "n \<le> 0 \<or> cy_closed c")
    case True
    with CallResize inv show ?thesis by (auto simp: CycleChannel_SetBufferSize_def abs_cycle_def)
  next
    case False
    then show ?thesis
      using SetBufferSize_ok [OF inv, of n z] CallResize ok by (auto simp: abs_cycle_def)
  qed
next
  case CallDrain
  from DrainAll_ok [OF inv, of z] CallDrain show ?thesis by (auto simp: abs_cycle_def)
next
  case CallPeek
  with Peek_ok [OF inv] inv show ?thesis by (simp add: abs_cycle_def)
next
  case CallClose
  with inv show ?thesis
    by (auto simp: abs_cycle_def CycleChannel_Close_def cy_contents_def cy_written_def)
qed

lemma run_cycle_simulates:
  "cy_inv c \<Longrightarrow> list_all call_ok xs \<Longrightarrow> cy_written c + length (filter is_send xs) < 2 ^ 32 \<Longrightarrow>
     run_cycle z c xs = Ret (run_latest (abs_cycle c) xs)"
proof (induction xs arbitrary: c)
  case Nil
  then show ?case by simp
next
  case (Cons x xs)
  have "is_send x \<longrightarrow> cy_written c + 1 < 2 ^ 32" using Cons.prems(3) by auto
  with cycle_call_simulates [OF Cons.prems(1), of x z] Cons.prems(2) obtain r c' where
    c': "do_call z c x = Ret (r, c')" "cy_inv c'" "latest_call (abs_cycle c) x = (r, abs_cycle c')"
      "cy_written c' \<le> cy_written c + (if is_send x then 1 else 0)" by auto
  have "cy_written c' + length (filter is_send xs) < 2 ^ 32"
    using c'(4) Cons.prems(3) by (auto split: if_splits)
  with Cons.IH [OF c'(2)] Cons.prems(2) c' show ?case by simp
qed

text \<open>
  C3. Any sequence of \<open>Send\<close>, \<open>Receive\<close>, \<open>SetBufferSize\<close>, \<open>DrainAll\<close>, \<open>Peek\<close> and \<open>Close\<close> calls with
  fewer than \<open>2 ^ 32\<close> sends on a new \<open>CycleChannel\<close> returns, without panic, exactly the results of a
  queue that keeps the latest values up to its capacity.
\<close>

theorem cycle_refines_latest_queue:
  assumes "n < 2 ^ 31 - 1" and "list_all call_ok calls" and "length (filter is_send calls) < 2 ^ 32"
  shows "run_cycle z (NewCycleChannel z n v) calls =
     Ret (run_latest \<lparr>lq_values = [], lq_cap = nat (max 1 n), lq_closed = False\<rparr> calls)"
proof -
  have "cy_written (NewCycleChannel z n v) = 0"
    by (simp add: cy_written_def NewCycleChannel_def Let_def)
  moreover have "abs_cycle (NewCycleChannel z n v) =
      \<lparr>lq_values = [], lq_cap = nat (max 1 n), lq_closed = False\<rparr>"
    unfolding abs_cycle_def New_inv(2,3) [OF assms(1)] by (simp add: NewCycleChannel_def Let_def)
  ultimately show ?thesis
    using run_cycle_simulates [OF New_inv(1) [OF assms(1), of z v] assms(2)] assms(3) by simp
qed

theorem cycle_refines_latest_queue_witness:
  "run_cycle 0 (NewCycleChannel 0 2 (0 :: int))
     [CallSend 1, CallSend 2, CallSend 3, CallResize 1, CallReceive, CallReceive] =
   Ret [SentR True, SentR True, SentR True, ResizedR None, ReceivedR (Some 3), ReceivedR None]"
  by (subst cycle_refines_latest_queue) (simp_all add: push_latest_def)

section \<open>Wrap-around of the counters\<close>

fun send_all :: "'a CycleChannel \<Rightarrow> 'a list \<Rightarrow> 'a CycleChannel outcome" where
  "send_all c [] = Ret c"
| "send_all c (v # vs) = bind_outcome (CycleChannel_SendBlocking c v) (\<lambda>c'. send_all c' vs)"

lemma push_latest_window:
  "0 < n \<Longrightarrow> push_latest n (drop (length vs - n) vs) v = drop (length (vs @ [v]) - n) (vs @ [v])"
  by (auto simp: push_latest_def drop_Suc tl_drop Suc_diff_le not_less)

lemma send_all_latest:
  "cy_inv c \<Longrightarrow> \<not> cy_closed c \<Longrightarrow> unat (cy_size c) dvd 2 ^ 32 \<Longrightarrow>
   cy_contents c = drop (length us - unat (cy_size c)) us \<Longrightarrow>
   \<exists>c'. send_all c vs = Ret c' \<and> cy_inv c' \<and>
     cy_contents c' = drop (length (us @ vs) - unat (cy_size c)) (us @ vs)"
proof (induction vs arbitrary: c us)
  case Nil
  then show ?case by auto
next
  case (Cons v vs)
  have "cy_room c" "0 < unat (cy_size c)" using Cons.prems by (auto simp: cy_room_def cy_inv_def)
  with Send_ok [OF Cons.prems(1,2), of v] obtain c1 where
    c1: "CycleChannel_Send c v = Ret (True, c1)" "cy_inv c1" "cy_size c1 = cy_size c" "\<not> cy_closed c1"
      "cy_contents c1 = drop (length (us @ [v]) - unat (cy_size c)) (us @ [v])"
    using push_latest_window [of "unat (cy_size c)" us v] Cons.prems(4) by auto
  with Cons.IH [of c1 "us @ [v]"] Cons.prems(3) show ?case
    by (simp add: CycleChannel_SendBlocking_def)
qed

text \<open>
  When the buffer size divides \<open>2 ^ 32\<close> the wrap-around of the counters is harmless: after any
  number of sends \<open>DrainAll\<close> returns the latest values, as many as the buffer holds, in order.
\<close>

theorem cycle_keeps_latest:
  assumes "0 < n" and "n < 2 ^ 31 - 1" and "nat n dvd 2 ^ 32"
  shows "\<exists>c c'. send_all (NewCycleChannel z n v) vs = Ret c \<and>
     CycleChannel_DrainAll z c = Ret (drop (length vs - nat n) vs, c')"
proof -
  let ?c = "NewCycleChannel z n v"
  have N: "cy_inv ?c" "cy_contents ?c = []" "unat (cy_size ?c) = nat n" "\<not> cy_closed ?c"
    using New_inv [OF assms(2), of z v] assms(1) by (auto simp: max_def NewCycleChannel_def Let_def)
  from send_all_latest [OF N(1,4), of "[]" vs] N assms(3) obtain c where
    "send_all ?c vs = Ret c" "cy_inv c" "cy_contents c = drop (length vs - nat n) vs" by auto
  with DrainAll_ok [of c z] show ?thesis by auto
qed

theorem cycle_keeps_latest_witness:
  "\<exists>c c'. send_all (NewCycleChannel 0 2 (0 :: int)) [1, 2, 3] = Ret c \<and>
     CycleChannel_DrainAll 0 c = Ret ([2, 3], c')"
  using cycle_keeps_latest [of 2 0 0 "[1, 2, 3]"] by simp

text \<open>Sending one value and receiving it, over and over.\<close>

fun send_receive :: "nat \<Rightarrow> 'a CycleChannel \<Rightarrow> 'a \<Rightarrow> 'a CycleChannel outcome" where
  "send_receive 0 c x = Ret c"
| "send_receive (Suc n) c x =
     bind_outcome (CycleChannel_Send c x) (\<lambda>(ok, c1).
     bind_outcome (CycleChannel_Receive c1) (\<lambda>(r, c2). send_receive n c2 x))"

definition idle :: "uint32 \<Rightarrow> uint32 \<Rightarrow> 'a CycleChannel \<Rightarrow> bool" where
  "idle s k c \<longleftrightarrow> cy_size c = s \<and> cy_head c = k \<and> cy_tail c = k \<and> cy_count c = 0 \<and>
     \<not> cy_closed c \<and> length (cy_buffer c) = unat s"

lemma idle_step:
  assumes "idle 3 k c"
  shows "\<exists>c1 c2. CycleChannel_Send c x = Ret (True, c1) \<and> CycleChannel_Receive c1 = Ret (Some x, c2) \<and>
    idle 3 (k + 1) c2"
proof -
  have "unat (k mod 3) < 3" by (simp add: unat_mod)
  with assms show ?thesis
    by (auto simp: idle_def CycleChannel_Send_def CycleChannel_Receive_def cy_take_def cy_pos_def Let_def)
qed

lemma send_receive_idle:
  "idle 3 k c \<Longrightarrow> \<exists>c'. send_receive n c x = Ret c' \<and> idle 3 (k + of_nat n) c'"
proof (induction n arbitrary: k c)
  case 0
  then show ?case by simp
next
  case (Suc n)
  from idle_step [OF Suc.prems, of x] obtain c1 c2 where
    c: "CycleChannel_Send c x = Ret (True, c1)" "CycleChannel_Receive c1 = Ret (Some x, c2)" "idle 3 (k + 1) c2"
    by blast
  from Suc.IH [OF c(3)] c(1,2) show ?case by (simp add: add.assoc)
qed

text \<open>
  A buffer whose size does not divide \<open>2 ^ 32\<close> loses a value when the counters wrap: on a new
  channel of size 3, after \<open>2 ^ 32 - 1\<close> rounds of sending and receiving one value, the values \<open>a\<close>
  and \<open>b\<close> sent next come out as \<open>b\<close> and \<open>b\<close>.
\<close>

theorem cycle_wrap_loses_value:
  "\<exists>c. send_receive (2 ^ 32 - 1) (NewCycleChannel z 3 v) x = Ret c \<and>
     run_cycle z c [CallSend a, CallSend b, CallReceive, CallReceive] =
       Ret [SentR True, SentR True, ReceivedR (Some b), ReceivedR (Some b)]"
proof -
  have "idle 3 0 (NewCycleChannel z 3 v)"
    by (simp add: idle_def NewCycleChannel_def Let_def)
  from send_receive_idle [OF this, of "2 ^ 32 - 1" x] obtain c where
    c: "send_receive (2 ^ 32 - 1) (NewCycleChannel z 3 v) x = Ret c" "idle 3 (of_nat (2 ^ 32 - 1)) c"
    by auto
  have k: "(of_nat (2 ^ 32 - 1) :: uint32) = 4294967295" by simp
  have "run_cycle z c [CallSend a, CallSend b, CallReceive, CallReceive] =
       Ret [SentR True, SentR True, ReceivedR (Some b), ReceivedR (Some b)]"
    using c(2) unfolding k
    by (simp add: idle_def CycleChannel_Send_def CycleChannel_Receive_def cy_take_def cy_pos_def Let_def)
  with c(1) show ?thesis by blast
qed

end
