(* ===== verification/Var_Channel.thy ===== *)
theory Var_Channel
  imports Go_Channel Sync_Root
begin

text \<open>
  \<open>BufferedChannel\<close> and \<open>UnbufferedChannel\<close> of \<open>internal/core/syncv2/vars/channel.go\<close>. Both hold a Go
  channel beside the current value, the version, the dirty flag and the closed flag; the two structs
  have the same fields. A blocking call that cannot proceed parks its goroutine \<open>g\<close> in the channel's
  queue; the statements after its channel operation are the tail that runs once it is woken. A
  non-blocking method, and a tail, is one step.
\<close>

section \<open>State and operations\<close>

record 'a ChannelVar =
  cv_ch :: "'a gochan"
  cv_current :: 'a
  cv_version :: uint64
  cv_dirty :: bool
  cv_closed :: bool

type_synonym 'a BufferedChannel = "'a ChannelVar"
type_synonym 'a UnbufferedChannel = "'a ChannelVar"

definition NewBufferedChannel :: "int \<Rightarrow> 'a \<Rightarrow> 'a BufferedChannel outcome" where
  "NewBufferedChannel bufferSize initialValue =
     bind_outcome (make_chan bufferSize) (\<lambda>ch.
       Ret \<lparr>cv_ch = ch, cv_current = initialValue, cv_version = 1, cv_dirty = False, cv_closed = False\<rparr>)"

definition BufferedChannel_Get :: "'a BufferedChannel \<Rightarrow> 'a" where
  "BufferedChannel_Get c = cv_current c"

text \<open>\<open>Set\<close> does not look at the closed flag before it sends.\<close>

definition BufferedChannel_Set ::
    "'a BufferedChannel \<Rightarrow> 'a \<Rightarrow> (bool \<times> 'a wake list \<times> 'a BufferedChannel) outcome" where
  "BufferedChannel_Set c v =
     (let c1 = c\<lparr>cv_current := v, cv_version := cv_version c + 1, cv_dirty := True\<rparr>
      in bind_outcome (chan_offer v (cv_ch c1)) (\<lambda>r.
           case r of Some (ws, ch) \<Rightarrow> Ret (True, ws, c1\<lparr>cv_ch := ch\<rparr>)
           | None \<Rightarrow> Ret (False, [], c1)))"

text \<open>The three stores that follow a completed send, and the one that follows a receive.\<close>

definition after_send :: "'a \<Rightarrow> 'a ChannelVar \<Rightarrow> 'a ChannelVar" where
  "after_send v c = c\<lparr>cv_current := v, cv_version := cv_version c + 1, cv_dirty := True\<rparr>"

definition after_receive :: "'a \<Rightarrow> 'a ChannelVar \<Rightarrow> 'a ChannelVar" where
  "after_receive v c = c\<lparr>cv_current := v\<rparr>"

text \<open>\<open>Send\<close> past its check of the closed flag; another goroutine may close the channel in between.\<close>

definition BufferedChannel_Send_select ::
    "'a BufferedChannel \<Rightarrow> 'a \<Rightarrow> (bool \<times> 'a wake list \<times> 'a BufferedChannel) outcome" where
  "BufferedChannel_Send_select c v =
     bind_outcome (chan_offer v (cv_ch c)) (\<lambda>r.
       case r of Some (ws, ch) \<Rightarrow> Ret (True, ws, after_send v (c\<lparr>cv_ch := ch\<rparr>))
       | None \<Rightarrow> Ret (False, [], c))"

definition BufferedChannel_Send ::
    "'a BufferedChannel \<Rightarrow> 'a \<Rightarrow> (bool \<times> 'a wake list \<times> 'a BufferedChannel) outcome" where
  "BufferedChannel_Send c v =
     (if cv_closed c then Ret (False, [], c) else BufferedChannel_Send_select c v)"

definition BufferedChannel_Receive ::
    "'a \<Rightarrow> 'a BufferedChannel \<Rightarrow> 'a option \<times> 'a wake list \<times> 'a BufferedChannel" where
  "BufferedChannel_Receive zero c =
     (case chan_poll zero (cv_ch c) of
        Some ((v, ok), ws, ch) \<Rightarrow> (Some v, ws, after_receive v (c\<lparr>cv_ch := ch\<rparr>))
      | None \<Rightarrow> (None, [], c))"

text \<open>The blocking methods; the first component says whether the call completed (it is parked
  otherwise).\<close>

definition BufferedChannel_SendBlocking ::
    "nat \<Rightarrow> 'a BufferedChannel \<Rightarrow> 'a \<Rightarrow> (bool \<times> 'a wake list \<times> 'a BufferedChannel) outcome" where
  "BufferedChannel_SendBlocking g c v =
     (if cv_closed c then Ret (True, [], c)
      else bind_outcome (chan_offer v (cv_ch c)) (\<lambda>r.
        case r of Some (ws, ch) \<Rightarrow> Ret (True, ws, after_send v (c\<lparr>cv_ch := ch\<rparr>))
        | None \<Rightarrow> Ret (False, [], c\<lparr>cv_ch := park_sender g v (cv_ch c)\<rparr>)))"

definition BufferedChannel_ReceiveBlocking ::
    "'a \<Rightarrow> nat \<Rightarrow> 'a BufferedChannel \<Rightarrow> 'a option \<times> 'a wake list \<times> 'a BufferedChannel" where
  "BufferedChannel_ReceiveBlocking zero g c =
     (case chan_poll zero (cv_ch c) of
        Some ((v, ok), ws, ch) \<Rightarrow> (Some v, ws, after_receive v (c\<lparr>cv_ch := ch\<rparr>))
      | None \<Rightarrow> (None, [], c\<lparr>cv_ch := park_receiver g (cv_ch c)\<rparr>))"

definition BufferedChannel_BufferSize :: "'a BufferedChannel \<Rightarrow> int" where
  "BufferedChannel_BufferSize c = int (gc_cap (cv_ch c))"

text \<open>The copy loop of \<open>SetBufferSize\<close>: \<open>break\<close> leaves the \<open>select\<close>, not the loop, so the loop drains
  the whole old channel.\<close>

fun refill :: "'a list \<Rightarrow> 'a gochan \<Rightarrow> 'a gochan outcome" where
  "refill [] newCh = Ret newCh"
| "refill (v # vs) newCh =
     bind_outcome (chan_offer v newCh) (\<lambda>r.
       case r of Some (ws, ch) \<Rightarrow> refill vs ch | None \<Rightarrow> refill vs newCh)"

datatype channel_error = ChIsClosed | CannotSetBufferSize

definition BufferedChannel_SetBufferSize ::
    "'a \<Rightarrow> 'a BufferedChannel \<Rightarrow> int \<Rightarrow>
     (channel_error option \<times> 'a wake list \<times> 'a BufferedChannel) outcome" where
  "BufferedChannel_SetBufferSize zero c sz =
     (if cv_closed c then Ret (Some ChIsClosed, [], c)
      else bind_outcome (make_chan sz) (\<lambda>newCh.
           bind_outcome (chan_close zero (cv_ch c)) (\<lambda>(ws, old).
           bind_outcome (refill (gc_buf old) newCh) (\<lambda>newCh'.
             Ret (None, ws, c\<lparr>cv_ch := newCh'\<rparr>)))))"

definition BufferedChannel_Version :: "'a BufferedChannel \<Rightarrow> uint64" where
  "BufferedChannel_Version c = cv_version c"

definition BufferedChannel_IsDirty :: "'a BufferedChannel \<Rightarrow> bool" where
  "BufferedChannel_IsDirty c = cv_dirty c"

definition BufferedChannel_MarkClean :: "'a BufferedChannel \<Rightarrow> 'a BufferedChannel" where
  "BufferedChannel_MarkClean c = c\<lparr>cv_dirty := False\<rparr>"

definition BufferedChannel_Close :: "'a \<Rightarrow> 'a BufferedChannel \<Rightarrow> ('a wake list \<times> 'a BufferedChannel) outcome" where
  "BufferedChannel_Close zero c =
     (if \<not> cv_closed c
      then bind_outcome (chan_close zero (cv_ch c)) (\<lambda>(ws, ch). Ret (ws, c\<lparr>cv_closed := True, cv_ch := ch\<rparr>))
      else Ret ([], c))"

definition NewUnbufferedChannel :: "'a \<Rightarrow> 'a UnbufferedChannel outcome" where
  "NewUnbufferedChannel initialValue =
     bind_outcome (make_chan 0) (\<lambda>ch.
       Ret \<lparr>cv_ch = ch, cv_current = initialValue, cv_version = 1, cv_dirty = False, cv_closed = False\<rparr>)"

definition UnbufferedChannel_Get :: "'a UnbufferedChannel \<Rightarrow> 'a" where
  "UnbufferedChannel_Get c = cv_current c"

definition UnbufferedChannel_Set :: "'a UnbufferedChannel \<Rightarrow> 'a \<Rightarrow> 'a UnbufferedChannel" where
  "UnbufferedChannel_Set c v = c\<lparr>cv_current := v, cv_version := cv_version c + 1, cv_dirty := True\<rparr>"

definition UnbufferedChannel_Send ::
    "'a UnbufferedChannel \<Rightarrow> 'a \<Rightarrow> (bool \<times> 'a wake list \<times> 'a UnbufferedChannel) outcome" where
  "UnbufferedChannel_Send c v =
     (if cv_closed c then Ret (False, [], c)
      else bind_outcome (chan_offer v (cv_ch c)) (\<lambda>r.
        case r of Some (ws, ch) \<Rightarrow> Ret (True, ws, after_send v (c\<lparr>cv_ch := ch\<rparr>))
        | None \<Rightarrow> Ret (False, [], c)))"

definition UnbufferedChannel_Receive ::
    "'a \<Rightarrow> 'a UnbufferedChannel \<Rightarrow> 'a option \<times> 'a wake list \<times> 'a UnbufferedChannel" where
  "UnbufferedChannel_Receive zero c =
     (case chan_poll zero (cv_ch c) of
        Some ((v, ok), ws, ch) \<Rightarrow> (Some v, ws, after_receive v (c\<lparr>cv_ch := ch\<rparr>))
      | None \<Rightarrow> (None, [], c))"

definition UnbufferedChannel_SendBlocking ::
    "nat \<Rightarrow> 'a UnbufferedChannel \<Rightarrow> 'a \<Rightarrow> (bool \<times> 'a wake list \<times> 'a UnbufferedChannel) outcome" where
  "UnbufferedChannel_SendBlocking g c v =
     (if cv_closed c then Ret (True, [], c)
      else bind_outcome (chan_offer v (cv_ch c)) (\<lambda>r.
        case r of Some (ws, ch) \<Rightarrow> Ret (True, ws, after_send v (c\<lparr>cv_ch := ch\<rparr>))
        | None \<Rightarrow> Ret (False, [], c\<lparr>cv_ch := park_sender g v (cv_ch c)\<rparr>)))"

definition UnbufferedChannel_ReceiveBlocking ::
    "'a \<Rightarrow> nat \<Rightarrow> 'a UnbufferedChannel \<Rightarrow> 'a option \<times> 'a wake list \<times> 'a UnbufferedChannel" where
  "UnbufferedChannel_ReceiveBlocking zero g c =
     (case chan_poll zero (cv_ch c) of
        Some ((v, ok), ws, ch) \<Rightarrow> (Some v, ws, after_receive v (c\<lparr>cv_ch := ch\<rparr>))
      | None \<Rightarrow> (None, [], c\<lparr>cv_ch := park_receiver g (cv_ch c)\<rparr>))"

definition UnbufferedChannel_BufferSize :: "'a UnbufferedChannel \<Rightarrow> int" where
  "UnbufferedChannel_BufferSize c = 0"

definition UnbufferedChannel_SetBufferSize ::
    "'a UnbufferedChannel \<Rightarrow> int \<Rightarrow> channel_error option \<times> 'a UnbufferedChannel" where
  "UnbufferedChannel_SetBufferSize c sz = (Some CannotSetBufferSize, c)"

definition UnbufferedChannel_Version :: "'a UnbufferedChannel \<Rightarrow> uint64" where
  "UnbufferedChannel_Version c = cv_version c"

definition UnbufferedChannel_IsDirty :: "'a UnbufferedChannel \<Rightarrow> bool" where
  "UnbufferedChannel_IsDirty c = cv_dirty c"

definition UnbufferedChannel_MarkClean :: "'a UnbufferedChannel \<Rightarrow> 'a UnbufferedChannel" where
  "UnbufferedChannel_MarkClean c = c\<lparr>cv_dirty := False\<rparr>"

definition UnbufferedChannel_Close ::
    "'a \<Rightarrow> 'a UnbufferedChannel \<Rightarrow> ('a wake list \<times> 'a UnbufferedChannel) outcome" where
  "UnbufferedChannel_Close zero c =
     (if \<not> cv_closed c
      then bind_outcome (chan_close zero (cv_ch c)) (\<lambda>(ws, ch). Ret (ws, c\<lparr>cv_closed := True, cv_ch := ch\<rparr>))
      else Ret ([], c))"

section \<open>Goroutines on one channel variable\<close>

text \<open>
  The methods a goroutine calls, as one table, and the calls of any number of goroutines in any
  order. A call may wake parked goroutines; their tails stay in a list until \<open>CTail i\<close> runs one.
  A run yields the values accepted (by a completed send or from a sender that parked) and the values
  handed to receivers, both in order.
\<close>

record ('s, 'a) channel_ops =
  co_send :: "'s \<Rightarrow> 'a \<Rightarrow> (bool \<times> 'a wake list \<times> 's) outcome"
  co_send_blocking :: "nat \<Rightarrow> 's \<Rightarrow> 'a \<Rightarrow> (bool \<times> 'a wake list \<times> 's) outcome"
  co_receive :: "'s \<Rightarrow> 'a option \<times> 'a wake list \<times> 's"
  co_receive_blocking :: "nat \<Rightarrow> 's \<Rightarrow> 'a option \<times> 'a wake list \<times> 's"
  co_set :: "'s \<Rightarrow> 'a \<Rightarrow> (bool \<times> 'a wake list \<times> 's) outcome"
  co_clean :: "'s \<Rightarrow> 's"
  co_tail :: "'a wake \<Rightarrow> 's \<Rightarrow> 's"

datatype 'a call = CSend 'a | CSendBlocking nat 'a | CReceive | CReceiveBlocking nat | CSet 'a
  | CMarkClean | CTail nat

fun channel_step :: "('s, 'a) channel_ops \<Rightarrow> 'a call \<Rightarrow> 's \<Rightarrow> 'a wake list \<Rightarrow>
    ('a list \<times> 'a list \<times> 's \<times> 'a wake list) outcome" where
  "channel_step ops (CSend v) s tails =
     bind_outcome (co_send ops s v) (\<lambda>(ok, ws, s').
       Ret (if ok then [v] else [], woken_values ws, s', tails @ ws))"
| "channel_step ops (CSendBlocking g v) s tails =
     bind_outcome (co_send_blocking ops g s v) (\<lambda>(done, ws, s').
       Ret ([v], woken_values ws, s', tails @ ws))"
| "channel_step ops CReceive s tails =
     (let (r, ws, s') = co_receive ops s in Ret ([], case_option [] (\<lambda>v. [v]) r, s', tails @ ws))"
| "channel_step ops (CReceiveBlocking g) s tails =
     (let (r, ws, s') = co_receive_blocking ops g s
      in Ret ([], case_option [] (\<lambda>v. [v]) r, s', tails @ ws))"
| "channel_step ops (CSet v) s tails =
     bind_outcome (co_set ops s v) (\<lambda>(ok, ws, s').
       Ret (if ok then [v] else [], woken_values ws, s', tails @ ws))"
| "channel_step ops CMarkClean s tails = Ret ([], [], co_clean ops s, tails)"
| "channel_step ops (CTail i) s tails =
     (if i < length tails then Ret ([], [], co_tail ops (tails ! i) s, take i tails @ drop (i + 1) tails)
      else Ret ([], [], s, tails))"

fun channel_run :: "('s, 'a) channel_ops \<Rightarrow> 'a call list \<Rightarrow> 's \<Rightarrow> 'a wake list \<Rightarrow>
    ('a list \<times> 'a list \<times> 's \<times> 'a wake list) outcome" where
  "channel_run ops [] s tails = Ret ([], [], s, tails)"
| "channel_run ops (c # cs) s tails =
     bind_outcome (channel_step ops c s tails) (\<lambda>(acc, del, s', tails').
     bind_outcome (channel_run ops cs s' tails') (\<lambda>(accs, dels, s'', tails'').
       Ret (acc @ accs, del @ dels, s'', tails'')))"

text \<open>What the methods of a channel variable promise for its pending values.\<close>

locale ordered_channel =
  fixes ops :: "('s, 'a) channel_ops" and pending :: "'s \<Rightarrow> 'a list" and invar :: "'s \<Rightarrow> bool"
  assumes send_order: "invar s \<Longrightarrow> \<exists>ok ws s'. co_send ops s v = Ret (ok, ws, s') \<and> invar s' \<and>
        pending s @ (if ok then [v] else []) = woken_values ws @ pending s'"
    and send_blocking_order: "invar s \<Longrightarrow> \<exists>done ws s'. co_send_blocking ops g s v = Ret (done, ws, s') \<and>
        invar s' \<and> pending s @ [v] = woken_values ws @ pending s'"
    and set_order: "invar s \<Longrightarrow> \<exists>ok ws s'. co_set ops s v = Ret (ok, ws, s') \<and> invar s' \<and>
        pending s @ (if ok then [v] else []) = woken_values ws @ pending s'"
    and receive_order: "invar s \<Longrightarrow> co_receive ops s = (r, ws, s') \<Longrightarrow> invar s' \<and>
        pending s = case_option [] (\<lambda>v. [v]) r @ pending s'"
    and receive_blocking_order: "invar s \<Longrightarrow> co_receive_blocking ops g s = (r, ws, s') \<Longrightarrow> invar s' \<and>
        pending s = case_option [] (\<lambda>v. [v]) r @ pending s'"
    and clean_order: "invar s \<Longrightarrow> invar (co_clean ops s) \<and> pending (co_clean ops s) = pending s"
    and tail_order: "invar s \<Longrightarrow> invar (co_tail ops w s) \<and> pending (co_tail ops w s) = pending s"
begin

lemma step_order:
  assumes "invar s"
  shows "\<exists>acc del s' tails'. channel_step ops c s tails = Ret (acc, del, s', tails') \<and> invar s' \<and>
    pending s @ acc = del @ pending s'"
proof (cases c)
  case (CSend v)
  with send_order [OF assms, of v] show ?thesis by fastforce
next
  case (CSendBlocking g v)
  with send_blocking_order [OF assms, of g v] show ?thesis by fastforce
next
  case CReceive
  then show ?thesis using receive_order [OF assms] by (auto split: prod.split)
next
  case (CReceiveBlocking g)
  then show ?thesis using receive_blocking_order [OF assms] by (auto split: prod.split)
next
  case (CSet v)
  with set_order [OF assms, of v] show ?thesis by fastforce
qed (use assms clean_order tail_order in auto)

lemma run_order:
  "invar s \<Longrightarrow> \<exists>acc del s' tails'. channel_run ops cs s tails = Ret (acc, del, s', tails') \<and> invar s' \<and>
     pending s @ acc = del @ pending s'"
proof (induction cs arbitrary: s tails)
  case Nil
  then show ?case by simp
next
  case (Cons c cs)
  from step_order [OF Cons.prems, of c tails] obtain acc del s1 tails1 where
    1: "channel_step ops c s tails = Ret (acc, del, s1, tails1)" "invar s1" "pending s @ acc = del @ pending s1"
    by blast
  from Cons.IH [OF 1(2), of tails1] obtain accs dels s2 tails2 where
    2: "channel_run ops cs s1 tails1 = Ret (accs, dels, s2, tails2)" "invar s2" "pending s1 @ accs = dels @ pending s2"
    by blast
  have "pending s @ acc @ accs = (del @ dels) @ pending s2"
    using 1(3) 2(3) by (metis append.assoc)
  with 1 2 show ?case by simp
qed

end

text \<open>The tail of a woken goroutine; a sender whose channel was closed panics instead of running one.\<close>

fun cv_tail :: "'a wake \<Rightarrow> 'a ChannelVar \<Rightarrow> 'a ChannelVar" where
  "cv_tail (Received g v ok) c = after_receive v c"
| "cv_tail (Sent g v) c = after_send v c"
| "cv_tail (SendPanics g) c = c"

definition buffered_ops :: "'a \<Rightarrow> ('a BufferedChannel, 'a) channel_ops" where
  "buffered_ops zero = \<lparr>co_send = BufferedChannel_Send, co_send_blocking = BufferedChannel_SendBlocking,
     co_receive = BufferedChannel_Receive zero, co_receive_blocking = BufferedChannel_ReceiveBlocking zero,
     co_set = BufferedChannel_Set, co_clean = BufferedChannel_MarkClean, co_tail = cv_tail\<rparr>"

definition unbuffered_ops :: "'a \<Rightarrow> ('a UnbufferedChannel, 'a) channel_ops" where
  "unbuffered_ops zero = \<lparr>co_send = UnbufferedChannel_Send, co_send_blocking = UnbufferedChannel_SendBlocking,
     co_receive = UnbufferedChannel_Receive zero, co_receive_blocking = UnbufferedChannel_ReceiveBlocking zero,
     co_set = (\<lambda>c v. Ret (False, [], UnbufferedChannel_Set c v)), co_clean = UnbufferedChannel_MarkClean,
     co_tail = cv_tail\<rparr>"

definition cv_open :: "nat \<Rightarrow> 'a ChannelVar \<Rightarrow> bool" where
  "cv_open n c \<longleftrightarrow> chan_wf (cv_ch c) \<and> \<not> gc_closed (cv_ch c) \<and> \<not> cv_closed c \<and> gc_cap (cv_ch c) = n"

lemma cv_tail_ch [simp]: "cv_ch (cv_tail w c) = cv_ch c" "cv_closed (cv_tail w c) = cv_closed c"
  by (cases w; simp add: after_receive_def after_send_def)+

lemma cv_after [simp]:
  "cv_ch (after_send v c) = cv_ch c" "cv_closed (after_send v c) = cv_closed c"
  "cv_ch (after_receive v c) = cv_ch c" "cv_closed (after_receive v c) = cv_closed c"
  by (simp_all add: after_receive_def after_send_def)

text \<open>One offer or poll on an open channel, with the variable's stores around it.\<close>

lemma park_fields [simp]:
  "gc_closed (park_sender g v ch) = gc_closed ch" "gc_cap (park_sender g v ch) = gc_cap ch"
  "gc_closed (park_receiver g ch) = gc_closed ch" "gc_cap (park_receiver g ch) = gc_cap ch"
  by (simp_all add: park_sender_def park_receiver_def)

lemma offer_cases:
  assumes "cv_open n c"
  obtains (taken) ws ch where "chan_offer v (cv_ch c) = Ret (Some (ws, ch))" "cv_open n (c\<lparr>cv_ch := ch\<rparr>)"
      "chan_values (cv_ch c) @ [v] = woken_values ws @ chan_values ch"
  | (full) "chan_offer v (cv_ch c) = Ret None" "\<And>g. cv_open n (c\<lparr>cv_ch := park_sender g v (cv_ch c)\<rparr>)"
      "\<And>g. chan_values (park_sender g v (cv_ch c)) = chan_values (cv_ch c) @ [v]"
proof -
  have o: "chan_wf (cv_ch c)" "\<not> gc_closed (cv_ch c)" "\<not> cv_closed c" "gc_cap (cv_ch c) = n"
    using assms by (simp_all add: cv_open_def)
  from chan_offer_open [OF o(2), of v] obtain r where r: "chan_offer v (cv_ch c) = Ret r"
    by (auto simp: returns_iff)
  show ?thesis
  proof (cases r)
    case None
    with r o chan_offer_none [of v "cv_ch c"] show ?thesis by (auto intro!: full simp: cv_open_def)
  next
    case (Some p)
    with r o chan_offer_ok [of v "cv_ch c"] show ?thesis
      by (cases p) (auto intro!: taken simp: cv_open_def)
  qed
qed

lemma poll_cases:
  assumes "cv_open n c"
  obtains (got) v ws ch where "chan_poll zero (cv_ch c) = Some ((v, True), ws, ch)"
      "cv_open n (c\<lparr>cv_ch := ch\<rparr>)" "chan_values (cv_ch c) = v # chan_values ch"
  | (none) "chan_poll zero (cv_ch c) = None" "\<And>g. cv_open n (c\<lparr>cv_ch := park_receiver g (cv_ch c)\<rparr>)"
      "chan_values (cv_ch c) = []" "\<And>g. chan_values (park_receiver g (cv_ch c)) = []"
proof -
  have o: "chan_wf (cv_ch c)" "\<not> gc_closed (cv_ch c)" "\<not> cv_closed c" "gc_cap (cv_ch c) = n"
    using assms by (simp_all add: cv_open_def)
  show ?thesis
  proof (cases "chan_poll zero (cv_ch c)")
    case None
    with o chan_poll_none [of zero "cv_ch c"] show ?thesis by (auto intro!: none simp: cv_open_def)
  next
    case (Some p)
    then obtain v ok ws ch where p: "chan_poll zero (cv_ch c) = Some ((v, ok), ws, ch)"
      by (metis prod.collapse)
    with o(2) chan_poll_closed [of zero "cv_ch c" v ws ch] have "ok = True" by (cases ok) auto
    with p o chan_poll_value [of zero "cv_ch c" v ws ch] show ?thesis
      by (auto intro!: got simp: cv_open_def)
  qed
qed

lemma cv_open_stores [simp]:
  "cv_open n (c\<lparr>cv_current := v\<rparr>) = cv_open n c" "cv_open n (c\<lparr>cv_version := k\<rparr>) = cv_open n c"
  "cv_open n (c\<lparr>cv_dirty := d\<rparr>) = cv_open n c" "cv_open n (after_send v c) = cv_open n c"
  "cv_open n (after_receive v c) = cv_open n c" "cv_open n (cv_tail w c) = cv_open n c"
  by (simp_all add: cv_open_def)

lemma unbuffered_same_code:
  "UnbufferedChannel_Send = BufferedChannel_Send"
  "UnbufferedChannel_SendBlocking = BufferedChannel_SendBlocking"
  "UnbufferedChannel_Receive = BufferedChannel_Receive"
  "UnbufferedChannel_ReceiveBlocking = BufferedChannel_ReceiveBlocking"
  "UnbufferedChannel_MarkClean = BufferedChannel_MarkClean"
  by (auto simp: fun_eq_iff UnbufferedChannel_Send_def BufferedChannel_Send_def BufferedChannel_Send_select_def
      UnbufferedChannel_SendBlocking_def BufferedChannel_SendBlocking_def UnbufferedChannel_Receive_def
      BufferedChannel_Receive_def UnbufferedChannel_ReceiveBlocking_def BufferedChannel_ReceiveBlocking_def
      UnbufferedChannel_MarkClean_def BufferedChannel_MarkClean_def)

lemma cv_open_not_closed: "cv_open n c \<Longrightarrow> \<not> cv_closed c"
  by (simp add: cv_open_def)

lemma Send_order:
  assumes "cv_open n c"
  shows "\<exists>ok ws c'. BufferedChannel_Send c v = Ret (ok, ws, c') \<and> cv_open n c' \<and>
    chan_values (cv_ch c) @ (if ok then [v] else []) = woken_values ws @ chan_values (cv_ch c')"
  by (rule offer_cases [OF assms, of v])
    (use assms in \<open>auto simp: BufferedChannel_Send_def BufferedChannel_Send_select_def cv_open_not_closed\<close>)

lemma SendBlocking_order:
  assumes "cv_open n c"
  shows "\<exists>ok ws c'. BufferedChannel_SendBlocking g c v = Ret (ok, ws, c') \<and> cv_open n c' \<and>
    chan_values (cv_ch c) @ [v] = woken_values ws @ chan_values (cv_ch c')"
  by (rule offer_cases [OF assms, of v])
    (use assms in \<open>auto simp: BufferedChannel_SendBlocking_def cv_open_not_closed\<close>)

lemma Set_order:
  assumes "cv_open n c"
  shows "\<exists>ok ws c'. BufferedChannel_Set c v = Ret (ok, ws, c') \<and> cv_open n c' \<and>
    chan_values (cv_ch c) @ (if ok then [v] else []) = woken_values ws @ chan_values (cv_ch c')"
  by (rule offer_cases [OF assms, of v]) (use assms in \<open>auto simp: BufferedChannel_Set_def Let_def cv_open_def\<close>)

lemma Receive_order:
  assumes "cv_open n c" and "BufferedChannel_Receive zero c = (r, ws, c')"
  shows "cv_open n c' \<and> chan_values (cv_ch c) = case_option [] (\<lambda>v. [v]) r @ chan_values (cv_ch c')"
  by (rule poll_cases [OF assms(1), of zero]) (use assms in \<open>auto simp: BufferedChannel_Receive_def\<close>)

lemma ReceiveBlocking_order:
  assumes "cv_open n c" and "BufferedChannel_ReceiveBlocking zero g c = (r, ws, c')"
  shows "cv_open n c' \<and> chan_values (cv_ch c) = case_option [] (\<lambda>v. [v]) r @ chan_values (cv_ch c')"
  by (rule poll_cases [OF assms(1), of zero]) (use assms in \<open>auto simp: BufferedChannel_ReceiveBlocking_def\<close>)

lemma MarkClean_order:
  "cv_open n c \<Longrightarrow> cv_open n (BufferedChannel_MarkClean c) \<and>
     chan_values (cv_ch (BufferedChannel_MarkClean c)) = chan_values (cv_ch c)"
  by (simp add: BufferedChannel_MarkClean_def)

lemma tail_order:
  "cv_open n c \<Longrightarrow> cv_open n (cv_tail w c) \<and> chan_values (cv_ch (cv_tail w c)) = chan_values (cv_ch c)"
  by simp

lemma Unbuffered_Set_order:
  "cv_open n c \<Longrightarrow> \<exists>ok ws c'. Ret (False, [], UnbufferedChannel_Set c v) = Ret (ok, ws, c') \<and> cv_open n c' \<and>
    chan_values (cv_ch c) @ (if ok then [v] else []) = woken_values ws @ chan_values (cv_ch c')"
  by (auto simp: UnbufferedChannel_Set_def)

lemmas channel_orders = Send_order SendBlocking_order Set_order Unbuffered_Set_order Receive_order
  ReceiveBlocking_order MarkClean_order tail_order

interpretation buffered: ordered_channel "buffered_ops zero" "\<lambda>c. chan_values (cv_ch c)" "cv_open n" for zero n
  by unfold_locales (simp_all only: buffered_ops_def channel_ops.select_convs, (erule (1) channel_orders | erule channel_orders)+)

interpretation unbuffered: ordered_channel "unbuffered_ops zero" "\<lambda>c. chan_values (cv_ch c)" "cv_open 0" for zero
  by unfold_locales (simp_all only: unbuffered_ops_def channel_ops.select_convs unbuffered_same_code,
      (erule (1) channel_orders | erule channel_orders)+)

section \<open>One goroutine\<close>

definition cv_idle :: "nat \<Rightarrow> 'a ChannelVar \<Rightarrow> bool" where
  "cv_idle n c \<longleftrightarrow> cv_open n c \<and> gc_recvq (cv_ch c) = [] \<and> gc_sendq (cv_ch c) = []"

lemma cv_idle_simps [simp]:
  "cv_idle n (c\<lparr>cv_current := v\<rparr>) = cv_idle n c" "cv_idle n (c\<lparr>cv_version := k\<rparr>) = cv_idle n c"
  "cv_idle n (c\<lparr>cv_dirty := d\<rparr>) = cv_idle n c" "cv_idle n (after_send v c) = cv_idle n c"
  "cv_idle n (after_receive v c) = cv_idle n c"
  by (simp_all add: cv_idle_def)

lemma idle_offer:
  "cv_idle n c \<Longrightarrow> chan_offer v (cv_ch c) =
     Ret (if length (gc_buf (cv_ch c)) < n then Some ([], (cv_ch c)\<lparr>gc_buf := gc_buf (cv_ch c) @ [v]\<rparr>) else None)"
  by (simp add: cv_idle_def cv_open_def chan_offer_def)

lemma idle_poll:
  "cv_idle n c \<Longrightarrow> chan_poll zero (cv_ch c) =
     (case gc_buf (cv_ch c) of [] \<Rightarrow> None | v # vs \<Rightarrow> Some ((v, True), [], (cv_ch c)\<lparr>gc_buf := vs\<rparr>))"
  by (auto simp: cv_idle_def cv_open_def chan_poll_def split: list.split)

lemma idle_buf:
  "cv_idle n c \<Longrightarrow> length xs \<le> n \<Longrightarrow> cv_idle n (c\<lparr>cv_ch := (cv_ch c)\<lparr>gc_buf := xs\<rparr>\<rparr>)"
  by (simp add: cv_idle_def cv_open_def chan_wf_def)

definition buffered_set :: "'a BufferedChannel \<Rightarrow> 'a \<Rightarrow> 'a BufferedChannel outcome" where
  "buffered_set c v = bind_outcome (BufferedChannel_Set c v) (\<lambda>(ok, ws, c'). Ret c')"

definition buffered_receive :: "'a \<Rightarrow> 'a BufferedChannel \<Rightarrow> ('a option \<times> 'a BufferedChannel) outcome" where
  "buffered_receive zero c = (let (r, ws, c') = BufferedChannel_Receive zero c in Ret (r, c'))"

lemma idle_set:
  assumes "cv_idle n c"
  shows "buffered_set c v = Ret (after_send v
    (if length (gc_buf (cv_ch c)) < n then c\<lparr>cv_ch := (cv_ch c)\<lparr>gc_buf := gc_buf (cv_ch c) @ [v]\<rparr>\<rparr> else c))"
  using idle_offer [OF assms, of v]
  by (simp add: buffered_set_def BufferedChannel_Set_def after_send_def)

interpretation buffered_seq: fifo_channel
  "\<lambda>c. Ret (BufferedChannel_Get c)" buffered_set BufferedChannel_Version BufferedChannel_IsDirty
  BufferedChannel_MarkClean "cv_idle n" "buffered_receive zero" "\<lambda>c. gc_buf (cv_ch c)" for n zero
proof unfold_locales
  fix s :: "'a ChannelVar" and v
  assume s: "cv_idle n s"
  show "\<exists>s'. buffered_set s v = Ret s' \<and> cv_idle n s' \<and> Ret (BufferedChannel_Get s') = Ret v \<and>
    BufferedChannel_Version s' = BufferedChannel_Version s + 1 \<and> BufferedChannel_IsDirty s'"
    using idle_buf [OF s] s idle_set [OF s, of v]
    by (auto simp: BufferedChannel_Get_def BufferedChannel_Version_def BufferedChannel_IsDirty_def after_send_def)
next
  fix s :: "'a ChannelVar" and v vs
  assume s: "cv_idle n s" and vs: "gc_buf (cv_ch s) = v # vs"
  have "length vs \<le> n" using s vs by (auto simp: cv_idle_def cv_open_def chan_wf_def)
  with idle_buf [OF s] idle_poll [OF s, of zero] vs show "\<exists>s'. buffered_receive zero s = Ret (Some v, s') \<and>
    cv_idle n s' \<and> gc_buf (cv_ch s') = vs \<and> Ret (BufferedChannel_Get s') = Ret v \<and>
    BufferedChannel_Version s' = BufferedChannel_Version s \<and> BufferedChannel_IsDirty s' = BufferedChannel_IsDirty s"
    by (auto simp: buffered_receive_def BufferedChannel_Receive_def BufferedChannel_Get_def
        BufferedChannel_Version_def BufferedChannel_IsDirty_def after_receive_def)
next
  fix s :: "'a ChannelVar"
  assume "cv_idle n s" and "gc_buf (cv_ch s) = []"
  with idle_poll [of n s zero] show "buffered_receive zero s = Ret (None, s)"
    by (simp add: buffered_receive_def BufferedChannel_Receive_def)
qed (simp_all add: BufferedChannel_MarkClean_def BufferedChannel_Get_def BufferedChannel_Version_def
    BufferedChannel_IsDirty_def)

interpretation unbuffered_seq: sync_root
  "\<lambda>c. Ret (UnbufferedChannel_Get c)" "\<lambda>c v. Ret (UnbufferedChannel_Set c v)" UnbufferedChannel_Version
  UnbufferedChannel_IsDirty UnbufferedChannel_MarkClean "cv_open 0"
  by unfold_locales
    (simp_all add: UnbufferedChannel_Get_def UnbufferedChannel_Set_def UnbufferedChannel_Version_def
      UnbufferedChannel_IsDirty_def UnbufferedChannel_MarkClean_def)

section \<open>Properties\<close>

lemma NewBufferedChannel_open: "NewBufferedChannel n x = Ret c \<Longrightarrow> 0 \<le> n \<and> cv_idle (nat n) c \<and> gc_buf (cv_ch c) = []"
  by (auto simp: NewBufferedChannel_def make_chan_def cv_idle_def cv_open_def chan_wf_def split: if_splits)

text \<open>
  C1. \<open>BufferedChannel\<close> is a bounded FIFO queue under any interleaving of calls by any number of
  goroutines (\<open>Send\<close>, \<open>SendBlocking\<close>, \<open>Receive\<close>, \<open>ReceiveBlocking\<close>, \<open>Set\<close>, \<open>MarkClean\<close>, and the tails of
  woken goroutines) until it is closed or resized: no call panics, the values accepted are the values
  delivered, in the same order, followed by the ones still inside, and the buffer never exceeds its size.
\<close>

theorem buffered_fifo:
  assumes "NewBufferedChannel n x = Ret c"
  shows "\<exists>acc del c' tails. channel_run (buffered_ops zero) calls c [] = Ret (acc, del, c', tails) \<and>
    acc = del @ gc_buf (cv_ch c') @ map snd (gc_sendq (cv_ch c')) \<and>
    int (length (gc_buf (cv_ch c'))) \<le> n \<and> BufferedChannel_BufferSize c' = n \<and>
    (gc_sendq (cv_ch c') \<noteq> [] \<longrightarrow> int (length (gc_buf (cv_ch c'))) = n)"
proof -
  from NewBufferedChannel_open [OF assms] have c: "0 \<le> n" "cv_open (nat n) c" "chan_values (cv_ch c) = []"
    by (auto simp: cv_idle_def chan_values_def)
  from buffered.run_order [OF c(2), of zero calls "[]"] c(3) obtain acc del c' tails where
    r: "channel_run (buffered_ops zero) calls c [] = Ret (acc, del, c', tails)"
    "cv_open (nat n) c'" "acc = del @ chan_values (cv_ch c')" by auto
  have "int (length (gc_buf (cv_ch c'))) \<le> n \<and> BufferedChannel_BufferSize c' = n \<and>
    (gc_sendq (cv_ch c') \<noteq> [] \<longrightarrow> int (length (gc_buf (cv_ch c'))) = n)"
    using r(2) c(1) by (auto simp: cv_open_def chan_wf_def BufferedChannel_BufferSize_def)
  with r show ?thesis by (auto simp: chan_values_def)
qed

theorem buffered_fifo_witness:
  "\<exists>acc del c' tails. channel_run (buffered_ops 0) [CSend 1, CSend 2, CSendBlocking 7 3, CReceive, CTail 0, CReceive]
      \<lparr>cv_ch = \<lparr>gc_buf = [], gc_cap = 2, gc_closed = False, gc_recvq = [], gc_sendq = []\<rparr>,
       cv_current = (0::int), cv_version = 1, cv_dirty = False, cv_closed = False\<rparr> [] = Ret (acc, del, c', tails) \<and>
    acc = del @ gc_buf (cv_ch c') @ map snd (gc_sendq (cv_ch c')) \<and>
    int (length (gc_buf (cv_ch c'))) \<le> 2 \<and> BufferedChannel_BufferSize c' = 2 \<and>
    (gc_sendq (cv_ch c') \<noteq> [] \<longrightarrow> int (length (gc_buf (cv_ch c'))) = 2)"
  by (rule buffered_fifo [of 2 0]) (simp add: NewBufferedChannel_def make_chan_def)

text \<open>
  On an \<open>UnbufferedChannel\<close> values pass only hand to hand: nothing is ever buffered, what was
  accepted is what was delivered followed by the values of the senders still parked, in order, and
  no sender and receiver are parked at the same time.
\<close>

theorem unbuffered_rendezvous:
  assumes "NewUnbufferedChannel x = Ret c"
  shows "\<exists>acc del c' tails. channel_run (unbuffered_ops zero) calls c [] = Ret (acc, del, c', tails) \<and>
    gc_buf (cv_ch c') = [] \<and> acc = del @ map snd (gc_sendq (cv_ch c')) \<and>
    (gc_sendq (cv_ch c') = [] \<or> gc_recvq (cv_ch c') = [])"
proof -
  have c: "cv_open 0 c" "chan_values (cv_ch c) = []"
    using assms by (auto simp: NewUnbufferedChannel_def make_chan_def cv_open_def chan_wf_def chan_values_def)
  from unbuffered.run_order [OF c(1), of zero calls "[]"] c(2) show ?thesis
    by (auto simp: cv_open_def chan_wf_def chan_values_def)
qed

theorem unbuffered_rendezvous_witness:
  "\<exists>acc del c' tails. channel_run (unbuffered_ops 0) [CSend 1, CReceiveBlocking 7, CSend 2, CTail 0, CSendBlocking 8 3]
      \<lparr>cv_ch = \<lparr>gc_buf = [], gc_cap = 0, gc_closed = False, gc_recvq = [], gc_sendq = []\<rparr>,
       cv_current = (0::int), cv_version = 1, cv_dirty = False, cv_closed = False\<rparr> [] = Ret (acc, del, c', tails) \<and>
    gc_buf (cv_ch c') = [] \<and> acc = del @ map snd (gc_sendq (cv_ch c')) \<and>
    (gc_sendq (cv_ch c') = [] \<or> gc_recvq (cv_ch c') = [])"
  by (rule unbuffered_rendezvous [of 0]) (simp add: NewUnbufferedChannel_def make_chan_def)

lemma refill_idle:
  "gc_recvq ch = [] \<Longrightarrow> \<not> gc_closed ch \<Longrightarrow>
     refill vs ch = Ret (ch\<lparr>gc_buf := gc_buf ch @ take (gc_cap ch - length (gc_buf ch)) vs\<rparr>)"
proof (induction vs arbitrary: ch)
  case Nil
  then show ?case by simp
next
  case (Cons v vs)
  show ?case
  proof (cases "length (gc_buf ch) < gc_cap ch")
    case True
    have "gc_cap ch - length (gc_buf ch) = Suc (gc_cap ch - Suc (length (gc_buf ch)))" using True by simp
    with True Cons show ?thesis by (simp add: chan_offer_def)
  next
    case False
    with Cons show ?thesis by (simp add: chan_offer_def)
  qed
qed

text \<open>
  Resizing an open \<open>BufferedChannel\<close> succeeds for every non-negative size and panics for a negative
  one. The new channel holds the oldest \<open>size\<close> values in order; the value, the version and the
  dirty flag stay. The old channel is closed on the way: every goroutine parked in \<open>SendBlocking\<close>
  panics and loses its value, and every one parked in \<open>ReceiveBlocking\<close> returns the zero value.
\<close>

theorem buffered_resize:
  assumes "cv_open n c"
  shows "BufferedChannel_SetBufferSize zero c sz =
    (if sz < 0 then Panic NegativeSize
     else Ret (None,
       map (\<lambda>r. Received r zero False) (gc_recvq (cv_ch c)) @ map (\<lambda>(s, w). SendPanics s) (gc_sendq (cv_ch c)),
       c\<lparr>cv_ch := \<lparr>gc_buf = take (nat sz) (gc_buf (cv_ch c)), gc_cap = nat sz, gc_closed = False,
          gc_recvq = [], gc_sendq = []\<rparr>\<rparr>))"
  using assms
  by (simp add: BufferedChannel_SetBufferSize_def cv_open_def make_chan_def chan_close_def refill_idle)

theorem buffered_resize_witness:
  "BufferedChannel_SetBufferSize 0
     \<lparr>cv_ch = \<lparr>gc_buf = [1, 2], gc_cap = 2, gc_closed = False, gc_recvq = [], gc_sendq = [(7, 3)]\<rparr>,
      cv_current = (2::int), cv_version = 3, cv_dirty = True, cv_closed = False\<rparr> 3 =
   Ret (None, [SendPanics 7],
     \<lparr>cv_ch = \<lparr>gc_buf = [1, 2], gc_cap = 3, gc_closed = False, gc_recvq = [], gc_sendq = []\<rparr>,
      cv_current = 2, cv_version = 3, cv_dirty = True, cv_closed = False\<rparr>)"
  by (subst buffered_resize [of 2]) (simp_all add: cv_open_def chan_wf_def)

lemma Close_open:
  "cv_open n c \<Longrightarrow> \<exists>ws. BufferedChannel_Close zero c = Ret (ws, c\<lparr>cv_closed := True,
     cv_ch := (cv_ch c)\<lparr>gc_closed := True, gc_recvq := [], gc_sendq := []\<rparr>\<rparr>)"
  by (auto simp: BufferedChannel_Close_def chan_close_def cv_open_def)

text \<open>
  After \<open>Close\<close>: a second \<open>Close\<close> does nothing, \<open>Send\<close> and \<open>SendBlocking\<close> are refused without effect,
  \<open>Receive\<close> still delivers the buffered values in order and from then on returns the zero value with
  \<open>true\<close>, overwriting the current value with it; \<open>Set\<close>, and a \<open>Send\<close> that had passed its check of the
  closed flag before, panic.
\<close>

theorem buffered_after_close:
  assumes "cv_open n c" and "BufferedChannel_Close zero c = Ret (ws, d)"
  shows "BufferedChannel_Close zero d = Ret ([], d) \<and>
    BufferedChannel_Send d v = Ret (False, [], d) \<and>
    BufferedChannel_SendBlocking g d v = Ret (True, [], d) \<and>
    BufferedChannel_Receive zero d =
      (case gc_buf (cv_ch c) of
         w # vs \<Rightarrow> (Some w, [], d\<lparr>cv_ch := (cv_ch d)\<lparr>gc_buf := vs\<rparr>, cv_current := w\<rparr>)
       | [] \<Rightarrow> (Some zero, [], d\<lparr>cv_current := zero\<rparr>)) \<and>
    BufferedChannel_Set d v = Panic SendOnClosedChannel \<and>
    BufferedChannel_Send_select d v = Panic SendOnClosedChannel"
  using assms Close_open [OF assms(1), of zero]
  by (auto simp: BufferedChannel_Close_def BufferedChannel_Send_def BufferedChannel_SendBlocking_def
      BufferedChannel_Receive_def chan_poll_def after_receive_def BufferedChannel_Set_def
      BufferedChannel_Send_select_def chan_offer_def split: list.split)

theorem buffered_after_close_witness:
  "\<exists>d. BufferedChannel_Set d (6::int) = Panic SendOnClosedChannel \<and> snd (snd (BufferedChannel_Receive 0 d)) \<noteq> d"
  using buffered_after_close [of 2 "\<lparr>cv_ch = \<lparr>gc_buf = [5], gc_cap = 2, gc_closed = False, gc_recvq = [], gc_sendq = []\<rparr>,
      cv_current = (4::int), cv_version = 2, cv_dirty = True, cv_closed = False\<rparr>" 0 "[]"
    "\<lparr>cv_ch = \<lparr>gc_buf = [5], gc_cap = 2, gc_closed = True, gc_recvq = [], gc_sendq = []\<rparr>,
      cv_current = (4::int), cv_version = 2, cv_dirty = True, cv_closed = True\<rparr>" 6]
  by (intro exI [of _ "\<lparr>cv_ch = \<lparr>gc_buf = [5], gc_cap = 2, gc_closed = True, gc_recvq = [], gc_sendq = []\<rparr>,
      cv_current = (4::int), cv_version = 2, cv_dirty = True, cv_closed = True\<rparr>"])
    (simp add: cv_open_def chan_wf_def BufferedChannel_Close_def chan_close_def)

text \<open>
  Closing an \<open>UnbufferedChannel\<close> makes every parked receiver return the zero value and every parked
  sender panic; from then on \<open>Receive\<close> never reports \<open>false\<close>: it returns the zero value with \<open>true\<close> and
  overwrites the current value, while \<open>Send\<close> is refused.
\<close>

theorem unbuffered_after_close:
  assumes "cv_open 0 c"
  shows "\<exists>d. UnbufferedChannel_Close zero c = Ret
      (map (\<lambda>r. Received r zero False) (gc_recvq (cv_ch c)) @ map (\<lambda>(s, w). SendPanics s) (gc_sendq (cv_ch c)), d) \<and>
    UnbufferedChannel_Get d = UnbufferedChannel_Get c \<and> UnbufferedChannel_Send d v = Ret (False, [], d) \<and>
    UnbufferedChannel_Receive zero d = (Some zero, [], d\<lparr>cv_current := zero\<rparr>)"
  using assms
  by (auto simp: UnbufferedChannel_Close_def chan_close_def cv_open_def chan_wf_def UnbufferedChannel_Get_def
      UnbufferedChannel_Send_def UnbufferedChannel_Receive_def chan_poll_def after_receive_def)

theorem unbuffered_after_close_witness:
  "\<exists>d. UnbufferedChannel_Close 0 \<lparr>cv_ch = \<lparr>gc_buf = [], gc_cap = 0, gc_closed = False, gc_recvq = [3], gc_sendq = []\<rparr>,
      cv_current = (4::int), cv_version = 2, cv_dirty = True, cv_closed = False\<rparr> = Ret ([Received 3 0 False], d) \<and>
    UnbufferedChannel_Get d = 4 \<and> UnbufferedChannel_Send d 9 = Ret (False, [], d) \<and>
    UnbufferedChannel_Receive 0 d = (Some 0, [], d\<lparr>cv_current := 0\<rparr>)"
  using unbuffered_after_close [of "\<lparr>cv_ch = \<lparr>gc_buf = [], gc_cap = 0, gc_closed = False, gc_recvq = [3], gc_sendq = []\<rparr>,
      cv_current = (4::int), cv_version = 2, cv_dirty = True, cv_closed = False\<rparr>" 0 9]
  by (simp add: cv_open_def chan_wf_def UnbufferedChannel_Get_def)

end
