(* ===== verification/Var_Priority.thy ===== *)
theory Var_Priority
  imports Sync_Root Seq_Priority_Queue
begin

text \<open>
  \<open>PriorityChannel\<close> of \<open>internal/core/syncv2/vars/channel.go\<close>: a client of the priority queue under one
  mutex and one condition variable that senders and receivers share. A goroutine that waits stands in
  the notify list of the condition variable; \<open>Signal\<close> takes the one that waits longest, \<open>Broadcast\<close>
  all of them; a notified goroutine runs its loop test again once it gets the mutex.
\<close>

section \<open>State and operations\<close>

datatype 'a waiter = WaitSend nat 'a int | WaitReceive nat

record 'a PriorityChannel =
  pc_queue :: "'a PriorityQueue"
  pc_current :: 'a
  pc_version :: uint64
  pc_dirty :: bool
  pc_closed :: bool
  pc_maxSize :: int
  pc_waiting :: "'a waiter list"
  pc_ready :: "'a waiter list"

definition NewPriorityChannel :: "int \<Rightarrow> 'a \<Rightarrow> 'a PriorityChannel" where
  "NewPriorityChannel maxSize initialValue =
     \<lparr>pc_queue = NewPriorityQueue, pc_current = initialValue, pc_version = 1, pc_dirty = False,
      pc_closed = False, pc_maxSize = maxSize, pc_waiting = [], pc_ready = []\<rparr>"

definition cond_Signal :: "'a PriorityChannel \<Rightarrow> 'a PriorityChannel" where
  "cond_Signal c = (case pc_waiting c of [] \<Rightarrow> c
     | w # ws \<Rightarrow> c\<lparr>pc_waiting := ws, pc_ready := pc_ready c @ [w]\<rparr>)"

definition cond_Broadcast :: "'a PriorityChannel \<Rightarrow> 'a PriorityChannel" where
  "cond_Broadcast c = c\<lparr>pc_waiting := [], pc_ready := pc_ready c @ pc_waiting c\<rparr>"

definition cond_Wait :: "'a waiter \<Rightarrow> 'a PriorityChannel \<Rightarrow> 'a PriorityChannel" where
  "cond_Wait w c = c\<lparr>pc_waiting := pc_waiting c @ [w]\<rparr>"

definition PriorityChannel_Get :: "'a PriorityChannel \<Rightarrow> 'a" where
  "PriorityChannel_Get c = pc_current c"

definition PriorityChannel_Set :: "'a PriorityChannel \<Rightarrow> 'a \<Rightarrow> 'a PriorityChannel" where
  "PriorityChannel_Set c v = c\<lparr>pc_current := v, pc_version := pc_version c + 1, pc_dirty := True\<rparr>"

text \<open>The end that both sends share: enqueue, store, count, signal.\<close>

definition pc_put :: "'a PriorityChannel \<Rightarrow> 'a \<Rightarrow> int \<Rightarrow> 'a PriorityChannel" where
  "pc_put c v p = cond_Signal (c\<lparr>pc_queue := snd (pq_Enqueue (pc_queue c) v p), pc_current := v,
     pc_version := pc_version c + 1, pc_dirty := True\<rparr>)"

definition PriorityChannel_SendWithPriority :: "'a PriorityChannel \<Rightarrow> 'a \<Rightarrow> int \<Rightarrow> bool \<times> 'a PriorityChannel" where
  "PriorityChannel_SendWithPriority c v p =
     (if pc_closed c then (False, c)
      else if int (pq_Len (pc_queue c)) \<ge> pc_maxSize c then (False, c)
      else (True, pc_put c v p))"

definition PriorityChannel_Send :: "'a PriorityChannel \<Rightarrow> 'a \<Rightarrow> bool \<times> 'a PriorityChannel" where
  "PriorityChannel_Send c v = PriorityChannel_SendWithPriority c v 0"

definition PriorityChannel_Receive :: "'a PriorityChannel \<Rightarrow> 'a option \<times> 'a PriorityChannel" where
  "PriorityChannel_Receive c =
     (case pq_Dequeue (pc_queue c) of
        (Some v, q) \<Rightarrow> (Some v, c\<lparr>pc_queue := q, pc_current := v\<rparr>)
      | (None, q) \<Rightarrow> (None, c\<lparr>pc_queue := q\<rparr>))"

text \<open>The loop test of \<open>SendBlockingWithPriority\<close> and what follows it; run on entry and again each time
  the goroutine is notified. The result says whether the value was enqueued.\<close>

definition send_loop :: "nat \<Rightarrow> 'a \<Rightarrow> int \<Rightarrow> 'a PriorityChannel \<Rightarrow> bool \<times> 'a PriorityChannel" where
  "send_loop g v p c =
     (if int (pq_Len (pc_queue c)) \<ge> pc_maxSize c \<and> \<not> pc_closed c then (False, cond_Wait (WaitSend g v p) c)
      else if pc_closed c then (False, c)
      else (True, pc_put c v p))"

definition PriorityChannel_SendBlockingWithPriority ::
    "nat \<Rightarrow> 'a PriorityChannel \<Rightarrow> 'a \<Rightarrow> int \<Rightarrow> bool \<times> 'a PriorityChannel" where
  "PriorityChannel_SendBlockingWithPriority g c v p =
     (if pc_closed c then (False, c) else send_loop g v p c)"

definition PriorityChannel_SendBlocking :: "nat \<Rightarrow> 'a PriorityChannel \<Rightarrow> 'a \<Rightarrow> bool \<times> 'a PriorityChannel" where
  "PriorityChannel_SendBlocking g c v = PriorityChannel_SendBlockingWithPriority g c v 0"

text \<open>\<open>ReceiveBlocking\<close> and its loop: \<open>None\<close> while it waits; \<open>Some (v, False)\<close> is the zero value of a
  closed channel. The deferred signal is set up after the test for a closed channel.\<close>

definition receive_loop :: "'a \<Rightarrow> nat \<Rightarrow> 'a PriorityChannel \<Rightarrow> ('a \<times> bool) option \<times> 'a PriorityChannel" where
  "receive_loop zero g c =
     (if pq_IsEmpty (pc_queue c) \<and> \<not> pc_closed c then (None, cond_Wait (WaitReceive g) c)
      else if pq_IsEmpty (pc_queue c) then (Some (zero, False), c)
      else case pq_Dequeue (pc_queue c) of
        (Some v, q) \<Rightarrow> (Some (v, True), cond_Signal (c\<lparr>pc_queue := q, pc_current := v\<rparr>))
      | (None, q) \<Rightarrow> (Some (zero, False), cond_Signal (c\<lparr>pc_queue := q\<rparr>)))"

definition PriorityChannel_ReceiveBlocking :: "'a \<Rightarrow> nat \<Rightarrow> 'a PriorityChannel \<Rightarrow> ('a \<times> bool) option \<times> 'a PriorityChannel" where
  "PriorityChannel_ReceiveBlocking zero g c = receive_loop zero g c"

definition PriorityChannel_BufferSize :: "'a PriorityChannel \<Rightarrow> int" where
  "PriorityChannel_BufferSize c = pc_maxSize c"

text \<open>The result is \<open>True\<close> for the error of a closed channel.\<close>

definition PriorityChannel_SetBufferSize :: "'a PriorityChannel \<Rightarrow> int \<Rightarrow> bool \<times> 'a PriorityChannel" where
  "PriorityChannel_SetBufferSize c sz =
     (if pc_closed c then (True, c) else (False, cond_Broadcast (c\<lparr>pc_maxSize := sz\<rparr>)))"

definition PriorityChannel_Version :: "'a PriorityChannel \<Rightarrow> uint64" where
  "PriorityChannel_Version c = pc_version c"

definition PriorityChannel_IsDirty :: "'a PriorityChannel \<Rightarrow> bool" where
  "PriorityChannel_IsDirty c = pc_dirty c"

definition PriorityChannel_MarkClean :: "'a PriorityChannel \<Rightarrow> 'a PriorityChannel" where
  "PriorityChannel_MarkClean c = c\<lparr>pc_dirty := False\<rparr>"

definition PriorityChannel_Close :: "'a PriorityChannel \<Rightarrow> 'a PriorityChannel" where
  "PriorityChannel_Close c = (if \<not> pc_closed c then cond_Broadcast (c\<lparr>pc_closed := True\<rparr>) else c)"

section \<open>Goroutines on one channel\<close>

text \<open>\<open>PResume i\<close> gives the mutex to the \<open>i\<close>th notified goroutine. A step yields the values it
  accepted, with their priorities, and the values it delivered.\<close>

datatype 'a pc_call = PSend 'a int | PSendBlocking nat 'a int | PReceive | PReceiveBlocking nat
  | PResume nat | PSet 'a | PMarkClean | PSetBufferSize int | PClose

definition delivered_value :: "('a \<times> bool) option \<Rightarrow> 'a list" where
  "delivered_value r = (case r of Some (v, True) \<Rightarrow> [v] | _ \<Rightarrow> [])"

fun pc_step :: "'a \<Rightarrow> 'a pc_call \<Rightarrow> 'a PriorityChannel \<Rightarrow> ('a \<times> int) list \<times> 'a list \<times> 'a PriorityChannel" where
  "pc_step zero (PSend v p) c =
     (let (ok, c') = PriorityChannel_SendWithPriority c v p in (if ok then [(v, p)] else [], [], c'))"
| "pc_step zero (PSendBlocking g v p) c =
     (let (ok, c') = PriorityChannel_SendBlockingWithPriority g c v p in (if ok then [(v, p)] else [], [], c'))"
| "pc_step zero PReceive c =
     (let (r, c') = PriorityChannel_Receive c in ([], case_option [] (\<lambda>v. [v]) r, c'))"
| "pc_step zero (PReceiveBlocking g) c =
     (let (r, c') = PriorityChannel_ReceiveBlocking zero g c in ([], delivered_value r, c'))"
| "pc_step zero (PResume i) c =
     (if i < length (pc_ready c) then
        (let c1 = c\<lparr>pc_ready := take i (pc_ready c) @ drop (i + 1) (pc_ready c)\<rparr>
         in case pc_ready c ! i of
              WaitSend g v p \<Rightarrow> (let (ok, c') = send_loop g v p c1 in (if ok then [(v, p)] else [], [], c'))
            | WaitReceive g \<Rightarrow> (let (r, c') = receive_loop zero g c1 in ([], delivered_value r, c')))
      else ([], [], c))"
| "pc_step zero (PSet v) c = ([], [], PriorityChannel_Set c v)"
| "pc_step zero PMarkClean c = ([], [], PriorityChannel_MarkClean c)"
| "pc_step zero (PSetBufferSize n) c = ([], [], snd (PriorityChannel_SetBufferSize c n))"
| "pc_step zero PClose c = ([], [], PriorityChannel_Close c)"

fun pc_run :: "'a \<Rightarrow> 'a pc_call list \<Rightarrow> 'a PriorityChannel \<Rightarrow> ('a \<times> int) list \<times> 'a list \<times> 'a PriorityChannel" where
  "pc_run zero [] c = ([], [], c)"
| "pc_run zero (k # ks) c =
     (let (acc, del, c') = pc_step zero k c; (accs, dels, c'') = pc_run zero ks c'
      in (acc @ accs, del @ dels, c''))"

text \<open>The steps of a run: the call, the queue's content before it, the values it accepted and delivered, and the
  content after it.\<close>

type_synonym 'a pc_step_record = "'a pc_call \<times> ('a \<times> int) multiset \<times> ('a \<times> int) list \<times> 'a list \<times> ('a \<times> int) multiset"

fun pc_trace :: "'a \<Rightarrow> 'a pc_call list \<Rightarrow> 'a PriorityChannel \<Rightarrow> 'a pc_step_record list" where
  "pc_trace zero [] c = []"
| "pc_trace zero (k # ks) c =
     (let (acc, del, c') = pc_step zero k c
      in (k, pq_content (pc_queue c), acc, del, pq_content (pc_queue c')) # pc_trace zero ks c')"

fun receives :: "'a pc_call \<Rightarrow> bool" where
  "receives PReceive = True"
| "receives (PReceiveBlocking g) = True"
| "receives _ = False"

text \<open>What a priority queue promises of one step: what is accepted is added; a delivered value was in the queue,
  no value there had a higher priority, and exactly it is taken; a receive comes back without a value
  only from an empty queue.\<close>

definition serves_highest :: "'a pc_step_record \<Rightarrow> bool" where
  "serves_highest r \<longleftrightarrow> (case r of (k, q, acc, del, q') \<Rightarrow>
     (case del of
        [] \<Rightarrow> q' = q + mset acc
      | [v] \<Rightarrow> acc = [] \<and> (\<exists>p. q = add_mset (v, p) q' \<and> (\<forall>(w, r)\<in>#q. r \<le> p))
      | _ \<Rightarrow> False) \<and>
     (receives k \<longrightarrow> (del = [] \<longleftrightarrow> q = {#})))"

text \<open>The sizes a run gives the channel.\<close>

fun new_size :: "'a pc_call \<Rightarrow> int list" where
  "new_size (PSetBufferSize n) = [n]"
| "new_size _ = []"

section \<open>Conservation\<close>

lemma cond_fields [simp]:
  "pc_queue (cond_Signal c) = pc_queue c" "pc_maxSize (cond_Signal c) = pc_maxSize c"
  "pc_queue (cond_Broadcast c) = pc_queue c" "pc_maxSize (cond_Broadcast c) = pc_maxSize c"
  "pc_queue (cond_Wait w c) = pc_queue c" "pc_maxSize (cond_Wait w c) = pc_maxSize c"
  by (simp_all add: cond_Signal_def cond_Broadcast_def cond_Wait_def split: list.split)

lemma dequeue_cases:
  assumes "pq_inv q"
  obtains (empty) "pq_Dequeue q = (None, q)" "pq_content q = {#}"
  | (item) v p q' where "pq_Dequeue q = (Some v, q')" "pq_inv q'" "pq_content q = add_mset (v, p) (pq_content q')"
      "\<And>w r. (w, r) \<in># pq_content q \<Longrightarrow> r \<le> p" "pq_Len q = Suc (pq_Len q')"
proof (cases "pq_content q = {#}")
  case True
  with heap_queue.dequeue_empty [OF assms] show ?thesis by (intro empty)
next
  case False
  from heap_queue.dequeue_max [OF assms False] obtain v p q' where
    d: "pq_Dequeue q = (Some v, q')" "pq_inv q'" "pq_content q = add_mset (v, p) (pq_content q')"
       "\<forall>w r. (w, r) \<in># pq_content q' \<longrightarrow> r \<le> p" by blast
  show ?thesis by (rule item [OF d(1,2,3)]) (use d heap_queue.dequeue_len [OF assms d(1)] in auto)
qed

lemma put_content:
  "pq_inv (pc_queue c) \<Longrightarrow> pq_inv (pc_queue (pc_put c v p)) \<and>
     pq_content (pc_queue (pc_put c v p)) = add_mset (v, p) (pq_content (pc_queue c)) \<and>
     pq_Len (pc_queue (pc_put c v p)) = Suc (pq_Len (pc_queue c)) \<and> pc_maxSize (pc_put c v p) = pc_maxSize c"
  by (simp add: pc_put_def heap_queue.content_enqueue heap_queue.invar_enqueue heap_queue.len_enqueue)

text \<open>A step keeps the heap, serves the highest priority, and lets the queue grow only below its size, which
  only a resize changes. \<open>k\<close> may be a resumed goroutine.\<close>

definition step_ok :: "'a pc_call \<Rightarrow> 'a PriorityChannel \<Rightarrow> ('a \<times> int) list \<times> 'a list \<times> 'a PriorityChannel \<Rightarrow> bool" where
  "step_ok k c r \<longleftrightarrow> (case r of (acc, del, c') \<Rightarrow> pq_inv (pc_queue c') \<and>
     serves_highest (k, pq_content (pc_queue c), acc, del, pq_content (pc_queue c')) \<and>
     int (pq_Len (pc_queue c')) \<le> max (int (pq_Len (pc_queue c))) (pc_maxSize c) \<and>
     pc_maxSize c' \<in> set (pc_maxSize c # new_size k))"

lemma step_ok_same:
  "pq_inv (pc_queue c) \<Longrightarrow> pc_queue c' = pc_queue c \<Longrightarrow> pc_maxSize c' \<in> set (pc_maxSize c # new_size k) \<Longrightarrow>
     (receives k \<Longrightarrow> pq_content (pc_queue c) = {#}) \<Longrightarrow> step_ok k c ([], [], c')"
  by (auto simp: step_ok_def serves_highest_def)

lemma step_ok_put:
  "pq_inv (pc_queue c) \<Longrightarrow> int (pq_Len (pc_queue c)) < pc_maxSize c \<Longrightarrow> \<not> receives k \<Longrightarrow> step_ok k c ([(v, p)], [], pc_put c v p)"
  using put_content [of c v p] by (auto simp: step_ok_def serves_highest_def)

lemma step_ok_take:
  assumes "pq_inv (pc_queue c)" and "pq_Dequeue (pc_queue c) = (Some v, q')" and "pc_queue c' = q'" and "pc_maxSize c' = pc_maxSize c"
  shows "step_ok k c ([], [v], c')"
  using assms(1)
proof (cases rule: dequeue_cases)
  case (item u p q2)
  have "\<forall>(w, r)\<in>#pq_content (pc_queue c). r \<le> p" using item(4) by blast
  with item assms show ?thesis by (auto simp: step_ok_def serves_highest_def)
qed (use assms in simp)

lemma step_ok_cong:
  "pc_queue c1 = pc_queue c \<Longrightarrow> pc_maxSize c1 = pc_maxSize c \<Longrightarrow> step_ok k c1 r = step_ok k c r"
  by (simp add: step_ok_def)

lemma send_loop_ok:
  "pq_inv (pc_queue c) \<Longrightarrow> \<not> receives k \<Longrightarrow> send_loop g v p c = (ok, c') \<Longrightarrow> step_ok k c (if ok then [(v, p)] else [], [], c')"
  by (auto simp: send_loop_def intro: step_ok_same step_ok_put split: if_splits)

lemma IsEmpty_content: "pq_inv q \<Longrightarrow> pq_IsEmpty q \<longleftrightarrow> pq_content q = {#}"
  by (simp add: pq_IsEmpty_def heap_queue.len_content)

lemma receive_loop_ok:
  assumes "pq_inv (pc_queue c)" and "receive_loop zero g c = (r, c')"
  shows "step_ok k c ([], delivered_value r, c')"
proof (cases "pq_IsEmpty (pc_queue c)")
  case True
  then have "pq_content (pc_queue c) = {#}" using assms(1) by (simp add: IsEmpty_content)
  then have "step_ok k c ([], [], c)" "step_ok k c ([], [], cond_Wait (WaitReceive g) c)"
    using assms(1) by (auto intro!: step_ok_same)
  with True assms(2) show ?thesis by (auto simp: receive_loop_def delivered_value_def split: if_splits)
next
  case False
  from assms(1) show ?thesis
  proof (cases rule: dequeue_cases)
    case empty
    with False assms(1) show ?thesis by (simp add: IsEmpty_content)
  next
    case (item v p q')
    with False assms step_ok_take [OF assms(1) item(1)] show ?thesis
      by (auto simp: receive_loop_def delivered_value_def)
  qed
qed

lemma resume_ok:
  assumes "pq_inv (pc_queue c)"
  shows "step_ok (PResume i) c (pc_step zero (PResume i) c)"
proof (cases "i < length (pc_ready c)")
  case True
  let ?c1 = "c\<lparr>pc_ready := take i (pc_ready c) @ drop (i + 1) (pc_ready c)\<rparr>"
  have c1: "pq_inv (pc_queue ?c1)" using assms by simp
  have "step_ok (PResume i) ?c1 (pc_step zero (PResume i) c)"
  proof (cases "pc_ready c ! i")
    case (WaitSend g v p)
    obtain ok c' where l: "send_loop g v p ?c1 = (ok, c')" by (cases "send_loop g v p ?c1")
    with send_loop_ok [OF c1 _ l] True WaitSend show ?thesis by simp
  next
    case (WaitReceive g)
    obtain r c' where l: "receive_loop zero g ?c1 = (r, c')" by (cases "receive_loop zero g ?c1")
    with receive_loop_ok [OF c1 l] True WaitReceive show ?thesis by simp
  qed
  then show ?thesis by (subst (asm) step_ok_cong) simp_all
next
  case False
  have "step_ok (PResume i) c ([], [], c)" by (rule step_ok_same) (use assms in simp_all)
  with False show ?thesis by simp
qed

lemma pc_step_ok:
  assumes "pq_inv (pc_queue c)"
  shows "step_ok k c (pc_step zero k c)"
proof (cases k)
  case (PSend v p)
  with assms show ?thesis
    by (auto simp: PriorityChannel_SendWithPriority_def intro: step_ok_same step_ok_put)
next
  case (PSendBlocking g v p)
  obtain ok c' where l: "send_loop g v p c = (ok, c')" by (cases "send_loop g v p c")
  with send_loop_ok [OF assms _ l] PSendBlocking assms show ?thesis
    by (auto simp: PriorityChannel_SendBlockingWithPriority_def intro: step_ok_same)
next
  case PReceive
  from assms show ?thesis
  proof (cases rule: dequeue_cases)
    case empty
    with PReceive assms show ?thesis by (auto simp: PriorityChannel_Receive_def intro: step_ok_same)
  next
    case (item v p q')
    with PReceive step_ok_take [OF assms item(1)] show ?thesis by (simp add: PriorityChannel_Receive_def)
  qed
next
  case (PReceiveBlocking g)
  obtain r c' where l: "receive_loop zero g c = (r, c')" by (cases "receive_loop zero g c")
  with receive_loop_ok [OF assms l] PReceiveBlocking show ?thesis
    by (simp add: PriorityChannel_ReceiveBlocking_def)
next
  case (PResume i)
  with resume_ok [OF assms] show ?thesis by simp
qed (use assms in \<open>auto simp: PriorityChannel_Set_def PriorityChannel_MarkClean_def PriorityChannel_Close_def
  PriorityChannel_SetBufferSize_def intro: step_ok_same\<close>)

lemma serves_conserves:
  "serves_highest (k, q, acc, del, q') \<Longrightarrow> \<exists>ps. length ps = length del \<and> q + mset acc = mset (zip del ps) + q'"
proof -
  assume *: "serves_highest (k, q, acc, del, q')"
  show ?thesis
  proof (cases del)
    case Nil
    with * show ?thesis by (auto simp: serves_highest_def)
  next
    case (Cons v vs)
    with * obtain p where "vs = []" "acc = []" "q = add_mset (v, p) q'" by (auto simp: serves_highest_def split: list.splits)
    with Cons show ?thesis by (intro exI [of _ "[p]"]) simp
  qed
qed

lemma pc_run_ok:
  "pq_inv (pc_queue c) \<Longrightarrow> int (pq_Len (pc_queue c)) \<le> B \<Longrightarrow> pc_maxSize c \<le> B \<Longrightarrow>
     \<forall>n\<in>set (concat (map new_size ks)). n \<le> B \<Longrightarrow> pc_run zero ks c = (acc, del, c') \<Longrightarrow>
     pq_inv (pc_queue c') \<and> list_all serves_highest (pc_trace zero ks c) \<and> int (pq_Len (pc_queue c')) \<le> B \<and>
     (\<exists>ps. length ps = length del \<and> pq_content (pc_queue c) + mset acc = mset (zip del ps) + pq_content (pc_queue c'))"
proof (induction ks arbitrary: c acc del c')
  case Nil
  then show ?case by simp
next
  case (Cons k ks)
  obtain a d c1 where s: "pc_step zero k c = (a, d, c1)" by (cases "pc_step zero k c")
  obtain as ds c2 where r: "pc_run zero ks c1 = (as, ds, c2)" by (cases "pc_run zero ks c1")
  from pc_step_ok [OF Cons.prems(1), of k zero] s have
    k: "pq_inv (pc_queue c1)" "serves_highest (k, pq_content (pc_queue c), a, d, pq_content (pc_queue c1))"
      "int (pq_Len (pc_queue c1)) \<le> max (int (pq_Len (pc_queue c))) (pc_maxSize c)"
      "pc_maxSize c1 \<in> set (pc_maxSize c # new_size k)" by (auto simp: step_ok_def)
  have "int (pq_Len (pc_queue c1)) \<le> B" "pc_maxSize c1 \<le> B" using k(3,4) Cons.prems(2,3,4) by auto
  from Cons.IH [OF k(1) this _ r] Cons.prems(4) have
    I: "pq_inv (pc_queue c2)" "list_all serves_highest (pc_trace zero ks c1)" "int (pq_Len (pc_queue c2)) \<le> B"
      "\<exists>ps. length ps = length ds \<and> pq_content (pc_queue c1) + mset as = mset (zip ds ps) + pq_content (pc_queue c2)" by auto
  from serves_conserves [OF k(2)] I(4) obtain ps qs where
    "length ps = length d" "pq_content (pc_queue c) + mset a = mset (zip d ps) + pq_content (pc_queue c1)"
    "length qs = length ds" "pq_content (pc_queue c1) + mset as = mset (zip ds qs) + pq_content (pc_queue c2)" by blast
  then have "length (ps @ qs) = length (d @ ds) \<and>
      pq_content (pc_queue c) + mset (a @ as) = mset (zip (d @ ds) (ps @ qs)) + pq_content (pc_queue c2)"
    by simp (metis (no_types, lifting) add.assoc add.commute)
  then have "\<exists>ps. length ps = length (d @ ds) \<and>
      pq_content (pc_queue c) + mset (a @ as) = mset (zip (d @ ds) ps) + pq_content (pc_queue c2)" by blast
  with I k(2) s r Cons.prems(5) show ?case by (simp add: Let_def)
qed

interpretation priority_seq: sync_root
  "\<lambda>c. Ret (PriorityChannel_Get c)" "\<lambda>c v. Ret (PriorityChannel_Set c v)" PriorityChannel_Version
  PriorityChannel_IsDirty PriorityChannel_MarkClean "\<lambda>c. pq_inv (pc_queue c)"
  by unfold_locales
    (simp_all add: PriorityChannel_Get_def PriorityChannel_Set_def PriorityChannel_Version_def
      PriorityChannel_IsDirty_def PriorityChannel_MarkClean_def)

section \<open>Properties\<close>

lemma New_queue: "pc_queue (NewPriorityChannel m x) = NewPriorityQueue" "pc_maxSize (NewPriorityChannel m x) = m"
  by (simp_all add: NewPriorityChannel_def)

text \<open>
  C2. Under any interleaving of sends, receives, resizes, closes and resumed waiters, a \<open>PriorityChannel\<close>
  loses and duplicates nothing: the values accepted are, as a multiset with priorities, the values
  delivered together with the queue's content. Every step serves the highest priority: a value that
  \<open>Receive\<close>, \<open>ReceiveBlocking\<close> or a resumed receiver delivers was in the queue, none there had a higher
  priority, and only it is taken; \<open>Receive\<close> and \<open>ReceiveBlocking\<close> deliver a value at once exactly when
  the queue is not empty. The queue never holds more than the largest size the channel was given, by its
  constructor or by \<open>SetBufferSize\<close> (a smaller size removes nothing).
\<close>

theorem priority_channel_conserves:
  assumes "pc_run zero calls (NewPriorityChannel maxSize x) = (acc, del, c)"
  shows "(\<exists>ps. length ps = length del \<and> mset acc = mset (zip del ps) + pq_content (pc_queue c)) \<and>
    (\<forall>r\<in>set (pc_trace zero calls (NewPriorityChannel maxSize x)). serves_highest r) \<and>
    int (pq_Len (pc_queue c)) \<le> Max (set (0 # maxSize # concat (map new_size calls)))"
proof -
  let ?B = "Max (set (0 # maxSize # concat (map new_size calls)))" and ?c = "NewPriorityChannel maxSize x"
  have n: "pq_inv (pc_queue ?c)" by (simp add: New_queue NewPriorityQueue_inv)
  have B: "n \<le> ?B" if "n \<in> set (0 # maxSize # concat (map new_size calls))" for n using that by (intro Max_ge) auto
  have "int (pq_Len (pc_queue ?c)) \<le> ?B" using B [of 0] by (simp add: New_queue NewPriorityQueue_inv heap_queue.len_content)
  moreover have "pc_maxSize ?c \<le> ?B" using B [of maxSize] by (simp add: New_queue)
  moreover have "\<forall>n\<in>set (concat (map new_size calls)). n \<le> ?B" using B by auto
  ultimately have "list_all serves_highest (pc_trace zero calls ?c) \<and> int (pq_Len (pc_queue c)) \<le> ?B \<and>
     (\<exists>ps. length ps = length del \<and> pq_content (pc_queue ?c) + mset acc = mset (zip del ps) + pq_content (pc_queue c))"
    using pc_run_ok [OF n _ _ _ assms] by blast
  then show ?thesis by (simp add: New_queue NewPriorityQueue_inv list_all_iff)
qed

theorem priority_channel_conserves_witness:
  "\<exists>c ps. length ps = 2 \<and>
     pc_run 0 [PSend 7 1, PSend 8 5, PSend 9 0, PReceive, PReceive] (NewPriorityChannel 2 0) = ([(7, 1), (8, 5)], [8, 7 :: int], c) \<and>
     mset [(7, 1), (8, 5)] = mset (zip [8, 7] ps) + pq_content (pc_queue c) \<and> pq_Len (pc_queue c) \<le> 2"
proof -
  obtain c where c: "pc_run 0 [PSend 7 1, PSend 8 5, PSend 9 0, PReceive, PReceive] (NewPriorityChannel 2 0) =
      ([(7, 1), (8, 5)], [8, 7 :: int], c)"
    by (simp add: PriorityChannel_SendWithPriority_def PriorityChannel_Receive_def NewPriorityChannel_def
        pq_Dequeue_def pq_Enqueue_def NewPriorityQueue_def pq_Len_def pc_put_def cond_Signal_def heap_Push_def heap_Pop_def
        heap_Init_def heap_up.simps heap_down.simps pq_Less_def pq_Swap_def pq_Push_def pq_Pop_def Let_def numeral_2_eq_2)
  from priority_channel_conserves [OF c] obtain ps where
    "length ps = length [8, 7 :: int]" "mset [(7, 1), (8, 5)] = mset (zip [8, 7] ps) + pq_content (pc_queue c)"
    "int (pq_Len (pc_queue c)) \<le> 2" by fastforce
  then have "length ps = 2" "mset [(7, 1), (8, 5)] = mset (zip [8, 7] ps) + pq_content (pc_queue c)" "pq_Len (pc_queue c) \<le> 2"
    by simp_all
  with c show ?thesis by blast
qed

text \<open>
  The shared condition variable loses wake-ups. On a channel of size one: after a non-blocking
  \<open>Receive\<close> a parked sender stays parked although the queue is empty, and a receiver that then waits
  for a value waits beside it; and with blocking calls alone the signal of a send can go to another
  sender, so that in the end a receiver waits on a queue that holds a value and a sender waits for
  the receiver, with nobody left to notify them.
\<close>

theorem priority_channel_deadlock:
  "(let (acc, del, c) = pc_run 0 [PSend 1 0, PSendBlocking 10 2 0, PReceive, PReceiveBlocking 20] (NewPriorityChannel 1 (0::int))
    in del = [1] \<and> pq_IsEmpty (pc_queue c) \<and> pc_waiting c = [WaitSend 10 2 0, WaitReceive 20] \<and> pc_ready c = []) \<and>
   (let (acc, del, c) = pc_run 0 [PSendBlocking 9 1 0, PSendBlocking 10 2 0, PSendBlocking 11 3 0, PReceiveBlocking 20,
          PReceiveBlocking 21, PResume 0, PResume 0] (NewPriorityChannel 1 (0::int))
    in del = [1] \<and> \<not> pq_IsEmpty (pc_queue c) \<and> pc_waiting c = [WaitReceive 21, WaitSend 11 3 0] \<and> pc_ready c = [])"
  by (simp add: PriorityChannel_SendWithPriority_def PriorityChannel_SendBlockingWithPriority_def send_loop_def
      PriorityChannel_Receive_def PriorityChannel_ReceiveBlocking_def receive_loop_def delivered_value_def
      NewPriorityChannel_def pq_Dequeue_def pq_Enqueue_def NewPriorityQueue_def pq_Len_def pq_IsEmpty_def pc_put_def
      cond_Signal_def cond_Wait_def heap_Push_def heap_Pop_def heap_Init_def heap_up.simps heap_down.simps pq_Less_def
      pq_Swap_def pq_Push_def pq_Pop_def Let_def)

end
