(* ===== verification/Job_Pool.thy ===== *)
theory Job_Pool
  imports Zeus_Prelude
begin

text \<open>
  Goroutines started by one loop and joined by a \<open>WaitGroup\<close>, at most \<open>workers\<close> at a time (a buffered
  channel used as a semaphore): the shape that \<open>pkg/concurrent\<close> gives \<open>ParallelMap\<close>, \<open>ParallelFilter\<close>,
  \<open>Throttle\<close> and \<open>Pipeline\<close>. A job runs in small steps on the shared state; any started job may run next.
\<close>

type_synonym ('j, 's) pool = "nat \<times> 'j list \<times> 's"

inductive pool_step :: "nat \<Rightarrow> 'j list \<Rightarrow> ('s \<Rightarrow> 'j \<Rightarrow> 's \<times> 'j option) \<Rightarrow> ('j, 's) pool \<Rightarrow> ('j, 's) pool \<Rightarrow> bool"
  for workers :: nat and jobs :: "'j list" and job :: "'s \<Rightarrow> 'j \<Rightarrow> 's \<times> 'j option" where
  spawn: "n < length jobs \<Longrightarrow> length running < workers \<Longrightarrow>
    pool_step workers jobs job (n, running, s) (Suc n, running @ [jobs ! n], s)"
| progress: "k < length running \<Longrightarrow> job s (running ! k) = (s', Some j) \<Longrightarrow>
    pool_step workers jobs job (n, running, s) (n, running[k := j], s')"
| exit: "k < length running \<Longrightarrow> job s (running ! k) = (s', None) \<Longrightarrow>
    pool_step workers jobs job (n, running, s) (n, take k running @ drop (Suc k) running, s')"

inductive_cases pool_stepE: "pool_step workers jobs job (n, running, s) (n', running', s')"

abbreviation pool_reaches :: "nat \<Rightarrow> 'j list \<Rightarrow> ('s \<Rightarrow> 'j \<Rightarrow> 's \<times> 'j option) \<Rightarrow> ('j, 's) pool \<Rightarrow> ('j, 's) pool \<Rightarrow> bool" where
  "pool_reaches workers jobs job \<equiv> (pool_step workers jobs job)\<^sup>*\<^sup>*"

text \<open>The loop is over and the wait group is at zero.\<close>

fun pool_finished :: "'j list \<Rightarrow> ('j, 's) pool \<Rightarrow> bool" where
  "pool_finished jobs (n, running, s) \<longleftrightarrow> n = length jobs \<and> running = []"

fun pool_shared :: "('j, 's) pool \<Rightarrow> 's" where
  "pool_shared (n, running, s) = s"

text \<open>
  A schedule picks at each step a running job by number, or starts the next one when the number is
  not that of a running job; it is the executable reading of the relation.
\<close>

fun pool_run :: "nat \<Rightarrow> 'j list \<Rightarrow> ('s \<Rightarrow> 'j \<Rightarrow> 's \<times> 'j option) \<Rightarrow> nat list \<Rightarrow> ('j, 's) pool \<Rightarrow> ('j, 's) pool" where
  "pool_run workers jobs job [] p = p"
| "pool_run workers jobs job (k # ks) (n, running, s) =
     (if k < length running then
        (case job s (running ! k) of
           (s', Some j) \<Rightarrow> pool_run workers jobs job ks (n, running[k := j], s')
         | (s', None) \<Rightarrow> pool_run workers jobs job ks (n, take k running @ drop (Suc k) running, s'))
      else if n < length jobs \<and> length running < workers
      then pool_run workers jobs job ks (Suc n, running @ [jobs ! n], s)
      else pool_run workers jobs job ks (n, running, s))"

lemma pool_run_reaches: "pool_reaches workers jobs job p (pool_run workers jobs job ks p)"
proof (induction ks arbitrary: p)
  case Nil
  then show ?case by simp
next
  case (Cons k ks)
  obtain n running s where p: "p = (n, running, s)" by (cases p)
  show ?case
  proof (cases "k < length running")
    case True
    obtain s' r where r: "job s (running ! k) = (s', r)" by (cases "job s (running ! k)")
    show ?thesis
    proof (cases r)
      case None
      with r True have "pool_step workers jobs job p (n, take k running @ drop (Suc k) running, s')"
        unfolding p by (intro pool_step.exit) simp_all
      from converse_rtranclp_into_rtranclp [OF this Cons.IH] None r True p show ?thesis by simp
    next
      case (Some j)
      with r True have "pool_step workers jobs job p (n, running[k := j], s')"
        unfolding p by (intro pool_step.progress) simp_all
      from converse_rtranclp_into_rtranclp [OF this Cons.IH] Some r True p show ?thesis by simp
    qed
  next
    case False
    show ?thesis
    proof (cases "n < length jobs \<and> length running < workers")
      case True
      then have "pool_step workers jobs job p (Suc n, running @ [jobs ! n], s)"
        unfolding p by (intro pool_step.spawn) simp_all
      from converse_rtranclp_into_rtranclp [OF this Cons.IH] True False p show ?thesis by simp
    next
      case False2: False
      with False p Cons.IH show ?thesis by auto
    qed
  qed
qed

lemma pool_run_append: "pool_run workers jobs job (ks @ ls) p = pool_run workers jobs job ls (pool_run workers jobs job ks p)"
proof (induction ks arbitrary: p)
  case (Cons k ks)
  obtain n running s where "p = (n, running, s)" by (cases p)
  with Cons show ?case by (simp split: prod.split option.split)
qed simp

lemma pool_step_run: "pool_step workers jobs job p q \<Longrightarrow> \<exists>k. pool_run workers jobs job [k] p = q"
proof (induction rule: pool_step.induct)
  case (spawn n running s)
  then have "pool_run workers jobs job [length running] (n, running, s) = (Suc n, running @ [jobs ! n], s)" by simp
  then show ?case ..
next
  case (progress k running s s' j n)
  then have "pool_run workers jobs job [k] (n, running, s) = (n, running[k := j], s')" by simp
  then show ?case ..
next
  case (exit k running s s' n)
  then have "pool_run workers jobs job [k] (n, running, s) = (n, take k running @ drop (Suc k) running, s')" by simp
  then show ?case ..
qed

lemma pool_reaches_run: "pool_reaches workers jobs job p q \<Longrightarrow> \<exists>ks. pool_run workers jobs job ks p = q"
proof (induction rule: rtranclp_induct)
  case base
  have "pool_run workers jobs job [] p = p" by simp
  then show ?case ..
next
  case (step q r)
  then show ?case using pool_step_run by (metis pool_run_append)
qed

lemma pool_no_workers: "pool_run 0 jobs job ks (0, [], s) = (0, [], s)"
  by (induction ks) auto

lemma pool_no_jobs: "pool_run workers [] job ks (0, [], s) = (0, [], s)"
  by (induction ks) auto

lemma pool_progress:
  assumes "0 < workers" and "\<not> pool_finished jobs (n, running, s)" and "n \<le> length jobs"
  shows "\<exists>q. pool_step workers jobs job (n, running, s) q"
proof (cases running)
  case Nil
  with assms have "n < length jobs" "length running < workers" by auto
  from pool_step.spawn [OF this] show ?thesis by (rule exI)
next
  case (Cons j js)
  obtain s' r where r: "job s (running ! 0) = (s', r)" by (cases "job s (running ! 0)")
  from Cons have l: "0 < length running" by simp
  show ?thesis
  proof (cases r)
    case None
    with r have "job s (running ! 0) = (s', None)" by simp
    from pool_step.exit [of 0 running job, OF l this] show ?thesis by (rule exI)
  next
    case (Some j')
    with r have "job s (running ! 0) = (s', Some j')" by simp
    from pool_step.progress [of 0 running job, OF l this] show ?thesis by (rule exI)
  qed
qed

text \<open>
  Independent jobs: each has a slot of its own in the shared state and does not disturb the others.
  \<open>on_track s j\<close> says that job \<open>j\<close> will end with the right result, \<open>settled i s\<close> that slot \<open>i\<close> holds it.
\<close>

locale independent_jobs =
  fixes job :: "'s \<Rightarrow> 'j \<Rightarrow> 's \<times> 'j option" and slot :: "'j \<Rightarrow> nat" and fuel :: "'j \<Rightarrow> nat"
    and on_track :: "'s \<Rightarrow> 'j \<Rightarrow> bool" and settled :: "nat \<Rightarrow> 's \<Rightarrow> bool"
  assumes progress_ok: "job s j = (s', Some j') \<Longrightarrow> on_track s j \<Longrightarrow> on_track s' j' \<and> slot j' = slot j \<and> fuel j' < fuel j"
    and exit_ok: "job s j = (s', None) \<Longrightarrow> on_track s j \<Longrightarrow> settled (slot j) s'"
    and others_track: "job s j = (s', r) \<Longrightarrow> on_track s j \<Longrightarrow> on_track s k \<Longrightarrow> slot k \<noteq> slot j \<Longrightarrow> on_track s' k"
    and others_settled: "job s j = (s', r) \<Longrightarrow> on_track s j \<Longrightarrow> settled i s \<Longrightarrow> i \<noteq> slot j \<Longrightarrow> settled i s'"
begin

definition pool_inv :: "nat \<Rightarrow> 'j list \<Rightarrow> nat \<Rightarrow> 'j list \<Rightarrow> 's \<Rightarrow> bool" where
  "pool_inv workers jobs n running s \<longleftrightarrow> n \<le> length jobs \<and> length running \<le> workers \<and>
     distinct (map slot running) \<and>
     (\<forall>j\<in>set running. slot j < n \<and> on_track s j) \<and> (\<forall>i. n \<le> i \<and> i < length jobs \<longrightarrow> on_track s (jobs ! i)) \<and>
     (\<forall>i<n. i \<notin> slot ` set running \<longrightarrow> settled i s)"

lemma map_slot_update:
  "k < length running \<Longrightarrow> slot j = slot (running ! k) \<Longrightarrow> map slot (running[k := j]) = map slot running"
  by (metis list_update_id map_update nth_map)

lemma without_set:
  assumes "k < length running" and "distinct (map slot running)"
  shows "distinct (map slot (take k running @ drop (Suc k) running))"
    and "slot ` set (take k running @ drop (Suc k) running) = slot ` set running - {slot (running ! k)}"
    and "set (take k running @ drop (Suc k) running) \<subseteq> set running"
proof -
  have "map slot running = map slot (take k running) @ slot (running ! k) # map slot (drop (Suc k) running)"
    using assms(1) by (metis id_take_nth_drop list.simps(9) map_append)
  with assms(2) have d: "distinct (map slot (take k running) @ slot (running ! k) # map slot (drop (Suc k) running))"
    and s: "set (map slot running) = set (map slot (take k running) @ slot (running ! k) # map slot (drop (Suc k) running))"
    by simp_all
  from d show "distinct (map slot (take k running @ drop (Suc k) running))" by (simp add: map_append)
  have eq: "slot ` set (take k running @ drop (Suc k) running) =
      set (map slot (take k running)) \<union> set (map slot (drop (Suc k) running))" by (simp add: image_Un)
  show "slot ` set (take k running @ drop (Suc k) running) = slot ` set running - {slot (running ! k)}"
    using d s unfolding eq by auto
  show "set (take k running @ drop (Suc k) running) \<subseteq> set running"
    by (auto dest: in_set_takeD in_set_dropD)
qed

lemma slot_other:
  "k < length running \<Longrightarrow> distinct (map slot running) \<Longrightarrow> l < length running \<Longrightarrow> l \<noteq> k \<Longrightarrow>
     slot (running ! l) \<noteq> slot (running ! k)"
  by (metis length_map nth_eq_iff_index_eq nth_map)

lemma pool_inv_spawn:
  assumes "pool_inv workers jobs n running s" and "n < length jobs" and "length running < workers"
    and "\<And>i. i < length jobs \<Longrightarrow> slot (jobs ! i) = i"
  shows "pool_inv workers jobs (Suc n) (running @ [jobs ! n]) s"
  using assms by (auto simp: pool_inv_def less_Suc_eq image_iff)

lemma pool_inv_progress:
  assumes inv: "pool_inv workers jobs n running s" and k: "k < length running"
    and r: "job s (running ! k) = (s', Some j)" and slots: "\<And>i. i < length jobs \<Longrightarrow> slot (jobs ! i) = i"
  shows "pool_inv workers jobs n (running[k := j]) s'"
proof -
  have t: "on_track s (running ! k)" "slot (running ! k) < n" "distinct (map slot running)"
    using inv k by (auto simp: pool_inv_def)
  from progress_ok [OF r t(1)] have j: "on_track s' j" "slot j = slot (running ! k)" by auto
  have "slot l < n \<and> on_track s' l" if "l \<in> set (running[k := j])" for l
  proof -
    from that obtain m where m: "m < length running" "l = running[k := j] ! m"
      by (metis in_set_conv_nth length_list_update)
    show ?thesis
    proof (cases "m = k")
      case True
      with m j t show ?thesis by simp
    next
      case False
      with inv m have "slot l < n" "on_track s l" by (auto simp: pool_inv_def)
      moreover have "slot l \<noteq> slot (running ! k)" using False m k t(3) slot_other by simp
      ultimately show ?thesis using others_track [OF r t(1)] by simp
    qed
  qed
  moreover have "map slot (running[k := j]) = map slot running"
    using map_slot_update [OF k] j(2) .
  then have "distinct (map slot (running[k := j]))" "slot ` set (running[k := j]) = slot ` set running"
    using t(3) by (metis, metis list.set_map)
  moreover have "on_track s' (jobs ! i)" if "n \<le> i" "i < length jobs" for i
    using that inv slots others_track [OF r t(1), of "jobs ! i"] t(2) by (auto simp: pool_inv_def)
  moreover have "settled i s'" if "i < n" "i \<notin> slot ` set running" for i
  proof -
    have "slot (running ! k) \<in> slot ` set running" using k by simp
    with that have "i \<noteq> slot (running ! k)" by blast
    then show ?thesis using that inv others_settled [OF r t(1), of i] by (simp add: pool_inv_def)
  qed
  ultimately show ?thesis using inv by (simp add: pool_inv_def)
qed

lemma pool_inv_exit:
  assumes inv: "pool_inv workers jobs n running s" and k: "k < length running"
    and r: "job s (running ! k) = (s', None)" and slots: "\<And>i. i < length jobs \<Longrightarrow> slot (jobs ! i) = i"
  shows "pool_inv workers jobs n (take k running @ drop (Suc k) running) s'"
proof -
  have t: "on_track s (running ! k)" "slot (running ! k) < n" "distinct (map slot running)"
    using inv k by (auto simp: pool_inv_def)
  let ?rest = "take k running @ drop (Suc k) running"
  note w = without_set [OF k t(3)]
  have "slot l < n \<and> on_track s' l" if "l \<in> set ?rest" for l
  proof -
    have "slot l \<noteq> slot (running ! k)" using that w(2) by (metis DiffE image_eqI insertI1)
    moreover have "slot l < n" "on_track s l" using that w(3) inv by (auto simp: pool_inv_def)
    ultimately show ?thesis using others_track [OF r t(1)] by simp
  qed
  moreover have "settled i s'" if "i < n" "i \<notin> slot ` set ?rest" for i
  proof (cases "i = slot (running ! k)")
    case True
    with exit_ok [OF r t(1)] show ?thesis by simp
  next
    case False
    with that w(2) inv have "settled i s" by (auto simp: pool_inv_def)
    with False others_settled [OF r t(1)] show ?thesis by simp
  qed
  moreover have "on_track s' (jobs ! i)" if "n \<le> i" "i < length jobs" for i
    using that inv slots others_track [OF r t(1), of "jobs ! i"] t(2) by (auto simp: pool_inv_def)
  ultimately show ?thesis
    using inv k w(1) by (auto simp: pool_inv_def)
qed

lemma pool_inv_step:
  assumes "pool_step workers jobs job (n, running, s) (n', running', s')"
    and "pool_inv workers jobs n running s" and "\<And>i. i < length jobs \<Longrightarrow> slot (jobs ! i) = i"
  shows "pool_inv workers jobs n' running' s'"
  using assms(1)
  by (cases rule: pool_stepE)
    (auto intro: pool_inv_spawn pool_inv_progress pool_inv_exit assms(2,3))

lemma pool_inv_reaches:
  assumes "pool_reaches workers jobs job p q"
    and "case p of (n, running, s) \<Rightarrow> pool_inv workers jobs n running s"
    and "\<And>i. i < length jobs \<Longrightarrow> slot (jobs ! i) = i"
  shows "case q of (n, running, s) \<Rightarrow> pool_inv workers jobs n running s"
  using assms(1,2)
proof (induction rule: rtranclp_induct)
  case (step p' q)
  obtain n running s n' running' s' where "p' = (n, running, s)" "q = (n', running', s')"
    by (cases p', cases q) auto
  with step pool_inv_step [OF _ _ assms(3)] show ?case by fastforce
qed

text \<open>Every step uses up fuel, so every schedule ends.\<close>

definition pool_fuel :: "'j list \<Rightarrow> nat \<Rightarrow> 'j list \<Rightarrow> nat" where
  "pool_fuel jobs n running =
     (\<Sum>j\<leftarrow>drop n jobs. fuel j + 2) + (\<Sum>j\<leftarrow>running. fuel j + 1)"

lemma sum_list_split:
  "k < length xs \<Longrightarrow> (\<Sum>x\<leftarrow>xs. (f x :: nat)) = (\<Sum>x\<leftarrow>take k xs. f x) + f (xs ! k) + (\<Sum>x\<leftarrow>drop (Suc k) xs. f x)"
  by (subst id_take_nth_drop [of k xs]) (simp_all add: add.assoc)

lemma pool_fuel_step:
  assumes "pool_step workers jobs job (n, running, s) (n', running', s')" and "pool_inv workers jobs n running s"
  shows "pool_fuel jobs n' running' < pool_fuel jobs n running"
  using assms(1)
proof (rule pool_stepE)
  assume 1: "n' = Suc n" "running' = running @ [jobs ! n]" "s' = s" "n < length jobs" "length running < workers"
  from 1(4) have "drop n jobs = jobs ! n # drop (Suc n) jobs" by (simp only: Cons_nth_drop_Suc)
  with 1 show ?thesis by (simp add: pool_fuel_def)
next
  fix k j
  assume 2: "n' = n" "running' = running[k := j]" "k < length running" "job s (running ! k) = (s', Some j)"
  then have "fuel j < fuel (running ! k)"
    using progress_ok [of s "running ! k" s' j] assms(2) by (auto simp: pool_inv_def)
  with 2 show ?thesis
    using sum_list_split [of k running "\<lambda>j. fuel j + 1"] sum_list_split [of k "running[k := j]" "\<lambda>j. fuel j + 1"]
    by (simp add: pool_fuel_def)
next
  fix k
  assume 3: "n' = n" "running' = take k running @ drop (Suc k) running" "k < length running"
  then show ?thesis using sum_list_split [of k running "\<lambda>j. fuel j + 1"] by (simp add: pool_fuel_def)
qed

definition pool_start :: "'j list \<Rightarrow> 's \<Rightarrow> bool" where
  "pool_start jobs s \<longleftrightarrow> (\<forall>i<length jobs. slot (jobs ! i) = i \<and> on_track s (jobs ! i))"

lemma pool_reachable_inv:
  assumes "pool_start jobs s" and "pool_reaches workers jobs job (0, [], s) (n, running, s')"
  shows "pool_inv workers jobs n running s'"
  using pool_inv_reaches [OF assms(2)] assms(1) by (auto simp: pool_inv_def pool_start_def)

text \<open>A finished pool has settled every slot; an unfinished one with a worker can go on.\<close>

lemma pool_finished_settled:
  assumes "pool_start jobs s" and "pool_reaches workers jobs job (0, [], s) q" and "pool_finished jobs q"
    and "i < length jobs"
  shows "settled i (pool_shared q)"
proof -
  obtain n running s' where "q = (n, running, s')" by (cases q)
  with pool_reachable_inv [OF assms(1)] assms show ?thesis by (auto simp: pool_inv_def)
qed

lemma pool_not_stuck:
  assumes "pool_start jobs s" and "pool_reaches workers jobs job (0, [], s) q" and "0 < workers"
    and "\<not> pool_finished jobs q"
  shows "\<exists>q'. pool_step workers jobs job q q'"
proof -
  obtain n running s' where "q = (n, running, s')" by (cases q)
  with pool_reachable_inv [OF assms(1)] assms(2-) have "n \<le> length jobs" by (auto simp: pool_inv_def)
  moreover have "\<not> pool_finished jobs (n, running, s')" using \<open>q = (n, running, s')\<close> assms(4) by simp
  ultimately show ?thesis unfolding \<open>q = (n, running, s')\<close> using assms(3) by (intro pool_progress)
qed

lemma pool_can_finish:
  assumes "pool_start jobs s" and "0 < workers" and "pool_reaches workers jobs job (0, [], s) (n, running, s')"
  shows "\<exists>q. pool_reaches workers jobs job (n, running, s') q \<and> pool_finished jobs q"
  using assms(3)
proof (induction "pool_fuel jobs n running" arbitrary: n running s' rule: less_induct)
  case less
  show ?case
  proof (cases "pool_finished jobs (n, running, s')")
    case True
    then show ?thesis by blast
  next
    case False
    from pool_not_stuck [OF assms(1) less.prems assms(2) False] obtain n2 running2 s2 where
      st: "pool_step workers jobs job (n, running, s') (n2, running2, s2)" by (metis prod_cases3)
    have "pool_fuel jobs n2 running2 < pool_fuel jobs n running"
      by (rule pool_fuel_step [OF st pool_reachable_inv [OF assms(1) less.prems]])
    from less.hyps [OF this] less.prems st show ?thesis
      by (meson converse_rtranclp_into_rtranclp rtranclp.rtrancl_into_rtrancl)
  qed
qed

text \<open>Whatever the pool did so far, it can be run to the end.\<close>

lemma pool_completes:
  assumes "pool_start jobs s" and "0 < workers"
  shows "\<exists>ls. pool_finished jobs (pool_run workers jobs job (ks @ ls) (0, [], s))"
proof -
  obtain n running s' where q: "pool_run workers jobs job ks (0, [], s) = (n, running, s')"
    by (cases "pool_run workers jobs job ks (0, [], s)")
  have "pool_reaches workers jobs job (0, [], s) (n, running, s')"
    using pool_run_reaches [of workers jobs job "(0, [], s)" ks] q by simp
  from pool_can_finish [OF assms this] obtain r where
    "pool_reaches workers jobs job (n, running, s') r" "pool_finished jobs r" by blast
  with pool_reaches_run [of workers jobs job "(n, running, s')" r] q show ?thesis
    by (auto simp: pool_run_append)
qed

lemma pool_run_settled:
  assumes "pool_start jobs s" and "pool_finished jobs (pool_run workers jobs job ks (0, [], s))" and "i < length jobs"
  shows "settled i (pool_shared (pool_run workers jobs job ks (0, [], s)))"
  by (rule pool_finished_settled [OF assms(1) pool_run_reaches assms(2,3)])

lemma pool_run_bounded:
  assumes "pool_start jobs s"
  shows "length (fst (snd (pool_run workers jobs job ks (0, [], s)))) \<le> workers"
proof -
  obtain n running s' where q: "pool_run workers jobs job ks (0, [], s) = (n, running, s')"
    by (cases "pool_run workers jobs job ks (0, [], s)")
  with pool_reachable_inv [OF assms] pool_run_reaches [of workers jobs job "(0, [], s)" ks] show ?thesis
    by (simp add: pool_inv_def)
qed

end

end
