(* ===== verification/Concurrent.thy ===== *)
theory Concurrent
  imports Job_Pool Seq_Iterator "HOL-Library.Sublist"
begin

text \<open>
  \<open>pkg/concurrent\<close>: the parallel consumers of an iterator (\<open>concurrent.go\<close>) and the error-handling
  pipeline (\<open>pipeline.go\<close>). Where a semaphore bounds the goroutines the operation is a job pool and
  \<open>sched\<close> is the interleaving; \<open>Blocked\<close> is a pool that has not finished under that schedule. Where
  every goroutine starts at once and is one action, \<open>ord\<close> is the order in which the actions happen.
\<close>

section \<open>Unbounded goroutines\<close>

fun first_some :: "'a option list \<Rightarrow> 'a option" where
  "first_some [] = None"
| "first_some (None # xs) = first_some xs"
| "first_some (Some x # xs) = Some x"

definition in_order :: "nat list \<Rightarrow> 'a list \<Rightarrow> 'a list" where
  "in_order ord xs = map (nth xs) ord"

text \<open>\<open>errgroup\<close> keeps the first error reported; a result is the list of actions run and that error.\<close>

definition Concurrent :: "nat list \<Rightarrow> 'a iterator \<Rightarrow> ('a \<Rightarrow> 'e option) \<Rightarrow> 'a list \<times> 'e option" where
  "Concurrent ord it action =
     (let acts = in_order ord (Collect_iter it) in (acts, first_some (map action acts)))"

definition ParallelMute :: "nat list \<Rightarrow> 'a iterator \<Rightarrow> ('a \<Rightarrow> 'e option) \<Rightarrow> 'a list" where
  "ParallelMute ord it action = in_order ord (Collect_iter it)"

definition ParallelMust :: "nat list \<Rightarrow> 'a iterator \<Rightarrow> ('a \<Rightarrow> unit) \<Rightarrow> 'a list" where
  "ParallelMust ord it action = in_order ord (Collect_iter it)"

definition FanOut :: "nat list \<Rightarrow> 'a iterator \<Rightarrow> 'h list \<Rightarrow> ('h \<times> 'a) list" where
  "FanOut ord it handlers = in_order ord [(h, v). v \<leftarrow> Collect_iter it, h \<leftarrow> handlers]"

definition Race :: "nat list \<Rightarrow> 'a iterator \<Rightarrow> ('a \<Rightarrow> 'r option) \<Rightarrow> 'r option" where
  "Race ord it resultFn = first_some (map resultFn (in_order ord (Collect_iter it)))"

text \<open>\<open>Merge\<close> over closed channels holding the given values: at each turn some forwarding goroutine
  passes its next value on.\<close>

fun Merge :: "nat list \<Rightarrow> 'a list list \<Rightarrow> 'a list \<times> 'a list list" where
  "Merge [] chs = ([], chs)"
| "Merge (i # sched) chs =
     (if i < length chs \<and> chs ! i \<noteq> []
      then (let (out, rest) = Merge sched (chs[i := tl (chs ! i)]) in (hd (chs ! i) # out, rest))
      else Merge sched chs)"

section \<open>Batch\<close>

text \<open>
  The chunk loop. \<open>idx\<close> is a signed integer: a negative batch size makes the slice expression panic, a
  zero one never advances. \<open>None\<close> is a loop that does not end; the chunks are the arguments of the
  goroutines it starts.
\<close>

partial_function (option) batch_loop :: "'a list \<Rightarrow> int \<Rightarrow> int \<Rightarrow> 'a list list outcome option" where
  "batch_loop xs batchSize idx =
     (if idx < int (length xs)
      then (let e = idx + batchSize; e' = (if e > int (length xs) then int (length xs) else e)
            in if e' < idx then Some (Panic IndexOutOfRange)
               else Option.bind (batch_loop xs batchSize (idx + batchSize)) (\<lambda>r.
                      Some (bind_outcome r (\<lambda>chunks. Ret (take (nat (e' - idx)) (drop (nat idx) xs) # chunks)))))
      else Some (Ret []))"

declare batch_loop.simps [code]

definition Batch :: "'a iterator \<Rightarrow> int \<Rightarrow> 'a list list outcome option" where
  "Batch it batchSize = batch_loop (Collect_iter it) batchSize 0"

section \<open>Bounded goroutines\<close>

definition map_job :: "('a \<Rightarrow> 'b) \<Rightarrow> 'b list \<Rightarrow> nat \<times> 'a \<Rightarrow> 'b list \<times> (nat \<times> 'a) option" where
  "map_job f out j = (out[fst j := f (snd j)], None)"

definition ParallelMap :: "'b \<Rightarrow> nat list \<Rightarrow> 'a iterator \<Rightarrow> int \<Rightarrow> ('a \<Rightarrow> 'b) \<Rightarrow> 'b list outcome" where
  "ParallelMap zero sched it workers mapFn =
     (let xs = Collect_iter it; jobs = enumerate 0 xs
      in if workers < 0 then Panic NegativeSize
         else let q = pool_run (nat workers) jobs (map_job mapFn) sched (0, [], replicate (length xs) zero)
              in if pool_finished jobs q then Ret (pool_shared q) else Blocked)"

definition ParallelFilter :: "nat list \<Rightarrow> 'a iterator \<Rightarrow> int \<Rightarrow> ('a \<Rightarrow> bool) \<Rightarrow> 'a list outcome" where
  "ParallelFilter sched it concurrency filterFn =
     (let xs = Collect_iter it; jobs = enumerate 0 xs
      in if concurrency < 0 then Panic NegativeSize
         else let q = pool_run (nat concurrency) jobs (map_job filterFn) sched (0, [], replicate (length xs) False)
              in if pool_finished jobs q
                 then Ret [x. (x, keep) \<leftarrow> zip xs (pool_shared q), keep]
                 else Blocked)"

text \<open>The log of the actions that ran, with the number of the goroutine that ran each.\<close>

definition throttle_job :: "(nat \<times> 'a) list \<Rightarrow> nat \<times> 'a \<Rightarrow> (nat \<times> 'a) list \<times> (nat \<times> 'a) option" where
  "throttle_job acts j = (acts @ [j], None)"

definition Throttle :: "nat list \<Rightarrow> 'a iterator \<Rightarrow> int \<Rightarrow> 'a list outcome" where
  "Throttle sched it concurrency =
     (let jobs = enumerate 0 (Collect_iter it)
      in if concurrency < 0 then Panic NegativeSize
         else let q = pool_run (nat concurrency) jobs throttle_job sched (0, [], [])
              in if pool_finished jobs q then Ret (map snd (pool_shared q)) else Blocked)"

section \<open>Pipeline\<close>

text \<open>The mode is an \<open>int\<close>: an unnamed one falls through the switch after an error, with the result of the function
  that failed.\<close>

datatype PipelineErrorMode = StopAllOnError | StopElementOnError | IgnoreErrors | OtherMode int

record ('r, 'e) pipe_shared =
  ps_stopped :: bool
  ps_out :: "'r list"
  ps_errs :: "'e option list"

type_synonym ('v, 'e) pipe_fn = "'v \<Rightarrow> bool \<Rightarrow> 'v \<times> 'e option"
type_synonym ('v, 'e) pipe_work = "nat \<times> 'v \<times> bool \<times> ('v, 'e) pipe_fn list"

text \<open>One step of an element's goroutine: the next pipe function, or the final store. \<open>cast\<close> is the
  type assertion \<open>cur.(R)\<close>.\<close>

fun pipe_job :: "PipelineErrorMode \<Rightarrow> ('v \<Rightarrow> 'r option) \<Rightarrow> ('r, 'e) pipe_shared \<Rightarrow> ('v, 'e) pipe_work \<Rightarrow>
    ('r, 'e) pipe_shared \<times> ('v, 'e) pipe_work option" where
  "pipe_job mode cast s (i, cur, valid, []) =
     (if \<not> ps_stopped s \<and> valid
      then (case cast cur of Some r \<Rightarrow> (s\<lparr>ps_out := (ps_out s)[i := r]\<rparr>, None) | None \<Rightarrow> (s, None))
      else (s, None))"
| "pipe_job mode cast s (i, cur, valid, fn # fns) =
     (if ps_stopped s then (s, None)
      else case fn cur valid of
        (res, Some err) \<Rightarrow>
          (let s1 = s\<lparr>ps_errs := (ps_errs s)[i := Some err]\<rparr>
           in case mode of
                StopAllOnError \<Rightarrow> (s1\<lparr>ps_stopped := True\<rparr>, None)
              | StopElementOnError \<Rightarrow> (s1, None)
              | IgnoreErrors \<Rightarrow> (s1, Some (i, cur, False, fns))
              | OtherMode n \<Rightarrow> (s1, Some (i, res, False, fns)))
      | (res, None) \<Rightarrow> (s, Some (i, res, valid, fns)))"

definition Pipeline :: "'r \<Rightarrow> ('v \<Rightarrow> 'r option) \<Rightarrow> nat list \<Rightarrow> 'v iterator \<Rightarrow> int \<Rightarrow> PipelineErrorMode \<Rightarrow>
    ('v, 'e) pipe_fn list \<Rightarrow> ('r iterator \<times> 'e option iterator) outcome" where
  "Pipeline zero cast sched it concurrency mode pipeFns =
     (let input = Collect_iter it;
          jobs = map (\<lambda>(i, v). (i, v, True, pipeFns)) (enumerate 0 input)
      in if concurrency < 0 then Panic NegativeSize
         else let q = pool_run (nat concurrency) jobs (pipe_job mode cast) sched
                    (0, [], \<lparr>ps_stopped = False, ps_out = replicate (length input) zero,
                             ps_errs = replicate (length input) None\<rparr>)
              in if pool_finished jobs q
                 then Ret (From (ps_out (pool_shared q)), From (ps_errs (pool_shared q))) else Blocked)"

record ('r, 'e) PipeObject =
  po_Result :: 'r
  po_Error :: "'e option"

text \<open>\<open>Join\<close> only builds an iterator; its result is dropped, and the slice that is returned was never
  appended to.\<close>

definition PipelineMapped :: "'r \<Rightarrow> ('v \<Rightarrow> 'r option) \<Rightarrow> nat list \<Rightarrow> 'v iterator \<Rightarrow> int \<Rightarrow> PipelineErrorMode \<Rightarrow>
    ('v, 'e) pipe_fn list \<Rightarrow> ('r, 'e) PipeObject iterator outcome" where
  "PipelineMapped zero cast sched it concurrency mode pipeFns =
     (let objs = [] in
      bind_outcome (Pipeline zero cast sched it concurrency mode pipeFns) (\<lambda>(resIterator, errIterator).
        let joined = Join zero None resIterator errIterator
              (\<lambda>v err. \<lparr>po_Result = v, po_Error = (None :: 'e option)\<rparr>)
        in Ret (From objs)))"

section \<open>Results of the unbounded operations\<close>

lemma first_some_None: "first_some xs = None \<longleftrightarrow> (\<forall>x\<in>set xs. x = None)"
  by (induction xs rule: first_some.induct) auto

lemma first_some_in: "first_some xs = Some x \<Longrightarrow> Some x \<in> set xs"
  by (induction xs rule: first_some.induct) auto

lemma first_some_from:
  assumes "set ys = set xs"
  shows "(first_some (map f ys) = None) = list_all (\<lambda>x. f x = None) xs"
    and "list_all (\<lambda>e. \<exists>x\<in>set xs. f x = Some e) (case_option [] (\<lambda>e. [e]) (first_some (map f ys)))"
proof -
  show "(first_some (map f ys) = None) = list_all (\<lambda>x. f x = None) xs"
    using assms by (simp add: first_some_None list_all_iff)
  show "list_all (\<lambda>e. \<exists>x\<in>set xs. f x = Some e) (case_option [] (\<lambda>e. [e]) (first_some (map f ys)))"
  proof (cases "first_some (map f ys)")
    case (Some e)
    from first_some_in [OF this] assms have "\<exists>x\<in>set xs. f x = Some e" by auto
    with Some show ?thesis by simp
  qed simp
qed

lemma mset_in_order: "mset ord = mset [0..<length xs] \<Longrightarrow> mset (in_order ord xs) = mset xs"
  by (metis in_order_def map_nth mset_map)

lemma Merge_mset: "Merge sched chs = (out, rest) \<Longrightarrow> mset out + mset (concat rest) = mset (concat chs)"
proof (induction sched arbitrary: chs out rest)
  case (Cons i sched)
  show ?case
  proof (cases "i < length chs \<and> chs ! i \<noteq> []")
    case True
    obtain out' where m: "Merge sched (chs[i := tl (chs ! i)]) = (out', rest)" "out = hd (chs ! i) # out'"
      using Cons.prems True by (auto split: prod.splits)
    have "chs = take i chs @ (hd (chs ! i) # tl (chs ! i)) # drop (Suc i) chs"
      using True by (simp add: id_take_nth_drop)
    then have "mset (concat chs) = mset (concat (take i chs)) + mset (hd (chs ! i) # tl (chs ! i)) + mset (concat (drop (Suc i) chs))"
      by (metis add.assoc concat.simps(2) concat_append mset_append)
    moreover have "mset (concat (chs[i := tl (chs ! i)])) = mset (concat (take i chs)) + mset (tl (chs ! i)) + mset (concat (drop (Suc i) chs))"
      using True by (simp add: upd_conv_take_nth_drop)
    ultimately show ?thesis using Cons.IH [OF m(1)] m(2) by simp
  next
    case False
    with Cons show ?thesis by auto
  qed
qed simp

lemma Merge_subseq:
  "Merge sched chs = (out, rest) \<Longrightarrow> i < length chs \<Longrightarrow> \<exists>pre. chs ! i = pre @ rest ! i \<and> subseq pre out"
proof (induction sched arbitrary: chs out rest)
  case (Cons k sched)
  show ?case
  proof (cases "k < length chs \<and> chs ! k \<noteq> []")
    case True
    obtain out' where m: "Merge sched (chs[k := tl (chs ! k)]) = (out', rest)" "out = hd (chs ! k) # out'"
      using Cons.prems True by (auto split: prod.splits)
    from Cons.IH [OF m(1)] Cons.prems(2) obtain pre where
      pre: "chs[k := tl (chs ! k)] ! i = pre @ rest ! i" "subseq pre out'" by auto
    show ?thesis
    proof (cases "i = k")
      case True2: True
      with pre(1) True have "chs ! i = (hd (chs ! k) # pre) @ rest ! i"
        by (metis append_Cons list.collapse nth_list_update_eq)
      moreover have "subseq (hd (chs ! k) # pre) out" using pre(2) m(2) by simp
      ultimately show ?thesis by blast
    next
      case False
      with pre m(2) show ?thesis by auto
    qed
  next
    case False
    with Cons show ?thesis by auto
  qed
qed auto

section \<open>Batch\<close>

lemma batch_loop_done: "int (length xs) \<le> idx \<Longrightarrow> batch_loop xs n idx = Some (Ret [])"
  by (simp add: batch_loop.simps)

lemma batch_loop_next:
  assumes "0 \<le> idx" "idx < int (length xs)" "0 < n"
  shows "batch_loop xs n idx = Option.bind (batch_loop xs n (idx + n)) (\<lambda>r.
    Some (bind_outcome r (\<lambda>chunks. Ret (take (nat n) (drop (nat idx) xs) # chunks))))"
proof -
  have "take (nat (int (length xs) - idx)) (drop (nat idx) xs) = take (nat n) (drop (nat idx) xs)"
    if "int (length xs) < idx + n"
    using that assms by simp
  with assms show ?thesis by (subst batch_loop.simps) (simp add: Let_def)
qed

text \<open>The reference: cut a list into pieces of \<open>n\<close>.\<close>

function chunks_of :: "nat \<Rightarrow> 'a list \<Rightarrow> 'a list list" where
  "chunks_of n xs = (if xs = [] \<or> n = 0 then [] else take n xs # chunks_of n (drop n xs))"
  by pat_completeness auto
termination
  by (relation "measure (\<lambda>(n, xs). length xs)") auto

declare chunks_of.simps [simp del]

lemma chunks_of_Nil [simp]: "chunks_of n [] = []"
  by (simp add: chunks_of.simps)

lemma chunks_of_step: "xs \<noteq> [] \<Longrightarrow> 0 < n \<Longrightarrow> chunks_of n xs = take n xs # chunks_of n (drop n xs)"
  by (simp add: chunks_of.simps [of n xs])

lemma concat_chunks_of: "0 < n \<Longrightarrow> concat (chunks_of n xs) = xs"
proof (induction n xs rule: chunks_of.induct)
  case (1 n xs)
  then show ?case by (cases "xs = []") (simp_all add: chunks_of_step)
qed

lemma chunks_of_lengths: "0 < n \<Longrightarrow> c \<in> set (chunks_of n xs) \<Longrightarrow> 0 < length c \<and> length c \<le> n"
proof (induction n xs rule: chunks_of.induct)
  case (1 n xs)
  then show ?case by (cases "xs = []") (auto simp: chunks_of_step)
qed

lemma length_chunks_of: "0 < n \<Longrightarrow> length (chunks_of n xs) = (length xs + n - 1) div n"
proof (induction n xs rule: chunks_of.induct)
  case (1 n xs)
  show ?case
  proof (cases "xs = []")
    case False
    then have l: "0 < length xs" by simp
    show ?thesis
    proof (cases "n \<le> length xs")
      case True
      have e: "length xs + n - 1 = (length xs - 1) + n" using l by linarith
      have "(length xs + n - 1) div n = Suc ((length xs - 1) div n)" unfolding e using "1.prems" by (simp only: div_add_self2 [of n] neq0_conv Suc_eq_plus1)
      moreover have "length xs - n + n - 1 = length xs - 1" using True by simp
      moreover have "length (chunks_of n (drop n xs)) = (length xs - n + n - 1) div n" using 1 False by simp
      ultimately have "length (chunks_of n xs) = (length xs + n - 1) div n"
        using False chunks_of_step [of xs n] "1.prems" by simp
      then show ?thesis .
    next
      case False2: False
      have "length xs + n - 1 = (length xs - 1) + n" "length xs - 1 < n" using l False2 by linarith+
      then have "(length xs + n - 1) div n = 1" using "1.prems" by (simp only: div_add_self2 [of n] neq0_conv) simp
      with False False2 1 show ?thesis by (simp add: chunks_of_step)
    qed
  qed (use 1 in simp)
qed

lemma batch_loop_chunks:
  "0 < n \<Longrightarrow> 0 \<le> idx \<Longrightarrow> batch_loop xs n idx = Some (Ret (chunks_of (nat n) (drop (nat idx) xs)))"
proof (induction "length xs - nat idx" arbitrary: idx rule: less_induct)
  case less
  show ?case
  proof (cases "idx < int (length xs)")
    case True
    have "length xs - nat (idx + n) < length xs - nat idx" using True less.prems by simp
    from less.hyps [OF this] less.prems
    have "batch_loop xs n (idx + n) = Some (Ret (chunks_of (nat n) (drop (nat (idx + n)) xs)))" by simp
    moreover have "drop (nat (idx + n)) xs = drop (nat n) (drop (nat idx) xs)"
      using less.prems by (simp add: nat_add_distrib add.commute)
    ultimately show ?thesis
      using batch_loop_next [of idx xs n] True less.prems chunks_of_step [of "drop (nat idx) xs" "nat n"] by simp
  next
    case False
    with batch_loop_done [of xs idx n] show ?thesis by simp
  qed
qed

lemma batch_loop_zero:
  assumes "batch_loop xs n idx = Some r"
  shows "n = 0 \<longrightarrow> int (length xs) \<le> idx"
  by (rule batch_loop.raw_induct [OF _ assms]) (fastforce simp: Let_def Option.bind_eq_Some_conv split: if_splits)

text \<open>
  \<open>Batch\<close> with a positive size hands the goroutines consecutive chunks: together they are the input
  in order, none is empty or longer than the size, and there are \<open>\<lceil>n / size\<rceil>\<close> of them. With size
  zero it never returns on a non-empty input, and with a negative size it panics.
\<close>

theorem Batch_chunks:
  "if 0 < n then (\<exists>cs. Batch (From xs) n = Some (Ret cs) \<and> concat cs = xs \<and>
        list_all (\<lambda>c. 0 < length c \<and> int (length c) \<le> n) cs \<and> length cs = (length xs + nat n - 1) div nat n)
   else if xs = [] then Batch (From xs) n = Some (Ret [])
   else if n = 0 then Batch (From xs) n = None
   else Batch (From xs) n = Some (Panic IndexOutOfRange)"
proof -
  consider (pos) "0 < n" | (empty) "n \<le> 0" "xs = []" | (zero) "n = 0" "xs \<noteq> []" | (neg) "n < 0" "xs \<noteq> []"
    by linarith
  then show ?thesis
  proof cases
    case pos
    then have "list_all (\<lambda>c. 0 < length c \<and> int (length c) \<le> n) (chunks_of (nat n) xs)"
      using chunks_of_lengths [of "nat n" _ xs] by (fastforce simp: list_all_iff)
    with pos show ?thesis
      by (simp add: Batch_def from_slice.collect_all batch_loop_chunks concat_chunks_of length_chunks_of)
  next
    case zero
    have "batch_loop xs n 0 = None"
      using batch_loop_zero [of xs n 0] zero by (cases "batch_loop xs n 0") auto
    with zero show ?thesis by (simp add: Batch_def from_slice.collect_all)
  qed (auto simp: Batch_def from_slice.collect_all batch_loop.simps)
qed

section \<open>Bounded operations\<close>

text \<open>A goroutine of \<open>ParallelMap\<close> owns one slot of the output slice.\<close>

definition map_track :: "'a list \<Rightarrow> 'b list \<Rightarrow> nat \<times> 'a \<Rightarrow> bool" where
  "map_track xs out j \<longleftrightarrow> fst j < length xs \<and> snd j = xs ! fst j \<and> length out = length xs"

definition map_settled :: "('a \<Rightarrow> 'b) \<Rightarrow> 'a list \<Rightarrow> nat \<Rightarrow> 'b list \<Rightarrow> bool" where
  "map_settled f xs i out \<longleftrightarrow> length out = length xs \<and> (i < length xs \<longrightarrow> out ! i = f (xs ! i))"

interpretation map_jobs: independent_jobs "map_job f" fst "\<lambda>j. 0" "map_track xs" "map_settled f xs" for f xs
  by unfold_locales (auto simp: map_job_def map_track_def map_settled_def)

lemma map_jobs_start: "map_jobs.pool_start xs (enumerate 0 xs) (replicate (length xs) z)"
  by (simp add: map_jobs.pool_start_def map_track_def nth_enumerate_eq)

lemma map_pool_result:
  assumes "pool_finished (enumerate 0 xs) q"
    and "q = pool_run w (enumerate 0 xs) (map_job f) sched (0, [], replicate (length xs) z)"
  shows "pool_shared q = map f xs"
proof -
  have s: "map_settled f xs i (pool_shared q)" if "i < length xs" for i
    using map_jobs.pool_run_settled [OF map_jobs_start, of xs w f sched z i] assms that by simp
  show ?thesis
  proof (cases "xs = []")
    case True
    with assms(2) show ?thesis by (simp add: pool_no_jobs)
  next
    case False
    with s have "length (pool_shared q) = length xs" by (auto simp: map_settled_def)
    with s show ?thesis by (auto simp: map_settled_def intro: nth_equalityI)
  qed
qed

lemma map_pool_completes:
  assumes "0 < w"
  shows "\<exists>more. pool_finished (enumerate 0 xs)
    (pool_run w (enumerate 0 xs) (map_job f) (sched @ more) (0, [], replicate (length xs) z))"
  by (rule map_jobs.pool_completes [OF map_jobs_start assms])

text \<open>
  C36. \<open>ParallelMap\<close> preserves order under every interleaving: when it returns, the result is the map of
  the function over the input; with at least one worker every partial run can be completed, with zero
  workers it blocks forever on a non-empty input, and with a negative number it panics.
\<close>

theorem ParallelMap_correct:
  "(case ParallelMap zero sched (From xs) workers f of
      Ret out \<Rightarrow> out = map f xs | Panic e \<Rightarrow> workers < 0 | Blocked \<Rightarrow> 0 \<le> workers) \<and>
   (if workers < 0 then ParallelMap zero sched (From xs) workers f = Panic NegativeSize
    else if workers = 0 \<and> xs \<noteq> [] then ParallelMap zero sched (From xs) workers f = Blocked
    else \<exists>more. ParallelMap zero (sched @ more) (From xs) workers f = Ret (map f xs))"
proof -
  have r: "(case ParallelMap zero sched (From xs) workers f of
      Ret out \<Rightarrow> out = map f xs | Panic e \<Rightarrow> workers < 0 | Blocked \<Rightarrow> 0 \<le> workers)" for sched
    using map_pool_result [of xs _ "nat workers" f sched zero]
    by (simp add: ParallelMap_def from_slice.collect_all Let_def)
  consider (neg) "workers < 0" | (zero) "workers = 0" "xs \<noteq> []" | (empty) "workers = 0" "xs = []" | (pos) "0 < workers"
    by linarith
  then show ?thesis
  proof cases
    case zero
    then have "\<not> pool_finished (enumerate 0 xs) (0, [], replicate (length xs) zero)" by simp
    with zero r show ?thesis
      by (simp add: ParallelMap_def from_slice.collect_all Let_def pool_no_workers del: pool_finished.simps)
  next
    case empty
    with r show ?thesis by (simp add: ParallelMap_def from_slice.collect_all Let_def pool_no_workers)
  next
    case pos
    then obtain more where "pool_finished (enumerate 0 xs)
      (pool_run (nat workers) (enumerate 0 xs) (map_job f) (sched @ more) (0, [], replicate (length xs) zero))"
      using map_pool_completes [of "nat workers" xs f sched zero] by auto
    with pos have "ParallelMap zero (sched @ more) (From xs) workers f = Ret (map f xs)"
      using map_pool_result [OF _ refl, of xs "nat workers" f "sched @ more" zero]
      by (simp add: ParallelMap_def from_slice.collect_all Let_def)
    with pos r [of sched] show ?thesis by auto
  qed (use r in \<open>simp add: ParallelMap_def\<close>)
qed

lemma zip_map_filter: "[x. (x, keep) \<leftarrow> zip xs (map p xs), keep] = filter p xs"
  by (induction xs) auto

text \<open>
  \<open>ParallelFilter\<close> returns the elements that satisfy the predicate, in their order, under every
  interleaving, and with at least one worker every partial run can be completed.
\<close>

theorem ParallelFilter_correct:
  "(case ParallelFilter sched (From xs) concurrency p of
      Ret out \<Rightarrow> out = filter p xs | Panic e \<Rightarrow> concurrency < 0 | Blocked \<Rightarrow> 0 \<le> concurrency) \<and>
   (0 < concurrency \<longrightarrow> (\<exists>more. ParallelFilter (sched @ more) (From xs) concurrency p = Ret (filter p xs)))"
proof -
  have r: "(case ParallelFilter sched (From xs) concurrency p of
      Ret out \<Rightarrow> out = filter p xs | Panic e \<Rightarrow> concurrency < 0 | Blocked \<Rightarrow> 0 \<le> concurrency)" for sched
    using map_pool_result [OF _ refl, of xs "nat concurrency" p sched False]
    by (simp add: ParallelFilter_def from_slice.collect_all Let_def zip_map_filter)
  moreover have "\<exists>more. ParallelFilter (sched @ more) (From xs) concurrency p = Ret (filter p xs)" if pos: "0 < concurrency"
  proof -
    obtain more where "pool_finished (enumerate 0 xs)
      (pool_run (nat concurrency) (enumerate 0 xs) (map_job p) (sched @ more) (0, [], replicate (length xs) False))"
      using pos map_pool_completes [of "nat concurrency" xs p sched False] by auto
    with pos have "ParallelFilter (sched @ more) (From xs) concurrency p = Ret (filter p xs)"
      using map_pool_result [OF _ refl, of xs "nat concurrency" p "sched @ more" False]
      by (simp add: ParallelFilter_def from_slice.collect_all Let_def zip_map_filter)
    then show ?thesis ..
  qed
  ultimately show ?thesis by blast
qed

theorem ParallelFilter_correct_witness:
  "\<exists>more. ParallelFilter ([5, 5, 1, 0] @ more) (From [1, 2, 3, 4 :: nat]) 2 even = Ret [2, 4]"
  using ParallelFilter_correct [where sched = "[5, 5, 1, 0]" and xs = "[1, 2, 3, 4 :: nat]" and concurrency = 2 and p = even] by simp

text \<open>A goroutine of \<open>Throttle\<close> adds its own entry to the log of actions.\<close>

definition log_ok :: "'a list \<Rightarrow> (nat \<times> 'a) list \<Rightarrow> bool" where
  "log_ok xs acts \<longleftrightarrow> distinct (map fst acts) \<and> set acts \<subseteq> set (enumerate 0 xs)"

definition throttle_track :: "'a list \<Rightarrow> (nat \<times> 'a) list \<Rightarrow> nat \<times> 'a \<Rightarrow> bool" where
  "throttle_track xs acts j \<longleftrightarrow> log_ok xs acts \<and> j \<in> set (enumerate 0 xs) \<and> fst j \<notin> fst ` set acts"

definition throttle_settled :: "'a list \<Rightarrow> nat \<Rightarrow> (nat \<times> 'a) list \<Rightarrow> bool" where
  "throttle_settled xs i acts \<longleftrightarrow> log_ok xs acts \<and> i \<in> fst ` set acts"

interpretation throttle_jobs: independent_jobs throttle_job fst "\<lambda>j. 0" "throttle_track xs" "throttle_settled xs" for xs
  by unfold_locales (auto simp: throttle_job_def throttle_track_def throttle_settled_def log_ok_def)

lemma throttle_start: "throttle_jobs.pool_start xs (enumerate 0 xs) []"
  by (auto simp: throttle_jobs.pool_start_def throttle_track_def log_ok_def nth_enumerate_eq in_set_enumerate_eq)

lemma Throttle_runs_each_once:
  assumes "Throttle sched (From xs) concurrency = Ret acts"
  shows "mset acts = mset xs"
proof -
  define q where "q = pool_run (nat concurrency) (enumerate 0 xs) throttle_job sched (0, [], [])"
  have q: "pool_finished (enumerate 0 xs) q" "acts = map snd (pool_shared q)"
    using assms by (auto simp: Throttle_def from_slice.collect_all Let_def q_def split: if_splits)
  have s: "throttle_settled xs i (pool_shared q)" if "i < length xs" for i
    using throttle_jobs.pool_run_settled [OF throttle_start, of xs "nat concurrency" sched i] q(1) that by (simp add: q_def)
  show ?thesis
  proof (cases "xs = []")
    case True
    with q show ?thesis by (simp add: q_def pool_no_jobs)
  next
    case False
    with s have ok: "log_ok xs (pool_shared q)" by (auto simp: throttle_settled_def)
    have "e \<in> set (pool_shared q)" if e: "e \<in> set (enumerate 0 xs)" for e
    proof -
      from e have "fst e < length xs" "snd e = xs ! fst e" by (auto simp: in_set_enumerate_eq)
      moreover from this s obtain e' where "e' \<in> set (pool_shared q)" "fst e' = fst e"
        by (fastforce simp: throttle_settled_def)
      moreover from this ok have "e' \<in> set (enumerate 0 xs)" by (auto simp: log_ok_def)
      ultimately show ?thesis by (metis in_set_enumerate_eq prod_eqI diff_zero)
    qed
    with ok have "set (pool_shared q) = set (enumerate 0 xs)" by (auto simp: log_ok_def)
    moreover have "distinct (pool_shared q)" using ok by (auto simp: log_ok_def distinct_map)
    ultimately have "mset (pool_shared q) = mset (enumerate 0 xs)" by (metis distinct_enumerate set_eq_iff_mset_eq_distinct)
    then have "mset (map snd (pool_shared q)) = mset (map snd (enumerate 0 xs))" by (metis mset_map)
    with q(2) show ?thesis by simp
  qed
qed

section \<open>Pipeline\<close>

text \<open>The reference: one element through the functions, alone. The result is \<open>None\<close> when the output
  slot keeps its zero value.\<close>

fun pipe_elem :: "PipelineErrorMode \<Rightarrow> ('v \<Rightarrow> 'r option) \<Rightarrow> 'v \<Rightarrow> bool \<Rightarrow> 'e option \<Rightarrow> ('v, 'e) pipe_fn list \<Rightarrow>
    'r option \<times> 'e option" where
  "pipe_elem mode cast cur valid err [] = (if valid then cast cur else None, err)"
| "pipe_elem mode cast cur valid err (fn # fns) =
     (case fn cur valid of
        (res, Some e) \<Rightarrow>
          (case mode of
             IgnoreErrors \<Rightarrow> pipe_elem mode cast cur False (Some e) fns
           | OtherMode n \<Rightarrow> pipe_elem mode cast res False (Some e) fns
           | _ \<Rightarrow> (None, Some e))
      | (res, None) \<Rightarrow> pipe_elem mode cast res valid err fns)"

text \<open>Only \<open>StopAllOnError\<close> stops the other elements, and only after an error was noted.\<close>

definition pipe_ok :: "PipelineErrorMode \<Rightarrow> 'v list \<Rightarrow> ('r, 'e) pipe_shared \<Rightarrow> bool" where
  "pipe_ok mode xs s \<longleftrightarrow> length (ps_out s) = length xs \<and> length (ps_errs s) = length xs \<and>
     (ps_stopped s \<longrightarrow> mode = StopAllOnError \<and> (\<exists>k<length xs. ps_errs s ! k \<noteq> None))"

definition pipe_track :: "'r \<Rightarrow> PipelineErrorMode \<Rightarrow> ('v \<Rightarrow> 'r option) \<Rightarrow> ('v, 'e) pipe_fn list \<Rightarrow> 'v list \<Rightarrow>
    ('r, 'e) pipe_shared \<Rightarrow> ('v, 'e) pipe_work \<Rightarrow> bool" where
  "pipe_track zero mode cast pipeFns xs s = (\<lambda>(i, cur, valid, fns).
     pipe_ok mode xs s \<and> i < length xs \<and> ps_out s ! i = zero \<and> (mode = StopAllOnError \<longrightarrow> ps_errs s ! i = None) \<and>
     pipe_elem mode cast (xs ! i) True None pipeFns = pipe_elem mode cast cur valid (ps_errs s ! i) fns)"

text \<open>The slot of an element that is done: what the element gives alone, or nothing because it was stopped.\<close>

definition pipe_slot_ok :: "'r \<Rightarrow> bool \<Rightarrow> 'r option \<times> 'e option \<Rightarrow> 'r \<Rightarrow> 'e option \<Rightarrow> bool" where
  "pipe_slot_ok zero stopped ref r e \<longleftrightarrow>
     r = case_option zero (\<lambda>r. r) (fst ref) \<and> e = snd ref \<or> stopped \<and> r = zero \<and> e = None"

definition pipe_settled :: "'r \<Rightarrow> PipelineErrorMode \<Rightarrow> ('v \<Rightarrow> 'r option) \<Rightarrow> ('v, 'e) pipe_fn list \<Rightarrow> 'v list \<Rightarrow>
    nat \<Rightarrow> ('r, 'e) pipe_shared \<Rightarrow> bool" where
  "pipe_settled zero mode cast pipeFns xs i s \<longleftrightarrow> pipe_ok mode xs s \<and>
     (i < length xs \<longrightarrow>
        pipe_slot_ok zero (ps_stopped s) (pipe_elem mode cast (xs ! i) True None pipeFns) (ps_out s ! i) (ps_errs s ! i))"

abbreviation pipe_slot :: "('v, 'e) pipe_work \<Rightarrow> nat" where
  "pipe_slot \<equiv> fst"

abbreviation pipe_fuel :: "('v, 'e) pipe_work \<Rightarrow> nat" where
  "pipe_fuel \<equiv> (\<lambda>(i, cur, valid, fns). length fns)"

text \<open>An on-track goroutine either goes on or leaves its slot settled; it writes nothing but its slot, and never
  takes a noted error or the stop back.\<close>

lemma pipe_elem_stop: "mode = StopAllOnError \<Longrightarrow> fn cur valid = (res, Some e) \<Longrightarrow> pipe_elem mode cast cur valid err (fn # fns) = (None, Some e)"
  by simp

lemma pipe_job_cases:
  assumes "pipe_track zero mode cast pipeFns xs s j"
  shows "case pipe_job mode cast s j of
      (s', Some j') \<Rightarrow> pipe_track zero mode cast pipeFns xs s' j' \<and> fst j' = fst j \<and> pipe_fuel j' < pipe_fuel j
    | (s', None) \<Rightarrow> pipe_settled zero mode cast pipeFns xs (fst j) s'"
proof (cases j)
  case (fields i cur valid fns)
  show ?thesis
  proof (cases fns)
    case Nil
    with fields assms show ?thesis
      by (auto simp: pipe_track_def pipe_settled_def pipe_slot_ok_def pipe_ok_def split: option.split)
  next
    case (Cons fn rest)
    obtain res err where fn: "fn cur valid = (res, err)" by (cases "fn cur valid")
    show ?thesis
    proof (cases err)
      case None
      with fields Cons fn assms show ?thesis by (auto simp: pipe_track_def pipe_ok_def pipe_settled_def pipe_slot_ok_def)
    next
      case (Some e)
      with fields Cons fn assms show ?thesis
        by (cases mode) (auto simp: pipe_track_def pipe_settled_def pipe_slot_ok_def pipe_ok_def Let_def)
    qed
  qed
qed

lemma pipe_job_frame:
  assumes "pipe_track zero mode cast pipeFns xs s j" and "pipe_job mode cast s j = (s', r)"
  shows "pipe_ok mode xs s'" and "i \<noteq> fst j \<Longrightarrow> ps_out s' ! i = ps_out s ! i" and "i \<noteq> fst j \<Longrightarrow> ps_errs s' ! i = ps_errs s ! i"
    and "ps_stopped s \<Longrightarrow> ps_stopped s'"
proof -
  show "pipe_ok mode xs s'"
    using pipe_job_cases [OF assms(1)] assms(2)
    by (auto simp: pipe_track_def pipe_settled_def split: option.splits)
  obtain k cur valid fns where j: "j = (k, cur, valid, fns)" by (cases j)
  show "i \<noteq> fst j \<Longrightarrow> ps_out s' ! i = ps_out s ! i" "i \<noteq> fst j \<Longrightarrow> ps_errs s' ! i = ps_errs s ! i" "ps_stopped s \<Longrightarrow> ps_stopped s'"
    using assms(2) j
    by (cases fns; auto simp: Let_def split: if_splits option.splits prod.splits PipelineErrorMode.splits)+
qed

interpretation pipe_jobs: independent_jobs "pipe_job mode cast" pipe_slot pipe_fuel
  "pipe_track zero mode cast pipeFns xs" "pipe_settled zero mode cast pipeFns xs" for mode cast zero pipeFns xs
proof unfold_locales
  fix s s' :: "('b, 'c) pipe_shared" and j j' :: "('a, 'c) pipe_work"
  assume "pipe_job mode cast s j = (s', Some j')" "pipe_track zero mode cast pipeFns xs s j"
  then show "pipe_track zero mode cast pipeFns xs s' j' \<and> fst j' = fst j \<and> pipe_fuel j' < pipe_fuel j"
    using pipe_job_cases [of zero mode cast pipeFns xs s j] by simp
next
  fix s s' :: "('b, 'c) pipe_shared" and j :: "('a, 'c) pipe_work"
  assume "pipe_job mode cast s j = (s', None)" "pipe_track zero mode cast pipeFns xs s j"
  then show "pipe_settled zero mode cast pipeFns xs (fst j) s'"
    using pipe_job_cases [of zero mode cast pipeFns xs s j] by simp
next
  fix s s' :: "('b, 'c) pipe_shared" and j k :: "('a, 'c) pipe_work" and r
  assume a: "pipe_job mode cast s j = (s', r)" "pipe_track zero mode cast pipeFns xs s j"
    "pipe_track zero mode cast pipeFns xs s k" "fst k \<noteq> fst j"
  then show "pipe_track zero mode cast pipeFns xs s' k"
    using pipe_job_frame [OF a(2,1)] by (auto simp: pipe_track_def)
next
  fix s s' :: "('b, 'c) pipe_shared" and j :: "('a, 'c) pipe_work" and r i
  assume a: "pipe_job mode cast s j = (s', r)" "pipe_track zero mode cast pipeFns xs s j"
    "pipe_settled zero mode cast pipeFns xs i s" "i \<noteq> fst j"
  then show "pipe_settled zero mode cast pipeFns xs i s'"
    using pipe_job_frame [OF a(2,1)] by (auto simp: pipe_settled_def pipe_slot_ok_def)
qed

lemma pipe_start:
  "pipe_jobs.pool_start zero mode cast pipeFns xs (map (\<lambda>(i, v). (i, v, True, pipeFns)) (enumerate 0 xs))
    \<lparr>ps_stopped = False, ps_out = replicate (length xs) zero, ps_errs = replicate (length xs) None\<rparr>"
  by (auto simp: pipe_jobs.pool_start_def pipe_track_def pipe_ok_def nth_enumerate_eq)

text \<open>What \<open>Pipeline\<close> returns when each element is run alone, and what it may return when one of them stops the others.\<close>

definition pipe_results :: "'r \<Rightarrow> PipelineErrorMode \<Rightarrow> ('v \<Rightarrow> 'r option) \<Rightarrow> ('v, 'e) pipe_fn list \<Rightarrow> 'v list \<Rightarrow> 'r list \<times> 'e option list" where
  "pipe_results zero mode cast pipeFns xs =
     (map (\<lambda>x. case_option zero (\<lambda>r. r) (fst (pipe_elem mode cast x True None pipeFns))) xs,
      map (\<lambda>x. snd (pipe_elem mode cast x True None pipeFns)) xs)"

definition pipe_stopped_results :: "'r \<Rightarrow> ('v \<Rightarrow> 'r option) \<Rightarrow> ('v, 'e) pipe_fn list \<Rightarrow> 'v list \<Rightarrow> 'r list \<times> 'e option list \<Rightarrow> bool" where
  "pipe_stopped_results zero cast pipeFns xs = (\<lambda>(rs, es). length rs = length xs \<and> length es = length xs \<and> (\<exists>e\<in>set es. e \<noteq> None) \<and>
     (\<forall>i<length xs. pipe_slot_ok zero True (pipe_elem StopAllOnError cast (xs ! i) True None pipeFns) (rs ! i) (es ! i)))"

lemma pipe_stopped_fails:
  assumes "pipe_stopped_results zero cast pipeFns xs r"
  shows "\<exists>x\<in>set xs. snd (pipe_elem StopAllOnError cast x True None pipeFns) \<noteq> None"
proof -
  obtain rs es where r: "r = (rs, es)" by (cases r)
  with assms obtain i where "i < length xs" "es ! i \<noteq> None" by (auto simp: pipe_stopped_results_def in_set_conv_nth)
  with assms r have "snd (pipe_elem StopAllOnError cast (xs ! i) True None pipeFns) \<noteq> None"
    by (auto simp: pipe_stopped_results_def pipe_slot_ok_def)
  with \<open>i < length xs\<close> show ?thesis by (meson nth_mem)
qed

lemma pipe_pool_result:
  assumes "jobs = map (\<lambda>(i, v). (i, v, True, pipeFns)) (enumerate 0 xs)"
    and "q = pool_run w jobs (pipe_job mode cast) sched (0, [],
      \<lparr>ps_stopped = False, ps_out = replicate (length xs) zero, ps_errs = replicate (length xs) None\<rparr>)"
    and "pool_finished jobs q"
  shows "(ps_out (pool_shared q), ps_errs (pool_shared q)) = pipe_results zero mode cast pipeFns xs \<or>
    mode = StopAllOnError \<and> pipe_stopped_results zero cast pipeFns xs (ps_out (pool_shared q), ps_errs (pool_shared q))"
proof (cases "xs = []")
  case True
  with assms(1,2) show ?thesis by (simp add: pipe_results_def pool_no_jobs)
next
  case False
  have s: "pipe_settled zero mode cast pipeFns xs i (pool_shared q)" if "i < length xs" for i
    using pipe_jobs.pool_run_settled [OF pipe_start, where i = i and zero = zero and xs = xs and mode = mode and cast = cast and pipeFns = pipeFns] assms that by simp
  with False have ok: "pipe_ok mode xs (pool_shared q)" by (auto simp: pipe_settled_def)
  show ?thesis
  proof (cases "ps_stopped (pool_shared q)")
    case True
    with ok have mode: "mode = StopAllOnError" and "\<exists>k<length xs. ps_errs (pool_shared q) ! k \<noteq> None"
      and len: "length (ps_out (pool_shared q)) = length xs" "length (ps_errs (pool_shared q)) = length xs"
      by (simp_all add: pipe_ok_def)
    then have "\<exists>e\<in>set (ps_errs (pool_shared q)). e \<noteq> None" by (metis nth_mem)
    with s mode len True show ?thesis by (simp add: pipe_stopped_results_def pipe_settled_def)
  next
    case run: False
    with s ok have "(ps_out (pool_shared q), ps_errs (pool_shared q)) = pipe_results zero mode cast pipeFns xs"
      by (auto simp: pipe_ok_def pipe_settled_def pipe_slot_ok_def pipe_results_def intro!: nth_equalityI)
    then show ?thesis by simp
  qed
qed

text \<open>
  C35. In every interleaving and for every positive concurrency \<open>Pipeline\<close> can be completed and does not panic. When it
  returns, the two iterators hold what the elements give when each is run alone, in input order; only in
  \<open>StopAllOnError\<close>, and only if some element fails alone, may it differ: then some error is reported, and each
  element holds what it gives alone or, because it was stopped, the zero value and no error.
\<close>

theorem Pipeline_reference:
  assumes "0 < concurrency"
  shows "(case Pipeline zero cast sched (From xs) concurrency mode pipeFns of
      Ret (res, errs) \<Rightarrow> (Collect_iter res, Collect_iter errs) = pipe_results zero mode cast pipeFns xs \<or>
        mode = StopAllOnError \<and> (\<exists>x\<in>set xs. snd (pipe_elem mode cast x True None pipeFns) \<noteq> None) \<and>
        pipe_stopped_results zero cast pipeFns xs (Collect_iter res, Collect_iter errs)
    | Panic e \<Rightarrow> False | Blocked \<Rightarrow> True) \<and>
    (\<exists>more res errs. Pipeline zero cast (sched @ more) (From xs) concurrency mode pipeFns = Ret (res, errs))"
proof -
  let ?jobs = "map (\<lambda>(i, v). (i, v, True, pipeFns)) (enumerate 0 xs)"
  let ?init = "(0, [], \<lparr>ps_stopped = False, ps_out = replicate (length xs) zero, ps_errs = replicate (length xs) None\<rparr>)"
  have "case Pipeline zero cast sched (From xs) concurrency mode pipeFns of
      Ret (res, errs) \<Rightarrow> (Collect_iter res, Collect_iter errs) = pipe_results zero mode cast pipeFns xs \<or>
        mode = StopAllOnError \<and> (\<exists>x\<in>set xs. snd (pipe_elem mode cast x True None pipeFns) \<noteq> None) \<and>
        pipe_stopped_results zero cast pipeFns xs (Collect_iter res, Collect_iter errs)
    | Panic e \<Rightarrow> False | Blocked \<Rightarrow> True"
    using assms pipe_pool_result [OF refl refl, where xs = xs and pipeFns = pipeFns and w = "nat concurrency" and mode = mode and cast = cast and sched = sched and zero = zero] pipe_stopped_fails [of zero cast pipeFns xs]
    by (auto simp: Pipeline_def from_slice.collect_all Let_def)
  moreover obtain more where "pool_finished ?jobs (pool_run (nat concurrency) ?jobs (pipe_job mode cast) (sched @ more) ?init)"
    using pipe_jobs.pool_completes [OF pipe_start, where workers = "nat concurrency" and ks = sched and zero = zero and xs = xs
      and mode = mode and cast = cast and pipeFns = pipeFns] assms
    by auto
  then have "\<exists>res errs. Pipeline zero cast (sched @ more) (From xs) concurrency mode pipeFns = Ret (res, errs)"
    using assms by (simp add: Pipeline_def from_slice.collect_all Let_def)
  ultimately show ?thesis by blast
qed

theorem Pipeline_reference_witness:
  "\<exists>more res errs. Pipeline (0::int) Some ([3, 3, 0] @ more) (From [1, 2, 3]) 2 IgnoreErrors
     [\<lambda>v ok. if v = 2 then (v, Some ''two'') else (v + 10, None), \<lambda>v ok. (v * 2, None)] = Ret (res, errs)"
  using Pipeline_reference [where mode = IgnoreErrors and xs = "[1, 2, 3]" and cast = Some and concurrency = 2
      and zero = "0::int" and sched = "[3, 3, 0]"
      and pipeFns = "[\<lambda>v ok. if v = 2 then (v, Some ''two'') else (v + 10, None), \<lambda>v ok. (v * 2, None)]"]
  by simp

text \<open>
  \<open>PipelineMapped\<close> never yields anything: whenever it returns, its iterator is empty, for every input,
  every function list and every mode.
\<close>

theorem PipelineMapped_empty:
  "case PipelineMapped zero cast sched it concurrency mode pipeFns of
     Ret objs \<Rightarrow> Collect_iter objs = [] | Panic e \<Rightarrow> concurrency < 0 | Blocked \<Rightarrow> 0 \<le> concurrency"
  by (simp add: PipelineMapped_def Pipeline_def Let_def from_slice.collect_all)

text \<open>
  The goroutine-per-element operations, whatever the order in which the goroutines run: \<open>Concurrent\<close>
  runs every action once and returns no error exactly when no action fails, otherwise the error of
  one of them; \<open>Race\<close> returns a result exactly when some element has one, and a result of some element;
  \<open>FanOut\<close> runs every handler once on every element.
\<close>

theorem unbounded_order_irrelevant:
  assumes "mset ord = mset [0..<length xs]" and "mset ord' = mset [0..<length xs * length handlers]"
  shows "mset (fst (Concurrent ord (From xs) action)) = mset xs \<and>
    (snd (Concurrent ord (From xs) action) = None \<longleftrightarrow> list_all (\<lambda>x. action x = None) xs) \<and>
    list_all (\<lambda>e. \<exists>x\<in>set xs. action x = Some e) (case_option [] (\<lambda>e. [e]) (snd (Concurrent ord (From xs) action))) \<and>
    (Race ord (From xs) result = None \<longleftrightarrow> list_all (\<lambda>x. result x = None) xs) \<and>
    list_all (\<lambda>r. \<exists>x\<in>set xs. result x = Some r) (case_option [] (\<lambda>r. [r]) (Race ord (From xs) result)) \<and>
    mset (FanOut ord' (From xs) handlers) = mset [(h, v). v \<leftarrow> xs, h \<leftarrow> handlers]"
proof -
  have m: "mset (in_order ord xs) = mset xs" by (rule mset_in_order [OF assms(1)])
  then have s: "set (in_order ord xs) = set xs" by (rule mset_eq_setD)
  have l: "length [(h, v). v \<leftarrow> xs, h \<leftarrow> handlers] = length xs * length handlers"
    by (simp add: length_concat comp_def sum_list_triv)
  have "mset (FanOut ord' (From xs) handlers) = mset [(h, v). v \<leftarrow> xs, h \<leftarrow> handlers]"
    unfolding FanOut_def from_slice.collect_all by (rule mset_in_order) (simp only: assms(2) l)
  then show ?thesis
    using m first_some_from [OF s, of action] first_some_from [OF s, of result]
    by (simp add: Concurrent_def Race_def from_slice.collect_all Let_def)
qed

theorem unbounded_order_irrelevant_witness:
  "Race [2, 0, 1] (From [1, 2, 3 :: nat]) (\<lambda>x. if even x then Some x else None) \<noteq> None"
  using unbounded_order_irrelevant [where ord = "[2, 0, 1]" and xs = "[1, 2, 3 :: nat]" and ord' = "[]" and handlers = "[] :: nat list"
      and result = "\<lambda>x. if even x then Some x else None" and action = "\<lambda>x. None :: nat option"]
  by (simp add: upt_rec)

text \<open>
  When the goroutines of \<open>Merge\<close> have forwarded everything, the output holds every value of every
  channel exactly once, and the values of each channel in their order.
\<close>

theorem Merge_interleaves:
  assumes "Merge sched chs = (out, replicate (length chs) [])"
  shows "mset out = mset (concat chs) \<and> list_all (\<lambda>ch. subseq ch out) chs"
proof -
  have "subseq ch out" if ch: "ch \<in> set chs" for ch
  proof -
    from ch obtain i where i: "i < length chs" "ch = chs ! i" by (metis in_set_conv_nth)
    with Merge_subseq [OF assms i(1)] show ?thesis by auto
  qed
  moreover have "concat (replicate n []) = ([] :: 'a list)" for n by (induction n) auto
  ultimately show ?thesis using Merge_mset [OF assms] by (simp add: list_all_iff)
qed

theorem Merge_interleaves_witness:
  "mset (fst (Merge [1, 0, 1, 0] [[1, 2], [3, 4 :: nat]])) = {#1, 2, 3, 4#}"
  using Merge_interleaves [of "[1, 0, 1, 0]" "[[1, 2], [3, 4 :: nat]]" "[3, 1, 4, 2]"] by simp

end
