(* ===== verification/Var_Broadcast.thy ===== *)
theory Var_Broadcast
  imports Go_Channel Sync_Root Concurrent
begin

text \<open>
  \<open>BroadcastChannel\<close> of \<open>internal/core/syncv2/vars/channel.go\<close>. A subscription is a number; the channel
  it reads from lives in a heap of channels, because it outlives the entry in the subscriber map.
  The map is the list of its keys in the order the \<open>range\<close> visits them; the channels are
  independent, so that order does not matter to any of them. \<open>Subscribe\<close>, \<open>Unsubscribe\<close>, \<open>Close\<close> and
  \<open>SetBufferSize\<close> hold the write lock and \<open>Send\<close> the read lock, so each is one step.
\<close>

section \<open>State and operations\<close>

record 'a BroadcastChannel =
  br_subscribers :: "nat list"
  br_chans :: "nat \<Rightarrow> 'a gochan option"
  br_next :: nat
  br_current :: 'a
  br_version :: uint64
  br_dirty :: bool
  br_closed :: bool
  br_bufferSize :: int

definition NewBroadcastChannel :: "int \<Rightarrow> 'a \<Rightarrow> 'a BroadcastChannel" where
  "NewBroadcastChannel bufferSize initialValue =
     \<lparr>br_subscribers = [], br_chans = (\<lambda>_. None), br_next = 0, br_current = initialValue, br_version = 1,
      br_dirty = False, br_closed = False, br_bufferSize = bufferSize\<rparr>"

text \<open>The value a closed channel's receivers see is not observed here; \<open>zero\<close> stands for it.\<close>

definition BroadcastChannel_Subscribe :: "'a \<Rightarrow> 'a BroadcastChannel \<Rightarrow> (nat \<times> 'a BroadcastChannel) outcome" where
  "BroadcastChannel_Subscribe zero c =
     (let sub = br_next c in
      if br_closed c
      then bind_outcome (make_chan 1) (\<lambda>ch.
           bind_outcome (chan_close zero ch) (\<lambda>(ws, ch').
             Ret (sub, c\<lparr>br_chans := (br_chans c)(sub := Some ch'), br_next := sub + 1\<rparr>)))
      else bind_outcome (make_chan (br_bufferSize c)) (\<lambda>ch.
             Ret (sub, c\<lparr>br_chans := (br_chans c)(sub := Some ch), br_subscribers := br_subscribers c @ [sub],
               br_next := sub + 1\<rparr>)))"

definition close_sub :: "'a \<Rightarrow> nat \<Rightarrow> 'a BroadcastChannel \<Rightarrow> 'a BroadcastChannel outcome" where
  "close_sub zero sub c =
     (case br_chans c sub of
        None \<Rightarrow> Panic NilDereference
      | Some ch \<Rightarrow> bind_outcome (chan_close zero ch) (\<lambda>(ws, ch').
          Ret (c\<lparr>br_chans := (br_chans c)(sub := Some ch')\<rparr>)))"

definition BroadcastChannel_Unsubscribe :: "'a \<Rightarrow> 'a BroadcastChannel \<Rightarrow> nat \<Rightarrow> 'a BroadcastChannel outcome" where
  "BroadcastChannel_Unsubscribe zero c sub =
     (if sub \<in> set (br_subscribers c)
      then close_sub zero sub (c\<lparr>br_subscribers := filter (\<lambda>s. s \<noteq> sub) (br_subscribers c)\<rparr>)
      else Ret c)"

text \<open>\<open>Close\<close> on a subscription: the function stored by \<open>Subscribe\<close>, which for the channel of a closed
  broadcaster does nothing; such a subscription is not in the map.\<close>

definition Subscription_Close :: "'a \<Rightarrow> 'a BroadcastChannel \<Rightarrow> nat \<Rightarrow> 'a BroadcastChannel outcome" where
  "Subscription_Close zero c sub = BroadcastChannel_Unsubscribe zero c sub"

definition Subscription_Channel :: "'a BroadcastChannel \<Rightarrow> nat \<Rightarrow> 'a gochan option" where
  "Subscription_Channel c sub = br_chans c sub"

definition BroadcastChannel_Get :: "'a BroadcastChannel \<Rightarrow> 'a" where
  "BroadcastChannel_Get c = br_current c"

definition BroadcastChannel_Set :: "'a BroadcastChannel \<Rightarrow> 'a \<Rightarrow> 'a BroadcastChannel" where
  "BroadcastChannel_Set c v = c\<lparr>br_current := v, br_version := br_version c + 1, br_dirty := True\<rparr>"

text \<open>The \<open>select\<close> with a default case on one subscriber, and the loop over all of them.\<close>

definition offer_sub :: "'a \<Rightarrow> nat \<Rightarrow> 'a BroadcastChannel \<Rightarrow> 'a BroadcastChannel outcome" where
  "offer_sub v sub c =
     (case br_chans c sub of
        None \<Rightarrow> Ret c
      | Some ch \<Rightarrow> bind_outcome (chan_offer v ch) (\<lambda>r.
          case r of Some (ws, ch') \<Rightarrow> Ret (c\<lparr>br_chans := (br_chans c)(sub := Some ch')\<rparr>) | None \<Rightarrow> Ret c))"

fun offer_all :: "'a \<Rightarrow> nat list \<Rightarrow> 'a BroadcastChannel \<Rightarrow> 'a BroadcastChannel outcome" where
  "offer_all v [] c = Ret c"
| "offer_all v (sub # subs) c = bind_outcome (offer_sub v sub c) (offer_all v subs)"

text \<open>The action given to \<open>Batch\<close> ignores its batch and visits all subscribers; \<open>Batch\<close> runs it once per
  chunk.\<close>

fun offer_batches :: "'a \<Rightarrow> nat list list \<Rightarrow> 'a BroadcastChannel \<Rightarrow> 'a BroadcastChannel outcome" where
  "offer_batches v [] c = Ret c"
| "offer_batches v (batch # batches) c =
     bind_outcome (offer_all v (br_subscribers c) c) (offer_batches v batches)"

text \<open>\<open>Blocked\<close> also stands for a \<open>Batch\<close> that does not return, which a positive size excludes.\<close>

definition BroadcastChannel_Send :: "'a BroadcastChannel \<Rightarrow> 'a \<Rightarrow> (bool \<times> 'a BroadcastChannel) outcome" where
  "BroadcastChannel_Send c v =
     (if br_closed c then Ret (False, c)
      else
        let c1 = c\<lparr>br_current := v, br_version := br_version c + 1, br_dirty := True\<rparr>
        in if length (br_subscribers c1) < 1000
           then bind_outcome (offer_all v (br_subscribers c1) c1) (\<lambda>c2. Ret (True, c2))
           else case Batch (FromMap (map (\<lambda>s. (s, s)) (br_subscribers c1))) 4 of
                  None \<Rightarrow> Blocked
                | Some batches \<Rightarrow> bind_outcome batches (\<lambda>bs.
                    bind_outcome (offer_batches v bs c1) (\<lambda>c2. Ret (True, c2))))"

definition BroadcastChannel_Receive :: "'a BroadcastChannel \<Rightarrow> 'a option" where
  "BroadcastChannel_Receive c = None"

text \<open>The blocking loop; a full subscriber blocks it.\<close>

fun push_all :: "'a \<Rightarrow> nat list \<Rightarrow> 'a BroadcastChannel \<Rightarrow> 'a BroadcastChannel outcome" where
  "push_all v [] c = Ret c"
| "push_all v (sub # subs) c =
     (case br_chans c sub of
        None \<Rightarrow> Blocked
      | Some ch \<Rightarrow> bind_outcome (chan_offer v ch) (\<lambda>r.
          case r of Some (ws, ch') \<Rightarrow> push_all v subs (c\<lparr>br_chans := (br_chans c)(sub := Some ch')\<rparr>)
          | None \<Rightarrow> Blocked))"

definition BroadcastChannel_SendBlocking :: "'a BroadcastChannel \<Rightarrow> 'a \<Rightarrow> 'a BroadcastChannel outcome" where
  "BroadcastChannel_SendBlocking c v =
     (if br_closed c then Ret c
      else let c1 = c\<lparr>br_current := v, br_version := br_version c + 1, br_dirty := True\<rparr>
           in push_all v (br_subscribers c1) c1)"

definition BroadcastChannel_ReceiveBlocking :: "'a \<Rightarrow> 'a BroadcastChannel \<Rightarrow> 'a" where
  "BroadcastChannel_ReceiveBlocking zero c = zero"

definition BroadcastChannel_BufferSize :: "'a BroadcastChannel \<Rightarrow> int" where
  "BroadcastChannel_BufferSize c = br_bufferSize c"

text \<open>\<open>True\<close>: the error of a closed channel.\<close>

definition BroadcastChannel_SetBufferSize :: "'a BroadcastChannel \<Rightarrow> int \<Rightarrow> bool \<times> 'a BroadcastChannel" where
  "BroadcastChannel_SetBufferSize c sz = (if br_closed c then (True, c) else (False, c\<lparr>br_bufferSize := sz\<rparr>))"

definition BroadcastChannel_Version :: "'a BroadcastChannel \<Rightarrow> uint64" where
  "BroadcastChannel_Version c = br_version c"

definition BroadcastChannel_IsDirty :: "'a BroadcastChannel \<Rightarrow> bool" where
  "BroadcastChannel_IsDirty c = br_dirty c"

definition BroadcastChannel_MarkClean :: "'a BroadcastChannel \<Rightarrow> 'a BroadcastChannel" where
  "BroadcastChannel_MarkClean c = c\<lparr>br_dirty := False\<rparr>"

fun close_all :: "'a \<Rightarrow> nat list \<Rightarrow> 'a BroadcastChannel \<Rightarrow> 'a BroadcastChannel outcome" where
  "close_all zero [] c = Ret c"
| "close_all zero (sub # subs) c = bind_outcome (close_sub zero sub c) (close_all zero subs)"

definition BroadcastChannel_Close :: "'a \<Rightarrow> 'a BroadcastChannel \<Rightarrow> 'a BroadcastChannel outcome" where
  "BroadcastChannel_Close zero c =
     (if \<not> br_closed c
      then bind_outcome (close_all zero (br_subscribers c) (c\<lparr>br_closed := True\<rparr>)) (\<lambda>c'.
             Ret (c'\<lparr>br_subscribers := []\<rparr>))
      else Ret c)"

section \<open>Invariant\<close>

text \<open>A channel is open exactly while its subscription is in the map; after \<open>Close\<close> the map is empty.\<close>

definition br_inv :: "'a BroadcastChannel \<Rightarrow> bool" where
  "br_inv c \<longleftrightarrow> distinct (br_subscribers c) \<and>
     (\<forall>s\<in>set (br_subscribers c). s < br_next c \<and>
        (\<exists>ch. br_chans c s = Some ch \<and> \<not> gc_closed ch \<and> chan_wf ch)) \<and>
     (\<forall>s ch. br_chans c s = Some ch \<longrightarrow> s < br_next c \<and> (s \<notin> set (br_subscribers c) \<longrightarrow> gc_closed ch)) \<and>
     (br_closed c \<longrightarrow> br_subscribers c = [])"

text \<open>What one \<open>select\<close> does to a subscriber's channel.\<close>

definition offered :: "'a \<Rightarrow> 'a gochan \<Rightarrow> 'a gochan" where
  "offered v ch = (case chan_offer v ch of Ret (Some (ws, ch')) \<Rightarrow> ch' | _ \<Rightarrow> ch)"

lemma offered_ok:
  assumes "\<not> gc_closed ch" and "chan_wf ch"
  shows "\<not> gc_closed (offered v ch)" and "chan_wf (offered v ch)" and "gc_cap (offered v ch) = gc_cap ch"
    and "gc_recvq ch = [] \<Longrightarrow> gc_recvq (offered v ch) = [] \<and>
      gc_buf (offered v ch) = take (gc_cap ch) (gc_buf ch @ [v])"
  using assms
  by (auto simp: offered_def chan_offer_def chan_wf_def split: list.split)

lemma offer_sub_eq:
  "br_chans c s = Some ch \<Longrightarrow> \<not> gc_closed ch \<Longrightarrow>
     offer_sub v s c = Ret (c\<lparr>br_chans := (br_chans c)(s := Some (offered v ch))\<rparr>)"
  by (auto simp: offer_sub_def offered_def chan_offer_def fun_upd_idem split: list.split)

definition live :: "nat list \<Rightarrow> 'a BroadcastChannel \<Rightarrow> bool" where
  "live subs c \<longleftrightarrow> (\<forall>s\<in>set subs. \<exists>ch. br_chans c s = Some ch \<and> \<not> gc_closed ch \<and> chan_wf ch)"

text \<open>One pass over the subscribers gives each of them the value once.\<close>

definition offer_pass :: "'a \<Rightarrow> nat list \<Rightarrow> 'a BroadcastChannel \<Rightarrow> 'a BroadcastChannel" where
  "offer_pass v subs c =
     c\<lparr>br_chans := (\<lambda>s. if s \<in> set subs then map_option (offered v) (br_chans c s) else br_chans c s)\<rparr>"

lemma offer_all_pass: "distinct subs \<Longrightarrow> live subs c \<Longrightarrow> offer_all v subs c = Ret (offer_pass v subs c)"
proof (induction subs arbitrary: c)
  case Nil
  then show ?case by (simp add: offer_pass_def)
next
  case (Cons s subs)
  from Cons.prems obtain ch where ch: "br_chans c s = Some ch" "\<not> gc_closed ch"
    by (auto simp: live_def)
  let ?c = "c\<lparr>br_chans := (br_chans c)(s := Some (offered v ch))\<rparr>"
  have "live subs ?c" using Cons.prems by (auto simp: live_def)
  with Cons have "offer_all v subs ?c = Ret (offer_pass v subs ?c)" by simp
  moreover have "offer_pass v subs ?c = offer_pass v (s # subs) c"
    using Cons.prems ch by (auto simp: offer_pass_def fun_eq_iff)
  ultimately show ?case using offer_sub_eq [OF ch] by simp
qed

lemma live_pass: "live subs c \<Longrightarrow> live subs (offer_pass v ts c)"
  unfolding live_def offer_pass_def by (fastforce simp: offered_ok)

lemma pass_fields [simp]:
  "br_subscribers (offer_pass v subs c) = br_subscribers c" "br_current (offer_pass v subs c) = br_current c"
  "br_version (offer_pass v subs c) = br_version c" "br_dirty (offer_pass v subs c) = br_dirty c"
  "br_closed (offer_pass v subs c) = br_closed c" "br_next (offer_pass v subs c) = br_next c"
  by (simp_all add: offer_pass_def)

lemma offer_batches_pass:
  "distinct (br_subscribers c) \<Longrightarrow> live (br_subscribers c) c \<Longrightarrow>
     offer_batches v bs c = Ret ((offer_pass v (br_subscribers c) ^^ length bs) c)"
proof (induction bs arbitrary: c)
  case (Cons b bs)
  let ?c = "offer_pass v (br_subscribers c) c"
  have "offer_batches v bs ?c = Ret ((offer_pass v (br_subscribers c) ^^ length bs) ?c)"
    using Cons live_pass [of "br_subscribers c" c v "br_subscribers c"] by simp
  with Cons.prems show ?case by (simp add: offer_all_pass funpow_swap1)
qed simp

section \<open>Send\<close>

lemma take_take_snoc: "take n (take n xs @ [v]) = take n (xs @ [v])"
  by (cases "n \<le> length xs") auto

lemma pass_iterated:
  "br_chans ((offer_pass v subs ^^ k) c) s =
     (if s \<in> set subs then map_option (offered v ^^ k) (br_chans c s) else br_chans c s)"
  by (induction k) (auto simp: offer_pass_def option.map_comp comp_def option.map_ident)

lemma pass_iterated_fields [simp]:
  "br_subscribers ((offer_pass v subs ^^ k) c) = br_subscribers c" "br_current ((offer_pass v subs ^^ k) c) = br_current c"
  "br_version ((offer_pass v subs ^^ k) c) = br_version c" "br_dirty ((offer_pass v subs ^^ k) c) = br_dirty c"
  "br_closed ((offer_pass v subs ^^ k) c) = br_closed c" "br_next ((offer_pass v subs ^^ k) c) = br_next c"
  by (induction k) auto

lemma live_iterated: "live subs c \<Longrightarrow> live subs ((offer_pass v ts ^^ k) c)"
  by (induction k) (auto simp: live_pass)

lemma offered_iterated:
  assumes "\<not> gc_closed ch" and "chan_wf ch" and "gc_recvq ch = []"
  shows "\<not> gc_closed ((offered v ^^ k) ch) \<and> chan_wf ((offered v ^^ k) ch) \<and> gc_recvq ((offered v ^^ k) ch) = [] \<and>
    gc_cap ((offered v ^^ k) ch) = gc_cap ch \<and>
    gc_buf ((offered v ^^ k) ch) = take (gc_cap ch) (gc_buf ch @ replicate k v)"
proof (induction k)
  case 0
  with assms show ?case by (simp add: chan_wf_def)
next
  case (Suc k)
  then have "gc_buf ((offered v ^^ Suc k) ch) = take (gc_cap ch) (take (gc_cap ch) (gc_buf ch @ replicate k v) @ [v])"
    using offered_ok [of "(offered v ^^ k) ch" v] by simp
  also have "\<dots> = take (gc_cap ch) (gc_buf ch @ replicate (Suc k) v)"
    by (simp only: take_take_snoc append.assoc replicate_append_same [symmetric] replicate_Suc)
  finally show ?case using Suc offered_ok [of "(offered v ^^ k) ch" v] by simp
qed

lemma Batch_from_map: "Batch (FromMap m) 4 = Some (Ret (chunks_of 4 (map snd m)))"
  by (simp add: Batch_def from_map.collect_all batch_loop_chunks)

text \<open>How often \<open>Send\<close> offers the value to each subscriber.\<close>

definition send_passes :: "nat \<Rightarrow> nat" where
  "send_passes n = (if n < 1000 then 1 else (n + 3) div 4)"

lemma br_inv_live: "br_inv c \<Longrightarrow> distinct (br_subscribers c) \<and> live (br_subscribers c) c"
  by (auto simp: br_inv_def live_def)

lemma live_stores [simp]:
  "live subs (c\<lparr>br_current := v\<rparr>) = live subs c" "live subs (c\<lparr>br_version := k\<rparr>) = live subs c"
  "live subs (c\<lparr>br_dirty := d\<rparr>) = live subs c"
  by (simp_all add: live_def)

lemma Send_passes:
  assumes "br_inv c" and "\<not> br_closed c"
  shows "BroadcastChannel_Send c v = Ret (True, (offer_pass v (br_subscribers c) ^^ send_passes (length (br_subscribers c)))
    (BroadcastChannel_Set c v))"
proof -
  note l = br_inv_live [OF assms(1)]
  show ?thesis
  proof (cases "length (br_subscribers c) < 1000")
    case True
    with assms(2) l show ?thesis
      by (simp add: BroadcastChannel_Send_def BroadcastChannel_Set_def offer_all_pass send_passes_def)
  next
    case False
    have "length (chunks_of 4 (br_subscribers c)) = (length (br_subscribers c) + 3) div 4"
      by (simp add: length_chunks_of)
    with False assms(2) l show ?thesis
      by (simp add: BroadcastChannel_Send_def BroadcastChannel_Set_def Batch_from_map offer_batches_pass
          send_passes_def comp_def)
  qed
qed

lemma br_inv_pass: "br_inv c \<Longrightarrow> br_inv ((offer_pass v (br_subscribers c) ^^ k) (BroadcastChannel_Set c v))"
  using live_iterated [where subs = "br_subscribers c" and ts = "br_subscribers c" and c = "BroadcastChannel_Set c v" and v = v and k = k]
  by (auto simp: br_inv_def live_def BroadcastChannel_Set_def pass_iterated split: if_splits)

text \<open>
  \<open>Send\<close> on an open broadcaster reaches every subscriber: it succeeds, stores the value, counts the
  version, and appends the value to the channel of every subscriber that has room, and to no other
  channel. With fewer than a thousand subscribers each gets it once; from a thousand subscribers
  on, each gets it once per batch of four, that is \<open>\<lceil>n / 4\<rceil>\<close> times, until its buffer is full.
\<close>

theorem broadcast_send:
  assumes "br_inv c" and "\<not> br_closed c"
  shows "\<exists>c'. BroadcastChannel_Send c v = Ret (True, c') \<and> br_inv c' \<and> BroadcastChannel_Get c' = v \<and>
    BroadcastChannel_Version c' = BroadcastChannel_Version c + 1 \<and> BroadcastChannel_IsDirty c' \<and>
    br_subscribers c' = br_subscribers c \<and>
    (\<forall>s. if s \<in> set (br_subscribers c)
         then gc_recvq (the (br_chans c s)) = [] \<longrightarrow>
           gc_buf (the (br_chans c' s)) = take (gc_cap (the (br_chans c s)))
             (gc_buf (the (br_chans c s)) @ replicate (send_passes (length (br_subscribers c))) v)
         else br_chans c' s = br_chans c s)"
proof -
  let ?k = "send_passes (length (br_subscribers c))"
  let ?c = "(offer_pass v (br_subscribers c) ^^ ?k) (BroadcastChannel_Set c v)"
  have "if s \<in> set (br_subscribers c)
      then gc_recvq (the (br_chans c s)) = [] \<longrightarrow>
        gc_buf (the (br_chans ?c s)) = take (gc_cap (the (br_chans c s))) (gc_buf (the (br_chans c s)) @ replicate ?k v)
      else br_chans ?c s = br_chans c s" for s
  proof (cases "s \<in> set (br_subscribers c)")
    case True
    with assms(1) obtain ch where "br_chans c s = Some ch" "\<not> gc_closed ch" "chan_wf ch" by (auto simp: br_inv_def)
    with True offered_iterated [where ch = ch and v = v and k = ?k] show ?thesis by (simp add: pass_iterated BroadcastChannel_Set_def)
  next
    case False
    then show ?thesis by (simp add: pass_iterated BroadcastChannel_Set_def)
  qed
  moreover have "BroadcastChannel_Get ?c = v" "BroadcastChannel_Version ?c = BroadcastChannel_Version c + 1"
    "BroadcastChannel_IsDirty ?c" "br_subscribers ?c = br_subscribers c"
    by (simp_all add: BroadcastChannel_Get_def BroadcastChannel_Version_def BroadcastChannel_IsDirty_def BroadcastChannel_Set_def)
  ultimately show ?thesis using Send_passes [OF assms, of v] br_inv_pass [OF assms(1)]
    by (intro exI [of _ ?c] conjI allI)
qed

theorem broadcast_send_witness:
  "\<exists>c'. BroadcastChannel_Send \<lparr>br_subscribers = [0..<1000],
      br_chans = (\<lambda>s. if s < 1000 then Some \<lparr>gc_buf = [], gc_cap = 300, gc_closed = False, gc_recvq = [], gc_sendq = []\<rparr> else None),
      br_next = 1000, br_current = 0, br_version = 1, br_dirty = False, br_closed = False, br_bufferSize = 300\<rparr> (7::int) = Ret (True, c') \<and>
    gc_buf (the (br_chans c' 5)) = replicate 250 7"
proof -
  define ch :: "int gochan" where "ch = \<lparr>gc_buf = [], gc_cap = 300, gc_closed = False, gc_recvq = [], gc_sendq = []\<rparr>"
  define c where "c = \<lparr>br_subscribers = [0..<1000], br_chans = (\<lambda>s. if s < 1000 then Some ch else None),
      br_next = 1000, br_current = 0 :: int, br_version = 1, br_dirty = False, br_closed = False, br_bufferSize = 300\<rparr>"
  have "br_inv c" "\<not> br_closed c" by (auto simp: br_inv_def c_def ch_def chan_wf_def split: if_splits)
  from broadcast_send [OF this, of 7] obtain c' where c': "BroadcastChannel_Send c 7 = Ret (True, c')"
    "gc_buf (the (br_chans c' 5)) = take (gc_cap (the (br_chans c 5)))
       (gc_buf (the (br_chans c 5)) @ replicate (send_passes (length (br_subscribers c))) 7)"
    by (auto simp: c_def ch_def)
  then have "gc_buf (the (br_chans c' 5)) = replicate 250 7" by (simp add: c_def ch_def send_passes_def)
  with c'(1) show ?thesis unfolding c_def ch_def by blast
qed

section \<open>Subscriptions over time\<close>

text \<open>\<open>BTake s\<close> is a subscriber's non-blocking read from its channel.\<close>

datatype 'a br_call = BSubscribe | BUnsubscribe nat | BSend 'a | BSet 'a | BSetBufferSize nat | BClose
  | BMarkClean | BTake nat

fun br_step :: "'a \<Rightarrow> 'a br_call \<Rightarrow> 'a BroadcastChannel \<Rightarrow> 'a BroadcastChannel outcome" where
  "br_step zero BSubscribe c = bind_outcome (BroadcastChannel_Subscribe zero c) (\<lambda>(sub, c'). Ret c')"
| "br_step zero (BUnsubscribe sub) c = Subscription_Close zero c sub"
| "br_step zero (BSend v) c = bind_outcome (BroadcastChannel_Send c v) (\<lambda>(ok, c'). Ret c')"
| "br_step zero (BSet v) c = Ret (BroadcastChannel_Set c v)"
| "br_step zero (BSetBufferSize n) c = Ret (snd (BroadcastChannel_SetBufferSize c (int n)))"
| "br_step zero BClose c = BroadcastChannel_Close zero c"
| "br_step zero BMarkClean c = Ret (BroadcastChannel_MarkClean c)"
| "br_step zero (BTake sub) c =
     (case Subscription_Channel c sub of
        None \<Rightarrow> Ret c
      | Some ch \<Rightarrow> (case chan_poll zero ch of
          None \<Rightarrow> Ret c | Some (r, ws, ch') \<Rightarrow> Ret (c\<lparr>br_chans := (br_chans c)(sub := Some ch')\<rparr>)))"

fun br_run :: "'a \<Rightarrow> 'a br_call list \<Rightarrow> 'a BroadcastChannel \<Rightarrow> 'a BroadcastChannel outcome" where
  "br_run zero [] c = Ret c"
| "br_run zero (k # ks) c = bind_outcome (br_step zero k c) (br_run zero ks)"

definition br_ok :: "'a BroadcastChannel \<Rightarrow> bool" where
  "br_ok c \<longleftrightarrow> br_inv c \<and> 0 \<le> br_bufferSize c"

lemma close_sub_open:
  "br_chans c s = Some ch \<Longrightarrow> \<not> gc_closed ch \<Longrightarrow> close_sub zero s c =
     Ret (c\<lparr>br_chans := (br_chans c)(s := Some (ch\<lparr>gc_closed := True, gc_recvq := [], gc_sendq := []\<rparr>))\<rparr>)"
  by (simp add: close_sub_def chan_close_def)

lemma Subscribe_ok:
  assumes "br_ok c"
  shows "\<exists>sub c'. BroadcastChannel_Subscribe zero c = Ret (sub, c') \<and> br_ok c' \<and> br_closed c' = br_closed c"
proof -
  have b: "0 \<le> br_bufferSize c" and i: "br_inv c" using assms by (simp_all add: br_ok_def)
  show ?thesis
  proof (cases "br_closed c")
    case True
    with i b show ?thesis
      by (auto simp: BroadcastChannel_Subscribe_def make_chan_def chan_close_def br_ok_def br_inv_def Let_def less_SucI split: if_splits)
  next
    case False
    with i b show ?thesis
      by (auto simp: BroadcastChannel_Subscribe_def make_chan_def chan_wf_def br_ok_def br_inv_def Let_def less_SucI split: if_splits)
  qed
qed

lemma Unsubscribe_ok:
  assumes "br_ok c"
  shows "\<exists>c'. BroadcastChannel_Unsubscribe zero c s = Ret c' \<and> br_ok c' \<and> s \<notin> set (br_subscribers c')"
proof (cases "s \<in> set (br_subscribers c)")
  case True
  with assms obtain ch where "br_chans c s = Some ch" "\<not> gc_closed ch" by (auto simp: br_ok_def br_inv_def)
  with True assms show ?thesis
    by (fastforce simp: BroadcastChannel_Unsubscribe_def close_sub_open br_ok_def br_inv_def)
next
  case False
  with assms show ?thesis by (simp add: BroadcastChannel_Unsubscribe_def)
qed

lemma close_all_ok:
  "distinct subs \<Longrightarrow> live subs c \<Longrightarrow> \<exists>c'. close_all zero subs c = Ret c' \<and>
     (\<forall>s. if s \<in> set subs then \<exists>ch. br_chans c' s = Some ch \<and> gc_closed ch else br_chans c' s = br_chans c s) \<and>
     br_next c' = br_next c \<and> br_closed c' = br_closed c \<and> br_bufferSize c' = br_bufferSize c"
proof (induction subs arbitrary: c)
  case (Cons s subs)
  then obtain ch where ch: "br_chans c s = Some ch" "\<not> gc_closed ch" by (auto simp: live_def)
  define c1 where "c1 = c\<lparr>br_chans := (br_chans c)(s := Some (ch\<lparr>gc_closed := True, gc_recvq := [], gc_sendq := []\<rparr>))\<rparr>"
  have "live subs c1" using Cons.prems by (auto simp: live_def c1_def)
  with Cons obtain c2 where c2: "close_all zero subs c1 = Ret c2"
    "\<And>t. if t \<in> set subs then \<exists>ch. br_chans c2 t = Some ch \<and> gc_closed ch else br_chans c2 t = br_chans c1 t"
    "br_next c2 = br_next c1" "br_closed c2 = br_closed c1" "br_bufferSize c2 = br_bufferSize c1"
    by (metis distinct.simps(2))
  have "if t \<in> set (s # subs) then \<exists>ch. br_chans c2 t = Some ch \<and> gc_closed ch else br_chans c2 t = br_chans c t" for t
    using c2(2) [of t] Cons.prems(1) by (auto simp: c1_def split: if_splits)
  with c2 close_sub_open [OF ch, of zero] show ?case by (simp add: c1_def)
qed simp

lemma Close_ok:
  assumes "br_ok c"
  shows "\<exists>c'. BroadcastChannel_Close zero c = Ret c' \<and> br_ok c' \<and> br_closed c'"
proof (cases "br_closed c")
  case True
  with assms show ?thesis by (simp add: BroadcastChannel_Close_def)
next
  case False
  have "distinct (br_subscribers c)" "live (br_subscribers c) (c\<lparr>br_closed := True\<rparr>)"
    using assms by (auto simp: br_ok_def br_inv_def live_def)
  from close_all_ok [OF this, of zero] obtain c' where c': "close_all zero (br_subscribers c) (c\<lparr>br_closed := True\<rparr>) = Ret c'"
    "\<And>s. if s \<in> set (br_subscribers c) then \<exists>ch. br_chans c' s = Some ch \<and> gc_closed ch else br_chans c' s = br_chans c s"
    "br_next c' = br_next c" "br_closed c'" "br_bufferSize c' = br_bufferSize c" by auto
  have "s < br_next c \<and> gc_closed ch" if "br_chans c' s = Some ch" for s ch
    using that c'(2) [of s] assms by (auto simp: br_ok_def br_inv_def split: if_splits)
  with c' False assms show ?thesis by (simp add: BroadcastChannel_Close_def br_ok_def br_inv_def)
qed

lemma br_step_ok:
  assumes "br_ok c"
  shows "\<exists>c'. br_step zero k c = Ret c' \<and> br_ok c'"
proof (cases k)
  case BSubscribe
  with Subscribe_ok [OF assms, of zero] show ?thesis by fastforce
next
  case (BUnsubscribe s)
  with Unsubscribe_ok [OF assms, of zero s] show ?thesis by (auto simp: Subscription_Close_def)
next
  case (BSend v)
  show ?thesis
  proof (cases "br_closed c")
    case True
    with BSend assms show ?thesis by (simp add: BroadcastChannel_Send_def)
  next
    case False
    have "br_bufferSize ((offer_pass v ts ^^ n) d) = br_bufferSize d" for ts n d
      by (induction n) (auto simp: offer_pass_def)
    with BSend assms Send_passes [OF _ False, of v] br_inv_pass [where c = c and v = v] show ?thesis
      by (simp add: br_ok_def BroadcastChannel_Set_def)
  qed
next
  case (BTake s)
  show ?thesis
  proof (cases "Subscription_Channel c s")
    case (Some ch)
    show ?thesis
    proof (cases "chan_poll zero ch")
      case None
      with Some BTake assms show ?thesis by simp
    next
      case (Some r)
      obtain v ok ws ch' where r: "chan_poll zero ch = Some ((v, ok), ws, ch')" using Some by (cases r) auto
      then have "gc_closed ch' = gc_closed ch"
        by (auto simp: chan_poll_def split: list.splits if_splits)
      moreover have "chan_wf ch \<Longrightarrow> chan_wf ch'"
        using r chan_poll_value [of zero ch v ws ch'] chan_poll_closed [of zero ch v ws ch'] by (cases ok) auto
      ultimately show ?thesis
        using BTake r \<open>Subscription_Channel c s = Some ch\<close> assms
        by (auto simp: Subscription_Channel_def br_ok_def br_inv_def)
    qed
  qed (use BTake assms in simp)
next
  case BClose
  with Close_ok [OF assms, of zero] show ?thesis by auto
qed (use assms in \<open>simp_all add: br_ok_def br_inv_def BroadcastChannel_Set_def BroadcastChannel_SetBufferSize_def BroadcastChannel_MarkClean_def\<close>)

lemma br_run_ok: "br_ok c \<Longrightarrow> \<exists>c'. br_run zero ks c = Ret c' \<and> br_ok c'"
proof (induction ks arbitrary: c)
  case (Cons k ks)
  from br_step_ok [OF Cons.prems, of zero k] Cons.IH show ?case by fastforce
qed simp

text \<open>
  No sequence of subscriptions, unsubscriptions (repeated ones included), sends, reads, resizes and
  closes panics: in particular no subscriber channel is closed twice and no value is sent on a closed
  one. At every point a subscription's channel is open exactly while the subscription is in the map,
  and after \<open>Close\<close> every channel ever handed out is closed.
\<close>

theorem broadcast_lifecycle:
  assumes "0 \<le> bufferSize"
  shows "\<exists>c. br_run zero calls (NewBroadcastChannel bufferSize x) = Ret c \<and>
    (\<forall>s. case br_chans c s of
       None \<Rightarrow> s \<notin> set (br_subscribers c) | Some ch \<Rightarrow> (\<not> gc_closed ch) = (s \<in> set (br_subscribers c))) \<and>
    (\<exists>d. BroadcastChannel_Close zero c = Ret d \<and> br_subscribers d = [] \<and>
       (\<forall>s. case br_chans d s of None \<Rightarrow> True | Some ch \<Rightarrow> gc_closed ch))"
proof -
  have "br_ok (NewBroadcastChannel bufferSize x)"
    using assms by (simp add: br_ok_def br_inv_def NewBroadcastChannel_def)
  from br_run_ok [OF this, of zero calls] obtain c where
    c: "br_run zero calls (NewBroadcastChannel bufferSize x) = Ret c" "br_ok c" by blast
  from Close_ok [OF c(2), of zero] obtain d where
    d: "BroadcastChannel_Close zero c = Ret d" "br_ok d" "br_closed d" by blast
  have "case br_chans c s of None \<Rightarrow> s \<notin> set (br_subscribers c) | Some ch \<Rightarrow> (\<not> gc_closed ch) = (s \<in> set (br_subscribers c))" for s
    using c(2) by (fastforce simp: br_ok_def br_inv_def split: option.split)
  moreover have "br_subscribers d = []" "case br_chans d s of None \<Rightarrow> True | Some ch \<Rightarrow> gc_closed ch" for s
    using d by (auto simp: br_ok_def br_inv_def split: option.split)
  ultimately show ?thesis using c(1) d(1) by blast
qed

theorem broadcast_lifecycle_witness:
  "\<exists>c. br_run 0 [BSubscribe, BSubscribe, BSend 5, BUnsubscribe 0, BUnsubscribe 0, BTake 1, BClose, BClose, BSubscribe]
      (NewBroadcastChannel 1 (0::int)) = Ret c"
  using broadcast_lifecycle [of 1 0 "[BSubscribe, BSubscribe, BSend 5, BUnsubscribe 0, BUnsubscribe 0, BTake 1, BClose, BClose, BSubscribe]" 0]
  by fastforce

interpretation broadcast_seq: sync_root
  "\<lambda>c. Ret (BroadcastChannel_Get c)" "\<lambda>c v. Ret (BroadcastChannel_Set c v)" BroadcastChannel_Version
  BroadcastChannel_IsDirty BroadcastChannel_MarkClean br_ok
  by unfold_locales
    (simp_all add: BroadcastChannel_Get_def BroadcastChannel_Set_def BroadcastChannel_Version_def
      BroadcastChannel_IsDirty_def BroadcastChannel_MarkClean_def br_ok_def br_inv_def)

end
