(* ===== verification/Var_Atomic.thy ===== *)
theory Var_Atomic
  imports Sync_Root Seq_Iterator
begin

text \<open>
  The atomic variables of \<open>internal/core/syncv2/vars\<close>: \<open>atomic.go\<close>, \<open>atomic_int.go\<close>, \<open>atomic_uint.go\<close>,
  \<open>atomic_bool.go\<close>, \<open>atomic_pointer.go\<close>, \<open>atomic_string.go\<close> and the \<open>FastString\<close> of \<open>custom.go\<close>. The source
  writes the same methods out for each type; here each body is translated once, for any value type
  or any word width, and every method of the source is the instance at its type. A method is a short
  sequence of atomic actions; the section on interleavings runs the actions of many calls in any order.
\<close>

section \<open>Deltas\<close>

datatype OpType = OpSet | OpUpdate | OpDelete

record 'a Delta =
  d_Version :: uint64
  d_Value :: 'a
  d_Timestamp :: int64
  d_ClientID :: string
  d_OpType :: OpType

text \<open>The order in which most \<open>ApplyDeltas\<close> read their argument: sorted with a comparison that is not
  strict.\<close>

definition by_version :: "'a Delta list \<Rightarrow> 'a Delta list" where
  "by_version deltas = Collect_iter (Sort (\<lambda>a b. d_Version a \<le> d_Version b) (From deltas))"

text \<open>Deltas for the concrete runs below.\<close>

definition update_delta :: "uint64 \<Rightarrow> 'a \<Rightarrow> 'a Delta" where
  "update_delta v x = \<lparr>d_Version = v, d_Value = x, d_Timestamp = 0, d_ClientID = [], d_OpType = OpUpdate\<rparr>"

definition set_delta :: "uint64 \<Rightarrow> 'a \<Rightarrow> 'a Delta" where
  "set_delta v x = (update_delta v x)\<lparr>d_OpType := OpSet\<rparr>"

section \<open>The methods, for any type\<close>

record 'a Atomic =
  at_value :: 'a
  at_version :: uint64
  at_dirty :: bool

definition atomic_New :: "'a \<Rightarrow> 'a Atomic" where
  "atomic_New initialValue = \<lparr>at_value = initialValue, at_version = 1, at_dirty = False\<rparr>"

definition atomic_Set :: "'a Atomic \<Rightarrow> 'a \<Rightarrow> 'a Atomic" where
  "atomic_Set a v = a\<lparr>at_value := v, at_version := at_version a + 1, at_dirty := True\<rparr>"

definition atomic_Swap :: "'a Atomic \<Rightarrow> 'a \<Rightarrow> 'a \<times> 'a Atomic" where
  "atomic_Swap a new = (at_value a, a\<lparr>at_value := new, at_version := at_version a + 1, at_dirty := True\<rparr>)"

definition atomic_CompareAndSwap :: "'a Atomic \<Rightarrow> 'a \<Rightarrow> 'a \<Rightarrow> bool \<times> 'a Atomic" where
  "atomic_CompareAndSwap a old new =
     (if at_value a = old
      then (True, a\<lparr>at_value := new, at_version := at_version a + 1, at_dirty := True\<rparr>)
      else (False, a))"

definition atomic_MarkClean :: "'a Atomic \<Rightarrow> 'a Atomic" where
  "atomic_MarkClean a = a\<lparr>at_dirty := False\<rparr>"

definition number_Add :: "('w::len) word Atomic \<Rightarrow> 'w word \<Rightarrow> 'w word \<times> 'w word Atomic" where
  "number_Add a delta =
     (let newValue = at_value a + delta
      in (newValue, a\<lparr>at_value := newValue, at_version := at_version a + 1, at_dirty := True\<rparr>))"

text \<open>The loop over the sorted deltas with its two local variables.\<close>

fun scan_deltas :: "('w::len) word Delta list \<Rightarrow> 'w word \<Rightarrow> 'w word option \<Rightarrow> 'w word \<times> 'w word option" where
  "scan_deltas [] totalDelta setValue = (totalDelta, setValue)"
| "scan_deltas (d # ds) totalDelta setValue =
     (case d_OpType d of
        OpSet \<Rightarrow> scan_deltas ds 0 (Some (d_Value d))
      | OpUpdate \<Rightarrow> scan_deltas ds (if setValue = None then totalDelta + d_Value d else totalDelta) setValue
      | OpDelete \<Rightarrow> scan_deltas ds totalDelta setValue)"

definition number_ApplyDeltas :: "('w::len) word Atomic \<Rightarrow> 'w word Delta list \<Rightarrow> 'w word \<times> 'w word Atomic" where
  "number_ApplyDeltas a deltas =
     (let (totalDelta, setValue) = scan_deltas (by_version deltas) 0 None
      in case setValue of
           Some v \<Rightarrow> (v, atomic_Set a v)
         | None \<Rightarrow> if totalDelta \<noteq> 0 then number_Add a totalDelta else (at_value a, a))"

section \<open>The methods of the source\<close>

subsection \<open>Any type\<close>

definition NewAtomicValue :: "'a \<Rightarrow> 'a Atomic" where
  "NewAtomicValue initialValue = atomic_New initialValue"

definition AtomicValue_Get :: "'a Atomic \<Rightarrow> 'a" where
  "AtomicValue_Get a = at_value a"

definition AtomicValue_Set :: "'a Atomic \<Rightarrow> 'a \<Rightarrow> 'a Atomic" where
  "AtomicValue_Set a v = atomic_Set a v"

definition AtomicValue_Swap :: "'a Atomic \<Rightarrow> 'a \<Rightarrow> 'a \<times> 'a Atomic" where
  "AtomicValue_Swap a new = atomic_Swap a new"

definition AtomicValue_CompareAndSwap :: "'a Atomic \<Rightarrow> 'a \<Rightarrow> 'a \<Rightarrow> bool \<times> 'a Atomic" where
  "AtomicValue_CompareAndSwap a old new = atomic_CompareAndSwap a old new"

definition AtomicValue_Version :: "'a Atomic \<Rightarrow> uint64" where
  "AtomicValue_Version a = at_version a"

definition AtomicValue_IsDirty :: "'a Atomic \<Rightarrow> bool" where
  "AtomicValue_IsDirty a = at_dirty a"

definition AtomicValue_MarkClean :: "'a Atomic \<Rightarrow> 'a Atomic" where
  "AtomicValue_MarkClean a = atomic_MarkClean a"

text \<open>\<open>Each\<close> builds an iterator whose actions run when it is consumed; here nobody consumes it.\<close>

definition AtomicValue_ApplyDeltas :: "'a Atomic \<Rightarrow> 'a Delta list \<Rightarrow> 'a \<times> 'a Atomic" where
  "AtomicValue_ApplyDeltas a deltas =
     (let pending = Each (Sort (\<lambda>x y. d_Version x > d_Version y) (From deltas)) in (at_value a, a))"

subsection \<open>int64\<close>

definition NewAtomicInt64 :: "int64 \<Rightarrow> int64 Atomic" where
  "NewAtomicInt64 initialValue = atomic_New initialValue"

definition AtomicInt64_Get :: "int64 Atomic \<Rightarrow> int64" where
  "AtomicInt64_Get a = at_value a"

definition AtomicInt64_Set :: "int64 Atomic \<Rightarrow> int64 \<Rightarrow> int64 Atomic" where
  "AtomicInt64_Set a v = atomic_Set a v"

definition AtomicInt64_Swap :: "int64 Atomic \<Rightarrow> int64 \<Rightarrow> int64 \<times> int64 Atomic" where
  "AtomicInt64_Swap a new = atomic_Swap a new"

definition AtomicInt64_CompareAndSwap :: "int64 Atomic \<Rightarrow> int64 \<Rightarrow> int64 \<Rightarrow> bool \<times> int64 Atomic" where
  "AtomicInt64_CompareAndSwap a old new = atomic_CompareAndSwap a old new"

definition AtomicInt64_Version :: "int64 Atomic \<Rightarrow> uint64" where
  "AtomicInt64_Version a = at_version a"

definition AtomicInt64_IsDirty :: "int64 Atomic \<Rightarrow> bool" where
  "AtomicInt64_IsDirty a = at_dirty a"

definition AtomicInt64_MarkClean :: "int64 Atomic \<Rightarrow> int64 Atomic" where
  "AtomicInt64_MarkClean a = atomic_MarkClean a"

definition AtomicInt64_Add :: "int64 Atomic \<Rightarrow> int64 \<Rightarrow> int64 \<times> int64 Atomic" where
  "AtomicInt64_Add a delta = number_Add a delta"

definition AtomicInt64_ApplyDeltas :: "int64 Atomic \<Rightarrow> int64 Delta list \<Rightarrow> int64 \<times> int64 Atomic" where
  "AtomicInt64_ApplyDeltas a deltas = number_ApplyDeltas a deltas"

subsection \<open>int32\<close>

definition NewAtomicInt32 :: "int32 \<Rightarrow> int32 Atomic" where
  "NewAtomicInt32 initialValue = atomic_New initialValue"

definition AtomicInt32_Get :: "int32 Atomic \<Rightarrow> int32" where
  "AtomicInt32_Get a = at_value a"

definition AtomicInt32_Set :: "int32 Atomic \<Rightarrow> int32 \<Rightarrow> int32 Atomic" where
  "AtomicInt32_Set a v = atomic_Set a v"

definition AtomicInt32_Swap :: "int32 Atomic \<Rightarrow> int32 \<Rightarrow> int32 \<times> int32 Atomic" where
  "AtomicInt32_Swap a new = atomic_Swap a new"

definition AtomicInt32_CompareAndSwap :: "int32 Atomic \<Rightarrow> int32 \<Rightarrow> int32 \<Rightarrow> bool \<times> int32 Atomic" where
  "AtomicInt32_CompareAndSwap a old new = atomic_CompareAndSwap a old new"

definition AtomicInt32_Version :: "int32 Atomic \<Rightarrow> uint64" where
  "AtomicInt32_Version a = at_version a"

definition AtomicInt32_IsDirty :: "int32 Atomic \<Rightarrow> bool" where
  "AtomicInt32_IsDirty a = at_dirty a"

definition AtomicInt32_MarkClean :: "int32 Atomic \<Rightarrow> int32 Atomic" where
  "AtomicInt32_MarkClean a = atomic_MarkClean a"

definition AtomicInt32_Add :: "int32 Atomic \<Rightarrow> int32 \<Rightarrow> int32 \<times> int32 Atomic" where
  "AtomicInt32_Add a delta = number_Add a delta"

definition AtomicInt32_ApplyDeltas :: "int32 Atomic \<Rightarrow> int32 Delta list \<Rightarrow> int32 \<times> int32 Atomic" where
  "AtomicInt32_ApplyDeltas a deltas = number_ApplyDeltas a deltas"

subsection \<open>uint64\<close>

definition NewAtomicUint64 :: "uint64 \<Rightarrow> uint64 Atomic" where
  "NewAtomicUint64 initialValue = atomic_New initialValue"

definition AtomicUint64_Get :: "uint64 Atomic \<Rightarrow> uint64" where
  "AtomicUint64_Get a = at_value a"

definition AtomicUint64_Set :: "uint64 Atomic \<Rightarrow> uint64 \<Rightarrow> uint64 Atomic" where
  "AtomicUint64_Set a v = atomic_Set a v"

definition AtomicUint64_Swap :: "uint64 Atomic \<Rightarrow> uint64 \<Rightarrow> uint64 \<times> uint64 Atomic" where
  "AtomicUint64_Swap a new = atomic_Swap a new"

definition AtomicUint64_CompareAndSwap :: "uint64 Atomic \<Rightarrow> uint64 \<Rightarrow> uint64 \<Rightarrow> bool \<times> uint64 Atomic" where
  "AtomicUint64_CompareAndSwap a old new = atomic_CompareAndSwap a old new"

definition AtomicUint64_Version :: "uint64 Atomic \<Rightarrow> uint64" where
  "AtomicUint64_Version a = at_version a"

definition AtomicUint64_IsDirty :: "uint64 Atomic \<Rightarrow> bool" where
  "AtomicUint64_IsDirty a = at_dirty a"

definition AtomicUint64_MarkClean :: "uint64 Atomic \<Rightarrow> uint64 Atomic" where
  "AtomicUint64_MarkClean a = atomic_MarkClean a"

definition AtomicUint64_Add :: "uint64 Atomic \<Rightarrow> uint64 \<Rightarrow> uint64 \<times> uint64 Atomic" where
  "AtomicUint64_Add a delta = number_Add a delta"

definition AtomicUint64_ApplyDeltas :: "uint64 Atomic \<Rightarrow> uint64 Delta list \<Rightarrow> uint64 \<times> uint64 Atomic" where
  "AtomicUint64_ApplyDeltas a deltas = number_ApplyDeltas a deltas"

subsection \<open>uint32\<close>

definition NewAtomicUint32 :: "uint32 \<Rightarrow> uint32 Atomic" where
  "NewAtomicUint32 initialValue = atomic_New initialValue"

definition AtomicUint32_Get :: "uint32 Atomic \<Rightarrow> uint32" where
  "AtomicUint32_Get a = at_value a"

definition AtomicUint32_Set :: "uint32 Atomic \<Rightarrow> uint32 \<Rightarrow> uint32 Atomic" where
  "AtomicUint32_Set a v = atomic_Set a v"

definition AtomicUint32_Swap :: "uint32 Atomic \<Rightarrow> uint32 \<Rightarrow> uint32 \<times> uint32 Atomic" where
  "AtomicUint32_Swap a new = atomic_Swap a new"

definition AtomicUint32_CompareAndSwap :: "uint32 Atomic \<Rightarrow> uint32 \<Rightarrow> uint32 \<Rightarrow> bool \<times> uint32 Atomic" where
  "AtomicUint32_CompareAndSwap a old new = atomic_CompareAndSwap a old new"

definition AtomicUint32_Version :: "uint32 Atomic \<Rightarrow> uint64" where
  "AtomicUint32_Version a = at_version a"

definition AtomicUint32_IsDirty :: "uint32 Atomic \<Rightarrow> bool" where
  "AtomicUint32_IsDirty a = at_dirty a"

definition AtomicUint32_MarkClean :: "uint32 Atomic \<Rightarrow> uint32 Atomic" where
  "AtomicUint32_MarkClean a = atomic_MarkClean a"

definition AtomicUint32_Add :: "uint32 Atomic \<Rightarrow> uint32 \<Rightarrow> uint32 \<times> uint32 Atomic" where
  "AtomicUint32_Add a delta = number_Add a delta"

definition AtomicUint32_ApplyDeltas :: "uint32 Atomic \<Rightarrow> uint32 Delta list \<Rightarrow> uint32 \<times> uint32 Atomic" where
  "AtomicUint32_ApplyDeltas a deltas = number_ApplyDeltas a deltas"

subsection \<open>bool\<close>

definition NewAtomicBool :: "bool \<Rightarrow> bool Atomic" where
  "NewAtomicBool initialValue = atomic_New initialValue"

definition AtomicBool_Get :: "bool Atomic \<Rightarrow> bool" where
  "AtomicBool_Get a = at_value a"

definition AtomicBool_Set :: "bool Atomic \<Rightarrow> bool \<Rightarrow> bool Atomic" where
  "AtomicBool_Set a v = atomic_Set a v"

definition AtomicBool_Swap :: "bool Atomic \<Rightarrow> bool \<Rightarrow> bool \<times> bool Atomic" where
  "AtomicBool_Swap a new = atomic_Swap a new"

definition AtomicBool_CompareAndSwap :: "bool Atomic \<Rightarrow> bool \<Rightarrow> bool \<Rightarrow> bool \<times> bool Atomic" where
  "AtomicBool_CompareAndSwap a old new = atomic_CompareAndSwap a old new"

definition AtomicBool_Version :: "bool Atomic \<Rightarrow> uint64" where
  "AtomicBool_Version a = at_version a"

definition AtomicBool_IsDirty :: "bool Atomic \<Rightarrow> bool" where
  "AtomicBool_IsDirty a = at_dirty a"

definition AtomicBool_MarkClean :: "bool Atomic \<Rightarrow> bool Atomic" where
  "AtomicBool_MarkClean a = atomic_MarkClean a"

definition AtomicBool_ApplyDeltas :: "bool Atomic \<Rightarrow> bool Delta list \<Rightarrow> bool \<times> bool Atomic" where
  "AtomicBool_ApplyDeltas a deltas =
     (let a' = (case Last (Sort (\<lambda>x y. d_Version x \<le> d_Version y) (From deltas)) of
                  Some d \<Rightarrow> AtomicBool_Set a (d_Value d) | None \<Rightarrow> a)
      in (AtomicBool_Get a', a'))"

subsection \<open>unsafe.Pointer\<close>

text \<open>
  A pointer value is \<open>None\<close> for nil. The variable holds the address of a box with a non-nil pointer, or
  nil; every store allocates a new box, so two boxes with the same contents have different addresses.
\<close>

record AtomicPointer =
  ap_value :: "(nat \<times> nat) option"
  ap_next :: nat
  ap_version :: uint64
  ap_dirty :: bool

definition box :: "nat option \<Rightarrow> AtomicPointer \<Rightarrow> (nat \<times> nat) option" where
  "box p a = map_option (\<lambda>q. (ap_next a, q)) p"

definition NewAtomicPointer :: "nat option \<Rightarrow> AtomicPointer" where
  "NewAtomicPointer initialValue =
     \<lparr>ap_value = map_option (\<lambda>q. (0, q)) initialValue, ap_next = 1, ap_version = 1, ap_dirty = False\<rparr>"

definition AtomicPointer_Get :: "AtomicPointer \<Rightarrow> nat option" where
  "AtomicPointer_Get a = map_option snd (ap_value a)"

definition AtomicPointer_Set :: "AtomicPointer \<Rightarrow> nat option \<Rightarrow> AtomicPointer" where
  "AtomicPointer_Set a v = a\<lparr>ap_value := box v a, ap_next := ap_next a + 1, ap_version := ap_version a + 1, ap_dirty := True\<rparr>"

definition AtomicPointer_Swap :: "AtomicPointer \<Rightarrow> nat option \<Rightarrow> nat option \<times> AtomicPointer" where
  "AtomicPointer_Swap a new =
     (map_option snd (ap_value a),
      a\<lparr>ap_value := box new a, ap_next := ap_next a + 1, ap_version := ap_version a + 1, ap_dirty := True\<rparr>)"

fun scan_pointer_deltas :: "nat option Delta list \<Rightarrow> nat option option \<Rightarrow> nat option option" where
  "scan_pointer_deltas [] setValue = setValue"
| "scan_pointer_deltas (d # ds) setValue =
     (case d_OpType d of
        OpDelete \<Rightarrow> scan_pointer_deltas ds setValue
      | _ \<Rightarrow> scan_pointer_deltas ds (Some (d_Value d)))"

definition AtomicPointer_ApplyDeltas :: "AtomicPointer \<Rightarrow> nat option Delta list \<Rightarrow> nat option \<times> AtomicPointer" where
  "AtomicPointer_ApplyDeltas a deltas =
     (case scan_pointer_deltas (by_version deltas) None of
        Some v \<Rightarrow> (v, AtomicPointer_Set a v) | None \<Rightarrow> (AtomicPointer_Get a, a))"

text \<open>\<open>CompareAndSwap\<close> loads the box, compares its contents, and swaps if the variable still holds that
  very box; other goroutines may run between the two accesses.\<close>

definition AtomicPointer_CAS_store :: "(nat \<times> nat) option \<Rightarrow> AtomicPointer \<Rightarrow> nat option \<Rightarrow> bool \<times> AtomicPointer" where
  "AtomicPointer_CAS_store currentPtr a new =
     (if map_option fst (ap_value a) = map_option fst currentPtr
      then (True, a\<lparr>ap_value := box new a, ap_next := ap_next a + 1, ap_version := ap_version a + 1, ap_dirty := True\<rparr>)
      else (False, a))"

definition AtomicPointer_CompareAndSwap :: "AtomicPointer \<Rightarrow> nat option \<Rightarrow> nat option \<Rightarrow> bool \<times> AtomicPointer" where
  "AtomicPointer_CompareAndSwap a old new =
     (let currentPtr = ap_value a; currentVal = map_option snd currentPtr
      in if currentVal \<noteq> old then (False, a) else AtomicPointer_CAS_store currentPtr a new)"

definition AtomicPointer_Version :: "AtomicPointer \<Rightarrow> uint64" where
  "AtomicPointer_Version a = ap_version a"

definition AtomicPointer_IsDirty :: "AtomicPointer \<Rightarrow> bool" where
  "AtomicPointer_IsDirty a = ap_dirty a"

definition AtomicPointer_MarkClean :: "AtomicPointer \<Rightarrow> AtomicPointer" where
  "AtomicPointer_MarkClean a = a\<lparr>ap_dirty := False\<rparr>"

subsection \<open>string\<close>

text \<open>A \<open>FastString\<close> points to the first byte of a copy of the string. Reading it back slices a byte
  array of size \<open>2^30\<close>, which panics beyond that size.\<close>

record FastString =
  fs_data :: "string option"
  fs_length :: nat

definition NewFastString :: "string \<Rightarrow> FastString" where
  "NewFastString s = (if length s = 0 then \<lparr>fs_data = None, fs_length = 0\<rparr> else \<lparr>fs_data = Some s, fs_length = length s\<rparr>)"

definition FastString_String :: "FastString \<Rightarrow> string outcome" where
  "FastString_String fs =
     (if fs_length fs = 0 then Ret []
      else case fs_data fs of
        None \<Rightarrow> Ret []
      | Some bytes \<Rightarrow> if fs_length fs > 2 ^ 30 then Panic IndexOutOfRange else Ret (take (fs_length fs) bytes))"

type_synonym AtomicString = "FastString option Atomic"

definition NewAtomicString :: "string \<Rightarrow> AtomicString" where
  "NewAtomicString initialValue = atomic_New (Some (NewFastString initialValue))"

definition AtomicString_Get :: "AtomicString \<Rightarrow> string outcome" where
  "AtomicString_Get a = (case at_value a of None \<Rightarrow> Ret [] | Some fs \<Rightarrow> FastString_String fs)"

definition AtomicString_Set :: "AtomicString \<Rightarrow> string \<Rightarrow> AtomicString" where
  "AtomicString_Set a v = atomic_Set a (Some (NewFastString v))"

definition AtomicString_Swap :: "AtomicString \<Rightarrow> string \<Rightarrow> string outcome \<times> AtomicString" where
  "AtomicString_Swap a new =
     (let (old, a') = atomic_Swap a (Some (NewFastString new))
      in (case old of None \<Rightarrow> Ret [] | Some fs \<Rightarrow> FastString_String fs, a'))"

fun scan_string_deltas :: "string outcome \<Rightarrow> string Delta list \<Rightarrow> string option \<Rightarrow> string option outcome" where
  "scan_string_deltas current [] setValue = Ret setValue"
| "scan_string_deltas current (d # ds) setValue =
     (case d_OpType d of
        OpSet \<Rightarrow> scan_string_deltas current ds (Some (d_Value d))
      | OpUpdate \<Rightarrow>
          (case setValue of
             None \<Rightarrow> bind_outcome current (\<lambda>c. scan_string_deltas current ds (Some (c @ d_Value d)))
           | Some v \<Rightarrow> scan_string_deltas current ds setValue)
      | OpDelete \<Rightarrow> scan_string_deltas current ds setValue)"

definition AtomicString_ApplyDeltas :: "AtomicString \<Rightarrow> string Delta list \<Rightarrow> (string \<times> AtomicString) outcome" where
  "AtomicString_ApplyDeltas a deltas =
     bind_outcome (scan_string_deltas (AtomicString_Get a) (by_version deltas) None) (\<lambda>setValue.
       case setValue of
         Some v \<Rightarrow> Ret (v, AtomicString_Set a v)
       | None \<Rightarrow> bind_outcome (AtomicString_Get a) (\<lambda>v. Ret (v, a)))"

definition AtomicString_Version :: "AtomicString \<Rightarrow> uint64" where
  "AtomicString_Version a = at_version a"

definition AtomicString_IsDirty :: "AtomicString \<Rightarrow> bool" where
  "AtomicString_IsDirty a = at_dirty a"

definition AtomicString_MarkClean :: "AtomicString \<Rightarrow> AtomicString" where
  "AtomicString_MarkClean a = atomic_MarkClean a"

section \<open>The interfaces\<close>

lemmas atomic_defs = atomic_New_def atomic_Set_def atomic_Swap_def atomic_CompareAndSwap_def atomic_MarkClean_def

interpretation AtomicValue: atomic_root "\<lambda>a. Ret (AtomicValue_Get a)" "\<lambda>a v. Ret (AtomicValue_Set a v)" AtomicValue_Version
  AtomicValue_IsDirty AtomicValue_MarkClean "\<lambda>a. True" "\<lambda>a v. apfst Ret (AtomicValue_Swap a v)"
  by unfold_locales (simp_all add: AtomicValue_Get_def AtomicValue_Set_def AtomicValue_Version_def AtomicValue_IsDirty_def
      AtomicValue_MarkClean_def AtomicValue_Swap_def atomic_defs)

interpretation AtomicInt64: atomic_root "\<lambda>a. Ret (AtomicInt64_Get a)" "\<lambda>a v. Ret (AtomicInt64_Set a v)" AtomicInt64_Version
  AtomicInt64_IsDirty AtomicInt64_MarkClean "\<lambda>a. True" "\<lambda>a v. apfst Ret (AtomicInt64_Swap a v)"
  by unfold_locales (simp_all add: AtomicInt64_Get_def AtomicInt64_Set_def AtomicInt64_Version_def AtomicInt64_IsDirty_def
      AtomicInt64_MarkClean_def AtomicInt64_Swap_def atomic_defs)

interpretation AtomicInt32: atomic_root "\<lambda>a. Ret (AtomicInt32_Get a)" "\<lambda>a v. Ret (AtomicInt32_Set a v)" AtomicInt32_Version
  AtomicInt32_IsDirty AtomicInt32_MarkClean "\<lambda>a. True" "\<lambda>a v. apfst Ret (AtomicInt32_Swap a v)"
  by unfold_locales (simp_all add: AtomicInt32_Get_def AtomicInt32_Set_def AtomicInt32_Version_def AtomicInt32_IsDirty_def
      AtomicInt32_MarkClean_def AtomicInt32_Swap_def atomic_defs)

interpretation AtomicUint64: atomic_root "\<lambda>a. Ret (AtomicUint64_Get a)" "\<lambda>a v. Ret (AtomicUint64_Set a v)" AtomicUint64_Version
  AtomicUint64_IsDirty AtomicUint64_MarkClean "\<lambda>a. True" "\<lambda>a v. apfst Ret (AtomicUint64_Swap a v)"
  by unfold_locales (simp_all add: AtomicUint64_Get_def AtomicUint64_Set_def AtomicUint64_Version_def AtomicUint64_IsDirty_def
      AtomicUint64_MarkClean_def AtomicUint64_Swap_def atomic_defs)

interpretation AtomicUint32: atomic_root "\<lambda>a. Ret (AtomicUint32_Get a)" "\<lambda>a v. Ret (AtomicUint32_Set a v)" AtomicUint32_Version
  AtomicUint32_IsDirty AtomicUint32_MarkClean "\<lambda>a. True" "\<lambda>a v. apfst Ret (AtomicUint32_Swap a v)"
  by unfold_locales (simp_all add: AtomicUint32_Get_def AtomicUint32_Set_def AtomicUint32_Version_def AtomicUint32_IsDirty_def
      AtomicUint32_MarkClean_def AtomicUint32_Swap_def atomic_defs)

interpretation AtomicBool: atomic_root "\<lambda>a. Ret (AtomicBool_Get a)" "\<lambda>a v. Ret (AtomicBool_Set a v)" AtomicBool_Version
  AtomicBool_IsDirty AtomicBool_MarkClean "\<lambda>a. True" "\<lambda>a v. apfst Ret (AtomicBool_Swap a v)"
  by unfold_locales (simp_all add: AtomicBool_Get_def AtomicBool_Set_def AtomicBool_Version_def AtomicBool_IsDirty_def
      AtomicBool_MarkClean_def AtomicBool_Swap_def atomic_defs)

interpretation AtomicPointer: atomic_root "\<lambda>a. Ret (AtomicPointer_Get a)" "\<lambda>a v. Ret (AtomicPointer_Set a v)"
  AtomicPointer_Version AtomicPointer_IsDirty AtomicPointer_MarkClean "\<lambda>a. True"
  "\<lambda>a v. apfst Ret (AtomicPointer_Swap a v)"
  by unfold_locales (simp_all add: AtomicPointer_Get_def AtomicPointer_Set_def AtomicPointer_Version_def
      AtomicPointer_IsDirty_def AtomicPointer_MarkClean_def AtomicPointer_Swap_def box_def option.map_comp comp_def
      option.map_ident)

section \<open>ApplyDeltas on numbers\<close>

definition sets_in :: "'a Delta list \<Rightarrow> 'a Delta list" where
  "sets_in ds = filter (\<lambda>d. d_OpType d = OpSet) ds"

definition updates_in :: "'a Delta list \<Rightarrow> 'a Delta list" where
  "updates_in ds = filter (\<lambda>d. d_OpType d = OpUpdate) ds"

lemma by_version_slice: "by_version ds = slice_stable (\<lambda>a b. d_Version a \<le> d_Version b) ds"
  unfolding by_version_def by (rule exhaustive.collect_all [OF from_slice.sort_exhaustive])

lemma by_version_mset [simp]: "mset (by_version ds) = mset ds"
  by (simp add: by_version_slice)

lemma by_version_set [simp]: "set (by_version ds) = set ds"
  by (simp add: by_version_slice)

lemma by_version_sorted: "sorted (map d_Version (by_version ds))"
  unfolding by_version_slice by (rule sorted_slice_stable) (auto simp: key_less_def)

text \<open>The last delta of a kind, in version order, has the highest version of its kind.\<close>

lemma last_filter_max:
  assumes "sorted (map f xs)" and "filter P xs \<noteq> []"
  shows "last (filter P xs) \<in> set xs \<and> P (last (filter P xs)) \<and> (\<forall>x\<in>set xs. P x \<longrightarrow> f x \<le> f (last (filter P xs)))"
proof -
  have "sorted (map f (filter P xs))" using assms(1) by (rule sorted_filter)
  with assms(2) obtain ys y where y: "filter P xs = ys @ [y]" "\<forall>x\<in>set ys. f x \<le> f y"
    by (cases "filter P xs" rule: rev_cases) (auto simp: sorted_append)
  then have "set (filter P xs) = set (ys @ [y])" by simp
  then have "{x \<in> set xs. P x} = insert y (set ys)" by simp
  then have "(x \<in> set xs \<and> P x) = (x = y \<or> x \<in> set ys)" for x by (simp add: set_eq_iff)
  with y show ?thesis by (metis last_snoc order_refl)
qed

lemma scan_deltas_spec:
  "scan_deltas ds t setValue =
     (if sets_in ds \<noteq> [] then (0, Some (d_Value (last (sets_in ds))))
      else (if setValue = None then t + sum_list (map d_Value (updates_in ds)) else t, setValue))"
  by (induction ds arbitrary: t setValue)
    (auto simp: sets_in_def updates_in_def add.assoc split: OpType.split)

lemma sum_updates_by_version:
  "sum_list (map d_Value (updates_in (by_version ds))) = sum_list (map d_Value (updates_in (ds :: ('w::len) word Delta list)))"
proof -
  have "mset (map d_Value (updates_in (by_version ds))) = mset (map d_Value (updates_in ds))"
    by (simp add: updates_in_def)
  then have "sum_mset (mset (map d_Value (updates_in (by_version ds)))) = sum_mset (mset (map d_Value (updates_in ds)))"
    by (rule arg_cong)
  then show ?thesis by (simp only: sum_mset_sum_list)
qed

lemma sets_by_version_empty: "sets_in (by_version ds) = [] \<longleftrightarrow> sets_in ds = []"
  by (auto simp: sets_in_def filter_empty_conv)

text \<open>Why it matters which set wins: after it, nothing else counts.\<close>

lemma number_ApplyDeltas_spec:
  "number_ApplyDeltas a ds =
     (if sets_in ds \<noteq> []
      then (let v = d_Value (last (sets_in (by_version ds))) in (v, atomic_Set a v))
      else if sum_list (map d_Value (updates_in ds)) \<noteq> 0 then number_Add a (sum_list (map d_Value (updates_in ds)))
      else (at_value a, a))"
  by (simp add: number_ApplyDeltas_def scan_deltas_spec sets_by_version_empty sum_updates_by_version Let_def)

lemma last_set_max:
  assumes "sets_in ds \<noteq> []"
  shows "\<exists>d\<in>set (sets_in ds). d_Value (last (sets_in (by_version ds))) = d_Value d \<and>
    (\<forall>e\<in>set (sets_in ds). d_Version e \<le> d_Version d)"
proof -
  have "sets_in (by_version ds) \<noteq> []" using assms by (simp add: sets_by_version_empty)
  from last_filter_max [OF by_version_sorted this [unfolded sets_in_def]]
  show ?thesis by (auto simp: sets_in_def intro!: bexI [of _ "last (filter (\<lambda>d. d_OpType d = OpSet) (by_version ds))"])
qed

text \<open>
  \<open>ApplyDeltas\<close> of \<open>AtomicInt64\<close>, with 64-bit wrap-around. If some delta is a set, the value becomes
  that of a set delta of the highest version, the version counts one step, and every update is lost,
  even one of a higher version than the set. Otherwise the updates are summed, in whatever order
  they come, and one step is counted unless the sum is zero, in which case nothing changes.
\<close>

theorem int64_ApplyDeltas:
  "case AtomicInt64_ApplyDeltas a ds of (r, a') \<Rightarrow> r = AtomicInt64_Get a' \<and>
     (if sets_in ds \<noteq> []
      then (\<exists>d\<in>set (sets_in ds). (\<forall>e\<in>set (sets_in ds). d_Version e \<le> d_Version d) \<and> a' = AtomicInt64_Set a (d_Value d))
      else a' = (if sum_list (map d_Value (updates_in ds)) = 0 then a
                 else snd (AtomicInt64_Add a (sum_list (map d_Value (updates_in ds))))))"
proof (cases "sets_in ds = []")
  case True
  then show ?thesis
    by (simp add: AtomicInt64_ApplyDeltas_def number_ApplyDeltas_spec AtomicInt64_Get_def AtomicInt64_Add_def
        number_Add_def Let_def)
next
  case False
  with last_set_max [OF False] show ?thesis
    by (auto simp: AtomicInt64_ApplyDeltas_def number_ApplyDeltas_spec AtomicInt64_Get_def AtomicInt64_Set_def
        atomic_Set_def Let_def intro: bexI)
qed

theorem int64_ApplyDeltas_witness:
  "AtomicInt64_ApplyDeltas (NewAtomicInt64 5) [update_delta 1 3, set_delta 2 7, update_delta 3 4] =
     (7, AtomicInt64_Set (NewAtomicInt64 5) 7)"
proof -
  obtain r a' where run: "AtomicInt64_ApplyDeltas (NewAtomicInt64 5) [update_delta 1 3, set_delta 2 7, update_delta 3 4] = (r, a')"
    by (rule prod.exhaust)
  from int64_ApplyDeltas [where a = "NewAtomicInt64 5" and ds = "[update_delta 1 3, set_delta 2 7, update_delta 3 4]"]
  show ?thesis unfolding run
    by (simp add: sets_in_def update_delta_def set_delta_def AtomicInt64_Get_def AtomicInt64_Set_def atomic_Set_def)
qed

lemma Each_not_consumed: "AtomicValue_ApplyDeltas a ds = (AtomicValue_Get a, a)"
  by (simp add: AtomicValue_ApplyDeltas_def AtomicValue_Get_def)

text \<open>
  How the other types apply deltas. \<open>AtomicValue\<close> applies none at all: the iterator that would do it
  is never consumed. \<open>AtomicBool\<close> stores the value of a delta of the highest version whatever its
  operation is, a delete included. \<open>AtomicPointer\<close> takes a set or update of the highest version.
\<close>

theorem other_ApplyDeltas:
  "AtomicValue_ApplyDeltas (b :: 'a Atomic) vs = (AtomicValue_Get b, b) \<and>
   (if bs = [] then AtomicBool_ApplyDeltas c bs = (AtomicBool_Get c, c)
    else \<exists>d\<in>set bs. (\<forall>e\<in>set bs. d_Version e \<le> d_Version d) \<and>
      AtomicBool_ApplyDeltas c bs = (d_Value d, AtomicBool_Set c (d_Value d))) \<and>
   (if filter (\<lambda>d. d_OpType d \<noteq> OpDelete) ps = [] then AtomicPointer_ApplyDeltas p ps = (AtomicPointer_Get p, p)
    else \<exists>d\<in>set ps. d_OpType d \<noteq> OpDelete \<and> (\<forall>e\<in>set ps. d_OpType e \<noteq> OpDelete \<longrightarrow> d_Version e \<le> d_Version d) \<and>
      AtomicPointer_ApplyDeltas p ps = (d_Value d, AtomicPointer_Set p (d_Value d)))"
proof -
  have l: "Last (Sort (\<lambda>x y. d_Version x \<le> d_Version y) (From bs)) =
      (if by_version bs = [] then None else Some (last (by_version bs)))"
    unfolding by_version_slice by (rule exhaustive.last_is_last [OF from_slice.sort_exhaustive])
  have e: "by_version bs = [] \<longleftrightarrow> bs = []" by (metis by_version_set set_empty)
  have "if bs = [] then AtomicBool_ApplyDeltas c bs = (AtomicBool_Get c, c)
    else \<exists>d\<in>set bs. (\<forall>e\<in>set bs. d_Version e \<le> d_Version d) \<and>
      AtomicBool_ApplyDeltas c bs = (d_Value d, AtomicBool_Set c (d_Value d))"
  proof (cases "bs = []")
    case True
    with l e show ?thesis by (simp add: AtomicBool_ApplyDeltas_def)
  next
    case False
    with e last_filter_max [OF by_version_sorted, of "\<lambda>_. True" bs] have
      "last (by_version bs) \<in> set bs" "\<forall>x\<in>set bs. d_Version x \<le> d_Version (last (by_version bs))" by simp_all
    with False l e show ?thesis
      by (auto simp: AtomicBool_ApplyDeltas_def AtomicBool_Get_def AtomicBool_Set_def atomic_Set_def Let_def
          intro!: bexI [of _ "last (by_version bs)"])
  qed
  moreover have s: "scan_pointer_deltas ds sv = (if filter (\<lambda>d. d_OpType d \<noteq> OpDelete) ds = [] then sv
      else Some (d_Value (last (filter (\<lambda>d. d_OpType d \<noteq> OpDelete) ds))))" for ds sv
    by (induction ds arbitrary: sv) (auto split: OpType.split)
  have pe: "filter (\<lambda>d. d_OpType d \<noteq> OpDelete) (by_version ps) = [] \<longleftrightarrow> filter (\<lambda>d. d_OpType d \<noteq> OpDelete) ps = []"
    by (auto simp: filter_empty_conv)
  have "if filter (\<lambda>d. d_OpType d \<noteq> OpDelete) ps = [] then AtomicPointer_ApplyDeltas p ps = (AtomicPointer_Get p, p)
    else \<exists>d\<in>set ps. d_OpType d \<noteq> OpDelete \<and> (\<forall>e\<in>set ps. d_OpType e \<noteq> OpDelete \<longrightarrow> d_Version e \<le> d_Version d) \<and>
      AtomicPointer_ApplyDeltas p ps = (d_Value d, AtomicPointer_Set p (d_Value d))"
  proof (cases "filter (\<lambda>d. d_OpType d \<noteq> OpDelete) ps = []")
    case True
    with pe show ?thesis by (simp add: AtomicPointer_ApplyDeltas_def s)
  next
    case False
    let ?d = "last (filter (\<lambda>d. d_OpType d \<noteq> OpDelete) (by_version ps))"
    have "filter (\<lambda>d. d_OpType d \<noteq> OpDelete) (by_version ps) \<noteq> []" using False pe by simp
    from last_filter_max [OF by_version_sorted this] have
      "?d \<in> set ps" "d_OpType ?d \<noteq> OpDelete" "\<forall>x\<in>set ps. d_OpType x \<noteq> OpDelete \<longrightarrow> d_Version x \<le> d_Version ?d"
      by simp_all
    with False pe show ?thesis by (auto simp: AtomicPointer_ApplyDeltas_def s intro!: bexI [of _ ?d])
  qed
  ultimately show ?thesis by (simp add: Each_not_consumed)
qed

theorem other_ApplyDeltas_witness:
  "AtomicBool_ApplyDeltas (NewAtomicBool False) [set_delta 3 True, set_delta 2 False] =
     (True, AtomicBool_Set (NewAtomicBool False) True)"
  using other_ApplyDeltas [where b = "NewAtomicBool False" and vs = "[]" and c = "NewAtomicBool False"
      and bs = "[set_delta 3 True, set_delta 2 False]" and p = "NewAtomicPointer None" and ps = "[]"]
  by (simp add: set_delta_def update_delta_def)

section \<open>Strings\<close>

text \<open>
  A string of at most \<open>2^30\<close> bytes survives the round trip through \<open>AtomicString\<close>; a longer one is
  accepted by \<open>Set\<close> and then makes every \<open>Get\<close> panic.
\<close>

theorem string_roundtrip:
  "AtomicString_Get (AtomicString_Set a s) =
     (if length s \<le> 2 ^ 30 then Ret s else Panic IndexOutOfRange)"
  by (auto simp: AtomicString_Get_def AtomicString_Set_def atomic_Set_def NewFastString_def FastString_String_def)

lemma scan_string_deltas_spec:
  "scan_string_deltas (Ret cur) ds setValue = Ret
     (if sets_in ds \<noteq> []
      then Some (d_Value (last (sets_in ds)))
      else case setValue of Some v \<Rightarrow> Some v
           | None \<Rightarrow> (case updates_in ds of [] \<Rightarrow> None | d # _ \<Rightarrow> Some (cur @ d_Value d)))"
  by (induction ds arbitrary: setValue)
    (auto simp: sets_in_def updates_in_def split: OpType.split option.split list.split)

text \<open>
  \<open>ApplyDeltas\<close> of \<open>AtomicString\<close> without a set appends only the update that is first in version
  order; the other updates are lost.
\<close>

theorem string_ApplyDeltas_updates:
  assumes "AtomicString_Get a = Ret s" and "sets_in ds = []" and "updates_in (by_version ds) = u # us"
  shows "AtomicString_ApplyDeltas a ds = Ret (s @ d_Value u, AtomicString_Set a (s @ d_Value u)) \<and>
    (\<forall>e\<in>set (updates_in ds). d_Version u \<le> d_Version e)"
proof -
  have "sets_in (by_version ds) = []" using assms(2) by (simp add: sets_by_version_empty)
  then have "AtomicString_ApplyDeltas a ds = Ret (s @ d_Value u, AtomicString_Set a (s @ d_Value u))"
    using assms(1,3) by (simp add: AtomicString_ApplyDeltas_def scan_string_deltas_spec)
  moreover have "sorted (map d_Version (u # us))"
    unfolding assms(3) [symmetric] updates_in_def by (rule sorted_filter [OF by_version_sorted])
  then have "\<forall>e\<in>set (u # us). d_Version u \<le> d_Version e" by simp
  moreover have "set (u # us) = set (updates_in ds)"
    unfolding assms(3) [symmetric] by (simp add: updates_in_def)
  ultimately show ?thesis by (metis set_ConsD list.set_intros)
qed

theorem string_ApplyDeltas_updates_witness:
  "AtomicString_ApplyDeltas (NewAtomicString ''ab'') [update_delta 2 ''c'', update_delta 1 ''d''] =
     Ret (''abd'', AtomicString_Set (NewAtomicString ''ab'') ''abd'')"
  using string_ApplyDeltas_updates [of "NewAtomicString ''ab''" "''ab''"
      "[update_delta 2 ''c'', update_delta 1 ''d'']" "update_delta 1 ''d''" "[update_delta 2 ''c'']"]
  by (simp add: NewAtomicString_def AtomicString_Get_def atomic_New_def NewFastString_def FastString_String_def
      sets_in_def updates_in_def update_delta_def by_version_slice slice_stable_def)

section \<open>Interleavings\<close>

text \<open>
  The atomic actions behind a number's methods; a call runs its actions in order, with any actions of
  other goroutines in between.
\<close>

datatype 'a atomic_act = AddValue 'a | StoreValue 'a | IncVersion | StoreDirty bool

fun run_act :: "('w::len) word atomic_act \<Rightarrow> 'w word Atomic \<Rightarrow> 'w word Atomic" where
  "run_act (AddValue d) a = a\<lparr>at_value := at_value a + d\<rparr>"
| "run_act (StoreValue v) a = a\<lparr>at_value := v\<rparr>"
| "run_act IncVersion a = a\<lparr>at_version := at_version a + 1\<rparr>"
| "run_act (StoreDirty b) a = a\<lparr>at_dirty := b\<rparr>"

definition add_acts :: "('w::len) word \<Rightarrow> 'w word atomic_act list" where
  "add_acts d = [AddValue d, IncVersion, StoreDirty True]"

definition set_acts :: "('w::len) word \<Rightarrow> 'w word atomic_act list" where
  "set_acts v = [StoreValue v, IncVersion, StoreDirty True]"

lemma acts_are_methods:
  "fold run_act (add_acts d) a = snd (number_Add a d)" "fold run_act (set_acts d) a = atomic_Set a d"
  "fold run_act [StoreDirty False] a = atomic_MarkClean a"
  by (simp_all add: add_acts_def set_acts_def number_Add_def atomic_defs Let_def)

definition act_delta :: "('w::len) word atomic_act \<Rightarrow> 'w word" where
  "act_delta x = (case x of AddValue d \<Rightarrow> d | _ \<Rightarrow> 0)"

definition act_step :: "('w::len) word atomic_act \<Rightarrow> uint64" where
  "act_step x = (case x of IncVersion \<Rightarrow> 1 | _ \<Rightarrow> 0)"

lemma run_acts_fields:
  "at_version (fold run_act acts a) = at_version a + sum_list (map act_step acts)"
  "\<forall>v. StoreValue v \<notin> set acts \<Longrightarrow> at_value (fold run_act acts a) = at_value a + sum_list (map act_delta acts)"
  "StoreDirty False \<notin> set acts \<Longrightarrow> at_dirty (fold run_act acts a) = (at_dirty a \<or> StoreDirty True \<in> set acts)"
proof -
  show "at_version (fold run_act acts a) = at_version a + sum_list (map act_step acts)"
  proof (induction acts arbitrary: a)
    case (Cons x xs)
    then show ?case by (cases x) (simp_all add: act_step_def)
  qed simp
  show "\<forall>v. StoreValue v \<notin> set acts \<Longrightarrow> at_value (fold run_act acts a) = at_value a + sum_list (map act_delta acts)"
  proof (induction acts arbitrary: a)
    case (Cons x xs)
    then show ?case by (cases x; force simp: act_delta_def)
  qed simp
  show "StoreDirty False \<notin> set acts \<Longrightarrow> at_dirty (fold run_act acts a) = (at_dirty a \<or> StoreDirty True \<in> set acts)"
  proof (induction acts arbitrary: a)
    case (Cons x xs)
    then show ?case by (cases x) auto
  qed simp
qed

lemma sum_list_mset_cong:
  fixes f :: "'b \<Rightarrow> 'c::comm_monoid_add"
  assumes "mset xs = mset ys"
  shows "sum_list (map f xs) = sum_list (map f ys)"
proof -
  have "sum_mset (mset (map f xs)) = sum_mset (mset (map f ys))" using assms by simp
  then show ?thesis by (simp only: sum_mset_sum_list)
qed

text \<open>
  Concurrent \<open>Add\<close>s never lose an update: however the atomic actions of any number of calls to
  \<open>AtomicInt64.Add\<close> interleave, the value ends as the start plus the sum of all deltas modulo \<open>2^64\<close>,
  the version has counted every call, and the variable is dirty if there was a call. (Any interleaving
  is a rearrangement of the calls' actions, and every rearrangement is covered.)
\<close>

theorem concurrent_adds:
  assumes "mset acts = mset (concat (map add_acts ds))"
  shows "AtomicInt64_Get (fold run_act acts a) = AtomicInt64_Get a + sum_list ds \<and>
    AtomicInt64_Version (fold run_act acts a) = AtomicInt64_Version a + of_nat (length ds) \<and>
    AtomicInt64_IsDirty (fold run_act acts a) = (AtomicInt64_IsDirty a \<or> ds \<noteq> [])"
proof -
  have set: "set acts = set (concat (map add_acts ds))" using assms by (rule mset_eq_setD)
  have "sum_list (map act_delta (concat (map add_acts ds))) = sum_list ds"
    by (induction ds) (simp_all add: add_acts_def act_delta_def)
  moreover have "sum_list (map act_step (concat (map add_acts ds))) = of_nat (length ds)"
    by (induction ds) (simp_all add: add_acts_def act_step_def)
  moreover have "\<forall>v. StoreValue v \<notin> set acts" "StoreDirty False \<notin> set acts" "StoreDirty True \<in> set acts \<longleftrightarrow> ds \<noteq> []"
    unfolding set by (cases ds; auto simp: add_acts_def)+
  ultimately show ?thesis
    using run_acts_fields [of acts a] sum_list_mset_cong [OF assms, of act_delta] sum_list_mset_cong [OF assms, of act_step]
    by (simp add: AtomicInt64_Get_def AtomicInt64_Version_def AtomicInt64_IsDirty_def)
qed

theorem concurrent_adds_witness:
  "AtomicInt64_Get (fold run_act [AddValue 5, AddValue (-7), IncVersion, StoreDirty True, IncVersion, StoreDirty True]
     (NewAtomicInt64 1)) = AtomicInt64_Get (NewAtomicInt64 1) + sum_list [5, -7]"
  using concurrent_adds [of "[AddValue 5, AddValue (-7), IncVersion, StoreDirty True, IncVersion, StoreDirty True]" "[5, -7]" "NewAtomicInt64 1"]
  by (simp add: add_acts_def)

end
