(* ===== verification/Var_Sharded.thy ===== *)
theory Var_Sharded
  imports Sync_Root Seq_Iterator "HOL-Library.Char_ord" "HOL-Library.List_Lexorder"
begin

text \<open>
  The sharded variables of \<open>internal/core/syncv2/vars/sharded.go\<close>: \<open>HashSharded\<close>, \<open>ConsistentHashSharded\<close>
  with its hash ring, \<open>RangeSharded\<close> and \<open>AdaptiveSharded\<close>. The hash function \<open>xxhash.Sum64String\<close> is the
  parameter \<open>H\<close>. Strings are byte lists, compared as Go compares them, lexicographically by byte. A
  method on a shard holds that shard's lock, so it is one step.
\<close>

section \<open>Shards\<close>

record 'a shard =
  sh_value :: 'a
  sh_version :: uint64

definition newShard :: "'a \<Rightarrow> 'a shard" where
  "newShard v = \<lparr>sh_value = v, sh_version = 1\<rparr>"

definition store_shard :: "'a \<Rightarrow> 'a shard \<Rightarrow> 'a shard" where
  "store_shard v sh = sh\<lparr>sh_value := v, sh_version := sh_version sh + 1\<rparr>"

definition defaultShardKey :: string where
  "defaultShardKey = ''default''"

definition defaultRanges :: "string list" where
  "defaultRanges = [''a'', ''h'', ''o'', ''v'']"

type_synonym hash_fun = "string \<Rightarrow> 64 word"

definition xHash :: "hash_fun \<Rightarrow> string \<Rightarrow> 64 word" where
  "xHash H key = H key"

definition xHash32 :: "hash_fun \<Rightarrow> string \<Rightarrow> 32 word" where
  "xHash32 H key = ucast (H key)"

text \<open>A Go remainder: zero divisors panic.\<close>

definition mod32 :: "32 word \<Rightarrow> 32 word \<Rightarrow> nat outcome" where
  "mod32 w m = (if m = 0 then Panic DivideByZero else Ret (unat (w mod m)))"

text \<open>The visits of \<open>ForEachShard\<close>: the action runs on each shard in turn and stops the loop by returning
  false.\<close>

fun visit_shards :: "(int \<Rightarrow> 'a \<Rightarrow> bool) \<Rightarrow> int \<Rightarrow> 'a shard list \<Rightarrow> (int \<times> 'a) list" where
  "visit_shards action i [] = []"
| "visit_shards action i (sh # shs) =
     (i, sh_value sh) # (if action i (sh_value sh) then visit_shards action (i + 1) shs else [])"

text \<open>\<open>values[i] = ...\<close> for every shard, into a slice of the given length.\<close>

fun fill_values :: "nat \<Rightarrow> 'a shard list \<Rightarrow> 'a list \<Rightarrow> 'a list outcome" where
  "fill_values i [] vs = Ret vs"
| "fill_values i (sh # shs) vs = bind_outcome (slice_set vs i (sh_value sh)) (fill_values (i + 1) shs)"

section \<open>HashSharded\<close>

record 'a HashSharded =
  hs_shards :: "'a shard list"
  hs_count :: int
  hs_version :: uint64
  hs_dirty :: bool

definition NewHashSharded :: "int \<Rightarrow> 'a \<Rightarrow> 'a HashSharded" where
  "NewHashSharded shardCount initialValue =
     (let shardCount = (if shardCount \<le> 0 then 16 else shardCount)
      in \<lparr>hs_shards = replicate (nat shardCount) \<lparr>sh_value = initialValue, sh_version = 1\<rparr>, hs_count = shardCount,
          hs_version = 1, hs_dirty = False\<rparr>)"

definition HashSharded_getShardIndex :: "hash_fun \<Rightarrow> 'a HashSharded \<Rightarrow> string \<Rightarrow> nat outcome" where
  "HashSharded_getShardIndex H h shardKey = mod32 (xHash32 H shardKey) (word_of_int (hs_count h))"

definition HashSharded_GetShard :: "hash_fun \<Rightarrow> 'a HashSharded \<Rightarrow> string \<Rightarrow> 'a outcome" where
  "HashSharded_GetShard H h shardKey =
     bind_outcome (HashSharded_getShardIndex H h shardKey) (\<lambda>idx.
     bind_outcome (slice_get (hs_shards h) idx) (\<lambda>sh. Ret (sh_value sh)))"

definition HashSharded_SetShard :: "hash_fun \<Rightarrow> 'a HashSharded \<Rightarrow> string \<Rightarrow> 'a \<Rightarrow> 'a HashSharded outcome" where
  "HashSharded_SetShard H h shardKey v =
     bind_outcome (HashSharded_getShardIndex H h shardKey) (\<lambda>idx.
     bind_outcome (slice_get (hs_shards h) idx) (\<lambda>sh.
       Ret (h\<lparr>hs_shards := (hs_shards h)[idx := store_shard v sh], hs_version := hs_version h + 1, hs_dirty := True\<rparr>)))"

definition HashSharded_Get :: "hash_fun \<Rightarrow> 'a HashSharded \<Rightarrow> 'a outcome" where
  "HashSharded_Get H h = HashSharded_GetShard H h defaultShardKey"

definition HashSharded_Set :: "hash_fun \<Rightarrow> 'a HashSharded \<Rightarrow> 'a \<Rightarrow> 'a HashSharded outcome" where
  "HashSharded_Set H h v = HashSharded_SetShard H h defaultShardKey v"

definition HashSharded_GetShardCount :: "'a HashSharded \<Rightarrow> int" where
  "HashSharded_GetShardCount h = hs_count h"

definition HashSharded_ForEachShard :: "'a HashSharded \<Rightarrow> (int \<Rightarrow> 'a \<Rightarrow> bool) \<Rightarrow> (int \<times> 'a) list" where
  "HashSharded_ForEachShard h action = visit_shards action 0 (hs_shards h)"

definition HashSharded_MergeShard :: "'a \<Rightarrow> 'a HashSharded \<Rightarrow> ('a list \<Rightarrow> 'a) \<Rightarrow> 'a outcome" where
  "HashSharded_MergeShard zero h merge =
     bind_outcome (fill_values 0 (hs_shards h) (replicate (nat (hs_count h)) zero)) (\<lambda>values. Ret (merge values))"

definition HashSharded_Version :: "'a HashSharded \<Rightarrow> uint64" where
  "HashSharded_Version h = hs_version h"

definition HashSharded_IsDirty :: "'a HashSharded \<Rightarrow> bool" where
  "HashSharded_IsDirty h = hs_dirty h"

definition HashSharded_MarkClean :: "'a HashSharded \<Rightarrow> 'a HashSharded" where
  "HashSharded_MarkClean h = h\<lparr>hs_dirty := False\<rparr>"

section \<open>The hash ring\<close>

type_synonym consistentHashRing = "64 word list"

definition newConsistentHashRing :: consistentHashRing where
  "newConsistentHashRing = []"

text \<open>The sorted iterator is dropped; \<open>Sort\<close> works on a copy, so the ring keeps the order of insertion.\<close>

definition addNode :: "consistentHashRing \<Rightarrow> 64 word \<Rightarrow> consistentHashRing" where
  "addNode nodes hash =
     (let nodes' = nodes @ [hash]; sorted_nodes = Sort (\<lambda>a b. a < b) (From nodes') in nodes')"

definition getNode :: "consistentHashRing \<Rightarrow> 64 word \<Rightarrow> 64 word outcome" where
  "getNode nodes keyHash =
     (if length nodes = 0 then Ret 0
      else let idx = sort_Search (length nodes) (\<lambda>i. nodes ! i \<ge> keyHash)
           in if idx = length nodes then slice_get nodes 0 else slice_get nodes idx)"

section \<open>ConsistentHashSharded\<close>

record 'a ConsistentHashSharded =
  ch_ring :: consistentHashRing
  ch_shards :: "'a shard list"
  ch_virtualNodes :: "64 word \<Rightarrow> nat option"
  ch_count :: int
  ch_version :: uint64
  ch_dirty :: bool

definition virtual_key :: "nat \<Rightarrow> nat \<Rightarrow> nat \<Rightarrow> string" where
  "virtual_key shardIdx v r =
     ''shard-'' @ decimal shardIdx @ ''-virtual-'' @ decimal v @ ''-'' @ decimal r"

text \<open>
  The loop that should find an unused hash. Its condition \<open>exists\<close> is assigned once, before the loop,
  so the loop runs not at all or forever; \<open>None\<close> is a loop that does not end.
\<close>

partial_function (option) rehash_loop :: "hash_fun \<Rightarrow> bool \<Rightarrow> string \<Rightarrow> 64 word \<Rightarrow> 64 word option" where
  "rehash_loop H found key hash =
     (if found then rehash_loop H found (key @ ''!'') (H (key @ ''!'')) else Some hash)"

declare rehash_loop.simps [code]

definition add_virtual :: "hash_fun \<Rightarrow> nat \<times> nat \<times> nat \<Rightarrow> 'a ConsistentHashSharded \<Rightarrow> 'a ConsistentHashSharded option" where
  "add_virtual H node c = (case node of (shardIdx, v, r) \<Rightarrow>
     (let key = virtual_key shardIdx v r; hash = H key
      in Option.bind (rehash_loop H (ch_virtualNodes c hash \<noteq> None) key hash) (\<lambda>hash.
           Some (c\<lparr>ch_ring := addNode (ch_ring c) hash,
                   ch_virtualNodes := (ch_virtualNodes c)(hash := Some shardIdx)\<rparr>))))"

fun add_virtuals :: "hash_fun \<Rightarrow> (nat \<times> nat \<times> nat) list \<Rightarrow> 'a ConsistentHashSharded \<Rightarrow> 'a ConsistentHashSharded option" where
  "add_virtuals H [] c = Some c"
| "add_virtuals H (n # ns) c = Option.bind (add_virtual H n c) (add_virtuals H ns)"

text \<open>The random number of each virtual node is given by \<open>rnd\<close>.\<close>

definition virtual_nodes :: "(nat \<Rightarrow> nat \<Rightarrow> nat) \<Rightarrow> nat \<Rightarrow> (nat \<times> nat \<times> nat) list" where
  "virtual_nodes rnd n = [(i, v, rnd i v mod 100000). i \<leftarrow> [0..<n], v \<leftarrow> [0..<n * 2]]"

definition NewConsistentHashSharded ::
    "hash_fun \<Rightarrow> (nat \<Rightarrow> nat \<Rightarrow> nat) \<Rightarrow> int \<Rightarrow> 'a \<Rightarrow> 'a ConsistentHashSharded option" where
  "NewConsistentHashSharded H rnd shardCount initialValue =
     (let shardCount = (if shardCount < 0 then 16 else shardCount)
      in Option.bind (add_virtuals H (virtual_nodes rnd (nat shardCount))
           \<lparr>ch_ring = newConsistentHashRing, ch_shards = replicate (nat shardCount) (newShard initialValue),
            ch_virtualNodes = (\<lambda>_. None), ch_count = shardCount, ch_version = 0, ch_dirty = False\<rparr>) (\<lambda>c.
           Some (c\<lparr>ch_version := 1, ch_dirty := False\<rparr>)))"

text \<open>A missing map entry reads as zero.\<close>

definition getShardIndexForKey :: "hash_fun \<Rightarrow> 'a ConsistentHashSharded \<Rightarrow> string \<Rightarrow> nat outcome" where
  "getShardIndexForKey H c key =
     bind_outcome (getNode (ch_ring c) (xHash H key)) (\<lambda>nodeHash.
       Ret (case ch_virtualNodes c nodeHash of Some i \<Rightarrow> i | None \<Rightarrow> 0))"

definition ConsistentHashSharded_GetShard :: "hash_fun \<Rightarrow> 'a ConsistentHashSharded \<Rightarrow> string \<Rightarrow> 'a outcome" where
  "ConsistentHashSharded_GetShard H c shardKey =
     bind_outcome (getShardIndexForKey H c shardKey) (\<lambda>idx.
     bind_outcome (slice_get (ch_shards c) idx) (\<lambda>sh. Ret (sh_value sh)))"

definition ConsistentHashSharded_SetShard ::
    "hash_fun \<Rightarrow> 'a ConsistentHashSharded \<Rightarrow> string \<Rightarrow> 'a \<Rightarrow> 'a ConsistentHashSharded outcome" where
  "ConsistentHashSharded_SetShard H c shardKey v =
     bind_outcome (getShardIndexForKey H c shardKey) (\<lambda>idx.
     bind_outcome (slice_get (ch_shards c) idx) (\<lambda>sh.
       Ret (c\<lparr>ch_shards := (ch_shards c)[idx := store_shard v sh], ch_version := ch_version c + 1, ch_dirty := True\<rparr>)))"

definition ConsistentHashSharded_Get :: "hash_fun \<Rightarrow> 'a ConsistentHashSharded \<Rightarrow> 'a outcome" where
  "ConsistentHashSharded_Get H h = ConsistentHashSharded_GetShard H h defaultShardKey"

definition ConsistentHashSharded_Set :: "hash_fun \<Rightarrow> 'a ConsistentHashSharded \<Rightarrow> 'a \<Rightarrow> 'a ConsistentHashSharded outcome" where
  "ConsistentHashSharded_Set H h v = ConsistentHashSharded_SetShard H h defaultShardKey v"

definition ConsistentHashSharded_GetShardCount :: "'a ConsistentHashSharded \<Rightarrow> int" where
  "ConsistentHashSharded_GetShardCount h = ch_count h"

definition ConsistentHashSharded_ForEachShard :: "'a ConsistentHashSharded \<Rightarrow> (int \<Rightarrow> 'a \<Rightarrow> bool) \<Rightarrow> (int \<times> 'a) list" where
  "ConsistentHashSharded_ForEachShard h action = visit_shards action 0 (ch_shards h)"

definition ConsistentHashSharded_MergeShard :: "'a \<Rightarrow> 'a ConsistentHashSharded \<Rightarrow> ('a list \<Rightarrow> 'a) \<Rightarrow> 'a outcome" where
  "ConsistentHashSharded_MergeShard zero h merge =
     bind_outcome (fill_values 0 (ch_shards h) (replicate (length (ch_shards h)) zero)) (\<lambda>values. Ret (merge values))"

definition ConsistentHashSharded_Version :: "'a ConsistentHashSharded \<Rightarrow> uint64" where
  "ConsistentHashSharded_Version h = ch_version h"

definition ConsistentHashSharded_IsDirty :: "'a ConsistentHashSharded \<Rightarrow> bool" where
  "ConsistentHashSharded_IsDirty h = ch_dirty h"

definition ConsistentHashSharded_MarkClean :: "'a ConsistentHashSharded \<Rightarrow> 'a ConsistentHashSharded" where
  "ConsistentHashSharded_MarkClean h = h\<lparr>ch_dirty := False\<rparr>"

section \<open>RangeSharded\<close>

record 'a RangeSharded =
  rs_shards :: "'a shard list"
  rs_count :: int
  rs_version :: uint64
  rs_dirty :: bool
  rs_keyRanges :: "string list"

text \<open>Here too the sorted copy is dropped and the boundaries keep the order they were given in.\<close>

definition NewRangeSharded :: "string list \<Rightarrow> 'a \<Rightarrow> 'a RangeSharded" where
  "NewRangeSharded ranges initialValue =
     (let ranges = (if length ranges = 0 then defaultRanges else ranges);
          sorted_ranges = Sort (\<lambda>a b. a < b) (From ranges)
      in \<lparr>rs_shards = replicate (length ranges) \<lparr>sh_value = initialValue, sh_version = 1\<rparr>,
          rs_count = int (length ranges), rs_version = 1, rs_dirty = False, rs_keyRanges = ranges\<rparr>)"

fun range_index :: "string \<Rightarrow> nat \<Rightarrow> string list \<Rightarrow> nat option" where
  "range_index key i [] = None"
| "range_index key i (r # rs) = (if key < r then Some i else range_index key (i + 1) rs)"

definition getShardIndexForRange :: "'a RangeSharded \<Rightarrow> string \<Rightarrow> int" where
  "getShardIndexForRange r key =
     (case range_index key 0 (rs_keyRanges r) of Some i \<Rightarrow> int i | None \<Rightarrow> int (length (rs_keyRanges r)) - 1)"

text \<open>A negative index panics.\<close>

definition range_shard :: "'a RangeSharded \<Rightarrow> string \<Rightarrow> (nat \<times> 'a shard) outcome" where
  "range_shard r key =
     (let idx = getShardIndexForRange r key
      in if idx < 0 then Panic IndexOutOfRange
         else bind_outcome (slice_get (rs_shards r) (nat idx)) (\<lambda>sh. Ret (nat idx, sh)))"

definition RangeSharded_GetShard :: "'a RangeSharded \<Rightarrow> string \<Rightarrow> 'a outcome" where
  "RangeSharded_GetShard r shardKey = bind_outcome (range_shard r shardKey) (\<lambda>(idx, sh). Ret (sh_value sh))"

definition RangeSharded_SetShard :: "'a RangeSharded \<Rightarrow> string \<Rightarrow> 'a \<Rightarrow> 'a RangeSharded outcome" where
  "RangeSharded_SetShard r shardKey v =
     bind_outcome (range_shard r shardKey) (\<lambda>(idx, sh).
       Ret (r\<lparr>rs_shards := (rs_shards r)[idx := store_shard v sh], rs_version := rs_version r + 1, rs_dirty := True\<rparr>))"

definition RangeSharded_Get :: "'a RangeSharded \<Rightarrow> 'a outcome" where
  "RangeSharded_Get h = RangeSharded_GetShard h defaultShardKey"

definition RangeSharded_Set :: "'a RangeSharded \<Rightarrow> 'a \<Rightarrow> 'a RangeSharded outcome" where
  "RangeSharded_Set h v = RangeSharded_SetShard h defaultShardKey v"

definition RangeSharded_GetShardCount :: "'a RangeSharded \<Rightarrow> int" where
  "RangeSharded_GetShardCount h = rs_count h"

definition RangeSharded_ForEachShard :: "'a RangeSharded \<Rightarrow> (int \<Rightarrow> 'a \<Rightarrow> bool) \<Rightarrow> (int \<times> 'a) list" where
  "RangeSharded_ForEachShard h action = visit_shards action 0 (rs_shards h)"

definition RangeSharded_MergeShard :: "'a \<Rightarrow> 'a RangeSharded \<Rightarrow> ('a list \<Rightarrow> 'a) \<Rightarrow> 'a outcome" where
  "RangeSharded_MergeShard zero h merge =
     bind_outcome (fill_values 0 (rs_shards h) (replicate (nat (rs_count h)) zero)) (\<lambda>values. Ret (merge values))"

definition RangeSharded_Version :: "'a RangeSharded \<Rightarrow> uint64" where
  "RangeSharded_Version h = rs_version h"

definition RangeSharded_IsDirty :: "'a RangeSharded \<Rightarrow> bool" where
  "RangeSharded_IsDirty h = rs_dirty h"

definition RangeSharded_MarkClean :: "'a RangeSharded \<Rightarrow> 'a RangeSharded" where
  "RangeSharded_MarkClean h = h\<lparr>rs_dirty := False\<rparr>"

section \<open>The interface\<close>

lemma sh_value_store [simp]: "sh_value (store_shard v sh) = v"
  by (simp add: store_shard_def)

definition hs_inv :: "'a HashSharded \<Rightarrow> bool" where
  "hs_inv h \<longleftrightarrow> 0 < hs_count h \<and> hs_count h < 2 ^ 32 \<and> length (hs_shards h) = nat (hs_count h)"

definition hs_place :: "hash_fun \<Rightarrow> 'a HashSharded \<Rightarrow> string \<Rightarrow> nat" where
  "hs_place H h key = unat (xHash32 H key mod word_of_int (hs_count h))"

lemma mod32_ok:
  assumes "0 < n" and "n < 2 ^ 32"
  shows "mod32 w (word_of_int n) = Ret (unat (w mod word_of_int n))" and "unat (w mod word_of_int n) < nat n"
proof -
  have u: "uint (word_of_int n :: 32 word) = n" using assms by (simp add: uint_word_of_int)
  then have "(word_of_int n :: 32 word) \<noteq> 0" using assms(1) by auto
  then show "mod32 w (word_of_int n) = Ret (unat (w mod word_of_int n))" by (simp add: mod32_def)
  have "(w mod word_of_int n :: 32 word) < word_of_int n"
    using \<open>(word_of_int n :: 32 word) \<noteq> 0\<close> by (intro word_mod_less_divisor) (simp only: word_neq_0_conv)
  then have "unat (w mod word_of_int n :: 32 word) < unat (word_of_int n :: 32 word)" by (simp only: word_less_nat_alt)
  also have "unat (word_of_int n :: 32 word) = nat n" using u by (simp only: unat_eq_nat_uint)
  finally show "unat (w mod word_of_int n) < nat n" .
qed

lemma hs_index:
  assumes "hs_inv h"
  shows "HashSharded_getShardIndex H h key = Ret (hs_place H h key)" and "hs_place H h key < length (hs_shards h)"
  using assms mod32_ok [of "hs_count h" "xHash32 H key"]
  by (simp_all add: hs_inv_def HashSharded_getShardIndex_def hs_place_def)

interpretation hash_sharded: sharded_root "HashSharded_GetShard H" "HashSharded_SetShard H" "hs_place H" defaultShardKey
  HashSharded_Version HashSharded_IsDirty HashSharded_MarkClean hs_inv for H
proof unfold_locales
  fix s :: "'a HashSharded" and k v
  assume s: "hs_inv s"
  define s' where "s' = s\<lparr>hs_shards := (hs_shards s)[hs_place H s k := store_shard v (hs_shards s ! hs_place H s k)],
    hs_version := hs_version s + 1, hs_dirty := True\<rparr>"
  have inv: "hs_inv s'" "hs_place H s' = hs_place H s" using s by (auto simp: s'_def hs_inv_def hs_place_def)
  have "HashSharded_SetShard H s k v = Ret s'"
    using hs_index [OF s, of H k] by (simp add: HashSharded_SetShard_def s'_def)
  moreover have "HashSharded_GetShard H s' k' = (if hs_place H s k' = hs_place H s k then Ret v else HashSharded_GetShard H s k')" for k'
    using hs_index [OF s, of H k] hs_index [OF s, of H k'] hs_index [OF inv(1), of H k'] inv(2)
    by (simp add: HashSharded_GetShard_def s'_def nth_list_update)
  ultimately show "\<exists>s'. HashSharded_SetShard H s k v = Ret s' \<and> hs_inv s' \<and> hs_place H s' = hs_place H s \<and>
    (\<forall>k'. HashSharded_GetShard H s' k' = (if hs_place H s k' = hs_place H s k then Ret v else HashSharded_GetShard H s k')) \<and>
    HashSharded_Version s' = HashSharded_Version s + 1 \<and> HashSharded_IsDirty s'"
    using inv by (auto simp: HashSharded_Version_def HashSharded_IsDirty_def s'_def)
qed (auto simp: HashSharded_MarkClean_def HashSharded_Version_def HashSharded_IsDirty_def hs_inv_def
    HashSharded_GetShard_def HashSharded_getShardIndex_def fun_eq_iff)

lemma NewHashSharded_inv: "n < 2 ^ 32 \<Longrightarrow> hs_inv (NewHashSharded n x)"
  by (simp add: hs_inv_def NewHashSharded_def)

subsection \<open>The ring\<close>

lemma getNode_member: "nodes \<noteq> [] \<Longrightarrow> \<exists>n\<in>set nodes. getNode nodes w = Ret n"
  using sort_Search_le [of "length nodes" "\<lambda>i. nodes ! i \<ge> w"]
  by (auto simp: getNode_def Let_def)

lemma addNode_append: "addNode nodes h = nodes @ [h]"
  by (simp add: addNode_def)

text \<open>
  On a sorted ring \<open>getNode\<close> returns the responsible node of consistent hashing: the least node not
  below the hash, or the least node of all when there is none. But \<open>addNode\<close> does not keep the ring
  sorted, and then another node can be returned.
\<close>

theorem ring_responsible_node:
  "(if sorted nodes \<and> nodes \<noteq> []
    then \<exists>n\<in>set nodes. getNode nodes w = Ret n \<and>
      (if \<exists>m\<in>set nodes. w \<le> m then w \<le> n \<and> (\<forall>m\<in>set nodes. w \<le> m \<longrightarrow> n \<le> m) else \<forall>m\<in>set nodes. n \<le> m)
    else True) \<and>
   getNode (addNode (addNode newConsistentHashRing 9) 1) 0 = Ret 9"
proof (intro conjI)
  have "getNode [9, 1] 0 = Ret 9"
    by (simp add: getNode_def sort_Search_def search_loop.simps Let_def)
  then show "getNode (addNode (addNode newConsistentHashRing 9) 1) 0 = Ret 9"
    by (simp add: addNode_append newConsistentHashRing_def)
  let ?f = "\<lambda>i. nodes ! i \<ge> w" and ?n = "length nodes"
  let ?i = "sort_Search ?n ?f"
  have "\<exists>n\<in>set nodes. getNode nodes w = Ret n \<and>
      (if \<exists>m\<in>set nodes. w \<le> m then w \<le> n \<and> (\<forall>m\<in>set nodes. w \<le> m \<longrightarrow> n \<le> m) else \<forall>m\<in>set nodes. n \<le> m)"
    if s: "sorted nodes" "nodes \<noteq> []"
  proof -
    have mono: "\<And>a b. a \<le> b \<Longrightarrow> b < ?n \<Longrightarrow> ?f a \<Longrightarrow> ?f b"
      using sorted_nth_mono [OF s(1)] by (meson order_trans)
    have below: "\<not> ?f k" if "k < ?i" for k
      using sort_Search_least [of ?n ?f, OF mono that] by simp
    show ?thesis
    proof (cases "?i = ?n")
      case True
      then have none: "\<not> w \<le> m" if "m \<in> set nodes" for m
        using below that by (metis in_set_conv_nth)
      have "nodes ! 0 \<le> m" if "m \<in> set nodes" for m
        using that sorted_nth_mono [OF s(1), of 0] by (metis in_set_conv_nth le0)
      with True none s show ?thesis by (auto simp: getNode_def Let_def)
    next
      case False
      then have i: "?i < ?n" using sort_Search_le [of ?n ?f] by simp
      then have "?f ?i" using sort_Search_true [of ?n ?f] by simp
      moreover have "nodes ! ?i \<le> m" if "m \<in> set nodes" "w \<le> m" for m
      proof -
        from that obtain j where j: "j < ?n" "m = nodes ! j" by (metis in_set_conv_nth)
        with that below have "?i \<le> j" by (meson not_le)
        with j show ?thesis using sorted_nth_mono [OF s(1)] by simp
      qed
      ultimately show ?thesis using i s by (auto simp: getNode_def Let_def)
    qed
  qed
  then show "if sorted nodes \<and> nodes \<noteq> [] then \<exists>n\<in>set nodes. getNode nodes w = Ret n \<and>
      (if \<exists>m\<in>set nodes. w \<le> m then w \<le> n \<and> (\<forall>m\<in>set nodes. w \<le> m \<longrightarrow> n \<le> m) else \<forall>m\<in>set nodes. n \<le> m)
    else True" by simp
qed

subsection \<open>ConsistentHashSharded\<close>

lemma rehash_loop_stuck:
  assumes "rehash_loop H found key hash = Some r"
  shows "\<not> found \<and> r = hash"
proof -
  have "found = found \<longrightarrow> \<not> found \<and> r = hash"
    by (rule rehash_loop.raw_induct [OF _ assms]) (fastforce split: if_splits)
  then show ?thesis by simp
qed

lemma rehash_loop_value: "rehash_loop H found key hash = (if found then None else Some hash)"
proof (cases found)
  case True
  then show ?thesis using rehash_loop_stuck [of H found key hash] by (cases "rehash_loop H found key hash") auto
next
  case False
  then show ?thesis by (simp add: rehash_loop.simps)
qed

definition ch_inv :: "'a ConsistentHashSharded \<Rightarrow> bool" where
  "ch_inv c \<longleftrightarrow> ch_ring c \<noteq> [] \<and>
     (\<forall>n\<in>set (ch_ring c). \<exists>i<length (ch_shards c). ch_virtualNodes c n = Some i)"

definition ch_place :: "hash_fun \<Rightarrow> 'a ConsistentHashSharded \<Rightarrow> string \<Rightarrow> nat" where
  "ch_place H c key = (case getShardIndexForKey H c key of Ret i \<Rightarrow> i | _ \<Rightarrow> 0)"

lemma ch_index:
  assumes "ch_inv c"
  shows "getShardIndexForKey H c key = Ret (ch_place H c key)" and "ch_place H c key < length (ch_shards c)"
proof -
  from assms getNode_member [of "ch_ring c" "xHash H key"] obtain n i where
    "n \<in> set (ch_ring c)" "getNode (ch_ring c) (xHash H key) = Ret n" "i < length (ch_shards c)" "ch_virtualNodes c n = Some i"
    unfolding ch_inv_def by blast
  then show "getShardIndexForKey H c key = Ret (ch_place H c key)" "ch_place H c key < length (ch_shards c)"
    by (simp_all add: getShardIndexForKey_def ch_place_def)
qed

interpretation consistent_sharded: sharded_root "ConsistentHashSharded_GetShard H" "ConsistentHashSharded_SetShard H"
  "ch_place H" defaultShardKey ConsistentHashSharded_Version ConsistentHashSharded_IsDirty
  ConsistentHashSharded_MarkClean ch_inv for H
proof unfold_locales
  fix s :: "'a ConsistentHashSharded" and k v
  assume s: "ch_inv s"
  define s' where "s' = s\<lparr>ch_shards := (ch_shards s)[ch_place H s k := store_shard v (ch_shards s ! ch_place H s k)],
    ch_version := ch_version s + 1, ch_dirty := True\<rparr>"
  have inv: "ch_inv s'" "ch_place H s' = ch_place H s"
    using s by (auto simp: s'_def ch_inv_def ch_place_def getShardIndexForKey_def)
  have "ConsistentHashSharded_SetShard H s k v = Ret s'"
    using ch_index [OF s, of H k] by (simp add: ConsistentHashSharded_SetShard_def s'_def)
  moreover have "ConsistentHashSharded_GetShard H s' k' =
      (if ch_place H s k' = ch_place H s k then Ret v else ConsistentHashSharded_GetShard H s k')" for k'
    using ch_index [OF s, of H k] ch_index [OF s, of H k'] ch_index [OF inv(1), of H k'] inv(2)
    by (simp add: ConsistentHashSharded_GetShard_def s'_def nth_list_update)
  ultimately show "\<exists>s'. ConsistentHashSharded_SetShard H s k v = Ret s' \<and> ch_inv s' \<and> ch_place H s' = ch_place H s \<and>
    (\<forall>k'. ConsistentHashSharded_GetShard H s' k' =
       (if ch_place H s k' = ch_place H s k then Ret v else ConsistentHashSharded_GetShard H s k')) \<and>
    ConsistentHashSharded_Version s' = ConsistentHashSharded_Version s + 1 \<and> ConsistentHashSharded_IsDirty s'"
    using inv by (auto simp: ConsistentHashSharded_Version_def ConsistentHashSharded_IsDirty_def s'_def)
qed (auto simp: ConsistentHashSharded_MarkClean_def ConsistentHashSharded_Version_def ConsistentHashSharded_IsDirty_def
    ch_inv_def ConsistentHashSharded_GetShard_def getShardIndexForKey_def fun_eq_iff)

text \<open>Building: the ring grows by the hashes of the virtual nodes, as long as they are all different.\<close>

definition node_hash :: "hash_fun \<Rightarrow> nat \<times> nat \<times> nat \<Rightarrow> 64 word" where
  "node_hash H n = (case n of (i, v, r) \<Rightarrow> H (virtual_key i v r))"

lemma add_virtuals_spec:
  "add_virtuals H ns c = (if distinct (map (node_hash H) ns) \<and> (\<forall>n\<in>set ns. ch_virtualNodes c (node_hash H n) = None)
     then Some (c\<lparr>ch_ring := ch_ring c @ map (node_hash H) ns,
       ch_virtualNodes := fold (\<lambda>n m. m(node_hash H n := Some (fst n))) ns (ch_virtualNodes c)\<rparr>)
     else None)"
proof (induction ns arbitrary: c)
  case (Cons n ns)
  have a: "add_virtual H n c = (if ch_virtualNodes c (node_hash H n) = None
      then Some (c\<lparr>ch_ring := ch_ring c @ [node_hash H n], ch_virtualNodes := (ch_virtualNodes c)(node_hash H n := Some (fst n))\<rparr>)
      else None)"
    by (cases n) (simp add: add_virtual_def rehash_loop_value addNode_append node_hash_def Let_def)
  show ?case
  proof (cases "ch_virtualNodes c (node_hash H n) = None")
    case True
    have e: "((ch_virtualNodes c)(node_hash H n := Some (fst n))) w = None \<longleftrightarrow> w \<noteq> node_hash H n \<and> ch_virtualNodes c w = None" for w
      by simp
    have c: "(distinct (map (node_hash H) (n # ns)) \<and> (\<forall>x\<in>set (n # ns). ch_virtualNodes c (node_hash H x) = None)) =
        (distinct (map (node_hash H) ns) \<and>
         (\<forall>x\<in>set ns. ((ch_virtualNodes c)(node_hash H n := Some (fst n))) (node_hash H x) = None))"
      unfolding e using True by (simp only: list.simps distinct.simps set_map ball_simps image_iff eq_commute [of _ "node_hash H n"]) metis
    show ?thesis unfolding c using True by (simp add: a Cons.IH del: fun_upd_apply)
  next
    case False
    with a show ?thesis by simp
  qed
qed simp

lemma fold_virtual_dom:
  "(\<forall>w i. m w = Some i \<longrightarrow> i < k) \<Longrightarrow> (\<forall>n\<in>set ns. fst n < k) \<Longrightarrow>
   (\<forall>w i. fold (\<lambda>n m. m(f n := Some (fst n))) ns m w = Some i \<longrightarrow> i < k) \<and>
   (\<forall>w. (m w \<noteq> None \<or> w \<in> f ` set ns) \<longrightarrow> fold (\<lambda>n m. m(f n := Some (fst n))) ns m w \<noteq> None)"
proof (induction ns arbitrary: m)
  case (Cons n ns)
  have "\<forall>w j. (m(f n := Some (fst n))) w = Some j \<longrightarrow> j < k" using Cons.prems by auto
  from Cons.IH [OF this] Cons.prems(2) show ?case by auto
qed simp

definition virtual_hashes :: "hash_fun \<Rightarrow> (nat \<Rightarrow> nat \<Rightarrow> nat) \<Rightarrow> nat \<Rightarrow> 64 word list" where
  "virtual_hashes H rnd n = map (node_hash H) (virtual_nodes rnd n)"

text \<open>
  \<open>NewConsistentHashSharded\<close> returns exactly when the hashes of all virtual nodes are different: the
  first collision sends it into a loop that never ends. When it returns with at least one shard,
  every key is served without panic, by a shard that keeps what was last written through any key of
  that shard. With zero shards, which the constructor accepts, every access panics.
\<close>

theorem consistent_hash_sharded:
  "(case NewConsistentHashSharded H rnd n x of
      None \<Rightarrow> \<not> distinct (virtual_hashes H rnd (if n < 0 then 16 else nat n))
    | Some c \<Rightarrow> distinct (virtual_hashes H rnd (if n < 0 then 16 else nat n)) \<and>
       (if n = 0 then ConsistentHashSharded_GetShard H c key = Panic IndexOutOfRange
        else \<exists>c'. write_shards (ConsistentHashSharded_SetShard H) c ws = Ret c' \<and>
          ConsistentHashSharded_GetShard H c' key =
            (case filter (\<lambda>w. ch_place H c (fst w) = ch_place H c key) ws of
               [] \<Rightarrow> Ret x | w # rest \<Rightarrow> Ret (snd (last (w # rest))))))"
proof -
  define k where "k = (if n < 0 then 16 else nat n)"
  define vs where "vs = virtual_nodes rnd k"
  define c where "c = \<lparr>ch_ring = map (node_hash H) vs, ch_shards = replicate k (newShard x),
    ch_virtualNodes = fold (\<lambda>n m. m(node_hash H n := Some (fst n))) vs (\<lambda>_. None),
    ch_count = (if n < 0 then 16 else n), ch_version = 1, ch_dirty = False\<rparr>"
  have new: "NewConsistentHashSharded H rnd n x = (if distinct (virtual_hashes H rnd k) then Some c else None)"
    by (auto simp: NewConsistentHashSharded_def add_virtuals_spec newConsistentHashRing_def virtual_hashes_def vs_def c_def k_def Let_def)
  show ?thesis
  proof (cases "n = 0")
    case True
    have "getNode [] w = Ret 0" for w by (simp add: getNode_def)
    with True show ?thesis unfolding new
      by (auto simp: k_def c_def vs_def virtual_nodes_def ConsistentHashSharded_GetShard_def getShardIndexForKey_def)
  next
    case False
    then have k: "0 < k" by (simp add: k_def)
    have "\<forall>n\<in>set vs. fst n < k" by (auto simp: vs_def virtual_nodes_def)
    from fold_virtual_dom [where m = "\<lambda>_. None" and k = k and ns = vs and f = "node_hash H", OF _ this]
    have "\<exists>i<k. ch_virtualNodes c w = Some i" if "w \<in> set (ch_ring c)" for w
      using that by (fastforce simp: c_def)
    moreover have "vs \<noteq> []" using k by (auto simp: vs_def virtual_nodes_def)
    ultimately have inv: "ch_inv c" by (simp add: ch_inv_def c_def)
    have "ConsistentHashSharded_GetShard H c key = Ret x"
      using ch_index [OF inv, of H key] by (simp add: ConsistentHashSharded_GetShard_def c_def newShard_def)
    moreover obtain c' where "write_shards (ConsistentHashSharded_SetShard H) c ws = Ret c'"
      "ConsistentHashSharded_GetShard H c' key = (case filter (\<lambda>w. ch_place H c (fst w) = ch_place H c key) ws of
           [] \<Rightarrow> ConsistentHashSharded_GetShard H c key | w # rest \<Rightarrow> Ret (snd (last (w # rest))))"
      using consistent_sharded.write_shards_ok [OF inv, of H ws] by blast
    ultimately have
      "\<exists>c'. write_shards (ConsistentHashSharded_SetShard H) c ws = Ret c' \<and>
          ConsistentHashSharded_GetShard H c' key =
            (case filter (\<lambda>w. ch_place H c (fst w) = ch_place H c key) ws of
               [] \<Rightarrow> Ret x | w # rest \<Rightarrow> Ret (snd (last (w # rest))))" by (auto split: list.splits)
    with False new show ?thesis by (simp add: k_def)
  qed
qed

theorem ring_responsible_node_witness:
  "getNode [1, 5, 9] 6 = Ret 9"
  using ring_responsible_node [of "[1, 5, 9]" 6] by (auto simp: word_le_nat_alt)

subsection \<open>RangeSharded\<close>

definition rs_inv :: "'a RangeSharded \<Rightarrow> bool" where
  "rs_inv r \<longleftrightarrow> rs_keyRanges r \<noteq> [] \<and> length (rs_shards r) = length (rs_keyRanges r)"

definition rs_place :: "'a RangeSharded \<Rightarrow> string \<Rightarrow> nat" where
  "rs_place r key = nat (getShardIndexForRange r key)"

lemma range_index_cases:
  "case range_index key i rs of
     Some j \<Rightarrow> i \<le> j \<and> j < i + length rs \<and> key < rs ! (j - i) \<and> (\<forall>m<j - i. rs ! m \<le> key)
   | None \<Rightarrow> \<forall>r\<in>set rs. r \<le> key"
proof (induction rs arbitrary: i)
  case (Cons r rs)
  show ?case
  proof (cases "key < r")
    case False
    with Cons [of "i + 1"] show ?thesis
      by (auto simp: nth_Cons' not_less split: option.splits)
  qed simp
qed simp

lemma rs_index:
  assumes "rs_inv r"
  shows "0 \<le> getShardIndexForRange r key" and "rs_place r key < length (rs_shards r)"
    and "range_shard r key = Ret (rs_place r key, rs_shards r ! rs_place r key)"
proof -
  have ne: "0 < length (rs_keyRanges r)" using assms by (simp add: rs_inv_def)
  then show p: "0 \<le> getShardIndexForRange r key" and l: "rs_place r key < length (rs_shards r)"
    using assms range_index_cases [where key = key and i = 0 and rs = "rs_keyRanges r"]
    by (auto simp: getShardIndexForRange_def rs_place_def rs_inv_def Suc_le_eq nat_less_iff split: option.splits)
  then show "range_shard r key = Ret (rs_place r key, rs_shards r ! rs_place r key)"
    by (simp add: range_shard_def rs_place_def Let_def)
qed

interpretation range_sharded: sharded_root RangeSharded_GetShard RangeSharded_SetShard rs_place defaultShardKey
  RangeSharded_Version RangeSharded_IsDirty RangeSharded_MarkClean rs_inv
proof unfold_locales
  fix s :: "'a RangeSharded" and k v
  assume s: "rs_inv s"
  define s' where "s' = s\<lparr>rs_shards := (rs_shards s)[rs_place s k := store_shard v (rs_shards s ! rs_place s k)],
    rs_version := rs_version s + 1, rs_dirty := True\<rparr>"
  have kr: "rs_keyRanges s' = rs_keyRanges s" by (simp add: s'_def)
  then have inv: "rs_inv s'" "rs_place s' = rs_place s"
    using s by (simp_all add: rs_place_def getShardIndexForRange_def fun_eq_iff split: option.split) (simp add: rs_inv_def s'_def)
  have "RangeSharded_SetShard s k v = Ret s'"
    using rs_index [OF s, of k] by (simp add: RangeSharded_SetShard_def s'_def)
  moreover have "RangeSharded_GetShard s' k' = (if rs_place s k' = rs_place s k then Ret v else RangeSharded_GetShard s k')" for k'
    using rs_index [OF s, of k] rs_index [OF s, of k'] rs_index [OF inv(1), of k'] inv(2)
    by (simp add: RangeSharded_GetShard_def s'_def nth_list_update)
  ultimately show "\<exists>s'. RangeSharded_SetShard s k v = Ret s' \<and> rs_inv s' \<and> rs_place s' = rs_place s \<and>
    (\<forall>k'. RangeSharded_GetShard s' k' = (if rs_place s k' = rs_place s k then Ret v else RangeSharded_GetShard s k')) \<and>
    RangeSharded_Version s' = RangeSharded_Version s + 1 \<and> RangeSharded_IsDirty s'"
    using inv by (auto simp: RangeSharded_Version_def RangeSharded_IsDirty_def s'_def)
qed (auto simp: RangeSharded_MarkClean_def RangeSharded_Version_def RangeSharded_IsDirty_def rs_inv_def
    RangeSharded_GetShard_def range_shard_def getShardIndexForRange_def fun_eq_iff Let_def split: option.split)

lemma sorted_range_index:
  assumes "sorted rs"
  shows "(case range_index key 0 rs of Some j \<Rightarrow> j | None \<Rightarrow> length rs) = length (filter (\<lambda>r. r \<le> key) rs)"
proof (cases "range_index key 0 rs")
  case None
  with range_index_cases [where key = key and i = 0 and rs = rs] show ?thesis by (simp add: filter_id_conv)
next
  case (Some j)
  with range_index_cases [where key = key and i = 0 and rs = rs] have j: "j < length rs" "key < rs ! j" "\<forall>m<j. rs ! m \<le> key" by simp_all
  have "\<not> rs ! m \<le> key" if "j \<le> m" "m < length rs" for m
    using sorted_nth_mono [OF assms that] j(2) by simp
  with j have "{m. m < length rs \<and> rs ! m \<le> key} = {..<j}" by (auto simp: not_le) (meson not_le)
  with Some show ?thesis by (simp add: length_filter_conv_card)
qed

text \<open>
  \<open>RangeSharded\<close> sends a key to the first boundary above it. If the boundaries are given in
  ascending order, that is the shard whose number is the number of boundaries not above the key, the
  last shard taking the rest, so every shard serves an interval of keys. The constructor does not
  put them in order: with the boundaries \<open>v\<close>, \<open>a\<close> the second shard serves only keys not below \<open>v\<close>.
\<close>

theorem range_sharded_place:
  "rs_keyRanges (NewRangeSharded ranges x) = (if ranges = [] then defaultRanges else ranges) \<and>
   (ranges \<noteq> [] \<and> sorted ranges \<longrightarrow>
      rs_place (NewRangeSharded ranges x) key = min (length (filter (\<lambda>b. b \<le> key) ranges)) (length ranges - 1)) \<and>
   (rs_place (NewRangeSharded [''v'', ''a''] x) key = 1) = (''v'' \<le> key)"
proof (intro conjI impI)
  assume r: "ranges \<noteq> [] \<and> sorted ranges"
  then have k: "rs_keyRanges (NewRangeSharded ranges x) = ranges" by (simp add: NewRangeSharded_def)
  from r sorted_range_index [of ranges key] range_index_cases [where key = key and i = 0 and rs = ranges]
  show "rs_place (NewRangeSharded ranges x) key = min (length (filter (\<lambda>b. b \<le> key) ranges)) (length ranges - 1)"
    by (cases "range_index key 0 ranges") (auto simp: k rs_place_def getShardIndexForRange_def nat_diff_distrib')
next
  have "''a'' < ''v''" by (simp add: less_char_def)
  then have "''v'' \<le> key \<Longrightarrow> \<not> key < ''a''" by (meson less_le_trans not_less_iff_gr_or_eq)
  then show "(rs_place (NewRangeSharded [''v'', ''a''] x) key = 1) = (''v'' \<le> key)"
    by (auto simp: rs_place_def getShardIndexForRange_def NewRangeSharded_def not_less)
qed (simp_all add: NewRangeSharded_def)

theorem range_sharded_place_witness:
  "rs_place (NewRangeSharded [''a'', ''m'', ''t''] (0::nat)) ''p'' = 2"
  using range_sharded_place [where ranges = "[''a'', ''m'', ''t'']" and x = "0::nat" and key = "''p''"]
  by (simp add: less_char_def less_eq_char_def List_Lexorder.list_le_def)

subsection \<open>HashSharded\<close>

lemma fill_values_map:
  "length vs = i + length shs \<Longrightarrow> fill_values i shs vs = Ret (take i vs @ map sh_value shs)"
proof (induction shs arbitrary: i vs)
  case (Cons sh shs)
  then have "i < length vs" by simp
  then have "take (Suc i) (vs[i := sh_value sh]) = take i vs @ [sh_value sh]"
    by (simp add: take_Suc_conv_app_nth)
  with Cons.IH [of "vs[i := sh_value sh]" "i + 1"] Cons.prems \<open>i < length vs\<close> show ?case by simp
qed simp

text \<open>
  A \<open>HashSharded\<close> with fewer than \<open>2^32\<close> shards (sixteen when the count given is not positive) serves
  every key: after any writes, a key reads the last value written through a key of its shard, or the
  initial value, and the version has counted the writes. \<open>MergeShard\<close> hands the merge function the
  values of all shards in order.
\<close>

theorem hash_sharded_last_write:
  assumes "n < 2 ^ 32"
  shows "\<exists>h. write_shards (HashSharded_SetShard H) (NewHashSharded n x) ws = Ret h \<and>
    HashSharded_GetShard H h key =
      (case filter (\<lambda>w. hs_place H h (fst w) = hs_place H h key) ws of
         [] \<Rightarrow> Ret x | w # rest \<Rightarrow> Ret (snd (last (w # rest)))) \<and>
    HashSharded_Version h = 1 + of_nat (length ws) \<and>
    HashSharded_MergeShard zero h merge = Ret (merge (map sh_value (hs_shards h)))"
proof -
  note inv = NewHashSharded_inv [OF assms, of x]
  from hash_sharded.write_shards_ok [OF inv, of H ws] obtain h where
    h: "write_shards (HashSharded_SetShard H) (NewHashSharded n x) ws = Ret h" "hs_inv h"
      "hs_place H h = hs_place H (NewHashSharded n x)"
      "HashSharded_GetShard H h key = (case filter (\<lambda>w. hs_place H (NewHashSharded n x) (fst w) = hs_place H (NewHashSharded n x) key) ws of
         [] \<Rightarrow> HashSharded_GetShard H (NewHashSharded n x) key | w # rest \<Rightarrow> Ret (snd (last (w # rest))))"
      "HashSharded_Version h = HashSharded_Version (NewHashSharded n x) + of_nat (length ws)" by blast
  have "hs_shards (NewHashSharded n x) ! i = \<lparr>sh_value = x, sh_version = 1\<rparr>" if "i < length (hs_shards (NewHashSharded n x))" for i
    using that by (simp add: NewHashSharded_def Let_def split: if_splits)
  then have "HashSharded_GetShard H (NewHashSharded n x) key = Ret x"
    using hs_index [OF inv, of H key] by (simp add: HashSharded_GetShard_def)
  moreover have "HashSharded_Version (NewHashSharded n x) = 1" by (simp add: HashSharded_Version_def NewHashSharded_def)
  moreover have "HashSharded_MergeShard zero h merge = Ret (merge (map sh_value (hs_shards h)))"
    using h(2) by (simp add: HashSharded_MergeShard_def fill_values_map hs_inv_def)
  ultimately show ?thesis using h by (auto split: list.splits)
qed

theorem hash_sharded_last_write_witness:
  "\<exists>h. write_shards (HashSharded_SetShard (\<lambda>k. of_nat (length k))) (NewHashSharded 0 (0::int)) [(''a'', 5), (''b'', 6)] = Ret h \<and>
     HashSharded_Version h = 3"
  using hash_sharded_last_write [of 0 "\<lambda>k. of_nat (length k)" 0 "[(''a'', 5), (''b'', 6)]"] by fastforce

end
