(* ===== verification/Var_Adaptive.thy ===== *)
theory Var_Adaptive
  imports Var_Sharded
begin

text \<open>
  \<open>AdaptiveSharded\<close> of \<open>internal/core/syncv2/vars/sharded.go\<close>. The shards are pointers: \<open>ad_heap\<close> holds every
  shard that was ever made and \<open>ad_shards\<close> the addresses of those in use, so that a goroutine can keep a
  shard that a resize has dropped. Every thousandth operation starts a goroutine that may double or halve
  the number of shards; a started goroutine that has not run yet is counted in \<open>ad_pending\<close>. The operations
  are given twice: run without interruption, and as goroutines whose steps (the atomic load of the count,
  the lookup under \<open>mx\<close>, the access to the shard, the counters; the parts of a resize) interleave. The
  counters and limits keep their widths.
\<close>

section \<open>State and operations\<close>

record 'a AdaptiveSharded =
  ad_heap :: "'a shard list"
  ad_shards :: "nat list"
  ad_count :: int32
  ad_version :: uint64
  ad_dirty :: bool
  ad_minShards :: int32
  ad_maxShards :: int32
  ad_scaleUpThreshold :: int64
  ad_scaleDownThreshold :: int64
  ad_totalOps :: int64
  ad_sampleOps :: int64
  ad_resizing :: bool
  ad_pending :: nat

definition NewAdaptiveSharded :: "int \<Rightarrow> 'a \<Rightarrow> 'a AdaptiveSharded" where
  "NewAdaptiveSharded initialShardCount initialValue =
     (let n = (if initialShardCount \<le> 0 then 4 else initialShardCount)
      in \<lparr>ad_heap = replicate (nat n) (newShard initialValue), ad_shards = [0..<nat n], ad_count = word_of_int n,
          ad_version = 1, ad_dirty = False, ad_minShards = word_of_int n, ad_maxShards = word_of_int (n * 64),
          ad_scaleUpThreshold = 1000, ad_scaleDownThreshold = 100, ad_totalOps = 0, ad_sampleOps = 0,
          ad_resizing = False, ad_pending = 0\<rparr>)"

definition trackOperation :: "'a AdaptiveSharded \<Rightarrow> 'a AdaptiveSharded" where
  "trackOperation a =
     (let ops = ad_sampleOps a + 1;
          a1 = a\<lparr>ad_totalOps := ad_totalOps a + 1, ad_sampleOps := ops\<rparr>
      in if sint ops mod 1000 = 0 then a1\<lparr>ad_pending := ad_pending a1 + 1\<rparr> else a1)"

text \<open>The parts of \<open>GetShard\<close> and \<open>SetShard\<close>. The index of a key comes from an atomic load of the count, before
  \<open>mx\<close> is taken; under \<open>mx\<close> the index is brought within the bounds of the shards there are then and gives a
  shard; the shard is read or written after \<open>mx\<close> is released.\<close>

definition load_index :: "hash_fun \<Rightarrow> 'a AdaptiveSharded \<Rightarrow> string \<Rightarrow> nat outcome" where
  "load_index H a shardKey = mod32 (xHash32 H shardKey) (ad_count a)"

definition adaptive_index :: "'a AdaptiveSharded \<Rightarrow> nat \<Rightarrow> nat outcome" where
  "adaptive_index a idx =
     slice_get (ad_shards a) (if idx \<ge> length (ad_shards a) then length (ad_shards a) - 1 else idx)"

definition shard_load :: "'a AdaptiveSharded \<Rightarrow> nat \<Rightarrow> 'a" where
  "shard_load a sh = sh_value (ad_heap a ! sh)"

definition shard_store :: "'a \<Rightarrow> nat \<Rightarrow> 'a AdaptiveSharded \<Rightarrow> 'a AdaptiveSharded" where
  "shard_store v sh a = a\<lparr>ad_heap := (ad_heap a)[sh := store_shard v (ad_heap a ! sh)]\<rparr>"

definition next_version :: "'a AdaptiveSharded \<Rightarrow> 'a AdaptiveSharded" where
  "next_version a = a\<lparr>ad_version := ad_version a + 1\<rparr>"

definition set_dirty :: "'a AdaptiveSharded \<Rightarrow> 'a AdaptiveSharded" where
  "set_dirty a = a\<lparr>ad_dirty := True\<rparr>"

text \<open>The two methods, run without interruption.\<close>

definition AdaptiveSharded_GetShard :: "hash_fun \<Rightarrow> 'a AdaptiveSharded \<Rightarrow> string \<Rightarrow> ('a \<times> 'a AdaptiveSharded) outcome" where
  "AdaptiveSharded_GetShard H a shardKey =
     (let a1 = trackOperation a
      in bind_outcome (load_index H a1 shardKey) (\<lambda>idx.
         bind_outcome (adaptive_index a1 idx) (\<lambda>sh. Ret (shard_load a1 sh, a1))))"

definition AdaptiveSharded_SetShard :: "hash_fun \<Rightarrow> 'a AdaptiveSharded \<Rightarrow> string \<Rightarrow> 'a \<Rightarrow> 'a AdaptiveSharded outcome" where
  "AdaptiveSharded_SetShard H a shardKey v =
     (let a1 = trackOperation a
      in bind_outcome (load_index H a1 shardKey) (\<lambda>idx.
         bind_outcome (adaptive_index a1 idx) (\<lambda>sh. Ret (set_dirty (next_version (shard_store v sh a1))))))"

definition AdaptiveSharded_Get :: "hash_fun \<Rightarrow> 'a AdaptiveSharded \<Rightarrow> ('a \<times> 'a AdaptiveSharded) outcome" where
  "AdaptiveSharded_Get H a = AdaptiveSharded_GetShard H a defaultShardKey"

definition AdaptiveSharded_Set :: "hash_fun \<Rightarrow> 'a AdaptiveSharded \<Rightarrow> 'a \<Rightarrow> 'a AdaptiveSharded outcome" where
  "AdaptiveSharded_Set H a v = AdaptiveSharded_SetShard H a defaultShardKey v"

definition AdaptiveSharded_GetShardCount :: "'a AdaptiveSharded \<Rightarrow> int" where
  "AdaptiveSharded_GetShardCount a = sint (ad_count a)"

definition AdaptiveSharded_ForEachShard :: "'a AdaptiveSharded \<Rightarrow> (int \<Rightarrow> 'a \<Rightarrow> bool) \<Rightarrow> (int \<times> 'a) list" where
  "AdaptiveSharded_ForEachShard a action = visit_shards action 0 (map ((!) (ad_heap a)) (ad_shards a))"

definition AdaptiveSharded_MergeShard :: "'a \<Rightarrow> 'a AdaptiveSharded \<Rightarrow> ('a list \<Rightarrow> 'a) \<Rightarrow> 'a outcome" where
  "AdaptiveSharded_MergeShard zero a merge =
     bind_outcome (fill_values 0 (map ((!) (ad_heap a)) (ad_shards a)) (replicate (length (ad_shards a)) zero)) (\<lambda>values. Ret (merge values))"

definition AdaptiveSharded_Version :: "'a AdaptiveSharded \<Rightarrow> uint64" where
  "AdaptiveSharded_Version a = ad_version a"

definition AdaptiveSharded_IsDirty :: "'a AdaptiveSharded \<Rightarrow> bool" where
  "AdaptiveSharded_IsDirty a = ad_dirty a"

definition AdaptiveSharded_MarkClean :: "'a AdaptiveSharded \<Rightarrow> 'a AdaptiveSharded" where
  "AdaptiveSharded_MarkClean a = a\<lparr>ad_dirty := False\<rparr>"

definition SetResizeThresholds :: "'a AdaptiveSharded \<Rightarrow> int64 \<Rightarrow> int64 \<Rightarrow> 'a AdaptiveSharded" where
  "SetResizeThresholds a up down = a\<lparr>ad_scaleUpThreshold := up, ad_scaleDownThreshold := down\<rparr>"

definition SetResizeThreshold :: "'a AdaptiveSharded \<Rightarrow> int64 \<Rightarrow> 'a AdaptiveSharded outcome" where
  "SetResizeThreshold a threshold =
     bind_outcome (go_quot (sint threshold) 10) (\<lambda>down. Ret (SetResizeThresholds a threshold (word_of_int down)))"

definition SetShardLimits :: "'a AdaptiveSharded \<Rightarrow> int32 \<Rightarrow> int32 \<Rightarrow> 'a AdaptiveSharded" where
  "SetShardLimits a mn mx = a\<lparr>ad_minShards := mn, ad_maxShards := mx\<rparr>"

definition GetAccessCounts :: "'a AdaptiveSharded \<Rightarrow> int \<Rightarrow> int option" where
  "GetAccessCounts a = [0 \<mapsto> sint (ad_totalOps a), 1 \<mapsto> sint (ad_sampleOps a), 2 \<mapsto> sint (ad_count a),
     3 \<mapsto> sint (ad_scaleUpThreshold a), 4 \<mapsto> sint (ad_scaleDownThreshold a)]"

definition GetResizeStats :: "'a AdaptiveSharded \<Rightarrow> string \<Rightarrow> int option" where
  "GetResizeStats a = [''total_ops'' \<mapsto> sint (ad_totalOps a), ''sample_ops'' \<mapsto> sint (ad_sampleOps a),
     ''current_shards'' \<mapsto> sint (ad_count a), ''min_shards'' \<mapsto> sint (ad_minShards a),
     ''max_shards'' \<mapsto> sint (ad_maxShards a), ''scale_up_threshold'' \<mapsto> sint (ad_scaleUpThreshold a),
     ''scale_down_threshold'' \<mapsto> sint (ad_scaleDownThreshold a),
     ''is_resizing'' \<mapsto> (if ad_resizing a then 1 else 0)]"

text \<open>The slots from the current count on get new shards, at the next addresses. \<open>ad_count\<close> is the number of
  shards in use (the invariant below), so the copy fills every slot before them.\<close>

definition scaleUp :: "'a AdaptiveSharded \<Rightarrow> 'a AdaptiveSharded outcome" where
  "scaleUp a =
     (let currentCount = sint (ad_count a);
          newCount = currentCount * 2;
          newCount = (if newCount > sint (ad_maxShards a) then sint (ad_maxShards a) else newCount)
      in if newCount = currentCount then Ret a
         else if newCount < 0 then Panic NegativeSize
         else bind_outcome (slice_get (ad_shards a) 0) (\<lambda>first.
                let k = nat (newCount - currentCount); h = length (ad_heap a)
                in Ret (a\<lparr>ad_heap := ad_heap a @ replicate k (newShard (sh_value (ad_heap a ! first))),
                          ad_shards := take (nat newCount) (ad_shards a) @ [h..<h + k],
                          ad_count := word_of_int newCount, ad_version := ad_version a + 1\<rparr>)))"

definition scaleDown :: "'a AdaptiveSharded \<Rightarrow> 'a AdaptiveSharded outcome" where
  "scaleDown a =
     (let currentCount = sint (ad_count a)
      in bind_outcome (go_quot currentCount 2) (\<lambda>half.
         let newCount = (if half < sint (ad_minShards a) then sint (ad_minShards a) else half)
         in if newCount = currentCount then Ret a
            else if newCount < 0 then Panic NegativeSize
            else if newCount > int (length (ad_shards a)) then Panic IndexOutOfRange
            else Ret (a\<lparr>ad_shards := take (nat newCount) (ad_shards a), ad_count := word_of_int newCount,
                        ad_version := ad_version a + 1\<rparr>)))"

text \<open>What \<open>maybeResize\<close> decides once it holds the flag: the sample is taken and reset, and the operations per
  shard are compared with the thresholds.\<close>

datatype ad_choice = ScaleUp | ScaleDown | KeepShards

definition resize_choice :: "'a AdaptiveSharded \<Rightarrow> (ad_choice \<times> 'a AdaptiveSharded) outcome" where
  "resize_choice a =
     (let currentCount = sint (ad_count a);
          currentOps = sint (ad_sampleOps a);
          a2 = a\<lparr>ad_sampleOps := 0\<rparr>
      in bind_outcome (go_quot currentOps currentCount) (\<lambda>opsPerShard.
         let shouldScaleUp = (opsPerShard > sint (ad_scaleUpThreshold a2) \<and> currentCount < sint (ad_maxShards a2));
             shouldScaleDown = (opsPerShard < sint (ad_scaleDownThreshold a2) \<and> currentCount > sint (ad_minShards a2))
         in Ret (if shouldScaleUp then ScaleUp else if shouldScaleDown then ScaleDown else KeepShards, a2)))"

fun resize_as :: "ad_choice \<Rightarrow> 'a AdaptiveSharded \<Rightarrow> 'a AdaptiveSharded outcome" where
  "resize_as ScaleUp a = scaleUp a"
| "resize_as ScaleDown a = scaleDown a"
| "resize_as KeepShards a = Ret a"

definition maybeResize :: "'a AdaptiveSharded \<Rightarrow> 'a AdaptiveSharded outcome" where
  "maybeResize a =
     (if ad_resizing a then Ret a
      else bind_outcome (resize_choice (a\<lparr>ad_resizing := True\<rparr>)) (\<lambda>(c, a2).
           bind_outcome (resize_as c a2) (\<lambda>a3. Ret (a3\<lparr>ad_resizing := False\<rparr>))))"

section \<open>Goroutines on one variable\<close>

text \<open>A goroutine in \<open>GetShard\<close>, \<open>SetShard\<close> or \<open>maybeResize\<close>, by what it does next. An index or a shard it holds was
  read in an earlier step. A step under \<open>mx\<close> or under the lock of a shard is one step, since the other
  goroutines that need the lock wait; the deferred reset of the flag is a step of its own.\<close>

datatype 'a ad_thread =
    GetTrack string | GetLoad string | GetLookup nat | GetRead nat | GetDone 'a
  | SetTrack string 'a | SetLoad string 'a | SetLookup nat 'a | SetStore nat 'a | SetVersion | SetFlag | SetDone
  | ResizeStart | ResizeSample | ResizeAs ad_choice | ResizeRelease | ResizeDone

fun ad_act :: "hash_fun \<Rightarrow> 'a ad_thread \<Rightarrow> 'a AdaptiveSharded \<Rightarrow> ('a ad_thread \<times> 'a AdaptiveSharded) outcome" where
  "ad_act H (GetTrack k) a = Ret (GetLoad k, trackOperation a)"
| "ad_act H (GetLoad k) a = bind_outcome (load_index H a k) (\<lambda>idx. Ret (GetLookup idx, a))"
| "ad_act H (GetLookup idx) a = bind_outcome (adaptive_index a idx) (\<lambda>sh. Ret (GetRead sh, a))"
| "ad_act H (GetRead sh) a = Ret (GetDone (shard_load a sh), a)"
| "ad_act H (GetDone r) a = Ret (GetDone r, a)"
| "ad_act H (SetTrack k v) a = Ret (SetLoad k v, trackOperation a)"
| "ad_act H (SetLoad k v) a = bind_outcome (load_index H a k) (\<lambda>idx. Ret (SetLookup idx v, a))"
| "ad_act H (SetLookup idx v) a = bind_outcome (adaptive_index a idx) (\<lambda>sh. Ret (SetStore sh v, a))"
| "ad_act H (SetStore sh v) a = Ret (SetVersion, shard_store v sh a)"
| "ad_act H SetVersion a = Ret (SetFlag, next_version a)"
| "ad_act H SetFlag a = Ret (SetDone, set_dirty a)"
| "ad_act H SetDone a = Ret (SetDone, a)"
| "ad_act H ResizeStart a = (if ad_resizing a then Ret (ResizeDone, a) else Ret (ResizeSample, a\<lparr>ad_resizing := True\<rparr>))"
| "ad_act H ResizeSample a = bind_outcome (resize_choice a) (\<lambda>(c, a'). Ret (ResizeAs c, a'))"
| "ad_act H (ResizeAs c) a = bind_outcome (resize_as c a) (\<lambda>a'. Ret (ResizeRelease, a'))"
| "ad_act H ResizeRelease a = Ret (ResizeDone, a\<lparr>ad_resizing := False\<rparr>)"
| "ad_act H ResizeDone a = Ret (ResizeDone, a)"

text \<open>The events of a run: a client starts a read or a write, changes the thresholds or marks the variable
  clean, a goroutine that \<open>trackOperation\<close> started begins to run, the \<open>i\<close>th goroutine takes its next step.\<close>

record 'a ad_world =
  aw_root :: "'a AdaptiveSharded"
  aw_threads :: "'a ad_thread list"

datatype 'a ad_event = EGet string | ESet string 'a | EResize | ERun nat | EThresholds int64 int64 | EMarkClean

fun ad_event_step :: "hash_fun \<Rightarrow> 'a ad_event \<Rightarrow> 'a ad_world \<Rightarrow> 'a ad_world outcome" where
  "ad_event_step H (EGet k) w = Ret (w\<lparr>aw_threads := aw_threads w @ [GetTrack k]\<rparr>)"
| "ad_event_step H (ESet k v) w = Ret (w\<lparr>aw_threads := aw_threads w @ [SetTrack k v]\<rparr>)"
| "ad_event_step H EResize w =
     (if 0 < ad_pending (aw_root w)
      then Ret (w\<lparr>aw_root := (aw_root w)\<lparr>ad_pending := ad_pending (aw_root w) - 1\<rparr>, aw_threads := aw_threads w @ [ResizeStart]\<rparr>)
      else Ret w)"
| "ad_event_step H (ERun i) w =
     (if i < length (aw_threads w)
      then bind_outcome (ad_act H (aw_threads w ! i) (aw_root w)) (\<lambda>(t, a).
             Ret (w\<lparr>aw_root := a, aw_threads := (aw_threads w)[i := t]\<rparr>))
      else Ret w)"
| "ad_event_step H (EThresholds up down) w = Ret (w\<lparr>aw_root := SetResizeThresholds (aw_root w) up down\<rparr>)"
| "ad_event_step H EMarkClean w = Ret (w\<lparr>aw_root := AdaptiveSharded_MarkClean (aw_root w)\<rparr>)"

fun ad_events :: "hash_fun \<Rightarrow> 'a ad_event list \<Rightarrow> 'a ad_world \<Rightarrow> 'a ad_world outcome" where
  "ad_events H [] w = Ret w"
| "ad_events H (e # es) w = bind_outcome (ad_event_step H e w) (ad_events H es)"

definition ad_start :: "int \<Rightarrow> 'a \<Rightarrow> 'a ad_world" where
  "ad_start n x = \<lparr>aw_root = NewAdaptiveSharded n x, aw_threads = []\<rparr>"

fun written_value :: "'a ad_event \<Rightarrow> 'a list" where
  "written_value (ESet k v) = [v]"
| "written_value _ = []"

text \<open>The goroutines between the compare-and-swap of the flag and its reset.\<close>

fun is_resizing :: "'a ad_thread \<Rightarrow> bool" where
  "is_resizing ResizeSample = True"
| "is_resizing (ResizeAs c) = True"
| "is_resizing ResizeRelease = True"
| "is_resizing _ = False"

definition resizers :: "'a ad_thread list \<Rightarrow> nat" where
  "resizers ts = sum_list (map (\<lambda>t. if is_resizing t then 1 else 0) ts)"

section \<open>Operations and resizes one after the other\<close>

datatype 'a ad_call = AGet string | ASet string 'a | AResize | ASetThresholds int64 int64 | AMarkClean

fun ad_step :: "hash_fun \<Rightarrow> 'a ad_call \<Rightarrow> 'a AdaptiveSharded \<Rightarrow> 'a AdaptiveSharded outcome" where
  "ad_step H (AGet k) a = bind_outcome (AdaptiveSharded_GetShard H a k) (\<lambda>(v, a'). Ret a')"
| "ad_step H (ASet k v) a = AdaptiveSharded_SetShard H a k v"
| "ad_step H AResize a =
     (if 0 < ad_pending a then maybeResize (a\<lparr>ad_pending := ad_pending a - 1\<rparr>) else Ret a)"
| "ad_step H (ASetThresholds up down) a = Ret (SetResizeThresholds a up down)"
| "ad_step H AMarkClean a = Ret (AdaptiveSharded_MarkClean a)"

fun ad_run :: "hash_fun \<Rightarrow> 'a ad_call list \<Rightarrow> 'a AdaptiveSharded \<Rightarrow> 'a AdaptiveSharded outcome" where
  "ad_run H [] a = Ret a"
| "ad_run H (c # cs) a = bind_outcome (ad_step H c a) (ad_run H cs)"

text \<open>The shape of the state: between the limits, one slot per shard, each with a shard of its own.\<close>

definition ad_sizes :: "'a AdaptiveSharded \<Rightarrow> bool" where
  "ad_sizes a \<longleftrightarrow> 0 < sint (ad_minShards a) \<and> sint (ad_minShards a) \<le> sint (ad_count a) \<and>
     sint (ad_count a) \<le> sint (ad_maxShards a) \<and> length (ad_shards a) = nat (sint (ad_count a)) \<and>
     distinct (ad_shards a) \<and> (\<forall>sh\<in>set (ad_shards a). sh < length (ad_heap a))"

definition ad_inv :: "'a AdaptiveSharded \<Rightarrow> bool" where
  "ad_inv a \<longleftrightarrow> ad_sizes a \<and> \<not> ad_resizing a"

definition ad_place :: "hash_fun \<Rightarrow> 'a AdaptiveSharded \<Rightarrow> string \<Rightarrow> nat" where
  "ad_place H a key = unat (xHash32 H key mod ad_count a)"

lemma track_fields [simp]:
  "ad_heap (trackOperation a) = ad_heap a" "ad_shards (trackOperation a) = ad_shards a" "ad_count (trackOperation a) = ad_count a"
  "ad_version (trackOperation a) = ad_version a" "ad_dirty (trackOperation a) = ad_dirty a"
  "ad_minShards (trackOperation a) = ad_minShards a" "ad_maxShards (trackOperation a) = ad_maxShards a"
  "ad_scaleUpThreshold (trackOperation a) = ad_scaleUpThreshold a"
  "ad_scaleDownThreshold (trackOperation a) = ad_scaleDownThreshold a" "ad_resizing (trackOperation a) = ad_resizing a"
  by (simp_all add: trackOperation_def Let_def)

lemma ad_sizes_track [simp]: "ad_sizes (trackOperation a) = ad_sizes a"
  by (simp add: ad_sizes_def)

lemma ad_inv_track [simp]: "ad_inv (trackOperation a) = ad_inv a"
  by (simp add: ad_inv_def)

lemma sint_max: "sint (w :: 32 word) < 2 ^ 31"
  using sint_lt [of w] by simp

lemma sint_of_int32: "- (2 ^ 31) \<le> n \<Longrightarrow> n < 2 ^ 31 \<Longrightarrow> sint (word_of_int n :: 32 word) = n"
  by (simp add: signed_of_int signed_take_bit_int_eq_self)

lemma uint_of_sint: "0 \<le> sint (w :: 32 word) \<Longrightarrow> uint w = sint w"
  using sint_max [of w] by (simp add: uint_sint take_bit_int_eq_self)

lemma ad_sizes_count:
  assumes "ad_sizes a"
  shows "0 < sint (ad_count a)" and "length (ad_shards a) = nat (sint (ad_count a))" and "0 < length (ad_shards a)"
  using assms by (simp_all add: ad_sizes_def)

lemma place_bound:
  assumes "ad_sizes a"
  shows "load_index H a key = Ret (ad_place H a key)" and "ad_place H a key < length (ad_shards a)"
proof -
  note c = ad_sizes_count [OF assms]
  from c(1) have u: "uint (ad_count a) = sint (ad_count a)" by (simp only: uint_of_sint less_imp_le)
  from c(1) have nz: "ad_count a \<noteq> 0" by auto
  then have "unat (xHash32 H key mod ad_count a) < unat (ad_count a)"
    by (metis word_less_nat_alt word_mod_less_divisor word_neq_0_conv)
  also have "unat (ad_count a) = nat (sint (ad_count a))" using u by (simp only: unat_eq_nat_uint)
  finally show "ad_place H a key < length (ad_shards a)" using c(2) by (simp add: ad_place_def)
  from nz show "load_index H a key = Ret (ad_place H a key)" by (simp add: load_index_def mod32_def ad_place_def)
qed

text \<open>Whatever the index, the lookup finds a shard: the clamp makes up for a resize after the load.\<close>

lemma lookup_ok:
  assumes "ad_sizes a"
  shows "\<exists>sh. adaptive_index a idx = Ret sh \<and> sh < length (ad_heap a)"
proof -
  obtain i where i: "(if idx \<ge> length (ad_shards a) then length (ad_shards a) - 1 else idx) = i" "i < length (ad_shards a)"
    using ad_sizes_count(3) [OF assms] by auto
  moreover from i(2) assms have "ad_shards a ! i < length (ad_heap a)" unfolding ad_sizes_def by (metis nth_mem)
  ultimately show ?thesis by (simp add: adaptive_index_def)
qed

lemma lookup_place:
  assumes "ad_sizes a"
  shows "adaptive_index a (ad_place H a key) = Ret (ad_shards a ! ad_place H a key)"
    and "ad_shards a ! ad_place H a key < length (ad_heap a)"
  using place_bound(2) [OF assms, of H key] assms by (simp_all add: adaptive_index_def ad_sizes_def)

lemma ad_place_cong: "ad_count b = ad_count a \<Longrightarrow> ad_place H b = ad_place H a"
  by (simp add: ad_place_def fun_eq_iff)

lemma ad_place_track [simp]: "ad_place H (trackOperation a) = ad_place H a"
  by (rule ad_place_cong) simp

definition ad_value :: "hash_fun \<Rightarrow> 'a AdaptiveSharded \<Rightarrow> string \<Rightarrow> 'a" where
  "ad_value H a key = shard_load a (ad_shards a ! ad_place H a key)"

lemma ad_get:
  assumes "ad_sizes a"
  shows "AdaptiveSharded_GetShard H a k = Ret (ad_value H a k, trackOperation a)"
  using place_bound(1) [of "trackOperation a" H k] lookup_place(1) [of "trackOperation a" H k] assms
  by (simp add: AdaptiveSharded_GetShard_def ad_value_def shard_load_def Let_def)

lemma store_fields [simp]:
  "ad_shards (shard_store v sh a) = ad_shards a" "ad_count (shard_store v sh a) = ad_count a"
  "length (ad_heap (shard_store v sh a)) = length (ad_heap a)" "ad_sizes (shard_store v sh a) = ad_sizes a"
  "ad_resizing (shard_store v sh a) = ad_resizing a" "ad_version (shard_store v sh a) = ad_version a"
  "ad_minShards (shard_store v sh a) = ad_minShards a" "ad_maxShards (shard_store v sh a) = ad_maxShards a"
  "ad_pending (shard_store v sh a) = ad_pending a"
  by (simp_all add: shard_store_def ad_sizes_def)

lemma counted_fields [simp]:
  "ad_heap (next_version a) = ad_heap a" "ad_heap (set_dirty a) = ad_heap a"
  "ad_shards (next_version a) = ad_shards a" "ad_shards (set_dirty a) = ad_shards a"
  "ad_count (next_version a) = ad_count a" "ad_count (set_dirty a) = ad_count a"
  "ad_sizes (next_version a) = ad_sizes a" "ad_sizes (set_dirty a) = ad_sizes a"
  "ad_resizing (next_version a) = ad_resizing a" "ad_resizing (set_dirty a) = ad_resizing a"
  "ad_version (next_version a) = ad_version a + 1" "ad_version (set_dirty a) = ad_version a"
  "ad_dirty (set_dirty a)"
  "ad_minShards (next_version a) = ad_minShards a" "ad_maxShards (next_version a) = ad_maxShards a"
  "ad_minShards (set_dirty a) = ad_minShards a" "ad_maxShards (set_dirty a) = ad_maxShards a"
  by (simp_all add: next_version_def set_dirty_def ad_sizes_def)

lemma ad_place_written [simp]:
  "ad_place H (shard_store v sh a) = ad_place H a" "ad_place H (next_version a) = ad_place H a"
  "ad_place H (set_dirty a) = ad_place H a"
  by (rule ad_place_cong, simp)+

lemma ad_set:
  assumes "ad_sizes a"
  shows "AdaptiveSharded_SetShard H a k v =
    Ret (set_dirty (next_version (shard_store v (ad_shards a ! ad_place H a k) (trackOperation a))))"
  using place_bound(1) [of "trackOperation a" H k] lookup_place(1) [of "trackOperation a" H k] assms
  by (simp add: AdaptiveSharded_SetShard_def Let_def)

lemma load_after_store:
  "sh < length (ad_heap a) \<Longrightarrow> shard_load (shard_store v sh a) sh' = (if sh' = sh then v else shard_load a sh')"
  by (simp add: shard_load_def shard_store_def nth_list_update)

lemma value_after_set:
  assumes "ad_sizes a"
  shows "ad_value H (set_dirty (next_version (shard_store v (ad_shards a ! ad_place H a k) (trackOperation a)))) k' =
    (if ad_place H a k' = ad_place H a k then v else ad_value H a k')"
proof -
  let ?t = "trackOperation a"
  have d: "ad_shards a ! ad_place H a k' = ad_shards a ! ad_place H a k \<longleftrightarrow> ad_place H a k' = ad_place H a k"
    using assms place_bound(2) [OF assms, of H] by (simp add: ad_sizes_def nth_eq_iff_index_eq)
  have "ad_value H (set_dirty (next_version (shard_store v (ad_shards a ! ad_place H a k) ?t))) k' =
      shard_load (shard_store v (ad_shards a ! ad_place H a k) ?t) (ad_shards a ! ad_place H a k')"
    by (simp add: ad_value_def) (simp add: shard_load_def)
  also have "\<dots> = (if ad_place H a k' = ad_place H a k then v else ad_value H a k')"
    using lookup_place(2) [OF assms, of H k] by (simp add: load_after_store d) (simp add: ad_value_def shard_load_def)
  finally show ?thesis .
qed

lemma ad_clean [simp]:
  "ad_shards (AdaptiveSharded_MarkClean a) = ad_shards a" "ad_inv (AdaptiveSharded_MarkClean a) = ad_inv a"
  "ad_sizes (AdaptiveSharded_MarkClean a) = ad_sizes a" "ad_count (AdaptiveSharded_MarkClean a) = ad_count a"
  "ad_heap (AdaptiveSharded_MarkClean a) = ad_heap a" "ad_resizing (AdaptiveSharded_MarkClean a) = ad_resizing a"
  "ad_minShards (AdaptiveSharded_MarkClean a) = ad_minShards a" "ad_maxShards (AdaptiveSharded_MarkClean a) = ad_maxShards a"
  by (simp_all add: AdaptiveSharded_MarkClean_def ad_inv_def ad_sizes_def)

lemma ad_place_clean [simp]: "ad_place H (AdaptiveSharded_MarkClean a) = ad_place H a"
  by (rule ad_place_cong) simp

interpretation adaptive_sharded: sharded_root
  "\<lambda>a k. bind_outcome (AdaptiveSharded_GetShard H a k) (\<lambda>(v, a'). Ret v)" "AdaptiveSharded_SetShard H" "ad_place H"
  defaultShardKey AdaptiveSharded_Version AdaptiveSharded_IsDirty AdaptiveSharded_MarkClean ad_inv for H
proof unfold_locales
  fix s :: "'a AdaptiveSharded" and k v
  assume "ad_inv s"
  then have s: "ad_sizes s" "\<not> ad_resizing s" by (simp_all add: ad_inv_def)
  define s' where "s' = set_dirty (next_version (shard_store v (ad_shards s ! ad_place H s k) (trackOperation s)))"
  have "AdaptiveSharded_SetShard H s k v = Ret s'" unfolding s'_def by (rule ad_set [OF s(1)])
  moreover have "ad_sizes s'" "ad_inv s'" "ad_place H s' = ad_place H s" using s by (simp_all add: s'_def ad_inv_def)
  moreover have "ad_value H s' k' = (if ad_place H s k' = ad_place H s k then v else ad_value H s k')" for k'
    unfolding s'_def by (rule value_after_set [OF s(1)])
  ultimately show "\<exists>s'. AdaptiveSharded_SetShard H s k v = Ret s' \<and> ad_inv s' \<and> ad_place H s' = ad_place H s \<and>
    (\<forall>k'. bind_outcome (AdaptiveSharded_GetShard H s' k') (\<lambda>(v, a'). Ret v) =
       (if ad_place H s k' = ad_place H s k then Ret v
        else bind_outcome (AdaptiveSharded_GetShard H s k') (\<lambda>(v, a'). Ret v))) \<and>
    AdaptiveSharded_Version s' = AdaptiveSharded_Version s + 1 \<and> AdaptiveSharded_IsDirty s'"
    using s by (auto simp: ad_get AdaptiveSharded_Version_def AdaptiveSharded_IsDirty_def s'_def)
next
  fix s :: "'a AdaptiveSharded"
  assume "ad_inv s"
  then show "ad_inv (AdaptiveSharded_MarkClean s) \<and>
    (\<lambda>k. bind_outcome (AdaptiveSharded_GetShard H (AdaptiveSharded_MarkClean s) k) (\<lambda>(v, a'). Ret v)) =
      (\<lambda>k. bind_outcome (AdaptiveSharded_GetShard H s k) (\<lambda>(v, a'). Ret v)) \<and>
    AdaptiveSharded_Version (AdaptiveSharded_MarkClean s) = AdaptiveSharded_Version s \<and>
    \<not> AdaptiveSharded_IsDirty (AdaptiveSharded_MarkClean s)"
    by (simp add: ad_get ad_value_def shard_load_def ad_inv_def)
      (simp add: AdaptiveSharded_MarkClean_def AdaptiveSharded_Version_def AdaptiveSharded_IsDirty_def)
qed

section \<open>Resizing\<close>

text \<open>The two limits and the thresholds, which no resize touches.\<close>

definition ad_config :: "'a AdaptiveSharded \<Rightarrow> int32 \<times> int32 \<times> int64 \<times> int64 \<times> nat" where
  "ad_config a = (ad_minShards a, ad_maxShards a, ad_scaleUpThreshold a, ad_scaleDownThreshold a, ad_pending a)"

text \<open>What every resize keeps: the shape, the configuration, the flag and the sample; shards are only added to
  the heap, and a new one holds the value of an old one.\<close>

definition resized :: "'a AdaptiveSharded \<Rightarrow> 'a AdaptiveSharded \<Rightarrow> bool" where
  "resized a a' \<longleftrightarrow> ad_sizes a' \<and> ad_config a' = ad_config a \<and> ad_resizing a' = ad_resizing a \<and>
     ad_sampleOps a' = ad_sampleOps a \<and> (\<exists>p k. ad_heap a' = ad_heap a @ replicate k (newShard (sh_value (ad_heap a ! p))) \<and>
     p < length (ad_heap a))"

lemma resized_refl: "ad_sizes a \<Longrightarrow> resized a a"
proof -
  assume a: "ad_sizes a"
  have "ad_shards a ! 0 < length (ad_heap a)" using a ad_sizes_count(3) [OF a] by (simp add: ad_sizes_def)
  then have "\<exists>p k. ad_heap a = ad_heap a @ replicate k (newShard (sh_value (ad_heap a ! p))) \<and> p < length (ad_heap a)"
    by (intro exI [of _ "ad_shards a ! 0"] exI [of _ 0]) simp
  with a show ?thesis by (simp add: resized_def)
qed

lemma scaleUp_ok:
  assumes "ad_sizes a"
  shows "\<exists>a'. scaleUp a = Ret a' \<and> resized a a' \<and>
    sint (ad_count a') = min (2 * sint (ad_count a)) (sint (ad_maxShards a)) \<and>
    map (shard_load a') (ad_shards a') = map (shard_load a) (ad_shards a) @
      replicate (nat (sint (ad_count a') - sint (ad_count a))) (shard_load a (ad_shards a ! 0))"
proof -
  define n where "n = min (2 * sint (ad_count a)) (sint (ad_maxShards a))"
  define k where "k = nat (n - sint (ad_count a))"
  note c = ad_sizes_count [OF assms]
  have n: "sint (ad_count a) \<le> n" "n \<le> sint (ad_maxShards a)" using c(1) assms by (auto simp: n_def ad_sizes_def)
  then have w: "sint (word_of_int n :: 32 word) = n"
    using c(1) sint_max [of "ad_maxShards a"] by (intro sint_of_int32) auto
  have cond: "(if sint (ad_count a) * 2 > sint (ad_maxShards a) then sint (ad_maxShards a) else sint (ad_count a) * 2) = n"
    by (simp add: n_def min_def)
  show ?thesis
  proof (cases "n = sint (ad_count a)")
    case True
    then have "scaleUp a = Ret a" by (simp add: scaleUp_def Let_def cond)
    with True resized_refl [OF assms] show ?thesis by (auto simp: n_def)
  next
    case False
    define a' where "a' = a\<lparr>ad_heap := ad_heap a @ replicate k (newShard (sh_value (ad_heap a ! (ad_shards a ! 0)))),
      ad_shards := ad_shards a @ [length (ad_heap a)..<length (ad_heap a) + k], ad_count := word_of_int n,
      ad_version := ad_version a + 1\<rparr>"
    have f: "ad_shards a ! 0 < length (ad_heap a)" using assms c by (simp add: ad_sizes_def)
    have "take (nat n) (ad_shards a) = ad_shards a" using n(1) c by simp
    moreover have g: "slice_get (ad_shards a) 0 = Ret (ad_shards a ! 0)" using c by (intro slice_get_in) simp
    ultimately have s: "scaleUp a = Ret a'"
      using False n(1) c(1) by (simp add: scaleUp_def Let_def cond a'_def k_def)
    have len: "length (ad_shards a) + k = nat n" using n c by (simp add: k_def nat_diff_distrib)
    have sh: "\<forall>sh\<in>set (ad_shards a). sh < length (ad_heap a)" using assms by (simp add: ad_sizes_def)
    then have sz: "ad_sizes a'" using assms n c w len by (auto simp: ad_sizes_def a'_def)
    have l: "map (shard_load a') (ad_shards a) = map (shard_load a) (ad_shards a)"
      using sh by (auto simp: shard_load_def a'_def nth_append)
    have "map (shard_load a') [length (ad_heap a)..<length (ad_heap a) + k] = replicate k (shard_load a (ad_shards a ! 0))"
      by (rule nth_equalityI) (auto simp: shard_load_def a'_def nth_append newShard_def)
    with l have "map (shard_load a') (ad_shards a') = map (shard_load a) (ad_shards a) @
        replicate (nat (sint (ad_count a') - sint (ad_count a))) (shard_load a (ad_shards a ! 0))"
      using w by (simp add: a'_def k_def)
    moreover have "resized a a'" using sz f by (auto simp: resized_def ad_config_def a'_def)
    ultimately show ?thesis using s w by (auto simp: a'_def n_def)
  qed
qed

lemma scaleDown_ok:
  assumes "ad_sizes a"
  shows "\<exists>a'. scaleDown a = Ret a' \<and> resized a a' \<and>
    sint (ad_count a') = max (sint (ad_count a) div 2) (sint (ad_minShards a)) \<and>
    ad_shards a' = take (nat (sint (ad_count a'))) (ad_shards a)"
proof -
  define n where "n = max (sint (ad_count a) div 2) (sint (ad_minShards a))"
  note c = ad_sizes_count [OF assms]
  have n: "n \<le> sint (ad_count a)" "sint (ad_minShards a) \<le> n" "0 < sint (ad_minShards a)"
    using c assms by (auto simp: n_def ad_sizes_def)
  then have w: "sint (word_of_int n :: 32 word) = n"
    using c sint_max [of "ad_count a"] by (intro sint_of_int32) auto
  have q: "go_quot (sint (ad_count a)) 2 = Ret (sint (ad_count a) div 2)" using c by (intro go_quot_pos) auto
  have cond: "(if sint (ad_count a) div 2 < sint (ad_minShards a) then sint (ad_minShards a) else sint (ad_count a) div 2) = n"
    by (simp add: n_def max_def)
  show ?thesis
  proof (cases "n = sint (ad_count a)")
    case True
    then have "scaleDown a = Ret a" by (simp add: scaleDown_def Let_def q cond)
    with True resized_refl [OF assms] c show ?thesis by (auto simp: n_def)
  next
    case False
    define a' where "a' = a\<lparr>ad_shards := take (nat n) (ad_shards a), ad_count := word_of_int n, ad_version := ad_version a + 1\<rparr>"
    have s: "scaleDown a = Ret a'" using False n c by (simp add: scaleDown_def Let_def q cond a'_def)
    have "ad_sizes a'" using assms n c w by (auto simp: ad_sizes_def a'_def dest: in_set_takeD)
    then have "resized a a'" using resized_refl [OF assms] by (auto simp: resized_def ad_config_def a'_def)
    with s w show ?thesis by (auto simp: a'_def n_def)
  qed
qed

lemma resize_as_ok:
  assumes "ad_sizes a"
  shows "\<exists>a'. resize_as c a = Ret a' \<and> resized a a'"
  using scaleUp_ok [OF assms] scaleDown_ok [OF assms] resized_refl [OF assms] by (cases c) auto

lemma resize_choice_ok:
  assumes "ad_sizes a"
  shows "\<exists>c. resize_choice a = Ret (c, a\<lparr>ad_sampleOps := 0\<rparr>) \<and>
    (let n = sint (ad_count a); r = sint (ad_sampleOps a) in
       0 \<le> r \<and> r div n \<le> sint (ad_scaleUpThreshold a) \<and> (n = sint (ad_minShards a) \<or> sint (ad_scaleDownThreshold a) \<le> r div n) \<longrightarrow>
       c = KeepShards)"
proof -
  define ops where "ops = sgn (sint (ad_sampleOps a)) * sgn (sint (ad_count a)) * (\<bar>sint (ad_sampleOps a)\<bar> div \<bar>sint (ad_count a)\<bar>)"
  have c: "0 < sint (ad_count a)" by (rule ad_sizes_count [OF assms])
  have q: "go_quot (sint (ad_sampleOps a)) (sint (ad_count a)) = Ret ops" using c by (simp add: go_quot_def ops_def)
  have "0 \<le> sint (ad_sampleOps a) \<Longrightarrow> ops = sint (ad_sampleOps a) div sint (ad_count a)"
    using go_quot_pos [of "sint (ad_sampleOps a)" "sint (ad_count a)"] c q by simp
  with q show ?thesis by (auto simp: resize_choice_def Let_def)
qed

lemma maybeResize_ok:
  assumes "ad_inv a"
  shows "\<exists>a'. maybeResize a = Ret a' \<and> ad_inv a' \<and> ad_config a' = ad_config a \<and> ad_sampleOps a' = 0 \<and>
    (let n = sint (ad_count a); r = sint (ad_sampleOps a) in
       0 \<le> r \<and> r div n \<le> sint (ad_scaleUpThreshold a) \<and> (n = sint (ad_minShards a) \<or> sint (ad_scaleDownThreshold a) \<le> r div n) \<longrightarrow>
       ad_count a' = ad_count a \<and> ad_shards a' = ad_shards a)"
proof -
  let ?a1 = "a\<lparr>ad_resizing := True\<rparr>"
  have s: "ad_sizes ?a1" "ad_sizes (?a1\<lparr>ad_sampleOps := 0\<rparr>)" using assms by (simp_all add: ad_inv_def ad_sizes_def)
  from resize_choice_ok [OF s(1)] obtain c where c: "resize_choice ?a1 = Ret (c, ?a1\<lparr>ad_sampleOps := 0\<rparr>)"
    "let n = sint (ad_count a); r = sint (ad_sampleOps a) in
       0 \<le> r \<and> r div n \<le> sint (ad_scaleUpThreshold a) \<and> (n = sint (ad_minShards a) \<or> sint (ad_scaleDownThreshold a) \<le> r div n) \<longrightarrow>
       c = KeepShards"
    by (auto simp: Let_def)
  from resize_as_ok [OF s(2), of c] obtain a3 where a3: "resize_as c (?a1\<lparr>ad_sampleOps := 0\<rparr>) = Ret a3"
    "resized (?a1\<lparr>ad_sampleOps := 0\<rparr>) a3" by blast
  have m: "maybeResize a = Ret (a3\<lparr>ad_resizing := False\<rparr>)"
    using assms c(1) a3(1) by (simp add: maybeResize_def ad_inv_def)
  have "ad_inv (a3\<lparr>ad_resizing := False\<rparr>)" using a3(2) by (simp add: resized_def ad_inv_def ad_sizes_def)
  moreover have "ad_config (a3\<lparr>ad_resizing := False\<rparr>) = ad_config a" "ad_sampleOps a3 = 0"
    using a3(2) by (simp_all add: resized_def ad_config_def)
  moreover have "c = KeepShards \<Longrightarrow> ad_count a3 = ad_count a \<and> ad_shards a3 = ad_shards a" using a3(1) by auto
  ultimately show ?thesis using m c(2) by (auto simp: Let_def)
qed

lemma NewAdaptive_inv:
  assumes "0 < n" and "n * 64 < 2 ^ 31"
  shows "ad_inv (NewAdaptiveSharded n x)" and "sint (ad_minShards (NewAdaptiveSharded n x)) = n"
    and "sint (ad_maxShards (NewAdaptiveSharded n x)) = n * 64" and "sint (ad_count (NewAdaptiveSharded n x)) = n"
  using assms sint_of_int32 [of n] sint_of_int32 [of "n * 64"] by (auto simp: ad_inv_def ad_sizes_def NewAdaptiveSharded_def)

section \<open>The invariant of a run\<close>

fun ad_thread_ok :: "'a set \<Rightarrow> nat \<Rightarrow> 'a ad_thread \<Rightarrow> bool" where
  "ad_thread_ok V m (GetRead sh) = (sh < m)"
| "ad_thread_ok V m (GetDone r) = (r \<in> V)"
| "ad_thread_ok V m (SetTrack k v) = (v \<in> V)"
| "ad_thread_ok V m (SetLoad k v) = (v \<in> V)"
| "ad_thread_ok V m (SetLookup i v) = (v \<in> V)"
| "ad_thread_ok V m (SetStore sh v) = (sh < m \<and> v \<in> V)"
| "ad_thread_ok V m _ = True"

definition ad_heap_ok :: "'a set \<Rightarrow> 'a AdaptiveSharded \<Rightarrow> bool" where
  "ad_heap_ok V a \<longleftrightarrow> (\<forall>sh\<in>set (ad_heap a). sh_value sh \<in> V)"

definition ad_limits :: "'a AdaptiveSharded \<Rightarrow> int32 \<times> int32" where
  "ad_limits a = (ad_minShards a, ad_maxShards a)"

definition ad_world_ok :: "'a set \<Rightarrow> 'a ad_world \<Rightarrow> bool" where
  "ad_world_ok V w \<longleftrightarrow> ad_sizes (aw_root w) \<and> ad_heap_ok V (aw_root w) \<and>
     (\<forall>t\<in>set (aw_threads w). ad_thread_ok V (length (ad_heap (aw_root w))) t) \<and>
     resizers (aw_threads w) = of_bool (ad_resizing (aw_root w))"

lemma ad_thread_ok_mono: "ad_thread_ok V m t \<Longrightarrow> m \<le> m' \<Longrightarrow> V \<subseteq> V' \<Longrightarrow> ad_thread_ok V' m' t"
  by (cases t) auto

lemma ad_world_ok_mono: "ad_world_ok V w \<Longrightarrow> V \<subseteq> V' \<Longrightarrow> ad_world_ok V' w"
  by (auto simp: ad_world_ok_def ad_heap_ok_def intro: ad_thread_ok_mono)

lemma ad_heap_ok_load: "ad_heap_ok V a \<Longrightarrow> sh < length (ad_heap a) \<Longrightarrow> shard_load a sh \<in> V"
  by (simp add: ad_heap_ok_def shard_load_def)

lemma ad_heap_ok_store: "ad_heap_ok V a \<Longrightarrow> v \<in> V \<Longrightarrow> ad_heap_ok V (shard_store v sh a)"
  by (auto simp: ad_heap_ok_def shard_store_def dest!: set_update_subset_insert [THEN subsetD])

lemma resized_ok:
  assumes "resized a a'" and "ad_heap_ok V a"
  shows "ad_sizes a'" "ad_heap_ok V a'" "length (ad_heap a) \<le> length (ad_heap a')" "ad_limits a' = ad_limits a"
    "ad_resizing a' = ad_resizing a"
  using assms by (auto simp: resized_def ad_heap_ok_def ad_limits_def ad_config_def newShard_def)

lemma ad_kept [simp]:
  "ad_heap_ok V (trackOperation a) = ad_heap_ok V a" "ad_heap_ok V (next_version a) = ad_heap_ok V a"
  "ad_heap_ok V (set_dirty a) = ad_heap_ok V a" "ad_heap_ok V (AdaptiveSharded_MarkClean a) = ad_heap_ok V a"
  "ad_limits (trackOperation a) = ad_limits a" "ad_limits (next_version a) = ad_limits a"
  "ad_limits (set_dirty a) = ad_limits a" "ad_limits (AdaptiveSharded_MarkClean a) = ad_limits a"
  "ad_limits (shard_store v sh a) = ad_limits a"
  by (simp_all add: ad_heap_ok_def ad_limits_def)

lemma flag_kept [simp]:
  "ad_sizes (a\<lparr>ad_resizing := b\<rparr>) = ad_sizes a" "ad_heap_ok V (a\<lparr>ad_resizing := b\<rparr>) = ad_heap_ok V a"
  "ad_limits (a\<lparr>ad_resizing := b\<rparr>) = ad_limits a"
  "ad_sizes (a\<lparr>ad_sampleOps := r\<rparr>) = ad_sizes a" "ad_heap_ok V (a\<lparr>ad_sampleOps := r\<rparr>) = ad_heap_ok V a"
  "ad_limits (a\<lparr>ad_sampleOps := r\<rparr>) = ad_limits a"
  "ad_sizes (a\<lparr>ad_pending := p\<rparr>) = ad_sizes a" "ad_heap_ok V (a\<lparr>ad_pending := p\<rparr>) = ad_heap_ok V a"
  "ad_limits (a\<lparr>ad_pending := p\<rparr>) = ad_limits a"
  "ad_sizes (SetResizeThresholds a up down) = ad_sizes a" "ad_heap_ok V (SetResizeThresholds a up down) = ad_heap_ok V a"
  "ad_limits (SetResizeThresholds a up down) = ad_limits a" "ad_heap (SetResizeThresholds a up down) = ad_heap a"
  "ad_resizing (SetResizeThresholds a up down) = ad_resizing a"
  by (simp_all add: ad_sizes_def ad_heap_ok_def ad_limits_def SetResizeThresholds_def)

text \<open>One step of one goroutine neither panics nor breaks the shape, whatever the others did in between.\<close>

definition ad_act_ok :: "'a set \<Rightarrow> 'a ad_thread \<Rightarrow> 'a AdaptiveSharded \<Rightarrow> 'a ad_thread \<Rightarrow> 'a AdaptiveSharded \<Rightarrow> bool" where
  "ad_act_ok V t a t' a' \<longleftrightarrow> ad_sizes a' \<and> ad_heap_ok V a' \<and> ad_thread_ok V (length (ad_heap a')) t' \<and>
     length (ad_heap a) \<le> length (ad_heap a') \<and> ad_limits a' = ad_limits a \<and>
     of_bool (ad_resizing a') + of_bool (is_resizing t) = (of_bool (ad_resizing a) + of_bool (is_resizing t') :: nat)"

lemma ad_act_ok:
  assumes "ad_sizes a" and "ad_heap_ok V a" and "ad_thread_ok V (length (ad_heap a)) t" and "is_resizing t \<longrightarrow> ad_resizing a"
  shows "\<exists>t' a'. ad_act H t a = Ret (t', a') \<and> ad_act_ok V t a t' a'"
proof (cases t)
  case (GetLookup i)
  from lookup_ok [OF assms(1), of i] obtain sh where "adaptive_index a i = Ret sh" "sh < length (ad_heap a)" by blast
  with GetLookup assms show ?thesis by (simp add: ad_act_ok_def)
next
  case (SetLookup i v)
  from lookup_ok [OF assms(1), of i] obtain sh where "adaptive_index a i = Ret sh" "sh < length (ad_heap a)" by blast
  with SetLookup assms show ?thesis by (simp add: ad_act_ok_def)
next
  case (ResizeAs c)
  from resize_as_ok [OF assms(1), of c] obtain a' where a': "resize_as c a = Ret a'" "resized a a'" by blast
  from a'(1) resized_ok [OF a'(2) assms(2)] ResizeAs assms show ?thesis by (simp add: ad_act_ok_def)
next
  case ResizeSample
  from resize_choice_ok [OF assms(1)] obtain c where "resize_choice a = Ret (c, a\<lparr>ad_sampleOps := 0\<rparr>)" by blast
  with ResizeSample assms show ?thesis by (simp add: ad_act_ok_def)
qed (use assms place_bound(1) [OF assms(1)] in \<open>auto simp: ad_act_ok_def ad_heap_ok_load ad_heap_ok_store\<close>)

lemma resizers_simps [simp]:
  "resizers [] = 0" "resizers (ts @ [t]) = resizers ts + of_bool (is_resizing t)"
  by (simp_all add: resizers_def)

lemma resizers_update:
  "i < length ts \<Longrightarrow> resizers (ts[i := t]) + of_bool (is_resizing (ts ! i)) = resizers ts + of_bool (is_resizing t)"
proof (induction ts arbitrary: i)
  case (Cons u us)
  then show ?case by (cases i) (auto simp: resizers_def)
qed simp

lemma resizers_nth: "i < length ts \<Longrightarrow> is_resizing (ts ! i) \<Longrightarrow> 0 < resizers ts"
  using resizers_update [of i ts SetDone] by auto

lemma ad_event_ok:
  assumes "ad_world_ok V w" and "set (written_value e) \<subseteq> V"
  shows "\<exists>w'. ad_event_step H e w = Ret w' \<and> ad_world_ok V w' \<and> ad_limits (aw_root w') = ad_limits (aw_root w)"
proof (cases e)
  case (ERun i)
  show ?thesis
  proof (cases "i < length (aw_threads w)")
    case True
    let ?t = "aw_threads w ! i" and ?a = "aw_root w"
    have "is_resizing ?t \<longrightarrow> ad_resizing ?a"
      using resizers_nth [OF True] assms(1) by (auto simp: ad_world_ok_def of_bool_def split: if_splits)
    with ad_act_ok [of ?a V ?t H] assms(1) True obtain t' a' where
      s: "ad_act H ?t ?a = Ret (t', a')" "ad_act_ok V ?t ?a t' a'" by (auto simp: ad_world_ok_def)
    from s(2) assms(1) have "\<forall>t\<in>set ((aw_threads w)[i := t']). ad_thread_ok V (length (ad_heap a')) t"
      by (auto simp: ad_world_ok_def ad_act_ok_def dest!: set_update_subset_insert [THEN subsetD] intro: ad_thread_ok_mono)
    moreover have "resizers ((aw_threads w)[i := t']) = of_bool (ad_resizing a')"
      using resizers_update [OF True, of t'] s(2) assms(1) unfolding ad_world_ok_def ad_act_ok_def by linarith
    ultimately show ?thesis using s ERun True by (auto simp: ad_world_ok_def ad_act_ok_def)
  next
    case False
    with assms ERun show ?thesis by simp
  qed
qed (use assms in \<open>auto simp: ad_world_ok_def\<close>)

lemma ad_events_ok:
  "ad_world_ok V w \<Longrightarrow> set (concat (map written_value es)) \<subseteq> V \<Longrightarrow>
     \<exists>w'. ad_events H es w = Ret w' \<and> ad_world_ok V w' \<and> ad_limits (aw_root w') = ad_limits (aw_root w)"
proof (induction es arbitrary: w)
  case (Cons e es)
  from ad_event_ok [OF Cons.prems(1), of e H] Cons.prems(2) obtain w1 where
    "ad_event_step H e w = Ret w1" "ad_world_ok V w1" "ad_limits (aw_root w1) = ad_limits (aw_root w)" by auto
  with Cons.IH [of w1] Cons.prems(2) show ?case by auto
qed simp

lemma ad_start_ok:
  assumes "0 < n" and "n * 64 < 2 ^ 31" and "x \<in> V"
  shows "ad_world_ok V (ad_start n x)"
  using NewAdaptive_inv(1) [OF assms(1,2), of x] assms
  by (simp add: ad_world_ok_def ad_start_def ad_inv_def) (simp add: ad_heap_ok_def NewAdaptiveSharded_def newShard_def)

text \<open>
  C40. Reads, writes, threshold changes and background resizes run as goroutines on an \<open>AdaptiveSharded\<close>
  made with \<open>n\<close> shards, \<open>64 n < 2^31\<close>, and their steps interleave in any way: the count may be loaded
  before a resize and the shard looked up, read or written after it. No step panics; at every moment
  the shard count lies between \<open>n\<close> and \<open>64 n\<close> and is the number of the shards, at most one goroutine
  resizes, and every read that has returned gave the initial value or a value some \<open>SetShard\<close> was called
  with. A write and then a read of the same key that nothing interrupts give that value.
\<close>

theorem adaptive_safe:
  assumes "0 < n" and "n * 64 < 2 ^ 31"
  shows "\<exists>w. ad_events H events (ad_start n x) = Ret w \<and>
    n \<le> AdaptiveSharded_GetShardCount (aw_root w) \<and> AdaptiveSharded_GetShardCount (aw_root w) \<le> n * 64 \<and>
    int (length (ad_shards (aw_root w))) = AdaptiveSharded_GetShardCount (aw_root w) \<and>
    resizers (aw_threads w) \<le> 1 \<and>
    (\<forall>r. GetDone r \<in> set (aw_threads w) \<longrightarrow> r = x \<or> r \<in> set (concat (map written_value events))) \<and>
    (\<exists>b. AdaptiveSharded_SetShard H (aw_root w) key v = Ret b \<and>
       bind_outcome (AdaptiveSharded_GetShard H b key) (\<lambda>(r, b'). Ret r) = Ret v)"
proof -
  note N = NewAdaptive_inv [OF assms, of x]
  define V where "V = insert x (set (concat (map written_value events)))"
  have "ad_world_ok V (ad_start n x)" by (rule ad_start_ok [OF assms]) (simp add: V_def)
  from ad_events_ok [OF this, of events H] obtain w where
    w: "ad_events H events (ad_start n x) = Ret w" "ad_world_ok V w" "ad_limits (aw_root w) = ad_limits (NewAdaptiveSharded n x)"
    by (auto simp: V_def ad_start_def)
  from w(2) have a: "ad_sizes (aw_root w)" by (simp add: ad_world_ok_def)
  have "\<exists>b. AdaptiveSharded_SetShard H (aw_root w) key v = Ret b \<and>
       bind_outcome (AdaptiveSharded_GetShard H b key) (\<lambda>(r, b'). Ret r) = Ret v"
    using value_after_set [OF a, where H = H and k = key and v = v and k' = key] a by (simp add: ad_set ad_get)
  moreover have "n \<le> sint (ad_count (aw_root w))" "sint (ad_count (aw_root w)) \<le> n * 64"
    "length (ad_shards (aw_root w)) = nat (sint (ad_count (aw_root w)))"
    using a w(3) N(2,3) by (auto simp: ad_sizes_def ad_limits_def)
  moreover have "resizers (aw_threads w) \<le> 1" using w(2) by (simp add: ad_world_ok_def)
  moreover have "\<forall>r. GetDone r \<in> set (aw_threads w) \<longrightarrow> r = x \<or> r \<in> set (concat (map written_value events))"
    using w(2) by (fastforce simp: ad_world_ok_def V_def)
  ultimately show ?thesis using w(1) assms(1) by (auto simp: AdaptiveSharded_GetShardCount_def)
qed

theorem adaptive_safe_witness:
  "\<exists>w. ad_events (\<lambda>k. of_nat (length k)) [ESet ''b'' 5, EGet ''a'', ERun 0, ERun 1, ERun 0, EThresholds 0 0, ERun 1, ERun 0, ERun 0, ERun 1]
       (ad_start 2 (0::int)) = Ret w \<and> 2 \<le> AdaptiveSharded_GetShardCount (aw_root w)"
proof -
  have "0 < (2::int)" "(2::int) * 64 < 2 ^ 31" by simp_all
  from adaptive_safe [OF this, where x = "0::int"] show ?thesis by blast
qed

text \<open>
  The lookup needs its clamp: a write through a key of the fourth shard loads the count, the shards are
  halved, and the index is out of the bounds of the slice. And the write can be lost: here the shard is
  looked up before the resize drops it, so the write ends without an error and no later read sees it.
\<close>

definition four_shards :: "int ad_world" where
  "four_shards = \<lparr>aw_root = (NewAdaptiveSharded 4 0)\<lparr>ad_minShards := 2, ad_pending := 1\<rparr>, aw_threads = []\<rparr>"

lemma adaptive_lost_write:
  "ad_world_ok {0} four_shards \<and>
   (\<exists>w. ad_events (\<lambda>k. 3) [ESet ''k'' 7, ERun 0, ERun 0, EResize, ERun 1, ERun 1, ERun 1] four_shards = Ret w \<and>
      aw_threads w = [SetLookup 3 7, ResizeRelease] \<and> length (ad_shards (aw_root w)) = 2) \<and>
   (\<exists>w. ad_events (\<lambda>k. 3) [ESet ''k'' 7, ERun 0, ERun 0, ERun 0, EResize, ERun 1, ERun 1, ERun 1, ERun 1, ERun 0, ERun 0, ERun 0]
        four_shards = Ret w \<and> aw_threads w = [SetDone, ResizeDone] \<and> map (shard_load (aw_root w)) (ad_shards (aw_root w)) = [0, 0])"
proof (intro conjI)
  have r: "replicate 4 y = [y, y, y, y]" for y :: "int shard" by (simp add: numeral_eq_Suc)
  have u: "[0..<4] = [0, 1, 2, 3 :: nat]" by (simp add: upt_rec)
  note defs = four_shards_def NewAdaptiveSharded_def Let_def r u
  show "ad_world_ok {0} four_shards"
    by (auto simp: defs ad_world_ok_def ad_sizes_def ad_heap_ok_def newShard_def)
  note run = load_index_def mod32_def xHash32_def trackOperation_def adaptive_index_def resize_choice_def go_quot_def
    scaleDown_def shard_store_def next_version_def set_dirty_def shard_load_def newShard_def
  show "\<exists>w. ad_events (\<lambda>k. 3) [ESet ''k'' 7, ERun 0, ERun 0, EResize, ERun 1, ERun 1, ERun 1] four_shards = Ret w \<and>
      aw_threads w = [SetLookup 3 7, ResizeRelease] \<and> length (ad_shards (aw_root w)) = 2"
    by (simp add: defs run)
  show "\<exists>w. ad_events (\<lambda>k. 3) [ESet ''k'' 7, ERun 0, ERun 0, ERun 0, EResize, ERun 1, ERun 1, ERun 1, ERun 1, ERun 0, ERun 0, ERun 0]
        four_shards = Ret w \<and> aw_threads w = [SetDone, ResizeDone] \<and> map (shard_load (aw_root w)) (ad_shards (aw_root w)) = [0, 0]"
    by (simp add: defs run)
qed

text \<open>
  A resize moves keys without their values: after \<open>scaleUp\<close> a key whose new place is a new shard reads
  the value of shard zero, and any other key reads what the shard at its new place held. The witness
  writes through a key, scales up, and reads the initial value back through that key.
\<close>

theorem adaptive_scale_up_reads:
  assumes "ad_inv a" and "sint (ad_count a) < sint (ad_maxShards a)"
  shows "\<exists>a'. scaleUp a = Ret a' \<and> ad_inv a' \<and>
    bind_outcome (AdaptiveSharded_GetShard H a' key) (\<lambda>(r, b). Ret r) =
      Ret (shard_load a (ad_shards a ! (if ad_place H a' key < length (ad_shards a) then ad_place H a' key else 0)))"
proof -
  have a: "ad_sizes a" "\<not> ad_resizing a" using assms(1) by (simp_all add: ad_inv_def)
  from scaleUp_ok [OF a(1)] obtain a' where a': "scaleUp a = Ret a'" "ad_sizes a'" "\<not> ad_resizing a'"
    "map (shard_load a') (ad_shards a') = map (shard_load a) (ad_shards a) @
      replicate (nat (sint (ad_count a') - sint (ad_count a))) (shard_load a (ad_shards a ! 0))"
    using a(2) by (auto simp: resized_def)
  let ?i = "ad_place H a' key"
  have "?i < length (ad_shards a')" by (rule place_bound(2) [OF a'(2)])
  then have i: "shard_load a' (ad_shards a' ! ?i) = map (shard_load a') (ad_shards a') ! ?i" and
    l: "?i < length (map (shard_load a') (ad_shards a'))" by simp_all
  have "ad_value H a' key = shard_load a (ad_shards a ! (if ?i < length (ad_shards a) then ?i else 0))"
    using l unfolding ad_value_def i a'(4) by (auto simp: nth_append)
  with a' show ?thesis by (auto simp: ad_get ad_inv_def)
qed

theorem adaptive_scale_up_reads_witness:
  "\<exists>a a'. AdaptiveSharded_SetShard (\<lambda>k. if k = ''score'' then 5 else 0) (NewAdaptiveSharded 4 (0::int)) ''score'' 7 = Ret a \<and>
     scaleUp a = Ret a' \<and>
     bind_outcome (AdaptiveSharded_GetShard (\<lambda>k. if k = ''score'' then 5 else 0) a' ''score'') (\<lambda>(r, b). Ret r) = Ret 0"
proof -
  let ?H = "\<lambda>k. if k = ''score'' then 5 else 0 :: 64 word"
  define a where "a = (trackOperation (NewAdaptiveSharded 4 (0::int)))
    \<lparr>ad_heap := [newShard 0, store_shard 7 (newShard 0), newShard 0, newShard 0], ad_version := 2, ad_dirty := True\<rparr>"
  have r: "replicate 4 x = [x, x, x, x]" for x :: "int shard" by (simp add: numeral_eq_Suc)
  have u: "[0..<4] = [0, 1, 2, 3 :: nat]" by (simp add: upt_rec)
  have s: "AdaptiveSharded_SetShard ?H (NewAdaptiveSharded 4 0) ''score'' 7 = Ret a"
    by (simp add: AdaptiveSharded_SetShard_def a_def load_index_def adaptive_index_def mod32_def xHash32_def NewAdaptiveSharded_def
        shard_store_def next_version_def set_dirty_def trackOperation_def Let_def r u)
  have inv: "ad_inv a" "sint (ad_count a) < sint (ad_maxShards a)"
    by (simp_all add: a_def ad_inv_def ad_sizes_def NewAdaptiveSharded_def u)
  from adaptive_scale_up_reads [OF inv, of ?H "''score''"] obtain a' where a': "scaleUp a = Ret a'"
    "bind_outcome (AdaptiveSharded_GetShard ?H a' ''score'') (\<lambda>(r, b). Ret r) =
      Ret (shard_load a (ad_shards a ! (if ad_place ?H a' ''score'' < length (ad_shards a) then ad_place ?H a' ''score'' else 0)))"
    by blast
  moreover have "ad_count a' = 8"
    using a'(1) by (auto simp: a_def scaleUp_def NewAdaptiveSharded_def Let_def)
  then have "ad_place ?H a' ''score'' = 5" by (simp add: ad_place_def xHash32_def)
  ultimately show ?thesis using s by (auto simp: a_def newShard_def shard_load_def NewAdaptiveSharded_def u)
qed

section \<open>Prompt resizes\<close>

lemma sint_of_int64: "- (2 ^ 63) \<le> n \<Longrightarrow> n < 2 ^ 63 \<Longrightarrow> sint (word_of_int n :: 64 word) = n"
  by (simp add: signed_of_int signed_take_bit_int_eq_self)

lemma sint_inc:
  assumes "0 \<le> sint (w :: 64 word)" and "sint w < 1000"
  shows "sint (w + 1) = sint w + 1"
proof -
  have "w + 1 = word_of_int (sint w + 1)" by simp
  then show ?thesis using assms sint_of_int64 [of "sint w + 1"] by simp
qed

definition ad_calm :: "'a AdaptiveSharded \<Rightarrow> bool" where
  "ad_calm a \<longleftrightarrow> ad_inv a \<and> ad_count a = ad_minShards a \<and> ad_pending a = 0 \<and> ad_scaleUpThreshold a = 1000 \<and>
     ad_scaleDownThreshold a = 100 \<and> 0 \<le> sint (ad_sampleOps a) \<and> sint (ad_sampleOps a) < 1000"

lemma calm_track:
  assumes "ad_calm a" and "ad_inv b" and "ad_config b = ad_config (trackOperation a)" and "ad_count b = ad_count a"
    and "ad_sampleOps b = ad_sampleOps a + 1"
  shows "\<exists>c. ad_step H AResize b = Ret c \<and> ad_calm c \<and> ad_count c = ad_count a"
proof -
  have i: "sint (ad_sampleOps a + 1) = sint (ad_sampleOps a) + 1" using assms(1) by (intro sint_inc) (auto simp: ad_calm_def)
  have m: "ad_minShards a = ad_count a" "0 < sint (ad_count a)" using assms(1) by (auto simp: ad_calm_def ad_inv_def ad_sizes_def)
  have u: "ad_minShards b = ad_minShards a" "ad_scaleUpThreshold b = 1000" "ad_scaleDownThreshold b = 100"
    "ad_pending b = (if (sint (ad_sampleOps a) + 1) mod 1000 = 0 then 1 else 0)"
    using assms(1,3) i by (auto simp: ad_config_def ad_calm_def trackOperation_def Let_def split: if_splits)
  show ?thesis
  proof (cases "sint (ad_sampleOps a) + 1 = 1000")
    case True
    let ?b = "b\<lparr>ad_pending := 0\<rparr>"
    have "ad_inv ?b" using assms(2) by (simp add: ad_inv_def)
    from maybeResize_ok [OF this] obtain c where c: "maybeResize ?b = Ret c" "ad_inv c" "ad_config c = ad_config ?b" "ad_sampleOps c = 0"
      "0 \<le> sint (ad_sampleOps b) \<and> sint (ad_sampleOps b) div sint (ad_count b) \<le> sint (ad_scaleUpThreshold b) \<and>
        (sint (ad_count b) = sint (ad_minShards b) \<or> sint (ad_scaleDownThreshold b) \<le> sint (ad_sampleOps b) div sint (ad_count b)) \<longrightarrow>
        ad_count c = ad_count b \<and> ad_shards c = ad_shards b"
      by (auto simp: Let_def)
    have "1000 div sint (ad_count a) \<le> 1000" using zdiv_mono2 [of 1000 1 "sint (ad_count a)"] m(2) by simp
    then have "ad_count c = ad_count b" using c(5) True i assms(4,5) u m by simp
    then have "ad_count c = ad_count a" using assms(4) by simp
    moreover have "ad_calm c" using c u m calculation by (simp add: ad_calm_def ad_config_def)
    moreover have "ad_step H AResize b = Ret c" using c(1) u(4) True by simp
    ultimately show ?thesis by blast
  next
    case False
    have l: "0 < sint (ad_sampleOps a) + 1" "sint (ad_sampleOps a) + 1 < 1000" using False assms(1) by (auto simp: ad_calm_def)
    then have "(sint (ad_sampleOps a) + 1) mod 1000 \<noteq> 0" by simp
    then have "ad_pending b = 0" using u(4) by simp
    moreover have "ad_calm b" using assms(2,4,5) u m i l calculation by (simp add: ad_calm_def)
    ultimately show ?thesis using assms(4) by simp
  qed
qed

fun resizes_not :: "'a ad_call \<Rightarrow> bool" where
  "resizes_not (ASetThresholds up down) = False"
| "resizes_not AResize = False"
| "resizes_not _ = True"

lemma calm_step:
  assumes "ad_calm a" and "resizes_not c"
  shows "\<exists>b d. ad_step H c a = Ret b \<and> ad_step H AResize b = Ret d \<and> ad_calm d \<and> ad_count d = ad_count a"
proof (cases c)
  case (AGet k)
  have "ad_inv a" using assms(1) by (simp add: ad_calm_def)
  then have "ad_step H c a = Ret (trackOperation a)" using AGet by (simp add: ad_get ad_inv_def)
  moreover have "\<exists>d. ad_step H AResize (trackOperation a) = Ret d \<and> ad_calm d \<and> ad_count d = ad_count a"
    using \<open>ad_inv a\<close> by (intro calm_track [OF assms(1)]) (simp_all, simp add: trackOperation_def Let_def)
  ultimately show ?thesis by blast
next
  case (ASet k v)
  have "ad_inv a" using assms(1) by (simp add: ad_calm_def)
  then have t: "ad_inv (trackOperation a)" by simp
  define b where "b = set_dirty (next_version (shard_store v (ad_shards a ! ad_place H a k) (trackOperation a)))"
  have "ad_step H c a = Ret b" using ad_set [of a H k v] t ASet by (simp add: b_def ad_inv_def)
  moreover have "ad_inv b" using t by (simp add: b_def ad_inv_def)
  moreover have "\<exists>d. ad_step H AResize b = Ret d \<and> ad_calm d \<and> ad_count d = ad_count a"
    using calculation by (intro calm_track [OF assms(1)])
      (simp_all add: b_def set_dirty_def next_version_def shard_store_def ad_config_def, simp add: trackOperation_def Let_def)
  ultimately show ?thesis by blast
next
  case AMarkClean
  have "ad_calm (AdaptiveSharded_MarkClean a) = ad_calm a" by (simp add: ad_calm_def) (simp add: AdaptiveSharded_MarkClean_def)
  moreover have "ad_pending (AdaptiveSharded_MarkClean a) = 0" "ad_count (AdaptiveSharded_MarkClean a) = ad_count a"
    using assms(1) by (simp_all add: ad_calm_def AdaptiveSharded_MarkClean_def)
  ultimately show ?thesis using AMarkClean assms(1) by simp
qed (use assms in simp_all)

lemma calm_run:
  "ad_calm a \<Longrightarrow> list_all resizes_not calls \<Longrightarrow>
     \<exists>d. ad_run H (concat (map (\<lambda>c. [c, AResize]) calls)) a = Ret d \<and> ad_calm d \<and> ad_count d = ad_count a"
proof (induction calls arbitrary: a)
  case (Cons c cs)
  from calm_step [OF Cons.prems(1), of c H] Cons.prems(2) obtain b d where
    "ad_step H c a = Ret b" "ad_step H AResize b = Ret d" "ad_calm d" "ad_count d = ad_count a" by auto
  with Cons.IH [of d] Cons.prems(2) show ?case by auto
qed simp

text \<open>
  With the default thresholds an \<open>AdaptiveSharded\<close> does not adapt: if each background resize runs
  before the next operation, no number of reads and writes ever changes the shard count, because the
  sample is reset every thousand operations and the threshold asks for more than a thousand per shard.
\<close>

theorem adaptive_never_scales:
  assumes "0 < n" and "n * 64 < 2 ^ 31" and "list_all resizes_not calls"
  shows "\<exists>a. ad_run H (concat (map (\<lambda>c. [c, AResize]) calls)) (NewAdaptiveSharded n x) = Ret a \<and>
    AdaptiveSharded_GetShardCount a = n"
proof -
  have "ad_calm (NewAdaptiveSharded n x)"
    using NewAdaptive_inv [OF assms(1,2), of x] assms(1) by (simp add: ad_calm_def) (simp add: NewAdaptiveSharded_def)
  from calm_run [OF this assms(3), of H] NewAdaptive_inv(4) [OF assms(1,2), of x] show ?thesis
    by (auto simp: AdaptiveSharded_GetShardCount_def)
qed

theorem adaptive_never_scales_witness:
  "\<exists>a. ad_run (\<lambda>k. 3) (concat (map (\<lambda>c. [c, AResize]) (replicate 100000 (ASet ''k'' (1::int))))) (NewAdaptiveSharded 4 0) = Ret a \<and>
    AdaptiveSharded_GetShardCount a = 4"
  by (rule adaptive_never_scales) (simp_all add: list_all_iff)

end
