(* ===== verification/Npc_Config.thy ===== *)
theory Npc_Config
  imports Npc_Agent
begin

text \<open>
  Trees from configurations: the registry of node factories, \<open>internal/core/npc/registry.go\<close>, the
  factories registered in it by \<open>buildin.go\<close>, and \<open>Config.Build\<close> of \<open>loader.go\<close>, which turns a table of
  named node descriptions into a tree. Decoding a configuration from JSON or YAML is left to those
  libraries; the table they give is the input.
\<close>

section \<open>Node constructors\<close>

definition NewSequence :: "string \<Rightarrow> ('f, unit) node option list \<Rightarrow> ('f, unit) node" where
  "NewSequence name cs = Sequence name cs"

definition NewSelector :: "string \<Rightarrow> ('f, unit) node option list \<Rightarrow> ('f, unit) node" where
  "NewSelector name cs = Selector name cs"

definition NewParallel :: "string \<Rightarrow> ParallelPolicy \<Rightarrow> ('f, unit) node option list \<Rightarrow> ('f, unit) node" where
  "NewParallel name policy cs = Parallel name policy cs"

definition NewRandom :: "string \<Rightarrow> ('f, unit) node option list \<Rightarrow> ('f, unit) node" where
  "NewRandom name cs = Random name cs"

definition NewPriority :: "string \<Rightarrow> ('f, unit) node option list \<Rightarrow> ('f, unit) node" where
  "NewPriority name cs = Priority name cs"

text \<open>\<open>SetChildren\<close> of the composites and \<open>SetChild\<close> of the decorators; the other nodes have neither.\<close>

fun SetChildren :: "('f, unit) node option list \<Rightarrow> ('f, unit) node \<Rightarrow> ('f, unit) node" where
  "SetChildren cs (Sequence n cs') = Sequence n cs"
| "SetChildren cs (Selector n cs') = Selector n cs"
| "SetChildren cs (Parallel n p cs') = Parallel n p cs"
| "SetChildren cs (Random n cs') = Random n cs"
| "SetChildren cs (Priority n cs') = Priority n cs"
| "SetChildren cs n = n"

fun SetChild :: "('f, unit) node option \<Rightarrow> ('f, unit) node \<Rightarrow> ('f, unit) node" where
  "SetChild c (Repeat n k b c') = Repeat n k b c"
| "SetChild c (Timer n d c') = Timer n d c"
| "SetChild c (Probability n p c') = Probability n p c"
| "SetChild c (Inverter n c') = Inverter n c"
| "SetChild c (Succeeder n c') = Succeeder n c"
| "SetChild c (Cooldown n d b c') = Cooldown n d b c"
| "SetChild c (UntilSuccess n k c') = UntilSuccess n k c"
| "SetChild c (UntilFailure n k c') = UntilFailure n k c"
| "SetChild c n = n"

section \<open>The registry\<close>

type_synonym 'f params = "(string \<times> 'f any) list"

record 'f reg =
  r_acts :: "string \<Rightarrow> ('f params \<Rightarrow> go_err + ('f, unit) node) option"
  r_conds :: "string \<Rightarrow> ('f params \<Rightarrow> go_err + ('f, unit) node) option"
  r_decos :: "string \<Rightarrow> ('f params \<Rightarrow> go_err + ('f, unit) node) option"
  r_comps :: "string \<Rightarrow> ('f params \<Rightarrow> go_err + ('f, unit) node) option"
  r_sens :: "string \<Rightarrow> ('f params \<Rightarrow> go_err + ('f, unit) sensor) option"

definition NewRegistry :: "'f reg" where
  "NewRegistry = \<lparr>r_acts = (\<lambda>_. None), r_conds = (\<lambda>_. None), r_decos = (\<lambda>_. None), r_comps = (\<lambda>_. None), r_sens = (\<lambda>_. None)\<rparr>"

definition RegisterAction :: "string \<Rightarrow> ('f params \<Rightarrow> go_err + ('f, unit) node) \<Rightarrow> 'f reg \<Rightarrow> 'f reg" where
  "RegisterAction name factory r = r\<lparr>r_acts := (r_acts r)(name := Some factory)\<rparr>"

definition RegisterCondition :: "string \<Rightarrow> ('f params \<Rightarrow> go_err + ('f, unit) node) \<Rightarrow> 'f reg \<Rightarrow> 'f reg" where
  "RegisterCondition name factory r = r\<lparr>r_conds := (r_conds r)(name := Some factory)\<rparr>"

definition RegisterDecorator :: "string \<Rightarrow> ('f params \<Rightarrow> go_err + ('f, unit) node) \<Rightarrow> 'f reg \<Rightarrow> 'f reg" where
  "RegisterDecorator name factory r = r\<lparr>r_decos := (r_decos r)(name := Some factory)\<rparr>"

definition RegisterComposite :: "string \<Rightarrow> ('f params \<Rightarrow> go_err + ('f, unit) node) \<Rightarrow> 'f reg \<Rightarrow> 'f reg" where
  "RegisterComposite name factory r = r\<lparr>r_comps := (r_comps r)(name := Some factory)\<rparr>"

definition RegisterSensor :: "string \<Rightarrow> ('f params \<Rightarrow> go_err + ('f, unit) sensor) \<Rightarrow> 'f reg \<Rightarrow> 'f reg" where
  "RegisterSensor name factory r = r\<lparr>r_sens := (r_sens r)(name := Some factory)\<rparr>"

definition NewAction :: "'f reg \<Rightarrow> string \<Rightarrow> 'f params \<Rightarrow> go_err + ('f, unit) node" where
  "NewAction r name params = (case r_acts r name of
     None \<Rightarrow> Inl (Err (''unknown action: '' @ name)) | Some f \<Rightarrow> f params)"

definition NewCondition :: "'f reg \<Rightarrow> string \<Rightarrow> 'f params \<Rightarrow> go_err + ('f, unit) node" where
  "NewCondition r name params = (case r_conds r name of
     None \<Rightarrow> Inl (Err (''unknown condition: '' @ name)) | Some f \<Rightarrow> f params)"

definition NewDecorator :: "'f reg \<Rightarrow> string \<Rightarrow> 'f params \<Rightarrow> go_err + ('f, unit) node" where
  "NewDecorator r name params = (case r_decos r name of
     None \<Rightarrow> Inl (Err (''unknown decorator: '' @ name)) | Some f \<Rightarrow> f params)"

definition NewComposite :: "'f reg \<Rightarrow> string \<Rightarrow> 'f params \<Rightarrow> go_err + ('f, unit) node" where
  "NewComposite r name params = (case r_comps r name of
     None \<Rightarrow> Inl (Err (''unknown composite: '' @ name)) | Some f \<Rightarrow> f params)"

definition NewSensor :: "'f reg \<Rightarrow> string \<Rightarrow> 'f params \<Rightarrow> go_err + ('f, unit) sensor" where
  "NewSensor r name params = (case r_sens r name of
     None \<Rightarrow> Inl (Err (''unknown sensor: '' @ name)) | Some f \<Rightarrow> f params)"

section \<open>Built-in nodes\<close>

text \<open>Reading a parameter with a type assertion: the zero value, or a default, when it fails.\<close>

definition p_string :: "'f params \<Rightarrow> string \<Rightarrow> string" where
  "p_string params k = (case map_of params k of Some (AString s) \<Rightarrow> s | _ \<Rightarrow> [])"

definition p_bool :: "bool \<Rightarrow> 'f params \<Rightarrow> string \<Rightarrow> bool" where
  "p_bool d params k = (case map_of params k of Some (ABool b) \<Rightarrow> b | _ \<Rightarrow> d)"

text \<open>An \<open>int\<close>, or a \<open>float64\<close> converted to one.\<close>

definition p_int :: "'f float_ops \<Rightarrow> int64 \<Rightarrow> 'f params \<Rightarrow> string \<Rightarrow> int64" where
  "p_int F d params k = (case map_of params k of
     Some (AInt i) \<Rightarrow> i | Some (AFloat64 x) \<Rightarrow> word_of_int (f_to_int F x) | _ \<Rightarrow> d)"

text \<open>\<open>time.Duration(ms) * time.Millisecond\<close> is an \<open>int64\<close> product.\<close>

definition millis :: "int64 \<Rightarrow> int" where
  "millis ms = sint (ms * 1000000)"

definition quoted :: "string \<Rightarrow> string" where
  "quoted s = CHR 0x27 # s @ [CHR 0x27]"

definition make_IsTrue :: "'f params \<Rightarrow> go_err + ('f, unit) node" where
  "make_IsTrue params = (let key = p_string params ''key'' in
     if key = [] then Inl (Err (''IsTrue requires '' @ quoted ''key''))
     else Inr (ConditionFunc (''IsTrue('' @ key @ '')'')
       (\<lambda>w. Ret ((case w_Get w key of Some (ABool b) \<Rightarrow> b | _ \<Rightarrow> False, None), w))))"

definition make_SetBool :: "'f params \<Rightarrow> go_err + ('f, unit) node" where
  "make_SetBool params = (let key = p_string params ''key''; val = p_bool False params ''value'' in
     if key = [] then Inl (Err (''SetBool requires '' @ quoted ''key''))
     else Inr (ActionFunc (''SetBool('' @ key @ '')'')
       (\<lambda>w. Ret ((StatusSuccess, None), w_Set key (ABool val) w))))"

definition make_Noop :: "'f params \<Rightarrow> go_err + ('f, unit) node" where
  "make_Noop params = Inr (ActionFunc ''Noop'' (\<lambda>w. Ret ((StatusSuccess, None), w)))"

definition make_SetValue :: "'f params \<Rightarrow> go_err + ('f, unit) node" where
  "make_SetValue params = (let key = p_string params ''key'' in
     if key = [] then Inl (Err ''SetValue requires key'')
     else Inr (SetValueAction ''SetValue'' key (case map_of params ''value'' of Some v \<Rightarrow> v | None \<Rightarrow> ANil)))"

definition make_Log :: "'f params \<Rightarrow> go_err + ('f, unit) node" where
  "make_Log params = (let key = p_string params ''key''; msg = p_string params ''msg'' in
     if key = [] then Inl (Err ''log requires key'') else Inr (LogAction ''Log'' key msg))"

definition make_Wait :: "'f float_ops \<Rightarrow> 'f params \<Rightarrow> go_err + ('f, unit) node" where
  "make_Wait F params = Inr (WaitAction ''Wait'' (millis (p_int F 0 params ''ms'')))"

definition make_Repeat :: "'f float_ops \<Rightarrow> 'f params \<Rightarrow> go_err + ('f, unit) node" where
  "make_Repeat F params = Inr (Repeat ''Repeat'' (sint (p_int F 1 params ''times'')) (p_bool False params ''stop_on_failure'') None)"

definition make_Timer :: "'f float_ops \<Rightarrow> 'f params \<Rightarrow> go_err + ('f, unit) node" where
  "make_Timer F params = Inr (Timer ''Timer'' (millis (p_int F 0 params ''ms'')) None)"

definition make_Inverter :: "'f params \<Rightarrow> go_err + ('f, unit) node" where
  "make_Inverter params = Inr (Inverter ''Inverter'' None)"

definition make_Succeeder :: "'f params \<Rightarrow> go_err + ('f, unit) node" where
  "make_Succeeder params = Inr (Succeeder ''Succeeder'' None)"

definition make_Cooldown :: "'f float_ops \<Rightarrow> 'f params \<Rightarrow> go_err + ('f, unit) node" where
  "make_Cooldown F params = Inr (Cooldown ''Cooldown'' (millis (p_int F 0 params ''ms'')) (p_bool True params ''success_only'') None)"

definition make_Probability :: "'f float_ops \<Rightarrow> 'f params \<Rightarrow> go_err + ('f, unit) node" where
  "make_Probability F params =
     (let p = (case map_of params ''p'' of
                 Some (AFloat64 x) \<Rightarrow> x
               | _ \<Rightarrow> (case map_of params ''prob'' of Some (AFloat64 x) \<Rightarrow> x | _ \<Rightarrow> f_of_int F 1))
      in Inr (Probability ''Probability'' p None))"

definition make_UntilSuccess :: "'f float_ops \<Rightarrow> 'f params \<Rightarrow> go_err + ('f, unit) node" where
  "make_UntilSuccess F params = Inr (UntilSuccess ''UntilSuccess'' (sint (p_int F 0 params ''max'')) None)"

definition make_UntilFailure :: "'f float_ops \<Rightarrow> 'f params \<Rightarrow> go_err + ('f, unit) node" where
  "make_UntilFailure F params = Inr (UntilFailure ''UntilFailure'' (sint (p_int F 0 params ''max'')) None)"

definition make_DistanceSensor :: "'f params \<Rightarrow> go_err + ('f, unit) sensor" where
  "make_DistanceSensor params =
     (let srcX = p_string params ''src_x''; srcY = p_string params ''src_y'';
          dstX = p_string params ''dst_x''; dstY = p_string params ''dst_y'';
          srcKey = p_string params ''src''; dstKey = p_string params ''dst''; out = p_string params ''out''
      in if out = [] then Inl (Err (''DistanceSensor requires '' @ quoted ''out''))
         else if (srcKey = [] \<or> dstKey = []) \<and> (srcX = [] \<or> srcY = [] \<or> dstX = [] \<or> dstY = [])
         then Inl (Err ''DistanceSensor requires either src,dst object keys or scalar src_x,src_y,dst_x,dst_y'')
         else if srcKey \<noteq> [] \<and> dstKey \<noteq> [] then Inr (DistanceSensor ''DistanceSensor'' srcKey dstKey srcX srcY dstX dstY out)
         else Inr (DistanceSensor ''DistanceSensor'' [] [] srcX srcY dstX dstY out))"

definition make_InventorySensor :: "'f float_ops \<Rightarrow> 'f params \<Rightarrow> go_err + ('f, unit) sensor" where
  "make_InventorySensor F params =
     (let key = p_string params ''key''; out = p_string params ''out'';
          thr = (case map_of params ''threshold'' of
                   Some (AFloat64 x) \<Rightarrow> x | Some (AInt i) \<Rightarrow> f_of_int F (sint i) | _ \<Rightarrow> f_of_int F 0)
      in if key = [] \<or> out = [] then Inl (Err ''InventorySensor requires key,out'')
         else Inr (InventorySensor ''InventorySensor'' key thr out))"

definition make_TimerSensor :: "'f float_ops \<Rightarrow> 'f params \<Rightarrow> go_err + ('f, unit) sensor" where
  "make_TimerSensor F params =
     (let out = p_string params ''out''; interval = p_int F 1000 params ''interval_ms''
      in if out = [] then Inl (Err ''TimerSensor requires out'')
         else Inr (TimerSensor ''TimerSensor'' interval out))"

definition out_or :: "string \<Rightarrow> 'f params \<Rightarrow> string" where
  "out_or d params = (if p_string params ''out'' = [] then d else p_string params ''out'')"

definition make_SystemResourceSensor :: "'f params \<Rightarrow> go_err + ('f, unit) sensor" where
  "make_SystemResourceSensor params = Inr (SystemResourceSensor ''SystemResourceSensor'' (out_or ''system'' params))"

definition make_NetworkSensor :: "'f params \<Rightarrow> go_err + ('f, unit) sensor" where
  "make_NetworkSensor params = Inr (NetworkSensor ''NetworkSensor'' (out_or ''network'' params))"

definition make_DatabaseSensor :: "'f params \<Rightarrow> go_err + ('f, unit) sensor" where
  "make_DatabaseSensor params = Inr (DatabaseSensor ''DatabaseSensor'' (out_or ''db'' params))"

definition RegisterBuiltins :: "'f float_ops \<Rightarrow> 'f reg \<Rightarrow> 'f reg" where
  "RegisterBuiltins F =
     RegisterSensor ''DatabaseSensor'' make_DatabaseSensor \<circ>
     RegisterSensor ''NetworkSensor'' make_NetworkSensor \<circ>
     RegisterSensor ''SystemResourceSensor'' make_SystemResourceSensor \<circ>
     RegisterSensor ''TimerSensor'' (make_TimerSensor F) \<circ>
     RegisterSensor ''InventorySensor'' (make_InventorySensor F) \<circ>
     RegisterSensor ''DistanceSensor'' make_DistanceSensor \<circ>
     RegisterDecorator ''UntilFailure'' (make_UntilFailure F) \<circ>
     RegisterDecorator ''UntilSuccess'' (make_UntilSuccess F) \<circ>
     RegisterDecorator ''Probability'' (make_Probability F) \<circ>
     RegisterDecorator ''Cooldown'' (make_Cooldown F) \<circ>
     RegisterDecorator ''Succeeder'' make_Succeeder \<circ>
     RegisterDecorator ''Inverter'' make_Inverter \<circ>
     RegisterDecorator ''Timer'' (make_Timer F) \<circ>
     RegisterDecorator ''Repeat'' (make_Repeat F) \<circ>
     RegisterAction ''Wait'' (make_Wait F) \<circ>
     RegisterAction ''Log'' make_Log \<circ>
     RegisterAction ''SetValue'' make_SetValue \<circ>
     RegisterAction ''Noop'' make_Noop \<circ>
     RegisterAction ''SetBool'' make_SetBool \<circ>
     RegisterCondition ''IsTrue'' make_IsTrue"

definition DefaultRegistry :: "'f float_ops \<Rightarrow> 'f reg" where
  "DefaultRegistry F = RegisterBuiltins F NewRegistry"

section \<open>Building a tree\<close>

record 'f ConfigNode =
  cn_Type :: string
  cn_Children :: "string list"
  cn_Child :: string
  cn_Action :: string
  cn_Condition :: string
  cn_Params :: "'f params"

record 'f ConfigSensor =
  cs_Name :: string
  cs_Type :: string
  cs_Params :: "'f params"

record 'f Config =
  cfg_Root :: string
  cfg_Nodes :: "(string \<times> 'f ConfigNode) list"
  cfg_Sensors :: "'f ConfigSensor list"

type_synonym 'f created = "(string \<times> ('f, unit) node) list"

text \<open>The built node and the table of nodes built so far, or the error that ends the build.\<close>

type_synonym 'f built = "(go_err + (('f, unit) node \<times> 'f created)) option"

definition then_build :: "(go_err + 'b) option \<Rightarrow> ('b \<Rightarrow> (go_err + 'c) option) \<Rightarrow> (go_err + 'c) option" where
  "then_build r k = (case r of None \<Rightarrow> None | Some (Inl e) \<Rightarrow> Some (Inl e) | Some (Inr x) \<Rightarrow> k x)"

fun build_children ::
    "(string \<Rightarrow> 'f created \<Rightarrow> 'f built) \<Rightarrow> string list \<Rightarrow> 'f created \<Rightarrow> (go_err + (('f, unit) node option list \<times> 'f created)) option" where
  "build_children build [] created = Some (Inr ([], created))"
| "build_children build (name # names) created =
     then_build (build name created) (\<lambda>(ch, created).
     then_build (build_children build names created) (\<lambda>(chs, created). Some (Inr (Some ch # chs, created))))"

definition parallel_policy :: "'f params \<Rightarrow> ParallelPolicy" where
  "parallel_policy params = (case map_of params ''policy'' of
     Some (AString s) \<Rightarrow> if s = ''one'' \<or> s = ''any'' then ParallelRequireOneSuccess else ParallelRequireAllSuccess
   | _ \<Rightarrow> ParallelRequireAllSuccess)"

definition composite :: "string \<Rightarrow> 'f ConfigNode \<Rightarrow> ('f, unit) node option" where
  "composite name nc =
     (if cn_Type nc \<in> {''Sequence'', ''sequence''} then Some (NewSequence name [])
      else if cn_Type nc \<in> {''Selector'', ''selector''} then Some (NewSelector name [])
      else if cn_Type nc \<in> {''Parallel'', ''parallel''} then Some (NewParallel name (parallel_policy (cn_Params nc)) [])
      else if cn_Type nc \<in> {''Random'', ''random''} then Some (NewRandom name [])
      else if cn_Type nc \<in> {''Priority'', ''priority''} then Some (NewPriority name [])
      else None)"

definition leaf :: "'f reg \<Rightarrow> 'f ConfigNode \<Rightarrow> go_err + ('f, unit) node" where
  "leaf reg nc =
     (if cn_Type nc \<in> {''Action'', ''action''} then NewAction reg (cn_Action nc) (cn_Params nc)
      else if cn_Type nc \<in> {''Condition'', ''condition''} then NewCondition reg (cn_Condition nc) (cn_Params nc)
      else Inl (Err (''unsupported node type: '' @ cn_Type nc)))"

text \<open>
  One call of \<open>buildNode\<close>, its recursive calls being \<open>build\<close>. The five composite cases of the source
  differ in the constructor only.
\<close>

definition build_step :: "'f reg \<Rightarrow> 'f Config \<Rightarrow> (string \<Rightarrow> 'f created \<Rightarrow> 'f built) \<Rightarrow> string \<Rightarrow> 'f created \<Rightarrow> 'f built" where
  "build_step reg cfg build name created =
     (case map_of created name of
        Some n \<Rightarrow> Some (Inr (n, created))
      | None \<Rightarrow>
     (case map_of (cfg_Nodes cfg) name of
        None \<Rightarrow> Some (Inl (Err (''unknown node in config: '' @ name)))
      | Some nc \<Rightarrow>
     (case composite name nc of
        Some node \<Rightarrow>
          then_build (build_children build (cn_Children nc) created) (\<lambda>(cs, created).
            (let n = SetChildren cs node in Some (Inr (n, (name, n) # created))))
      | None \<Rightarrow>
     (if cn_Type nc \<in> {''Decorator'', ''decorator''} then
        (case NewDecorator reg (p_string (cn_Params nc) ''name'') (cn_Params nc) of
           Inl e \<Rightarrow> Some (Inl e)
         | Inr dec \<Rightarrow>
             if cn_Child nc = [] then Some (Inl (Err (''decorator '' @ name @ '' requires child'')))
             else then_build (build (cn_Child nc) created) (\<lambda>(ch, created).
               (let n = SetChild (Some ch) dec in Some (Inr (n, (name, n) # created)))))
      else
        (case leaf reg nc of
           Inl e \<Rightarrow> Some (Inl e)
         | Inr n \<Rightarrow> Some (Inr (n, (name, n) # created)))))))"

text \<open>The fuel bounds the depth of the recursion; \<open>None\<close> is a recursion that goes deeper.\<close>

fun buildNode :: "'f reg \<Rightarrow> 'f Config \<Rightarrow> nat \<Rightarrow> string \<Rightarrow> 'f created \<Rightarrow> 'f built" where
  "buildNode reg cfg 0 name created = None"
| "buildNode reg cfg (Suc fuel) name created = build_step reg cfg (buildNode reg cfg fuel) name created"

fun build_sensors :: "'f reg \<Rightarrow> 'f ConfigSensor list \<Rightarrow> go_err + ('f, unit) sensor list" where
  "build_sensors reg [] = Inr []"
| "build_sensors reg (s # ss) =
     (case NewSensor reg (cs_Type s) (cs_Params s) of
        Inl e \<Rightarrow> Inl (WrapErr (''sensor '' @ cs_Name s) e)
      | Inr sen \<Rightarrow> (case build_sensors reg ss of Inl e \<Rightarrow> Inl e | Inr sens \<Rightarrow> Inr (sen # sens)))"

definition Config_Build :: "'f reg \<Rightarrow> nat \<Rightarrow> 'f Config \<Rightarrow> (go_err + (('f, unit) node option \<times> ('f, unit) sensor list)) option" where
  "Config_Build reg fuel cfg =
     (if cfg_Root cfg = [] then Some (Inr (None, []))
      else then_build (buildNode reg cfg fuel (cfg_Root cfg) []) (\<lambda>(root, created).
        (case build_sensors reg (cfg_Sensors cfg) of
           Inl e \<Rightarrow> Some (Inl e)
         | Inr sensors \<Rightarrow> Some (Inr (Some root, sensors)))))"

text \<open>The decoders of JSON and YAML are parameters: they answer an error or a configuration.\<close>

definition LoadJSON :: "('r \<Rightarrow> go_err + 'f Config) \<Rightarrow> 'r \<Rightarrow> go_err + 'f Config" where
  "LoadJSON decode r = (case decode r of Inl err \<Rightarrow> Inl err | Inr c \<Rightarrow> Inr c)"

definition LoadYAML :: "('r \<Rightarrow> go_err + 'f Config) \<Rightarrow> 'r \<Rightarrow> go_err + 'f Config" where
  "LoadYAML decode r = (case decode r of Inl err \<Rightarrow> Inl err | Inr c \<Rightarrow> Inr c)"

text \<open>\<open>BuildAgentFromConfig\<close>; a nil configuration is \<open>None\<close>.\<close>

definition BuildAgentFromConfig :: "'f reg \<Rightarrow> nat \<Rightarrow> 'f Config option \<Rightarrow> (go_err + ('f, unit) agent) option" where
  "BuildAgentFromConfig reg fuel cfg = (case cfg of
       None \<Rightarrow> Some (Inl (Err ''config is nil''))
     | Some cfg \<Rightarrow> then_build (Config_Build reg fuel cfg) (\<lambda>(tree, sensors).
         Some (Inr \<lparr>ag_root = tree, ag_sensors = sensors\<rparr>)))"

section \<open>Building without a table\<close>

text \<open>What a name stands for: the tree read off the configuration directly, every occurrence anew.\<close>

fun expand_all :: "(string \<Rightarrow> (go_err + ('f, unit) node) option) \<Rightarrow> string list \<Rightarrow> (go_err + ('f, unit) node option list) option" where
  "expand_all ex [] = Some (Inr [])"
| "expand_all ex (name # names) =
     then_build (ex name) (\<lambda>ch. then_build (expand_all ex names) (\<lambda>chs. Some (Inr (Some ch # chs))))"

fun expand :: "'f reg \<Rightarrow> 'f Config \<Rightarrow> nat \<Rightarrow> string \<Rightarrow> (go_err + ('f, unit) node) option" where
  "expand reg cfg 0 name = None"
| "expand reg cfg (Suc fuel) name =
     (case map_of (cfg_Nodes cfg) name of
        None \<Rightarrow> Some (Inl (Err (''unknown node in config: '' @ name)))
      | Some nc \<Rightarrow>
          (case composite name nc of
             Some node \<Rightarrow> then_build (expand_all (expand reg cfg fuel) (cn_Children nc)) (\<lambda>cs. Some (Inr (SetChildren cs node)))
           | None \<Rightarrow>
               if cn_Type nc \<in> {''Decorator'', ''decorator''} then
                 (case NewDecorator reg (p_string (cn_Params nc) ''name'') (cn_Params nc) of
                    Inl e \<Rightarrow> Some (Inl e)
                  | Inr dec \<Rightarrow>
                      if cn_Child nc = [] then Some (Inl (Err (''decorator '' @ name @ '' requires child'')))
                      else then_build (expand reg cfg fuel (cn_Child nc)) (\<lambda>ch. Some (Inr (SetChild (Some ch) dec))))
               else Some (leaf reg nc)))"

text \<open>The names a description refers to, and a ranking that shows there is no cycle.\<close>

definition refs :: "'f ConfigNode \<Rightarrow> string list" where
  "refs nc = (if cn_Type nc \<in> {''Decorator'', ''decorator''} then [cn_Child nc] else cn_Children nc)"

definition ranked :: "(string \<Rightarrow> nat) \<Rightarrow> 'f Config \<Rightarrow> bool" where
  "ranked rank cfg \<longleftrightarrow>
     list_all (\<lambda>(name, nc). list_all (\<lambda>ch. rank ch < rank name) (refs nc)) (cfg_Nodes cfg)"

lemma ranked_refs:
  "ranked rank cfg \<Longrightarrow> map_of (cfg_Nodes cfg) name = Some nc \<Longrightarrow> ch \<in> set (refs nc) \<Longrightarrow> rank ch < rank name"
  by (fastforce simp: ranked_def list_all_iff dest: map_of_SomeD)

lemma composite_refs: "composite name nc = Some node \<Longrightarrow> refs nc = cn_Children nc"
  by (auto simp: composite_def refs_def split: if_splits)

lemma then_build_simps [simp]:
  "then_build None k = None" "then_build (Some (Inl e)) k = Some (Inl e)" "then_build (Some (Inr x)) k = k x"
  by (simp_all add: then_build_def)

text \<open>
  The table agrees with the configuration when every entry is what its name stands for. Fuel above the
  rank of a name is enough for \<open>expand\<close> and does not change it.
\<close>

lemma expand_all_cong:
  "(\<And>ch. ch \<in> set names \<Longrightarrow> ex ch = ex' ch) \<Longrightarrow> expand_all ex names = expand_all ex' names"
  by (induction names) simp_all

lemma expand_fuel:
  assumes "ranked rank cfg"
  shows "rank name < fuel \<Longrightarrow> rank name < fuel' \<Longrightarrow> expand reg cfg fuel name = expand reg cfg fuel' name"
proof (induction fuel arbitrary: name fuel')
  case (Suc fuel)
  then obtain f' where f': "fuel' = Suc f'" by (cases fuel') simp_all
  show ?case
  proof (cases "map_of (cfg_Nodes cfg) name")
    case (Some nc)
    have IH: "expand reg cfg fuel ch = expand reg cfg f' ch" if "ch \<in> set (refs nc)" for ch
      using Suc.IH [of ch f'] ranked_refs [OF assms Some that] Suc.prems f' by simp
    show ?thesis
    proof (cases "composite name nc")
      case None
      then show ?thesis using Some IH f' by (auto simp: refs_def split: sum.split)
    next
      case c: (Some node)
      have "expand_all (expand reg cfg fuel) (cn_Children nc) = expand_all (expand reg cfg f') (cn_Children nc)"
        by (rule expand_all_cong) (use IH composite_refs [OF c] in simp)
      with Some c f' show ?thesis by simp
    qed
  qed (simp add: f')
qed simp

definition agrees :: "'f reg \<Rightarrow> 'f Config \<Rightarrow> (string \<Rightarrow> nat) \<Rightarrow> 'f created \<Rightarrow> bool" where
  "agrees reg cfg rank created \<longleftrightarrow>
     (\<forall>name n. map_of created name = Some n \<longrightarrow> expand reg cfg (Suc (rank name)) name = Some (Inr n))"

text \<open>A build with the table does what \<open>expand\<close> does, and leaves a table that agrees.\<close>

definition follows ::
    "'f reg \<Rightarrow> 'f Config \<Rightarrow> (string \<Rightarrow> nat) \<Rightarrow> (go_err + 'b) option \<Rightarrow> (go_err + ('b \<times> 'f created)) option \<Rightarrow> bool" where
  "follows reg cfg rank e b \<longleftrightarrow> (case e of
       None \<Rightarrow> False
     | Some (Inl err) \<Rightarrow> b = Some (Inl err)
     | Some (Inr x) \<Rightarrow> \<exists>created. b = Some (Inr (x, created)) \<and> agrees reg cfg rank created)"

lemma follows_cases:
  assumes "follows reg cfg rank e b"
  obtains (error) err where "e = Some (Inl err)" "b = Some (Inl err)"
    | (built) x created where "e = Some (Inr x)" "b = Some (Inr (x, created))" "agrees reg cfg rank created"
  using assms by (auto simp: follows_def split: option.splits sum.splits)

lemma follows_children:
  assumes "\<And>ch created. ch \<in> set names \<Longrightarrow> agrees reg cfg rank created \<Longrightarrow> follows reg cfg rank (ex ch) (build ch created)"
    and "agrees reg cfg rank created"
  shows "follows reg cfg rank (expand_all ex names) (build_children build names created)"
  using assms
proof (induction names arbitrary: created)
  case (Cons ch names)
  have "follows reg cfg rank (ex ch) (build ch created)" using Cons.prems by simp
  then show ?case
  proof (cases rule: follows_cases)
    case (built n created')
    have "follows reg cfg rank (expand_all ex names) (build_children build names created')"
      using Cons built by simp
    then show ?thesis by (cases rule: follows_cases) (use built in \<open>simp_all add: follows_def\<close>)
  qed (simp add: follows_def)
qed (simp add: follows_def)

lemma agrees_insert:
  assumes "agrees reg cfg rank created" and "expand reg cfg (Suc (rank name)) name = Some (Inr n)"
  shows "agrees reg cfg rank ((name, n) # created)"
  using assms by (simp add: agrees_def)

text \<open>The last step of a build with children: the node is made and entered in the table.\<close>

lemma follows_enter:
  assumes "follows reg cfg rank e b"
    and "\<And>x. e = Some (Inr x) \<Longrightarrow> expand reg cfg (Suc (rank name)) name = Some (Inr (f x))"
  shows "follows reg cfg rank (then_build e (\<lambda>x. Some (Inr (f x))))
    (then_build b (\<lambda>(x, created). let n = f x in Some (Inr (n, (name, n) # created))))"
  using assms(1)
  by (cases rule: follows_cases) (use assms(2) agrees_insert in \<open>auto simp: follows_def Let_def\<close>)

lemma build_step_follows:
  assumes IH: "\<And>ch created. ch \<in> set (refs nc) \<Longrightarrow> agrees reg cfg rank created \<Longrightarrow>
      follows reg cfg rank (expand reg cfg fuel ch) (build ch created)"
    and nc: "map_of (cfg_Nodes cfg) name = Some nc" and new: "map_of created name = None"
    and same: "expand reg cfg (Suc (rank name)) name = expand reg cfg (Suc fuel) name"
    and agr: "agrees reg cfg rank created"
  shows "follows reg cfg rank (expand reg cfg (Suc fuel) name) (build_step reg cfg build name created)"
proof (cases "composite name nc")
  case c: (Some node)
  have kids: "follows reg cfg rank (expand_all (expand reg cfg fuel) (cn_Children nc))
      (build_children build (cn_Children nc) created)"
    by (rule follows_children) (use IH composite_refs [OF c] agr in auto)
  from follows_enter [OF kids, where name = name and f = "\<lambda>cs. SetChildren cs node"] same new nc c
  show ?thesis by (simp add: build_step_def)
next
  case None
  show ?thesis
  proof (cases "cn_Type nc \<in> {''Decorator'', ''decorator''}")
    case dec: True
    show ?thesis
    proof (cases "NewDecorator reg (p_string (cn_Params nc) ''name'') (cn_Params nc)")
      case (Inl e)
      with None dec nc new show ?thesis by (auto simp: build_step_def follows_def)
    next
      case (Inr d)
      have kid: "follows reg cfg rank (expand reg cfg fuel (cn_Child nc)) (build (cn_Child nc) created)"
        by (rule IH) (use dec agr in \<open>auto simp: refs_def\<close>)
      from follows_enter [OF kid, where name = name and f = "\<lambda>ch. SetChild (Some ch) d"] same new nc None dec Inr
      show ?thesis by (cases "cn_Child nc = []") (auto simp: build_step_def follows_def)
    qed
  next
    case False
    then have e: "expand reg cfg (Suc fuel) name = Some (leaf reg nc)" using None nc by simp
    with same have "leaf reg nc = Inr n \<Longrightarrow> agrees reg cfg rank ((name, n) # created)" for n
      using agrees_insert [OF agr] by metis
    with e False None nc new show ?thesis
      by (cases "leaf reg nc") (auto simp: build_step_def follows_def)
  qed
qed

lemma buildNode_follows:
  assumes "ranked rank cfg"
  shows "rank name < fuel \<Longrightarrow> agrees reg cfg rank created \<Longrightarrow>
    follows reg cfg rank (expand reg cfg fuel name) (buildNode reg cfg fuel name created)"
proof (induction fuel arbitrary: name created)
  case (Suc fuel)
  have same: "expand reg cfg (Suc (rank name)) name = expand reg cfg (Suc fuel) name"
    by (rule expand_fuel [OF assms]) (use Suc.prems in simp_all)
  show ?case
  proof (cases "map_of created name")
    case (Some n)
    with Suc.prems(2) same have "expand reg cfg (Suc fuel) name = Some (Inr n)" by (simp add: agrees_def)
    with Some Suc.prems(2) show ?thesis by (simp add: follows_def build_step_def del: expand.simps)
  next
    case new: None
    show ?thesis
    proof (cases "map_of (cfg_Nodes cfg) name")
      case (Some nc)
      have "follows reg cfg rank (expand reg cfg fuel ch) (buildNode reg cfg fuel ch created')"
        if "ch \<in> set (refs nc)" "agrees reg cfg rank created'" for ch created'
        using Suc.IH [OF _ that(2)] ranked_refs [OF assms Some that(1)] Suc.prems(1) by simp
      from build_step_follows [OF this Some new same Suc.prems(2)] show ?thesis by simp
    qed (use new in \<open>simp add: follows_def build_step_def\<close>)
  qed
qed simp

text \<open>
  C8. \<open>buildNode\<close> with its table of nodes already built. If the references of the configuration have no
  cycle, it returns, within fuel above the depth of the name, what the configuration says: the tree
  with every occurrence of a name expanded, or the first error of that expansion.
\<close>

theorem build_is_expansion:
  assumes "ranked rank cfg" and "rank name < fuel"
  shows "(case expand reg cfg fuel name of
      None \<Rightarrow> False
    | Some (Inl err) \<Rightarrow> buildNode reg cfg fuel name [] = Some (Inl err)
    | Some (Inr n) \<Rightarrow> \<exists>created. buildNode reg cfg fuel name [] = Some (Inr (n, created)))"
proof -
  have "agrees reg cfg rank []" by (simp add: agrees_def)
  from buildNode_follows [OF assms this] show ?thesis
    by (cases rule: follows_cases) auto
qed

text \<open>
  A cycle of references is not noticed: if every name of a set has a description whose first
  reference is in the set again, and whose decorator, if it is one, is registered, the recursion from
  any of its names never ends.
\<close>

theorem build_cycle:
  assumes "\<And>name. name \<in> S \<Longrightarrow> \<exists>nc ch. map_of (cfg_Nodes cfg) name = Some nc \<and> refs nc \<noteq> [] \<and> hd (refs nc) \<in> S \<and>
      hd (refs nc) \<noteq> [] \<and> (composite name nc \<noteq> None \<or> cn_Type nc \<in> {''Decorator'', ''decorator''} \<and>
        NewDecorator reg (p_string (cn_Params nc) ''name'') (cn_Params nc) = Inr ch)"
    and "name \<in> S"
  shows "buildNode reg cfg fuel name [] = None"
  using assms(2)
proof (induction fuel arbitrary: name)
  case (Suc fuel)
  from assms(1) [OF Suc.prems] obtain nc ch where nc: "map_of (cfg_Nodes cfg) name = Some nc" "refs nc \<noteq> []"
    "hd (refs nc) \<in> S" "hd (refs nc) \<noteq> []" "composite name nc \<noteq> None \<or> cn_Type nc \<in> {''Decorator'', ''decorator''} \<and>
        NewDecorator reg (p_string (cn_Params nc) ''name'') (cn_Params nc) = Inr ch" by blast
  have deeper: "buildNode reg cfg fuel (hd (refs nc)) [] = None" using Suc.IH nc(3) .
  show ?case
  proof (cases "composite name nc")
    case (Some node)
    have "refs nc = cn_Children nc" using composite_refs [OF Some] .
    with nc(2) obtain ns where "cn_Children nc = hd (refs nc) # ns" by (cases "cn_Children nc") auto
    with nc(1) Some deeper show ?thesis by (simp add: build_step_def)
  next
    case None
    with nc deeper show ?thesis by (auto simp: build_step_def refs_def)
  qed
qed simp

section \<open>Concrete configurations\<close>

definition config_node :: "string \<Rightarrow> 'f ConfigNode" where
  "config_node t = \<lparr>cn_Type = t, cn_Children = [], cn_Child = [], cn_Action = [], cn_Condition = [], cn_Params = []\<rparr>"

definition wait_node :: "'f params \<Rightarrow> 'f ConfigNode" where
  "wait_node params = (config_node ''Action'')\<lparr>cn_Action := ''Wait'', cn_Params := params\<rparr>"

text \<open>A sequence of two waits with any parameters.\<close>

definition waits_config :: "'f params \<Rightarrow> 'f params \<Rightarrow> 'f Config" where
  "waits_config pa pb = \<lparr>cfg_Root = ''root'',
     cfg_Nodes = [(''root'', (config_node ''Sequence'')\<lparr>cn_Children := [''a'', ''b'']\<rparr>), (''a'', wait_node pa), (''b'', wait_node pb)],
     cfg_Sensors = []\<rparr>"

definition cyclic_config :: "int Config" where
  "cyclic_config = \<lparr>cfg_Root = ''a'',
     cfg_Nodes = [(''a'', (config_node ''sequence'')\<lparr>cn_Children := [''b'']\<rparr>),
       (''b'', (config_node ''decorator'')\<lparr>cn_Child := ''a'', cn_Params := [(''name'', AString ''Inverter'')]\<rparr>)],
     cfg_Sensors = []\<rparr>"

lemma default_actions:
  "NewAction (DefaultRegistry F) ''Wait'' params = make_Wait F params"
  "NewDecorator (DefaultRegistry F) ''Inverter'' params = make_Inverter params"
  by (simp_all add: NewAction_def NewDecorator_def DefaultRegistry_def RegisterBuiltins_def NewRegistry_def
      RegisterAction_def RegisterCondition_def RegisterDecorator_def RegisterSensor_def)

lemmas config_simps = config_node_def wait_node_def waits_config_def composite_def leaf_def NewSequence_def default_actions
  make_Wait_def build_step_def Let_def

theorem build_is_expansion_witness:
  "\<exists>n created. buildNode (DefaultRegistry int_ops) (waits_config [(''ms'', AInt 5)] []) 2 ''root'' [] = Some (Inr (n, created))"
proof -
  let ?cfg = "waits_config [(''ms'', AInt 5)] [] :: int Config" and ?rank = "\<lambda>name. if name = ''root'' then 1 else (0 :: nat)"
  have "ranked ?rank ?cfg" by (simp add: ranked_def refs_def config_simps)
  from build_is_expansion [OF this, of "''root''" 2 "DefaultRegistry int_ops"] show ?thesis
    by (simp add: numeral_2_eq_2 config_simps)
qed

theorem build_cycle_witness:
  "buildNode (DefaultRegistry int_ops) cyclic_config 100 ''a'' [] = None"
proof (rule build_cycle)
  show "\<exists>nc ch. map_of (cfg_Nodes cyclic_config) name = Some nc \<and> refs nc \<noteq> [] \<and> hd (refs nc) \<in> {''a'', ''b''} \<and>
      hd (refs nc) \<noteq> [] \<and> (composite name nc \<noteq> None \<or> cn_Type nc \<in> {''Decorator'', ''decorator''} \<and>
        NewDecorator (DefaultRegistry int_ops) (p_string (cn_Params nc) ''name'') (cn_Params nc) = Inr ch)"
    if "name \<in> {''a'', ''b''}" for name
    using that by (auto simp: cyclic_config_def config_simps refs_def p_string_def make_Inverter_def)
qed simp

text \<open>
  A sequence of two waits, configured with the built-in \<open>Wait\<close> action and any parameters, builds, and
  then never succeeds: the factory gives every wait the same name, so the two share one entry of the
  blackboard, and every tick, in any world, returns Running.
\<close>

theorem configured_waits_never_finish:
  "\<exists>root. Config_Build (DefaultRegistry F) 2 (waits_config pa pb) = Some (Inr (Some root, [])) \<and>
     (\<forall>fuel w. \<exists>w'. tick F fuel root w = Some (Ret ((StatusRunning, None), w')))"
proof -
  let ?root = "Sequence ''root'' [Some (WaitAction ''Wait'' (millis (p_int F 0 pa ''ms''))),
    Some (WaitAction ''Wait'' (millis (p_int F 0 pb ''ms'')))]"
  have "Config_Build (DefaultRegistry F) 2 (waits_config pa pb) = Some (Inr (Some ?root, []))"
    by (simp add: Config_Build_def numeral_2_eq_2 config_simps)
  moreover have "\<forall>fuel w. \<exists>w'. tick F fuel ?root w = Some (Ret ((StatusRunning, None), w'))"
    using same_name_waits by blast
  ultimately show ?thesis by blast
qed

end
