(* ===== verification/Event_Bus.thy ===== *)
theory Event_Bus
  imports Npc_Blackboard
begin

text \<open>
  The event bus, \<open>internal/core/events/bus/eventbus.go\<close>. Subscriptions are objects shared between the bus
  and its clients: the bus keeps their identities per topic and event type, and a list, indexed by
  identity, holds the objects. Handlers may call the bus again, publishing included; the depth of such
  nested calls is bounded by fuel, which \<open>bus_lists_active\<close> shows to suffice for handlers that only publish
  events of a lower rank, and no result to depend on. A map iterates in no particular order: the order in which the
  subscriptions of a delivery come is given by a function. The calls the bus makes to handlers and
  observers, and cancellations, are kept in a log.
\<close>

section \<open>State\<close>

record Event =
  ev_Type :: string
  ev_Source :: string
  ev_Timestamp :: int
  ev_Data :: nat
  ev_Priority :: int
  ev_Metadata :: "(string \<times> nat) list"

definition NewEvent :: "int \<Rightarrow> string \<Rightarrow> string \<Rightarrow> nat \<Rightarrow> int \<Rightarrow> (string \<times> nat) list \<Rightarrow> Event" where
  "NewEvent now typ src d priority metadata =
     \<lparr>ev_Type = typ, ev_Source = src, ev_Timestamp = now, ev_Data = d, ev_Priority = priority, ev_Metadata = metadata\<rparr>"

text \<open>The topic is what the closure \<open>cancel\<close> remembers; the handler is known by the identity.\<close>

record subscription =
  sub_topic :: string
  sub_eventType :: string
  sub_active :: bool

record EventBusMetrics =
  Published :: uint64
  DeliveredHandlers :: uint64
  Errors :: uint64
  DroppedByFilters :: uint64
  SubscribersActive :: uint64
  Topics :: uint64

datatype bus_log = OnPublish nat string string Event | Handled nat Event | Cancelled nat
  | OnDelivered nat string string nat "go_err option"

type_synonym handlers = "(string \<times> (string \<times> nat list) list) list"

record inMemoryBus =
  b_subs :: "subscription list"
  b_handlers :: handlers
  b_topics :: "string list"
  b_metrics :: EventBusMetrics
  b_observers :: "nat list"
  b_log :: "bus_log list"

definition zero_metrics :: EventBusMetrics where
  "zero_metrics = \<lparr>Published = 0, DeliveredHandlers = 0, Errors = 0, DroppedByFilters = 0, SubscribersActive = 0, Topics = 0\<rparr>"

definition New :: inMemoryBus where
  "New = \<lparr>b_subs = [], b_handlers = [], b_topics = [], b_metrics = zero_metrics, b_observers = [], b_log = []\<rparr>"

section \<open>Topics and subscriptions\<close>

definition set_add :: "'a \<Rightarrow> 'a list \<Rightarrow> 'a list" where
  "set_add x xs = (if x \<in> set xs then xs else xs @ [x])"

definition topic_handlers :: "handlers \<Rightarrow> string \<Rightarrow> (string \<times> nat list) list" where
  "topic_handlers hs topic = (case map_of hs topic of None \<Rightarrow> [] | Some m \<Rightarrow> m)"

definition type_handlers :: "handlers \<Rightarrow> string \<Rightarrow> string \<Rightarrow> nat list" where
  "type_handlers hs topic etype = (case map_of (topic_handlers hs topic) etype of None \<Rightarrow> [] | Some ids \<Rightarrow> ids)"

definition make_topic :: "string \<Rightarrow> handlers \<Rightarrow> handlers" where
  "make_topic topic hs = (if map_of hs topic = None then AList.update topic [] hs else hs)"

definition ensureTopicLocked :: "string \<Rightarrow> inMemoryBus \<Rightarrow> inMemoryBus" where
  "ensureTopicLocked topic b = b\<lparr>b_topics := set_add topic (b_topics b), b_handlers := make_topic topic (b_handlers b)\<rparr>"

definition put_ids :: "string \<Rightarrow> string \<Rightarrow> nat list \<Rightarrow> handlers \<Rightarrow> handlers" where
  "put_ids topic etype ids hs = AList.update topic (AList.update etype ids (topic_handlers hs topic)) hs"

text \<open>The identities, unique strings in the source, are the positions in the list of subscriptions.\<close>

definition SubscribeTopic :: "string \<Rightarrow> string \<Rightarrow> inMemoryBus \<Rightarrow> nat \<times> inMemoryBus" where
  "SubscribeTopic topic eventType b =
     (let b = ensureTopicLocked topic b;
          sid = length (b_subs b);
          s = \<lparr>sub_topic = topic, sub_eventType = eventType, sub_active = True\<rparr>
      in (sid, b\<lparr>b_subs := b_subs b @ [s],
                 b_handlers := put_ids topic eventType (type_handlers (b_handlers b) topic eventType @ [sid]) (b_handlers b)\<rparr>))"

definition Subscribe :: "string \<Rightarrow> inMemoryBus \<Rightarrow> nat \<times> inMemoryBus" where
  "Subscribe eventType b = SubscribeTopic [] eventType b"

text \<open>\<open>subscription.Cancel\<close> with the closure it calls.\<close>

definition Cancel :: "nat \<Rightarrow> inMemoryBus \<Rightarrow> inMemoryBus" where
  "Cancel sid b =
     (if sid < length (b_subs b) then
        (let s = b_subs b ! sid; hs = b_handlers b;
             hs' = (if map_of (topic_handlers hs (sub_topic s)) (sub_eventType s) = None then hs
                    else put_ids (sub_topic s) (sub_eventType s)
                      (removeAll sid (type_handlers hs (sub_topic s) (sub_eventType s))) hs)
         in b\<lparr>b_subs := (b_subs b)[sid := s\<lparr>sub_active := False\<rparr>], b_handlers := hs', b_log := b_log b @ [Cancelled sid]\<rparr>)
      else b)"

text \<open>A nil subscription is \<open>None\<close>.\<close>

definition Unsubscribe :: "nat option \<Rightarrow> inMemoryBus \<Rightarrow> inMemoryBus" where
  "Unsubscribe sub b = (case sub of None \<Rightarrow> b | Some sid \<Rightarrow> Cancel sid b)"

definition CreateTopic :: "string \<Rightarrow> inMemoryBus \<Rightarrow> inMemoryBus" where
  "CreateTopic name b =
     (if name \<in> set (b_topics b) then b
      else b\<lparr>b_topics := b_topics b @ [name], b_handlers := make_topic name (b_handlers b)\<rparr>)"

definition AddObserver :: "nat \<Rightarrow> inMemoryBus \<Rightarrow> inMemoryBus" where
  "AddObserver obs b = b\<lparr>b_observers := set_add obs (b_observers b)\<rparr>"

definition RemoveObserver :: "nat \<Rightarrow> inMemoryBus \<Rightarrow> inMemoryBus" where
  "RemoveObserver obs b = b\<lparr>b_observers := removeAll obs (b_observers b)\<rparr>"

definition GetMetrics :: "inMemoryBus \<Rightarrow> EventBusMetrics" where
  "GetMetrics b = b_metrics b"

definition count_ids :: "(string \<times> nat list) list \<Rightarrow> nat" where
  "count_ids m = sum_list (map (\<lambda>e. length (snd e)) m)"

definition GetTopics :: "inMemoryBus \<Rightarrow> (string \<times> nat \<times> nat) list" where
  "GetTopics b = map (\<lambda>name. (name, length (topic_handlers (b_handlers b) name), count_ids (topic_handlers (b_handlers b) name))) (b_topics b)"

definition SaveState :: "inMemoryBus \<Rightarrow> string list" where
  "SaveState b = b_topics b"

definition LoadState :: "string list \<Rightarrow> inMemoryBus \<Rightarrow> inMemoryBus" where
  "LoadState names b = fold ensureTopicLocked names b"

section \<open>Delivery\<close>

definition join_errs :: "go_err option \<Rightarrow> go_err option \<Rightarrow> go_err option" where
  "join_errs all err = (case err of
       None \<Rightarrow> all
     | Some e \<Rightarrow> (case all of None \<Rightarrow> Some e | Some a \<Rightarrow> Some (JoinErr a e)))"

text \<open>The loop over the snapshot; \<open>call\<close> runs a handler, which may change the bus.\<close>

fun call_all ::
    "(nat \<Rightarrow> Event \<Rightarrow> inMemoryBus \<Rightarrow> (go_err option \<times> inMemoryBus) option) \<Rightarrow> Event \<Rightarrow> nat list \<Rightarrow> go_err option \<Rightarrow>
     inMemoryBus \<Rightarrow> (go_err option \<times> inMemoryBus) option" where
  "call_all call e [] all b = Some (all, b)"
| "call_all call e (sid # sids) all b =
     (if \<not> sub_active (b_subs b ! sid) then call_all call e sids all b
      else (case call sid e (b\<lparr>b_log := b_log b @ [Handled sid e]\<rparr>) of
              None \<Rightarrow> None
            | Some (err, b) \<Rightarrow> call_all call e sids (join_errs all err) b))"

definition subs_count :: "inMemoryBus \<Rightarrow> nat" where
  "subs_count b = sum_list (map (\<lambda>t. count_ids (snd t)) (b_handlers b))"

definition update_metrics :: "nat \<Rightarrow> go_err option \<Rightarrow> inMemoryBus \<Rightarrow> inMemoryBus" where
  "update_metrics n all b =
     b\<lparr>b_metrics := (b_metrics b)\<lparr>Published := Published (b_metrics b) + 1,
         DeliveredHandlers := DeliveredHandlers (b_metrics b) + of_nat n,
         Errors := (if all \<noteq> None then Errors (b_metrics b) + 1 else Errors (b_metrics b)),
         Topics := of_nat (length (b_topics b)),
         SubscribersActive := of_nat (subs_count b)\<rparr>\<rparr>"

definition deliver ::
    "(nat list \<Rightarrow> nat list) \<Rightarrow> (nat \<Rightarrow> Event \<Rightarrow> inMemoryBus \<Rightarrow> (go_err option \<times> inMemoryBus) option) \<Rightarrow> string \<Rightarrow> Event \<Rightarrow>
     inMemoryBus \<Rightarrow> (go_err option \<times> inMemoryBus) option" where
  "deliver order call topic event b =
     (let etype = ev_Type event;
          subs = order (type_handlers (b_handlers b) topic etype);
          observers = order (b_observers b);
          b = b\<lparr>b_log := b_log b @ map (\<lambda>obs. OnPublish obs topic etype event) observers\<rparr>
      in case call_all call event subs None b of
           None \<Rightarrow> None
         | Some (all, b) \<Rightarrow>
             Some (all,
               if observers = [] then b
               else update_metrics (length subs) all
                 (b\<lparr>b_log := b_log b @ map (\<lambda>obs. OnDelivered obs topic etype (length subs) all) observers\<rparr>)))"

section \<open>Calls\<close>

text \<open>What a client, or a handler, may call. A filter is a predicate on events.\<close>

datatype bus_call = CSubscribe string string | CCancel nat | CUnsubscribe "nat option" | CCreateTopic string
  | CAddObserver nat | CRemoveObserver nat | CLoadState "string list"
  | CPublish string Event | CPublishWithFilters Event "(Event \<Rightarrow> bool) list" | CPublishBatch "Event list"

text \<open>
  A handler of the user: the calls it makes on the bus, and the error it returns, which may depend on
  what it sees. The results of its own calls only matter through the bus.
\<close>

type_synonym user_handlers = "nat \<Rightarrow> Event \<Rightarrow> inMemoryBus \<Rightarrow> bus_call list \<times> go_err option"

definition PublishWithFilters ::
    "(Event \<Rightarrow> inMemoryBus \<Rightarrow> (go_err option \<times> inMemoryBus) option) \<Rightarrow> Event \<Rightarrow> (Event \<Rightarrow> bool) list \<Rightarrow> inMemoryBus \<Rightarrow>
     (go_err option \<times> inMemoryBus) option" where
  "PublishWithFilters publish event filters b =
     (if list_all (\<lambda>f. f event) filters then publish event b
      else Some (None,
        if b_observers b = [] then b
        else b\<lparr>b_metrics := (b_metrics b)\<lparr>DroppedByFilters := DroppedByFilters (b_metrics b) + 1\<rparr>\<rparr>))"

fun PublishBatch ::
    "(Event \<Rightarrow> inMemoryBus \<Rightarrow> (go_err option \<times> inMemoryBus) option) \<Rightarrow> Event list \<Rightarrow> go_err option \<Rightarrow> inMemoryBus \<Rightarrow>
     (go_err option \<times> inMemoryBus) option" where
  "PublishBatch publish [] all b = Some (all, b)"
| "PublishBatch publish (e # es) all b =
     (case publish e b of
        None \<Rightarrow> None
      | Some (err, b) \<Rightarrow> PublishBatch publish es (join_errs all err) b)"

text \<open>
  What the goroutine of \<open>PublishAsync\<close> does when it comes to run: it publishes, and its channel of capacity one then
  holds the error and is closed.
\<close>

definition PublishAsync ::
    "(Event \<Rightarrow> inMemoryBus \<Rightarrow> (go_err option \<times> inMemoryBus) option) \<Rightarrow> Event \<Rightarrow> inMemoryBus \<Rightarrow>
     ((go_err option list \<times> bool) \<times> inMemoryBus) option" where
  "PublishAsync publish event b = map_option (\<lambda>(err, b). (([err], True), b)) (publish event b)"

definition bus_step ::
    "(nat list \<Rightarrow> nat list) \<Rightarrow> (nat \<Rightarrow> Event \<Rightarrow> inMemoryBus \<Rightarrow> (go_err option \<times> inMemoryBus) option) \<Rightarrow> bus_call \<Rightarrow> inMemoryBus \<Rightarrow>
     (go_err option \<times> inMemoryBus) option" where
  "bus_step order call c b = (case c of
       CSubscribe topic etype \<Rightarrow> Some (None, snd (SubscribeTopic topic etype b))
     | CCancel sid \<Rightarrow> Some (None, Cancel sid b)
     | CUnsubscribe sub \<Rightarrow> Some (None, Unsubscribe sub b)
     | CCreateTopic name \<Rightarrow> Some (None, CreateTopic name b)
     | CAddObserver obs \<Rightarrow> Some (None, AddObserver obs b)
     | CRemoveObserver obs \<Rightarrow> Some (None, RemoveObserver obs b)
     | CLoadState names \<Rightarrow> Some (None, LoadState names b)
     | CPublish topic e \<Rightarrow> deliver order call topic e b
     | CPublishWithFilters e fs \<Rightarrow> PublishWithFilters (deliver order call []) e fs b
     | CPublishBatch es \<Rightarrow> PublishBatch (deliver order call []) es None b)"

fun run_calls ::
    "(bus_call \<Rightarrow> inMemoryBus \<Rightarrow> (go_err option \<times> inMemoryBus) option) \<Rightarrow> bus_call list \<Rightarrow> inMemoryBus \<Rightarrow> inMemoryBus option" where
  "run_calls do_call [] b = Some b"
| "run_calls do_call (c # cs) b =
     (case do_call c b of None \<Rightarrow> None | Some (err, b) \<Rightarrow> run_calls do_call cs b)"

fun do_bus_call :: "(nat list \<Rightarrow> nat list) \<Rightarrow> user_handlers \<Rightarrow> nat \<Rightarrow> bus_call \<Rightarrow> inMemoryBus \<Rightarrow> (go_err option \<times> inMemoryBus) option" where
  "do_bus_call order H 0 c b = None"
| "do_bus_call order H (Suc depth) c b =
     bus_step order (\<lambda>sid e b. case H sid e b of (calls, err) \<Rightarrow>
       map_option (\<lambda>b. (err, b)) (run_calls (do_bus_call order H depth) calls b)) c b"

section \<open>The invariant\<close>

text \<open>
  The bus lists, per topic and type, exactly the active subscriptions. A cancelled subscription is
  inactive, and no handler was called after its cancellation.
\<close>

definition listens :: "inMemoryBus \<Rightarrow> string \<Rightarrow> string \<Rightarrow> nat \<Rightarrow> bool" where
  "listens b topic etype sid \<longleftrightarrow>
     sub_active (b_subs b ! sid) \<and> sub_topic (b_subs b ! sid) = topic \<and> sub_eventType (b_subs b ! sid) = etype"

definition never_late :: "bus_log list \<Rightarrow> bool" where
  "never_late log \<longleftrightarrow> sorted_wrt (\<lambda>x y. \<forall>sid e. \<not> (x = Cancelled sid \<and> y = Handled sid e)) log"

definition bus_inv :: "inMemoryBus \<Rightarrow> bool" where
  "bus_inv b \<longleftrightarrow>
     (\<forall>topic etype. type_handlers (b_handlers b) topic etype = filter (listens b topic etype) [0..<length (b_subs b)]) \<and>
     (\<forall>sid. Cancelled sid \<in> set (b_log b) \<longrightarrow> sid < length (b_subs b) \<and> \<not> sub_active (b_subs b ! sid)) \<and>
     never_late (b_log b)"

lemma type_handlers_put:
  "type_handlers (put_ids t e ids hs) t' e' = (if t' = t \<and> e' = e then ids else type_handlers hs t' e')"
  by (simp add: type_handlers_def put_ids_def topic_handlers_def AList.update_conv')

lemma type_handlers_make [simp]: "type_handlers (make_topic t hs) t' e' = type_handlers hs t' e'"
  by (auto simp: make_topic_def type_handlers_def topic_handlers_def AList.update_conv')

lemma never_late_snoc:
  "never_late (log @ [x]) \<longleftrightarrow> never_late log \<and> (\<forall>sid e. x = Handled sid e \<longrightarrow> Cancelled sid \<notin> set log)"
  by (auto simp: never_late_def sorted_wrt_append)

lemma never_late_append:
  "\<forall>sid e. Handled sid e \<notin> set log' \<Longrightarrow> never_late (log @ log') = never_late log"
proof (induction log' rule: rev_induct)
  case (snoc x log')
  then show ?case using never_late_snoc [of "log @ log'" x] by auto
qed simp

text \<open>Changes that do not touch subscriptions, handlers or cancellations.\<close>

lemma bus_inv_cong:
  assumes "bus_inv b" and "b_subs b' = b_subs b"
    and "\<And>t e. type_handlers (b_handlers b') t e = type_handlers (b_handlers b) t e" and "b_log b' = b_log b @ log"
    and "\<And>sid e. Cancelled sid \<notin> set log \<and> Handled sid e \<notin> set log"
  shows "bus_inv b'"
proof -
  have "listens b' t e = listens b t e" for t e using assms(2) by (simp add: listens_def fun_eq_iff)
  moreover have "never_late (b_log b @ log)"
    using assms(1,5) by (simp add: bus_inv_def never_late_append)
  ultimately show ?thesis using assms unfolding bus_inv_def by auto
qed

lemma Subscribe_inv:
  assumes "bus_inv b"
  shows "bus_inv (snd (SubscribeTopic topic etype b))"
proof -
  let ?s = "\<lparr>sub_topic = topic, sub_eventType = etype, sub_active = True\<rparr>"
  define b' where "b' = snd (SubscribeTopic topic etype b)"
  have subs: "b_subs b' = b_subs b @ [?s]" and log: "b_log b' = b_log b"
    by (simp_all add: b'_def SubscribeTopic_def ensureTopicLocked_def Let_def)
  have "filter (listens b' t e) [0..<length (b_subs b)] = filter (listens b t e) [0..<length (b_subs b)]" for t e
    by (rule filter_cong) (simp_all add: listens_def subs nth_append)
  then have "filter (listens b' t e) [0..<length (b_subs b')] =
      filter (listens b t e) [0..<length (b_subs b)] @ (if t = topic \<and> e = etype then [length (b_subs b)] else [])" for t e
    by (auto simp: subs listens_def)
  moreover have "type_handlers (b_handlers b') t e =
      type_handlers (b_handlers b) t e @ (if t = topic \<and> e = etype then [length (b_subs b)] else [])" for t e
    by (simp add: b'_def SubscribeTopic_def ensureTopicLocked_def Let_def type_handlers_put)
  ultimately show ?thesis
    using assms unfolding b'_def [symmetric] bus_inv_def log by (auto simp: subs nth_append)
qed

lemma Cancel_inv:
  assumes "bus_inv b"
  shows "bus_inv (Cancel sid b)"
proof (cases "sid < length (b_subs b)")
  case True
  let ?s = "b_subs b ! sid"
  define b' where "b' = Cancel sid b"
  have subs: "b_subs b' = (b_subs b)[sid := ?s\<lparr>sub_active := False\<rparr>]" and log: "b_log b' = b_log b @ [Cancelled sid]"
    using True by (simp_all add: b'_def Cancel_def Let_def)
  have th: "type_handlers (b_handlers b') t e = (if t = sub_topic ?s \<and> e = sub_eventType ?s
      then removeAll sid (type_handlers (b_handlers b) t e) else type_handlers (b_handlers b) t e)" for t e
  proof (cases "map_of (topic_handlers (b_handlers b) (sub_topic ?s)) (sub_eventType ?s) = None")
    case None: True
    then have "type_handlers (b_handlers b) (sub_topic ?s) (sub_eventType ?s) = []" by (simp add: type_handlers_def)
    with None True show ?thesis by (auto simp: b'_def Cancel_def Let_def)
  qed (use True in \<open>auto simp: b'_def Cancel_def Let_def type_handlers_put\<close>)
  have "listens b' t e i \<longleftrightarrow> listens b t e i \<and> i \<noteq> sid" if "i < length (b_subs b)" for t e i
    using that by (cases "i = sid") (simp_all add: listens_def subs)
  then have "filter (listens b' t e) [0..<length (b_subs b')] = removeAll sid (filter (listens b t e) [0..<length (b_subs b)])" for t e
    by (auto simp: subs removeAll_filter_not_eq intro!: filter_cong)
  moreover have "removeAll sid (filter (listens b t e) [0..<length (b_subs b)]) = filter (listens b t e) [0..<length (b_subs b)]"
    if "\<not> (t = sub_topic ?s \<and> e = sub_eventType ?s)" for t e
    using that by (auto simp: listens_def intro!: removeAll_id)
  ultimately have "type_handlers (b_handlers b') t e = filter (listens b' t e) [0..<length (b_subs b')]" for t e
    using assms th by (simp add: bus_inv_def)
  moreover have "\<forall>i. Cancelled i \<in> set (b_log b') \<longrightarrow> i < length (b_subs b') \<and> \<not> sub_active (b_subs b' ! i)"
    using assms True by (auto simp: bus_inv_def subs log nth_list_update)
  ultimately show ?thesis
    using assms unfolding b'_def [symmetric] by (simp add: bus_inv_def log never_late_snoc)
qed (use assms in \<open>simp add: Cancel_def\<close>)

lemma ensureTopic_inv: "bus_inv b \<Longrightarrow> bus_inv (ensureTopicLocked topic b)"
  by (rule bus_inv_cong [where b = b and log = "[]"]) (simp_all add: ensureTopicLocked_def)

lemma LoadState_inv: "bus_inv b \<Longrightarrow> bus_inv (LoadState names b)"
  unfolding LoadState_def by (induction names arbitrary: b) (simp_all add: ensureTopic_inv)

lemma quiet_inv:
  assumes "bus_inv b"
  shows "bus_inv (CreateTopic name b)" "bus_inv (AddObserver obs b)" "bus_inv (RemoveObserver obs b)"
    "bus_inv (b\<lparr>b_metrics := m\<rparr>)" "bus_inv (update_metrics n all b)"
    "bus_inv (b\<lparr>b_log := b_log b @ map (\<lambda>obs. OnPublish obs topic etype e) observers\<rparr>)"
    "bus_inv (b\<lparr>b_log := b_log b @ map (\<lambda>obs. OnDelivered obs topic etype n all) observers\<rparr>)"
  by (auto intro!: bus_inv_cong [OF assms, where log = "[]"] bus_inv_cong [OF assms] assms
      simp: CreateTopic_def AddObserver_def RemoveObserver_def update_metrics_def)

text \<open>A call of a handler is logged while the subscription is active, hence before any cancellation.\<close>

lemma Handled_inv:
  assumes "bus_inv b" and "sub_active (b_subs b ! sid)"
  shows "bus_inv (b\<lparr>b_log := b_log b @ [Handled sid e]\<rparr>)"
proof -
  have "listens (b\<lparr>b_log := log\<rparr>) = listens b" for log by (simp add: listens_def fun_eq_iff)
  with assms show ?thesis by (auto simp: bus_inv_def never_late_snoc)
qed

section \<open>Relations that every call respects\<close>

text \<open>A reflexive and transitive relation between the bus before and after each elementary change relates the bus
  before and after every call, whatever the handlers do and however deep they nest.\<close>

locale bus_relation =
  fixes R :: "inMemoryBus \<Rightarrow> inMemoryBus \<Rightarrow> bool"
  assumes R_refl: "R b b" and R_trans: "R b b1 \<Longrightarrow> R b1 b2 \<Longrightarrow> R b b2"
    and R_subscribe: "R b (snd (SubscribeTopic topic etype b))" and R_cancel: "R b (Cancel sid b)"
    and R_create: "R b (CreateTopic name b)" and R_load: "R b (LoadState names b)"
    and R_observers: "R b (AddObserver obs b)" "R b (RemoveObserver obs b)"
    and R_metrics: "R b (b\<lparr>b_metrics := m\<rparr>)"
    and R_notes: "R b (b\<lparr>b_log := b_log b @ map (\<lambda>obs. OnPublish obs topic etype e) observers\<rparr>)"
      "R b (b\<lparr>b_log := b_log b @ map (\<lambda>obs. OnDelivered obs topic etype n all) observers\<rparr>)"
    and R_handled: "sub_active (b_subs b ! sid) \<Longrightarrow> R b (b\<lparr>b_log := b_log b @ [Handled sid e]\<rparr>)"
begin

definition obeys :: "(inMemoryBus \<Rightarrow> (go_err option \<times> inMemoryBus) option) \<Rightarrow> bool" where
  "obeys f \<longleftrightarrow> (\<forall>b err b'. f b = Some (err, b') \<longrightarrow> R b b')"

lemma obeysD: "obeys f \<Longrightarrow> f b = Some (err, b') \<Longrightarrow> R b b'"
  unfolding obeys_def by blast

lemma call_all_respects:
  assumes "\<And>sid e. obeys (call sid e)"
  shows "call_all call e sids all b = Some (err, b') \<Longrightarrow> R b b'"
proof (induction sids arbitrary: all b)
  case (Cons sid sids)
  show ?case
  proof (cases "sub_active (b_subs b ! sid)")
    case True
    with Cons.prems obtain err1 b1 where c: "call sid e (b\<lparr>b_log := b_log b @ [Handled sid e]\<rparr>) = Some (err1, b1)"
      "call_all call e sids (join_errs all err1) b1 = Some (err, b')" by (auto split: option.splits)
    show ?thesis by (rule R_trans [OF R_trans [OF R_handled [OF True] obeysD [OF assms c(1)]] Cons.IH [OF c(2)]])
  qed (use Cons in auto)
qed (simp add: R_refl)

lemma update_metrics_respects: "R b (update_metrics n all b)"
  unfolding update_metrics_def by (rule R_metrics)

lemma deliver_respects:
  assumes "\<And>sid e. obeys (call sid e)"
  shows "obeys (deliver order call topic e)"
  unfolding obeys_def
proof (intro allI impI)
  fix b err b'
  assume run: "deliver order call topic e b = Some (err, b')"
  let ?subs = "order (type_handlers (b_handlers b) topic (ev_Type e))" and ?obs = "order (b_observers b)"
  let ?b0 = "b\<lparr>b_log := b_log b @ map (\<lambda>obs. OnPublish obs topic (ev_Type e) e) ?obs\<rparr>"
  obtain b1 where c: "call_all call e ?subs None ?b0 = Some (err, b1)"
    and b': "b' = (if ?obs = [] then b1 else update_metrics (length ?subs) err
      (b1\<lparr>b_log := b_log b1 @ map (\<lambda>obs. OnDelivered obs topic (ev_Type e) (length ?subs) err) ?obs\<rparr>))"
    using run unfolding deliver_def Let_def by (auto split: option.splits)
  have "R b b1" by (rule R_trans [OF R_notes(1) call_all_respects [OF assms c]])
  moreover have "R b1 b'" unfolding b' by (simp add: R_refl R_trans [OF R_notes(2) update_metrics_respects])
  ultimately show "R b b'" by (rule R_trans)
qed

lemma PublishBatch_respects:
  assumes "\<And>e. obeys (publish e)"
  shows "PublishBatch publish es all b = Some (err, b') \<Longrightarrow> R b b'"
proof (induction es arbitrary: all b)
  case (Cons e es)
  then obtain err1 b1 where c: "publish e b = Some (err1, b1)" "PublishBatch publish es (join_errs all err1) b1 = Some (err, b')"
    by (auto split: option.splits)
  show ?case by (rule R_trans [OF obeysD [OF assms c(1)] Cons.IH [OF c(2)]])
qed (simp add: R_refl)

lemma bus_step_respects:
  assumes "\<And>sid e. obeys (call sid e)"
  shows "obeys (bus_step order call c)"
  unfolding obeys_def
proof (intro allI impI)
  fix b err b'
  assume run: "bus_step order call c b = Some (err, b')"
  show "R b b'"
  proof (cases c)
    case (CPublish topic e)
    with run have "deliver order call topic e b = Some (err, b')" by (simp add: bus_step_def)
    with deliver_respects [OF assms] show ?thesis by (rule obeysD)
  next
    case (CPublishWithFilters e fs)
    show ?thesis
    proof (cases "list_all (\<lambda>f. f e) fs")
      case True
      with CPublishWithFilters run have "deliver order call [] e b = Some (err, b')"
        by (simp add: bus_step_def PublishWithFilters_def)
      with deliver_respects [OF assms] show ?thesis by (rule obeysD)
    next
      case False
      with CPublishWithFilters run show ?thesis
        by (auto simp: bus_step_def PublishWithFilters_def R_refl R_metrics)
    qed
  next
    case (CPublishBatch es)
    with run have "PublishBatch (deliver order call []) es None b = Some (err, b')" by (simp add: bus_step_def)
    then show ?thesis by (rule PublishBatch_respects [OF deliver_respects [OF assms]])
  qed (use run in \<open>auto simp: bus_step_def Unsubscribe_def R_refl R_subscribe R_cancel R_create R_load R_observers split: option.splits\<close>)
qed

lemma run_calls_respects:
  assumes "\<And>c. obeys (do_call c)"
  shows "run_calls do_call cs b = Some b' \<Longrightarrow> R b b'"
proof (induction cs arbitrary: b)
  case (Cons c cs)
  then obtain err b1 where c: "do_call c b = Some (err, b1)" "run_calls do_call cs b1 = Some b'"
    by (auto split: option.splits)
  show ?case by (rule R_trans [OF obeysD [OF assms c(1)] Cons.IH [OF c(2)]])
qed (simp add: R_refl)

lemma do_bus_call_respects: "obeys (do_bus_call order H depth c)"
proof (induction depth arbitrary: c)
  case (Suc depth)
  have "obeys (\<lambda>b. case H sid e b of (calls, err) \<Rightarrow>
      map_option (\<lambda>b. (err, b)) (run_calls (do_bus_call order H depth) calls b))" for sid e
    using run_calls_respects [OF Suc] by (auto simp: obeys_def split: prod.splits)
  from bus_step_respects [OF this] show ?case by simp
qed (simp add: obeys_def)

lemmas run_respects = run_calls_respects [OF do_bus_call_respects]

end

interpretation bus_invariant: bus_relation "\<lambda>b b'. bus_inv b \<longrightarrow> bus_inv b'"
  by unfold_locales (auto simp: Subscribe_inv Cancel_inv LoadState_inv quiet_inv Handled_inv)

text \<open>What only grows: the log and the list of subscriptions; a cancelled subscription stays cancelled.\<close>

definition later :: "inMemoryBus \<Rightarrow> inMemoryBus \<Rightarrow> bool" where
  "later b b' \<longleftrightarrow> (\<exists>log. b_log b' = b_log b @ log) \<and> length (b_subs b) \<le> length (b_subs b') \<and>
     (\<forall>sid<length (b_subs b). \<not> sub_active (b_subs b ! sid) \<longrightarrow> \<not> sub_active (b_subs b' ! sid))"

lemma later_same: "b_log b' = b_log b @ log \<Longrightarrow> b_subs b' = b_subs b \<Longrightarrow> later b b'"
  by (simp add: later_def)

lemma later_trans: "later b b1 \<Longrightarrow> later b1 b2 \<Longrightarrow> later b b2"
  unfolding later_def by (elim conjE exE) (auto intro: order_trans less_le_trans)

lemma later_LoadState: "later b (LoadState names b)"
proof -
  have "b_log (LoadState names b) = b_log b \<and> b_subs (LoadState names b) = b_subs b"
    unfolding LoadState_def by (induction names arbitrary: b) (simp_all add: ensureTopicLocked_def)
  then show ?thesis by (simp add: later_def)
qed

interpretation bus_later: bus_relation later
proof unfold_locales
  fix b b1 b2 :: inMemoryBus and sid
  show "later b b" by (simp add: later_def)
  show "later b b1 \<Longrightarrow> later b1 b2 \<Longrightarrow> later b b2" by (rule later_trans)
  show "later b (Cancel sid b)" by (auto simp: later_def Cancel_def Let_def nth_list_update)
  show "later b (LoadState names b)" for names by (rule later_LoadState)
qed (auto simp: later_def SubscribeTopic_def ensureTopicLocked_def Let_def nth_append CreateTopic_def
  AddObserver_def RemoveObserver_def)

section \<open>The depth of nested calls\<close>

fun published :: "bus_call \<Rightarrow> Event list" where
  "published (CPublish topic e) = [e]"
| "published (CPublishWithFilters e fs) = [e]"
| "published (CPublishBatch es) = es"
| "published _ = []"

text \<open>More depth does not change the result of a call that returns.\<close>

definition agrees :: "('s \<Rightarrow> 't option) \<Rightarrow> ('s \<Rightarrow> 't option) \<Rightarrow> bool" where
  "agrees f g \<longleftrightarrow> (\<forall>s r. f s = Some r \<longrightarrow> g s = Some r)"

lemma agreesD: "agrees f g \<Longrightarrow> f s = Some r \<Longrightarrow> g s = Some r"
  unfolding agrees_def by blast

lemma call_all_agrees:
  assumes "\<And>sid e. agrees (call sid e) (call' sid e)"
  shows "call_all call e sids all b = Some r \<Longrightarrow> call_all call' e sids all b = Some r"
proof (induction sids arbitrary: all b)
  case (Cons sid sids)
  then show ?case using agreesD [OF assms] by (fastforce split: option.splits if_splits)
qed simp

lemma deliver_agrees:
  assumes "\<And>sid e. agrees (call sid e) (call' sid e)"
  shows "agrees (deliver order call topic e) (deliver order call' topic e)"
  unfolding agrees_def deliver_def Let_def using call_all_agrees [OF assms] by (fastforce split: option.splits)

lemma PublishBatch_agrees:
  assumes "\<And>e. agrees (publish e) (publish' e)"
  shows "PublishBatch publish es all b = Some r \<Longrightarrow> PublishBatch publish' es all b = Some r"
proof (induction es arbitrary: all b)
  case (Cons e es)
  then show ?case using agreesD [OF assms] by (fastforce split: option.splits)
qed simp

lemma bus_step_agrees:
  assumes "\<And>sid e. agrees (call sid e) (call' sid e)"
  shows "agrees (bus_step order call c) (bus_step order call' c)"
proof -
  note d = deliver_agrees [OF assms]
  show ?thesis unfolding agrees_def
    by (cases c) (auto simp: bus_step_def PublishWithFilters_def intro: agreesD [OF d] PublishBatch_agrees [OF d])
qed

lemma run_calls_agrees:
  assumes "\<And>c. agrees (do_call c) (do_call' c)"
  shows "run_calls do_call cs b = Some b' \<Longrightarrow> run_calls do_call' cs b = Some b'"
proof (induction cs arbitrary: b)
  case (Cons c cs)
  then show ?case using agreesD [OF assms] by (fastforce split: option.splits)
qed simp

lemma do_bus_call_agrees: "agrees (do_bus_call order H depth c) (do_bus_call order H (depth + more_depth) c)"
proof (induction depth arbitrary: c)
  case (Suc depth)
  have "agrees (\<lambda>b. case H sid e b of (calls, err) \<Rightarrow> map_option (\<lambda>b. (err, b)) (run_calls (do_bus_call order H depth) calls b))
      (\<lambda>b. case H sid e b of (calls, err) \<Rightarrow>
        map_option (\<lambda>b. (err, b)) (run_calls (do_bus_call order H (depth + more_depth)) calls b))" for sid e
    using run_calls_agrees [OF Suc] by (auto simp: agrees_def split: prod.splits)
  from bus_step_agrees [OF this] show ?case by simp
qed (simp add: agrees_def)

text \<open>A call returns when the handlers it calls do.\<close>

lemma call_all_returns:
  assumes "\<And>sid b. call sid e b \<noteq> None"
  shows "call_all call e sids all b \<noteq> None"
proof (induction sids arbitrary: all b)
  case (Cons sid sids)
  with assms [of sid "b\<lparr>b_log := b_log b @ [Handled sid e]\<rparr>"] show ?case by (auto split: option.splits)
qed simp

lemma deliver_returns:
  "(\<And>sid b. call sid e b \<noteq> None) \<Longrightarrow> deliver order call topic e b \<noteq> None"
  unfolding deliver_def Let_def using call_all_returns [of call e] by (auto split: option.splits)

lemma PublishBatch_returns:
  assumes "\<And>e b. e \<in> set es \<Longrightarrow> publish e b \<noteq> None"
  shows "PublishBatch publish es all b \<noteq> None"
  using assms
proof (induction es arbitrary: all b)
  case (Cons e es)
  from Cons.prems [of e b] obtain err b1 where "publish e b = Some (err, b1)" by auto
  moreover have "PublishBatch publish es (join_errs all err) b1 \<noteq> None" using Cons by simp
  ultimately show ?case by simp
qed simp

lemma bus_step_returns:
  assumes "\<And>sid e b. e \<in> set (published c) \<Longrightarrow> call sid e b \<noteq> None"
  shows "bus_step order call c b \<noteq> None"
proof (cases c)
  case (CPublish topic e)
  with deliver_returns [of call e] assms show ?thesis by (simp add: bus_step_def)
next
  case (CPublishWithFilters e fs)
  with deliver_returns [of call e] assms show ?thesis by (simp add: bus_step_def PublishWithFilters_def)
next
  case (CPublishBatch es)
  with PublishBatch_returns [of es "deliver order call []"] deliver_returns [of call] assms show ?thesis
    by (simp add: bus_step_def)
qed (simp_all add: bus_step_def)

lemma run_calls_returns:
  assumes "\<And>c b. c \<in> set cs \<Longrightarrow> do_call c b \<noteq> None"
  shows "run_calls do_call cs b \<noteq> None"
  using assms
proof (induction cs arbitrary: b)
  case (Cons c cs)
  from Cons.prems [of c b] obtain err b1 where "do_call c b = Some (err, b1)" by auto
  moreover have "run_calls do_call cs b1 \<noteq> None" using Cons by simp
  ultimately show ?case by simp
qed simp

text \<open>Handlers that only publish events of a lower rank, and the depth a call then needs.\<close>

definition ranked :: "(Event \<Rightarrow> nat) \<Rightarrow> user_handlers \<Rightarrow> bool" where
  "ranked rank H \<longleftrightarrow> (\<forall>sid e b. \<forall>c\<in>set (fst (H sid e b)). \<forall>e'\<in>set (published c). rank e' < rank e)"

definition deep_enough :: "(Event \<Rightarrow> nat) \<Rightarrow> nat \<Rightarrow> bus_call list \<Rightarrow> bool" where
  "deep_enough rank depth calls \<longleftrightarrow> 0 < depth \<and> (\<forall>c\<in>set calls. \<forall>e\<in>set (published c). rank e + 2 \<le> depth)"

lemma do_bus_call_returns:
  "ranked rank H \<Longrightarrow> deep_enough rank depth [c] \<Longrightarrow> do_bus_call order H depth c b \<noteq> None"
proof (induction depth arbitrary: c b)
  case (Suc depth)
  show ?case unfolding do_bus_call.simps
  proof (rule bus_step_returns)
    fix sid e b
    assume e: "e \<in> set (published c)"
    obtain calls err where h: "H sid e b = (calls, err)" by (cases "H sid e b")
    have "deep_enough rank depth [c']" if "c' \<in> set calls" for c'
    proof -
      have r: "\<forall>e'\<in>set (published c'). rank e' < rank e"
        using Suc.prems(1) h that unfolding ranked_def by (metis fst_conv)
      have "rank e + 2 \<le> Suc depth" using Suc.prems(2) e by (simp add: deep_enough_def)
      with r show ?thesis by (fastforce simp: deep_enough_def)
    qed
    then have "run_calls (do_bus_call order H depth) calls b \<noteq> None"
      using Suc.IH Suc.prems(1) by (intro run_calls_returns) blast
    with h show "(case H sid e b of (calls, err) \<Rightarrow>
        map_option (\<lambda>b. (err, b)) (run_calls (do_bus_call order H depth) calls b)) \<noteq> None" by simp
  qed
qed (simp add: deep_enough_def)

lemma run_returns:
  assumes "ranked rank H" and "deep_enough rank depth calls"
  shows "run_calls (do_bus_call order H depth) calls b \<noteq> None"
  using assms by (intro run_calls_returns do_bus_call_returns) (auto simp: deep_enough_def)

section \<open>What every run keeps\<close>

lemma New_bus_inv: "bus_inv New"
  by (simp add: bus_inv_def New_def never_late_def type_handlers_def topic_handlers_def)

text \<open>
  C6. Whatever calls are made on a new bus, by clients and by handlers inside their deliveries, and in
  whatever order deliveries visit their subscribers: when the calls return, the bus lists for every topic
  and event type exactly the subscriptions that have not been cancelled, each once, and no handler was
  called after its subscription was cancelled, not even by a delivery that was already under way. The
  calls do return when the handlers only publish events of a lower rank than the one they handle, with a
  nesting depth of two more than the ranks published; and a larger depth changes no result.
\<close>

theorem bus_lists_active:
  "(\<forall>b. run_calls (do_bus_call order H depth) calls New = Some b \<longrightarrow>
      (\<forall>topic etype. type_handlers (b_handlers b) topic etype = filter (listens b topic etype) [0..<length (b_subs b)]) \<and>
      (\<forall>i j sid e. i < j \<and> j < length (b_log b) \<and> b_log b ! i = Cancelled sid \<longrightarrow> b_log b ! j \<noteq> Handled sid e) \<and>
      (\<forall>d\<ge>depth. run_calls (do_bus_call order H d) calls New = Some b)) \<and>
   ((\<exists>rank. ranked rank H \<and> deep_enough rank depth calls) \<longrightarrow>
      run_calls (do_bus_call order H depth) calls New \<noteq> None)"
proof (intro conjI allI impI)
  fix b
  assume run: "run_calls (do_bus_call order H depth) calls New = Some b"
  have inv: "bus_inv b" using bus_invariant.run_respects [OF run] New_bus_inv by blast
  show "type_handlers (b_handlers b) topic etype = filter (listens b topic etype) [0..<length (b_subs b)]" for topic etype
    using inv by (simp add: bus_inv_def)
  show "b_log b ! j \<noteq> Handled sid e" if "i < j \<and> j < length (b_log b) \<and> b_log b ! i = Cancelled sid" for i j sid e
  proof -
    have "never_late (b_log b)" using inv by (simp add: bus_inv_def)
    with that show ?thesis unfolding never_late_def sorted_wrt_iff_nth_less by blast
  qed
  show "run_calls (do_bus_call order H d) calls New = Some b" if "depth \<le> d" for d
    using run_calls_agrees [OF do_bus_call_agrees [where more_depth = "d - depth"] run] that by simp
next
  assume "\<exists>rank. ranked rank H \<and> deep_enough rank depth calls"
  then show "run_calls (do_bus_call order H depth) calls New \<noteq> None" using run_returns by blast
qed

text \<open>Handlers that make no calls: the delivery is a walk over the snapshot.\<close>

fun handled :: "bus_log list \<Rightarrow> nat list" where
  "handled [] = []"
| "handled (Handled sid e # log) = sid # handled log"
| "handled (_ # log) = handled log"

lemma handled_append [simp]: "handled (log @ log') = handled log @ handled log'"
proof (induction log)
  case (Cons x log)
  then show ?case by (cases x) simp_all
qed simp

lemma handled_notes [simp]:
  "handled (map (\<lambda>obs. OnPublish obs t ty e) xs) = []" "handled (map (\<lambda>obs. OnDelivered obs t ty n err) xs) = []"
  by (induction xs) simp_all

lemma handled_calls [simp]: "handled (map (\<lambda>sid. Handled sid e) sids) = sids"
  by (induction sids) simp_all

lemma call_all_plain:
  assumes "\<forall>sid\<in>set sids. sub_active (b_subs b ! sid)"
  shows "call_all (\<lambda>sid e b. Some (f sid e, b)) e sids all b =
    Some (fold (\<lambda>sid all. join_errs all (f sid e)) sids all, b\<lparr>b_log := b_log b @ map (\<lambda>sid. Handled sid e) sids\<rparr>)"
  using assms by (induction sids arbitrary: all b) simp_all

lemma join_errs_None: "fold (\<lambda>sid all. join_errs all (f sid)) sids all = None \<longleftrightarrow> all = None \<and> (\<forall>sid\<in>set sids. f sid = None)"
proof (induction sids arbitrary: all)
  case (Cons sid sids)
  then show ?case by (simp add: join_errs_def split: option.splits)
qed simp

text \<open>Whatever the handlers do, a subscription of the snapshot is called or found cancelled.\<close>

lemma call_all_reaches:
  assumes "\<And>sid e. bus_later.obeys (call sid e)"
  shows "call_all call e sids all b = Some (err, b') \<Longrightarrow> \<forall>sid\<in>set sids. sid < length (b_subs b) \<Longrightarrow>
    \<forall>sid\<in>set sids. Handled sid e \<in> set (drop (length (b_log b)) (b_log b')) \<or> \<not> sub_active (b_subs b' ! sid)"
proof (induction sids arbitrary: all b)
  case (Cons sid sids)
  show ?case
  proof (cases "sub_active (b_subs b ! sid)")
    case True
    let ?b0 = "b\<lparr>b_log := b_log b @ [Handled sid e]\<rparr>"
    from Cons.prems(1) True obtain err1 b1 where c: "call sid e ?b0 = Some (err1, b1)"
      "call_all call e sids (join_errs all err1) b1 = Some (err, b')" by (auto split: option.splits)
    from bus_later.obeysD [OF assms c(1)] obtain log1 where l1: "b_log b1 = b_log b @ Handled sid e # log1"
      "length (b_subs b) \<le> length (b_subs b1)" by (auto simp: later_def)
    from bus_later.call_all_respects [OF assms c(2)] obtain log2 where l2: "b_log b' = b_log b1 @ log2" by (auto simp: later_def)
    have "\<forall>sid\<in>set sids. sid < length (b_subs b1)" using Cons.prems(2) l1(2) by fastforce
    from Cons.IH [OF c(2) this] l1 l2 show ?thesis by auto
  next
    case False
    with Cons.prems have r: "call_all call e sids all b = Some (err, b')" by simp
    have "\<not> sub_active (b_subs b' ! sid)"
      using bus_later.call_all_respects [OF assms r] False Cons.prems(2) by (simp add: later_def)
    with Cons.IH [OF r] Cons.prems(2) show ?thesis by simp
  qed
qed simp

lemma publish_reaches:
  assumes "bus_inv b" and "\<And>xs. mset (order xs) = mset xs" and run: "do_bus_call order H depth (CPublish topic e) b = Some (err, b')"
    and "sid < length (b_subs b)" and "listens b topic (ev_Type e) sid"
  shows "Handled sid e \<in> set (drop (length (b_log b)) (b_log b')) \<or> \<not> sub_active (b_subs b' ! sid)"
proof (cases depth)
  case (Suc d)
  define call where "call = (\<lambda>sid e b. case H sid e b of (calls, err) \<Rightarrow>
       map_option (\<lambda>b. (err, b)) (run_calls (do_bus_call order H d) calls b))"
  have call: "bus_later.obeys (call sid e)" for sid e
    using bus_later.run_respects by (auto simp: bus_later.obeys_def call_def split: prod.splits)
  let ?subs = "order (type_handlers (b_handlers b) topic (ev_Type e))" and ?obs = "order (b_observers b)"
  let ?b0 = "b\<lparr>b_log := b_log b @ map (\<lambda>obs. OnPublish obs topic (ev_Type e) e) ?obs\<rparr>"
  from run have "deliver order call topic e b = Some (err, b')" by (simp add: Suc bus_step_def call_def)
  then obtain b1 where c: "call_all call e ?subs None ?b0 = Some (err, b1)"
    and b': "b' = (if ?obs = [] then b1 else update_metrics (length ?subs) err
      (b1\<lparr>b_log := b_log b1 @ map (\<lambda>obs. OnDelivered obs topic (ev_Type e) (length ?subs) err) ?obs\<rparr>))"
    unfolding deliver_def Let_def by (auto split: option.splits)
  have "set ?subs = set (filter (listens b topic (ev_Type e)) [0..<length (b_subs b)])"
    using assms(1) mset_eq_setD [OF assms(2)] by (simp add: bus_inv_def)
  with assms(4,5) have "sid \<in> set ?subs" "\<forall>sid\<in>set ?subs. sid < length (b_subs ?b0)" by auto
  with call_all_reaches [OF call c] have
    "Handled sid e \<in> set (drop (length (b_log ?b0)) (b_log b1)) \<or> \<not> sub_active (b_subs b1 ! sid)" by blast
  moreover have "b_subs b' = b_subs b1" "\<exists>log. b_log b' = b_log b1 @ log" by (auto simp: b' update_metrics_def)
  moreover have "set (drop (length (b_log ?b0)) (b_log b1)) \<subseteq> set (drop (length (b_log b)) (b_log b1))"
    by (simp add: set_drop_subset_set_drop)
  ultimately show ?thesis by auto
qed (use run in simp)

text \<open>
  C5. On a bus whose handlers make no calls of their own, publishing to a topic calls every active
  subscription of that topic and event type exactly once and no other, returns an error exactly when
  some of them returns one, changes no subscription, and counts in the metrics only while the bus is
  observed. With any handlers \<open>K\<close>, which may subscribe, cancel or publish, whenever publishing returns every
  subscription that was active when it began has been called with the event or has been cancelled.
\<close>

theorem publish_delivers:
  assumes "bus_inv b" and "\<And>xs. mset (order xs) = mset xs" and "\<And>sid e b. H sid e b = ([], f sid e)"
  shows "(\<exists>err b'. do_bus_call order H (Suc depth) (CPublish topic e) b = Some (err, b') \<and>
    mset (handled (b_log b')) = mset (handled (b_log b)) + mset (filter (listens b topic (ev_Type e)) [0..<length (b_subs b)]) \<and>
    (err = None \<longleftrightarrow> (\<forall>sid<length (b_subs b). listens b topic (ev_Type e) sid \<longrightarrow> f sid e = None)) \<and>
    b_subs b' = b_subs b \<and> b_handlers b' = b_handlers b \<and>
    (if b_observers b = [] then GetMetrics b' = GetMetrics b
     else Published (GetMetrics b') = Published (GetMetrics b) + 1 \<and>
       Errors (GetMetrics b') = Errors (GetMetrics b) + (if err = None then 0 else 1))) \<and>
    (\<forall>K d err b'. do_bus_call order K d (CPublish topic e) b = Some (err, b') \<longrightarrow>
      (\<forall>sid<length (b_subs b). listens b topic (ev_Type e) sid \<longrightarrow>
         Handled sid e \<in> set (drop (length (b_log b)) (b_log b')) \<or> \<not> sub_active (b_subs b' ! sid)))"
proof (rule conjI)
  let ?ids = "filter (listens b topic (ev_Type e)) [0..<length (b_subs b)]" and ?obs = "order (b_observers b)"
  have snap: "type_handlers (b_handlers b) topic (ev_Type e) = ?ids" using assms(1) by (simp add: bus_inv_def)
  have set: "set (order ?ids) = set ?ids" using assms(2) by (rule mset_eq_setD)
  have obs: "?obs = [] \<longleftrightarrow> b_observers b = []" using assms(2) [of "b_observers b"] by (metis mset_zero_iff)
  let ?err = "fold (\<lambda>sid all. join_errs all (f sid e)) (order ?ids) None"
  let ?b0 = "b\<lparr>b_log := b_log b @ map (\<lambda>obs. OnPublish obs topic (ev_Type e) e) ?obs\<rparr>"
  have "call_all (\<lambda>sid e b. Some (f sid e, b)) e (order ?ids) None ?b0 =
      Some (?err, ?b0\<lparr>b_log := b_log ?b0 @ map (\<lambda>sid. Handled sid e) (order ?ids)\<rparr>)"
    by (rule call_all_plain) (use set in \<open>auto simp: listens_def\<close>)
  moreover have "(\<lambda>sid e b. case H sid e b of (calls, err) \<Rightarrow>
      map_option (\<lambda>b. (err, b)) (run_calls (do_bus_call order H depth) calls b)) = (\<lambda>sid e b. Some (f sid e, b))"
    by (simp add: assms(3))
  ultimately obtain b' where b': "do_bus_call order H (Suc depth) (CPublish topic e) b = Some (?err, b')"
    "handled (b_log b') = handled (b_log b) @ order ?ids" "b_subs b' = b_subs b" "b_handlers b' = b_handlers b"
    "GetMetrics b' = (if ?obs = [] then GetMetrics b else
       (GetMetrics b)\<lparr>Published := Published (GetMetrics b) + 1,
         DeliveredHandlers := DeliveredHandlers (GetMetrics b) + of_nat (length (order ?ids)),
         Errors := (if ?err \<noteq> None then Errors (GetMetrics b) + 1 else Errors (GetMetrics b)),
         Topics := of_nat (length (b_topics b)), SubscribersActive := of_nat (subs_count b)\<rparr>)"
    by (simp add: bus_step_def deliver_def snap Let_def update_metrics_def GetMetrics_def subs_count_def del: join_errs_None)
  have "?err = None \<longleftrightarrow> (\<forall>sid<length (b_subs b). listens b topic (ev_Type e) sid \<longrightarrow> f sid e = None)"
    unfolding join_errs_None using set by auto
  with b' assms(2) obs show "\<exists>err b'. do_bus_call order H (Suc depth) (CPublish topic e) b = Some (err, b') \<and>
    mset (handled (b_log b')) = mset (handled (b_log b)) + mset (filter (listens b topic (ev_Type e)) [0..<length (b_subs b)]) \<and>
    (err = None \<longleftrightarrow> (\<forall>sid<length (b_subs b). listens b topic (ev_Type e) sid \<longrightarrow> f sid e = None)) \<and>
    b_subs b' = b_subs b \<and> b_handlers b' = b_handlers b \<and>
    (if b_observers b = [] then GetMetrics b' = GetMetrics b
     else Published (GetMetrics b') = Published (GetMetrics b) + 1 \<and>
       Errors (GetMetrics b') = Errors (GetMetrics b) + (if err = None then 0 else 1))" by auto
next
  show "\<forall>K d err b'. do_bus_call order K d (CPublish topic e) b = Some (err, b') \<longrightarrow>
      (\<forall>sid<length (b_subs b). listens b topic (ev_Type e) sid \<longrightarrow>
         Handled sid e \<in> set (drop (length (b_log b)) (b_log b')) \<or> \<not> sub_active (b_subs b' ! sid))"
    using publish_reaches [OF assms(1,2)] by blast
qed

section \<open>Concrete runs\<close>

definition hit :: Event where
  "hit = NewEvent 0 ''hit'' ''npc'' 7 0 []"

text \<open>The first handler cancels the second one.\<close>

definition rival :: user_handlers where
  "rival sid e b = (if sid = 0 then ([CCancel 1], None) else ([], Some (Err ''late'')))"

definition rival_calls :: "bus_call list" where
  "rival_calls = [CSubscribe [] ''hit'', CSubscribe [] ''hit'', CPublish [] hit]"

lemma rival_run:
  "\<exists>b. run_calls (do_bus_call id rival 2) rival_calls New = Some b \<and> handled (b_log b) = [0] \<and>
     length (b_log b) = 2 \<and> b_log b ! 1 = Cancelled 1"
  by (simp add: rival_calls_def bus_step_def SubscribeTopic_def ensureTopicLocked_def New_def Let_def deliver_def
      numeral_2_eq_2 hit_def NewEvent_def rival_def Cancel_def type_handlers_def topic_handlers_def put_ids_def make_topic_def
      set_add_def)

text \<open>A handler that publishes what it handles again never returns, whatever the depth.\<close>

definition echo :: user_handlers where
  "echo sid e b = ([CPublish [] e], None)"

lemma echo_never_returns:
  "type_handlers (b_handlers b) [] (ev_Type e) = [sid] \<Longrightarrow> sub_active (b_subs b ! sid) \<Longrightarrow> do_bus_call id echo depth (CPublish [] e) b = None"
proof (induction depth arbitrary: b)
  case (Suc depth)
  then show ?case by (simp add: bus_step_def deliver_def echo_def Let_def)
qed simp

theorem bus_lists_active_witness:
  "\<exists>b. run_calls (do_bus_call id rival 2) rival_calls New = Some b \<and>
     type_handlers (b_handlers b) [] ''hit'' = filter (listens b [] ''hit'') [0..<length (b_subs b)] \<and> handled (b_log b) = [0]"
proof -
  have "ranked (\<lambda>e. 0) rival \<and> deep_enough (\<lambda>e. 0) 2 rival_calls"
    by (simp add: ranked_def deep_enough_def rival_def rival_calls_def)
  then have "\<exists>rank. ranked rank rival \<and> deep_enough rank 2 rival_calls" by blast
  with bus_lists_active [of id rival 2 rival_calls] obtain b where
    "run_calls (do_bus_call id rival 2) rival_calls New = Some b"
    "\<forall>topic etype. type_handlers (b_handlers b) topic etype = filter (listens b topic etype) [0..<length (b_subs b)]"
    by (meson not_None_eq)
  with rival_run show ?thesis by auto
qed

definition two_listeners :: inMemoryBus where
  "two_listeners = snd (Subscribe ''hit'' (snd (Subscribe ''hit'' New)))"

theorem publish_delivers_witness:
  "\<exists>err b'. do_bus_call rev (\<lambda>sid e b. ([], if sid = 1 then Some (Err ''late'') else None)) 1 (CPublish [] hit) two_listeners =
       Some (err, b') \<and> mset (handled (b_log b')) = {#0, 1#} \<and> err \<noteq> None"
proof -
  let ?f = "\<lambda>sid (e :: Event). if sid = 1 then Some (Err ''late'') else None"
  have inv: "bus_inv two_listeners" by (simp add: two_listeners_def Subscribe_def Subscribe_inv New_bus_inv)
  have subs: "b_subs two_listeners = [\<lparr>sub_topic = [], sub_eventType = ''hit'', sub_active = True\<rparr>,
      \<lparr>sub_topic = [], sub_eventType = ''hit'', sub_active = True\<rparr>]" and log: "b_log two_listeners = []"
    by (simp_all add: two_listeners_def Subscribe_def SubscribeTopic_def ensureTopicLocked_def New_def Let_def)
  from publish_delivers [OF inv, of rev "\<lambda>sid e b. ([], ?f sid e)" ?f 0 "[]" hit]
  obtain err b' where
    "do_bus_call rev (\<lambda>sid e b. ([], ?f sid e)) (Suc 0) (CPublish [] hit) two_listeners = Some (err, b')"
    "mset (handled (b_log b')) = mset (handled (b_log two_listeners)) + mset (filter (listens two_listeners [] (ev_Type hit)) [0..<length (b_subs two_listeners)])"
    "err = None \<longleftrightarrow> (\<forall>sid<length (b_subs two_listeners). listens two_listeners [] (ev_Type hit) sid \<longrightarrow> ?f sid hit = None)"
    by auto
  moreover have "filter (listens two_listeners [] (ev_Type hit)) [0..<length (b_subs two_listeners)] = [0, 1]"
    "listens two_listeners [] (ev_Type hit) 1"
    by (simp_all add: subs listens_def hit_def NewEvent_def upt_rec)
  ultimately show ?thesis by (auto simp: log subs)
qed

end
