(* ===== verification/Wrappers.thy ===== *)
theory Wrappers
  imports Concurrent Var_Atomic Var_Adaptive
begin

text \<open>
  The wrappers of \<open>internal/core/syncv2/wrappers\<close>: \<open>AtomicWrapper\<close>, \<open>ChannelWrapper\<close> and \<open>ShardedWrapper\<close> make a
  full \<open>Core\<close> of a root variable, with subscribers, permissions, metrics and deltas; \<open>VariableWrapper\<close> makes a
  plain variable of a \<open>Core\<close>. A wrapper reaches its root through an interface only, which here is a record of
  operations. The methods the three wrappers share are written out three times in the source with the same
  text; the body is translated once and each method is its instance.
\<close>

section \<open>Roots\<close>

text \<open>Reading may change a root: \<open>AdaptiveSharded\<close> counts its reads.\<close>

record ('r, 'a) root_ops =
  ro_Get :: "'r \<Rightarrow> ('a \<times> 'r) outcome"
  ro_Set :: "'r \<Rightarrow> 'a \<Rightarrow> 'r outcome"
  ro_Version :: "'r \<Rightarrow> uint64"
  ro_IsDirty :: "'r \<Rightarrow> bool"
  ro_MarkClean :: "'r \<Rightarrow> 'r"

record ('r, 'a) atomic_ops = "('r, 'a) root_ops" +
  ao_ApplyDeltas :: "'r \<Rightarrow> 'a Delta list \<Rightarrow> ('a \<times> 'r) outcome"

record ('r, 'a) sharded_ops = "('r, 'a) root_ops" +
  so_GetShard :: "'r \<Rightarrow> string \<Rightarrow> ('a \<times> 'r) outcome"
  so_SetShard :: "'r \<Rightarrow> string \<Rightarrow> 'a \<Rightarrow> 'r outcome"
  so_GetShardCount :: "'r \<Rightarrow> int"
  so_ForEachShard :: "'r \<Rightarrow> (int \<Rightarrow> 'a \<Rightarrow> bool) \<Rightarrow> (int \<times> 'a) list"
  so_MergeShard :: "'r \<Rightarrow> ('a list \<Rightarrow> 'a) \<Rightarrow> 'a outcome"

record ('r, 'a) chan_root_ops = "('r, 'a) root_ops" +
  cr_Send :: "'r \<Rightarrow> 'a \<Rightarrow> (bool \<times> 'r) outcome"
  cr_Receive :: "'r \<Rightarrow> (('a \<times> bool) \<times> 'r) outcome"
  cr_SendBlocking :: "'r \<Rightarrow> 'a \<Rightarrow> 'r outcome"
  cr_ReceiveBlocking :: "'r \<Rightarrow> ('a \<times> 'r) outcome"
  cr_BufferSize :: "'r \<Rightarrow> int"
  cr_SetBufferSize :: "'r \<Rightarrow> int \<Rightarrow> (go_err option \<times> 'r) outcome"
  cr_Close :: "'r \<Rightarrow> (go_err option \<times> 'r) outcome"

section \<open>The wrapper\<close>

record VariableMetrics =
  vm_Reads :: uint64
  vm_Writes :: uint64
  vm_Errors :: uint64
  vm_DeltasSent :: uint64
  vm_DeltasReceived :: uint64

text \<open>Sets of client identifiers.\<close>

record Permissions =
  perm_Read :: "string list"
  perm_Write :: "string list"

text \<open>A conflict resolver of the user, or the adapter around a callback.\<close>

datatype 'a ConflictResolver = UserResolver "'a \<Rightarrow> 'a \<Rightarrow> 'a" int | callbackResolver "'a \<Rightarrow> 'a \<Rightarrow> 'a"

primrec Resolve :: "'a ConflictResolver \<Rightarrow> 'a \<Rightarrow> 'a \<Rightarrow> 'a" where
  "Resolve (UserResolver f p) l r = f l r"
| "Resolve (callbackResolver callback) l r = callback l r"

primrec resolver_Priority :: "'a ConflictResolver \<Rightarrow> int" where
  "resolver_Priority (UserResolver f p) = p"
| "resolver_Priority (callbackResolver callback) = 1"

record 'a Marshaller =
  ma_Marshal :: "'a \<Rightarrow> go_err + string"
  ma_Unmarshal :: "string \<Rightarrow> go_err + 'a"

text \<open>
  Subscribers are callbacks, known by a number, \<open>None\<close> for nil. \<open>w_calls\<close> keeps the calls of callbacks
  that the goroutines of the wrapper have to make, with the old and the new value.
\<close>

record ('r, 'a) Wrapper =
  w_root :: 'r
  w_subscribers :: "nat option list"
  w_permissions :: Permissions
  w_metrics :: VariableMetrics
  w_resolver :: "'a ConflictResolver option"
  w_marshaler :: "'a Marshaller option"
  w_calls :: "(nat \<times> 'a \<times> 'a) list"

definition wrapper_New :: "'r \<Rightarrow> ('r, 'a) Wrapper" where
  "wrapper_New root = \<lparr>w_root = root, w_subscribers = [], w_permissions = \<lparr>perm_Read = [], perm_Write = []\<rparr>,
     w_metrics = \<lparr>vm_Reads = 0, vm_Writes = 0, vm_Errors = 0, vm_DeltasSent = 0, vm_DeltasReceived = 0\<rparr>,
     w_resolver = None, w_marshaler = None, w_calls = []\<rparr>"

definition count_read :: "('r, 'a) Wrapper \<Rightarrow> ('r, 'a) Wrapper" where
  "count_read w = w\<lparr>w_metrics := (w_metrics w)\<lparr>vm_Reads := vm_Reads (w_metrics w) + 1\<rparr>\<rparr>"

definition count_write :: "('r, 'a) Wrapper \<Rightarrow> ('r, 'a) Wrapper" where
  "count_write w = w\<lparr>w_metrics := (w_metrics w)\<lparr>vm_Writes := vm_Writes (w_metrics w) + 1\<rparr>\<rparr>"

definition count_error :: "('r, 'a) Wrapper \<Rightarrow> ('r, 'a) Wrapper" where
  "count_error w = w\<lparr>w_metrics := (w_metrics w)\<lparr>vm_Errors := vm_Errors (w_metrics w) + 1\<rparr>\<rparr>"

definition count_received :: "('r, 'a) Wrapper \<Rightarrow> ('r, 'a) Wrapper" where
  "count_received w = w\<lparr>w_metrics := (w_metrics w)\<lparr>vm_DeltasReceived := vm_DeltasReceived (w_metrics w) + 1\<rparr>\<rparr>"

definition wrapper_Get :: "('r, 'a, 'm) root_ops_scheme \<Rightarrow> ('r, 'a) Wrapper \<Rightarrow> ('a \<times> ('r, 'a) Wrapper) outcome" where
  "wrapper_Get ops w =
     (let w = count_read w in bind_outcome (ro_Get ops (w_root w)) (\<lambda>(v, r). Ret (v, w\<lparr>w_root := r\<rparr>)))"

text \<open>The calls for one batch of subscribers.\<close>

definition calls_for :: "'a \<Rightarrow> 'a \<Rightarrow> nat option list \<Rightarrow> (nat \<times> 'a \<times> 'a) list" where
  "calls_for old v batch = [(the cb, old, v). cb \<leftarrow> batch, cb \<noteq> None]"

text \<open>The write before the notification: the old value is read from the root, not counted as a read.\<close>

definition set_root ::
    "('r, 'a, 'm) root_ops_scheme \<Rightarrow> ('r, 'a) Wrapper \<Rightarrow> 'a \<Rightarrow> ('a \<times> ('r, 'a) Wrapper) outcome" where
  "set_root ops w v =
     bind_outcome (ro_Get ops (w_root w)) (\<lambda>(old, r).
     bind_outcome (ro_Set ops r v) (\<lambda>r. Ret (old, count_write (w\<lparr>w_root := r\<rparr>))))"

text \<open>
  \<open>Set\<close> of the atomic and the sharded wrapper: the subscribers are handed out in batches of three. A
  batching that does not return blocks the caller.
\<close>

definition batched_Set ::
    "('r, 'a, 'm) root_ops_scheme \<Rightarrow> ('r, 'a) Wrapper \<Rightarrow> 'a \<Rightarrow> ('r, 'a) Wrapper outcome" where
  "batched_Set ops w v =
     bind_outcome (set_root ops w v) (\<lambda>(old, w).
       case Batch (From (w_subscribers w)) 3 of
         None \<Rightarrow> Blocked
       | Some batches \<Rightarrow> bind_outcome batches (\<lambda>batches.
           Ret (w\<lparr>w_calls := w_calls w @ concat (map (calls_for old v) batches)\<rparr>)))"

text \<open>The notification by one goroutine that calls the subscribers one after the other.\<close>

definition notify_in_turn :: "'a \<Rightarrow> 'a \<Rightarrow> ('r, 'a) Wrapper \<Rightarrow> ('r, 'a) Wrapper" where
  "notify_in_turn old v w = w\<lparr>w_calls := w_calls w @ calls_for old v (w_subscribers w)\<rparr>"

definition serial_Set ::
    "('r, 'a, 'm) root_ops_scheme \<Rightarrow> ('r, 'a) Wrapper \<Rightarrow> 'a \<Rightarrow> ('r, 'a) Wrapper outcome" where
  "serial_Set ops w v = bind_outcome (set_root ops w v) (\<lambda>(old, w). Ret (notify_in_turn old v w))"

definition zero_delta :: "'a \<Rightarrow> 'a Delta" where
  "zero_delta zero = \<lparr>d_Version = 0, d_Value = zero, d_Timestamp = 0, d_ClientID = [], d_OpType = OpSet\<rparr>"

text \<open>\<open>zero\<close> is the zero value of the element type and \<open>now\<close> the time.\<close>

definition wrapper_Delta ::
    "('r, 'a, 'm) root_ops_scheme \<Rightarrow> 'a \<Rightarrow> int64 \<Rightarrow> uint64 \<Rightarrow> ('r, 'a) Wrapper \<Rightarrow> ('a Delta \<times> ('r, 'a) Wrapper) outcome" where
  "wrapper_Delta ops zero now since w =
     (if since < ro_Version ops (w_root w) then
        (let w = w\<lparr>w_metrics := (w_metrics w)\<lparr>vm_DeltasSent := vm_DeltasSent (w_metrics w) + 1\<rparr>\<rparr>;
             version = ro_Version ops (w_root w)
         in bind_outcome (wrapper_Get ops w) (\<lambda>(v, w).
              Ret (\<lparr>d_Version = version, d_Value = v, d_Timestamp = now, d_ClientID = [], d_OpType = OpSet\<rparr>, w)))
      else Ret (zero_delta zero, w))"

definition wrapper_Marshal ::
    "('r, 'a, 'm) root_ops_scheme \<Rightarrow> ('r, 'a) Wrapper \<Rightarrow> ((go_err + string) \<times> ('r, 'a) Wrapper) outcome" where
  "wrapper_Marshal ops w =
     bind_outcome (wrapper_Get ops w) (\<lambda>(v, w).
       case w_marshaler w of None \<Rightarrow> Panic NilDereference | Some m \<Rightarrow> Ret (ma_Marshal m v, w))"

definition wrapper_Unmarshal ::
    "(('r, 'a) Wrapper \<Rightarrow> 'a \<Rightarrow> ('r, 'a) Wrapper outcome) \<Rightarrow> string \<Rightarrow> ('r, 'a) Wrapper \<Rightarrow> (go_err option \<times> ('r, 'a) Wrapper) outcome" where
  "wrapper_Unmarshal set_op d w = (case w_marshaler w of
       None \<Rightarrow> Panic NilDereference
     | Some m \<Rightarrow>
         (case ma_Unmarshal m d of
            Inr v \<Rightarrow> bind_outcome (set_op w v) (\<lambda>w. Ret (None, w))
          | Inl err \<Rightarrow> Ret (Some err, count_error w)))"

definition wrapper_SetResolver :: "'a ConflictResolver option \<Rightarrow> ('r, 'a) Wrapper \<Rightarrow> ('r, 'a) Wrapper" where
  "wrapper_SetResolver resolver w = w\<lparr>w_resolver := resolver\<rparr>"

definition wrapper_OnChange :: "nat option \<Rightarrow> ('r, 'a) Wrapper \<Rightarrow> ('r, 'a) Wrapper" where
  "wrapper_OnChange callback w = w\<lparr>w_subscribers := w_subscribers w @ [callback]\<rparr>"

definition wrapper_OnConflict :: "('a \<Rightarrow> 'a \<Rightarrow> 'a) \<Rightarrow> ('r, 'a) Wrapper \<Rightarrow> ('r, 'a) Wrapper" where
  "wrapper_OnConflict callback w = w\<lparr>w_resolver := Some (callbackResolver callback)\<rparr>"

definition wrapper_CheckRead :: "('r, 'a) Wrapper \<Rightarrow> string \<Rightarrow> bool" where
  "wrapper_CheckRead w clientID =
     (if length (perm_Read (w_permissions w)) = 0 then True else clientID \<in> set (perm_Read (w_permissions w)))"

definition wrapper_CheckWrite :: "('r, 'a) Wrapper \<Rightarrow> string \<Rightarrow> bool" where
  "wrapper_CheckWrite w clientID =
     (if length (perm_Write (w_permissions w)) = 0 then True else clientID \<in> set (perm_Write (w_permissions w)))"

definition wrapper_SetPermissions :: "Permissions \<Rightarrow> ('r, 'a) Wrapper \<Rightarrow> ('r, 'a) Wrapper" where
  "wrapper_SetPermissions p w = w\<lparr>w_permissions := p\<rparr>"

definition wrapper_Close :: "('r, 'a) Wrapper \<Rightarrow> ('r, 'a) Wrapper" where
  "wrapper_Close w = w\<lparr>w_subscribers := [], w_resolver := None\<rparr>"

section \<open>The three wrappers\<close>

subsection \<open>AtomicWrapper\<close>

definition NewAtomicWrapper :: "'r \<Rightarrow> ('r, 'a) Wrapper" where
  "NewAtomicWrapper root = wrapper_New root"

definition AtomicWrapper_Get :: "('r, 'a, 'm) root_ops_scheme \<Rightarrow> ('r, 'a) Wrapper \<Rightarrow> ('a \<times> ('r, 'a) Wrapper) outcome" where
  "AtomicWrapper_Get ops w = wrapper_Get ops w"

definition AtomicWrapper_Set :: "('r, 'a, 'm) root_ops_scheme \<Rightarrow> ('r, 'a) Wrapper \<Rightarrow> 'a \<Rightarrow> ('r, 'a) Wrapper outcome" where
  "AtomicWrapper_Set ops w v = batched_Set ops w v"

definition AtomicWrapper_Version :: "('r, 'a, 'm) root_ops_scheme \<Rightarrow> ('r, 'a) Wrapper \<Rightarrow> uint64" where
  "AtomicWrapper_Version ops w = ro_Version ops (w_root w)"

definition AtomicWrapper_IsDirty :: "('r, 'a, 'm) root_ops_scheme \<Rightarrow> ('r, 'a) Wrapper \<Rightarrow> bool" where
  "AtomicWrapper_IsDirty ops w = ro_IsDirty ops (w_root w)"

definition AtomicWrapper_MarkClean :: "('r, 'a, 'm) root_ops_scheme \<Rightarrow> ('r, 'a) Wrapper \<Rightarrow> ('r, 'a) Wrapper" where
  "AtomicWrapper_MarkClean ops w = w\<lparr>w_root := ro_MarkClean ops (w_root w)\<rparr>"

definition AtomicWrapper_Delta :: "('r, 'a, 'm) root_ops_scheme \<Rightarrow> 'a \<Rightarrow> int64 \<Rightarrow> uint64 \<Rightarrow> ('r, 'a) Wrapper \<Rightarrow> ('a Delta \<times> ('r, 'a) Wrapper) outcome" where
  "AtomicWrapper_Delta ops zero now since w = wrapper_Delta ops zero now since w"

definition AtomicWrapper_SetResolver :: "'a ConflictResolver option \<Rightarrow> ('r, 'a) Wrapper \<Rightarrow> ('r, 'a) Wrapper" where
  "AtomicWrapper_SetResolver resolver w = wrapper_SetResolver resolver w"

definition AtomicWrapper_Marshal :: "('r, 'a, 'm) root_ops_scheme \<Rightarrow> ('r, 'a) Wrapper \<Rightarrow> ((go_err + string) \<times> ('r, 'a) Wrapper) outcome" where
  "AtomicWrapper_Marshal ops w = wrapper_Marshal ops w"

definition AtomicWrapper_Unmarshal :: "('r, 'a, 'm) root_ops_scheme \<Rightarrow> string \<Rightarrow> ('r, 'a) Wrapper \<Rightarrow> (go_err option \<times> ('r, 'a) Wrapper) outcome" where
  "AtomicWrapper_Unmarshal ops d w = wrapper_Unmarshal (AtomicWrapper_Set ops) d w"

definition AtomicWrapper_Serialize :: "('r, 'a, 'm) root_ops_scheme \<Rightarrow> ('r, 'a) Wrapper \<Rightarrow> ((go_err + string) \<times> ('r, 'a) Wrapper) outcome" where
  "AtomicWrapper_Serialize ops w = AtomicWrapper_Marshal ops w"

definition AtomicWrapper_Deserialize :: "('r, 'a, 'm) root_ops_scheme \<Rightarrow> string \<Rightarrow> ('r, 'a) Wrapper \<Rightarrow> (go_err option \<times> ('r, 'a) Wrapper) outcome" where
  "AtomicWrapper_Deserialize ops d w = AtomicWrapper_Unmarshal ops d w"

definition AtomicWrapper_OnChange :: "nat option \<Rightarrow> ('r, 'a) Wrapper \<Rightarrow> ('r, 'a) Wrapper" where
  "AtomicWrapper_OnChange callback w = wrapper_OnChange callback w"

definition AtomicWrapper_OnConflict :: "('a \<Rightarrow> 'a \<Rightarrow> 'a) \<Rightarrow> ('r, 'a) Wrapper \<Rightarrow> ('r, 'a) Wrapper" where
  "AtomicWrapper_OnConflict callback w = wrapper_OnConflict callback w"

definition AtomicWrapper_Metrics :: "('r, 'a) Wrapper \<Rightarrow> VariableMetrics" where
  "AtomicWrapper_Metrics w = w_metrics w"

definition AtomicWrapper_CheckRead :: "('r, 'a) Wrapper \<Rightarrow> string \<Rightarrow> bool" where
  "AtomicWrapper_CheckRead w clientID = wrapper_CheckRead w clientID"

definition AtomicWrapper_CheckWrite :: "('r, 'a) Wrapper \<Rightarrow> string \<Rightarrow> bool" where
  "AtomicWrapper_CheckWrite w clientID = wrapper_CheckWrite w clientID"

definition AtomicWrapper_SetPermissions :: "Permissions \<Rightarrow> ('r, 'a) Wrapper \<Rightarrow> ('r, 'a) Wrapper" where
  "AtomicWrapper_SetPermissions p w = wrapper_SetPermissions p w"

definition AtomicWrapper_ApplyDelta :: "('r, 'a) atomic_ops \<Rightarrow> ('r, 'a) Wrapper \<Rightarrow> 'a Delta list \<Rightarrow> ('r, 'a) Wrapper outcome" where
  "AtomicWrapper_ApplyDelta ops w deltas =
     bind_outcome (ao_ApplyDeltas ops (w_root w) deltas) (\<lambda>(v, r). Ret (count_received (w\<lparr>w_root := r\<rparr>)))"

definition AtomicWrapper_Close :: "('r, 'a) Wrapper \<Rightarrow> ('r, 'a) Wrapper" where
  "AtomicWrapper_Close w = wrapper_Close w"

subsection \<open>ChannelWrapper\<close>

definition NewChannelWrapper :: "'r \<Rightarrow> ('r, 'a) Wrapper" where
  "NewChannelWrapper root = wrapper_New root"

definition ChannelWrapper_Get :: "('r, 'a, 'm) root_ops_scheme \<Rightarrow> ('r, 'a) Wrapper \<Rightarrow> ('a \<times> ('r, 'a) Wrapper) outcome" where
  "ChannelWrapper_Get ops w = wrapper_Get ops w"

definition ChannelWrapper_Set :: "('r, 'a, 'm) root_ops_scheme \<Rightarrow> ('r, 'a) Wrapper \<Rightarrow> 'a \<Rightarrow> ('r, 'a) Wrapper outcome" where
  "ChannelWrapper_Set ops w v = serial_Set ops w v"

definition ChannelWrapper_Version :: "('r, 'a, 'm) root_ops_scheme \<Rightarrow> ('r, 'a) Wrapper \<Rightarrow> uint64" where
  "ChannelWrapper_Version ops w = ro_Version ops (w_root w)"

definition ChannelWrapper_IsDirty :: "('r, 'a, 'm) root_ops_scheme \<Rightarrow> ('r, 'a) Wrapper \<Rightarrow> bool" where
  "ChannelWrapper_IsDirty ops w = ro_IsDirty ops (w_root w)"

definition ChannelWrapper_MarkClean :: "('r, 'a, 'm) root_ops_scheme \<Rightarrow> ('r, 'a) Wrapper \<Rightarrow> ('r, 'a) Wrapper" where
  "ChannelWrapper_MarkClean ops w = w\<lparr>w_root := ro_MarkClean ops (w_root w)\<rparr>"

definition ChannelWrapper_Delta :: "('r, 'a, 'm) root_ops_scheme \<Rightarrow> 'a \<Rightarrow> int64 \<Rightarrow> uint64 \<Rightarrow> ('r, 'a) Wrapper \<Rightarrow> ('a Delta \<times> ('r, 'a) Wrapper) outcome" where
  "ChannelWrapper_Delta ops zero now since w = wrapper_Delta ops zero now since w"

definition ChannelWrapper_SetResolver :: "'a ConflictResolver option \<Rightarrow> ('r, 'a) Wrapper \<Rightarrow> ('r, 'a) Wrapper" where
  "ChannelWrapper_SetResolver resolver w = wrapper_SetResolver resolver w"

definition ChannelWrapper_Marshal :: "('r, 'a, 'm) root_ops_scheme \<Rightarrow> ('r, 'a) Wrapper \<Rightarrow> ((go_err + string) \<times> ('r, 'a) Wrapper) outcome" where
  "ChannelWrapper_Marshal ops w = wrapper_Marshal ops w"

definition ChannelWrapper_Unmarshal :: "('r, 'a, 'm) root_ops_scheme \<Rightarrow> string \<Rightarrow> ('r, 'a) Wrapper \<Rightarrow> (go_err option \<times> ('r, 'a) Wrapper) outcome" where
  "ChannelWrapper_Unmarshal ops d w = wrapper_Unmarshal (ChannelWrapper_Set ops) d w"

definition ChannelWrapper_Serialize :: "('r, 'a, 'm) root_ops_scheme \<Rightarrow> ('r, 'a) Wrapper \<Rightarrow> ((go_err + string) \<times> ('r, 'a) Wrapper) outcome" where
  "ChannelWrapper_Serialize ops w = ChannelWrapper_Marshal ops w"

definition ChannelWrapper_Deserialize :: "('r, 'a, 'm) root_ops_scheme \<Rightarrow> string \<Rightarrow> ('r, 'a) Wrapper \<Rightarrow> (go_err option \<times> ('r, 'a) Wrapper) outcome" where
  "ChannelWrapper_Deserialize ops d w = ChannelWrapper_Unmarshal ops d w"

definition ChannelWrapper_OnChange :: "nat option \<Rightarrow> ('r, 'a) Wrapper \<Rightarrow> ('r, 'a) Wrapper" where
  "ChannelWrapper_OnChange callback w = wrapper_OnChange callback w"

definition ChannelWrapper_OnConflict :: "('a \<Rightarrow> 'a \<Rightarrow> 'a) \<Rightarrow> ('r, 'a) Wrapper \<Rightarrow> ('r, 'a) Wrapper" where
  "ChannelWrapper_OnConflict callback w = wrapper_OnConflict callback w"

definition ChannelWrapper_Metrics :: "('r, 'a) Wrapper \<Rightarrow> VariableMetrics" where
  "ChannelWrapper_Metrics w = w_metrics w"

definition ChannelWrapper_CheckRead :: "('r, 'a) Wrapper \<Rightarrow> string \<Rightarrow> bool" where
  "ChannelWrapper_CheckRead w clientID = wrapper_CheckRead w clientID"

definition ChannelWrapper_CheckWrite :: "('r, 'a) Wrapper \<Rightarrow> string \<Rightarrow> bool" where
  "ChannelWrapper_CheckWrite w clientID = wrapper_CheckWrite w clientID"

definition ChannelWrapper_SetPermissions :: "Permissions \<Rightarrow> ('r, 'a) Wrapper \<Rightarrow> ('r, 'a) Wrapper" where
  "ChannelWrapper_SetPermissions p w = wrapper_SetPermissions p w"

text \<open>Each delta but a delete is sent; whether the send succeeds is not looked at.\<close>

fun send_deltas :: "('r, 'a) chan_root_ops \<Rightarrow> 'r \<Rightarrow> 'a Delta list \<Rightarrow> 'r outcome" where
  "send_deltas ops r [] = Ret r"
| "send_deltas ops r (d # ds) =
     (case d_OpType d of
        OpDelete \<Rightarrow> send_deltas ops r ds
      | _ \<Rightarrow> bind_outcome (cr_Send ops r (d_Value d)) (\<lambda>(sent, r). send_deltas ops r ds))"

definition ChannelWrapper_ApplyDelta :: "('r, 'a) chan_root_ops \<Rightarrow> ('r, 'a) Wrapper \<Rightarrow> 'a Delta list \<Rightarrow> ('r, 'a) Wrapper outcome" where
  "ChannelWrapper_ApplyDelta ops w deltas =
     bind_outcome (send_deltas ops (w_root w) deltas) (\<lambda>r. Ret (count_received (w\<lparr>w_root := r\<rparr>)))"

definition ChannelWrapper_Close :: "('r, 'a) chan_root_ops \<Rightarrow> ('r, 'a) Wrapper \<Rightarrow> (go_err option \<times> ('r, 'a) Wrapper) outcome" where
  "ChannelWrapper_Close ops w =
     bind_outcome (cr_Close ops (w_root w)) (\<lambda>(err, r). Ret (err, (wrapper_Close w)\<lparr>w_root := r\<rparr>))"

definition ChannelWrapper_Send :: "('r, 'a) chan_root_ops \<Rightarrow> ('r, 'a) Wrapper \<Rightarrow> 'a \<Rightarrow> (bool \<times> ('r, 'a) Wrapper) outcome" where
  "ChannelWrapper_Send ops w v =
     (let w = count_write w in bind_outcome (cr_Send ops (w_root w) v) (\<lambda>(ok, r). Ret (ok, w\<lparr>w_root := r\<rparr>)))"

definition ChannelWrapper_Receive :: "('r, 'a) chan_root_ops \<Rightarrow> ('r, 'a) Wrapper \<Rightarrow> (('a \<times> bool) \<times> ('r, 'a) Wrapper) outcome" where
  "ChannelWrapper_Receive ops w =
     (let w = count_read w in bind_outcome (cr_Receive ops (w_root w)) (\<lambda>(x, r). Ret (x, w\<lparr>w_root := r\<rparr>)))"

definition ChannelWrapper_SendBlocking :: "('r, 'a) chan_root_ops \<Rightarrow> ('r, 'a) Wrapper \<Rightarrow> 'a \<Rightarrow> ('r, 'a) Wrapper outcome" where
  "ChannelWrapper_SendBlocking ops w v =
     (let w = count_write w in bind_outcome (cr_SendBlocking ops (w_root w) v) (\<lambda>r. Ret (w\<lparr>w_root := r\<rparr>)))"

definition ChannelWrapper_ReceiveBlocking :: "('r, 'a) chan_root_ops \<Rightarrow> ('r, 'a) Wrapper \<Rightarrow> ('a \<times> ('r, 'a) Wrapper) outcome" where
  "ChannelWrapper_ReceiveBlocking ops w =
     (let w = count_read w in bind_outcome (cr_ReceiveBlocking ops (w_root w)) (\<lambda>(v, r). Ret (v, w\<lparr>w_root := r\<rparr>)))"

definition ChannelWrapper_BufferSize :: "('r, 'a) chan_root_ops \<Rightarrow> ('r, 'a) Wrapper \<Rightarrow> int" where
  "ChannelWrapper_BufferSize ops w = cr_BufferSize ops (w_root w)"

definition ChannelWrapper_SetBufferSize :: "('r, 'a) chan_root_ops \<Rightarrow> ('r, 'a) Wrapper \<Rightarrow> int \<Rightarrow> (go_err option \<times> ('r, 'a) Wrapper) outcome" where
  "ChannelWrapper_SetBufferSize ops w n =
     bind_outcome (cr_SetBufferSize ops (w_root w) n) (\<lambda>(err, r). Ret (err, w\<lparr>w_root := r\<rparr>))"

subsection \<open>ShardedWrapper\<close>

definition NewShardedWrapper :: "'r \<Rightarrow> ('r, 'a) Wrapper" where
  "NewShardedWrapper root = wrapper_New root"

definition ShardedWrapper_Get :: "('r, 'a, 'm) root_ops_scheme \<Rightarrow> ('r, 'a) Wrapper \<Rightarrow> ('a \<times> ('r, 'a) Wrapper) outcome" where
  "ShardedWrapper_Get ops w = wrapper_Get ops w"

definition ShardedWrapper_Set :: "('r, 'a, 'm) root_ops_scheme \<Rightarrow> ('r, 'a) Wrapper \<Rightarrow> 'a \<Rightarrow> ('r, 'a) Wrapper outcome" where
  "ShardedWrapper_Set ops w v = batched_Set ops w v"

definition ShardedWrapper_Version :: "('r, 'a, 'm) root_ops_scheme \<Rightarrow> ('r, 'a) Wrapper \<Rightarrow> uint64" where
  "ShardedWrapper_Version ops w = ro_Version ops (w_root w)"

definition ShardedWrapper_IsDirty :: "('r, 'a, 'm) root_ops_scheme \<Rightarrow> ('r, 'a) Wrapper \<Rightarrow> bool" where
  "ShardedWrapper_IsDirty ops w = ro_IsDirty ops (w_root w)"

definition ShardedWrapper_MarkClean :: "('r, 'a, 'm) root_ops_scheme \<Rightarrow> ('r, 'a) Wrapper \<Rightarrow> ('r, 'a) Wrapper" where
  "ShardedWrapper_MarkClean ops w = w\<lparr>w_root := ro_MarkClean ops (w_root w)\<rparr>"

definition ShardedWrapper_Delta :: "('r, 'a, 'm) root_ops_scheme \<Rightarrow> 'a \<Rightarrow> int64 \<Rightarrow> uint64 \<Rightarrow> ('r, 'a) Wrapper \<Rightarrow> ('a Delta \<times> ('r, 'a) Wrapper) outcome" where
  "ShardedWrapper_Delta ops zero now since w = wrapper_Delta ops zero now since w"

definition ShardedWrapper_SetResolver :: "'a ConflictResolver option \<Rightarrow> ('r, 'a) Wrapper \<Rightarrow> ('r, 'a) Wrapper" where
  "ShardedWrapper_SetResolver resolver w = wrapper_SetResolver resolver w"

definition ShardedWrapper_Marshal :: "('r, 'a, 'm) root_ops_scheme \<Rightarrow> ('r, 'a) Wrapper \<Rightarrow> ((go_err + string) \<times> ('r, 'a) Wrapper) outcome" where
  "ShardedWrapper_Marshal ops w = wrapper_Marshal ops w"

definition ShardedWrapper_Unmarshal :: "('r, 'a, 'm) root_ops_scheme \<Rightarrow> string \<Rightarrow> ('r, 'a) Wrapper \<Rightarrow> (go_err option \<times> ('r, 'a) Wrapper) outcome" where
  "ShardedWrapper_Unmarshal ops d w = wrapper_Unmarshal (ShardedWrapper_Set ops) d w"

definition ShardedWrapper_Serialize :: "('r, 'a, 'm) root_ops_scheme \<Rightarrow> ('r, 'a) Wrapper \<Rightarrow> ((go_err + string) \<times> ('r, 'a) Wrapper) outcome" where
  "ShardedWrapper_Serialize ops w = ShardedWrapper_Marshal ops w"

definition ShardedWrapper_Deserialize :: "('r, 'a, 'm) root_ops_scheme \<Rightarrow> string \<Rightarrow> ('r, 'a) Wrapper \<Rightarrow> (go_err option \<times> ('r, 'a) Wrapper) outcome" where
  "ShardedWrapper_Deserialize ops d w = ShardedWrapper_Unmarshal ops d w"

definition ShardedWrapper_OnChange :: "nat option \<Rightarrow> ('r, 'a) Wrapper \<Rightarrow> ('r, 'a) Wrapper" where
  "ShardedWrapper_OnChange callback w = wrapper_OnChange callback w"

definition ShardedWrapper_OnConflict :: "('a \<Rightarrow> 'a \<Rightarrow> 'a) \<Rightarrow> ('r, 'a) Wrapper \<Rightarrow> ('r, 'a) Wrapper" where
  "ShardedWrapper_OnConflict callback w = wrapper_OnConflict callback w"

definition ShardedWrapper_Metrics :: "('r, 'a) Wrapper \<Rightarrow> VariableMetrics" where
  "ShardedWrapper_Metrics w = w_metrics w"

definition ShardedWrapper_CheckRead :: "('r, 'a) Wrapper \<Rightarrow> string \<Rightarrow> bool" where
  "ShardedWrapper_CheckRead w clientID = wrapper_CheckRead w clientID"

definition ShardedWrapper_CheckWrite :: "('r, 'a) Wrapper \<Rightarrow> string \<Rightarrow> bool" where
  "ShardedWrapper_CheckWrite w clientID = wrapper_CheckWrite w clientID"

definition ShardedWrapper_SetPermissions :: "Permissions \<Rightarrow> ('r, 'a) Wrapper \<Rightarrow> ('r, 'a) Wrapper" where
  "ShardedWrapper_SetPermissions p w = wrapper_SetPermissions p w"

text \<open>Each delta but a delete is a write to the default shard.\<close>

fun set_deltas :: "('r, 'a, 'm) root_ops_scheme \<Rightarrow> 'r \<Rightarrow> 'a Delta list \<Rightarrow> 'r outcome" where
  "set_deltas ops r [] = Ret r"
| "set_deltas ops r (d # ds) =
     (case d_OpType d of
        OpDelete \<Rightarrow> set_deltas ops r ds
      | _ \<Rightarrow> bind_outcome (ro_Set ops r (d_Value d)) (\<lambda>r. set_deltas ops r ds))"

definition ShardedWrapper_ApplyDelta :: "('r, 'a, 'm) root_ops_scheme \<Rightarrow> ('r, 'a) Wrapper \<Rightarrow> 'a Delta list \<Rightarrow> ('r, 'a) Wrapper outcome" where
  "ShardedWrapper_ApplyDelta ops w deltas =
     bind_outcome (set_deltas ops (w_root w) deltas) (\<lambda>r. Ret (count_received (w\<lparr>w_root := r\<rparr>)))"

definition ShardedWrapper_Close :: "('r, 'a) Wrapper \<Rightarrow> ('r, 'a) Wrapper" where
  "ShardedWrapper_Close w = wrapper_Close w"

definition ShardedWrapper_GetShard :: "('r, 'a) sharded_ops \<Rightarrow> ('r, 'a) Wrapper \<Rightarrow> string \<Rightarrow> ('a \<times> ('r, 'a) Wrapper) outcome" where
  "ShardedWrapper_GetShard ops w shardKey =
     (let w = count_read w in bind_outcome (so_GetShard ops (w_root w) shardKey) (\<lambda>(v, r). Ret (v, w\<lparr>w_root := r\<rparr>)))"

definition ShardedWrapper_SetShard :: "('r, 'a) sharded_ops \<Rightarrow> ('r, 'a) Wrapper \<Rightarrow> string \<Rightarrow> 'a \<Rightarrow> ('r, 'a) Wrapper outcome" where
  "ShardedWrapper_SetShard ops w shardKey v =
     bind_outcome (so_GetShard ops (w_root w) shardKey) (\<lambda>(old, r).
     bind_outcome (so_SetShard ops r shardKey v) (\<lambda>r. Ret (notify_in_turn old v (count_write (w\<lparr>w_root := r\<rparr>)))))"

definition ShardedWrapper_GetShardCount :: "('r, 'a) sharded_ops \<Rightarrow> ('r, 'a) Wrapper \<Rightarrow> int" where
  "ShardedWrapper_GetShardCount ops w = so_GetShardCount ops (w_root w)"

definition ShardedWrapper_ForEachShard :: "('r, 'a) sharded_ops \<Rightarrow> ('r, 'a) Wrapper \<Rightarrow> (int \<Rightarrow> 'a \<Rightarrow> bool) \<Rightarrow> (int \<times> 'a) list" where
  "ShardedWrapper_ForEachShard ops w action = so_ForEachShard ops (w_root w) action"

definition ShardedWrapper_MergeShard :: "('r, 'a) sharded_ops \<Rightarrow> ('r, 'a) Wrapper \<Rightarrow> ('a list \<Rightarrow> 'a) \<Rightarrow> ('a \<times> ('r, 'a) Wrapper) outcome" where
  "ShardedWrapper_MergeShard ops w merge =
     (let w = count_read w in bind_outcome (so_MergeShard ops (w_root w) merge) (\<lambda>v. Ret (v, w)))"

section \<open>VariableWrapper\<close>

record ('r, 'a) VariableWrapper =
  v_core :: 'r
  v_subscribers :: "nat option list"
  v_calls :: "(nat \<times> 'a \<times> 'a) list"

text \<open>A core, with its \<open>CompareAndSwap\<close> if it has that method.\<close>

record ('r, 'a) core_ops = "('r, 'a) root_ops" +
  co_CompareAndSwap :: "('r \<Rightarrow> 'a \<Rightarrow> 'a \<Rightarrow> bool \<times> 'r) option"
  co_Close :: "'r \<Rightarrow> (go_err option \<times> 'r) outcome"

definition NewVariableWrapper :: "'r \<Rightarrow> ('r, 'a) VariableWrapper" where
  "NewVariableWrapper core = \<lparr>v_core = core, v_subscribers = [], v_calls = []\<rparr>"

definition VariableWrapper_Get :: "('r, 'a) core_ops \<Rightarrow> ('r, 'a) VariableWrapper \<Rightarrow> ('a \<times> ('r, 'a) VariableWrapper) outcome" where
  "VariableWrapper_Get ops v = bind_outcome (ro_Get ops (v_core v)) (\<lambda>(x, r). Ret (x, v\<lparr>v_core := r\<rparr>))"

definition v_notify :: "'a \<Rightarrow> 'a \<Rightarrow> ('r, 'a) VariableWrapper \<Rightarrow> ('r, 'a) VariableWrapper" where
  "v_notify old new v = v\<lparr>v_calls := v_calls v @ calls_for old new (v_subscribers v)\<rparr>"

definition VariableWrapper_Set :: "('r, 'a) core_ops \<Rightarrow> ('r, 'a) VariableWrapper \<Rightarrow> 'a \<Rightarrow> ('r, 'a) VariableWrapper outcome" where
  "VariableWrapper_Set ops v x =
     bind_outcome (ro_Get ops (v_core v)) (\<lambda>(old, r).
     bind_outcome (ro_Set ops r x) (\<lambda>r. Ret (v_notify old x (v\<lparr>v_core := r\<rparr>))))"

text \<open>
  \<open>Update\<close>. Other goroutines may change the core after the value has been read and before it is
  written: \<open>env i\<close> is what they do to it in the \<open>i\<close>-th attempt. The fuel bounds the attempts.
\<close>

fun VariableWrapper_Update ::
    "('r, 'a) core_ops \<Rightarrow> (nat \<Rightarrow> 'r \<Rightarrow> 'r) \<Rightarrow> nat \<Rightarrow> nat \<Rightarrow> ('a \<Rightarrow> 'a) \<Rightarrow> ('r, 'a) VariableWrapper \<Rightarrow>
     ('a \<times> ('r, 'a) VariableWrapper) outcome option" where
  "VariableWrapper_Update ops env 0 i callback v = None"
| "VariableWrapper_Update ops env (Suc fuel) i callback v =
     (case ro_Get ops (v_core v) of
        Panic p \<Rightarrow> Some (Panic p)
      | Blocked \<Rightarrow> Some Blocked
      | Ret (current, r) \<Rightarrow>
          (let newValue = callback current; v = v\<lparr>v_core := env i r\<rparr>
           in case co_CompareAndSwap ops of
                Some cas \<Rightarrow>
                  (case cas (v_core v) current newValue of
                     (True, r) \<Rightarrow> Some (Ret (newValue, v_notify current newValue (v\<lparr>v_core := r\<rparr>)))
                   | (False, r) \<Rightarrow> VariableWrapper_Update ops env fuel (i + 1) callback (v\<lparr>v_core := r\<rparr>))
              | None \<Rightarrow> Some (bind_outcome (VariableWrapper_Set ops v newValue) (\<lambda>v. Ret (newValue, v)))))"

text \<open>\<open>Subscribe\<close> returns a function that remembers the index; that function is \<open>unsubscribe\<close>.\<close>

definition VariableWrapper_Subscribe :: "nat option \<Rightarrow> ('r, 'a) VariableWrapper \<Rightarrow> nat \<times> ('r, 'a) VariableWrapper" where
  "VariableWrapper_Subscribe callback v =
     (let subs = v_subscribers v @ [callback] in (length subs - 1, v\<lparr>v_subscribers := subs\<rparr>))"

definition unsubscribe :: "nat \<Rightarrow> ('r, 'a) VariableWrapper \<Rightarrow> ('r, 'a) VariableWrapper" where
  "unsubscribe index v =
     (if index < length (v_subscribers v)
      then v\<lparr>v_subscribers := filter (\<lambda>cb. cb \<noteq> None) ((v_subscribers v)[index := None])\<rparr>
      else v)"

definition VariableWrapper_GetVersion :: "('r, 'a) core_ops \<Rightarrow> ('r, 'a) VariableWrapper \<Rightarrow> uint64" where
  "VariableWrapper_GetVersion ops v = ro_Version ops (v_core v)"

definition VariableWrapper_Close :: "('r, 'a) core_ops \<Rightarrow> ('r, 'a) VariableWrapper \<Rightarrow> (go_err option \<times> ('r, 'a) VariableWrapper) outcome" where
  "VariableWrapper_Close ops v =
     (let v = v\<lparr>v_subscribers := []\<rparr> in bind_outcome (co_Close ops (v_core v)) (\<lambda>(err, r). Ret (err, v\<lparr>v_core := r\<rparr>)))"

section \<open>Wrapping a root\<close>

text \<open>
  What a wrapper relies on: reading gives the current value and leaves it and the version alone, writing
  replaces it and counts one version. A root that takes deltas adopts the value of a set.
\<close>

locale wrapped_root =
  fixes ops :: "('r, 'a, 'm) root_ops_scheme" and cur :: "'r \<Rightarrow> 'a" and invar :: "'r \<Rightarrow> bool"
  assumes get_ok: "invar r \<Longrightarrow> \<exists>r'. ro_Get ops r = Ret (cur r, r') \<and> invar r' \<and> cur r' = cur r \<and> ro_Version ops r' = ro_Version ops r"
    and set_ok: "invar r \<Longrightarrow> \<exists>r'. ro_Set ops r v = Ret r' \<and> invar r' \<and> cur r' = v \<and> ro_Version ops r' = ro_Version ops r + 1"
begin

lemma set_root_ok:
  assumes "invar (w_root w)"
  shows "\<exists>r'. set_root ops w v = Ret (cur (w_root w), count_write (w\<lparr>w_root := r'\<rparr>)) \<and> invar r' \<and> cur r' = v \<and>
    ro_Version ops r' = ro_Version ops (w_root w) + 1"
proof -
  from get_ok [OF assms] obtain r1 where r1: "ro_Get ops (w_root w) = Ret (cur (w_root w), r1)" "invar r1"
    "ro_Version ops r1 = ro_Version ops (w_root w)" by blast
  from set_ok [OF r1(2), of v] obtain r2 where "ro_Set ops r1 v = Ret r2" "invar r2" "cur r2 = v"
    "ro_Version ops r2 = ro_Version ops r1 + 1" by blast
  with r1 show ?thesis by (intro exI [of _ r2]) (simp add: set_root_def)
qed

lemma wrapper_Get_ok:
  assumes "invar (w_root w)"
  shows "\<exists>r'. wrapper_Get ops w = Ret (cur (w_root w), (count_read w)\<lparr>w_root := r'\<rparr>) \<and> invar r' \<and> cur r' = cur (w_root w)"
  using get_ok [OF assms] by (auto simp: wrapper_Get_def count_read_def)

end

locale delta_root = wrapped_root +
  fixes apply_deltas :: "'r \<Rightarrow> 'a Delta list \<Rightarrow> 'r outcome"
  assumes apply_set: "invar r \<Longrightarrow> d_OpType d = OpSet \<Longrightarrow> \<exists>r'. apply_deltas r [d] = Ret r' \<and> invar r' \<and> cur r' = d_Value d"
begin

lemma transfer:
  assumes "invar (w_root src)" "invar r"
  shows "\<exists>d src' r'. wrapper_Delta ops zero now since src = Ret (d, src') \<and> apply_deltas r [d] = Ret r' \<and>
    cur r' = (if since < ro_Version ops (w_root src) then cur (w_root src) else zero) \<and> invar r'"
proof -
  have "\<exists>d src'. wrapper_Delta ops zero now since src = Ret (d, src') \<and> d_OpType d = OpSet \<and>
      d_Value d = (if since < ro_Version ops (w_root src) then cur (w_root src) else zero) \<and> cur (w_root src') = cur (w_root src)"
  proof (cases "since < ro_Version ops (w_root src)")
    case True
    define w where "w = src\<lparr>w_metrics := (w_metrics src)\<lparr>vm_DeltasSent := vm_DeltasSent (w_metrics src) + 1\<rparr>\<rparr>"
    have "invar (w_root w)" using assms by (simp add: w_def)
    from wrapper_Get_ok [OF this] True show ?thesis by (auto simp: wrapper_Delta_def w_def [symmetric]) (simp add: w_def)
  next
    case False
    then show ?thesis by (simp add: wrapper_Delta_def zero_delta_def)
  qed
  with apply_set [OF assms(2)] show ?thesis by metis
qed

end

lemma calls_for_append: "calls_for old v (xs @ ys) = calls_for old v xs @ calls_for old v ys"
  by (simp add: calls_for_def)

lemma calls_for_batches: "concat (map (calls_for old v) bs) = calls_for old v (concat bs)"
  by (induction bs) (simp_all add: calls_for_append, simp add: calls_for_def)

lemma batch_of_three: "Batch (From xs) 3 = Some (Ret (chunks_of 3 xs))"
  using batch_loop_chunks [of 3 0 xs] by (simp add: Batch_def from_slice.collect_all)

lemma batched_Set_serial: "batched_Set ops w v = serial_Set ops w v"
  by (simp add: batched_Set_def serial_Set_def notify_in_turn_def batch_of_three calls_for_batches concat_chunks_of
      cong: outcome.case_cong)

subsection \<open>The roots of the model\<close>

definition int64_root :: "(int64 Atomic, int64) atomic_ops" where
  "int64_root = \<lparr>ro_Get = \<lambda>a. Ret (AtomicInt64_Get a, a), ro_Set = \<lambda>a v. Ret (AtomicInt64_Set a v), ro_Version = AtomicInt64_Version,
     ro_IsDirty = AtomicInt64_IsDirty, ro_MarkClean = AtomicInt64_MarkClean, ao_ApplyDeltas = \<lambda>a ds. Ret (AtomicInt64_ApplyDeltas a ds)\<rparr>"

definition hash_root :: "hash_fun \<Rightarrow> 'a \<Rightarrow> ('a HashSharded, 'a) sharded_ops" where
  "hash_root H zero = \<lparr>ro_Get = \<lambda>h. bind_outcome (HashSharded_Get H h) (\<lambda>v. Ret (v, h)), ro_Set = HashSharded_Set H,
     ro_Version = HashSharded_Version, ro_IsDirty = HashSharded_IsDirty, ro_MarkClean = HashSharded_MarkClean,
     so_GetShard = \<lambda>h k. bind_outcome (HashSharded_GetShard H h k) (\<lambda>v. Ret (v, h)), so_SetShard = HashSharded_SetShard H,
     so_GetShardCount = HashSharded_GetShardCount, so_ForEachShard = HashSharded_ForEachShard,
     so_MergeShard = HashSharded_MergeShard zero\<rparr>"

lemma by_version_one: "by_version [d] = [d]"
  using by_version_mset [of "[d]"] by (metis mset_single_iff mset.simps(1) mset.simps(2) add.left_neutral)

interpretation int64_wrapped: delta_root int64_root AtomicInt64_Get "\<lambda>a. True"
  "\<lambda>a ds. bind_outcome (ao_ApplyDeltas int64_root a ds) (\<lambda>(v, a). Ret a)"
  by unfold_locales (simp_all add: int64_root_def AtomicInt64_Get_def AtomicInt64_Set_def AtomicInt64_Version_def atomic_Set_def
      AtomicInt64_ApplyDeltas_def number_ApplyDeltas_spec sets_in_def by_version_one Let_def)

definition hash_default :: "hash_fun \<Rightarrow> 'a HashSharded \<Rightarrow> 'a" where
  "hash_default H h = sh_value (hs_shards h ! hs_place H h defaultShardKey)"

lemma hash_Get: "hs_inv h \<Longrightarrow> HashSharded_Get H h = Ret (hash_default H h)"
  using hs_index [of h H defaultShardKey] by (simp add: HashSharded_Get_def HashSharded_GetShard_def hash_default_def)

interpretation hash_wrapped: delta_root "hash_root H zero" "hash_default H" hs_inv "set_deltas (hash_root H zero)" for H zero
proof unfold_locales
  fix r :: "'a HashSharded" and v :: 'a
  assume r: "hs_inv r"
  then show "\<exists>r'. ro_Get (hash_root H zero) r = Ret (hash_default H r, r') \<and> hs_inv r' \<and> hash_default H r' = hash_default H r \<and>
      ro_Version (hash_root H zero) r' = ro_Version (hash_root H zero) r"
    by (simp add: hash_root_def hash_Get)
  from hash_sharded.root.set_ok [OF r, of H v] obtain r' where r': "HashSharded_SetShard H r defaultShardKey v = Ret r'" "hs_inv r'"
    "HashSharded_GetShard H r' defaultShardKey = Ret v" "HashSharded_Version r' = HashSharded_Version r + 1" by blast
  with hash_Get [OF r'(2), of H] show set: "\<exists>r'. ro_Set (hash_root H zero) r v = Ret r' \<and> hs_inv r' \<and> hash_default H r' = v \<and>
      ro_Version (hash_root H zero) r' = ro_Version (hash_root H zero) r + 1"
    by (simp add: hash_root_def HashSharded_Set_def HashSharded_Get_def)
next
  fix r :: "'a HashSharded" and d :: "'a Delta"
  assume r: "hs_inv r" "d_OpType d = OpSet"
  from hash_sharded.root.set_ok [OF r(1), of H "d_Value d"] obtain r' where
    r': "HashSharded_SetShard H r defaultShardKey (d_Value d) = Ret r'" "hs_inv r'"
    "HashSharded_GetShard H r' defaultShardKey = Ret (d_Value d)" by blast
  with r(2) hash_Get [OF r'(2), of H]
  show "\<exists>r'. set_deltas (hash_root H zero) r [d] = Ret r' \<and> hs_inv r' \<and> hash_default H r' = d_Value d"
    by (simp add: hash_root_def HashSharded_Set_def HashSharded_Get_def)
qed

section \<open>Properties of the wrappers\<close>

text \<open>
  \<open>Set\<close> of an \<open>AtomicWrapper\<close> around an \<open>AtomicInt64\<close> stores the value, counts one version and one write, and
  leaves a call of every subscriber that is not nil, once, in the order of subscription, with the value it
  replaced and the new one; the batches of three make no difference.
\<close>

theorem wrapper_Set_notifies:
  "\<exists>w'. AtomicWrapper_Set int64_root w v = Ret w' \<and> AtomicInt64_Get (w_root w') = v \<and>
     AtomicInt64_Version (w_root w') = AtomicInt64_Version (w_root w) + 1 \<and>
     vm_Writes (AtomicWrapper_Metrics w') = vm_Writes (AtomicWrapper_Metrics w) + 1 \<and>
     w_calls w' = w_calls w @ [(the cb, AtomicInt64_Get (w_root w), v). cb \<leftarrow> w_subscribers w, cb \<noteq> None]"
proof -
  from int64_wrapped.set_root_ok [of w v] obtain r' where "set_root int64_root w v = Ret (AtomicInt64_Get (w_root w), count_write (w\<lparr>w_root := r'\<rparr>))"
    "AtomicInt64_Get r' = v" "ro_Version int64_root r' = ro_Version int64_root (w_root w) + 1" by blast
  then show ?thesis
    by (simp add: AtomicWrapper_Set_def batched_Set_serial serial_Set_def notify_in_turn_def count_write_def
        AtomicWrapper_Metrics_def int64_root_def calls_for_def)
qed

text \<open>
  What a delta carries over. A replica that applies the delta of another wrapper adopts its value when
  the version asked for is older than the source's; otherwise \<open>Delta\<close> returns a delta without content,
  which reads as a set, and the replica's value is replaced by the zero value. The same holds for atomic
  and for sharded wrappers.
\<close>

theorem delta_replication:
  assumes "hs_inv (w_root shard_src)" and "hs_inv (w_root shard_dst)"
  shows "(\<exists>d src' dst'. AtomicWrapper_Delta int64_root 0 now since src = Ret (d, src') \<and>
      AtomicWrapper_ApplyDelta int64_root dst [d] = Ret dst' \<and>
      AtomicInt64_Get (w_root dst') = (if since < AtomicWrapper_Version int64_root src then AtomicInt64_Get (w_root src) else 0)) \<and>
    (\<exists>d src' dst'. ShardedWrapper_Delta (hash_root H zero) zero now since shard_src = Ret (d, src') \<and>
      ShardedWrapper_ApplyDelta (hash_root H zero) shard_dst [d] = Ret dst' \<and>
      HashSharded_Get H (w_root dst') =
        (if since < ShardedWrapper_Version (hash_root H zero) shard_src then HashSharded_Get H (w_root shard_src) else Ret zero))"
proof (rule conjI)
  show "\<exists>d src' dst'. AtomicWrapper_Delta int64_root 0 now since src = Ret (d, src') \<and>
      AtomicWrapper_ApplyDelta int64_root dst [d] = Ret dst' \<and>
      AtomicInt64_Get (w_root dst') = (if since < AtomicWrapper_Version int64_root src then AtomicInt64_Get (w_root src) else 0)"
    using int64_wrapped.transfer [where src = src and r = "w_root dst" and zero = 0 and now = now and since = since]
    by (fastforce simp: AtomicWrapper_Delta_def AtomicWrapper_ApplyDelta_def AtomicWrapper_Version_def count_received_def
        bind_outcome_Ret_iff)
  from hash_wrapped.transfer [OF assms, where H = H and zero = zero and zeroa = zero and now = now and since = since] obtain d src' r' where
    "wrapper_Delta (hash_root H zero) zero now since shard_src = Ret (d, src')" "set_deltas (hash_root H zero) (w_root shard_dst) [d] = Ret r'"
    "hash_default H r' = (if since < ro_Version (hash_root H zero) (w_root shard_src) then hash_default H (w_root shard_src) else zero)"
    "hs_inv r'" by blast
  then show "\<exists>d src' dst'. ShardedWrapper_Delta (hash_root H zero) zero now since shard_src = Ret (d, src') \<and>
      ShardedWrapper_ApplyDelta (hash_root H zero) shard_dst [d] = Ret dst' \<and>
      HashSharded_Get H (w_root dst') =
        (if since < ShardedWrapper_Version (hash_root H zero) shard_src then HashSharded_Get H (w_root shard_src) else Ret zero)"
    using assms by (simp add: ShardedWrapper_Delta_def ShardedWrapper_ApplyDelta_def ShardedWrapper_Version_def count_received_def hash_Get)
qed

lemma new_sharded_root: "w_root (NewShardedWrapper r) = r"
  by (simp add: NewShardedWrapper_def wrapper_New_def)

lemma new_sharded_version: "ShardedWrapper_Version (hash_root H zero) (NewShardedWrapper (NewHashSharded n x)) = 1"
  by (simp add: ShardedWrapper_Version_def new_sharded_root hash_root_def HashSharded_Version_def NewHashSharded_def)

theorem delta_replication_witness:
  "\<exists>d src' dst'. ShardedWrapper_Delta (hash_root (\<lambda>bs. 0) (0::int)) 0 7 1 (NewShardedWrapper (NewHashSharded 4 5)) = Ret (d, src') \<and>
     ShardedWrapper_ApplyDelta (hash_root (\<lambda>bs. 0) 0) (NewShardedWrapper (NewHashSharded 2 9)) [d] = Ret dst' \<and>
     HashSharded_Get (\<lambda>bs. 0) (w_root dst') = Ret 0"
  using delta_replication [where shard_src = "NewShardedWrapper (NewHashSharded 4 (5::int))" and zero = 0
      and shard_dst = "NewShardedWrapper (NewHashSharded 2 9)" and now = 7 and since = 1 and H = "\<lambda>bs. 0"]
  by (simp add: new_sharded_root new_sharded_version NewHashSharded_inv)

text \<open>The states a wrapper can reach by its methods.\<close>

inductive wrapper_reach :: "('r, 'a) atomic_ops \<Rightarrow> 'r \<Rightarrow> ('r, 'a) Wrapper \<Rightarrow> bool" for ops root where
  reach_New: "wrapper_reach ops root (NewAtomicWrapper root)"
| reach_Get: "wrapper_reach ops root w \<Longrightarrow> AtomicWrapper_Get ops w = Ret (v, w') \<Longrightarrow> wrapper_reach ops root w'"
| reach_Set: "wrapper_reach ops root w \<Longrightarrow> AtomicWrapper_Set ops w v = Ret w' \<Longrightarrow> wrapper_reach ops root w'"
| reach_MarkClean: "wrapper_reach ops root w \<Longrightarrow> wrapper_reach ops root (AtomicWrapper_MarkClean ops w)"
| reach_Delta: "wrapper_reach ops root w \<Longrightarrow> AtomicWrapper_Delta ops zero now since w = Ret (d, w') \<Longrightarrow> wrapper_reach ops root w'"
| reach_ApplyDelta: "wrapper_reach ops root w \<Longrightarrow> AtomicWrapper_ApplyDelta ops w ds = Ret w' \<Longrightarrow> wrapper_reach ops root w'"
| reach_SetResolver: "wrapper_reach ops root w \<Longrightarrow> wrapper_reach ops root (AtomicWrapper_SetResolver res w)"
| reach_Unmarshal: "wrapper_reach ops root w \<Longrightarrow> AtomicWrapper_Unmarshal ops bs w = Ret (err, w') \<Longrightarrow> wrapper_reach ops root w'"
| reach_Marshal: "wrapper_reach ops root w \<Longrightarrow> AtomicWrapper_Marshal ops w = Ret (out, w') \<Longrightarrow> wrapper_reach ops root w'"
| reach_OnChange: "wrapper_reach ops root w \<Longrightarrow> wrapper_reach ops root (AtomicWrapper_OnChange cb w)"
| reach_OnConflict: "wrapper_reach ops root w \<Longrightarrow> wrapper_reach ops root (AtomicWrapper_OnConflict f w)"
| reach_SetPermissions: "wrapper_reach ops root w \<Longrightarrow> wrapper_reach ops root (AtomicWrapper_SetPermissions p w)"
| reach_Close: "wrapper_reach ops root w \<Longrightarrow> wrapper_reach ops root (AtomicWrapper_Close w)"

lemma Get_marshaler: "wrapper_Get ops w = Ret (v, w') \<Longrightarrow> w_marshaler w' = w_marshaler w"
  by (auto simp: wrapper_Get_def count_read_def bind_outcome_Ret_iff)

lemma Set_marshaler: "batched_Set ops w v = Ret w' \<Longrightarrow> w_marshaler w' = w_marshaler w"
  by (auto simp: batched_Set_serial serial_Set_def set_root_def notify_in_turn_def count_write_def bind_outcome_Ret_iff)

lemma reach_marshaler: "wrapper_reach ops root w \<Longrightarrow> w_marshaler w = None"
proof (induction rule: wrapper_reach.induct)
  case (reach_Delta w zero now since d w')
  then show ?case
    by (auto simp: AtomicWrapper_Delta_def wrapper_Delta_def Let_def bind_outcome_Ret_iff dest!: Get_marshaler split: if_splits)
next
  case (reach_Marshal w out w')
  then show ?case
    by (auto simp: AtomicWrapper_Marshal_def wrapper_Marshal_def bind_outcome_Ret_iff dest!: Get_marshaler split: option.splits)
qed (auto simp: NewAtomicWrapper_def wrapper_New_def AtomicWrapper_Get_def AtomicWrapper_Set_def AtomicWrapper_MarkClean_def
    AtomicWrapper_ApplyDelta_def AtomicWrapper_SetResolver_def wrapper_SetResolver_def AtomicWrapper_Unmarshal_def
    wrapper_Unmarshal_def AtomicWrapper_OnChange_def wrapper_OnChange_def AtomicWrapper_OnConflict_def wrapper_OnConflict_def
    AtomicWrapper_SetPermissions_def wrapper_SetPermissions_def AtomicWrapper_Close_def wrapper_Close_def count_received_def
    bind_outcome_Ret_iff dest: Get_marshaler Set_marshaler)

text \<open>
  No method of a wrapper gives it a marshaler: whatever sequence of calls brought a new wrapper to its
  state, \<open>Serialize\<close> and \<open>Deserialize\<close> dereference nil, provided the root can be read.
\<close>

theorem wrapper_never_serializes:
  assumes "wrapper_reach int64_root (NewAtomicInt64 x) w"
  shows "AtomicWrapper_Serialize int64_root w = Panic NilDereference \<and> AtomicWrapper_Deserialize int64_root bs w = Panic NilDereference"
proof -
  from int64_wrapped.wrapper_Get_ok [of w] obtain r' where
    "wrapper_Get int64_root w = Ret (AtomicInt64_Get (w_root w), (count_read w)\<lparr>w_root := r'\<rparr>)" by blast
  with reach_marshaler [OF assms] show ?thesis
    by (simp add: AtomicWrapper_Serialize_def AtomicWrapper_Marshal_def wrapper_Marshal_def AtomicWrapper_Deserialize_def
        AtomicWrapper_Unmarshal_def wrapper_Unmarshal_def count_read_def)
qed

theorem wrapper_never_serializes_witness:
  "AtomicWrapper_Serialize int64_root (AtomicWrapper_OnChange (Some 1) (NewAtomicWrapper (NewAtomicInt64 3))) = Panic NilDereference"
  using wrapper_never_serializes [where x = 3 and w = "AtomicWrapper_OnChange (Some 1) (NewAtomicWrapper (NewAtomicInt64 3))"]
  by (simp add: reach_OnChange reach_New)

subsection \<open>Variables\<close>

primrec odd_places :: "'a list \<Rightarrow> bool \<Rightarrow> 'a list" where
  "odd_places [] b = []"
| "odd_places (x # xs) b = (if b then x # odd_places xs False else odd_places xs True)"

definition subscribe_all :: "nat list \<Rightarrow> ('r, 'a) VariableWrapper \<Rightarrow> ('r, 'a) VariableWrapper" where
  "subscribe_all cbs v = fold (\<lambda>cb v. snd (VariableWrapper_Subscribe (Some cb) v)) cbs v"

lemma subscribe_all_subs: "v_subscribers (subscribe_all cbs v) = v_subscribers v @ map Some cbs"
  by (induction cbs arbitrary: v) (simp_all add: subscribe_all_def VariableWrapper_Subscribe_def)

lemma unsubscribe_subs:
  "v_subscribers v = map Some cbs \<Longrightarrow> v_subscribers (unsubscribe i v) = map Some (take i cbs @ drop (Suc i) cbs)"
proof (cases "i < length cbs")
  case True
  assume v: "v_subscribers v = map Some cbs"
  have "filter (\<lambda>cb. cb \<noteq> None) (map Some xs) = map Some xs" for xs :: "nat list" by simp
  with True v show ?thesis by (simp add: unsubscribe_def upd_conv_take_nth_drop drop_map take_map)
qed (simp add: unsubscribe_def)

lemma unsubscribe_backwards:
  "v_subscribers v = map Some cbs \<Longrightarrow> m \<le> length cbs \<Longrightarrow> v_subscribers (foldr unsubscribe [m..<length cbs] v) = map Some (take m cbs)"
proof (induction cbs arbitrary: v rule: rev_induct)
  case (snoc c cbs)
  show ?case
  proof (cases "m = length (cbs @ [c])")
    case False
    with snoc.prems have "m \<le> length cbs" by simp
    moreover from snoc.prems have "v_subscribers (unsubscribe (length cbs) v) = map Some cbs"
      using unsubscribe_subs [of v "cbs @ [c]" "length cbs"] by simp
    ultimately show ?thesis using snoc.IH by simp
  qed (use snoc.prems in simp)
qed simp

lemma unsubscribe_forwards:
  "v_subscribers v = map Some (pre @ xs) \<Longrightarrow> length xs \<le> m \<Longrightarrow>
     v_subscribers (fold unsubscribe [length pre..<length pre + m] v) = map Some (pre @ odd_places xs False)"
proof (induction "length xs" arbitrary: pre xs v m rule: less_induct)
  case less
  have out: "v_subscribers v = map Some cbs \<Longrightarrow> length cbs \<le> k \<Longrightarrow> v_subscribers (fold unsubscribe [k..<l] v) = map Some cbs"
    for v :: "('a, 'b) VariableWrapper" and k l and cbs :: "nat list"
  proof (induction "l - k" arbitrary: k v)
    case (Suc d)
    then have "[k..<l] = k # [Suc k..<l]" by (simp add: upt_conv_Cons)
    with Suc unsubscribe_subs [of v cbs k] show ?case by simp
  qed simp
  show ?case
  proof (cases xs)
    case Nil
    with less.prems out [of v pre "length pre" "length pre + m"] show ?thesis by simp
  next
    case (Cons x ys)
    with less.prems obtain m' where m: "m = Suc m'" by (cases m) auto
    have split: "[length pre..<length pre + m] = length pre # [Suc (length pre)..<Suc (length pre) + m']"
      by (simp add: m upt_conv_Cons)
    have v1: "v_subscribers (unsubscribe (length pre) v) = map Some (pre @ ys)"
      using unsubscribe_subs [OF less.prems(1), of "length pre"] Cons by simp
    show ?thesis
    proof (cases ys)
      case Nil
      with v1 Cons split out [of "unsubscribe (length pre) v" pre "Suc (length pre)" "Suc (length pre) + m'"] show ?thesis by simp
    next
      case (Cons y zs)
      with v1 \<open>xs = x # ys\<close> less.prems(2) m less.hyps [of zs "unsubscribe (length pre) v" "pre @ [y]" m'] split
      show ?thesis by simp
    qed
  qed
qed

text \<open>
  The function \<open>Subscribe\<close> returns removes by the position the subscriber had then. Called in the reverse
  order of the subscriptions these functions remove what they should; called in the order of the
  subscriptions, all of them, they leave every second subscriber in place.
\<close>

theorem unsubscribe_order:
  "fst (VariableWrapper_Subscribe (Some cb) (subscribe_all cbs (NewVariableWrapper core))) = length cbs \<and>
   v_subscribers (foldr unsubscribe [length kept..<length (kept @ cbs)] (subscribe_all (kept @ cbs) (NewVariableWrapper core))) = map Some kept \<and>
   v_subscribers (fold unsubscribe [0..<length cbs] (subscribe_all cbs (NewVariableWrapper core))) = map Some (odd_places cbs False)"
proof -
  have new: "v_subscribers (subscribe_all xs (NewVariableWrapper core)) = map Some xs" for xs
    by (simp add: subscribe_all_subs NewVariableWrapper_def)
  have "length (v_subscribers (subscribe_all cbs (NewVariableWrapper core))) = length cbs" by (simp add: new)
  with unsubscribe_backwards [OF new [of "kept @ cbs"], of "length kept"]
    unsubscribe_forwards [of "subscribe_all cbs (NewVariableWrapper core)" "[]" cbs "length cbs"]
  show ?thesis by (simp add: VariableWrapper_Subscribe_def new)
qed

text \<open>A core that can compare and swap; and a core without, which reads and writes.\<close>

locale swapping_core =
  fixes ops :: "('r, 'a) core_ops" and cur :: "'r \<Rightarrow> 'a" and cas :: "'r \<Rightarrow> 'a \<Rightarrow> 'a \<Rightarrow> bool \<times> 'r" and put :: "'r \<Rightarrow> 'a \<Rightarrow> 'r"
  assumes has_cas: "co_CompareAndSwap ops = Some cas"
    and get_pure: "ro_Get ops r = Ret (cur r, r)"
    and cas_law: "cas r old new = (if cur r = old then (True, put r new) else (False, r))"
begin

lemma update_succeeds:
  assumes "\<And>r. cur (env (i + n) r) = cur r"
  shows "\<exists>k\<le>n. let c = fold env [i..<Suc (i + k)] (v_core v) in
    VariableWrapper_Update ops env (Suc n) i f v = Some (Ret (f (cur c), v_notify (cur c) (f (cur c)) (v\<lparr>v_core := put c (f (cur c))\<rparr>)))"
  using assms
proof (induction n arbitrary: i v)
  case 0
  have "cur (env i (v_core v)) = cur (v_core v)" using 0 [of "v_core v"] by simp
  then show ?case by (simp add: has_cas get_pure cas_law Let_def)
next
  case (Suc n)
  show ?case
  proof (cases "cur (env i (v_core v)) = cur (v_core v)")
    case True
    then show ?thesis by (intro exI [of _ 0]) (simp add: has_cas get_pure cas_law Let_def)
  next
    case False
    have "\<And>r. cur (env (Suc i + n) r) = cur r" using Suc.prems by simp
    from Suc.IH [OF this, of "v\<lparr>v_core := env i (v_core v)\<rparr>"] obtain k where k: "k \<le> n"
      "let c = fold env [Suc i..<Suc (Suc i + k)] (env i (v_core v)) in
        VariableWrapper_Update ops env (Suc n) (Suc i) f (v\<lparr>v_core := env i (v_core v)\<rparr>) =
          Some (Ret (f (cur c), v_notify (cur c) (f (cur c)) (v\<lparr>v_core := put c (f (cur c))\<rparr>)))" by auto
    have "[i..<Suc (i + Suc k)] = i # [Suc i..<Suc (Suc i + k)]" by (simp add: upt_conv_Cons del: upt_Suc)
    with False k show ?thesis
      by (intro exI [of _ "Suc k"]) (simp add: has_cas get_pure cas_law Let_def del: upt_Suc VariableWrapper_Update.simps
          add: VariableWrapper_Update.simps(2) [of ops env "Suc n" i])
  qed
qed

end

definition int64_core :: "(int64 Atomic, int64) core_ops" where
  "int64_core = \<lparr>ro_Get = ro_Get int64_root, ro_Set = ro_Set int64_root, ro_Version = AtomicInt64_Version,
     ro_IsDirty = AtomicInt64_IsDirty, ro_MarkClean = AtomicInt64_MarkClean, co_CompareAndSwap = Some AtomicInt64_CompareAndSwap,
     co_Close = \<lambda>a. Ret (None, a)\<rparr>"

interpretation int64_swapping: swapping_core int64_core AtomicInt64_Get AtomicInt64_CompareAndSwap AtomicInt64_Set
  by unfold_locales (simp_all add: int64_core_def int64_root_def AtomicInt64_CompareAndSwap_def atomic_CompareAndSwap_def
      AtomicInt64_Set_def atomic_Set_def AtomicInt64_Get_def)

definition atomic_core :: "('r, 'a, 'm) root_ops_scheme \<Rightarrow> (('r, 'a) Wrapper, 'a) core_ops" where
  "atomic_core ops = \<lparr>ro_Get = AtomicWrapper_Get ops, ro_Set = AtomicWrapper_Set ops, ro_Version = AtomicWrapper_Version ops,
     ro_IsDirty = AtomicWrapper_IsDirty ops, ro_MarkClean = AtomicWrapper_MarkClean ops, co_CompareAndSwap = None,
     co_Close = \<lambda>w. Ret (None, AtomicWrapper_Close w)\<rparr>"

text \<open>
  \<open>Update\<close> on a core with the \<open>CompareAndSwap\<close> of \<open>AtomicInt64\<close>. If other goroutines leave the value alone
  during the \<open>n\<close>-th attempt, the call returns by then, and it has applied the callback in one step to the
  state \<open>c\<close> that their writes had produced by the last attempt: none of them is lost.
\<close>

theorem update_with_swap:
  assumes "\<And>r. AtomicInt64_Get (env n r) = AtomicInt64_Get r"
  shows "\<exists>k\<le>n. let c = fold env [0..<Suc k] (v_core v); new = f (AtomicInt64_Get c) in
    VariableWrapper_Update int64_core env (Suc n) 0 f v =
      Some (Ret (new, v_notify (AtomicInt64_Get c) new (v\<lparr>v_core := AtomicInt64_Set c new\<rparr>)))"
  using int64_swapping.update_succeeds [of env 0 n v f] assms by (simp add: Let_def)

theorem update_with_swap_witness:
  "\<exists>k\<le>1. let c = fold (\<lambda>i a. if i = 0 then AtomicInt64_Set a 9 else a) [0..<Suc k] (NewAtomicInt64 5) in
    VariableWrapper_Update int64_core (\<lambda>i a. if i = 0 then AtomicInt64_Set a 9 else a) (Suc 1) 0 (\<lambda>x. x + 1)
      (NewVariableWrapper (NewAtomicInt64 5)) =
    Some (Ret (AtomicInt64_Get c + 1, v_notify (AtomicInt64_Get c) (AtomicInt64_Get c + 1)
      ((NewVariableWrapper (NewAtomicInt64 5))\<lparr>v_core := AtomicInt64_Set c (AtomicInt64_Get c + 1)\<rparr>)))"
  using update_with_swap [of "\<lambda>i a. if i = 0 then AtomicInt64_Set a 9 else a" 1 "NewVariableWrapper (NewAtomicInt64 5)" "\<lambda>x. x + 1"]
  by (simp add: NewVariableWrapper_def Let_def del: VariableWrapper_Update.simps upt_Suc)

text \<open>
  The cores of this repository have no such method, and \<open>Update\<close> falls back on \<open>Set\<close>. On an \<open>AtomicWrapper\<close> it
  returns in the first attempt and stores the callback's result for the value it read before: whatever
  other goroutines wrote in between (\<open>env\<close>) is overwritten.
\<close>

theorem update_overwrites:
  "\<exists>v'. VariableWrapper_Update (atomic_core int64_root) env (Suc n) i f v = Some (Ret (f (AtomicInt64_Get (w_root (v_core v))), v')) \<and>
     AtomicInt64_Get (w_root (v_core v')) = f (AtomicInt64_Get (w_root (v_core v)))"
proof -
  define x where "x = AtomicInt64_Get (w_root (v_core v))"
  from int64_wrapped.wrapper_Get_ok [of "v_core v"] obtain w1 where g: "wrapper_Get int64_root (v_core v) = Ret (x, w1)"
    by (auto simp: x_def)
  from int64_wrapped.wrapper_Get_ok [of "env i w1"] obtain y w2 where g2: "wrapper_Get int64_root (env i w1) = Ret (y, w2)" by blast
  from int64_wrapped.set_root_ok [of w2 "f x"] obtain o2 w3 where "set_root int64_root w2 (f x) = Ret (o2, w3)"
    "AtomicInt64_Get (w_root w3) = f x" by (auto simp: count_write_def)
  with g g2 show ?thesis
    by (simp add: atomic_core_def AtomicWrapper_Get_def AtomicWrapper_Set_def batched_Set_serial serial_Set_def notify_in_turn_def
        VariableWrapper_Set_def v_notify_def x_def [symmetric] Let_def)
qed

end
