(* ===== verification/Field_Accessor.thy ===== *)
theory Field_Accessor
  imports Zeus_Prelude "HOL-Library.AList"
begin

text \<open>
  The field accessors of \<open>internal/core/fields\<close>: \<open>FA\<close> (\<open>field_accessor.go\<close>) holds a value with a version, a history
  and subscribers; \<open>NFA\<close> (\<open>numeric_filed_accessor.go\<close>) adds arithmetic. What a type of Go means to the atomic
  value is a parameter: its zero value, the dynamic type of a value and the comparison of two values, which
  panics for slices, maps and functions. Other goroutines act between the reading and the writing of a
  transaction, as a function on the state.
\<close>

section \<open>The atomic value\<close>

text \<open>\<open>ty_dyn\<close> is the dynamic type, \<open>None\<close> for a nil interface; \<open>ty_eq\<close> the comparison of two interface values.\<close>

record 'a go_type =
  ty_zero :: 'a
  ty_dyn :: "'a \<Rightarrow> nat option"
  ty_eq :: "'a \<Rightarrow> 'a \<Rightarrow> bool outcome"

record 'a historyEntry =
  he_value :: 'a
  he_version :: uint64

text \<open>The subscriber of \<open>Subscribe\<close>, a callback, and of \<open>SubscribeIf\<close>, with its filter, \<open>None\<close> for nil.\<close>

datatype 'a subscriber = Callback nat | FilteredCallback nat "('a \<Rightarrow> bool) option"

text \<open>
  The time of a history entry is never read and left out. \<open>fa_calls\<close> collects the calls of callbacks that
  the goroutines of \<open>notifySubscribers\<close> make. The mutex is modelled on its own below.
\<close>

record 'a FA =
  fa_value :: 'a
  fa_version :: uint64
  fa_subscribers :: "(uint64 \<times> 'a subscriber) list"
  fa_subsID :: uint64
  fa_history :: "'a historyEntry list"
  fa_maxHistory :: nat
  fa_calls :: "(nat \<times> 'a) list"

definition value_Store :: "('a, 'm) go_type_scheme \<Rightarrow> 'a \<Rightarrow> 'a FA \<Rightarrow> 'a FA outcome" where
  "value_Store T v a =
     (if ty_dyn T v = None then Panic NilStore
      else if ty_dyn T v \<noteq> ty_dyn T (fa_value a) then Panic InconsistentType
      else Ret (a\<lparr>fa_value := v\<rparr>))"

definition value_CompareAndSwap :: "('a, 'm) go_type_scheme \<Rightarrow> 'a \<Rightarrow> 'a \<Rightarrow> 'a FA \<Rightarrow> (bool \<times> 'a FA) outcome" where
  "value_CompareAndSwap T old new a =
     (if ty_dyn T new = None then Panic NilStore
      else if ty_dyn T old \<noteq> None \<and> ty_dyn T old \<noteq> ty_dyn T new then Panic InconsistentType
      else if ty_dyn T new \<noteq> ty_dyn T (fa_value a) then Panic InconsistentType
      else bind_outcome (ty_eq T (fa_value a) old) (\<lambda>same. Ret (same, if same then a\<lparr>fa_value := new\<rparr> else a)))"

section \<open>History and notification\<close>

text \<open>\<open>copy(h, h[1:])\<close> moves the elements down by one and leaves the last in place.\<close>

definition copy_down :: "'a list \<Rightarrow> 'a list" where
  "copy_down h = tl h @ drop (length h - 1) h"

definition addToHistory :: "'a \<Rightarrow> uint64 \<Rightarrow> 'a FA \<Rightarrow> 'a FA" where
  "addToHistory v version a =
     (let h = fa_history a @ [\<lparr>he_value = v, he_version = version\<rparr>]
      in a\<lparr>fa_history := (if length h > fa_maxHistory a then take (fa_maxHistory a) (copy_down h) else h)\<rparr>)"

primrec subscriber_calls :: "'a \<Rightarrow> 'a subscriber \<Rightarrow> (nat \<times> 'a) list" where
  "subscriber_calls v (Callback cb) = [(cb, v)]"
| "subscriber_calls v (FilteredCallback cb pass) =
     (case pass of None \<Rightarrow> [(cb, v)] | Some f \<Rightarrow> if f v then [(cb, v)] else [])"

definition notifySubscribers :: "'a \<Rightarrow> 'a FA \<Rightarrow> 'a FA" where
  "notifySubscribers v a = a\<lparr>fa_calls := fa_calls a @ concat (map (subscriber_calls v \<circ> snd) (fa_subscribers a))\<rparr>"

text \<open>What \<open>Set\<close>, \<open>Swap\<close> and a successful \<open>CompareAndSwap\<close> do after storing.\<close>

definition written :: "'a \<Rightarrow> 'a FA \<Rightarrow> 'a FA" where
  "written v a = (let a = a\<lparr>fa_version := fa_version a + 1\<rparr> in notifySubscribers v (addToHistory v (fa_version a) a))"

section \<open>FA\<close>

text \<open>The constructor takes any number of initial values and uses the first.\<close>

definition NewFA :: "('a, 'm) go_type_scheme \<Rightarrow> 'a list \<Rightarrow> 'a FA outcome" where
  "NewFA T initial =
     (let initialValue = (case initial of [] \<Rightarrow> ty_zero T | v # vs \<Rightarrow> v)
      in if ty_dyn T initialValue = None then Panic NilStore
         else Ret (addToHistory initialValue 0
           \<lparr>fa_value = initialValue, fa_version = 1, fa_subscribers = [], fa_subsID = 0, fa_history = [],
            fa_maxHistory = 100, fa_calls = []\<rparr>))"

definition FA_Get :: "'a FA \<Rightarrow> 'a" where
  "FA_Get a = fa_value a"

definition FA_Set :: "('a, 'm) go_type_scheme \<Rightarrow> 'a \<Rightarrow> 'a FA \<Rightarrow> 'a FA outcome" where
  "FA_Set T v a = bind_outcome (value_Store T v a) (\<lambda>a. Ret (written v a))"

definition FA_CompareAndSwap :: "('a, 'm) go_type_scheme \<Rightarrow> 'a \<Rightarrow> 'a \<Rightarrow> 'a FA \<Rightarrow> (bool \<times> 'a FA) outcome" where
  "FA_CompareAndSwap T expected new a =
     bind_outcome (value_CompareAndSwap T expected new a) (\<lambda>(ok, a). Ret (ok, if ok then written new a else a))"

definition FA_Swap :: "('a, 'm) go_type_scheme \<Rightarrow> 'a \<Rightarrow> 'a FA \<Rightarrow> ('a \<times> 'a FA) outcome" where
  "FA_Swap T new a = bind_outcome (value_Store T new a) (\<lambda>a'. Ret (fa_value a, written new a'))"

text \<open>
  One transaction: \<open>env i\<close> is what other goroutines do between the reading and the writing of attempt \<open>i\<close>,
  the last argument but one the attempts left. The update function may panic.
\<close>

fun transaction_loop ::
    "('a, 'm) go_type_scheme \<Rightarrow> (nat \<Rightarrow> 'a FA \<Rightarrow> 'a FA) \<Rightarrow> ('a \<Rightarrow> 'a outcome) \<Rightarrow> nat \<Rightarrow> nat \<Rightarrow> 'a FA \<Rightarrow> ('a \<times> 'a FA) outcome" where
  "transaction_loop T env update i 0 a = Ret (FA_Get a, a)"
| "transaction_loop T env update i (Suc n) a =
     (let current = FA_Get a
      in bind_outcome (update current) (\<lambda>updated.
         bind_outcome (FA_CompareAndSwap T current updated (env i a)) (\<lambda>(ok, a).
           if ok then Ret (updated, a) else transaction_loop T env update (i + 1) n a)))"

definition maxRetries :: nat where
  "maxRetries = 10"

definition FA_Transaction ::
    "('a, 'm) go_type_scheme \<Rightarrow> (nat \<Rightarrow> 'a FA \<Rightarrow> 'a FA) \<Rightarrow> ('a \<Rightarrow> 'a outcome) \<Rightarrow> 'a FA \<Rightarrow> ('a \<times> 'a FA) outcome" where
  "FA_Transaction T env update a = transaction_loop T env update 0 maxRetries a"

definition FA_Version :: "'a FA \<Rightarrow> uint64" where
  "FA_Version a = fa_version a"

definition FA_ChangedSince :: "'a FA \<Rightarrow> uint64 \<Rightarrow> bool" where
  "FA_ChangedSince a version \<longleftrightarrow> fa_version a > version"

text \<open>\<open>other i\<close> is the value of the other field in attempt \<open>i\<close>.\<close>

fun merge_loop ::
    "('a, 'm) go_type_scheme \<Rightarrow> (nat \<Rightarrow> 'a FA \<Rightarrow> 'a FA) \<Rightarrow> (nat \<Rightarrow> 'a) \<Rightarrow> ('a \<Rightarrow> 'a \<Rightarrow> 'a outcome) \<Rightarrow> nat \<Rightarrow> nat \<Rightarrow> 'a FA \<Rightarrow> 'a FA outcome" where
  "merge_loop T env other mergeFn i 0 a = Ret a"
| "merge_loop T env other mergeFn i (Suc n) a =
     (let current = FA_Get a
      in bind_outcome (mergeFn current (other i)) (\<lambda>merged.
         bind_outcome (FA_CompareAndSwap T current merged (env i a)) (\<lambda>(ok, a).
           if ok then Ret a else merge_loop T env other mergeFn (i + 1) n a)))"

definition FA_Merge ::
    "('a, 'm) go_type_scheme \<Rightarrow> (nat \<Rightarrow> 'a FA \<Rightarrow> 'a FA) \<Rightarrow> (nat \<Rightarrow> 'a) \<Rightarrow> ('a \<Rightarrow> 'a \<Rightarrow> 'a outcome) \<Rightarrow> 'a FA \<Rightarrow> 'a FA outcome" where
  "FA_Merge T env other mergeFn a = merge_loop T env other mergeFn 0 100 a"

text \<open>The limit is a \<open>uint16\<close>.\<close>

definition FA_History :: "16 word \<Rightarrow> 'a FA \<Rightarrow> 'a list" where
  "FA_History limit a =
     (if limit = 0 \<or> fa_history a = [] then []
      else let start = (if unat limit < length (fa_history a) then length (fa_history a) - unat limit else 0)
           in map he_value (drop start (fa_history a)))"

definition FA_Delta :: "uint64 \<Rightarrow> 'a FA \<Rightarrow> go_err + 'a list" where
  "FA_Delta fromVersion a =
     (let newer = filter (\<lambda>e. he_version e > fromVersion) (fa_history a)
      in if newer = [] \<and> fromVersion < fa_version a then Inl (Err ''version too old, not available in history'')
         else Inr (map he_value newer))"

text \<open>A context is done, with its error, or not.\<close>

definition FA_GetWithContext :: "go_err option \<Rightarrow> ('a, 'm) go_type_scheme \<Rightarrow> 'a FA \<Rightarrow> 'a \<times> go_err option" where
  "FA_GetWithContext ctx T a = (case ctx of Some e \<Rightarrow> (ty_zero T, Some e) | None \<Rightarrow> (FA_Get a, None))"

definition FA_SetWithContext :: "go_err option \<Rightarrow> ('a, 'm) go_type_scheme \<Rightarrow> 'a \<Rightarrow> 'a FA \<Rightarrow> (go_err option \<times> 'a FA) outcome" where
  "FA_SetWithContext ctx T v a = (case ctx of
       Some e \<Rightarrow> Ret (Some e, a)
     | None \<Rightarrow> bind_outcome (FA_Set T v a) (\<lambda>a. Ret (None, a)))"

text \<open>The JSON encoder and decoder of the type are parameters.\<close>

definition FA_Serialize :: "('a \<Rightarrow> go_err + string) \<Rightarrow> 'a FA \<Rightarrow> go_err + string" where
  "FA_Serialize marshal a = marshal (FA_Get a)"

definition FA_Deserialize ::
    "('a, 'm) go_type_scheme \<Rightarrow> (string \<Rightarrow> go_err + 'a) \<Rightarrow> string \<Rightarrow> 'a FA \<Rightarrow> (go_err option \<times> 'a FA) outcome" where
  "FA_Deserialize T unmarshal bytes a = (case unmarshal bytes of
       Inl e \<Rightarrow> Ret (Some e, a)
     | Inr v \<Rightarrow> bind_outcome (FA_Set T v a) (\<lambda>a. Ret (None, a)))"

definition FA_Clone :: "('a, 'm) go_type_scheme \<Rightarrow> 'a FA \<Rightarrow> 'a FA outcome" where
  "FA_Clone T a = NewFA T [FA_Get a]"

subsection \<open>Subscriptions\<close>

definition generateUniqueID :: "uint64 \<Rightarrow> uint64" where
  "generateUniqueID source = source + 1"

definition add_subscriber :: "'a subscriber \<Rightarrow> 'a FA \<Rightarrow> uint64 \<times> 'a FA" where
  "add_subscriber s a =
     (let sid = generateUniqueID (fa_subsID a)
      in (sid, a\<lparr>fa_subsID := sid, fa_subscribers := AList.update sid s (fa_subscribers a)\<rparr>))"

definition FA_Subscribe :: "nat \<Rightarrow> 'a FA \<Rightarrow> uint64 \<times> 'a FA" where
  "FA_Subscribe onUpdate a = add_subscriber (Callback onUpdate) a"

definition FA_SubscribeIf :: "nat \<Rightarrow> ('a \<Rightarrow> bool) option \<Rightarrow> 'a FA \<Rightarrow> uint64 \<times> 'a FA" where
  "FA_SubscribeIf onUpdate pass a = add_subscriber (FilteredCallback onUpdate pass) a"

text \<open>The function \<open>Subscribe\<close> returns remembers the identifier.\<close>

definition FA_unsubscribe :: "uint64 \<Rightarrow> 'a FA \<Rightarrow> 'a FA" where
  "FA_unsubscribe sid a = a\<lparr>fa_subscribers := AList.delete sid (fa_subscribers a)\<rparr>"

text \<open>
  The goroutine of \<open>SubscribeIfCh\<close>, one step at a time: it offers the current value to its channel of capacity
  ten, subscribes, waits for the cancellation, unsubscribes and closes the channel. An offer to a full channel
  waits; \<open>None\<close> is a step that cannot be made now. \<open>SubscribeCh\<close> is the case without a filter.
\<close>

datatype ch_phase = Started | Offered | Listening uint64 | Stopped

record 'a ch_subscription =
  cs_filter :: "('a \<Rightarrow> bool) option"
  cs_phase :: ch_phase
  cs_out :: "'a list"
  cs_cancelled :: bool
  cs_closed :: bool

definition passes :: "('a \<Rightarrow> bool) option \<Rightarrow> 'a \<Rightarrow> bool" where
  "passes pass v = (case pass of None \<Rightarrow> True | Some f \<Rightarrow> f v)"

definition FA_SubscribeIfCh :: "('a \<Rightarrow> bool) option \<Rightarrow> 'a ch_subscription" where
  "FA_SubscribeIfCh pass = \<lparr>cs_filter = pass, cs_phase = Started, cs_out = [], cs_cancelled = False, cs_closed = False\<rparr>"

definition FA_SubscribeCh :: "'a ch_subscription" where
  "FA_SubscribeCh = FA_SubscribeIfCh None"

definition ch_step :: "nat \<Rightarrow> 'a FA \<Rightarrow> 'a ch_subscription \<Rightarrow> ('a FA \<times> 'a ch_subscription) option" where
  "ch_step cb a s = (case cs_phase s of
       Started \<Rightarrow>
         (let current = FA_Get a
          in if \<not> passes (cs_filter s) current then Some (a, s\<lparr>cs_phase := Offered\<rparr>)
             else if length (cs_out s) < 10 then Some (a, s\<lparr>cs_phase := Offered, cs_out := cs_out s @ [current]\<rparr>)
             else if cs_cancelled s then Some (a, s\<lparr>cs_phase := Stopped, cs_closed := True\<rparr>)
             else None)
     | Offered \<Rightarrow> (case FA_SubscribeIf cb (cs_filter s) a of (sid, a) \<Rightarrow> Some (a, s\<lparr>cs_phase := Listening sid\<rparr>))
     | Listening sid \<Rightarrow>
         (if cs_cancelled s then Some (FA_unsubscribe sid a, s\<lparr>cs_phase := Stopped, cs_closed := True\<rparr>) else None)
     | Stopped \<Rightarrow> None)"

text \<open>One call of the callback (after the cancellation it has nothing left to do), and the function that
  cancels: its second call closes a closed channel.\<close>

definition ch_callback :: "'a \<Rightarrow> 'a ch_subscription \<Rightarrow> 'a ch_subscription outcome" where
  "ch_callback v s =
     (if cs_closed s then Ret s
      else if length (cs_out s) < 10 then Ret (s\<lparr>cs_out := cs_out s @ [v]\<rparr>)
      else if cs_cancelled s then Ret s
      else Blocked)"

definition ch_cancel :: "'a ch_subscription \<Rightarrow> 'a ch_subscription outcome" where
  "ch_cancel s = (if cs_cancelled s then Panic CloseOfClosedChannel else Ret (s\<lparr>cs_cancelled := True\<rparr>))"

subsection \<open>The mutex\<close>

text \<open>
  \<open>sync.RWMutex\<close>: the goroutine that holds it for writing, the number of readers, the goroutines waiting to
  write in their order, and the number of readers that wait. A waiting writer holds off new readers.
\<close>

record rw_mutex =
  mx_writer :: "nat option"
  mx_readers :: nat
  mx_waiting :: "nat list"
  mx_parked :: nat

definition FA_Lock :: "nat \<Rightarrow> rw_mutex \<Rightarrow> rw_mutex" where
  "FA_Lock g m =
     (if mx_writer m = None \<and> mx_readers m = 0 then m\<lparr>mx_writer := Some g\<rparr> else m\<lparr>mx_waiting := mx_waiting m @ [g]\<rparr>)"

definition FA_Unlock :: "rw_mutex \<Rightarrow> rw_mutex outcome" where
  "FA_Unlock m =
     (if mx_writer m = None then Panic UnlockOfUnlocked
      else if 0 < mx_parked m then Ret (m\<lparr>mx_writer := None, mx_readers := mx_parked m, mx_parked := 0\<rparr>)
      else (case mx_waiting m of
              [] \<Rightarrow> Ret (m\<lparr>mx_writer := None\<rparr>)
            | g # gs \<Rightarrow> Ret (m\<lparr>mx_writer := Some g, mx_waiting := gs\<rparr>)))"

definition FA_RLock :: "rw_mutex \<Rightarrow> rw_mutex" where
  "FA_RLock m =
     (if mx_writer m = None \<and> mx_waiting m = [] then m\<lparr>mx_readers := mx_readers m + 1\<rparr> else m\<lparr>mx_parked := mx_parked m + 1\<rparr>)"

definition FA_RUnlock :: "rw_mutex \<Rightarrow> rw_mutex outcome" where
  "FA_RUnlock m =
     (if mx_readers m = 0 then Panic UnlockOfUnlocked
      else if mx_readers m = 1 then
        (case mx_waiting m of
           [] \<Rightarrow> Ret (m\<lparr>mx_readers := 0\<rparr>)
         | g # gs \<Rightarrow> Ret (m\<lparr>mx_readers := 0, mx_writer := Some g, mx_waiting := gs\<rparr>))
      else Ret (m\<lparr>mx_readers := mx_readers m - 1\<rparr>))"

text \<open>
  \<open>TryLock\<close> starts a goroutine \<open>g\<close> that locks and then reports into a channel of capacity one, a report that always
  succeeds; \<open>others\<close> is what happens to the mutex until the time is up.
\<close>

definition FA_TryLock :: "nat \<Rightarrow> (rw_mutex \<Rightarrow> rw_mutex) \<Rightarrow> rw_mutex \<Rightarrow> bool \<times> rw_mutex" where
  "FA_TryLock g others m = (let m = others (FA_Lock g m) in (mx_writer m = Some g, m))"

section \<open>NFA\<close>

text \<open>A numeric type adds its arithmetic; an integer division by zero panics.\<close>

record 'a num_type = "'a go_type" +
  nt_one :: 'a
  nt_add :: "'a \<Rightarrow> 'a \<Rightarrow> 'a"
  nt_sub :: "'a \<Rightarrow> 'a \<Rightarrow> 'a"
  nt_mul :: "'a \<Rightarrow> 'a \<Rightarrow> 'a"
  nt_div :: "'a \<Rightarrow> 'a \<Rightarrow> 'a outcome"

text \<open>An \<open>NFA\<close> holds an \<open>FA\<close> and hands all its methods on; these are its own.\<close>

definition NewNFA :: "'a num_type \<Rightarrow> 'a list \<Rightarrow> 'a FA outcome" where
  "NewNFA N initial = NewFA N initial"

definition NFA_Increment :: "'a num_type \<Rightarrow> (nat \<Rightarrow> 'a FA \<Rightarrow> 'a FA) \<Rightarrow> 'a FA \<Rightarrow> 'a FA outcome" where
  "NFA_Increment N env a = bind_outcome (FA_Transaction N env (\<lambda>current. Ret (nt_add N current (nt_one N))) a) (\<lambda>(v, a). Ret a)"

definition NFA_Decrement :: "'a num_type \<Rightarrow> (nat \<Rightarrow> 'a FA \<Rightarrow> 'a FA) \<Rightarrow> 'a FA \<Rightarrow> 'a FA outcome" where
  "NFA_Decrement N env a = bind_outcome (FA_Transaction N env (\<lambda>current. Ret (nt_sub N current (nt_one N))) a) (\<lambda>(v, a). Ret a)"

definition NFA_Add :: "'a num_type \<Rightarrow> (nat \<Rightarrow> 'a FA \<Rightarrow> 'a FA) \<Rightarrow> 'a \<Rightarrow> 'a FA \<Rightarrow> 'a FA outcome" where
  "NFA_Add N env v a = bind_outcome (FA_Transaction N env (\<lambda>current. Ret (nt_add N current v)) a) (\<lambda>(v, a). Ret a)"

definition NFA_Sub :: "'a num_type \<Rightarrow> (nat \<Rightarrow> 'a FA \<Rightarrow> 'a FA) \<Rightarrow> 'a \<Rightarrow> 'a FA \<Rightarrow> 'a FA outcome" where
  "NFA_Sub N env v a = bind_outcome (FA_Transaction N env (\<lambda>current. Ret (nt_sub N current v)) a) (\<lambda>(v, a). Ret a)"

definition NFA_Mul :: "'a num_type \<Rightarrow> (nat \<Rightarrow> 'a FA \<Rightarrow> 'a FA) \<Rightarrow> 'a \<Rightarrow> 'a FA \<Rightarrow> 'a FA outcome" where
  "NFA_Mul N env v a = bind_outcome (FA_Transaction N env (\<lambda>current. Ret (nt_mul N current v)) a) (\<lambda>(v, a). Ret a)"

definition NFA_Div :: "'a num_type \<Rightarrow> (nat \<Rightarrow> 'a FA \<Rightarrow> 'a FA) \<Rightarrow> 'a \<Rightarrow> 'a FA \<Rightarrow> 'a FA outcome" where
  "NFA_Div N env v a = bind_outcome (FA_Transaction N env (\<lambda>current. nt_div N current v) a) (\<lambda>(v, a). Ret a)"

section \<open>Types\<close>

text \<open>A concrete comparable type, such as the integers, booleans and strings.\<close>

definition plain_type :: "'a \<Rightarrow> 'a go_type" where
  "plain_type zero = \<lparr>ty_zero = zero, ty_dyn = \<lambda>v. Some 0, ty_eq = \<lambda>x y. Ret (x = y)\<rparr>"

definition int64_type :: "int64 num_type" where
  "int64_type = \<lparr>ty_zero = 0, ty_dyn = \<lambda>v. Some 0, ty_eq = \<lambda>x y. Ret (x = y), nt_one = 1, nt_add = (+), nt_sub = (-), nt_mul = (*),
     nt_div = \<lambda>x y. bind_outcome (go_quot (sint x) (sint y)) (\<lambda>q. Ret (word_of_int q))\<rparr>"

locale comparable_type =
  fixes T :: "('a, 'm) go_type_scheme" and dyn :: nat
  assumes one_dyn: "ty_dyn T v = Some dyn"
    and eq_is_eq: "ty_eq T x y = Ret (x = y)"
begin

lemma Set_ok: "FA_Set T v a = Ret (written v (a\<lparr>fa_value := v\<rparr>))"
  by (simp add: FA_Set_def value_Store_def one_dyn)

lemma Swap_ok: "FA_Swap T v a = Ret (fa_value a, written v (a\<lparr>fa_value := v\<rparr>))"
  by (simp add: FA_Swap_def value_Store_def one_dyn)

lemma CompareAndSwap_ok:
  "FA_CompareAndSwap T e v a = Ret (if fa_value a = e then (True, written v (a\<lparr>fa_value := v\<rparr>)) else (False, a))"
  by (simp add: FA_CompareAndSwap_def value_CompareAndSwap_def one_dyn eq_is_eq)

text \<open>
  The attempts of a transaction: the first one in which the value is the same at the write as at the read
  succeeds, on the state the others left; if there is none, the others' state is all that remains.
\<close>

lemma transaction_loop_ok:
  assumes "\<And>v. update v = Ret (f v)"
  shows "\<exists>k\<le>n. transaction_loop T env update i n a =
    (let c = fold env [i..<i + k] a
     in if k < n then Ret (f (fa_value c), written (f (fa_value c)) ((env (i + k) c)\<lparr>fa_value := f (fa_value c)\<rparr>))
        else Ret (fa_value c, c)) \<and>
    (k < n \<longrightarrow> fa_value (env (i + k) (fold env [i..<i + k] a)) = fa_value (fold env [i..<i + k] a)) \<and>
    (\<forall>j<k. fa_value (env (i + j) (fold env [i..<i + j] a)) \<noteq> fa_value (fold env [i..<i + j] a))"
proof (induction n arbitrary: i a)
  case 0
  show ?case by (simp add: FA_Get_def)
next
  case (Suc n)
  show ?case
  proof (cases "fa_value (env i a) = fa_value a")
    case True
    then show ?thesis by (intro exI [of _ 0]) (simp add: assms CompareAndSwap_ok FA_Get_def Let_def)
  next
    case False
    from Suc.IH [of "Suc i" "env i a"] obtain k where k: "k \<le> n"
      "transaction_loop T env update (Suc i) n (env i a) =
        (let c = fold env [Suc i..<Suc i + k] (env i a)
         in if k < n then Ret (f (fa_value c), written (f (fa_value c)) ((env (Suc i + k) c)\<lparr>fa_value := f (fa_value c)\<rparr>))
            else Ret (fa_value c, c))"
      "k < n \<longrightarrow> fa_value (env (Suc i + k) (fold env [Suc i..<Suc i + k] (env i a))) = fa_value (fold env [Suc i..<Suc i + k] (env i a))"
      "\<forall>j<k. fa_value (env (Suc i + j) (fold env [Suc i..<Suc i + j] (env i a))) \<noteq> fa_value (fold env [Suc i..<Suc i + j] (env i a))"
      by blast
    have shift: "fold env [i..<i + Suc j] a = fold env [Suc i..<Suc i + j] (env i a)" for j
      by (simp add: upt_conv_Cons del: upt_Suc)
    have "\<forall>j<Suc k. fa_value (env (i + j) (fold env [i..<i + j] a)) \<noteq> fa_value (fold env [i..<i + j] a)"
    proof (intro allI impI)
      fix j
      assume "j < Suc k"
      then show "fa_value (env (i + j) (fold env [i..<i + j] a)) \<noteq> fa_value (fold env [i..<i + j] a)"
        using False k(4) by (cases j) (simp_all del: upt_Suc add: shift [simplified])
    qed
    moreover have "transaction_loop T env update i (Suc n) a = transaction_loop T env update (Suc i) n (env i a)"
      using False by (simp add: assms CompareAndSwap_ok FA_Get_def Let_def)
    ultimately show ?thesis
      using k(1-3) shift [of k] by (intro exI [of _ "Suc k"]) (simp add: Let_def del: upt_Suc transaction_loop.simps)
  qed
qed

end

interpretation plain: comparable_type "plain_type zero" 0 for zero
  by unfold_locales (simp_all add: plain_type_def)

interpretation int64_num: comparable_type int64_type 0
  by unfold_locales (simp_all add: int64_type_def)

section \<open>The log of a field\<close>

text \<open>
  The abstract view of a field is the list of all values it ever had. A field in state \<open>fa_log log\<close> holds the
  last of them, its version is their number, and its history has the last hundred, the first value with
  version 0 and the others with the version they made.
\<close>

definition fa_entry :: "'a list \<Rightarrow> nat \<Rightarrow> 'a historyEntry" where
  "fa_entry log i = \<lparr>he_value = log ! i, he_version = (if i = 0 then 0 else of_nat (Suc i))\<rparr>"

definition fa_log :: "'a list \<Rightarrow> 'a FA \<Rightarrow> bool" where
  "fa_log log a \<longleftrightarrow> log \<noteq> [] \<and> fa_value a = last log \<and> fa_version a = of_nat (length log) \<and> fa_maxHistory a = 100 \<and>
     fa_history a = map (fa_entry log) [length log - 100..<length log]"

lemma fa_entry_append: "i < length log \<Longrightarrow> fa_entry (log @ vs) i = fa_entry log i"
  by (simp add: fa_entry_def nth_append)

lemma copy_down_snoc: "h \<noteq> [] \<Longrightarrow> take (length h) (copy_down (h @ [x])) = tl h @ [x]"
  by (cases h) (simp_all add: copy_down_def)

lemma addToHistory_log:
  assumes "fa_history a = map (fa_entry log) [length log - 100..<length log]" "fa_maxHistory a = 100" "log \<noteq> []"
  shows "fa_history (addToHistory v (of_nat (Suc (length log))) a) =
    map (fa_entry (log @ [v])) [Suc (length log) - 100..<Suc (length log)]"
proof -
  let ?n = "length log"
  have new: "fa_entry (log @ [v]) ?n = \<lparr>he_value = v, he_version = of_nat (Suc ?n)\<rparr>" using assms(3) by (simp add: fa_entry_def)
  have old: "map (fa_entry (log @ [v])) [k..<?n] = map (fa_entry log) [k..<?n]" for k
    by (simp add: fa_entry_append)
  have ext: "map (fa_entry (log @ [v])) [k..<Suc ?n] = map (fa_entry log) [k..<?n] @ [\<lparr>he_value = v, he_version = of_nat (Suc ?n)\<rparr>]"
    if "k \<le> ?n" for k
    using that by (simp add: old new del: of_nat_Suc)
  show ?thesis
  proof (cases "?n < 100")
    case True
    with assms(1,2) ext [of 0] show ?thesis by (simp add: addToHistory_def Let_def del: upt_Suc of_nat_Suc)
  next
    case False
    let ?h = "map (fa_entry log) [?n - 100..<?n]"
    have h: "length ?h = 100" "?h \<noteq> []" using False by auto
    have "[?n - 100..<?n] = (?n - 100) # [Suc (?n - 100)..<?n]" using False by (intro upt_conv_Cons) simp
    moreover have "Suc (?n - 100) = Suc ?n - 100" using False by simp
    ultimately have "tl ?h = map (fa_entry log) [Suc ?n - 100..<?n]" by (simp only: list.map list.sel)
    with copy_down_snoc [OF h(2)] h(1) assms(1,2) ext [of "Suc ?n - 100"] False show ?thesis
      by (simp add: addToHistory_def Let_def del: upt_Suc of_nat_Suc map_append)
  qed
qed

lemma addToHistory_others:
  "fa_value (addToHistory v k a) = fa_value a" "fa_version (addToHistory v k a) = fa_version a"
  "fa_maxHistory (addToHistory v k a) = fa_maxHistory a" "fa_subscribers (addToHistory v k a) = fa_subscribers a"
  "fa_calls (addToHistory v k a) = fa_calls a"
  by (simp_all add: addToHistory_def Let_def)

lemma written_log: "fa_log log a \<Longrightarrow> fa_log (log @ [v]) (written v (a\<lparr>fa_value := v\<rparr>))"
  using addToHistory_log [of "a\<lparr>fa_value := v, fa_version := fa_version a + 1\<rparr>" log v]
  by (simp add: fa_log_def written_def notifySubscribers_def Let_def addToHistory_others add.commute)

lemma NewFA_log: "NewFA (plain_type zero) [x] = Ret a \<Longrightarrow> fa_log [x] a"
  by (auto simp: NewFA_def plain_type_def addToHistory_def fa_log_def fa_entry_def)

datatype 'a fa_call = CallSet 'a | CallSwap 'a | CallCompareAndSwap 'a 'a | CallTransaction "'a \<Rightarrow> 'a"
  | CallSubscribe nat | CallUnsubscribe uint64

definition fa_do :: "('a, 'm) go_type_scheme \<Rightarrow> 'a fa_call \<Rightarrow> 'a FA \<Rightarrow> 'a FA outcome" where
  "fa_do T c a = (case c of
       CallSet v \<Rightarrow> FA_Set T v a
     | CallSwap v \<Rightarrow> bind_outcome (FA_Swap T v a) (\<lambda>(old, a). Ret a)
     | CallCompareAndSwap e v \<Rightarrow> bind_outcome (FA_CompareAndSwap T e v a) (\<lambda>(ok, a). Ret a)
     | CallTransaction f \<Rightarrow> bind_outcome (FA_Transaction T (\<lambda>i a. a) (\<lambda>v. Ret (f v)) a) (\<lambda>(v, a). Ret a)
     | CallSubscribe cb \<Rightarrow> Ret (snd (FA_Subscribe cb a))
     | CallUnsubscribe sid \<Rightarrow> Ret (FA_unsubscribe sid a))"

fun fa_run :: "('a, 'm) go_type_scheme \<Rightarrow> 'a fa_call list \<Rightarrow> 'a FA \<Rightarrow> 'a FA outcome" where
  "fa_run T [] a = Ret a"
| "fa_run T (c # cs) a = bind_outcome (fa_do T c a) (fa_run T cs)"

primrec log_do :: "'a fa_call \<Rightarrow> 'a list \<Rightarrow> 'a list" where
  "log_do (CallSet v) log = log @ [v]"
| "log_do (CallSwap v) log = log @ [v]"
| "log_do (CallCompareAndSwap e v) log = (if last log = e then log @ [v] else log)"
| "log_do (CallTransaction f) log = log @ [f (last log)]"
| "log_do (CallSubscribe cb) log = log"
| "log_do (CallUnsubscribe sid) log = log"

lemma undisturbed_transaction:
  "FA_Transaction (plain_type zero) (\<lambda>i a. a) (\<lambda>v. Ret (f v)) a =
     Ret (f (fa_value a), written (f (fa_value a)) (a\<lparr>fa_value := f (fa_value a)\<rparr>))"
  by (simp add: FA_Transaction_def maxRetries_def eval_nat_numeral plain.CompareAndSwap_ok FA_Get_def Let_def)

lemma fa_do_log: "fa_log log a \<Longrightarrow> \<exists>a'. fa_do (plain_type zero) c a = Ret a' \<and> fa_log (log_do c log) a'"
proof (cases c)
  case (CallCompareAndSwap e v)
  assume "fa_log log a"
  with written_log [of log a v] CallCompareAndSwap show ?thesis by (auto simp: fa_do_def plain.CompareAndSwap_ok fa_log_def)
next
  case (CallTransaction f)
  assume "fa_log log a"
  then have "fa_value a = last log" by (simp add: fa_log_def)
  with written_log [OF \<open>fa_log log a\<close>, of "f (last log)"] CallTransaction show ?thesis
    by (simp add: fa_do_def undisturbed_transaction)
qed (simp_all add: fa_do_def plain.Set_ok plain.Swap_ok written_log,
  simp_all add: FA_Subscribe_def add_subscriber_def FA_unsubscribe_def fa_log_def Let_def)

lemma fa_run_log: "fa_log log a \<Longrightarrow> \<exists>a'. fa_run (plain_type zero) cs a = Ret a' \<and> fa_log (fold log_do cs log) a'"
proof (induction cs arbitrary: a log)
  case (Cons c cs)
  from fa_do_log [OF Cons.prems] obtain a1 where "fa_do (plain_type zero) c a = Ret a1" "fa_log (log_do c log) a1" by blast
  with Cons.IH [of "log_do c log" a1] show ?case by simp
qed simp

lemma fa_new_run:
  "\<exists>a a'. NewFA (plain_type zero) [x] = Ret a \<and> fa_run (plain_type zero) cs a = Ret a' \<and> fa_log (fold log_do cs [x]) a'"
proof -
  obtain a where a: "NewFA (plain_type zero) [x] = Ret a" by (simp add: NewFA_def plain_type_def)
  from fa_run_log [OF NewFA_log [OF a]] a show ?thesis by blast
qed

lemma log_entry_values: "map he_value (map (fa_entry log) [i..<length log]) = drop i log"
  by (rule nth_equalityI) (simp_all add: fa_entry_def)

lemma drop_upt_map: "drop k (map f [i..<n]) = map f [i + k..<n]"
  by (simp add: drop_map)

lemma fa_log_History: "fa_log log a \<Longrightarrow> FA_History limit a = drop (length log - min (unat limit) 100) log"
proof (cases "limit = 0")
  case False
  assume a: "fa_log log a"
  then have h: "fa_history a = map (fa_entry log) [length log - 100..<length log]" and "0 < length log" by (auto simp: fa_log_def)
  then have "length (fa_history a) \<noteq> 0" by (simp only: length_map length_upt)
  then have ne: "fa_history a \<noteq> []" by simp
  have "length log - 100 + (if unat limit < length (fa_history a) then length (fa_history a) - unat limit else 0) =
      length log - min (unat limit) 100"
    using h by auto
  then have "FA_History limit a = map he_value (map (fa_entry log) [length log - min (unat limit) 100..<length log])"
    using False ne h by (simp add: FA_History_def drop_upt_map Let_def del: map_map)
  then show ?thesis by (simp only: log_entry_values)
qed (simp add: FA_History_def)


section \<open>Deltas\<close>

lemma unat_small: "n < 2 ^ 64 \<Longrightarrow> unat (of_nat n :: uint64) = n"
  by (simp add: unat_of_nat)

lemma entry_newer:
  assumes "length log < 2 ^ 64" "i < length log" "from < 2 ^ 64"
  shows "he_version (fa_entry log i) > (of_nat from :: uint64) \<longleftrightarrow> from \<le> i \<and> 0 < i"
proof (cases "i = 0")
  case False
  from assms have "unat (of_nat (Suc i) :: uint64) = Suc i" "unat (of_nat from :: uint64) = from"
    by (intro unat_small, simp)+
  with False show ?thesis by (simp add: fa_entry_def word_less_nat_alt less_Suc_eq_le del: of_nat_Suc)
qed (simp add: fa_entry_def)

lemma newer_entries:
  "filter (\<lambda>i. k \<le> i \<and> 0 < i) [j..<n] = [max j (max k 1)..<n]"
proof (induction n)
  case (Suc n)
  then show ?case by (auto simp: max_def)
qed simp

lemma fa_log_Delta:
  assumes "fa_log log a" "length log < 2 ^ 64" "from < 2 ^ 64"
  shows "FA_Delta (of_nat from) a =
    (if from = 0 \<and> length log = 1 then Inl (Err ''version too old, not available in history'')
     else Inr (drop (max (length log - 100) (max from 1)) log))"
proof -
  define m where "m = max (length log - 100) (max from 1)"
  have "filter (\<lambda>e. he_version e > (of_nat from :: uint64)) (fa_history a) =
      map (fa_entry log) (filter (\<lambda>i. from \<le> i \<and> 0 < i) [length log - 100..<length log])"
    using assms by (auto simp: fa_log_def filter_map comp_def entry_newer intro!: arg_cong [where f = "map (fa_entry log)"] filter_cong)
  then have newer: "filter (\<lambda>e. he_version e > (of_nat from :: uint64)) (fa_history a) = map (fa_entry log) [m..<length log]"
    by (simp only: newer_entries m_def)
  have v: "(of_nat from :: uint64) < fa_version a \<longleftrightarrow> from < length log"
    using assms by (simp add: fa_log_def word_less_nat_alt unat_small)
  have "0 < length log" using assms(1) by (simp add: fa_log_def)
  then have e: "[m..<length log] = [] \<and> from < length log \<longleftrightarrow> from = 0 \<and> length log = 1"
    by (auto simp: m_def upt_eq_Nil_conv max_def split: if_splits)
  have "FA_Delta (of_nat from) a = (if [m..<length log] = [] \<and> from < length log then Inl (Err ''version too old, not available in history'')
      else Inr (map he_value (map (fa_entry log) [m..<length log])))"
    by (simp only: FA_Delta_def newer Let_def v map_is_Nil_conv)
  then show ?thesis unfolding e log_entry_values by (simp only: m_def)
qed

text \<open>
  \<open>Delta\<close> after any such sequence that makes fewer than \<open>2^64\<close> values: it returns the values made after the
  given version, as far as the history still has them. A version that is too old is not reported, the
  values in between are left out without an error; the one case reported is version 0 of a field that
  was never written, where nothing is missing.
\<close>

theorem field_delta:
  assumes "NewFA (plain_type zero) [x] = Ret a" and "fa_run (plain_type zero) cs a = Ret a'"
    and "length (fold log_do cs [x]) < 2 ^ 64" and "from < 2 ^ 64"
  shows "FA_Delta (of_nat from) a' =
    (if from = 0 \<and> length (fold log_do cs [x]) = 1 then Inl (Err ''version too old, not available in history'')
     else Inr (drop (max (length (fold log_do cs [x]) - 100) (max from 1)) (fold log_do cs [x])))"
  using fa_log_Delta [OF _ assms(3,4), of a'] fa_run_log [OF NewFA_log [OF assms(1)], of zero cs] assms(2) by auto

theorem field_delta_witness:
  "\<exists>a a'. NewFA (plain_type (0::int)) [5] = Ret a \<and> fa_run (plain_type 0) [CallSet 6, CallTransaction (\<lambda>v. v + 1)] a = Ret a' \<and>
     FA_Delta (of_nat 2) a' = Inr [7]"
proof -
  obtain a a' where a: "NewFA (plain_type (0::int)) [5] = Ret a" "fa_run (plain_type 0) [CallSet 6, CallTransaction (\<lambda>v. v + 1)] a = Ret a'"
    using fa_new_run [of 0 5 "[CallSet 6, CallTransaction (\<lambda>v. v + 1)]"] by blast
  have "FA_Delta (of_nat 2) a' = Inr [7]" using field_delta [OF a, of 2] by simp
  with a show ?thesis by blast
qed

section \<open>Transactions\<close>

text \<open>
  A transaction among writes of other goroutines (\<open>env\<close>, between the reading and the writing of each of its
  ten attempts). If some attempt finds at its write the value it read, the first such attempt applies
  the update in one step to the state the others left, and returns the result. If all ten are disturbed,
  the update is dropped: the state is the one the others left, and the call returns its value.
\<close>

theorem transaction_attempts:
  "\<exists>k\<le>10. (let c = fold env [0..<k] a; new = f (FA_Get c)
     in if k < 10 then FA_Get (env k c) = FA_Get c \<and>
          FA_Transaction (plain_type zero) env (\<lambda>v. Ret (f v)) a = Ret (new, written new ((env k c)\<lparr>fa_value := new\<rparr>))
        else FA_Transaction (plain_type zero) env (\<lambda>v. Ret (f v)) a = Ret (FA_Get c, c)) \<and>
     (\<forall>j<k. FA_Get (env j (fold env [0..<j] a)) \<noteq> FA_Get (fold env [0..<j] a))"
proof -
  obtain k where k: "k \<le> 10" "transaction_loop (plain_type zero) env (\<lambda>v. Ret (f v)) 0 10 a =
      (let c = fold env [0..<0 + k] a
       in if k < 10 then Ret (f (fa_value c), written (f (fa_value c)) ((env (0 + k) c)\<lparr>fa_value := f (fa_value c)\<rparr>))
          else Ret (fa_value c, c))"
    "k < 10 \<longrightarrow> fa_value (env (0 + k) (fold env [0..<0 + k] a)) = fa_value (fold env [0..<0 + k] a)"
    "\<forall>j<k. fa_value (env (0 + j) (fold env [0..<0 + j] a)) \<noteq> fa_value (fold env [0..<0 + j] a)"
    using plain.transaction_loop_ok [where update = "\<lambda>v. Ret (f v)" and f = f and n = 10 and zero = zero and env = env and i = 0 and a = a]
    by blast
  show ?thesis
    unfolding FA_Transaction_def maxRetries_def FA_Get_def k(2)
    using k(1,3,4) by (intro exI [of _ k] conjI) (simp_all add: Let_def)
qed

theorem transaction_attempts_witness:
  "\<exists>a. NewFA (plain_type (0::int)) [5] = Ret a \<and>
     FA_Transaction (plain_type 0) (\<lambda>i a. a\<lparr>fa_value := fa_value a + 1\<rparr>) (\<lambda>v. Ret (2 * v)) a = Ret (15, a\<lparr>fa_value := 15\<rparr>)"
proof -
  let ?env = "\<lambda>i::nat. \<lambda>a::int FA. a\<lparr>fa_value := fa_value a + 1\<rparr>"
  obtain a where a: "NewFA (plain_type (0::int)) [5] = Ret a" "fa_value a = 5"
    by (simp add: NewFA_def plain_type_def addToHistory_def)
  obtain k where k: "k \<le> 10" "(let c = fold ?env [0..<k] a; new = 2 * (FA_Get c)
     in if k < 10 then FA_Get (?env k c) = FA_Get c \<and>
          FA_Transaction (plain_type 0) ?env (\<lambda>v. Ret (2 * v)) a = Ret (new, written new ((?env k c)\<lparr>fa_value := new\<rparr>))
        else FA_Transaction (plain_type 0) ?env (\<lambda>v. Ret (2 * v)) a = Ret (FA_Get c, c))"
    using transaction_attempts [where env = ?env and a = a and zero = 0 and f = "\<lambda>v. 2 * v"] by blast
  have "k = 10" using k by (auto simp: Let_def FA_Get_def split: if_splits)
  moreover have "fold ?env [0..<n] a = a\<lparr>fa_value := 5 + int n\<rparr>" for n
    using a(2) by (induction n) simp_all
  ultimately show ?thesis using k(2) a(1) by (simp add: FA_Get_def)
qed

section \<open>Locks\<close>

datatype lock_request = RequestLock nat | RequestRLock | RequestTryLock nat

primrec mx_request :: "lock_request \<Rightarrow> rw_mutex \<Rightarrow> rw_mutex" where
  "mx_request (RequestLock g) m = FA_Lock g m"
| "mx_request RequestRLock m = FA_RLock m"
| "mx_request (RequestTryLock g) m = snd (FA_TryLock g (\<lambda>m. m) m)"

lemma held_stays: "mx_writer m = Some g \<Longrightarrow> mx_writer (fold mx_request rs m) = Some g"
proof (induction rs arbitrary: m)
  case (Cons r rs)
  from Cons.prems have "mx_writer (mx_request r m) = Some g"
    by (cases r) (simp_all add: FA_Lock_def FA_RLock_def FA_TryLock_def Let_def)
  with Cons.IH show ?case by simp
qed simp

text \<open>
  A \<open>TryLock\<close> that gives up on a lock held by another goroutine leaves a goroutine behind that takes the
  lock as soon as it is free, and that nobody knows of: from then on the lock is held for good, and every
  later \<open>TryLock\<close> fails too, whatever locks are asked for in between.
\<close>

theorem TryLock_leaks:
  assumes "mx_writer m = Some h" and "mx_waiting m = []" and "mx_parked m = 0" and "h \<noteq> g" and "g' \<noteq> g"
    and "FA_TryLock g (\<lambda>m. m) m = (got, m1)" and "FA_Unlock m1 = Ret m2"
  shows "got = False \<and> mx_writer (fold mx_request rs m2) = Some g \<and>
    fst (FA_TryLock g' (\<lambda>m. m) (fold mx_request rs m2)) = False"
proof -
  from assms have m1: "got = False" "m1 = m\<lparr>mx_waiting := [g]\<rparr>" by (auto simp: FA_TryLock_def FA_Lock_def Let_def)
  with assms have "mx_writer m2 = Some g" by (auto simp: FA_Unlock_def)
  then have "mx_writer (fold mx_request rs m2) = Some g" by (rule held_stays)
  with m1 assms(5) show ?thesis by (simp add: FA_TryLock_def FA_Lock_def Let_def)
qed

theorem TryLock_leaks_witness:
  "mx_writer (fold mx_request [RequestLock 8, RequestRLock] \<lparr>mx_writer = Some 2, mx_readers = 0, mx_waiting = [], mx_parked = 0\<rparr>) = Some 2"
  using TryLock_leaks [of "\<lparr>mx_writer = Some 1, mx_readers = 0, mx_waiting = [], mx_parked = 0\<rparr>" 1 2 9 False
      "\<lparr>mx_writer = Some 1, mx_readers = 0, mx_waiting = [2], mx_parked = 0\<rparr>"
      "\<lparr>mx_writer = Some 2, mx_readers = 0, mx_waiting = [], mx_parked = 0\<rparr>" "[RequestLock 8, RequestRLock]"]
  by (simp add: FA_TryLock_def FA_Lock_def FA_Unlock_def Let_def del: fold_simps)

section \<open>Channel subscriptions\<close>

text \<open>
  The goroutine of a channel subscription reads the current value before it subscribes. A value set in
  between is not delivered, neither then nor later: the channel holds the older value, and no callback
  was called for the newer one. Once the goroutine has subscribed, a set value reaches the callback.
\<close>

theorem channel_subscription_gap:
  assumes "fa_subscribers a = []" and "fa_calls a = []"
    and "ch_step cb a FA_SubscribeCh = Some (a1, s1)" and "FA_Set (plain_type zero) v a1 = Ret a2"
    and "ch_step cb a2 s1 = Some (a3, s3)" and "FA_Set (plain_type zero) v' a3 = Ret a4"
  shows "cs_out s3 = [FA_Get a] \<and> FA_Get a3 = v \<and> fa_calls a3 = [] \<and> fa_calls a4 = [(cb, v')]"
  using assms
  by (auto simp: ch_step_def FA_SubscribeCh_def FA_SubscribeIfCh_def passes_def FA_SubscribeIf_def add_subscriber_def plain.Set_ok
      written_def notifySubscribers_def addToHistory_others Let_def FA_Get_def)

theorem channel_subscription_gap_witness:
  "\<exists>a a1 s1 (a3 :: int FA) s3. NewFA (plain_type (0::int)) [5] = Ret a \<and> ch_step 1 a FA_SubscribeCh = Some (a1, s1) \<and> cs_out (s3 :: int ch_subscription) = [5] \<and>
     FA_Get a3 = 6 \<and> fa_calls a3 = []"
proof -
  obtain a where a: "NewFA (plain_type (0::int)) [5] = Ret a" by (simp add: NewFA_def plain_type_def)
  then have s: "fa_subscribers a = []" "fa_calls a = []" "FA_Get a = 5"
    by (auto simp: NewFA_def plain_type_def addToHistory_def FA_Get_def)
  obtain a1 s1 where 1: "ch_step 1 a FA_SubscribeCh = Some (a1, s1)" "cs_phase s1 = Offered"
    by (simp add: ch_step_def FA_SubscribeCh_def FA_SubscribeIfCh_def passes_def Let_def)
  obtain a3 s3 where 3: "ch_step 1 (written 6 (a1\<lparr>fa_value := 6\<rparr>)) s1 = Some (a3, s3)" using 1(2) by (simp add: ch_step_def FA_SubscribeIf_def add_subscriber_def Let_def)
  from channel_subscription_gap [OF s(1,2) 1(1) plain.Set_ok 3 plain.Set_ok, of 0] a 1 s(3) show ?thesis
    by (intro exI [of _ a] exI [of _ a1] exI [of _ s1] exI [of _ a3] exI [of _ s3]) simp
qed

end
