(* ===== verification/Field_Slice.thy ===== *)
theory Field_Slice
  imports Field_Accessor Seq_Iterator
begin

text \<open>
  \<open>SFA\<close>, the field accessor for slices (\<open>internal/core/fields/slice_field_accessor.go\<close>). A slice is a view of an
  array that other slices may share, so the arrays are a store: an array is known by its place in a list,
  and a slice by its array, offset, length and capacity. How much room \<open>append\<close> leaves in a new array is a
  parameter \<open>grow\<close>.
\<close>

section \<open>Slices\<close>

record slice =
  sl_array :: nat
  sl_off :: nat
  sl_len :: nat
  sl_cap :: nat

type_synonym 'a store = "'a list list"

definition nil_slice :: slice where
  "nil_slice = \<lparr>sl_array = 0, sl_off = 0, sl_len = 0, sl_cap = 0\<rparr>"

definition sl_read :: "'a store \<Rightarrow> slice \<Rightarrow> 'a list" where
  "sl_read h s = take (sl_len s) (drop (sl_off s) (h ! sl_array s))"

text \<open>Writing a run of elements into an array.\<close>

definition put_run :: "nat \<Rightarrow> 'a list \<Rightarrow> 'a list \<Rightarrow> 'a list" where
  "put_run i xs arr = take i arr @ xs @ drop (i + length xs) arr"

definition sl_write :: "'a store \<Rightarrow> slice \<Rightarrow> nat \<Rightarrow> 'a list \<Rightarrow> 'a store" where
  "sl_write h s i xs = h[sl_array s := put_run (sl_off s + i) xs (h ! sl_array s)]"

definition sl_new :: "'a store \<Rightarrow> 'a list \<Rightarrow> nat \<Rightarrow> 'a \<Rightarrow> slice \<times> 'a store" where
  "sl_new h xs room zero =
     (\<lparr>sl_array = length h, sl_off = 0, sl_len = length xs, sl_cap = length xs + room\<rparr>, h @ [xs @ replicate room zero])"

definition go_append :: "(nat \<Rightarrow> nat) \<Rightarrow> 'a \<Rightarrow> slice \<Rightarrow> 'a list \<Rightarrow> 'a store \<Rightarrow> slice \<times> 'a store" where
  "go_append grow zero s xs h =
     (if sl_len s + length xs \<le> sl_cap s
      then (s\<lparr>sl_len := sl_len s + length xs\<rparr>, sl_write h s (sl_len s) xs)
      else sl_new h (sl_read h s @ xs) (grow (sl_len s + length xs)) zero)"

text \<open>\<open>s[:i]\<close> and \<open>s[i:]\<close>.\<close>

definition sl_upto :: "slice \<Rightarrow> int \<Rightarrow> slice outcome" where
  "sl_upto s i = (if i < 0 \<or> i > int (sl_cap s) then Panic IndexOutOfRange else Ret (s\<lparr>sl_len := nat i\<rparr>))"

definition sl_from :: "slice \<Rightarrow> int \<Rightarrow> slice outcome" where
  "sl_from s i =
     (if i < 0 \<or> i > int (sl_len s) then Panic IndexOutOfRange
      else Ret \<lparr>sl_array = sl_array s, sl_off = sl_off s + nat i, sl_len = sl_len s - nat i, sl_cap = sl_cap s - nat i\<rparr>)"

text \<open>Comparing two slices as interface values panics.\<close>

definition slice_type :: "slice go_type" where
  "slice_type = \<lparr>ty_zero = nil_slice, ty_dyn = \<lambda>s. Some 1, ty_eq = \<lambda>s t. Panic Uncomparable\<rparr>"

section \<open>Transactions on a store\<close>

text \<open>
  \<open>FA.Transaction\<close> with an update function that reads and writes the store; the store survives a panic.
\<close>

fun store_transaction ::
    "('v, 'm) go_type_scheme \<Rightarrow> (nat \<Rightarrow> 'v FA \<times> 'h \<Rightarrow> 'v FA \<times> 'h) \<Rightarrow> ('v \<Rightarrow> 'h \<Rightarrow> 'v outcome \<times> 'h) \<Rightarrow> nat \<Rightarrow> nat \<Rightarrow>
     'v FA \<Rightarrow> 'h \<Rightarrow> ('v \<times> 'v FA) outcome \<times> 'h" where
  "store_transaction T env update i 0 a h = (Ret (FA_Get a, a), h)"
| "store_transaction T env update i (Suc n) a h =
     (let current = FA_Get a
      in case update current h of
           (Panic p, h) \<Rightarrow> (Panic p, h)
         | (Blocked, h) \<Rightarrow> (Blocked, h)
         | (Ret updated, h) \<Rightarrow>
             (case env i (a, h) of (a, h) \<Rightarrow>
               (case FA_CompareAndSwap T current updated a of
                  Panic p \<Rightarrow> (Panic p, h)
                | Blocked \<Rightarrow> (Blocked, h)
                | Ret (True, a) \<Rightarrow> (Ret (updated, a), h)
                | Ret (False, a) \<Rightarrow> store_transaction T env update (i + 1) n a h)))"

lemma store_transaction_pure:
  "store_transaction T (\<lambda>i (a, h). (env i a, h)) (\<lambda>v h. (update v, h)) i n a h = (transaction_loop T env update i n a, h)"
  by (induction n arbitrary: i a) (auto simp: Let_def split: outcome.splits bool.splits)

section \<open>SFA\<close>

text \<open>
  The methods \<open>SFA\<close> hands on to its root are those of \<open>FA\<close> at \<open>slice_type\<close>, but for \<open>SubscribeCh\<close>, which calls
  itself: with any bound on the depth of calls it does not return.
\<close>

fun SFA_SubscribeCh :: "nat \<Rightarrow> slice ch_subscription option" where
  "SFA_SubscribeCh 0 = None"
| "SFA_SubscribeCh (Suc depth) = SFA_SubscribeCh depth"

definition NewSFA :: "slice list \<Rightarrow> slice FA outcome" where
  "NewSFA initial = NewFA slice_type initial"

definition SFA_Get :: "slice FA \<Rightarrow> slice" where
  "SFA_Get a = FA_Get a"

definition SFA_Set :: "slice \<Rightarrow> slice FA \<Rightarrow> slice FA outcome" where
  "SFA_Set s a = FA_Set slice_type s a"

definition SFA_Swap :: "slice \<Rightarrow> slice FA \<Rightarrow> (slice \<times> slice FA) outcome" where
  "SFA_Swap s a = FA_Swap slice_type s a"

definition SFA_CompareAndSwap :: "slice \<Rightarrow> slice \<Rightarrow> slice FA \<Rightarrow> (bool \<times> slice FA) outcome" where
  "SFA_CompareAndSwap expected new a = FA_CompareAndSwap slice_type expected new a"

definition SFA_Transaction ::
    "(slice \<Rightarrow> 'a store \<Rightarrow> slice outcome \<times> 'a store) \<Rightarrow> slice FA \<Rightarrow> 'a store \<Rightarrow> (slice \<times> slice FA) outcome \<times> 'a store" where
  "SFA_Transaction update a h = store_transaction slice_type (\<lambda>i x. x) update 0 maxRetries a h"

definition SFA_Len :: "slice FA \<Rightarrow> int" where
  "SFA_Len a = int (sl_len (FA_Get a))"

definition SFA_Index :: "'a \<Rightarrow> slice FA \<Rightarrow> 'a store \<Rightarrow> int \<Rightarrow> 'a \<times> bool" where
  "SFA_Index zero a h index =
     (let s = FA_Get a
      in if int (sl_len s) - 1 < index \<or> index < 0 then (zero, False) else (sl_read h s ! nat index, True))"

text \<open>A mutation in a transaction: its result is dropped, only the state matters.\<close>

definition mutate ::
    "(slice \<Rightarrow> 'a store \<Rightarrow> slice outcome \<times> 'a store) \<Rightarrow> 'b \<Rightarrow> slice FA \<Rightarrow> 'a store \<Rightarrow> ('b \<times> slice FA) outcome \<times> 'a store" where
  "mutate update x a h = (case SFA_Transaction update a h of (r, h) \<Rightarrow> (bind_outcome r (\<lambda>(s, a). Ret (x, a)), h))"

definition out_of_range :: "slice FA \<Rightarrow> int \<Rightarrow> bool" where
  "out_of_range a index \<longleftrightarrow> int (sl_len (FA_Get a)) - 1 < index \<or> index < 0"

definition SFA_Assign :: "int \<Rightarrow> 'a \<Rightarrow> slice FA \<Rightarrow> 'a store \<Rightarrow> (bool \<times> slice FA) outcome \<times> 'a store" where
  "SFA_Assign index v a h =
     (if out_of_range a index then (Ret (False, a), h)
      else mutate (\<lambda>current h.
        if index < 0 \<or> index \<ge> int (sl_len current) then (Panic IndexOutOfRange, h)
        else (Ret current, sl_write h current (nat index) [v])) True a h)"

definition SFA_Append :: "(nat \<Rightarrow> nat) \<Rightarrow> 'a \<Rightarrow> 'a list \<Rightarrow> slice FA \<Rightarrow> 'a store \<Rightarrow> (unit \<times> slice FA) outcome \<times> 'a store" where
  "SFA_Append grow zero vs a h =
     mutate (\<lambda>current h. case go_append grow zero current vs h of (s, h) \<Rightarrow> (Ret s, h)) () a h"

text \<open>The elements behind the removed one are read before any is overwritten.\<close>

definition SFA_Remove :: "(nat \<Rightarrow> nat) \<Rightarrow> 'a \<Rightarrow> int \<Rightarrow> slice FA \<Rightarrow> 'a store \<Rightarrow> (bool \<times> slice FA) outcome \<times> 'a store" where
  "SFA_Remove grow zero index a h =
     (if out_of_range a index then (Ret (False, a), h)
      else mutate (\<lambda>current h.
        case (sl_upto current index, sl_from current (index + 1)) of
          (Ret front, Ret back) \<Rightarrow> (case go_append grow zero front (sl_read h back) h of (s, h) \<Rightarrow> (Ret s, h))
        | _ \<Rightarrow> (Panic IndexOutOfRange, h)) True a h)"

definition SFA_Insert :: "(nat \<Rightarrow> nat) \<Rightarrow> 'a \<Rightarrow> int \<Rightarrow> 'a \<Rightarrow> slice FA \<Rightarrow> 'a store \<Rightarrow> (unit \<times> slice FA) outcome \<times> 'a store" where
  "SFA_Insert grow zero index v a h =
     mutate (\<lambda>current h.
       case (sl_upto current index, sl_from current index) of
         (Ret front, Ret back) \<Rightarrow>
           (let (one, h) = sl_new h [v] 0 zero;
                (rest, h) = go_append grow zero one (sl_read h back) h
            in case go_append grow zero front (sl_read h rest) h of (s, h) \<Rightarrow> (Ret s, h))
       | _ \<Rightarrow> (Panic IndexOutOfRange, h)) () a h"

definition SFA_Clear :: "'a \<Rightarrow> slice FA \<Rightarrow> 'a store \<Rightarrow> (unit \<times> slice FA) outcome \<times> 'a store" where
  "SFA_Clear zero a h = mutate (\<lambda>current h. case sl_new h [] 0 zero of (s, h) \<Rightarrow> (Ret s, h)) () a h"

text \<open>The copying loop reads the old slice at every index of the new one.\<close>

fun copy_elements :: "'a list \<Rightarrow> nat \<Rightarrow> nat \<Rightarrow> 'a list \<Rightarrow> 'a list outcome" where
  "copy_elements current i 0 newSlice = Ret newSlice"
| "copy_elements current i (Suc n) newSlice =
     bind_outcome (slice_get current i) (\<lambda>v.
     bind_outcome (slice_set newSlice i v) (\<lambda>newSlice. copy_elements current (i + 1) n newSlice))"

definition SFA_Resize :: "'a \<Rightarrow> int \<Rightarrow> slice FA \<Rightarrow> 'a store \<Rightarrow> (bool \<times> slice FA) outcome \<times> 'a store" where
  "SFA_Resize zero newLen a h =
     (if newLen < 0 then (Ret (False, a), h)
      else mutate (\<lambda>current h.
        case copy_elements (sl_read h current) 0 (nat newLen) (replicate (nat newLen) zero) of
          Ret xs \<Rightarrow> (case sl_new h xs 0 zero of (s, h) \<Rightarrow> (Ret s, h))
        | _ \<Rightarrow> (Panic IndexOutOfRange, h)) True a h)"

definition SFA_CopyTo :: "slice \<Rightarrow> slice FA \<Rightarrow> 'a store \<Rightarrow> int \<times> 'a store" where
  "SFA_CopyTo dest a h =
     (int (sl_len dest), sl_write h dest 0 (take (sl_len dest) (sl_read h (FA_Get a))))"

fun reverse_swap :: "'a list \<Rightarrow> nat \<Rightarrow> nat \<Rightarrow> 'a list \<Rightarrow> 'a list" where
  "reverse_swap origin i j reversed =
     (if i < j then reverse_swap origin (i + 1) (j - 1) (reversed[i := origin ! j, j := origin ! i]) else reversed)"

declare reverse_swap.simps [simp del]

definition SFA_Reverse :: "'a \<Rightarrow> slice FA \<Rightarrow> 'a store \<Rightarrow> 'a list" where
  "SFA_Reverse zero a h =
     (let origin = sl_read h (FA_Get a)
      in reverse_swap origin 0 (length origin - 1) (replicate (length origin) zero))"

definition SFA_Iter :: "slice FA \<Rightarrow> 'a store \<Rightarrow> 'a iterator" where
  "SFA_Iter a h = From (sl_read h (FA_Get a))"

section \<open>Reading what was written\<close>

definition slice_ok :: "'a store \<Rightarrow> slice \<Rightarrow> bool" where
  "slice_ok h s \<longleftrightarrow> sl_array s < length h \<and> sl_len s \<le> sl_cap s \<and> sl_off s + sl_cap s \<le> length (h ! sl_array s)"

lemma length_sl_read [simp]: "slice_ok h s \<Longrightarrow> length (sl_read h s) = sl_len s"
  by (auto simp: slice_ok_def sl_read_def)

lemma length_put_run: "i + length xs \<le> length arr \<Longrightarrow> length (put_run i xs arr) = length arr"
  by (simp add: put_run_def)

lemma nth_put_run:
  assumes "i + length xs \<le> length arr"
  shows "put_run i xs arr ! j = (if i \<le> j \<and> j < i + length xs then xs ! (j - i) else arr ! j)"
proof -
  have "length (take i arr) = i" using assms by simp
  then show ?thesis using assms by (auto simp: put_run_def nth_append diff_diff_left)
qed

lemma nth_window: "k < n \<Longrightarrow> off + n \<le> length arr \<Longrightarrow> take n (drop off arr) ! k = arr ! (off + k)"
  by simp

text \<open>A window of \<open>n\<close> elements at \<open>off\<close>, after a run was written at place \<open>i\<close> of it, which may reach beyond.\<close>

lemma put_run_window:
  assumes "off + n \<le> length arr" "i \<le> n" "off + i + length xs \<le> length arr"
  shows "take n (drop off (put_run (off + i) xs arr)) = take n (put_run i xs (take n (drop off arr)))"
proof (rule nth_equalityI)
  show "length (take n (drop off (put_run (off + i) xs arr))) = length (take n (put_run i xs (take n (drop off arr))))"
    using assms length_put_run [of "off + i" xs arr] by (simp add: put_run_def)
  fix k
  assume "k < length (take n (drop off (put_run (off + i) xs arr)))"
  then have k: "k < n" by simp
  have "take n (put_run i xs (take n (drop off arr))) ! k = (if i \<le> k \<and> k < i + length xs then xs ! (k - i) else arr ! (off + k))"
    using assms k by (auto simp: put_run_def nth_append)
  moreover have "take n (drop off (put_run (off + i) xs arr)) ! k = (if i \<le> k \<and> k < i + length xs then xs ! (k - i) else arr ! (off + k))"
    using assms k nth_put_run [of "off + i" xs arr "off + k"] length_put_run [of "off + i" xs arr] by simp
  ultimately show "take n (drop off (put_run (off + i) xs arr)) ! k = take n (put_run i xs (take n (drop off arr))) ! k" by simp
qed

lemma read_write:
  "slice_ok h s \<Longrightarrow> i \<le> sl_len s \<Longrightarrow> i + length xs \<le> sl_cap s \<Longrightarrow>
     sl_read (sl_write h s i xs) s = take (sl_len s) (put_run i xs (sl_read h s))"
  using put_run_window [of "sl_off s" "sl_len s" "h ! sl_array s" i xs] by (simp add: slice_ok_def sl_read_def sl_write_def)

lemma read_new: "slice_ok h s \<Longrightarrow> sl_read (h @ arrs) s = sl_read h s"
  by (simp add: slice_ok_def sl_read_def nth_append)

lemma ok_new: "slice_ok h s \<Longrightarrow> slice_ok (h @ arrs) s"
  by (simp add: slice_ok_def nth_append)

lemma read_front: "i \<le> sl_len s \<Longrightarrow> sl_read h (s\<lparr>sl_len := i\<rparr>) = take i (sl_read h s)"
  by (simp add: sl_read_def min_def)

lemma read_back:
  "sl_from s (int i) = Ret b \<Longrightarrow> sl_read h b = drop i (sl_read h s)"
  by (auto simp: sl_from_def sl_read_def drop_take add.commute split: if_splits)

lemma write_front: "sl_write h (s\<lparr>sl_len := i\<rparr>) = sl_write h s"
  by (simp add: sl_write_def fun_eq_iff)

text \<open>What appending to \<open>s[:i]\<close> does to \<open>s\<close>.\<close>

lemma append_front:
  assumes "slice_ok h s" "i \<le> sl_len s" "go_append grow zero (s\<lparr>sl_len := i\<rparr>) vs h = (t, h')"
  shows "sl_read h' s = (if i + length vs \<le> sl_cap s then take (sl_len s) (put_run i vs (sl_read h s)) else sl_read h s)"
proof (cases "i + length vs \<le> sl_cap s")
  case True
  then have "h' = sl_write h s i vs" using assms(3) by (simp add: go_append_def write_front)
  with True read_write [OF assms(1,2), of vs] show ?thesis by simp
next
  case False
  with assms show ?thesis by (auto simp: go_append_def sl_new_def read_new)
qed

section \<open>Mutations\<close>

lemma mutate_slice:
  "mutate update x a h = (case update (FA_Get a) h of
     (Panic p, h) \<Rightarrow> (Panic p, h) | (Blocked, h) \<Rightarrow> (Blocked, h) | (Ret s, h) \<Rightarrow> (Panic Uncomparable, h))"
  by (simp add: mutate_def SFA_Transaction_def maxRetries_def eval_nat_numeral FA_CompareAndSwap_def value_CompareAndSwap_def
      slice_type_def Let_def split: outcome.split prod.split)

lemma drop_all_but_one: "xs \<noteq> [] \<Longrightarrow> drop (length xs - 1) xs = [last xs]"
  by (cases xs rule: rev_cases) simp_all

lemma put_run_remove:
  assumes "i < length xs"
  shows "take (length xs) (put_run i (drop (Suc i) xs) xs) = take i xs @ drop (Suc i) xs @ [last xs]"
proof -
  have "i + length (drop (Suc i) xs) = length xs - 1" using assms by simp
  then have "put_run i (drop (Suc i) xs) xs = take i xs @ drop (Suc i) xs @ [last xs]"
    using assms drop_all_but_one [of xs] by (cases xs) (simp_all add: put_run_def)
  then show ?thesis using assms by simp
qed

lemma put_run_insert:
  assumes "i < length xs"
  shows "take (length xs) (put_run i (v # drop i xs) xs) = take i xs @ v # butlast (drop i xs)"
proof -
  have "length (drop i xs) = Suc (length xs - i - 1)" using assms by simp
  then have "take (length xs - i) (v # drop i xs) = v # butlast (drop i xs)" by (simp add: butlast_conv_take take_Cons')
  with assms show ?thesis by (simp add: put_run_def)
qed

lemma copy_elements_ok:
  "i + n \<le> length cur \<Longrightarrow> i + n \<le> length new \<Longrightarrow> \<exists>xs. copy_elements cur i n new = Ret xs"
  by (induction n arbitrary: i new) simp_all

lemma copy_elements_out:
  "length cur < i + n \<Longrightarrow> i \<le> length cur \<Longrightarrow> length cur \<le> length new \<Longrightarrow> copy_elements cur i n new = Panic IndexOutOfRange"
proof (induction n arbitrary: i new)
  case (Suc n)
  then show ?case by (cases "i < length cur") simp_all
qed simp

text \<open>Calls with an index or a length out of range: \<open>Assign\<close>, \<open>Remove\<close> and a negative \<open>Resize\<close> refuse, \<open>Insert\<close> and a
  \<open>Resize\<close> beyond the length panic in the update, before they have written anything to the shared array.\<close>

definition slice_refuses :: "(nat \<Rightarrow> nat) \<Rightarrow> 'a \<Rightarrow> 'a \<Rightarrow> slice FA \<Rightarrow> 'a store \<Rightarrow> nat \<Rightarrow> int \<Rightarrow> bool" where
  "slice_refuses grow zero v a h len j \<longleftrightarrow>
     (j < 0 \<or> int len \<le> j \<longrightarrow> SFA_Assign j v a h = (Ret (False, a), h) \<and> SFA_Remove grow zero j a h = (Ret (False, a), h)) \<and>
     (j < 0 \<or> int len < j \<longrightarrow> SFA_Insert grow zero j v a h = (Panic IndexOutOfRange, h)) \<and>
     (j < 0 \<longrightarrow> SFA_Resize zero j a h = (Ret (False, a), h)) \<and>
     (int len < j \<longrightarrow> SFA_Resize zero j a h = (Panic IndexOutOfRange, h))"

lemma slice_refuses_ok:
  assumes "slice_ok h (FA_Get a)" and "xs = sl_read h (FA_Get a)"
  shows "slice_refuses grow zero v a h (length xs) j"
proof -
  have len: "sl_len (FA_Get a) = length xs" using assms by (auto simp: slice_ok_def sl_read_def)
  have "SFA_Resize zero j a h = (Panic IndexOutOfRange, h)" if "int (length xs) < j"
  proof -
    have "copy_elements xs 0 (nat j) (replicate (nat j) zero) = Panic IndexOutOfRange"
      using that by (intro copy_elements_out) simp_all
    with that show ?thesis by (simp add: SFA_Resize_def mutate_slice assms(2) [symmetric])
  qed
  moreover have "SFA_Insert grow zero j v a h = (Panic IndexOutOfRange, h)" if "j < 0 \<or> int (length xs) < j"
    using that len by (auto simp: SFA_Insert_def mutate_slice sl_from_def split: outcome.split)
  ultimately show ?thesis
    using len by (auto simp: slice_refuses_def SFA_Assign_def SFA_Remove_def out_of_range_def SFA_Resize_def)
qed

text \<open>
  C37. No mutation in a transaction of a slice field works: as slices cannot be compared, the compare-and-swap
  panics for every update that returns, and so do \<open>Append\<close>, \<open>Clear\<close>, \<open>Assign\<close>, \<open>Remove\<close> and \<open>Insert\<close> at an index within the slice and
  \<open>Resize\<close> to at most its length, so that value, version and history stay and nobody is notified. What the update did to the
  shared array before stays too: \<open>Assign\<close> has written the element, \<open>Remove\<close> has moved the elements down and
  left the last one double, \<open>Insert\<close> has moved them up when there was room behind them and lost the last
  one from view; \<open>Append\<close>, \<open>Clear\<close> and \<open>Resize\<close> leave what the field shows. Out of range, \<open>Assign\<close>, \<open>Remove\<close> and a
  negative \<open>Resize\<close> return false, \<open>Insert\<close> and a longer \<open>Resize\<close> panic for the index. \<open>Set\<close> and \<open>Swap\<close>, which do not
  compare, work.
\<close>

theorem slice_mutators_panic:
  assumes "slice_ok h (FA_Get a)" and "xs = sl_read h (FA_Get a)" and "i < length xs" and "n \<le> length xs"
  shows "(\<exists>h'. SFA_Append grow zero vs a h = (Panic Uncomparable, h') \<and> sl_read h' (FA_Get a) = xs) \<and>
    (\<exists>h'. SFA_Assign (int i) v a h = (Panic Uncomparable, h') \<and> sl_read h' (FA_Get a) = xs[i := v]) \<and>
    (\<exists>h'. SFA_Remove grow zero (int i) a h = (Panic Uncomparable, h') \<and> sl_read h' (FA_Get a) = take i xs @ drop (Suc i) xs @ [last xs]) \<and>
    (\<exists>h'. SFA_Insert grow zero (int i) v a h = (Panic Uncomparable, h') \<and>
       sl_read h' (FA_Get a) = (if length xs < sl_cap (FA_Get a) then take i xs @ v # butlast (drop i xs) else xs)) \<and>
    (\<exists>h'. SFA_Clear zero a h = (Panic Uncomparable, h') \<and> sl_read h' (FA_Get a) = xs) \<and>
    (\<exists>h'. SFA_Resize zero (int n) a h = (Panic Uncomparable, h') \<and> sl_read h' (FA_Get a) = xs) \<and>
    (\<forall>t h'. update (FA_Get a) h = (Ret t, h') \<longrightarrow> SFA_Transaction update a h = (Panic Uncomparable, h')) \<and>
    slice_refuses grow zero v a h (length xs) j \<and>
    (\<exists>a'. SFA_Set t a = Ret a' \<and> FA_Get a' = t \<and> FA_Version a' = FA_Version a + 1) \<and>
    (\<exists>a'. SFA_Swap t a = Ret (FA_Get a, a') \<and> FA_Get a' = t \<and> FA_Version a' = FA_Version a + 1)"
proof (intro conjI)
  show "slice_refuses grow zero v a h (length xs) j" by (rule slice_refuses_ok [OF assms(1,2)])
  show "\<forall>t h'. update (FA_Get a) h = (Ret t, h') \<longrightarrow> SFA_Transaction update a h = (Panic Uncomparable, h')"
    by (simp add: SFA_Transaction_def maxRetries_def eval_nat_numeral FA_CompareAndSwap_def value_CompareAndSwap_def slice_type_def Let_def)
  have stored: "value_Store slice_type t a = Ret (a\<lparr>fa_value := t\<rparr>)" by (simp add: value_Store_def slice_type_def)
  have new: "FA_Get (written t (a\<lparr>fa_value := t\<rparr>)) = t \<and> FA_Version (written t (a\<lparr>fa_value := t\<rparr>)) = FA_Version a + 1"
    by (simp add: written_def FA_Get_def FA_Version_def addToHistory_def notifySubscribers_def Let_def)
  from stored new show "\<exists>a'. SFA_Set t a = Ret a' \<and> FA_Get a' = t \<and> FA_Version a' = FA_Version a + 1"
    by (simp add: SFA_Set_def FA_Set_def)
  from stored new show "\<exists>a'. SFA_Swap t a = Ret (FA_Get a, a') \<and> FA_Get a' = t \<and> FA_Version a' = FA_Version a + 1"
    by (simp add: SFA_Swap_def FA_Swap_def FA_Get_def)
  define s where "s = FA_Get a"
  have s: "slice_ok h s" "sl_read h s = xs" and len: "sl_len s = length xs" "length xs \<le> sl_cap s"
    using assms(1,2) by (auto simp: s_def slice_ok_def sl_read_def)
  have s_self: "s\<lparr>sl_len := length xs\<rparr> = s" using len(1) by (cases s) simp
  show "\<exists>h'. SFA_Append grow zero vs a h = (Panic Uncomparable, h') \<and> sl_read h' (FA_Get a) = xs"
  proof -
    obtain t h' where ap: "go_append grow zero s vs h = (t, h')" by fastforce
    then have ap': "go_append grow zero (s\<lparr>sl_len := length xs\<rparr>) vs h = (t, h')" by (simp only: s_self)
    have "sl_read h' s = (if length xs + length vs \<le> sl_cap s then take (sl_len s) (put_run (length xs) vs (sl_read h s)) else sl_read h s)"
      using len by (intro append_front [OF s(1) _ ap']) simp
    then have "sl_read h' s = xs" using len by (simp add: s(2) put_run_def)
    with ap show ?thesis by (simp add: SFA_Append_def mutate_slice s_def [symmetric])
  qed
  show "\<exists>h'. SFA_Assign (int i) v a h = (Panic Uncomparable, h') \<and> sl_read h' (FA_Get a) = xs[i := v]"
    using read_write [OF s(1), of i "[v]"] s len assms(3)
    by (simp add: SFA_Assign_def out_of_range_def mutate_slice s_def [symmetric] put_run_def upd_conv_take_nth_drop
        split del: if_split)
  show "\<exists>h'. SFA_Clear zero a h = (Panic Uncomparable, h') \<and> sl_read h' (FA_Get a) = xs"
    using s by (simp add: SFA_Clear_def mutate_slice s_def [symmetric] sl_new_def read_new)
  from copy_elements_ok [of 0 n xs "replicate n zero"] assms(4)
  show "\<exists>h'. SFA_Resize zero (int n) a h = (Panic Uncomparable, h') \<and> sl_read h' (FA_Get a) = xs"
    using s by (auto simp: SFA_Resize_def mutate_slice s_def [symmetric] sl_new_def read_new)
  have front: "sl_upto s (int i) = Ret (s\<lparr>sl_len := i\<rparr>)" using assms(3) len by (simp add: sl_upto_def)
  obtain b1 where b1: "sl_from s (int (Suc i)) = Ret b1" using assms(3) len by (simp add: sl_from_def)
  obtain b0 where b0: "sl_from s (int i) = Ret b0" using assms(3) len by (simp add: sl_from_def)
  show "\<exists>h'. SFA_Remove grow zero (int i) a h = (Panic Uncomparable, h') \<and> sl_read h' (FA_Get a) = take i xs @ drop (Suc i) xs @ [last xs]"
  proof -
    obtain t h' where ap: "go_append grow zero (s\<lparr>sl_len := i\<rparr>) (sl_read h b1) h = (t, h')" by fastforce
    have "sl_read h' s = take i xs @ drop (Suc i) xs @ [last xs]"
      using append_front [OF s(1) _ ap] assms(3) len s(2) read_back [OF b1, of h] put_run_remove [OF assms(3)] by simp
    with ap front b1 assms(3) len show ?thesis
      by (simp add: SFA_Remove_def out_of_range_def mutate_slice s_def [symmetric] add.commute)
  qed
  show "\<exists>h'. SFA_Insert grow zero (int i) v a h = (Panic Uncomparable, h') \<and>
       sl_read h' (FA_Get a) = (if length xs < sl_cap (FA_Get a) then take i xs @ v # butlast (drop i xs) else xs)"
  proof -
    define h1 where "h1 = h @ [[v]] @ [(v # drop i xs) @ replicate (grow (Suc (length xs - i))) zero]"
    have ok: "slice_ok h1 s" "sl_read h1 s = xs" using s by (simp_all add: h1_def ok_new read_new)
    obtain t h' where ap: "go_append grow zero (s\<lparr>sl_len := i\<rparr>) (v # drop i xs) h1 = (t, h')" by fastforce
    have "sl_read h' s = (if length xs < sl_cap s then take i xs @ v # butlast (drop i xs) else xs)"
      using append_front [OF ok(1) _ ap] ok(2) assms(3) len put_run_insert [OF assms(3), of v] by auto
    moreover have "SFA_Insert grow zero (int i) v a h = (Panic Uncomparable, h')"
    proof -
      have b: "sl_read (h @ [[v]]) b0 = drop i xs" using read_back [OF b0, of "h @ [[v]]"] s by (simp add: read_new)
      have one: "go_append grow zero \<lparr>sl_array = length h, sl_off = 0, sl_len = 1, sl_cap = 1\<rparr> (drop i xs) (h @ [[v]]) =
          (\<lparr>sl_array = Suc (length h), sl_off = 0, sl_len = Suc (length xs - i), sl_cap = Suc (length xs - i) + grow (Suc (length xs - i))\<rparr>, h1)"
        using assms(3) by (simp add: go_append_def sl_new_def sl_read_def h1_def)
      have "sl_read h1 \<lparr>sl_array = Suc (length h), sl_off = 0, sl_len = Suc (length xs - i), sl_cap = Suc (length xs - i) + grow (Suc (length xs - i))\<rparr> = v # drop i xs"
        using assms(3) by (simp add: sl_read_def h1_def nth_append)
      with one b front b0 ap show ?thesis
        by (simp add: SFA_Insert_def mutate_slice s_def [symmetric] sl_new_def Let_def)
    qed
    ultimately show ?thesis by (simp add: s_def)
  qed
qed

definition slice_example :: "slice FA" where
  "slice_example = \<lparr>fa_value = \<lparr>sl_array = 0, sl_off = 0, sl_len = 3, sl_cap = 3\<rparr>, fa_version = 1, fa_subscribers = [], fa_subsID = 0,
     fa_history = [], fa_maxHistory = 100, fa_calls = []\<rparr>"

lemma slice_example_ok: "slice_ok [[7, 8, 9 :: int]] (FA_Get slice_example)" "sl_read [[7, 8, 9 :: int]] (FA_Get slice_example) = [7, 8, 9]"
  by (simp_all add: slice_example_def FA_Get_def slice_ok_def sl_read_def)

theorem slice_mutators_panic_witness:
  "\<exists>h'. SFA_Remove (\<lambda>n. n) 0 0 slice_example [[7, 8, 9 :: int]] = (Panic Uncomparable, h') \<and> sl_read h' (FA_Get slice_example) = [8, 9, 9]"
  using slice_mutators_panic [OF slice_example_ok(1) slice_example_ok(2) [symmetric], of 0 0 "\<lambda>n. n" 0 "[]" 1] by simp

section \<open>Reading\<close>

lemma reverse_swap_nth:
  "length r = length origin \<Longrightarrow> i + j = length origin - 1 \<Longrightarrow> k < length origin \<Longrightarrow>
     length (reverse_swap origin i j r) = length origin \<and>
     reverse_swap origin i j r ! k =
       (if i \<le> k \<and> k \<le> j \<and> 2 * k \<noteq> length origin - 1 then origin ! (length origin - 1 - k) else r ! k)"
proof (induction origin i j r rule: reverse_swap.induct)
  case (1 origin i j r)
  show ?case
  proof (cases "i < j")
    case True
    with "1.IH" [OF True] "1.prems"
    have IH: "length (reverse_swap origin (i + 1) (j - 1) (r[i := origin ! j, j := origin ! i])) = length origin"
      "reverse_swap origin (i + 1) (j - 1) (r[i := origin ! j, j := origin ! i]) ! k =
        (if i + 1 \<le> k \<and> k \<le> j - 1 \<and> 2 * k \<noteq> length origin - 1 then origin ! (length origin - 1 - k)
         else r[i := origin ! j, j := origin ! i] ! k)"
      by simp_all
    have step: "reverse_swap origin i j r = reverse_swap origin (i + 1) (j - 1) (r[i := origin ! j, j := origin ! i])"
      using True by (subst reverse_swap.simps) simp
    have "length origin - 1 - i = j" "length origin - 1 - j = i" using "1.prems"(2) by simp_all
    moreover have "2 * i \<noteq> length origin - 1" "2 * j \<noteq> length origin - 1" using "1.prems"(2) True by auto
    ultimately show ?thesis
      unfolding step using IH "1.prems" True by (cases "k = i"; cases "k = j") (auto simp: nth_list_update)
  next
    case False
    then have r: "reverse_swap origin i j r = r" by (subst reverse_swap.simps) simp
    have out: "\<not> (i \<le> k \<and> k \<le> j \<and> 2 * k \<noteq> length origin - 1)" using False "1.prems" by auto
    show ?thesis unfolding r if_not_P [OF out] using "1.prems"(1) by simp
  qed
qed

lemma reverse_swap_rev:
  "reverse_swap xs 0 (length xs - 1) (replicate (length xs) zero) = (if even (length xs) then rev xs else (rev xs)[length xs div 2 := zero])"
proof (cases "xs = []")
  case True
  then show ?thesis by (simp add: reverse_swap.simps)
next
  case False
  show ?thesis
  proof (rule nth_equalityI)
    show "length (reverse_swap xs 0 (length xs - 1) (replicate (length xs) zero)) =
        length (if even (length xs) then rev xs else (rev xs)[length xs div 2 := zero])"
      using reverse_swap_nth [of "replicate (length xs) zero" xs 0 "length xs - 1" 0] False by simp
    fix k
    assume "k < length (reverse_swap xs 0 (length xs - 1) (replicate (length xs) zero))"
    then have k: "k < length xs"
      using reverse_swap_nth [of "replicate (length xs) zero" xs 0 "length xs - 1" 0] False by simp
    have middle: "2 * k = length xs - 1 \<longleftrightarrow> odd (length xs) \<and> k = length xs div 2" using k by presburger
    from reverse_swap_nth [of "replicate (length xs) zero" xs 0 "length xs - 1" k] k
    have "reverse_swap xs 0 (length xs - 1) (replicate (length xs) zero) ! k = (if 2 * k \<noteq> length xs - 1 then xs ! (length xs - 1 - k) else zero)"
      by auto
    with middle k show "reverse_swap xs 0 (length xs - 1) (replicate (length xs) zero) ! k =
        (if even (length xs) then rev xs else (rev xs)[length xs div 2 := zero]) ! k"
      by (auto simp: rev_nth nth_list_update)
  qed
qed

text \<open>
  What reading a slice field gives. \<open>Reverse\<close> is the reversed list only for an even length: of an odd
  length the element in the middle comes out as the zero value. \<open>CopyTo\<close> into another array copies as many
  elements as both have, but returns the length of the destination. \<open>Index\<close> never panics.
\<close>

theorem slice_reads:
  assumes "slice_ok h (FA_Get a)" and "slice_ok h dest" and "sl_array dest \<noteq> sl_array (FA_Get a)" and "xs = sl_read h (FA_Get a)"
  shows "SFA_Reverse zero a h = (if even (length xs) then rev xs else (rev xs)[length xs div 2 := zero]) \<and>
    (\<exists>h'. SFA_CopyTo dest a h = (int (sl_len dest), h') \<and> sl_read h' (FA_Get a) = xs \<and>
      sl_read h' dest = take (sl_len dest) xs @ drop (length xs) (sl_read h dest)) \<and>
    SFA_Index zero a h i = (if 0 \<le> i \<and> i < int (length xs) then (xs ! nat i, True) else (zero, False)) \<and>
    SFA_Len a = int (length xs) \<and> Collect_iter (SFA_Iter a h) = xs"
proof (intro conjI)
  show "\<exists>h'. SFA_CopyTo dest a h = (int (sl_len dest), h') \<and> sl_read h' (FA_Get a) = xs \<and>
      sl_read h' dest = take (sl_len dest) xs @ drop (length xs) (sl_read h dest)"
  proof -
    let ?h = "sl_write h dest 0 (take (sl_len dest) xs)"
    have "sl_read ?h (FA_Get a) = xs" using assms(3,4) by (simp add: sl_write_def sl_read_def)
    moreover have "sl_read ?h dest = take (sl_len dest) (put_run 0 (take (sl_len dest) xs) (sl_read h dest))"
      using assms(2) by (intro read_write) (auto simp: slice_ok_def min_def)
    moreover have "take (sl_len dest) (put_run 0 (take (sl_len dest) xs) (sl_read h dest)) =
        take (sl_len dest) xs @ drop (length xs) (sl_read h dest)"
      using assms(2) by (auto simp: put_run_def min_def)
    ultimately show ?thesis by (simp add: SFA_CopyTo_def assms(4) [symmetric])
  qed
  show "SFA_Reverse zero a h = (if even (length xs) then rev xs else (rev xs)[length xs div 2 := zero])"
    by (simp only: SFA_Reverse_def Let_def reverse_swap_rev assms(4))
qed (use assms in \<open>simp_all add: Let_def SFA_Index_def SFA_Len_def SFA_Iter_def from_slice.collect_all\<close>)

theorem slice_reads_witness:
  "SFA_Reverse 0 slice_example [[7, 8, 9 :: int], [1]] = [9, 0, 7]"
  using slice_reads [of "[[7, 8, 9 :: int], [1]]" slice_example "\<lparr>sl_array = 1, sl_off = 0, sl_len = 1, sl_cap = 1\<rparr>" "[7, 8, 9]" 0 0]
  by (simp add: slice_example_def FA_Get_def slice_ok_def sl_read_def)

end
