(* ===== verification/Field_Utils.thy ===== *)
theory Field_Utils
  imports Field_Accessor
begin

text \<open>
  The helpers of \<open>internal/core/fields/utils.go\<close>, which connect fields by subscriptions: \<open>Batch\<close>, \<open>Aggregator\<close>,
  \<open>Debouncer\<close>, \<open>Throttler\<close>, \<open>Validator\<close>, \<open>Transformer\<close>, \<open>Synchronizer\<close> and \<open>TimeoutWrapper\<close>. Fields are known by their
  place in a list. A notification is a call that waits in the field's \<open>fa_calls\<close> until its goroutine runs,
  at any later time and in any order.
\<close>

section \<open>Fields\<close>

type_synonym 'a fields = "'a FA list"

definition field_Set :: "('a, 'm) go_type_scheme \<Rightarrow> nat \<Rightarrow> 'a \<Rightarrow> 'a fields \<Rightarrow> 'a fields outcome" where
  "field_Set T i v fs = bind_outcome (FA_Set T v (fs ! i)) (\<lambda>a. Ret (fs[i := a]))"

definition pending :: "'a fields \<Rightarrow> nat" where
  "pending fs = sum_list (map (\<lambda>a. length (fa_calls a)) fs)"

text \<open>The goroutine of the \<open>k\<close>-th waiting call of field \<open>i\<close> starts: the call leaves the list.\<close>

definition take_call :: "nat \<Rightarrow> nat \<Rightarrow> 'a fields \<Rightarrow> ((nat \<times> 'a) \<times> 'a fields) option" where
  "take_call i k fs =
     (if i < length fs \<and> k < length (fa_calls (fs ! i))
      then Some (fa_calls (fs ! i) ! k,
        fs[i := (fs ! i)\<lparr>fa_calls := take k (fa_calls (fs ! i)) @ drop (Suc k) (fa_calls (fs ! i))\<rparr>])
      else None)"

section \<open>Batch\<close>

datatype 'a batch_op = BatchSet 'a | BatchTransaction "'a \<Rightarrow> 'a outcome"

type_synonym 'a batch = "'a batch_op list"

definition NewBatch :: "'a batch" where
  "NewBatch = []"

definition Batch_Set :: "'a \<Rightarrow> 'a batch \<Rightarrow> 'a batch" where
  "Batch_Set v b = b @ [BatchSet v]"

definition Batch_Transaction :: "('a \<Rightarrow> 'a outcome) \<Rightarrow> 'a batch \<Rightarrow> 'a batch" where
  "Batch_Transaction update b = b @ [BatchTransaction update]"

text \<open>\<open>env i\<close> is what other goroutines do to the field before the \<open>i\<close>-th operation; the lock does not keep them out.\<close>

fun run_batch :: "('a, 'm) go_type_scheme \<Rightarrow> (nat \<Rightarrow> 'a FA \<Rightarrow> 'a FA) \<Rightarrow> nat \<Rightarrow> 'a batch \<Rightarrow> 'a FA \<Rightarrow> 'a FA outcome" where
  "run_batch T env i [] a = Ret a"
| "run_batch T env i (op # ops) a =
     bind_outcome (case op of
         BatchSet v \<Rightarrow> FA_Set T v (env i a)
       | BatchTransaction f \<Rightarrow> bind_outcome (FA_Transaction T (\<lambda>i a. a) f (env i a)) (\<lambda>(v, a). Ret a))
       (run_batch T env (i + 1) ops)"

definition Batch_Execute ::
    "('a, 'm) go_type_scheme \<Rightarrow> (nat \<Rightarrow> 'a FA \<Rightarrow> 'a FA) \<Rightarrow> nat \<Rightarrow> 'a batch \<Rightarrow> 'a FA \<Rightarrow> rw_mutex \<Rightarrow> ('a batch \<times> 'a FA \<times> rw_mutex) outcome" where
  "Batch_Execute T env g b a m =
     (let m = FA_Lock g m
      in if mx_writer m \<noteq> Some g then Blocked
         else bind_outcome (run_batch T env 0 b a) (\<lambda>a.
              bind_outcome (FA_Unlock m) (\<lambda>m. Ret ([], a, m))))"

section \<open>Aggregator\<close>

record 'a Aggregator =
  agr_sources :: "nat list"
  agr_target :: nat
  agr_fn :: "'a list \<Rightarrow> 'a"
  agr_subscribers :: "(nat \<times> uint64) list"

definition NewAggregator :: "nat \<Rightarrow> ('a list \<Rightarrow> 'a) \<Rightarrow> 'a Aggregator" where
  "NewAggregator target aggregateFn = \<lparr>agr_sources = [], agr_target = target, agr_fn = aggregateFn, agr_subscribers = []\<rparr>"

text \<open>\<open>updateTarget\<close> reads the sources, releases its lock, and sets the target.\<close>

definition read_sources :: "'a Aggregator \<Rightarrow> 'a fields \<Rightarrow> 'a list" where
  "read_sources agr fs = map (\<lambda>i. FA_Get (fs ! i)) (agr_sources agr)"

definition set_target :: "('a, 'm) go_type_scheme \<Rightarrow> 'a Aggregator \<Rightarrow> 'a list \<Rightarrow> 'a fields \<Rightarrow> 'a fields outcome" where
  "set_target T agr vs fs = field_Set T (agr_target agr) (agr_fn agr vs) fs"

definition updateTarget :: "('a, 'm) go_type_scheme \<Rightarrow> 'a Aggregator \<Rightarrow> 'a fields \<Rightarrow> 'a fields outcome" where
  "updateTarget T agr fs = (if agr_sources agr = [] then Ret fs else set_target T agr (read_sources agr fs) fs)"

definition AddSource ::
    "('a, 'm) go_type_scheme \<Rightarrow> nat \<Rightarrow> nat \<Rightarrow> 'a Aggregator \<Rightarrow> 'a fields \<Rightarrow> ('a Aggregator \<times> 'a fields) outcome" where
  "AddSource T cb source agr fs =
     (let (sid, a) = FA_Subscribe cb (fs ! source);
          fs = fs[source := a];
          agr = agr\<lparr>agr_sources := agr_sources agr @ [source], agr_subscribers := agr_subscribers agr @ [(source, sid)]\<rparr>
      in bind_outcome (updateTarget T agr fs) (\<lambda>fs. Ret (agr, fs)))"

definition Aggregator_Close :: "'a Aggregator \<Rightarrow> 'a fields \<Rightarrow> 'a Aggregator \<times> 'a fields" where
  "Aggregator_Close agr fs =
     (agr\<lparr>agr_sources := [], agr_subscribers := []\<rparr>,
      fold (\<lambda>(i, sid) fs. fs[i := FA_unsubscribe sid (fs ! i)]) (agr_subscribers agr) fs)"

section \<open>Debouncer and Throttler\<close>

text \<open>The timer of a debouncer, when it runs: the time it is due and the value it will set.\<close>

record 'a Debouncer =
  db_delay :: int
  db_timer :: "(int \<times> 'a) option"
  db_unsub :: "uint64 option"

definition NewDebouncer :: "nat \<Rightarrow> int \<Rightarrow> 'a FA \<Rightarrow> 'a Debouncer \<times> 'a FA" where
  "NewDebouncer cb delay source =
     (let (sid, a) = FA_Subscribe cb source in (\<lparr>db_delay = delay, db_timer = None, db_unsub = Some sid\<rparr>, a))"

definition debounce :: "int \<Rightarrow> 'a \<Rightarrow> 'a Debouncer \<Rightarrow> 'a Debouncer" where
  "debounce now v d = d\<lparr>db_timer := Some (now + db_delay d, v)\<rparr>"

text \<open>The timer goes off at the time it is due.\<close>

definition timer_due ::
    "('a, 'm) go_type_scheme \<Rightarrow> int \<Rightarrow> 'a Debouncer \<Rightarrow> 'a FA \<Rightarrow> ('a Debouncer \<times> 'a FA) outcome" where
  "timer_due T now d target = (case db_timer d of
       Some (due, v) \<Rightarrow>
         if due \<le> now then bind_outcome (FA_Set T v target) (\<lambda>a. Ret (d\<lparr>db_timer := None\<rparr>, a)) else Ret (d, target)
     | None \<Rightarrow> Ret (d, target))"

definition Debouncer_Close :: "'a Debouncer \<Rightarrow> 'a FA \<Rightarrow> 'a Debouncer \<times> 'a FA" where
  "Debouncer_Close d source = (case db_unsub d of
       Some sid \<Rightarrow> (d\<lparr>db_timer := None, db_unsub := None\<rparr>, FA_unsubscribe sid source)
     | None \<Rightarrow> (d\<lparr>db_timer := None\<rparr>, source))"

record Throttler =
  th_interval :: int
  th_lastUpdate :: int
  th_unsub :: "uint64 option"

definition NewThrottler :: "nat \<Rightarrow> int \<Rightarrow> 'a FA \<Rightarrow> Throttler \<times> 'a FA" where
  "NewThrottler cb interval source =
     (let (sid, a) = FA_Subscribe cb source in (\<lparr>th_interval = interval, th_lastUpdate = 0, th_unsub = Some sid\<rparr>, a))"

definition throttle :: "('a, 'm) go_type_scheme \<Rightarrow> int \<Rightarrow> 'a \<Rightarrow> Throttler \<Rightarrow> 'a FA \<Rightarrow> (Throttler \<times> 'a FA) outcome" where
  "throttle T now v t target =
     (if time_Sub now (th_lastUpdate t) \<ge> th_interval t
      then bind_outcome (FA_Set T v target) (\<lambda>a. Ret (t\<lparr>th_lastUpdate := now\<rparr>, a))
      else Ret (t, target))"

definition Throttler_Close :: "Throttler \<Rightarrow> 'a FA \<Rightarrow> Throttler \<times> 'a FA" where
  "Throttler_Close t source = (case th_unsub t of
       Some sid \<Rightarrow> (t\<lparr>th_unsub := None\<rparr>, FA_unsubscribe sid source)
     | None \<Rightarrow> (t, source))"

section \<open>Validator and Transformer\<close>

text \<open>What the callback of a validator reports to \<open>onError\<close>, which may be nil.\<close>

definition Validator_notified :: "('a \<Rightarrow> go_err option) \<Rightarrow> bool \<Rightarrow> 'a \<Rightarrow> go_err list" where
  "Validator_notified validateFn has_onError v =
     (case validateFn v of Some err \<Rightarrow> if has_onError then [err] else [] | None \<Rightarrow> [])"

definition NewTransformer ::
    "('b, 'm) go_type_scheme \<Rightarrow> nat \<Rightarrow> ('a \<Rightarrow> 'b) \<Rightarrow> 'a FA \<Rightarrow> 'b FA \<Rightarrow> (uint64 \<times> 'a FA \<times> 'b FA) outcome" where
  "NewTransformer T cb transformFn source target =
     bind_outcome (FA_Set T (transformFn (FA_Get source)) target) (\<lambda>target.
       case FA_Subscribe cb source of (sid, source) \<Rightarrow> Ret (sid, source, target))"

definition Transformer_notified :: "('b, 'm) go_type_scheme \<Rightarrow> ('a \<Rightarrow> 'b) \<Rightarrow> 'a \<Rightarrow> 'b FA \<Rightarrow> 'b FA outcome" where
  "Transformer_notified T transformFn v target = FA_Set T (transformFn v) target"

section \<open>Synchronizer\<close>

record Synchronizer =
  sy_accessors :: "nat list"
  sy_unsubs :: "uint64 list"
  sy_syncing :: bool

text \<open>The callback of the accessor at place \<open>i\<close> is the number \<open>i\<close>.\<close>

fun subscribe_accessors :: "nat \<Rightarrow> nat list \<Rightarrow> 'a fields \<Rightarrow> uint64 list \<times> 'a fields" where
  "subscribe_accessors i [] fs = ([], fs)"
| "subscribe_accessors i (acc # accs) fs =
     (let (sid, a) = FA_Subscribe i (fs ! acc);
          (sids, fs) = subscribe_accessors (i + 1) accs (fs[acc := a])
      in (sid # sids, fs))"

definition NewSynchronizer :: "nat list \<Rightarrow> 'a fields \<Rightarrow> Synchronizer \<times> 'a fields" where
  "NewSynchronizer accessors fs =
     (let (sids, fs) = subscribe_accessors 0 accessors fs
      in (\<lparr>sy_accessors = accessors, sy_unsubs = sids, sy_syncing = False\<rparr>, fs))"

fun sync_others :: "('a, 'm) go_type_scheme \<Rightarrow> 'a \<Rightarrow> nat \<Rightarrow> nat \<Rightarrow> nat list \<Rightarrow> 'a fields \<Rightarrow> 'a fields outcome" where
  "sync_others T v sourceIndex i [] fs = Ret fs"
| "sync_others T v sourceIndex i (acc # accs) fs =
     (if i \<noteq> sourceIndex then bind_outcome (field_Set T acc v fs) (sync_others T v sourceIndex (i + 1) accs)
      else sync_others T v sourceIndex (i + 1) accs fs)"

text \<open>\<open>syncing\<close> is set back before the lock is released, so that no call ever finds it set.\<close>

definition syncValue :: "('a, 'm) go_type_scheme \<Rightarrow> 'a \<Rightarrow> nat \<Rightarrow> Synchronizer \<Rightarrow> 'a fields \<Rightarrow> (Synchronizer \<times> 'a fields) outcome" where
  "syncValue T v sourceIndex s fs =
     (if sy_syncing s then Ret (s, fs)
      else bind_outcome (sync_others T v sourceIndex 0 (sy_accessors s) fs) (\<lambda>fs. Ret (s\<lparr>sy_syncing := False\<rparr>, fs)))"

definition Synchronizer_Close :: "Synchronizer \<Rightarrow> 'a fields \<Rightarrow> Synchronizer \<times> 'a fields" where
  "Synchronizer_Close s fs =
     (s\<lparr>sy_unsubs := [], sy_accessors := []\<rparr>,
      fold (\<lambda>(acc, sid) fs. fs[acc := FA_unsubscribe sid (fs ! acc)]) (zip (sy_accessors s) (sy_unsubs s)) fs)"

section \<open>TimeoutWrapper\<close>

text \<open>Whether the time is up before the operation starts, or before the transaction ends, is given.\<close>

definition deadline_exceeded :: go_err where
  "deadline_exceeded = Err ''context deadline exceeded''"

definition TimeoutWrapper_Get :: "('a, 'm) go_type_scheme \<Rightarrow> bool \<Rightarrow> 'a FA \<Rightarrow> 'a \<times> go_err option" where
  "TimeoutWrapper_Get T late a = FA_GetWithContext (if late then Some deadline_exceeded else None) T a"

definition TimeoutWrapper_Set :: "('a, 'm) go_type_scheme \<Rightarrow> bool \<Rightarrow> 'a \<Rightarrow> 'a FA \<Rightarrow> (go_err option \<times> 'a FA) outcome" where
  "TimeoutWrapper_Set T late v a = FA_SetWithContext (if late then Some deadline_exceeded else None) T v a"

definition TimeoutWrapper_Transaction ::
    "('a, 'm) go_type_scheme \<Rightarrow> (nat \<Rightarrow> 'a FA \<Rightarrow> 'a FA) \<Rightarrow> bool \<Rightarrow> ('a \<Rightarrow> 'a outcome) \<Rightarrow> 'a FA \<Rightarrow> (('a \<times> go_err option) \<times> 'a FA) outcome" where
  "TimeoutWrapper_Transaction T env late update a =
     bind_outcome (FA_Transaction T env update a) (\<lambda>(v, a).
       Ret (if late then (ty_zero T, Some deadline_exceeded) else (v, None), a))"

section \<open>Setting one of several fields\<close>

lemma pending_update:
  "i < length fs \<Longrightarrow> pending (fs[i := a]) + length (fa_calls (fs ! i)) = pending fs + length (fa_calls a)"
  using elem_le_sum_list [of i "map (\<lambda>a. length (fa_calls a)) fs"]
  by (simp add: pending_def map_update sum_list_update)

lemma pending_zero: "pending fs = 0 \<longleftrightarrow> (\<forall>i<length fs. fa_calls (fs ! i) = [])"
  by (simp add: pending_def all_set_conv_all_nth)

lemma field_Set_plain: "field_Set (plain_type zero) i v fs = Ret (fs[i := written v ((fs ! i)\<lparr>fa_value := v\<rparr>)])"
  by (simp add: field_Set_def plain.Set_ok)

lemma written_parts:
  "fa_value (written v a) = fa_value a" "fa_subscribers (written v a) = fa_subscribers a"
  "fa_calls (written v a) = fa_calls a @ concat (map (subscriber_calls v \<circ> snd) (fa_subscribers a))"
  by (simp_all add: written_def notifySubscribers_def addToHistory_others Let_def)

section \<open>A synchronizer never comes to rest\<close>

inductive sync_step :: "('a, 'm) go_type_scheme \<Rightarrow> Synchronizer \<times> 'a fields \<Rightarrow> Synchronizer \<times> 'a fields \<Rightarrow> bool" for T where
  notified: "take_call i k fs = Some ((cb, v), fs1) \<Longrightarrow> syncValue T v cb s fs1 = Ret (s', fs') \<Longrightarrow> sync_step T (s, fs) (s', fs')"

inductive_cases sync_stepE: "sync_step T (s, fs) y"

definition in_sync :: "nat \<Rightarrow> 'a fields \<Rightarrow> bool" where
  "in_sync n fs \<longleftrightarrow> length fs = n \<and>
     (\<forall>i<n. fa_subscribers (fs ! i) = [(1, Callback i)] \<and> fst ` set (fa_calls (fs ! i)) \<subseteq> {i})"

lemma field_Set_in_sync:
  assumes "in_sync n fs" "i < n"
  shows "\<exists>fs'. field_Set (plain_type zero) i v fs = Ret fs' \<and> in_sync n fs' \<and> pending fs' = pending fs + 1"
proof -
  let ?a = "written v ((fs ! i)\<lparr>fa_value := v\<rparr>)"
  have "fa_calls ?a = fa_calls (fs ! i) @ [(i, v)]" using assms by (simp add: in_sync_def written_parts)
  with pending_update [of i fs ?a] assms show ?thesis
    by (auto simp: field_Set_plain in_sync_def nth_list_update written_parts)
qed

lemma sync_others_in_sync:
  assumes "in_sync n fs" "k \<le> n"
  shows "\<exists>fs'. sync_others (plain_type zero) v src k [k..<n] fs = Ret fs' \<and> in_sync n fs' \<and>
    pending fs' = pending fs + length (filter (\<lambda>j. j \<noteq> src) [k..<n])"
  using assms
proof (induction "n - k" arbitrary: k fs)
  case (Suc d)
  then have k: "k < n" "[k..<n] = k # [Suc k..<n]" by (simp_all add: upt_conv_Cons)
  have IH: "in_sync n gs \<Longrightarrow> \<exists>fs'. sync_others (plain_type zero) v src (Suc k) [Suc k..<n] gs = Ret fs' \<and> in_sync n fs' \<and>
      pending fs' = pending gs + length (filter (\<lambda>j. j \<noteq> src) [Suc k..<n])" for gs
    using Suc k by (intro Suc.hyps(1)) simp_all
  show ?case
  proof (cases "k = src")
    case True
    with IH [OF Suc.prems(1)] k(2) show ?thesis by simp
  next
    case False
    from field_Set_in_sync [OF Suc.prems(1) k(1)] obtain gs where
      "field_Set (plain_type zero) k v fs = Ret gs" "in_sync n gs" "pending gs = pending fs + 1" by blast
    with IH [of gs] k(2) False show ?thesis by auto
  qed
qed simp

lemma others_count: "src < n \<Longrightarrow> length (filter (\<lambda>j. j \<noteq> src) [0..<n]) = n - 1"
proof -
  assume "src < n"
  have "length (filter (\<lambda>j. j \<noteq> src) [0..<n]) = card ({0..<n} - {src})"
    by (subst distinct_card [symmetric]) (auto intro!: arg_cong [where f = card])
  with \<open>src < n\<close> show ?thesis by simp
qed

lemma take_call_in_sync:
  assumes "in_sync n fs" "take_call i k fs = Some ((cb, v), fs1)"
  shows "cb < n" "in_sync n fs1" "pending fs1 + 1 = pending fs"
proof -
  from assms have i: "i < n" "i < length fs" "k < length (fa_calls (fs ! i))" "(cb, v) = fa_calls (fs ! i) ! k"
    and fs1: "fs1 = fs[i := (fs ! i)\<lparr>fa_calls := take k (fa_calls (fs ! i)) @ drop (Suc k) (fa_calls (fs ! i))\<rparr>]"
    by (auto simp: take_call_def in_sync_def split: if_splits)
  from i(3,4) have "(cb, v) \<in> set (fa_calls (fs ! i))" by (metis nth_mem)
  with assms(1) i(1) show "cb < n" unfolding in_sync_def by force
  show "in_sync n fs1" using assms(1) i(1)
    by (auto simp: fs1 in_sync_def nth_list_update dest!: in_set_takeD in_set_dropD)
  show "pending fs1 + 1 = pending fs"
    using pending_update [OF i(2), of "(fs ! i)\<lparr>fa_calls := take k (fa_calls (fs ! i)) @ drop (Suc k) (fa_calls (fs ! i))\<rparr>"] i(3)
    by (simp add: fs1)
qed

lemma sync_step_keeps:
  assumes "in_sync n fs" "sy_accessors s = [0..<n]" "\<not> sy_syncing s" "sync_step (plain_type zero) (s, fs) (s', fs')"
  shows "in_sync n fs' \<and> sy_accessors s' = [0..<n] \<and> \<not> sy_syncing s' \<and> pending fs' + 2 = pending fs + n"
proof -
  from assms(4) obtain i k cb v fs1 where t: "take_call i k fs = Some ((cb, v), fs1)" and y: "syncValue (plain_type zero) v cb s fs1 = Ret (s', fs')"
    by (blast elim: sync_stepE)
  note call = take_call_in_sync [OF assms(1) t]
  from sync_others_in_sync [OF call(2), of 0 zero v cb] y assms(2,3) call others_count [OF call(1)]
  show ?thesis by (auto simp: syncValue_def)
qed

lemma sync_step_enabled:
  assumes "in_sync n fs" "sy_accessors s = [0..<n]" "\<not> sy_syncing s" "0 < pending fs"
  shows "\<exists>x. sync_step (plain_type zero) (s, fs) x"
proof -
  from assms(4) obtain i where i: "i < length fs" "fa_calls (fs ! i) \<noteq> []" using pending_zero [of fs] by auto
  obtain cb v fs1 where t: "take_call i 0 fs = Some ((cb, v), fs1)"
    using i by (cases "fa_calls (fs ! i) ! 0") (simp add: take_call_def)
  from sync_others_in_sync [OF take_call_in_sync(2) [OF assms(1) t], of 0 zero v cb] assms(2,3) obtain fs' where
    "syncValue (plain_type zero) v cb s fs1 = Ret (s, fs')" by (auto simp: syncValue_def)
  with t show ?thesis by (blast intro: sync_step.notified)
qed

lemma subscribe_accessors_new:
  assumes "\<And>j. j < length fs \<Longrightarrow> k \<le> j \<Longrightarrow> fa_subscribers (fs ! j) = [] \<and> fa_calls (fs ! j) = [] \<and> fa_subsID (fs ! j) = 0"
    and "\<And>j. j < k \<Longrightarrow> fa_subscribers (fs ! j) = [(1, Callback j)] \<and> fa_calls (fs ! j) = []" and "k \<le> length fs"
  shows "length (snd (subscribe_accessors k [k..<length fs] fs)) = length fs \<and>
    (\<forall>j<length fs. fa_subscribers (snd (subscribe_accessors k [k..<length fs] fs) ! j) = [(1, Callback j)] \<and>
       fa_calls (snd (subscribe_accessors k [k..<length fs] fs) ! j) = [])"
  using assms
proof (induction "length fs - k" arbitrary: k fs)
  case (Suc d)
  then have k: "k < length fs" "[k..<length fs] = k # [Suc k..<length fs]" by (simp_all add: upt_conv_Cons)
  let ?a = "(fs ! k)\<lparr>fa_subsID := 1, fa_subscribers := [(1, Callback k)]\<rparr>"
  have sub: "FA_Subscribe k (fs ! k) = (1, ?a)"
    using Suc.prems(1) [OF k(1)] by (simp add: FA_Subscribe_def add_subscriber_def generateUniqueID_def)
  have "length (snd (subscribe_accessors (Suc k) [Suc k..<length (fs[k := ?a])] (fs[k := ?a]))) = length (fs[k := ?a]) \<and>
      (\<forall>j<length (fs[k := ?a]). fa_subscribers (snd (subscribe_accessors (Suc k) [Suc k..<length (fs[k := ?a])] (fs[k := ?a])) ! j) = [(1, Callback j)] \<and>
        fa_calls (snd (subscribe_accessors (Suc k) [Suc k..<length (fs[k := ?a])] (fs[k := ?a])) ! j) = [])"
    using Suc k by (intro Suc.hyps(1)) (auto simp: nth_list_update less_Suc_eq)
  then show ?case using k sub by (simp add: split_beta Let_def)
qed simp

text \<open>
  C33. A synchronizer of two or more new fields never comes to rest. One \<open>Set\<close> of any of them starts it, and
  however many notifications have run, in whatever order, there is another one to run; with \<open>n\<close> fields
  their number grows by \<open>n - 2\<close> with each. The flag meant to prevent this is never found set, since the
  notifications run after the lock was released.
\<close>

theorem synchronizer_never_settles:
  assumes "length fs = n" and "2 \<le> n" and "\<And>j. j < n \<Longrightarrow> fa_subscribers (fs ! j) = [] \<and> fa_calls (fs ! j) = [] \<and> fa_subsID (fs ! j) = 0"
    and "NewSynchronizer [0..<n] fs = (s, fs1)" and "i < n" and "field_Set (plain_type zero) i v fs1 = Ret fs2"
    and "(sync_step (plain_type zero) ^^ m) (s, fs2) (s', fs')"
  shows "pending fs' = 1 + m * (n - 2) \<and> (\<exists>x. sync_step (plain_type zero) (s', fs') x)"
proof -
  from subscribe_accessors_new [of fs 0] assms(1,3,4) have s: "sy_accessors s = [0..<n]" "\<not> sy_syncing s"
    and fs1: "length fs1 = n" "\<And>j. j < n \<Longrightarrow> fa_subscribers (fs1 ! j) = [(1, Callback j)] \<and> fa_calls (fs1 ! j) = []"
    by (auto simp: NewSynchronizer_def split_beta Let_def)
  then have "in_sync n fs1" "pending fs1 = 0" by (simp_all add: in_sync_def pending_zero)
  with field_Set_in_sync [of n fs1 i zero v] assms(5,6) have start: "in_sync n fs2" "pending fs2 = 1" by auto
  have "in_sync n fs' \<and> sy_accessors s' = [0..<n] \<and> \<not> sy_syncing s' \<and> pending fs' = 1 + m * (n - 2)"
    using assms(7)
  proof (induction m arbitrary: s' fs')
    case 0
    with start s show ?case by simp
  next
    case (Suc m)
    then obtain s1 gs where "(sync_step (plain_type zero) ^^ m) (s, fs2) (s1, gs)" "sync_step (plain_type zero) (s1, gs) (s', fs')"
      by auto
    with Suc.IH sync_step_keeps [of n gs s1 zero s' fs'] assms(2) show ?case by auto
  qed
  with sync_step_enabled [of n fs' s' zero] show ?thesis by auto
qed

definition new_field :: "'a \<Rightarrow> 'a FA" where
  "new_field v = \<lparr>fa_value = v, fa_version = 1, fa_subscribers = [], fa_subsID = 0,
     fa_history = [\<lparr>he_value = v, he_version = 0\<rparr>], fa_maxHistory = 100, fa_calls = []\<rparr>"

lemma NewFA_new_field: "NewFA (plain_type zero) [v] = Ret (new_field v)"
  by (simp add: NewFA_def plain_type_def addToHistory_def new_field_def)

theorem synchronizer_never_settles_witness:
  "\<exists>s fs1 fs2. NewSynchronizer [0..<2] [new_field (0::int), new_field 1] = (s, fs1) \<and> field_Set (plain_type 0) 0 5 fs1 = Ret fs2 \<and>
     pending fs2 = 1 \<and> (\<exists>x. sync_step (plain_type 0) (s, fs2) x)"
proof -
  obtain s fs1 where s: "NewSynchronizer [0..<2] [new_field (0::int), new_field 1] = (s, fs1)" by fastforce
  obtain fs2 where f: "field_Set (plain_type 0) 0 5 fs1 = Ret fs2" by (simp add: field_Set_plain)
  have "pending fs2 = 1 + 0 * (2 - 2) \<and> (\<exists>x. sync_step (plain_type 0) (s, fs2) x)"
    by (rule synchronizer_never_settles [OF _ _ _ s _ f, where m = 0]) (auto simp: new_field_def less_2_cases_iff)
  with s f show ?thesis by auto
qed

section \<open>Aggregation\<close>

text \<open>Steps of an aggregator whose callbacks run without interruption.\<close>

inductive agg_step :: "('a, 'm) go_type_scheme \<Rightarrow> 'a Aggregator \<times> 'a fields \<Rightarrow> 'a Aggregator \<times> 'a fields \<Rightarrow> bool" for T where
  source_set: "i \<in> set (agr_sources agr) \<Longrightarrow> field_Set T i v fs = Ret fs' \<Longrightarrow> agg_step T (agr, fs) (agr, fs')"
| source_added: "source < length fs \<Longrightarrow> source \<noteq> agr_target agr \<Longrightarrow> AddSource T cb source agr fs = Ret (agr', fs') \<Longrightarrow>
    agg_step T (agr, fs) (agr', fs')"
| callback_run: "i \<in> set (agr_sources agr) \<Longrightarrow> take_call i k fs = Some (call, fs1) \<Longrightarrow> updateTarget T agr fs1 = Ret fs' \<Longrightarrow>
    agg_step T (agr, fs) (agr, fs')"

definition up_to_date :: "'a Aggregator \<Rightarrow> 'a fields \<Rightarrow> bool" where
  "up_to_date agr fs \<longleftrightarrow> FA_Get (fs ! agr_target agr) = agr_fn agr (read_sources agr fs)"

definition agg_inv :: "'a Aggregator \<times> 'a fields \<Rightarrow> bool" where
  "agg_inv = (\<lambda>(agr, fs). agr_target agr < length fs \<and> agr_target agr \<notin> set (agr_sources agr) \<and>
     (\<forall>i\<in>set (agr_sources agr). i < length fs \<and> (\<exists>sid cb. (sid, Callback cb) \<in> set (fa_subscribers (fs ! i)))) \<and>
     (agr_sources agr \<noteq> [] \<longrightarrow> (\<forall>i\<in>set (agr_sources agr). fa_calls (fs ! i) = []) \<longrightarrow> up_to_date agr fs))"

lemma read_sources_target: "agr_target agr \<notin> set (agr_sources agr) \<Longrightarrow> read_sources agr (fs[agr_target agr := a]) = read_sources agr fs"
  by (auto simp: read_sources_def intro!: map_cong nth_list_update_neq arg_cong [where f = FA_Get])

lemma updateTarget_up_to_date:
  assumes "agr_target agr < length fs" "agr_target agr \<notin> set (agr_sources agr)" "agr_sources agr \<noteq> []"
    "updateTarget (plain_type zero) agr fs = Ret fs'"
  shows "up_to_date agr fs'" "length fs' = length fs" "\<And>i. i \<noteq> agr_target agr \<Longrightarrow> fs' ! i = fs ! i"
  using assms
  by (auto simp: updateTarget_def set_target_def field_Set_plain up_to_date_def read_sources_target FA_Get_def written_parts)

lemma agg_step_inv:
  assumes "agg_step (plain_type zero) x y" "agg_inv x"
  shows "agg_inv y"
  using assms
proof (induction rule: agg_step.induct)
  case (source_set i agr v fs fs')
  then have "i < length fs \<and> i \<noteq> agr_target agr \<and> (\<exists>sid cb. (sid, Callback cb) \<in> set (fa_subscribers (fs ! i)))"
    unfolding agg_inv_def by blast
  then obtain sid cb where i: "i < length fs" "(sid, Callback cb) \<in> set (fa_subscribers (fs ! i))" "i \<noteq> agr_target agr" by blast
  from source_set(2) have fs': "fs' = fs[i := written v ((fs ! i)\<lparr>fa_value := v\<rparr>)]" by (simp add: field_Set_plain)
  have "(cb, v) \<in> set (fa_calls (fs' ! i))" using i by (auto simp: fs' written_parts) force
  then have "fa_calls (fs' ! i) \<noteq> []" by auto
  with source_set i show ?case by (auto simp: agg_inv_def fs' nth_list_update written_parts)
next
  case (source_added source fs agr cb agr' fs')
  define a where "a = snd (FA_Subscribe cb (fs ! source))"
  define sid where "sid = fst (FA_Subscribe cb (fs ! source))"
  have cbs: "(sid, Callback cb) \<in> set (fa_subscribers a)"
    by (simp add: a_def sid_def FA_Subscribe_def add_subscriber_def Let_def) (metis map_of_SomeD update_Some_unfold)
  from source_added(3) have agr': "agr' = agr\<lparr>agr_sources := agr_sources agr @ [source], agr_subscribers := agr_subscribers agr @ [(source, sid)]\<rparr>"
    and up: "updateTarget (plain_type zero) agr' (fs[source := a]) = Ret fs'"
    by (auto simp: AddSource_def split_beta a_def sid_def bind_outcome_Ret_iff Let_def)
  have "agr_target agr' < length (fs[source := a])" "agr_target agr' \<notin> set (agr_sources agr')" "agr_sources agr' \<noteq> []"
    using source_added by (auto simp: agr' agg_inv_def)
  note u = updateTarget_up_to_date [OF this up]
  have "i < length fs' \<and> (\<exists>sid cb. (sid, Callback cb) \<in> set (fa_subscribers (fs' ! i)))" if "i \<in> set (agr_sources agr')" for i
  proof (cases "i = source")
    case True
    with u(2) u(3) [of source] source_added(1,2) cbs show ?thesis by (auto simp: agr')
  next
    case False
    with that have "i \<in> set (agr_sources agr)" by (simp add: agr')
    with source_added(4) have "i < length fs \<and> i \<noteq> agr_target agr \<and> (\<exists>sid cb. (sid, Callback cb) \<in> set (fa_subscribers (fs ! i)))"
      unfolding agg_inv_def by blast
    with False u(2) u(3) [of i] show ?thesis by (simp add: agr')
  qed
  with u(1,2) source_added(2,4) show ?case by (auto simp: agg_inv_def agr')
next
  case (callback_run i agr k fs call fs1 fs')
  from callback_run(2) obtain calls where fs1: "i < length fs" "fs1 = fs[i := (fs ! i)\<lparr>fa_calls := calls\<rparr>]"
    by (auto simp: take_call_def split: if_splits)
  have "agr_target agr < length fs1" "agr_target agr \<notin> set (agr_sources agr)" "agr_sources agr \<noteq> []"
    using callback_run fs1 by (auto simp: agg_inv_def)
  note u = updateTarget_up_to_date [OF this callback_run(3)]
  have "j < length fs' \<and> (\<exists>sid cb. (sid, Callback cb) \<in> set (fa_subscribers (fs' ! j)))" if "j \<in> set (agr_sources agr)" for j
  proof -
    from that callback_run(4) have "j < length fs \<and> j \<noteq> agr_target agr \<and> (\<exists>sid cb. (sid, Callback cb) \<in> set (fa_subscribers (fs ! j)))"
      unfolding agg_inv_def by blast
    then show ?thesis using u(2) u(3) [of j] fs1 by (auto simp: nth_list_update)
  qed
  with u(1,2) fs1 callback_run(4) show ?case by (auto simp: agg_inv_def)
qed

text \<open>
  C34. An aggregator whose callbacks run one at a time: whatever sources are added and set, once no
  notification is waiting the target is the aggregate of the present values of all sources.
\<close>

theorem aggregator_settles:
  assumes "(agg_step (plain_type zero))\<^sup>*\<^sup>* (NewAggregator target aggregateFn, fs) (agr, fs')" and "target < length fs"
    and "agr_sources agr \<noteq> []" and "\<And>i. i \<in> set (agr_sources agr) \<Longrightarrow> fa_calls (fs' ! i) = []"
  shows "FA_Get (fs' ! agr_target agr) = agr_fn agr (map (\<lambda>i. FA_Get (fs' ! i)) (agr_sources agr))"
proof -
  have "agg_inv (NewAggregator target aggregateFn, fs)" using assms(2) by (simp add: agg_inv_def NewAggregator_def)
  with assms(1) have "agg_inv (agr, fs')" by (induction rule: rtranclp_induct) (blast intro: agg_step_inv)+
  with assms(3,4) show ?thesis by (auto simp: agg_inv_def up_to_date_def read_sources_def)
qed

theorem aggregator_settles_witness:
  "\<exists>agr fs. AddSource (plain_type (0::int)) 7 0 (NewAggregator 1 sum_list) [new_field 5, new_field 0] = Ret (agr, fs) \<and> FA_Get (fs ! 1) = 5"
proof -
  let ?agr = "\<lparr>agr_sources = [0], agr_target = 1, agr_fn = sum_list, agr_subscribers = [(0, 1)]\<rparr> :: int Aggregator"
  obtain fs where add: "AddSource (plain_type (0::int)) 7 0 (NewAggregator 1 sum_list) [new_field 5, new_field 0] = Ret (?agr, fs)"
    and calls: "fa_calls (fs ! 0) = []" "FA_Get (fs ! 0) = 5"
    by (simp add: AddSource_def NewAggregator_def FA_Subscribe_def add_subscriber_def generateUniqueID_def updateTarget_def set_target_def
        field_Set_plain new_field_def Let_def FA_Get_def)
  have "(agg_step (plain_type 0))\<^sup>*\<^sup>* (NewAggregator 1 sum_list, [new_field 5, new_field 0]) (?agr, fs)"
    by (rule r_into_rtranclp, rule agg_step.source_added [OF _ _ add]) (simp_all add: NewAggregator_def)
  from aggregator_settles [OF this] calls add show ?thesis by auto
qed

text \<open>
  Two callbacks may run at the same time, since \<open>updateTarget\<close> lets go of its lock between reading the
  sources and setting the target. A source is set to \<open>v\<close> and then to \<open>w\<close>; the first callback reads before the
  second write and sets the target after the second callback has: nothing is left to run, the source is
  \<open>w\<close>, and the target stays at what belongs to \<open>v\<close>.
\<close>

theorem aggregator_race:
  assumes "agr_sources agr = [0]" and "agr_target agr = 1" and "length fs = 2" and "fa_subscribers (fs ! 0) = [(1, Callback cb)]"
    and "pending fs = 0" and "fa_subscribers (fs ! 1) = []"
  shows "\<exists>fs1 fs2 fs3 fs4 fs5 fs6.
    field_Set (plain_type zero) 0 v fs = Ret fs1 \<and> take_call 0 0 fs1 = Some ((cb, v), fs2) \<and>
    field_Set (plain_type zero) 0 w fs2 = Ret fs3 \<and> take_call 0 0 fs3 = Some ((cb, w), fs4) \<and>
    set_target (plain_type zero) agr (read_sources agr fs4) fs4 = Ret fs5 \<and> FA_Get (fs5 ! 1) = agr_fn agr [w] \<and>
    set_target (plain_type zero) agr (read_sources agr fs2) fs5 = Ret fs6 \<and>
    pending fs6 = 0 \<and> FA_Get (fs6 ! 0) = w \<and> FA_Get (fs6 ! 1) = agr_fn agr [v]"
proof -
  obtain a b where fs: "fs = [a, b]" using assms(3) by (auto simp: length_Suc_conv numeral_2_eq_2)
  then have ab: "fa_subscribers a = [(1, Callback cb)]" "fa_calls a = []" "fa_calls b = []" "fa_subscribers b = []"
    using assms(4-6) by (simp_all add: pending_def)
  show ?thesis
    using assms(1,2) ab
    by (simp add: fs field_Set_plain take_call_def set_target_def read_sources_def written_parts pending_def FA_Get_def)
qed

theorem aggregator_race_witness:
  "\<exists>fs6. pending fs6 = 0 \<and> FA_Get (fs6 ! 0) = 9 \<and> FA_Get (fs6 ! 1) = (7::int)"
proof -
  let ?agr = "\<lparr>agr_sources = [0], agr_target = 1, agr_fn = sum_list, agr_subscribers = [(0, 1)]\<rparr> :: int Aggregator"
  let ?fs = "[(new_field (5::int))\<lparr>fa_subscribers := [(1, Callback 3)]\<rparr>, new_field 5]"
  have "agr_fn ?agr [7] = 7" by simp
  with aggregator_race [of ?agr ?fs 3 0 7 9] show ?thesis by (simp add: new_field_def pending_def) blast
qed

section \<open>Debouncing and throttling\<close>

text \<open>A debouncer that is notified at the given times; the clock ends at \<open>final\<close>.\<close>

fun debounce_run ::
    "('a, 'm) go_type_scheme \<Rightarrow> int \<Rightarrow> 'a Debouncer \<Rightarrow> 'a FA \<Rightarrow> (int \<times> 'a) list \<Rightarrow> ('a Debouncer \<times> 'a FA) outcome" where
  "debounce_run T final d target [] = timer_due T final d target"
| "debounce_run T final d target ((now, v) # es) =
     bind_outcome (timer_due T now d target) (\<lambda>(d, target). debounce_run T final (debounce now v d) target es)"

text \<open>A value settles when the next notification, or the end, comes no earlier than the delay after it.\<close>

fun settled_values :: "int \<Rightarrow> int \<Rightarrow> (int \<times> 'a) list \<Rightarrow> 'a list" where
  "settled_values delay final [] = []"
| "settled_values delay final [(t, v)] = (if t + delay \<le> final then [v] else [])"
| "settled_values delay final ((t, v) # (t', v') # es) =
     (if t + delay \<le> t' then [v] else []) @ settled_values delay final ((t', v') # es)"

lemma timer_due_plain:
  "timer_due (plain_type zero) now d target = (case db_timer d of
     Some (due, v) \<Rightarrow> Ret (if due \<le> now then (d\<lparr>db_timer := None\<rparr>, written v (target\<lparr>fa_value := v\<rparr>)) else (d, target))
   | None \<Rightarrow> Ret (d, target))"
  by (simp add: timer_due_def plain.Set_ok split: option.split)

lemma debounce_run_settled:
  "db_timer d = Some (t + delay, v) \<Longrightarrow> db_delay d = delay \<Longrightarrow> fa_log log target \<Longrightarrow>
     \<exists>d' a. debounce_run (plain_type zero) final d target es = Ret (d', a) \<and> fa_log (log @ settled_values delay final ((t, v) # es)) a"
proof (induction es arbitrary: d t v target log)
  case Nil
  with written_log [OF Nil(3), of v] show ?case by (auto simp: timer_due_plain)
next
  case (Cons e es)
  obtain now u where e: "e = (now, u)" by (cases e)
  show ?case
  proof (cases "t + delay \<le> now")
    case True
    from Cons.IH [of "debounce now u (d\<lparr>db_timer := None\<rparr>)" now u "log @ [v]"] Cons.prems written_log [OF Cons.prems(3), of v] True
    show ?thesis by (simp add: e timer_due_plain debounce_def)
  next
    case False
    from Cons.IH [of "debounce now u d" now u log] Cons.prems False show ?thesis by (simp add: e timer_due_plain debounce_def)
  qed
qed

text \<open>
  A debouncer passes on exactly the values that settle: those after which no notification comes before
  the delay is over, in their order; with the log of the target as it was, and no panic.
\<close>

theorem debouncer_settles:
  assumes "fa_log log target" and "NewDebouncer cb delay source = (d, source')"
  shows "\<exists>d' a. debounce_run (plain_type zero) final d target es = Ret (d', a) \<and> fa_log (log @ settled_values delay final es) a"
proof (cases es)
  case Nil
  with assms show ?thesis by (auto simp: NewDebouncer_def timer_due_plain split_beta Let_def)
next
  case (Cons e es')
  obtain now u where e: "e = (now, u)" by (cases e)
  have d: "db_timer d = None" "db_delay d = delay" using assms(2) by (auto simp: NewDebouncer_def split_beta Let_def)
  with debounce_run_settled [of "debounce now u d" now delay u log target zero final es'] assms(1) show ?thesis
    by (simp add: Cons e timer_due_plain debounce_def)
qed

theorem debouncer_settles_witness:
  "\<exists>d' a. debounce_run (plain_type (0::int)) 100 (fst (NewDebouncer 1 10 (new_field 0))) (new_field 0) [(0, 5), (4, 6), (30, 7)] = Ret (d', a) \<and>
     FA_Get a = 7 \<and> FA_Version a = 3"
proof -
  have "fa_log [0] (new_field (0::int))" by (rule NewFA_log [OF NewFA_new_field])
  from debouncer_settles [OF this surjective_pairing [of "NewDebouncer 1 10 (new_field (0::int))"], of 0 100 "[(0, 5), (4, 6), (30, 7)]"]
  show ?thesis by (auto simp: fa_log_def FA_Get_def FA_Version_def)
qed

text \<open>A throttler that is notified at the given times; the notifications it passes on.\<close>

fun throttle_run ::
    "('a, 'm) go_type_scheme \<Rightarrow> Throttler \<Rightarrow> 'a FA \<Rightarrow> (int \<times> 'a) list \<Rightarrow> ((int \<times> 'a) list \<times> 'a FA) outcome" where
  "throttle_run T t target [] = Ret ([], target)"
| "throttle_run T t target ((now, v) # es) =
     bind_outcome (throttle T now v t target) (\<lambda>(t', a).
     bind_outcome (throttle_run T t' a es) (\<lambda>(passed, b).
       Ret (if time_Sub now (th_lastUpdate t) \<ge> th_interval t then (now, v) # passed else passed, b)))"

lemma throttle_run_spaced:
  assumes "0 < th_interval t" "fa_log log target"
  shows "\<exists>passed a. throttle_run (plain_type zero) t target es = Ret (passed, a) \<and> fa_log (log @ map snd passed) a \<and>
    sorted_wrt (\<lambda>x y. th_interval t \<le> fst y - fst x) ((th_lastUpdate t, v0) # passed)"
  using assms
proof (induction es arbitrary: t target log v0)
  case (Cons e es)
  obtain now u where e: "e = (now, u)" by (cases e)
  show ?case
  proof (cases "th_interval t \<le> time_Sub now (th_lastUpdate t)")
    case True
    from Cons.IH [of "t\<lparr>th_lastUpdate := now\<rparr>" "log @ [u]" "written u (target\<lparr>fa_value := u\<rparr>)" u] written_log [OF Cons.prems(2), of u] Cons.prems(1)
    obtain passed a where p: "throttle_run (plain_type zero) (t\<lparr>th_lastUpdate := now\<rparr>) (written u (target\<lparr>fa_value := u\<rparr>)) es = Ret (passed, a)"
      "fa_log (log @ u # map snd passed) a" "sorted_wrt (\<lambda>x y. th_interval t \<le> fst y - fst x) ((now, u) # passed)" by auto
    have gap: "th_interval t \<le> now - th_lastUpdate t" using True Cons.prems(1) by (simp add: time_Sub_def max_def min_def split: if_splits)
    then have "sorted_wrt (\<lambda>x y. th_interval t \<le> fst y - fst x) ((th_lastUpdate t, v0) # (now, u) # passed)"
      using p(3) Cons.prems(1) by fastforce
    with p(1,2) True show ?thesis by (auto simp: e throttle_def plain.Set_ok)
  next
    case False
    with Cons.IH [OF Cons.prems, of v0] show ?thesis by (auto simp: e throttle_def)
  qed
qed simp

text \<open>
  A throttler never panics, passes notifications on at least the interval apart, whatever the clock shows,
  and sets the target to exactly their values, in their order.
\<close>

theorem throttler_spacing:
  assumes "0 < interval" and "fa_log log target" and "NewThrottler cb interval source = (t, source')"
  shows "\<exists>passed a. throttle_run (plain_type zero) t target es = Ret (passed, a) \<and> fa_log (log @ map snd passed) a \<and>
    sorted_wrt (\<lambda>x y. interval \<le> fst y - fst x) passed"
  using throttle_run_spaced [of t log target zero es] assms by (fastforce simp: NewThrottler_def split_beta Let_def)

theorem throttler_spacing_witness:
  "\<exists>passed a. throttle_run (plain_type (0::int)) (fst (NewThrottler 1 10 (new_field (0::int)))) (new_field 0) [(100, 5), (104, 6)] = Ret (passed, a) \<and>
     sorted_wrt (\<lambda>x y. 10 \<le> fst y - fst x) passed"
proof -
  have "fa_log [0] (new_field (0::int))" by (rule NewFA_log [OF NewFA_new_field])
  from throttler_spacing [OF _ this surjective_pairing [of "NewThrottler 1 10 (new_field (0::int))"], of 0 "[(100, 5), (104, 6)]"]
  show ?thesis by auto
qed

section \<open>WaitGroup\<close>

text \<open>
  The counter of a \<open>sync.WaitGroup\<close> and the goroutines parked in \<open>Wait\<close>; a counter below zero panics, at zero all go on. \<open>WaitWithTimeout\<close>
  starts a goroutine \<open>g\<close> that waits; if the timeout comes first, it stays parked.
\<close>

record wait_group =
  wg_count :: int
  wg_parked :: "nat list"

definition NewWaitGroup :: wait_group where
  "NewWaitGroup = \<lparr>wg_count = 0, wg_parked = []\<rparr>"

definition WaitGroup_Add :: "int \<Rightarrow> wait_group \<Rightarrow> (nat list \<times> wait_group) outcome" where
  "WaitGroup_Add delta w =
     (if wg_count w + delta < 0 then Panic NegativeCounter
      else if wg_count w + delta = 0 then Ret (wg_parked w, \<lparr>wg_count = 0, wg_parked = []\<rparr>)
      else Ret ([], w\<lparr>wg_count := wg_count w + delta\<rparr>))"

definition WaitGroup_Done :: "wait_group \<Rightarrow> (nat list \<times> wait_group) outcome" where
  "WaitGroup_Done w = WaitGroup_Add (- 1) w"

definition WaitGroup_Wait :: "nat \<Rightarrow> wait_group \<Rightarrow> unit outcome \<times> wait_group" where
  "WaitGroup_Wait g w = (if wg_count w = 0 then (Ret (), w) else (Blocked, w\<lparr>wg_parked := wg_parked w @ [g]\<rparr>))"

text \<open>The outcome when the counter stays as it is until the timeout.\<close>

definition WaitWithTimeout :: "nat \<Rightarrow> wait_group \<Rightarrow> bool \<times> wait_group" where
  "WaitWithTimeout g w = (case WaitGroup_Wait g w of (r, w) \<Rightarrow> (r = Ret (), w))"

fun done_times :: "nat \<Rightarrow> wait_group \<Rightarrow> (nat list \<times> wait_group) outcome" where
  "done_times 0 w = Ret ([], w)"
| "done_times (Suc n) w = bind_outcome (WaitGroup_Done w) (\<lambda>(gs, w). bind_outcome (done_times n w) (\<lambda>(hs, w). Ret (gs @ hs, w)))"

lemma done_times_open: "n < c \<Longrightarrow> done_times n \<lparr>wg_count = int c, wg_parked = gs\<rparr> = Ret ([], \<lparr>wg_count = int (c - n), wg_parked = gs\<rparr>)"
proof (induction n arbitrary: c)
  case (Suc n)
  have less: "n < c - 1" using Suc.prems by simp
  have c: "int c + - 1 = int (c - 1)" "\<not> int (c - 1) < 0" "int (c - 1) \<noteq> 0" using Suc.prems by auto
  have "WaitGroup_Done \<lparr>wg_count = int c, wg_parked = gs\<rparr> = Ret ([], \<lparr>wg_count = int (c - 1), wg_parked = gs\<rparr>)"
    unfolding WaitGroup_Done_def WaitGroup_Add_def wait_group.select_convs c(1) using c(2,3) by simp
  then show ?case using Suc.IH [OF less] by simp
qed simp

text \<open>A goroutine left by a timeout stays until the counter is at zero, however many calls of \<open>Done\<close> come before; one \<open>Done\<close> too many panics.\<close>

theorem wait_group_timeout:
  assumes "n < c"
  shows "(case WaitWithTimeout g \<lparr>wg_count = int c, wg_parked = []\<rparr> of (ok, w) \<Rightarrow> \<not> ok \<and>
      done_times n w = Ret ([], \<lparr>wg_count = int (c - n), wg_parked = [g]\<rparr>) \<and>
      bind_outcome (done_times (c - 1) w) (\<lambda>(gs, w). WaitGroup_Done w) = Ret ([g], NewWaitGroup)) \<and>
    WaitGroup_Done NewWaitGroup = Panic NegativeCounter"
proof -
  have "done_times (c - 1) \<lparr>wg_count = int c, wg_parked = [g]\<rparr> = Ret ([], \<lparr>wg_count = 1, wg_parked = [g]\<rparr>)"
    using done_times_open [of "c - 1" c "[g]"] assms by simp
  then show ?thesis
    using done_times_open [OF assms, of "[g]"] assms
    by (simp add: WaitWithTimeout_def WaitGroup_Wait_def WaitGroup_Done_def WaitGroup_Add_def NewWaitGroup_def)
qed

end
