(* ===== verification/Protocol_Errors.thy ===== *)
theory Protocol_Errors
  imports Zeus_Prelude
begin

text \<open>
  The errors of the protocol package, \<open>internal/core/protocol/errors.go\<close>: sentinel errors, protocol errors with a
  code and a cause, and the code of an error. No two sentinels share a message, so a sentinel is known by
  its message.
\<close>

section \<open>Errors\<close>

text \<open>
  An error is a sentinel or another error without cause; a protocol error with code, message and cause;
  an error that wraps another one (\<open>fmt.Errorf\<close> with \<open>%w\<close>), or a joined one. The context and the time stamp
  of a protocol error are never read.
\<close>

datatype perr = Plain string | ProtocolError int string "perr option" | Wrapped string perr | Joined perr perr

text \<open>
  The sentinels, \<open>ErrX\<close> as the name \<open>X\<close> with its message, and the codes, \<open>ErrorCodeX\<close> as the name \<open>X\<close> with its number.
\<close>

definition sentinels :: "(string \<times> string) list" where
  "sentinels = [
    (''ConnectionClosed'', ''connection is closed''), (''ConnectionTimeout'', ''connection timeout''),
    (''ConnectionRefused'', ''connection refused''), (''ConnectionLost'', ''connection lost''),
    (''InvalidConnection'', ''invalid connection''), (''MaxConnectionsReached'', ''maximum connections reached''),
    (''ClientNotFound'', ''client not found''), (''ClientInactive'', ''client is inactive''),
    (''ClientDisconnected'', ''client is disconnected''), (''MaxClientsExceeded'', ''maximum clients exceeded''),
    (''InvalidClientID'', ''invalid client ID''), (''MessageTooLarge'', ''message too large''),
    (''MessageExpired'', ''message expired''), (''InvalidMessage'', ''invalid message''),
    (''MessageQueueFull'', ''message queue is full''), (''SerializationFailed'', ''message serialization failed''),
    (''DeserializationFailed'', ''message deserialization failed''), (''StreamClosed'', ''stream is closed''),
    (''StreamNotFound'', ''stream not found''), (''MaxStreamsReached'', ''maximum streams reached''),
    (''StreamTimeout'', ''stream timeout''), (''InvalidStreamID'', ''invalid stream ID''), (''StreamReset'', ''stream was reset''),
    (''GroupNotFound'', ''group not found''), (''GroupClosed'', ''group is closed''),
    (''MaxGroupsExceeded'', ''maximum groups exceeded''), (''GroupAlreadyExists'', ''group already exists''),
    (''InvalidGroupID'', ''invalid group ID''), (''ScopeNotFound'', ''scope not found''), (''ScopeClosed'', ''scope is closed''),
    (''MaxScopesExceeded'', ''maximum scopes exceeded''), (''ScopeAlreadyExists'', ''scope already exists''),
    (''InvalidScopeID'', ''invalid scope ID''), (''MaxDataSizeExceeded'', ''maximum data size exceeded''),
    (''MaxKeysExceeded'', ''maximum keys exceeded''), (''DataNotFound'', ''data not found''),
    (''TransportNotSupported'', ''transport not supported''), (''TransportClosed'', ''transport is closed''),
    (''TransportFailed'', ''transport failed''), (''InvalidAddress'', ''invalid address''), (''BindFailed'', ''bind failed''),
    (''ListenFailed'', ''listen failed''), (''DialFailed'', ''dial failed''), (''RegistryClosed'', ''registry is closed''),
    (''AlreadyRegistered'', ''already registered''), (''NotRegistered'', ''not registered''),
    (''InvalidConfig'', ''invalid configuration''), (''ConfigurationMissing'', ''configuration missing''),
    (''UnsupportedFeature'', ''unsupported feature''), (''AuthenticationFailed'', ''authentication failed''),
    (''AuthorizationFailed'', ''authorization failed''), (''CertificateInvalid'', ''certificate invalid''),
    (''EncryptionFailed'', ''encryption failed''), (''DecryptionFailed'', ''decryption failed''),
    (''ProtocolViolation'', ''protocol violation''), (''InvalidFrame'', ''invalid frame''), (''FrameTooLarge'', ''frame too large''),
    (''InvalidHeader'', ''invalid header''), (''ChecksumMismatch'', ''checksum mismatch''),
    (''ResourceExhausted'', ''resource exhausted''), (''MemoryLimitExceeded'', ''memory limit exceeded''),
    (''CPULimitExceeded'', ''CPU limit exceeded''), (''DiskSpaceExhausted'', ''disk space exhausted''),
    (''Deadlock'', ''deadlock detected''), (''RaceCondition'', ''race condition detected''), (''LockTimeout'', ''lock timeout''),
    (''NotImplemented'', ''not implemented''), (''OperationNotSupported'', ''operation not supported''),
    (''InternalError'', ''internal error''), (''UnknownError'', ''unknown error'')]"

definition error_codes :: "(string \<times> int) list" where
  "error_codes = [
    (''Success'', 0), (''ConnectionClosed'', 1001), (''ConnectionTimeout'', 1002), (''ConnectionRefused'', 1003),
    (''ConnectionLost'', 1004), (''InvalidConnection'', 1005), (''MaxConnectionsReached'', 1006), (''ProtocolViolation'', 1007),
    (''AuthenticationFailed'', 1008), (''ClientNotFound'', 2001), (''ClientInactive'', 2002), (''ClientDisconnected'', 2003),
    (''MaxClientsExceeded'', 2004), (''InvalidClientID'', 2005), (''AuthorizationFailed'', 2006), (''MessageTooLarge'', 3001),
    (''MessageExpired'', 3002), (''InvalidMessage'', 3003), (''MessageQueueFull'', 3004), (''SerializationFailed'', 3005),
    (''DeserializationFailed'', 3006), (''StreamClosed'', 4001), (''StreamNotFound'', 4002), (''MaxStreamsReached'', 4003),
    (''StreamTimeout'', 4004), (''InvalidStreamID'', 4005), (''StreamReset'', 4006), (''ResourceExhausted'', 4007),
    (''GroupNotFound'', 5001), (''GroupClosed'', 5002), (''MaxGroupsExceeded'', 5003), (''GroupAlreadyExists'', 5004),
    (''InvalidGroupID'', 5005), (''ScopeNotFound'', 6001), (''ScopeClosed'', 6002), (''MaxScopesExceeded'', 6003),
    (''ScopeAlreadyExists'', 6004), (''InvalidScopeID'', 6005), (''MaxDataSizeExceeded'', 6006), (''MaxKeysExceeded'', 6007),
    (''DataNotFound'', 6008), (''TransportNotSupported'', 7001), (''TransportClosed'', 7002), (''TransportFailed'', 7003),
    (''InvalidAddress'', 7004), (''BindFailed'', 7005), (''ListenFailed'', 7006), (''DialFailed'', 7007), (''NotImplemented'', 9001),
    (''OperationNotSupported'', 9002), (''InternalError'', 9003), (''UnknownError'', 9999)]"

definition ErrorCodeUnknownError :: int where
  "ErrorCodeUnknownError = 9999"

definition errorCodeMap :: "(string \<times> int) list" where
  "errorCodeMap = [
     (''connection is closed'', 1001), (''connection timeout'', 1002), (''connection refused'', 1003),
     (''connection lost'', 1004), (''invalid connection'', 1005), (''maximum connections reached'', 1006),
     (''client not found'', 2001), (''client is inactive'', 2002), (''client is disconnected'', 2003),
     (''maximum clients exceeded'', 2004), (''invalid client ID'', 2005), (''message too large'', 3001),
     (''message expired'', 3002), (''invalid message'', 3003), (''message queue is full'', 3004),
     (''message serialization failed'', 3005), (''message deserialization failed'', 3006), (''stream is closed'', 4001),
     (''stream not found'', 4002), (''maximum streams reached'', 4003), (''stream timeout'', 4004),
     (''invalid stream ID'', 4005), (''stream was reset'', 4006), (''group not found'', 5001),
     (''group is closed'', 5002), (''maximum groups exceeded'', 5003), (''group already exists'', 5004),
     (''invalid group ID'', 5005), (''scope not found'', 6001), (''scope is closed'', 6002),
     (''maximum scopes exceeded'', 6003), (''scope already exists'', 6004), (''invalid scope ID'', 6005),
     (''maximum data size exceeded'', 6006), (''maximum keys exceeded'', 6007), (''data not found'', 6008),
     (''transport not supported'', 7001), (''transport is closed'', 7002), (''transport failed'', 7003),
     (''invalid address'', 7004), (''bind failed'', 7005), (''listen failed'', 7006), (''dial failed'', 7007),
     (''not implemented'', 9001), (''operation not supported'', 9002), (''internal error'', 9003),
     (''unknown error'', 9999)]"

text \<open>\<open>Error.Error\<close>, with the texts of the errors of other packages.\<close>

primrec error_text :: "perr \<Rightarrow> string" where
  "error_text (Plain msg) = msg"
| "error_text (ProtocolError code msg cause) = msg @ (case map_option error_text cause of None \<Rightarrow> [] | Some t \<Rightarrow> '': '' @ t)"
| "error_text (Wrapped msg e) = msg @ error_text e"
| "error_text (Joined a b) = error_text a @ [CHR 0x0A] @ error_text b"

definition error_Unwrap :: "perr \<Rightarrow> perr option" where
  "error_Unwrap e = (case e of ProtocolError code msg cause \<Rightarrow> cause | _ \<Rightarrow> None)"

definition NewProtocolError :: "int \<Rightarrow> string \<Rightarrow> perr option \<Rightarrow> perr" where
  "NewProtocolError code msg cause = ProtocolError code msg cause"

definition IsTemporary :: "int \<Rightarrow> bool" where
  "IsTemporary code \<longleftrightarrow> code \<in> {1002, 1004, 3004, 4004, 4007}"

definition IsRetryable :: "int \<Rightarrow> bool" where
  "IsRetryable code \<longleftrightarrow> IsTemporary code"

definition IsFatal :: "int \<Rightarrow> bool" where
  "IsFatal code \<longleftrightarrow> code \<in> {1001, 1003, 1007, 1008, 2006}"

text \<open>\<open>errors.As\<close>: the first protocol error in the chain of causes, the branches of a join from left to right.\<close>

primrec as_protocol_error :: "perr \<Rightarrow> int option" where
  "as_protocol_error (Plain msg) = None"
| "as_protocol_error (ProtocolError code msg cause) = Some code"
| "as_protocol_error (Wrapped msg e) = as_protocol_error e"
| "as_protocol_error (Joined a b) = (case as_protocol_error a of Some code \<Rightarrow> Some code | None \<Rightarrow> as_protocol_error b)"

text \<open>The map is keyed by the error itself: only a bare sentinel is found in it.\<close>

definition mapped_code :: "perr \<Rightarrow> int option" where
  "mapped_code e = (case e of Plain msg \<Rightarrow> map_of errorCodeMap msg | _ \<Rightarrow> None)"

definition GetErrorCode :: "perr \<Rightarrow> int" where
  "GetErrorCode e = (case mapped_code e of
       Some code \<Rightarrow> code
     | None \<Rightarrow> (case as_protocol_error e of Some code \<Rightarrow> code | None \<Rightarrow> ErrorCodeUnknownError))"

definition WrapError :: "perr \<Rightarrow> string \<Rightarrow> perr" where
  "WrapError e msg = NewProtocolError (GetErrorCode e) msg (Some e)"

section \<open>The table of codes\<close>

text \<open>The sentinel of a name and the code of a name.\<close>

definition sentinel_named :: "string \<Rightarrow> perr option" where
  "sentinel_named name = map_option Plain (map_of sentinels name)"

text \<open>
  The table against the two lists. The messages are different, so that a sentinel is known by its
  message; every sentinel with a code of its own name has that code, but for the four that were left
  out of the table: authentication and authorization failures and protocol violations are therefore not
  fatal, and exhausted resources are not temporary, when they come as sentinels. A sentinel without a
  code of its name has the unknown one.
\<close>

lemma sentinels_distinct: "distinct (map snd sentinels) \<and> distinct (map fst sentinels)"
  by code_simp

definition unmapped_names :: "string list" where
  "unmapped_names = [''AuthenticationFailed'', ''AuthorizationFailed'', ''ProtocolViolation'', ''ResourceExhausted'']"

lemma table_check:
  "list_all (\<lambda>(name, msg). map_of errorCodeMap msg = (if name \<in> set unmapped_names then None else map_of error_codes name)) sentinels"
  by code_simp

theorem sentinel_codes:
  assumes "sentinel_named name = Some e"
  shows "GetErrorCode e = (if name \<in> set unmapped_names then 9999
      else case map_of error_codes name of Some code \<Rightarrow> code | None \<Rightarrow> 9999) \<and>
    (name \<in> set unmapped_names \<longrightarrow> (\<exists>code. map_of error_codes name = Some code \<and> (IsFatal code \<or> IsTemporary code)) \<and>
      \<not> IsFatal (GetErrorCode e) \<and> \<not> IsTemporary (GetErrorCode e))"
proof -
  obtain msg where m: "map_of sentinels name = Some msg" and e: "e = Plain msg"
    using assms by (auto simp: sentinel_named_def)
  then have "(name, msg) \<in> set sentinels" by (simp add: map_of_SomeD)
  with table_check have t: "map_of errorCodeMap msg = (if name \<in> set unmapped_names then None else map_of error_codes name)"
    by (auto simp: list_all_iff)
  have "list_all (\<lambda>name. case map_of error_codes name of Some code \<Rightarrow> IsFatal code \<or> IsTemporary code | None \<Rightarrow> False) unmapped_names"
    unfolding IsFatal_def IsTemporary_def by code_simp
  then have "name \<in> set unmapped_names \<Longrightarrow> \<exists>code. map_of error_codes name = Some code \<and> (IsFatal code \<or> IsTemporary code)"
    by (auto simp: list_all_iff split: option.splits)
  moreover have "GetErrorCode e = (if name \<in> set unmapped_names then 9999 else case map_of error_codes name of Some code \<Rightarrow> code | None \<Rightarrow> 9999)"
    using t by (simp add: e GetErrorCode_def mapped_code_def ErrorCodeUnknownError_def split: option.split)
  ultimately show ?thesis by (simp add: IsFatal_def IsTemporary_def)
qed

theorem sentinel_codes_witness:
  "GetErrorCode (Plain ''authentication failed'') = 9999 \<and> GetErrorCode (Plain ''dial failed'') = 7007"
  using sentinel_codes [of "''AuthenticationFailed''" "Plain ''authentication failed''"] sentinel_codes [of "''DialFailed''" "Plain ''dial failed''"]
  by (simp add: sentinel_named_def sentinels_def error_codes_def unmapped_names_def)

section \<open>Codes through wrapping\<close>

lemma GetErrorCode_ProtocolError [simp]: "GetErrorCode (ProtocolError code msg cause) = code"
  by (simp add: GetErrorCode_def mapped_code_def)

lemma GetErrorCode_Wrapped:
  "GetErrorCode (Wrapped msg e) = (case as_protocol_error e of Some code \<Rightarrow> code | None \<Rightarrow> ErrorCodeUnknownError)"
  by (simp add: GetErrorCode_def mapped_code_def)

text \<open>
  The code of an error through wrapping. \<open>WrapError\<close>, applied any number of times, keeps it, and puts its
  messages in front of the text. Wrapping by \<open>fmt.Errorf\<close> keeps the code of a protocol error, but a bare sentinel
  loses its own: whatever the sentinel, its wrapped form has the unknown code, is not temporary and not fatal.
\<close>

theorem error_codes_through_wrapping:
  "GetErrorCode (fold (\<lambda>msg e. WrapError e msg) msgs e) = GetErrorCode e \<and>
   error_text (fold (\<lambda>msg e. WrapError e msg) msgs e) = concat (map (\<lambda>msg. msg @ '': '') (rev msgs)) @ error_text e \<and>
   GetErrorCode (Wrapped w (WrapError e m)) = GetErrorCode e \<and>
   GetErrorCode (Wrapped w (Plain sentinel)) = 9999 \<and>
   \<not> IsRetryable (GetErrorCode (Wrapped w (Plain sentinel))) \<and> \<not> IsFatal (GetErrorCode (Wrapped w (Plain sentinel)))"
proof (intro conjI)
  show "GetErrorCode (fold (\<lambda>msg e. WrapError e msg) msgs e) = GetErrorCode e"
    by (induction msgs arbitrary: e) (simp_all add: WrapError_def NewProtocolError_def)
  show "error_text (fold (\<lambda>msg e. WrapError e msg) msgs e) = concat (map (\<lambda>msg. msg @ '': '') (rev msgs)) @ error_text e"
    by (induction msgs arbitrary: e) (simp_all add: WrapError_def NewProtocolError_def)
qed (simp_all add: GetErrorCode_Wrapped WrapError_def NewProtocolError_def ErrorCodeUnknownError_def IsRetryable_def IsTemporary_def IsFatal_def)

end
