(* ===== verification/Protocol_Group.thy ===== *)
theory Protocol_Group
  imports Zeus_Prelude "HOL-Library.AList"
begin

text \<open>
  The groups and scopes of \<open>internal/core/protocol/group.go\<close>: \<open>BaseGroup\<close>, a bounded set of clients, and \<open>BaseScope\<close>,
  which also keeps data under keys, bounded in size and number. Their methods on clients and metadata
  have the same text in the source and are defined once, on the fields both have. A \<open>sync.Map\<close> is an
  association list, or a list for a set; it ranges in the order of the list.
\<close>

unbundle bit_operations_syntax

section \<open>Groups\<close>

record GroupConfig =
  gc_MaxClients :: int
  gc_BroadcastTimeout :: int
  gc_EnableMetrics :: bool
  gc_Persistent :: bool

definition DefaultGroupConfig :: GroupConfig where
  "DefaultGroupConfig = \<lparr>gc_MaxClients = 10000, gc_BroadcastTimeout = 5000000000, gc_EnableMetrics = True, gc_Persistent = False\<rparr>"

record ScopeConfig =
  sc_MaxClients :: int
  sc_MaxDataSize :: uint64
  sc_MaxKeys :: int
  sc_DataTTL :: int
  sc_EnableStreaming :: bool
  sc_Persistent :: bool

definition DefaultScopeConfig :: ScopeConfig where
  "DefaultScopeConfig = \<lparr>sc_MaxClients = 1000, sc_MaxDataSize = 100 * 1024 * 1024, sc_MaxKeys = 10000, sc_DataTTL = 0,
     sc_EnableStreaming = True, sc_Persistent = False\<rparr>"

text \<open>The fields groups and scopes share. The count is an \<open>int64\<close>, which no number of clients in memory exceeds.\<close>

record 'v members =
  mb_id :: string
  mb_name :: string
  mb_clients :: "string list"
  mb_clientCount :: int
  mb_metadata :: "(string \<times> 'v) list"
  mb_createdAt :: int
  mb_closed :: bool

record 'v BaseGroup = "'v members" +
  gr_config :: GroupConfig

record 'v BaseScope = "'v members" +
  so_data :: "(string \<times> bytes) list"
  so_dataSize :: uint64
  so_config :: ScopeConfig

definition NewBaseGroup :: "int \<Rightarrow> string \<Rightarrow> string \<Rightarrow> GroupConfig \<Rightarrow> 'v BaseGroup" where
  "NewBaseGroup now gid name config =
     \<lparr>mb_id = gid, mb_name = name, mb_clients = [], mb_clientCount = 0, mb_metadata = [], mb_createdAt = now,
      mb_closed = False, gr_config = config\<rparr>"

definition load_or_store :: "string \<Rightarrow> ('v, 'z) members_scheme \<Rightarrow> bool \<times> ('v, 'z) members_scheme" where
  "load_or_store c g = (if c \<in> set (mb_clients g) then (True, g) else (False, g\<lparr>mb_clients := mb_clients g @ [c]\<rparr>))"

definition add_member :: "string \<Rightarrow> int \<Rightarrow> string \<Rightarrow> ('v, 'z) members_scheme \<Rightarrow> go_err option \<times> ('v, 'z) members_scheme" where
  "add_member closedErr maxClients c g =
     (if mb_closed g then (Some (Err closedErr), g)
      else if maxClients > 0 \<and> mb_clientCount g \<ge> maxClients then (Some (Err ''maximum clients exceeded''), g)
      else (case load_or_store c g of
              (loaded, g) \<Rightarrow> (None, if loaded then g else g\<lparr>mb_clientCount := mb_clientCount g + 1\<rparr>)))"

definition remove_member :: "string \<Rightarrow> ('v, 'z) members_scheme \<Rightarrow> ('v, 'z) members_scheme" where
  "remove_member c g =
     (if c \<in> set (mb_clients g)
      then g\<lparr>mb_clients := removeAll c (mb_clients g), mb_clientCount := mb_clientCount g - 1\<rparr> else g)"

definition HasClient :: "('v, 'z) members_scheme \<Rightarrow> string \<Rightarrow> bool" where
  "HasClient g c \<longleftrightarrow> c \<in> set (mb_clients g)"

text \<open>\<open>Clients\<close> makes a list with the count as capacity, which panics when the count is negative.\<close>

definition Clients :: "('v, 'z) members_scheme \<Rightarrow> string list outcome" where
  "Clients g = (if mb_clientCount g < 0 then Panic NegativeSize else Ret (mb_clients g))"

definition ClientCount :: "('v, 'z) members_scheme \<Rightarrow> int" where
  "ClientCount g = mb_clientCount g"

definition SetMetadata :: "string \<Rightarrow> 'v \<Rightarrow> ('v, 'z) members_scheme \<Rightarrow> ('v, 'z) members_scheme" where
  "SetMetadata key v g = g\<lparr>mb_metadata := AList.update key v (mb_metadata g)\<rparr>"

definition Metadata :: "('v, 'z) members_scheme \<Rightarrow> (string \<times> 'v) list" where
  "Metadata g = mb_metadata g"

definition close_members :: "('v, 'z) members_scheme \<Rightarrow> ('v, 'z) members_scheme" where
  "close_members g = g\<lparr>mb_closed := True\<rparr>"

record 'v GroupInfo =
  gi_ID :: string
  gi_Name :: string
  gi_ClientCount :: int
  gi_CreatedAt :: int
  gi_Metadata :: "(string \<times> 'v) list"

definition BaseGroup_Info :: "'v BaseGroup \<Rightarrow> 'v GroupInfo" where
  "BaseGroup_Info g = \<lparr>gi_ID = mb_id g, gi_Name = mb_name g, gi_ClientCount = mb_clientCount g, gi_CreatedAt = mb_createdAt g,
     gi_Metadata = mb_metadata g\<rparr>"

definition BaseGroup_AddClient :: "string \<Rightarrow> 'v BaseGroup \<Rightarrow> go_err option \<times> 'v BaseGroup" where
  "BaseGroup_AddClient c g = add_member ''group is closed'' (gc_MaxClients (gr_config g)) c g"

definition BaseGroup_RemoveClient :: "string \<Rightarrow> 'v BaseGroup \<Rightarrow> go_err option \<times> 'v BaseGroup" where
  "BaseGroup_RemoveClient c g = (None, remove_member c g)"

definition BaseGroup_Close :: "'v BaseGroup \<Rightarrow> 'v BaseGroup" where
  "BaseGroup_Close g = close_members g"

section \<open>Scopes\<close>

definition NewBaseScope :: "int \<Rightarrow> string \<Rightarrow> string \<Rightarrow> ScopeConfig \<Rightarrow> 'v BaseScope" where
  "NewBaseScope now sid name config =
     \<lparr>mb_id = sid, mb_name = name, mb_clients = [], mb_clientCount = 0, mb_metadata = [], mb_createdAt = now,
      mb_closed = False, so_data = [], so_dataSize = 0, so_config = config\<rparr>"

definition BaseScope_AddClient :: "string \<Rightarrow> 'v BaseScope \<Rightarrow> go_err option \<times> 'v BaseScope" where
  "BaseScope_AddClient c s = add_member ''scope is closed'' (sc_MaxClients (so_config s)) c s"

definition BaseScope_RemoveClient :: "string \<Rightarrow> 'v BaseScope \<Rightarrow> go_err option \<times> 'v BaseScope" where
  "BaseScope_RemoveClient c s = (None, remove_member c s)"

text \<open>
  The parts of \<open>SetData\<close> that are one action each: the checks, the subtraction of the old size, the store and
  the addition of the new size. \<open>^uint64(n - 1)\<close> is \<open>-n\<close>.
\<close>

definition check_data :: "string \<Rightarrow> bytes \<Rightarrow> 'v BaseScope \<Rightarrow> go_err option" where
  "check_data key d s =
     (if mb_closed s then Some (Err ''scope is closed'')
      else let newSize = so_dataSize s + of_nat (length d)
           in if sc_MaxDataSize (so_config s) > 0 \<and> newSize > sc_MaxDataSize (so_config s)
              then Some (Err ''maximum data size exceeded'')
              else if sc_MaxKeys (so_config s) > 0 \<and> int (length (so_data s)) \<ge> sc_MaxKeys (so_config s) \<and> map_of (so_data s) key = None
              then Some (Err ''maximum keys exceeded'')
              else None)"

definition complement :: "uint64 \<Rightarrow> uint64" where
  "complement w = NOT w"

definition subtract_old :: "string \<Rightarrow> 'v BaseScope \<Rightarrow> 'v BaseScope" where
  "subtract_old key s = (case map_of (so_data s) key of
       Some old \<Rightarrow> s\<lparr>so_dataSize := so_dataSize s + complement (of_nat (length old) - 1)\<rparr>
     | None \<Rightarrow> s)"

definition store_data :: "string \<Rightarrow> bytes \<Rightarrow> 'v BaseScope \<Rightarrow> 'v BaseScope" where
  "store_data key d s = s\<lparr>so_data := AList.update key d (so_data s)\<rparr>"

definition add_size :: "bytes \<Rightarrow> 'v BaseScope \<Rightarrow> 'v BaseScope" where
  "add_size d s = s\<lparr>so_dataSize := so_dataSize s + of_nat (length d)\<rparr>"

definition BaseScope_SetData :: "string \<Rightarrow> bytes \<Rightarrow> 'v BaseScope \<Rightarrow> go_err option \<times> 'v BaseScope" where
  "BaseScope_SetData key d s = (case check_data key d s of
       Some e \<Rightarrow> (Some e, s)
     | None \<Rightarrow> (None, add_size d (store_data key d (subtract_old key s))))"

definition BaseScope_GetData :: "string \<Rightarrow> 'v BaseScope \<Rightarrow> bytes \<times> bool" where
  "BaseScope_GetData key s = (case map_of (so_data s) key of Some d \<Rightarrow> (d, True) | None \<Rightarrow> ([], False))"

definition BaseScope_DeleteData :: "string \<Rightarrow> 'v BaseScope \<Rightarrow> go_err option \<times> 'v BaseScope" where
  "BaseScope_DeleteData key s = (case map_of (so_data s) key of
       Some old \<Rightarrow> (None, s\<lparr>so_data := AList.delete key (so_data s),
                            so_dataSize := so_dataSize s + complement (of_nat (length old) - 1)\<rparr>)
     | None \<Rightarrow> (None, s))"

definition BaseScope_ListKeys :: "'v BaseScope \<Rightarrow> string list" where
  "BaseScope_ListKeys s = map fst (so_data s)"

definition BaseScope_DataSize :: "'v BaseScope \<Rightarrow> uint64" where
  "BaseScope_DataSize s = so_dataSize s"

record 'v ScopeInfo =
  si_ID :: string
  si_Name :: string
  si_ClientCount :: int
  si_DataSize :: uint64
  si_CreatedAt :: int
  si_Metadata :: "(string \<times> 'v) list"

definition BaseScope_Info :: "'v BaseScope \<Rightarrow> 'v ScopeInfo" where
  "BaseScope_Info s = \<lparr>si_ID = mb_id s, si_Name = mb_name s, si_ClientCount = mb_clientCount s, si_DataSize = so_dataSize s,
     si_CreatedAt = mb_createdAt s, si_Metadata = mb_metadata s\<rparr>"

definition BaseScope_Close :: "'v BaseScope \<Rightarrow> 'v BaseScope" where
  "BaseScope_Close s = close_members s"

section \<open>Concurrent calls on a group\<close>

text \<open>
  \<open>AddClient\<close> checks, stores and counts in three separate actions, \<open>RemoveClient\<close> deletes and counts in two. Besides
  the group, the state has the clients of the calls between check and store, and the numbers of calls that
  have still to count up and down. At most \<open>k\<close> calls are under way at a time.
\<close>

record 'v adding =
  ad_group :: "'v BaseGroup"
  ad_checked :: "string list"
  ad_up :: nat
  ad_down :: nat

definition under_way :: "'v adding \<Rightarrow> nat" where
  "under_way x = length (ad_checked x) + ad_up x + ad_down x"

inductive add_step :: "nat \<Rightarrow> 'v adding \<Rightarrow> 'v adding \<Rightarrow> bool" for k where
  checks: "under_way x < k \<Longrightarrow> \<not> mb_closed (ad_group x) \<Longrightarrow>
      \<not> (gc_MaxClients (gr_config (ad_group x)) > 0 \<and> mb_clientCount (ad_group x) \<ge> gc_MaxClients (gr_config (ad_group x))) \<Longrightarrow>
      add_step k x (x\<lparr>ad_checked := c # ad_checked x\<rparr>)"
| stores: "ad_checked x = cs @ c # cs' \<Longrightarrow> load_or_store c (ad_group x) = (loaded, g) \<Longrightarrow>
      add_step k x (x\<lparr>ad_group := g, ad_checked := cs @ cs', ad_up := (if loaded then ad_up x else ad_up x + 1)\<rparr>)"
| counts_up: "ad_up x = Suc n \<Longrightarrow>
      add_step k x (x\<lparr>ad_group := (ad_group x)\<lparr>mb_clientCount := mb_clientCount (ad_group x) + 1\<rparr>, ad_up := n\<rparr>)"
| deletes: "under_way x < k \<Longrightarrow> c \<in> set (mb_clients (ad_group x)) \<Longrightarrow>
      add_step k x (x\<lparr>ad_group := (ad_group x)\<lparr>mb_clients := removeAll c (mb_clients (ad_group x))\<rparr>, ad_down := ad_down x + 1\<rparr>)"
| counts_down: "ad_down x = Suc n \<Longrightarrow>
      add_step k x (x\<lparr>ad_group := (ad_group x)\<lparr>mb_clientCount := mb_clientCount (ad_group x) - 1\<rparr>, ad_down := n\<rparr>)"
| closes: "add_step k x (x\<lparr>ad_group := BaseGroup_Close (ad_group x)\<rparr>)"

definition add_inv :: "nat \<Rightarrow> int \<Rightarrow> 'v adding \<Rightarrow> bool" where
  "add_inv k m x \<longleftrightarrow> distinct (mb_clients (ad_group x)) \<and> gc_MaxClients (gr_config (ad_group x)) = m \<and> under_way x \<le> k \<and>
     mb_clientCount (ad_group x) = int (length (mb_clients (ad_group x))) - int (ad_up x) + int (ad_down x) \<and>
     int (length (mb_clients (ad_group x))) + int (length (ad_checked x)) \<le> m + int k - 1"

lemma length_removeAll_distinct: "distinct xs \<Longrightarrow> c \<in> set xs \<Longrightarrow> length (removeAll c xs) = length xs - 1"
  by (simp add: length_remove1 [symmetric] distinct_remove1_removeAll [symmetric] length_remove1)

lemma add_step_inv: "add_step k x y \<Longrightarrow> 0 < m \<Longrightarrow> add_inv k m x \<Longrightarrow> add_inv k m y"
proof (induction rule: add_step.induct)
  case (deletes x c)
  then have "int (length (mb_clients (ad_group x)) - 1) = int (length (mb_clients (ad_group x))) - 1"
    using length_pos_if_in_set [OF deletes(2)] by (simp add: of_nat_diff Suc_le_eq)
  with deletes show ?case by (auto simp: add_inv_def under_way_def distinct_removeAll length_removeAll_distinct)
qed (auto simp: add_inv_def under_way_def load_or_store_def BaseGroup_Close_def close_members_def split: if_splits)

text \<open>
  C23. The bound of a group under concurrent calls. With at most \<open>k\<close> calls of \<open>AddClient\<close> and \<open>RemoveClient\<close> under way at
  any time the members exceed \<open>MaxClients\<close> by at most \<open>k - 1\<close>; calls one after the other (\<open>k = 1\<close>) keep to it. No member
  is listed twice, and when no call is under way the count is the number of members, and \<open>Clients\<close> returns them all.
\<close>

theorem group_bound:
  assumes "(add_step k)\<^sup>*\<^sup>* \<lparr>ad_group = NewBaseGroup now gid name config, ad_checked = [], ad_up = 0, ad_down = 0\<rparr> x"
    and "0 < gc_MaxClients config" and "0 < k"
  shows "int (length (mb_clients (ad_group x))) \<le> gc_MaxClients config + int k - 1 \<and> distinct (mb_clients (ad_group x)) \<and>
    (under_way x = 0 \<longrightarrow> ClientCount (ad_group x) = int (length (mb_clients (ad_group x))) \<and>
       Clients (ad_group x) = Ret (mb_clients (ad_group x)))"
proof -
  let ?x = "\<lparr>ad_group = NewBaseGroup now gid name config, ad_checked = [], ad_up = 0, ad_down = 0\<rparr>"
  have start: "add_inv k (gc_MaxClients config) ?x" using assms(2,3) by (simp add: add_inv_def NewBaseGroup_def under_way_def)
  from assms(1) have "add_inv k (gc_MaxClients config) x"
    by (induction rule: rtranclp_induct) (use start assms(2) in \<open>blast intro: add_step_inv\<close>)+
  then show ?thesis by (auto simp: add_inv_def Clients_def ClientCount_def under_way_def)
qed

definition small_group :: "unit adding" where
  "small_group = \<lparr>ad_group = NewBaseGroup 0 [] [] (DefaultGroupConfig\<lparr>gc_MaxClients := 1\<rparr>), ad_checked = [], ad_up = 0, ad_down = 0\<rparr>"

lemma small_group_sel:
  "\<not> mb_closed (ad_group small_group)" "mb_clientCount (ad_group small_group) = 0" "mb_clients (ad_group small_group) = []"
  "gc_MaxClients (gr_config (ad_group small_group)) = 1" "ad_checked small_group = []" "ad_up small_group = 0" "ad_down small_group = 0"
  by (simp_all add: small_group_def NewBaseGroup_def)

lemma two_in_a_group_of_one:
  "\<exists>x. (add_step 2)\<^sup>*\<^sup>* small_group x \<and> length (mb_clients (ad_group x)) = 2"
proof -
  let ?x = "small_group\<lparr>ad_checked := [''a'']\<rparr>"
  let ?y = "small_group\<lparr>ad_checked := [''b'', ''a'']\<rparr>"
  let ?z = "?y\<lparr>ad_group := (ad_group small_group)\<lparr>mb_clients := [''a'']\<rparr>, ad_checked := [''b''], ad_up := 1\<rparr>"
  let ?u = "?z\<lparr>ad_group := (ad_group small_group)\<lparr>mb_clients := [''a'', ''b'']\<rparr>, ad_checked := [], ad_up := Suc (Suc 0)\<rparr>"
  have "add_step 2 small_group ?x" using checks [of small_group 2 "''a''"] small_group_sel by (simp add: under_way_def)
  moreover have "add_step 2 ?x ?y" using checks [of ?x 2 "''b''"] small_group_sel by (simp add: under_way_def)
  moreover have "add_step 2 ?y ?z"
    using stores [of ?y "[''b'']" "''a''" "[]" False "(ad_group small_group)\<lparr>mb_clients := [''a'']\<rparr>" 2] small_group_sel
    by (simp add: load_or_store_def)
  moreover have "add_step 2 ?z ?u"
    using stores [of ?z "[]" "''b''" "[]" False "(ad_group small_group)\<lparr>mb_clients := [''a'', ''b'']\<rparr>" 2] small_group_sel
    by (simp add: load_or_store_def)
  ultimately have "(add_step 2)\<^sup>*\<^sup>* small_group ?u"
    by (meson converse_rtranclp_into_rtranclp rtranclp.rtrancl_refl)
  then show ?thesis by (intro exI [of _ ?u]) simp
qed

theorem group_bound_witness:
  "\<exists>x. (add_step 2)\<^sup>*\<^sup>* small_group x \<and> length (mb_clients (ad_group x)) = 2 \<and> distinct (mb_clients (ad_group x))"
proof -
  from two_in_a_group_of_one obtain x where x: "(add_step 2)\<^sup>*\<^sup>* small_group x" "length (mb_clients (ad_group x)) = 2" by blast
  from group_bound [OF x(1) [unfolded small_group_def]] x show ?thesis by auto
qed

text \<open>
  A client added and removed at the same time: between the store and its count \<open>RemoveClient\<close> deletes and counts down, the count
  is negative, and \<open>Clients\<close> panics.
\<close>

lemma Clients_panics:
  "\<exists>x. (add_step 2)\<^sup>*\<^sup>* small_group x \<and> Clients (ad_group x) = Panic NegativeSize"
proof -
  let ?x = "small_group\<lparr>ad_checked := [''a'']\<rparr>"
  let ?y = "?x\<lparr>ad_group := (ad_group small_group)\<lparr>mb_clients := [''a'']\<rparr>, ad_checked := [], ad_up := 1\<rparr>"
  let ?z = "?y\<lparr>ad_group := ad_group small_group, ad_down := 1\<rparr>"
  let ?u = "?z\<lparr>ad_group := (ad_group small_group)\<lparr>mb_clientCount := -1\<rparr>, ad_down := 0\<rparr>"
  have same: "(ad_group small_group)\<lparr>mb_clients := []\<rparr> = ad_group small_group" using small_group_sel(3) by simp
  have "add_step 2 small_group ?x" using checks [of small_group 2 "''a''"] small_group_sel by (simp add: under_way_def)
  moreover have "add_step 2 ?x ?y"
    using stores [of ?x "[]" "''a''" "[]" False "(ad_group small_group)\<lparr>mb_clients := [''a'']\<rparr>" 2] small_group_sel
    by (simp add: load_or_store_def)
  moreover have "add_step 2 ?y ?z" using deletes [of ?y 2 "''a''"] small_group_sel same by (simp add: under_way_def)
  moreover have "add_step 2 ?z ?u" using counts_down [of ?z 0 2] small_group_sel by simp
  ultimately have "(add_step 2)\<^sup>*\<^sup>* small_group ?u"
    by (meson converse_rtranclp_into_rtranclp rtranclp.rtrancl_refl)
  then show ?thesis by (intro exI [of _ ?u]) (simp add: Clients_def)
qed

section \<open>The size of a scope\<close>

datatype scope_op = SetOp string bytes | DeleteOp string | CloseOp

fun scope_do :: "scope_op \<Rightarrow> 'v BaseScope \<Rightarrow> 'v BaseScope" where
  "scope_do (SetOp key d) s = snd (BaseScope_SetData key d s)"
| "scope_do (DeleteOp key) s = snd (BaseScope_DeleteData key s)"
| "scope_do CloseOp s = BaseScope_Close s"

definition bytes_in :: "(string \<times> bytes) list \<Rightarrow> nat" where
  "bytes_in al = sum_list (map (length \<circ> snd) al)"

definition size_at :: "(string \<times> bytes) list \<Rightarrow> string \<Rightarrow> nat" where
  "size_at al key = (case map_of al key of Some old \<Rightarrow> length old | None \<Rightarrow> 0)"

lemma bytes_in_simps [simp]: "bytes_in [] = 0" "bytes_in (x # al) = length (snd x) + bytes_in al"
  by (simp_all add: bytes_in_def)

lemma bytes_in_update: "bytes_in (AList.update key d al) + size_at al key = bytes_in al + length d"
  by (induction al) (auto simp: size_at_def)

lemma delete_absent: "key \<notin> fst ` set al \<Longrightarrow> AList.delete key al = al"
  by (induction al) (auto simp: AList.delete_eq)

lemma bytes_in_delete: "distinct (map fst al) \<Longrightarrow> bytes_in (AList.delete key al) + size_at al key = bytes_in al"
proof (induction al)
  case (Cons x al)
  then show ?case by (cases x) (auto simp: size_at_def AList.delete_eq delete_absent [unfolded AList.delete_eq])
qed (simp add: size_at_def)

lemma complement_pred: "complement (w - 1) = - w"
  by (simp add: complement_def not_eq_complement)

lemma subtract_old_size: "subtract_old key s = s\<lparr>so_dataSize := so_dataSize s - of_nat (size_at (so_data s) key)\<rparr>"
  by (cases s) (simp add: subtract_old_def size_at_def complement_pred split: option.split)

lemma length_update: "length (AList.update key d al) = (if map_of al key = None then length al + 1 else length al)"
  by (induction al) auto

definition scope_inv :: "ScopeConfig \<Rightarrow> 'v BaseScope \<Rightarrow> bool" where
  "scope_inv c s \<longleftrightarrow> so_config s = c \<and> distinct (map fst (so_data s)) \<and> so_dataSize s = of_nat (bytes_in (so_data s)) \<and>
     bytes_in (so_data s) \<le> unat (sc_MaxDataSize c) \<and> int (length (so_data s)) \<le> sc_MaxKeys c"

fun op_fits :: "scope_op \<Rightarrow> bool" where
  "op_fits (SetOp key d) \<longleftrightarrow> length d < 2 ^ 63"
| "op_fits op \<longleftrightarrow> True"

lemma unat_of_nat_less: "n < 2 ^ 64 \<Longrightarrow> unat (of_nat n :: uint64) = n"
  by (simp add: unat_of_nat take_bit_nat_eq_self)

lemma set_data_inv:
  assumes inv: "scope_inv c s" and c: "0 < unat (sc_MaxDataSize c)" "unat (sc_MaxDataSize c) < 2 ^ 63" "0 < sc_MaxKeys c"
    and d: "length d < 2 ^ 63"
  shows "scope_inv c (snd (BaseScope_SetData key d s))"
proof (cases "check_data key d s")
  case None
  have bound: "bytes_in (so_data s) + length d < 2 ^ 64" using inv c(2) d by (simp add: scope_inv_def)
  have pos: "0 < sc_MaxDataSize c" using c(1) by (simp add: word_gt_0 unat_gt_0)
  have "\<not> so_dataSize s + of_nat (length d) > sc_MaxDataSize c"
    using None pos inv by (auto simp: check_data_def Let_def scope_inv_def split: if_splits)
  then have le: "bytes_in (so_data s) + length d \<le> unat (sc_MaxDataSize c)"
    using inv bound unat_of_nat_less [OF bound] by (simp add: scope_inv_def not_less word_le_nat_alt)
  have keys: "int (length (AList.update key d (so_data s))) \<le> sc_MaxKeys c"
    using None c(3) inv by (auto simp: check_data_def Let_def scope_inv_def length_update split: if_splits)
  have sum: "bytes_in (AList.update key d (so_data s)) + size_at (so_data s) key = bytes_in (so_data s) + length d"
    by (rule bytes_in_update)
  then have "of_nat (bytes_in (AList.update key d (so_data s))) + of_nat (size_at (so_data s) key) =
      (of_nat (bytes_in (so_data s)) + of_nat (length d) :: uint64)"
    by (metis of_nat_add)
  then have "so_dataSize s - of_nat (size_at (so_data s) key) + of_nat (length d) = of_nat (bytes_in (AList.update key d (so_data s)))"
    using inv by (simp add: scope_inv_def algebra_simps)
  with None inv le keys sum show ?thesis
    by (simp add: BaseScope_SetData_def subtract_old_size store_data_def add_size_def scope_inv_def distinct_update)
qed (use inv in \<open>simp add: BaseScope_SetData_def\<close>)

lemma delete_data_inv: "scope_inv c s \<Longrightarrow> scope_inv c (snd (BaseScope_DeleteData key s))"
proof (cases "map_of (so_data s) key")
  case (Some old)
  assume inv: "scope_inv c s"
  have sum: "bytes_in (AList.delete key (so_data s)) + length old = bytes_in (so_data s)"
    using bytes_in_delete [of "so_data s" key] inv Some by (simp add: scope_inv_def size_at_def)
  then have "(of_nat (bytes_in (so_data s)) :: uint64) = of_nat (bytes_in (AList.delete key (so_data s))) + of_nat (length old)"
    by (metis of_nat_add)
  moreover have "length (AList.delete key (so_data s)) \<le> length (so_data s)" by (rule length_delete_le)
  ultimately show ?thesis
    using inv sum Some by (simp add: BaseScope_DeleteData_def scope_inv_def complement_pred distinct_delete)
qed (simp add: BaseScope_DeleteData_def)

lemma scope_do_inv:
  assumes "0 < unat (sc_MaxDataSize c)" "unat (sc_MaxDataSize c) < 2 ^ 63" "0 < sc_MaxKeys c" "op_fits op" "scope_inv c s"
  shows "scope_inv c (scope_do op s)"
  using assms
proof (cases op)
  case (SetOp key d)
  with assms show ?thesis by (simp add: set_data_inv)
next
  case (DeleteOp key)
  with assms show ?thesis by (simp add: delete_data_inv)
next
  case CloseOp
  with assms show ?thesis by (simp add: BaseScope_Close_def close_members_def scope_inv_def)
qed

text \<open>
  C22. The bounds of a scope. Whatever is set and deleted one call after the other, the data size is the number of bytes
  stored, never more than \<open>MaxDataSize\<close>, and there are never more keys than \<open>MaxKeys\<close>: the wrap-around of the \<open>uint64\<close>
  sum and of the subtraction by complement does no harm below half its range.
\<close>

theorem scope_bounds:
  assumes "0 < unat (sc_MaxDataSize config)" "unat (sc_MaxDataSize config) < 2 ^ 63" "0 < sc_MaxKeys config"
    and "list_all op_fits ops"
  shows "let s = fold scope_do ops (NewBaseScope now sid name config)
    in unat (BaseScope_DataSize s) = bytes_in (so_data s) \<and> bytes_in (so_data s) \<le> unat (sc_MaxDataSize config) \<and>
       int (length (BaseScope_ListKeys s)) \<le> sc_MaxKeys config \<and> distinct (BaseScope_ListKeys s)"
proof -
  have "scope_inv config (fold scope_do ops s)" if "scope_inv config s" for s :: "'a BaseScope"
    using assms(4) that
    by (induction ops arbitrary: s) (simp_all add: scope_do_inv [OF assms(1-3)])
  moreover have "scope_inv config (NewBaseScope now sid name config)" using assms(3) by (simp add: scope_inv_def NewBaseScope_def)
  ultimately have "scope_inv config (fold scope_do ops (NewBaseScope now sid name config :: 'a BaseScope))" by blast
  then show ?thesis
    using assms(2) by (simp add: scope_inv_def BaseScope_DataSize_def BaseScope_ListKeys_def unat_of_nat_less)
qed

definition tiny_scope :: "unit BaseScope" where
  "tiny_scope = NewBaseScope 0 [] [] (DefaultScopeConfig\<lparr>sc_MaxDataSize := 4, sc_MaxKeys := 1\<rparr>)"

theorem scope_bounds_witness:
  "let s = fold scope_do [SetOp ''a'' [1,2,3], SetOp ''a'' [4], SetOp ''b'' [5], SetOp ''a'' [6,7]] tiny_scope
   in unat (BaseScope_DataSize s) = bytes_in (so_data s) \<and> bytes_in (so_data s) \<le> 4"
  using scope_bounds [of "DefaultScopeConfig\<lparr>sc_MaxDataSize := 4, sc_MaxKeys := 1\<rparr>"
      "[SetOp ''a'' [1,2,3], SetOp ''a'' [4], SetOp ''b'' [5], SetOp ''a'' [6,7]]" 0 "[]" "[]"]
  by (auto simp: tiny_scope_def Let_def)

text \<open>
  Two calls of \<open>SetData\<close> for one key that pass the checks and then act in turn, each subtracting before the other has stored.
\<close>

definition racing_sets :: "string \<Rightarrow> bytes \<Rightarrow> bytes \<Rightarrow> 'v BaseScope \<Rightarrow> 'v BaseScope" where
  "racing_sets key d e s =
     (if check_data key d s = None \<and> check_data key e s = None
      then add_size e (store_data key e (add_size d (store_data key d (subtract_old key (subtract_old key s)))))
      else s)"

text \<open>
  Two concurrent \<open>SetData\<close> of one key corrupt the size: both subtract the old size and both add their own, so the size is
  off by the difference of the first new and the old size from then on.
\<close>

theorem scope_size_race:
  assumes "check_data key d s = None" "check_data key e s = None"
    and "so_dataSize s = of_nat (bytes_in (so_data s))" "map_of (so_data s) key = Some old"
  shows "let t = racing_sets key d e s
    in BaseScope_GetData key t = (e, True) \<and>
       BaseScope_DataSize t = of_nat (bytes_in (so_data t)) + of_nat (length d) - of_nat (length old)"
proof -
  let ?t = "AList.update key e (AList.update key d (so_data s))"
  have "?t = AList.update key e (so_data s)" by (rule AList.update_last)
  then have "bytes_in ?t + length old = bytes_in (so_data s) + length e"
    using bytes_in_update [of key e "so_data s"] assms(4) by (simp add: size_at_def)
  then have "of_nat (bytes_in (so_data s)) + of_nat (length e) = (of_nat (bytes_in ?t) + of_nat (length old) :: uint64)"
    by (metis of_nat_add)
  then have "so_dataSize s + of_nat (length e) = of_nat (bytes_in ?t) + of_nat (length old)" using assms(3) by simp
  then show ?thesis
    using assms(1,2,4)
    by (simp add: racing_sets_def subtract_old_size size_at_def store_data_def add_size_def BaseScope_GetData_def
        BaseScope_DataSize_def Let_def update_conv algebra_simps)
qed

theorem scope_size_race_witness:
  "let s = snd (BaseScope_SetData ''a'' [1, 2] tiny_scope); t = racing_sets ''a'' [] [] s
   in bytes_in (so_data t) = 0 \<and> BaseScope_DataSize t = - 2 \<and>
      fst (BaseScope_SetData ''a'' [1] t) = Some (Err ''maximum data size exceeded'')"
proof -
  define s where "s = snd (BaseScope_SetData ''a'' [1, 2] tiny_scope)"
  have s: "so_data s = [(''a'', [1, 2])]" "so_dataSize s = 2" "\<not> mb_closed s" "so_config s = DefaultScopeConfig\<lparr>sc_MaxDataSize := 4, sc_MaxKeys := 1\<rparr>"
    by (simp_all add: s_def tiny_scope_def NewBaseScope_def BaseScope_SetData_def check_data_def subtract_old_def store_data_def add_size_def)
  have "check_data ''a'' [] s = None" by (simp add: check_data_def s)
  then have "BaseScope_DataSize (racing_sets ''a'' [] [] s) = of_nat (bytes_in (so_data (racing_sets ''a'' [] [] s))) - 2"
    using scope_size_race [of "''a''" "[]" s "[]" "[1, 2]"] by (simp add: s Let_def)
  moreover have t: "so_data (racing_sets ''a'' [] [] s) = [(''a'', [])]" "so_config (racing_sets ''a'' [] [] s) = so_config s"
    "mb_closed (racing_sets ''a'' [] [] s) = mb_closed s"
    using s by (simp_all add: racing_sets_def check_data_def subtract_old_size store_data_def add_size_def)
  ultimately show ?thesis
    unfolding s_def [symmetric] Let_def by (simp add: BaseScope_SetData_def check_data_def BaseScope_DataSize_def s(3,4))
qed

end
