(* ===== verification/Protocol_Message.thy ===== *)
theory Protocol_Message
  imports Zeus_Prelude
begin

text \<open>
  The messages of \<open>internal/core/protocol/message.go\<close>: constructors, the builder, filters, reference counts and
  the pool that hands messages out again. Messages are shared by pointer, so they live in a heap, a list
  indexed by address; \<open>nil\<close> is \<open>None\<close>. The identifier \<open>GenerateMessageID\<close> makes (a call of a library) and the
  clock (in nanoseconds) are arguments, and so is the item a \<open>sync.Pool\<close> picks.
\<close>

section \<open>Messages\<close>

record Message =
  mg_ID :: string
  mg_Type :: "8 word"
  mg_Priority :: "8 word"
  mg_Payload :: bytes
  mg_Timestamp :: int
  mg_TTL :: int
  mg_Source :: string
  mg_Target :: string
  mg_Group :: string
  mg_Scope :: string
  mg_pooled :: bool
  mg_refCount :: int32

definition MessageTypeData :: "8 word" where "MessageTypeData = 0"
definition MessageTypeControl :: "8 word" where "MessageTypeControl = 1"
definition MessageTypeHeartbeat :: "8 word" where "MessageTypeHeartbeat = 2"
definition PriorityNormal :: "8 word" where "PriorityNormal = 1"

text \<open>\<open>&Message{}\<close>, and the conversions between a string and its bytes.\<close>

definition zero_message :: Message where
  "zero_message = \<lparr>mg_ID = [], mg_Type = 0, mg_Priority = 0, mg_Payload = [], mg_Timestamp = 0, mg_TTL = 0,
     mg_Source = [], mg_Target = [], mg_Group = [], mg_Scope = [], mg_pooled = False, mg_refCount = 0\<rparr>"

definition string_bytes :: "string \<Rightarrow> bytes" where
  "string_bytes s = map of_char s"

definition bytes_string :: "bytes \<Rightarrow> string" where
  "bytes_string bs = map (\<lambda>b. char_of (unat b)) bs"

text \<open>The payload of \<open>NewMessage\<close> is the slice of the caller; the other constructors copy.\<close>

definition NewMessage :: "string \<Rightarrow> int \<Rightarrow> 8 word \<Rightarrow> bytes \<Rightarrow> Message" where
  "NewMessage mid now msgType payload = zero_message\<lparr>mg_ID := mid, mg_Type := msgType, mg_Priority := PriorityNormal,
     mg_Payload := payload, mg_Timestamp := now, mg_refCount := 1\<rparr>"

definition NewMessageFromBytes :: "string \<Rightarrow> int \<Rightarrow> 8 word \<Rightarrow> bytes \<Rightarrow> Message" where
  "NewMessageFromBytes mid now msgType payload = NewMessage mid now msgType payload"

definition NewMessageFromString :: "string \<Rightarrow> int \<Rightarrow> 8 word \<Rightarrow> string \<Rightarrow> Message" where
  "NewMessageFromString mid now msgType txt = NewMessageFromBytes mid now msgType (string_bytes txt)"

text \<open>\<open>json.Marshal\<close> and the method \<open>Serialize\<close> of the object are the argument \<open>encoded\<close>.\<close>

definition NewMessageFromJSON :: "go_err + bytes \<Rightarrow> string \<Rightarrow> int \<Rightarrow> 8 word \<Rightarrow> go_err + Message" where
  "NewMessageFromJSON encoded mid now msgType =
     (case encoded of Inl e \<Rightarrow> Inl e | Inr bs \<Rightarrow> Inr (NewMessageFromBytes mid now msgType bs))"

definition NewMessageFromSerializable :: "go_err + bytes \<Rightarrow> string \<Rightarrow> int \<Rightarrow> 8 word \<Rightarrow> go_err + Message" where
  "NewMessageFromSerializable encoded mid now msgType =
     (case encoded of Inl e \<Rightarrow> Inl e | Inr bs \<Rightarrow> Inr (NewMessageFromBytes mid now msgType bs))"

definition Message_Clone :: "string \<Rightarrow> Message \<Rightarrow> Message" where
  "Message_Clone mid msg = msg\<lparr>mg_ID := mid, mg_pooled := False, mg_refCount := 1\<rparr>"

definition IsExpired :: "int \<Rightarrow> Message \<Rightarrow> bool" where
  "IsExpired now msg \<longleftrightarrow> (if mg_TTL msg = 0 then False else time_Sub now (mg_Timestamp msg) > mg_TTL msg)"

text \<open>The struct takes 152 bytes on a 64-bit machine.\<close>

definition Message_Size :: "Message \<Rightarrow> int" where
  "Message_Size msg = 152 + int (length (mg_Payload msg))"

definition AsString :: "Message \<Rightarrow> string" where
  "AsString msg = bytes_string (mg_Payload msg)"

section \<open>Filters\<close>

type_synonym message_filter = "Message \<Rightarrow> bool"

definition FilterByType :: "8 word \<Rightarrow> message_filter" where
  "FilterByType msgType = (\<lambda>msg. mg_Type msg = msgType)"

definition FilterByPriority :: "8 word \<Rightarrow> message_filter" where
  "FilterByPriority minPriority = (\<lambda>msg. mg_Priority msg \<ge> minPriority)"

definition FilterBySource :: "string \<Rightarrow> message_filter" where
  "FilterBySource sourceID = (\<lambda>msg. mg_Source msg = sourceID)"

definition FilterByGroup :: "string \<Rightarrow> message_filter" where
  "FilterByGroup groupID = (\<lambda>msg. mg_Group msg = groupID)"

definition FilterByScope :: "string \<Rightarrow> message_filter" where
  "FilterByScope scopeID = (\<lambda>msg. mg_Scope msg = scopeID)"

primrec CombineFilters :: "message_filter list \<Rightarrow> message_filter" where
  "CombineFilters [] msg = True"
| "CombineFilters (f # fs) msg = (if \<not> f msg then False else CombineFilters fs msg)"

primrec AnyFilter :: "message_filter list \<Rightarrow> message_filter" where
  "AnyFilter [] msg = False"
| "AnyFilter (f # fs) msg = (if f msg then True else AnyFilter fs msg)"

section \<open>The pool\<close>

record message_heap =
  mh_heap :: "Message list"
  mh_pool :: "nat list"
  mh_gets :: uint64
  mh_puts :: uint64

definition alloc_message :: "Message \<Rightarrow> message_heap \<Rightarrow> nat \<times> message_heap" where
  "alloc_message msg S = (length (mh_heap S), S\<lparr>mh_heap := mh_heap S @ [msg]\<rparr>)"

definition update_message :: "nat \<Rightarrow> (Message \<Rightarrow> Message) \<Rightarrow> message_heap \<Rightarrow> message_heap" where
  "update_message a f S = S\<lparr>mh_heap := (mh_heap S)[a := f (mh_heap S ! a)]\<rparr>"

text \<open>\<open>pool.Get\<close>: an item of the pool, or a new message.\<close>

definition take_item :: "nat option \<Rightarrow> message_heap \<Rightarrow> nat \<times> message_heap" where
  "take_item pick S = (case pick of
       Some i \<Rightarrow> if i < length (mh_pool S) then (mh_pool S ! i, S\<lparr>mh_pool := take i (mh_pool S) @ drop (Suc i) (mh_pool S)\<rparr>)
                 else alloc_message zero_message S
     | None \<Rightarrow> alloc_message zero_message S)"

definition reset_message :: "string \<Rightarrow> int \<Rightarrow> Message \<Rightarrow> Message" where
  "reset_message mid now msg = msg\<lparr>mg_ID := mid, mg_Type := MessageTypeData, mg_Priority := PriorityNormal, mg_Payload := [],
     mg_Timestamp := now, mg_TTL := 0, mg_Source := [], mg_Target := [], mg_Group := [], mg_Scope := [],
     mg_pooled := True, mg_refCount := 1\<rparr>"

definition GetMessage :: "string \<Rightarrow> int \<Rightarrow> nat option \<Rightarrow> message_heap \<Rightarrow> nat \<times> message_heap" where
  "GetMessage mid now pick S =
     (let (a, S) = take_item pick (S\<lparr>mh_gets := mh_gets S + 1\<rparr>) in (a, update_message a (reset_message mid now) S))"

text \<open>\<open>Put\<close> drops a large array and keeps a small one for later appends; the payload is empty in both cases.\<close>

definition clear_message :: "Message \<Rightarrow> Message" where
  "clear_message msg = msg\<lparr>mg_Payload := [], mg_refCount := 0\<rparr>"

definition PutMessage :: "nat option \<Rightarrow> message_heap \<Rightarrow> message_heap" where
  "PutMessage p S = (case p of None \<Rightarrow> S | Some a \<Rightarrow>
     if \<not> mg_pooled (mh_heap S ! a) then S
     else (update_message a clear_message S)\<lparr>mh_puts := mh_puts S + 1, mh_pool := a # mh_pool S\<rparr>)"

definition pool_Stats :: "message_heap \<Rightarrow> uint64 \<times> uint64" where
  "pool_Stats S = (mh_gets S, mh_puts S)"

definition Retain :: "nat \<Rightarrow> message_heap \<Rightarrow> message_heap" where
  "Retain a S = update_message a (\<lambda>msg. msg\<lparr>mg_refCount := mg_refCount msg + 1\<rparr>) S"

definition Release :: "nat \<Rightarrow> message_heap \<Rightarrow> message_heap" where
  "Release a S =
     (let S = update_message a (\<lambda>msg. msg\<lparr>mg_refCount := mg_refCount msg - 1\<rparr>) S
      in if mg_refCount (mh_heap S ! a) = 0 \<and> mg_pooled (mh_heap S ! a) then PutMessage (Some a) S else S)"

section \<open>The builder\<close>

text \<open>
  A builder points to the message it builds, and to nothing after \<open>Build\<close>; a later call dereferences nil.
  \<open>WithJSON\<close> and \<open>WithSerializable\<close> leave the message when the encoding fails.
\<close>

datatype build_call = WithType "8 word" | WithPriority "8 word" | WithPayload bytes | WithString string
  | WithJSON "go_err + bytes" | WithSerializable "go_err + bytes" | WithTTL int | WithSource string | WithTarget string
  | WithGroup string | WithScope string

definition set_payload :: "bytes \<Rightarrow> Message \<Rightarrow> Message" where
  "set_payload bs msg = msg\<lparr>mg_Payload := bs\<rparr>"

primrec build_with :: "build_call \<Rightarrow> Message \<Rightarrow> Message" where
  "build_with (WithType t) msg = msg\<lparr>mg_Type := t\<rparr>"
| "build_with (WithPriority p) msg = msg\<lparr>mg_Priority := p\<rparr>"
| "build_with (WithPayload bs) msg = set_payload bs msg"
| "build_with (WithString s) msg = set_payload (string_bytes s) msg"
| "build_with (WithJSON encoded) msg = (case encoded of Inl e \<Rightarrow> msg | Inr bs \<Rightarrow> set_payload bs msg)"
| "build_with (WithSerializable encoded) msg = (case encoded of Inl e \<Rightarrow> msg | Inr bs \<Rightarrow> set_payload bs msg)"
| "build_with (WithTTL ttl) msg = msg\<lparr>mg_TTL := ttl\<rparr>"
| "build_with (WithSource c) msg = msg\<lparr>mg_Source := c\<rparr>"
| "build_with (WithTarget c) msg = msg\<lparr>mg_Target := c\<rparr>"
| "build_with (WithGroup g) msg = msg\<lparr>mg_Group := g\<rparr>"
| "build_with (WithScope s) msg = msg\<lparr>mg_Scope := s\<rparr>"

primrec failed :: "go_err + bytes \<Rightarrow> bool" where
  "failed (Inl e) \<longleftrightarrow> True"
| "failed (Inr bs) \<longleftrightarrow> False"

definition encoding_fails :: "build_call \<Rightarrow> bool" where
  "encoding_fails call = (case call of WithJSON encoded \<Rightarrow> failed encoded | WithSerializable encoded \<Rightarrow> failed encoded | _ \<Rightarrow> False)"

type_synonym MessageBuilder = "nat option"

definition NewMessageBuilder :: "string \<Rightarrow> int \<Rightarrow> nat option \<Rightarrow> message_heap \<Rightarrow> MessageBuilder \<times> message_heap" where
  "NewMessageBuilder mid now pick S = (let (a, S) = GetMessage mid now pick S in (Some a, S))"

definition builder_With :: "build_call \<Rightarrow> MessageBuilder \<Rightarrow> message_heap \<Rightarrow> (MessageBuilder \<times> message_heap) outcome" where
  "builder_With call b S =
     (if encoding_fails call then Ret (b, S)
      else case b of None \<Rightarrow> Panic NilDereference | Some a \<Rightarrow> Ret (b, update_message a (build_with call) S))"

definition builder_Build :: "MessageBuilder \<Rightarrow> nat option \<times> MessageBuilder" where
  "builder_Build b = (b, None)"

section \<open>Laws\<close>

lemma char_of_unat_of_char [simp]: "char_of (unat (of_char c :: 8 word)) = c"
proof -
  have "unat (of_nat (of_char c) :: 8 word) = of_char c mod 2 ^ 8" by (simp only: unat_of_nat) simp
  then show ?thesis by (simp add: of_nat_of_char)
qed

lemma bytes_string_string_bytes [simp]: "bytes_string (string_bytes s) = s"
  by (simp add: bytes_string_def string_bytes_def o_def)

lemma length_string_bytes [simp]: "length (string_bytes s) = length s"
  by (simp add: string_bytes_def)

lemma CombineFilters_list_all: "CombineFilters fs msg \<longleftrightarrow> list_all (\<lambda>f. f msg) fs"
  by (induction fs) simp_all

lemma AnyFilter_list_ex: "AnyFilter fs msg \<longleftrightarrow> list_ex (\<lambda>f. f msg) fs"
  by (induction fs) simp_all

text \<open>The two combinators are dual.\<close>

lemma filters_de_Morgan: "\<not> CombineFilters fs msg \<longleftrightarrow> AnyFilter (map (\<lambda>f m. \<not> f m) fs) msg"
  by (induction fs) simp_all

section \<open>Owners of messages\<close>

text \<open>
  Users of messages that keep to the discipline of reference counts: whoever got or retained a message holds
  a reference, releases it once, and touches only messages it holds. The garbage collector may
  drop items of the pool. \<open>held a\<close> is the number of references to address \<open>a\<close>, fewer than \<open>2 ^ 32\<close>.
\<close>

record message_users =
  mu_msgs :: message_heap
  mu_held :: "nat \<Rightarrow> nat"

definition no_messages :: message_users where
  "no_messages = \<lparr>mu_msgs = \<lparr>mh_heap = [], mh_pool = [], mh_gets = 0, mh_puts = 0\<rparr>, mu_held = (\<lambda>a. 0)\<rparr>"

inductive message_step :: "message_users \<Rightarrow> message_users \<Rightarrow> bool" where
  gets: "GetMessage mid now pick (mu_msgs x) = (a, S) \<Longrightarrow>
      message_step x \<lparr>mu_msgs = S, mu_held = (mu_held x)(a := mu_held x a + 1)\<rparr>"
| makes: "alloc_message (NewMessage mid now t payload) (mu_msgs x) = (a, S) \<Longrightarrow>
      message_step x \<lparr>mu_msgs = S, mu_held = (mu_held x)(a := mu_held x a + 1)\<rparr>"
| writes: "0 < mu_held x a \<Longrightarrow> message_step x (x\<lparr>mu_msgs := update_message a (build_with call) (mu_msgs x)\<rparr>)"
| retains: "0 < mu_held x a \<Longrightarrow> mu_held x a + 1 < 2 ^ 32 \<Longrightarrow>
      message_step x \<lparr>mu_msgs = Retain a (mu_msgs x), mu_held = (mu_held x)(a := mu_held x a + 1)\<rparr>"
| releases: "0 < mu_held x a \<Longrightarrow>
      message_step x \<lparr>mu_msgs = Release a (mu_msgs x), mu_held = (mu_held x)(a := mu_held x a - 1)\<rparr>"
| collects: "mh_pool (mu_msgs x) = as @ a # bs \<Longrightarrow>
      message_step x (x\<lparr>mu_msgs := (mu_msgs x)\<lparr>mh_pool := as @ bs\<rparr>\<rparr>)"

definition in_use :: "message_users \<Rightarrow> nat set" where
  "in_use x = {a. a < length (mh_heap (mu_msgs x)) \<and> mg_pooled (mh_heap (mu_msgs x) ! a) \<and> 0 < mu_held x a}"

definition message_inv :: "message_users \<Rightarrow> bool" where
  "message_inv x \<longleftrightarrow> distinct (mh_pool (mu_msgs x)) \<and>
     (\<forall>a\<in>set (mh_pool (mu_msgs x)). a < length (mh_heap (mu_msgs x)) \<and> mu_held x a = 0) \<and>
     (\<forall>a<length (mh_heap (mu_msgs x)). mg_refCount (mh_heap (mu_msgs x) ! a) = of_nat (mu_held x a) \<and> mu_held x a < 2 ^ 32) \<and>
     (\<forall>a. length (mh_heap (mu_msgs x)) \<le> a \<longrightarrow> mu_held x a = 0) \<and>
     mh_gets (mu_msgs x) - mh_puts (mu_msgs x) = of_nat (card (in_use x))"

lemma message_inv_start: "message_inv no_messages"
  by (simp add: message_inv_def no_messages_def in_use_def)

lemma finite_in_use [simp]: "finite (in_use x)"
  by (simp add: in_use_def)

lemma update_message_sel [simp]:
  "length (mh_heap (update_message a f S)) = length (mh_heap S)" "mh_pool (update_message a f S) = mh_pool S"
  "mh_gets (update_message a f S) = mh_gets S" "mh_puts (update_message a f S) = mh_puts S"
  "a < length (mh_heap S) \<Longrightarrow> mh_heap (update_message a f S) ! b = (if b = a then f (mh_heap S ! a) else mh_heap S ! b)"
  by (auto simp: update_message_def)

lemma build_with_keeps [simp]:
  "mg_pooled (build_with call msg) = mg_pooled msg" "mg_refCount (build_with call msg) = mg_refCount msg"
  by (cases call; simp add: set_payload_def split: sum.split)+

text \<open>\<open>GetMessage\<close> makes a new message or takes one out of the pool.\<close>

lemma GetMessage_cases:
  assumes "GetMessage mid now pick S = (a, S')"
  obtains (new) "a = length (mh_heap S)" "mh_heap S' = mh_heap S @ [reset_message mid now zero_message]" "mh_pool S' = mh_pool S"
      "mh_gets S' = mh_gets S + 1" "mh_puts S' = mh_puts S"
  | (old) as bs where "mh_pool S = as @ a # bs" "mh_pool S' = as @ bs" "mh_heap S' = (mh_heap S)[a := reset_message mid now (mh_heap S ! a)]"
      "mh_gets S' = mh_gets S + 1" "mh_puts S' = mh_puts S"
proof -
  define S1 where "S1 = S\<lparr>mh_gets := mh_gets S + 1\<rparr>"
  obtain S2 where S2: "take_item pick S1 = (a, S2)" "S' = update_message a (reset_message mid now) S2"
    using assms by (auto simp: GetMessage_def S1_def Let_def split: prod.splits)
  show thesis
  proof (cases "\<exists>i. pick = Some i \<and> i < length (mh_pool S)")
    case True
    then obtain i where "pick = Some i" "i < length (mh_pool S)" by blast
    with S2 show thesis
      by (intro old [of "take i (mh_pool S)" "drop (Suc i) (mh_pool S)"])
        (auto simp: take_item_def S1_def update_message_def id_take_nth_drop)
  next
    case False
    with S2 have "alloc_message zero_message S1 = (a, S2)" by (auto simp: take_item_def S1_def split: option.splits if_splits)
    with S2(2) show thesis by (intro new) (auto simp: alloc_message_def update_message_def S1_def)
  qed
qed

lemma Release_unfold:
  assumes "a < length (mh_heap S)"
  shows "Release a S =
    (let msg = (mh_heap S ! a)\<lparr>mg_refCount := mg_refCount (mh_heap S ! a) - 1\<rparr>
     in if mg_refCount msg = 0 \<and> mg_pooled msg
        then S\<lparr>mh_heap := (mh_heap S)[a := clear_message msg], mh_puts := mh_puts S + 1, mh_pool := a # mh_pool S\<rparr>
        else S\<lparr>mh_heap := (mh_heap S)[a := msg]\<rparr>)"
  using assms by (simp add: Release_def PutMessage_def update_message_def Let_def)

text \<open>What the steps do to the messages in use.\<close>

lemma in_use_insert:
  assumes "a \<notin> in_use x" "a < length (mh_heap (mu_msgs y))" "mg_pooled (mh_heap (mu_msgs y) ! a)" "0 < mu_held y a"
    and "\<And>b. b \<noteq> a \<Longrightarrow> b \<in> in_use y \<longleftrightarrow> b \<in> in_use x"
  shows "card (in_use y) = card (in_use x) + 1"
proof -
  have "a \<in> in_use y" using assms(2-4) by (simp add: in_use_def)
  with assms(5) have "in_use y = insert a (in_use x)" by (metis insert_iff subsetI subset_antisym)
  with assms(1) show ?thesis by simp
qed

lemma in_use_remove:
  assumes "a \<in> in_use x" "a \<notin> in_use y" and "\<And>b. b \<noteq> a \<Longrightarrow> b \<in> in_use y \<longleftrightarrow> b \<in> in_use x"
  shows "card (in_use x) = card (in_use y) + 1"
proof -
  have "in_use x = insert a (in_use y)" using assms by (metis insert_iff subsetI subset_antisym)
  with assms(2) show ?thesis by simp
qed

lemma message_invI:
  assumes "distinct (mh_pool (mu_msgs x))" "\<And>a. a \<in> set (mh_pool (mu_msgs x)) \<Longrightarrow> a < length (mh_heap (mu_msgs x)) \<and> mu_held x a = 0"
    and "\<And>a. a < length (mh_heap (mu_msgs x)) \<Longrightarrow> mg_refCount (mh_heap (mu_msgs x) ! a) = of_nat (mu_held x a) \<and> mu_held x a < 2 ^ 32"
    and "\<And>a. length (mh_heap (mu_msgs x)) \<le> a \<Longrightarrow> mu_held x a = 0"
    and "mh_gets (mu_msgs x) - mh_puts (mu_msgs x) = of_nat (card (in_use x))"
  shows "message_inv x"
  using assms by (simp add: message_inv_def)

lemma message_invD:
  assumes "message_inv x"
  shows "distinct (mh_pool (mu_msgs x))" "a \<in> set (mh_pool (mu_msgs x)) \<Longrightarrow> a < length (mh_heap (mu_msgs x))"
    "a \<in> set (mh_pool (mu_msgs x)) \<Longrightarrow> mu_held x a = 0"
    "a < length (mh_heap (mu_msgs x)) \<Longrightarrow> mg_refCount (mh_heap (mu_msgs x) ! a) = of_nat (mu_held x a)"
    "mu_held x a < 2 ^ 32" "length (mh_heap (mu_msgs x)) \<le> a \<Longrightarrow> mu_held x a = 0"
    "mh_gets (mu_msgs x) = mh_puts (mu_msgs x) + of_nat (card (in_use x))"
proof -
  from assms show "mu_held x a < 2 ^ 32"
    by (cases "a < length (mh_heap (mu_msgs x))") (simp_all add: message_inv_def)
  from assms show "mh_gets (mu_msgs x) = mh_puts (mu_msgs x) + of_nat (card (in_use x))"
    by (simp add: message_inv_def diff_eq_eq add.commute)
qed (use assms in \<open>auto simp: message_inv_def\<close>)

lemma get_inv:
  assumes inv: "message_inv x" and get: "GetMessage mid now pick (mu_msgs x) = (a, S)"
  shows "mu_held x a = 0 \<and> message_inv \<lparr>mu_msgs = S, mu_held = (mu_held x)(a := mu_held x a + 1)\<rparr> \<and>
    mh_heap S ! a = reset_message mid now zero_message \<and> a < length (mh_heap S) \<and>
    (\<forall>b. b \<noteq> a \<longrightarrow> b < length (mh_heap (mu_msgs x)) \<longrightarrow> mh_heap S ! b = mh_heap (mu_msgs x) ! b)"
proof -
  let ?y = "\<lparr>mu_msgs = S, mu_held = (mu_held x)(a := mu_held x a + 1)\<rparr>"
  have reset: "reset_message mid now msg = reset_message mid now zero_message" for msg by (simp add: reset_message_def zero_message_def)
  have fields: "mg_pooled (reset_message mid now msg)" "mg_refCount (reset_message mid now msg) = 1" for msg
    by (simp_all add: reset_message_def)
  from get show ?thesis
  proof (cases rule: GetMessage_cases)
    case new
    have held: "mu_held x a = 0" using inv new(1) by (simp add: message_inv_def)
    have "card (in_use ?y) = card (in_use x) + 1"
      by (rule in_use_insert [of a]) (auto simp: in_use_def new nth_append fields held)
    moreover have "message_inv ?y"
    proof (rule message_invI)
      show "mg_refCount (mh_heap (mu_msgs ?y) ! b) = of_nat (mu_held ?y b) \<and> mu_held ?y b < 2 ^ 32" if "b < length (mh_heap (mu_msgs ?y))" for b
        using that message_invD(4) [OF inv, of b] message_invD(5) [OF inv, of b] held [unfolded new(1)] by (auto simp: new nth_append fields less_Suc_eq)
      show "mh_gets (mu_msgs ?y) - mh_puts (mu_msgs ?y) = of_nat (card (in_use ?y))"
        using calculation message_invD(7) [OF inv] new by simp
    qed (use message_invD(1,2,3,6) [OF inv] new in \<open>force+\<close>)
    ultimately show ?thesis using new held by (simp add: nth_append)
  next
    case (old as bs)
    have held: "mu_held x a = 0" "a < length (mh_heap (mu_msgs x))" using inv old(1) by (auto simp: message_inv_def)
    have "card (in_use ?y) = card (in_use x) + 1"
      by (rule in_use_insert [of a]) (auto simp: in_use_def old nth_list_update fields held)
    moreover have "message_inv ?y"
    proof (rule message_invI)
      show "distinct (mh_pool (mu_msgs ?y))" using message_invD(1) [OF inv] old by simp
      show "b < length (mh_heap (mu_msgs ?y)) \<and> mu_held ?y b = 0" if "b \<in> set (mh_pool (mu_msgs ?y))" for b
        using that message_invD(1) [OF inv] message_invD(2,3) [OF inv, of b] old by auto
      show "mg_refCount (mh_heap (mu_msgs ?y) ! b) = of_nat (mu_held ?y b) \<and> mu_held ?y b < 2 ^ 32" if "b < length (mh_heap (mu_msgs ?y))" for b
        using that message_invD(4) [OF inv, of b] message_invD(5) [OF inv, of b] old(3) held by (auto simp: nth_list_update fields)
      show "mu_held ?y b = 0" if "length (mh_heap (mu_msgs ?y)) \<le> b" for b
        using that message_invD(6) [OF inv, of b] held(2) old(3) by auto
      show "mh_gets (mu_msgs ?y) - mh_puts (mu_msgs ?y) = of_nat (card (in_use ?y))"
        using calculation message_invD(7) [OF inv] old by simp
    qed
    ultimately show ?thesis using old(3) held reset [of "mh_heap (mu_msgs x) ! a"] by simp
  qed
qed

lemma make_inv:
  assumes inv: "message_inv x" and make: "alloc_message (NewMessage mid now t payload) (mu_msgs x) = (a, S)"
  shows "message_inv \<lparr>mu_msgs = S, mu_held = (mu_held x)(a := mu_held x a + 1)\<rparr>"
proof -
  let ?y = "\<lparr>mu_msgs = S, mu_held = (mu_held x)(a := mu_held x a + 1)\<rparr>"
  have S: "a = length (mh_heap (mu_msgs x))" "S = (mu_msgs x)\<lparr>mh_heap := mh_heap (mu_msgs x) @ [NewMessage mid now t payload]\<rparr>"
    using make by (auto simp: alloc_message_def)
  have held: "mu_held x a = 0" using inv S(1) by (simp add: message_inv_def)
  have "in_use ?y = in_use x" using S held by (auto simp: in_use_def nth_append NewMessage_def zero_message_def less_Suc_eq)
  show ?thesis
  proof (rule message_invI)
    show "mg_refCount (mh_heap (mu_msgs ?y) ! b) = of_nat (mu_held ?y b) \<and> mu_held ?y b < 2 ^ 32" if "b < length (mh_heap (mu_msgs ?y))" for b
      using that message_invD(4) [OF inv, of b] message_invD(5) [OF inv, of b] S held [unfolded S(1)] by (auto simp: nth_append NewMessage_def less_Suc_eq)
    show "mh_gets (mu_msgs ?y) - mh_puts (mu_msgs ?y) = of_nat (card (in_use ?y))"
      using message_invD(7) [OF inv] S \<open>in_use ?y = in_use x\<close> by simp
  qed (use message_invD(1,2,3,6) [OF inv] S in \<open>force+\<close>)
qed

lemma write_inv:
  assumes inv: "message_inv x" and held: "0 < mu_held x a"
  shows "message_inv (x\<lparr>mu_msgs := update_message a (build_with call) (mu_msgs x)\<rparr>)"
proof -
  have a: "a < length (mh_heap (mu_msgs x))" using inv held by (metis message_inv_def not_less less_irrefl)
  then have "in_use (x\<lparr>mu_msgs := update_message a (build_with call) (mu_msgs x)\<rparr>) = in_use x" by (auto simp: in_use_def)
  with inv a show ?thesis by (auto simp: message_inv_def)
qed

lemma retain_inv:
  assumes inv: "message_inv x" and held: "0 < mu_held x a" "mu_held x a + 1 < 2 ^ 32"
  shows "message_inv \<lparr>mu_msgs = Retain a (mu_msgs x), mu_held = (mu_held x)(a := mu_held x a + 1)\<rparr>"
proof -
  have a: "a < length (mh_heap (mu_msgs x))" using inv held by (metis message_inv_def not_less less_irrefl)
  then have "in_use \<lparr>mu_msgs = Retain a (mu_msgs x), mu_held = (mu_held x)(a := mu_held x a + 1)\<rparr> = in_use x"
    using held by (auto simp: in_use_def Retain_def)
  moreover have "a \<notin> set (mh_pool (mu_msgs x))" using inv held by (auto simp: message_inv_def)
  ultimately show ?thesis using inv a held by (auto simp: message_inv_def Retain_def)
qed

lemma release_inv:
  assumes inv: "message_inv x" and held: "0 < mu_held x a"
  shows "message_inv \<lparr>mu_msgs = Release a (mu_msgs x), mu_held = (mu_held x)(a := mu_held x a - 1)\<rparr>"
proof -
  let ?y = "\<lparr>mu_msgs = Release a (mu_msgs x), mu_held = (mu_held x)(a := mu_held x a - 1)\<rparr>"
  have a: "a < length (mh_heap (mu_msgs x))" using inv held by (metis message_inv_def not_less less_irrefl)
  have count: "mg_refCount (mh_heap (mu_msgs x) ! a) - 1 = of_nat (mu_held x a - 1)" "mu_held x a < 2 ^ 32"
    using inv a held by (auto simp: message_inv_def of_nat_diff)
  have "unat (of_nat (mu_held x a - 1) :: int32) = mu_held x a - 1"
    using count(2) by (simp add: unat_of_nat take_bit_nat_eq_self)
  then have zero: "(of_nat (mu_held x a - 1) :: int32) = 0 \<longleftrightarrow> mu_held x a = 1"
    using held unat_eq_zero [of "of_nat (mu_held x a - 1) :: int32"] by auto
  have pool: "a \<notin> set (mh_pool (mu_msgs x))" using inv held by (auto simp: message_inv_def)
  note unfolded = Release_unfold [OF a] count(1)
  show ?thesis
  proof (cases "mu_held x a = 1 \<and> mg_pooled (mh_heap (mu_msgs x) ! a)")
    case True
    have rel: "Release a (mu_msgs x) = (mu_msgs x)\<lparr>mh_heap := (mh_heap (mu_msgs x))[a := clear_message (mh_heap (mu_msgs x) ! a)],
        mh_puts := mh_puts (mu_msgs x) + 1, mh_pool := a # mh_pool (mu_msgs x)\<rparr>"
      using True by (simp add: Release_unfold [OF a] count(1) clear_message_def Let_def)
    have "card (in_use x) = card (in_use ?y) + 1"
      by (rule in_use_remove [of a]) (use True a in \<open>auto simp: in_use_def rel nth_list_update\<close>)
    show ?thesis
    proof (rule message_invI)
      show "distinct (mh_pool (mu_msgs ?y))" using message_invD(1) [OF inv] pool rel by simp
      show "b < length (mh_heap (mu_msgs ?y)) \<and> mu_held ?y b = 0" if "b \<in> set (mh_pool (mu_msgs ?y))" for b
        using that message_invD(2,3) [OF inv, of b] True a rel by auto
      show "mg_refCount (mh_heap (mu_msgs ?y) ! b) = of_nat (mu_held ?y b) \<and> mu_held ?y b < 2 ^ 32" if "b < length (mh_heap (mu_msgs ?y))" for b
        using that message_invD(4) [OF inv, of b] message_invD(5) [OF inv, of b] True rel by (auto simp: nth_list_update clear_message_def)
      show "mu_held ?y b = 0" if "length (mh_heap (mu_msgs ?y)) \<le> b" for b
        using that message_invD(6) [OF inv, of b] rel by auto
      show "mh_gets (mu_msgs ?y) - mh_puts (mu_msgs ?y) = of_nat (card (in_use ?y))"
        using \<open>card (in_use x) = card (in_use ?y) + 1\<close> message_invD(7) [OF inv] rel by simp
    qed
  next
    case False
    have rel: "Release a (mu_msgs x) = (mu_msgs x)\<lparr>mh_heap := (mh_heap (mu_msgs x))[a := (mh_heap (mu_msgs x) ! a)\<lparr>mg_refCount := of_nat (mu_held x a - 1)\<rparr>]\<rparr>"
      using False zero by (auto simp: Release_unfold [OF a] count(1) Let_def)
    have "in_use ?y = in_use x"
      using False held a by (auto simp: in_use_def rel nth_list_update)
    show ?thesis
    proof (rule message_invI)
      show "mg_refCount (mh_heap (mu_msgs ?y) ! b) = of_nat (mu_held ?y b) \<and> mu_held ?y b < 2 ^ 32" if "b < length (mh_heap (mu_msgs ?y))" for b
        using that message_invD(4) [OF inv, of b] message_invD(5) [OF inv, of b] rel by (auto simp: nth_list_update)
      show "b < length (mh_heap (mu_msgs ?y)) \<and> mu_held ?y b = 0" if "b \<in> set (mh_pool (mu_msgs ?y))" for b
        using that message_invD(2,3) [OF inv, of b] rel by auto
      show "mu_held ?y b = 0" if "length (mh_heap (mu_msgs ?y)) \<le> b" for b
        using that message_invD(6) [OF inv, of b] rel by auto
    qed (use \<open>in_use ?y = in_use x\<close> message_invD(1,7) [OF inv] rel in simp_all)
  qed
qed

lemma collect_inv:
  assumes "message_inv x" and "mh_pool (mu_msgs x) = as @ a # bs"
  shows "message_inv (x\<lparr>mu_msgs := (mu_msgs x)\<lparr>mh_pool := as @ bs\<rparr>\<rparr>)"
  using assms by (auto simp: message_inv_def in_use_def)

lemma message_step_inv: "message_step x y \<Longrightarrow> message_inv x \<Longrightarrow> message_inv y"
  by (induction rule: message_step.induct)
    (blast intro: make_inv write_inv retain_inv release_inv collect_inv dest: get_inv)+

text \<open>
  C11. The pool under the discipline of reference counts. Whoever calls \<open>GetMessage\<close> gets a message nobody
  else holds, with every field reset so that nothing of an earlier use shows, and no other message changes; the
  gets minus the puts are the pooled messages in use at any time.
\<close>

theorem message_pool_exclusive:
  assumes "message_step\<^sup>*\<^sup>* no_messages x" and "GetMessage mid now pick (mu_msgs x) = (a, S)"
  shows "mu_held x a = 0 \<and> mh_heap S ! a = reset_message mid now zero_message \<and>
    (\<forall>b. b \<noteq> a \<longrightarrow> b < length (mh_heap (mu_msgs x)) \<longrightarrow> mh_heap S ! b = mh_heap (mu_msgs x) ! b) \<and>
    fst (pool_Stats (mu_msgs x)) - snd (pool_Stats (mu_msgs x)) = of_nat (card (in_use x))"
proof -
  from assms(1) have inv: "message_inv x"
    by (induction rule: rtranclp_induct) (blast intro: message_inv_start message_step_inv)+
  from get_inv [OF inv assms(2)] inv show ?thesis by (auto simp: message_inv_def pool_Stats_def)
qed

theorem message_pool_exclusive_witness:
  "\<exists>x S. message_step\<^sup>*\<^sup>* no_messages x \<and> mh_pool (mu_msgs x) = [0] \<and> GetMessage ''m2'' 9 (Some 0) (mu_msgs x) = (0, S) \<and>
     mh_heap S ! 0 = reset_message ''m2'' 9 zero_message"
proof -
  define x1 where "x1 = \<lparr>mu_msgs = snd (GetMessage ''m1'' 5 None (mu_msgs no_messages)), mu_held = (mu_held no_messages)(0 := mu_held no_messages 0 + 1)\<rparr>"
  define x2 where "x2 = x1\<lparr>mu_msgs := update_message 0 (build_with (WithString ''secret'')) (mu_msgs x1)\<rparr>"
  define x3 where "x3 = \<lparr>mu_msgs = Retain 0 (mu_msgs x2), mu_held = (mu_held x2)(0 := mu_held x2 0 + 1)\<rparr>"
  define x4 where "x4 = \<lparr>mu_msgs = Release 0 (mu_msgs x3), mu_held = (mu_held x3)(0 := mu_held x3 0 - 1)\<rparr>"
  define x5 where "x5 = \<lparr>mu_msgs = Release 0 (mu_msgs x4), mu_held = (mu_held x4)(0 := mu_held x4 0 - 1)\<rparr>"
  note defs = x1_def x2_def x3_def x4_def x5_def no_messages_def
  have get: "GetMessage ''m1'' 5 None (mu_msgs no_messages) = (0, snd (GetMessage ''m1'' 5 None (mu_msgs no_messages)))"
    by (simp add: GetMessage_def take_item_def alloc_message_def no_messages_def)
  have "message_step no_messages x1" unfolding x1_def by (rule message_step.gets [OF get])
  moreover have "message_step x1 x2" unfolding x2_def by (rule message_step.writes) (simp add: x1_def)
  moreover have "message_step x2 x3" unfolding x3_def by (rule message_step.retains) (simp_all add: x1_def x2_def no_messages_def)
  moreover have "message_step x3 x4" unfolding x4_def by (rule message_step.releases) (simp add: x3_def)
  moreover have "message_step x4 x5" unfolding x5_def by (rule message_step.releases) (simp add: x3_def x4_def x2_def x1_def no_messages_def)
  ultimately have reach: "message_step\<^sup>*\<^sup>* no_messages x5" by (meson rtranclp.rtrancl_into_rtrancl rtranclp.rtrancl_refl)
  have pool: "mh_pool (mu_msgs x5) = [0]"
    by (simp add: defs GetMessage_def take_item_def alloc_message_def update_message_def reset_message_def zero_message_def Retain_def
        Release_def PutMessage_def set_payload_def Let_def)
  then have "fst (GetMessage ''m2'' 9 (Some 0) (mu_msgs x5)) = 0" by (simp add: GetMessage_def take_item_def)
  then obtain S where S: "GetMessage ''m2'' 9 (Some 0) (mu_msgs x5) = (0, S)" by (metis prod.collapse)
  from message_pool_exclusive [OF reach S] reach pool S show ?thesis by blast
qed

end
