(* ===== verification/Quic_Stream.thy ===== *)
theory Quic_Stream
  imports Protocol_Message Protocol_Errors
begin

text \<open>
  Messages on QUIC streams: \<open>BaseStream\<close> of \<open>internal/core/protocol/stream.go\<close> and \<open>Stream\<close> of
  \<open>internal/core/protocol/quic/stream.go\<close> with the binary frame of a message. The QUIC stream itself is the code of a
  library: what it accepts of a write is an argument, and what it delivers are the bytes the peer wrote, in order, and
  then the end of the stream if the peer has closed its side.
\<close>

unbundle bit_operations_syntax

section \<open>Big-endian numbers\<close>

definition PutUint :: "nat \<Rightarrow> 'a::len word \<Rightarrow> bytes" where
  "PutUint n w = map (\<lambda>i. ucast (drop_bit (8 * i) w)) (rev [0..<n])"

definition Uint :: "bytes \<Rightarrow> 'a::len word" where
  "Uint bs = foldl (\<lambda>w b. push_bit 8 w OR ucast b) 0 bs"

lemma PutUint_Suc: "PutUint (Suc n) w = PutUint n (drop_bit 8 w) @ [ucast w]"
proof -
  have "rev [0..<Suc n] = map Suc (rev [0..<n]) @ [0]"
    by (metis map_Suc_upt rev.simps(2) rev_map upt_conv_Cons zero_less_Suc)
  then show ?thesis by (simp add: PutUint_def o_def add.commute)
qed

lemma Uint_append: "Uint (bs @ [b]) = push_bit 8 (Uint bs) OR ucast b"
  by (simp add: Uint_def)

lemma length_PutUint [simp]: "length (PutUint n w) = n"
  by (simp add: PutUint_def)

lemma Uint_PutUint: "Uint (PutUint n (w :: 'a::len word)) = take_bit (8 * n) w"
proof (induction n arbitrary: w)
  case (Suc n)
  have "Uint (PutUint (Suc n) w) = push_bit 8 (take_bit (8 * n) (drop_bit 8 w)) OR ucast (ucast w :: 8 word)"
    by (simp only: PutUint_Suc Uint_append Suc.IH)
  also have "\<dots> = take_bit (8 * Suc n) w"
    by (rule bit_word_eqI) (auto simp: bit_simps)
  finally show ?case .
qed (simp add: PutUint_def Uint_def)

lemma Uint_PutUint_64 [simp]: "Uint (PutUint 8 (w :: 64 word)) = w"
  by (simp add: Uint_PutUint take_bit_word_eq_self)

lemma Uint_PutUint_32 [simp]: "Uint (PutUint 4 (w :: 32 word)) = w"
  by (simp add: Uint_PutUint take_bit_word_eq_self)

section \<open>Frames\<close>

text \<open>An identifier takes 36 bytes: \<open>copy\<close> into zeroed bytes cuts it off or leaves zeros behind it.\<close>

definition id_field :: "string \<Rightarrow> bytes" where
  "id_field s = take 36 (string_bytes s @ replicate 36 0)"

primrec findNullTerminator :: "bytes \<Rightarrow> nat" where
  "findNullTerminator [] = 0"
| "findNullTerminator (b # bs) = (if b = 0 then 0 else Suc (findNullTerminator bs))"

definition id_of_field :: "bytes \<Rightarrow> string" where
  "id_of_field bs = bytes_string (take (findNullTerminator bs) bs)"

definition createMessageFrame :: "Message \<Rightarrow> bytes" where
  "createMessageFrame msg =
     id_field (mg_ID msg) @ [mg_Type msg] @ [mg_Priority msg] @ PutUint 8 (of_int (mg_Timestamp msg) :: uint64) @
     PutUint 8 (of_int (mg_TTL msg) :: uint64) @ id_field (mg_Source msg) @ id_field (mg_Target msg) @
     id_field (mg_Group msg) @ id_field (mg_Scope msg) @ PutUint 4 (of_nat (length (mg_Payload msg)) :: uint32) @ mg_Payload msg"

text \<open>\<open>frame[offset:offset+n]\<close>\<close>

definition bytes_at :: "nat \<Rightarrow> nat \<Rightarrow> bytes \<Rightarrow> bytes" where
  "bytes_at offset n frame = take n (drop offset frame)"

definition parsed_fields :: "bytes \<Rightarrow> Message \<Rightarrow> Message" where
  "parsed_fields frame msg = msg\<lparr>mg_ID := id_of_field (bytes_at 0 36 frame), mg_Type := frame ! 36, mg_Priority := frame ! 37,
     mg_Timestamp := sint (Uint (bytes_at 38 8 frame) :: int64), mg_TTL := sint (Uint (bytes_at 46 8 frame) :: int64),
     mg_Source := id_of_field (bytes_at 54 36 frame), mg_Target := id_of_field (bytes_at 90 36 frame),
     mg_Group := id_of_field (bytes_at 126 36 frame), mg_Scope := id_of_field (bytes_at 162 36 frame),
     mg_Payload := drop 202 frame\<rparr>"

definition ErrInvalidMessage :: perr where
  "ErrInvalidMessage = Plain ''invalid message''"

definition parseMessageFrame :: "string \<Rightarrow> int \<Rightarrow> nat option \<Rightarrow> bytes \<Rightarrow> message_heap \<Rightarrow> (perr + nat) \<times> message_heap" where
  "parseMessageFrame mid now pick frame S =
     (if length frame < 234 then (Inl ErrInvalidMessage, S)
      else if 202 + unat (Uint (bytes_at 198 4 frame) :: uint32) \<noteq> length frame then (Inl ErrInvalidMessage, S)
      else let (a, S) = GetMessage mid now pick S in (Inr a, update_message a (parsed_fields frame) S))"

subsection \<open>Fields of a fixed width\<close>

locale fixed_field =
  fixes width :: nat and enc :: "'a \<Rightarrow> bytes" and dec :: "bytes \<Rightarrow> 'a" and fits :: "'a \<Rightarrow> bool"
  assumes width: "length (enc x) = width"
    and decode: "fits x \<Longrightarrow> dec (enc x) = x"
begin

lemma field_at: "length pre = offset \<Longrightarrow> bytes_at offset width (pre @ enc x @ post) = enc x"
  by (simp add: bytes_at_def width)

lemma decode_at: "fits x \<Longrightarrow> length pre = offset \<Longrightarrow> dec (bytes_at offset width (pre @ enc x @ post)) = x"
  by (simp add: field_at decode)

end

definition id_fits :: "string \<Rightarrow> bool" where
  "id_fits s \<longleftrightarrow> length s \<le> 36 \<and> CHR 0x00 \<notin> set s"

lemma of_char_eq_0: "(of_char c :: 8 word) = 0 \<longleftrightarrow> c = CHR 0x00"
proof
  assume "(of_char c :: 8 word) = 0"
  then have "char_of (unat (0 :: 8 word)) = c" by (metis char_of_unat_of_char)
  then show "c = CHR 0x00" by (simp add: char_of_def)
qed simp

lemma findNullTerminator_string: "CHR 0x00 \<notin> set s \<Longrightarrow> findNullTerminator (string_bytes s @ replicate n 0) = length s"
proof (induction s)
  case Nil
  show ?case by (cases n) (simp_all add: string_bytes_def)
next
  case (Cons c s)
  then show ?case by (auto simp: string_bytes_def of_char_eq_0)
qed

lemma id_of_id_field: "id_fits s \<Longrightarrow> id_of_field (id_field s) = s"
  by (simp add: id_fits_def id_of_field_def id_field_def findNullTerminator_string)

interpretation id: fixed_field 36 id_field id_of_field id_fits
  by unfold_locales (simp_all add: id_of_id_field, simp add: id_field_def)

definition time_fits :: "int \<Rightarrow> bool" where
  "time_fits t \<longleftrightarrow> - (2 ^ 63) \<le> t \<and> t < 2 ^ 63"

lemma sint_of_int_64: "time_fits t \<Longrightarrow> sint (of_int t :: int64) = t"
  by (simp add: time_fits_def sint_sbintrunc' signed_take_bit_int_eq_self)

interpretation time: fixed_field 8 "\<lambda>t. PutUint 8 (of_int t :: uint64)" "\<lambda>bs. sint (Uint bs :: int64)" time_fits
  by unfold_locales (simp_all add: sint_of_int_64)

interpretation count: fixed_field 4 "\<lambda>n. PutUint 4 (of_nat n :: uint32)" "\<lambda>bs. unat (Uint bs :: uint32)" "\<lambda>n. n < 2 ^ 32"
  by unfold_locales (simp_all add: unat_of_nat take_bit_nat_eq_self)

subsection \<open>Round trip\<close>

definition frame_fits :: "Message \<Rightarrow> bool" where
  "frame_fits msg \<longleftrightarrow> id_fits (mg_ID msg) \<and> id_fits (mg_Source msg) \<and> id_fits (mg_Target msg) \<and> id_fits (mg_Group msg) \<and>
     id_fits (mg_Scope msg) \<and> time_fits (mg_Timestamp msg) \<and> time_fits (mg_TTL msg) \<and> length (mg_Payload msg) < 2 ^ 32"

lemma length_id_field [simp]: "length (id_field s) = 36"
  by (simp add: id_field_def)

lemma length_createMessageFrame [simp]: "length (createMessageFrame msg) = 202 + length (mg_Payload msg)"
  by (simp add: createMessageFrame_def)

lemma frame_bytes:
  "bytes_at 0 36 (createMessageFrame msg) = id_field (mg_ID msg)"
  "createMessageFrame msg ! 36 = mg_Type msg" "createMessageFrame msg ! 37 = mg_Priority msg"
  "bytes_at 38 8 (createMessageFrame msg) = PutUint 8 (of_int (mg_Timestamp msg) :: uint64)"
  "bytes_at 46 8 (createMessageFrame msg) = PutUint 8 (of_int (mg_TTL msg) :: uint64)"
  "bytes_at 54 36 (createMessageFrame msg) = id_field (mg_Source msg)"
  "bytes_at 90 36 (createMessageFrame msg) = id_field (mg_Target msg)"
  "bytes_at 126 36 (createMessageFrame msg) = id_field (mg_Group msg)"
  "bytes_at 162 36 (createMessageFrame msg) = id_field (mg_Scope msg)"
  "bytes_at 198 4 (createMessageFrame msg) = PutUint 4 (of_nat (length (mg_Payload msg)) :: uint32)"
  "drop 202 (createMessageFrame msg) = mg_Payload msg"
  by (simp_all add: bytes_at_def createMessageFrame_def nth_append)

definition carried :: "Message \<Rightarrow> Message \<Rightarrow> Message" where
  "carried m old = m\<lparr>mg_pooled := mg_pooled old, mg_refCount := mg_refCount old\<rparr>"

lemma parsed_fields_frame: "frame_fits m \<Longrightarrow> parsed_fields (createMessageFrame m) old = carried m old"
  unfolding parsed_fields_def frame_bytes frame_fits_def carried_def
  by (simp add: id_of_id_field sint_of_int_64)

lemma frame_roundtrip_rule:
  assumes "frame_fits m"
  shows "parseMessageFrame mid now pick (createMessageFrame m) S =
    (if length (mg_Payload m) < 32 then (Inl ErrInvalidMessage, S)
     else let (a, S') = GetMessage mid now pick S in (Inr a, update_message a (carried m) S'))"
proof -
  have "length (mg_Payload m) < 2 ^ 32" using assms by (simp add: frame_fits_def)
  then have "202 + unat (Uint (bytes_at 198 4 (createMessageFrame m)) :: uint32) = length (createMessageFrame m)"
    unfolding frame_bytes by (subst count.decode) simp_all
  moreover have "parsed_fields (createMessageFrame m) = carried m" using parsed_fields_frame [OF assms] by blast
  ultimately show ?thesis by (auto simp: parseMessageFrame_def)
qed

text \<open>
  C14. A message through its frame. \<open>parseMessageFrame\<close> of the frame \<open>createMessageFrame\<close> makes returns a message with
  the same fields, in a message of the pool, if identifiers have at most 36 characters and no null, and the payload has at
  least 32 bytes. With a shorter payload every frame is rejected as invalid: the header has 202
  bytes, the parser asks for the 234 of the comment.
\<close>

theorem frame_roundtrip:
  assumes "frame_fits m"
  shows "parseMessageFrame mid now pick (createMessageFrame m) S =
    (if length (mg_Payload m) < 32 then (Inl ErrInvalidMessage, S)
     else let (a, S') = GetMessage mid now pick S in (Inr a, update_message a (carried m) S'))"
  by (rule frame_roundtrip_rule [OF assms])

definition sample_message :: "nat \<Rightarrow> Message" where
  "sample_message n = NewMessage ''4f9c'' (-7) MessageTypeControl (replicate n 65)\<lparr>mg_TTL := 12, mg_Group := ''lobby''\<rparr>"

lemma sample_message_fits: "n < 2 ^ 32 \<Longrightarrow> frame_fits (sample_message n)"
  by (simp add: frame_fits_def sample_message_def NewMessage_def zero_message_def id_fits_def time_fits_def)

theorem frame_roundtrip_witness:
  "fst (parseMessageFrame ''x'' 0 None (createMessageFrame (sample_message 31)) (mu_msgs no_messages)) = Inl ErrInvalidMessage \<and>
   fst (parseMessageFrame ''x'' 0 None (createMessageFrame (sample_message 32)) (mu_msgs no_messages)) = Inr 0"
proof -
  have "length (mg_Payload (sample_message n)) = n" for n by (simp add: sample_message_def NewMessage_def)
  then show ?thesis
    using frame_roundtrip [OF sample_message_fits, of 31 "''x''" 0 None "mu_msgs no_messages"]
      frame_roundtrip [OF sample_message_fits, of 32 "''x''" 0 None "mu_msgs no_messages"]
    by (simp add: GetMessage_def take_item_def alloc_message_def no_messages_def split_beta Let_def)
qed

section \<open>Streams\<close>

record StreamConfig =
  scf_Type :: int
  scf_BufferSize :: int
  scf_WriteTimeout :: int
  scf_ReadTimeout :: int
  scf_MaxMessageSize :: int
  scf_EnableFraming :: bool
  scf_CompressionLevel :: int

definition DefaultStreamConfig :: StreamConfig where
  "DefaultStreamConfig = \<lparr>scf_Type = 0, scf_BufferSize = 64 * 1024, scf_WriteTimeout = 5000000000, scf_ReadTimeout = 5000000000,
     scf_MaxMessageSize = 1024 * 1024, scf_EnableFraming = True, scf_CompressionLevel = 1\<rparr>"

text \<open>
  The states of a stream are numbers in the source; \<open>sm_cancelled\<close> is its context, \<open>sm_done\<close> the channel closed at the end.
\<close>

datatype StreamState = StreamStateOpen | StreamStateHalfClosed | StreamStateClosed | StreamStateError

record BaseStream =
  sm_id :: string
  sm_connectionID :: string
  sm_type :: int
  sm_state :: StreamState
  sm_createdAt :: int
  sm_lastActivity :: int
  sm_bytesSent :: uint64
  sm_bytesReceived :: uint64
  sm_cancelled :: bool
  sm_done :: bool
  sm_config :: StreamConfig

definition NewBaseStream :: "int \<Rightarrow> string \<Rightarrow> string \<Rightarrow> int \<Rightarrow> StreamConfig \<Rightarrow> BaseStream" where
  "NewBaseStream now sid connectionID streamType config =
     \<lparr>sm_id = sid, sm_connectionID = connectionID, sm_type = streamType, sm_state = StreamStateOpen, sm_createdAt = now,
      sm_lastActivity = now, sm_bytesSent = 0, sm_bytesReceived = 0, sm_cancelled = False, sm_done = False, sm_config = config\<rparr>"

definition stream_SetState :: "StreamState \<Rightarrow> 'z BaseStream_scheme \<Rightarrow> 'z BaseStream_scheme" where
  "stream_SetState st s = s\<lparr>sm_state := st\<rparr>"

definition stream_UpdateActivity :: "int \<Rightarrow> 'z BaseStream_scheme \<Rightarrow> 'z BaseStream_scheme" where
  "stream_UpdateActivity now s = s\<lparr>sm_lastActivity := now\<rparr>"

definition stream_AddBytesSent :: "int \<Rightarrow> uint64 \<Rightarrow> 'z BaseStream_scheme \<Rightarrow> 'z BaseStream_scheme" where
  "stream_AddBytesSent now n s = stream_UpdateActivity now (s\<lparr>sm_bytesSent := sm_bytesSent s + n\<rparr>)"

definition stream_AddBytesReceived :: "int \<Rightarrow> uint64 \<Rightarrow> 'z BaseStream_scheme \<Rightarrow> 'z BaseStream_scheme" where
  "stream_AddBytesReceived now n s = stream_UpdateActivity now (s\<lparr>sm_bytesReceived := sm_bytesReceived s + n\<rparr>)"

definition stream_MarkClosed :: "'z BaseStream_scheme \<Rightarrow> 'z BaseStream_scheme" where
  "stream_MarkClosed s = (let s = (stream_SetState StreamStateClosed s)\<lparr>sm_cancelled := True\<rparr>
     in if sm_done s then s else s\<lparr>sm_done := True\<rparr>)"

text \<open>
  The stream over QUIC: \<open>qs_out\<close> are the bytes QUIC has accepted, \<open>qs_fin\<close> tells that this side is closed for writing,
  \<open>qs_in\<close> are the bytes that have arrived and not been read, \<open>qs_end\<close> is the error with which the input
  ends after them, if it has ended: \<open>EOF\<close> when the peer has closed its side.
\<close>

record Stream = BaseStream +
  qs_closed :: bool
  qs_out :: bytes
  qs_fin :: bool
  qs_in :: bytes
  qs_end :: "perr option"

definition NewQUICStream :: "int \<Rightarrow> string \<Rightarrow> string \<Rightarrow> int \<Rightarrow> StreamConfig \<Rightarrow> Stream" where
  "NewQUICStream now sid connectionID streamType config = BaseStream.extend (NewBaseStream now sid connectionID streamType config)
     \<lparr>qs_closed = False, qs_out = [], qs_fin = False, qs_in = [], qs_end = None\<rparr>"

definition ErrStreamClosed :: perr where "ErrStreamClosed = Plain ''stream is closed''"
definition EOF :: perr where "EOF = Plain ''EOF''"
definition ErrUnexpectedEOF :: perr where "ErrUnexpectedEOF = Plain ''unexpected EOF''"
definition ErrMessageTooLarge :: perr where "ErrMessageTooLarge = Plain ''message too large''"

text \<open>\<open>Read\<close> returns what QUIC delivers of the input, at most the length of \<open>p\<close>; the end of the input is an error.\<close>

definition Stream_Read :: "int \<Rightarrow> nat \<times> perr option \<Rightarrow> Stream \<Rightarrow> (bytes \<times> perr option) \<times> Stream" where
  "Stream_Read now delivered s =
     (if qs_closed s then (([], Some ErrStreamClosed), s)
      else let (n, err) = delivered; p = take n (qs_in s); s = s\<lparr>qs_in := drop n (qs_in s)\<rparr>;
               s = (if n > 0 then stream_AddBytesReceived now (of_nat n) (stream_UpdateActivity now s) else s);
               s = (if err = Some EOF then stream_SetState StreamStateHalfClosed s else s)
           in ((p, err), s))"

text \<open>\<open>accept\<close> is the answer of QUIC to a write: how many bytes it has taken, and an error if not all.\<close>

definition Stream_Write :: "int \<Rightarrow> (bytes \<Rightarrow> nat \<times> perr option) \<Rightarrow> bytes \<Rightarrow> Stream \<Rightarrow> (nat \<times> perr option) \<times> Stream" where
  "Stream_Write now accept p s =
     (if qs_closed s then ((0, Some ErrStreamClosed), s)
      else let (n, err) = accept p; s = s\<lparr>qs_out := qs_out s @ take n p\<rparr>;
               s = (if n > 0 then stream_AddBytesSent now (of_nat n) (stream_UpdateActivity now s) else s)
           in ((n, err), s))"

definition Stream_SendMessage :: "int \<Rightarrow> (bytes \<Rightarrow> nat \<times> perr option) \<Rightarrow> Message \<Rightarrow> Stream \<Rightarrow> perr option \<times> Stream" where
  "Stream_SendMessage now accept msg s =
     (if qs_closed s then (Some ErrStreamClosed, s)
      else let frame = createMessageFrame msg; header = PutUint 8 (of_nat (length frame) :: uint64)
           in case Stream_Write now accept header s of
                ((n, Some err), s) \<Rightarrow> (Some (WrapError err ''failed to write message header''), s)
              | ((n, None), s) \<Rightarrow>
                (case Stream_Write now accept frame s of
                   ((n, Some err), s) \<Rightarrow> (Some (WrapError err ''failed to write message data''), s)
                 | ((n, None), s) \<Rightarrow> (None, s)))"

text \<open>\<open>io.ReadFull\<close> on the QUIC stream: it waits for \<open>n\<close> bytes or the end of the input.\<close>

definition read_full :: "nat \<Rightarrow> Stream \<Rightarrow> ((perr + bytes) \<times> Stream) outcome" where
  "read_full n s =
     (if n \<le> length (qs_in s) then Ret (Inr (take n (qs_in s)), s\<lparr>qs_in := drop n (qs_in s)\<rparr>)
      else case qs_end s of
          Some err \<Rightarrow> Ret (Inl (if err = EOF \<and> qs_in s \<noteq> [] then ErrUnexpectedEOF else err), s\<lparr>qs_in := []\<rparr>)
        | None \<Rightarrow> Blocked)"

text \<open>\<open>ReceiveMessage\<close>; it ignores its context and so never gives up waiting.\<close>

definition Stream_ReceiveMessage ::
  "string \<Rightarrow> int \<Rightarrow> nat option \<Rightarrow> Stream \<Rightarrow> message_heap \<Rightarrow> ((perr + nat) \<times> Stream \<times> message_heap) outcome" where
  "Stream_ReceiveMessage mid now pick s S =
     (if qs_closed s then Ret (Inl ErrStreamClosed, s, S)
      else bind_outcome (read_full 8 s) (\<lambda>(r, s). case r of
          Inl err \<Rightarrow> Ret (Inl (if err = EOF then EOF else WrapError err ''failed to read message header''), s, S)
        | Inr header \<Rightarrow>
          (let frameLength = Uint header :: uint64
           in if frameLength > of_int (scf_MaxMessageSize (sm_config s)) then Ret (Inl ErrMessageTooLarge, s, S)
              else bind_outcome (read_full (unat frameLength) s) (\<lambda>(r, s). case r of
                  Inl err \<Rightarrow> Ret (Inl (WrapError err ''failed to read message data''), s, S)
                | Inr frameData \<Rightarrow>
                  (case parseMessageFrame mid now pick frameData S of
                     (Inl err, S) \<Rightarrow> Ret (Inl (WrapError err ''failed to parse message frame''), s, S)
                   | (Inr a, S) \<Rightarrow> Ret (Inr a, s, S))))))"

text \<open>The closing operations; \<open>answer\<close> is the error of QUIC.\<close>

definition Stream_Close :: "perr option \<Rightarrow> Stream \<Rightarrow> perr option \<times> Stream" where
  "Stream_Close answer s =
     (if qs_closed s then (None, s)
      else (answer, (stream_MarkClosed (stream_SetState StreamStateClosed (s\<lparr>qs_closed := True\<rparr>)))\<lparr>qs_fin := True\<rparr>))"

definition Stream_CloseWrite :: "perr option \<Rightarrow> Stream \<Rightarrow> perr option \<times> Stream" where
  "Stream_CloseWrite answer s =
     (if qs_closed s then (Some ErrStreamClosed, s) else (answer, (stream_SetState StreamStateHalfClosed s)\<lparr>qs_fin := True\<rparr>))"

definition Stream_CloseRead :: "Stream \<Rightarrow> perr option \<times> Stream" where
  "Stream_CloseRead s = (if qs_closed s then (Some ErrStreamClosed, s) else (None, stream_SetState StreamStateHalfClosed s))"

subsection \<open>A message from stream to stream\<close>

definition accept_all :: "bytes \<Rightarrow> nat \<times> perr option" where
  "accept_all p = (length p, None)"

definition wire :: "Message \<Rightarrow> bytes" where
  "wire m = PutUint 8 (of_nat (length (createMessageFrame m)) :: uint64) @ createMessageFrame m"

lemma length_wire [simp]: "length (wire m) = 210 + length (mg_Payload m)"
  by (simp add: wire_def)

lemma Stream_Write_all:
  "\<not> qs_closed s \<Longrightarrow> Stream_Write now accept_all p s = ((length p, None), s\<lparr>qs_out := qs_out s @ p,
     sm_bytesSent := sm_bytesSent s + of_nat (length p), sm_lastActivity := (if p = [] then sm_lastActivity s else now)\<rparr>)"
  by (cases s) (simp add: Stream_Write_def accept_all_def stream_AddBytesSent_def stream_UpdateActivity_def)

lemma Stream_SendMessage_all:
  "\<not> qs_closed s \<Longrightarrow> Stream_SendMessage now accept_all m s = (None, s\<lparr>qs_out := qs_out s @ wire m,
     sm_bytesSent := sm_bytesSent s + of_nat (length (wire m)), sm_lastActivity := now\<rparr>)"
proof -
  have "createMessageFrame m \<noteq> []" "PutUint 8 (w :: uint64) \<noteq> []" for w
    by (simp_all flip: length_greater_0_conv)
  then show "\<not> qs_closed s \<Longrightarrow> ?thesis"
    by (simp add: Stream_SendMessage_def Stream_Write_all Let_def wire_def add.commute add.left_commute)
qed

lemma read_full_here: "length p = n \<Longrightarrow> qs_in s = p @ rest \<Longrightarrow> read_full n s = Ret (Inr p, s\<lparr>qs_in := rest\<rparr>)"
  by (simp add: read_full_def)

lemma frameLength_bound:
  assumes "length (mg_Payload m) < 2 ^ 32" and "0 \<le> lim" and "lim < 2 ^ 63"
  shows "unat (of_nat (length (createMessageFrame m)) :: uint64) = length (createMessageFrame m)"
    and "(of_int lim :: uint64) < of_nat (length (createMessageFrame m)) \<longleftrightarrow> lim < 202 + int (length (mg_Payload m))"
proof -
  show len: "unat (of_nat (length (createMessageFrame m)) :: uint64) = length (createMessageFrame m)"
    using assms(1) by (simp add: unat_of_nat take_bit_nat_eq_self del: of_nat_add of_nat_numeral)
  have "uint (of_int lim :: uint64) = lim" using assms(2,3) by (simp add: uint_word_of_int take_bit_int_eq_self)
  moreover have "uint (of_nat (length (createMessageFrame m)) :: uint64) = 202 + int (length (mg_Payload m))"
    using len by (simp add: uint_nat del: of_nat_add of_nat_numeral)
  ultimately show "(of_int lim :: uint64) < of_nat (length (createMessageFrame m)) \<longleftrightarrow> lim < 202 + int (length (mg_Payload m))"
    by (simp add: word_less_def del: of_nat_add of_nat_numeral)
qed

lemma receive_wire:
  assumes "frame_fits m" and "\<not> qs_closed r"
    and "0 \<le> scf_MaxMessageSize (sm_config r)" and "scf_MaxMessageSize (sm_config r) < 2 ^ 63" and "qs_in r = wire m @ rest"
  shows "Stream_ReceiveMessage mid now pick r S =
    (if 202 + int (length (mg_Payload m)) > scf_MaxMessageSize (sm_config r)
       then Ret (Inl ErrMessageTooLarge, r\<lparr>qs_in := createMessageFrame m @ rest\<rparr>, S)
     else if length (mg_Payload m) < 32
       then Ret (Inl (WrapError ErrInvalidMessage ''failed to parse message frame''), r\<lparr>qs_in := rest\<rparr>, S)
     else let (a, S') = GetMessage mid now pick S in Ret (Inr a, r\<lparr>qs_in := rest\<rparr>, update_message a (carried m) S'))"
proof -
  let ?frame = "createMessageFrame m"
  have small: "length (mg_Payload m) < 2 ^ 32" using assms(1) by (simp add: frame_fits_def)
  have header: "read_full 8 r = Ret (Inr (PutUint 8 (of_nat (length ?frame) :: uint64)), r\<lparr>qs_in := ?frame @ rest\<rparr>)"
    using assms(5) by (intro read_full_here) (simp_all add: wire_def)
  have body: "read_full (length ?frame) (r\<lparr>qs_in := ?frame @ rest\<rparr>) = Ret (Inr ?frame, r\<lparr>qs_in := rest\<rparr>)"
    using read_full_here [of ?frame _ "r\<lparr>qs_in := ?frame @ rest\<rparr>" rest] by simp
  note bound = frameLength_bound [OF small assms(3,4)]
  show ?thesis
    using assms(2) header body bound frame_roundtrip_rule [OF assms(1)]
    by (simp add: Stream_ReceiveMessage_def Let_def split_beta del: length_createMessageFrame of_nat_add)
qed

text \<open>
  C16. A message from stream to stream. When QUIC accepts what is written, \<open>SendMessage\<close> puts exactly the length and the
  frame behind what was written before. A \<open>ReceiveMessage\<close> at that point of the input returns the message and leaves the
  input behind it, when the payload has 32 bytes and the frame is within the limit of the receiver; a shorter one is an
  error that takes the frame out of the input; for one beyond the limit the error leaves the frame in the input, where the
  next call takes it for a header.
\<close>

theorem stream_delivers:
  assumes "frame_fits m" and "\<not> qs_closed s" and "\<not> qs_closed r"
    and "0 \<le> scf_MaxMessageSize (sm_config r)" and "scf_MaxMessageSize (sm_config r) < 2 ^ 63"
    and "Stream_SendMessage now accept_all m s = (err, s')" and "qs_out s' = qs_out s @ w" and "qs_in r = w @ rest"
  shows "err = None \<and> Stream_ReceiveMessage mid now' pick r S =
    (if 202 + int (length (mg_Payload m)) > scf_MaxMessageSize (sm_config r)
       then Ret (Inl ErrMessageTooLarge, r\<lparr>qs_in := createMessageFrame m @ rest\<rparr>, S)
     else if length (mg_Payload m) < 32
       then Ret (Inl (WrapError ErrInvalidMessage ''failed to parse message frame''), r\<lparr>qs_in := rest\<rparr>, S)
     else let (a, S') = GetMessage mid now' pick S in Ret (Inr a, r\<lparr>qs_in := rest\<rparr>, update_message a (carried m) S'))"
proof -
  have "err = None" "w = wire m" using assms(6,7) Stream_SendMessage_all [OF assms(2)] by auto
  with receive_wire [OF assms(1,3-5)] assms(8) show ?thesis by simp
qed

definition new_stream :: Stream where
  "new_stream = NewQUICStream 0 ''s'' ''c'' 0 DefaultStreamConfig"

lemma new_stream_sel [simp]:
  "\<not> qs_closed new_stream" "qs_out new_stream = []" "qs_in new_stream = []" "scf_MaxMessageSize (sm_config new_stream) = 1048576"
  by (simp_all add: new_stream_def NewQUICStream_def NewBaseStream_def BaseStream.defs DefaultStreamConfig_def)

theorem stream_delivers_witness:
  "\<exists>w. qs_out (snd (Stream_SendMessage 5 accept_all (sample_message 40) new_stream)) = w \<and>
     (\<exists>S. Stream_ReceiveMessage ''x'' 6 None (new_stream\<lparr>qs_in := w @ [1]\<rparr>) (mu_msgs no_messages) = Ret (Inr 0, new_stream\<lparr>qs_in := [1]\<rparr>, S))"
proof -
  define w where "w = qs_out (snd (Stream_SendMessage 5 accept_all (sample_message 40) new_stream))"
  obtain err s' where send: "Stream_SendMessage 5 accept_all (sample_message 40) new_stream = (err, s')" by fastforce
  have fits: "frame_fits (sample_message 40)" by (rule sample_message_fits) simp
  have len: "length (mg_Payload (sample_message 40)) = 40" by (simp add: sample_message_def NewMessage_def)
  have out: "qs_out s' = qs_out new_stream @ w" using send by (simp add: w_def)
  have "Stream_ReceiveMessage ''x'' 6 None (new_stream\<lparr>qs_in := w @ [1]\<rparr>) (mu_msgs no_messages) =
      (let (a, S') = GetMessage ''x'' 6 None (mu_msgs no_messages)
       in Ret (Inr a, new_stream\<lparr>qs_in := w @ [1]\<rparr>\<lparr>qs_in := [1]\<rparr>, update_message a (carried (sample_message 40)) S'))"
    using stream_delivers [OF fits _ _ _ _ send out, of "new_stream\<lparr>qs_in := w @ [1]\<rparr>" "[1]" "''x''" 6 None "mu_msgs no_messages"] len by simp
  moreover have "fst (GetMessage ''x'' 6 None (mu_msgs no_messages)) = 0"
    by (simp add: GetMessage_def take_item_def alloc_message_def no_messages_def)
  ultimately have "\<exists>S. Stream_ReceiveMessage ''x'' 6 None (new_stream\<lparr>qs_in := w @ [1]\<rparr>) (mu_msgs no_messages) = Ret (Inr 0, new_stream\<lparr>qs_in := [1]\<rparr>, S)"
    by (simp add: split_beta Let_def)
  then show ?thesis by (auto simp: w_def)
qed

end
