(* ===== verification/Protocol_Transport.thy ===== *)
theory Protocol_Transport
  imports Protocol_Errors "HOL-Library.AList"
begin

text \<open>
  Transports and the protocol around them: \<open>internal/core/protocol/transport.go\<close> and \<open>protocol.go\<close>. A transport of the
  registry is an interface; the model keeps what the registry asks of it, with its answers to \<open>HealthCheck\<close> and
  \<open>Close\<close> as fields. A Go map is an association list, which ranges in the order of the list. Logging is left out.
\<close>

section \<open>Statistics\<close>

record TransportStats =
  ts_ConnectionsAccepted :: uint64
  ts_ConnectionsDialed :: uint64
  ts_ConnectionsActive :: uint64
  ts_ConnectionsFailed :: uint64
  ts_BytesSent :: uint64
  ts_BytesReceived :: uint64
  ts_MessagesProcessed :: uint64
  ts_ErrorsEncountered :: uint64
  ts_Uptime :: int

record BaseTransport =
  bt_type :: string
  bt_name :: string
  bt_stats :: TransportStats
  bt_startTime :: int
  bt_closed :: bool

definition NewBaseTransport :: "int \<Rightarrow> string \<Rightarrow> string \<Rightarrow> BaseTransport" where
  "NewBaseTransport now transportType name = \<lparr>bt_type = transportType, bt_name = name,
     bt_stats = \<lparr>ts_ConnectionsAccepted = 0, ts_ConnectionsDialed = 0, ts_ConnectionsActive = 0, ts_ConnectionsFailed = 0,
       ts_BytesSent = 0, ts_BytesReceived = 0, ts_MessagesProcessed = 0, ts_ErrorsEncountered = 0, ts_Uptime = 0\<rparr>,
     bt_startTime = now, bt_closed = False\<rparr>"

definition count_stat :: "string \<Rightarrow> uint64 \<Rightarrow> TransportStats \<Rightarrow> TransportStats" where
  "count_stat field delta s =
     (if field = ''connections_accepted'' then s\<lparr>ts_ConnectionsAccepted := ts_ConnectionsAccepted s + delta\<rparr>
      else if field = ''connections_dialed'' then s\<lparr>ts_ConnectionsDialed := ts_ConnectionsDialed s + delta\<rparr>
      else if field = ''connections_active'' then s\<lparr>ts_ConnectionsActive := ts_ConnectionsActive s + delta\<rparr>
      else if field = ''connections_failed'' then s\<lparr>ts_ConnectionsFailed := ts_ConnectionsFailed s + delta\<rparr>
      else if field = ''bytes_sent'' then s\<lparr>ts_BytesSent := ts_BytesSent s + delta\<rparr>
      else if field = ''bytes_received'' then s\<lparr>ts_BytesReceived := ts_BytesReceived s + delta\<rparr>
      else if field = ''messages_processed'' then s\<lparr>ts_MessagesProcessed := ts_MessagesProcessed s + delta\<rparr>
      else if field = ''errors_encountered'' then s\<lparr>ts_ErrorsEncountered := ts_ErrorsEncountered s + delta\<rparr>
      else s)"

definition transport_UpdateStats :: "string \<Rightarrow> uint64 \<Rightarrow> BaseTransport \<Rightarrow> BaseTransport" where
  "transport_UpdateStats field delta t = t\<lparr>bt_stats := count_stat field delta (bt_stats t)\<rparr>"

definition transport_Stats :: "int \<Rightarrow> BaseTransport \<Rightarrow> TransportStats" where
  "transport_Stats now t = (bt_stats t)\<lparr>ts_Uptime := time_Sub now (bt_startTime t)\<rparr>"

definition transport_Close :: "BaseTransport \<Rightarrow> perr option \<times> BaseTransport" where
  "transport_Close t = (if bt_closed t then (None, t) else (None, t\<lparr>bt_closed := True\<rparr>))"

section \<open>The registry\<close>

datatype HealthStatus = HealthStatusHealthy | HealthStatusDegraded | HealthStatusUnhealthy

record HealthCheck =
  hc_Status :: HealthStatus
  hc_Timestamp :: int
  hc_Latency :: int
  hc_Error :: "perr option"

record transport =
  tr_type :: string
  tr_name :: string
  tr_health :: HealthCheck
  tr_closes :: nat

record BaseTransportRegistry =
  rg_transports :: "(string \<times> transport) list"
  rg_closed :: bool

definition NewBaseTransportRegistry :: BaseTransportRegistry where
  "NewBaseTransportRegistry = \<lparr>rg_transports = [], rg_closed = False\<rparr>"

definition ErrRegistryClosed :: perr where "ErrRegistryClosed = Plain ''registry is closed''"
definition ErrTransportNotSupported :: perr where "ErrTransportNotSupported = Plain ''transport not supported''"

definition RegisterTransport :: "transport \<Rightarrow> BaseTransportRegistry \<Rightarrow> perr option \<times> BaseTransportRegistry" where
  "RegisterTransport t r =
     (if rg_closed r then (Some ErrRegistryClosed, r)
      else (None, r\<lparr>rg_transports := AList.update (tr_type t) t (rg_transports r)\<rparr>))"

text \<open>\<open>tr_closes\<close> counts the calls of \<open>Close\<close>; an unregistered transport is returned with its count.\<close>

definition close_transport :: "transport \<Rightarrow> transport" where
  "close_transport t = t\<lparr>tr_closes := tr_closes t + 1\<rparr>"

definition UnregisterTransport :: "string \<Rightarrow> BaseTransportRegistry \<Rightarrow> transport option \<times> BaseTransportRegistry" where
  "UnregisterTransport ty r = (case map_of (rg_transports r) ty of
       Some t \<Rightarrow> (Some (close_transport t), r\<lparr>rg_transports := AList.delete ty (rg_transports r)\<rparr>)
     | None \<Rightarrow> (None, r))"

definition GetTransport :: "string \<Rightarrow> BaseTransportRegistry \<Rightarrow> transport option" where
  "GetTransport ty r = map_of (rg_transports r) ty"

definition ListTransports :: "BaseTransportRegistry \<Rightarrow> transport list" where
  "ListTransports r = map snd (rg_transports r)"

definition SupportedTypes :: "BaseTransportRegistry \<Rightarrow> string list" where
  "SupportedTypes r = map fst (rg_transports r)"

text \<open>\<open>CreateListener\<close> and \<open>CreateDialer\<close> up to the call of the transport found.\<close>

definition CreateListener :: "string \<Rightarrow> BaseTransportRegistry \<Rightarrow> perr + transport" where
  "CreateListener ty r = (case GetTransport ty r of None \<Rightarrow> Inl ErrTransportNotSupported | Some t \<Rightarrow> Inr t)"

definition CreateDialer :: "string \<Rightarrow> BaseTransportRegistry \<Rightarrow> perr + transport" where
  "CreateDialer ty r = (case GetTransport ty r of None \<Rightarrow> Inl ErrTransportNotSupported | Some t \<Rightarrow> Inr t)"

definition registry_HealthCheck :: "BaseTransportRegistry \<Rightarrow> (string \<times> HealthCheck) list" where
  "registry_HealthCheck r = map (\<lambda>(ty, t). (ty, tr_health t)) (rg_transports r)"

definition registry_Close :: "BaseTransportRegistry \<Rightarrow> perr option \<times> BaseTransportRegistry" where
  "registry_Close r =
     (if rg_closed r then (None, r)
      else (None, r\<lparr>rg_closed := True, rg_transports := map (\<lambda>(ty, t). (ty, close_transport t)) (rg_transports r)\<rparr>))"

section \<open>The protocol\<close>

text \<open>The map of servers is never written to, so closing has no server to close; the statistics are counters by name.\<close>

record BaseProtocol =
  pr_name :: string
  pr_version :: string
  pr_registry :: BaseTransportRegistry
  pr_servers :: "string list"
  pr_stats :: "string \<Rightarrow> uint64"
  pr_startTime :: int
  pr_closed :: bool

definition NewBaseProtocol :: "int \<Rightarrow> string \<Rightarrow> string \<Rightarrow> BaseProtocol" where
  "NewBaseProtocol now name version = \<lparr>pr_name = name, pr_version = version, pr_registry = NewBaseTransportRegistry, pr_servers = [],
     pr_stats = (\<lambda>field. 0), pr_startTime = now, pr_closed = False\<rparr>"

definition stat_fields :: "string list" where
  "stat_fields = [''transports_registered'', ''transports_active'', ''servers_created'', ''servers_active'', ''clients_created'',
     ''clients_active'', ''messages_processed'', ''message_pool_hits'', ''message_pool_misses'', ''errors_total'']"

definition protocol_UpdateStats :: "string \<Rightarrow> uint64 \<Rightarrow> BaseProtocol \<Rightarrow> BaseProtocol" where
  "protocol_UpdateStats field delta p =
     (if field \<in> set stat_fields then p\<lparr>pr_stats := (pr_stats p)(field := pr_stats p field + delta)\<rparr> else p)"

definition ErrProtocolClosed :: perr where "ErrProtocolClosed = Plain ''protocol is closed''"

text \<open>The registration is counted before the registry may refuse it.\<close>

definition protocol_RegisterTransport :: "transport \<Rightarrow> BaseProtocol \<Rightarrow> perr option \<times> BaseProtocol" where
  "protocol_RegisterTransport t p =
     (if pr_closed p then (Some ErrProtocolClosed, p)
      else let p = protocol_UpdateStats ''transports_registered'' 1 p; (e, r) = RegisterTransport t (pr_registry p)
           in (e, p\<lparr>pr_registry := r\<rparr>))"

definition protocol_Stats :: "BaseProtocol \<Rightarrow> string \<Rightarrow> uint64" where
  "protocol_Stats p = (pr_stats p)(''transports_active'' := of_nat (length (ListTransports (pr_registry p))),
     ''servers_active'' := of_nat (length (pr_servers p)))"

primrec first_unhealthy :: "(string \<times> HealthCheck) list \<Rightarrow> HealthCheck option" where
  "first_unhealthy [] = None"
| "first_unhealthy (h # hs) = (if hc_Status (snd h) \<noteq> HealthStatusHealthy then Some (snd h) else first_unhealthy hs)"

definition protocol_HealthCheck :: "int \<Rightarrow> BaseProtocol \<Rightarrow> HealthCheck" where
  "protocol_HealthCheck now p =
     (if pr_closed p then \<lparr>hc_Status = HealthStatusUnhealthy, hc_Timestamp = now, hc_Latency = 0, hc_Error = Some ErrProtocolClosed\<rparr>
      else case first_unhealthy (registry_HealthCheck (pr_registry p)) of
          Some h \<Rightarrow> \<lparr>hc_Status = HealthStatusDegraded, hc_Timestamp = now, hc_Latency = 0, hc_Error = hc_Error h\<rparr>
        | None \<Rightarrow> \<lparr>hc_Status = HealthStatusHealthy, hc_Timestamp = now, hc_Latency = 0, hc_Error = None\<rparr>)"

definition protocol_Close :: "BaseProtocol \<Rightarrow> perr option \<times> BaseProtocol" where
  "protocol_Close p = (let (e, r) = registry_Close (pr_registry p) in (e, p\<lparr>pr_closed := True, pr_registry := r\<rparr>))"

section \<open>Laws\<close>

lemma GetTransport_Register:
  "\<not> rg_closed r \<Longrightarrow> GetTransport ty (snd (RegisterTransport t r)) = (if ty = tr_type t then Some t else GetTransport ty r)"
  by (simp add: GetTransport_def RegisterTransport_def update_conv)

lemma GetTransport_Unregister: "GetTransport ty (snd (UnregisterTransport ty r)) = None"
  by (simp add: GetTransport_def UnregisterTransport_def delete_conv split: option.split)

lemma first_unhealthy_None: "first_unhealthy hs = None \<longleftrightarrow> (\<forall>h\<in>set hs. hc_Status (snd h) = HealthStatusHealthy)"
  by (induction hs) auto

lemma protocol_healthy_iff:
  "hc_Status (protocol_HealthCheck now p) = HealthStatusHealthy \<longleftrightarrow>
     \<not> pr_closed p \<and> (\<forall>t\<in>set (ListTransports (pr_registry p)). hc_Status (tr_health t) = HealthStatusHealthy)"
proof -
  have "first_unhealthy (registry_HealthCheck (pr_registry p)) = None \<longleftrightarrow>
      (\<forall>t\<in>set (ListTransports (pr_registry p)). hc_Status (tr_health t) = HealthStatusHealthy)"
    by (auto simp: first_unhealthy_None registry_HealthCheck_def ListTransports_def)
  then show ?thesis
    by (cases "first_unhealthy (registry_HealthCheck (pr_registry p))") (auto simp: protocol_HealthCheck_def)
qed

text \<open>
  The life of a protocol with its registry. Every registered transport can be found until the protocol is closed; closing it closes each
  transport once, however often it is closed, and keeps them listed; a later registration is refused.
\<close>

lemma protocol_Close_closes:
  assumes "\<not> rg_closed (pr_registry p)"
  shows "map tr_closes (ListTransports (pr_registry (snd (protocol_Close (snd (protocol_Close p)))))) =
    map (\<lambda>t. tr_closes t + 1) (ListTransports (pr_registry p))"
    and "fst (protocol_RegisterTransport t (snd (protocol_Close p))) = Some ErrProtocolClosed"
  using assms by (auto simp: protocol_Close_def registry_Close_def ListTransports_def close_transport_def protocol_RegisterTransport_def split_beta)

end
