(* ===== verification/Quic_Connection.thy ===== *)
theory Quic_Connection
  imports Quic_Stream Protocol_Transport
begin

text \<open>
  A QUIC connection: \<open>BaseConnection\<close> of \<open>internal/core/protocol/connection.go\<close> and \<open>Connection\<close> of
  \<open>internal/core/protocol/quic/connection.go\<close>, with its queues and goroutines. The library of QUIC opens and accepts streams: its answer
  is an argument, \<open>None\<close> for success. Each goroutine is a function for one round of its loop.
\<close>

section \<open>State\<close>

datatype ConnectionState = ConnectionStateConnecting | ConnectionStateConnected | ConnectionStateDisconnecting
  | ConnectionStateDisconnected | ConnectionStateError

record BaseConnection =
  cn_id :: string
  cn_state :: ConnectionState
  cn_connectedAt :: int
  cn_lastActivity :: int
  cn_bytesSent :: uint64
  cn_bytesReceived :: uint64
  cn_done :: bool

definition NewBaseConnection :: "int \<Rightarrow> string \<Rightarrow> BaseConnection" where
  "NewBaseConnection now cid = \<lparr>cn_id = cid, cn_state = ConnectionStateConnecting, cn_connectedAt = now, cn_lastActivity = now,
     cn_bytesSent = 0, cn_bytesReceived = 0, cn_done = False\<rparr>"

definition conn_SetState :: "ConnectionState \<Rightarrow> 'z BaseConnection_scheme \<Rightarrow> 'z BaseConnection_scheme" where
  "conn_SetState st c = c\<lparr>cn_state := st\<rparr>"

definition conn_UpdateActivity :: "int \<Rightarrow> 'z BaseConnection_scheme \<Rightarrow> 'z BaseConnection_scheme" where
  "conn_UpdateActivity now c = c\<lparr>cn_lastActivity := now\<rparr>"

definition conn_AddBytesSent :: "int \<Rightarrow> uint64 \<Rightarrow> 'z BaseConnection_scheme \<Rightarrow> 'z BaseConnection_scheme" where
  "conn_AddBytesSent now n c = conn_UpdateActivity now (c\<lparr>cn_bytesSent := cn_bytesSent c + n\<rparr>)"

definition conn_AddBytesReceived :: "int \<Rightarrow> uint64 \<Rightarrow> 'z BaseConnection_scheme \<Rightarrow> 'z BaseConnection_scheme" where
  "conn_AddBytesReceived now n c = conn_UpdateActivity now (c\<lparr>cn_bytesReceived := cn_bytesReceived c + n\<rparr>)"

definition conn_MarkClosed :: "'z BaseConnection_scheme \<Rightarrow> 'z BaseConnection_scheme" where
  "conn_MarkClosed c = (let c = conn_SetState ConnectionStateDisconnected c in if cn_done c then c else c\<lparr>cn_done := True\<rparr>)"

text \<open>
  The queues hold addresses of messages; \<open>cn_queueClosed\<close> tells that the queue of received messages is closed.
  The streams are kept by identifier, in the order they were opened.
\<close>

record Connection = BaseConnection +
  cn_closed :: bool
  cn_messageQueue :: "nat list"
  cn_queueClosed :: bool
  cn_sendQueue :: "nat list"
  cn_buffer :: nat
  cn_streams :: "(string \<times> Stream) list"
  cn_streamCounter :: uint64
  cn_maxStreams :: int

definition NewQUICConnection :: "int \<Rightarrow> string \<Rightarrow> int \<Rightarrow> int \<Rightarrow> Connection outcome" where
  "NewQUICConnection now cid messageBufferSize maxStreams =
     (if messageBufferSize < 0 then Panic NegativeSize
      else Ret (conn_SetState ConnectionStateConnected (BaseConnection.extend (NewBaseConnection now cid)
        \<lparr>cn_closed = False, cn_messageQueue = [], cn_queueClosed = False, cn_sendQueue = [], cn_buffer = nat messageBufferSize,
         cn_streams = [], cn_streamCounter = 0, cn_maxStreams = maxStreams\<rparr>)))"

definition ErrConnectionClosed :: perr where "ErrConnectionClosed = Plain ''connection is closed''"
definition ErrMessageQueueFull :: perr where "ErrMessageQueueFull = Plain ''message queue is full''"
definition ErrMaxStreamsReached :: perr where "ErrMaxStreamsReached = Plain ''maximum streams reached''"

section \<open>Sending\<close>

text \<open>\<open>SendMessage\<close> queues the message and then retains it, in two actions.\<close>

definition enqueue_message :: "nat \<Rightarrow> Connection \<Rightarrow> perr option \<times> Connection" where
  "enqueue_message a c =
     (if cn_closed c then (Some ErrConnectionClosed, c)
      else if cn_state c \<noteq> ConnectionStateConnected then (Some ErrConnectionClosed, c)
      else if length (cn_sendQueue c) < cn_buffer c then (None, c\<lparr>cn_sendQueue := cn_sendQueue c @ [a]\<rparr>)
      else (Some ErrMessageQueueFull, c))"

definition Connection_SendMessage :: "nat \<Rightarrow> Connection \<Rightarrow> message_heap \<Rightarrow> perr option \<times> Connection \<times> message_heap" where
  "Connection_SendMessage a c S = (case enqueue_message a c of
       (Some err, c) \<Rightarrow> (Some err, c, S)
     | (None, c) \<Rightarrow> (None, c, Retain a S))"

definition Connection_OpenStream :: "int \<Rightarrow> string \<Rightarrow> perr option \<Rightarrow> Connection \<Rightarrow> (perr + string) \<times> Connection" where
  "Connection_OpenStream now sid answer c =
     (if cn_closed c then (Inl ErrConnectionClosed, c)
      else if cn_state c \<noteq> ConnectionStateConnected then (Inl ErrConnectionClosed, c)
      else if cn_maxStreams c > 0 \<and> sint (cn_streamCounter c) \<ge> cn_maxStreams c then (Inl ErrMaxStreamsReached, c)
      else case answer of
          Some err \<Rightarrow> (Inl (WrapError err ''failed to open QUIC stream''), c)
        | None \<Rightarrow> (Inr sid, c\<lparr>cn_streamCounter := cn_streamCounter c + 1,
            cn_streams := AList.update sid (NewQUICStream now sid (cn_id c) 0 DefaultStreamConfig) (cn_streams c)\<rparr>))"

definition Connection_AcceptStream :: "int \<Rightarrow> string \<Rightarrow> perr option \<Rightarrow> Connection \<Rightarrow> (perr + string) \<times> Connection" where
  "Connection_AcceptStream now sid answer c =
     (if cn_closed c then (Inl ErrConnectionClosed, c)
      else if cn_state c \<noteq> ConnectionStateConnected then (Inl ErrConnectionClosed, c)
      else case answer of
          Some err \<Rightarrow> (Inl (WrapError err ''failed to accept QUIC stream''), c)
        | None \<Rightarrow> (Inr sid, c\<lparr>cn_streamCounter := cn_streamCounter c + 1,
            cn_streams := AList.update sid (NewQUICStream now sid (cn_id c) 0 DefaultStreamConfig) (cn_streams c)\<rparr>))"

definition GetStream :: "string \<Rightarrow> Connection \<Rightarrow> Stream option" where
  "GetStream sid c = map_of (cn_streams c) sid"

definition RemoveStream :: "string \<Rightarrow> Connection \<Rightarrow> Connection" where
  "RemoveStream sid c = c\<lparr>cn_streams := AList.delete sid (cn_streams c), cn_streamCounter := cn_streamCounter c - 1\<rparr>"

text \<open>An operation on a stream the connection has.\<close>

definition on_stream :: "string \<Rightarrow> (Stream \<Rightarrow> 'r \<times> Stream) \<Rightarrow> 'r \<Rightarrow> Connection \<Rightarrow> 'r \<times> Connection" where
  "on_stream sid f r c = (case GetStream sid c of
       Some s \<Rightarrow> (case f s of (r, s) \<Rightarrow> (r, c\<lparr>cn_streams := AList.update sid s (cn_streams c)\<rparr>))
     | None \<Rightarrow> (r, c))"

definition sendMessageInternal ::
  "int \<Rightarrow> string \<Rightarrow> perr option \<Rightarrow> (bytes \<Rightarrow> nat \<times> perr option) \<Rightarrow> Message \<Rightarrow> Connection \<Rightarrow> perr option \<times> Connection" where
  "sendMessageInternal now sid answer accept msg c = (case Connection_OpenStream now sid answer c of
       (Inl err, c) \<Rightarrow> (Some err, c)
     | (Inr sid, c) \<Rightarrow>
         (let (err, c) = on_stream sid (Stream_SendMessage now accept msg) None c;
              c = (if err = None then conn_AddBytesSent now (of_int (Message_Size msg)) (conn_UpdateActivity now c) else c)
          in (err, snd (on_stream sid (Stream_Close None) None c))))"

text \<open>One round of \<open>handleSending\<close> that finds a message. The error of the sending is dropped.\<close>

definition handleSending ::
  "int \<Rightarrow> string \<Rightarrow> perr option \<Rightarrow> (bytes \<Rightarrow> nat \<times> perr option) \<Rightarrow> Connection \<times> message_heap \<Rightarrow> Connection \<times> message_heap" where
  "handleSending now sid answer accept x = (case x of (c, S) \<Rightarrow> (case cn_sendQueue c of
       [] \<Rightarrow> (c, S)
     | a # q \<Rightarrow> (snd (sendMessageInternal now sid answer accept (mh_heap S ! a) (c\<lparr>cn_sendQueue := q\<rparr>)), Release a S)))"

section \<open>Receiving\<close>

text \<open>
  \<open>ReceiveMessage\<close> waits for the queue, its context and the end of the connection, and takes any of those that are
  ready: \<open>which\<close> is the choice.
\<close>

datatype receive_choice = FromQueue | FromContext perr | FromDone

definition Connection_ReceiveMessage ::
  "int \<Rightarrow> receive_choice \<Rightarrow> message_heap \<Rightarrow> Connection \<Rightarrow> ((perr + nat) \<times> Connection) outcome" where
  "Connection_ReceiveMessage now which S c =
     (if cn_closed c then Ret (Inl ErrConnectionClosed, c)
      else case which of
          FromQueue \<Rightarrow> (case cn_messageQueue c of
              a # q \<Rightarrow> Ret (Inr a, conn_AddBytesReceived now (of_int (Message_Size (mh_heap S ! a)))
                          (conn_UpdateActivity now (c\<lparr>cn_messageQueue := q\<rparr>)))
            | [] \<Rightarrow> if cn_queueClosed c then Ret (Inl ErrConnectionClosed, c) else Blocked)
        | FromContext err \<Rightarrow> Ret (Inl err, c)
        | FromDone \<Rightarrow> if cn_done c then Ret (Inl ErrConnectionClosed, c) else Blocked)"

text \<open>
  One round of \<open>handleStreamMessages\<close>, which tells whether the loop goes on. When the connection is done the
  selection may still choose the queue; sending to a closed queue panics.
\<close>

definition forward_message :: "bool \<Rightarrow> nat \<Rightarrow> Connection \<Rightarrow> message_heap \<Rightarrow> (bool \<times> Connection \<times> message_heap) outcome" where
  "forward_message chooseDone a c S =
     (if cn_done c \<and> chooseDone then Ret (False, c, Release a S)
      else if cn_queueClosed c then Panic SendOnClosedChannel
      else if length (cn_messageQueue c) < cn_buffer c then Ret (True, c\<lparr>cn_messageQueue := cn_messageQueue c @ [a]\<rparr>, S)
      else if cn_done c then Ret (False, c, Release a S)
      else Ret (True, c, Release a S))"

definition close_stream :: "string \<Rightarrow> Connection \<Rightarrow> Connection" where
  "close_stream sid c = snd (on_stream sid (Stream_Close None) None c)"

definition handleStreamMessages ::
  "string \<Rightarrow> int \<Rightarrow> nat option \<Rightarrow> bool \<Rightarrow> string \<Rightarrow> Connection \<Rightarrow> message_heap \<Rightarrow> (bool \<times> Connection \<times> message_heap) outcome" where
  "handleStreamMessages mid now pick chooseDone sid c S = (case GetStream sid c of
       None \<Rightarrow> Ret (False, c, S)
     | Some s \<Rightarrow> bind_outcome (Stream_ReceiveMessage mid now pick s S) (\<lambda>(r, s, S).
         let c = c\<lparr>cn_streams := AList.update sid s (cn_streams c)\<rparr>
         in case r of
              Inl err \<Rightarrow> Ret (False, close_stream sid c, S)
            | Inr a \<Rightarrow> bind_outcome (forward_message chooseDone a c S) (\<lambda>(more, c, S).
                Ret (more, if more then c else close_stream sid c, S))))"

text \<open>One round of \<open>handleMessages\<close>: the stream whose messages are to be handled, if one was accepted, and whether the loop goes on.\<close>

definition handleMessages :: "int \<Rightarrow> string \<Rightarrow> perr option \<Rightarrow> Connection \<Rightarrow> (string option \<times> bool) \<times> Connection" where
  "handleMessages now sid answer c =
     (if cn_done c then ((None, False), c\<lparr>cn_queueClosed := True\<rparr>)
      else case Connection_AcceptStream now sid answer c of
          (Inl err, c) \<Rightarrow> if cn_closed c then ((None, False), c\<lparr>cn_queueClosed := True\<rparr>) else ((None, True), c)
        | (Inr sid, c) \<Rightarrow> ((Some sid, True), c))"

section \<open>Ping and closing\<close>

text \<open>\<open>arrives\<close> is what the peer sends back on the stream of the ping, and how it ends.\<close>

definition ping_message :: "Message \<Rightarrow> Message" where
  "ping_message msg = set_payload (string_bytes ''ping'') (msg\<lparr>mg_Type := MessageTypeHeartbeat\<rparr>)"

definition Connection_Ping ::
  "string \<Rightarrow> int \<Rightarrow> int \<Rightarrow> nat option \<Rightarrow> nat option \<Rightarrow> string \<Rightarrow> perr option \<Rightarrow> (bytes \<Rightarrow> nat \<times> perr option) \<Rightarrow> bytes \<times> perr option \<Rightarrow>
     Connection \<Rightarrow> message_heap \<Rightarrow> ((perr + int) \<times> Connection \<times> message_heap) outcome" where
  "Connection_Ping mid start now pick pick' sid answer accept arrives c S =
     (if cn_closed c then Ret (Inl ErrConnectionClosed, c, S)
      else let (a, S) = GetMessage mid start pick S; S = update_message a ping_message S
           in case Connection_OpenStream start sid answer c of
                (Inl err, c) \<Rightarrow> Ret (Inl err, c, Release a S)
              | (Inr sid, c) \<Rightarrow>
                (case on_stream sid (Stream_SendMessage start accept (mh_heap S ! a)) None c of
                   (Some err, c) \<Rightarrow> Ret (Inl err, close_stream sid c, Release a S)
                 | (None, c) \<Rightarrow>
                   (case GetStream sid c of
                      None \<Rightarrow> Panic NilDereference
                    | Some s \<Rightarrow>
                      bind_outcome (Stream_ReceiveMessage mid now pick' (s\<lparr>qs_in := fst arrives, qs_end := snd arrives\<rparr>) S) (\<lambda>(r, s, S).
                        let c = close_stream sid (c\<lparr>cn_streams := AList.update sid s (cn_streams c)\<rparr>)
                        in case r of
                             Inl err \<Rightarrow> Ret (Inl err, c, Release a S)
                           | Inr b \<Rightarrow> Ret (Inr (time_Sub now start), c, Release a S)))))"

definition close_streams :: "(string \<times> Stream) list \<Rightarrow> (string \<times> Stream) list" where
  "close_streams = map (\<lambda>(sid, s). (sid, snd (Stream_Close None s)))"

text \<open>\<open>Close\<close>, in the three parts between which other goroutines may run: up to closing the QUIC connection, and after it.\<close>

definition begin_close :: "Connection \<Rightarrow> Connection" where
  "begin_close c = (let c = conn_SetState ConnectionStateDisconnecting (c\<lparr>cn_closed := True\<rparr>)
     in c\<lparr>cn_streams := close_streams (cn_streams c)\<rparr>)"

definition end_close :: "Connection \<Rightarrow> Connection" where
  "end_close c = conn_MarkClosed (conn_SetState ConnectionStateDisconnected c)"

definition Connection_Close :: "perr option \<Rightarrow> Connection \<Rightarrow> BaseTransport \<Rightarrow> perr option \<times> Connection \<times> BaseTransport" where
  "Connection_Close answer c T =
     (if cn_closed c then (None, c, T)
      else (answer, end_close (begin_close c), transport_UpdateStats ''connections_active'' (- 1) T))"

text \<open>A tick of \<open>monitorConnection\<close>, given the outcome of its ping; it tells whether the monitor goes on.\<close>

definition monitor_tick :: "perr + int \<Rightarrow> perr option \<Rightarrow> Connection \<Rightarrow> BaseTransport \<Rightarrow> bool \<times> Connection \<times> BaseTransport" where
  "monitor_tick ping answer c T = (case ping of
       Inl err \<Rightarrow> (False, snd (Connection_Close answer (conn_SetState ConnectionStateError c) T))
     | Inr latency \<Rightarrow> (True, c, T))"

section \<open>The limit of streams\<close>

definition written_out :: "Connection \<Rightarrow> bytes list" where
  "written_out c = map (qs_out \<circ> snd) (cn_streams c)"

definition ready :: "nat \<Rightarrow> nat \<Rightarrow> Connection \<Rightarrow> bool" where
  "ready n k c \<longleftrightarrow> \<not> cn_closed c \<and> cn_state c = ConnectionStateConnected \<and> cn_maxStreams c = int n \<and> 0 < n \<and> n < 2 ^ 63 \<and>
     cn_streamCounter c = of_nat k \<and> k \<le> n"

lemma sint_counter:
  assumes "k < 2 ^ 63"
  shows "sint (of_nat k :: uint64) = int k"
proof -
  have "sint (word_of_int (int k) :: uint64) = int k"
    using assms by (simp add: sint_sbintrunc' signed_take_bit_int_eq_self del: of_int_of_nat_eq)
  then show ?thesis by simp
qed

lemma update_new: "sid \<notin> fst ` set al \<Longrightarrow> AList.update sid s al = al @ [(sid, s)]"
  by (induction al) auto

lemma update_last_entry: "sid \<notin> fst ` set al \<Longrightarrow> AList.update sid s' (al @ [(sid, s)]) = al @ [(sid, s')]"
  by (induction al) auto

lemma map_of_last_entry: "sid \<notin> fst ` set al \<Longrightarrow> map_of (al @ [(sid, s)]) sid = Some s"
  by (induction al) auto

lemma on_stream_last:
  "sid \<notin> fst ` set al \<Longrightarrow> cn_streams c = al @ [(sid, s)] \<Longrightarrow>
     on_stream sid f r c = (fst (f s), c\<lparr>cn_streams := al @ [(sid, snd (f s))]\<rparr>)"
  by (simp add: on_stream_def GetStream_def map_of_last_entry update_last_entry split_beta del: map_of_append)

lemma NewQUICStream_sel [simp]:
  "\<not> qs_closed (NewQUICStream now sid cid t config)" "qs_out (NewQUICStream now sid cid t config) = []"
  by (simp_all add: NewQUICStream_def NewBaseStream_def BaseStream.defs)

lemma Stream_Close_out [simp]: "qs_out (snd (Stream_Close answer s)) = qs_out s"
  by (simp add: Stream_Close_def stream_MarkClosed_def stream_SetState_def Let_def)

lemma OpenStream_room:
  "ready n k c \<Longrightarrow> k < n \<Longrightarrow> sid \<notin> fst ` set (cn_streams c) \<Longrightarrow>
     Connection_OpenStream now sid None c = (Inr sid, c\<lparr>cn_streamCounter := cn_streamCounter c + 1,
       cn_streams := cn_streams c @ [(sid, NewQUICStream now sid (cn_id c) 0 DefaultStreamConfig)]\<rparr>)"
  using sint_counter [of k] by (simp add: Connection_OpenStream_def ready_def update_new)

lemma sendMessageInternal_room:
  assumes "ready n k c" and "k < n" and "sid \<notin> fst ` set (cn_streams c)"
  shows "let c' = snd (sendMessageInternal now sid None accept_all msg c)
    in written_out c' = written_out c @ [wire msg] \<and> fst ` set (cn_streams c') = insert sid (fst ` set (cn_streams c)) \<and>
       ready n (Suc k) c' \<and> cn_sendQueue c' = cn_sendQueue c"
proof -
  let ?s = "NewQUICStream now sid (cn_id c) 0 DefaultStreamConfig"
  let ?c = "c\<lparr>cn_streamCounter := cn_streamCounter c + 1, cn_streams := cn_streams c @ [(sid, ?s)]\<rparr>"
  let ?d = "\<lambda>s. c\<lparr>cn_streamCounter := cn_streamCounter c + 1, cn_streams := cn_streams c @ [(sid, s)],
    cn_bytesSent := cn_bytesSent c + of_int (Message_Size msg), cn_lastActivity := now\<rparr>"
  have "Connection_OpenStream now sid None c = (Inr sid, ?c)"
    by (rule OpenStream_room [OF assms])
  moreover obtain s' where s': "Stream_SendMessage now accept_all msg ?s = (None, s')" "qs_out s' = wire msg"
    using Stream_SendMessage_all [of ?s now msg] by simp
  moreover define s'' where "s'' = snd (Stream_Close None s')"
  moreover have "on_stream sid (Stream_SendMessage now accept_all msg) None ?c = (None, ?c\<lparr>cn_streams := cn_streams c @ [(sid, s')]\<rparr>)"
    using on_stream_last [OF assms(3), of ?c ?s "Stream_SendMessage now accept_all msg" None] s'(1) by simp
  moreover have "on_stream sid (Stream_Close None) None (?d s') = (fst (Stream_Close None s'), ?d s'')"
    using on_stream_last [OF assms(3), of "?d s'" s' "Stream_Close None" None] by (simp add: s''_def)
  ultimately have "sendMessageInternal now sid None accept_all msg c = (None, ?d s'')"
    by (simp add: sendMessageInternal_def conn_AddBytesSent_def conn_UpdateActivity_def)
  moreover have "qs_out s'' = wire msg" using s'(2) by (simp add: s''_def)
  ultimately show ?thesis
    using assms(1,2) by (auto simp: written_out_def ready_def)
qed

lemma sendMessageInternal_full:
  assumes "ready n n c"
  shows "sendMessageInternal now sid None accept_all msg c = (Some ErrMaxStreamsReached, c)"
  using assms sint_counter [of n] by (simp add: sendMessageInternal_def Connection_OpenStream_def ready_def)

lemma Release_other [simp]: "b \<noteq> a \<Longrightarrow> mh_heap (Release a S) ! b = mh_heap S ! b"
  by (simp add: Release_def PutMessage_def update_message_def Let_def)

definition send_all_queued :: "int \<Rightarrow> string list \<Rightarrow> Connection \<times> message_heap \<Rightarrow> Connection \<times> message_heap" where
  "send_all_queued now sids x = fold (\<lambda>sid. handleSending now sid None accept_all) sids x"

lemma send_all_queued_limit:
  assumes "ready n k c" and "cn_sendQueue c = as" and "distinct as" and "length sids = length as" and "distinct sids"
    and "set sids \<inter> fst ` set (cn_streams c) = {}"
  shows "let (c', S') = send_all_queued now sids (c, S)
    in written_out c' = written_out c @ map (\<lambda>a. wire (mh_heap S ! a)) (take (n - k) as) \<and> cn_sendQueue c' = []"
  using assms
proof (induction as arbitrary: c S k sids)
  case (Cons a as)
  then obtain sid sids' where sids: "sids = sid # sids'" by (cases sids) auto
  let ?q = "c\<lparr>cn_sendQueue := as\<rparr>"
  have q: "ready n k ?q" "written_out ?q = written_out c" "fst ` set (cn_streams ?q) = fst ` set (cn_streams c)"
    using Cons.prems(1) by (simp_all add: ready_def written_out_def)
  define c1 where "c1 = snd (sendMessageInternal now sid None accept_all (mh_heap S ! a) ?q)"
  have step: "handleSending now sid None accept_all (c, S) = (c1, Release a S)"
    using Cons.prems(2) by (simp add: handleSending_def c1_def)
  have same: "map (\<lambda>b. wire (mh_heap (Release a S) ! b)) (take j as) = map (\<lambda>b. wire (mh_heap S ! b)) (take j as)" for j
  proof (rule map_cong)
    fix b assume "b \<in> set (take j as)"
    then have "b \<noteq> a" using Cons.prems(3) by (auto dest: in_set_takeD)
    then show "wire (mh_heap (Release a S) ! b) = wire (mh_heap S ! b)" by simp
  qed simp
  show ?case
  proof (cases "k < n")
    case True
    have c1: "written_out c1 = written_out c @ [wire (mh_heap S ! a)]" "fst ` set (cn_streams c1) = insert sid (fst ` set (cn_streams c))"
      "ready n (Suc k) c1" "cn_sendQueue c1 = as"
      using sendMessageInternal_room [OF q(1) True, of sid now "mh_heap S ! a"] q(2,3) Cons.prems(6) sids by (auto simp: c1_def Let_def)
    have "n - k = Suc (n - Suc k)" using True by simp
    then show ?thesis
      using Cons.IH [OF c1(3,4), of sids' "Release a S"] Cons.prems(3-6) sids c1(1,2)
      by (simp add: send_all_queued_def step same split_beta Let_def)
  next
    case False
    then have k: "k = n" using Cons.prems(1) by (simp add: ready_def)
    then have c1: "c1 = ?q" using sendMessageInternal_full [of n ?q now sid "mh_heap S ! a"] q(1) by (simp add: c1_def)
    then show ?thesis
      using Cons.IH [of k c1 sids' "Release a S"] Cons.prems(3-6) sids q(1,2) k
      by (simp add: send_all_queued_def step split_beta Let_def)
  qed
qed (simp add: send_all_queued_def)

fun send_calls :: "nat list \<Rightarrow> perr option list \<times> Connection \<times> message_heap \<Rightarrow> perr option list \<times> Connection \<times> message_heap" where
  "send_calls [] x = x"
| "send_calls (a # as) (errs, c, S) = (case Connection_SendMessage a c S of (err, c, S) \<Rightarrow> send_calls as (errs @ [err], c, S))"

lemma send_calls_ok:
  assumes "ready n k c" and "length (cn_sendQueue c) + length as \<le> cn_buffer c"
  shows "\<exists>S'. send_calls as (errs, c, S) = (errs @ replicate (length as) None, c\<lparr>cn_sendQueue := cn_sendQueue c @ as\<rparr>, S')"
  using assms
proof (induction as arbitrary: c S errs)
  case (Cons a as)
  have "Connection_SendMessage a c S = (None, c\<lparr>cn_sendQueue := cn_sendQueue c @ [a]\<rparr>, Retain a S)"
    using Cons.prems by (simp add: Connection_SendMessage_def enqueue_message_def ready_def)
  moreover have "ready n k (c\<lparr>cn_sendQueue := cn_sendQueue c @ [a]\<rparr>)" using Cons.prems(1) by (simp add: ready_def)
  ultimately show ?case using Cons.IH [of "c\<lparr>cn_sendQueue := cn_sendQueue c @ [a]\<rparr>" "errs @ [None]" "Retain a S"] Cons.prems(2)
    by simp
qed simp

text \<open>
  C24. The limit of streams is a limit of messages. Every message sent takes a stream of its own, and the counter of streams never goes
  down, as nothing calls \<open>RemoveStream\<close>. On a new connection with \<open>MaxStreams = n\<close> all calls of \<open>SendMessage\<close> succeed that the queue
  has room for, but only the first \<open>n\<close> messages are ever written; the others vanish without an error.
\<close>

theorem send_limit:
  assumes "NewQUICConnection now cid buffer (int n) = Ret c" and "0 < n" and "n < 2 ^ 63" and "length as \<le> nat buffer"
    and "distinct as" and "distinct sids" and "length sids = length as"
    and "send_calls as ([], c, S) = (errs, c1, S1)" and "send_all_queued now' sids (c1, S1) = (c2, S2)"
  shows "errs = replicate (length as) None \<and> cn_sendQueue c2 = [] \<and>
    written_out c2 = map (\<lambda>a. wire (mh_heap S1 ! a)) (take n as)"
proof -
  have c: "ready n 0 c" "cn_sendQueue c = []" "cn_buffer c = nat buffer" "cn_streams c = []"
    using assms(1-3) by (auto simp: NewQUICConnection_def NewBaseConnection_def BaseConnection.defs conn_SetState_def ready_def split: if_splits)
  obtain S' where "send_calls as ([], c, S) = ([] @ replicate (length as) None, c\<lparr>cn_sendQueue := cn_sendQueue c @ as\<rparr>, S')"
    using send_calls_ok [OF c(1), of as "[]" S] c(2,3) assms(4) by auto
  with assms(8) c(2) have 1: "errs = replicate (length as) None" "c1 = c\<lparr>cn_sendQueue := as\<rparr>" by auto
  have "ready n 0 c1" "cn_sendQueue c1 = as" "cn_streams c1 = []" using c 1(2) by (simp_all add: ready_def)
  then show ?thesis
    using send_all_queued_limit [of n 0 c1 as sids now' S1] assms(5-7,9) 1(1) by (simp add: written_out_def)
qed

definition two_messages :: message_heap where
  "two_messages = \<lparr>mh_heap = [sample_message 40, sample_message 50], mh_pool = [], mh_gets = 0, mh_puts = 0\<rparr>"

theorem send_limit_witness:
  "\<exists>c errs c1 S1 c2 S2. NewQUICConnection 0 ''c'' 10 1 = Ret c \<and> send_calls [0, 1] ([], c, two_messages) = (errs, c1, S1) \<and>
     send_all_queued 5 [''s'', ''t''] (c1, S1) = (c2, S2) \<and> errs = [None, None] \<and> length (written_out c2) = 1"
proof -
  obtain c where c: "NewQUICConnection 0 ''c'' 10 (int 1) = Ret c" by (simp add: NewQUICConnection_def)
  obtain errs c1 S1 where 1: "send_calls [0, 1] ([], c, two_messages) = (errs, c1, S1)" by (cases "send_calls [0, 1] ([], c, two_messages)") auto
  obtain c2 S2 where 2: "send_all_queued 5 [''s'', ''t''] (c1, S1) = (c2, S2)" by fastforce
  from send_limit [OF c _ _ _ _ _ _ 1 2] have "errs = [None, None] \<and> length (written_out c2) = 1" by simp
  with c 1 2 show ?thesis by auto
qed

section \<open>The ping\<close>

definition ping_of :: "string \<Rightarrow> int \<Rightarrow> Message" where
  "ping_of mid start = ping_message (reset_message mid start zero_message)"

lemma ping_of_fits: "id_fits mid \<Longrightarrow> time_fits start \<Longrightarrow> frame_fits (ping_of mid start)"
  by (simp add: ping_of_def ping_message_def frame_fits_def reset_message_def set_payload_def id_fits_def time_fits_def)

lemma length_ping [simp]: "length (mg_Payload (ping_of mid start)) = 4"
  by (simp add: ping_of_def ping_message_def set_payload_def)

lemma close_stream_keeps [simp]: "cn_closed (close_stream sid c) = cn_closed c"
  by (simp add: close_stream_def on_stream_def split: option.split prod.split)

lemma peer_rejects_ping:
  assumes "GetStream sid p = Some s" and "\<not> qs_closed s" and "sm_config s = DefaultStreamConfig"
    and "qs_in s = wire (ping_of mid start)" and "id_fits mid" and "time_fits start"
  shows "\<exists>p' s'. handleStreamMessages pmid pnow pick chooseDone sid p S = Ret (False, p', S) \<and>
    GetStream sid p' = Some s' \<and> qs_out s' = qs_out s \<and> qs_fin s'"
proof -
  let ?s = "s\<lparr>qs_in := []\<rparr>"
  let ?p = "p\<lparr>cn_streams := AList.update sid ?s (cn_streams p)\<rparr>"
  have "Stream_ReceiveMessage pmid pnow pick s S = Ret (Inl (WrapError ErrInvalidMessage ''failed to parse message frame''), ?s, S)"
    using receive_wire [OF ping_of_fits [OF assms(5,6)] assms(2), of "[]" pmid pnow pick S] assms(3,4)
    by (simp add: DefaultStreamConfig_def)
  then have "handleStreamMessages pmid pnow pick chooseDone sid p S = Ret (False, close_stream sid ?p, S)"
    using assms(1) by (simp add: handleStreamMessages_def)
  moreover have "GetStream sid ?p = Some ?s" by (simp add: GetStream_def update_conv)
  then have "GetStream sid (close_stream sid ?p) = Some (snd (Stream_Close None ?s))"
    by (simp add: close_stream_def on_stream_def GetStream_def update_conv split_beta)
  moreover have "qs_fin (snd (Stream_Close None ?s))"
    using assms(2) by (simp add: Stream_Close_def)
  ultimately show ?thesis by simp
qed

lemma ping_sees_end:
  assumes "ready n k c" and "k < n" and "sid \<notin> fst ` set (cn_streams c)"
  shows "\<exists>c' S'. Connection_Ping mid start now None pick' sid None accept_all ([], Some EOF) c S = Ret (Inl EOF, c', S') \<and> \<not> cn_closed c'"
proof -
  let ?s = "NewQUICStream start sid (cn_id c) 0 DefaultStreamConfig"
  obtain a S1 where S1: "GetMessage mid start None S = (a, S1)" by fastforce
  define S2 where "S2 = update_message a ping_message S1"
  obtain s' where s': "Stream_SendMessage start accept_all (mh_heap S2 ! a) ?s = (None, s')" "\<not> qs_closed s'"
    using Stream_SendMessage_all [of ?s start "mh_heap S2 ! a"] by simp
  let ?c = "c\<lparr>cn_streamCounter := cn_streamCounter c + 1, cn_streams := cn_streams c @ [(sid, ?s)]\<rparr>"
  let ?d = "c\<lparr>cn_streamCounter := cn_streamCounter c + 1, cn_streams := cn_streams c @ [(sid, s')]\<rparr>"
  have send: "on_stream sid (Stream_SendMessage start accept_all (mh_heap S2 ! a)) None ?c = (None, ?d)"
    using on_stream_last [OF assms(3), of ?c ?s "Stream_SendMessage start accept_all (mh_heap S2 ! a)" None] s'(1) by simp
  have get: "GetStream sid ?d = Some s'" using map_of_last_entry [OF assms(3), of s'] by (simp add: GetStream_def del: map_of_append)
  have "Stream_ReceiveMessage mid now pick' (s'\<lparr>qs_in := [], qs_end := Some EOF\<rparr>) S2 = Ret (Inl EOF, s'\<lparr>qs_in := [], qs_end := Some EOF\<rparr>, S2)"
    using s'(2) by (simp add: Stream_ReceiveMessage_def read_full_def)
  then have "Connection_Ping mid start now None pick' sid None accept_all ([], Some EOF) c S =
      Ret (Inl EOF, close_stream sid (?d\<lparr>cn_streams := AList.update sid (s'\<lparr>qs_in := [], qs_end := Some EOF\<rparr>) (cn_streams ?d)\<rparr>), Release a S2)"
    using assms(1) OpenStream_room [OF assms, of start] send get S1
    by (simp add: Connection_Ping_def ready_def Let_def S2_def)
  then show ?thesis using assms(1) by (simp add: ready_def)
qed

text \<open>
  C38. A ping never succeeds. The peer that reads it off its stream rejects the frame, whose payload has four bytes, and closes the stream without
  an answer; the caller reads the end of the input, and the monitor closes a connection that works.
\<close>

theorem ping_fails:
  assumes "GetStream psid p = Some ps" and "\<not> qs_closed ps" and "sm_config ps = DefaultStreamConfig" and "qs_out ps = []"
    and "qs_in ps = wire (ping_of mid start)" and "id_fits mid" and "time_fits start"
    and "ready n k c" and "k < n" and "sid \<notin> fst ` set (cn_streams c)"
  shows "\<exists>p' ps' c' S'. handleStreamMessages pmid pnow ppick chooseDone psid p PS = Ret (False, p', PS) \<and>
    GetStream psid p' = Some ps' \<and> qs_fin ps' \<and>
    Connection_Ping mid start now None pick' sid None accept_all (qs_out ps', Some EOF) c S = Ret (Inl EOF, c', S') \<and>
    (let (goes_on, c'', T') = monitor_tick (Inl EOF) None c' T in \<not> goes_on \<and> cn_closed c'' \<and> cn_done c'')"
proof -
  obtain p' ps' where peer: "handleStreamMessages pmid pnow ppick chooseDone psid p PS = Ret (False, p', PS)"
    "GetStream psid p' = Some ps'" "qs_out ps' = []" "qs_fin ps'"
    using peer_rejects_ping [OF assms(1-3,5-7)] assms(4) by metis
  obtain c' S' where ping: "Connection_Ping mid start now None pick' sid None accept_all ([], Some EOF) c S = Ret (Inl EOF, c', S')"
    "\<not> cn_closed c'"
    using ping_sees_end [OF assms(8-10)] by blast
  have "let (goes_on, c'', T') = monitor_tick (Inl EOF) None c' T in \<not> goes_on \<and> cn_closed c'' \<and> cn_done c''"
    using ping(2) by (simp add: monitor_tick_def Connection_Close_def conn_SetState_def end_close_def begin_close_def conn_MarkClosed_def Let_def)
  with peer ping(1) show ?thesis by (intro exI [of _ p'] exI [of _ ps'] exI [of _ c'] exI [of _ S'] conjI) simp_all
qed

definition pinged_peer :: Connection where
  "pinged_peer = BaseConnection.extend (NewBaseConnection 0 ''p'') \<lparr>cn_closed = False, cn_messageQueue = [], cn_queueClosed = False,
     cn_sendQueue = [], cn_buffer = 1, cn_streams = [(''q'', new_stream\<lparr>qs_in := wire (ping_of ''m'' 3)\<rparr>)], cn_streamCounter = 1, cn_maxStreams = 100\<rparr>"

lemma pinged_peer_stream: "GetStream ''q'' pinged_peer = Some (new_stream\<lparr>qs_in := wire (ping_of ''m'' 3)\<rparr>)"
  by (simp add: pinged_peer_def GetStream_def BaseConnection.defs NewBaseConnection_def)

theorem ping_fails_witness:
  "\<exists>c p' ps' c' S'. NewQUICConnection 0 ''c'' 10 (int 100) = Ret c \<and>
     handleStreamMessages ''r'' 4 None False ''q'' pinged_peer (mu_msgs no_messages) = Ret (False, p', mu_msgs no_messages) \<and>
     GetStream ''q'' p' = Some ps' \<and>
     Connection_Ping ''m'' 3 9 None None ''s'' None accept_all (qs_out ps', Some EOF) c (mu_msgs no_messages) = Ret (Inl EOF, c', S')"
proof -
  obtain c where c: "NewQUICConnection 0 ''c'' 10 (int 100) = Ret c" by (simp add: NewQUICConnection_def)
  then have "ready 100 0 c" "cn_streams c = []"
    by (auto simp: NewQUICConnection_def NewBaseConnection_def BaseConnection.defs conn_SetState_def ready_def)
  with ping_fails [OF pinged_peer_stream, of "''m''" 3 100 0 c "''s''" "''r''" 4 None False "mu_msgs no_messages" 9 None "mu_msgs no_messages" undefined] c
  show ?thesis by (fastforce simp: id_fits_def time_fits_def new_stream_def NewQUICStream_def NewBaseStream_def BaseStream.defs)
qed

section \<open>Closing under traffic\<close>

text \<open>
  Closing a connection can crash the process. A goroutine that handles a stream has received a message; \<open>Close\<close> begins, the loop that
  accepts streams sees the connection closed and closes the queue of messages; the goroutine then panics as it sends to the
  closed queue. It panics for certain before the close has ended, and by the choice of the selection after it.
\<close>

theorem close_crashes:
  assumes "\<not> cn_done c" and "GetStream sid c = Some s" and "Stream_ReceiveMessage mid now pick s S = Ret (Inr a, s', S')"
    and "handleMessages now' sid' answer (begin_close c) = (r, c')"
  shows "r = (None, False) \<and> forward_message chooseDone a c' S' = Panic SendOnClosedChannel \<and>
    forward_message False a (end_close c') S' = Panic SendOnClosedChannel"
  using assms(1,4)
  by (auto simp: handleMessages_def begin_close_def Connection_AcceptStream_def conn_SetState_def forward_message_def end_close_def
      conn_MarkClosed_def Let_def)

theorem close_crashes_witness:
  "\<exists>c r c' S'. NewQUICConnection 0 ''c'' 10 100 = Ret c \<and>
     handleMessages 7 ''u'' None (begin_close (c\<lparr>cn_streams := [(''q'', new_stream\<lparr>qs_in := wire (sample_message 40)\<rparr>)]\<rparr>)) = (r, c') \<and>
     forward_message True 0 c' S' = Panic SendOnClosedChannel"
proof -
  obtain c where c: "NewQUICConnection 0 ''c'' 10 100 = Ret c" "\<not> cn_done c"
    by (simp add: NewQUICConnection_def NewBaseConnection_def BaseConnection.defs conn_SetState_def)
  let ?s = "new_stream\<lparr>qs_in := wire (sample_message 40)\<rparr>"
  let ?c = "c\<lparr>cn_streams := [(''q'', ?s)]\<rparr>"
  have fits: "frame_fits (sample_message 40)" by (rule sample_message_fits) simp
  have len: "length (mg_Payload (sample_message 40)) = 40" by (simp add: sample_message_def NewMessage_def)
  have "fst (GetMessage ''x'' 6 None (mu_msgs no_messages)) = 0"
    by (simp add: GetMessage_def take_item_def alloc_message_def no_messages_def)
  then obtain s' S' where recv: "Stream_ReceiveMessage ''x'' 6 None ?s (mu_msgs no_messages) = Ret (Inr 0, s', S')"
    using receive_wire [OF fits, of ?s "[]" "''x''" 6 None "mu_msgs no_messages"] len by (auto simp: split_beta Let_def)
  obtain r c' where h: "handleMessages 7 ''u'' None (begin_close ?c) = (r, c')" by fastforce
  have "\<not> cn_done ?c" "GetStream ''q'' ?c = Some ?s" using c(2) by (simp_all add: GetStream_def)
  from close_crashes [OF this recv h] c(1) h show ?thesis by blast
qed

section \<open>Retaining too late\<close>

text \<open>
  \<open>SendMessage\<close> retains a message after it has queued it. If the sending goroutine is faster, it takes, writes and releases
  the message first: the only reference, that of the caller, is gone, the message is in the pool while the caller still holds it, and the next
  \<open>GetMessage\<close> may hand it to somebody else, emptied. In the order meant nothing of this happens.
\<close>

theorem retain_after_release:
  assumes "enqueue_message a c = (None, c1)" and "cn_sendQueue c = []" and "a < length (mh_heap S)"
    and "mg_pooled (mh_heap S ! a)" and "mg_refCount (mh_heap S ! a) = 1"
    and "handleSending now sid answer accept (c1, S) = (c2, S2)"
    and "handleSending now sid answer accept (c1, Retain a S) = (c3, S3)"
  shows "let S2 = Retain a S2 in (a \<in> set (mh_pool S2) \<and> mg_refCount (mh_heap S2 ! a) = 1 \<and>
      fst (GetMessage mid now' (Some 0) S2) = a \<and>
      mh_heap (snd (GetMessage mid now' (Some 0) S2)) ! a = reset_message mid now' zero_message \<and>
      mh_pool S3 = mh_pool S \<and> mh_heap S3 = mh_heap S)"
proof -
  have c1: "cn_sendQueue c1 = [a]" using assms(1,2) by (auto simp: enqueue_message_def split: if_splits)
  let ?m = "(mh_heap S ! a)\<lparr>mg_refCount := 0\<rparr>"
  have S2: "S2 = S\<lparr>mh_heap := (mh_heap S)[a := clear_message ?m], mh_puts := mh_puts S + 1, mh_pool := a # mh_pool S\<rparr>"
    using assms(4-6) c1 by (simp add: handleSending_def Release_unfold [OF assms(3)] Let_def)
  have S3: "S3 = Release a (Retain a S)" using assms(7) c1 by (simp add: handleSending_def)
  have "(mh_heap S ! a)\<lparr>mg_refCount := 1\<rparr> = mh_heap S ! a" using assms(5) by (cases "mh_heap S ! a") simp
  then have upd: "(mh_heap S)[a := (mh_heap S ! a)\<lparr>mg_refCount := 1\<rparr>] = mh_heap S" by (metis list_update_id)
  then have keep: "mh_heap S3 = mh_heap S \<and> mh_pool S3 = mh_pool S"
    using assms(3,5) by (simp add: S3 Retain_def update_message_def Release_def Let_def)
  show ?thesis
    using assms(3,4) keep
    by (simp add: S2 Retain_def update_message_def GetMessage_def take_item_def clear_message_def reset_message_def zero_message_def Let_def)
qed

definition one_message :: message_heap where
  "one_message = \<lparr>mh_heap = [(sample_message 40)\<lparr>mg_pooled := True\<rparr>], mh_pool = [], mh_gets = 1, mh_puts = 0\<rparr>"

theorem retain_after_release_witness:
  "\<exists>c c1 c2 S2. NewQUICConnection 0 ''c'' 10 100 = Ret c \<and> enqueue_message 0 c = (None, c1) \<and>
     handleSending 5 ''s'' None accept_all (c1, one_message) = (c2, S2) \<and> fst (GetMessage ''n'' 6 (Some 0) (Retain 0 S2)) = 0"
proof -
  obtain c where c: "NewQUICConnection 0 ''c'' 10 100 = Ret c" "cn_sendQueue c = []"
    by (simp add: NewQUICConnection_def NewBaseConnection_def BaseConnection.defs conn_SetState_def)
  then obtain c1 where c1: "enqueue_message 0 c = (None, c1)"
    by (auto simp: enqueue_message_def NewQUICConnection_def NewBaseConnection_def BaseConnection.defs conn_SetState_def)
  obtain c2 S2 c3 S3 where 2: "handleSending 5 ''s'' None accept_all (c1, one_message) = (c2, S2)"
    "handleSending 5 ''s'' None accept_all (c1, Retain 0 one_message) = (c3, S3)" by (metis prod.exhaust)
  have "fst (GetMessage ''n'' 6 (Some 0) (Retain 0 S2)) = 0"
    using retain_after_release [OF c1 c(2) _ _ _ 2, of "''n''" 6] by (simp add: one_message_def sample_message_def NewMessage_def Let_def)
  with c c1 2 show ?thesis by blast
qed

end
