(* ===== verification/Server.thy ===== *)
theory Server
  imports Quic_Connection
begin

text \<open>
  The game server, \<open>internal/server/server.go\<close>: sessions, groups and scopes, the handlers of the messages of the clients, the
  health check and the life of the server. A \<open>sync.Map\<close> is an association list, or a list for a set. The connection of a session is
  an interface: \<open>sv_sent\<close> records the calls of its \<open>SendMessage\<close>, \<open>sv_closes\<close> those of its \<open>Close\<close>. A handler runs in the goroutine of its
  client and is one step; handlers of different clients may run in any order.
\<close>

section \<open>State\<close>

record ServerConfig =
  sf_ListenAddr :: string
  sf_MaxClients :: int
  sf_MessageTimeout :: int
  sf_MaxMessageSize :: int
  sf_MessageBufferSize :: int
  sf_MaxGroups :: int
  sf_MaxGroupMembers :: int
  sf_MaxScopes :: int
  sf_MaxScopeDataSize :: uint64
  sf_HealthCheckInterval :: int
  sf_ClientTimeout :: int

definition DefaultServerConfig :: ServerConfig where
  "DefaultServerConfig = \<lparr>sf_ListenAddr = ''127.0.0.1:8080'', sf_MaxClients = 10000, sf_MessageTimeout = 10 * 10 ^ 9,
     sf_MaxMessageSize = 1024 * 1024, sf_MessageBufferSize = 1000, sf_MaxGroups = 1000, sf_MaxGroupMembers = 10000, sf_MaxScopes = 500,
     sf_MaxScopeDataSize = 100 * 1024 * 1024, sf_HealthCheckInterval = 30 * 10 ^ 9, sf_ClientTimeout = 300 * 10 ^ 9\<rparr>"

record ClientSession =
  ss_ID :: string
  ss_Groups :: "string list"
  ss_Scopes :: "string list"
  ss_ConnectedAt :: int
  ss_LastSeen :: int
  ss_Active :: bool

text \<open>Groups and scopes have the same fields but the data of a scope, which nothing writes.\<close>

record Group =
  sg_Name :: string
  sg_Clients :: "string list"
  sg_ClientCount :: int
  sg_CreatedAt :: int

record Server =
  sv_clients :: "(string \<times> ClientSession) list"
  sv_clientCount :: int
  sv_groups :: "(string \<times> Group) list"
  sv_groupCount :: int
  sv_scopes :: "(string \<times> Group) list"
  sv_scopeCount :: int
  sv_running :: bool
  sv_closed :: bool
  sv_config :: ServerConfig
  sv_stopped :: bool
  sv_sent :: "(string \<times> nat) list"
  sv_closes :: "string list"

definition NewServer :: "ServerConfig \<Rightarrow> Server" where
  "NewServer config = \<lparr>sv_clients = [], sv_clientCount = 0, sv_groups = [], sv_groupCount = 0, sv_scopes = [], sv_scopeCount = 0,
     sv_running = False, sv_closed = False, sv_config = config, sv_stopped = False, sv_sent = [], sv_closes = []\<rparr>"

section \<open>Groups and scopes\<close>

definition new_group :: "int \<Rightarrow> string \<Rightarrow> Group" where
  "new_group now name = \<lparr>sg_Name = name, sg_Clients = [], sg_ClientCount = 0, sg_CreatedAt = now\<rparr>"

definition load_group :: "int \<Rightarrow> string \<Rightarrow> (string \<times> Group) list \<Rightarrow> Group" where
  "load_group now name gs = (case map_of gs name of Some g \<Rightarrow> g | None \<Rightarrow> new_group now name)"

definition group_add :: "string \<Rightarrow> Group \<Rightarrow> Group" where
  "group_add cid g = (if cid \<in> set (sg_Clients g) then g
     else g\<lparr>sg_Clients := sg_Clients g @ [cid], sg_ClientCount := sg_ClientCount g + 1\<rparr>)"

definition group_remove :: "string \<Rightarrow> Group \<Rightarrow> Group" where
  "group_remove cid g = (if cid \<in> set (sg_Clients g)
     then g\<lparr>sg_Clients := removeAll cid (sg_Clients g), sg_ClientCount := sg_ClientCount g - 1\<rparr> else g)"

definition join_group :: "int \<Rightarrow> string \<Rightarrow> string \<Rightarrow> (string \<times> Group) list \<Rightarrow> (string \<times> Group) list" where
  "join_group now name cid gs = AList.update name (group_add cid (load_group now name gs)) gs"

definition leave_group :: "string \<Rightarrow> string \<Rightarrow> (string \<times> Group) list \<Rightarrow> (string \<times> Group) list" where
  "leave_group name cid gs = (case map_of gs name of None \<Rightarrow> gs | Some g \<Rightarrow> AList.update name (group_remove cid g) gs)"

definition remove_from_all :: "string \<Rightarrow> (string \<times> Group) list \<Rightarrow> (string \<times> Group) list" where
  "remove_from_all cid gs = map (\<lambda>(name, g). (name, group_remove cid g)) gs"

text \<open>A change of a session that is in the map of the server.\<close>

definition on_session :: "string \<Rightarrow> (ClientSession \<Rightarrow> ClientSession) \<Rightarrow> Server \<Rightarrow> Server" where
  "on_session cid f s = (case map_of (sv_clients s) cid of None \<Rightarrow> s
     | Some x \<Rightarrow> s\<lparr>sv_clients := AList.update cid (f x) (sv_clients s)\<rparr>)"

definition store_name :: "string \<Rightarrow> string list \<Rightarrow> string list" where
  "store_name name ns = (if name \<in> set ns then ns else ns @ [name])"

definition handleJoinGroup :: "int \<Rightarrow> string \<Rightarrow> string \<Rightarrow> Server \<Rightarrow> Server" where
  "handleJoinGroup now cid name s =
     (if name = [] then s
      else on_session cid (\<lambda>x. x\<lparr>ss_Groups := store_name name (ss_Groups x)\<rparr>) (s\<lparr>sv_groups := join_group now name cid (sv_groups s)\<rparr>))"

definition handleLeaveGroup :: "string \<Rightarrow> string \<Rightarrow> Server \<Rightarrow> Server" where
  "handleLeaveGroup cid name s =
     (if name = [] then s
      else on_session cid (\<lambda>x. x\<lparr>ss_Groups := removeAll name (ss_Groups x)\<rparr>) (s\<lparr>sv_groups := leave_group name cid (sv_groups s)\<rparr>))"

definition handleSubscribeScope :: "int \<Rightarrow> string \<Rightarrow> string \<Rightarrow> Server \<Rightarrow> Server" where
  "handleSubscribeScope now cid name s =
     (if name = [] then s
      else on_session cid (\<lambda>x. x\<lparr>ss_Scopes := store_name name (ss_Scopes x)\<rparr>) (s\<lparr>sv_scopes := join_group now name cid (sv_scopes s)\<rparr>))"

definition handleUnsubscribeScope :: "string \<Rightarrow> string \<Rightarrow> Server \<Rightarrow> Server" where
  "handleUnsubscribeScope cid name s =
     (if name = [] then s
      else on_session cid (\<lambda>x. x\<lparr>ss_Scopes := removeAll name (ss_Scopes x)\<rparr>) (s\<lparr>sv_scopes := leave_group name cid (sv_scopes s)\<rparr>))"

section \<open>Messages of clients\<close>

record ControlMessage =
  cm_Action :: string
  cm_Group :: string
  cm_Scope :: string

text \<open>\<open>json.Unmarshal\<close> of the payload is the argument \<open>parsed\<close>.\<close>

definition handleControlMessage :: "int \<Rightarrow> ControlMessage option \<Rightarrow> string \<Rightarrow> Server \<Rightarrow> Server" where
  "handleControlMessage now parsed cid s = (case parsed of None \<Rightarrow> s | Some m \<Rightarrow>
     if cm_Action m = ''join_group'' then handleJoinGroup now cid (cm_Group m) s
     else if cm_Action m = ''leave_group'' then handleLeaveGroup cid (cm_Group m) s
     else if cm_Action m = ''subscribe_scope'' then handleSubscribeScope now cid (cm_Scope m) s
     else if cm_Action m = ''unsubscribe_scope'' then handleUnsubscribeScope cid (cm_Scope m) s
     else s)"

text \<open>An answer built from a message of the pool and given to the connection, which retains it if it takes it.\<close>

definition send_answer ::
  "string \<Rightarrow> int \<Rightarrow> nat option \<Rightarrow> bool \<Rightarrow> 8 word \<Rightarrow> string \<Rightarrow> string \<Rightarrow> Server \<Rightarrow> message_heap \<Rightarrow> Server \<times> message_heap" where
  "send_answer mid now pick taken msgType txt cid s S =
     (let (a, S) = GetMessage mid now pick S;
          S = update_message a (build_with (WithTarget cid) \<circ> build_with (WithString txt) \<circ> build_with (WithType msgType)) S
      in (s\<lparr>sv_sent := sv_sent s @ [(cid, a)]\<rparr>, if taken then Retain a S else S))"

definition handleDataMessage ::
  "string \<Rightarrow> int \<Rightarrow> nat option \<Rightarrow> bool \<Rightarrow> string \<Rightarrow> Message \<Rightarrow> Server \<Rightarrow> message_heap \<Rightarrow> Server \<times> message_heap" where
  "handleDataMessage mid now pick taken cid msg s S = send_answer mid now pick taken MessageTypeData (''Echo: '' @ AsString msg) cid s S"

definition handleHeartbeatMessage :: "string \<Rightarrow> int \<Rightarrow> nat option \<Rightarrow> bool \<Rightarrow> string \<Rightarrow> Server \<Rightarrow> message_heap \<Rightarrow> Server \<times> message_heap" where
  "handleHeartbeatMessage mid now pick taken cid s S = send_answer mid now pick taken MessageTypeHeartbeat ''pong'' cid s S"

definition server_handleMessage ::
  "string \<Rightarrow> int \<Rightarrow> nat option \<Rightarrow> bool \<Rightarrow> (bytes \<Rightarrow> ControlMessage option) \<Rightarrow> string \<Rightarrow> nat \<Rightarrow> Server \<Rightarrow> message_heap \<Rightarrow> Server \<times> message_heap" where
  "server_handleMessage mid now pick taken parse cid a s S =
     (let msg = mh_heap S ! a;
          (s, S) = (if mg_Type msg = MessageTypeControl then (handleControlMessage now (parse (mg_Payload msg)) cid s, S)
             else if mg_Type msg = MessageTypeData then handleDataMessage mid now pick taken cid msg s S
             else if mg_Type msg = MessageTypeHeartbeat then handleHeartbeatMessage mid now pick taken cid s S
             else (s, S))
      in (s, Release a S))"

section \<open>Clients\<close>

text \<open>A round of \<open>acceptConnections\<close> with a connection; \<open>cid\<close> is the identifier generated.\<close>

definition accept_connection :: "int \<Rightarrow> string \<Rightarrow> Server \<Rightarrow> Server" where
  "accept_connection now cid s =
     (if sv_clientCount s \<ge> sf_MaxClients (sv_config s) then s\<lparr>sv_closes := sv_closes s @ [cid]\<rparr>
      else s\<lparr>sv_clients := AList.update cid \<lparr>ss_ID = cid, ss_Groups = [], ss_Scopes = [], ss_ConnectedAt = now, ss_LastSeen = now, ss_Active = True\<rparr>
               (sv_clients s), sv_clientCount := sv_clientCount s + 1\<rparr>)"

text \<open>The end of \<open>handleClient\<close>, and one round of its loop with the outcome of \<open>ReceiveMessage\<close>; a \<open>None\<close> is no error and no message.\<close>

definition end_client :: "string \<Rightarrow> Server \<Rightarrow> Server" where
  "end_client cid s = s\<lparr>sv_clients := AList.delete cid (sv_clients s), sv_clientCount := sv_clientCount s - 1,
     sv_groups := remove_from_all cid (sv_groups s), sv_scopes := remove_from_all cid (sv_scopes s), sv_closes := sv_closes s @ [cid]\<rparr>"

definition handleClient_round ::
  "string \<Rightarrow> int \<Rightarrow> nat option \<Rightarrow> bool \<Rightarrow> (bytes \<Rightarrow> ControlMessage option) \<Rightarrow> string \<Rightarrow> perr + nat option \<Rightarrow> Server \<Rightarrow> message_heap \<Rightarrow> Server \<times> message_heap" where
  "handleClient_round mid now pick taken parse cid received s S = (case map_of (sv_clients s) cid of
       None \<Rightarrow> (s, S)
     | Some x \<Rightarrow>
       if \<not> ss_Active x then (end_client cid s, S)
       else case received of
           Inl err \<Rightarrow> (end_client cid s, S)
         | Inr None \<Rightarrow> (s, S)
         | Inr (Some a) \<Rightarrow> server_handleMessage mid now pick taken parse cid a (on_session cid (\<lambda>x. x\<lparr>ss_LastSeen := now\<rparr>) s) S)"

text \<open>\<open>BroadcastToGroup\<close>: the sendings, each in a goroutine, are recorded in the order of the members.\<close>

definition ErrGroupNotFound :: perr where "ErrGroupNotFound = Plain ''group not found''"

definition BroadcastToGroup :: "string \<Rightarrow> nat \<Rightarrow> Server \<Rightarrow> perr option \<times> Server" where
  "BroadcastToGroup name a s = (case map_of (sv_groups s) name of
       None \<Rightarrow> (Some ErrGroupNotFound, s)
     | Some g \<Rightarrow> (None, s\<lparr>sv_sent := sv_sent s @ map (\<lambda>cid. (cid, a)) (filter (\<lambda>cid. map_of (sv_clients s) cid \<noteq> None) (sg_Clients g))\<rparr>))"

text \<open>\<open>performHealthChecks\<close>; the times are in seconds but for the configured one. The session goes on until its \<open>ReceiveMessage\<close> returns.\<close>

definition performHealthChecks :: "int \<Rightarrow> Server \<Rightarrow> Server" where
  "performHealthChecks now s = s\<lparr>sv_clients := map (\<lambda>(cid, x).
     (cid, if now - ss_LastSeen x > sf_ClientTimeout (sv_config s) div 10 ^ 9 then x\<lparr>ss_Active := False\<rparr> else x)) (sv_clients s)\<rparr>"

record ServerStats =
  st_ClientCount :: int
  st_GroupCount :: int
  st_ScopeCount :: int
  st_Running :: bool

definition GetStats :: "Server \<Rightarrow> ServerStats" where
  "GetStats s = \<lparr>st_ClientCount = sv_clientCount s, st_GroupCount = sv_groupCount s, st_ScopeCount = sv_scopeCount s, st_Running = sv_running s\<rparr>"

section \<open>The life of the server\<close>

definition ErrServerClosed :: perr where "ErrServerClosed = Plain ''server is closed''"
definition ErrServerAlreadyRunning :: perr where "ErrServerAlreadyRunning = Plain ''server is already running''"
definition ErrServerNotRunning :: perr where "ErrServerNotRunning = Plain ''server is not running''"

text \<open>\<open>listened\<close> is the error of the transport.\<close>

definition server_Start :: "perr option \<Rightarrow> Server \<Rightarrow> perr option \<times> Server" where
  "server_Start listened s =
     (if sv_closed s then (Some ErrServerClosed, s)
      else if sv_running s then (Some ErrServerAlreadyRunning, s)
      else case listened of Some err \<Rightarrow> (Some err, s\<lparr>sv_running := False\<rparr>) | None \<Rightarrow> (None, s\<lparr>sv_running := True\<rparr>))"

definition server_Stop :: "Server \<Rightarrow> (perr option \<times> Server) outcome" where
  "server_Stop s =
     (if \<not> sv_running s then Ret (Some ErrServerNotRunning, s)
      else let s = s\<lparr>sv_running := False\<rparr>
           in if sv_stopped s then Panic CloseOfClosedChannel
              else Ret (None, s\<lparr>sv_stopped := True, sv_closes := sv_closes s @ map fst (sv_clients s)\<rparr>))"

definition server_Close :: "Server \<Rightarrow> (perr option \<times> Server) outcome" where
  "server_Close s =
     (if sv_closed s then Ret (None, s)
      else let s = s\<lparr>sv_closed := True\<rparr>
           in if sv_running s then bind_outcome (server_Stop s) (\<lambda>(e, s). Ret (None, s)) else Ret (None, s))"

text \<open>A round of \<open>healthMonitor\<close> tells whether the loop goes on: a tick, or the closed channel, which it must find at last.\<close>

definition healthMonitor_round :: "bool \<Rightarrow> int \<Rightarrow> Server \<Rightarrow> bool \<times> Server" where
  "healthMonitor_round ticked now s =
     (if ticked then (True, performHealthChecks now s) else (\<not> sv_stopped s, s))"

section \<open>Members\<close>

definition group_clients :: "(string \<times> Group) list \<Rightarrow> string \<Rightarrow> string list" where
  "group_clients gs name = (case map_of gs name of Some g \<Rightarrow> sg_Clients g | None \<Rightarrow> [])"

definition groups_ok :: "(string \<times> Group) list \<Rightarrow> bool" where
  "groups_ok gs \<longleftrightarrow> (\<forall>name g. map_of gs name = Some g \<longrightarrow> distinct (sg_Clients g) \<and> sg_ClientCount g = int (length (sg_Clients g)))"

definition linked :: "(string \<times> ClientSession) list \<Rightarrow> (ClientSession \<Rightarrow> string list) \<Rightarrow> (string \<times> Group) list \<Rightarrow> bool" where
  "linked cs joined gs \<longleftrightarrow> (\<forall>cid name. cid \<in> set (group_clients gs name) \<longleftrightarrow> (\<exists>x. map_of cs cid = Some x \<and> name \<in> set (joined x)))"

lemma groups_okD:
  "groups_ok gs \<Longrightarrow> map_of gs name = Some g \<Longrightarrow> distinct (sg_Clients g)"
  "groups_ok gs \<Longrightarrow> map_of gs name = Some g \<Longrightarrow> sg_ClientCount g = int (length (sg_Clients g))"
  "groups_ok gs \<Longrightarrow> distinct (group_clients gs name)"
  by (auto simp: groups_ok_def group_clients_def split: option.split)

lemma groups_ok_load: "groups_ok gs \<Longrightarrow> distinct (sg_Clients (load_group now name gs)) \<and>
    sg_ClientCount (load_group now name gs) = int (length (sg_Clients (load_group now name gs)))"
  by (auto simp: load_group_def new_group_def groups_okD split: option.split)

lemma members_load: "sg_Clients (load_group now name gs) = group_clients gs name"
  by (simp add: load_group_def new_group_def group_clients_def split: option.split)

lemma group_add_ok: "distinct (sg_Clients g) \<and> sg_ClientCount g = int (length (sg_Clients g)) \<Longrightarrow>
    distinct (sg_Clients (group_add cid g)) \<and> sg_ClientCount (group_add cid g) = int (length (sg_Clients (group_add cid g)))"
  by (simp add: group_add_def)

lemma group_remove_ok:
  assumes "distinct (sg_Clients g)" and "sg_ClientCount g = int (length (sg_Clients g))"
  shows "distinct (sg_Clients (group_remove cid g)) \<and> sg_ClientCount (group_remove cid g) = int (length (sg_Clients (group_remove cid g)))"
proof (cases "cid \<in> set (sg_Clients g)")
  case True
  have "length (removeAll cid (sg_Clients g)) = length (sg_Clients g) - 1"
    using assms(1) True by (simp add: distinct_remove1_removeAll [symmetric] length_remove1)
  moreover have "0 < length (sg_Clients g)" using True by (rule length_pos_if_in_set)
  ultimately show ?thesis using assms True by (simp add: group_remove_def distinct_removeAll of_nat_diff Suc_le_eq)
qed (use assms in \<open>simp add: group_remove_def\<close>)

lemma set_group_add: "set (sg_Clients (group_add cid g)) = insert cid (set (sg_Clients g))"
  by (auto simp: group_add_def)

lemma set_group_remove: "set (sg_Clients (group_remove cid g)) = set (sg_Clients g) - {cid}"
  by (auto simp: group_remove_def)

lemma join_group_ok: "groups_ok gs \<Longrightarrow> groups_ok (join_group now name cid gs)"
  using groups_ok_load [of gs now name] group_add_ok [of "load_group now name gs" cid]
  by (auto simp: groups_ok_def join_group_def update_conv)

lemma leave_group_ok: "groups_ok gs \<Longrightarrow> groups_ok (leave_group name cid gs)"
  using group_remove_ok by (auto simp: groups_ok_def leave_group_def update_conv split: option.split)

lemma map_of_remove_from_all: "map_of (remove_from_all cid gs) name = map_option (group_remove cid) (map_of gs name)"
  by (induction gs) (auto simp: remove_from_all_def)

lemma remove_from_all_ok: "groups_ok gs \<Longrightarrow> groups_ok (remove_from_all cid gs)"
  using group_remove_ok by (auto simp: groups_ok_def map_of_remove_from_all)

lemma members_join: "set (group_clients (join_group now name cid gs) n) = (if n = name then insert cid (set (group_clients gs n)) else set (group_clients gs n))"
  using members_load [of now name gs] by (auto simp: group_clients_def join_group_def update_conv set_group_add)

lemma members_leave: "set (group_clients (leave_group name cid gs) n) = (if n = name then set (group_clients gs n) - {cid} else set (group_clients gs n))"
  by (auto simp: group_clients_def leave_group_def update_conv set_group_remove split: option.splits)

lemma members_remove: "set (group_clients (remove_from_all cid gs) n) = set (group_clients gs n) - {cid}"
  by (auto simp: group_clients_def map_of_remove_from_all set_group_remove split: option.split)

lemma linkedI:
  "(\<And>cid name. cid \<in> set (group_clients gs name) \<longleftrightarrow> (\<exists>x. map_of cs cid = Some x \<and> name \<in> set (joined x))) \<Longrightarrow> linked cs joined gs"
  by (simp add: linked_def)

lemma linkedD: "linked cs joined gs \<Longrightarrow> cid \<in> set (group_clients gs name) \<longleftrightarrow> (\<exists>x. map_of cs cid = Some x \<and> name \<in> set (joined x))"
  by (simp add: linked_def)

lemma linked_update:
  assumes "linked cs joined gs" and "map_of cs cid = Some x" and "joined y = joined x"
  shows "linked (AList.update cid y cs) joined gs"
  by (rule linkedI) (use assms(2,3) in \<open>simp add: linkedD [OF assms(1)] update_conv\<close>)

lemma linked_join:
  assumes "linked cs joined gs" and "map_of cs cid = Some x" and "set (joined y) = insert name (set (joined x))"
  shows "linked (AList.update cid y cs) joined (join_group now name cid gs)"
  by (rule linkedI) (use assms(2,3) in \<open>auto simp: members_join linkedD [OF assms(1)] update_conv\<close>)

lemma linked_leave:
  assumes "linked cs joined gs" and "map_of cs cid = Some x" and "set (joined y) = set (joined x) - {name}"
  shows "linked (AList.update cid y cs) joined (leave_group name cid gs)"
  by (rule linkedI) (use assms(2,3) in \<open>auto simp: members_leave linkedD [OF assms(1)] update_conv\<close>)

lemma linked_new:
  assumes "linked cs joined gs" and "map_of cs cid = None" and "joined y = []"
  shows "linked (AList.update cid y cs) joined gs"
  by (rule linkedI) (use assms(2,3) in \<open>simp add: linkedD [OF assms(1)] update_conv\<close>)

lemma linked_end: "linked cs joined gs \<Longrightarrow> linked (AList.delete cid cs) joined (remove_from_all cid gs)"
proof -
  assume "linked cs joined gs"
  then have "c \<in> set (group_clients gs n) \<longleftrightarrow> (\<exists>x. map_of cs c = Some x \<and> n \<in> set (joined x))" for c n by (simp add: linked_def)
  then show ?thesis unfolding linked_def members_remove delete_conv by simp
qed

lemma linked_map:
  assumes "linked cs joined gs" and "\<And>x. joined (f x) = joined x"
  shows "linked (map (\<lambda>(cid, x). (cid, f x)) cs) joined gs"
proof -
  have "map_of (map (\<lambda>(cid, x). (cid, f x)) cs) cid = map_option f (map_of cs cid)" for cid
    by (induction cs) auto
  with assms show ?thesis by (auto simp: linked_def)
qed

section \<open>The server among its clients\<close>

definition server_inv :: "ServerConfig \<Rightarrow> Server \<Rightarrow> bool" where
  "server_inv config s \<longleftrightarrow> sv_config s = config \<and> distinct (map fst (sv_clients s)) \<and> sv_clientCount s = int (length (sv_clients s)) \<and>
     sv_clientCount s \<le> max 0 (sf_MaxClients config) \<and> sv_groupCount s = 0 \<and> sv_scopeCount s = 0 \<and>
     groups_ok (sv_groups s) \<and> groups_ok (sv_scopes s) \<and>
     linked (sv_clients s) ss_Groups (sv_groups s) \<and> linked (sv_clients s) ss_Scopes (sv_scopes s)"

text \<open>The steps: a connection is accepted under a new identifier, a client has a round of its loop, the health check runs, somebody broadcasts.\<close>

inductive server_step :: "Server \<Rightarrow> Server \<Rightarrow> bool" where
  accepts: "map_of (sv_clients s) cid = None \<Longrightarrow> server_step s (accept_connection now cid s)"
| round: "handleClient_round mid now pick taken parse cid received s S = (s', S') \<Longrightarrow> server_step s s'"
| checks: "server_step s (performHealthChecks now s)"
| broadcasts: "BroadcastToGroup name a s = (e, s') \<Longrightarrow> server_step s s'"

lemma accept_inv:
  assumes "server_inv config s" and "map_of (sv_clients s) cid = None"
  shows "server_inv config (accept_connection now cid s)"
proof -
  have "cid \<notin> fst ` set (sv_clients s)" using assms(2) by (simp add: map_of_eq_None_iff)
  then have "length (AList.update cid x (sv_clients s)) = length (sv_clients s) + 1" for x by (simp add: update_new)
  with assms show ?thesis
    by (auto simp: accept_connection_def server_inv_def distinct_update linked_new)
qed

lemma on_session_eq: "map_of (sv_clients s) cid = Some x \<Longrightarrow> on_session cid f s = s\<lparr>sv_clients := AList.update cid (f x) (sv_clients s)\<rparr>"
  by (simp add: on_session_def)

lemma length_update_old: "map_of al k = Some v \<Longrightarrow> length (AList.update k w al) = length al"
  by (induction al) (auto split: if_splits)

lemma seen_inv:
  assumes "server_inv config s" and "map_of (sv_clients s) cid = Some x"
  shows "server_inv config (on_session cid (\<lambda>x. x\<lparr>ss_LastSeen := now\<rparr>) s)"
  using assms by (simp add: on_session_eq server_inv_def distinct_update length_update_old linked_update)

lemma set_store_name [simp]: "set (store_name name ns) = insert name (set ns)"
  by (auto simp: store_name_def)

lemma control_inv:
  assumes inv: "server_inv config s" and x: "map_of (sv_clients s) cid = Some x"
  shows "server_inv config (handleControlMessage now parsed cid s)"
proof -
  have "server_inv config (handleJoinGroup now cid name s)" for name
    using inv x
    by (auto simp: handleJoinGroup_def on_session_eq server_inv_def distinct_update length_update_old join_group_ok linked_join linked_update)
  moreover have "server_inv config (handleLeaveGroup cid name s)" for name
    using inv x
    by (auto simp: handleLeaveGroup_def on_session_eq server_inv_def distinct_update length_update_old leave_group_ok linked_leave linked_update)
  moreover have "server_inv config (handleSubscribeScope now cid name s)" for name
    using inv x
    by (auto simp: handleSubscribeScope_def on_session_eq server_inv_def distinct_update length_update_old join_group_ok linked_join linked_update)
  moreover have "server_inv config (handleUnsubscribeScope cid name s)" for name
    using inv x
    by (auto simp: handleUnsubscribeScope_def on_session_eq server_inv_def distinct_update length_update_old leave_group_ok linked_leave linked_update)
  ultimately show ?thesis using inv by (simp add: handleControlMessage_def split: option.split)
qed

lemma sent_inv [simp]: "server_inv config (s\<lparr>sv_sent := l\<rparr>) = server_inv config s"
  by (simp add: server_inv_def)

lemma end_inv:
  assumes "server_inv config s" and "map_of (sv_clients s) cid = Some x"
  shows "server_inv config (end_client cid s)"
proof -
  have "length (AList.delete cid al) = length al - 1" if "distinct (map fst al)" "map_of al cid = Some x" for al
    using that
  proof (induction al)
    case (Cons p al)
    show ?case
    proof (cases "fst p = cid")
      case True
      with Cons.prems(1) have "cid \<notin> fst ` set al" by auto
      then have "AList.delete cid al = al" by (induction al) auto
      with True show ?thesis by simp
    next
      case False
      with Cons.prems have "al \<noteq> []" "map_of al cid = Some x" by auto
      with False Cons show ?thesis by (cases al) auto
    qed
  qed simp
  moreover have "0 < length (sv_clients s)" using assms(2) by (cases "sv_clients s") auto
  ultimately show ?thesis
    using assms by (auto simp: end_client_def server_inv_def distinct_delete remove_from_all_ok linked_end of_nat_diff Suc_le_eq)
qed

lemma round_inv:
  assumes inv: "server_inv config s" and "handleClient_round mid now pick taken parse cid received s S = (s', S')"
  shows "server_inv config s'"
proof (cases "map_of (sv_clients s) cid")
  case (Some x)
  let ?s = "on_session cid (\<lambda>x. x\<lparr>ss_LastSeen := now\<rparr>) s"
  have s: "server_inv config ?s" "map_of (sv_clients ?s) cid = Some (x\<lparr>ss_LastSeen := now\<rparr>)"
    using seen_inv [OF inv Some] Some by (simp_all add: on_session_eq update_conv)
  have "server_inv config (fst (server_handleMessage mid now pick taken parse cid a ?s S))" for a
    using control_inv [OF s] s(1)
    by (simp add: server_handleMessage_def handleDataMessage_def handleHeartbeatMessage_def send_answer_def Let_def split_beta)
  then show ?thesis
    using assms(2) Some end_inv [OF inv Some] inv
    by (auto simp: handleClient_round_def split: if_splits sum.splits option.splits) (metis fst_conv)
qed (use assms in \<open>simp add: handleClient_round_def\<close>)

lemma map_values_keys: "map fst (map (\<lambda>(k, x). (k, f x)) al) = map fst al"
  by (induction al) auto

lemma checks_inv: "server_inv config s \<Longrightarrow> server_inv config (performHealthChecks now s)"
proof -
  let ?f = "\<lambda>x. if now - ss_LastSeen x > sf_ClientTimeout (sv_config s) div 10 ^ 9 then x\<lparr>ss_Active := False\<rparr> else x"
  have "linked (map (\<lambda>(cid, x). (cid, ?f x)) cs) ss_Groups gs" if "linked cs ss_Groups gs" for cs gs
    by (rule linked_map [OF that]) simp
  moreover have "linked (map (\<lambda>(cid, x). (cid, ?f x)) cs) ss_Scopes gs" if "linked cs ss_Scopes gs" for cs gs
    by (rule linked_map [OF that]) simp
  ultimately show "server_inv config s \<Longrightarrow> ?thesis"
    by (simp add: performHealthChecks_def server_inv_def map_values_keys del: map_map)
qed

lemma server_step_inv: "server_step s s' \<Longrightarrow> server_inv config s \<Longrightarrow> server_inv config s'"
  by (induction rule: server_step.induct)
    (auto simp: accept_inv checks_inv BroadcastToGroup_def split: option.splits dest: round_inv)

lemma server_inv_start: "server_inv config (NewServer config)"
  by (simp add: server_inv_def NewServer_def groups_ok_def linked_def group_clients_def)

text \<open>
  C12. The server's books agree, whatever connections come and go and whatever their messages, health checks and broadcasts do, in
  any order. The group_clients of a group or scope are exactly the connected clients that have joined it, each once, and counted; there are never
  more clients than \<open>MaxClients\<close>; a broadcast sends to exactly the group_clients. The statistics count the clients, but never a group or
  a scope.
\<close>

theorem server_consistent:
  assumes "server_step\<^sup>*\<^sup>* (NewServer config) s"
  shows "GetStats s = \<lparr>st_ClientCount = int (length (sv_clients s)), st_GroupCount = 0, st_ScopeCount = 0, st_Running = sv_running s\<rparr> \<and>
    int (length (sv_clients s)) \<le> max 0 (sf_MaxClients config) \<and>
    (\<forall>name g. map_of (sv_groups s) name = Some g \<longrightarrow>
       distinct (sg_Clients g) \<and> sg_ClientCount g = int (length (sg_Clients g)) \<and>
       set (sg_Clients g) = {cid. \<exists>x. map_of (sv_clients s) cid = Some x \<and> name \<in> set (ss_Groups x)} \<and>
       BroadcastToGroup name a s = (None, s\<lparr>sv_sent := sv_sent s @ map (\<lambda>cid. (cid, a)) (sg_Clients g)\<rparr>)) \<and>
    (\<forall>name g. map_of (sv_scopes s) name = Some g \<longrightarrow>
       distinct (sg_Clients g) \<and> sg_ClientCount g = int (length (sg_Clients g)) \<and>
       set (sg_Clients g) = {cid. \<exists>x. map_of (sv_clients s) cid = Some x \<and> name \<in> set (ss_Scopes x)})"
proof -
  from assms have inv: "server_inv config s"
    by (induction rule: rtranclp_induct) (blast intro: server_inv_start server_step_inv)+
  have group: "set (sg_Clients g) = {cid. \<exists>x. map_of (sv_clients s) cid = Some x \<and> name \<in> set (ss_Groups x)}"
    if "map_of (sv_groups s) name = Some g" for name g
    using that linkedD [of "sv_clients s" ss_Groups "sv_groups s" _ name] inv by (auto simp: server_inv_def group_clients_def)
  have scope: "set (sg_Clients g) = {cid. \<exists>x. map_of (sv_clients s) cid = Some x \<and> name \<in> set (ss_Scopes x)}"
    if "map_of (sv_scopes s) name = Some g" for name g
    using that linkedD [of "sv_clients s" ss_Scopes "sv_scopes s" _ name] inv by (auto simp: server_inv_def group_clients_def)
  have "filter (\<lambda>cid. map_of (sv_clients s) cid \<noteq> None) (sg_Clients g) = sg_Clients g"
    if "map_of (sv_groups s) name = Some g" for name g
    using group [OF that] by (auto simp: filter_id_conv)
  then have cast: "BroadcastToGroup name a s = (None, s\<lparr>sv_sent := sv_sent s @ map (\<lambda>cid. (cid, a)) (sg_Clients g)\<rparr>)"
    if "map_of (sv_groups s) name = Some g" for name g
    using that by (simp add: BroadcastToGroup_def)
  have ok: "groups_ok (sv_groups s)" "groups_ok (sv_scopes s)" using inv by (simp_all add: server_inv_def)
  show ?thesis
    using inv group scope cast groups_okD(1,2) [OF ok(1)] groups_okD(1,2) [OF ok(2)]
    by (intro conjI allI impI) (simp_all add: server_inv_def GetStats_def)
qed

definition lobby_server :: Server where
  "lobby_server = handleJoinGroup 2 ''a'' ''lobby'' (on_session ''a'' (\<lambda>x. x\<lparr>ss_LastSeen := 2\<rparr>) (accept_connection 1 ''a'' (NewServer DefaultServerConfig)))"

theorem server_consistent_witness:
  "server_step\<^sup>*\<^sup>* (NewServer DefaultServerConfig) lobby_server \<and>
   (\<exists>g. map_of (sv_groups lobby_server) ''lobby'' = Some g \<and> set (sg_Clients g) = {''a''} \<and> st_GroupCount (GetStats lobby_server) = 0)"
proof -
  let ?s = "accept_connection 1 ''a'' (NewServer DefaultServerConfig)"
  define S where "S = \<lparr>mh_heap = [NewMessage ''m'' 2 MessageTypeControl []], mh_pool = [], mh_gets = 0, mh_puts = 0\<rparr>"
  let ?parse = "\<lambda>p. Some \<lparr>cm_Action = ''join_group'', cm_Group = ''lobby'', cm_Scope = []\<rparr>"
  have "map_of (sv_clients ?s) ''a'' \<noteq> None" "map_of (sv_clients (NewServer DefaultServerConfig)) ''a'' = None"
    by (simp_all add: accept_connection_def NewServer_def DefaultServerConfig_def)
  then have "\<exists>S'. handleClient_round [] 2 None False ?parse ''a'' (Inr (Some 0)) ?s S = (lobby_server, S')"
    by (auto simp: handleClient_round_def server_handleMessage_def S_def NewMessage_def handleControlMessage_def lobby_server_def
        accept_connection_def NewServer_def DefaultServerConfig_def Let_def)
  then have reach: "server_step\<^sup>*\<^sup>* (NewServer DefaultServerConfig) lobby_server"
    using accepts [of "NewServer DefaultServerConfig" "''a''" 1] \<open>map_of (sv_clients (NewServer DefaultServerConfig)) ''a'' = None\<close> round
    by (meson rtranclp.rtrancl_into_rtrancl rtranclp.rtrancl_refl)
  have sv: "map_of (sv_groups lobby_server) ''lobby'' \<noteq> None" "map fst (sv_clients lobby_server) = [''a'']"
    "map_of (sv_clients lobby_server) ''a'' \<noteq> None"
    "\<And>x. map_of (sv_clients lobby_server) ''a'' = Some x \<Longrightarrow> ss_Groups x = [''lobby'']"
    by (auto simp: lobby_server_def handleJoinGroup_def on_session_def accept_connection_def NewServer_def DefaultServerConfig_def join_group_def store_name_def)
  have only: "cid = ''a''" if "map_of (sv_clients lobby_server) cid = Some x" for cid x
  proof -
    have "cid \<in> set (map fst (sv_clients lobby_server))" using map_of_SomeD [OF that] by force
    with sv(2) show ?thesis by simp
  qed
  obtain g where g: "map_of (sv_groups lobby_server) ''lobby'' = Some g" using sv(1) by blast
  then have "set (sg_Clients g) = {cid. \<exists>x. map_of (sv_clients lobby_server) cid = Some x \<and> ''lobby'' \<in> set (ss_Groups x)}"
    "st_GroupCount (GetStats lobby_server) = 0"
    using server_consistent [OF reach, of 0] by simp_all
  moreover have "{cid. \<exists>x. map_of (sv_clients lobby_server) cid = Some x \<and> ''lobby'' \<in> set (ss_Groups x)} = {''a''}"
    using only sv(3,4) by fastforce
  ultimately show ?thesis using reach g by simp
qed

text \<open>
  A server cannot be restarted. The channel that stops its goroutines is closed by the first \<open>Stop\<close> and never made again: a second
  \<open>Start\<close> succeeds, but its health monitor ends at once, and the next \<open>Stop\<close> or \<open>Close\<close> panics.
\<close>

theorem restart_panics:
  "\<exists>s1 s2 s3. server_Start None (NewServer config) = (None, s1) \<and> server_Stop s1 = Ret (None, s2) \<and> server_Start None s2 = (None, s3) \<and>
     sv_running s3 \<and> healthMonitor_round False now s3 = (False, s3) \<and>
     server_Stop s3 = Panic CloseOfClosedChannel \<and> server_Close s3 = Panic CloseOfClosedChannel"
  by (simp add: server_Start_def server_Stop_def server_Close_def NewServer_def healthMonitor_round_def)

end
