(* ===== verification/Client_SDK.thy ===== *)
theory Client_SDK
  imports Server
begin

text \<open>
  The client library, \<open>sdk/go/client/client.go\<close>: the connection and its goroutines, messages, groups and scopes, handlers.
  The connection is an interface: what it answers is an argument. \<open>cl_sent\<close> records the messages given to it,
  \<open>cl_running\<close> the handlers started in goroutines of their own, which have still to run.
\<close>

section \<open>State\<close>

record ClientConfig =
  ck_ServerAddr :: string
  ck_ConnectTimeout :: int
  ck_ReconnectInterval :: int
  ck_MaxReconnectAttempts :: int
  ck_MessageTimeout :: int
  ck_MaxMessageSize :: int
  ck_MessageBufferSize :: int
  ck_HeartbeatInterval :: int
  ck_HealthCheckTimeout :: int

definition DefaultClientConfig :: ClientConfig where
  "DefaultClientConfig = \<lparr>ck_ServerAddr = ''127.0.0.1:8080'', ck_ConnectTimeout = 30 * 10 ^ 9, ck_ReconnectInterval = 5 * 10 ^ 9,
     ck_MaxReconnectAttempts = 10, ck_MessageTimeout = 10 * 10 ^ 9, ck_MaxMessageSize = 1024 * 1024, ck_MessageBufferSize = 1000,
     ck_HeartbeatInterval = 30 * 10 ^ 9, ck_HealthCheckTimeout = 5 * 10 ^ 9\<rparr>"

datatype EventType = EventTypeConnected | EventTypeDisconnected | EventTypeReconnecting | EventTypeError
  | EventTypeJoinedGroup string | EventTypeLeftGroup string | EventTypeJoinedScope string | EventTypeLeftScope string

text \<open>The type of an event is a string in the source; the name of the group or scope is its data.\<close>

primrec event_name :: "EventType \<Rightarrow> string" where
  "event_name EventTypeConnected = ''connected''"
| "event_name EventTypeDisconnected = ''disconnected''"
| "event_name EventTypeReconnecting = ''reconnecting''"
| "event_name EventTypeError = ''error''"
| "event_name (EventTypeJoinedGroup g) = ''joined_group''"
| "event_name (EventTypeLeftGroup g) = ''left_group''"
| "event_name (EventTypeJoinedScope s) = ''joined_scope''"
| "event_name (EventTypeLeftScope s) = ''left_scope''"

datatype started = MessageCall nat nat | EventCall nat EventType

text \<open>\<open>cl_conn\<close> is the connection, which tells whether it is done; the last fields count the goroutines of each kind that are alive.\<close>

record 'v Client =
  cl_conn :: "bool option"
  cl_id :: string
  cl_groups :: "string list"
  cl_scopes :: "string list"
  cl_metadata :: "(string \<times> 'v) list"
  cl_messageHandlers :: "8 word \<Rightarrow> nat list"
  cl_eventHandlers :: "string \<Rightarrow> nat list"
  cl_connected :: bool
  cl_closed :: bool
  cl_done :: bool
  cl_config :: ClientConfig
  cl_sent :: "nat list"
  cl_running :: "started list"
  cl_receivers :: nat
  cl_monitors :: nat
  cl_reconnectors :: nat

definition NewClient :: "string \<Rightarrow> ClientConfig \<Rightarrow> 'v Client" where
  "NewClient cid config = \<lparr>cl_conn = None, cl_id = cid, cl_groups = [], cl_scopes = [], cl_metadata = [], cl_messageHandlers = (\<lambda>t. []),
     cl_eventHandlers = (\<lambda>t. []), cl_connected = False, cl_closed = False, cl_done = False, cl_config = config, cl_sent = [],
     cl_running = [], cl_receivers = 0, cl_monitors = 0, cl_reconnectors = 0\<rparr>"

definition ErrClientClosed :: perr where "ErrClientClosed = Plain ''client is closed''"
definition ErrNotConnected :: perr where "ErrNotConnected = Plain ''client is not connected''"
definition ErrAlreadyConnected :: perr where "ErrAlreadyConnected = Plain ''client is already connected''"

section \<open>Handlers\<close>

definition OnMessage :: "8 word \<Rightarrow> nat \<Rightarrow> 'v Client \<Rightarrow> 'v Client" where
  "OnMessage msgType handler c = c\<lparr>cl_messageHandlers := (cl_messageHandlers c)(msgType := cl_messageHandlers c msgType @ [handler])\<rparr>"

definition OnEvent :: "string \<Rightarrow> nat \<Rightarrow> 'v Client \<Rightarrow> 'v Client" where
  "OnEvent eventType handler c = c\<lparr>cl_eventHandlers := (cl_eventHandlers c)(eventType := cl_eventHandlers c eventType @ [handler])\<rparr>"

definition emitEvent :: "EventType \<Rightarrow> 'v Client \<Rightarrow> 'v Client" where
  "emitEvent event c = c\<lparr>cl_running := cl_running c @ map (\<lambda>h. EventCall h event) (cl_eventHandlers c (event_name event))\<rparr>"

definition client_handleMessage :: "nat \<Rightarrow> 'v Client \<Rightarrow> message_heap \<Rightarrow> 'v Client \<times> message_heap" where
  "client_handleMessage a c S =
     (c\<lparr>cl_running := cl_running c @ map (\<lambda>h. MessageCall h a) (cl_messageHandlers c (mg_Type (mh_heap S ! a)))\<rparr>, Release a S)"

definition client_SetMetadata :: "string \<Rightarrow> 'v \<Rightarrow> 'v Client \<Rightarrow> 'v Client" where
  "client_SetMetadata key v c = c\<lparr>cl_metadata := AList.update key v (cl_metadata c)\<rparr>"

definition client_GetMetadata :: "string \<Rightarrow> 'v Client \<Rightarrow> 'v option" where
  "client_GetMetadata key c = map_of (cl_metadata c) key"

section \<open>Connecting\<close>

definition startWorkers :: "'v Client \<Rightarrow> 'v Client" where
  "startWorkers c = c\<lparr>cl_receivers := cl_receivers c + 1, cl_monitors := cl_monitors c + 1, cl_reconnectors := cl_reconnectors c + 1\<rparr>"

text \<open>\<open>dialed\<close> is the error of the transport.\<close>

definition Connect :: "perr option \<Rightarrow> 'v Client \<Rightarrow> perr option \<times> 'v Client" where
  "Connect dialed c =
     (if cl_closed c then (Some ErrClientClosed, c)
      else if cl_connected c then (Some ErrAlreadyConnected, c)
      else case dialed of
          Some err \<Rightarrow> (Some err, c)
        | None \<Rightarrow> (None, emitEvent EventTypeConnected (startWorkers (c\<lparr>cl_conn := Some False, cl_connected := True\<rparr>))))"

text \<open>\<open>Disconnect\<close> up to the wait for the goroutines, and after it.\<close>

definition begin_Disconnect :: "'v Client \<Rightarrow> perr option \<times> 'v Client" where
  "begin_Disconnect c =
     (if \<not> cl_connected c then (Some ErrNotConnected, c)
      else (None, c\<lparr>cl_connected := False, cl_conn := map_option (\<lambda>d. True) (cl_conn c)\<rparr>))"

definition stopped :: "'v Client \<Rightarrow> bool" where
  "stopped c \<longleftrightarrow> cl_receivers c = 0 \<and> cl_monitors c = 0 \<and> cl_reconnectors c = 0"

definition end_Disconnect :: "'v Client \<Rightarrow> 'v Client" where
  "end_Disconnect c = emitEvent EventTypeDisconnected c"

definition end_Close :: "'v Client \<Rightarrow> 'v Client" where
  "end_Close c = (if cl_done c then c else c\<lparr>cl_done := True\<rparr>)"

text \<open>The tests at the top of the loops of the goroutines, and a reconnection with the outcomes of its attempts.\<close>

definition receiver_goes_on :: "'v Client \<Rightarrow> bool" where
  "receiver_goes_on c \<longleftrightarrow> cl_connected c \<and> \<not> cl_closed c"

primrec reconnect :: "perr option list \<Rightarrow> 'v Client \<Rightarrow> 'v Client" where
  "reconnect [] c = c"
| "reconnect (dialed # ds) c = (case Connect dialed c of (None, c) \<Rightarrow> c | (Some err, c) \<Rightarrow> reconnect ds c)"

definition connection_lost :: "perr option list \<Rightarrow> 'v Client \<Rightarrow> 'v Client" where
  "connection_lost dialed c =
     reconnect (take (nat (ck_MaxReconnectAttempts (cl_config c))) dialed) (emitEvent EventTypeReconnecting (c\<lparr>cl_connected := False\<rparr>))"

section \<open>Sending\<close>

text \<open>\<open>answer\<close> is the result of \<open>SendMessage\<close> of the connection, which retains a message it takes.\<close>

definition client_SendMessage :: "perr option \<Rightarrow> nat \<Rightarrow> 'v Client \<Rightarrow> message_heap \<Rightarrow> perr option \<times> 'v Client \<times> message_heap" where
  "client_SendMessage answer a c S =
     (if \<not> cl_connected c then (Some ErrNotConnected, c, S)
      else if cl_closed c then (Some ErrClientClosed, c, S)
      else let S = update_message a (\<lambda>m. m\<lparr>mg_Source := cl_id c\<rparr>) S
           in (answer, c\<lparr>cl_sent := cl_sent c @ [a]\<rparr>, if answer = None then Retain a S else S))"

text \<open>\<open>SendMessageWithTimeout\<close> returns the answer of the connection or, if that comes first, the error of its context.\<close>

definition SendMessageWithTimeout :: "perr option \<Rightarrow> perr option \<Rightarrow> nat \<Rightarrow> 'v Client \<Rightarrow> message_heap \<Rightarrow> perr option \<times> 'v Client \<times> message_heap" where
  "SendMessageWithTimeout expired answer a c S =
     (if \<not> cl_connected c then (Some ErrNotConnected, c, S)
      else (case expired of Some err \<Rightarrow> Some err | None \<Rightarrow> answer, c\<lparr>cl_sent := cl_sent c @ [a]\<rparr>, if answer = None then Retain a S else S))"

definition SendString :: "string \<Rightarrow> int \<Rightarrow> perr option \<Rightarrow> 8 word \<Rightarrow> string \<Rightarrow> 'v Client \<Rightarrow> message_heap \<Rightarrow> perr option \<times> 'v Client \<times> message_heap" where
  "SendString mid now answer msgType txt c S =
     (let (a, S) = alloc_message (NewMessageFromString mid now msgType txt) S in client_SendMessage answer a c S)"

definition SendBytes :: "string \<Rightarrow> int \<Rightarrow> perr option \<Rightarrow> 8 word \<Rightarrow> bytes \<Rightarrow> 'v Client \<Rightarrow> message_heap \<Rightarrow> perr option \<times> 'v Client \<times> message_heap" where
  "SendBytes mid now answer msgType bs c S =
     (let (a, S) = alloc_message (NewMessageFromBytes mid now msgType bs) S in client_SendMessage answer a c S)"

definition SendJSON ::
  "string \<Rightarrow> int \<Rightarrow> perr option \<Rightarrow> 8 word \<Rightarrow> perr + bytes \<Rightarrow> 'v Client \<Rightarrow> message_heap \<Rightarrow> perr option \<times> 'v Client \<times> message_heap" where
  "SendJSON mid now answer msgType encoded c S = (case encoded of
       Inl err \<Rightarrow> (Some err, c, S)
     | Inr bs \<Rightarrow> SendBytes mid now answer msgType bs c S)"

text \<open>The control messages: \<open>encode\<close> is \<open>json.Marshal\<close> of a map of strings.\<close>

definition send_control ::
  "string \<Rightarrow> int \<Rightarrow> nat option \<Rightarrow> perr option \<Rightarrow> ((string \<times> string) list \<Rightarrow> go_err + bytes) \<Rightarrow> (string \<times> string) list \<Rightarrow>
     'v Client \<Rightarrow> message_heap \<Rightarrow> perr option \<times> 'v Client \<times> message_heap" where
  "send_control mid now pick answer encode obj c S =
     (let (a, S) = GetMessage mid now pick S;
          S = update_message a (build_with (WithJSON (encode obj)) \<circ> build_with (WithType MessageTypeControl)) S
      in client_SendMessage answer a c S)"

definition JoinGroup ::
  "string \<Rightarrow> int \<Rightarrow> nat option \<Rightarrow> perr option \<Rightarrow> ((string \<times> string) list \<Rightarrow> go_err + bytes) \<Rightarrow> string \<Rightarrow>
     'v Client \<Rightarrow> message_heap \<Rightarrow> perr option \<times> 'v Client \<times> message_heap" where
  "JoinGroup mid now pick answer encode groupName c S =
     (if \<not> cl_connected c then (Some ErrNotConnected, c, S)
      else case send_control mid now pick answer encode [(''action'', ''join_group''), (''group'', groupName)] c S of
          (Some err, c, S) \<Rightarrow> (Some err, c, S)
        | (None, c, S) \<Rightarrow> (None, emitEvent (EventTypeJoinedGroup groupName) (c\<lparr>cl_groups := store_name groupName (cl_groups c)\<rparr>), S))"

definition LeaveGroup ::
  "string \<Rightarrow> int \<Rightarrow> nat option \<Rightarrow> perr option \<Rightarrow> ((string \<times> string) list \<Rightarrow> go_err + bytes) \<Rightarrow> string \<Rightarrow>
     'v Client \<Rightarrow> message_heap \<Rightarrow> perr option \<times> 'v Client \<times> message_heap" where
  "LeaveGroup mid now pick answer encode groupName c S =
     (if \<not> cl_connected c then (Some ErrNotConnected, c, S)
      else case send_control mid now pick answer encode [(''action'', ''leave_group''), (''group'', groupName)] c S of
          (Some err, c, S) \<Rightarrow> (Some err, c, S)
        | (None, c, S) \<Rightarrow> (None, emitEvent (EventTypeLeftGroup groupName) (c\<lparr>cl_groups := removeAll groupName (cl_groups c)\<rparr>), S))"

definition SubscribeToScope ::
  "string \<Rightarrow> int \<Rightarrow> nat option \<Rightarrow> perr option \<Rightarrow> ((string \<times> string) list \<Rightarrow> go_err + bytes) \<Rightarrow> string \<Rightarrow>
     'v Client \<Rightarrow> message_heap \<Rightarrow> perr option \<times> 'v Client \<times> message_heap" where
  "SubscribeToScope mid now pick answer encode scopeName c S =
     (if \<not> cl_connected c then (Some ErrNotConnected, c, S)
      else case send_control mid now pick answer encode [(''action'', ''subscribe_scope''), (''scope'', scopeName)] c S of
          (Some err, c, S) \<Rightarrow> (Some err, c, S)
        | (None, c, S) \<Rightarrow> (None, emitEvent (EventTypeJoinedScope scopeName) (c\<lparr>cl_scopes := store_name scopeName (cl_scopes c)\<rparr>), S))"

definition UnsubscribeFromScope ::
  "string \<Rightarrow> int \<Rightarrow> nat option \<Rightarrow> perr option \<Rightarrow> ((string \<times> string) list \<Rightarrow> go_err + bytes) \<Rightarrow> string \<Rightarrow>
     'v Client \<Rightarrow> message_heap \<Rightarrow> perr option \<times> 'v Client \<times> message_heap" where
  "UnsubscribeFromScope mid now pick answer encode scopeName c S =
     (if \<not> cl_connected c then (Some ErrNotConnected, c, S)
      else case send_control mid now pick answer encode [(''action'', ''unsubscribe_scope''), (''scope'', scopeName)] c S of
          (Some err, c, S) \<Rightarrow> (Some err, c, S)
        | (None, c, S) \<Rightarrow> (None, emitEvent (EventTypeLeftScope scopeName) (c\<lparr>cl_scopes := removeAll scopeName (cl_scopes c)\<rparr>), S))"

definition client_Ping :: "perr + int \<Rightarrow> 'v Client \<Rightarrow> perr + int" where
  "client_Ping answer c = (if \<not> cl_connected c then Inl ErrNotConnected else answer)"

section \<open>Calls under way\<close>

text \<open>
  A client and the calls of \<open>Disconnect\<close> and \<open>Close\<close> that have not returned. \<open>Closing\<close> has set the closed flag,
  \<open>InClose\<close> and \<open>InDisconnect\<close> wait for the goroutines. The other operations leave what \<open>lifecycle\<close> reads.
\<close>

datatype client_call = Closing | InClose | InDisconnect

definition lifecycle :: "'v Client \<Rightarrow> bool option \<times> bool \<times> bool \<times> bool \<times> nat \<times> nat \<times> nat" where
  "lifecycle c = (cl_conn c, cl_connected c, cl_closed c, cl_done c, cl_receivers c, cl_monitors c, cl_reconnectors c)"

inductive client_step :: "'v Client \<times> client_call list \<Rightarrow> 'v Client \<times> client_call list \<Rightarrow> bool" where
  connects: "client_step (c, W) (snd (Connect dialed c), W)"
| works: "lifecycle c' = lifecycle c \<Longrightarrow> client_step (c, W) (c', W)"
| drops: "client_step (c, W) (c\<lparr>cl_conn := map_option (\<lambda>d. True) (cl_conn c)\<rparr>, W)"
| disconnects: "begin_Disconnect c = (None, c') \<Longrightarrow> client_step (c, W) (c', InDisconnect # W)"
| disconnected: "stopped c \<Longrightarrow> InDisconnect \<in> set W \<Longrightarrow> client_step (c, W) (end_Disconnect c, remove1 InDisconnect W)"
| closes: "\<not> cl_closed c \<Longrightarrow> client_step (c, W) (c\<lparr>cl_closed := True\<rparr>, Closing # W)"
| close_disconnects: "Closing \<in> set W \<Longrightarrow> begin_Disconnect c = (None, c') \<Longrightarrow> client_step (c, W) (c', InClose # remove1 Closing W)"
| close_unconnected: "Closing \<in> set W \<Longrightarrow> begin_Disconnect c = (Some err, c') \<Longrightarrow> client_step (c, W) (end_Close c', remove1 Closing W)"
| close_returns: "stopped c \<Longrightarrow> InClose \<in> set W \<Longrightarrow> client_step (c, W) (end_Close (end_Disconnect c), remove1 InClose W)"
| receiver_ends: "\<not> receiver_goes_on c \<Longrightarrow> client_step (c, W) (c\<lparr>cl_receivers := cl_receivers c - 1\<rparr>, W)"
| monitor_ends: "cl_done c \<Longrightarrow> client_step (c, W) (c\<lparr>cl_monitors := cl_monitors c - 1\<rparr>, W)"
| reconnector_ends: "cl_closed c \<or> cl_done c \<Longrightarrow> client_step (c, W) (c\<lparr>cl_reconnectors := cl_reconnectors c - 1\<rparr>, W)"
| reconnects: "0 < cl_reconnectors c \<Longrightarrow> cl_conn c = Some True \<Longrightarrow> \<not> cl_closed c \<Longrightarrow> client_step (c, W) (connection_lost dialed c, W)"

lemma lifecycle_emitEvent [simp]: "lifecycle (emitEvent e c) = lifecycle c"
  by (simp add: lifecycle_def emitEvent_def)

lemma emitEvent_sel [simp]:
  "cl_conn (emitEvent e c) = cl_conn c" "cl_connected (emitEvent e c) = cl_connected c" "cl_closed (emitEvent e c) = cl_closed c"
  "cl_done (emitEvent e c) = cl_done c" "cl_receivers (emitEvent e c) = cl_receivers c" "cl_monitors (emitEvent e c) = cl_monitors c"
  "cl_reconnectors (emitEvent e c) = cl_reconnectors c"
  by (simp_all add: emitEvent_def)

text \<open>
  The health monitor of a connection runs until the done channel is closed, which only a \<open>Close\<close> that has not to wait does.
  \<open>waits\<close> says so of every call that waits.
\<close>

definition client_ok :: "bool \<Rightarrow> bool \<Rightarrow> bool \<Rightarrow> bool \<Rightarrow> nat \<Rightarrow> nat \<Rightarrow> nat \<Rightarrow> nat \<Rightarrow> bool" where
  "client_ok has_conn connected closed dn monitors closing waiting disconnecting \<longleftrightarrow>
     (has_conn \<and> \<not> dn \<longrightarrow> 0 < monitors) \<and> (connected \<longrightarrow> has_conn) \<and> (dn \<longrightarrow> closed) \<and>
     closing + waiting \<le> (if closed \<and> \<not> dn then 1 else 0) \<and> (0 < waiting + disconnecting \<longrightarrow> has_conn)"

definition client_inv :: "'v Client \<times> client_call list \<Rightarrow> bool" where
  "client_inv = (\<lambda>(c, W). client_ok (cl_conn c \<noteq> None) (cl_connected c) (cl_closed c) (cl_done c) (cl_monitors c)
     (count_list W Closing) (count_list W InClose) (count_list W InDisconnect))"

lemma count_list_remove1 [simp]: "count_list (remove1 x xs) y = count_list xs y - (if x = y then 1 else 0)"
proof (induction xs)
  case (Cons z zs)
  then show ?case by (cases "x = z"; cases "x = y"; cases "count_list zs y"; simp)
qed simp

lemma count_list_pos: "x \<in> set xs \<Longrightarrow> 0 < count_list xs x"
  by (metis count_list_0_iff gr0I)

lemma Connect_inv: "client_inv (c, W) \<Longrightarrow> client_inv (snd (Connect dialed c), W)"
  by (cases dialed) (auto simp: client_inv_def client_ok_def Connect_def startWorkers_def)

lemma reconnect_inv: "client_inv (c, W) \<Longrightarrow> client_inv (reconnect ds c, W)"
proof (induction ds arbitrary: c)
  case (Cons dialed ds)
  then show ?case using Connect_inv [OF Cons.prems, of dialed] by (auto split: prod.splits option.splits)
qed simp

lemma begin_Disconnect_cases:
  "begin_Disconnect c = (None, c') \<longleftrightarrow> cl_connected c \<and> c' = c\<lparr>cl_connected := False, cl_conn := map_option (\<lambda>d. True) (cl_conn c)\<rparr>"
  "begin_Disconnect c = (Some err, c') \<longleftrightarrow> \<not> cl_connected c \<and> err = ErrNotConnected \<and> c' = c"
  by (auto simp: begin_Disconnect_def)

lemma client_step_inv: "client_step x y \<Longrightarrow> client_inv x \<Longrightarrow> client_inv y"
proof (induction rule: client_step.induct)
  case (connects c W dialed)
  then show ?case by (rule Connect_inv)
next
  case (reconnects c W dialed)
  have "client_inv (emitEvent EventTypeReconnecting (c\<lparr>cl_connected := False\<rparr>), W)"
    using reconnects.prems by (simp add: client_inv_def client_ok_def)
  then show ?case unfolding connection_lost_def by (rule reconnect_inv)
next
  case (works c' c W)
  then show ?case by (simp add: client_inv_def lifecycle_def)
next
  case (drops c W)
  then show ?case by (cases "cl_conn c") (simp_all add: client_inv_def ex_bool_eq)
next
  case (disconnects c c' W)
  then show ?case by (auto simp: client_inv_def client_ok_def begin_Disconnect_cases ex_bool_eq)
next
  case (disconnected c W)
  then show ?case by (simp add: client_inv_def client_ok_def end_Disconnect_def)
next
  case (closes c W)
  then show ?case by (simp add: client_inv_def client_ok_def)
next
  case (close_disconnects W c c')
  then show ?case using count_list_pos [of Closing W]
    by (cases "count_list W Closing") (simp_all add: client_inv_def client_ok_def begin_Disconnect_cases ex_bool_eq split: if_splits)
next
  case (close_unconnected W c err c')
  then show ?case using count_list_pos [of Closing W]
    by (simp add: client_inv_def client_ok_def begin_Disconnect_cases end_Close_def split: if_splits)
next
  case (close_returns c W)
  then show ?case using count_list_pos [of InClose W] by (auto simp: client_inv_def client_ok_def stopped_def split: if_splits)
next
  case (receiver_ends c W)
  then show ?case by (simp add: client_inv_def)
next
  case (monitor_ends c W)
  then show ?case by (simp add: client_inv_def client_ok_def)
next
  case (reconnector_ends c W)
  then show ?case by (simp add: client_inv_def)
qed

text \<open>A call that waits for the goroutines of an unclosed client, or a close that waits, keeps waiting.\<close>

lemma not_stopped:
  assumes "client_inv (c, W)"
  shows "InClose \<in> set W \<Longrightarrow> \<not> cl_done c \<and> \<not> stopped c \<and> 0 < cl_monitors c" "InDisconnect \<in> set W \<Longrightarrow> \<not> cl_done c \<Longrightarrow> \<not> stopped c"
  using assms count_list_pos [of InClose W] count_list_pos [of InDisconnect W]
  by (auto simp: client_inv_def client_ok_def stopped_def split: if_splits)

lemma waiting_step: "client_step x y \<Longrightarrow> client_inv x \<Longrightarrow> InClose \<in> set (snd x) \<Longrightarrow> InClose \<in> set (snd y)"
proof (induction rule: client_step.induct)
  case (close_returns c W)
  then show ?case using not_stopped(1) by blast
qed (simp_all add: in_set_remove1)

lemma client_inv_start: "client_inv (NewClient cid config, [])"
  by (simp add: client_inv_def client_ok_def NewClient_def)

lemma client_steps_inv: "client_step\<^sup>*\<^sup>* x y \<Longrightarrow> client_inv x \<Longrightarrow> client_inv y"
  by (induction rule: rtranclp_induct) (auto intro: client_step_inv)

text \<open>
  C25. Once \<open>Close\<close> has disconnected a client, it waits in every state the client can reach: the health monitor it waits for
  ends when the done channel is closed, and \<open>Close\<close> closes that channel after the wait. A \<open>Disconnect\<close> waits until
  the client is closed by a \<open>Close\<close> that finds it disconnected.
\<close>

theorem close_never_returns:
  assumes "client_step\<^sup>*\<^sup>* (NewClient cid config, []) (c, W)" "InClose \<in> set W" "client_step\<^sup>*\<^sup>* (c, W) (c', W')"
  shows "InClose \<in> set W' \<and> \<not> cl_done c' \<and> \<not> stopped c' \<and> 0 < cl_monitors c'"
proof -
  have inv: "client_inv (c, W)" using assms(1) client_steps_inv client_inv_start by blast
  have "client_inv y \<and> InClose \<in> set (snd y)" if "client_step\<^sup>*\<^sup>* (c, W) y" for y
    using that
  proof (induction rule: rtranclp_induct)
    case base
    show ?case using inv assms(2) by simp
  next
    case (step y z)
    then have "client_inv y" "InClose \<in> set (snd y)" "client_step y z" by simp_all
    then show ?case using client_step_inv [of y z] waiting_step [of y z] by simp
  qed
  from this [OF assms(3)] have "client_inv (c', W')" "InClose \<in> set W'" by simp_all
  then show ?thesis using not_stopped(1) [of c' W'] by simp
qed

text \<open>A client that connects and is closed.\<close>

lemma closing_run:
  assumes "c = snd (Connect None (NewClient cid config))"
  shows "client_step\<^sup>*\<^sup>* (NewClient cid config, []) (snd (begin_Disconnect (c\<lparr>cl_closed := True\<rparr>)), [InClose])"
proof -
  have conn: "cl_connected c" "\<not> cl_closed c" using assms by (simp_all add: Connect_def NewClient_def startWorkers_def)
  have "client_step (NewClient cid config, []) (c, [])" unfolding assms by (rule connects)
  moreover have "client_step (c, []) (c\<lparr>cl_closed := True\<rparr>, [Closing])" using conn by (intro closes)
  moreover have "client_step (c\<lparr>cl_closed := True\<rparr>, [Closing])
      (snd (begin_Disconnect (c\<lparr>cl_closed := True\<rparr>)), InClose # remove1 Closing [Closing])"
    using conn by (intro close_disconnects) (simp_all add: begin_Disconnect_def)
  ultimately show ?thesis by (simp add: rtranclp.rtrancl_into_rtrancl [OF rtranclp.rtrancl_into_rtrancl [OF r_into_rtranclp]])
qed

theorem close_never_returns_witness:
  "let c = snd (begin_Disconnect ((snd (Connect None (NewClient ''c'' DefaultClientConfig)))\<lparr>cl_closed := True\<rparr>)) :: nat Client
   in \<not> cl_connected c \<and> 0 < cl_monitors c \<and> \<not> stopped c \<and> \<not> cl_done c"
proof -
  let ?c = "snd (begin_Disconnect ((snd (Connect None (NewClient ''c'' DefaultClientConfig)))\<lparr>cl_closed := True\<rparr>)) :: nat Client"
  have "client_step\<^sup>*\<^sup>* (NewClient ''c'' DefaultClientConfig, []) (?c, [InClose])" by (rule closing_run [OF refl])
  from close_never_returns [OF this _ rtranclp.rtrancl_refl] have "\<not> cl_done ?c \<and> \<not> stopped ?c \<and> 0 < cl_monitors ?c" by simp
  moreover have "\<not> cl_connected ?c" by (simp add: begin_Disconnect_def Connect_def NewClient_def startWorkers_def)
  ultimately show ?thesis by (simp add: Let_def)
qed

section \<open>Messages handed to handlers\<close>

text \<open>
  A message from the pool that nobody else holds goes back to the pool, with its payload cleared, before the handlers
  it was given to have run; the next \<open>GetMessage\<close> may hand it out again.
\<close>

theorem handlers_see_recycled:
  assumes "a < length (mh_heap S)" "mg_pooled (mh_heap S ! a)" "mg_refCount (mh_heap S ! a) = 1"
    and "h \<in> set (cl_messageHandlers c (mg_Type (mh_heap S ! a)))" "client_handleMessage a c S = (c', S')"
  shows "MessageCall h a \<in> set (cl_running c') \<and> a \<in> set (mh_pool S') \<and> mg_Payload (mh_heap S' ! a) = [] \<and>
    fst (GetMessage mid now (Some 0) S') = a"
proof -
  have "mh_pool S' = a # mh_pool S" "mh_heap S' = (mh_heap S)[a := clear_message ((mh_heap S ! a)\<lparr>mg_refCount := 0\<rparr>)]"
    using assms by (auto simp: client_handleMessage_def Release_unfold Let_def)
  with assms show ?thesis by (auto simp: client_handleMessage_def clear_message_def GetMessage_def take_item_def Let_def)
qed

theorem handlers_see_recycled_witness:
  "let (a, S) = GetMessage ''m'' 0 None \<lparr>mh_heap = [], mh_pool = [], mh_gets = 0, mh_puts = 0\<rparr>;
       c = OnMessage 0 5 (NewClient ''c'' DefaultClientConfig) :: nat Client; (c', S') = client_handleMessage a c S
   in MessageCall 5 a \<in> set (cl_running c') \<and> a \<in> set (mh_pool S')"
proof -
  define S where "S = snd (GetMessage ''m'' 0 None \<lparr>mh_heap = [], mh_pool = [], mh_gets = 0, mh_puts = 0\<rparr>)"
  let ?c = "OnMessage 0 5 (NewClient ''c'' DefaultClientConfig) :: nat Client"
  have get: "GetMessage ''m'' 0 None \<lparr>mh_heap = [], mh_pool = [], mh_gets = 0, mh_puts = 0\<rparr> = (0, S)"
    by (simp add: S_def GetMessage_def take_item_def alloc_message_def update_message_def Let_def)
  have heap: "mh_heap S = [reset_message ''m'' 0 zero_message]"
    by (simp add: S_def GetMessage_def take_item_def alloc_message_def update_message_def Let_def)
  obtain c' S' where handled: "client_handleMessage 0 ?c S = (c', S')" by (cases "client_handleMessage 0 ?c S")
  have "MessageCall 5 0 \<in> set (cl_running c') \<and> 0 \<in> set (mh_pool S')"
    using handlers_see_recycled [OF _ _ _ _ handled, of 5]
    by (simp add: heap reset_message_def MessageTypeData_def OnMessage_def NewClient_def)
  then show ?thesis by (simp add: get handled)
qed

end
