(* ===== verification/Json_Control.thy ===== *)
theory Json_Control
  imports Client_SDK
begin

text \<open>
  The text of control messages. Client and server agree on it through \<open>encoding/json\<close>: \<open>control_codec\<close> states what they rely on, and
  \<open>json_Marshal\<close> and \<open>json_Unmarshal\<close> are the package of the standard library as far as they use it: the object of two strings that
  the client writes, with the escapes of Go 1.24, read into the fields of a \<open>ControlMessage\<close>. Names are of ASCII characters; the
  reader accepts objects of strings without white space, which is what the writer makes.
\<close>

section \<open>What the two sides rely on\<close>

definition control_message :: "string \<Rightarrow> string \<Rightarrow> string \<Rightarrow> ControlMessage" where
  "control_message action key name = \<lparr>cm_Action = action, cm_Group = (if key = ''group'' then name else []),
     cm_Scope = (if key = ''scope'' then name else [])\<rparr>"

definition control_words :: "(string \<times> string) set" where
  "control_words = {(''join_group'', ''group''), (''leave_group'', ''group''), (''subscribe_scope'', ''scope''), (''unsubscribe_scope'', ''scope'')}"

locale control_codec =
  fixes encode :: "(string \<times> string) list \<Rightarrow> go_err + bytes" and decode :: "bytes \<Rightarrow> ControlMessage option" and names :: "string set"
  assumes carries_control: "(action, key) \<in> control_words \<Longrightarrow> name \<in> names \<Longrightarrow>
    \<exists>bs. encode [(''action'', action), (key, name)] = Inr bs \<and> 32 \<le> length bs \<and> decode bs = Some (control_message action key name)"

section \<open>Strings\<close>

definition hex_digit :: "nat \<Rightarrow> char" where
  "hex_digit n = ''0123456789abcdef'' ! n"

definition hex_value :: "char \<Rightarrow> nat option" where
  "hex_value c = (let n = of_char c in
     if 48 \<le> n \<and> n \<le> 57 then Some (n - 48) else if 97 \<le> n \<and> n \<le> 102 then Some (n - 87) else if 65 \<le> n \<and> n \<le> 70 then Some (n - 55) else None)"

text \<open>The short escapes: the letter behind the backslash, and the character it stands for.\<close>

definition short_escapes :: "(char \<times> char) list" where
  "short_escapes = [(CHR 0x22, CHR 0x22), (CHR 0x5C, CHR 0x5C), (CHR ''b'', CHR 0x08), (CHR ''f'', CHR 0x0C), (CHR ''n'', CHR 0x0A),
     (CHR ''r'', CHR 0x0D), (CHR ''t'', CHR 0x09)]"

definition letter_of :: "char \<Rightarrow> char option" where
  "letter_of c = map_of (map prod.swap short_escapes) c"

definition json_char :: "char \<Rightarrow> string" where
  "json_char c = (case letter_of c of
       Some e \<Rightarrow> [CHR 0x5C, e]
     | None \<Rightarrow> if (of_char c :: nat) < 32 \<or> c \<in> {CHR ''<'', CHR ''>'', CHR ''&''}
         then [CHR 0x5C, CHR ''u'', CHR ''0'', CHR ''0'', hex_digit (of_char c div 16), hex_digit (of_char c mod 16)]
         else [c])"

definition json_string :: "string \<Rightarrow> string" where
  "json_string s = CHR 0x22 # concat (map json_char s) @ [CHR 0x22]"

text \<open>Reading behind the opening quote, up to the closing one; \<open>/\<close> may be escaped as well.\<close>

definition unescape :: "char \<Rightarrow> char option" where
  "unescape e = (if e = CHR ''/'' then Some e else map_of short_escapes e)"

definition hex_char :: "char \<Rightarrow> char \<Rightarrow> char \<Rightarrow> char \<Rightarrow> char option" where
  "hex_char a b c d = (case (hex_value a, hex_value b, hex_value c, hex_value d) of
       (Some w, Some x, Some y, Some z) \<Rightarrow> let n = ((w * 16 + x) * 16 + y) * 16 + z in if n < 128 then Some (char_of n) else None
     | _ \<Rightarrow> None)"

text \<open>One character, perhaps escaped, and what is behind it; \<open>None\<close> is a text that is not a string.\<close>

definition read_char :: "string \<Rightarrow> (char \<times> string) option" where
  "read_char cs = (case cs of
       [] \<Rightarrow> None
     | c # ds \<Rightarrow> if c \<noteq> CHR 0x5C then (if (of_char c :: nat) < 32 then None else Some (c, ds))
         else (case ds of
             [] \<Rightarrow> None
           | e # es \<Rightarrow> if e = CHR ''u''
               then (case es of w # x # y # z # rest \<Rightarrow> map_option (\<lambda>c. (c, rest)) (hex_char w x y z) | _ \<Rightarrow> None)
               else map_option (\<lambda>c. (c, es)) (unescape e)))"

lemma read_char_shorter: "read_char cs = Some (c, rest) \<Longrightarrow> length rest < length cs"
  by (auto simp: read_char_def split: list.splits if_splits)

function read_text :: "string \<Rightarrow> (string \<times> string) option" where
  "read_text cs = (case cs of
       [] \<Rightarrow> None
     | c # ds \<Rightarrow> if c = CHR 0x22 then Some ([], ds)
         else (case read_char cs of
             None \<Rightarrow> None
           | Some (d, rest) \<Rightarrow> map_option (\<lambda>(s, r). (d # s, r)) (read_text rest)))"
  by pat_completeness auto
termination by (relation "measure length") (auto dest: read_char_shorter)

declare read_text.simps [simp del]

lemma read_text_Cons: "c \<noteq> CHR 0x22 \<Longrightarrow>
    read_text (c # cs) = (case read_char (c # cs) of None \<Rightarrow> None | Some (d, rest) \<Rightarrow> map_option (\<lambda>(s, r). (d # s, r)) (read_text rest))"
  by (subst read_text.simps) simp

lemma read_text_shorter: "read_text cs = Some (s, rest) \<Longrightarrow> length rest < length cs"
proof (induction cs arbitrary: s rest rule: read_text.induct)
  case (1 cs)
  show ?case
  proof (cases cs)
    case Nil
    with "1.prems" show ?thesis by (simp add: read_text.simps)
  next
    case (Cons c ds)
    show ?thesis
    proof (cases "c = CHR 0x22")
      case True
      with "1.prems" Cons show ?thesis by (simp add: read_text.simps [of "CHR 0x22 # ds"])
    next
      case False
      with "1.prems" Cons obtain d r s' where r: "read_char cs = Some (d, r)" "read_text r = Some (s', rest)"
        by (auto simp: read_text_Cons split: option.splits)
      have "length rest < length r" by (rule "1.IH" [OF Cons False r(1) refl r(2)])
      with read_char_shorter [OF r(1)] show ?thesis by simp
    qed
  qed
qed

section \<open>Objects of strings\<close>

definition json_member :: "string \<times> string \<Rightarrow> string" where
  "json_member kv = json_string (fst kv) @ CHR '':'' # json_string (snd kv)"

primrec json_members :: "(string \<times> string) list \<Rightarrow> string" where
  "json_members [] = []"
| "json_members (kv # obj) = json_member kv @ (if obj = [] then [] else CHR '','' # json_members obj)"

text \<open>\<open>json.Marshal\<close> of a map of ASCII strings, given with its keys in order; it does not fail.\<close>

definition json_Marshal :: "(string \<times> string) list \<Rightarrow> go_err + bytes" where
  "json_Marshal obj = Inr (string_bytes (CHR ''{'' # json_members obj @ [CHR ''}'']))"

definition read_string :: "string \<Rightarrow> (string \<times> string) option" where
  "read_string cs = (case cs of c # ds \<Rightarrow> if c = CHR 0x22 then read_text ds else None | [] \<Rightarrow> None)"

definition read_member :: "string \<Rightarrow> ((string \<times> string) \<times> string) option" where
  "read_member cs = (case read_string cs of
       Some (k, c # ds) \<Rightarrow> if c = CHR '':'' then map_option (\<lambda>(v, rest). ((k, v), rest)) (read_string ds) else None
     | _ \<Rightarrow> None)"

lemma read_string_shorter: "read_string cs = Some (s, rest) \<Longrightarrow> length rest < length cs"
  by (auto simp: read_string_def dest: read_text_shorter split: list.splits if_splits)

lemma read_member_shorter: "read_member cs = Some (kv, rest) \<Longrightarrow> length rest < length cs"
  by (force simp: read_member_def dest: read_string_shorter split: option.splits list.splits if_splits)

function read_members :: "string \<Rightarrow> (string \<times> string) list option" where
  "read_members cs = (case read_member cs of
       Some (kv, c # rest) \<Rightarrow> if c = CHR ''}'' then (if rest = [] then Some [kv] else None)
         else if c = CHR '','' then map_option (Cons kv) (read_members rest) else None
     | _ \<Rightarrow> None)"
  by pat_completeness auto
termination by (relation "measure length") (auto dest: read_member_shorter)

declare read_members.simps [simp del]

text \<open>\<open>json.Unmarshal\<close> into a \<open>ControlMessage\<close>: a later key wins, a key that is not there leaves the field empty.\<close>

definition field_of :: "(string \<times> string) list \<Rightarrow> string \<Rightarrow> string" where
  "field_of obj key = (case map_of (rev obj) key of Some v \<Rightarrow> v | None \<Rightarrow> [])"

definition json_Unmarshal :: "bytes \<Rightarrow> ControlMessage option" where
  "json_Unmarshal bs = (case bytes_string bs of
       c # cs \<Rightarrow> if c = CHR ''{'' then map_option (\<lambda>obj. \<lparr>cm_Action = field_of obj ''action'', cm_Group = field_of obj ''group'',
           cm_Scope = field_of obj ''scope''\<rparr>) (read_members cs) else None
     | [] \<Rightarrow> None)"

section \<open>Round trip\<close>

definition ascii :: "string set" where
  "ascii = {s. \<forall>c\<in>set s. (of_char c :: nat) < 128}"

lemma hex_value_digit: "n < 16 \<Longrightarrow> hex_value (hex_digit n) = Some n"
proof -
  have "\<forall>n\<in>set [0..<16]. hex_value (hex_digit n) = Some n" by code_simp
  then show "n < 16 \<Longrightarrow> ?thesis" by simp
qed

lemma letter_of_escape: "letter_of c = Some e \<Longrightarrow> unescape e = Some c \<and> e \<noteq> CHR ''u''"
  by (auto simp: letter_of_def unescape_def short_escapes_def split: if_splits)

lemma plain_char: "letter_of c = None \<Longrightarrow> c \<noteq> CHR 0x22 \<and> c \<noteq> CHR 0x5C"
  by (auto simp: letter_of_def short_escapes_def)

lemma read_json_char:
  assumes "(of_char c :: nat) < 128"
  shows "read_char (json_char c @ rest) = Some (c, rest) \<and> hd (json_char c) \<noteq> CHR 0x22 \<and> json_char c \<noteq> []"
proof (cases "letter_of c")
  case (Some e)
  then show ?thesis using letter_of_escape [OF Some] by (simp add: json_char_def read_char_def)
next
  case None
  note plain = plain_char [OF None]
  show ?thesis
  proof (cases "(of_char c :: nat) < 32 \<or> c \<in> {CHR ''<'', CHR ''>'', CHR ''&''}")
    case True
    have "(of_char c :: nat) div 16 < 16" "(of_char c :: nat) mod 16 < 16" using assms by auto
    then have "hex_char (CHR ''0'') (CHR ''0'') (hex_digit (of_char c div 16)) (hex_digit (of_char c mod 16)) = Some c"
      using assms by (simp add: hex_char_def hex_value_digit) (simp add: hex_value_def)
    with True None show ?thesis by (simp add: json_char_def read_char_def)
  next
    case False
    with None plain show ?thesis by (simp add: json_char_def read_char_def)
  qed
qed

lemma read_text_json: "s \<in> ascii \<Longrightarrow> read_text (concat (map json_char s) @ CHR 0x22 # rest) = Some (s, rest)"
proof (induction s)
  case Nil
  show ?case by (subst read_text.simps) simp
next
  case (Cons c s)
  then have IH: "read_text (concat (map json_char s) @ CHR 0x22 # rest) = Some (s, rest)" and c: "(of_char c :: nat) < 128"
    by (simp_all add: ascii_def)
  obtain d ds where ds: "json_char c = d # ds" by (cases "json_char c") (use read_json_char [OF c] in auto)
  then show ?case using read_json_char [OF c, of "concat (map json_char s) @ CHR 0x22 # rest"] IH
    by (simp add: read_text_Cons)
qed

lemma read_string_json: "s \<in> ascii \<Longrightarrow> read_string (json_string s @ rest) = Some (s, rest)"
  by (simp add: read_string_def json_string_def read_text_json)

lemma read_member_json: "fst kv \<in> ascii \<Longrightarrow> snd kv \<in> ascii \<Longrightarrow> read_member (json_member kv @ rest) = Some (kv, rest)"
  by (cases kv) (simp add: read_member_def json_member_def read_string_json)

lemma read_members_json:
  "obj \<noteq> [] \<Longrightarrow> \<forall>kv\<in>set obj. fst kv \<in> ascii \<and> snd kv \<in> ascii \<Longrightarrow> read_members (json_members obj @ [CHR ''}'']) = Some obj"
proof (induction obj)
  case (Cons kv obj)
  then show ?case
    by (subst read_members.simps) (cases obj, simp_all add: read_member_json)
qed simp

lemma ascii_words [simp]:
  "''action'' \<in> ascii" "''group'' \<in> ascii" "''scope'' \<in> ascii" "''join_group'' \<in> ascii" "''leave_group'' \<in> ascii"
  "''subscribe_scope'' \<in> ascii" "''unsubscribe_scope'' \<in> ascii"
  by (simp_all add: ascii_def)

lemma length_json_plain: "length s \<le> length (concat (map json_char s))"
proof (induction s)
  case (Cons c s)
  have "1 \<le> length (json_char c)" by (simp add: json_char_def split: option.split)
  with Cons show ?case by simp
qed simp

lemma length_json_string: "length s + 2 \<le> length (json_string s)"
  using length_json_plain [of s] by (simp add: json_string_def)

lemma json_carries:
  assumes "(action, key) \<in> control_words" and "name \<in> ascii"
  shows "\<exists>bs. json_Marshal [(''action'', action), (key, name)] = Inr bs \<and> 32 \<le> length bs \<and>
    json_Unmarshal bs = Some (control_message action key name)"
proof -
  let ?obj = "[(''action'', action), (key, name)]"
  have words: "action \<in> ascii" "key \<in> ascii" "key \<in> {''group'', ''scope''}" "15 \<le> length action + length key"
    using assms(1) by (auto simp: control_words_def)
  then have "read_members (json_members ?obj @ [CHR ''}'']) = Some ?obj" using assms(2) by (intro read_members_json) simp_all
  then have "json_Unmarshal (string_bytes (CHR ''{'' # json_members ?obj @ [CHR ''}''])) = Some (control_message action key name)"
    using words(3) by (auto simp: json_Unmarshal_def field_of_def control_message_def)
  moreover have "32 \<le> length (CHR ''{'' # json_members ?obj @ [CHR ''}''])"
    using length_json_string [of "''action''"] length_json_string [of action] length_json_string [of key] length_json_string [of name] words(4)
    by (simp add: json_member_def)
  ultimately show ?thesis by (simp add: json_Marshal_def)
qed

interpretation json: control_codec json_Marshal json_Unmarshal ascii
  by unfold_locales (rule json_carries)

end
