(* ===== verification/End_To_End.thy ===== *)
theory End_To_End
  imports Json_Control "HOL-Library.Multiset"
begin

text \<open>
  A client and the server, with everything between them: the calls of \<open>Client_SDK\<close> that change groups and scopes, the connection of the
  client and the stream it opens for each message, the streams and queues of the connection of the server, the round of the server for
  that client. All these steps interleave. The QUIC library accepts every write and delivers the bytes of a stream and its end; streams are accepted in the
  order they were opened, and the goroutines that read them run in any order. Meanwhile the server may do anything else that
  leaves this client alone.
\<close>

section \<open>What the client asks for\<close>

datatype control = Joins string | Leaves string | Subscribes string | Unsubscribes string

primrec control_words_of :: "control \<Rightarrow> string \<times> string" where
  "control_words_of (Joins g) = (''join_group'', ''group'')"
| "control_words_of (Leaves g) = (''leave_group'', ''group'')"
| "control_words_of (Subscribes s) = (''subscribe_scope'', ''scope'')"
| "control_words_of (Unsubscribes s) = (''unsubscribe_scope'', ''scope'')"

primrec control_name :: "control \<Rightarrow> string" where
  "control_name (Joins g) = g"
| "control_name (Leaves g) = g"
| "control_name (Subscribes s) = s"
| "control_name (Unsubscribes s) = s"

definition control_object :: "control \<Rightarrow> (string \<times> string) list" where
  "control_object op = [(''action'', fst (control_words_of op)), (snd (control_words_of op), control_name op)]"

definition message_of :: "control \<Rightarrow> ControlMessage" where
  "message_of op = control_message (fst (control_words_of op)) (snd (control_words_of op)) (control_name op)"

primrec control_call ::
  "control \<Rightarrow> string \<Rightarrow> int \<Rightarrow> nat option \<Rightarrow> perr option \<Rightarrow> ((string \<times> string) list \<Rightarrow> go_err + bytes) \<Rightarrow>
     'v Client \<Rightarrow> message_heap \<Rightarrow> perr option \<times> 'v Client \<times> message_heap" where
  "control_call (Joins g) mid now pick answer encode = JoinGroup mid now pick answer encode g"
| "control_call (Leaves g) mid now pick answer encode = LeaveGroup mid now pick answer encode g"
| "control_call (Subscribes s) mid now pick answer encode = SubscribeToScope mid now pick answer encode s"
| "control_call (Unsubscribes s) mid now pick answer encode = UnsubscribeFromScope mid now pick answer encode s"

text \<open>The abstract books: the groups and the scopes of one client, after a list of calls.\<close>

type_synonym membership = "string set \<times> string set"

primrec apply_control :: "control \<Rightarrow> membership \<Rightarrow> membership" where
  "apply_control (Joins g) v = (insert g (fst v), snd v)"
| "apply_control (Leaves g) v = (fst v - {g}, snd v)"
| "apply_control (Subscribes s) v = (fst v, insert s (snd v))"
| "apply_control (Unsubscribes s) v = (fst v, snd v - {s})"

definition books :: "control list \<Rightarrow> membership" where
  "books ops = fold apply_control ops ({}, {})"

definition named :: "membership \<Rightarrow> membership" where
  "named v = (fst v - {[]}, snd v - {[]})"

definition client_view :: "'v Client \<Rightarrow> membership" where
  "client_view c = (set (cl_groups c), set (cl_scopes c))"

definition server_view :: "string \<Rightarrow> Server \<Rightarrow> membership" where
  "server_view cid s = ({g. cid \<in> set (group_clients (sv_groups s) g)}, {n. cid \<in> set (group_clients (sv_scopes s) n)})"

definition session_active :: "string \<Rightarrow> Server \<Rightarrow> bool" where
  "session_active cid s \<longleftrightarrow> (case map_of (sv_clients s) cid of Some x \<Rightarrow> ss_Active x | None \<Rightarrow> False)"

text \<open>The calls a control message stands for.\<close>

definition controls_of :: "ControlMessage \<Rightarrow> control list" where
  "controls_of m = (if cm_Action m = ''join_group'' then [Joins (cm_Group m)]
     else if cm_Action m = ''leave_group'' then [Leaves (cm_Group m)]
     else if cm_Action m = ''subscribe_scope'' then [Subscribes (cm_Scope m)]
     else if cm_Action m = ''unsubscribe_scope'' then [Unsubscribes (cm_Scope m)] else [])"

definition controls_in :: "(bytes \<Rightarrow> ControlMessage option) \<Rightarrow> Message \<Rightarrow> control list" where
  "controls_in decode msg = (if mg_Type msg = MessageTypeControl then (case decode (mg_Payload msg) of Some m \<Rightarrow> controls_of m | None \<Rightarrow> []) else [])"

section \<open>The composition\<close>

text \<open>
  \<open>lk_flight\<close> are the bytes of the streams the client has written and the server has not accepted. \<open>lk_issued\<close> records the calls that
  returned without an error, \<open>lk_served\<close> those whose message the server has handled.
\<close>

record 'v link =
  lk_client :: "'v Client"
  lk_cconn :: Connection
  lk_cheap :: message_heap
  lk_flight :: "bytes list"
  lk_sconn :: Connection
  lk_sheap :: message_heap
  lk_server :: Server
  lk_issued :: "control list"
  lk_served :: "control list"

text \<open>A call of the client on its connection: the answer is that of \<open>Connection_SendMessage\<close>, which queues the message.\<close>

definition link_issue ::
  "((string \<times> string) list \<Rightarrow> go_err + bytes) \<Rightarrow> string \<Rightarrow> int \<Rightarrow> nat option \<Rightarrow> control \<Rightarrow> 'v link \<Rightarrow> perr option \<times> 'v link" where
  "link_issue encode mid now pick op x =
     (let a = fst (GetMessage mid now pick (lk_cheap x));
          (answer, conn) = enqueue_message a (lk_cconn x);
          (err, c, S) = control_call op mid now pick answer encode (lk_client x) (lk_cheap x)
      in (err, x\<lparr>lk_client := c, lk_cheap := S, lk_issued := (if err = None then lk_issued x @ [op] else lk_issued x),
            lk_cconn := (if cl_connected (lk_client x) \<and> \<not> cl_closed (lk_client x) then conn else lk_cconn x)\<rparr>))"

definition delivered :: "bytes \<Rightarrow> Stream \<Rightarrow> unit \<times> Stream" where
  "delivered w s = ((), s\<lparr>qs_in := w, qs_end := Some EOF\<rparr>)"

text \<open>A frame is within the limit of the receiving stream, 1 MB.\<close>

definition sendable :: "((string \<times> string) list \<Rightarrow> go_err + bytes) \<Rightarrow> string set \<Rightarrow> control \<Rightarrow> bool" where
  "sendable encode names op \<longleftrightarrow> control_name op \<in> names \<and>
     (case encode (control_object op) of Inr bs \<Rightarrow> 202 + length bs \<le> 1048576 | Inl e \<Rightarrow> False)"

text \<open>Messages of the pool of the server: those in a queue are held once, and nowhere else.\<close>

definition queue_held :: "message_heap \<Rightarrow> nat list \<Rightarrow> bool" where
  "queue_held S q \<longleftrightarrow> distinct (mh_pool S @ q) \<and> (\<forall>a\<in>set (mh_pool S @ q). a < length (mh_heap S)) \<and>
     (\<forall>a\<in>set q. mg_pooled (mh_heap S ! a) \<and> mg_refCount (mh_heap S ! a) = 1)"

inductive link_step ::
  "((string \<times> string) list \<Rightarrow> go_err + bytes) \<Rightarrow> (bytes \<Rightarrow> ControlMessage option) \<Rightarrow> string set \<Rightarrow> string \<Rightarrow> 'v link \<Rightarrow> 'v link \<Rightarrow> bool"
  for encode decode names cid where
  issues: "id_fits mid \<Longrightarrow> time_fits now \<Longrightarrow> sendable encode names op \<Longrightarrow> link_issue encode mid now pick op x = (err, y) \<Longrightarrow>
      link_step encode decode names cid x y"
| sends: "cn_sendQueue (lk_cconn x) = a # q \<Longrightarrow> sid \<notin> fst ` set (cn_streams (lk_cconn x)) \<Longrightarrow>
      handleSending now sid None accept_all (lk_cconn x, lk_cheap x) = (c, S) \<Longrightarrow>
      link_step encode decode names cid x (x\<lparr>lk_cconn := c, lk_cheap := S,
        lk_flight := lk_flight x @ drop (length (written_out (lk_cconn x))) (written_out c)\<rparr>)"
| accepts: "lk_flight x = w # ws \<Longrightarrow> sid \<notin> fst ` set (cn_streams (lk_sconn x)) \<Longrightarrow>
      handleMessages now sid None (lk_sconn x) = ((Some sid, True), c) \<Longrightarrow>
      link_step encode decode names cid x (x\<lparr>lk_flight := ws, lk_sconn := snd (on_stream sid (delivered w) () c)\<rparr>)"
| handles: "GetStream sid (lk_sconn x) = Some s \<Longrightarrow> \<not> qs_closed s \<Longrightarrow>
      handleStreamMessages mid now pick chooseDone sid (lk_sconn x) (lk_sheap x) = Ret (goes_on, c, S) \<Longrightarrow>
      link_step encode decode names cid x (x\<lparr>lk_sconn := c, lk_sheap := S\<rparr>)"
| serves: "Connection_ReceiveMessage now FromQueue (lk_sheap x) (lk_sconn x) = Ret (Inr a, c) \<Longrightarrow>
      handleClient_round mid now' pick taken decode cid (Inr (Some a)) (lk_server x) (lk_sheap x) = (sv, S) \<Longrightarrow>
      link_step encode decode names cid x (x\<lparr>lk_sconn := c, lk_server := sv, lk_sheap := S,
        lk_served := lk_served x @ controls_in decode (mh_heap (lk_sheap x) ! a)\<rparr>)"
| elsewhere: "server_view cid sv = server_view cid (lk_server x) \<Longrightarrow> session_active cid sv = session_active cid (lk_server x) \<Longrightarrow>
      queue_held S (cn_messageQueue (lk_sconn x)) \<Longrightarrow>
      (\<And>a. a \<in> set (cn_messageQueue (lk_sconn x)) \<Longrightarrow> mh_heap S ! a = mh_heap (lk_sheap x) ! a) \<Longrightarrow>
      link_step encode decode names cid x (x\<lparr>lk_server := sv, lk_sheap := S\<rparr>)"

text \<open>A client that has just connected over connections with \<open>n\<close> streams and a queue of \<open>buffer\<close> messages, and its new session.\<close>

definition link_start :: "string \<Rightarrow> nat \<Rightarrow> nat \<Rightarrow> 'v link \<Rightarrow> bool" where
  "link_start cid n buffer x \<longleftrightarrow>
     (\<exists>ident config. id_fits ident \<and> lk_client x = snd (Connect None (NewClient ident config))) \<and>
     (\<exists>now i buf. NewQUICConnection now i buf (int n) = Ret (lk_cconn x)) \<and> 0 < n \<and> n < 2 ^ 63 \<and>
     (\<exists>now i m. NewQUICConnection now i (int buffer) m = Ret (lk_sconn x)) \<and>
     mh_pool (lk_cheap x) = [] \<and> queue_held (lk_sheap x) [] \<and> lk_flight x = [] \<and> lk_issued x = [] \<and> lk_served x = [] \<and>
     session_active cid (lk_server x) \<and> server_view cid (lk_server x) = ({}, {})"

text \<open>Nothing is under way: no message is queued, in flight, in a stream that is not read, or in the queue of the server.\<close>

definition quiet :: "'v link \<Rightarrow> bool" where
  "quiet x \<longleftrightarrow> cn_sendQueue (lk_cconn x) = [] \<and> lk_flight x = [] \<and> (\<forall>e\<in>set (cn_streams (lk_sconn x)). qs_in (snd e) = []) \<and>
     cn_messageQueue (lk_sconn x) = []"

section \<open>The stations of a message\<close>

definition carries :: "(bytes \<Rightarrow> ControlMessage option) \<Rightarrow> Message \<Rightarrow> control \<Rightarrow> bool" where
  "carries decode m op \<longleftrightarrow> mg_Type m = MessageTypeControl \<and> decode (mg_Payload m) = Some (message_of op) \<and>
     32 \<le> length (mg_Payload m) \<and> 202 + length (mg_Payload m) \<le> 1048576 \<and> frame_fits m"

definition on_wire :: "(bytes \<Rightarrow> ControlMessage option) \<Rightarrow> bytes \<Rightarrow> control \<Rightarrow> bool" where
  "on_wire decode w op \<longleftrightarrow> (\<exists>m. w = wire m \<and> carries decode m op)"

definition unread :: "(bytes \<Rightarrow> ControlMessage option) \<Rightarrow> Stream \<Rightarrow> control option \<Rightarrow> bool" where
  "unread decode s next \<longleftrightarrow> (qs_closed s \<or> qs_end s = Some EOF) \<and> scf_MaxMessageSize (sm_config s) = 1048576 \<and>
     (case next of None \<Rightarrow> qs_in s = [] | Some op \<Rightarrow> \<not> qs_closed s \<and> on_wire decode (qs_in s) op)"

definition client_side :: "(bytes \<Rightarrow> ControlMessage option) \<Rightarrow> nat \<Rightarrow> 'v link \<Rightarrow> control list \<Rightarrow> control list \<Rightarrow> bool" where
  "client_side decode n x qs fl \<longleftrightarrow>
     cl_connected (lk_client x) \<and> \<not> cl_closed (lk_client x) \<and> id_fits (cl_id (lk_client x)) \<and>
     client_view (lk_client x) = books (lk_issued x) \<and>
     (\<exists>k. ready n k (lk_cconn x) \<and> length qs + k \<le> length (lk_issued x)) \<and>
     mh_pool (lk_cheap x) = [] \<and> distinct (cn_sendQueue (lk_cconn x)) \<and>
     list_all2 (\<lambda>a op. a < length (mh_heap (lk_cheap x)) \<and> mg_refCount (mh_heap (lk_cheap x) ! a) = 2 \<and>
       carries decode (mh_heap (lk_cheap x) ! a) op) (cn_sendQueue (lk_cconn x)) qs \<and>
     list_all2 (on_wire decode) (lk_flight x) fl"

definition conn_open :: "Connection \<Rightarrow> bool" where
  "conn_open c \<longleftrightarrow> \<not> cn_closed c \<and> cn_state c = ConnectionStateConnected \<and> \<not> cn_done c \<and> \<not> cn_queueClosed c"

definition server_side :: "(bytes \<Rightarrow> ControlMessage option) \<Rightarrow> string \<Rightarrow> nat \<Rightarrow> 'v link \<Rightarrow> control option list \<Rightarrow> control list \<Rightarrow> bool" where
  "server_side decode cid buffer x st mq \<longleftrightarrow>
     conn_open (lk_sconn x) \<and> cn_buffer (lk_sconn x) = buffer \<and> distinct (map fst (cn_streams (lk_sconn x))) \<and>
     list_all2 (\<lambda>e. unread decode (snd e)) (cn_streams (lk_sconn x)) st \<and>
     queue_held (lk_sheap x) (cn_messageQueue (lk_sconn x)) \<and>
     list_all2 (\<lambda>a. carries decode (mh_heap (lk_sheap x) ! a)) (cn_messageQueue (lk_sconn x)) mq \<and>
     session_active cid (lk_server x) \<and> server_view cid (lk_server x) = named (books (lk_served x))"

definition link_inv :: "(bytes \<Rightarrow> ControlMessage option) \<Rightarrow> string \<Rightarrow> nat \<Rightarrow> nat \<Rightarrow> 'v link \<Rightarrow> bool" where
  "link_inv decode cid n buffer x \<longleftrightarrow> (\<exists>qs fl st mq lost. client_side decode n x qs fl \<and> server_side decode cid buffer x st mq \<and>
     mset (lk_issued x) = mset (lk_served x) + mset qs + mset fl + mset (List.map_filter id st) + mset mq + mset lost \<and>
     (lost \<noteq> [] \<longrightarrow> min n buffer < length (lk_issued x)))"

section \<open>The abstract books\<close>

lemma books_append [simp]: "books (ops @ ops') = fold apply_control ops' (books ops)"
  by (simp add: books_def)

lemma named_apply: "named (apply_control op (named v)) = named (apply_control op v)"
  by (cases op) (auto simp: named_def)

lemma named_idem [simp]: "named (named v) = named v"
  by (simp add: named_def)

lemma apply_unnamed: "control_name op = [] \<Longrightarrow> named (apply_control op v) = named v"
  by (cases op) (auto simp: named_def)

lemma apply_named: "control_name op \<noteq> [] \<Longrightarrow> named (apply_control op v) = apply_control op (named v)"
  by (cases op) (auto simp: named_def)

text \<open>Calls that do not undo each other may be served in any order.\<close>

definition undone_by :: "control \<Rightarrow> control \<Rightarrow> bool" where
  "undone_by op op' \<longleftrightarrow> fst (control_words_of op) \<noteq> fst (control_words_of op') \<and> snd (control_words_of op) = snd (control_words_of op') \<and>
     control_name op = control_name op'"

definition consistent :: "control list \<Rightarrow> bool" where
  "consistent ops \<longleftrightarrow> (\<forall>op\<in>set ops. \<forall>op'\<in>set ops. \<not> undone_by op op')"

lemma books_consistent_fold:
  assumes "\<And>op op'. op \<in> set ops \<Longrightarrow> op' \<in> set ops \<Longrightarrow> \<not> undone_by op op'"
    and "fst v \<inter> {g. Leaves g \<in> set ops} = {}" and "snd v \<inter> {s. Unsubscribes s \<in> set ops} = {}"
  shows "fold apply_control ops v = (fst v \<union> {g. Joins g \<in> set ops}, snd v \<union> {s. Subscribes s \<in> set ops})"
  using assms
proof (induction ops arbitrary: v)
  case (Cons op ops)
  have "fst (apply_control op v) \<inter> {g. Leaves g \<in> set ops} = {}" "snd (apply_control op v) \<inter> {s. Unsubscribes s \<in> set ops} = {}"
    using Cons.prems(1) [of op] Cons.prems(2,3) by (cases op; fastforce simp: undone_by_def)+
  then have "fold apply_control ops (apply_control op v) =
      (fst (apply_control op v) \<union> {g. Joins g \<in> set ops}, snd (apply_control op v) \<union> {s. Subscribes s \<in> set ops})"
    using Cons.prems(1) by (intro Cons.IH) simp_all
  then show ?case using Cons.prems(2,3) by (cases op) auto
qed simp

lemma books_consistent: "consistent ops \<Longrightarrow> books ops = ({g. Joins g \<in> set ops}, {s. Subscribes s \<in> set ops})"
  by (simp add: books_def books_consistent_fold consistent_def)

lemma books_any_order: "consistent ops \<Longrightarrow> mset ops' = mset ops \<Longrightarrow> books ops' = books ops"
  using mset_eq_setD [of ops' ops] by (simp add: books_consistent consistent_def)

section \<open>The two ends\<close>

lemma controls_of_message [simp]: "controls_of (message_of op) = [op]"
  by (cases op) (simp_all add: controls_of_def message_of_def control_message_def)

lemma handle_join:
  "session_active cid s \<Longrightarrow> server_view cid (handleJoinGroup now cid g s) = (if g = [] then server_view cid s else apply_control (Joins g) (server_view cid s)) \<and>
     session_active cid (handleJoinGroup now cid g s)"
  by (auto simp: handleJoinGroup_def server_view_def session_active_def on_session_def members_join update_conv split: option.splits)

lemma handle_leave:
  "session_active cid s \<Longrightarrow> server_view cid (handleLeaveGroup cid g s) = (if g = [] then server_view cid s else apply_control (Leaves g) (server_view cid s)) \<and>
     session_active cid (handleLeaveGroup cid g s)"
  by (auto simp: handleLeaveGroup_def server_view_def session_active_def on_session_def members_leave update_conv split: option.splits)

lemma handle_subscribe:
  "session_active cid s \<Longrightarrow> server_view cid (handleSubscribeScope now cid g s) = (if g = [] then server_view cid s else apply_control (Subscribes g) (server_view cid s)) \<and>
     session_active cid (handleSubscribeScope now cid g s)"
  by (auto simp: handleSubscribeScope_def server_view_def session_active_def on_session_def members_join update_conv split: option.splits)

lemma handle_unsubscribe:
  "session_active cid s \<Longrightarrow> server_view cid (handleUnsubscribeScope cid g s) = (if g = [] then server_view cid s else apply_control (Unsubscribes g) (server_view cid s)) \<and>
     session_active cid (handleUnsubscribeScope cid g s)"
  by (auto simp: handleUnsubscribeScope_def server_view_def session_active_def on_session_def members_leave update_conv split: option.splits)

lemma handle_control:
  assumes "session_active cid s" and "server_view cid s = named v"
  shows "server_view cid (handleControlMessage now (Some (message_of op)) cid s) = named (apply_control op v) \<and>
    session_active cid (handleControlMessage now (Some (message_of op)) cid s)"
proof -
  have "server_view cid (handleControlMessage now (Some (message_of op)) cid s) =
      (if control_name op = [] then server_view cid s else apply_control op (server_view cid s)) \<and>
      session_active cid (handleControlMessage now (Some (message_of op)) cid s)"
    using handle_join [OF assms(1)] handle_leave [OF assms(1)] handle_subscribe [OF assms(1)] handle_unsubscribe [OF assms(1)]
    by (cases op) (simp_all add: handleControlMessage_def message_of_def control_message_def)
  then show ?thesis by (simp add: assms(2) apply_unnamed apply_named)
qed

text \<open>A call of the client: it builds the message behind the others, hands it over, and books the call if the connection took it.\<close>

definition control_msg :: "string \<Rightarrow> int \<Rightarrow> string \<Rightarrow> bytes \<Rightarrow> Message" where
  "control_msg mid now ident bs = (reset_message mid now zero_message)\<lparr>mg_Type := MessageTypeControl, mg_Payload := bs, mg_Source := ident\<rparr>"

lemma send_control_new:
  assumes "cl_connected c" and "\<not> cl_closed c" and "mh_pool S = []" and "encode obj = Inr bs"
  shows "\<exists>S'. send_control mid now pick answer encode obj c S = (answer, c\<lparr>cl_sent := cl_sent c @ [length (mh_heap S)]\<rparr>, S') \<and>
    mh_pool S' = [] \<and> mh_heap S' = mh_heap S @ [(control_msg mid now (cl_id c) bs)\<lparr>mg_refCount := (if answer = None then 2 else 1)\<rparr>]"
proof -
  obtain a S1 where get: "GetMessage mid now pick S = (a, S1)" by fastforce
  then have S1: "a = length (mh_heap S)" "mh_heap S1 = mh_heap S @ [reset_message mid now zero_message]" "mh_pool S1 = []"
    by (cases rule: GetMessage_cases; use assms(3) in simp)+
  then show ?thesis
    using get assms(1,2,4)
    by (auto simp: send_control_def client_SendMessage_def update_message_def Retain_def set_payload_def control_msg_def
        reset_message_def zero_message_def Let_def)
qed

lemma GetMessage_new: "mh_pool S = [] \<Longrightarrow> fst (GetMessage mid now pick S) = length (mh_heap S)"
  by (cases "GetMessage mid now pick S") (auto elim!: GetMessage_cases)

lemma client_view_emit [simp]: "client_view (emitEvent e c) = client_view c" "cl_id (emitEvent e c) = cl_id c"
  by (simp_all add: client_view_def emitEvent_def)

lemma control_call_new:
  assumes "cl_connected c" and "\<not> cl_closed c" and "mh_pool S = []" and "encode (control_object op) = Inr bs"
  shows "\<exists>c' S'. control_call op mid now pick answer encode c S = (answer, c', S') \<and>
    cl_connected c' \<and> \<not> cl_closed c' \<and> cl_id c' = cl_id c \<and>
    client_view c' = (if answer = None then apply_control op (client_view c) else client_view c) \<and> mh_pool S' = [] \<and>
    mh_heap S' = mh_heap S @ [(control_msg mid now (cl_id c) bs)\<lparr>mg_refCount := (if answer = None then 2 else 1)\<rparr>]"
proof -
  obtain S' where "send_control mid now pick answer encode (control_object op) c S = (answer, c\<lparr>cl_sent := cl_sent c @ [length (mh_heap S)]\<rparr>, S')"
    "mh_pool S' = []" "mh_heap S' = mh_heap S @ [(control_msg mid now (cl_id c) bs)\<lparr>mg_refCount := (if answer = None then 2 else 1)\<rparr>]"
    using send_control_new [of c S encode "control_object op" bs mid now pick answer] assms by blast
  then show ?thesis
    using assms(1,2)
    by (cases op; cases answer)
      (simp_all add: control_object_def JoinGroup_def LeaveGroup_def SubscribeToScope_def UnsubscribeFromScope_def client_view_def emitEvent_def)
qed

lemma control_msg_fits: "id_fits mid \<Longrightarrow> time_fits now \<Longrightarrow> id_fits ident \<Longrightarrow> length bs < 2 ^ 32 \<Longrightarrow> frame_fits ((control_msg mid now ident bs)\<lparr>mg_refCount := r\<rparr>)"
  by (simp add: frame_fits_def control_msg_def reset_message_def zero_message_def id_fits_def time_fits_def)

section \<open>Lists of stations\<close>

lemma list_all2_snoc: "list_all2 P xs ys \<Longrightarrow> P x y \<Longrightarrow> list_all2 P (xs @ [x]) (ys @ [y])"
  by (rule list_all2_appendI) simp_all

lemma list_all2_entry:
  assumes "list_all2 P (as @ x # bs) ys"
  obtains as' y bs' where "ys = as' @ y # bs'" "list_all2 P as as'" "P x y" "list_all2 P bs bs'"
  using assms by (auto simp: list_all2_append1 list_all2_Cons1)

lemma entry_split:
  assumes "distinct (map fst al)" and "map_of al k = Some v"
  obtains as bs where "al = as @ (k, v) # bs" "k \<notin> fst ` set as" "k \<notin> fst ` set bs"
proof -
  obtain as bs where "al = as @ (k, v) # bs" using map_of_SomeD [OF assms(2)] by (auto dest: split_list)
  with assms(1) show thesis using that by (auto simp: image_iff)
qed

lemma update_entry: "k \<notin> fst ` set as \<Longrightarrow> AList.update k w (as @ (k, v) # bs) = as @ (k, w) # bs"
  by (induction as) auto

lemma map_filter_parts [simp]:
  "List.map_filter f (xs @ ys) = List.map_filter f xs @ List.map_filter f ys"
  "List.map_filter f (x # xs) = (case f x of None \<Rightarrow> List.map_filter f xs | Some y \<Rightarrow> y # List.map_filter f xs)"
  "List.map_filter f [] = []"
  by (simp_all add: List.map_filter_def split: option.split)

section \<open>The messages of the server\<close>

lemma GetMessage_held:
  assumes "GetMessage mid now pick S = (a, S')" and "queue_held S q"
  shows "queue_held S' (q @ [a]) \<and> a \<notin> set q \<and> (\<forall>b\<in>set q. mh_heap S' ! b = mh_heap S ! b)"
  using assms(1)
proof (cases rule: GetMessage_cases)
  case new
  with assms(2) show ?thesis
    by (auto simp: queue_held_def nth_append reset_message_def dest: less_SucI)
next
  case (old as bs)
  have b: "a \<noteq> b" if "b \<in> set q" for b using that assms(2) old(1) by (auto simp: queue_held_def)
  have "a < length (mh_heap S)" using assms(2) old(1) by (simp add: queue_held_def)
  with old b assms(2) show ?thesis
    by (auto simp: queue_held_def reset_message_def)
qed

lemma update_held: "queue_held S q \<Longrightarrow> a \<in> set q \<Longrightarrow> mg_pooled (f (mh_heap S ! a)) = mg_pooled (mh_heap S ! a) \<Longrightarrow>
    mg_refCount (f (mh_heap S ! a)) = mg_refCount (mh_heap S ! a) \<Longrightarrow> queue_held (update_message a f S) q"
  by (auto simp: queue_held_def)

lemma Release_held:
  assumes "queue_held S (as @ a # bs)"
  shows "queue_held (Release a S) (as @ bs) \<and> (\<forall>b\<in>set (as @ bs). mh_heap (Release a S) ! b = mh_heap S ! b)"
proof -
  have a: "a < length (mh_heap S)" "mg_pooled (mh_heap S ! a)" "mg_refCount (mh_heap S ! a) = 1"
    and b: "a \<noteq> b" if "b \<in> set (as @ bs)" for b
    using assms that by (auto simp: queue_held_def)
  then show ?thesis
    using assms a by (auto simp: Release_unfold queue_held_def Let_def)
qed

section \<open>Every step keeps the invariant\<close>

lemma issue_keeps:
  assumes codec: "encode (control_object op) = Inr bs" "decode bs = Some (message_of op)" "32 \<le> length bs" "202 + length bs \<le> 1048576"
    and fits: "id_fits mid" "time_fits now"
    and inv: "client_side decode n x qs fl" and step: "link_issue encode mid now pick op x = (err, y)"
  shows "\<exists>qs'. client_side decode n y qs' fl \<and> lk_sconn y = lk_sconn x \<and> lk_sheap y = lk_sheap x \<and> lk_server y = lk_server x \<and>
    lk_served y = lk_served x \<and> (lk_issued y = lk_issued x \<and> qs' = qs \<or> lk_issued y = lk_issued x @ [op] \<and> qs' = qs @ [op])"
proof -
  let ?c = "lk_client x" and ?S = "lk_cheap x" and ?conn = "lk_cconn x"
  have c: "cl_connected ?c" "\<not> cl_closed ?c" "id_fits (cl_id ?c)" "mh_pool ?S = []"
    using inv by (simp_all add: client_side_def)
  obtain k where k: "ready n k ?conn" "length qs + k \<le> length (lk_issued x)" using inv by (auto simp: client_side_def)
  obtain answer conn where e: "enqueue_message (length (mh_heap ?S)) ?conn = (answer, conn)" by fastforce
  obtain c' S' where call: "control_call op mid now pick answer encode ?c ?S = (answer, c', S')"
    and c': "cl_connected c'" "\<not> cl_closed c'" "cl_id c' = cl_id ?c" "mh_pool S' = []"
      "client_view c' = (if answer = None then apply_control op (client_view ?c) else client_view ?c)"
      "mh_heap S' = mh_heap ?S @ [(control_msg mid now (cl_id ?c) bs)\<lparr>mg_refCount := (if answer = None then 2 else 1)\<rparr>]"
    using control_call_new [of ?c ?S encode op bs mid now pick answer] c codec(1) by blast
  have y: "y = x\<lparr>lk_client := c', lk_cheap := S', lk_issued := (if answer = None then lk_issued x @ [op] else lk_issued x), lk_cconn := conn\<rparr>"
    using step c(1,2) by (auto simp: link_issue_def GetMessage_new [OF c(4)] e call)
  have new: "carries decode ((control_msg mid now (cl_id ?c) bs)\<lparr>mg_refCount := r\<rparr>) op" for r
    using codec fits c(3) by (auto simp: carries_def control_msg_fits) (simp_all add: control_msg_def)
  have queued: "list_all2 (\<lambda>a op. a < length (mh_heap S') \<and> mg_refCount (mh_heap S' ! a) = 2 \<and> carries decode (mh_heap S' ! a) op) (cn_sendQueue ?conn) qs"
    using inv c'(6) by (auto simp: client_side_def nth_append elim!: list_all2_mono)
  show ?thesis
  proof (cases answer)
    case None
    then have conn: "conn = ?conn\<lparr>cn_sendQueue := cn_sendQueue ?conn @ [length (mh_heap ?S)]\<rparr>"
      using e by (auto simp: enqueue_message_def split: if_splits)
    have "length (mh_heap ?S) \<notin> set (cn_sendQueue ?conn)"
      using inv by (auto simp: client_side_def list_all2_conv_all_nth in_set_conv_nth)
    moreover have "ready n k conn" using k(1) conn by (simp add: ready_def)
    moreover have "list_all2 (\<lambda>a op. a < length (mh_heap S') \<and> mg_refCount (mh_heap S' ! a) = 2 \<and> carries decode (mh_heap S' ! a) op)
        (cn_sendQueue ?conn @ [length (mh_heap ?S)]) (qs @ [op])"
      using queued c'(6) None new by (intro list_all2_snoc) simp_all
    ultimately show ?thesis
      using inv c c' k(2) conn None
      by (intro exI [of _ "qs @ [op]"]) (auto simp: y client_side_def intro!: exI [of _ k])
  next
    case (Some err)
    then have "conn = ?conn" using e by (auto simp: enqueue_message_def split: if_splits)
    with Some inv c c' k queued show ?thesis
      by (intro exI [of _ qs]) (auto simp: y client_side_def intro!: exI [of _ k])
  qed
qed

lemma send_keeps:
  assumes inv: "client_side decode n x qs fl" and q: "cn_sendQueue (lk_cconn x) = a # q"
    and sid: "sid \<notin> fst ` set (cn_streams (lk_cconn x))"
    and step: "handleSending now sid None accept_all (lk_cconn x, lk_cheap x) = (c, S)"
    and y: "y = x\<lparr>lk_cconn := c, lk_cheap := S, lk_flight := lk_flight x @ drop (length (written_out (lk_cconn x))) (written_out c)\<rparr>"
  obtains op qs' where "qs = op # qs'" "client_side decode n y qs' (fl @ [op])"
  | op qs' where "qs = op # qs'" "client_side decode n y qs' fl" "n < length (lk_issued x)"
proof -
  let ?conn = "lk_cconn x\<lparr>cn_sendQueue := q\<rparr>"
  let ?m = "mh_heap (lk_cheap x) ! a"
  obtain op qs' where qs: "qs = op # qs'" using inv q by (auto simp: client_side_def list_all2_Cons1)
  have a: "a < length (mh_heap (lk_cheap x))" "mg_refCount ?m = 2" "carries decode ?m op" "a \<notin> set q" "distinct q"
    using inv q qs by (simp_all add: client_side_def)
  have S: "S = Release a (lk_cheap x)" and c: "c = snd (sendMessageInternal now sid None accept_all ?m ?conn)"
    using step q by (simp_all add: handleSending_def)
  have S': "mh_pool S = []" "length (mh_heap S) = length (mh_heap (lk_cheap x))" "b \<noteq> a \<Longrightarrow> mh_heap S ! b = mh_heap (lk_cheap x) ! b" for b
    using inv a(1,2) by (simp_all add: S Release_unfold client_side_def Let_def)
  have rest: "list_all2 (\<lambda>a op. a < length (mh_heap S) \<and> mg_refCount (mh_heap S ! a) = 2 \<and> carries decode (mh_heap S ! a) op) q qs'"
  proof -
    have "list_all2 (\<lambda>a op. a < length (mh_heap (lk_cheap x)) \<and> mg_refCount (mh_heap (lk_cheap x) ! a) = 2 \<and>
        carries decode (mh_heap (lk_cheap x) ! a) op) q qs'"
      using inv q qs by (simp add: client_side_def)
    then show ?thesis
    proof (rule list.rel_mono_strong)
      fix b op' assume "b \<in> set q"
      then have "b \<noteq> a" using a(4) by blast
      moreover assume "b < length (mh_heap (lk_cheap x)) \<and> mg_refCount (mh_heap (lk_cheap x) ! b) = 2 \<and> carries decode (mh_heap (lk_cheap x) ! b) op'"
      ultimately show "b < length (mh_heap S) \<and> mg_refCount (mh_heap S ! b) = 2 \<and> carries decode (mh_heap S ! b) op'"
        using S'(2) S'(3) [of b] by simp
    qed
  qed
  obtain k where k: "ready n k (lk_cconn x)" "length qs + k \<le> length (lk_issued x)" using inv by (auto simp: client_side_def)
  have conn: "ready n k ?conn" "written_out ?conn = written_out (lk_cconn x)" "sid \<notin> fst ` set (cn_streams ?conn)"
    using k(1) sid by (simp_all add: ready_def written_out_def)
  show thesis
  proof (cases "k < n")
    case True
    from sendMessageInternal_room [OF conn(1) True conn(3), of now ?m]
    have c': "written_out c = written_out (lk_cconn x) @ [wire ?m]" "ready n (Suc k) c" "cn_sendQueue c = q"
      by (simp_all add: c conn(2) Let_def)
    have "on_wire decode (wire ?m) op" using a(3) by (auto simp: on_wire_def)
    moreover have "length qs' + Suc k \<le> length (lk_issued x)" using k(2) qs by simp
    ultimately have "client_side decode n y qs' (fl @ [op])"
      using inv c' S'(1) rest a(5) by (auto simp: y client_side_def intro!: list_all2_snoc exI [of _ "Suc k"])
    with qs show thesis by (rule that(1))
  next
    case False
    then have "k = n" using k(1) by (simp add: ready_def)
    with conn(1) have c': "c = ?conn" using sendMessageInternal_full [of n ?conn now sid ?m] by (simp add: c)
    have "length qs' + k \<le> length (lk_issued x)" "n < length (lk_issued x)" using k(2) qs \<open>k = n\<close> by simp_all
    moreover have "client_side decode n y qs' fl"
      using inv c' conn(1,2) S'(1) rest a(5) calculation(1) by (auto simp: y client_side_def intro!: exI [of _ k])
    ultimately show thesis using qs by (intro that(2))
  qed
qed

lemma map_of_entry: "k \<notin> fst ` set as \<Longrightarrow> map_of (as @ (k, v) # bs) k = Some v"
  by (induction as) auto

lemma on_stream_entry:
  "sid \<notin> fst ` set as \<Longrightarrow> cn_streams c = as @ (sid, s) # bs \<Longrightarrow> on_stream sid f r c = (fst (f s), c\<lparr>cn_streams := as @ (sid, snd (f s)) # bs\<rparr>)"
proof -
  assume "sid \<notin> fst ` set as" "cn_streams c = as @ (sid, s) # bs"
  moreover from this have "GetStream sid c = Some s" by (simp add: GetStream_def map_of_entry del: map_of_append)
  ultimately show ?thesis by (simp add: on_stream_def update_entry split_beta)
qed

lemma accept_keeps:
  assumes inv: "server_side decode cid buffer x st mq" and w: "on_wire decode w op" and sid: "sid \<notin> fst ` set (cn_streams (lk_sconn x))"
    and step: "handleMessages now sid None (lk_sconn x) = ((Some sid, True), c)"
    and y: "y = x\<lparr>lk_flight := ws, lk_sconn := snd (on_stream sid (delivered w) () c)\<rparr>"
  shows "server_side decode cid buffer y (st @ [Some op]) mq"
proof -
  let ?s = "NewQUICStream now sid (cn_id (lk_sconn x)) 0 DefaultStreamConfig"
  have c: "c = lk_sconn x\<lparr>cn_streamCounter := cn_streamCounter (lk_sconn x) + 1, cn_streams := cn_streams (lk_sconn x) @ [(sid, ?s)]\<rparr>"
    using step inv sid by (auto simp: handleMessages_def Connection_AcceptStream_def server_side_def conn_open_def update_new)
  then have d: "snd (on_stream sid (delivered w) () c) = lk_sconn x\<lparr>cn_streamCounter := cn_streamCounter (lk_sconn x) + 1,
      cn_streams := cn_streams (lk_sconn x) @ [(sid, ?s\<lparr>qs_in := w, qs_end := Some EOF\<rparr>)]\<rparr>"
    using sid by (simp add: on_stream_entry [of sid "cn_streams (lk_sconn x)" _ ?s "[]"] delivered_def)
  have "unread decode (?s\<lparr>qs_in := w, qs_end := Some EOF\<rparr>) (Some op)"
    using w by (simp add: unread_def NewQUICStream_def NewBaseStream_def BaseStream.defs DefaultStreamConfig_def)
  with inv sid show ?thesis
    by (auto simp: server_side_def y d conn_open_def intro!: list_all2_snoc)
qed

text \<open>One round of the goroutine of a stream: the end of the input, a message for the queue, or one the queue has no room for.\<close>

lemma read_end:
  assumes "qs_in s = []" and "\<not> qs_closed s" and "qs_end s = Some EOF"
  shows "Stream_ReceiveMessage mid now pick s S = Ret (Inl EOF, s, S)"
  using assms by (cases s) (simp add: Stream_ReceiveMessage_def read_full_def)

lemma read_message:
  assumes "unread decode s (Some op)" and "queue_held S q"
  obtains a S' m where "Stream_ReceiveMessage mid now pick s S = Ret (Inr a, s\<lparr>qs_in := []\<rparr>, S')" "carries decode (mh_heap S' ! a) op"
    "queue_held S' (q @ [a])" "\<forall>b\<in>set q. mh_heap S' ! b = mh_heap S ! b"
proof -
  obtain m where m: "qs_in s = wire m" "carries decode m op" "\<not> qs_closed s" "scf_MaxMessageSize (sm_config s) = 1048576"
    using assms(1) by (auto simp: unread_def on_wire_def)
  have fits: "frame_fits m" "202 + length (mg_Payload m) \<le> 1048576" "32 \<le> length (mg_Payload m)"
    using m(2) by (simp_all add: carries_def)
  obtain a S1 where get: "GetMessage mid now pick S = (a, S1)" by fastforce
  note held = GetMessage_held [OF get assms(2)]
  let ?S' = "update_message a (carried m) S1"
  have "Stream_ReceiveMessage mid now pick s S = Ret (Inr a, s\<lparr>qs_in := []\<rparr>, ?S')"
    using receive_wire [OF fits(1) m(3), of "[]" mid now pick S] m(1,4) fits(2,3) get by simp
  moreover have a: "a < length (mh_heap S1)" using held by (simp add: queue_held_def)
  moreover have "frame_fits (carried m (mh_heap S1 ! a))" using fits(1) by (simp add: frame_fits_def carried_def)
  then have "carries decode (mh_heap ?S' ! a) op" using m(2) a by (simp add: carries_def) (simp add: carried_def)
  moreover have "queue_held ?S' (q @ [a])" using held by (intro update_held) (auto simp: carried_def)
  moreover have "\<forall>b\<in>set q. mh_heap ?S' ! b = mh_heap S ! b" using held a by auto
  ultimately show thesis by (intro that)
qed

lemma handle_keeps:
  assumes inv: "server_side decode cid buffer x st mq" and s: "cn_streams (lk_sconn x) = as @ (sid, s) # bs" "\<not> qs_closed s"
    and step: "handleStreamMessages mid now pick chooseDone sid (lk_sconn x) (lk_sheap x) = Ret (goes_on, c, S)"
    and y: "y = x\<lparr>lk_sconn := c, lk_sheap := S\<rparr>"
  obtains as' bs' where "st = as' @ None # bs'" "length as' = length as" "server_side decode cid buffer y st mq"
  | as' op bs' where "st = as' @ Some op # bs'" "length as' = length as" "server_side decode cid buffer y (as' @ None # bs') (mq @ [op])"
  | as' op bs' where "st = as' @ Some op # bs'" "length as' = length as" "server_side decode cid buffer y (as' @ None # bs') mq" "buffer \<le> length mq"
proof -
  let ?c = "lk_sconn x" and ?S = "lk_sheap x"
  have open_: "conn_open ?c" "cn_buffer ?c = buffer" and held: "queue_held ?S (cn_messageQueue ?c)"
    and mq: "list_all2 (\<lambda>a. carries decode (mh_heap ?S ! a)) (cn_messageQueue ?c) mq"
    using inv by (simp_all add: server_side_def)
  have al: "cn_streams ?c = as @ (sid, s) # bs" "sid \<notin> fst ` set as" "sid \<notin> fst ` set bs"
    using inv s(1) by (auto simp: server_side_def image_iff)
  have get: "GetStream sid ?c = Some s" using al by (simp add: GetStream_def map_of_entry del: map_of_append)
  obtain as' nxt bs' where st: "st = as' @ nxt # bs'" "list_all2 (\<lambda>e. unread decode (snd e)) as as'" "unread decode s nxt"
      "list_all2 (\<lambda>e. unread decode (snd e)) bs bs'"
    using inv al(1) by (auto simp: server_side_def elim!: list_all2_entry)
  have streams: "list_all2 (\<lambda>e. unread decode (snd e)) (as @ (sid, s') # bs) (as' @ None # bs')" "distinct (map fst (as @ (sid, s') # bs))"
    if "unread decode s' None" for s'
    using st that inv al by (simp_all add: server_side_def list_all2_appendI)
  show thesis
  proof (cases nxt)
    case None
    have s': "qs_in s = []" "qs_end s = Some EOF" using st(3) s(2) None by (simp_all add: unread_def)
    let ?s = "snd (Stream_Close None s)"
    have "AList.update sid s (cn_streams ?c) = cn_streams ?c" using al by (simp add: update_entry)
    then have "c = close_stream sid ?c" "S = ?S"
      using step get s(2) read_end [OF s'(1) s(2) s'(2), of mid now pick ?S] by (auto simp: handleStreamMessages_def)
    moreover have "close_stream sid ?c = ?c\<lparr>cn_streams := as @ (sid, ?s) # bs\<rparr>"
      using al by (simp add: close_stream_def on_stream_entry)
    moreover have "unread decode ?s None"
      using st(3) s' s(2) None by (simp add: unread_def Stream_Close_def stream_MarkClosed_def stream_SetState_def Let_def)
    ultimately show thesis
      using inv st None streams [of ?s] open_ list_all2_lengthD [OF st(2)] by (intro that(1) [of as' bs']) (simp_all add: server_side_def y conn_open_def)
  next
    case (Some op)
    let ?s = "s\<lparr>qs_in := []\<rparr>"
    let ?d = "?c\<lparr>cn_streams := as @ (sid, ?s) # bs\<rparr>"
    obtain a S' where recv: "Stream_ReceiveMessage mid now pick s ?S = Ret (Inr a, ?s, S')" "carries decode (mh_heap S' ! a) op"
      "queue_held S' (cn_messageQueue ?c @ [a])" "\<forall>b\<in>set (cn_messageQueue ?c). mh_heap S' ! b = mh_heap ?S ! b"
      using read_message [OF _ held, of decode s op mid now pick] st(3) Some by metis
    have unr: "unread decode ?s None" using st(3) Some by (auto simp: unread_def)
    have fwd: "(c, S) = (if length (cn_messageQueue ?c) < buffer then (?d\<lparr>cn_messageQueue := cn_messageQueue ?c @ [a]\<rparr>, S') else (?d, Release a S'))"
      using step get recv(1) al open_
      by (auto simp: handleStreamMessages_def update_entry forward_message_def conn_open_def split: if_splits)
    have keep: "list_all2 (\<lambda>b. carries decode (mh_heap T ! b)) (cn_messageQueue ?c) mq"
      if "\<forall>b\<in>set (cn_messageQueue ?c). mh_heap T ! b = mh_heap ?S ! b" for T
      using mq by (rule list.rel_mono_strong) (use that in auto)
    show thesis
    proof (cases "length (cn_messageQueue ?c) < buffer")
      case True
      then have "server_side decode cid buffer y (as' @ None # bs') (mq @ [op])"
        using inv fwd streams [OF unr] recv keep [OF recv(4)] open_
        by (auto simp: server_side_def y conn_open_def intro!: list_all2_snoc)
      then show thesis using st(1) Some list_all2_lengthD [OF st(2)] by (intro that(2)) simp_all
    next
      case False
      note rel = Release_held [of S' "cn_messageQueue ?c" a "[]"]
      then have "queue_held S (cn_messageQueue ?c)" "\<forall>b\<in>set (cn_messageQueue ?c). mh_heap S ! b = mh_heap ?S ! b"
        using recv(3,4) fwd False by simp_all
      then have "server_side decode cid buffer y (as' @ None # bs') mq"
        using inv fwd False streams [OF unr] keep [of S] open_
        by (simp add: server_side_def y conn_open_def)
      moreover have "length (cn_messageQueue ?c) = length mq" using mq by (rule list_all2_lengthD)
      ultimately show thesis using st(1) Some False list_all2_lengthD [OF st(2)] by (intro that(3)) simp_all
    qed
  qed
qed

lemma seen_view: "server_view cid (on_session cid (\<lambda>x. x\<lparr>ss_LastSeen := now\<rparr>) s) = server_view cid s"
    "session_active cid (on_session cid (\<lambda>x. x\<lparr>ss_LastSeen := now\<rparr>) s) = session_active cid s"
  by (auto simp: server_view_def session_active_def on_session_def update_conv split: option.split)

lemma serve_keeps:
  assumes inv: "server_side decode cid buffer x st mq"
    and recv: "Connection_ReceiveMessage now FromQueue (lk_sheap x) (lk_sconn x) = Ret (Inr a, c)"
    and round: "handleClient_round mid now' pick taken decode cid (Inr (Some a)) (lk_server x) (lk_sheap x) = (sv, S)"
    and y: "y = x\<lparr>lk_sconn := c, lk_server := sv, lk_sheap := S, lk_served := lk_served x @ controls_in decode (mh_heap (lk_sheap x) ! a)\<rparr>"
  obtains op mq' where "mq = op # mq'" "lk_served y = lk_served x @ [op]" "server_side decode cid buffer y st mq'"
proof -
  let ?c = "lk_sconn x" and ?S = "lk_sheap x" and ?sv = "lk_server x"
  have open_: "conn_open ?c" using inv by (simp add: server_side_def)
  obtain q where q: "cn_messageQueue ?c = a # q" and c: "conn_open c" "cn_buffer c = cn_buffer ?c" "cn_streams c = cn_streams ?c" "cn_messageQueue c = q"
    using recv open_
    by (auto simp: Connection_ReceiveMessage_def conn_open_def conn_AddBytesReceived_def conn_UpdateActivity_def split: list.splits if_splits)
  obtain op mq' where mq: "mq = op # mq'" "carries decode (mh_heap ?S ! a) op" "list_all2 (\<lambda>a. carries decode (mh_heap ?S ! a)) q mq'"
    using inv q by (auto simp: server_side_def list_all2_Cons1)
  have held: "queue_held ?S ([] @ a # q)" and sv: "session_active cid ?sv" "server_view cid ?sv = named (books (lk_served x))"
    using inv q by (simp_all add: server_side_def)
  let ?seen = "on_session cid (\<lambda>x. x\<lparr>ss_LastSeen := now'\<rparr>) ?sv"
  obtain ses where ses: "map_of (sv_clients ?sv) cid = Some ses" "ss_Active ses" using sv(1) by (auto simp: session_active_def split: option.splits)
  have "sv = handleControlMessage now' (Some (message_of op)) cid ?seen" "S = Release a ?S"
    using round ses mq(2) by (auto simp: handleClient_round_def server_handleMessage_def carries_def)
  moreover have "session_active cid ?seen" "server_view cid ?seen = named (books (lk_served x))" using sv by (simp_all add: seen_view)
  ultimately have sv': "session_active cid sv" "server_view cid sv = named (apply_control op (books (lk_served x)))" "S = Release a ?S"
    using handle_control [of cid ?seen "books (lk_served x)" now' op] by simp_all
  have served: "controls_in decode (mh_heap ?S ! a) = [op]" using mq(2) by (simp add: carries_def controls_in_def)
  note rel = Release_held [OF held]
  have "list_all2 (\<lambda>b. carries decode (mh_heap S ! b)) q mq'"
    using mq(3) by (rule list.rel_mono_strong) (use rel sv'(3) in auto)
  then have "server_side decode cid buffer y st mq'"
    using inv c sv' rel served by (simp add: server_side_def y)
  with mq(1) served show thesis by (intro that) (simp_all add: y)
qed

lemma elsewhere_keeps:
  assumes "server_side decode cid buffer x st mq" and "server_view cid sv = server_view cid (lk_server x)"
    and "session_active cid sv = session_active cid (lk_server x)" and "queue_held S (cn_messageQueue (lk_sconn x))"
    and "\<And>a. a \<in> set (cn_messageQueue (lk_sconn x)) \<Longrightarrow> mh_heap S ! a = mh_heap (lk_sheap x) ! a"
  shows "server_side decode cid buffer (x\<lparr>lk_server := sv, lk_sheap := S\<rparr>) st mq"
proof -
  have "list_all2 (\<lambda>a. carries decode (mh_heap S ! a)) (cn_messageQueue (lk_sconn x)) mq"
    by (rule list.rel_mono_strong [of "\<lambda>a. carries decode (mh_heap (lk_sheap x) ! a)"]) (use assms(1,5) in \<open>auto simp: server_side_def\<close>)
  with assms(1-4) show ?thesis by (simp add: server_side_def)
qed

lemma sides_other [simp]:
  "client_side decode n (x\<lparr>lk_sconn := c\<rparr>) qs fl = client_side decode n x qs fl"
  "client_side decode n (x\<lparr>lk_sheap := S\<rparr>) qs fl = client_side decode n x qs fl"
  "client_side decode n (x\<lparr>lk_server := sv\<rparr>) qs fl = client_side decode n x qs fl"
  "client_side decode n (x\<lparr>lk_served := ops\<rparr>) qs fl = client_side decode n x qs fl"
  "server_side decode cid buffer (x\<lparr>lk_cconn := c\<rparr>) st mq = server_side decode cid buffer x st mq"
  "server_side decode cid buffer (x\<lparr>lk_cheap := S\<rparr>) st mq = server_side decode cid buffer x st mq"
  "server_side decode cid buffer (x\<lparr>lk_flight := ws\<rparr>) st mq = server_side decode cid buffer x st mq"
  by (simp_all add: client_side_def server_side_def)

lemma server_side_same:
  "lk_sconn y = lk_sconn x \<Longrightarrow> lk_sheap y = lk_sheap x \<Longrightarrow> lk_server y = lk_server x \<Longrightarrow> lk_served y = lk_served x \<Longrightarrow>
     server_side decode cid buffer y st mq = server_side decode cid buffer x st mq"
  by (simp add: server_side_def)

lemma link_invE:
  assumes "link_inv decode cid n buffer x"
  obtains qs fl st mq lost where "client_side decode n x qs fl" "server_side decode cid buffer x st mq"
    "mset (lk_issued x) = mset (lk_served x) + mset qs + mset fl + mset (List.map_filter id st) + mset mq + mset lost"
    "lost \<noteq> [] \<longrightarrow> min n buffer < length (lk_issued x)"
  using assms unfolding link_inv_def by blast

lemma link_invI:
  "client_side decode n x qs fl \<Longrightarrow> server_side decode cid buffer x st mq \<Longrightarrow>
     mset (lk_issued x) = mset (lk_served x) + mset qs + mset fl + mset (List.map_filter id st) + mset mq + mset lost \<Longrightarrow>
     (lost \<noteq> [] \<Longrightarrow> min n buffer < length (lk_issued x)) \<Longrightarrow> link_inv decode cid n buffer x"
  unfolding link_inv_def by blast

context control_codec
begin

lemma sendable_carried:
  assumes "sendable encode names op"
  obtains bs where "encode (control_object op) = Inr bs" "decode bs = Some (message_of op)" "32 \<le> length bs" "202 + length bs \<le> 1048576"
proof -
  have "control_words_of op \<in> control_words" by (cases op) (simp_all add: control_words_def)
  then show thesis
    using carries_control [of "fst (control_words_of op)" "snd (control_words_of op)" "control_name op"] assms that
    by (auto simp: sendable_def control_object_def message_of_def)
qed

lemma link_step_inv: "link_step encode decode names cid x y \<Longrightarrow> link_inv decode cid n buffer x \<Longrightarrow> link_inv decode cid n buffer y"
proof (induction rule: link_step.induct)
  case (issues mid now op pick x err y)
  obtain qs fl st mq lost where inv: "client_side decode n x qs fl" "server_side decode cid buffer x st mq"
    "mset (lk_issued x) = mset (lk_served x) + mset qs + mset fl + mset (List.map_filter id st) + mset mq + mset lost"
    "lost \<noteq> [] \<longrightarrow> min n buffer < length (lk_issued x)"
    by (rule link_invE [OF issues.prems])
  obtain bs where bs: "encode (control_object op) = Inr bs" "decode bs = Some (message_of op)" "32 \<le> length bs" "202 + length bs \<le> 1048576"
    using sendable_carried [OF issues.hyps(3)] by blast
  obtain qs' where qs': "client_side decode n y qs' fl" "lk_sconn y = lk_sconn x" "lk_sheap y = lk_sheap x" "lk_server y = lk_server x"
    "lk_served y = lk_served x" "lk_issued y = lk_issued x \<and> qs' = qs \<or> lk_issued y = lk_issued x @ [op] \<and> qs' = qs @ [op]"
    using issue_keeps [OF bs issues.hyps(1,2) inv(1) issues.hyps(4)] by blast
  show ?case unfolding link_inv_def
    by (rule exI [of _ qs'], rule exI [of _ fl], rule exI [of _ st], rule exI [of _ mq], rule exI [of _ lost])
      (use qs' inv server_side_same [OF qs'(2-5)] in auto)
next
  case (sends x a q sid now c S)
  obtain qs fl st mq lost where inv: "client_side decode n x qs fl" "server_side decode cid buffer x st mq"
    "mset (lk_issued x) = mset (lk_served x) + mset qs + mset fl + mset (List.map_filter id st) + mset mq + mset lost"
    "lost \<noteq> [] \<longrightarrow> min n buffer < length (lk_issued x)"
    by (rule link_invE [OF sends.prems])
  let ?y = "x\<lparr>lk_cconn := c, lk_cheap := S, lk_flight := lk_flight x @ drop (length (written_out (lk_cconn x))) (written_out c)\<rparr>"
  have y: "server_side decode cid buffer ?y st mq" using inv(2) by simp
  show ?case
  proof (rule send_keeps [OF inv(1) sends.hyps refl])
    fix op qs' assume "qs = op # qs'" "client_side decode n ?y qs' (fl @ [op])"
    with inv y show ?thesis unfolding link_inv_def
      by (intro exI [of _ qs'] exI [of _ "fl @ [op]"] exI [of _ st] exI [of _ mq] exI [of _ lost]) simp
  next
    fix op qs' assume "qs = op # qs'" "client_side decode n ?y qs' fl" "n < length (lk_issued x)"
    with inv y show ?thesis unfolding link_inv_def
      by (intro exI [of _ qs'] exI [of _ fl] exI [of _ st] exI [of _ mq] exI [of _ "op # lost"]) simp
  qed
next
  case (accepts x w ws sid now c)
  obtain qs fl st mq lost where inv: "client_side decode n x qs fl" "server_side decode cid buffer x st mq"
    "mset (lk_issued x) = mset (lk_served x) + mset qs + mset fl + mset (List.map_filter id st) + mset mq + mset lost"
    "lost \<noteq> [] \<longrightarrow> min n buffer < length (lk_issued x)"
    by (rule link_invE [OF accepts.prems])
  obtain op fl' where fl: "fl = op # fl'" "on_wire decode w op" "list_all2 (on_wire decode) ws fl'"
    using inv(1) accepts.hyps(1) by (auto simp: client_side_def list_all2_Cons1)
  let ?y = "x\<lparr>lk_flight := ws, lk_sconn := snd (on_stream sid (delivered w) () c)\<rparr>"
  have "server_side decode cid buffer ?y (st @ [Some op]) mq"
    by (rule accept_keeps [OF inv(2) fl(2) accepts.hyps(2,3) refl])
  moreover have "client_side decode n ?y qs fl'" using inv(1) fl(3) by (simp add: client_side_def)
  ultimately show ?case unfolding link_inv_def
    using inv(3,4) fl(1) by (intro exI [of _ qs] exI [of _ fl'] exI [of _ "st @ [Some op]"] exI [of _ mq] exI [of _ lost]) simp
next
  case (handles sid x s mid now pick chooseDone goes_on c S)
  obtain qs fl st mq lost where inv: "client_side decode n x qs fl" "server_side decode cid buffer x st mq"
    "mset (lk_issued x) = mset (lk_served x) + mset qs + mset fl + mset (List.map_filter id st) + mset mq + mset lost"
    "lost \<noteq> [] \<longrightarrow> min n buffer < length (lk_issued x)"
    by (rule link_invE [OF handles.prems])
  let ?y = "x\<lparr>lk_sconn := c, lk_sheap := S\<rparr>"
  have y: "client_side decode n ?y qs fl" using inv(1) by simp
  have len: "length (lk_issued x) = length (lk_served x) + length qs + length fl + length (List.map_filter id st) + length mq + length lost"
    using arg_cong [OF inv(3), of size] by simp
  obtain as0 bs0 where al: "cn_streams (lk_sconn x) = as0 @ (sid, s) # bs0"
    using entry_split [of "cn_streams (lk_sconn x)" sid s thesis] inv(2) handles.hyps(1) by (simp add: server_side_def GetStream_def)
  show ?case
  proof (rule handle_keeps [OF inv(2) al handles.hyps(2,3) refl])
    assume "server_side decode cid buffer ?y st mq"
    with inv y show ?thesis unfolding link_inv_def
      by (intro exI [of _ qs] exI [of _ fl] exI [of _ st] exI [of _ mq] exI [of _ lost]) simp
  next
    fix as op bs assume "st = as @ Some op # bs" "server_side decode cid buffer ?y (as @ None # bs) (mq @ [op])"
    with inv y show ?thesis unfolding link_inv_def
      by (intro exI [of _ qs] exI [of _ fl] exI [of _ "as @ None # bs"] exI [of _ "mq @ [op]"] exI [of _ lost]) simp
  next
    fix as op bs assume "st = as @ Some op # bs" "server_side decode cid buffer ?y (as @ None # bs) mq" "buffer \<le> length mq"
    with inv y len show ?thesis unfolding link_inv_def
      by (intro exI [of _ qs] exI [of _ fl] exI [of _ "as @ None # bs"] exI [of _ mq] exI [of _ "op # lost"]) simp
  qed
next
  case (serves now x a c mid now' pick taken sv S)
  obtain qs fl st mq lost where inv: "client_side decode n x qs fl" "server_side decode cid buffer x st mq"
    "mset (lk_issued x) = mset (lk_served x) + mset qs + mset fl + mset (List.map_filter id st) + mset mq + mset lost"
    "lost \<noteq> [] \<longrightarrow> min n buffer < length (lk_issued x)"
    by (rule link_invE [OF serves.prems])
  let ?y = "x\<lparr>lk_sconn := c, lk_server := sv, lk_sheap := S, lk_served := lk_served x @ controls_in decode (mh_heap (lk_sheap x) ! a)\<rparr>"
  obtain op mq' where "mq = op # mq'" "lk_served ?y = lk_served x @ [op]" "server_side decode cid buffer ?y st mq'"
    by (rule serve_keeps [OF inv(2) serves.hyps refl])
  with inv show ?case unfolding link_inv_def
    by (intro exI [of _ qs] exI [of _ fl] exI [of _ st] exI [of _ mq'] exI [of _ lost]) simp
next
  case (elsewhere sv x S)
  obtain qs fl st mq lost where inv: "client_side decode n x qs fl" "server_side decode cid buffer x st mq"
    "mset (lk_issued x) = mset (lk_served x) + mset qs + mset fl + mset (List.map_filter id st) + mset mq + mset lost"
    "lost \<noteq> [] \<longrightarrow> min n buffer < length (lk_issued x)"
    by (rule link_invE [OF elsewhere.prems])
  have "server_side decode cid buffer (x\<lparr>lk_server := sv, lk_sheap := S\<rparr>) st mq"
    by (rule elsewhere_keeps [OF inv(2) elsewhere.hyps])
  with inv show ?case unfolding link_inv_def
    by (intro exI [of _ qs] exI [of _ fl] exI [of _ st] exI [of _ mq] exI [of _ lost]) simp
qed

end

section \<open>Every message arrives\<close>

definition stations ::
  "(bytes \<Rightarrow> ControlMessage option) \<Rightarrow> string \<Rightarrow> nat \<Rightarrow> nat \<Rightarrow> 'v link \<Rightarrow> control list \<Rightarrow> control list \<Rightarrow> control option list \<Rightarrow> control list \<Rightarrow> bool" where
  "stations decode cid n buffer x qs fl st mq \<longleftrightarrow> client_side decode n x qs fl \<and> server_side decode cid buffer x st mq"

lemma fresh_stream: "\<exists>sid :: string. sid \<notin> fst ` set (al :: (string \<times> 'a) list)"
  using ex_new_if_finite [OF infinite_UNIV_listI, of "fst ` set al"] by simp

lemma send_here:
  assumes "stations decode cid n buffer x (op # qs) fl st mq"
  shows "\<exists>y fl'. link_step encode decode names cid x y \<and> stations decode cid n buffer y qs fl' st mq \<and> lk_issued y = lk_issued x \<and>
    lk_served y = lk_served x \<and> (fl' = fl @ [op] \<or> fl' = fl \<and> n < length (lk_issued x))"
proof -
  have inv: "client_side decode n x (op # qs) fl" "server_side decode cid buffer x st mq" using assms by (simp_all add: stations_def)
  then obtain a q where q: "cn_sendQueue (lk_cconn x) = a # q" by (auto simp: client_side_def list_all2_Cons2)
  obtain sid where sid: "sid \<notin> fst ` set (cn_streams (lk_cconn x))" using fresh_stream by blast
  obtain c S where step: "handleSending 0 sid None accept_all (lk_cconn x, lk_cheap x) = (c, S)" by fastforce
  let ?y = "x\<lparr>lk_cconn := c, lk_cheap := S, lk_flight := lk_flight x @ drop (length (written_out (lk_cconn x))) (written_out c)\<rparr>"
  have y: "link_step encode decode names cid x ?y" by (rule sends [OF q sid step])
  have s: "server_side decode cid buffer ?y st mq" using inv(2) by simp
  show ?thesis
  proof (rule send_keeps [OF inv(1) q sid step refl])
    fix op' qs' assume "op # qs = op' # qs'" "client_side decode n ?y qs' (fl @ [op'])"
    with y s show ?thesis by (intro exI [of _ ?y] exI [of _ "fl @ [op]"]) (simp add: stations_def)
  next
    fix op' qs' assume "op # qs = op' # qs'" "client_side decode n ?y qs' fl" "n < length (lk_issued x)"
    with y s show ?thesis by (intro exI [of _ ?y] exI [of _ fl]) (simp add: stations_def)
  qed
qed

lemma accept_here:
  assumes "stations decode cid n buffer x qs (op # fl) st mq"
  shows "\<exists>y. link_step encode decode names cid x y \<and> stations decode cid n buffer y qs fl (st @ [Some op]) mq \<and> lk_issued y = lk_issued x \<and>
    lk_served y = lk_served x"
proof -
  have inv: "client_side decode n x qs (op # fl)" "server_side decode cid buffer x st mq" using assms by (simp_all add: stations_def)
  then obtain w ws where w: "lk_flight x = w # ws" "on_wire decode w op" "list_all2 (on_wire decode) ws fl"
    by (auto simp: client_side_def list_all2_Cons2)
  obtain sid where sid: "sid \<notin> fst ` set (cn_streams (lk_sconn x))" using fresh_stream by blast
  have "\<exists>c. handleMessages 0 sid None (lk_sconn x) = ((Some sid, True), c)"
    using inv(2) by (simp add: handleMessages_def Connection_AcceptStream_def server_side_def conn_open_def)
  then obtain c where step: "handleMessages 0 sid None (lk_sconn x) = ((Some sid, True), c)" by blast
  let ?y = "x\<lparr>lk_flight := ws, lk_sconn := snd (on_stream sid (delivered w) () c)\<rparr>"
  have "server_side decode cid buffer ?y (st @ [Some op]) mq" by (rule accept_keeps [OF inv(2) w(2) sid step refl])
  moreover have "client_side decode n ?y qs fl" using inv(1) w(3) by (simp add: client_side_def)
  moreover have "link_step encode decode names cid x ?y" by (rule accepts [OF w(1) sid step])
  ultimately show ?thesis by (intro exI [of _ ?y]) (simp add: stations_def)
qed

lemma handle_here:
  assumes "stations decode cid n buffer x qs fl (as @ Some op # bs) mq"
  shows "\<exists>y mq'. link_step encode decode names cid x y \<and> stations decode cid n buffer y qs fl (as @ None # bs) mq' \<and> lk_issued y = lk_issued x \<and>
    lk_served y = lk_served x \<and> (mq' = mq @ [op] \<or> mq' = mq \<and> buffer \<le> length mq)"
proof -
  have inv: "client_side decode n x qs fl" "server_side decode cid buffer x (as @ Some op # bs) mq" using assms by (simp_all add: stations_def)
  then obtain as0 sid s bs0 where al: "cn_streams (lk_sconn x) = as0 @ (sid, s) # bs0" "length as0 = length as" "unread decode s (Some op)"
    by (auto simp: server_side_def list_all2_append2 list_all2_Cons2)
  then have s: "\<not> qs_closed s" by (simp add: unread_def)
  have held: "queue_held (lk_sheap x) (cn_messageQueue (lk_sconn x))" using inv(2) by (simp add: server_side_def)
  obtain a S' where recv: "Stream_ReceiveMessage [] 0 None s (lk_sheap x) = Ret (Inr a, s\<lparr>qs_in := []\<rparr>, S')"
    by (rule read_message [OF al(3) held])
  have "sid \<notin> fst ` set as0" using inv(2) al(1) by (auto simp: server_side_def image_iff)
  then have get: "GetStream sid (lk_sconn x) = Some s" using al(1) by (simp add: GetStream_def map_of_entry del: map_of_append)
  have "\<exists>r. handleStreamMessages [] 0 None False sid (lk_sconn x) (lk_sheap x) = Ret r"
    using inv(2) recv get by (simp add: handleStreamMessages_def forward_message_def server_side_def conn_open_def Let_def ex_bool_eq)
  then obtain goes_on c S where step: "handleStreamMessages [] 0 None False sid (lk_sconn x) (lk_sheap x) = Ret (goes_on, c, S)" by auto
  let ?y = "x\<lparr>lk_sconn := c, lk_sheap := S\<rparr>"
  have y: "link_step encode decode names cid x ?y" "client_side decode n ?y qs fl" using handles [OF get s step] inv(1) by simp_all
  show ?thesis
  proof (rule handle_keeps [OF inv(2) al(1) s step refl])
    fix as' bs' assume "as @ Some op # bs = as' @ None # bs'" "length as' = length as0"
    with al(2) show ?thesis by simp
  next
    fix as' op' bs' assume "as @ Some op # bs = as' @ Some op' # bs'" "length as' = length as0"
      "server_side decode cid buffer ?y (as' @ None # bs') (mq @ [op'])"
    with y al(2) show ?thesis by (intro exI [of _ ?y] exI [of _ "mq @ [op]"]) (simp add: stations_def)
  next
    fix as' op' bs' assume "as @ Some op # bs = as' @ Some op' # bs'" "length as' = length as0"
      "server_side decode cid buffer ?y (as' @ None # bs') mq" "buffer \<le> length mq"
    with y al(2) show ?thesis by (intro exI [of _ ?y] exI [of _ mq]) (simp add: stations_def)
  qed
qed

lemma serve_here:
  assumes "stations decode cid n buffer x qs fl st (op # mq)"
  shows "\<exists>y. link_step encode decode names cid x y \<and> stations decode cid n buffer y qs fl st mq \<and> lk_issued y = lk_issued x \<and>
    lk_served y = lk_served x @ [op]"
proof -
  have inv: "client_side decode n x qs fl" "server_side decode cid buffer x st (op # mq)" using assms by (simp_all add: stations_def)
  then obtain a q where q: "cn_messageQueue (lk_sconn x) = a # q" by (auto simp: server_side_def list_all2_Cons2)
  have "\<exists>c. Connection_ReceiveMessage 0 FromQueue (lk_sheap x) (lk_sconn x) = Ret (Inr a, c)"
    using inv(2) q by (simp add: Connection_ReceiveMessage_def server_side_def conn_open_def)
  then obtain c where recv: "Connection_ReceiveMessage 0 FromQueue (lk_sheap x) (lk_sconn x) = Ret (Inr a, c)" by blast
  obtain sv S where round: "handleClient_round [] 0 None False decode cid (Inr (Some a)) (lk_server x) (lk_sheap x) = (sv, S)" by fastforce
  let ?y = "x\<lparr>lk_sconn := c, lk_server := sv, lk_sheap := S, lk_served := lk_served x @ controls_in decode (mh_heap (lk_sheap x) ! a)\<rparr>"
  obtain op' mq' where "op # mq = op' # mq'" "lk_served ?y = lk_served x @ [op']" "server_side decode cid buffer ?y st mq'"
    by (rule serve_keeps [OF inv(2) recv round refl])
  moreover have "link_step encode decode names cid x ?y" by (rule serves [OF recv round])
  ultimately show ?thesis using inv(1) by (intro exI [of _ ?y]) (simp add: stations_def)
qed

text \<open>The number of steps the messages under way still have to take.\<close>

definition way_left :: "control list \<Rightarrow> control list \<Rightarrow> control option list \<Rightarrow> control list \<Rightarrow> nat" where
  "way_left qs fl st mq = 4 * length qs + 3 * length fl + 2 * length (List.map_filter id st) + length mq"

lemma unread_split: "List.map_filter id st \<noteq> [] \<Longrightarrow> \<exists>as op bs. st = as @ Some op # bs"
proof (induction st)
  case (Cons nxt st)
  show ?case
  proof (cases nxt)
    case None
    with Cons obtain as op bs where "st = as @ Some op # bs" by auto
    then show ?thesis by (intro exI [of _ "nxt # as"]) simp
  next
    case (Some op)
    then show ?thesis by (intro exI [of _ "[]"] exI [of _ op] exI [of _ st]) simp
  qed
qed simp

lemma stations_advance:
  assumes "stations decode cid n buffer x qs fl st mq" and "0 < way_left qs fl st mq"
  shows "\<exists>y qs' fl' st' mq'. link_step encode decode names cid x y \<and> stations decode cid n buffer y qs' fl' st' mq' \<and>
    lk_issued y = lk_issued x \<and> way_left qs' fl' st' mq' < way_left qs fl st mq"
proof -
  consider op qs' where "qs = op # qs'" | op fl' where "fl = op # fl'" | "List.map_filter id st \<noteq> []" | op mq' where "mq = op # mq'"
    using assms(2) by (cases qs; cases fl; cases mq) (auto simp: way_left_def)
  then show ?thesis
  proof cases
    case 1
    obtain y fl' where y: "link_step encode decode names cid x y" "stations decode cid n buffer y qs' fl' st mq" "lk_issued y = lk_issued x"
      "fl' = fl @ [op] \<or> fl' = fl"
      using send_here [of decode cid n buffer x op qs' fl st mq encode names] assms(1) 1 by blast
    then have "way_left qs' fl' st mq < way_left qs fl st mq" using 1 by (auto simp: way_left_def)
    with y show ?thesis by blast
  next
    case 2
    obtain y where y: "link_step encode decode names cid x y" "stations decode cid n buffer y qs fl' (st @ [Some op]) mq" "lk_issued y = lk_issued x"
      using accept_here [of decode cid n buffer x qs op fl' st mq encode names] assms(1) 2 by blast
    have "way_left qs fl' (st @ [Some op]) mq < way_left qs fl st mq" using 2 by (simp add: way_left_def)
    with y show ?thesis by blast
  next
    case 3
    then obtain as op bs where st: "st = as @ Some op # bs" using unread_split by blast
    obtain y mq' where y: "link_step encode decode names cid x y" "stations decode cid n buffer y qs fl (as @ None # bs) mq'" "lk_issued y = lk_issued x"
      "mq' = mq @ [op] \<or> mq' = mq"
      using handle_here [of decode cid n buffer x qs fl as op bs mq encode names] assms(1) st by blast
    then have "way_left qs fl (as @ None # bs) mq' < way_left qs fl st mq" using st by (auto simp: way_left_def)
    with y show ?thesis by blast
  next
    case 4
    obtain y where y: "link_step encode decode names cid x y" "stations decode cid n buffer y qs fl st mq'" "lk_issued y = lk_issued x"
      using serve_here [of decode cid n buffer x qs fl st op mq' encode names] assms(1) 4 by blast
    have "way_left qs fl st mq' < way_left qs fl st mq" using 4 by (simp add: way_left_def)
    with y show ?thesis by blast
  qed
qed

lemma wire_nonempty [simp]: "wire m \<noteq> []" "[] \<noteq> wire m"
  using length_wire [of m] by (auto simp del: length_wire simp flip: length_greater_0_conv)

lemma stations_quiet:
  assumes "stations decode cid n buffer x qs fl st mq"
  shows "quiet x \<longleftrightarrow> way_left qs fl st mq = 0"
proof -
  have read: "(\<forall>e\<in>set es. qs_in (snd e) = []) \<longleftrightarrow> List.map_filter id st = []"
    if "list_all2 (\<lambda>e. unread decode (snd e)) es st" for es
    using that
  proof (induction es st rule: list_all2_induct)
    case (Cons e es nxt st)
    have "qs_in (snd e) = [] \<longleftrightarrow> nxt = None"
      using Cons.hyps(1) by (auto simp: unread_def on_wire_def split: option.splits)
    with Cons.IH show ?case by (auto split: option.split)
  qed simp
  have "list_all2 (\<lambda>e. unread decode (snd e)) (cn_streams (lk_sconn x)) st" using assms by (simp add: stations_def server_side_def)
  moreover have "length (cn_sendQueue (lk_cconn x)) = length qs" "length (lk_flight x) = length fl" "length (cn_messageQueue (lk_sconn x)) = length mq"
    using assms by (auto simp: stations_def client_side_def server_side_def dest: list_all2_lengthD)
  ultimately show ?thesis
    using read by (auto simp: quiet_def way_left_def)
qed

lemma stations_settle:
  "stations decode cid n buffer x qs fl st mq \<Longrightarrow>
     \<exists>y. (link_step encode decode names cid)\<^sup>*\<^sup>* x y \<and> quiet y \<and> lk_issued y = lk_issued x"
proof (induction "way_left qs fl st mq" arbitrary: x qs fl st mq rule: less_induct)
  case less
  show ?case
  proof (cases "way_left qs fl st mq = 0")
    case True
    with less.prems show ?thesis by (intro exI [of _ x]) (simp add: stations_quiet)
  next
    case False
    then obtain y qs' fl' st' mq' where y: "link_step encode decode names cid x y" "stations decode cid n buffer y qs' fl' st' mq'"
      "lk_issued y = lk_issued x" "way_left qs' fl' st' mq' < way_left qs fl st mq"
      using stations_advance [OF less.prems, of encode names] by blast
    from less.hyps [OF y(4,2)] obtain z where "(link_step encode decode names cid)\<^sup>*\<^sup>* y z" "quiet z" "lk_issued z = lk_issued y" by blast
    with y(1,3) show ?thesis by (intro exI [of _ z]) (simp add: converse_rtranclp_into_rtranclp)
  qed
qed

section \<open>The two books\<close>

lemma new_connection:
  "NewQUICConnection now i buf m = Ret c \<Longrightarrow> cn_maxStreams c = m \<and> cn_streamCounter c = 0 \<and> cn_streams c = [] \<and> cn_sendQueue c = [] \<and>
     cn_messageQueue c = [] \<and> cn_buffer c = nat buf \<and> conn_open c"
  by (auto simp: NewQUICConnection_def NewBaseConnection_def BaseConnection.defs conn_SetState_def conn_open_def split: if_splits)

lemma stations_start: "link_start cid n buffer x \<Longrightarrow> stations decode cid n buffer x [] [] [] []"
proof -
  assume start: "link_start cid n buffer x"
  then have "ready n 0 (lk_cconn x)" "cn_sendQueue (lk_cconn x) = []" and s: "conn_open (lk_sconn x)" "cn_buffer (lk_sconn x) = buffer"
    "cn_streams (lk_sconn x) = []" "cn_messageQueue (lk_sconn x) = []"
    by (auto simp: link_start_def ready_def conn_open_def dest!: new_connection)
  moreover have "cl_connected (lk_client x)" "\<not> cl_closed (lk_client x)" "id_fits (cl_id (lk_client x))" "client_view (lk_client x) = ({}, {})"
    using start by (auto simp: link_start_def Connect_def NewClient_def startWorkers_def client_view_def emitEvent_def)
  ultimately show ?thesis
    using start by (auto simp: link_start_def stations_def client_side_def server_side_def books_def named_def)
qed

lemma link_inv_start: "link_start cid n buffer x \<Longrightarrow> link_inv decode cid n buffer x"
  using stations_start [of cid n buffer x decode]
  by (intro link_invI [of decode n x "[]" "[]" cid buffer "[]" "[]" "[]"]) (simp_all add: stations_def link_start_def)

context control_codec
begin

lemma link_steps_inv: "(link_step encode decode names cid)\<^sup>*\<^sup>* x y \<Longrightarrow> link_inv decode cid n buffer x \<Longrightarrow> link_inv decode cid n buffer y"
  by (induction rule: rtranclp_induct) (auto intro: link_step_inv)

lemma link_books:
  assumes "link_start cid n buffer x0" and "(link_step encode decode names cid)\<^sup>*\<^sup>* x0 x"
  shows "client_view (lk_client x) = books (lk_issued x)" "server_view cid (lk_server x) = named (books (lk_served x))"
    "mset (lk_served x) \<subseteq># mset (lk_issued x)"
    "quiet x \<Longrightarrow> length (lk_issued x) \<le> min n buffer \<Longrightarrow> mset (lk_served x) = mset (lk_issued x)"
    "\<exists>y. (link_step encode decode names cid)\<^sup>*\<^sup>* x y \<and> quiet y \<and> lk_issued y = lk_issued x"
proof -
  have "link_inv decode cid n buffer x" by (rule link_steps_inv [OF assms(2) link_inv_start [OF assms(1)]])
  then obtain qs fl st mq lost where inv: "client_side decode n x qs fl" "server_side decode cid buffer x st mq"
    "mset (lk_issued x) = mset (lk_served x) + mset qs + mset fl + mset (List.map_filter id st) + mset mq + mset lost"
    "lost \<noteq> [] \<longrightarrow> min n buffer < length (lk_issued x)"
    by (rule link_invE)
  then have s: "stations decode cid n buffer x qs fl st mq" by (simp add: stations_def)
  show "client_view (lk_client x) = books (lk_issued x)" using inv(1) by (simp add: client_side_def)
  show "server_view cid (lk_server x) = named (books (lk_served x))" using inv(2) by (simp add: server_side_def)
  show "mset (lk_served x) \<subseteq># mset (lk_issued x)" using inv(3) by simp
  show "mset (lk_served x) = mset (lk_issued x)" if "quiet x" "length (lk_issued x) \<le> min n buffer"
    using that inv(3,4) stations_quiet [OF s] by (auto simp: way_left_def)
  show "\<exists>y. (link_step encode decode names cid)\<^sup>*\<^sup>* x y \<and> quiet y \<and> lk_issued y = lk_issued x"
    by (rule stations_settle [OF s])
qed

lemma issue_here:
  assumes "stations decode cid n buffer x qs fl st mq" and "sendable encode names op"
    and "length (cn_sendQueue (lk_cconn x)) < cn_buffer (lk_cconn x)"
  shows "\<exists>y. link_step encode decode names cid x y \<and> stations decode cid n buffer y (qs @ [op]) fl st mq \<and> lk_issued y = lk_issued x @ [op] \<and>
    lk_served y = lk_served x \<and> cn_buffer (lk_cconn y) = cn_buffer (lk_cconn x) \<and>
    length (cn_sendQueue (lk_cconn y)) = Suc (length (cn_sendQueue (lk_cconn x)))"
proof -
  have inv: "client_side decode n x qs fl" "server_side decode cid buffer x st mq" using assms(1) by (simp_all add: stations_def)
  then have c: "cl_connected (lk_client x)" "\<not> cl_closed (lk_client x)" "mh_pool (lk_cheap x) = []"
    and ready: "\<not> cn_closed (lk_cconn x)" "cn_state (lk_cconn x) = ConnectionStateConnected"
    by (auto simp: client_side_def ready_def)
  obtain bs where bs: "encode (control_object op) = Inr bs" "decode bs = Some (message_of op)" "32 \<le> length bs" "202 + length bs \<le> 1048576"
    using sendable_carried [OF assms(2)] by blast
  let ?conn = "lk_cconn x\<lparr>cn_sendQueue := cn_sendQueue (lk_cconn x) @ [length (mh_heap (lk_cheap x))]\<rparr>"
  have e: "enqueue_message (length (mh_heap (lk_cheap x))) (lk_cconn x) = (None, ?conn)"
    using assms(3) ready by (simp add: enqueue_message_def)
  have fits: "id_fits []" "time_fits 0" by (simp_all add: id_fits_def time_fits_def)
  obtain c' S' where call: "control_call op [] 0 None None encode (lk_client x) (lk_cheap x) = (None, c', S')"
    using control_call_new [of "lk_client x" "lk_cheap x" encode op bs "[]" 0 None None] c bs(1) by blast
  obtain err y where step: "link_issue encode [] 0 None op x = (err, y)" by fastforce
  have y: "lk_issued y = lk_issued x @ [op]" "lk_cconn y = ?conn"
    using step c by (auto simp: link_issue_def GetMessage_new [OF c(3)] e call)
  obtain qs' where qs': "client_side decode n y qs' fl" "lk_sconn y = lk_sconn x" "lk_sheap y = lk_sheap x" "lk_server y = lk_server x"
    "lk_served y = lk_served x" "lk_issued y = lk_issued x \<and> qs' = qs \<or> lk_issued y = lk_issued x @ [op] \<and> qs' = qs @ [op]"
    using issue_keeps [OF bs fits inv(1) step] by blast
  have "stations decode cid n buffer y (qs @ [op]) fl st mq"
    using qs' y(1) inv(2) server_side_same [OF qs'(2-5)] by (auto simp: stations_def)
  with issues [OF fits assms(2) step] y qs'(5) show ?thesis by (intro exI [of _ y]) simp
qed

text \<open>Two calls whose messages change places: the goroutine of the second stream runs first.\<close>

lemma overtaking_run:
  assumes start: "link_start cid n buffer x0" and room: "2 \<le> n" "2 \<le> buffer" "2 \<le> cn_buffer (lk_cconn x0)"
    and ops: "sendable encode names op" "sendable encode names op'"
  shows "\<exists>x. (link_step encode decode names cid)\<^sup>*\<^sup>* x0 x \<and> quiet x \<and> lk_issued x = [op, op'] \<and> lk_served x = [op', op]"
proof -
  let ?step = "link_step encode decode names cid" and ?at = "stations decode cid n buffer"
  have s0: "?at x0 [] [] [] []" "lk_issued x0 = []" "lk_served x0 = []" "cn_sendQueue (lk_cconn x0) = []"
    using stations_start [OF start] start by (auto simp: link_start_def dest!: new_connection)
  obtain x1 where x1: "?step x0 x1" "?at x1 [op] [] [] []" "lk_issued x1 = [op]" "lk_served x1 = []" "2 \<le> cn_buffer (lk_cconn x1)"
    "length (cn_sendQueue (lk_cconn x1)) = 1"
    using issue_here [OF s0(1) ops(1)] s0 room(3) by auto
  obtain x2 where x2: "?step x1 x2" "?at x2 [op, op'] [] [] []" "lk_issued x2 = [op, op']" "lk_served x2 = []"
    using issue_here [OF x1(2) ops(2)] x1 by auto
  obtain x3 where x3: "?step x2 x3" "?at x3 [op'] [op] [] []" "lk_issued x3 = [op, op']" "lk_served x3 = []"
    using send_here [OF x2(2), of encode names] x2 room(1) by auto
  obtain x4 where x4: "?step x3 x4" "?at x4 [] [op, op'] [] []" "lk_issued x4 = [op, op']" "lk_served x4 = []"
    using send_here [OF x3(2), of encode names] x3 room(1) by auto
  obtain x5 where x5: "?step x4 x5" "?at x5 [] [op'] [Some op] []" "lk_issued x5 = [op, op']" "lk_served x5 = []"
    using accept_here [OF x4(2), of encode names] x4 by auto
  obtain x6 where x6: "?step x5 x6" "?at x6 [] [] [Some op, Some op'] []" "lk_issued x6 = [op, op']" "lk_served x6 = []"
    using accept_here [OF x5(2), of encode names] x5 by auto
  obtain x7 where x7: "?step x6 x7" "?at x7 [] [] [Some op, None] [op']" "lk_issued x7 = [op, op']" "lk_served x7 = []"
    using handle_here [of decode cid n buffer x6 "[]" "[]" "[Some op]" op' "[]" "[]" encode names] x6 room(2) by auto
  obtain x8 where x8: "?step x7 x8" "?at x8 [] [] [None, None] [op', op]" "lk_issued x8 = [op, op']" "lk_served x8 = []"
    using handle_here [of decode cid n buffer x7 "[]" "[]" "[]" op "[None]" "[op']" encode names] x7 room(2) by auto
  obtain x9 where x9: "?step x8 x9" "?at x9 [] [] [None, None] [op]" "lk_issued x9 = [op, op']" "lk_served x9 = [op']"
    using serve_here [OF x8(2), of encode names] x8 by auto
  obtain x where x: "?step x9 x" "?at x [] [] [None, None] []" "lk_issued x = [op, op']" "lk_served x = [op', op]"
    using serve_here [OF x9(2), of encode names] x9 by auto
  have "?step\<^sup>*\<^sup>* x0 x"
    using x1(1) x2(1) x3(1) x4(1) x5(1) x6(1) x7(1) x8(1) x9(1) x(1) by (meson converse_rtranclp_into_rtranclp rtranclp.rtrancl_refl)
  moreover have "quiet x" using x(2) by (simp add: stations_quiet way_left_def)
  ultimately show ?thesis using x(3,4) by blast
qed

end

text \<open>
  C9. The books of a client and of the server, whatever the order of the calls of the client and of the steps of the two connections, of the server for
  this client, and of everything else. The client's groups and scopes are those of its calls in their order; the server's are those of the messages it has handled, in the order it
  handled them, but for the empty name. What the server has handled was called for; everything under way can always be brought to an end;
  and then, while the calls were no more than the streams of the connection and the queue of the server have room for, nothing is lost and, if no call undoes another, the
  two books agree. When one does they need not: the streams of two messages are read by two goroutines.
\<close>

theorem memberships_agree:
  assumes "link_start cid n buffer x0" and "(link_step json_Marshal json_Unmarshal ascii cid)\<^sup>*\<^sup>* x0 x"
  shows "client_view (lk_client x) = books (lk_issued x) \<and> server_view cid (lk_server x) = named (books (lk_served x)) \<and>
    mset (lk_served x) \<subseteq># mset (lk_issued x) \<and>
    (\<exists>y. (link_step json_Marshal json_Unmarshal ascii cid)\<^sup>*\<^sup>* x y \<and> quiet y \<and> lk_issued y = lk_issued x) \<and>
    (quiet x \<and> length (lk_issued x) \<le> min n buffer \<longrightarrow> mset (lk_served x) = mset (lk_issued x) \<and>
       (consistent (lk_issued x) \<longrightarrow> server_view cid (lk_server x) = named (client_view (lk_client x))))"
proof -
  note view = json.link_books [OF assms]
  have "server_view cid (lk_server x) = named (client_view (lk_client x))"
    if "quiet x" "length (lk_issued x) \<le> min n buffer" "consistent (lk_issued x)"
    using view(1,2) books_any_order [OF that(3) view(4) [OF that(1,2)]] by simp
  with view show ?thesis by blast
qed

lemma lobby_start:
  "\<exists>x :: nat link. link_start ''a'' 100 10 x \<and> 2 \<le> cn_buffer (lk_cconn x)"
proof -
  obtain c where c: "NewQUICConnection 0 ''k'' 10 (int 100) = Ret c" by (simp add: NewQUICConnection_def)
  let ?sv = "accept_connection 1 ''a'' (NewServer DefaultServerConfig)"
  let ?S = "\<lparr>mh_heap = [], mh_pool = [], mh_gets = 0, mh_puts = 0\<rparr>"
  let ?x = "\<lparr>lk_client = snd (Connect None (NewClient ''c'' DefaultClientConfig)), lk_cconn = c, lk_cheap = ?S, lk_flight = [],
    lk_sconn = c, lk_sheap = ?S, lk_server = ?sv, lk_issued = [], lk_served = []\<rparr> :: nat link"
  have "session_active ''a'' ?sv" "server_view ''a'' ?sv = ({}, {})"
    by (auto simp: session_active_def server_view_def accept_connection_def NewServer_def DefaultServerConfig_def group_clients_def)
  moreover have "id_fits ''c''" by (simp add: id_fits_def)
  moreover have "cn_buffer c = 10" using new_connection [OF c] by simp
  moreover have "NewQUICConnection 0 ''k'' (int 10) 100 = Ret c" "NewQUICConnection 0 ''k'' 10 (int 100) = Ret c" using c by simp_all
  ultimately show ?thesis
    by (intro exI [of _ ?x]) (auto simp: link_start_def queue_held_def)
qed

lemma sendable_lobby [simp]: "sendable json_Marshal ascii (Joins ''lobby'')" "sendable json_Marshal ascii (Leaves ''lobby'')"
  by (simp_all add: sendable_def control_object_def json_Marshal_def ascii_def json_member_def json_string_def json_char_def letter_of_def
      short_escapes_def)

theorem memberships_agree_witness:
  "\<exists>x0 x :: nat link. link_start ''a'' 100 10 x0 \<and> (link_step json_Marshal json_Unmarshal ascii ''a'')\<^sup>*\<^sup>* x0 x \<and> quiet x \<and>
     lk_issued x = [Joins ''lobby'', Leaves ''lobby''] \<and> client_view (lk_client x) = ({}, {}) \<and> server_view ''a'' (lk_server x) = ({''lobby''}, {})"
proof -
  obtain x0 :: "nat link" where x0: "link_start ''a'' 100 10 x0" "2 \<le> cn_buffer (lk_cconn x0)" using lobby_start by blast
  obtain x where x: "(link_step json_Marshal json_Unmarshal ascii ''a'')\<^sup>*\<^sup>* x0 x" "quiet x" "lk_issued x = [Joins ''lobby'', Leaves ''lobby'']"
    "lk_served x = [Leaves ''lobby'', Joins ''lobby'']"
    using json.overtaking_run [OF x0(1) _ _ x0(2) sendable_lobby] by auto
  have "client_view (lk_client x) = ({}, {})" "server_view ''a'' (lk_server x) = ({''lobby''}, {})"
    using memberships_agree [OF x0(1) x(1)] x(3,4) by (auto simp: books_def named_def)
  with x0 x show ?thesis by blast
qed

end
