(* ===== verification/Sync_Variables.thy ===== *)
theory Sync_Variables
  imports Zeus_Prelude
begin

unbundle bit_operations_syntax

text \<open>
  The variables of the first version of synchronization, \<open>internal/core/sync/vars\<close>: \<open>Mutex\<close>, \<open>Atomic\<close> and \<open>AtomicInt\<close> with
  their ring of past values, the typed variables over them, and the sharded variable. \<open>Mutex\<close> and \<open>Atomic\<close> have
  the same fields and share a record.
\<close>

section \<open>Values and configuration\<close>

text \<open>
  A value of type \<open>any\<close> is nil, or a content with the name of its type. \<open>same\<close> is the equality of contents of one type,
  \<open>==\<close> or \<open>reflect.DeepEqual\<close>.
\<close>

type_synonym 'v any_value = "(string \<times> 'v) option"

definition fastEqual :: "('v \<Rightarrow> 'v \<Rightarrow> bool) \<Rightarrow> 'v any_value \<Rightarrow> 'v any_value \<Rightarrow> bool" where
  "fastEqual same a b = (case a of
       None \<Rightarrow> b = None
     | Some (typeA, x) \<Rightarrow> (case b of None \<Rightarrow> False | Some (typeB, y) \<Rightarrow> typeA = typeB \<and> same x y))"

datatype StorageStrategy = StrategyBasic | StrategyAtomic | StrategyMutex | StrategyChannels | StrategySharded | StrategyLockFree
  | StrategyPersisted | StrategyReplicated | StrategyWriteOptimized | StrategyReadOptimized | StrategyMemoryOptimized

type_synonym permission_mask = "16 word"

definition PermissionRead :: permission_mask where "PermissionRead = 1"
definition PermissionWrite :: permission_mask where "PermissionWrite = 2"

definition checkPermissions :: "permission_mask \<Rightarrow> permission_mask \<Rightarrow> bool" where
  "checkPermissions action perms \<longleftrightarrow> action AND perms \<noteq> 0"

text \<open>A conflict resolver and the handler of conflicts are functions of the local and the remote value.\<close>

type_synonym 'v resolver = "'v any_value \<Rightarrow> 'v any_value \<Rightarrow> 'v any_value"

record 'v VariableConfig =
  cf_Name :: string
  cf_MaxHistory :: "8 word"
  cf_Permissions :: permission_mask
  cf_ConflictResolver :: "'v resolver option"
  cf_StorageStrategy :: StorageStrategy
  cf_EnableMetrics :: bool
  cf_EnableHistory :: bool

record 'v var_delta =
  vd_Version :: uint64
  vd_PreviousValue :: "'v any_value"
  vd_Value :: "'v any_value"
  vd_Timestamp :: int
  vd_ClientID :: string

record 'v HistoryEntry =
  he_Version :: uint64
  he_Timestamp :: int
  he_Value :: "'v any_value"
  he_ClientID :: string

definition zero_var_delta :: "'v var_delta" where
  "zero_var_delta = \<lparr>vd_Version = 0, vd_PreviousValue = None, vd_Value = None, vd_Timestamp = 0, vd_ClientID = []\<rparr>"

section \<open>The variables\<close>

text \<open>\<open>va_history\<close> is None for a nil slice. \<open>va_changes\<close> records the calls of the handler of changes, each in a goroutine of its own.\<close>

record 'v sync_var =
  va_value :: "'v any_value"
  va_version :: uint64
  va_dirty :: bool
  va_permissionMask :: permission_mask
  va_history :: "'v var_delta list option"
  va_historyIndex :: nat
  va_maxHistory :: "8 word"
  va_strategy :: StorageStrategy
  va_onChange :: "nat option"
  va_onConflict :: "'v resolver option"
  va_resolver :: "'v resolver option"
  va_changes :: "(nat \<times> 'v any_value \<times> 'v any_value) list"

definition NewMutexVariable :: "'v VariableConfig \<Rightarrow> 'v sync_var" where
  "NewMutexVariable cfg = \<lparr>va_value = None, va_version = 1, va_dirty = False, va_permissionMask = cf_Permissions cfg,
     va_history = (if cf_EnableHistory cfg then Some (replicate (unat (cf_MaxHistory cfg)) zero_var_delta) else None),
     va_historyIndex = 0, va_maxHistory = cf_MaxHistory cfg, va_strategy = cf_StorageStrategy cfg, va_onChange = None,
     va_onConflict = None, va_resolver = cf_ConflictResolver cfg, va_changes = []\<rparr>"

definition NewAtomicVariable :: "'v VariableConfig \<Rightarrow> 'v sync_var" where
  "NewAtomicVariable cfg = NewMutexVariable cfg"

definition updateHistory :: "'v var_delta \<Rightarrow> 'v sync_var \<Rightarrow> 'v sync_var" where
  "updateHistory d v = (case va_history v of
       None \<Rightarrow> v
     | Some h \<Rightarrow> if h = [] then v
         else v\<lparr>va_history := Some (h[va_historyIndex v := d]), va_historyIndex := (va_historyIndex v + 1) mod length h\<rparr>)"

text \<open>What every \<open>Set\<close> does with a new value: the version, the flag, the history, the handler.\<close>

definition record_change :: "'v any_value \<Rightarrow> 'v any_value \<Rightarrow> 'v sync_var \<Rightarrow> 'v sync_var" where
  "record_change old new v =
     (let newVersion = va_version v + 1;
          v = v\<lparr>va_version := newVersion, va_dirty := True\<rparr>;
          v = (if va_maxHistory v > 0 then updateHistory (zero_var_delta\<lparr>vd_Version := newVersion, vd_PreviousValue := old, vd_Value := new\<rparr>) v else v)
      in case va_onChange v of Some h \<Rightarrow> v\<lparr>va_changes := va_changes v @ [(h, old, new)]\<rparr> | None \<Rightarrow> v)"

text \<open>The value to write for one that equals the present value, None to write none.\<close>

definition resolve_equal :: "'v any_value \<Rightarrow> 'v any_value \<Rightarrow> 'v sync_var \<Rightarrow> 'v any_value option" where
  "resolve_equal old new v = (case va_resolver v of
       Some f \<Rightarrow> Some (f old new)
     | None \<Rightarrow> (case va_onConflict v of Some f \<Rightarrow> Some (f old new) | None \<Rightarrow> None))"

definition value_to_write :: "('v \<Rightarrow> 'v \<Rightarrow> bool) \<Rightarrow> 'v any_value \<Rightarrow> 'v sync_var \<Rightarrow> 'v any_value option" where
  "value_to_write same new v = (if fastEqual same (va_value v) new then resolve_equal (va_value v) new v else Some new)"

definition ErrPermissionDenied :: go_err where "ErrPermissionDenied = Err ''permission denied''"

definition Mutex_Set :: "('v \<Rightarrow> 'v \<Rightarrow> bool) \<Rightarrow> 'v any_value \<Rightarrow> 'v sync_var \<Rightarrow> go_err option \<times> 'v sync_var" where
  "Mutex_Set same new v =
     (if \<not> checkPermissions PermissionWrite (va_permissionMask v) then (Some ErrPermissionDenied, v)
      else case value_to_write same new v of
          None \<Rightarrow> (None, v)
        | Some new \<Rightarrow> (None, record_change (va_value v) new (v\<lparr>va_value := new\<rparr>)))"

text \<open>\<open>Store\<close> of an \<open>atomic.Value\<close> panics for nil and for a value of another type than the first one.\<close>

definition store_any :: "'v any_value \<Rightarrow> 'v sync_var \<Rightarrow> 'v sync_var outcome" where
  "store_any new v = (case new of
       None \<Rightarrow> Panic NilStore
     | Some (t, x) \<Rightarrow> (case va_value v of
           Some (t', y) \<Rightarrow> if t = t' then Ret (v\<lparr>va_value := new\<rparr>) else Panic InconsistentType
         | None \<Rightarrow> Ret (v\<lparr>va_value := new\<rparr>)))"

definition Atomic_Set :: "('v \<Rightarrow> 'v \<Rightarrow> bool) \<Rightarrow> 'v any_value \<Rightarrow> 'v sync_var \<Rightarrow> (go_err option \<times> 'v sync_var) outcome" where
  "Atomic_Set same new v =
     (if \<not> checkPermissions PermissionWrite (va_permissionMask v) then Ret (Some ErrPermissionDenied, v)
      else case value_to_write same new v of
          None \<Rightarrow> Ret (None, v)
        | Some new \<Rightarrow> bind_outcome (store_any new v) (\<lambda>v'. Ret (None, record_change (va_value v) new v')))"

definition var_MarkClean :: "'v sync_var \<Rightarrow> 'v sync_var" where
  "var_MarkClean v = v\<lparr>va_dirty := False\<rparr>"

definition SetPermissions :: "permission_mask \<Rightarrow> 'v sync_var \<Rightarrow> 'v sync_var" where
  "SetPermissions perms v = v\<lparr>va_permissionMask := perms\<rparr>"

definition SetConflictResolver :: "'v resolver \<Rightarrow> 'v sync_var \<Rightarrow> 'v sync_var" where
  "SetConflictResolver f v = v\<lparr>va_resolver := Some f\<rparr>"

definition OnChange :: "nat \<Rightarrow> 'v sync_var \<Rightarrow> 'v sync_var" where
  "OnChange h v = v\<lparr>va_onChange := Some h\<rparr>"

definition OnConflict :: "'v resolver \<Rightarrow> 'v sync_var \<Rightarrow> 'v sync_var" where
  "OnConflict f v = v\<lparr>va_onConflict := Some f\<rparr>"

section \<open>History and deltas\<close>

definition ErrNoHistory :: go_err where "ErrNoHistory = Err ''history is empty''"
definition ErrNoDeltas :: go_err where "ErrNoDeltas = Err ''no deltas provided''"

definition GetDelta :: "uint64 \<Rightarrow> 'v sync_var \<Rightarrow> go_err + 'v var_delta list" where
  "GetDelta sinceVersion v = (case va_history v of
       None \<Rightarrow> Inl ErrNoHistory
     | Some h \<Rightarrow> if sinceVersion \<ge> va_version v then Inr []
         else Inr (filter (\<lambda>d. vd_Version d > sinceVersion \<and> vd_Version d \<noteq> 0) h))"

definition history_entry :: "'v var_delta \<Rightarrow> 'v HistoryEntry" where
  "history_entry d = \<lparr>he_Version = vd_Version d, he_Timestamp = vd_Timestamp d, he_Value = vd_Value d, he_ClientID = vd_ClientID d\<rparr>"

definition GetHistory :: "'v sync_var \<Rightarrow> 'v HistoryEntry list" where
  "GetHistory v = (case va_history v of None \<Rightarrow> [] | Some h \<Rightarrow> map history_entry (filter (\<lambda>d. vd_Version d \<noteq> 0) h))"

text \<open>
  \<open>ApplyDelta\<close> sorts the deltas with \<open>sort.Slice\<close>; those of one version, whose order the library leaves open, are taken in the order given.
  The deltas go to the ring without a check that there is one.
\<close>

fun write_ring :: "'v var_delta list \<Rightarrow> 'v sync_var \<Rightarrow> 'v sync_var outcome" where
  "write_ring [] v = Ret v"
| "write_ring (d # ds) v =
     bind_outcome (slice_set (case va_history v of None \<Rightarrow> [] | Some h \<Rightarrow> h) (va_historyIndex v) d)
       (\<lambda>h. write_ring ds (v\<lparr>va_history := Some h, va_historyIndex := (va_historyIndex v + 1) mod length h\<rparr>))"

definition by_versions :: "'v var_delta list \<Rightarrow> 'v var_delta list" where
  "by_versions ds = slice_stable (\<lambda>d e. vd_Version d < vd_Version e) ds"

definition apply_ring :: "'v var_delta list \<Rightarrow> 'v sync_var \<Rightarrow> 'v sync_var outcome" where
  "apply_ring deltas v = (if va_maxHistory v > 0 then write_ring (by_versions deltas) v else Ret v)"

definition Mutex_ApplyDelta :: "'v var_delta list \<Rightarrow> 'v sync_var \<Rightarrow> (go_err option \<times> 'v sync_var) outcome" where
  "Mutex_ApplyDelta deltas v =
     (if deltas = [] then Ret (Some ErrNoDeltas, v)
      else bind_outcome (apply_ring deltas v) (\<lambda>v.
        let lastDelta = last (by_versions deltas)
        in Ret (None, if vd_Version lastDelta > va_version v then v\<lparr>va_value := vd_Value lastDelta\<rparr> else v)))"

definition Atomic_ApplyDelta :: "'v var_delta list \<Rightarrow> 'v sync_var \<Rightarrow> (go_err option \<times> 'v sync_var) outcome" where
  "Atomic_ApplyDelta deltas v =
     (if deltas = [] then Ret (Some ErrNoDeltas, v) else bind_outcome (apply_ring deltas v) (\<lambda>v. Ret (None, v)))"

section \<open>AtomicInt\<close>

text \<open>
  The same fields with a value of type \<open>int64\<close>, which is 1 at first; the resolver of the configuration is not taken over. A resolver set later
  gets and gives values of type \<open>any\<close>, and another type in its answer panics.
\<close>

definition int64_value :: "int64 \<Rightarrow> int64 any_value" where
  "int64_value x = Some (''int64'', x)"

definition int64_content :: "int64 any_value \<Rightarrow> int64 outcome" where
  "int64_content a = (case a of Some (t, x) \<Rightarrow> if t = ''int64'' then Ret x else Panic InconsistentType | None \<Rightarrow> Panic InconsistentType)"

definition NewInt :: "int64 VariableConfig \<Rightarrow> int64 sync_var" where
  "NewInt cfg = (NewMutexVariable cfg)\<lparr>va_value := int64_value 1, va_resolver := None\<rparr>"

definition Int_Set :: "int64 \<Rightarrow> int64 sync_var \<Rightarrow> (go_err option \<times> int64 sync_var) outcome" where
  "Int_Set new v =
     (if \<not> checkPermissions PermissionWrite (va_permissionMask v) then Ret (Some ErrPermissionDenied, v)
      else case value_to_write (=) (int64_value new) v of
          None \<Rightarrow> Ret (None, v)
        | Some a \<Rightarrow> bind_outcome (int64_content a) (\<lambda>x.
            Ret (None, record_change (va_value v) (int64_value x) (v\<lparr>va_value := int64_value x\<rparr>))))"

section \<open>Typed variables\<close>

text \<open>
  A typed variable wraps an untyped one; \<open>t\<close> is its type. \<open>MutexTyped\<close> answers a value of another type with the zero value of the type of what
  it found, and \<open>reflect.Zero\<close> panics for the nil type. A handler of changes converts both values, which panics for nil.
\<close>

definition ErrTypeMismatch :: go_err where "ErrTypeMismatch = Err ''type mismatch''"

definition MutexTyped_Get :: "string \<Rightarrow> 'v sync_var \<Rightarrow> ('v \<times> go_err option) outcome" where
  "MutexTyped_Get t v = (case va_value v of
       Some (u, x) \<Rightarrow> if u = t then Ret (x, None) else Panic InconsistentType
     | None \<Rightarrow> Panic NilDereference)"

definition MutexTyped_Set :: "('v \<Rightarrow> 'v \<Rightarrow> bool) \<Rightarrow> string \<Rightarrow> 'v \<Rightarrow> 'v sync_var \<Rightarrow> go_err option \<times> 'v sync_var" where
  "MutexTyped_Set same t x v = Mutex_Set same (Some (t, x)) v"

definition MutexTyped_notified :: "string \<Rightarrow> ('v \<Rightarrow> 'v \<Rightarrow> 'r) \<Rightarrow> 'v any_value \<Rightarrow> 'v any_value \<Rightarrow> 'r outcome" where
  "MutexTyped_notified t handler old new = (case old of
       Some (u, x) \<Rightarrow> (case new of
           Some (w, y) \<Rightarrow> if u = t \<and> w = t then Ret (handler x y) else Panic InconsistentType
         | None \<Rightarrow> Panic InconsistentType)
     | None \<Rightarrow> Panic InconsistentType)"

definition AtomicTyped_Get :: "string \<Rightarrow> 'v \<Rightarrow> 'v sync_var \<Rightarrow> 'v \<times> go_err option" where
  "AtomicTyped_Get t zero v = (case va_value v of
       Some (u, x) \<Rightarrow> if u = t then (x, None) else (zero, Some ErrTypeMismatch)
     | None \<Rightarrow> (zero, Some ErrTypeMismatch))"

definition AtomicTyped_Set :: "('v \<Rightarrow> 'v \<Rightarrow> bool) \<Rightarrow> string \<Rightarrow> 'v \<Rightarrow> 'v sync_var \<Rightarrow> (go_err option \<times> 'v sync_var) outcome" where
  "AtomicTyped_Set same t x v = Atomic_Set same (Some (t, x)) v"

definition AtomicTyped_notified :: "string \<Rightarrow> ('v \<Rightarrow> 'v \<Rightarrow> 'r) \<Rightarrow> 'v any_value \<Rightarrow> 'v any_value \<Rightarrow> 'r option" where
  "AtomicTyped_notified t handler old new = (case (old, new) of
       (Some (u, x), Some (w, y)) \<Rightarrow> if u = t \<and> w = t then Some (handler x y) else None
     | _ \<Rightarrow> None)"

section \<open>The history of a variable\<close>

text \<open>
  The abstract variable: its permissions and the values written to it. \<open>entries\<close> are their deltas; the first write has version 2.
\<close>

datatype 'v var_call = CallSet "'v any_value" | CallMarkClean | CallSetPermissions permission_mask | CallOnChange nat

definition var_do :: "('v \<Rightarrow> 'v \<Rightarrow> bool) \<Rightarrow> 'v var_call \<Rightarrow> 'v sync_var \<Rightarrow> 'v sync_var" where
  "var_do same call v = (case call of
       CallSet new \<Rightarrow> snd (Mutex_Set same new v)
     | CallMarkClean \<Rightarrow> var_MarkClean v
     | CallSetPermissions perms \<Rightarrow> SetPermissions perms v
     | CallOnChange h \<Rightarrow> OnChange h v)"

definition current :: "'v any_value list \<Rightarrow> 'v any_value" where
  "current vs = (if vs = [] then None else last vs)"

definition written_do :: "('v \<Rightarrow> 'v \<Rightarrow> bool) \<Rightarrow> 'v var_call \<Rightarrow> permission_mask \<times> 'v any_value list \<Rightarrow> permission_mask \<times> 'v any_value list" where
  "written_do same call x = (case call of
       CallSet new \<Rightarrow> (fst x, if checkPermissions PermissionWrite (fst x) \<and> \<not> fastEqual same (current (snd x)) new then snd x @ [new] else snd x)
     | CallSetPermissions perms \<Rightarrow> (perms, snd x)
     | _ \<Rightarrow> x)"

definition entry :: "'v any_value list \<Rightarrow> nat \<Rightarrow> 'v var_delta" where
  "entry vs i = zero_var_delta\<lparr>vd_Version := of_nat (i + 2), vd_PreviousValue := current (take i vs), vd_Value := vs ! i\<rparr>"

definition entries :: "'v any_value list \<Rightarrow> 'v var_delta list" where
  "entries vs = map (entry vs) [0..<length vs]"

lemma length_entries [simp]: "length (entries vs) = length vs"
  by (simp add: entries_def)

lemma entries_snoc: "entries (vs @ [x]) = entries vs @ [zero_var_delta\<lparr>vd_Version := of_nat (length vs + 2), vd_PreviousValue := current vs, vd_Value := x\<rparr>]"
  by (auto simp: entries_def entry_def nth_append)

text \<open>
  The ring, read from its index on, holds the last entries behind the empty places of the beginning.
\<close>

definition ring_holds :: "nat \<Rightarrow> 'v any_value list \<Rightarrow> 'v sync_var \<Rightarrow> bool" where
  "ring_holds n vs v \<longleftrightarrow> (\<exists>h. va_history v = Some h \<and> length h = n \<and> va_historyIndex v < n \<and>
     rotate (va_historyIndex v) h = drop (length vs) (replicate n zero_var_delta @ entries vs))"

lemma rotate_write:
  assumes "i < length h"
  shows "rotate ((i + 1) mod length h) (h[i := d]) = tl (rotate i h) @ [d]"
proof -
  have tl: "tl (rotate i h) = drop (i + 1) h @ take i h"
    using assms by (simp add: rotate_drop_take tl_drop drop_Suc [symmetric] drop_eq_Nil flip: drop_Suc)
  show ?thesis
  proof (cases "i + 1 = length h")
    case True
    then show ?thesis using tl by (simp add: list_eq_iff_nth_eq nth_append nth_list_update)
  next
    case False
    with assms show ?thesis using tl by (simp add: rotate_drop_take take_Suc_conv_app_nth)
  qed
qed

lemma updateHistory_ring:
  assumes "ring_holds n vs v" and "d = zero_var_delta\<lparr>vd_Version := of_nat (length vs + 2), vd_PreviousValue := current vs, vd_Value := x\<rparr>"
  shows "ring_holds n (vs @ [x]) (updateHistory d v)"
proof -
  obtain h where h: "va_history v = Some h" "length h = n" "va_historyIndex v < n"
      "rotate (va_historyIndex v) h = drop (length vs) (replicate n zero_var_delta @ entries vs)"
    using assms(1) by (auto simp: ring_holds_def)
  then have "updateHistory d v = v\<lparr>va_history := Some (h[va_historyIndex v := d]), va_historyIndex := (va_historyIndex v + 1) mod n\<rparr>"
    by (auto simp: updateHistory_def)
  moreover have "rotate ((va_historyIndex v + 1) mod n) (h[va_historyIndex v := d]) = tl (drop (length vs) (replicate n zero_var_delta @ entries vs)) @ [d]"
    using rotate_write [of "va_historyIndex v" h d] h by simp
  moreover have "tl (drop (length vs) (replicate n zero_var_delta @ entries vs)) @ [d] =
      drop (length (vs @ [x])) (replicate n zero_var_delta @ entries (vs @ [x]))"
  proof -
    let ?l = "replicate n zero_var_delta @ entries vs"
    have "tl (drop (length vs) ?l) @ [d] = drop (Suc (length vs)) ?l @ [d]" by (simp only: drop_Suc tl_drop)
    also have "\<dots> = drop (Suc (length vs)) (?l @ [d])" using h(3) by (subst drop_append [of _ ?l]) simp
    finally show ?thesis by (simp add: entries_snoc assms(2) del: drop_append)
  qed
  ultimately show ?thesis using h by (auto simp: ring_holds_def)
qed

definition var_rel :: "nat \<Rightarrow> permission_mask \<times> 'v any_value list \<Rightarrow> 'v sync_var \<Rightarrow> bool" where
  "var_rel n x v \<longleftrightarrow> va_permissionMask v = fst x \<and> va_value v = current (snd x) \<and> va_version v = of_nat (length (snd x) + 1) \<and>
     va_maxHistory v > 0 \<and> va_resolver v = None \<and> va_onConflict v = None \<and> ring_holds n (snd x) v"

lemma ring_holds_cong:
  "va_history v = va_history w \<Longrightarrow> va_historyIndex v = va_historyIndex w \<Longrightarrow> ring_holds n vs v \<longleftrightarrow> ring_holds n vs w"
  by (simp add: ring_holds_def)

lemma updateHistory_sel [simp]:
  "va_value (updateHistory d v) = va_value v" "va_version (updateHistory d v) = va_version v" "va_dirty (updateHistory d v) = va_dirty v"
  "va_permissionMask (updateHistory d v) = va_permissionMask v" "va_maxHistory (updateHistory d v) = va_maxHistory v"
  "va_onChange (updateHistory d v) = va_onChange v" "va_resolver (updateHistory d v) = va_resolver v"
  "va_onConflict (updateHistory d v) = va_onConflict v" "va_changes (updateHistory d v) = va_changes v" "va_strategy (updateHistory d v) = va_strategy v"
  by (simp_all add: updateHistory_def split: option.split)

lemma record_change_sel [simp]:
  "va_value (record_change old new v) = va_value v" "va_version (record_change old new v) = va_version v + 1" "va_dirty (record_change old new v)"
  "va_permissionMask (record_change old new v) = va_permissionMask v" "va_maxHistory (record_change old new v) = va_maxHistory v"
  "va_resolver (record_change old new v) = va_resolver v" "va_onConflict (record_change old new v) = va_onConflict v"
  by (simp_all add: record_change_def Let_def split: option.split)

lemma record_change_ring:
  assumes "ring_holds n vs v" and "va_maxHistory v > 0" and "va_version v = of_nat (length vs + 1)"
  shows "ring_holds n (vs @ [x]) (record_change (current vs) x v)"
proof -
  let ?v = "v\<lparr>va_version := va_version v + 1, va_dirty := True\<rparr>"
  let ?d = "zero_var_delta\<lparr>vd_Version := va_version v + 1, vd_PreviousValue := current vs, vd_Value := x\<rparr>"
  have "ring_holds n vs ?v" using assms(1) by (simp add: ring_holds_def)
  then have "ring_holds n (vs @ [x]) (updateHistory ?d ?v)"
    by (rule updateHistory_ring) (simp add: assms(3) algebra_simps)
  moreover have "va_history (record_change (current vs) x v) = va_history (updateHistory ?d ?v)"
    "va_historyIndex (record_change (current vs) x v) = va_historyIndex (updateHistory ?d ?v)"
    using assms(2) by (simp_all add: record_change_def Let_def split: option.split)
  ultimately show ?thesis using ring_holds_cong by blast
qed

lemma var_do_rel:
  assumes "var_rel n x v"
  shows "var_rel n (written_do same call x) (var_do same call v)"
proof (cases call)
  case (CallSet new)
  have ring: "ring_holds n (snd x @ [new]) (record_change (current (snd x)) new (v\<lparr>va_value := new\<rparr>))"
    using assms by (intro record_change_ring) (auto simp: var_rel_def ring_holds_def)
  show ?thesis
  proof (cases "checkPermissions PermissionWrite (fst x) \<and> \<not> fastEqual same (current (snd x)) new")
    case True
    then show ?thesis using assms ring CallSet
      by (simp add: var_rel_def var_do_def written_do_def Mutex_Set_def value_to_write_def current_def)
  next
    case False
    then show ?thesis using assms CallSet
      by (auto simp: var_rel_def var_do_def written_do_def Mutex_Set_def value_to_write_def resolve_equal_def)
  qed
qed (use assms in \<open>simp_all add: var_rel_def var_do_def written_do_def var_MarkClean_def SetPermissions_def OnChange_def ring_holds_def\<close>)

lemma new_rel:
  assumes "cf_EnableHistory cfg" and "cf_MaxHistory cfg > 0" and "cf_ConflictResolver cfg = None"
  shows "var_rel (unat (cf_MaxHistory cfg)) (cf_Permissions cfg, []) (NewMutexVariable cfg)"
  using assms by (auto simp: var_rel_def NewMutexVariable_def ring_holds_def current_def entries_def word_greater_zero_iff unat_gt_0)

lemma run_rel:
  "var_rel n x v \<Longrightarrow> var_rel n (fold (written_do same) calls x) (fold (var_do same) calls v)"
proof (induction calls arbitrary: x v)
  case (Cons call calls)
  then show ?case using Cons.IH [OF var_do_rel [OF Cons.prems]] by simp
qed simp

lemma unat_of_small: "k < 2 ^ 64 \<Longrightarrow> unat (of_nat k :: uint64) = k"
  by (simp add: unat_of_nat take_bit_nat_eq_self)

lemma entry_version:
  assumes "length vs < 2 ^ 64 - 2" and "d \<in> set (entries vs)"
  shows "vd_Version d \<noteq> 0"
proof -
  obtain i where i: "i < length vs" "d = entry vs i" using assms(2) by (auto simp: entries_def)
  have "unat (of_nat (i + 2) :: uint64) = i + 2" using assms(1) i(1) by (intro unat_of_small) simp
  moreover have "vd_Version d = of_nat (i + 2)" by (simp add: i(2) entry_def)
  ultimately show ?thesis by (metis Zero_neq_Suc add_2_eq_Suc' unat_0)
qed

lemma mset_rotate [simp]: "mset (rotate k xs) = mset xs"
  by (metis append_take_drop_id mset_append rotate_drop_take union_commute)

lemma mset_filter_rotate: "mset (filter Q (rotate k xs)) = mset (filter Q xs)"
  using mset_rotate [of k xs] by (simp only: mset_filter)

lemma filter_ring:
  assumes "ring_holds n vs v" and "length vs < 2 ^ 64 - 2"
  shows "\<exists>h. va_history v = Some h \<and>
    mset (filter (\<lambda>d. P d \<and> vd_Version d \<noteq> 0) h) = mset (filter P (drop (length vs - n) (entries vs)))"
proof -
  obtain h where h: "va_history v = Some h" "length h = n" "rotate (va_historyIndex v) h = drop (length vs) (replicate n zero_var_delta @ entries vs)"
    using assms(1) by (auto simp: ring_holds_def)
  have zeros: "filter (\<lambda>d. P d \<and> vd_Version d \<noteq> 0) (replicate k zero_var_delta) = []" for k
    by (simp add: zero_var_delta_def filter_empty_conv)
  have kept: "filter (\<lambda>d. P d \<and> vd_Version d \<noteq> 0) (drop k (entries vs)) = filter P (drop k (entries vs))" for k
    by (rule filter_cong) (auto dest: in_set_dropD entry_version [OF assms(2)])
  have "filter (\<lambda>d. P d \<and> vd_Version d \<noteq> 0) (rotate (va_historyIndex v) h) = filter P (drop (length vs - n) (entries vs))"
    by (simp only: h(3) drop_append drop_replicate filter_append zeros kept append_Nil length_replicate)
  then have "mset (filter (\<lambda>d. P d \<and> vd_Version d \<noteq> 0) h) = mset (filter P (drop (length vs - n) (entries vs)))"
    by (simp only: flip: mset_filter_rotate [of _ "va_historyIndex v" h])
  with h(1) show ?thesis by blast
qed

text \<open>
  C15. A \<open>Mutex\<close> with a history refines the list of the values written to it. After any calls of \<open>Set\<close>, \<open>MarkClean\<close>, \<open>SetPermissions\<close>
  and \<open>OnChange\<close> it holds the last value written with permission that differed from the one before, its version counts them from 1, and
  its history and \<open>GetDelta\<close> hold the deltas of the last \<open>MaxHistory\<close> writes, those after the version asked for.
\<close>

theorem variable_refines_writes:
  assumes "cf_EnableHistory cfg" and "cf_MaxHistory cfg > 0" and "cf_ConflictResolver cfg = None"
    and "fold (written_do same) calls (cf_Permissions cfg, []) = (perms, vs)" and "length vs < 2 ^ 64 - 2"
  shows "let v = fold (var_do same) calls (NewMutexVariable cfg); kept = drop (length vs - unat (cf_MaxHistory cfg)) (entries vs)
    in va_value v = current vs \<and> va_version v = of_nat (length vs + 1) \<and>
       mset (GetHistory v) = mset (map history_entry kept) \<and>
       (\<exists>ds. GetDelta since v = Inr ds \<and>
          mset ds = (if since \<ge> va_version v then {#} else mset (filter (\<lambda>d. vd_Version d > since) kept)))"
proof -
  define v where "v = fold (var_do same) calls (NewMutexVariable cfg)"
  let ?kept = "drop (length vs - unat (cf_MaxHistory cfg)) (entries vs)"
  have rel: "var_rel (unat (cf_MaxHistory cfg)) (perms, vs) v"
    using run_rel [OF new_rel [OF assms(1-3)], of same calls] assms(4) by (simp add: v_def)
  then have ring: "ring_holds (unat (cf_MaxHistory cfg)) vs v" by (simp add: var_rel_def)
  obtain h where h: "va_history v = Some h" "mset (filter (\<lambda>d. True \<and> vd_Version d \<noteq> 0) h) = mset (filter (\<lambda>d. True) ?kept)"
    using filter_ring [OF ring assms(5), of "\<lambda>d. True"] by blast
  have "mset (filter (\<lambda>d. vd_Version d \<noteq> 0) h) = mset ?kept" using h(2) by simp
  then have "mset (GetHistory v) = mset (map history_entry ?kept)" by (simp add: GetHistory_def h(1))
  moreover obtain h' where h': "va_history v = Some h'"
      "mset (filter (\<lambda>d. since < vd_Version d \<and> vd_Version d \<noteq> 0) h') = mset (filter (\<lambda>d. since < vd_Version d) ?kept)"
    using filter_ring [OF ring assms(5), of "\<lambda>d. since < vd_Version d"] by blast
  then have "\<exists>ds. GetDelta since v = Inr ds \<and>
      mset ds = (if since \<ge> va_version v then {#} else mset (filter (\<lambda>d. vd_Version d > since) ?kept))"
    by (cases "since \<ge> va_version v") (simp_all add: GetDelta_def)
  ultimately show ?thesis using rel by (simp add: Let_def var_rel_def flip: v_def)
qed

definition sample_config :: "'v VariableConfig" where
  "sample_config = \<lparr>cf_Name = ''x'', cf_MaxHistory = 2, cf_Permissions = PermissionWrite, cf_ConflictResolver = None,
     cf_StorageStrategy = StrategyMutex, cf_EnableMetrics = False, cf_EnableHistory = True\<rparr>"

definition sample_calls :: "nat var_call list" where
  "sample_calls = [CallSet (Some (''int'', 4)), CallSet (Some (''int'', 4)), CallSet (Some (''int'', 5)), CallSetPermissions 0,
     CallSet (Some (''int'', 6)), CallSetPermissions PermissionWrite, CallSet (Some (''int'', 7))]"

lemma sample_written:
  "fold (written_do (=)) sample_calls (cf_Permissions sample_config, []) = (PermissionWrite, [Some (''int'', 4), Some (''int'', 5), Some (''int'', 7)])"
  by (simp add: sample_calls_def sample_config_def written_do_def checkPermissions_def PermissionWrite_def fastEqual_def current_def)

theorem variable_refines_writes_witness:
  "let v = fold (var_do (=)) sample_calls (NewMutexVariable sample_config)
   in va_value v = Some (''int'', 7) \<and> va_version v = 4 \<and> length (GetHistory v) = 2"
proof -
  have "cf_EnableHistory (sample_config :: nat VariableConfig)" "cf_MaxHistory (sample_config :: nat VariableConfig) > 0"
    "cf_ConflictResolver (sample_config :: nat VariableConfig) = None" by (simp_all add: sample_config_def)
  note refines = variable_refines_writes [OF this sample_written, of 0, unfolded Let_def]
  have "length (GetHistory (fold (var_do (=)) sample_calls (NewMutexVariable sample_config))) =
      length (map history_entry (drop (Suc (Suc (Suc 0)) - unat (cf_MaxHistory (sample_config :: nat VariableConfig)))
        (entries [Some (''int'', 4), Some (''int'', 5), Some (''int'', 7 :: nat)])))"
    using refines by (intro mset_eq_length) simp
  with refines show ?thesis by (simp add: Let_def current_def sample_config_def)
qed

section \<open>The three variables\<close>

fun atomic_run :: "('v \<Rightarrow> 'v \<Rightarrow> bool) \<Rightarrow> 'v var_call list \<Rightarrow> 'v sync_var \<Rightarrow> 'v sync_var outcome" where
  "atomic_run same [] v = Ret v"
| "atomic_run same (CallSet new # calls) v = bind_outcome (Atomic_Set same new v) (\<lambda>(err, v). atomic_run same calls v)"
| "atomic_run same (call # calls) v = atomic_run same calls (var_do same call v)"

definition sets_type :: "string \<Rightarrow> 'v var_call \<Rightarrow> bool" where
  "sets_type t call = (case call of CallSet a \<Rightarrow> (case a of Some (u, x) \<Rightarrow> u = t | None \<Rightarrow> False) | _ \<Rightarrow> True)"

definition has_type :: "string \<Rightarrow> 'v sync_var \<Rightarrow> bool" where
  "has_type t v \<longleftrightarrow> va_resolver v = None \<and> va_onConflict v = None \<and> (case va_value v of Some (u, x) \<Rightarrow> u = t | None \<Rightarrow> True)"

lemma Atomic_Set_Mutex: "has_type t v \<Longrightarrow> Atomic_Set same (Some (t, x)) v = Ret (Mutex_Set same (Some (t, x)) v)"
  by (auto simp: has_type_def Atomic_Set_def Mutex_Set_def value_to_write_def resolve_equal_def store_any_def split: option.splits)

lemma var_do_has_type: "has_type t v \<Longrightarrow> sets_type t call \<Longrightarrow> has_type t (var_do same call v)"
  by (auto simp: has_type_def sets_type_def var_do_def Mutex_Set_def value_to_write_def resolve_equal_def var_MarkClean_def SetPermissions_def
      OnChange_def split: var_call.splits option.splits)

lemma var_do_Set: "var_do same (CallSet new) v = snd (Mutex_Set same new v)"
  by (simp add: var_do_def)

lemma atomic_run_mutex:
  "has_type t v \<Longrightarrow> list_all (sets_type t) calls \<Longrightarrow> atomic_run same calls v = Ret (fold (var_do same) calls v)"
proof (induction calls arbitrary: v)
  case (Cons call calls)
  then have IH: "atomic_run same calls (var_do same call v) = Ret (fold (var_do same) calls (var_do same call v))"
    using Cons.IH [OF var_do_has_type [OF Cons.prems(1)]] by simp
  show ?case
  proof (cases call)
    case (CallSet a)
    then obtain x where "a = Some (t, x)" using Cons.prems(2) by (auto simp: sets_type_def split: option.splits)
    then show ?thesis using IH Atomic_Set_Mutex [OF Cons.prems(1), of same x] CallSet by (simp add: var_do_Set split_beta)
  qed (use IH in simp_all)
qed simp

text \<open>
  \<open>Atomic\<close> does what \<open>Mutex\<close> does, as long as all values have one type: any calls on both leave the same state. A \<open>Mutex\<close> takes
  a value of another type and nil as well, where \<open>Atomic\<close> panics. On an \<open>AtomicInt\<close> without handlers of conflicts \<open>Set\<close> is
  that of a \<open>Mutex\<close> of the type.
\<close>

theorem atomic_agrees:
  assumes "cf_ConflictResolver cfg = None" and "list_all (sets_type t) calls"
    and "v = fold (var_do same) calls (NewMutexVariable cfg)"
  shows "atomic_run same calls (NewAtomicVariable cfg) = Ret v \<and>
    (va_value v \<noteq> None \<and> u \<noteq> t \<and> checkPermissions PermissionWrite (va_permissionMask v) \<longrightarrow>
       Atomic_Set same (Some (u, x)) v = Panic InconsistentType \<and> Atomic_Set same None v = Panic NilStore \<and>
       va_value (snd (Mutex_Set same (Some (u, x)) v)) = Some (u, x) \<and> va_value (snd (Mutex_Set same None v)) = None) \<and>
    (va_resolver w = None \<and> va_onConflict w = None \<longrightarrow> Int_Set i w = Ret (Mutex_Set (=) (int64_value i) w))"
proof (intro conjI impI)
  have start: "has_type t (NewMutexVariable cfg)" using assms(1) by (simp add: has_type_def NewMutexVariable_def)
  show "atomic_run same calls (NewAtomicVariable cfg) = Ret v"
    using atomic_run_mutex [OF start assms(2)] by (simp add: assms(3) NewAtomicVariable_def)
  have typed: "has_type t (fold (var_do same) calls v0)" if "has_type t v0" "list_all (sets_type t) calls" for v0 calls
    using that by (induction calls arbitrary: v0) (auto intro: var_do_has_type)
  have v: "has_type t v" using typed [OF start assms(2)] by (simp add: assms(3))
  {
    assume a: "va_value v \<noteq> None \<and> u \<noteq> t \<and> checkPermissions PermissionWrite (va_permissionMask v)"
    then obtain y where "va_value v = Some (t, y)" "t \<noteq> u" using v by (auto simp: has_type_def)
    with a show "Atomic_Set same (Some (u, x)) v = Panic InconsistentType" "Atomic_Set same None v = Panic NilStore"
      "va_value (snd (Mutex_Set same (Some (u, x)) v)) = Some (u, x)" "va_value (snd (Mutex_Set same None v)) = None"
      by (simp_all add: Atomic_Set_def Mutex_Set_def value_to_write_def fastEqual_def store_any_def)
  }
  show "Int_Set i w = Ret (Mutex_Set (=) (int64_value i) w)" if "va_resolver w = None \<and> va_onConflict w = None"
    using that by (auto simp: Int_Set_def Mutex_Set_def value_to_write_def resolve_equal_def int64_value_def int64_content_def split: option.split)
qed

theorem atomic_agrees_witness:
  "atomic_run (=) sample_calls (NewAtomicVariable sample_config) = Ret (fold (var_do (=)) sample_calls (NewMutexVariable sample_config)) \<and>
   Int_Set 7 (NewInt sample_config) = Ret (Mutex_Set (=) (int64_value 7) (NewInt sample_config))"
proof -
  have "list_all (sets_type ''int'') sample_calls" by (simp add: sample_calls_def sets_type_def)
  moreover have "va_resolver (NewInt sample_config) = None" "va_onConflict (NewInt sample_config) = None"
    by (simp_all add: NewInt_def NewMutexVariable_def)
  ultimately show ?thesis
    using atomic_agrees [of sample_config "''int''" sample_calls _ "(=)" undefined undefined "NewInt sample_config" 7]
    by (simp add: sample_config_def)
qed

section \<open>Replication\<close>

lemma write_ring_keeps:
  "va_history v = Some h \<Longrightarrow> va_historyIndex v < length h \<Longrightarrow>
     \<exists>v'. write_ring ds v = Ret v' \<and> va_value v' = va_value v \<and> va_version v' = va_version v \<and> va_dirty v' = va_dirty v"
proof (induction ds arbitrary: v h)
  case (Cons d ds)
  let ?h = "h[va_historyIndex v := d]"
  have "h \<noteq> []" using Cons.prems(2) by auto
  with Cons.prems Cons.IH [of "v\<lparr>va_history := Some ?h, va_historyIndex := (va_historyIndex v + 1) mod length ?h\<rparr>" ?h]
  show ?case by simp
qed simp

definition has_room :: "'v sync_var \<Rightarrow> bool" where
  "has_room v \<longleftrightarrow> (case va_history v of Some h \<Rightarrow> va_historyIndex v < length h | None \<Rightarrow> False)"

lemma apply_ring_keeps:
  "has_room v \<Longrightarrow> \<exists>v'. apply_ring ds v = Ret v' \<and> va_value v' = va_value v \<and> va_version v' = va_version v \<and> va_dirty v' = va_dirty v"
  using write_ring_keeps [of v _ "by_versions ds"] by (auto simp: apply_ring_def has_room_def split: option.splits)

lemma by_versions_last:
  assumes "d \<in> set ds" and "\<And>e. e \<in> set ds \<Longrightarrow> vd_Version e \<le> vd_Version d" and "\<And>e. e \<in> set ds \<Longrightarrow> vd_Version e = vd_Version d \<Longrightarrow> e = d"
  shows "last (by_versions ds) = d"
proof -
  let ?ds = "by_versions ds"
  have "sorted (map vd_Version ?ds)"
    unfolding by_versions_def by (rule sorted_slice_stable) (auto simp: key_less_def)
  moreover have ds: "set ?ds = set ds" by (simp add: by_versions_def)
  moreover have "?ds \<noteq> []" using assms(1) ds by (metis empty_iff list.set(1))
  ultimately have "vd_Version d \<le> vd_Version (last ?ds)" "last ?ds \<in> set ds"
    using assms(1) by (auto simp: sorted_iff_nth_mono last_conv_nth in_set_conv_nth [of d ?ds] simp flip: ds)
  with assms(2,3) show ?thesis by (metis order_antisym)
qed

text \<open>The newest entry is the only one with the version of the variable.\<close>

lemma newest_entry:
  assumes "vs \<noteq> []" and "length vs < 2 ^ 64 - 2" and "d = entry vs (length vs - 1)"
  shows "d \<in> set (drop (length vs - n) (entries vs)) \<longleftrightarrow> 0 < n" and "vd_Value d = current vs" and "vd_Version d = of_nat (length vs + 1)"
    and "e \<in> set (entries vs) \<Longrightarrow> vd_Version e \<le> vd_Version d" and "e \<in> set (entries vs) \<Longrightarrow> vd_Version e = vd_Version d \<Longrightarrow> e = d"
proof -
  have version: "unat (vd_Version (entry vs i)) = i + 2" if "i < length vs" for i
    using that assms(2) unat_of_small [of "i + 2"] by (simp add: entry_def del: of_nat_add)
  have newest: "unat (vd_Version d) = length vs + 1" using version [of "length vs - 1"] assms(1,3) by simp
  have split: "entries vs = map (entry vs) [0..<length vs - 1] @ [d]"
    using assms(1,3) by (cases vs) (simp_all add: entries_def)
  show "d \<in> set (drop (length vs - n) (entries vs)) \<longleftrightarrow> 0 < n"
  proof (cases n)
    case (Suc k)
    then have "length vs - n \<le> length (map (entry vs) [0..<length vs - 1])" by simp
    then show ?thesis using Suc by (simp add: split)
  qed (simp add: drop_all)
  show "vd_Value d = current vs" using assms(1,3) by (simp add: entry_def current_def last_conv_nth)
  show "vd_Version d = of_nat (length vs + 1)" using assms(1,3) by (simp add: entry_def)
  show "vd_Version e \<le> vd_Version d" if "e \<in> set (entries vs)"
    using that version newest by (auto simp: word_le_nat_alt entries_def)
  show "e = d" if e: "e \<in> set (entries vs)" and eq: "vd_Version e = vd_Version d"
  proof -
    obtain i where i: "i < length vs" "e = entry vs i" using e by (auto simp: entries_def)
    then have "i = length vs - 1" using version [OF i(1)] newest eq by simp
    with i(2) assms(3) show ?thesis by simp
  qed
qed

text \<open>A ring that is large enough holds all deltas written to it, and nothing else of the variable changes.\<close>

lemma ring_apart: "i < n \<Longrightarrow> 0 < k \<Longrightarrow> k < n \<Longrightarrow> (i + k) mod n \<noteq> (i::nat)"
  by (cases "i + k < n") (simp_all add: le_mod_geq)

lemma write_ring_holds:
  "va_history v = Some h \<Longrightarrow> va_historyIndex v < length h \<Longrightarrow> length ds \<le> length h \<Longrightarrow> write_ring ds v = Ret v' \<Longrightarrow>
     \<exists>h' i. v' = v\<lparr>va_history := Some h', va_historyIndex := i\<rparr> \<and> length h' = length h \<and> set ds \<subseteq> set h' \<and>
       (\<forall>j<length h. (\<forall>k<length ds. j \<noteq> (va_historyIndex v + k) mod length h) \<longrightarrow> h' ! j = h ! j)"
proof (induction ds arbitrary: v h)
  case Nil
  then have "v' = v\<lparr>va_history := Some h, va_historyIndex := va_historyIndex v\<rparr>" by simp
  then show ?case by (intro exI [of _ h] exI [of _ "va_historyIndex v"]) simp
next
  case (Cons d ds)
  let ?i = "va_historyIndex v" and ?n = "length h"
  let ?h = "h[?i := d]"
  let ?v = "v\<lparr>va_history := Some ?h, va_historyIndex := (?i + 1) mod ?n\<rparr>"
  have run: "write_ring ds ?v = Ret v'" using Cons.prems by simp
  have pre: "va_history ?v = Some ?h" "va_historyIndex ?v < length ?h" "length ds \<le> length ?h"
    using Cons.prems by (simp_all add: mod_less_divisor [of ?n] length_greater_0_conv [symmetric] del: length_greater_0_conv)
  from Cons.IH [OF pre run] obtain h' i where h': "v' = ?v\<lparr>va_history := Some h', va_historyIndex := i\<rparr>" "length h' = ?n" "set ds \<subseteq> set h'"
    "\<And>j. j < ?n \<Longrightarrow> (\<forall>k<length ds. j \<noteq> ((?i + 1) mod ?n + k) mod ?n) \<Longrightarrow> h' ! j = ?h ! j" by auto
  have next_place: "((?i + 1) mod ?n + k) mod ?n = (?i + Suc k) mod ?n" for k by (simp add: mod_add_left_eq)
  have "\<forall>k<length ds. ?i \<noteq> ((?i + 1) mod ?n + k) mod ?n"
  proof (intro allI impI)
    fix k
    assume "k < length ds"
    with Cons.prems(3) have "Suc k < ?n" by simp
    with ring_apart [OF Cons.prems(2), of "Suc k"] show "?i \<noteq> ((?i + 1) mod ?n + k) mod ?n" unfolding next_place by simp
  qed
  with h'(4) [OF Cons.prems(2)] Cons.prems(2) have "h' ! ?i = d" by simp
  then have "d \<in> set h'" using Cons.prems(2) h'(2) by (metis nth_mem)
  moreover have "h' ! j = h ! j" if "j < ?n" "\<forall>k<length (d # ds). j \<noteq> (?i + k) mod ?n" for j
  proof -
    have "j \<noteq> ?i" using spec [OF that(2), of 0] Cons.prems(2) by simp
    moreover have "\<forall>k<length ds. j \<noteq> ((?i + 1) mod ?n + k) mod ?n" unfolding next_place using that(2) by (metis length_Cons Suc_less_eq)
    ultimately show ?thesis using h'(4) [OF that(1)] by simp
  qed
  ultimately show ?case using h' by (intro exI [of _ h'] exI [of _ i]) simp
qed

lemma apply_ring_holds:
  assumes "has_room r" and "apply_ring ds r = Ret r'"
  shows "va_maxHistory r > 0 \<and> length ds \<le> length (the (va_history r)) \<longrightarrow> set ds \<subseteq> set (the (va_history r'))"
proof
  assume a: "va_maxHistory r > 0 \<and> length ds \<le> length (the (va_history r))"
  obtain h where h: "va_history r = Some h" "va_historyIndex r < length h" using assms(1) by (auto simp: has_room_def split: option.splits)
  have "length (by_versions ds) \<le> length h" using a h(1) by (simp add: by_versions_def length_slice_stable)
  moreover have "write_ring (by_versions ds) r = Ret r'" using assms(2) a by (simp add: apply_ring_def)
  ultimately obtain h' i where "r' = r\<lparr>va_history := Some h', va_historyIndex := i\<rparr>" "set (by_versions ds) \<subseteq> set h'"
    using write_ring_holds [OF h] by blast
  then show "set ds \<subseteq> set (the (va_history r'))" by (simp add: by_versions_def)
qed


definition unrecorded_config :: "nat VariableConfig" where
  "unrecorded_config = sample_config\<lparr>cf_EnableHistory := False\<rparr>"



end
