(* ===== verification/Sync_Manager.thy ===== *)
theory Sync_Manager
  imports Sync_Variables "HOL-Library.AList"
begin

text \<open>
  The manager of variables of the first version: the wrapper that counts (\<open>internal/core/sync/metrics/metrics.go\<close>), the analyzer, the factory, the
  migrator and \<open>DefaultVariableManager\<close>. Durations are unbounded integers of nanoseconds.
\<close>

section \<open>Metrics and the wrapper\<close>

record migration_event =
  me_From :: StorageStrategy
  me_To :: StorageStrategy
  me_Timestamp :: int
  me_Success :: bool

record VariableMetrics_v1 =
  mt_ReadCount :: uint64
  mt_WriteCount :: uint64
  mt_ErrorCount :: uint64
  mt_AvgReadLatency :: int
  mt_AvgWriteLatency :: int
  mt_P99ReadLatency :: int
  mt_MaxConcurrentReaders :: uint32
  mt_MaxConcurrentWriters :: uint32
  mt_ContentionEvents :: uint64
  mt_MemoryUsage :: int
  mt_MigrationHistory :: "migration_event list"

definition no_metrics :: VariableMetrics_v1 where
  "no_metrics = \<lparr>mt_ReadCount = 0, mt_WriteCount = 0, mt_ErrorCount = 0, mt_AvgReadLatency = 0, mt_AvgWriteLatency = 0, mt_P99ReadLatency = 0,
     mt_MaxConcurrentReaders = 0, mt_MaxConcurrentWriters = 0, mt_ContentionEvents = 0, mt_MemoryUsage = 0, mt_MigrationHistory = []\<rparr>"

text \<open>A variable as the manager holds it: a \<open>Mutex\<close> or an \<open>Atomic\<close>, with the metrics of its wrapper if it has one.\<close>

datatype var_kind = KindMutex | KindAtomic

record 'v managed =
  mv_kind :: var_kind
  mv_var :: "'v sync_var"
  mv_metrics :: "VariableMetrics_v1 option"

definition NewMetricsWrapper :: "'v managed \<Rightarrow> 'v managed" where
  "NewMetricsWrapper m = m\<lparr>mv_metrics := Some no_metrics\<rparr>"

definition wrapper_GetMetrics :: "'v managed \<Rightarrow> VariableMetrics_v1" where
  "wrapper_GetMetrics m = (case mv_metrics m of
       Some metrics \<Rightarrow> metrics
     | None \<Rightarrow> (case mv_kind m of
           KindMutex \<Rightarrow> no_metrics\<lparr>mt_ReadCount := va_version (mv_var m), mt_WriteCount := va_version (mv_var m)\<rparr>
         | KindAtomic \<Rightarrow> no_metrics))"

definition CanMigrateTo :: "StorageStrategy \<Rightarrow> 'v managed \<Rightarrow> bool" where
  "CanMigrateTo strategy m \<longleftrightarrow> strategy \<noteq> va_strategy (mv_var m)"

definition average :: "int \<Rightarrow> uint64 \<Rightarrow> int \<Rightarrow> int outcome" where
  "average avg n latency = go_quot (avg * sint (n - 1) + latency) (sint n)"

definition count_failure :: "bool \<Rightarrow> VariableMetrics_v1 \<Rightarrow> VariableMetrics_v1" where
  "count_failure failed m = (if failed then m\<lparr>mt_ErrorCount := mt_ErrorCount m + 1\<rparr> else m)"

definition managed_Get :: "int \<Rightarrow> 'v managed \<Rightarrow> ('v any_value \<times> 'v managed) outcome" where
  "managed_Get latency m = (case mv_metrics m of
       None \<Rightarrow> Ret (va_value (mv_var m), m)
     | Some metrics \<Rightarrow> (let n = mt_ReadCount metrics + 1
         in bind_outcome (average (mt_AvgReadLatency metrics) n latency) (\<lambda>avg.
            Ret (va_value (mv_var m), m\<lparr>mv_metrics := Some (metrics\<lparr>mt_ReadCount := n, mt_AvgReadLatency := avg\<rparr>)\<rparr>))))"

definition kind_Set :: "('v \<Rightarrow> 'v \<Rightarrow> bool) \<Rightarrow> 'v any_value \<Rightarrow> 'v managed \<Rightarrow> (go_err option \<times> 'v managed) outcome" where
  "kind_Set same x m = (case mv_kind m of
       KindMutex \<Rightarrow> (case Mutex_Set same x (mv_var m) of (err, v) \<Rightarrow> Ret (err, m\<lparr>mv_var := v\<rparr>))
     | KindAtomic \<Rightarrow> bind_outcome (Atomic_Set same x (mv_var m)) (\<lambda>(err, v). Ret (err, m\<lparr>mv_var := v\<rparr>)))"

definition managed_Set :: "('v \<Rightarrow> 'v \<Rightarrow> bool) \<Rightarrow> int \<Rightarrow> 'v any_value \<Rightarrow> 'v managed \<Rightarrow> (go_err option \<times> 'v managed) outcome" where
  "managed_Set same latency x m = bind_outcome (kind_Set same x m) (\<lambda>(err, m). case mv_metrics m of
       None \<Rightarrow> Ret (err, m)
     | Some metrics \<Rightarrow> (let n = mt_WriteCount metrics + 1
         in bind_outcome (average (mt_AvgWriteLatency metrics) n latency) (\<lambda>avg.
            Ret (err, m\<lparr>mv_metrics := Some (count_failure (err \<noteq> None) (metrics\<lparr>mt_WriteCount := n, mt_AvgWriteLatency := avg\<rparr>))\<rparr>))))"

section \<open>The analyzer\<close>

text \<open>
  The quotients of counts are compared as rationals: for counts below \<open>2 ^ 49\<close> the comparison of the floating-point quotient with 10
  and 0.1 gives the same. Confidences are in hundredths, sizes in bytes.
\<close>

datatype AccessPattern = PatternRandom | PatternBurst | PatternSteady | PatternReadHeavy | PatternWriteHeavy | PatternMixed | PatternRareAccess

definition DetectAccessPattern :: "VariableMetrics_v1 \<Rightarrow> AccessPattern" where
  "DetectAccessPattern metrics =
     (if mt_ReadCount metrics = 0 \<and> mt_WriteCount metrics = 0 then PatternRareAccess
      else if unat (mt_ReadCount metrics) > 10 * unat (mt_WriteCount metrics + 1) then PatternReadHeavy
      else if 10 * unat (mt_ReadCount metrics) < unat (mt_WriteCount metrics + 1) then PatternWriteHeavy
      else if unat (mt_ContentionEvents metrics) > unat (mt_ReadCount metrics + mt_WriteCount metrics) div 10 then PatternBurst
      else PatternMixed)"

definition PredictOptimalStrategy :: "VariableMetrics_v1 \<Rightarrow> StorageStrategy" where
  "PredictOptimalStrategy metrics = (case DetectAccessPattern metrics of
       PatternReadHeavy \<Rightarrow> if mt_MaxConcurrentReaders metrics > 10 then StrategyReadOptimized else StrategyAtomic
     | PatternWriteHeavy \<Rightarrow> if mt_MaxConcurrentWriters metrics > 5 then StrategyWriteOptimized else StrategyMutex
     | PatternBurst \<Rightarrow> StrategySharded
     | PatternRareAccess \<Rightarrow> StrategyMemoryOptimized
     | _ \<Rightarrow> if mt_MemoryUsage metrics > 100 * 1024 * 1024 then StrategyMemoryOptimized else StrategyAtomic)"

definition calculateConfidence :: "VariableMetrics_v1 \<Rightarrow> AccessPattern \<Rightarrow> nat" where
  "calculateConfidence metrics pattern =
     (let totalOps = mt_ReadCount metrics + mt_WriteCount metrics
      in if totalOps < 1000 then 30
         else case pattern of
             PatternReadHeavy \<Rightarrow> 90
           | PatternWriteHeavy \<Rightarrow> 90
           | PatternBurst \<Rightarrow> if mt_ContentionEvents metrics > totalOps div 10 then 95 else 80
           | PatternRareAccess \<Rightarrow> 60
           | _ \<Rightarrow> 80)"

text \<open>A suggestion is its type, priority and strategy.\<close>

definition generateRecommendations :: "'v managed \<Rightarrow> VariableMetrics_v1 \<Rightarrow> StorageStrategy \<Rightarrow> (string \<times> nat \<times> StorageStrategy) list" where
  "generateRecommendations m metrics optimal =
     (if optimal \<noteq> va_strategy (mv_var m) then [(''migrate'', 8, optimal)] else []) @
     (if mt_MemoryUsage metrics > 50 * 1024 * 1024 then [(''tune'', 6, StrategyBasic)] else []) @
     (if mt_P99ReadLatency metrics > 10 ^ 6 then [(''tune'', 7, StrategyReadOptimized)] else [])"

definition isInMigrationCooldown :: "int \<Rightarrow> VariableMetrics_v1 \<Rightarrow> bool" where
  "isInMigrationCooldown now metrics \<longleftrightarrow>
     mt_MigrationHistory metrics \<noteq> [] \<and> time_Sub now (me_Timestamp (last (mt_MigrationHistory metrics))) < 300 * 10 ^ 9"

definition ShouldMigrate :: "int \<Rightarrow> 'v managed \<Rightarrow> bool \<times> StorageStrategy" where
  "ShouldMigrate now m =
     (let metrics = wrapper_GetMetrics m; current = va_strategy (mv_var m);
          optimal = PredictOptimalStrategy metrics; confidence = calculateConfidence metrics (DetectAccessPattern metrics)
      in if optimal = current then (False, current)
         else if confidence < 70 then (False, current)
         else if isInMigrationCooldown now metrics then (False, current)
         else if \<not> (confidence > 80 \<and> generateRecommendations m metrics optimal \<noteq> []) then (False, current)
         else (True, optimal))"

section \<open>The factory\<close>

text \<open>\<open>kinds\<close> gives the kind of a type; \<open>None\<close> is the nil value, whose type is nil.\<close>

datatype reflect_kind = IntKind | StringKind | SliceKind | MapKind | OtherKind

definition selectOptimalStrategy :: "(string \<Rightarrow> reflect_kind) \<Rightarrow> 'v any_value \<Rightarrow> AccessPattern \<Rightarrow> StorageStrategy outcome" where
  "selectOptimalStrategy kinds x pattern = (case x of
       None \<Rightarrow> Panic NilDereference
     | Some (t, y) \<Rightarrow> Ret (case kinds t of
           IntKind \<Rightarrow> if pattern = PatternWriteHeavy then StrategyWriteOptimized else StrategyAtomic
         | StringKind \<Rightarrow> if pattern = PatternReadHeavy then StrategyReadOptimized else StrategyMutex
         | SliceKind \<Rightarrow> if pattern = PatternReadHeavy \<or> pattern = PatternWriteHeavy then StrategySharded else StrategyMutex
         | MapKind \<Rightarrow> if pattern = PatternReadHeavy \<or> pattern = PatternWriteHeavy then StrategySharded else StrategyMutex
         | OtherKind \<Rightarrow> StrategyMutex))"

type_synonym 'v var_option = "'v VariableConfig \<Rightarrow> 'v VariableConfig"

definition default_config :: "'v VariableConfig" where
  "default_config = \<lparr>cf_Name = [], cf_MaxHistory = 10, cf_Permissions = PermissionRead OR PermissionWrite, cf_ConflictResolver = None,
     cf_StorageStrategy = StrategyBasic, cf_EnableMetrics = False, cf_EnableHistory = False\<rparr>"

definition buildConfig :: "'v var_option list \<Rightarrow> 'v VariableConfig" where
  "buildConfig options = fold (\<lambda>f config. f config) options default_config"

definition WithMaxHistory :: "8 word \<Rightarrow> 'v var_option" where "WithMaxHistory n c = c\<lparr>cf_MaxHistory := n\<rparr>"
definition WithPermissions :: "permission_mask \<Rightarrow> 'v var_option" where "WithPermissions perms c = c\<lparr>cf_Permissions := perms\<rparr>"
definition WithStrategy :: "StorageStrategy \<Rightarrow> 'v var_option" where "WithStrategy strategy c = c\<lparr>cf_StorageStrategy := strategy\<rparr>"
definition WithMetrics :: "bool \<Rightarrow> 'v var_option" where "WithMetrics enabled c = c\<lparr>cf_EnableMetrics := enabled\<rparr>"

text \<open>The registered constructors. The sharded, read- and write-optimized strategies make an \<open>Atomic\<close>.\<close>

type_synonym 'v factory = "StorageStrategy \<rightharpoonup> ('v VariableConfig \<Rightarrow> go_err + 'v managed)"

definition createMutexVariable :: "'v VariableConfig \<Rightarrow> go_err + 'v managed" where
  "createMutexVariable config = Inr \<lparr>mv_kind = KindMutex, mv_var = NewMutexVariable config, mv_metrics = None\<rparr>"

definition createAtomicVariable :: "'v VariableConfig \<Rightarrow> go_err + 'v managed" where
  "createAtomicVariable config = Inr \<lparr>mv_kind = KindAtomic, mv_var = NewAtomicVariable config, mv_metrics = None\<rparr>"

definition RegisterStrategy :: "StorageStrategy \<Rightarrow> ('v VariableConfig \<Rightarrow> go_err + 'v managed) \<Rightarrow> 'v factory \<Rightarrow> 'v factory" where
  "RegisterStrategy strategy constructor f = f(strategy \<mapsto> constructor)"

definition NewVariableFactory :: "'v factory" where
  "NewVariableFactory = RegisterStrategy StrategyWriteOptimized createAtomicVariable (RegisterStrategy StrategyReadOptimized createAtomicVariable
     (RegisterStrategy StrategySharded createAtomicVariable (RegisterStrategy StrategyMutex createMutexVariable
     (RegisterStrategy StrategyAtomic createAtomicVariable Map.empty))))"

definition CreateWithStrategy ::
  "('v \<Rightarrow> 'v \<Rightarrow> bool) \<Rightarrow> 'v factory \<Rightarrow> StorageStrategy \<Rightarrow> 'v any_value \<Rightarrow> 'v var_option list \<Rightarrow> (go_err + 'v managed) outcome" where
  "CreateWithStrategy same f strategy x options =
     (let config = (buildConfig options)\<lparr>cf_StorageStrategy := strategy\<rparr>
      in case f strategy of
           None \<Rightarrow> Ret (Inl (Err ''unknown strategy''))
         | Some constructor \<Rightarrow> (case constructor config of
               Inl err \<Rightarrow> Ret (Inl err)
             | Inr m \<Rightarrow> bind_outcome (kind_Set same x m) (\<lambda>(err, m). case err of
                   Some e \<Rightarrow> Ret (Inl e)
                 | None \<Rightarrow> Ret (Inr (if cf_EnableMetrics config then NewMetricsWrapper m else m)))))"

definition factory_Create ::
  "(string \<Rightarrow> reflect_kind) \<Rightarrow> ('v \<Rightarrow> 'v \<Rightarrow> bool) \<Rightarrow> 'v factory \<Rightarrow> 'v any_value \<Rightarrow> 'v var_option list \<Rightarrow> (go_err + 'v managed) outcome" where
  "factory_Create kinds same f x options =
     (let strategy = cf_StorageStrategy (buildConfig options)
      in if strategy = StrategyBasic
         then bind_outcome (selectOptimalStrategy kinds x PatternMixed) (\<lambda>strategy. CreateWithStrategy same f strategy x options)
         else CreateWithStrategy same f strategy x options)"

definition CreateOptimized ::
  "(string \<Rightarrow> reflect_kind) \<Rightarrow> ('v \<Rightarrow> 'v \<Rightarrow> bool) \<Rightarrow> 'v factory \<Rightarrow> 'v any_value \<Rightarrow> AccessPattern \<Rightarrow> 'v var_option list \<Rightarrow> (go_err + 'v managed) outcome" where
  "CreateOptimized kinds same f x pattern options =
     bind_outcome (selectOptimalStrategy kinds x pattern) (\<lambda>strategy. CreateWithStrategy same f strategy x options)"

section \<open>Migration\<close>

text \<open>\<open>Migrate\<close> gives the new variable, and the old one, whose wrapper counts the read.\<close>

definition Migrate ::
  "('v \<Rightarrow> 'v \<Rightarrow> bool) \<Rightarrow> 'v factory \<Rightarrow> int \<Rightarrow> StorageStrategy \<Rightarrow> 'v managed \<Rightarrow> ((go_err + 'v managed) \<times> 'v managed) outcome" where
  "Migrate same f latency target m =
     (if \<not> CanMigrateTo target m then Ret (Inl (Err ''cannot migrate''), m)
      else bind_outcome (managed_Get latency m) (\<lambda>(x, m).
        let n = length (GetHistory (mv_var m));
            config = \<lparr>cf_Name = [], cf_MaxHistory = of_nat n, cf_Permissions = va_permissionMask (mv_var m), cf_ConflictResolver = None,
              cf_StorageStrategy = target, cf_EnableMetrics = False, cf_EnableHistory = 0 < n\<rparr>
        in bind_outcome (CreateWithStrategy same f target x [\<lambda>c. config]) (\<lambda>r. Ret (r, m))))"

section \<open>The manager\<close>

record 'v manager =
  dm_variables :: "(string \<times> 'v managed) list"
  dm_factory :: "'v factory"
  dm_autoOptimize :: bool

definition NewVariableManager :: "'v manager" where
  "NewVariableManager = \<lparr>dm_variables = [], dm_factory = NewVariableFactory, dm_autoOptimize = False\<rparr>"

definition put_variable :: "string \<Rightarrow> 'v managed \<Rightarrow> 'v manager \<Rightarrow> 'v manager" where
  "put_variable name m M = M\<lparr>dm_variables := AList.update name m (dm_variables M)\<rparr>"

definition manager_Create ::
  "(string \<Rightarrow> reflect_kind) \<Rightarrow> ('v \<Rightarrow> 'v \<Rightarrow> bool) \<Rightarrow> string \<Rightarrow> 'v any_value \<Rightarrow> 'v var_option list \<Rightarrow> 'v manager \<Rightarrow>
     ((go_err + 'v managed) \<times> 'v manager) outcome" where
  "manager_Create kinds same name x options M =
     (if map_of (dm_variables M) name \<noteq> None then Ret (Inl (Err ''variable already exists''), M)
      else bind_outcome (factory_Create kinds same (dm_factory M) x options) (\<lambda>r. case r of
          Inl err \<Rightarrow> Ret (Inl err, M)
        | Inr m \<Rightarrow> Ret (Inr m, put_variable name m M)))"

definition manager_Get :: "string \<Rightarrow> 'v manager \<Rightarrow> 'v managed option" where
  "manager_Get name M = map_of (dm_variables M) name"

definition manager_Delete :: "string \<Rightarrow> 'v manager \<Rightarrow> go_err option \<times> 'v manager" where
  "manager_Delete name M =
     (if map_of (dm_variables M) name = None then (Some (Err ''variable not found''), M)
      else (None, M\<lparr>dm_variables := AList.delete name (dm_variables M)\<rparr>))"

definition manager_List :: "'v manager \<Rightarrow> string list" where
  "manager_List M = map fst (dm_variables M)"

text \<open>A specification is a name, a value and options. When a creation fails the variables of the specifications before the first one of that name are deleted.\<close>

type_synonym 'v var_spec = "string \<times> 'v any_value \<times> 'v var_option list"

definition rollback :: "string \<Rightarrow> 'v var_spec list \<Rightarrow> (string \<times> 'v managed) list \<Rightarrow> (string \<times> 'v managed) list" where
  "rollback name specs vars = fold (\<lambda>s. AList.delete (fst s)) (takeWhile (\<lambda>s. fst s \<noteq> name) specs) vars"

fun create_specs ::
  "(string \<Rightarrow> reflect_kind) \<Rightarrow> ('v \<Rightarrow> 'v \<Rightarrow> bool) \<Rightarrow> 'v var_spec list \<Rightarrow> 'v var_spec list \<Rightarrow> 'v manager \<Rightarrow> (go_err option \<times> 'v manager) outcome" where
  "create_specs kinds same specs [] M = Ret (None, M)"
| "create_specs kinds same specs ((name, x, options) # rest) M =
     bind_outcome (factory_Create kinds same (dm_factory M) x options) (\<lambda>r. case r of
         Inl err \<Rightarrow> Ret (Some err, M\<lparr>dm_variables := rollback name specs (dm_variables M)\<rparr>)
       | Inr m \<Rightarrow> create_specs kinds same specs rest (put_variable name m M))"

definition CreateBatch ::
  "(string \<Rightarrow> reflect_kind) \<Rightarrow> ('v \<Rightarrow> 'v \<Rightarrow> bool) \<Rightarrow> 'v var_spec list \<Rightarrow> 'v manager \<Rightarrow> (go_err option \<times> 'v manager) outcome" where
  "CreateBatch kinds same specs M =
     (if list_ex (\<lambda>s. map_of (dm_variables M) (fst s) \<noteq> None) specs then Ret (Some (Err ''variable already exists''), M)
      else create_specs kinds same specs specs M)"

fun MigrateBatch :: "('v \<Rightarrow> 'v \<Rightarrow> bool) \<Rightarrow> int \<Rightarrow> string list \<Rightarrow> StorageStrategy \<Rightarrow> 'v manager \<Rightarrow> (go_err option \<times> 'v manager) outcome" where
  "MigrateBatch same latency [] strategy M = Ret (None, M)"
| "MigrateBatch same latency (name # names) strategy M = (case map_of (dm_variables M) name of
       None \<Rightarrow> Ret (Some (Err ''variable not found''), M)
     | Some m \<Rightarrow> bind_outcome (Migrate same (dm_factory M) latency strategy m) (\<lambda>(r, m). case r of
           Inl err \<Rightarrow> Ret (Some (WrapErr ''failed to migrate variable'' err), put_variable name m M)
         | Inr new \<Rightarrow> MigrateBatch same latency names strategy (put_variable name new M)))"

record GlobalMetrics =
  gm_TotalVariables :: nat
  gm_MemoryUsage :: int
  gm_TotalOperations :: uint64
  gm_AverageLatency :: int

text \<open>The map of the strategies is nil: counting a migration stores to it.\<close>

fun add_metrics :: "VariableMetrics_v1 list \<Rightarrow> GlobalMetrics \<Rightarrow> GlobalMetrics outcome" where
  "add_metrics [] g = Ret g"
| "add_metrics (metrics # rest) g =
     bind_outcome (go_quot (gm_AverageLatency g) (mt_AvgReadLatency metrics + mt_AvgWriteLatency metrics)) (\<lambda>avg.
       if mt_MigrationHistory metrics \<noteq> [] then Panic NilStore
       else add_metrics rest (g\<lparr>gm_MemoryUsage := gm_MemoryUsage g + mt_MemoryUsage metrics,
              gm_TotalOperations := gm_TotalOperations g + (mt_ReadCount metrics + mt_WriteCount metrics), gm_AverageLatency := avg\<rparr>))"

definition GetGlobalMetrics :: "'v manager \<Rightarrow> GlobalMetrics outcome" where
  "GetGlobalMetrics M = add_metrics (map (wrapper_GetMetrics \<circ> snd) (dm_variables M))
     \<lparr>gm_TotalVariables = length (dm_variables M), gm_MemoryUsage = 0, gm_TotalOperations = 0, gm_AverageLatency = 0\<rparr>"

text \<open>A round of the optimization loop: every variable of the snapshot is looked at once.\<close>

definition auto_migrate :: "('v \<Rightarrow> 'v \<Rightarrow> bool) \<Rightarrow> int \<Rightarrow> int \<Rightarrow> string \<Rightarrow> 'v manager \<Rightarrow> 'v manager outcome" where
  "auto_migrate same now latency name M = (case map_of (dm_variables M) name of
       None \<Rightarrow> Ret M
     | Some m \<Rightarrow> (case ShouldMigrate now m of (should, target) \<Rightarrow>
         if \<not> should then Ret M
         else bind_outcome (Migrate same (dm_factory M) latency target m) (\<lambda>(r, m). case r of
             Inl err \<Rightarrow> Ret (put_variable name m M)
           | Inr new \<Rightarrow> Ret (put_variable name new M))))"

fun auto_migrate_all :: "('v \<Rightarrow> 'v \<Rightarrow> bool) \<Rightarrow> int \<Rightarrow> int \<Rightarrow> string list \<Rightarrow> 'v manager \<Rightarrow> 'v manager outcome" where
  "auto_migrate_all same now latency [] M = Ret M"
| "auto_migrate_all same now latency (name # names) M =
     bind_outcome (auto_migrate same now latency name M) (auto_migrate_all same now latency names)"

definition performAutoOptimization :: "('v \<Rightarrow> 'v \<Rightarrow> bool) \<Rightarrow> int \<Rightarrow> int \<Rightarrow> 'v manager \<Rightarrow> 'v manager outcome" where
  "performAutoOptimization same now latency M = auto_migrate_all same now latency (map fst (dm_variables M)) M"

definition EnableAutoOptimization :: "'v manager \<Rightarrow> 'v manager" where
  "EnableAutoOptimization M = M\<lparr>dm_autoOptimize := True\<rparr>"

text \<open>\<open>Close\<close>, once \<open>DisableAutoOptimization\<close> has returned.\<close>

definition manager_Close :: "'v manager \<Rightarrow> 'v manager" where
  "manager_Close M = M\<lparr>dm_autoOptimize := False, dm_variables := []\<rparr>"

section \<open>Migration\<close>

lemma kind_Set_new:
  assumes "mv_kind m = k" and "mv_var m = NewMutexVariable config" and "cf_ConflictResolver config = None"
  shows "kind_Set same x m =
    (if \<not> checkPermissions PermissionWrite (cf_Permissions config) then Ret (Some ErrPermissionDenied, m)
     else Ret (None, if x = None then m else m\<lparr>mv_var := record_change None x ((NewMutexVariable config)\<lparr>va_value := x\<rparr>)\<rparr>))"
proof (cases x)
  case None
  with assms show ?thesis
    by (cases k) (simp_all add: kind_Set_def Mutex_Set_def Atomic_Set_def value_to_write_def fastEqual_def resolve_equal_def NewMutexVariable_def)
next
  case (Some y)
  with assms show ?thesis
    by (cases y; cases k) (simp_all add: kind_Set_def Mutex_Set_def Atomic_Set_def value_to_write_def fastEqual_def store_any_def NewMutexVariable_def)
qed

definition kind_of_strategy :: "StorageStrategy \<Rightarrow> var_kind option" where
  "kind_of_strategy strategy = (case strategy of
       StrategyMutex \<Rightarrow> Some KindMutex
     | StrategyAtomic \<Rightarrow> Some KindAtomic | StrategySharded \<Rightarrow> Some KindAtomic
     | StrategyReadOptimized \<Rightarrow> Some KindAtomic | StrategyWriteOptimized \<Rightarrow> Some KindAtomic
     | _ \<Rightarrow> None)"

lemma NewVariableFactory_lookup:
  "NewVariableFactory strategy = (case kind_of_strategy strategy of
     None \<Rightarrow> None
   | Some k \<Rightarrow> Some (\<lambda>config. Inr \<lparr>mv_kind = k, mv_var = NewMutexVariable config, mv_metrics = None\<rparr>))"
  by (cases strategy) (simp_all add: NewVariableFactory_def RegisterStrategy_def kind_of_strategy_def createMutexVariable_def
      createAtomicVariable_def NewAtomicVariable_def fun_eq_iff)

lemma CreateWithStrategy_new:
  assumes "kind_of_strategy strategy = Some k" and "config = (buildConfig options)\<lparr>cf_StorageStrategy := strategy\<rparr>"
    and "cf_ConflictResolver config = None"
  shows "CreateWithStrategy same NewVariableFactory strategy x options =
    (if \<not> checkPermissions PermissionWrite (cf_Permissions config) then Ret (Inl ErrPermissionDenied)
     else let v = NewMutexVariable config; m = \<lparr>mv_kind = k, mv_var = (if x = None then v else record_change None x (v\<lparr>va_value := x\<rparr>)), mv_metrics = None\<rparr>
          in Ret (Inr (if cf_EnableMetrics config then NewMetricsWrapper m else m)))"
  using assms(3) kind_Set_new [of "\<lparr>mv_kind = k, mv_var = NewMutexVariable config, mv_metrics = None\<rparr>" k config same x]
  by (simp add: CreateWithStrategy_def NewVariableFactory_lookup assms(1) Let_def flip: assms(2))

lemma one_entry: "length (filter (\<lambda>d. vd_Version d \<noteq> 0) ((replicate k zero_var_delta)[i := d])) \<le> 1"
proof -
  have none: "filter (\<lambda>d. vd_Version d \<noteq> 0) (replicate j zero_var_delta) = []" for j
    by (simp add: zero_var_delta_def filter_empty_conv)
  show ?thesis
    by (cases "i < k") (simp_all add: upd_conv_take_nth_drop list_update_beyond none)
qed

lemma new_history: "length (GetHistory (record_change old x ((NewMutexVariable config)\<lparr>va_value := x\<rparr>))) \<le> 1"
proof -
  let ?v = "(NewMutexVariable config)\<lparr>va_value := x\<rparr>"
  have none: "filter (\<lambda>d. vd_Version d \<noteq> 0) (replicate j zero_var_delta) = []" for j
    by (simp add: zero_var_delta_def filter_empty_conv)
  have "va_history (record_change old x ?v) = va_history ?v \<or>
      (\<exists>d. va_history (record_change old x ?v) = Some ((replicate (unat (cf_MaxHistory config)) zero_var_delta)[0 := d]))"
    by (auto simp: record_change_def updateHistory_def NewMutexVariable_def Let_def)
  then show ?thesis
    using one_entry [of "unat (cf_MaxHistory config)" 0] by (auto simp: GetHistory_def NewMutexVariable_def none)
qed

lemma Migrate_rule:
  assumes "kind_of_strategy target = Some k" and "target \<noteq> va_strategy (mv_var m)" and "managed_Get latency m = Ret (x, m')"
  shows "if \<not> checkPermissions PermissionWrite (va_permissionMask (mv_var m))
    then Migrate same NewVariableFactory latency target m = Ret (Inl ErrPermissionDenied, m')
    else \<exists>new. Migrate same NewVariableFactory latency target m = Ret (Inr new, m') \<and> x = va_value (mv_var m) \<and>
      mv_kind new = k \<and> mv_metrics new = None \<and> va_value (mv_var new) = x \<and> va_strategy (mv_var new) = target \<and>
      va_permissionMask (mv_var new) = va_permissionMask (mv_var m) \<and> va_version (mv_var new) = (if x = None then 1 else 2) \<and>
      va_onChange (mv_var new) = None \<and> va_onConflict (mv_var new) = None \<and> va_resolver (mv_var new) = None \<and>
      length (GetHistory (mv_var new)) \<le> 1"
proof -
  have m': "mv_var m' = mv_var m" "x = va_value (mv_var m)"
    using assms(3) by (auto simp: managed_Get_def Let_def outcome_simps split: option.splits)
  define config :: "'a VariableConfig" where "config = \<lparr>cf_Name = [], cf_MaxHistory = of_nat (length (GetHistory (mv_var m))),
    cf_Permissions = va_permissionMask (mv_var m), cf_ConflictResolver = None, cf_StorageStrategy = target, cf_EnableMetrics = False,
    cf_EnableHistory = 0 < length (GetHistory (mv_var m))\<rparr>"
  have cfg: "cf_Permissions config = va_permissionMask (mv_var m)" "cf_ConflictResolver config = None" "cf_StorageStrategy config = target"
    "\<not> cf_EnableMetrics config" by (simp_all add: config_def)
  have "config = (buildConfig [\<lambda>c. config])\<lparr>cf_StorageStrategy := target\<rparr>" by (simp add: buildConfig_def config_def)
  note new = CreateWithStrategy_new [OF assms(1) this cfg(2), of same x]
  have run: "Migrate same NewVariableFactory latency target m =
      bind_outcome (CreateWithStrategy same NewVariableFactory target x [\<lambda>c. config]) (\<lambda>r. Ret (r, m'))"
    using assms(2,3) m' by (simp add: Migrate_def CanMigrateTo_def Let_def config_def)
  define v where "v = (if x = None then NewMutexVariable config else record_change None x ((NewMutexVariable config)\<lparr>va_value := x\<rparr>))"
  have sel: "va_strategy (record_change None x w) = va_strategy w" "va_onChange (record_change None x w) = va_onChange w" for w :: "'a sync_var"
    by (simp_all add: record_change_def Let_def split: option.split)
  have "GetHistory (NewMutexVariable config) = []"
    by (simp add: GetHistory_def NewMutexVariable_def zero_var_delta_def filter_empty_conv)
  then have "va_value v = x" "va_strategy v = target" "va_permissionMask v = va_permissionMask (mv_var m)" "va_version v = (if x = None then 1 else 2)"
    "va_onChange v = None" "va_onConflict v = None" "va_resolver v = None" "length (GetHistory v) \<le> 1"
    using new_history [of None x config] cfg(1-3) by (simp_all add: v_def sel) (simp_all add: NewMutexVariable_def)
  moreover have "Migrate same NewVariableFactory latency target m =
      (if \<not> checkPermissions PermissionWrite (va_permissionMask (mv_var m)) then Ret (Inl ErrPermissionDenied, m')
       else Ret (Inr \<lparr>mv_kind = k, mv_var = v, mv_metrics = None\<rparr>, m'))"
    using cfg(4) by (simp add: run new cfg(1) v_def Let_def)
  ultimately show ?thesis using m'(2) by simp
qed

text \<open>
  What a migration keeps. A variable of a manager migrated to a strategy of the factory keeps its value and its permissions; its history is
  gone but for one entry, its handlers and its wrapper are gone, and its version starts again. Without the permission to
  write it cannot be migrated.
\<close>

theorem migration_keeps:
  assumes "kind_of_strategy target = Some k" and "target \<noteq> va_strategy (mv_var m)" and "managed_Get latency m = Ret (x, m')"
  shows "if \<not> checkPermissions PermissionWrite (va_permissionMask (mv_var m))
    then Migrate same NewVariableFactory latency target m = Ret (Inl ErrPermissionDenied, m')
    else \<exists>new. Migrate same NewVariableFactory latency target m = Ret (Inr new, m') \<and> x = va_value (mv_var m) \<and>
      mv_kind new = k \<and> mv_metrics new = None \<and> va_value (mv_var new) = x \<and> va_strategy (mv_var new) = target \<and>
      va_permissionMask (mv_var new) = va_permissionMask (mv_var m) \<and> va_version (mv_var new) = (if x = None then 1 else 2) \<and>
      va_onChange (mv_var new) = None \<and> va_onConflict (mv_var new) = None \<and> va_resolver (mv_var new) = None \<and>
      length (GetHistory (mv_var new)) \<le> 1"
  by (rule Migrate_rule [OF assms])

definition sample_managed :: "nat managed" where
  "sample_managed = \<lparr>mv_kind = KindMutex, mv_var = fold (var_do (=)) sample_calls (NewMutexVariable sample_config), mv_metrics = None\<rparr>"

lemma sample_managed_sel: "va_value (mv_var sample_managed) = Some (''int'', 7)" "va_permissionMask (mv_var sample_managed) = PermissionWrite"
  "va_strategy (mv_var sample_managed) = StrategyMutex" "va_version (mv_var sample_managed) = 4"
proof -
  have "cf_EnableHistory (sample_config :: nat VariableConfig)" "cf_MaxHistory (sample_config :: nat VariableConfig) > 0"
    "cf_ConflictResolver (sample_config :: nat VariableConfig) = None" by (simp_all add: sample_config_def)
  then have "var_rel 2 (PermissionWrite, [Some (''int'', 4), Some (''int'', 5), Some (''int'', 7)]) (mv_var sample_managed)"
    using run_rel [OF new_rel, of sample_config "(=)" sample_calls] sample_written by (simp add: sample_config_def sample_managed_def)
  then show "va_value (mv_var sample_managed) = Some (''int'', 7)" "va_permissionMask (mv_var sample_managed) = PermissionWrite" "va_version (mv_var sample_managed) = 4"
    by (simp_all add: var_rel_def current_def)
  have keeps: "va_strategy (var_do (=) call v) = va_strategy v" for call and v :: "nat sync_var"
    by (cases call) (simp_all add: var_do_def Mutex_Set_def record_change_def var_MarkClean_def SetPermissions_def OnChange_def Let_def split: option.split)
  have "va_strategy (fold (var_do (=)) calls v) = va_strategy v" for calls and v :: "nat sync_var"
    by (induction calls arbitrary: v) (simp_all add: keeps)
  then show "va_strategy (mv_var sample_managed) = StrategyMutex" by (simp add: sample_managed_def NewMutexVariable_def sample_config_def)
qed

theorem migration_keeps_witness:
  "\<exists>new. Migrate (=) NewVariableFactory 3 StrategyAtomic sample_managed = Ret (Inr new, sample_managed) \<and>
     va_value (mv_var new) = Some (''int'', 7) \<and> mv_kind new = KindAtomic \<and> va_version (mv_var new) = 2"
proof -
  have "managed_Get 3 sample_managed = Ret (Some (''int'', 7), sample_managed)"
    by (simp add: managed_Get_def) (simp add: sample_managed_def flip: sample_managed_sel(1))
  from migration_keeps [OF _ _ this, of StrategyAtomic KindAtomic "(=)"] show ?thesis
    by (auto simp: kind_of_strategy_def sample_managed_sel checkPermissions_def PermissionWrite_def)
qed

section \<open>Automatic optimization\<close>

text \<open>A variable the factory made, and what its reads and writes made of it.\<close>

inductive used_variable :: "('v \<Rightarrow> 'v \<Rightarrow> bool) \<Rightarrow> 'v managed \<Rightarrow> bool" for same where
  made: "CreateWithStrategy same NewVariableFactory strategy x options = Ret (Inr m) \<Longrightarrow> used_variable same m"
| reads: "used_variable same m \<Longrightarrow> managed_Get latency m = Ret (x, m') \<Longrightarrow> used_variable same m'"
| writes: "used_variable same m \<Longrightarrow> managed_Set same latency x m = Ret (err, m') \<Longrightarrow> used_variable same m'"

definition calm :: "VariableMetrics_v1 \<Rightarrow> bool" where
  "calm t \<longleftrightarrow> mt_ContentionEvents t = 0 \<and> mt_MaxConcurrentReaders t = 0 \<and> mt_MaxConcurrentWriters t = 0 \<and> mt_P99ReadLatency t = 0 \<and>
     mt_MemoryUsage t = 0 \<and> mt_MigrationHistory t = []"

definition calm_managed :: "'v managed \<Rightarrow> bool" where
  "calm_managed m \<longleftrightarrow> (case mv_metrics m of None \<Rightarrow> True | Some t \<Rightarrow> calm t)"

lemma kind_Set_metrics: "kind_Set same x m = Ret (err, m') \<Longrightarrow> mv_metrics m' = mv_metrics m \<and> mv_kind m' = mv_kind m"
  by (auto simp: kind_Set_def outcome_simps split: var_kind.splits prod.splits)

lemma CreateWithStrategy_calm: "CreateWithStrategy same NewVariableFactory strategy x options = Ret (Inr m) \<Longrightarrow> calm_managed m"
  by (auto simp: CreateWithStrategy_def NewVariableFactory_lookup Let_def outcome_simps NewMetricsWrapper_def calm_managed_def calm_def no_metrics_def
      dest!: kind_Set_metrics split: option.splits if_splits)

lemma used_calm: "used_variable same m \<Longrightarrow> calm_managed m"
proof (induction rule: used_variable.induct)
  case (made strategy x options m)
  then show ?case by (rule CreateWithStrategy_calm)
next
  case (reads m latency x m')
  then show ?case by (auto simp: managed_Get_def Let_def outcome_simps calm_managed_def calm_def split: option.splits)
next
  case (writes m latency x err m')
  then show ?case
    by (auto simp: managed_Set_def Let_def outcome_simps calm_managed_def calm_def count_failure_def dest!: kind_Set_metrics split: option.splits if_splits)
qed

lemma unwrapped_stays:
  assumes "mv_metrics m = None" and "0 < va_version (mv_var m)" and "va_version (mv_var m) + 1 \<noteq> 0"
  shows "ShouldMigrate now m = (False, va_strategy (mv_var m))"
proof (cases "mv_kind m")
  case KindMutex
  let ?v = "va_version (mv_var m)"
  have v: "unat (?v + 1) = unat ?v + 1" using assms(3) unatSuc [of ?v] by (simp add: add.commute)
  have "0 < unat ?v" using assms(2) by (simp add: unat_gt_0 word_neq_0_conv)
  then have "DetectAccessPattern (wrapper_GetMetrics m) = PatternMixed"
    using assms(1,2) v KindMutex by (simp add: wrapper_GetMetrics_def no_metrics_def DetectAccessPattern_def)
  then show ?thesis
    by (simp add: ShouldMigrate_def calculateConfidence_def Let_def)
next
  case KindAtomic
  then show ?thesis using assms(1)
    by (simp add: ShouldMigrate_def wrapper_GetMetrics_def no_metrics_def calculateConfidence_def Let_def)
qed

lemma wrapped_migrates:
  assumes "mv_metrics m = Some t" and "calm t"
  shows "ShouldMigrate now m =
    (let R = unat (mt_ReadCount t); W1 = unat (mt_WriteCount t + 1); current = va_strategy (mv_var m)
     in if mt_ReadCount t + mt_WriteCount t \<ge> 1000 \<and> R > 10 * W1 \<and> current \<noteq> StrategyAtomic then (True, StrategyAtomic)
        else if mt_ReadCount t + mt_WriteCount t \<ge> 1000 \<and> 10 * R < W1 \<and> current \<noteq> StrategyMutex then (True, StrategyMutex)
        else (False, current))"
proof -
  have t: "wrapper_GetMetrics m = t" using assms(1) by (simp add: wrapper_GetMetrics_def)
  have calm: "mt_ContentionEvents t = 0" "\<not> 10 < mt_MaxConcurrentReaders t" "\<not> 5 < mt_MaxConcurrentWriters t" "mt_MemoryUsage t = 0"
    "\<not> isInMigrationCooldown now t" using assms(2) by (simp_all add: calm_def isInMigrationCooldown_def)
  consider (unused) "DetectAccessPattern t = PatternRareAccess" "mt_ReadCount t = 0" "mt_WriteCount t = 0"
    | (reads) "DetectAccessPattern t = PatternReadHeavy" "unat (mt_ReadCount t) > 10 * unat (mt_WriteCount t + 1)"
    | (writes) "DetectAccessPattern t = PatternWriteHeavy" "10 * unat (mt_ReadCount t) < unat (mt_WriteCount t + 1)"
        "\<not> unat (mt_ReadCount t) > 10 * unat (mt_WriteCount t + 1)"
    | (mixed) "DetectAccessPattern t = PatternMixed" "\<not> unat (mt_ReadCount t) > 10 * unat (mt_WriteCount t + 1)"
        "\<not> 10 * unat (mt_ReadCount t) < unat (mt_WriteCount t + 1)"
  proof (cases "mt_ReadCount t = 0 \<and> mt_WriteCount t = 0")
    case True
    then show ?thesis by (intro unused) (simp_all add: DetectAccessPattern_def)
  next
    case False
    then have "DetectAccessPattern t = (if unat (mt_ReadCount t) > 10 * unat (mt_WriteCount t + 1) then PatternReadHeavy
      else if 10 * unat (mt_ReadCount t) < unat (mt_WriteCount t + 1) then PatternWriteHeavy else PatternMixed)"
      using calm(1) by (simp add: DetectAccessPattern_def)
    then show ?thesis using reads writes mixed
      by (cases "unat (mt_ReadCount t) > 10 * unat (mt_WriteCount t + 1)"; cases "10 * unat (mt_ReadCount t) < unat (mt_WriteCount t + 1)") simp_all
  qed
  then show ?thesis
  proof cases
    case unused
    then show ?thesis by (simp add: ShouldMigrate_def t calculateConfidence_def Let_def)
  next
    case reads
    then have "\<not> 10 * unat (mt_ReadCount t) < unat (mt_WriteCount t + 1)" by linarith
    with reads calm show ?thesis
      by (auto simp: ShouldMigrate_def t PredictOptimalStrategy_def calculateConfidence_def generateRecommendations_def Let_def not_less)
  next
    case writes
    with calm show ?thesis
      by (auto simp: ShouldMigrate_def t PredictOptimalStrategy_def calculateConfidence_def generateRecommendations_def Let_def not_less)
  next
    case mixed
    then show ?thesis
      by (auto simp: ShouldMigrate_def t calculateConfidence_def Let_def)
  qed
qed

text \<open>
  When automatic optimization migrates. A variable without a wrapper, which is what the factory makes by default and what every migration
  makes, is never migrated, whatever its use. A wrapped one is migrated from a thousand operations on if the reads are more than ten
  times the writes and one, to an \<open>Atomic\<close>, or ten times the reads are fewer, to a \<open>Mutex\<close>, unless that is its strategy. The other
  strategies are never chosen.
\<close>

theorem auto_optimization:
  assumes "used_variable same m" and "0 < va_version (mv_var m)" and "va_version (mv_var m) + 1 \<noteq> 0"
  shows "ShouldMigrate now m = (case mv_metrics m of
      None \<Rightarrow> (False, va_strategy (mv_var m))
    | Some t \<Rightarrow> (let R = unat (mt_ReadCount t); W1 = unat (mt_WriteCount t + 1); current = va_strategy (mv_var m)
       in if mt_ReadCount t + mt_WriteCount t \<ge> 1000 \<and> R > 10 * W1 \<and> current \<noteq> StrategyAtomic then (True, StrategyAtomic)
          else if mt_ReadCount t + mt_WriteCount t \<ge> 1000 \<and> 10 * R < W1 \<and> current \<noteq> StrategyMutex then (True, StrategyMutex)
          else (False, current))) \<and>
    (\<forall>target latency new old now'. target \<in> {StrategyAtomic, StrategyMutex} \<longrightarrow>
       Migrate same NewVariableFactory latency target m = Ret (Inr new, old) \<longrightarrow> \<not> fst (ShouldMigrate now' new))"
proof (intro conjI allI impI)
  show "ShouldMigrate now m = (case mv_metrics m of
      None \<Rightarrow> (False, va_strategy (mv_var m))
    | Some t \<Rightarrow> (let R = unat (mt_ReadCount t); W1 = unat (mt_WriteCount t + 1); current = va_strategy (mv_var m)
       in if mt_ReadCount t + mt_WriteCount t \<ge> 1000 \<and> R > 10 * W1 \<and> current \<noteq> StrategyAtomic then (True, StrategyAtomic)
          else if mt_ReadCount t + mt_WriteCount t \<ge> 1000 \<and> 10 * R < W1 \<and> current \<noteq> StrategyMutex then (True, StrategyMutex)
          else (False, current)))"
  proof (cases "mv_metrics m")
    case None
    then show ?thesis using unwrapped_stays [OF None assms(2,3)] by simp
  next
    case (Some t)
    then have "calm t" using used_calm [OF assms(1)] by (simp add: calm_managed_def)
    from wrapped_migrates [OF Some this] Some show ?thesis by simp
  qed
  fix target latency new old now'
  assume target: "target \<in> {StrategyAtomic, StrategyMutex}" and run: "Migrate same NewVariableFactory latency target m = Ret (Inr new, old)"
  have strategy: "target \<noteq> va_strategy (mv_var m)" using run by (auto simp: Migrate_def CanMigrateTo_def split: if_splits)
  obtain x m' where get: "managed_Get latency m = Ret (x, m')"
    using run strategy by (auto simp: Migrate_def CanMigrateTo_def outcome_simps)
  obtain k where "kind_of_strategy target = Some k" using target by (auto simp: kind_of_strategy_def)
  from Migrate_rule [OF this strategy get, of same] run
  have "mv_metrics new = None" "va_version (mv_var new) = 1 \<or> va_version (mv_var new) = 2" by (auto split: if_splits)
  then show "\<not> fst (ShouldMigrate now' new)" using unwrapped_stays [of new now'] by auto
qed

theorem auto_optimization_witness:
  "\<exists>m. factory_Create (\<lambda>t. IntKind) (=) NewVariableFactory (Some (''int'', 7 :: nat)) [] = Ret (Inr m) \<and> ShouldMigrate 5 m = (False, StrategyAtomic)"
proof -
  have config: "(buildConfig [])\<lparr>cf_StorageStrategy := StrategyAtomic\<rparr> = (default_config\<lparr>cf_StorageStrategy := StrategyAtomic\<rparr> :: nat VariableConfig)"
    by (simp add: buildConfig_def)
  have "checkPermissions PermissionWrite (cf_Permissions (default_config\<lparr>cf_StorageStrategy := StrategyAtomic\<rparr> :: nat VariableConfig))"
    by (simp add: default_config_def checkPermissions_def PermissionWrite_def PermissionRead_def)
  then obtain m :: "nat managed" where m: "CreateWithStrategy (=) NewVariableFactory StrategyAtomic (Some (''int'', 7 :: nat)) [] = Ret (Inr m)"
      "mv_metrics m = None" "va_version (mv_var m) = 2" "va_strategy (mv_var m) = StrategyAtomic"
    using CreateWithStrategy_new [of StrategyAtomic KindAtomic _ "[]" "(=)" "Some (''int'', 7 :: nat)"]
    by (simp add: kind_of_strategy_def config default_config_def NewMutexVariable_def record_change_def Let_def)
  have "used_variable (=) m" using m(1) by (rule used_variable.made)
  from auto_optimization [OF this, of 5] m(2-4) have "ShouldMigrate 5 m = (False, StrategyAtomic)" by simp
  with m(1) show ?thesis by (simp add: factory_Create_def buildConfig_def default_config_def selectOptimalStrategy_def)
qed

section \<open>Batches\<close>

lemma map_of_rollback:
  "map_of (fold (\<lambda>s. AList.delete (fst s)) specs vars) n = (if n \<in> fst ` set specs then None else map_of vars n)"
  by (induction specs arbitrary: vars) (auto simp: delete_conv)

lemma create_specs_all:
  assumes "create_specs kinds same (made @ rest) rest M = Ret (err, M')" and "distinct (map fst (made @ rest))"
    and "\<And>n. map_of (dm_variables M) n \<noteq> None \<longleftrightarrow> n \<in> fst ` set made \<or> map_of vars n \<noteq> None"
    and "\<And>n. n \<notin> fst ` set made \<Longrightarrow> map_of (dm_variables M) n = map_of vars n"
    and "\<And>n. n \<in> fst ` set (made @ rest) \<Longrightarrow> map_of vars n = None"
  shows "if err = None
    then (\<forall>n. map_of (dm_variables M') n \<noteq> None \<longleftrightarrow> n \<in> fst ` set (made @ rest) \<or> map_of vars n \<noteq> None) \<and>
         (\<forall>n. n \<notin> fst ` set (made @ rest) \<longrightarrow> map_of (dm_variables M') n = map_of vars n)
    else map_of (dm_variables M') = map_of vars"
  using assms
proof (induction rest arbitrary: made M)
  case Nil
  then show ?case by auto
next
  case (Cons s rest)
  obtain name x options where s: "s = (name, x, options)" by (cases s) auto
  obtain r where r: "factory_Create kinds same (dm_factory M) x options = Ret r"
    using Cons.prems(1) by (auto simp: s outcome_simps)
  show ?case
  proof (cases r)
    case (Inl e)
    have "takeWhile (\<lambda>s. fst s \<noteq> name) (made @ s # rest) = made"
      using Cons.prems(2) by (intro takeWhile_tail [where xs = made, THEN trans]) (auto simp: s takeWhile_eq_all_conv)
    then have "err = Some e" "dm_variables M' = fold (\<lambda>s. AList.delete (fst s)) made (dm_variables M)"
      using Cons.prems(1) by (auto simp: s r Inl rollback_def)
    moreover have "map_of (fold (\<lambda>s. AList.delete (fst s)) made (dm_variables M)) n = map_of vars n" for n
      using Cons.prems(4,5) [of n] by (cases "n \<in> fst ` set made") (simp_all add: map_of_rollback image_Un)
    ultimately show ?thesis by (auto simp: fun_eq_iff)
  next
    case (Inr m)
    have run: "create_specs kinds same ((made @ [s]) @ rest) rest (put_variable name m M) = Ret (err, M')"
      using Cons.prems(1) by (simp add: s r Inr)
    have vars: "map_of (dm_variables (put_variable name m M)) n = (if n = name then Some m else map_of (dm_variables M) n)" for n
      by (simp add: put_variable_def update_conv')
    have 1: "distinct (map fst ((made @ [s]) @ rest))" using Cons.prems(2) by simp
    have 2: "map_of (dm_variables (put_variable name m M)) n \<noteq> None \<longleftrightarrow> n \<in> fst ` set (made @ [s]) \<or> map_of vars n \<noteq> None" for n
      using Cons.prems(3) [of n] by (auto simp: vars s)
    have 3: "map_of (dm_variables (put_variable name m M)) n = map_of vars n" if "n \<notin> fst ` set (made @ [s])" for n
      using Cons.prems(4) [of n] that by (auto simp: vars s)
    have 4: "map_of vars n = None" if "n \<in> fst ` set ((made @ [s]) @ rest)" for n
      using Cons.prems(5) [of n] that by auto
    have regroup: "made @ s # rest = (made @ [s]) @ rest" by simp
    show ?thesis unfolding regroup by (rule Cons.IH [OF run 1 2]) (rule 3, assumption, rule 4, assumption)
  qed
qed

text \<open>
  C26. \<open>CreateBatch\<close> of specifications with different names creates all of them or none: after an error the manager holds the variables it
  held before, otherwise one more for every name. If a name is given twice it may fail at the second one and leave the
  first.
\<close>

theorem create_batch_atomic:
  assumes "distinct (map fst specs)" and "CreateBatch kinds same specs M = Ret (err, M')"
  shows "(if err = None
      then (\<forall>n. manager_Get n M' \<noteq> None \<longleftrightarrow> n \<in> fst ` set specs \<or> manager_Get n M \<noteq> None) \<and>
           (\<forall>n. n \<notin> fst ` set specs \<longrightarrow> manager_Get n M' = manager_Get n M)
      else (\<forall>n. manager_Get n M' = manager_Get n M)) \<and>
    (\<exists>e M2. CreateBatch kinds same [(name, x, [WithStrategy StrategyMutex]), (name, x, [WithStrategy StrategyChannels])] NewVariableManager = Ret (Some e, M2) \<and>
       manager_Get name M2 \<noteq> None)"
proof (intro conjI)
  show "if err = None
      then (\<forall>n. manager_Get n M' \<noteq> None \<longleftrightarrow> n \<in> fst ` set specs \<or> manager_Get n M \<noteq> None) \<and>
           (\<forall>n. n \<notin> fst ` set specs \<longrightarrow> manager_Get n M' = manager_Get n M)
      else (\<forall>n. manager_Get n M' = manager_Get n M)"
  proof (cases "list_ex (\<lambda>s. map_of (dm_variables M) (fst s) \<noteq> None) specs")
    case True
    then show ?thesis using assms(2) by (auto simp: CreateBatch_def)
  next
    case False
    then have new: "map_of (dm_variables M) n = None" if "n \<in> fst ` set specs" for n using that by (auto simp: list_ex_iff)
    have run: "create_specs kinds same ([] @ specs) specs M = Ret (err, M')" using assms(2) False by (simp add: CreateBatch_def)
    show ?thesis
      using create_specs_all [OF run, of "dm_variables M"] assms(1) new by (auto simp: manager_Get_def fun_eq_iff split: if_splits)
  qed
  have strategies: "cf_StorageStrategy (buildConfig [WithStrategy s]) = s" "checkPermissions PermissionWrite (cf_Permissions (buildConfig [WithStrategy s]))"
    "cf_ConflictResolver (buildConfig [WithStrategy s]) = None" for s
    by (simp_all add: buildConfig_def WithStrategy_def default_config_def checkPermissions_def PermissionWrite_def PermissionRead_def)
  obtain m where m: "factory_Create kinds same NewVariableFactory x [WithStrategy StrategyMutex] = Ret (Inr m)"
    using CreateWithStrategy_new [of StrategyMutex KindMutex _ "[WithStrategy StrategyMutex]" same x]
    by (simp add: factory_Create_def strategies kind_of_strategy_def Let_def)
  have "factory_Create kinds same NewVariableFactory x [WithStrategy StrategyChannels] = Ret (Inl (Err ''unknown strategy''))"
    by (simp add: factory_Create_def strategies CreateWithStrategy_def NewVariableFactory_lookup kind_of_strategy_def Let_def)
  with m show "\<exists>e M2. CreateBatch kinds same [(name, x, [WithStrategy StrategyMutex]), (name, x, [WithStrategy StrategyChannels])] NewVariableManager = Ret (Some e, M2) \<and>
       manager_Get name M2 \<noteq> None"
    by (simp add: CreateBatch_def NewVariableManager_def put_variable_def rollback_def manager_Get_def)
qed

theorem create_batch_atomic_witness:
  "\<exists>M'. CreateBatch (\<lambda>t. IntKind) (=) [(''a'', Some (''int'', 1 :: nat), []), (''b'', None, [WithStrategy StrategyChannels])] NewVariableManager =
       Ret (Some (Err ''unknown strategy''), M') \<and> manager_Get ''a'' M' = None"
proof -
  let ?specs = "[(''a'', Some (''int'', 1 :: nat), []), (''b'', None, [WithStrategy StrategyChannels])]"
  have config: "cf_Permissions (buildConfig []) = PermissionRead OR PermissionWrite" "cf_StorageStrategy (buildConfig []) = StrategyBasic"
      "cf_ConflictResolver (buildConfig []) = None"
    by (simp_all add: buildConfig_def default_config_def)
  obtain m where "factory_Create (\<lambda>t. IntKind) (=) NewVariableFactory (Some (''int'', 1 :: nat)) [] = Ret (Inr m)"
    using CreateWithStrategy_new [of StrategyAtomic KindAtomic _ "[]" "(=)" "Some (''int'', 1 :: nat)"]
    by (simp add: factory_Create_def config selectOptimalStrategy_def kind_of_strategy_def checkPermissions_def PermissionRead_def PermissionWrite_def Let_def)
  moreover have "factory_Create (\<lambda>t. IntKind) (=) NewVariableFactory (None :: nat any_value) [WithStrategy StrategyChannels] = Ret (Inl (Err ''unknown strategy''))"
    by (simp add: factory_Create_def buildConfig_def WithStrategy_def CreateWithStrategy_def NewVariableFactory_lookup kind_of_strategy_def Let_def)
  ultimately obtain M' where M': "CreateBatch (\<lambda>t. IntKind) (=) ?specs NewVariableManager = Ret (Some (Err ''unknown strategy''), M')"
    by (simp add: CreateBatch_def NewVariableManager_def put_variable_def)
  have "distinct (map fst ?specs)" by simp
  from create_batch_atomic [OF this M', of "''x''" None] have "manager_Get ''a'' M' = manager_Get ''a'' NewVariableManager" by simp
  with M' show ?thesis by (simp add: manager_Get_def NewVariableManager_def)
qed

section \<open>Global metrics\<close>

lemma zero_sum: "\<forall>x\<in>set xs. f x = (0::int) \<Longrightarrow> sum_list (map f xs) = 0"
  by (induction xs) simp_all

lemma add_metrics_sum:
  "gm_AverageLatency g = 0 \<Longrightarrow> \<forall>t\<in>set ts. mt_MigrationHistory t = [] \<Longrightarrow>
     add_metrics ts g = (if \<exists>t\<in>set ts. mt_AvgReadLatency t + mt_AvgWriteLatency t = 0 then Panic DivideByZero
       else Ret (g\<lparr>gm_MemoryUsage := gm_MemoryUsage g + sum_list (map mt_MemoryUsage ts),
                   gm_TotalOperations := gm_TotalOperations g + sum_list (map (\<lambda>t. mt_ReadCount t + mt_WriteCount t) ts)\<rparr>))"
proof (induction ts arbitrary: g)
  case (Cons t ts)
  let ?g = "g\<lparr>gm_MemoryUsage := gm_MemoryUsage g + mt_MemoryUsage t,
    gm_TotalOperations := gm_TotalOperations g + (mt_ReadCount t + mt_WriteCount t), gm_AverageLatency := 0\<rparr>"
  have same: "gm_AverageLatency g = 0 \<Longrightarrow> g\<lparr>gm_AverageLatency := 0\<rparr> = g" by (cases g) simp
  show ?case
    using Cons.prems Cons.IH [of ?g] by (cases g) (auto simp: go_quot_def add.assoc)
qed simp

text \<open>
  The global metrics. Over variables the factory made and their use, \<open>GetGlobalMetrics\<close> panics exactly when some variable has no latency
  measured, as every variable without a wrapper; otherwise it adds up the operations, and the average latency it reports
  is 0 whatever was measured.
\<close>

theorem global_metrics:
  assumes "\<forall>x\<in>set (dm_variables M). used_variable same (snd x)"
  shows "GetGlobalMetrics M = (if \<exists>x\<in>set (dm_variables M). mt_AvgReadLatency (wrapper_GetMetrics (snd x)) + mt_AvgWriteLatency (wrapper_GetMetrics (snd x)) = 0
      then Panic DivideByZero
      else Ret \<lparr>gm_TotalVariables = length (dm_variables M), gm_MemoryUsage = 0, gm_TotalOperations =
          sum_list (map (\<lambda>x. mt_ReadCount (wrapper_GetMetrics (snd x)) + mt_WriteCount (wrapper_GetMetrics (snd x))) (dm_variables M)), gm_AverageLatency = 0\<rparr>) \<and>
    (\<forall>x\<in>set (dm_variables M). mv_metrics (snd x) = None \<longrightarrow> GetGlobalMetrics M = Panic DivideByZero)"
proof -
  let ?ts = "map (wrapper_GetMetrics \<circ> snd) (dm_variables M)"
  have calm: "mt_MigrationHistory (wrapper_GetMetrics (snd x)) = [] \<and> mt_MemoryUsage (wrapper_GetMetrics (snd x)) = 0" if "x \<in> set (dm_variables M)" for x
  proof -
    have "calm_managed (snd x)" using used_calm assms that by blast
    then show ?thesis
      by (cases "mv_metrics (snd x)"; cases "mv_kind (snd x)") (simp_all add: calm_managed_def wrapper_GetMetrics_def no_metrics_def calm_def)
  qed
  then have "\<forall>t\<in>set ?ts. mt_MigrationHistory t = []" by simp
  moreover have "sum_list (map mt_MemoryUsage ?ts) = 0" using calm by (simp add: zero_sum)
  ultimately have main: "GetGlobalMetrics M = (if \<exists>x\<in>set (dm_variables M). mt_AvgReadLatency (wrapper_GetMetrics (snd x)) + mt_AvgWriteLatency (wrapper_GetMetrics (snd x)) = 0
      then Panic DivideByZero
      else Ret \<lparr>gm_TotalVariables = length (dm_variables M), gm_MemoryUsage = 0, gm_TotalOperations =
          sum_list (map (\<lambda>x. mt_ReadCount (wrapper_GetMetrics (snd x)) + mt_WriteCount (wrapper_GetMetrics (snd x))) (dm_variables M)), gm_AverageLatency = 0\<rparr>)"
    by (simp add: GetGlobalMetrics_def add_metrics_sum o_def)
  have "mt_AvgReadLatency (wrapper_GetMetrics (snd x)) + mt_AvgWriteLatency (wrapper_GetMetrics (snd x)) = 0" if "mv_metrics (snd x) = None" for x :: "string \<times> 'a managed"
    using that by (simp add: wrapper_GetMetrics_def no_metrics_def split: var_kind.split)
  with main show ?thesis by auto
qed

theorem global_metrics_witness:
  "\<exists>m M. manager_Create (\<lambda>t. IntKind) (=) ''n'' (Some (''int'', 1 :: nat)) [] NewVariableManager = Ret (Inr m, M) \<and> GetGlobalMetrics M = Panic DivideByZero"
proof -
  obtain m :: "nat managed" where m: "CreateWithStrategy (=) NewVariableFactory StrategyAtomic (Some (''int'', 1 :: nat)) [] = Ret (Inr m)" "mv_metrics m = None"
    using CreateWithStrategy_new [of StrategyAtomic KindAtomic _ "[]" "(=)" "Some (''int'', 1 :: nat)"]
    by (simp add: kind_of_strategy_def buildConfig_def default_config_def checkPermissions_def PermissionRead_def PermissionWrite_def Let_def)
  let ?M = "put_variable ''n'' m NewVariableManager"
  have "manager_Create (\<lambda>t. IntKind) (=) ''n'' (Some (''int'', 1 :: nat)) [] NewVariableManager = Ret (Inr m, ?M)"
    using m(1) by (simp add: manager_Create_def NewVariableManager_def factory_Create_def buildConfig_def default_config_def selectOptimalStrategy_def)
  moreover have "used_variable (=) m" using m(1) by (rule used_variable.made)
  then have "GetGlobalMetrics ?M = Panic DivideByZero"
    using global_metrics [of ?M "(=)", THEN conjunct2] m(2) by (simp add: put_variable_def NewVariableManager_def)
  ultimately show ?thesis by blast
qed

section \<open>Stopping the optimization\<close>

text \<open>
  The loop of the optimization and \<open>DisableAutoOptimization\<close>, which holds the lock of the manager while it waits for the loop. When the
  context is cancelled and the ticker has fired the selection of the loop may choose the ticker. A round takes the lock
  for its snapshot (\<open>LoopFired\<close> waits for it) and once more to store each migrated variable (\<open>LoopStoring\<close>). The caller of
  \<open>EnableAutoOptimization\<close> may cancel its context too.
\<close>

datatype loop_state = LoopWaiting | LoopFired | LoopWorking | LoopStoring | LoopEnded

record optimizer =
  op_loop :: loop_state
  op_cancelled :: bool
  op_disabling :: bool
  op_returned :: bool

definition EnabledOptimizer :: optimizer where
  "EnabledOptimizer = \<lparr>op_loop = LoopWaiting, op_cancelled = False, op_disabling = False, op_returned = False\<rparr>"

inductive optimizer_step :: "optimizer \<Rightarrow> optimizer \<Rightarrow> bool" where
  fires: "op_loop x = LoopWaiting \<Longrightarrow> optimizer_step x (x\<lparr>op_loop := LoopFired\<rparr>)"
| snapshot: "op_loop x = LoopFired \<Longrightarrow> \<not> op_disabling x \<Longrightarrow> optimizer_step x (x\<lparr>op_loop := LoopWorking\<rparr>)"
| migrates: "op_loop x = LoopWorking \<Longrightarrow> optimizer_step x (x\<lparr>op_loop := LoopStoring\<rparr>)"
| stores: "op_loop x = LoopStoring \<Longrightarrow> \<not> op_disabling x \<Longrightarrow> optimizer_step x (x\<lparr>op_loop := LoopWorking\<rparr>)"
| finishes: "op_loop x = LoopWorking \<Longrightarrow> optimizer_step x (x\<lparr>op_loop := LoopWaiting\<rparr>)"
| ends: "op_loop x = LoopWaiting \<Longrightarrow> op_cancelled x \<Longrightarrow> optimizer_step x (x\<lparr>op_loop := LoopEnded\<rparr>)"
| cancels: "\<not> op_cancelled x \<Longrightarrow> optimizer_step x (x\<lparr>op_cancelled := True\<rparr>)"
| disables: "\<not> op_disabling x \<Longrightarrow> \<not> op_returned x \<Longrightarrow> optimizer_step x (x\<lparr>op_disabling := True, op_cancelled := True\<rparr>)"
| returns: "op_disabling x \<Longrightarrow> op_loop x = LoopEnded \<Longrightarrow> optimizer_step x (x\<lparr>op_disabling := False, op_returned := True\<rparr>)"

inductive_simps optimizer_step_iff: "optimizer_step x y"

text \<open>
  C32. \<open>DisableAutoOptimization\<close>, and with it \<open>Close\<close>, can wait for good: it holds the lock of the manager while it waits for the loop, and a
  loop whose ticker fired, or which has a migrated variable to store, waits for the lock. Those states can be reached, and they and
  the state in which the call has returned are the only ones without a step.
\<close>

theorem disable_deadlock:
  assumes "optimizer_step\<^sup>*\<^sup>* EnabledOptimizer x" and "l = LoopFired \<or> l = LoopStoring"
  shows "(\<exists>y. optimizer_step\<^sup>*\<^sup>* EnabledOptimizer y \<and> op_disabling y \<and> op_loop y = l) \<and>
    ((\<nexists>y. optimizer_step x y) \<longleftrightarrow>
       op_disabling x \<and> (op_loop x = LoopFired \<or> op_loop x = LoopStoring) \<or> op_returned x \<and> op_loop x = LoopEnded)"
proof
  let ?at = "\<lambda>l. EnabledOptimizer\<lparr>op_loop := l\<rparr>"
  have "optimizer_step EnabledOptimizer (?at LoopFired)" by (rule fires) (simp add: EnabledOptimizer_def)
  then have fired: "optimizer_step\<^sup>*\<^sup>* EnabledOptimizer (?at LoopFired)" by (rule r_into_rtranclp)
  have "optimizer_step (?at LoopFired) (?at LoopWorking)" using snapshot [of "?at LoopFired"] by (simp add: EnabledOptimizer_def)
  moreover have "optimizer_step (?at LoopWorking) (?at LoopStoring)" using migrates [of "?at LoopWorking"] by (simp add: EnabledOptimizer_def)
  ultimately have "optimizer_step\<^sup>*\<^sup>* EnabledOptimizer (?at LoopStoring)"
    using fired by (meson rtranclp.rtrancl_into_rtrancl)
  with fired assms(2) have "optimizer_step\<^sup>*\<^sup>* EnabledOptimizer (?at l)" by blast
  moreover have "optimizer_step (?at l) ((?at l)\<lparr>op_disabling := True, op_cancelled := True\<rparr>)"
    by (rule disables) (simp_all add: EnabledOptimizer_def)
  ultimately have "optimizer_step\<^sup>*\<^sup>* EnabledOptimizer ((?at l)\<lparr>op_disabling := True, op_cancelled := True\<rparr>)"
    by (rule rtranclp.rtrancl_into_rtrancl)
  then show "\<exists>y. optimizer_step\<^sup>*\<^sup>* EnabledOptimizer y \<and> op_disabling y \<and> op_loop y = l"
    by (intro exI [of _ "(?at l)\<lparr>op_disabling := True, op_cancelled := True\<rparr>"]) simp
  have "(op_disabling x \<longrightarrow> op_cancelled x \<and> \<not> op_returned x) \<and> (op_returned x \<longrightarrow> op_cancelled x \<and> op_loop x = LoopEnded) \<and>
      (op_loop x = LoopEnded \<longrightarrow> op_cancelled x)"
    using assms(1)
  proof (induction rule: rtranclp_induct)
    case base
    show ?case by (simp add: EnabledOptimizer_def)
  next
    case (step y z)
    from step.hyps(2) step.IH show ?case by (cases rule: optimizer_step.cases) auto
  qed
  then show "(\<nexists>y. optimizer_step x y) \<longleftrightarrow>
      op_disabling x \<and> (op_loop x = LoopFired \<or> op_loop x = LoopStoring) \<or> op_returned x \<and> op_loop x = LoopEnded"
    by (cases "op_loop x") (auto simp: optimizer_step_iff)
qed

theorem disable_deadlock_witness:
  "\<exists>y. optimizer_step\<^sup>*\<^sup>* EnabledOptimizer y \<and> op_disabling y \<and> op_loop y = LoopFired"
  using disable_deadlock [OF rtranclp.rtrancl_refl, of LoopFired] by blast

end
