(* ===== verification/Sync_Contract.thy ===== *)
theory Sync_Contract
  imports Sync_Manager
begin

text \<open>
  The interface \<open>Variable\<close> and \<open>TypedVariable\<close> of the first version over its five implementations in \<open>internal/core/sync/vars\<close>:
  the methods \<open>Sync_Variables\<close> does not have, and the contract all of them keep, as a locale with an interpretation for each. \<open>Atomic\<close> and
  \<open>AtomicInt\<close> repeat the code of \<open>Mutex\<close> but for their locks, so their definitions refer to it; the typed variables forward to
  the variable they wrap, and \<open>t\<close> is the name of their type.
\<close>

section \<open>Mutex\<close>

definition Mutex_Get :: "'v sync_var \<Rightarrow> 'v any_value \<times> go_err option" where
  "Mutex_Get v = (va_value v, None)"

definition Mutex_IsDirty :: "'v sync_var \<Rightarrow> bool" where
  "Mutex_IsDirty v = va_dirty v"

definition Mutex_GetVersion :: "'v sync_var \<Rightarrow> uint64" where
  "Mutex_GetVersion v = va_version v"

definition Mutex_getPermissionMask :: "'v sync_var \<Rightarrow> permission_mask" where
  "Mutex_getPermissionMask v = va_permissionMask v"

definition Mutex_GetPermissions :: "'v sync_var \<Rightarrow> permission_mask" where
  "Mutex_GetPermissions v = Mutex_getPermissionMask v"

text \<open>The metrics of a \<open>Mutex\<close> give its version as the numbers of reads and of writes.\<close>

definition Mutex_GetMetrics :: "'v sync_var \<Rightarrow> VariableMetrics_v1" where
  "Mutex_GetMetrics v = no_metrics\<lparr>mt_ReadCount := va_version v, mt_WriteCount := va_version v\<rparr>"

definition Mutex_GetStorageStrategy :: "'v sync_var \<Rightarrow> StorageStrategy" where
  "Mutex_GetStorageStrategy v = va_strategy v"

definition Mutex_CanMigrateTo :: "StorageStrategy \<Rightarrow> 'v sync_var \<Rightarrow> bool" where
  "Mutex_CanMigrateTo strategy v \<longleftrightarrow> strategy \<noteq> va_strategy v"

definition Mutex_GetType :: "'v sync_var \<Rightarrow> string option" where
  "Mutex_GetType v = map_option fst (va_value v)"

definition Mutex_Close :: "'v sync_var \<Rightarrow> go_err option" where
  "Mutex_Close v = None"

text \<open>\<open>binary.Size\<close> is the argument \<open>size_of\<close>.\<close>

definition Mutex_Size :: "('v any_value \<Rightarrow> int) \<Rightarrow> 'v sync_var \<Rightarrow> int64" where
  "Mutex_Size size_of v = of_int (size_of (va_value v))"

section \<open>Atomic\<close>

definition Atomic_Get :: "'v sync_var \<Rightarrow> 'v any_value \<times> go_err option" where
  "Atomic_Get v = (va_value v, None)"

definition Atomic_updateHistory :: "'v var_delta \<Rightarrow> 'v sync_var \<Rightarrow> 'v sync_var" where
  "Atomic_updateHistory d v = updateHistory d v"

definition Atomic_IsDirty :: "'v sync_var \<Rightarrow> bool" where
  "Atomic_IsDirty v = va_dirty v"

definition Atomic_MarkClean :: "'v sync_var \<Rightarrow> 'v sync_var" where
  "Atomic_MarkClean v = v\<lparr>va_dirty := False\<rparr>"

definition Atomic_GetDelta :: "uint64 \<Rightarrow> 'v sync_var \<Rightarrow> go_err + 'v var_delta list" where
  "Atomic_GetDelta sinceVersion v = GetDelta sinceVersion v"

definition Atomic_SetConflictResolver :: "'v resolver \<Rightarrow> 'v sync_var \<Rightarrow> 'v sync_var" where
  "Atomic_SetConflictResolver f v = v\<lparr>va_resolver := Some f\<rparr>"

definition Atomic_GetVersion :: "'v sync_var \<Rightarrow> uint64" where
  "Atomic_GetVersion v = va_version v"

definition Atomic_OnChange :: "nat \<Rightarrow> 'v sync_var \<Rightarrow> 'v sync_var" where
  "Atomic_OnChange h v = v\<lparr>va_onChange := Some h\<rparr>"

definition Atomic_OnConflict :: "'v resolver \<Rightarrow> 'v sync_var \<Rightarrow> 'v sync_var" where
  "Atomic_OnConflict f v = v\<lparr>va_onConflict := Some f\<rparr>"

definition Atomic_getPermissionMask :: "'v sync_var \<Rightarrow> permission_mask" where
  "Atomic_getPermissionMask v = va_permissionMask v"

definition Atomic_GetPermissions :: "'v sync_var \<Rightarrow> permission_mask" where
  "Atomic_GetPermissions v = Atomic_getPermissionMask v"

definition Atomic_SetPermissions :: "permission_mask \<Rightarrow> 'v sync_var \<Rightarrow> 'v sync_var" where
  "Atomic_SetPermissions perms v = v\<lparr>va_permissionMask := perms\<rparr>"

definition Atomic_GetMetrics :: "'v sync_var \<Rightarrow> VariableMetrics_v1" where
  "Atomic_GetMetrics v = no_metrics"

definition Atomic_GetStorageStrategy :: "'v sync_var \<Rightarrow> StorageStrategy" where
  "Atomic_GetStorageStrategy v = va_strategy v"

definition Atomic_CanMigrateTo :: "StorageStrategy \<Rightarrow> 'v sync_var \<Rightarrow> bool" where
  "Atomic_CanMigrateTo strategy v \<longleftrightarrow> strategy \<noteq> va_strategy v"

definition Atomic_GetType :: "'v sync_var \<Rightarrow> string option" where
  "Atomic_GetType v = map_option fst (va_value v)"

definition Atomic_GetHistory :: "'v sync_var \<Rightarrow> 'v HistoryEntry list" where
  "Atomic_GetHistory v = GetHistory v"

definition Atomic_Close :: "'v sync_var \<Rightarrow> go_err option" where
  "Atomic_Close v = None"

definition Atomic_Size :: "('v any_value \<Rightarrow> int) \<Rightarrow> 'v sync_var \<Rightarrow> int64" where
  "Atomic_Size size_of v = of_int (size_of (va_value v))"

section \<open>AtomicInt\<close>

definition Int_Get :: "int64 sync_var \<Rightarrow> (int64 \<times> go_err option) outcome" where
  "Int_Get v = bind_outcome (int64_content (va_value v)) (\<lambda>x. Ret (x, None))"

definition Int_updateHistory :: "int64 var_delta \<Rightarrow> int64 sync_var \<Rightarrow> int64 sync_var" where
  "Int_updateHistory d v = updateHistory d v"

definition Int_IsDirty :: "int64 sync_var \<Rightarrow> bool" where
  "Int_IsDirty v = va_dirty v"

definition Int_MarkClean :: "int64 sync_var \<Rightarrow> int64 sync_var" where
  "Int_MarkClean v = v\<lparr>va_dirty := False\<rparr>"

definition Int_GetVersion :: "int64 sync_var \<Rightarrow> uint64" where
  "Int_GetVersion v = va_version v"

definition Int_GetDelta :: "uint64 \<Rightarrow> int64 sync_var \<Rightarrow> go_err + int64 var_delta list" where
  "Int_GetDelta sinceVersion v = GetDelta sinceVersion v"

definition Int_ApplyDelta :: "int64 var_delta list \<Rightarrow> int64 sync_var \<Rightarrow> (go_err option \<times> int64 sync_var) outcome" where
  "Int_ApplyDelta deltas v =
     (if deltas = [] then Ret (Some ErrNoDeltas, v) else bind_outcome (apply_ring deltas v) (\<lambda>v. Ret (None, v)))"

text \<open>\<open>SetConflictResolver\<close> wraps the resolver, whose answer \<open>Set\<close> converts back; a handler of conflicts works on integers.\<close>

definition Int_SetConflictResolver :: "int64 resolver \<Rightarrow> int64 sync_var \<Rightarrow> int64 sync_var" where
  "Int_SetConflictResolver f v = v\<lparr>va_resolver := Some f\<rparr>"

definition Int_OnChange :: "nat \<Rightarrow> int64 sync_var \<Rightarrow> int64 sync_var" where
  "Int_OnChange h v = v\<lparr>va_onChange := Some h\<rparr>"

definition Int_OnConflict :: "(int64 \<Rightarrow> int64 \<Rightarrow> int64) \<Rightarrow> int64 sync_var \<Rightarrow> int64 sync_var" where
  "Int_OnConflict f v = v\<lparr>va_onConflict := Some (\<lambda>local remote. case (local, remote) of
     (Some (s, x), Some (u, y)) \<Rightarrow> int64_value (f x y) | _ \<Rightarrow> local)\<rparr>"

definition Int_getPermissionMask :: "int64 sync_var \<Rightarrow> permission_mask" where
  "Int_getPermissionMask v = va_permissionMask v"

definition Int_GetPermissions :: "int64 sync_var \<Rightarrow> permission_mask" where
  "Int_GetPermissions v = Int_getPermissionMask v"

definition Int_SetPermissions :: "permission_mask \<Rightarrow> int64 sync_var \<Rightarrow> int64 sync_var" where
  "Int_SetPermissions perms v = v\<lparr>va_permissionMask := perms\<rparr>"

definition Int_GetHistory :: "int64 sync_var \<Rightarrow> int64 HistoryEntry list" where
  "Int_GetHistory v = GetHistory v"

definition Int_GetMetrics :: "int64 sync_var \<Rightarrow> VariableMetrics_v1" where
  "Int_GetMetrics v = no_metrics"

definition Int_GetStorageStrategy :: "int64 sync_var \<Rightarrow> StorageStrategy" where
  "Int_GetStorageStrategy v = va_strategy v"

definition Int_CanMigrateTo :: "StorageStrategy \<Rightarrow> int64 sync_var \<Rightarrow> bool" where
  "Int_CanMigrateTo strategy v \<longleftrightarrow> strategy \<noteq> va_strategy v"

definition Int_Close :: "int64 sync_var \<Rightarrow> go_err option" where
  "Int_Close v = None"

text \<open>An \<open>int64\<close> has 8 bytes. \<open>AsUntyped\<close> answers nil.\<close>

definition Int_Size :: "int64 sync_var \<Rightarrow> int64" where
  "Int_Size v = 8"

definition Int_AsUntyped :: "int64 sync_var \<Rightarrow> int64 sync_var option" where
  "Int_AsUntyped v = None"

section \<open>The typed variables\<close>

subsection \<open>MutexTyped\<close>

definition NewMutexTypedVariable :: "'v VariableConfig \<Rightarrow> 'v sync_var" where
  "NewMutexTypedVariable cfg = NewMutexVariable cfg"

definition MutexTyped_IsDirty :: "'v sync_var \<Rightarrow> bool" where
  "MutexTyped_IsDirty v = Mutex_IsDirty v"

definition MutexTyped_MarkClean :: "'v sync_var \<Rightarrow> 'v sync_var" where
  "MutexTyped_MarkClean v = var_MarkClean v"

definition MutexTyped_GetDelta :: "uint64 \<Rightarrow> 'v sync_var \<Rightarrow> go_err + 'v var_delta list" where
  "MutexTyped_GetDelta sinceVersion v = GetDelta sinceVersion v"

definition MutexTyped_ApplyDelta :: "'v var_delta list \<Rightarrow> 'v sync_var \<Rightarrow> (go_err option \<times> 'v sync_var) outcome" where
  "MutexTyped_ApplyDelta deltas v = Mutex_ApplyDelta deltas v"

definition MutexTyped_SetConflictResolver :: "'v resolver \<Rightarrow> 'v sync_var \<Rightarrow> 'v sync_var" where
  "MutexTyped_SetConflictResolver f v = SetConflictResolver f v"

definition MutexTyped_GetVersion :: "'v sync_var \<Rightarrow> uint64" where
  "MutexTyped_GetVersion v = Mutex_GetVersion v"

definition MutexTyped_GetPermissions :: "'v sync_var \<Rightarrow> permission_mask" where
  "MutexTyped_GetPermissions v = Mutex_GetPermissions v"

definition MutexTyped_SetPermissions :: "permission_mask \<Rightarrow> 'v sync_var \<Rightarrow> 'v sync_var" where
  "MutexTyped_SetPermissions perms v = SetPermissions perms v"

definition MutexTyped_GetMetrics :: "'v sync_var \<Rightarrow> VariableMetrics_v1" where
  "MutexTyped_GetMetrics v = no_metrics"

definition MutexTyped_GetStorageStrategy :: "'v sync_var \<Rightarrow> StorageStrategy" where
  "MutexTyped_GetStorageStrategy v = va_strategy v"

definition MutexTyped_CanMigrateTo :: "StorageStrategy \<Rightarrow> 'v sync_var \<Rightarrow> bool" where
  "MutexTyped_CanMigrateTo strategy v \<longleftrightarrow> False"

definition MutexTyped_AsUntyped :: "'v sync_var \<Rightarrow> 'v sync_var" where
  "MutexTyped_AsUntyped v = v"

definition MutexTyped_GetHistory :: "'v sync_var \<Rightarrow> 'v HistoryEntry list" where
  "MutexTyped_GetHistory v = GetHistory v"

definition MutexTyped_Close :: "'v sync_var \<Rightarrow> go_err option" where
  "MutexTyped_Close v = None"

definition MutexTyped_Size :: "('v any_value \<Rightarrow> int) \<Rightarrow> 'v sync_var \<Rightarrow> int64" where
  "MutexTyped_Size size_of v = Mutex_Size size_of v"

text \<open>\<open>zero\<close> is the zero value of the type; \<open>reflect.Zero\<close> panics for the nil type, the conversion for another type.\<close>

definition MutexTyped_getDefaultValue :: "string \<Rightarrow> 'v \<Rightarrow> 'v any_value \<Rightarrow> 'v outcome" where
  "MutexTyped_getDefaultValue t zero val = (case val of
       None \<Rightarrow> Panic NilDereference
     | Some (u, x) \<Rightarrow> if u = t then Ret zero else Panic InconsistentType)"

subsection \<open>AtomicTyped\<close>

definition NewAtomicTypedVariable :: "'v VariableConfig \<Rightarrow> 'v sync_var" where
  "NewAtomicTypedVariable cfg = NewAtomicVariable cfg"

definition AtomicTyped_IsDirty :: "'v sync_var \<Rightarrow> bool" where
  "AtomicTyped_IsDirty v = Atomic_IsDirty v"

definition AtomicTyped_MarkClean :: "'v sync_var \<Rightarrow> 'v sync_var" where
  "AtomicTyped_MarkClean v = Atomic_MarkClean v"

definition AtomicTyped_GetDelta :: "uint64 \<Rightarrow> 'v sync_var \<Rightarrow> go_err + 'v var_delta list" where
  "AtomicTyped_GetDelta sinceVersion v = Atomic_GetDelta sinceVersion v"

definition AtomicTyped_ApplyDelta :: "'v var_delta list \<Rightarrow> 'v sync_var \<Rightarrow> (go_err option \<times> 'v sync_var) outcome" where
  "AtomicTyped_ApplyDelta deltas v = Atomic_ApplyDelta deltas v"

definition AtomicTyped_SetConflictResolver :: "'v resolver \<Rightarrow> 'v sync_var \<Rightarrow> 'v sync_var" where
  "AtomicTyped_SetConflictResolver f v = Atomic_SetConflictResolver f v"

definition AtomicTyped_GetVersion :: "'v sync_var \<Rightarrow> uint64" where
  "AtomicTyped_GetVersion v = Atomic_GetVersion v"

text \<open>A conflict between values of another type keeps the local one.\<close>

definition AtomicTyped_OnConflict :: "string \<Rightarrow> ('v \<Rightarrow> 'v \<Rightarrow> 'v) \<Rightarrow> 'v sync_var \<Rightarrow> 'v sync_var" where
  "AtomicTyped_OnConflict t f v = Atomic_OnConflict (\<lambda>local remote. case (local, remote) of
     (Some (s, x), Some (u, y)) \<Rightarrow> if s = t \<and> u = t then Some (t, f x y) else local | _ \<Rightarrow> local) v"

definition AtomicTyped_GetPermissions :: "'v sync_var \<Rightarrow> permission_mask" where
  "AtomicTyped_GetPermissions v = Atomic_GetPermissions v"

definition AtomicTyped_SetPermissions :: "permission_mask \<Rightarrow> 'v sync_var \<Rightarrow> 'v sync_var" where
  "AtomicTyped_SetPermissions perms v = Atomic_SetPermissions perms v"

definition AtomicTyped_GetMetrics :: "'v sync_var \<Rightarrow> VariableMetrics_v1" where
  "AtomicTyped_GetMetrics v = no_metrics"

definition AtomicTyped_GetStorageStrategy :: "'v sync_var \<Rightarrow> StorageStrategy" where
  "AtomicTyped_GetStorageStrategy v = StrategyAtomic"

definition AtomicTyped_CanMigrateTo :: "StorageStrategy \<Rightarrow> 'v sync_var \<Rightarrow> bool" where
  "AtomicTyped_CanMigrateTo strategy v \<longleftrightarrow> False"

definition AtomicTyped_AsUntyped :: "'v sync_var \<Rightarrow> 'v sync_var" where
  "AtomicTyped_AsUntyped v = v"

definition AtomicTyped_GetHistory :: "'v sync_var \<Rightarrow> 'v HistoryEntry list" where
  "AtomicTyped_GetHistory v = Atomic_GetHistory v"

definition AtomicTyped_Close :: "'v sync_var \<Rightarrow> go_err option" where
  "AtomicTyped_Close v = None"

definition AtomicTyped_Size :: "('v any_value \<Rightarrow> int) \<Rightarrow> 'v sync_var \<Rightarrow> int64" where
  "AtomicTyped_Size size_of v = of_int (size_of (va_value v))"

section \<open>The metrics wrapper\<close>

text \<open>The wrapper calls the variable it holds through the interface; a handler is set on that variable.\<close>

definition on_kind :: "('v sync_var \<Rightarrow> 'r) \<Rightarrow> ('v sync_var \<Rightarrow> 'r) \<Rightarrow> 'v managed \<Rightarrow> 'r" where
  "on_kind on_mutex on_atomic m = (case mv_kind m of KindMutex \<Rightarrow> on_mutex (mv_var m) | KindAtomic \<Rightarrow> on_atomic (mv_var m))"

definition Wrapper_GetType :: "'v managed \<Rightarrow> string option" where
  "Wrapper_GetType m = on_kind (Mutex_GetType) (Atomic_GetType) m"

definition Wrapper_GetHistory :: "'v managed \<Rightarrow> 'v HistoryEntry list" where
  "Wrapper_GetHistory m = on_kind (GetHistory) (Atomic_GetHistory) m"

definition Wrapper_Close :: "'v managed \<Rightarrow> go_err option" where
  "Wrapper_Close m = on_kind (Mutex_Close) (Atomic_Close) m"

definition Wrapper_Size :: "('v any_value \<Rightarrow> int) \<Rightarrow> 'v managed \<Rightarrow> int64" where
  "Wrapper_Size size_of m = on_kind (Mutex_Size size_of) (Atomic_Size size_of) m"

definition Wrapper_IsDirty :: "'v managed \<Rightarrow> bool" where
  "Wrapper_IsDirty m = on_kind (Mutex_IsDirty) (Atomic_IsDirty) m"

definition Wrapper_MarkClean :: "'v managed \<Rightarrow> 'v managed" where
  "Wrapper_MarkClean m = m\<lparr>mv_var := on_kind (var_MarkClean) (Atomic_MarkClean) m\<rparr>"

definition Wrapper_GetVersion :: "'v managed \<Rightarrow> uint64" where
  "Wrapper_GetVersion m = on_kind (Mutex_GetVersion) (Atomic_GetVersion) m"

definition Wrapper_GetDelta :: "uint64 \<Rightarrow> 'v managed \<Rightarrow> go_err + 'v var_delta list" where
  "Wrapper_GetDelta sinceVersion m = on_kind (GetDelta sinceVersion) (Atomic_GetDelta sinceVersion) m"

definition Wrapper_ApplyDelta :: "'v var_delta list \<Rightarrow> 'v managed \<Rightarrow> (go_err option \<times> 'v managed) outcome" where
  "Wrapper_ApplyDelta deltas m =
     bind_outcome (on_kind (Mutex_ApplyDelta deltas) (Atomic_ApplyDelta deltas) m) (\<lambda>(err, v). Ret (err, m\<lparr>mv_var := v\<rparr>))"

definition Wrapper_SetConflictResolver :: "'v resolver \<Rightarrow> 'v managed \<Rightarrow> 'v managed" where
  "Wrapper_SetConflictResolver f m = m\<lparr>mv_var := on_kind (SetConflictResolver f) (Atomic_SetConflictResolver f) m\<rparr>"

definition Wrapper_OnChange :: "nat \<Rightarrow> 'v managed \<Rightarrow> 'v managed" where
  "Wrapper_OnChange h m = m\<lparr>mv_var := on_kind (OnChange h) (Atomic_OnChange h) m\<rparr>"

definition Wrapper_OnConflict :: "'v resolver \<Rightarrow> 'v managed \<Rightarrow> 'v managed" where
  "Wrapper_OnConflict f m = m\<lparr>mv_var := on_kind (OnConflict f) (Atomic_OnConflict f) m\<rparr>"

definition Wrapper_GetPermissions :: "'v managed \<Rightarrow> permission_mask" where
  "Wrapper_GetPermissions m = on_kind (Mutex_GetPermissions) (Atomic_GetPermissions) m"

definition Wrapper_SetPermissions :: "permission_mask \<Rightarrow> 'v managed \<Rightarrow> 'v managed" where
  "Wrapper_SetPermissions perms m = m\<lparr>mv_var := on_kind (SetPermissions perms) (Atomic_SetPermissions perms) m\<rparr>"

definition Wrapper_GetStorageStrategy :: "'v managed \<Rightarrow> StorageStrategy" where
  "Wrapper_GetStorageStrategy m = on_kind (Mutex_GetStorageStrategy) (Atomic_GetStorageStrategy) m"

definition Wrapper_CanMigrateTo :: "StorageStrategy \<Rightarrow> 'v managed \<Rightarrow> bool" where
  "Wrapper_CanMigrateTo strategy m = on_kind (Mutex_CanMigrateTo strategy) (Atomic_CanMigrateTo strategy) m"

section \<open>The contract\<close>

text \<open>
  The cell all of them implement for values of one type: permissions, the value once one was set, a version that counts the changes, a flag.
  A call without a result answers no error.
\<close>

record 'a cell =
  ce_perms :: permission_mask
  ce_value :: "'a option"
  ce_version :: uint64
  ce_dirty :: bool

datatype 'a cell_call = Put 'a | Clean | Permit permission_mask

definition cell_Put :: "('a \<Rightarrow> 'a \<Rightarrow> bool) \<Rightarrow> 'a \<Rightarrow> 'a cell \<Rightarrow> go_err option \<times> 'a cell" where
  "cell_Put same x c =
     (if \<not> checkPermissions PermissionWrite (ce_perms c) then (Some ErrPermissionDenied, c)
      else if (case ce_value c of Some y \<Rightarrow> same y x | None \<Rightarrow> False) then (None, c)
      else (None, c\<lparr>ce_value := Some x, ce_version := ce_version c + 1, ce_dirty := True\<rparr>))"

primrec cell_do :: "('a \<Rightarrow> 'a \<Rightarrow> bool) \<Rightarrow> 'a cell_call \<Rightarrow> 'a cell \<Rightarrow> go_err option \<times> 'a cell" where
  "cell_do same (Put x) c = cell_Put same x c"
| "cell_do same Clean c = (None, c\<lparr>ce_dirty := False\<rparr>)"
| "cell_do same (Permit perms) c = (None, c\<lparr>ce_perms := perms\<rparr>)"

primrec cell_run :: "('a \<Rightarrow> 'a \<Rightarrow> bool) \<Rightarrow> 'a cell_call list \<Rightarrow> 'a cell \<Rightarrow> go_err option list \<times> 'a cell" where
  "cell_run same [] c = ([], c)"
| "cell_run same (call # calls) c = (case cell_do same call c of (e, c) \<Rightarrow> case cell_run same calls c of (es, c) \<Rightarrow> (e # es, c))"

text \<open>The same calls on an implementation, given its methods.\<close>

primrec drive ::
  "('a \<Rightarrow> 's \<Rightarrow> (go_err option \<times> 's) outcome) \<Rightarrow> ('s \<Rightarrow> 's) \<Rightarrow> (permission_mask \<Rightarrow> 's \<Rightarrow> 's) \<Rightarrow> 'a cell_call list \<Rightarrow> 's \<Rightarrow>
     (go_err option list \<times> 's) outcome" where
  "drive put clean permit [] s = Ret ([], s)"
| "drive put clean permit (call # calls) s =
     bind_outcome (case call of Put x \<Rightarrow> put x s | Clean \<Rightarrow> Ret (None, clean s) | Permit perms \<Rightarrow> Ret (None, permit perms s))
       (\<lambda>(e, s). bind_outcome (drive put clean permit calls s) (\<lambda>(es, s). Ret (e # es, s)))"

locale sync_variable =
  fixes abs :: "'s \<Rightarrow> 'a cell" and ok :: "'s \<Rightarrow> bool" and same :: "'a \<Rightarrow> 'a \<Rightarrow> bool"
    and Set_op :: "'a \<Rightarrow> 's \<Rightarrow> (go_err option \<times> 's) outcome" and MarkClean_op :: "'s \<Rightarrow> 's" and SetPermissions_op :: "permission_mask \<Rightarrow> 's \<Rightarrow> 's"
    and Get_op :: "'s \<Rightarrow> ('a \<times> go_err option) outcome" and GetVersion_op :: "'s \<Rightarrow> uint64" and IsDirty_op :: "'s \<Rightarrow> bool"
    and GetPermissions_op :: "'s \<Rightarrow> permission_mask"
  assumes sets: "ok s \<Longrightarrow> \<exists>s'. Set_op x s = Ret (fst (cell_Put same x (abs s)), s') \<and> ok s' \<and> abs s' = snd (cell_Put same x (abs s))"
    and cleans: "ok s \<Longrightarrow> ok (MarkClean_op s) \<and> abs (MarkClean_op s) = (abs s)\<lparr>ce_dirty := False\<rparr>"
    and permits: "ok s \<Longrightarrow> ok (SetPermissions_op perms s) \<and> abs (SetPermissions_op perms s) = (abs s)\<lparr>ce_perms := perms\<rparr>"
    and reads: "ok s \<Longrightarrow> ce_value (abs s) = Some x \<Longrightarrow> Get_op s = Ret (x, None)"
    and observed: "GetVersion_op s = ce_version (abs s)" "IsDirty_op s = ce_dirty (abs s)" "GetPermissions_op s = ce_perms (abs s)"
begin

lemma one_call:
  assumes "ok s"
  shows "\<exists>s'. (case call of Put x \<Rightarrow> Set_op x s | Clean \<Rightarrow> Ret (None, MarkClean_op s) | Permit perms \<Rightarrow> Ret (None, SetPermissions_op perms s)) =
      Ret (fst (cell_do same call (abs s)), s') \<and> ok s' \<and> abs s' = snd (cell_do same call (abs s))"
  using sets [OF assms] cleans [OF assms] permits [OF assms] by (cases call) simp_all

lemma runs: "ok s \<Longrightarrow> \<exists>s'. drive Set_op MarkClean_op SetPermissions_op calls s = Ret (fst (cell_run same calls (abs s)), s') \<and> ok s' \<and>
    abs s' = snd (cell_run same calls (abs s))"
proof (induction calls arbitrary: s)
  case (Cons call calls)
  obtain s1 where s1: "(case call of Put x \<Rightarrow> Set_op x s | Clean \<Rightarrow> Ret (None, MarkClean_op s) | Permit perms \<Rightarrow> Ret (None, SetPermissions_op perms s)) =
      Ret (fst (cell_do same call (abs s)), s1)" "ok s1" "abs s1 = snd (cell_do same call (abs s))"
    using one_call [OF Cons.prems] by blast
  with Cons.IH [OF s1(2)] show ?case by (auto simp: split_beta)
qed simp

text \<open>Results and observations are those of the cell.\<close>

lemma implements:
  assumes "ok s" and "cell_run same calls (abs s) = (es, c)"
  shows "\<exists>s'. drive Set_op MarkClean_op SetPermissions_op calls s = Ret (es, s') \<and>
    GetVersion_op s' = ce_version c \<and> IsDirty_op s' = ce_dirty c \<and> GetPermissions_op s' = ce_perms c \<and>
    (\<forall>x. ce_value c = Some x \<longrightarrow> Get_op s' = Ret (x, None))"
  using runs [OF assms(1), of calls] assms(2) by (auto simp: observed reads)

end

section \<open>The five implementations\<close>

definition var_cell :: "'v sync_var \<Rightarrow> 'v cell" where
  "var_cell v = \<lparr>ce_perms = va_permissionMask v, ce_value = map_option snd (va_value v), ce_version = va_version v, ce_dirty = va_dirty v\<rparr>"

text \<open>The content of an answer of type \<open>any\<close>, when it is asked for as the type.\<close>

definition asserted :: "string \<Rightarrow> 'v any_value \<times> go_err option \<Rightarrow> ('v \<times> go_err option) outcome" where
  "asserted t r = (case fst r of Some (u, x) \<Rightarrow> if u = t then Ret (x, snd r) else Panic InconsistentType | None \<Rightarrow> Panic InconsistentType)"

lemma Mutex_Set_cell:
  assumes "has_type t v"
  shows "fst (Mutex_Set same (Some (t, x)) v) = fst (cell_Put same x (var_cell v)) \<and> has_type t (snd (Mutex_Set same (Some (t, x)) v)) \<and>
    var_cell (snd (Mutex_Set same (Some (t, x)) v)) = snd (cell_Put same x (var_cell v))"
  using assms
  by (auto simp: Mutex_Set_def cell_Put_def var_cell_def has_type_def value_to_write_def resolve_equal_def fastEqual_def split: option.splits)

interpretation mutex_var: sync_variable var_cell "has_type t" same "\<lambda>x v. Ret (Mutex_Set same (Some (t, x)) v)" var_MarkClean SetPermissions
  "\<lambda>v. asserted t (Mutex_Get v)" Mutex_GetVersion Mutex_IsDirty Mutex_GetPermissions for t same
proof unfold_locales
  show "\<exists>s'. Ret (Mutex_Set same (Some (t, x)) s) = Ret (fst (cell_Put same x (var_cell s)), s') \<and> has_type t s' \<and> var_cell s' = snd (cell_Put same x (var_cell s))"
    if "has_type t s" for s x
    using Mutex_Set_cell [OF that, of same x] by (auto simp: prod_eq_iff)
qed (auto simp: has_type_def var_cell_def var_MarkClean_def SetPermissions_def asserted_def Mutex_Get_def Mutex_GetVersion_def Mutex_IsDirty_def
    Mutex_GetPermissions_def Mutex_getPermissionMask_def split: option.splits)

interpretation atomic_var: sync_variable var_cell "has_type t" same "\<lambda>x. Atomic_Set same (Some (t, x))" Atomic_MarkClean Atomic_SetPermissions
  "\<lambda>v. asserted t (Atomic_Get v)" Atomic_GetVersion Atomic_IsDirty Atomic_GetPermissions for t same
proof unfold_locales
  show "\<exists>s'. Atomic_Set same (Some (t, x)) s = Ret (fst (cell_Put same x (var_cell s)), s') \<and> has_type t s' \<and> var_cell s' = snd (cell_Put same x (var_cell s))"
    if "has_type t s" for s x
    using Mutex_Set_cell [OF that, of same x] by (auto simp: Atomic_Set_Mutex [OF that] prod_eq_iff)
qed (auto simp: has_type_def var_cell_def Atomic_MarkClean_def Atomic_SetPermissions_def asserted_def Atomic_Get_def Atomic_GetVersion_def Atomic_IsDirty_def
    Atomic_GetPermissions_def Atomic_getPermissionMask_def split: option.splits)

interpretation mutex_typed: sync_variable var_cell "has_type t" same "\<lambda>x v. Ret (MutexTyped_Set same t x v)" MutexTyped_MarkClean MutexTyped_SetPermissions
  "MutexTyped_Get t" MutexTyped_GetVersion MutexTyped_IsDirty MutexTyped_GetPermissions for t same
proof unfold_locales
  show "\<exists>s'. Ret (MutexTyped_Set same t x s) = Ret (fst (cell_Put same x (var_cell s)), s') \<and> has_type t s' \<and> var_cell s' = snd (cell_Put same x (var_cell s))"
    if "has_type t s" for s x
    using mutex_var.sets [OF that] by (simp add: MutexTyped_Set_def)
qed (auto simp: has_type_def var_cell_def MutexTyped_MarkClean_def MutexTyped_SetPermissions_def MutexTyped_Get_def MutexTyped_GetVersion_def
    MutexTyped_IsDirty_def MutexTyped_GetPermissions_def var_MarkClean_def SetPermissions_def Mutex_GetVersion_def Mutex_IsDirty_def
    Mutex_GetPermissions_def Mutex_getPermissionMask_def split: option.splits)

interpretation atomic_typed: sync_variable var_cell "has_type t" same "AtomicTyped_Set same t" AtomicTyped_MarkClean AtomicTyped_SetPermissions
  "\<lambda>v. Ret (AtomicTyped_Get t zero v)" AtomicTyped_GetVersion AtomicTyped_IsDirty AtomicTyped_GetPermissions for t same zero
proof unfold_locales
  show "\<exists>s'. AtomicTyped_Set same t x s = Ret (fst (cell_Put same x (var_cell s)), s') \<and> has_type t s' \<and> var_cell s' = snd (cell_Put same x (var_cell s))"
    if "has_type t s" for s x
    using atomic_var.sets [OF that] by (simp add: AtomicTyped_Set_def)
qed (auto simp: has_type_def var_cell_def AtomicTyped_MarkClean_def AtomicTyped_SetPermissions_def AtomicTyped_Get_def AtomicTyped_GetVersion_def
    AtomicTyped_IsDirty_def AtomicTyped_GetPermissions_def Atomic_MarkClean_def Atomic_SetPermissions_def Atomic_GetVersion_def Atomic_IsDirty_def
    Atomic_GetPermissions_def Atomic_getPermissionMask_def split: option.splits)

lemma Int_Set_Mutex: "has_type ''int64'' w \<Longrightarrow> Int_Set i w = Ret (Mutex_Set (=) (int64_value i) w)"
  by (auto simp: has_type_def Int_Set_def Mutex_Set_def value_to_write_def resolve_equal_def int64_value_def int64_content_def split: option.split)

interpretation int_var: sync_variable var_cell "has_type ''int64''" "(=)" Int_Set Int_MarkClean Int_SetPermissions
  Int_Get Int_GetVersion Int_IsDirty Int_GetPermissions
proof unfold_locales
  show "\<exists>s'. Int_Set x s = Ret (fst (cell_Put (=) x (var_cell s)), s') \<and> has_type ''int64'' s' \<and> var_cell s' = snd (cell_Put (=) x (var_cell s))"
    if "has_type ''int64'' s" for s x
    using Mutex_Set_cell [OF that, of "(=)" x] by (auto simp: Int_Set_Mutex [OF that] int64_value_def prod_eq_iff)
qed (auto simp: has_type_def var_cell_def Int_MarkClean_def Int_SetPermissions_def Int_Get_def int64_content_def Int_GetVersion_def Int_IsDirty_def
    Int_GetPermissions_def Int_getPermissionMask_def split: option.splits)

definition new_cell :: "permission_mask \<Rightarrow> 'a option \<Rightarrow> 'a cell" where
  "new_cell perms x = \<lparr>ce_perms = perms, ce_value = x, ce_version = 1, ce_dirty = False\<rparr>"

lemma new_variables:
  "cf_ConflictResolver cfg = None \<Longrightarrow> has_type t (NewMutexVariable cfg)" "var_cell (NewMutexVariable cfg) = new_cell (cf_Permissions cfg) None"
  "has_type ''int64'' (NewInt icfg)" "var_cell (NewInt icfg) = new_cell (cf_Permissions icfg) (Some 1)"
  by (simp_all add: has_type_def NewMutexVariable_def var_cell_def new_cell_def NewInt_def int64_value_def)

text \<open>
  C29. The five variables of the first version are one. For values of one type and without a resolver, any sequence of calls of \<open>Set\<close>, \<open>MarkClean\<close> and
  \<open>SetPermissions\<close> answers on \<open>Mutex\<close>, \<open>Atomic\<close>, \<open>MutexTyped\<close> and \<open>AtomicTyped\<close> what it answers on the cell, and leaves its version, flag, permissions
  and value; so it does on an \<open>AtomicInt\<close>, whose cell holds 1 at first. Another type of value panics in an \<open>Atomic\<close> and is taken by a \<open>Mutex\<close>.
  The cell refuses a write that its permissions do not name, so a configuration without permissions refuses every one; the test of the
  \<open>Mutex\<close> expects the opposite (\<open>mutex_test_denied\<close>).
\<close>

theorem five_variables:
  assumes "cf_ConflictResolver cfg = None" and "cell_run same calls (new_cell (cf_Permissions cfg) None) = (es, c)"
    and "cell_run (=) icalls (new_cell (cf_Permissions icfg) (Some 1)) = (ies, ic)"
  shows "(\<exists>v. drive (\<lambda>x v. Ret (Mutex_Set same (Some (t, x)) v)) var_MarkClean SetPermissions calls (NewMutexVariable cfg) = Ret (es, v) \<and>
      Mutex_GetVersion v = ce_version c \<and> Mutex_IsDirty v = ce_dirty c \<and> Mutex_GetPermissions v = ce_perms c \<and>
      (\<forall>x. ce_value c = Some x \<longrightarrow> asserted t (Mutex_Get v) = Ret (x, None))) \<and>
    (\<exists>v. drive (\<lambda>x. Atomic_Set same (Some (t, x))) Atomic_MarkClean Atomic_SetPermissions calls (NewAtomicVariable cfg) = Ret (es, v) \<and>
      Atomic_GetVersion v = ce_version c \<and> Atomic_IsDirty v = ce_dirty c \<and> Atomic_GetPermissions v = ce_perms c \<and>
      (\<forall>x. ce_value c = Some x \<longrightarrow> asserted t (Atomic_Get v) = Ret (x, None))) \<and>
    (\<exists>v. drive (\<lambda>x v. Ret (MutexTyped_Set same t x v)) MutexTyped_MarkClean MutexTyped_SetPermissions calls (NewMutexTypedVariable cfg) = Ret (es, v) \<and>
      MutexTyped_GetVersion v = ce_version c \<and> MutexTyped_IsDirty v = ce_dirty c \<and> MutexTyped_GetPermissions v = ce_perms c \<and>
      (\<forall>x. ce_value c = Some x \<longrightarrow> MutexTyped_Get t v = Ret (x, None))) \<and>
    (\<exists>v. drive (AtomicTyped_Set same t) AtomicTyped_MarkClean AtomicTyped_SetPermissions calls (NewAtomicTypedVariable cfg) = Ret (es, v) \<and>
      AtomicTyped_GetVersion v = ce_version c \<and> AtomicTyped_IsDirty v = ce_dirty c \<and> AtomicTyped_GetPermissions v = ce_perms c \<and>
      (\<forall>x. ce_value c = Some x \<longrightarrow> Ret (AtomicTyped_Get t zero v) = Ret (x, None))) \<and>
    (\<exists>v. drive Int_Set Int_MarkClean Int_SetPermissions icalls (NewInt icfg) = Ret (ies, v) \<and>
      Int_GetVersion v = ce_version ic \<and> Int_IsDirty v = ce_dirty ic \<and> Int_GetPermissions v = ce_perms ic \<and>
      (\<forall>x. ce_value ic = Some x \<longrightarrow> Int_Get v = Ret (x, None))) \<and>
    (u \<noteq> t \<and> va_value w = Some (t, x) \<and> checkPermissions PermissionWrite (va_permissionMask w) \<longrightarrow>
      Atomic_Set same (Some (u, y)) w = Panic InconsistentType \<and> va_value (snd (Mutex_Set same (Some (u, y)) w)) = Some (u, y))"
proof (intro conjI)
  have new: "has_type t (NewMutexVariable cfg)" "cell_run same calls (var_cell (NewMutexVariable cfg)) = (es, c)"
    using assms(1,2) by (simp_all add: new_variables)
  have same: "NewAtomicVariable cfg = NewMutexVariable cfg" "NewMutexTypedVariable cfg = NewMutexVariable cfg" "NewAtomicTypedVariable cfg = NewMutexVariable cfg"
    by (simp_all add: NewAtomicVariable_def NewMutexTypedVariable_def NewAtomicTypedVariable_def)
  note mutex_var.implements [OF new]
  then show "\<exists>v. drive (\<lambda>x v. Ret (Mutex_Set same (Some (t, x)) v)) var_MarkClean SetPermissions calls (NewMutexVariable cfg) = Ret (es, v) \<and>
      Mutex_GetVersion v = ce_version c \<and> Mutex_IsDirty v = ce_dirty c \<and> Mutex_GetPermissions v = ce_perms c \<and>
      (\<forall>x. ce_value c = Some x \<longrightarrow> asserted t (Mutex_Get v) = Ret (x, None))" .
  show "\<exists>v. drive (\<lambda>x. Atomic_Set same (Some (t, x))) Atomic_MarkClean Atomic_SetPermissions calls (NewAtomicVariable cfg) = Ret (es, v) \<and>
      Atomic_GetVersion v = ce_version c \<and> Atomic_IsDirty v = ce_dirty c \<and> Atomic_GetPermissions v = ce_perms c \<and>
      (\<forall>x. ce_value c = Some x \<longrightarrow> asserted t (Atomic_Get v) = Ret (x, None))"
    unfolding same by (rule atomic_var.implements [OF new])
  show "\<exists>v. drive (\<lambda>x v. Ret (MutexTyped_Set same t x v)) MutexTyped_MarkClean MutexTyped_SetPermissions calls (NewMutexTypedVariable cfg) = Ret (es, v) \<and>
      MutexTyped_GetVersion v = ce_version c \<and> MutexTyped_IsDirty v = ce_dirty c \<and> MutexTyped_GetPermissions v = ce_perms c \<and>
      (\<forall>x. ce_value c = Some x \<longrightarrow> MutexTyped_Get t v = Ret (x, None))"
    unfolding same by (rule mutex_typed.implements [OF new])
  show "\<exists>v. drive (AtomicTyped_Set same t) AtomicTyped_MarkClean AtomicTyped_SetPermissions calls (NewAtomicTypedVariable cfg) = Ret (es, v) \<and>
      AtomicTyped_GetVersion v = ce_version c \<and> AtomicTyped_IsDirty v = ce_dirty c \<and> AtomicTyped_GetPermissions v = ce_perms c \<and>
      (\<forall>x. ce_value c = Some x \<longrightarrow> Ret (AtomicTyped_Get t zero v) = Ret (x, None))"
    unfolding same by (rule atomic_typed.implements [OF new])
  show "\<exists>v. drive Int_Set Int_MarkClean Int_SetPermissions icalls (NewInt icfg) = Ret (ies, v) \<and>
      Int_GetVersion v = ce_version ic \<and> Int_IsDirty v = ce_dirty ic \<and> Int_GetPermissions v = ce_perms ic \<and>
      (\<forall>x. ce_value ic = Some x \<longrightarrow> Int_Get v = Ret (x, None))"
    by (rule int_var.implements [OF new_variables(3)]) (simp add: new_variables(4) assms(3))
  show "u \<noteq> t \<and> va_value w = Some (t, x) \<and> checkPermissions PermissionWrite (va_permissionMask w) \<longrightarrow>
      Atomic_Set same (Some (u, y)) w = Panic InconsistentType \<and> va_value (snd (Mutex_Set same (Some (u, y)) w)) = Some (u, y)"
    by (auto simp: Atomic_Set_def Mutex_Set_def value_to_write_def fastEqual_def store_any_def)
qed

text \<open>
  \<open>Test_MutexVariable\<close> (\<open>vars/mutex_test.go\<close>) makes a \<open>Mutex\<close> whose configuration names no permissions, and asks that it hold
  100, that \<open>Set(120)\<close> succeed and that the variable then be dirty. The code grants nothing that the mask does not name, as
  \<open>five_variables\<close> says: the new variable holds nil, the write is denied, and the variable stays clean.
\<close>

theorem mutex_test_denied:
  assumes "cf_Permissions cfg = 0"
  shows "Mutex_Get (NewMutexVariable cfg) = (None, None) \<and>
    Mutex_Set same new (NewMutexVariable cfg) = (Some ErrPermissionDenied, NewMutexVariable cfg) \<and>
    \<not> Mutex_IsDirty (NewMutexVariable cfg)"
  using assms by (simp add: Mutex_Get_def Mutex_Set_def Mutex_IsDirty_def NewMutexVariable_def checkPermissions_def)

theorem five_variables_witness:
  "(\<exists>v. drive (AtomicTyped_Set (=) ''int'') AtomicTyped_MarkClean AtomicTyped_SetPermissions [Put 4, Put 4, Clean, Permit 0, Put (5 :: nat)]
       (NewAtomicTypedVariable sample_config) = Ret ([None, None, None, None, Some ErrPermissionDenied], v) \<and>
     AtomicTyped_GetVersion v = 2 \<and> \<not> AtomicTyped_IsDirty v \<and> AtomicTyped_Get ''int'' 0 v = (4, None)) \<and>
   (\<exists>v. drive Int_Set Int_MarkClean Int_SetPermissions [Put 1, Put 7] (NewInt sample_config) = Ret ([None, None], v) \<and> Int_GetVersion v = 2)"
proof -
  have run: "cell_run (=) [Put 4, Put 4, Clean, Permit 0, Put (5 :: nat)] (new_cell (cf_Permissions (sample_config :: nat VariableConfig)) None) =
      ([None, None, None, None, Some ErrPermissionDenied], \<lparr>ce_perms = 0, ce_value = Some 4, ce_version = 2, ce_dirty = False\<rparr>)"
    by (simp add: cell_Put_def new_cell_def sample_config_def checkPermissions_def PermissionWrite_def)
  have irun: "cell_run (=) [Put 1, Put (7 :: int64)] (new_cell (cf_Permissions (sample_config :: int64 VariableConfig)) (Some 1)) =
      ([None, None], \<lparr>ce_perms = PermissionWrite, ce_value = Some 7, ce_version = 2, ce_dirty = True\<rparr>)"
    by (simp add: cell_Put_def new_cell_def sample_config_def checkPermissions_def PermissionWrite_def)
  have "cf_ConflictResolver (sample_config :: nat VariableConfig) = None" by (simp add: sample_config_def)
  note all = five_variables [OF this run irun, of "''int''" 0 "''u''" _ undefined undefined]
  show ?thesis using all by fastforce
qed

end
