(* ===== verification/Sync_Locks.thy ===== *)
theory Sync_Locks
  imports Sync_Variables
begin

text \<open>
  The locks of \<open>Mutex\<close> (\<open>internal/core/sync/vars/mutex.go\<close>): the order in which its methods take \<open>valueMu\<close> and \<open>historyMu\<close>, goroutines
  that run them, and the typed variable at its first use.
\<close>

section \<open>Goroutines and locks\<close>

datatype var_lock = valueMu | historyMu

datatype lock_act = Acquire var_lock | Unlock var_lock | RLock var_lock | RUnlock var_lock

record lock_state =
  lk_writer :: "var_lock \<Rightarrow> bool"
  lk_readers :: "var_lock \<Rightarrow> nat"

definition free_locks :: lock_state where
  "free_locks = \<lparr>lk_writer = (\<lambda>m. False), lk_readers = (\<lambda>m. 0)\<rparr>"

definition can_do :: "lock_act \<Rightarrow> lock_state \<Rightarrow> bool" where
  "can_do a s = (case a of
       Acquire m \<Rightarrow> \<not> lk_writer s m \<and> lk_readers s m = 0
     | RLock m \<Rightarrow> \<not> lk_writer s m
     | _ \<Rightarrow> True)"

definition do_lock :: "lock_act \<Rightarrow> lock_state \<Rightarrow> lock_state" where
  "do_lock a s = (case a of
       Acquire m \<Rightarrow> s\<lparr>lk_writer := (lk_writer s)(m := True)\<rparr>
     | Unlock m \<Rightarrow> s\<lparr>lk_writer := (lk_writer s)(m := False)\<rparr>
     | RLock m \<Rightarrow> s\<lparr>lk_readers := (lk_readers s)(m := lk_readers s m + 1)\<rparr>
     | RUnlock m \<Rightarrow> s\<lparr>lk_readers := (lk_readers s)(m := lk_readers s m - 1)\<rparr>)"

text \<open>What the goroutines have still to do with the locks.\<close>

inductive lock_step :: "lock_state \<times> lock_act list list \<Rightarrow> lock_state \<times> lock_act list list \<Rightarrow> bool" where
  "g < length ps \<Longrightarrow> ps ! g = a # as \<Longrightarrow> can_do a s \<Longrightarrow> lock_step (s, ps) (do_lock a s, ps[g := as])"

inductive_simps lock_step_iff: "lock_step (s, ps) y"

text \<open>The methods: \<open>Set\<close> of a changed value with a history first reads the permissions.\<close>

definition Get_locks :: "lock_act list" where
  "Get_locks = [RLock valueMu, RUnlock valueMu]"

definition Set_locks :: "lock_act list" where
  "Set_locks = [RLock valueMu, RUnlock valueMu, Acquire valueMu, Acquire historyMu, Unlock historyMu, Unlock valueMu]"

definition MarkClean_locks :: "lock_act list" where
  "MarkClean_locks = [Acquire valueMu, Unlock valueMu]"

definition GetDelta_locks :: "lock_act list" where
  "GetDelta_locks = [Acquire historyMu, Unlock historyMu]"

definition ApplyDelta_locks :: "lock_act list" where
  "ApplyDelta_locks = [Acquire historyMu, Acquire valueMu, Unlock valueMu, Unlock historyMu]"

section \<open>Programs that take the locks in order\<close>

text \<open>A goroutine holds the locks its remaining program gives back before it takes them.\<close>

primrec writes_lock :: "var_lock \<Rightarrow> lock_act list \<Rightarrow> bool" where
  "writes_lock m [] \<longleftrightarrow> False"
| "writes_lock m (a # as) \<longleftrightarrow> a = Unlock m \<or> a \<noteq> Acquire m \<and> writes_lock m as"

primrec reads_lock :: "var_lock \<Rightarrow> lock_act list \<Rightarrow> bool" where
  "reads_lock m [] \<longleftrightarrow> False"
| "reads_lock m (a # as) \<longleftrightarrow> a = RUnlock m \<or> a \<noteq> RLock m \<and> reads_lock m as"

definition holds_lock :: "var_lock \<Rightarrow> lock_act list \<Rightarrow> bool" where
  "holds_lock m as \<longleftrightarrow> writes_lock m as \<or> reads_lock m as"

text \<open>In order: whoever takes a lock holds neither it nor \<open>historyMu\<close>, gives back only what it holds, and takes no lock it has.\<close>

primrec in_lock_order :: "lock_act list \<Rightarrow> bool" where
  "in_lock_order [] \<longleftrightarrow> True"
| "in_lock_order (a # as) \<longleftrightarrow> in_lock_order as \<and> (case a of
      Acquire m \<Rightarrow> \<not> holds_lock m (a # as) \<and> \<not> holds_lock historyMu (a # as) \<and> writes_lock m as
    | RLock m \<Rightarrow> \<not> holds_lock m (a # as) \<and> \<not> holds_lock historyMu (a # as) \<and> reads_lock m as
    | Unlock m \<Rightarrow> \<not> writes_lock m as
    | RUnlock m \<Rightarrow> \<not> reads_lock m as)"

definition number :: "('a \<Rightarrow> bool) \<Rightarrow> 'a list \<Rightarrow> nat" where
  "number P xs = length (filter P xs)"

lemma number_update:
  "g < length xs \<Longrightarrow> number P (xs[g := x]) + (if P (xs ! g) then 1 else 0) = number P xs + (if P x then 1 else 0)"
proof (induction xs arbitrary: g)
  case (Cons y ys)
  then show ?case by (cases g) (auto simp: number_def)
qed simp

lemma number_0: "number P xs = 0 \<longleftrightarrow> (\<forall>x\<in>set xs. \<not> P x)"
  by (simp add: number_def filter_empty_conv)

definition lock_inv :: "lock_state \<times> lock_act list list \<Rightarrow> bool" where
  "lock_inv = (\<lambda>(s, ps). list_all in_lock_order ps \<and>
     (\<forall>m. number (writes_lock m) ps = (if lk_writer s m then 1 else 0) \<and> number (reads_lock m) ps = lk_readers s m))"

lemma lock_step_inv:
  assumes "lock_step x y" and "lock_inv x"
  shows "lock_inv y"
  using assms
proof (induction rule: lock_step.induct)
  case (1 g ps a as s)
  have order: "in_lock_order (a # as)" using 1(1,2,4) by (auto simp: lock_inv_def list_all_length)
  have "list_all in_lock_order (ps[g := as])"
    using 1(1,4) order by (auto simp: lock_inv_def list_all_length nth_list_update)
  moreover have "number (writes_lock m) (ps[g := as]) = (if lk_writer (do_lock a s) m then 1 else 0) \<and>
      number (reads_lock m) (ps[g := as]) = lk_readers (do_lock a s) m" for m
  proof -
    have "number (writes_lock m) ps = (if lk_writer s m then 1 else 0)" "number (reads_lock m) ps = lk_readers s m"
      using 1(4) by (simp_all add: lock_inv_def)
    with number_update [OF 1(1), of "writes_lock m" as] number_update [OF 1(1), of "reads_lock m" as] order 1(2,3)
    show ?thesis
      by (cases a) (auto simp: do_lock_def can_do_def holds_lock_def split: if_splits)
  qed
  ultimately show ?case by (simp add: lock_inv_def)
qed

text \<open>Nobody who holds \<open>historyMu\<close> waits, and nobody who waits for \<open>valueMu\<close> holds it, so somebody can go on.\<close>

lemma cannot_do:
  assumes "lock_inv (s, ps)" and "\<not> can_do a s"
  shows "\<exists>m. (a = Acquire m \<or> a = RLock m) \<and> (\<exists>p\<in>set ps. holds_lock m p)"
proof -
  have inv: "number (writes_lock m) ps = (if lk_writer s m then 1 else 0)" "number (reads_lock m) ps = lk_readers s m" for m
    using assms(1) by (simp_all add: lock_inv_def)
  obtain m where m: "a = Acquire m \<or> a = RLock m" "lk_writer s m \<or> lk_readers s m \<noteq> 0"
    using assms(2) by (cases a) (auto simp: can_do_def)
  then have "number (writes_lock m) ps \<noteq> 0 \<or> number (reads_lock m) ps \<noteq> 0" using inv [of m] by auto
  then have "\<exists>p\<in>set ps. holds_lock m p" by (auto simp: number_0 holds_lock_def)
  with m(1) show ?thesis by blast
qed

lemma holds_lock_Cons: "holds_lock m p \<Longrightarrow> \<exists>a as. p = a # as"
  by (cases p) (auto simp: holds_lock_def)

lemma in_order_waits:
  assumes "in_lock_order (a # as)" and "a = Acquire m \<or> a = RLock m"
  shows "\<not> holds_lock m (a # as) \<and> \<not> holds_lock historyMu (a # as)"
  using assms by (cases a) auto

lemma lock_progress:
  assumes inv: "lock_inv (s, ps)" and "p \<in> set ps" and "p \<noteq> []"
  shows "\<exists>y. lock_step (s, ps) y"
proof (rule ccontr)
  assume stuck: "\<nexists>y. lock_step (s, ps) y"
  have waits: "\<exists>m. (a = Acquire m \<or> a = RLock m) \<and> (\<exists>q\<in>set ps. holds_lock m q)" if mem: "a # as \<in> set ps" for a as
  proof (rule cannot_do [OF inv])
    obtain g where "g < length ps" "ps ! g = a # as" using mem by (auto simp: in_set_conv_nth)
    with stuck show "\<not> can_do a s" using lock_step.intros by blast
  qed
  have order: "in_lock_order q" if "q \<in> set ps" for q using that inv by (auto simp: lock_inv_def list_all_iff)
  have history: "\<not> holds_lock historyMu q" if q: "q \<in> set ps" for q
  proof
    assume "holds_lock historyMu q"
    moreover obtain a as where a: "q = a # as" using \<open>holds_lock historyMu q\<close> holds_lock_Cons by blast
    moreover obtain m where "a = Acquire m \<or> a = RLock m" using waits q a by blast
    ultimately show False using in_order_waits order [OF q] by blast
  qed
  have "\<exists>q\<in>set ps. holds_lock valueMu q" if "a # as \<in> set ps" for a as
    using waits [OF that] history by (metis var_lock.exhaust)
  moreover obtain a as where "p = a # as" using assms(3) by (cases p) auto
  ultimately obtain q where q: "q \<in> set ps" "holds_lock valueMu q" using assms(2) by blast
  obtain b bs where b: "q = b # bs" using q(2) holds_lock_Cons by blast
  obtain m where m: "b = Acquire m \<or> b = RLock m" "\<exists>r\<in>set ps. holds_lock m r" using waits q(1) b by blast
  then have "m = valueMu" using history by (metis var_lock.exhaust)
  with m(1) show False using in_order_waits order [OF q(1)] q(2) b by blast
qed

lemma lock_step_length: "lock_step x y \<Longrightarrow> length (concat (snd x)) = Suc (length (concat (snd y)))"
proof (induction rule: lock_step.induct)
  case (1 g ps a as s)
  have "length (concat (ps[g := as])) + length (ps ! g) = length (concat ps) + length as"
    using 1(1)
  proof (induction ps arbitrary: g)
    case (Cons q qs)
    then show ?case by (cases g) auto
  qed simp
  with 1(2) show ?case by simp
qed

lemma lock_steps_inv: "lock_step\<^sup>*\<^sup>* x y \<Longrightarrow> lock_inv x \<Longrightarrow> lock_inv y"
  by (induction rule: rtranclp_induct) (auto intro: lock_step_inv)

lemma calls_in_order:
  "p \<in> {Get_locks, Set_locks, MarkClean_locks, GetDelta_locks} \<Longrightarrow>
     in_lock_order p \<and> \<not> writes_lock m p \<and> \<not> reads_lock m p"
  by (cases m) (auto simp: Get_locks_def Set_locks_def MarkClean_locks_def GetDelta_locks_def holds_lock_def)

lemma first_steps: "can_do a s \<Longrightarrow> lock_step (s, [a # as, q]) (do_lock a s, [as, q])"
  using lock_step.intros [of 0 "[a # as, q]" a as s] by simp

lemma second_steps: "can_do a s \<Longrightarrow> lock_step (s, [q, a # as]) (do_lock a s, [q, as])"
  using lock_step.intros [of 1 "[q, a # as]" a as s] by simp

definition crossed_locks :: lock_state where
  "crossed_locks = \<lparr>lk_writer = (\<lambda>m. True), lk_readers = (\<lambda>m. 0)\<rparr>"

lemma reach_crossed:
  "lock_step\<^sup>*\<^sup>* (free_locks, [Set_locks, ApplyDelta_locks]) (crossed_locks, [drop 3 Set_locks, drop 1 ApplyDelta_locks])"
proof -
  let ?s = "\<lambda>w k. \<lparr>lk_writer = w, lk_readers = (\<lambda>m. 0)(valueMu := k)\<rparr>"
  have "lock_step (free_locks, [Set_locks, ApplyDelta_locks]) (?s (\<lambda>m. False) 1, [drop 1 Set_locks, ApplyDelta_locks])"
    using first_steps [of "RLock valueMu" free_locks "drop 1 Set_locks" ApplyDelta_locks]
    by (simp add: Set_locks_def can_do_def do_lock_def free_locks_def)
  moreover have "lock_step (?s (\<lambda>m. False) 1, [drop 1 Set_locks, ApplyDelta_locks]) (free_locks, [drop 2 Set_locks, ApplyDelta_locks])"
    using first_steps [of "RUnlock valueMu" "?s (\<lambda>m. False) 1" "drop 2 Set_locks" ApplyDelta_locks]
    by (simp add: Set_locks_def can_do_def do_lock_def free_locks_def fun_upd_idem)
  moreover have "lock_step (free_locks, [drop 2 Set_locks, ApplyDelta_locks])
      (?s ((\<lambda>m. False)(valueMu := True)) 0, [drop 3 Set_locks, ApplyDelta_locks])"
    using first_steps [of "Acquire valueMu" free_locks "drop 3 Set_locks" ApplyDelta_locks]
    by (simp add: Set_locks_def can_do_def do_lock_def free_locks_def fun_upd_idem)
  moreover have "crossed_locks = ?s ((\<lambda>m. False)(valueMu := True, historyMu := True)) 0"
    by (simp add: crossed_locks_def fun_eq_iff) (metis var_lock.exhaust)
  then have "lock_step (?s ((\<lambda>m. False)(valueMu := True)) 0, [drop 3 Set_locks, ApplyDelta_locks])
      (crossed_locks, [drop 3 Set_locks, drop 1 ApplyDelta_locks])"
    using second_steps [of "Acquire historyMu" "?s ((\<lambda>m. False)(valueMu := True)) 0" "drop 3 Set_locks" "drop 1 ApplyDelta_locks"]
    by (simp add: ApplyDelta_locks_def can_do_def do_lock_def)
  ultimately show ?thesis by (meson converse_rtranclp_into_rtranclp rtranclp.rtrancl_refl)
qed

lemma crossed_stuck: "\<not> lock_step (crossed_locks, [drop 3 Set_locks, drop 1 ApplyDelta_locks]) y"
proof
  assume "lock_step (crossed_locks, [drop 3 Set_locks, drop 1 ApplyDelta_locks]) y"
  then obtain g a as where g: "g < Suc (Suc 0)" "[drop 3 Set_locks, drop 1 ApplyDelta_locks] ! g = a # as" "can_do a crossed_locks"
    by (auto simp: lock_step_iff)
  then have "g = 0 \<or> g = 1" by auto
  with g(2) have "a = Acquire historyMu \<or> a = Acquire valueMu" by (auto simp: Set_locks_def ApplyDelta_locks_def)
  with g(3) show False by (auto simp: can_do_def crossed_locks_def)
qed

lemma calls_inv:
  assumes "set ps \<subseteq> {Get_locks, Set_locks, MarkClean_locks, GetDelta_locks}"
  shows "lock_inv (free_locks, ps)"
proof -
  have "in_lock_order p \<and> \<not> writes_lock m p \<and> \<not> reads_lock m p" if "p \<in> set ps" for p m
    using calls_in_order that assms by blast
  then show ?thesis by (auto simp: lock_inv_def list_all_iff number_0 free_locks_def)
qed

text \<open>
  C27. Deadlocks of a \<open>Mutex\<close> with a history. Goroutines that call \<open>Get\<close>, \<open>Set\<close>, \<open>MarkClean\<close>, \<open>GetDelta\<close> and methods that take the
  same locks always return: as long as one has not returned some goroutine can go on, and each takes finitely many
  steps. One \<open>Set\<close> and one \<open>ApplyDelta\<close>, which take the two locks in opposite orders, can end in a state in which both wait
  for good.
\<close>

theorem variable_deadlock:
  "(\<forall>ps s qs. set ps \<subseteq> {Get_locks, Set_locks, MarkClean_locks, GetDelta_locks} \<longrightarrow> lock_step\<^sup>*\<^sup>* (free_locks, ps) (s, qs) \<longrightarrow>
      (concat qs = [] \<or> (\<exists>y. lock_step (s, qs) y \<and> length (concat (snd y)) < length (concat qs)))) \<and>
   (\<exists>s p q. lock_step\<^sup>*\<^sup>* (free_locks, [Set_locks, ApplyDelta_locks]) (s, [p, q]) \<and> p \<noteq> [] \<and> q \<noteq> [] \<and> (\<forall>y. \<not> lock_step (s, [p, q]) y))"
proof (intro conjI allI impI)
  fix ps s qs
  assume "set ps \<subseteq> {Get_locks, Set_locks, MarkClean_locks, GetDelta_locks}" "lock_step\<^sup>*\<^sup>* (free_locks, ps) (s, qs)"
  then have inv: "lock_inv (s, qs)" using calls_inv lock_steps_inv by blast
  show "concat qs = [] \<or> (\<exists>y. lock_step (s, qs) y \<and> length (concat (snd y)) < length (concat qs))"
  proof (cases "concat qs = []")
    case False
    then obtain p where "p \<in> set qs" "p \<noteq> []" by auto
    then obtain y where "lock_step (s, qs) y" using lock_progress [OF inv] by blast
    with lock_step_length [OF this] have "lock_step (s, qs) y \<and> length (concat (snd y)) < length (concat qs)" by simp
    then show ?thesis by blast
  qed simp
next
  show "\<exists>s p q. lock_step\<^sup>*\<^sup>* (free_locks, [Set_locks, ApplyDelta_locks]) (s, [p, q]) \<and> p \<noteq> [] \<and> q \<noteq> [] \<and> (\<forall>y. \<not> lock_step (s, [p, q]) y)"
  proof (intro exI conjI allI)
    show "lock_step\<^sup>*\<^sup>* (free_locks, [Set_locks, ApplyDelta_locks]) (crossed_locks, [drop 3 Set_locks, drop 1 ApplyDelta_locks])"
      by (rule reach_crossed)
    show "drop 3 Set_locks \<noteq> []" "drop 1 ApplyDelta_locks \<noteq> []" by (simp_all add: Set_locks_def ApplyDelta_locks_def)
    show "\<not> lock_step (crossed_locks, [drop 3 Set_locks, drop 1 ApplyDelta_locks]) y" for y by (rule crossed_stuck)
  qed
qed

theorem variable_deadlock_witness:
  "\<exists>y. lock_step (free_locks, [MarkClean_locks, Get_locks]) y \<and> length (concat (snd y)) < 4"
proof -
  let ?ps = "[MarkClean_locks, Get_locks]"
  have "length (concat ?ps) = 4" by (simp add: MarkClean_locks_def Get_locks_def)
  moreover have "MarkClean_locks \<noteq> []" by (simp add: MarkClean_locks_def)
  moreover have "set ?ps \<subseteq> {Get_locks, Set_locks, MarkClean_locks, GetDelta_locks}" by simp
  ultimately show ?thesis
    using conjunct1 [OF variable_deadlock, rule_format, of ?ps free_locks ?ps] by simp
qed

section \<open>The first use of a typed variable\<close>

text \<open>
  A typed \<open>Mutex\<close> that was never set cannot be read: \<open>Get\<close> panics; and if it has a handler of changes the first \<open>Set\<close> starts a goroutine
  that panics as it converts the old value. \<open>AtomicTyped\<close> answers with an error and leaves the handler out. From the second
  value of the type on both do what their untyped variable does.
\<close>

theorem typed_first_use:
  assumes "va_value v = None" and "checkPermissions PermissionWrite (va_permissionMask v)" and "va_onChange v = Some h"
    and "v' = snd (MutexTyped_Set same t x v)" and "va_resolver v = None" and "va_onConflict v = None" and "\<not> same x y"
  shows "MutexTyped_Get t v = Panic NilDereference \<and> AtomicTyped_Get t zero v = (zero, Some ErrTypeMismatch) \<and>
    va_changes v' = va_changes v @ [(h, None, Some (t, x))] \<and>
    MutexTyped_notified t handler None (Some (t, x)) = Panic InconsistentType \<and>
    AtomicTyped_notified t handler None (Some (t, x)) = None \<and>
    MutexTyped_Get t v' = Ret (x, None) \<and> AtomicTyped_Get t zero v' = (x, None) \<and>
    va_changes (snd (MutexTyped_Set same t y v')) = va_changes v' @ [(h, Some (t, x), Some (t, y))] \<and>
    MutexTyped_notified t handler (Some (t, x)) (Some (t, y)) = Ret (handler x y) \<and>
    AtomicTyped_notified t handler (Some (t, x)) (Some (t, y)) = Some (handler x y)"
proof -
  have changes: "va_changes (record_change old new w) = va_changes w @ [(h, old, new)]" "va_onChange (record_change old new w) = Some h"
    if "va_onChange w = Some h" for old new w using that by (simp_all add: record_change_def Let_def)
  have v': "v' = record_change None (Some (t, x)) (v\<lparr>va_value := Some (t, x)\<rparr>)"
    using assms(1,2,4) by (simp add: MutexTyped_Set_def Mutex_Set_def value_to_write_def fastEqual_def)
  have "va_changes v' = va_changes v @ [(h, None, Some (t, x))]" "va_onChange v' = Some h" "va_value v' = Some (t, x)"
    using assms(3) by (simp_all add: v' changes)
  moreover have "snd (MutexTyped_Set same t y v') = record_change (Some (t, x)) (Some (t, y)) (v'\<lparr>va_value := Some (t, y)\<rparr>)"
    using assms(2,7) v' by (simp add: MutexTyped_Set_def Mutex_Set_def value_to_write_def fastEqual_def)
  ultimately show ?thesis
    using assms(1) by (simp add: MutexTyped_Get_def AtomicTyped_Get_def MutexTyped_notified_def AtomicTyped_notified_def changes)
qed

theorem typed_first_use_witness:
  "MutexTyped_Get ''int'' (OnChange 3 (NewMutexVariable (sample_config :: nat VariableConfig))) = Panic NilDereference"
proof -
  let ?v = "OnChange 3 (NewMutexVariable (sample_config :: nat VariableConfig))"
  have "va_value ?v = None" "checkPermissions PermissionWrite (va_permissionMask ?v)" "va_onChange ?v = Some 3"
    "va_resolver ?v = None" "va_onConflict ?v = None"
    by (simp_all add: OnChange_def NewMutexVariable_def sample_config_def checkPermissions_def PermissionWrite_def)
  note first_use = typed_first_use [OF this(1-3) refl this(4,5), of "(=)" 1 2 "''int''"]
  show ?thesis by (rule conjunct1 [OF first_use]) simp
qed

end
