(* ===== verification/Sync_Sharded.thy ===== *)
theory Sync_Sharded
  imports Zeus_Prelude
begin

unbundle bit_operations_syntax

text \<open>
  The sharded and the complex variable of the first version (\<open>internal/core/sync/vars/sharded.go\<close> and \<open>complex.go\<close>), with the rounding
  of the number of shards and the hash of a key at their width. The calls of the collector of metrics leave the variable alone.
\<close>

section \<open>Hashes and sizes\<close>

definition or_shift :: "nat \<Rightarrow> int64 \<Rightarrow> int64" where
  "or_shift k n = n OR signed_drop_bit k n"

definition nextPowerOf2 :: "int64 \<Rightarrow> int64" where
  "nextPowerOf2 n = or_shift 16 (or_shift 8 (or_shift 4 (or_shift 2 (or_shift 1 (n - 1))))) + 1"

definition fnvHash :: "bytes \<Rightarrow> uint64" where
  "fnvHash = foldl (\<lambda>hash b. (hash XOR ucast b) * 1099511628211) 14695981039346656037"

definition crc32Checksum :: "bytes \<Rightarrow> uint32" where
  "crc32Checksum = foldl (\<lambda>checksum b. push_bit 8 checksum XOR ucast b) 0"

section \<open>The sharded variable\<close>

record 'v var_shard =
  vs_value :: 'v
  vs_version :: uint64
  vs_dirty :: bool

record 'v Sharded =
  sd_shards :: "'v var_shard list"
  sd_shardMask :: uint64

definition NewShardedVariable :: "'v \<Rightarrow> int64 \<Rightarrow> 'v Sharded outcome" where
  "NewShardedVariable initialValue shardCount =
     (let shardCount = (if shardCount AND (shardCount - 1) \<noteq> 0 then nextPowerOf2 shardCount else shardCount)
      in if sint shardCount < 0 then Panic NegativeSize
         else Ret \<lparr>sd_shards = replicate (unat shardCount) \<lparr>vs_value = initialValue, vs_version = 1, vs_dirty = False\<rparr>,
                   sd_shardMask = shardCount - 1\<rparr>)"

definition getShard :: "bytes \<Rightarrow> 'v Sharded \<Rightarrow> nat" where
  "getShard key v = unat (fnvHash key AND sd_shardMask v)"

definition read_shard :: "nat \<Rightarrow> 'v Sharded \<Rightarrow> 'v outcome" where
  "read_shard i v = bind_outcome (slice_get (sd_shards v) i) (\<lambda>s. Ret (vs_value s))"

definition write_shard :: "nat \<Rightarrow> 'v \<Rightarrow> 'v Sharded \<Rightarrow> 'v Sharded outcome" where
  "write_shard i x v = bind_outcome (slice_get (sd_shards v) i) (\<lambda>s.
     Ret (v\<lparr>sd_shards := (sd_shards v)[i := s\<lparr>vs_value := x, vs_version := vs_version s + 1, vs_dirty := True\<rparr>]\<rparr>))"

definition Sharded_Get :: "'v Sharded \<Rightarrow> 'v outcome" where "Sharded_Get v = read_shard 0 v"
definition Sharded_Set :: "'v \<Rightarrow> 'v Sharded \<Rightarrow> 'v Sharded outcome" where "Sharded_Set x v = write_shard 0 x v"
definition GetWithKey :: "bytes \<Rightarrow> 'v Sharded \<Rightarrow> 'v outcome" where "GetWithKey key v = read_shard (getShard key v) v"
definition SetWithKey :: "bytes \<Rightarrow> 'v \<Rightarrow> 'v Sharded \<Rightarrow> 'v Sharded outcome" where "SetWithKey key x v = write_shard (getShard key v) x v"

definition Sharded_IsDirty :: "'v Sharded \<Rightarrow> bool outcome" where
  "Sharded_IsDirty v = bind_outcome (slice_get (sd_shards v) 0) (\<lambda>s. Ret (vs_dirty s))"

definition Sharded_MarkClean :: "'v Sharded \<Rightarrow> 'v Sharded outcome" where
  "Sharded_MarkClean v = bind_outcome (slice_get (sd_shards v) 0) (\<lambda>s. Ret (v\<lparr>sd_shards := (sd_shards v)[0 := s\<lparr>vs_dirty := False\<rparr>]\<rparr>))"

definition Sharded_GetVersion :: "'v Sharded \<Rightarrow> uint64 outcome" where
  "Sharded_GetVersion v = bind_outcome (slice_get (sd_shards v) 0) (\<lambda>s. Ret (vs_version s))"

section \<open>The complex variable\<close>

record 'v Complex =
  cx_value :: 'v
  cx_version :: uint64
  cx_dirty :: bool

definition NewComplexVariable :: "'v \<Rightarrow> 'v Complex" where
  "NewComplexVariable initialValue = \<lparr>cx_value = initialValue, cx_version = 1, cx_dirty = False\<rparr>"

definition Complex_Get :: "'v Complex \<Rightarrow> 'v" where "Complex_Get v = cx_value v"

definition Complex_Set :: "'v \<Rightarrow> 'v Complex \<Rightarrow> 'v Complex" where
  "Complex_Set x v = v\<lparr>cx_value := x, cx_version := cx_version v + 1, cx_dirty := True\<rparr>"

definition Complex_MarkClean :: "'v Complex \<Rightarrow> 'v Complex" where
  "Complex_MarkClean v = v\<lparr>cx_dirty := False\<rparr>"

section \<open>Rounding up to a power of two\<close>

text \<open>After shifts by 1, 2, 4, ... every bit up to the highest one is set: bit \<open>i\<close> tells whether one of the bits from \<open>i\<close> on is set.\<close>

definition smeared :: "nat \<Rightarrow> int64 \<Rightarrow> int64 \<Rightarrow> bool" where
  "smeared d w m \<longleftrightarrow> (\<forall>i. bit w i \<longleftrightarrow> (\<exists>e<d. bit m (i + e)))"

definition low :: "int64 \<Rightarrow> bool" where
  "low m \<longleftrightarrow> (\<forall>i\<ge>32. \<not> bit m i)"

lemma low_le: "low m \<longleftrightarrow> unat m < 2 ^ 32"
proof
  assume "low m"
  then have "take_bit 32 m = m" by (intro bit_word_eqI) (auto simp: low_def bit_take_bit_iff not_less, meson not_less)
  then have "unat m = unat (take_bit 32 m)" by simp
  also have "\<dots> = take_bit 32 (unat m)" by (simp add: unsigned_take_bit_eq)
  also have "\<dots> < 2 ^ 32" by (rule take_bit_nat_less_exp)
  finally show "unat m < 2 ^ 32" .
next
  assume "unat m < 2 ^ 32"
  then have "unat (take_bit 32 m) = unat m" by (simp add: unsigned_take_bit_eq take_bit_nat_eq_self)
  then have "take_bit 32 m = m" by (rule unsigned_word_eqI)
  then show "low m" unfolding low_def by (metis bit_take_bit_iff not_less)
qed

lemma smeared_low: "smeared d w m \<Longrightarrow> low m \<Longrightarrow> low w"
  by (auto simp: smeared_def low_def)

lemma smeared_step:
  assumes "smeared d w m" and "low m"
  shows "smeared (2 * d) (or_shift d w) m"
  unfolding smeared_def
proof
  fix i
  have low: "\<not> bit w k" if "k \<ge> 32" for k using smeared_low [OF assms] that by (simp add: low_def)
  have "bit (signed_drop_bit d w) i \<longleftrightarrow> bit w (d + i)"
    using low [of 63] low [of "d + i"] by (auto simp: bit_signed_drop_bit_iff dest: bit_imp_le_length)
  then have "bit (or_shift d w) i \<longleftrightarrow> (\<exists>e<d. bit m (i + e)) \<or> (\<exists>e<d. bit m (d + i + e))"
    using assms(1) by (simp add: or_shift_def bit_or_iff smeared_def)
  also have "\<dots> \<longleftrightarrow> (\<exists>e<2 * d. bit m (i + e))"
  proof
    assume "\<exists>e<2 * d. bit m (i + e)"
    then obtain e where "e < 2 * d" "bit m (i + e)" by blast
    then show "(\<exists>e<d. bit m (i + e)) \<or> (\<exists>e<d. bit m (d + i + e))"
    proof (cases "e < d")
      case False
      with \<open>e < 2 * d\<close> \<open>bit m (i + e)\<close> have "e - d < d" "bit m (d + i + (e - d))" by (simp_all add: ac_simps)
      then show ?thesis by blast
    qed (use \<open>bit m (i + e)\<close> in blast)
  next
    assume "(\<exists>e<d. bit m (i + e)) \<or> (\<exists>e<d. bit m (d + i + e))"
    then obtain e where e: "e < d" "bit m (i + e) \<or> bit m (i + (d + e))" by (auto simp: ac_simps)
    then have "e < 2 * d" "d + e < 2 * d" by simp_all
    with e(2) show "\<exists>e<2 * d. bit m (i + e)" by blast
  qed
  finally show "bit (or_shift d w) i \<longleftrightarrow> (\<exists>e<2 * d. bit m (i + e))" .
qed

lemma smeared_bit:
  assumes "smeared 32 w m" and "low m"
  shows "bit w i \<longleftrightarrow> 2 ^ i \<le> unat m"
proof -
  have short: "\<exists>k<64. bit m (i + k)" if "bit m (i + e)" for e
    using that bit_imp_le_length [OF that] by (intro exI [of _ e]) simp
  have "bit w i \<longleftrightarrow> (\<exists>e. bit m (i + e))"
    using assms by (metis low_def not_le smeared_def trans_le_add2)
  also have "\<dots> \<longleftrightarrow> drop_bit i m \<noteq> 0"
    using short by (auto simp: bit_eq_iff bit_drop_bit_eq)
  also have "\<dots> \<longleftrightarrow> unat (drop_bit i m) \<noteq> 0" by (simp add: unat_gt_0)
  also have "\<dots> \<longleftrightarrow> unat m div 2 ^ i \<noteq> 0"
    unfolding unsigned_drop_bit_eq using unsigned_less [of m, where ?'a = nat] by (simp add: drop_bit_nat_def take_bit_nat_eq_self)
  also have "\<dots> \<longleftrightarrow> 2 ^ i \<le> unat m" by (simp add: div_eq_0_iff not_less)
  finally show ?thesis .
qed

lemma nextPowerOf2_bits:
  assumes "low (n - 1)"
  shows "bit (nextPowerOf2 n - 1) i \<longleftrightarrow> 2 ^ i \<le> unat (n - 1)"
proof -
  have "smeared 1 (n - 1) (n - 1)" by (simp add: smeared_def)
  then have "smeared 2 (or_shift 1 (n - 1)) (n - 1)" using smeared_step [OF _ assms, of 1] by simp
  then have "smeared 4 (or_shift 2 (or_shift 1 (n - 1))) (n - 1)" using smeared_step [OF _ assms, of 2] by simp
  then have "smeared 8 (or_shift 4 (or_shift 2 (or_shift 1 (n - 1)))) (n - 1)" using smeared_step [OF _ assms, of 4] by simp
  then have "smeared 16 (or_shift 8 (or_shift 4 (or_shift 2 (or_shift 1 (n - 1))))) (n - 1)" using smeared_step [OF _ assms, of 8] by simp
  then have "smeared 32 (or_shift 16 (or_shift 8 (or_shift 4 (or_shift 2 (or_shift 1 (n - 1)))))) (n - 1)" using smeared_step [OF _ assms, of 16] by simp
  then show ?thesis using smeared_bit [OF _ assms] by (simp add: nextPowerOf2_def)
qed

lemma least_power: "\<exists>j. k \<le> 2 ^ j \<and> (\<forall>i. i < j \<longleftrightarrow> 2 ^ i < (k::nat))"
proof -
  define j where "j = (LEAST j. k \<le> 2 ^ j)"
  have "\<exists>j. k \<le> 2 ^ j" by (metis less_exp less_imp_le)
  then have j: "k \<le> 2 ^ j" unfolding j_def by (rule LeastI_ex)
  have "2 ^ i < k" if "i < j" for i using not_less_Least [of i "\<lambda>j. k \<le> 2 ^ j"] that by (auto simp: j_def not_le)
  moreover have "i < j" if "2 ^ i < k" for i
  proof (rule ccontr)
    assume "\<not> i < j"
    then have "(2::nat) ^ j \<le> 2 ^ i" by simp
    with that j show False by simp
  qed
  ultimately show ?thesis using j by blast
qed

text \<open>For 1 to \<open>2 ^ 32\<close> shards the rounded number is the least power of two that is large enough.\<close>

lemma nextPowerOf2_least:
  assumes "0 < k" and "k \<le> 2 ^ 32"
  shows "\<exists>j\<le>32. nextPowerOf2 (of_nat k) = 2 ^ j \<and> k \<le> 2 ^ j \<and> (\<forall>i<j. 2 ^ i < k)"
proof -
  obtain k' where k': "k = Suc k'" using assms(1) by (cases k) auto
  then have "unat (of_nat k' :: int64) = k'" using assms(2) by (simp add: unat_of_nat take_bit_nat_eq_self)
  then have m: "unat (of_nat k - 1 :: int64) = k - 1" by (simp add: k')
  then have "low (of_nat k - 1)" using assms by (simp add: low_le)
  then have bits: "bit (nextPowerOf2 (of_nat k) - 1) i \<longleftrightarrow> 2 ^ i < k" for i
    using nextPowerOf2_bits [of "of_nat k" i] m assms(1) by auto
  obtain j where j: "k \<le> 2 ^ j" "\<And>i. i < j \<longleftrightarrow> 2 ^ i < k" using least_power [of k] by blast
  have "j \<le> 32" using j(2) [of 32] assms(2) by (simp add: not_less)
  then have "nextPowerOf2 (of_nat k) - 1 = mask j"
    by (intro bit_word_eqI) (simp add: bits bit_mask_iff j(2))
  then have "nextPowerOf2 (of_nat k) = 2 ^ j" by (simp add: mask_eq_exp_minus_1)
  with j \<open>j \<le> 32\<close> show ?thesis by blast
qed

definition rounded :: "int64 \<Rightarrow> int64" where
  "rounded n = (if n AND (n - 1) \<noteq> 0 then nextPowerOf2 n else n)"

lemma high_bit:
  assumes "2 ^ i \<le> n" and "n < 2 ^ Suc i" and "n < 2 ^ 63"
  shows "bit (of_nat n :: int64) i"
proof -
  have "n div 2 ^ i = 1" using assms(1,2) by (intro div_nat_eqI) simp_all
  then have "bit n i" by (simp add: bit_iff_odd)
  moreover have "i < 64"
  proof (rule ccontr)
    assume "\<not> i < 64"
    then have "(2::nat) ^ 63 \<le> 2 ^ i" by (intro power_increasing) simp_all
    with assms(1,3) show False by simp
  qed
  ultimately show ?thesis by (simp add: bit_of_nat_iff)
qed

lemma rounded_least:
  assumes "0 < k" and "k \<le> 2 ^ 32"
  shows "\<exists>j\<le>32. rounded (of_nat k) = 2 ^ j \<and> k \<le> 2 ^ j \<and> (\<forall>i<j. 2 ^ i < k)"
proof (cases "of_nat k AND (of_nat k - 1 :: int64) \<noteq> 0")
  case True
  then show ?thesis using nextPowerOf2_least [OF assms] by (simp add: rounded_def)
next
  case False
  obtain j where j: "j \<le> 32" "k \<le> 2 ^ j" "\<forall>i<j. 2 ^ i < k" using nextPowerOf2_least [OF assms] by blast
  have "k = 2 ^ j"
  proof (rule ccontr)
    assume "k \<noteq> 2 ^ j"
    then have less: "k < 2 ^ j" using j(2) by simp
    then obtain i where i: "j = Suc i" using assms(1) by (cases j) auto
    then have "2 ^ i < k" using j(3) by simp
    obtain k' where k': "k = Suc k'" using assms(1) by (cases k) auto
    have "bit (of_nat k :: int64) i" by (rule high_bit) (use \<open>2 ^ i < k\<close> less i assms(2) in simp_all)
    moreover have "bit (of_nat k' :: int64) i" by (rule high_bit) (use \<open>2 ^ i < k\<close> less i k' assms(2) in simp_all)
    ultimately have "bit (of_nat k AND (of_nat k - 1) :: int64) i" by (simp add: bit_and_iff k')
    with False show False by simp
  qed
  then show ?thesis using False j by (auto simp: rounded_def)
qed

definition sharded_wf :: "'v Sharded \<Rightarrow> bool" where
  "sharded_wf v \<longleftrightarrow> (\<exists>j\<le>32. length (sd_shards v) = 2 ^ j \<and> sd_shardMask v = mask j)"

lemma getShard_less: "sharded_wf v \<Longrightarrow> getShard key v < length (sd_shards v)"
proof -
  assume "sharded_wf v"
  then obtain j where j: "length (sd_shards v) = 2 ^ j" "sd_shardMask v = mask j" by (auto simp: sharded_wf_def)
  have "unat (fnvHash key AND mask j) = take_bit j (unat (fnvHash key))"
    by (simp add: unsigned_take_bit_eq flip: take_bit_eq_mask)
  then show ?thesis using j by (simp add: getShard_def take_bit_nat_less_exp)
qed

text \<open>Writes by key, or by \<open>Set\<close> without a key; the values a shard was given, last one first.\<close>

fun sharded_run :: "(bytes option \<times> 'v) list \<Rightarrow> 'v Sharded \<Rightarrow> 'v Sharded outcome" where
  "sharded_run [] v = Ret v"
| "sharded_run ((None, x) # ws) v = bind_outcome (Sharded_Set x v) (sharded_run ws)"
| "sharded_run ((Some key, x) # ws) v = bind_outcome (SetWithKey key x v) (sharded_run ws)"

definition write_place :: "'v Sharded \<Rightarrow> bytes option \<times> 'v \<Rightarrow> nat" where
  "write_place v w = (case fst w of None \<Rightarrow> 0 | Some key \<Rightarrow> getShard key v)"

definition placed :: "'v Sharded \<Rightarrow> nat \<Rightarrow> (bytes option \<times> 'v) list \<Rightarrow> 'v list" where
  "placed v i ws = map snd (filter (\<lambda>w. write_place v w = i) ws)"

lemma write_shard_in:
  "i < length (sd_shards v) \<Longrightarrow> write_shard i x v =
     Ret (v\<lparr>sd_shards := (sd_shards v)[i := (sd_shards v ! i)\<lparr>vs_value := x, vs_version := vs_version (sd_shards v ! i) + 1, vs_dirty := True\<rparr>]\<rparr>)"
  by (simp add: write_shard_def)

lemma sharded_run_places:
  assumes "sharded_wf v"
  shows "\<exists>v'. sharded_run ws v = Ret v' \<and> sharded_wf v' \<and> sd_shardMask v' = sd_shardMask v \<and> length (sd_shards v') = length (sd_shards v) \<and>
    (\<forall>i<length (sd_shards v). vs_value (sd_shards v' ! i) = last (vs_value (sd_shards v ! i) # placed v i ws) \<and>
       vs_version (sd_shards v' ! i) = vs_version (sd_shards v ! i) + of_nat (length (placed v i ws)))"
  using assms
proof (induction ws arbitrary: v)
  case Nil
  then show ?case by (simp add: placed_def)
next
  case (Cons w ws)
  let ?p = "write_place v w"
  let ?v = "v\<lparr>sd_shards := (sd_shards v)[?p := (sd_shards v ! ?p)\<lparr>vs_value := snd w, vs_version := vs_version (sd_shards v ! ?p) + 1, vs_dirty := True\<rparr>]\<rparr>"
  have "length (sd_shards v) \<noteq> 0" using Cons.prems by (auto simp: sharded_wf_def)
  then have p: "?p < length (sd_shards v)"
    using getShard_less [OF Cons.prems] by (auto simp: write_place_def split: option.split)
  then have run: "sharded_run (w # ws) v = sharded_run ws ?v"
    by (cases w rule: prod.exhaust; cases "fst w") (simp_all add: Sharded_Set_def SetWithKey_def write_shard_in write_place_def)
  have "sharded_wf ?v" using Cons.prems by (simp add: sharded_wf_def)
  then obtain v' where v': "sharded_run ws ?v = Ret v'" "sharded_wf v'" "sd_shardMask v' = sd_shardMask v" "length (sd_shards v') = length (sd_shards v)"
      "\<And>i. i < length (sd_shards v) \<Longrightarrow> vs_value (sd_shards v' ! i) = last (vs_value (sd_shards ?v ! i) # placed ?v i ws) \<and>
         vs_version (sd_shards v' ! i) = vs_version (sd_shards ?v ! i) + of_nat (length (placed ?v i ws))"
    using Cons.IH [of ?v] by auto
  have same: "placed ?v i ws = placed v i ws" for i
  proof -
    have "write_place ?v u = write_place v u" for u by (simp add: write_place_def getShard_def split: option.split)
    then show ?thesis by (simp add: placed_def)
  qed
  have "vs_value (sd_shards v' ! i) = last (vs_value (sd_shards v ! i) # placed v i (w # ws)) \<and>
      vs_version (sd_shards v' ! i) = vs_version (sd_shards v ! i) + of_nat (length (placed v i (w # ws)))" if "i < length (sd_shards v)" for i
    using v'(5) [OF that] p by (cases "i = ?p") (simp_all add: same, simp_all add: placed_def)
  with run v' show ?case by auto
qed

text \<open>Every access to the values panics: reading and writing with and without a key, the dirty flag and the version.\<close>

definition no_access :: "bytes \<Rightarrow> 'v \<Rightarrow> 'v Sharded \<Rightarrow> bool" where
  "no_access key x v \<longleftrightarrow> Sharded_Get v = Panic IndexOutOfRange \<and> Sharded_Set x v = Panic IndexOutOfRange \<and>
     GetWithKey key v = Panic IndexOutOfRange \<and> SetWithKey key x v = Panic IndexOutOfRange \<and>
     Sharded_IsDirty v = Panic IndexOutOfRange \<and> Sharded_MarkClean v = Panic IndexOutOfRange \<and>
     Sharded_GetVersion v = Panic IndexOutOfRange"

text \<open>
  C28. A sharded variable. For 1 to \<open>2 ^ 32\<close> shards asked for, the constructor makes the least power of two that is large enough, and after
  any writes every key reads the last value written to its shard; \<open>Get\<close> and the version are those of shard 0, which count the writes
  without a key and of the keys that fall there. For zero shards asked for the variable has none, and \<open>Get\<close>, \<open>Set\<close>,
  \<open>GetWithKey\<close>, \<open>SetWithKey\<close>, \<open>IsDirty\<close>, \<open>MarkClean\<close> and \<open>GetVersion\<close> all panic.
\<close>

theorem sharded_variable:
  assumes "0 < k" and "k \<le> 2 ^ 32"
  shows "\<exists>v0 v j. NewShardedVariable x (of_nat k) = Ret v0 \<and> length (sd_shards v0) = 2 ^ j \<and> k \<le> 2 ^ j \<and> (\<forall>i<j. 2 ^ i < k) \<and>
    sharded_run ws v0 = Ret v \<and>
    GetWithKey key v = Ret (last (x # placed v0 (getShard key v0) ws)) \<and> Sharded_Get v = Ret (last (x # placed v0 0 ws)) \<and>
    Sharded_GetVersion v = Ret (1 + of_nat (length (placed v0 0 ws))) \<and>
    (\<exists>v1. NewShardedVariable x 0 = Ret v1 \<and> no_access key x v1)"
proof -
  obtain j where j: "j \<le> 32" "rounded (of_nat k) = 2 ^ j" "k \<le> 2 ^ j" "\<forall>i<j. 2 ^ i < k"
    using rounded_least [OF assms] by blast
  let ?v0 = "\<lparr>sd_shards = replicate (2 ^ j) \<lparr>vs_value = x, vs_version = 1, vs_dirty = False\<rparr>, sd_shardMask = mask j\<rparr>"
  have small: "(2::nat) ^ j \<le> 2 ^ 32" using j(1) by (intro power_increasing) simp_all
  have "unat (of_nat (2 ^ j) :: int64) = 2 ^ j"
    unfolding unat_of_nat using small by (intro mod_less) simp
  then have unat: "unat (2 ^ j :: int64) = 2 ^ j" by simp
  have "(2::int) ^ j \<le> 2 ^ 32" using j(1) by (intro power_increasing) simp_all
  then have "sint (word_of_int (2 ^ j) :: int64) = 2 ^ j"
    by (subst sint_sbintrunc') (intro signed_take_bit_int_eq_self; simp add: order.trans [of _ 0])
  then have "\<not> sint (2 ^ j :: int64) < 0" by simp
  then have new: "NewShardedVariable x (of_nat k) = Ret ?v0"
    using j(2) unat by (simp add: NewShardedVariable_def Let_def mask_eq_exp_minus_1 rounded_def)
  have "sharded_wf ?v0" using j(1) by (auto simp: sharded_wf_def)
  then obtain v where v: "sharded_run ws ?v0 = Ret v" "sharded_wf v" "sd_shardMask v = mask j" "length (sd_shards v) = 2 ^ j"
      "\<And>i. i < 2 ^ j \<Longrightarrow> vs_value (sd_shards v ! i) = last (x # placed ?v0 i ws) \<and>
         vs_version (sd_shards v ! i) = 1 + of_nat (length (placed ?v0 i ws))"
    using sharded_run_places [of ?v0 ws] by auto
  have key: "getShard key v = getShard key ?v0" using v(3) by (simp add: getShard_def)
  have "getShard key v < 2 ^ j" using getShard_less [OF v(2), of key] v(4) by simp
  then have "GetWithKey key v = Ret (last (x # placed ?v0 (getShard key ?v0) ws))" "Sharded_Get v = Ret (last (x # placed ?v0 0 ws))"
    "Sharded_GetVersion v = Ret (1 + of_nat (length (placed ?v0 0 ws)))"
    using v(4,5) key by (simp_all add: GetWithKey_def Sharded_Get_def read_shard_def Sharded_GetVersion_def)
  moreover have "\<exists>v1. NewShardedVariable x 0 = Ret v1 \<and> no_access key x v1"
    by (simp add: NewShardedVariable_def no_access_def GetWithKey_def SetWithKey_def Sharded_Get_def Sharded_Set_def
        Sharded_IsDirty_def Sharded_MarkClean_def Sharded_GetVersion_def read_shard_def write_shard_def)
  ultimately show ?thesis
    using new j(3,4) v(1) by - (rule exI [of _ ?v0], rule exI [of _ v], rule exI [of _ j], simp)
qed

theorem sharded_variable_witness:
  "\<exists>v0 v. NewShardedVariable (7 :: nat) 3 = Ret v0 \<and> length (sd_shards v0) = 4 \<and> sharded_run [(None, 8), (None, 9)] v0 = Ret v \<and> Sharded_Get v = Ret 9"
proof -
  obtain v0 v j where v: "NewShardedVariable (7 :: nat) 3 = Ret v0" "length (sd_shards v0) = 2 ^ j" "3 \<le> (2::nat) ^ j" "\<forall>i<j. (2::nat) ^ i < 3"
      "sharded_run [(None, 8), (None, 9)] v0 = Ret v" "Sharded_Get v = Ret (last (7 # placed v0 0 [(None, 8), (None, 9)]))"
    using sharded_variable [of 3 7 "[(None, 8), (None, 9)]" "[]"] by auto
  have "j = 2"
  proof (rule linorder_cases [of j 2])
    assume "2 < j"
    then show ?thesis using v(4) by auto
  next
    assume "j < 2"
    then have "j = 0 \<or> j = 1" by auto
    then show ?thesis using v(3) by auto
  qed
  with v show ?thesis by (auto simp: placed_def write_place_def)
qed

end
