(* ===== verification/Sync_Analysis.thy ===== *)
theory Sync_Analysis
  imports Sync_Manager Go_Channel
begin

text \<open>
  The rest of the analyzer, factory and migrator of the first version: analyses and suggestions, the monitor of a variable
  (\<open>internal/core/sync/analyzer/analyzer.go\<close>), recommended and registered strategies (\<open>factory/factory.go\<close>), plans
  (\<open>migrator/migrator.go\<close>). The texts of the reasons are left out.
\<close>

section \<open>Analyses\<close>

record AnalysisResult =
  an_Strategy :: StorageStrategy
  an_Confidence :: nat
  an_Metrics :: VariableMetrics_v1
  an_Recommendations :: "(string \<times> nat \<times> StorageStrategy) list"
  an_Timestamp :: int

definition AnalyzeVariable :: "int \<Rightarrow> 'v managed \<Rightarrow> AnalysisResult" where
  "AnalyzeVariable now m =
     (let metrics = wrapper_GetMetrics m; pattern = DetectAccessPattern metrics; optimal = PredictOptimalStrategy metrics
      in \<lparr>an_Strategy = optimal, an_Confidence = calculateConfidence metrics pattern, an_Metrics = metrics,
          an_Recommendations = generateRecommendations m metrics optimal, an_Timestamp = now\<rparr>)"

definition zero_result :: AnalysisResult where
  "zero_result = \<lparr>an_Strategy = StrategyBasic, an_Confidence = 0, an_Metrics = no_metrics, an_Recommendations = [], an_Timestamp = 0\<rparr>"

definition GetOptimizationSuggestions :: "'v managed \<Rightarrow> (string \<times> nat \<times> StorageStrategy) list" where
  "GetOptimizationSuggestions m =
     (let metrics = wrapper_GetMetrics m in generateRecommendations m metrics (PredictOptimalStrategy metrics))"

definition isMigrationBeneficial :: "AnalysisResult \<Rightarrow> bool" where
  "isMigrationBeneficial r \<longleftrightarrow> an_Confidence r > 80 \<and> an_Recommendations r \<noteq> []"

text \<open>\<open>ShouldMigrate\<close> follows its analysis, if that is beneficial and no migration is too recent; a suggestion to migrate leads the list then.\<close>

theorem ShouldMigrate_analysis:
  "ShouldMigrate now m = (True, s) \<longleftrightarrow>
     s = an_Strategy (AnalyzeVariable now m) \<and> s \<noteq> va_strategy (mv_var m) \<and> isMigrationBeneficial (AnalyzeVariable now m) \<and>
     \<not> isInMigrationCooldown now (wrapper_GetMetrics m) \<and> hd (GetOptimizationSuggestions m) = (''migrate'', 8, s)"
  by (auto simp: ShouldMigrate_def AnalyzeVariable_def isMigrationBeneficial_def GetOptimizationSuggestions_def generateRecommendations_def Let_def)

section \<open>The monitor\<close>

text \<open>
  A monitor has a channel of one result. Its goroutine waits for the ticker or the end of the context; on a tick it sends a result and may wait
  there, where it does not look at the context.
\<close>

record monitor =
  mo_results :: "AnalysisResult gochan"
  mo_cancelled :: bool
  mo_ended :: bool

definition MonitorVariable :: monitor where
  "MonitorVariable = \<lparr>mo_results = \<lparr>gc_buf = [], gc_cap = 1, gc_closed = False, gc_recvq = [], gc_sendq = []\<rparr>,
     mo_cancelled = False, mo_ended = False\<rparr>"

definition monitor_sends :: "monitor \<Rightarrow> bool" where
  "monitor_sends M \<longleftrightarrow> gc_sendq (mo_results M) \<noteq> []"

definition monitor_tick_result :: "AnalysisResult \<Rightarrow> monitor \<Rightarrow> monitor outcome" where
  "monitor_tick_result r M =
     (if mo_ended M \<or> monitor_sends M then Ret M
      else bind_outcome (chan_offer r (mo_results M)) (\<lambda>x. case x of
          Some (ws, ch) \<Rightarrow> Ret (M\<lparr>mo_results := ch\<rparr>)
        | None \<Rightarrow> Ret (M\<lparr>mo_results := park_sender 0 r (mo_results M)\<rparr>)))"

definition monitor_done :: "monitor \<Rightarrow> monitor outcome" where
  "monitor_done M =
     (if mo_cancelled M \<and> \<not> mo_ended M \<and> \<not> monitor_sends M
      then bind_outcome (chan_close zero_result (mo_results M)) (\<lambda>(ws, ch). Ret (M\<lparr>mo_results := ch, mo_ended := True\<rparr>))
      else Ret M)"

definition monitor_cancel :: "monitor \<Rightarrow> monitor" where
  "monitor_cancel M = M\<lparr>mo_cancelled := True\<rparr>"

definition monitor_receive :: "monitor \<Rightarrow> AnalysisResult option \<times> monitor" where
  "monitor_receive M = (case chan_poll zero_result (mo_results M) of
       Some ((r, ok), ws, ch) \<Rightarrow> (if ok then Some r else None, M\<lparr>mo_results := ch\<rparr>)
     | None \<Rightarrow> (None, M))"

datatype monitor_op = MonTick AnalysisResult | MonDone | MonCancel

fun monitor_run :: "monitor_op list \<Rightarrow> monitor \<Rightarrow> monitor outcome" where
  "monitor_run [] M = Ret M"
| "monitor_run (MonTick r # ops) M = bind_outcome (monitor_tick_result r M) (monitor_run ops)"
| "monitor_run (MonDone # ops) M = bind_outcome (monitor_done M) (monitor_run ops)"
| "monitor_run (MonCancel # ops) M = monitor_run ops (monitor_cancel M)"

lemma sending_stays:
  "monitor_sends M \<Longrightarrow> \<not> mo_ended M \<Longrightarrow> \<exists>M'. monitor_run ops M = Ret M' \<and> mo_results M' = mo_results M \<and> \<not> mo_ended M'"
proof (induction ops arbitrary: M)
  case (Cons op ops)
  from Cons.IH [of "monitor_cancel M"] Cons.prems
  have "\<exists>M'. monitor_run ops (monitor_cancel M) = Ret M' \<and> mo_results M' = mo_results M \<and> \<not> mo_ended M'"
    by (simp add: monitor_cancel_def monitor_sends_def)
  with Cons show ?case by (cases op) (simp_all add: monitor_tick_result_def monitor_done_def)
qed simp

text \<open>
  A monitor nobody reads does not end. After its second tick its goroutine waits to send, and it waits there whatever ticks come and even though its
  context is cancelled. Every result received frees it once: then it ends, after the reader has got the results in the order of the ticks.
\<close>

theorem monitor_leaks:
  shows "\<exists>M M'. monitor_run (MonTick r1 # MonTick r2 # ops @ [MonCancel]) MonitorVariable = Ret M \<and> \<not> mo_ended M \<and> monitor_sends M \<and>
    monitor_run [MonDone] M = Ret M \<and> fst (monitor_receive M) = Some r1 \<and>
    monitor_run [MonDone] (snd (monitor_receive M)) = Ret M' \<and> mo_ended M' \<and> fst (monitor_receive M') = Some r2 \<and>
    fst (monitor_receive (snd (monitor_receive M'))) = None"
proof -
  let ?ch = "\<lparr>gc_buf = [r1], gc_cap = 1, gc_closed = False, gc_recvq = [], gc_sendq = [(0, r2)]\<rparr>"
  let ?M = "\<lparr>mo_results = ?ch, mo_cancelled = False, mo_ended = False\<rparr>"
  have start: "monitor_run (MonTick r1 # MonTick r2 # ops @ [MonCancel]) MonitorVariable = monitor_run (ops @ [MonCancel]) ?M"
    by (simp add: MonitorVariable_def monitor_tick_result_def monitor_sends_def chan_offer_def park_sender_def)
  have append: "monitor_run (ops @ [MonCancel]) M = bind_outcome (monitor_run ops M) (\<lambda>M. Ret (monitor_cancel M))" for M
  proof (induction ops arbitrary: M)
    case (Cons op ops)
    show ?case
      by (cases op; cases "monitor_tick_result (case op of MonTick r \<Rightarrow> r | _ \<Rightarrow> undefined) M"; cases "monitor_done M") (simp_all add: Cons.IH)
  qed simp
  obtain M where M: "monitor_run ops ?M = Ret M" "mo_results M = ?ch" "\<not> mo_ended M"
    using sending_stays [of ?M ops] by (auto simp: monitor_sends_def)
  define C where "C = monitor_cancel M"
  have C: "mo_results C = ?ch" "\<not> mo_ended C" "mo_cancelled C" using M(2,3) by (simp_all add: C_def monitor_cancel_def)
  let ?R = "C\<lparr>mo_results := ?ch\<lparr>gc_buf := [r2], gc_sendq := []\<rparr>\<rparr>"
  have recv: "monitor_receive C = (Some r1, ?R)" by (simp add: monitor_receive_def C(1) chan_poll_def)
  let ?D = "?R\<lparr>mo_results := (mo_results ?R)\<lparr>gc_closed := True\<rparr>, mo_ended := True\<rparr>"
  have "monitor_run [MonDone] ?R = Ret ?D" using C(2,3) by (simp add: monitor_done_def monitor_sends_def chan_close_def)
  moreover have "monitor_run (MonTick r1 # MonTick r2 # ops @ [MonCancel]) MonitorVariable = Ret C"
    unfolding start append M(1) by (simp add: C_def)
  moreover have "monitor_run [MonDone] C = Ret C" by (simp add: monitor_done_def monitor_sends_def C(1))
  moreover have "fst (monitor_receive ?D) = Some r2" "fst (monitor_receive (snd (monitor_receive ?D))) = None"
    by (simp_all add: monitor_receive_def chan_poll_def)
  moreover have "monitor_sends C" by (simp add: monitor_sends_def C(1))
  ultimately show ?thesis using C(2) recv by (intro exI [of _ C] exI [of _ ?D]) simp
qed

section \<open>Strategies and plans\<close>

definition strategy_number :: "StorageStrategy \<Rightarrow> nat" where
  "strategy_number s = (case s of StrategyBasic \<Rightarrow> 0 | StrategyAtomic \<Rightarrow> 1 | StrategyMutex \<Rightarrow> 2 | StrategyChannels \<Rightarrow> 3 | StrategySharded \<Rightarrow> 4
     | StrategyLockFree \<Rightarrow> 5 | StrategyPersisted \<Rightarrow> 6 | StrategyReplicated \<Rightarrow> 7 | StrategyWriteOptimized \<Rightarrow> 8 | StrategyReadOptimized \<Rightarrow> 9
     | StrategyMemoryOptimized \<Rightarrow> 10)"

text \<open>The conversion of a number to a string gives the character with that number. The map is ranged over in the order of \<open>order\<close>.\<close>

definition ListStrategies :: "StorageStrategy list \<Rightarrow> 'v factory \<Rightarrow> string list" where
  "ListStrategies order f = map (\<lambda>s. [char_of (strategy_number s)]) (filter (\<lambda>s. f s \<noteq> None) order)"

text \<open>\<open>zero\<close> gives the zero value of a type, nil for an interface type.\<close>

definition GetRecommendedStrategy :: "(string \<Rightarrow> reflect_kind) \<Rightarrow> (string \<Rightarrow> 'v any_value) \<Rightarrow> string \<Rightarrow> AccessPattern \<Rightarrow> StorageStrategy outcome" where
  "GetRecommendedStrategy kinds zero t pattern = selectOptimalStrategy kinds (zero t) pattern"

record MigrationPlan =
  mp_Source :: StorageStrategy
  mp_Target :: StorageStrategy
  mp_EstimatedTime :: int
  mp_RiskLevel :: string

definition PlanMigration :: "StorageStrategy \<Rightarrow> 'v managed \<Rightarrow> MigrationPlan" where
  "PlanMigration target m = \<lparr>mp_Source = va_strategy (mv_var m), mp_Target = target, mp_EstimatedTime = 10 ^ 9, mp_RiskLevel = ''low''\<rparr>"

text \<open>The overhead of the processor is in hundredths.\<close>

record MigrationCost =
  mc_TimeEstimate :: int
  mc_MemoryOverhead :: int
  mc_CPUOverhead :: nat
  mc_RiskAssessment :: string

definition EstimateMigrationCost :: "MigrationPlan \<Rightarrow> MigrationCost" where
  "EstimateMigrationCost plan = \<lparr>mc_TimeEstimate = mp_EstimatedTime plan, mc_MemoryOverhead = 1024, mc_CPUOverhead = 10, mc_RiskAssessment = ''low''\<rparr>"

definition HotMigrate ::
  "('v \<Rightarrow> 'v \<Rightarrow> bool) \<Rightarrow> 'v factory \<Rightarrow> int \<Rightarrow> StorageStrategy \<Rightarrow> 'v managed \<Rightarrow> ((go_err + 'v managed) \<times> 'v managed) outcome" where
  "HotMigrate = Migrate"

text \<open>The strategies of a new factory are listed as control characters, and the ones the analyzer predicts for rare access cannot be made.\<close>

theorem factory_strategies:
  assumes "distinct order" and "set order = UNIV"
  shows "set (ListStrategies order (NewVariableFactory :: 'v factory)) = (\<lambda>n. [char_of n]) ` {1, 2, 4, 8, 9 :: nat} \<and>
    (cf_StorageStrategy (buildConfig options :: 'v VariableConfig) = StrategyMemoryOptimized \<longrightarrow>
       factory_Create kinds same NewVariableFactory x options = Ret (Inl (Err ''unknown strategy'')))"
proof -
  have dom: "{s. (NewVariableFactory :: 'v factory) s \<noteq> None} = {StrategyAtomic, StrategyMutex, StrategySharded, StrategyWriteOptimized, StrategyReadOptimized}"
    by (auto simp: NewVariableFactory_def RegisterStrategy_def split: if_splits)
  have "set (ListStrategies order (NewVariableFactory :: 'v factory)) = (\<lambda>s. [char_of (strategy_number s)]) ` {s. (NewVariableFactory :: 'v factory) s \<noteq> None}"
    using assms(2) by (auto simp: ListStrategies_def)
  then show ?thesis unfolding dom
    by (simp add: strategy_number_def factory_Create_def CreateWithStrategy_def NewVariableFactory_def RegisterStrategy_def Let_def)
qed

end
