(* ===== verification/Sync_Collector.thy ===== *)
theory Sync_Collector
  imports Go_Channel "HOL-Library.AList"
begin

text \<open>
  The collector of metrics of \<open>internal/core/sync/metrics/collector.go\<close>: events go through a channel to a goroutine that gathers
  them in batches of 100 and adds the batches to the metrics of the variables. The floating-point average is the parameter
  \<open>ema\<close> of the present average and the new latency.
\<close>

section \<open>Events and metrics\<close>

datatype MetricType = MetricRead | MetricWrite | MetricConflict | MetricError

record MetricEvent =
  ev_VarName :: string
  ev_Type :: MetricType
  ev_Latency :: int
  ev_Timestamp :: int

definition zero_event :: MetricEvent where
  "zero_event = \<lparr>ev_VarName = [], ev_Type = MetricRead, ev_Latency = 0, ev_Timestamp = 0\<rparr>"

record collected =
  cl_ReadCount :: uint64
  cl_WriteCount :: uint64
  cl_ConflictCount :: uint64
  cl_ErrorCount :: uint64
  cl_AvgReadLatency :: int
  cl_AvgWriteLatency :: int
  cl_CreatedAt :: int
  cl_LastAccessed :: int
  cl_LastModified :: int

definition zero_collected :: collected where
  "zero_collected = \<lparr>cl_ReadCount = 0, cl_WriteCount = 0, cl_ConflictCount = 0, cl_ErrorCount = 0, cl_AvgReadLatency = 0,
     cl_AvgWriteLatency = 0, cl_CreatedAt = 0, cl_LastAccessed = 0, cl_LastModified = 0\<rparr>"

definition count_event :: "(int \<Rightarrow> int \<Rightarrow> int) \<Rightarrow> MetricEvent \<Rightarrow> collected \<Rightarrow> collected" where
  "count_event ema e m =
     (let m = (case ev_Type e of
         MetricRead \<Rightarrow> m\<lparr>cl_ReadCount := cl_ReadCount m + 1, cl_AvgReadLatency := ema (cl_AvgReadLatency m) (ev_Latency e)\<rparr>
       | MetricWrite \<Rightarrow> m\<lparr>cl_WriteCount := cl_WriteCount m + 1, cl_AvgWriteLatency := ema (cl_AvgWriteLatency m) (ev_Latency e),
           cl_LastModified := ev_Timestamp e\<rparr>
       | MetricConflict \<Rightarrow> m\<lparr>cl_ConflictCount := cl_ConflictCount m + 1\<rparr>
       | MetricError \<Rightarrow> m\<lparr>cl_ErrorCount := cl_ErrorCount m + 1\<rparr>)
      in m\<lparr>cl_LastAccessed := ev_Timestamp e\<rparr>)"

type_synonym metrics_map = "(string \<times> collected) list"

definition updateMetrics :: "(int \<Rightarrow> int \<Rightarrow> int) \<Rightarrow> int \<Rightarrow> MetricEvent \<Rightarrow> metrics_map \<Rightarrow> metrics_map" where
  "updateMetrics ema now e ms =
     (let m = (case map_of ms (ev_VarName e) of Some m \<Rightarrow> m | None \<Rightarrow> zero_collected\<lparr>cl_CreatedAt := now\<rparr>)
      in AList.update (ev_VarName e) (count_event ema e m) ms)"

definition processBatch :: "(int \<Rightarrow> int \<Rightarrow> int) \<Rightarrow> int \<Rightarrow> MetricEvent list \<Rightarrow> metrics_map \<Rightarrow> metrics_map" where
  "processBatch ema now = fold (updateMetrics ema now)"

section \<open>The collector\<close>

text \<open>The goroutine waits in its selection when it is among the receivers of the channel.\<close>

record collector =
  ac_events :: "MetricEvent gochan"
  ac_metrics :: metrics_map
  ac_batch :: "MetricEvent list"
  ac_batchSize :: nat
  ac_cancelled :: bool
  ac_ended :: bool

definition NewAsyncMetricsCollector :: "int \<Rightarrow> collector outcome" where
  "NewAsyncMetricsCollector bufferSize = bind_outcome (make_chan bufferSize) (\<lambda>ch.
     Ret \<lparr>ac_events = ch, ac_metrics = [], ac_batch = [], ac_batchSize = 100, ac_cancelled = False, ac_ended = False\<rparr>)"

definition take_event :: "(int \<Rightarrow> int \<Rightarrow> int) \<Rightarrow> int \<Rightarrow> MetricEvent \<Rightarrow> collector \<Rightarrow> collector" where
  "take_event ema now e c =
     (let batch = ac_batch c @ [e]
      in if length batch \<ge> ac_batchSize c then c\<lparr>ac_metrics := processBatch ema now batch (ac_metrics c), ac_batch := []\<rparr>
         else c\<lparr>ac_batch := batch\<rparr>)"

text \<open>\<open>record_event\<close> tells whether the event was taken: it is dropped if the buffer is full.\<close>

definition record_event :: "(int \<Rightarrow> int \<Rightarrow> int) \<Rightarrow> int \<Rightarrow> MetricEvent \<Rightarrow> collector \<Rightarrow> (bool \<times> collector) outcome" where
  "record_event ema now e c = bind_outcome (chan_offer e (ac_events c)) (\<lambda>r. case r of
       None \<Rightarrow> Ret (False, c)
     | Some (ws, ch) \<Rightarrow> Ret (True, fold (take_event ema now) (woken_values ws) (c\<lparr>ac_events := ch\<rparr>)))"

definition RecordRead :: "(int \<Rightarrow> int \<Rightarrow> int) \<Rightarrow> int \<Rightarrow> string \<Rightarrow> int \<Rightarrow> collector \<Rightarrow> (bool \<times> collector) outcome" where
  "RecordRead ema now v latency = record_event ema now \<lparr>ev_VarName = v, ev_Type = MetricRead, ev_Latency = latency, ev_Timestamp = now\<rparr>"

definition RecordWrite :: "(int \<Rightarrow> int \<Rightarrow> int) \<Rightarrow> int \<Rightarrow> string \<Rightarrow> int \<Rightarrow> collector \<Rightarrow> (bool \<times> collector) outcome" where
  "RecordWrite ema now v latency = record_event ema now \<lparr>ev_VarName = v, ev_Type = MetricWrite, ev_Latency = latency, ev_Timestamp = now\<rparr>"

definition RecordConflict :: "(int \<Rightarrow> int \<Rightarrow> int) \<Rightarrow> int \<Rightarrow> string \<Rightarrow> collector \<Rightarrow> (bool \<times> collector) outcome" where
  "RecordConflict ema now v = record_event ema now \<lparr>ev_VarName = v, ev_Type = MetricConflict, ev_Latency = 0, ev_Timestamp = now\<rparr>"

definition RecordError :: "(int \<Rightarrow> int \<Rightarrow> int) \<Rightarrow> int \<Rightarrow> string \<Rightarrow> collector \<Rightarrow> (bool \<times> collector) outcome" where
  "RecordError ema now v = record_event ema now \<lparr>ev_VarName = v, ev_Type = MetricError, ev_Latency = 0, ev_Timestamp = now\<rparr>"

definition collector_GetMetrics :: "string \<Rightarrow> collector \<Rightarrow> collected" where
  "collector_GetMetrics v c = (case map_of (ac_metrics c) v of Some m \<Rightarrow> m | None \<Rightarrow> zero_collected)"

definition collector_Close :: "collector \<Rightarrow> collector outcome" where
  "collector_Close c = bind_outcome (chan_close zero_event (ac_events c)) (\<lambda>(ws, ch). Ret (c\<lparr>ac_cancelled := True, ac_events := ch\<rparr>))"

text \<open>
  The cases of the selection of \<open>processEvents\<close>: the end of the context, an event, the ticker. Without an event the goroutine
  waits, and a ticker or the end takes it out of the receivers. The channel that is closed gives zero events.
\<close>

definition leave_queue :: "collector \<Rightarrow> collector" where
  "leave_queue c = c\<lparr>ac_events := (ac_events c)\<lparr>gc_recvq := []\<rparr>\<rparr>"

definition on_done :: "collector \<Rightarrow> collector" where
  "on_done c = (if ac_cancelled c then (leave_queue c)\<lparr>ac_ended := True\<rparr> else c)"

definition on_event :: "(int \<Rightarrow> int \<Rightarrow> int) \<Rightarrow> int \<Rightarrow> collector \<Rightarrow> collector" where
  "on_event ema now c =
     (if gc_recvq (ac_events c) \<noteq> [] then c
      else case chan_poll zero_event (ac_events c) of
          Some ((e, ok), ws, ch) \<Rightarrow> take_event ema now e (c\<lparr>ac_events := ch\<rparr>)
        | None \<Rightarrow> c\<lparr>ac_events := park_receiver 0 (ac_events c)\<rparr>)"

definition on_tick :: "(int \<Rightarrow> int \<Rightarrow> int) \<Rightarrow> int \<Rightarrow> collector \<Rightarrow> collector" where
  "on_tick ema now c =
     (let c = leave_queue c
      in if ac_batch c \<noteq> [] then c\<lparr>ac_metrics := processBatch ema now (ac_batch c) (ac_metrics c), ac_batch := []\<rparr> else c)"

section \<open>Counting\<close>

datatype collector_op = OpRecord MetricEvent | OpEvent | OpTick

text \<open>A run before \<open>Close\<close>, with the events taken so far.\<close>

fun collector_run ::
  "(int \<Rightarrow> int \<Rightarrow> int) \<Rightarrow> (int \<times> collector_op) list \<Rightarrow> collector \<times> MetricEvent list \<Rightarrow> (collector \<times> MetricEvent list) outcome" where
  "collector_run ema [] x = Ret x"
| "collector_run ema ((now, OpRecord e) # ops) (c, es) =
     bind_outcome (record_event ema now e c) (\<lambda>(taken, c). collector_run ema ops (c, if taken then es @ [e] else es))"
| "collector_run ema ((now, OpEvent) # ops) (c, es) = collector_run ema ops (on_event ema now c, es)"
| "collector_run ema ((now, OpTick) # ops) (c, es) = collector_run ema ops (on_tick ema now c, es)"

definition events_of :: "MetricType \<Rightarrow> string \<Rightarrow> MetricEvent list \<Rightarrow> uint64" where
  "events_of t v es = of_nat (length (filter (\<lambda>e. ev_Type e = t \<and> ev_VarName e = v) es))"

definition counts :: "metrics_map \<Rightarrow> MetricEvent list \<Rightarrow> bool" where
  "counts ms es \<longleftrightarrow> (\<forall>v. let m = (case map_of ms v of Some m \<Rightarrow> m | None \<Rightarrow> zero_collected)
     in cl_ReadCount m = events_of MetricRead v es \<and> cl_WriteCount m = events_of MetricWrite v es \<and>
        cl_ConflictCount m = events_of MetricConflict v es \<and> cl_ErrorCount m = events_of MetricError v es)"

lemma events_of_snoc [simp]:
  "events_of t v [] = 0" "events_of t v (es @ [e]) = events_of t v es + (if ev_Type e = t \<and> ev_VarName e = v then 1 else 0)"
  by (simp_all add: events_of_def)

lemma counts_update: "counts ms es \<Longrightarrow> counts (updateMetrics ema now e ms) (es @ [e])"
  unfolding counts_def
proof (rule allI)
  fix v
  assume c: "\<forall>v. let m = (case map_of ms v of Some m \<Rightarrow> m | None \<Rightarrow> zero_collected)
     in cl_ReadCount m = events_of MetricRead v es \<and> cl_WriteCount m = events_of MetricWrite v es \<and>
        cl_ConflictCount m = events_of MetricConflict v es \<and> cl_ErrorCount m = events_of MetricError v es"
  show "let m = (case map_of (updateMetrics ema now e ms) v of Some m \<Rightarrow> m | None \<Rightarrow> zero_collected)
     in cl_ReadCount m = events_of MetricRead v (es @ [e]) \<and> cl_WriteCount m = events_of MetricWrite v (es @ [e]) \<and>
        cl_ConflictCount m = events_of MetricConflict v (es @ [e]) \<and> cl_ErrorCount m = events_of MetricError v (es @ [e])"
  proof (cases "v = ev_VarName e")
    case True
    with c [rule_format, of v] show ?thesis
      by (cases "ev_Type e"; cases "map_of ms v")
        (simp_all add: updateMetrics_def update_conv' count_event_def zero_collected_def Let_def)
  next
    case False
    with c [rule_format, of v] show ?thesis by (simp add: updateMetrics_def update_conv' Let_def)
  qed
qed

lemma counts_batch: "counts ms es \<Longrightarrow> counts (processBatch ema now batch ms) (es @ batch)"
proof (induction batch arbitrary: ms es)
  case (Cons e batch)
  with counts_update [of ms es ema now e] Cons.IH [of "updateMetrics ema now e ms" "es @ [e]"] show ?case
    by (simp add: processBatch_def)
qed (simp add: processBatch_def)

text \<open>The events taken: those counted, those in the batch, those in the channel.\<close>

definition collector_inv :: "nat \<Rightarrow> collector \<times> MetricEvent list \<Rightarrow> bool" where
  "collector_inv n x \<longleftrightarrow> (case x of (c, es) \<Rightarrow>
     (\<exists>done. es = done @ ac_batch c @ gc_buf (ac_events c) \<and> counts (ac_metrics c) done) \<and>
     chan_wf (ac_events c) \<and> gc_sendq (ac_events c) = [] \<and> \<not> gc_closed (ac_events c) \<and> gc_cap (ac_events c) = n \<and>
     length (ac_batch c) < 100 \<and> ac_batchSize c = 100 \<and> length (gc_recvq (ac_events c)) \<le> 1)"

lemma take_event_inv:
  assumes "es = done @ ac_batch c @ [e] @ rest" and "counts (ac_metrics c) done" and "length (ac_batch c) < 100" and "ac_batchSize c = 100"
  shows "\<exists>done. es = done @ ac_batch (take_event ema now e c) @ rest \<and> counts (ac_metrics (take_event ema now e c)) done \<and>
    length (ac_batch (take_event ema now e c)) < 100 \<and> ac_batchSize (take_event ema now e c) = 100 \<and>
    ac_events (take_event ema now e c) = ac_events c"
proof (cases "length (ac_batch c) + 1 \<ge> 100")
  case True
  with assms counts_batch [OF assms(2), of ema now "ac_batch c @ [e]"] show ?thesis
    by (intro exI [of _ "done @ ac_batch c @ [e]"]) (simp add: take_event_def Let_def)
next
  case False
  with assms show ?thesis by (intro exI [of _ "done"]) (simp add: take_event_def Let_def)
qed

lemma record_inv:
  assumes "collector_inv n (c, es)"
  shows "\<exists>taken c'. record_event ema now e c = Ret (taken, c') \<and> collector_inv n (c', if taken then es @ [e] else es) \<and>
    (\<not> taken \<longleftrightarrow> gc_recvq (ac_events c) = [] \<and> length (gc_buf (ac_events c)) = n)"
proof -
  let ?ch = "ac_events c"
  obtain "done" where d: "es = done @ ac_batch c @ gc_buf ?ch" "counts (ac_metrics c) done" "chan_wf ?ch" "gc_sendq ?ch = []" "\<not> gc_closed ?ch"
      "gc_cap ?ch = n" "length (ac_batch c) < 100" "ac_batchSize c = 100" "length (gc_recvq ?ch) \<le> 1"
    using assms by (auto simp: collector_inv_def)
  show ?thesis
  proof (cases "gc_recvq ?ch")
    case (Cons r rs)
    then have empty: "gc_buf ?ch = []" "rs = []" using d(3,9) by (simp_all add: chan_wf_def)
    let ?c = "c\<lparr>ac_events := ?ch\<lparr>gc_recvq := rs\<rparr>\<rparr>"
    have "es @ [e] = done @ ac_batch ?c @ [e] @ []" using d(1) empty by simp
    from take_event_inv [OF this, of ema now] d(2,7,8)
    obtain d' where "es @ [e] = d' @ ac_batch (take_event ema now e ?c) @ []" "counts (ac_metrics (take_event ema now e ?c)) d'"
        "length (ac_batch (take_event ema now e ?c)) < 100" "ac_batchSize (take_event ema now e ?c) = 100"
        "ac_events (take_event ema now e ?c) = ac_events ?c" by auto
    then have "collector_inv n (take_event ema now e ?c, es @ [e])"
      using d(3-6) empty by (auto simp: collector_inv_def chan_wf_def)
    then show ?thesis using Cons d(5) by (intro exI [of _ True]) (simp add: record_event_def chan_offer_def)
  next
    case Nil
    show ?thesis
    proof (cases "length (gc_buf ?ch) < n")
      case True
      then have "collector_inv n (c\<lparr>ac_events := ?ch\<lparr>gc_buf := gc_buf ?ch @ [e]\<rparr>\<rparr>, es @ [e])"
        using d Nil by (auto simp: collector_inv_def chan_wf_def)
      with True Nil d(5,6) show ?thesis by (intro exI [of _ True]) (simp add: record_event_def chan_offer_def)
    next
      case False
      moreover have "length (gc_buf ?ch) \<le> n" using d(3,6) by (simp add: chan_wf_def)
      ultimately show ?thesis using assms Nil d(5,6) by (intro exI [of _ False]) (simp add: record_event_def chan_offer_def)
    qed
  qed
qed

lemma event_inv:
  assumes "collector_inv n (c, es)"
  shows "collector_inv n (on_event ema now c, es)"
proof -
  let ?ch = "ac_events c"
  obtain "done" where d: "es = done @ ac_batch c @ gc_buf ?ch" "counts (ac_metrics c) done" "chan_wf ?ch" "gc_sendq ?ch = []" "\<not> gc_closed ?ch"
      "gc_cap ?ch = n" "length (ac_batch c) < 100" "ac_batchSize c = 100" "length (gc_recvq ?ch) \<le> 1"
    using assms by (auto simp: collector_inv_def)
  show ?thesis
  proof (cases "gc_recvq ?ch = []")
    case False
    with assms show ?thesis by (simp add: on_event_def)
  next
    case True
    show ?thesis
    proof (cases "gc_buf ?ch")
      case Nil
      with d True show ?thesis by (auto simp: on_event_def chan_poll_def park_receiver_def collector_inv_def chan_wf_def)
    next
      case (Cons e rest)
      let ?c = "c\<lparr>ac_events := ?ch\<lparr>gc_buf := rest\<rparr>\<rparr>"
      have "es = done @ ac_batch ?c @ [e] @ rest" using d(1) Cons by simp
      from take_event_inv [OF this, of ema now] d(2,7,8)
      obtain d' where "es = d' @ ac_batch (take_event ema now e ?c) @ rest" "counts (ac_metrics (take_event ema now e ?c)) d'"
          "length (ac_batch (take_event ema now e ?c)) < 100" "ac_batchSize (take_event ema now e ?c) = 100"
          "ac_events (take_event ema now e ?c) = ac_events ?c" by auto
      then have "collector_inv n (take_event ema now e ?c, es)"
        using d(3-6) Cons True by (auto simp: collector_inv_def chan_wf_def)
      with True Cons d(4) show ?thesis by (simp add: on_event_def chan_poll_def)
    qed
  qed
qed

lemma tick_inv:
  assumes "collector_inv n (c, es)"
  shows "collector_inv n (on_tick ema now c, es)"
proof -
  obtain "done" where d: "es = done @ ac_batch c @ gc_buf (ac_events c)" "counts (ac_metrics c) done"
    using assms by (auto simp: collector_inv_def)
  from counts_batch [OF d(2), of ema now "ac_batch c"] d assms show ?thesis
    by (auto simp: on_tick_def leave_queue_def collector_inv_def chan_wf_def Let_def intro!: exI [of _ "done @ ac_batch c"])
qed

lemma collector_run_inv: "collector_inv n x \<Longrightarrow> \<exists>y. collector_run ema ops x = Ret y \<and> collector_inv n y"
proof (induction ema ops x rule: collector_run.induct)
  case (2 ema now e ops c es)
  from record_inv [OF 2(2), of ema now e] obtain taken c' where
    "record_event ema now e c = Ret (taken, c')" "collector_inv n (c', if taken then es @ [e] else es)" by blast
  with 2(1) show ?case by auto
qed (simp_all add: event_inv tick_inv)

text \<open>
  C31. The collector of metrics. Before \<open>Close\<close>, whatever the order of the calls and of the events and ticks of its goroutine, no call panics or waits;
  the events it took are counted, in order, but for fewer than 100 in the batch and those in the channel, and the counts of
  every variable are those of the counted events; an event is dropped only if the channel is full and the goroutine is not waiting. After
  \<open>Close\<close> every recording panics, and so does a second \<open>Close\<close>; the goroutine may go on and count reads of a variable without a name,
  and the batch it had is lost when it ends.
\<close>

theorem collector_counts:
  assumes "NewAsyncMetricsCollector (int n) = Ret c0"
  shows "\<exists>c es. collector_run ema ops (c0, []) = Ret (c, es) \<and>
    (\<exists>done. es = done @ ac_batch c @ gc_buf (ac_events c) \<and> counts (ac_metrics c) done) \<and>
    length (ac_batch c) < 100 \<and> length (gc_buf (ac_events c)) \<le> n \<and>
    (\<exists>taken c'. record_event ema now e c = Ret (taken, c') \<and>
       (\<not> taken \<longleftrightarrow> gc_recvq (ac_events c) = [] \<and> length (gc_buf (ac_events c)) = n)) \<and>
    (\<exists>c'. collector_Close c = Ret c' \<and> record_event ema now e c' = Panic SendOnClosedChannel \<and>
       collector_Close c' = Panic CloseOfClosedChannel \<and> ac_metrics (on_done c') = ac_metrics c \<and> ac_ended (on_done c') \<and>
       (gc_buf (ac_events c) = [] \<longrightarrow> on_event ema now c' = take_event ema now zero_event c'))"
proof -
  have "collector_inv n (c0, [])"
    using assms
    by (auto simp: NewAsyncMetricsCollector_def make_chan_def outcome_simps collector_inv_def counts_def zero_collected_def events_of_def chan_wf_def)
  from collector_run_inv [OF this, of ema ops] obtain c es where run: "collector_run ema ops (c0, []) = Ret (c, es)" and inv: "collector_inv n (c, es)"
    by (metis surj_pair)
  let ?ch = "ac_events c"
  let ?c' = "c\<lparr>ac_cancelled := True, ac_events := ?ch\<lparr>gc_closed := True, gc_recvq := [], gc_sendq := []\<rparr>\<rparr>"
  have "\<not> gc_closed ?ch" using inv by (simp add: collector_inv_def)
  then have "collector_Close c = Ret ?c'" by (simp add: collector_Close_def chan_close_def)
  moreover have "record_event ema now e ?c' = Panic SendOnClosedChannel" by (simp add: record_event_def chan_offer_def)
  moreover have "collector_Close ?c' = Panic CloseOfClosedChannel" by (simp add: collector_Close_def chan_close_def)
  moreover have "ac_metrics (on_done ?c') = ac_metrics c" "ac_ended (on_done ?c')" by (simp_all add: on_done_def leave_queue_def)
  moreover have "on_event ema now ?c' = take_event ema now zero_event ?c'" if "gc_buf ?ch = []"
    using that by (simp add: on_event_def chan_poll_def)
  ultimately have closed: "\<exists>c'. collector_Close c = Ret c' \<and> record_event ema now e c' = Panic SendOnClosedChannel \<and>
       collector_Close c' = Panic CloseOfClosedChannel \<and> ac_metrics (on_done c') = ac_metrics c \<and> ac_ended (on_done c') \<and>
       (gc_buf ?ch = [] \<longrightarrow> on_event ema now c' = take_event ema now zero_event c')"
    by blast
  have "\<exists>taken c'. record_event ema now e c = Ret (taken, c') \<and> (\<not> taken \<longleftrightarrow> gc_recvq ?ch = [] \<and> length (gc_buf ?ch) = n)"
    using record_inv [OF inv] by blast
  moreover have "\<exists>done. es = done @ ac_batch c @ gc_buf ?ch \<and> counts (ac_metrics c) done" "length (ac_batch c) < 100" "length (gc_buf ?ch) \<le> n"
    using inv by (auto simp: collector_inv_def chan_wf_def)
  ultimately show ?thesis using run closed by blast
qed

theorem collector_counts_witness:
  "\<exists>c0 c es. NewAsyncMetricsCollector (int 2) = Ret c0 \<and>
     collector_run (\<lambda>a b. b) [(3, OpRecord zero_event), (4, OpRecord zero_event), (5, OpRecord zero_event), (6, OpEvent), (7, OpTick)] (c0, []) = Ret (c, es) \<and>
     es = [zero_event, zero_event] \<and> length (gc_buf (ac_events c)) \<le> 2"
proof -
  obtain c0 where c0: "NewAsyncMetricsCollector (int 2) = Ret c0" by (simp add: NewAsyncMetricsCollector_def make_chan_def)
  let ?ops = "[(3, OpRecord zero_event), (4, OpRecord zero_event), (5, OpRecord zero_event), (6, OpEvent), (7, OpTick)]"
  obtain c es where run: "collector_run (\<lambda>a b. b) ?ops (c0, []) = Ret (c, es)" "length (gc_buf (ac_events c)) \<le> 2"
    using collector_counts [OF c0, of "\<lambda>a b. b" ?ops] by blast
  moreover have "es = [zero_event, zero_event]"
    using run(1) c0
    by (auto simp: NewAsyncMetricsCollector_def make_chan_def record_event_def chan_offer_def)
  ultimately show ?thesis using c0 by blast
qed

end
