(* ===== verification/Protocol_Client.thy ===== *)
theory Protocol_Client
  imports Quic_Connection Go_Channel
begin

text \<open>
  \<open>BaseClient\<close> of \<open>internal/core/protocol/client.go\<close>, a client as the server side sees it, over the connection of \<open>Quic_Connection\<close>, and
  the queue of messages between NPCs (\<open>internal/core/npc/communication.go\<close>).
\<close>

section \<open>State\<close>

record BaseClientConfig =
  bk_MaxGroups :: int
  bk_MaxScopes :: int
  bk_MaxStreams :: int
  bk_HeartbeatInterval :: int
  bk_InactivityTimeout :: int
  bk_MessageQueueSize :: int
  bk_EnableCompression :: bool
  bk_CompressionLevel :: int

definition DefaultBaseClientConfig :: BaseClientConfig where
  "DefaultBaseClientConfig = \<lparr>bk_MaxGroups = 100, bk_MaxScopes = 50, bk_MaxStreams = 10, bk_HeartbeatInterval = 30 * 10 ^ 9,
     bk_InactivityTimeout = 300 * 10 ^ 9, bk_MessageQueueSize = 1000, bk_EnableCompression = True, bk_CompressionLevel = 1\<rparr>"

record 'v BaseClient =
  bc_id :: string
  bc_connection :: Connection
  bc_connectedAt :: int
  bc_lastSeen :: int
  bc_groups :: "string list"
  bc_scopes :: "string list"
  bc_metadata :: "(string \<times> 'v) list"
  bc_messageQueue :: "nat gochan"
  bc_done :: bool
  bc_config :: BaseClientConfig
  bc_active :: bool

definition NewBaseClient :: "int \<Rightarrow> string \<Rightarrow> Connection \<Rightarrow> BaseClientConfig \<Rightarrow> 'v BaseClient outcome" where
  "NewBaseClient now cid conn config = bind_outcome (make_chan (bk_MessageQueueSize config)) (\<lambda>queue.
     Ret \<lparr>bc_id = cid, bc_connection = conn, bc_connectedAt = now, bc_lastSeen = now, bc_groups = [], bc_scopes = [], bc_metadata = [],
       bc_messageQueue = queue, bc_done = False, bc_config = config, bc_active = True\<rparr>)"

definition ErrClientInactive :: perr where "ErrClientInactive = Plain ''client is inactive''"
definition ErrMaxGroupsExceeded :: perr where "ErrMaxGroupsExceeded = Plain ''maximum groups exceeded''"
definition ErrMaxScopesExceeded :: perr where "ErrMaxScopesExceeded = Plain ''maximum scopes exceeded''"

section \<open>Operations\<close>

record 'v ClientInfo =
  ci_ID :: string
  ci_ConnectionID :: string
  ci_Groups :: "string list"
  ci_Scopes :: "string list"
  ci_ConnectedAt :: int
  ci_LastSeen :: int
  ci_Metadata :: "(string \<times> 'v) list"

definition base_Info :: "'v BaseClient \<Rightarrow> 'v ClientInfo" where
  "base_Info c = \<lparr>ci_ID = bc_id c, ci_ConnectionID = cn_id (bc_connection c), ci_Groups = bc_groups c, ci_Scopes = bc_scopes c,
     ci_ConnectedAt = bc_connectedAt c, ci_LastSeen = bc_lastSeen c, ci_Metadata = bc_metadata c\<rparr>"

definition base_SetMetadata :: "string \<Rightarrow> 'v \<Rightarrow> 'v BaseClient \<Rightarrow> 'v BaseClient" where
  "base_SetMetadata key x c = c\<lparr>bc_metadata := AList.update key x (bc_metadata c)\<rparr>"

definition base_SendMessage :: "nat \<Rightarrow> 'v BaseClient \<Rightarrow> message_heap \<Rightarrow> perr option \<times> 'v BaseClient \<times> message_heap" where
  "base_SendMessage a c S =
     (if \<not> bc_active c then (Some ErrClientInactive, c, S)
      else case Connection_SendMessage a (bc_connection c) (update_message a (\<lambda>m. m\<lparr>mg_Target := bc_id c\<rparr>) S) of
          (err, conn, S) \<Rightarrow> (err, c\<lparr>bc_connection := conn\<rparr>, S))"

definition store_key :: "string \<Rightarrow> string list \<Rightarrow> string list" where
  "store_key k ks = (if k \<in> set ks then ks else ks @ [k])"

definition base_JoinGroup :: "string \<Rightarrow> 'v BaseClient \<Rightarrow> perr option \<times> 'v BaseClient" where
  "base_JoinGroup g c =
     (if \<not> bc_active c then (Some ErrClientInactive, c)
      else if int (length (bc_groups c)) \<ge> bk_MaxGroups (bc_config c) then (Some ErrMaxGroupsExceeded, c)
      else (None, c\<lparr>bc_groups := store_key g (bc_groups c)\<rparr>))"

definition base_LeaveGroup :: "string \<Rightarrow> 'v BaseClient \<Rightarrow> perr option \<times> 'v BaseClient" where
  "base_LeaveGroup g c = (None, c\<lparr>bc_groups := removeAll g (bc_groups c)\<rparr>)"

definition IsInGroup :: "string \<Rightarrow> 'v BaseClient \<Rightarrow> bool" where
  "IsInGroup g c \<longleftrightarrow> g \<in> set (bc_groups c)"

definition JoinScope :: "string \<Rightarrow> 'v BaseClient \<Rightarrow> perr option \<times> 'v BaseClient" where
  "JoinScope s c =
     (if \<not> bc_active c then (Some ErrClientInactive, c)
      else if int (length (bc_scopes c)) \<ge> bk_MaxScopes (bc_config c) then (Some ErrMaxScopesExceeded, c)
      else (None, c\<lparr>bc_scopes := store_key s (bc_scopes c)\<rparr>))"

definition LeaveScope :: "string \<Rightarrow> 'v BaseClient \<Rightarrow> perr option \<times> 'v BaseClient" where
  "LeaveScope s c = (None, c\<lparr>bc_scopes := removeAll s (bc_scopes c)\<rparr>)"

definition IsInScope :: "string \<Rightarrow> 'v BaseClient \<Rightarrow> bool" where
  "IsInScope s c \<longleftrightarrow> s \<in> set (bc_scopes c)"

definition base_OpenStream :: "int \<Rightarrow> string \<Rightarrow> perr option \<Rightarrow> 'v BaseClient \<Rightarrow> (perr + string) \<times> 'v BaseClient" where
  "base_OpenStream now sid answer c =
     (if \<not> bc_active c then (Inl ErrClientInactive, c)
      else case Connection_OpenStream now sid answer (bc_connection c) of (r, conn) \<Rightarrow> (r, c\<lparr>bc_connection := conn\<rparr>))"

definition UpdateLastSeen :: "int \<Rightarrow> 'v BaseClient \<Rightarrow> 'v BaseClient" where
  "UpdateLastSeen now c = c\<lparr>bc_lastSeen := now\<rparr>"

definition base_Disconnect :: "perr option \<Rightarrow> 'v BaseClient \<Rightarrow> BaseTransport \<Rightarrow> perr option \<times> 'v BaseClient \<times> BaseTransport" where
  "base_Disconnect answer c T =
     (let c = c\<lparr>bc_active := False, bc_done := True\<rparr>
      in case Connection_Close answer (bc_connection c) T of (err, conn, T) \<Rightarrow> (err, c\<lparr>bc_connection := conn\<rparr>, T))"

text \<open>
  A round of \<open>processMessages\<close>, and whether it goes on; it takes the queue or the end if both are there. A message the connection takes
  is retained by it, and released here in any case.
\<close>

definition processMessages :: "bool \<Rightarrow> 'v BaseClient \<Rightarrow> message_heap \<Rightarrow> (bool \<times> 'v BaseClient \<times> message_heap) outcome" where
  "processMessages chooseDone c S =
     (if bc_done c \<and> chooseDone then Ret (False, c, S)
      else case chan_poll 0 (bc_messageQueue c) of
          Some ((a, ok), ws, ch) \<Rightarrow>
            (let c = c\<lparr>bc_messageQueue := ch\<rparr>
             in if \<not> ok then Ret (True, c, S)
                else case Connection_SendMessage a (bc_connection c) S of
                    (err, conn, S) \<Rightarrow> Ret (True, c\<lparr>bc_connection := conn\<rparr>, Release a S))
        | None \<Rightarrow> if bc_done c then Ret (False, c, S) else Blocked)"

section \<open>Memberships\<close>

datatype 'v client_op = OpJoinGroup string | OpLeaveGroup string | OpJoinScope string | OpLeaveScope string | OpSetMetadata string 'v
  | OpSeen int | OpSend nat | OpDisconnect

fun base_do :: "message_heap \<Rightarrow> BaseTransport \<Rightarrow> 'v client_op \<Rightarrow> 'v BaseClient \<Rightarrow> 'v BaseClient" where
  "base_do S T (OpJoinGroup g) c = snd (base_JoinGroup g c)"
| "base_do S T (OpLeaveGroup g) c = snd (base_LeaveGroup g c)"
| "base_do S T (OpJoinScope s) c = snd (JoinScope s c)"
| "base_do S T (OpLeaveScope s) c = snd (LeaveScope s c)"
| "base_do S T (OpSetMetadata key x) c = base_SetMetadata key x c"
| "base_do S T (OpSeen now) c = UpdateLastSeen now c"
| "base_do S T (OpSend a) c = fst (snd (base_SendMessage a c S))"
| "base_do S T OpDisconnect c = fst (snd (base_Disconnect None c T))"

definition base_inv :: "BaseClientConfig \<Rightarrow> 'v BaseClient \<Rightarrow> bool" where
  "base_inv config c \<longleftrightarrow> bc_config c = config \<and> distinct (bc_groups c) \<and> distinct (bc_scopes c) \<and>
     int (length (bc_groups c)) \<le> max 0 (bk_MaxGroups config) \<and> int (length (bc_scopes c)) \<le> max 0 (bk_MaxScopes config) \<and>
     bc_active c = (\<not> bc_done c)"

lemma removeAll_bound: "int (length xs) \<le> n \<Longrightarrow> int (length (removeAll x xs)) \<le> n"
  using length_removeAll_less_eq [of x xs] by linarith

lemma base_do_inv: "base_inv config c \<Longrightarrow> base_inv config (base_do S T op c)"
proof (cases op)
  case (OpSend a)
  then show "base_inv config c \<Longrightarrow> ?thesis" by (auto simp: base_inv_def base_SendMessage_def split: prod.splits)
next
  case OpDisconnect
  then show "base_inv config c \<Longrightarrow> ?thesis" by (auto simp: base_inv_def base_Disconnect_def Let_def split: prod.splits)
qed (auto simp: base_inv_def base_JoinGroup_def base_LeaveGroup_def JoinScope_def LeaveScope_def store_key_def base_SetMetadata_def
      UpdateLastSeen_def distinct_removeAll removeAll_bound)

text \<open>
  The memberships of a client. After any calls its groups and scopes are within the limits of its configuration, each once, and it is
  active until it is disconnected. An active client is in a group it joined unless the limit is reached, and then joining a group it
  is in is an error too; after \<open>Disconnect\<close> nothing is joined or sent any more.
\<close>

theorem client_memberships:
  assumes "NewBaseClient now cid conn config = Ret c0" and "c = fold (base_do S T) ops c0"
  shows "distinct (bc_groups c) \<and> int (length (bc_groups c)) \<le> max 0 (bk_MaxGroups config) \<and>
    distinct (bc_scopes c) \<and> int (length (bc_scopes c)) \<le> max 0 (bk_MaxScopes config) \<and> bc_active c = (\<not> bc_done c) \<and>
    (bc_active c \<longrightarrow> (if int (length (bc_groups c)) < bk_MaxGroups config
       then fst (base_JoinGroup g c) = None \<and> (\<forall>h. IsInGroup h (snd (base_JoinGroup g c)) \<longleftrightarrow> h = g \<or> IsInGroup h c)
       else base_JoinGroup g c = (Some ErrMaxGroupsExceeded, c))) \<and>
    (let d = fst (snd (base_Disconnect None c T)) in base_JoinGroup g d = (Some ErrClientInactive, d) \<and>
       JoinScope g d = (Some ErrClientInactive, d) \<and> base_SendMessage a d S = (Some ErrClientInactive, d, S) \<and> cn_closed (bc_connection d))"
proof -
  have "base_inv config c0" using assms(1) by (auto simp: NewBaseClient_def outcome_simps base_inv_def)
  then have "base_inv config (fold (base_do S T) ops c0)"
    by (induction ops arbitrary: c0) (simp_all add: base_do_inv)
  then have inv: "base_inv config c" by (simp add: assms(2))
  moreover have "cn_closed (bc_connection (fst (snd (base_Disconnect None c T))))"
    by (auto simp: base_Disconnect_def Connection_Close_def end_close_def begin_close_def conn_MarkClosed_def conn_SetState_def Let_def)
  moreover have "\<not> bc_active (fst (snd (base_Disconnect None c T)))"
    by (simp add: base_Disconnect_def Let_def split: prod.split)
  ultimately show ?thesis
    by (auto simp: base_inv_def base_JoinGroup_def JoinScope_def base_SendMessage_def store_key_def IsInGroup_def Let_def)
qed

definition two_groups :: BaseClientConfig where
  "two_groups = DefaultBaseClientConfig\<lparr>bk_MaxGroups := 2\<rparr>"

theorem client_memberships_witness:
  "\<exists>c0 c. NewBaseClient 3 ''c'' pinged_peer two_groups = Ret (c0 :: nat BaseClient) \<and>
     c = fold (base_do (mu_msgs no_messages) (NewBaseTransport 0 ''quic'' ''t'')) [OpJoinGroup ''a'', OpJoinGroup ''b'', OpLeaveGroup ''a'', OpJoinGroup ''c''] c0 \<and>
     bc_groups c = [''b'', ''c''] \<and> base_JoinGroup ''a'' c = (Some ErrMaxGroupsExceeded, c)"
proof -
  obtain c0 :: "nat BaseClient" where c0: "NewBaseClient 3 ''c'' pinged_peer two_groups = Ret c0"
      "bc_groups c0 = []" "bc_config c0 = two_groups" "bc_active c0"
    by (simp add: NewBaseClient_def two_groups_def DefaultBaseClientConfig_def make_chan_def)
  let ?S = "mu_msgs no_messages" and ?T = "NewBaseTransport 0 ''quic'' ''t''"
  let ?c = "fold (base_do ?S ?T) [OpJoinGroup ''a'', OpJoinGroup ''b'', OpLeaveGroup ''a'', OpJoinGroup ''c''] c0"
  have "bc_groups ?c = [''b'', ''c'']" "bc_active ?c" "bk_MaxGroups two_groups = 2"
    using c0(2-4) by (simp_all add: base_JoinGroup_def base_LeaveGroup_def store_key_def two_groups_def)
  with client_memberships [OF c0(1) refl, where S = ?S and T = ?T and ops = "[OpJoinGroup ''a'', OpJoinGroup ''b'', OpLeaveGroup ''a'', OpJoinGroup ''c'']" and g = "''a''" and a = 0] c0(1)
  show ?thesis by (intro exI [of _ c0] exI [of _ ?c]) simp
qed

section \<open>The queue of messages of an NPC\<close>

definition NewMessageQueue :: "int \<Rightarrow> 'a gochan outcome" where
  "NewMessageQueue buffer = make_chan buffer"

text \<open>\<open>Send\<close> that cannot proceed parks goroutine \<open>g\<close>.\<close>

definition queue_Send :: "nat \<Rightarrow> 'a \<Rightarrow> 'a gochan \<Rightarrow> ('a wake list \<times> 'a gochan) outcome" where
  "queue_Send g m ch = bind_outcome (chan_offer m ch) (\<lambda>r. case r of
       Some x \<Rightarrow> Ret x
     | None \<Rightarrow> Ret ([], park_sender g m ch))"

definition TryReceive :: "'a \<Rightarrow> 'a gochan \<Rightarrow> ('a \<times> bool) \<times> 'a wake list \<times> 'a gochan" where
  "TryReceive zero ch = (case chan_poll zero ch of Some x \<Rightarrow> x | None \<Rightarrow> ((zero, False), [], ch))"

end
