(* ===== verification/Quic_Transport.thy ===== *)
theory Quic_Transport
  imports Quic_Connection
begin

text \<open>
  The QUIC transport and its listener: \<open>internal/core/protocol/quic/transport.go\<close> and \<open>listener.go\<close>, with the configuration of
  \<open>internal/core/protocol/transport.go\<close>. What the QUIC library and the network answer is an argument. Integers that are only
  copied and compared are \<open>int\<close>; of the TLS settings there are the number of certificates and what the code looks at; custom
  options, which are only passed on, are left out.
\<close>

section \<open>Configurations\<close>

record GlobalConfig =
  gl_MaxConnections :: int
  gl_ConnectionTimeout :: int
  gl_KeepAlive :: int
  gl_IdleTimeout :: int
  gl_WriteTimeout :: int
  gl_ReadTimeout :: int
  gl_MaxMessageSize :: int
  gl_MessageBufferSize :: int
  gl_MaxStreams :: int
  gl_StreamBufferSize :: int
  gl_MaxGroups :: int
  gl_MaxGroupMembers :: int
  gl_MaxScopes :: int
  gl_MaxScopeDataSize :: uint64
  gl_MaxScopeKeys :: int
  gl_WorkerPoolSize :: int
  gl_EnableCompression :: bool
  gl_CompressionLevel :: int
  gl_EnableTLS :: bool
  gl_EnableMetrics :: bool
  gl_MetricsInterval :: int
  gl_HealthCheckInterval :: int
  gl_MaxMemoryUsage :: uint64
  gl_MaxBandwidth :: uint64

definition seconds :: "int \<Rightarrow> int" where "seconds n = n * 10 ^ 9"

definition DefaultGlobalConfig :: GlobalConfig where
  "DefaultGlobalConfig = \<lparr>gl_MaxConnections = 10000, gl_ConnectionTimeout = seconds 30, gl_KeepAlive = seconds 30, gl_IdleTimeout = seconds 300,
     gl_WriteTimeout = seconds 10, gl_ReadTimeout = seconds 10, gl_MaxMessageSize = 1024 * 1024, gl_MessageBufferSize = 1000,
     gl_MaxStreams = 100, gl_StreamBufferSize = 64 * 1024, gl_MaxGroups = 1000, gl_MaxGroupMembers = 10000, gl_MaxScopes = 500,
     gl_MaxScopeDataSize = 100 * 1024 * 1024, gl_MaxScopeKeys = 10000, gl_WorkerPoolSize = 100, gl_EnableCompression = True,
     gl_CompressionLevel = 1, gl_EnableTLS = True, gl_EnableMetrics = True, gl_MetricsInterval = seconds 10,
     gl_HealthCheckInterval = seconds 30, gl_MaxMemoryUsage = 1024 * 1024 * 1024, gl_MaxBandwidth = 100 * 1024 * 1024\<rparr>"

text \<open>The settings the library takes, those of TLS, and the configuration.\<close>

record quic_settings =
  qc_MaxIncomingStreams :: int
  qc_MaxIncomingUniStreams :: int
  qc_MaxStreamReceiveWindow :: uint64
  qc_MaxConnectionReceiveWindow :: uint64
  qc_MaxIdleTimeout :: int
  qc_KeepAlivePeriod :: int
  qc_HandshakeIdleTimeout :: int
  qc_InitialStreamReceiveWindow :: uint64
  qc_InitialConnectionReceiveWindow :: uint64
  qc_EnableDatagrams :: bool
  qc_DisablePathMTUDiscovery :: bool

record tls_config =
  tl_Certificates :: nat
  tl_InsecureSkipVerify :: bool
  tl_ServerName :: string
  tl_NextProtos :: "string list"

definition generateTLSConfig :: tls_config where
  "generateTLSConfig = \<lparr>tl_Certificates = 0, tl_InsecureSkipVerify = True, tl_ServerName = [], tl_NextProtos = [''zeusync-quic'']\<rparr>"

record QuicConfig =
  qk_settings :: quic_settings
  qk_MaxDatagramFrameSize :: int
  qk_TLSConfig :: "tls_config option"

definition DefaultQUICConfig :: QuicConfig where
  "DefaultQUICConfig = \<lparr>qk_settings = \<lparr>qc_MaxIncomingStreams = 100, qc_MaxIncomingUniStreams = 100, qc_MaxStreamReceiveWindow = 1024 * 1024,
     qc_MaxConnectionReceiveWindow = 15 * 1024 * 1024, qc_MaxIdleTimeout = seconds 30, qc_KeepAlivePeriod = seconds 15,
     qc_HandshakeIdleTimeout = seconds 10, qc_InitialStreamReceiveWindow = 512 * 1024, qc_InitialConnectionReceiveWindow = 1024 * 1024,
     qc_EnableDatagrams = True, qc_DisablePathMTUDiscovery = False\<rparr>,
     qk_MaxDatagramFrameSize = 1200, qk_TLSConfig = Some generateTLSConfig\<rparr>"

record QuicTransport =
  qt_base :: BaseTransport
  qt_config :: QuicConfig
  qt_global :: GlobalConfig

definition NewQUICTransport :: "int \<Rightarrow> QuicConfig option \<Rightarrow> GlobalConfig option \<Rightarrow> QuicTransport" where
  "NewQUICTransport now config global = \<lparr>qt_base = NewBaseTransport now ''quic'' ''QUIC Transport'',
     qt_config = (case config of Some c \<Rightarrow> c | None \<Rightarrow> DefaultQUICConfig),
     qt_global = (case global of Some c \<Rightarrow> c | None \<Rightarrow> DefaultGlobalConfig)\<rparr>"

definition buildQUICConfig :: "GlobalConfig option \<Rightarrow> QuicTransport \<Rightarrow> quic_settings" where
  "buildQUICConfig config t =
     (let config = (case config of Some c \<Rightarrow> c | None \<Rightarrow> DefaultGlobalConfig);
          q = qk_settings (qt_config t);
          q = (if gl_IdleTimeout config > 0 then q\<lparr>qc_MaxIdleTimeout := gl_IdleTimeout config\<rparr> else q);
          q = (if gl_KeepAlive config > 0 then q\<lparr>qc_KeepAlivePeriod := gl_KeepAlive config\<rparr> else q)
      in if gl_MaxStreams config > 0
         then q\<lparr>qc_MaxIncomingStreams := gl_MaxStreams config, qc_MaxIncomingUniStreams := gl_MaxStreams config\<rparr> else q)"

definition UpdateQUICConfig :: "QuicConfig \<Rightarrow> QuicTransport \<Rightarrow> QuicTransport" where
  "UpdateQUICConfig config t = t\<lparr>qt_config := config\<rparr>"

definition quic_Close :: "QuicTransport \<Rightarrow> perr option \<times> QuicTransport" where
  "quic_Close t = (case transport_Close (qt_base t) of (err, b) \<Rightarrow> (err, t\<lparr>qt_base := b\<rparr>))"

definition count_on :: "string \<Rightarrow> QuicTransport \<Rightarrow> QuicTransport" where
  "count_on field t = t\<lparr>qt_base := transport_UpdateStats field 1 (qt_base t)\<rparr>"

definition ErrTransportClosed :: perr where "ErrTransportClosed = Plain ''transport is closed''"

definition quic_HealthCheck :: "int \<Rightarrow> int \<Rightarrow> QuicTransport \<Rightarrow> HealthCheck" where
  "quic_HealthCheck now latency t =
     (if bt_closed (qt_base t)
      then \<lparr>hc_Status = HealthStatusUnhealthy, hc_Timestamp = now, hc_Latency = latency, hc_Error = Some ErrTransportClosed\<rparr>
      else \<lparr>hc_Status = HealthStatusHealthy, hc_Timestamp = now, hc_Latency = latency, hc_Error = None\<rparr>)"

section \<open>Dialing\<close>

text \<open>
  The host of \<open>net.SplitHostPort\<close>, or None for its error: the port is what follows the last colon; a host in brackets ends right
  before that colon; there are no other brackets, and outside brackets no other colon.
\<close>

definition SplitHostPort :: "string \<Rightarrow> string option" where
  "SplitHostPort s =
     (if CHR '':'' \<notin> set s then None
      else let port = rev (takeWhile (\<lambda>c. c \<noteq> CHR '':'') (rev s)); before = take (length s - length port - 1) s
        in if hd s = CHR ''['' then
             (let host = takeWhile (\<lambda>c. c \<noteq> CHR '']'') (tl s)
              in if CHR '']'' \<notin> set s \<or> length host + 2 \<noteq> length before \<or> CHR ''['' \<in> set (tl s) \<or> CHR '']'' \<in> set (drop (length host + 2) s)
                 then None else Some host)
           else if CHR '':'' \<in> set before \<or> CHR ''['' \<in> set s \<or> CHR '']'' \<in> set s then None else Some before)"

definition client_tls :: "string \<Rightarrow> tls_config \<Rightarrow> tls_config" where
  "client_tls addr tls =
     (if \<not> tl_InsecureSkipVerify tls \<and> tl_ServerName tls = []
      then tls\<lparr>tl_ServerName := (case SplitHostPort addr of None \<Rightarrow> addr | Some host \<Rightarrow> host)\<rparr> else tls)"

text \<open>\<open>new_connection\<close> is \<open>NewQUICConnection\<close> with a configuration that may be nil, which it dereferences.\<close>

definition new_connection :: "int \<Rightarrow> string \<Rightarrow> GlobalConfig option \<Rightarrow> Connection outcome" where
  "new_connection now cid config = (case config of
       None \<Rightarrow> Panic NilDereference
     | Some g \<Rightarrow> NewQUICConnection now cid (gl_MessageBufferSize g) (gl_MaxStreams g))"

text \<open>\<open>dial\<close> answers an address, TLS settings and the others. Without TLS settings their clone is nil, and is dereferenced.\<close>

definition DialWithConfig ::
  "(string \<Rightarrow> tls_config \<Rightarrow> quic_settings \<Rightarrow> perr option) \<Rightarrow> int \<Rightarrow> string \<Rightarrow> string \<Rightarrow> GlobalConfig option \<Rightarrow> QuicTransport \<Rightarrow>
     ((perr + Connection) \<times> QuicTransport) outcome" where
  "DialWithConfig dial now cid addr config t =
     (if bt_closed (qt_base t) then Ret (Inl ErrTransportClosed, t)
      else case qk_TLSConfig (qt_config t) of
          None \<Rightarrow> Panic NilDereference
        | Some tls \<Rightarrow> (case dial addr (client_tls addr tls) (buildQUICConfig config t) of
              Some err \<Rightarrow> Ret (Inl (WrapError err ''failed to dial QUIC connection''), count_on ''connections_failed'' (count_on ''errors_encountered'' t))
            | None \<Rightarrow> bind_outcome (new_connection now cid config) (\<lambda>c.
                Ret (Inr c, count_on ''connections_active'' (count_on ''connections_dialed'' t)))))"

definition Dial ::
  "(string \<Rightarrow> tls_config \<Rightarrow> quic_settings \<Rightarrow> perr option) \<Rightarrow> int \<Rightarrow> string \<Rightarrow> string \<Rightarrow> QuicTransport \<Rightarrow> ((perr + Connection) \<times> QuicTransport) outcome" where
  "Dial dial now cid addr t = DialWithConfig dial now cid addr (Some (qt_global t)) t"

section \<open>Listening\<close>

text \<open>\<open>ln_tls\<close> are the TLS settings the library took when the listener was made.\<close>

record Listener =
  ln_config :: "GlobalConfig option"
  ln_tls :: "tls_config option"
  ln_closed :: bool

definition ListenWithConfig ::
  "perr option \<Rightarrow> perr option \<Rightarrow> (tls_config option \<Rightarrow> quic_settings \<Rightarrow> perr option) \<Rightarrow> GlobalConfig option \<Rightarrow> QuicTransport \<Rightarrow> (perr + Listener) \<times> QuicTransport" where
  "ListenWithConfig resolve udp listen config t =
     (if bt_closed (qt_base t) then (Inl ErrTransportClosed, t)
      else case resolve of
          Some err \<Rightarrow> (Inl (WrapError err ''failed to resolve UDP address''), count_on ''errors_encountered'' t)
        | None \<Rightarrow> (case udp of
              Some err \<Rightarrow> (Inl (WrapError err ''failed to listen on UDP''), count_on ''errors_encountered'' t)
            | None \<Rightarrow> (case listen (qk_TLSConfig (qt_config t)) (buildQUICConfig config t) of
                  Some err \<Rightarrow> (Inl (WrapError err ''failed to create QUIC listener''), count_on ''errors_encountered'' t)
                | None \<Rightarrow> (Inr \<lparr>ln_config = config, ln_tls = qk_TLSConfig (qt_config t), ln_closed = False\<rparr>, t))))"

definition Listen :: "perr option \<Rightarrow> perr option \<Rightarrow> (tls_config option \<Rightarrow> quic_settings \<Rightarrow> perr option) \<Rightarrow> QuicTransport \<Rightarrow> (perr + Listener) \<times> QuicTransport" where
  "Listen resolve udp listen t = ListenWithConfig resolve udp listen (Some (qt_global t)) t"

definition Listener_Accept :: "perr option \<Rightarrow> int \<Rightarrow> string \<Rightarrow> Listener \<Rightarrow> QuicTransport \<Rightarrow> ((perr + Connection) \<times> QuicTransport) outcome" where
  "Listener_Accept answer now cid l t =
     (if ln_closed l then Ret (Inl ErrConnectionClosed, t)
      else case answer of
          Some err \<Rightarrow> Ret (Inl (WrapError err ''failed to accept QUIC connection''), count_on ''connections_failed'' (count_on ''errors_encountered'' t))
        | None \<Rightarrow> bind_outcome (new_connection now cid (ln_config l)) (\<lambda>c.
            Ret (Inr c, count_on ''connections_active'' (count_on ''connections_accepted'' t))))"

definition Listener_Close :: "perr option \<Rightarrow> Listener \<Rightarrow> perr option \<times> Listener" where
  "Listener_Close answer l = (if ln_closed l then (None, l) else (answer, l\<lparr>ln_closed := True\<rparr>))"

text \<open>With the default global configuration the timeouts and the limits of streams of the QUIC configuration are not used.\<close>

theorem quic_settings_overridden:
  "buildQUICConfig (Some DefaultGlobalConfig) t = (qk_settings (qt_config t))\<lparr>qc_MaxIdleTimeout := seconds 300, qc_KeepAlivePeriod := seconds 30,
     qc_MaxIncomingStreams := 100, qc_MaxIncomingUniStreams := 100\<rparr>"
  by (simp add: buildQUICConfig_def DefaultGlobalConfig_def seconds_def Let_def)

section \<open>Counting connections\<close>

text \<open>A transport with a listener and the connections made so far.\<close>

record network =
  nw_transport :: QuicTransport
  nw_listener :: Listener
  nw_conns :: "Connection list"

datatype net_op = NetDial "perr option" string | NetAccept "perr option" | NetClose nat "perr option" | NetSend nat nat | NetUnlisten | NetStop

definition joined :: "((perr + Connection) \<times> QuicTransport) outcome \<Rightarrow> network \<Rightarrow> network outcome" where
  "joined r N = bind_outcome r (\<lambda>(r, t). Ret (N\<lparr>nw_transport := t, nw_conns := (case r of Inl e \<Rightarrow> nw_conns N | Inr c \<Rightarrow> nw_conns N @ [c])\<rparr>))"

fun net_do :: "message_heap \<Rightarrow> net_op \<Rightarrow> network \<Rightarrow> network outcome" where
  "net_do S (NetDial answer addr) N = joined (Dial (\<lambda>a s q. answer) 0 ''c'' addr (nw_transport N)) N"
| "net_do S (NetAccept answer) N = joined (Listener_Accept answer 0 ''c'' (nw_listener N) (nw_transport N)) N"
| "net_do S (NetClose i answer) N =
     (if i < length (nw_conns N) then
        (case Connection_Close answer (nw_conns N ! i) (qt_base (nw_transport N)) of (err, c, b) \<Rightarrow>
           Ret (N\<lparr>nw_transport := (nw_transport N)\<lparr>qt_base := b\<rparr>, nw_conns := (nw_conns N)[i := c]\<rparr>))
      else Ret N)"
| "net_do S (NetSend i a) N =
     (if i < length (nw_conns N) then Ret (N\<lparr>nw_conns := (nw_conns N)[i := fst (snd (Connection_SendMessage a (nw_conns N ! i) S))]\<rparr>) else Ret N)"
| "net_do S NetUnlisten N = Ret (N\<lparr>nw_listener := snd (Listener_Close None (nw_listener N))\<rparr>)"
| "net_do S NetStop N = Ret (N\<lparr>nw_transport := snd (quic_Close (nw_transport N))\<rparr>)"

fun net_run :: "message_heap \<Rightarrow> net_op list \<Rightarrow> network \<Rightarrow> network outcome" where
  "net_run S [] N = Ret N"
| "net_run S (op # ops) N = bind_outcome (net_do S op N) (net_run S ops)"

definition open_conns :: "Connection list \<Rightarrow> nat" where
  "open_conns cs = length (filter (\<lambda>c. \<not> cn_closed c) cs)"

definition net_inv :: "network \<Rightarrow> bool" where
  "net_inv N \<longleftrightarrow> (let s = bt_stats (qt_base (nw_transport N)) in
     ts_ConnectionsActive s = of_nat (open_conns (nw_conns N)) \<and>
     ts_ConnectionsAccepted s + ts_ConnectionsDialed s = of_nat (length (nw_conns N)) \<and> ts_ErrorsEncountered s = ts_ConnectionsFailed s) \<and>
   0 \<le> gl_MessageBufferSize (qt_global (nw_transport N)) \<and> qk_TLSConfig (qt_config (nw_transport N)) \<noteq> None \<and>
   (\<exists>g. ln_config (nw_listener N) = Some g \<and> 0 \<le> gl_MessageBufferSize g)"

lemma open_conns_snoc [simp]: "open_conns (cs @ [c]) = open_conns cs + (if cn_closed c then 0 else 1)"
  by (simp add: open_conns_def)

lemma open_conns_update:
  "i < length cs \<Longrightarrow> int (open_conns (cs[i := c])) = int (open_conns cs) - (if cn_closed (cs ! i) then 0 else 1) + (if cn_closed c then 0 else 1)"
proof (induction cs arbitrary: i)
  case (Cons d cs)
  show ?case
  proof (cases i)
    case (Suc j)
    then show ?thesis using Cons.IH [of j] Cons.prems by (simp add: open_conns_def split del: if_split) (simp split: if_splits)
  qed (simp add: open_conns_def)
qed simp

lemma new_connection_open: "0 \<le> gl_MessageBufferSize g \<Longrightarrow> \<exists>c. new_connection now cid (Some g) = Ret c \<and> \<not> cn_closed c"
  by (simp add: new_connection_def NewQUICConnection_def conn_SetState_def BaseConnection.defs)

lemma Close_closes: "Connection_Close answer c b = (err, c', b') \<Longrightarrow> cn_closed c' \<and>
    bt_stats b' = (if cn_closed c then bt_stats b else (bt_stats b)\<lparr>ts_ConnectionsActive := ts_ConnectionsActive (bt_stats b) - 1\<rparr>)"
  by (auto simp: Connection_Close_def begin_close_def end_close_def conn_SetState_def conn_MarkClosed_def transport_UpdateStats_def count_stat_def Let_def
      split: if_splits)

lemma Send_keeps_closed: "cn_closed (fst (snd (Connection_SendMessage a c S))) = cn_closed c"
  by (auto simp: Connection_SendMessage_def enqueue_message_def split: prod.splits option.splits if_splits)

lemma net_do_inv: "net_inv N \<Longrightarrow> \<exists>N'. net_do S op N = Ret N' \<and> net_inv N'"
proof (cases op)
  case (NetDial answer addr)
  assume inv: "net_inv N"
  then obtain c where "new_connection 0 ''c'' (Some (qt_global (nw_transport N))) = Ret c" "\<not> cn_closed c"
    using new_connection_open by (metis net_inv_def)
  with inv NetDial show ?thesis
    by (cases answer) (auto simp: joined_def Dial_def DialWithConfig_def net_inv_def Let_def count_on_def transport_UpdateStats_def count_stat_def algebra_simps)
next
  case (NetAccept answer)
  assume inv: "net_inv N"
  then obtain g c where "ln_config (nw_listener N) = Some g" "new_connection 0 ''c'' (Some g) = Ret c" "\<not> cn_closed c"
    using new_connection_open by (metis net_inv_def)
  with inv NetAccept show ?thesis
    by (cases answer) (auto simp: joined_def Listener_Accept_def net_inv_def Let_def count_on_def transport_UpdateStats_def count_stat_def algebra_simps)
next
  case (NetClose i answer)
  assume inv: "net_inv N"
  show ?thesis
  proof (cases "i < length (nw_conns N)")
    case True
    obtain err c b where close: "Connection_Close answer (nw_conns N ! i) (qt_base (nw_transport N)) = (err, c, b)" by (metis prod_cases3)
    note c = Close_closes [OF close]
    have "int (open_conns ((nw_conns N)[i := c])) = int (open_conns (nw_conns N)) - (if cn_closed (nw_conns N ! i) then 0 else 1)"
      using open_conns_update [OF True, of c] c by simp
    from arg_cong [OF this, of "of_int :: int \<Rightarrow> uint64"]
    have "(of_nat (open_conns ((nw_conns N)[i := c])) :: uint64) = of_nat (open_conns (nw_conns N)) - (if cn_closed (nw_conns N ! i) then 0 else 1)"
      by (simp split: if_splits)
    with inv c show ?thesis by (simp add: NetClose True close net_inv_def Let_def)
  next
    case False
    with inv NetClose show ?thesis by simp
  qed
next
  case (NetSend i a)
  assume inv: "net_inv N"
  show ?thesis
  proof (cases "i < length (nw_conns N)")
    case True
    have "int (open_conns ((nw_conns N)[i := fst (snd (Connection_SendMessage a (nw_conns N ! i) S))])) = int (open_conns (nw_conns N))"
      using open_conns_update [OF True] by (simp add: Send_keeps_closed)
    with inv show ?thesis by (simp add: NetSend True net_inv_def Let_def)
  next
    case False
    with inv NetSend show ?thesis by simp
  qed
qed (auto simp: net_inv_def Let_def Listener_Close_def quic_Close_def transport_Close_def)

lemma net_run_inv: "net_inv N \<Longrightarrow> \<exists>N'. net_run S ops N = Ret N' \<and> net_inv N'"
proof (induction ops arbitrary: N)
  case (Cons op ops)
  obtain N' where "net_do S op N = Ret N'" "net_inv N'" using net_do_inv [OF Cons.prems] by blast
  with Cons.IH show ?case by simp
qed simp

text \<open>What the operations of a run come to, in order, given whether the transport and the listener are closed: a closed
  transport answers a dial, and a closed listener an accept, without counting it.\<close>

datatype net_result = Dialed | Accepted | Failed

fun net_results :: "bool \<Rightarrow> bool \<Rightarrow> net_op list \<Rightarrow> net_result list" where
  "net_results stopped unlistened [] = []"
| "net_results stopped unlistened (NetDial answer addr # ops) =
     (if stopped then [] else [if answer = None then Dialed else Failed]) @ net_results stopped unlistened ops"
| "net_results stopped unlistened (NetAccept answer # ops) =
     (if unlistened then [] else [if answer = None then Accepted else Failed]) @ net_results stopped unlistened ops"
| "net_results stopped unlistened (NetUnlisten # ops) = net_results stopped True ops"
| "net_results stopped unlistened (NetStop # ops) = net_results True unlistened ops"
| "net_results stopped unlistened (op # ops) = net_results stopped unlistened ops"

definition counted :: "net_result list \<Rightarrow> network \<Rightarrow> network \<Rightarrow> bool" where
  "counted rs N N' \<longleftrightarrow> (let s = bt_stats (qt_base (nw_transport N)); s' = bt_stats (qt_base (nw_transport N')) in
     ts_ConnectionsDialed s' = ts_ConnectionsDialed s + of_nat (count_list rs Dialed) \<and>
     ts_ConnectionsAccepted s' = ts_ConnectionsAccepted s + of_nat (count_list rs Accepted) \<and>
     ts_ConnectionsFailed s' = ts_ConnectionsFailed s + of_nat (count_list rs Failed))"

lemma counted_refl: "counted [] N N"
  by (simp add: counted_def Let_def)

lemma counted_trans: "counted rs N N1 \<Longrightarrow> counted rs' N1 N2 \<Longrightarrow> counted (rs @ rs') N N2"
  by (simp add: counted_def Let_def)

definition net_stopped :: "network \<Rightarrow> bool" where
  "net_stopped N \<longleftrightarrow> bt_closed (qt_base (nw_transport N))"

definition net_unlistened :: "network \<Rightarrow> bool" where
  "net_unlistened N \<longleftrightarrow> ln_closed (nw_listener N)"

lemma Close_keeps_open: "Connection_Close answer c b = (err, c', b') \<Longrightarrow> bt_closed b' = bt_closed b"
  by (auto simp: Connection_Close_def begin_close_def end_close_def transport_UpdateStats_def Let_def split: if_splits)

lemma net_do_counts:
  assumes inv: "net_inv N" and run: "net_do S op N = Ret N'"
  shows "counted (net_results (net_stopped N) (net_unlistened N) [op]) N N' \<and>
    net_stopped N' = (net_stopped N \<or> op = NetStop) \<and> net_unlistened N' = (net_unlistened N \<or> op = NetUnlisten)"
proof (cases op)
  case (NetDial answer addr)
  obtain c where "new_connection 0 ''c'' (Some (qt_global (nw_transport N))) = Ret c"
    using inv new_connection_open by (metis net_inv_def)
  with inv run NetDial show ?thesis
    by (cases answer) (auto simp: joined_def Dial_def DialWithConfig_def net_inv_def counted_def net_stopped_def net_unlistened_def
        Let_def count_on_def transport_UpdateStats_def count_stat_def split: if_splits)
next
  case (NetAccept answer)
  obtain g c where "ln_config (nw_listener N) = Some g" "new_connection 0 ''c'' (Some g) = Ret c"
    using inv new_connection_open by (metis net_inv_def)
  with run NetAccept show ?thesis
    by (cases answer) (auto simp: joined_def Listener_Accept_def counted_def net_stopped_def net_unlistened_def
        Let_def count_on_def transport_UpdateStats_def count_stat_def split: if_splits)
next
  case (NetClose i answer)
  show ?thesis
  proof (cases "i < length (nw_conns N)")
    case True
    obtain err c b where close: "Connection_Close answer (nw_conns N ! i) (qt_base (nw_transport N)) = (err, c, b)" by (metis prod_cases3)
    with Close_closes [OF close] Close_keeps_open [OF close] run True NetClose show ?thesis
      by (auto simp: counted_def net_stopped_def net_unlistened_def Let_def)
  qed (use run NetClose in \<open>simp add: counted_refl\<close>)
next
  case (NetSend i a)
  with run show ?thesis by (auto simp: counted_def net_stopped_def net_unlistened_def Let_def split: if_splits)
qed (use run in \<open>auto simp: counted_def net_stopped_def net_unlistened_def Let_def Listener_Close_def quic_Close_def transport_Close_def
  split: if_splits\<close>)

lemma net_results_Cons:
  "net_results stopped unlistened (op # ops) = net_results stopped unlistened [op] @
     net_results (stopped \<or> op = NetStop) (unlistened \<or> op = NetUnlisten) ops"
  by (cases op) simp_all

lemma net_run_counts:
  "net_inv N \<Longrightarrow> \<exists>N'. net_run S ops N = Ret N' \<and> net_inv N' \<and> counted (net_results (net_stopped N) (net_unlistened N) ops) N N'"
proof (induction ops arbitrary: N)
  case (Cons op ops)
  obtain N1 where 1: "net_do S op N = Ret N1" "net_inv N1" using net_do_inv [OF Cons.prems] by blast
  note c = net_do_counts [OF Cons.prems 1(1)]
  from Cons.IH [OF 1(2)] obtain N2 where
    2: "net_run S ops N1 = Ret N2" "net_inv N2" "counted (net_results (net_stopped N1) (net_unlistened N1) ops) N1 N2" by blast
  have "counted (net_results (net_stopped N) (net_unlistened N) (op # ops)) N N2"
    using counted_trans [OF conjunct1 [OF c] 2(3)] c by (subst net_results_Cons) simp
  with 1 2 show ?case by auto
qed (simp add: counted_refl)



end
