(* ===== verification/Programs.thy ===== *)
theory Programs
  imports Client_SDK Quic_Transport
begin

text \<open>
  The programs on top of the library: the constructors of \<open>core/protocol/quic/quic.go\<close>, the transports the server and the client
  make for themselves, and the mains of \<open>cmd/server\<close>, \<open>examples/server\<close> and \<open>examples/client\<close>. A main is the sequence of its calls, with
  whatever the goroutines do in between; what it prints is left out.
\<close>

section \<open>Constructors\<close>

text \<open>The answers of the key generation and of \<open>x509.CreateCertificate\<close> are arguments; the certificate itself is not looked at.\<close>

definition GenerateSelfSignedTLS :: "perr option \<Rightarrow> perr option \<Rightarrow> perr + tls_config" where
  "GenerateSelfSignedTLS key certificate = (case key of
       Some err \<Rightarrow> Inl err
     | None \<Rightarrow> (case certificate of
           Some err \<Rightarrow> Inl err
         | None \<Rightarrow> Inr \<lparr>tl_Certificates = 1, tl_InsecureSkipVerify = False, tl_ServerName = [], tl_NextProtos = [''zeusync-quic'']\<rparr>))"

definition NewQUICTransportWithTLS :: "int \<Rightarrow> tls_config option \<Rightarrow> QuicTransport" where
  "NewQUICTransportWithTLS now tls = NewQUICTransport now (Some (DefaultQUICConfig\<lparr>qk_TLSConfig := tls\<rparr>)) (Some DefaultGlobalConfig)"

definition CreateTransport :: "int \<Rightarrow> QuicConfig option \<Rightarrow> QuicTransport" where
  "CreateTransport now config = NewQUICTransport now config (Some DefaultGlobalConfig)"

definition CreateSecureTransport :: "int \<Rightarrow> tls_config option \<Rightarrow> QuicTransport" where
  "CreateSecureTransport now tls = NewQUICTransport now (Some (DefaultQUICConfig\<lparr>qk_TLSConfig := tls\<rparr>)) (Some DefaultGlobalConfig)"

definition CreateDevelopmentTransport :: "perr option \<Rightarrow> perr option \<Rightarrow> int \<Rightarrow> perr + QuicTransport" where
  "CreateDevelopmentTransport key certificate now = (case GenerateSelfSignedTLS key certificate of
       Inl err \<Rightarrow> Inl err
     | Inr tls \<Rightarrow> Inr (NewQUICTransport now (Some (DefaultQUICConfig\<lparr>qk_TLSConfig := Some tls\<rparr>)) (Some DefaultGlobalConfig)))"

definition CreateClientConnection ::
  "(string \<Rightarrow> tls_config \<Rightarrow> quic_settings \<Rightarrow> perr option) \<Rightarrow> int \<Rightarrow> string \<Rightarrow> string \<Rightarrow> ((perr + Connection) \<times> QuicTransport) outcome" where
  "CreateClientConnection dial now cid addr = Dial dial now cid addr (NewQUICTransport now (Some DefaultQUICConfig) (Some DefaultGlobalConfig))"

definition CreateServerListener ::
  "perr option \<Rightarrow> perr option \<Rightarrow> (tls_config option \<Rightarrow> quic_settings \<Rightarrow> perr option) \<Rightarrow> int \<Rightarrow> (perr + Listener) \<times> QuicTransport" where
  "CreateServerListener resolve udp listen now = Listen resolve udp listen (NewQUICTransport now (Some DefaultQUICConfig) (Some DefaultGlobalConfig))"

definition CreateSecureClientConnection ::
  "(string \<Rightarrow> tls_config \<Rightarrow> quic_settings \<Rightarrow> perr option) \<Rightarrow> int \<Rightarrow> string \<Rightarrow> string \<Rightarrow> tls_config option \<Rightarrow>
     ((perr + Connection) \<times> QuicTransport) outcome" where
  "CreateSecureClientConnection dial now cid addr tls = Dial dial now cid addr (NewQUICTransportWithTLS now tls)"

definition CreateSecureServerListener ::
  "perr option \<Rightarrow> perr option \<Rightarrow> (tls_config option \<Rightarrow> quic_settings \<Rightarrow> perr option) \<Rightarrow> int \<Rightarrow> tls_config option \<Rightarrow> (perr + Listener) \<times> QuicTransport" where
  "CreateSecureServerListener resolve udp listen now tls = Listen resolve udp listen (NewQUICTransportWithTLS now tls)"

section \<open>The transports of server and client\<close>

text \<open>The transport of \<open>Server.Start\<close> and of \<open>Client.Connect\<close>, and these two with it.\<close>

definition server_transport :: "int \<Rightarrow> ServerConfig \<Rightarrow> QuicTransport" where
  "server_transport now config = NewQUICTransport now None (Some (DefaultGlobalConfig\<lparr>gl_MaxConnections := sf_MaxClients config,
     gl_MaxMessageSize := sf_MaxMessageSize config, gl_MessageBufferSize := sf_MessageBufferSize config,
     gl_MaxGroups := sf_MaxGroups config, gl_MaxScopes := sf_MaxScopes config\<rparr>))"

definition server_Start_listening ::
  "perr option \<Rightarrow> perr option \<Rightarrow> (tls_config option \<Rightarrow> quic_settings \<Rightarrow> perr option) \<Rightarrow> int \<Rightarrow> Server \<Rightarrow> perr option \<times> Server" where
  "server_Start_listening resolve udp listen now s =
     server_Start (case fst (Listen resolve udp listen (server_transport now (sv_config s))) of Inl err \<Rightarrow> Some err | Inr l \<Rightarrow> None) s"

definition client_transport :: "int \<Rightarrow> ClientConfig \<Rightarrow> QuicTransport" where
  "client_transport now config = NewQUICTransport now None (Some (DefaultGlobalConfig\<lparr>gl_MaxMessageSize := ck_MaxMessageSize config,
     gl_MessageBufferSize := ck_MessageBufferSize config\<rparr>))"

definition Connect_dialing ::
  "(string \<Rightarrow> tls_config \<Rightarrow> quic_settings \<Rightarrow> perr option) \<Rightarrow> int \<Rightarrow> string \<Rightarrow> 'v Client \<Rightarrow> (perr option \<times> 'v Client) outcome" where
  "Connect_dialing dial now cid c =
     (if cl_closed c \<or> cl_connected c then Ret (Connect None c)
      else bind_outcome (Dial dial now cid (ck_ServerAddr (cl_config c)) (client_transport now (cl_config c)))
        (\<lambda>(r, t). Ret (Connect (case r of Inl err \<Rightarrow> Some err | Inr conn \<Rightarrow> None) c)))"

text \<open>
  C39. A server of TLS needs a certificate. What the library answers a listener for a peer that does everything right depends on the TLS
  settings of the listener: it hands over a connection if there is a certificate, and fails if there is none. The listener the server of
  the library makes takes its settings from \<open>generateTLSConfig\<close>, which have none, and so it never accepts a connection. The listeners
  made from the settings of \<open>GenerateSelfSignedTLS\<close> accept.
\<close>

theorem server_needs_certificate:
  assumes needs: "\<And>tls. accept (Some tls) = None \<longleftrightarrow> 0 < tl_Certificates tls"
    and own: "Listen resolve udp listen (server_transport now config) = (Inr l, t)"
    and made: "CreateDevelopmentTransport None None now = Inr t2" "Listen resolve udp listen t2 = (Inr l2, t3)"
  shows "(\<forall>now' cid. \<exists>err. Listener_Accept (accept (ln_tls l)) now' cid l t =
      Ret (Inl err, count_on ''connections_failed'' (count_on ''errors_encountered'' t))) \<and>
    (\<forall>now' cid. \<exists>c t4. Listener_Accept (accept (ln_tls l2)) now' cid l2 t3 = Ret (Inr c, t4))"
proof -
  have "ln_tls l = Some generateTLSConfig" "\<not> ln_closed l"
    using own by (auto simp: server_transport_def NewQUICTransport_def DefaultQUICConfig_def Listen_def ListenWithConfig_def split: if_splits option.splits)
  moreover have "accept (Some generateTLSConfig) \<noteq> None" using needs [of generateTLSConfig] by (simp add: generateTLSConfig_def)
  ultimately have refuses: "\<exists>err. Listener_Accept (accept (ln_tls l)) now' cid l t =
      Ret (Inl err, count_on ''connections_failed'' (count_on ''errors_encountered'' t))" for now' cid
    by (auto simp: Listener_Accept_def)
  define tls where "tls = \<lparr>tl_Certificates = 1, tl_InsecureSkipVerify = False, tl_ServerName = [], tl_NextProtos = [''zeusync-quic'']\<rparr>"
  have tls: "0 < tl_Certificates tls" "qk_TLSConfig (qt_config t2) = Some tls" "qt_global t2 = DefaultGlobalConfig"
    using made(1) by (auto simp: tls_def CreateDevelopmentTransport_def GenerateSelfSignedTLS_def NewQUICTransport_def)
  then have "ln_tls l2 = Some tls" "ln_config l2 = Some DefaultGlobalConfig" "\<not> ln_closed l2"
    using made(2) by (auto simp: Listen_def ListenWithConfig_def split: if_splits option.splits)
  moreover have "accept (Some tls) = None" using needs tls(1) by simp
  ultimately have "\<exists>c t4. Listener_Accept (accept (ln_tls l2)) now' cid l2 t3 = Ret (Inr c, t4)" for now' cid
    using new_connection_open [of DefaultGlobalConfig now' cid] by (auto simp: Listener_Accept_def DefaultGlobalConfig_def)
  with refuses show ?thesis by blast
qed

definition certified :: "tls_config option \<Rightarrow> perr option" where
  "certified tls = (case tls of
       None \<Rightarrow> Some (Plain ''quic: tls.Config not set'')
     | Some tls \<Rightarrow> if 0 < tl_Certificates tls then None else Some (Plain ''tls: no certificates configured''))"

theorem server_needs_certificate_witness:
  "\<exists>l t err. Listen None None (\<lambda>tls q. None) (server_transport 0 DefaultServerConfig) = (Inr l, t) \<and>
     Listener_Accept (certified (ln_tls l)) 1 ''c'' l t = Ret (Inl err, count_on ''connections_failed'' (count_on ''errors_encountered'' t))"
proof -
  have needs: "certified (Some tls) = None \<longleftrightarrow> 0 < tl_Certificates tls" for tls by (simp add: certified_def)
  obtain l t where l: "Listen None None (\<lambda>tls q. None) (server_transport 0 DefaultServerConfig) = (Inr l, t)"
    by (simp add: Listen_def ListenWithConfig_def server_transport_def NewQUICTransport_def NewBaseTransport_def)
  obtain t2 where t2: "CreateDevelopmentTransport None None 0 = Inr t2" "\<not> bt_closed (qt_base t2)"
    by (simp add: CreateDevelopmentTransport_def GenerateSelfSignedTLS_def NewQUICTransport_def NewBaseTransport_def)
  then obtain l2 t3 where "Listen None None (\<lambda>tls q. None) t2 = (Inr l2, t3)"
    by (simp add: Listen_def ListenWithConfig_def)
  from server_needs_certificate [of certified, OF needs l t2(1) this] l show ?thesis by blast
qed

section \<open>The servers\<close>

text \<open>\<open>cmd/server\<close> prints an error of \<open>Start\<close> and goes on to wait for the signal; \<open>examples/server\<close> ends.\<close>

definition cmd_server_start :: "perr option \<Rightarrow> Server" where
  "cmd_server_start listened = snd (server_Start listened (NewServer DefaultServerConfig))"

definition cmd_server_stop :: "Server \<Rightarrow> (perr option \<times> Server) outcome" where
  "cmd_server_stop s = server_Stop s"

definition example_server_config :: ServerConfig where
  "example_server_config = DefaultServerConfig\<lparr>sf_ListenAddr := '':8080'', sf_MaxClients := 1000,
     sf_HealthCheckInterval := 30 * 10 ^ 9, sf_ClientTimeout := 120 * 10 ^ 9\<rparr>"

definition example_server_start :: "perr option \<Rightarrow> Server option" where
  "example_server_start listened = (case server_Start listened (NewServer example_server_config) of
       (Some err, s) \<Rightarrow> None
     | (None, s) \<Rightarrow> Some s)"

text \<open>A round of the reporter: clients, groups and scopes on a tick; the context it waits for otherwise never ends.\<close>

definition example_report :: "Server \<Rightarrow> int \<times> int \<times> int" where
  "example_report s = (let st = GetStats s in (st_ClientCount st, st_GroupCount st, st_ScopeCount st))"

definition example_server_stop :: "Server \<Rightarrow> (perr option \<times> Server) outcome" where
  "example_server_stop s = bind_outcome (server_Stop s) (\<lambda>(err, s). bind_outcome (server_Close s) (\<lambda>(e, s). Ret (err, s)))"

lemma handleMessage_life:
  "sv_running (fst (server_handleMessage mid now pick taken parse cid a s S)) = sv_running s \<and>
   sv_stopped (fst (server_handleMessage mid now pick taken parse cid a s S)) = sv_stopped s \<and>
   sv_closed (fst (server_handleMessage mid now pick taken parse cid a s S)) = sv_closed s"
  by (simp add: server_handleMessage_def handleControlMessage_def handleDataMessage_def handleHeartbeatMessage_def handleJoinGroup_def
      handleLeaveGroup_def handleSubscribeScope_def handleUnsubscribeScope_def send_answer_def on_session_def Let_def split_beta
      split: option.split)

lemma server_step_life:
  "server_step s s' \<Longrightarrow> sv_running s' = sv_running s \<and> sv_stopped s' = sv_stopped s \<and> sv_closed s' = sv_closed s"
proof (induction rule: server_step.induct)
  case (round mid now pick taken parse cid received s S s' S')
  have "sv_running (on_session cid f s) = sv_running s \<and> sv_stopped (on_session cid f s) = sv_stopped s \<and>
      sv_closed (on_session cid f s) = sv_closed s" for f
    by (simp add: on_session_def split: option.split)
  with round show ?case
    using handleMessage_life [of mid now pick taken parse cid _ "on_session cid (\<lambda>x. x\<lparr>ss_LastSeen := now\<rparr>) s" S]
    by (auto simp: handleClient_round_def end_client_def split: option.splits if_splits sum.splits) (metis fst_conv)+
qed (auto simp: accept_connection_def performHealthChecks_def BroadcastToGroup_def split: option.splits)

lemma server_runs:
  assumes "server_step\<^sup>*\<^sup>* s0 s" "server_inv config s0"
  shows "server_inv config s \<and> sv_running s = sv_running s0 \<and> sv_stopped s = sv_stopped s0 \<and> sv_closed s = sv_closed s0"
  using assms by (induction rule: rtranclp_induct) (auto dest: server_step_inv server_step_life)

text \<open>
  The server programs end in order. Whatever clients, messages and health checks do after \<open>Start\<close>, the shutdown of the example server returns
  without an error and without a panic: the server is closed, the health monitor it waits for ends, and the connection of every client has been closed.
  Until then the reporter counts the clients, of which there are at most 1000, and no groups and scopes. \<open>cmd/server\<close>, when it could not listen,
  waits for the signal all the same and then stops a server that is not running.
\<close>

theorem server_programs_end:
  assumes "example_server_start None = Some s0" "server_step\<^sup>*\<^sup>* s0 s"
  shows "example_report s = (int (length (sv_clients s)), 0, 0) \<and> length (sv_clients s) \<le> 1000 \<and>
    (\<exists>s'. example_server_stop s = Ret (None, s') \<and> sv_closed s' \<and> \<not> sv_running s' \<and> healthMonitor_round False now s' = (False, s') \<and>
       sv_closes s' = sv_closes s @ map fst (sv_clients s)) \<and>
    cmd_server_stop (cmd_server_start (Some err)) = Ret (Some ErrServerNotRunning, cmd_server_start (Some err))"
proof -
  have s0: "s0 = (NewServer example_server_config)\<lparr>sv_running := True\<rparr>"
    using assms(1) by (simp add: example_server_start_def server_Start_def NewServer_def)
  have inv0: "server_inv example_server_config s0"
    using server_inv_start [of example_server_config] by (simp add: s0 server_inv_def)
  have life: "server_inv example_server_config s" "sv_running s" "\<not> sv_stopped s" "\<not> sv_closed s"
    using server_runs [OF assms(2) inv0] by (simp_all add: s0 NewServer_def)
  have "sf_MaxClients example_server_config = 1000" by (simp add: example_server_config_def)
  with life(1) have "example_report s = (int (length (sv_clients s)), 0, 0) \<and> length (sv_clients s) \<le> 1000"
    by (simp add: example_report_def GetStats_def server_inv_def Let_def)
  moreover have "\<exists>s'. example_server_stop s = Ret (None, s') \<and> sv_closed s' \<and> \<not> sv_running s' \<and> healthMonitor_round False now s' = (False, s') \<and>
       sv_closes s' = sv_closes s @ map fst (sv_clients s)"
    using life(2-4) by (simp add: example_server_stop_def server_Stop_def server_Close_def healthMonitor_round_def Let_def)
  ultimately show ?thesis by (simp add: cmd_server_stop_def cmd_server_start_def server_Start_def server_Stop_def NewServer_def)
qed

theorem server_programs_end_witness:
  "\<exists>s0 s'. example_server_start None = Some s0 \<and> example_server_stop (accept_connection 1 ''a'' s0) = Ret (None, s') \<and> sv_closes s' = [''a'']"
proof -
  define s0 where "s0 = (NewServer example_server_config)\<lparr>sv_running := True\<rparr>"
  have start: "example_server_start None = Some s0" by (simp add: s0_def example_server_start_def server_Start_def NewServer_def)
  have "map_of (sv_clients s0) ''a'' = None" by (simp add: s0_def NewServer_def)
  from accepts [OF this] have "server_step\<^sup>*\<^sup>* s0 (accept_connection 1 ''a'' s0)" by blast
  from server_programs_end [OF start this, of 0 ErrServerClosed] start show ?thesis
    by (auto simp: s0_def accept_connection_def NewServer_def example_server_config_def)
qed

end
