(* ===== verification/Client_Demo.thy ===== *)
theory Client_Demo
  imports Programs
begin

text \<open>
  The main of \<open>examples/client\<close>: its handlers, its calls and their data, its goroutines round by round, and its end on the signal, among
  whatever the goroutines of the client do. What it prints is left out.
\<close>

section \<open>Setting up\<close>

definition demo_config :: ClientConfig where
  "demo_config = DefaultClientConfig\<lparr>ck_ServerAddr := ''127.0.0.1:8080'', ck_HeartbeatInterval := 10 * 10 ^ 9\<rparr>"

text \<open>The handlers by number, in the order of the source.\<close>

definition demo_client :: "string \<Rightarrow> string Client" where
  "demo_client cid = OnMessage MessageTypeHeartbeat 6 (OnMessage MessageTypeData 5 (OnEvent ''joined_scope'' 4 (OnEvent ''joined_group'' 3
     (OnEvent ''reconnecting'' 2 (OnEvent ''disconnected'' 1 (OnEvent ''connected'' 0 (NewClient cid demo_config)))))))"

definition demo_metadata :: "string Client \<Rightarrow> string Client" where
  "demo_metadata c = client_SetMetadata ''platform'' ''desktop'' (client_SetMetadata ''game_version'' ''1.0.0''
     (client_SetMetadata ''player_name'' ''TestPlayer'' c))"

section \<open>The calls\<close>

text \<open>What it gives to the JSON encoder; a decimal is kept as it is written.\<close>

datatype json = JText string | JInt int | JDecimal string | JObject "(string \<times> json) list"

definition game_data :: "string \<Rightarrow> int \<Rightarrow> json" where
  "game_data cid now = JObject [(''player_id'', JText cid),
     (''position'', JObject [(''x'', JDecimal ''100.5''), (''y'', JDecimal ''200.3''), (''z'', JDecimal ''50.0'')]),
     (''health'', JInt 100), (''timestamp'', JInt now)]"

definition update_data :: "int \<Rightarrow> string \<Rightarrow> int \<Rightarrow> json" where
  "update_data counter cid now = JObject [(''type'', JText ''player_update''), (''counter'', JInt counter), (''client_id'', JText cid),
     (''timestamp'', JInt now)]"

datatype demo_call = SaysHello | SendsGameData | SendsBinary | JoinsLobby | FollowsState | SendsUpdate int | LeavesLobby | UnfollowsState

text \<open>\<open>unix\<close> is the time in seconds, \<open>encode\<close> and \<open>encode_any\<close> are \<open>json.Marshal\<close>.\<close>

fun do_demo_call ::
  "string \<Rightarrow> int \<Rightarrow> int \<Rightarrow> nat option \<Rightarrow> perr option \<Rightarrow> ((string \<times> string) list \<Rightarrow> go_err + bytes) \<Rightarrow> (json \<Rightarrow> perr + bytes) \<Rightarrow> demo_call \<Rightarrow>
     string Client \<Rightarrow> message_heap \<Rightarrow> perr option \<times> string Client \<times> message_heap" where
  "do_demo_call mid now unix pick answer encode encode_any SaysHello c S = SendString mid now answer MessageTypeData ''Hello from Go client!'' c S"
| "do_demo_call mid now unix pick answer encode encode_any SendsGameData c S =
     SendJSON mid now answer MessageTypeData (encode_any (game_data (cl_id c) unix)) c S"
| "do_demo_call mid now unix pick answer encode encode_any SendsBinary c S = SendBytes mid now answer MessageTypeData [1, 2, 3, 4, 5] c S"
| "do_demo_call mid now unix pick answer encode encode_any JoinsLobby c S = JoinGroup mid now pick answer encode ''game_lobby'' c S"
| "do_demo_call mid now unix pick answer encode encode_any FollowsState c S = SubscribeToScope mid now pick answer encode ''game_state'' c S"
| "do_demo_call mid now unix pick answer encode encode_any (SendsUpdate counter) c S =
     SendJSON mid now answer MessageTypeData (encode_any (update_data counter (cl_id c) unix)) c S"
| "do_demo_call mid now unix pick answer encode encode_any LeavesLobby c S = LeaveGroup mid now pick answer encode ''game_lobby'' c S"
| "do_demo_call mid now unix pick answer encode encode_any UnfollowsState c S = UnsubscribeFromScope mid now pick answer encode ''game_state'' c S"

text \<open>
  The first goroutine makes these calls, errors or not, and then goes on in rounds with a counter: a tick, or the end of the context it was
  connected with, which comes 30 seconds after the start. The second pings in its rounds. The answer says whether there is another round.
\<close>

definition demo_calls :: "demo_call list" where
  "demo_calls = [SaysHello, SendsGameData, SendsBinary, JoinsLobby, FollowsState]"

definition updater_round :: "bool \<Rightarrow> int \<Rightarrow> (int \<times> demo_call) option" where
  "updater_round ticked counter = (if ticked then Some (counter + 1, SendsUpdate (counter + 1)) else None)"

definition pinger_round :: "bool \<Rightarrow> perr + int \<Rightarrow> string Client \<Rightarrow> (perr + int) option option" where
  "pinger_round ticked answer c = (if ticked then Some (if cl_connected c then Some (client_Ping answer c) else None) else None)"

definition farewells :: "string Client \<Rightarrow> demo_call list" where
  "farewells c = (if cl_connected c then [LeavesLobby, UnfollowsState] else [])"

section \<open>The main\<close>

text \<open>
  Where main is: before the connection, waiting for the signal, in the calls of the farewell, waiting in \<open>Disconnect\<close>, between \<open>Disconnect\<close>
  and \<open>Close\<close>, in \<open>Close\<close>, waiting in \<open>Close\<close>, at its end; or the process is dead, by \<open>Fatal\<close>. The calls in progress, of which \<open>client_step\<close> speaks, are all main's.
\<close>

datatype demo_phase = Starting | Waiting | Leaving "demo_call list" | Disconnecting | Between | InClosing | ClosingDown | Finished | Dead

inductive demo_step :: "demo_phase \<times> string Client \<times> client_call list \<Rightarrow> demo_phase \<times> string Client \<times> client_call list \<Rightarrow> bool" where
  connected: "Connect None c = (None, c') \<Longrightarrow> demo_step (Starting, c, W) (Waiting, demo_metadata c', W)"
| fatal: "Connect (Some err) c = (Some e, c') \<Longrightarrow> demo_step (Starting, c, W) (Dead, c', W)"
| goroutine: "p \<notin> {Starting, Finished, Dead} \<Longrightarrow> client_step (c, W) (c', W) \<Longrightarrow> demo_step (p, c, W) (p, c', W)"
| calls: "p \<notin> {Starting, Finished, Dead} \<Longrightarrow> do_demo_call mid now unix pick answer encode encode_any k c S = (err, c', S') \<Longrightarrow>
    demo_step (p, c, W) (p, c', W)"
| signal: "demo_step (Waiting, c, W) (Leaving (farewells c), c, W)"
| leaves: "do_demo_call mid now unix pick answer encode encode_any k c S = (err, c', S') \<Longrightarrow> demo_step (Leaving (k # ks), c, W) (Leaving ks, c', W)"
| disconnects: "begin_Disconnect c = (None, c') \<Longrightarrow> demo_step (Leaving [], c, W) (Disconnecting, c', InDisconnect # W)"
| not_connected: "begin_Disconnect c = (Some e, c') \<Longrightarrow> demo_step (Leaving [], c, W) (Between, c', W)"
| disconnected: "stopped c \<Longrightarrow> InDisconnect \<in> set W \<Longrightarrow> demo_step (Disconnecting, c, W) (Between, end_Disconnect c, remove1 InDisconnect W)"
| closes: "\<not> cl_closed c \<Longrightarrow> demo_step (Between, c, W) (InClosing, c\<lparr>cl_closed := True\<rparr>, Closing # W)"
| close_unconnected: "Closing \<in> set W \<Longrightarrow> begin_Disconnect c = (Some e, c') \<Longrightarrow> demo_step (InClosing, c, W) (Finished, end_Close c', remove1 Closing W)"
| close_disconnects: "Closing \<in> set W \<Longrightarrow> begin_Disconnect c = (None, c') \<Longrightarrow> demo_step (InClosing, c, W) (ClosingDown, c', InClose # remove1 Closing W)"
| close_returns: "stopped c \<Longrightarrow> InClose \<in> set W \<Longrightarrow> demo_step (ClosingDown, c, W) (Finished, end_Close (end_Disconnect c), remove1 InClose W)"

section \<open>The end\<close>

lemma SendMessage_life: "lifecycle (fst (snd (client_SendMessage answer a c S))) = lifecycle c"
  by (simp add: client_SendMessage_def lifecycle_def Let_def)

lemma send_control_life: "lifecycle (fst (snd (send_control mid now pick answer encode obj c S))) = lifecycle c"
  by (simp add: send_control_def SendMessage_life split_beta)

lemma lifecycle_books [simp]:
  "lifecycle (c\<lparr>cl_groups := gs\<rparr>) = lifecycle c" "lifecycle (c\<lparr>cl_scopes := gs\<rparr>) = lifecycle c" "lifecycle (c\<lparr>cl_metadata := md\<rparr>) = lifecycle c"
  by (simp_all add: lifecycle_def)

lemma control_life:
  assumes "\<And>c. lifecycle (f c) = lifecycle c"
  shows "lifecycle (fst (snd (case r of (Some err, c, S) \<Rightarrow> (Some err, c, S) | (None, c, S) \<Rightarrow> (None, emitEvent e (f c), S)))) =
    lifecycle (fst (snd r))"
  using assms by (auto split: prod.split option.split)

lemma demo_call_life: "lifecycle (fst (snd (do_demo_call mid now unix pick answer encode encode_any k c S))) = lifecycle c"
proof -
  have "lifecycle (fst (snd (SendBytes mid now answer ty bs c S))) = lifecycle c" for ty bs
    by (simp add: SendBytes_def SendMessage_life split_beta)
  moreover have "lifecycle (fst (snd (SendString mid now answer ty str c S))) = lifecycle c" for ty str
    by (simp add: SendString_def SendMessage_life split_beta)
  ultimately show ?thesis
    by (cases k) (simp_all add: SendJSON_def JoinGroup_def LeaveGroup_def SubscribeToScope_def UnsubscribeFromScope_def
        SendMessage_life send_control_life control_life split: sum.split)
qed

text \<open>Every step but the start is one of the client with its calls, or a call that leaves what \<open>client_step\<close> looks at.\<close>

lemma demo_step_inv: "demo_step x y \<Longrightarrow> client_inv (snd x) \<Longrightarrow> client_inv (snd y)"
proof (induction rule: demo_step.induct)
  case (connected c c' W)
  then have "client_inv (c', W)" using Connect_inv [of c W None] by simp
  moreover have "client_step (c', W) (demo_metadata c', W)"
    by (rule works) (simp add: demo_metadata_def client_SetMetadata_def)
  ultimately show ?case using client_step_inv by (metis snd_conv)
next
  case (fatal err c e c' W)
  then show ?case using Connect_inv [of c W "Some err"] by simp
next
  case (goroutine p c W c')
  then show ?case using client_step_inv by (metis snd_conv)
next
  case (calls p mid now unix pick answer encode encode_any k c S err c' S' W)
  then have "client_step (c, W) (c', W)" using demo_call_life by (metis fst_conv snd_conv works)
  with calls show ?case using client_step_inv by (metis snd_conv)
next
  case (leaves mid now unix pick answer encode encode_any k c S err c' S' ks W)
  then have "client_step (c, W) (c', W)" using demo_call_life by (metis fst_conv snd_conv works)
  with leaves show ?case using client_step_inv by (metis snd_conv)
next
  case (disconnects c c' W)
  then show ?case using client_step_inv [OF client_step.disconnects] by simp
next
  case (not_connected c e c' W)
  then show ?case by (simp add: begin_Disconnect_def split: if_splits)
next
  case (disconnected c W)
  then show ?case using client_step_inv [OF client_step.disconnected] by simp
next
  case (closes c W)
  then show ?case using client_step_inv [OF client_step.closes] by simp
next
  case (close_unconnected W c e c')
  then show ?case using client_step_inv [OF client_step.close_unconnected] by simp
next
  case (close_disconnects W c c')
  then show ?case using client_step_inv [OF client_step.close_disconnects] by simp
next
  case (close_returns c W)
  then show ?case using client_step_inv [OF client_step.close_returns] by simp
qed simp

text \<open>Before its \<open>Close\<close> the client is not closed, and the calls under way are those of the phase.\<close>

definition demo_inv :: "demo_phase \<times> string Client \<times> client_call list \<Rightarrow> bool" where
  "demo_inv x \<longleftrightarrow> client_inv (snd x) \<and>
     (fst x \<in> {Starting, Waiting, Disconnecting, Between} \<or> (\<exists>ks. fst x = Leaving ks) \<longrightarrow> \<not> cl_closed (fst (snd x))) \<and>
     (fst x = Disconnecting \<longrightarrow> InDisconnect \<in> set (snd (snd x)))"

lemma same_calls_closed: "client_step x y \<Longrightarrow> snd x = snd y \<Longrightarrow> cl_closed (fst x) = cl_closed (fst y)"
proof (induction rule: client_step.induct)
  case (connects c W dialed)
  then show ?case by (cases dialed) (simp_all add: Connect_def startWorkers_def)
next
  case (reconnects c W dialed)
  have "cl_closed (reconnect ds c) = cl_closed c" for ds and c :: "'a Client"
    by (induction ds arbitrary: c) (auto simp: Connect_def startWorkers_def split: option.splits prod.splits if_splits)
  then show ?case by (simp add: connection_lost_def)
qed (auto simp: lifecycle_def begin_Disconnect_def end_Disconnect_def end_Close_def split: if_splits)

lemma demo_inv_step: "demo_step x y \<Longrightarrow> demo_inv x \<Longrightarrow> demo_inv y"
proof -
  assume step: "demo_step x y" and inv: "demo_inv x"
  have "client_inv (snd y)" using demo_step_inv [OF step] inv by (simp add: demo_inv_def)
  with step inv show "demo_inv y"
  proof (induction rule: demo_step.induct)
    case (connected c c' W)
    then show ?case by (auto simp: demo_inv_def Connect_def startWorkers_def demo_metadata_def client_SetMetadata_def split: if_splits)
  next
    case (goroutine p c W c')
    then show ?case using same_calls_closed [of "(c, W)" "(c', W)"] by (auto simp: demo_inv_def)
  next
    case (calls p mid now unix pick answer encode encode_any k c S err c' S' W)
    then have "cl_closed c' = cl_closed c" using demo_call_life [of mid now unix pick answer encode encode_any k c S] by (simp add: lifecycle_def)
    with calls show ?case by (auto simp: demo_inv_def)
  next
    case (leaves mid now unix pick answer encode encode_any k c S err c' S' ks W)
    then have "cl_closed c' = cl_closed c" using demo_call_life [of mid now unix pick answer encode encode_any k c S] by (simp add: lifecycle_def)
    with leaves show ?case by (auto simp: demo_inv_def)
  qed (auto simp: demo_inv_def begin_Disconnect_def end_Disconnect_def split: if_splits)
qed

text \<open>
  The example client does not end. Once its connection is there, and whatever comes in between, a signal that finds it connected takes main into
  \<open>Disconnect\<close>, where it waits in every state that follows: \<open>Close\<close>, which would let the health monitor go, comes after it.
\<close>

theorem demo_never_finishes:
  assumes "demo_step\<^sup>*\<^sup>* (Starting, demo_client cid, []) (Disconnecting, c, W)" "demo_step\<^sup>*\<^sup>* (Disconnecting, c, W) (p, c', W')"
  shows "p = Disconnecting \<and> \<not> stopped c' \<and> 0 < cl_monitors c'"
proof -
  have "client_inv (demo_client cid, [])" "\<not> cl_closed (demo_client cid)"
    using client_inv_start [of cid demo_config] by (simp_all add: demo_client_def OnMessage_def OnEvent_def client_inv_def client_ok_def NewClient_def)
  then have "demo_inv (Starting, demo_client cid, [])" by (simp add: demo_inv_def)
  with assms(1) have inv: "demo_inv (Disconnecting, c, W)" by (induction rule: rtranclp_induct) (auto intro: demo_inv_step)
  have waits: "\<not> stopped c \<and> 0 < cl_monitors c" if "demo_inv (Disconnecting, c, W)" for c W
  proof -
    have "client_inv (c, W)" "InDisconnect \<in> set W" "\<not> cl_closed c" using that by (simp_all add: demo_inv_def)
    moreover from this have "\<not> cl_done c \<and> cl_conn c \<noteq> None"
      using count_list_pos [of InDisconnect W] by (auto simp: client_inv_def client_ok_def)
    ultimately show ?thesis using not_stopped(2) [of c W] by (auto simp: client_inv_def client_ok_def)
  qed
  have "fst y = Disconnecting \<and> demo_inv y" if "demo_step\<^sup>*\<^sup>* (Disconnecting, c, W) y" for y
    using that
  proof (induction rule: rtranclp_induct)
    case base
    show ?case using inv by simp
  next
    case (step y z)
    then have z: "demo_inv z" using demo_inv_step by blast
    have "\<not> stopped (fst (snd y))" using waits [of "fst (snd y)" "snd (snd y)"] step.IH by (metis prod.collapse)
    with step have "fst z = Disconnecting" by (auto elim: demo_step.cases)
    with z show ?case by simp
  qed
  from this [OF assms(2)] waits [of c' W'] show ?thesis by auto
qed

theorem demo_never_finishes_witness:
  "\<exists>c W. demo_step\<^sup>*\<^sup>* (Starting, demo_client ''c'', []) (Disconnecting, c, W) \<and> \<not> stopped c"
proof -
  define c1 where "c1 = demo_metadata (snd (Connect None (demo_client ''c'')))"
  have fields: "cl_connected (demo_client ''c'') = False" "cl_closed (demo_client ''c'') = False"
    by (simp_all add: demo_client_def OnMessage_def OnEvent_def NewClient_def)
  have on: "cl_connected c1" "cl_conn c1 = Some False"
    by (simp_all add: c1_def demo_metadata_def client_SetMetadata_def Connect_def startWorkers_def fields)
  have run: "demo_step (Starting, demo_client ''c'', []) (Waiting, c1, [])"
    unfolding c1_def by (rule connected) (simp add: Connect_def fields)
  have leave: "demo_step (Waiting, c1, []) (Leaving [LeavesLobby, UnfollowsState], c1, [])"
    using signal [of c1 "[]"] on by (simp add: farewells_def)
  have still: "\<exists>c'. demo_step (Leaving (k # ks), c, W) (Leaving ks, c', W) \<and> cl_connected c' = cl_connected c"
    for k ks and c :: "string Client" and W
  proof -
    let ?S = "\<lparr>mh_heap = [], mh_pool = [], mh_gets = 0, mh_puts = 0\<rparr>"
    let ?r = "do_demo_call ''m'' 0 0 None None (\<lambda>obj. Inr []) (\<lambda>j. Inr []) k c ?S"
    have "demo_step (Leaving (k # ks), c, W) (Leaving ks, fst (snd ?r), W)" by (rule leaves [where err = "fst ?r" and S' = "snd (snd ?r)"]) simp
    moreover have "cl_connected (fst (snd ?r)) = cl_connected c"
      using demo_call_life [of "''m''" 0 0 None None "\<lambda>obj. Inr []" "\<lambda>j. Inr []" k c ?S] by (simp add: lifecycle_def)
    ultimately show ?thesis by blast
  qed
  obtain c2 where c2: "demo_step (Leaving [LeavesLobby, UnfollowsState], c1, []) (Leaving [UnfollowsState], c2, [])" "cl_connected c2"
    using still [of LeavesLobby "[UnfollowsState]" c1 "[]"] on by auto
  obtain c3 where c3: "demo_step (Leaving [UnfollowsState], c2, []) (Leaving [], c3, [])" "cl_connected c3"
    using still [of UnfollowsState "[]" c2 "[]"] c2(2) by auto
  then obtain c4 where "demo_step (Leaving [], c3, []) (Disconnecting, c4, [InDisconnect])"
    using disconnects [of c3 _ "[]"] by (auto simp: begin_Disconnect_def)
  with run leave c2(1) c3(1) have reach: "demo_step\<^sup>*\<^sup>* (Starting, demo_client ''c'', []) (Disconnecting, c4, [InDisconnect])"
    by (meson converse_rtranclp_into_rtranclp rtranclp.rtrancl_refl)
  from demo_never_finishes [OF reach rtranclp.rtrancl_refl] reach show ?thesis by blast
qed

end
