(* ===== verification/Log_Fields.thy ===== *)
theory Log_Fields
  imports Zeus_Prelude
begin

text \<open>
  The logger of \<open>internal/core/observability/log\<close>: levels, fields and their conversion for the logging library. What the library
  writes is the list of the calls it gets. A value of type \<open>any\<close> is nil or a content with the name of its type.
\<close>

section \<open>Levels\<close>

type_synonym Level = "8 word"

definition LevelDebug :: Level where "LevelDebug = 0"
definition LevelInfo :: Level where "LevelInfo = 1"
definition LevelWarn :: Level where "LevelWarn = 2"
definition LevelError :: Level where "LevelError = 3"
definition LevelFatal :: Level where "LevelFatal = 4"

lemmas level_defs = LevelDebug_def LevelInfo_def LevelWarn_def LevelError_def LevelFatal_def

text \<open>The levels of the library, by increasing severity; a level is enabled if it is not below the one set.\<close>

datatype zap_level = ZapDebug | ZapInfo | ZapWarn | ZapError | ZapDPanic | ZapPanic | ZapFatal

primrec severity :: "zap_level \<Rightarrow> int" where
  "severity ZapDebug = - 1"
| "severity ZapInfo = 0"
| "severity ZapWarn = 1"
| "severity ZapError = 2"
| "severity ZapDPanic = 3"
| "severity ZapPanic = 4"
| "severity ZapFatal = 5"

instantiation zap_level :: linorder
begin

definition less_eq_zap_level :: "zap_level \<Rightarrow> zap_level \<Rightarrow> bool" where
  "l \<le> l' \<longleftrightarrow> severity l \<le> severity l'"

definition less_zap_level :: "zap_level \<Rightarrow> zap_level \<Rightarrow> bool" where
  "l < l' \<longleftrightarrow> severity l < severity l'"

instance
proof
  fix l l' :: zap_level
  show "l \<le> l' \<Longrightarrow> l' \<le> l \<Longrightarrow> l = l'"
    by (cases l; cases l') (simp_all add: less_eq_zap_level_def)
qed (auto simp: less_eq_zap_level_def less_zap_level_def)

end

definition zap_enabled :: "zap_level \<Rightarrow> zap_level \<Rightarrow> bool" where
  "zap_enabled least l \<longleftrightarrow> least \<le> l"

definition toZapLevel :: "Level \<Rightarrow> zap_level" where
  "toZapLevel level = (if level = LevelDebug then ZapDebug else if level = LevelInfo then ZapInfo else if level = LevelWarn then ZapWarn
     else if level = LevelError then ZapError else if level = LevelFatal then ZapFatal else ZapInfo)"

fun fromZapLevel :: "zap_level \<Rightarrow> Level" where
  "fromZapLevel ZapDebug = LevelDebug"
| "fromZapLevel ZapInfo = LevelInfo"
| "fromZapLevel ZapWarn = LevelWarn"
| "fromZapLevel ZapError = LevelError"
| "fromZapLevel ZapFatal = LevelFatal"
| "fromZapLevel _ = LevelInfo"

section \<open>Fields\<close>

datatype FieldType = UnknownType | BoolType | ByteStringType | Complex128Type | Complex64Type | DurationType | Float64Type | Float32Type
  | IntType | Int64Type | Int32Type | Int16Type | Int8Type | StringType | TimeType | TimeFullType | UintType | Uint64Type | Uint32Type
  | Uint16Type | Uint8Type | UintptrType | ErrorType

type_synonym 'v log_value = "(string \<times> 'v) option"

record 'v Field =
  fd_Key :: string
  fd_Type :: FieldType
  fd_Value :: "'v log_value"

definition make_field :: "FieldType \<Rightarrow> string \<Rightarrow> 'v log_value \<Rightarrow> 'v Field" where
  "make_field t key x = \<lparr>fd_Key = key, fd_Type = t, fd_Value = x\<rparr>"

definition log_Any :: "string \<Rightarrow> 'v log_value \<Rightarrow> 'v Field" where "log_Any = make_field UnknownType"
definition log_Bool :: "string \<Rightarrow> 'v \<Rightarrow> 'v Field" where "log_Bool key x = make_field BoolType key (Some (''bool'', x))"
definition log_ByteString :: "string \<Rightarrow> 'v \<Rightarrow> 'v Field" where "log_ByteString key x = make_field ByteStringType key (Some (''[]uint8'', x))"
definition log_Complex128 :: "string \<Rightarrow> 'v \<Rightarrow> 'v Field" where "log_Complex128 key x = make_field Complex128Type key (Some (''complex128'', x))"
definition log_Complex64 :: "string \<Rightarrow> 'v \<Rightarrow> 'v Field" where "log_Complex64 key x = make_field Complex64Type key (Some (''complex64'', x))"
definition log_Duration :: "string \<Rightarrow> 'v \<Rightarrow> 'v Field" where "log_Duration key x = make_field DurationType key (Some (''time.Duration'', x))"
definition log_Float64 :: "string \<Rightarrow> 'v \<Rightarrow> 'v Field" where "log_Float64 key x = make_field Float64Type key (Some (''float64'', x))"
definition log_Float32 :: "string \<Rightarrow> 'v \<Rightarrow> 'v Field" where "log_Float32 key x = make_field Float32Type key (Some (''float32'', x))"
definition log_Int :: "string \<Rightarrow> 'v \<Rightarrow> 'v Field" where "log_Int key x = make_field IntType key (Some (''int'', x))"
definition log_Int64 :: "string \<Rightarrow> 'v \<Rightarrow> 'v Field" where "log_Int64 key x = make_field Int64Type key (Some (''int64'', x))"
definition log_Int32 :: "string \<Rightarrow> 'v \<Rightarrow> 'v Field" where "log_Int32 key x = make_field Int32Type key (Some (''int32'', x))"
definition log_Int16 :: "string \<Rightarrow> 'v \<Rightarrow> 'v Field" where "log_Int16 key x = make_field Int16Type key (Some (''int16'', x))"
definition log_Int8 :: "string \<Rightarrow> 'v \<Rightarrow> 'v Field" where "log_Int8 key x = make_field Int8Type key (Some (''int8'', x))"
definition log_String :: "string \<Rightarrow> 'v \<Rightarrow> 'v Field" where "log_String key x = make_field StringType key (Some (''string'', x))"
definition log_Time :: "string \<Rightarrow> 'v \<Rightarrow> 'v Field" where "log_Time key x = make_field TimeType key (Some (''time.Time'', x))"
definition log_TimeFull :: "string \<Rightarrow> 'v \<Rightarrow> 'v Field" where "log_TimeFull key x = make_field TimeFullType key (Some (''time.Time'', x))"
definition log_Uint :: "string \<Rightarrow> 'v \<Rightarrow> 'v Field" where "log_Uint key x = make_field UintType key (Some (''uint'', x))"
definition log_Uint64 :: "string \<Rightarrow> 'v \<Rightarrow> 'v Field" where "log_Uint64 key x = make_field Uint64Type key (Some (''uint64'', x))"
definition log_Uint32 :: "string \<Rightarrow> 'v \<Rightarrow> 'v Field" where "log_Uint32 key x = make_field Uint32Type key (Some (''uint32'', x))"
definition log_Uint16 :: "string \<Rightarrow> 'v \<Rightarrow> 'v Field" where "log_Uint16 key x = make_field Uint16Type key (Some (''uint16'', x))"
definition log_Uint8 :: "string \<Rightarrow> 'v \<Rightarrow> 'v Field" where "log_Uint8 key x = make_field Uint8Type key (Some (''uint8'', x))"
definition log_Uintptr :: "string \<Rightarrow> 'v \<Rightarrow> 'v Field" where "log_Uintptr key x = make_field UintptrType key (Some (''uintptr'', x))"

text \<open>An error is nil or has a type of its own.\<close>

definition log_ErrorWithKey :: "string \<Rightarrow> 'v log_value \<Rightarrow> 'v Field" where "log_ErrorWithKey = make_field ErrorType"
definition log_Error :: "'v log_value \<Rightarrow> 'v Field" where "log_Error = log_ErrorWithKey ''error''"

lemmas log_constructors = make_field_def log_Any_def log_Bool_def log_ByteString_def log_Complex128_def log_Complex64_def log_Duration_def
  log_Float64_def log_Float32_def log_Int_def log_Int64_def log_Int32_def log_Int16_def log_Int8_def log_String_def log_Time_def
  log_TimeFull_def log_Uint_def log_Uint64_def log_Uint32_def log_Uint16_def log_Uint8_def log_Uintptr_def log_ErrorWithKey_def log_Error_def

section \<open>Conversion\<close>

text \<open>
  A field of the library: the name of its constructor, the key, the value. \<open>is_error\<close> tells the types that implement \<open>error\<close>. The type
  assertion on a value of another type, or on nil, panics.
\<close>

type_synonym 'v zap_entry = "string \<times> string \<times> 'v log_value"

definition assert_type :: "string \<Rightarrow> 'v log_value \<Rightarrow> 'v log_value outcome" where
  "assert_type t x = (case x of Some (u, y) \<Rightarrow> if u = t then Ret x else Panic InconsistentType | None \<Rightarrow> Panic InconsistentType)"

definition assert_error :: "(string \<Rightarrow> bool) \<Rightarrow> 'v log_value \<Rightarrow> 'v log_value outcome" where
  "assert_error is_error x = (case x of Some (u, y) \<Rightarrow> if is_error u then Ret x else Panic InconsistentType | None \<Rightarrow> Panic InconsistentType)"

definition typed_field :: "string \<Rightarrow> string \<Rightarrow> 'v Field \<Rightarrow> 'v zap_entry outcome" where
  "typed_field constructor t f = bind_outcome (assert_type t (fd_Value f)) (\<lambda>x. Ret (constructor, fd_Key f, x))"

definition zap_field :: "(string \<Rightarrow> bool) \<Rightarrow> 'v Field \<Rightarrow> 'v zap_entry outcome" where
  "zap_field is_error f = (case fd_Type f of
       BoolType \<Rightarrow> typed_field ''Bool'' ''bool'' f
     | ByteStringType \<Rightarrow> typed_field ''ByteString'' ''[]uint8'' f
     | Complex128Type \<Rightarrow> typed_field ''Complex128'' ''complex128'' f
     | Complex64Type \<Rightarrow> typed_field ''Complex64'' ''complex64'' f
     | DurationType \<Rightarrow> typed_field ''Duration'' ''time.Duration'' f
     | Float64Type \<Rightarrow> typed_field ''Float64'' ''float64'' f
     | Float32Type \<Rightarrow> typed_field ''Float32'' ''float32'' f
     | IntType \<Rightarrow> typed_field ''Int'' ''int'' f
     | Int64Type \<Rightarrow> typed_field ''Int64'' ''int64'' f
     | Int32Type \<Rightarrow> typed_field ''Int32'' ''int32'' f
     | Int16Type \<Rightarrow> typed_field ''Int16'' ''int16'' f
     | Int8Type \<Rightarrow> typed_field ''Int8'' ''int8'' f
     | StringType \<Rightarrow> typed_field ''String'' ''string'' f
     | UintType \<Rightarrow> typed_field ''Uint'' ''uint'' f
     | Uint64Type \<Rightarrow> typed_field ''Uint64'' ''uint64'' f
     | Uint32Type \<Rightarrow> typed_field ''Uint32'' ''uint32'' f
     | Uint16Type \<Rightarrow> typed_field ''Int16'' ''int16'' f
     | Uint8Type \<Rightarrow> typed_field ''Int8'' ''int8'' f
     | UintptrType \<Rightarrow> typed_field ''Uintptr'' ''uintptr'' f
     | ErrorType \<Rightarrow> bind_outcome (assert_error is_error (fd_Value f)) (\<lambda>x. Ret (''NamedError'', fd_Key f, x))
     | _ \<Rightarrow> Ret (''Any'', fd_Key f, fd_Value f))"

fun toZapFields :: "(string \<Rightarrow> bool) \<Rightarrow> 'v Field list \<Rightarrow> 'v zap_entry list outcome" where
  "toZapFields is_error [] = Ret []"
| "toZapFields is_error (f # fs) = bind_outcome (zap_field is_error f) (\<lambda>z. bind_outcome (toZapFields is_error fs) (\<lambda>zs. Ret (z # zs)))"

section \<open>The logger\<close>

text \<open>\<open>lg_core\<close> is the level the logger of the library was built with. A record has the level, the message and the fields, those of \<open>With\<close> first.\<close>

record 'v Logger =
  lg_core :: zap_level
  lg_fields :: "'v zap_entry list"
  lg_level :: zap_level
  lg_written :: "(zap_level \<times> string \<times> 'v zap_entry list) list"

definition NewLogger :: "Level \<Rightarrow> 'v Logger" where
  "NewLogger level = \<lparr>lg_core = toZapLevel level, lg_fields = [], lg_level = toZapLevel level, lg_written = []\<rparr>"

definition zap_Log :: "zap_level \<Rightarrow> string \<Rightarrow> 'v zap_entry list \<Rightarrow> 'v Logger \<Rightarrow> 'v Logger" where
  "zap_Log level msg zs l = (if zap_enabled (lg_core l) level then l\<lparr>lg_written := lg_written l @ [(level, msg, lg_fields l @ zs)]\<rparr> else l)"

definition log_at :: "zap_level \<Rightarrow> (string \<Rightarrow> bool) \<Rightarrow> string \<Rightarrow> 'v Field list \<Rightarrow> 'v Logger \<Rightarrow> 'v Logger outcome" where
  "log_at level is_error msg fs l = bind_outcome (toZapFields is_error fs) (\<lambda>zs. Ret (zap_Log level msg zs l))"

definition checkLevel :: "Level \<Rightarrow> 'v Logger \<Rightarrow> bool" where
  "checkLevel level l = zap_enabled (lg_level l) (toZapLevel level)"

definition Logger_Log :: "(string \<Rightarrow> bool) \<Rightarrow> Level \<Rightarrow> string \<Rightarrow> 'v Field list \<Rightarrow> 'v Logger \<Rightarrow> 'v Logger outcome" where
  "Logger_Log is_error level msg fs l = (if \<not> checkLevel level l then Ret l else log_at (toZapLevel level) is_error msg fs l)"

definition Logger_Debug :: "(string \<Rightarrow> bool) \<Rightarrow> string \<Rightarrow> 'v Field list \<Rightarrow> 'v Logger \<Rightarrow> 'v Logger outcome" where
  "Logger_Debug = log_at ZapDebug"

definition Logger_Info :: "(string \<Rightarrow> bool) \<Rightarrow> string \<Rightarrow> 'v Field list \<Rightarrow> 'v Logger \<Rightarrow> 'v Logger outcome" where
  "Logger_Info = log_at ZapInfo"

definition Logger_Warn :: "(string \<Rightarrow> bool) \<Rightarrow> string \<Rightarrow> 'v Field list \<Rightarrow> 'v Logger \<Rightarrow> 'v Logger outcome" where
  "Logger_Warn = log_at ZapWarn"

definition Logger_Error :: "(string \<Rightarrow> bool) \<Rightarrow> string \<Rightarrow> 'v Field list \<Rightarrow> 'v Logger \<Rightarrow> 'v Logger outcome" where
  "Logger_Error = log_at ZapError"

definition Logger_With :: "(string \<Rightarrow> bool) \<Rightarrow> 'v Field list \<Rightarrow> 'v Logger \<Rightarrow> 'v Logger outcome" where
  "Logger_With is_error fs l = bind_outcome (toZapFields is_error fs) (\<lambda>zs. Ret (l\<lparr>lg_fields := lg_fields l @ zs\<rparr>))"

definition SetLevel :: "Level \<Rightarrow> 'v Logger \<Rightarrow> 'v Logger" where
  "SetLevel level l = l\<lparr>lg_level := toZapLevel level\<rparr>"

definition GetLevel :: "'v Logger \<Rightarrow> Level" where
  "GetLevel l = fromZapLevel (lg_level l)"

section \<open>Fields of the constructors\<close>

text \<open>The fields the constructors make, but for those of \<open>Uint16\<close>, \<open>Uint8\<close> and a nil error.\<close>

definition well_made :: "(string \<Rightarrow> bool) \<Rightarrow> 'v Field \<Rightarrow> bool" where
  "well_made is_error f \<longleftrightarrow> (\<exists>key x v. f \<in> {log_Any key v, log_Bool key x, log_ByteString key x, log_Complex128 key x, log_Complex64 key x,
     log_Duration key x, log_Float64 key x, log_Float32 key x, log_Int key x, log_Int64 key x, log_Int32 key x, log_Int16 key x, log_Int8 key x,
     log_String key x, log_Time key x, log_TimeFull key x, log_Uint key x, log_Uint64 key x, log_Uint32 key x, log_Uintptr key x}) \<or>
   (\<exists>key t x. is_error t \<and> f \<in> {log_ErrorWithKey key (Some (t, x)), log_Error (Some (t, x))})"

lemma typed_field_same: "fd_Value f = Some (t, x) \<Longrightarrow> typed_field constructor t f = Ret (constructor, fd_Key f, fd_Value f)"
  by (simp add: typed_field_def assert_type_def)

lemma well_made_converts: "well_made is_error f \<Longrightarrow> \<exists>constructor. zap_field is_error f = Ret (constructor, fd_Key f, fd_Value f)"
  unfolding well_made_def
  by (elim disjE exE conjE insertE emptyE; simp add: log_constructors zap_field_def typed_field_same assert_error_def)

lemma toZapFields_well_made:
  "list_all (well_made is_error) fs \<Longrightarrow> \<exists>zs. toZapFields is_error fs = Ret zs \<and> map snd zs = map (\<lambda>f. (fd_Key f, fd_Value f)) fs"
proof (induction fs)
  case (Cons f fs)
  then obtain constructor zs where "zap_field is_error f = Ret (constructor, fd_Key f, fd_Value f)" "toZapFields is_error fs = Ret zs"
      "map snd zs = map (\<lambda>f. (fd_Key f, fd_Value f)) fs"
    using well_made_converts by fastforce
  then show ?case by simp
qed simp

lemma toZapFields_append: "toZapFields is_error fs = Ret zs \<Longrightarrow> toZapFields is_error (fs @ gs) = bind_outcome (toZapFields is_error gs) (\<lambda>zs'. Ret (zs @ zs'))"
proof (induction fs arbitrary: zs)
  case (Cons f fs)
  then show ?case by (cases "toZapFields is_error gs") (auto simp: outcome_simps)
qed (cases "toZapFields is_error gs", simp_all)

text \<open>
  Logging of fields. Fields made by the constructors reach the record with their keys and values, one for each and in order, after those of
  \<open>With\<close>. But a field of \<open>Uint16\<close>, of \<open>Uint8\<close> or of a nil error, wherever it stands, makes the call panic, even if its level is
  not enabled.
\<close>

theorem log_fields:
  assumes "list_all (well_made is_error) fs" and "bad \<in> {log_Uint16 key x, log_Uint8 key x, log_Error None}"
  shows "(\<exists>zs. toZapFields is_error fs = Ret zs \<and> map snd zs = map (\<lambda>f. (fd_Key f, fd_Value f)) fs \<and>
      Logger_Error is_error msg fs l = Ret (zap_Log ZapError msg zs l) \<and>
      (lg_core l \<le> ZapError \<longrightarrow> lg_written (zap_Log ZapError msg zs l) = lg_written l @ [(ZapError, msg, lg_fields l @ zs)])) \<and>
    Logger_Debug is_error msg (fs @ bad # gs) l = Panic InconsistentType \<and> Logger_With is_error (fs @ bad # gs) l = Panic InconsistentType"
proof -
  obtain zs where zs: "toZapFields is_error fs = Ret zs" "map snd zs = map (\<lambda>f. (fd_Key f, fd_Value f)) fs"
    using toZapFields_well_made [OF assms(1)] by blast
  have "zap_field is_error bad = Panic InconsistentType"
    using assms(2) by (auto simp: log_constructors zap_field_def typed_field_def assert_type_def assert_error_def)
  then have "toZapFields is_error (fs @ bad # gs) = Panic InconsistentType" by (simp add: toZapFields_append [OF zs(1)])
  with zs show ?thesis by (simp add: Logger_Error_def Logger_Debug_def Logger_With_def log_at_def zap_Log_def zap_enabled_def)
qed

theorem log_fields_witness:
  "Logger_Debug (\<lambda>t. False) ''m'' ([log_Int ''n'' (5 :: nat), log_String ''s'' 6] @ log_Uint8 ''b'' 7 # []) (NewLogger LevelError) = Panic InconsistentType"
proof -
  have "well_made (\<lambda>t. False) (log_Int ''n'' (5 :: nat))" "well_made (\<lambda>t. False) (log_String ''s'' (6 :: nat))"
    unfolding well_made_def by blast+
  with log_fields [of "\<lambda>t. False" "[log_Int ''n'' (5 :: nat), log_String ''s'' 6]" "log_Uint8 ''b'' 7" "''b''" 7 "''m''" "NewLogger LevelError" "[]"]
  show ?thesis by simp
qed

text \<open>
  The level of a logger. \<open>GetLevel\<close> answers what \<open>SetLevel\<close> set for the five levels of the library, and \<open>LevelInfo\<close> for any other,
  \<open>LevelSilent\<close> and \<open>LevelNone\<close> included. A record of \<open>Log\<close> is written if its level is enabled by the level set and by that of \<open>New\<close>; the other methods
  go by the level of \<open>New\<close> only, so \<open>SetLevel\<close> does not silence them, nor can it make \<open>Log\<close> write more.
\<close>

theorem log_levels:
  assumes "toZapFields is_error fs = Ret zs"
  shows "GetLevel (SetLevel level l) = (if level \<le> LevelFatal then level else LevelInfo) \<and>
    Logger_Log is_error level' msg fs (SetLevel level (NewLogger level0)) =
      Ret ((SetLevel level (NewLogger level0))\<lparr>lg_written := (if toZapLevel level \<le> toZapLevel level' \<and>
        toZapLevel level0 \<le> toZapLevel level' then [(toZapLevel level', msg, zs)] else [])\<rparr>) \<and>
    Logger_Info is_error msg fs (SetLevel level (NewLogger LevelInfo)) =
      Ret ((SetLevel level (NewLogger LevelInfo))\<lparr>lg_written := [(ZapInfo, msg, zs)]\<rparr>)"
proof (intro conjI)
  have small: "level = 0 \<or> level = 1 \<or> level = 2 \<or> level = 3 \<or> level = 4" if "level \<le> 4"
  proof -
    have "unat level \<in> {0, 1, 2, 3, 4}" using that by (auto simp: word_le_nat_alt)
    then show ?thesis by (auto simp: word_unat_eq_iff)
  qed
  show "GetLevel (SetLevel level l) = (if level \<le> LevelFatal then level else LevelInfo)"
  proof (cases "level \<le> LevelFatal")
    case True
    then show ?thesis using small by (auto simp: GetLevel_def SetLevel_def toZapLevel_def level_defs)
  next
    case False
    then have "level \<noteq> 0 \<and> level \<noteq> 1 \<and> level \<noteq> 2 \<and> level \<noteq> 3 \<and> level \<noteq> 4" by (auto simp: level_defs)
    then show ?thesis using False by (simp add: GetLevel_def SetLevel_def toZapLevel_def level_defs)
  qed
  show "Logger_Log is_error level' msg fs (SetLevel level (NewLogger level0)) =
      Ret ((SetLevel level (NewLogger level0))\<lparr>lg_written := (if toZapLevel level \<le> toZapLevel level' \<and>
        toZapLevel level0 \<le> toZapLevel level' then [(toZapLevel level', msg, zs)] else [])\<rparr>)"
    by (simp add: Logger_Log_def checkLevel_def log_at_def assms zap_Log_def zap_enabled_def SetLevel_def NewLogger_def)
  show "Logger_Info is_error msg fs (SetLevel level (NewLogger LevelInfo)) =
      Ret ((SetLevel level (NewLogger LevelInfo))\<lparr>lg_written := [(ZapInfo, msg, zs)]\<rparr>)"
    by (simp add: Logger_Info_def log_at_def assms zap_Log_def zap_enabled_def SetLevel_def NewLogger_def toZapLevel_def level_defs)
qed

theorem log_levels_witness:
  "GetLevel (SetLevel 101 (NewLogger 0 :: nat Logger)) = LevelInfo \<and>
   Logger_Info (\<lambda>t. False) ''m'' [] (SetLevel LevelError (NewLogger LevelInfo :: nat Logger)) =
     Ret ((SetLevel LevelError (NewLogger LevelInfo))\<lparr>lg_written := [(ZapInfo, ''m'', [])]\<rparr>)"
proof -
  have "toZapFields (\<lambda>t. False) ([] :: nat Field list) = Ret []" by simp
  from log_levels [OF this, of 101 "NewLogger 0 :: nat Logger" 0 "''m''" 0] log_levels [OF this, of LevelError "NewLogger 0 :: nat Logger" 0 "''m''" 0]
  show ?thesis by (auto simp: level_defs)
qed

end
