(* ===== verification/Log_Slog.thy ===== *)
theory Log_Slog
  imports Log_Fields
begin

text \<open>
  The rest of \<open>core/observability/log/logger.go\<close>: the logger that is shared through \<open>Provide\<close>, \<open>Fatal\<close> and
  \<open>WithContext\<close>, and the conversion of levels and attributes of the standard library's \<open>slog\<close>.
\<close>

section \<open>The shared logger\<close>

text \<open>The loggers made so far, by their address, the shared one, and whether the \<open>sync.Once\<close> has run.\<close>

record 'v log_global =
  lo_made :: "'v Logger list"
  lo_inner :: "nat option"
  lo_once :: bool

definition log_start :: "'v log_global" where
  "log_start = \<lparr>lo_made = [], lo_inner = None, lo_once = False\<rparr>"

definition log_New :: "Level \<Rightarrow> 'v log_global \<Rightarrow> nat \<times> 'v log_global" where
  "log_New level g =
     (let i = length (lo_made g); g = g\<lparr>lo_made := lo_made g @ [NewLogger level]\<rparr>
      in (i, if lo_once g then g else g\<lparr>lo_inner := Some i, lo_once := True\<rparr>))"

definition log_Provide :: "'v log_global \<Rightarrow> nat \<times> 'v log_global" where
  "log_Provide g = (case lo_inner g of
       Some i \<Rightarrow> (i, g)
     | None \<Rightarrow> (let (i, g) = log_New LevelInfo g in (i, g\<lparr>lo_inner := Some i\<rparr>)))"

text \<open>\<open>Fatal\<close> writes like the others and ends the process, which the flag says.\<close>

definition Logger_Fatal :: "(string \<Rightarrow> bool) \<Rightarrow> string \<Rightarrow> 'v Field list \<Rightarrow> 'v Logger \<Rightarrow> ('v Logger \<times> bool) outcome" where
  "Logger_Fatal is_error msg fs l = bind_outcome (log_at ZapFatal is_error msg fs l) (\<lambda>l. Ret (l, True))"

definition Logger_WithContext :: "'c \<Rightarrow> 'v Logger \<Rightarrow> 'v Logger" where
  "Logger_WithContext ctx l = l"

text \<open>Any number of calls of \<open>New\<close> and \<open>Provide\<close> of a program.\<close>

datatype log_call = CallNew Level | CallProvide

fun log_calls :: "log_call list \<Rightarrow> 'v log_global \<Rightarrow> 'v log_global" where
  "log_calls [] g = g"
| "log_calls (CallNew level # cs) g = log_calls cs (snd (log_New level g))"
| "log_calls (CallProvide # cs) g = log_calls cs (snd (log_Provide g))"

definition log_inv :: "'v log_global \<Rightarrow> bool" where
  "log_inv g \<longleftrightarrow> (lo_made g = [] \<longrightarrow> lo_inner g = None \<and> \<not> lo_once g) \<and> (lo_made g \<noteq> [] \<longrightarrow> lo_inner g = Some 0 \<and> lo_once g)"

lemma log_inv_step: "log_inv g \<Longrightarrow> log_inv (snd (log_New level g)) \<and> log_inv (snd (log_Provide g))"
  by (auto simp: log_inv_def log_New_def log_Provide_def Let_def split: option.splits)

lemma log_inv_calls: "log_inv g \<Longrightarrow> log_inv (log_calls cs g)"
  by (induction cs g rule: log_calls.induct) (simp_all add: log_inv_step)

lemma log_inv_Provide: "log_inv g \<Longrightarrow> fst (log_Provide g) = 0"
  by (auto simp: log_inv_def log_Provide_def log_New_def Let_def split: option.split)

text \<open>The shared logger is the first one the program makes; later calls of \<open>New\<close> do not change it.\<close>

lemma Provide_first:
  "fst (log_Provide (log_calls cs log_start)) = 0"
  "fst (log_Provide (log_calls (CallNew level # cs) log_start)) = 0"
  by (rule log_inv_Provide, rule log_inv_calls, simp add: log_inv_def log_start_def)+

section \<open>slog\<close>

text \<open>The named levels of \<open>slog\<close> are \<open>-4\<close>, \<open>0\<close>, \<open>4\<close> and \<open>8\<close>; a program may use any integer.\<close>

definition toZapLevelForSlog :: "int \<Rightarrow> zap_level" where
  "toZapLevelForSlog level = (if level = - 4 then ZapDebug else if level = 0 then ZapInfo else if level = 4 then ZapWarn
     else if level = 8 then ZapError else ZapInfo)"

datatype slog_kind = KindAny | KindBool | KindDuration | KindFloat64 | KindInt64 | KindString | KindTime | KindUint64 | KindGroup | KindLogValuer

record 'v slog_attr =
  sa_Key :: string
  sa_Kind :: slog_kind
  sa_Value :: "'v log_value"

text \<open>The accessor of a kind answers the value, which a value of another kind would make panic: none is asked here.\<close>

definition slogAttrToZapField :: "'v slog_attr \<Rightarrow> 'v zap_entry" where
  "slogAttrToZapField a = (case sa_Kind a of
       KindBool \<Rightarrow> (''Bool'', sa_Key a, sa_Value a)
     | KindDuration \<Rightarrow> (''Duration'', sa_Key a, sa_Value a)
     | KindFloat64 \<Rightarrow> (''Float64'', sa_Key a, sa_Value a)
     | KindInt64 \<Rightarrow> (''Int64'', sa_Key a, sa_Value a)
     | KindString \<Rightarrow> (''String'', sa_Key a, sa_Value a)
     | KindTime \<Rightarrow> (''Time'', sa_Key a, sa_Value a)
     | KindUint64 \<Rightarrow> (''Uint64'', sa_Key a, sa_Value a)
     | KindGroup \<Rightarrow> (''Any'', sa_Key a, sa_Value a)
     | KindLogValuer \<Rightarrow> (''Any'', sa_Key a, sa_Value a)
     | KindAny \<Rightarrow> (''Any'', sa_Key a, sa_Value a))"

text \<open>The attributes of a record are visited in order and appended one by one.\<close>

definition toZapFieldsFromSlog :: "'v slog_attr list \<Rightarrow> 'v zap_entry list" where
  "toZapFieldsFromSlog attrs = fold (\<lambda>a fs. fs @ [slogAttrToZapField a]) attrs []"

fun fill_fields :: "nat \<Rightarrow> 'v slog_attr list \<Rightarrow> 'v zap_entry list \<Rightarrow> 'v zap_entry list" where
  "fill_fields i [] fs = fs"
| "fill_fields i (a # attrs) fs = fill_fields (Suc i) attrs (fs[i := slogAttrToZapField a])"

definition toZapFieldsFromSlogAttrs :: "'v slog_attr list \<Rightarrow> 'v zap_entry list" where
  "toZapFieldsFromSlogAttrs attrs = fill_fields 0 attrs (replicate (length attrs) ([], [], None))"

text \<open>The two conversions agree: every attribute in order, with its key and value.\<close>

lemma slog_fields:
  "toZapFieldsFromSlog attrs = map slogAttrToZapField attrs"
  "toZapFieldsFromSlogAttrs attrs = toZapFieldsFromSlog attrs"
  "map (\<lambda>(c, key, x). (key, x)) (toZapFieldsFromSlog attrs) = map (\<lambda>a. (sa_Key a, sa_Value a)) attrs"
proof -
  have "fold (\<lambda>a fs. fs @ [slogAttrToZapField a]) attrs acc = acc @ map slogAttrToZapField attrs" for acc
    by (induction attrs arbitrary: acc) simp_all
  then show one: "toZapFieldsFromSlog attrs = map slogAttrToZapField attrs" by (simp add: toZapFieldsFromSlog_def)
  have "fill_fields (length acc) as (acc @ replicate (length as) ([], [], None)) = acc @ map slogAttrToZapField as"
    for acc and as :: "'v slog_attr list"
  proof (induction as arbitrary: acc)
    case (Cons a as)
    from Cons [of "acc @ [slogAttrToZapField a]"] show ?case by simp
  qed simp
  from this [of "[]" attrs] show "toZapFieldsFromSlogAttrs attrs = toZapFieldsFromSlog attrs"
    by (simp add: toZapFieldsFromSlogAttrs_def one)
  show "map (\<lambda>(c, key, x). (key, x)) (toZapFieldsFromSlog attrs) = map (\<lambda>a. (sa_Key a, sa_Value a)) attrs"
    unfolding one by (auto simp: slogAttrToZapField_def split: slog_kind.split)
qed

text \<open>
  The conversion of levels keeps the order of the four named ones, but every other level becomes Info:
  one above Error is written as less severe than Error, and one below Debug as more severe than Debug.
\<close>

lemma slog_levels:
  "l \<in> {- 4, 0, 4, 8} \<Longrightarrow> l' \<in> {- 4, 0, 4, 8} \<Longrightarrow> toZapLevelForSlog l \<le> toZapLevelForSlog l' \<longleftrightarrow> l \<le> l'"
  "8 < l \<Longrightarrow> toZapLevelForSlog l < toZapLevelForSlog 8"
  "l < - 4 \<Longrightarrow> toZapLevelForSlog (- 4) < toZapLevelForSlog l"
  by (auto simp: toZapLevelForSlog_def less_eq_zap_level_def less_zap_level_def)

end
