(* ===== verification/Game_Support.thy ===== *)
theory Game_Support
  imports Npc_Agent
begin

text \<open>
  Small parts around the core: the vectors and transforms of \<open>core/systems/physics\<close>, which the distance
  sensor reads from the blackboard; the priorities, phases and states of \<open>core/systems/system.go\<close>; and
  the typed pool of \<open>pkg/generic\<close>.
\<close>

section \<open>Physics\<close>

record 'f Vec2 =
  v2_X :: 'f
  v2_Y :: 'f

record 'f Vec3 =
  v3_X :: 'f
  v3_Y :: 'f
  v3_Z :: 'f

datatype 'f Transform = Transform2D "'f Vec2" | Transform3D "'f Vec3"

fun Position2 :: "'f Transform \<Rightarrow> 'f \<times> 'f" where
  "Position2 (Transform2D p) = (v2_X p, v2_Y p)"
| "Position2 (Transform3D p) = (v3_X p, v3_Y p)"

fun Position3 :: "'f float_ops \<Rightarrow> 'f Transform \<Rightarrow> 'f \<times> 'f \<times> 'f" where
  "Position3 F (Transform2D p) = (v2_X p, v2_Y p, f_of_int F 0)"
| "Position3 F (Transform3D p) = (v3_X p, v3_Y p, v3_Z p)"

lemma distances:
  "DistanceT F (Position2 a) (Position2 b) =
   Distance2 F (fst (Position2 a)) (snd (Position2 a)) (fst (Position2 b)) (snd (Position2 b))"
  "Distance2V F (x1, y1) (x2, y2) = Distance2 F x1 y1 x2 y2"
  by (simp_all add: DistanceT_def Distance2V_def Distance2_def split: prod.split)

text \<open>The value a blackboard holds for a transform or a vector, as the distance sensor sees it.\<close>

definition transform_value :: "'f Transform \<Rightarrow> 'f any" where
  "transform_value t = AObject (Some (Position2 t)) None"

definition vec2_value :: "'f Vec2 \<Rightarrow> 'f any" where
  "vec2_value v = AObject None (Some (v2_X v, v2_Y v))"

definition vec3_value :: "'f Vec3 \<Rightarrow> 'f any" where
  "vec3_value v = AObject None (Some (v3_X v, v3_Y v))"

text \<open>A distance sensor over two transforms writes their distance; over two vectors, the distance of those.\<close>

lemma distance_sensor_transforms:
  assumes "srcKey \<noteq> []" and "dstKey \<noteq> []"
    and "w_Get w srcKey = Some (transform_value a)" and "w_Get w dstKey = Some (transform_value b)"
  shows "sensor_Update F (DistanceSensor name srcKey dstKey srcX srcY dstX dstY out) w =
    (None, w_Set out (AFloat64 (DistanceT F (Position2 a) (Position2 b))) w)"
  using assms
  by (simp add: update_distance_def object_distance_def transform_value_def)

lemma distance_sensor_vectors:
  assumes "srcKey \<noteq> []" and "dstKey \<noteq> []"
    and "w_Get w srcKey = Some (vec2_value a)" and "w_Get w dstKey = Some (vec3_value b)"
  shows "sensor_Update F (DistanceSensor name srcKey dstKey srcX srcY dstX dstY out) w =
    (None, w_Set out (AFloat64 (Distance2V F (v2_X a, v2_Y a) (v3_X b, v3_Y b))) w)"
  using assms
  by (simp add: update_distance_def object_distance_def vec2_value_def vec3_value_def)

section \<open>Sensors and nodes as their constructors make them\<close>

definition NewDistanceSensor :: "string \<Rightarrow> string \<Rightarrow> string \<Rightarrow> string \<Rightarrow> string \<Rightarrow> string \<Rightarrow> ('f, 'z) sensor" where
  "NewDistanceSensor name srcX srcY dstX dstY out = DistanceSensor name [] [] srcX srcY dstX dstY out"

fun WithObjects :: "string \<Rightarrow> string \<Rightarrow> ('f, 'z) sensor \<Rightarrow> ('f, 'z) sensor" where
  "WithObjects srcKey dstKey (DistanceSensor name s d srcX srcY dstX dstY out) = DistanceSensor name srcKey dstKey srcX srcY dstX dstY out"
| "WithObjects srcKey dstKey s = s"

definition NewInventorySensor :: "string \<Rightarrow> string \<Rightarrow> string \<Rightarrow> 'f \<Rightarrow> ('f, 'z) sensor" where
  "NewInventorySensor name invKey out threshold = InventorySensor name invKey threshold out"

definition NewTimerSensor :: "string \<Rightarrow> int64 \<Rightarrow> string \<Rightarrow> ('f, 'z) sensor" where
  "NewTimerSensor name intervalMS out = TimerSensor name intervalMS out"

definition NewSystemResourceSensor :: "string \<Rightarrow> string \<Rightarrow> ('f, 'z) sensor" where
  "NewSystemResourceSensor name out = SystemResourceSensor name out"

definition NewNetworkSensor :: "string \<Rightarrow> string \<Rightarrow> ('f, 'z) sensor" where
  "NewNetworkSensor name out = NetworkSensor name out"

definition NewDatabaseSensor :: "string \<Rightarrow> string \<Rightarrow> ('f, 'z) sensor" where
  "NewDatabaseSensor name out = DatabaseSensor name out"

definition NewRepeat :: "string \<Rightarrow> int \<Rightarrow> bool \<Rightarrow> ('f, 'z) node" where
  "NewRepeat name n stopOnFailure = Repeat name n stopOnFailure None"

definition NewTimer :: "string \<Rightarrow> int \<Rightarrow> ('f, 'z) node" where
  "NewTimer name d = Timer name d None"

definition NewProbability :: "string \<Rightarrow> 'f \<Rightarrow> ('f, 'z) node" where
  "NewProbability name p = Probability name p None"

definition NewInverter :: "string \<Rightarrow> ('f, 'z) node" where
  "NewInverter name = Inverter name None"

definition NewSucceeder :: "string \<Rightarrow> ('f, 'z) node" where
  "NewSucceeder name = Succeeder name None"

definition NewCooldown :: "string \<Rightarrow> int \<Rightarrow> bool \<Rightarrow> ('f, 'z) node" where
  "NewCooldown name d successOnly = Cooldown name d successOnly None"

definition NewUntilSuccess :: "string \<Rightarrow> int \<Rightarrow> ('f, 'z) node" where
  "NewUntilSuccess name mx = UntilSuccess name mx None"

definition NewUntilFailure :: "string \<Rightarrow> int \<Rightarrow> ('f, 'z) node" where
  "NewUntilFailure name mx = UntilFailure name mx None"

text \<open>\<open>SetChild\<close> and \<open>SetChildren\<close>; only decorators have the one, only composites the other.\<close>

fun SetChild :: "('f, 'z) node option \<Rightarrow> ('f, 'z) node \<Rightarrow> ('f, 'z) node" where
  "SetChild c (Repeat n k b _) = Repeat n k b c"
| "SetChild c (Timer n d _) = Timer n d c"
| "SetChild c (Probability n p _) = Probability n p c"
| "SetChild c (Inverter n _) = Inverter n c"
| "SetChild c (Succeeder n _) = Succeeder n c"
| "SetChild c (Cooldown n d b _) = Cooldown n d b c"
| "SetChild c (UntilSuccess n k _) = UntilSuccess n k c"
| "SetChild c (UntilFailure n k _) = UntilFailure n k c"
| "SetChild c n = n"

fun SetChildren :: "('f, 'z) node option list \<Rightarrow> ('f, 'z) node \<Rightarrow> ('f, 'z) node" where
  "SetChildren cs (Sequence n _) = Sequence n cs"
| "SetChildren cs (Selector n _) = Selector n cs"
| "SetChildren cs (Parallel n p _) = Parallel n p cs"
| "SetChildren cs (Random n _) = Random n cs"
| "SetChildren cs (Priority n _) = Priority n cs"
| "SetChildren cs n = n"

text \<open>
  A decorator as its constructor leaves it fails with an error in every tick, but for a \<open>Succeeder\<close>,
  which succeeds; so \<open>SetChild\<close> has to follow before the tree is run.
\<close>

lemma decorators_without_child:
  "n \<in> {NewRepeat name k b, NewTimer name d, NewProbability name p, NewInverter name, NewCooldown name d b,
      NewUntilSuccess name k, NewUntilFailure name k} \<Longrightarrow>
   \<exists>e. tick F fuel n w = ret StatusFailure (Some e) w"
  "tick F fuel (NewSucceeder name) w = ret StatusSuccess None w"
  by (auto simp: NewRepeat_def NewTimer_def NewProbability_def NewInverter_def NewSucceeder_def NewCooldown_def NewUntilSuccess_def
      NewUntilFailure_def tick_repeat_def tick_timer_def tick_probability_def tick_inverter_def tick_succeeder_def
      tick_cooldown_def tick_until_success_def tick_until_failure_def)

section \<open>Systems\<close>

text \<open>The priorities of the systems, by name.\<close>

definition system_priorities :: "(string \<times> nat) list" where
  "system_priorities = [
     (''LowestLowest'', 100), (''Lowest'', 200), (''LowestNormal'', 200), (''LowestHighest'', 300),
     (''LowestLow'', 400), (''Low'', 500), (''LowNormal'', 500), (''LowHighest'', 600),
     (''NormalLowest'', 700), (''Normal'', 600), (''NormalNormal'', 600), (''NormalHighest'', 800),
     (''HighLowest'', 900), (''High'', 1000), (''HighNormal'', 1000), (''HighHighest'', 1100),
     (''HighestLow'', 1200), (''Highest'', 1300), (''HighestNormal'', 1300), (''HighestHighest'', 1400)]"

datatype ExecutionPhase = PhasePreStart | PhaseStart | PhasePostStart | PhasePreUpdate | PhaseUpdate | PhasePostUpdate
  | PhaseFixedUpdate | PhaseLateUpdate | PhasePreRender | PhaseRender | PhasePostRender

datatype StateIdentity = StateUninitialized | StateInitializing | StateRunning | StatePaused | StateShuttingDown
  | StateShutdown | StateError | StateEnabled | StateDisabled | StateFailed

datatype ScheduleType = ScheduleEveryFrame | ScheduleFixedInterval | ScheduleCron | ScheduleConditional | ScheduleOnDemand

text \<open>
  The five classes of priorities, each with its lowest, middle and highest value. In every class but
  the middle one the lowest is below the middle and the middle below the highest, and the classes
  follow one another; \<open>PriorityNormal\<close> is below the lowest of its class and equal to the highest of the
  class \<open>Low\<close>.
\<close>

definition priority_of :: "string \<Rightarrow> nat" where
  "priority_of name = the (map_of system_priorities name)"

lemma priority_classes:
  "list_all (\<lambda>(lo, mid, hi). priority_of lo < priority_of mid \<and> priority_of mid < priority_of hi)
     [(''LowestLowest'', ''Lowest'', ''LowestHighest''), (''LowestLow'', ''Low'', ''LowHighest''),
      (''HighLowest'', ''High'', ''HighHighest''), (''HighestLow'', ''Highest'', ''HighestHighest'')]"
  "priority_of ''Normal'' < priority_of ''NormalLowest'' \<and> priority_of ''Normal'' = priority_of ''LowHighest''"
  by (simp_all add: priority_of_def system_priorities_def)

section \<open>A typed pool\<close>

text \<open>
  \<open>pkg/generic/pool.go\<close>, a \<open>sync.Pool\<close> with a type: \<open>Get\<close> takes some pooled value or generates one, and the
  runtime may drop pooled values; which of it happens is the argument \<open>pick\<close>. The generator is asked
  for the value of its next call.
\<close>

record 'a Pool =
  pl_items :: "'a list"
  pl_calls :: nat

definition NewPool :: "'a Pool" where
  "NewPool = \<lparr>pl_items = [], pl_calls = 0\<rparr>"

definition Pool_Put :: "'a \<Rightarrow> 'a Pool \<Rightarrow> 'a Pool" where
  "Pool_Put v p = p\<lparr>pl_items := v # pl_items p\<rparr>"

definition NewHotPool :: "(nat \<Rightarrow> 'a) \<Rightarrow> int \<Rightarrow> 'a Pool" where
  "NewHotPool generate hotSize = fold (\<lambda>i p. (Pool_Put (generate i) p)\<lparr>pl_calls := i + 1\<rparr>) [0..<nat hotSize] NewPool"

definition Pool_Get :: "(nat \<Rightarrow> 'a) \<Rightarrow> nat option \<Rightarrow> 'a Pool \<Rightarrow> 'a \<times> 'a Pool" where
  "Pool_Get generate pick p = (case pick of
       Some i \<Rightarrow>
         if i < length (pl_items p) then (pl_items p ! i, p\<lparr>pl_items := take i (pl_items p) @ drop (Suc i) (pl_items p)\<rparr>)
         else (generate (pl_calls p), p\<lparr>pl_calls := pl_calls p + 1\<rparr>)
     | None \<Rightarrow> (generate (pl_calls p), p\<lparr>pl_calls := pl_calls p + 1\<rparr>))"

lemma NewHotPool_items: "pl_items (NewHotPool generate n) = rev (map generate [0..<nat n])"
proof -
  have "pl_items (fold (\<lambda>i p. (Pool_Put (generate i) p)\<lparr>pl_calls := i + 1\<rparr>) is p) = rev (map generate is) @ pl_items p" for "is" p
    by (induction "is" arbitrary: p) (simp_all add: Pool_Put_def)
  then show ?thesis by (simp add: NewHotPool_def NewPool_def)
qed

text \<open>A value handed out was pooled, and is no longer, or is the next one of the generator.\<close>

lemma Pool_Get_exclusive:
  assumes "Pool_Get generate pick p = (v, p')"
  shows "mset (pl_items p) = add_mset v (mset (pl_items p')) \<and> pl_calls p' = pl_calls p \<or>
    v = generate (pl_calls p) \<and> pl_items p' = pl_items p \<and> pl_calls p' = Suc (pl_calls p)"
proof -
  have "mset xs = add_mset (xs ! i) (mset (take i xs @ drop (Suc i) xs))" if "i < length xs" for xs :: "'a list" and i
    using arg_cong [OF id_take_nth_drop [OF that], of mset] by simp
  with assms show ?thesis by (auto simp: Pool_Get_def split: option.splits if_splits)
qed

end
