(* ===== verification/Field_Forwards.thy ===== *)
theory Field_Forwards
  imports Field_Slice
begin

text \<open>
  The methods of numeric and slice fields that only call the same method of the field they hold,
  \<open>core/fields/numeric_filed_accessor.go\<close> and \<open>slice_field_accessor.go\<close>, and the interface \<open>FieldAccessor\<close> of
  \<open>fields.go\<close> that all three kinds offer, with its interpretation for each of them.
\<close>

section \<open>Numeric fields\<close>

definition NFA_Get :: "'a FA \<Rightarrow> 'a" where
  "NFA_Get = FA_Get"

definition NFA_Set :: "'a num_type \<Rightarrow> 'a \<Rightarrow> 'a FA \<Rightarrow> 'a FA outcome" where
  "NFA_Set = FA_Set"

definition NFA_Lock :: "nat \<Rightarrow> rw_mutex \<Rightarrow> rw_mutex" where
  "NFA_Lock = FA_Lock"

definition NFA_Unlock :: "rw_mutex \<Rightarrow> rw_mutex outcome" where
  "NFA_Unlock = FA_Unlock"

definition NFA_RLock :: "rw_mutex \<Rightarrow> rw_mutex" where
  "NFA_RLock = FA_RLock"

definition NFA_RUnlock :: "rw_mutex \<Rightarrow> rw_mutex outcome" where
  "NFA_RUnlock = FA_RUnlock"

definition NFA_TryLock :: "nat \<Rightarrow> (rw_mutex \<Rightarrow> rw_mutex) \<Rightarrow> rw_mutex \<Rightarrow> bool \<times> rw_mutex" where
  "NFA_TryLock = FA_TryLock"

definition NFA_Subscribe :: "nat \<Rightarrow> 'a FA \<Rightarrow> uint64 \<times> 'a FA" where
  "NFA_Subscribe = FA_Subscribe"

definition NFA_SubscribeIf :: "nat \<Rightarrow> ('a \<Rightarrow> bool) option \<Rightarrow> 'a FA \<Rightarrow> uint64 \<times> 'a FA" where
  "NFA_SubscribeIf = FA_SubscribeIf"

definition NFA_SubscribeCh :: "'a ch_subscription" where
  "NFA_SubscribeCh = FA_SubscribeCh"

definition NFA_SubscribeIfCh :: "('a \<Rightarrow> bool) option \<Rightarrow> 'a ch_subscription" where
  "NFA_SubscribeIfCh = FA_SubscribeIfCh"

definition NFA_CompareAndSwap :: "'a num_type \<Rightarrow> 'a \<Rightarrow> 'a \<Rightarrow> 'a FA \<Rightarrow> (bool \<times> 'a FA) outcome" where
  "NFA_CompareAndSwap = FA_CompareAndSwap"

definition NFA_Swap :: "'a num_type \<Rightarrow> 'a \<Rightarrow> 'a FA \<Rightarrow> ('a \<times> 'a FA) outcome" where
  "NFA_Swap = FA_Swap"

definition NFA_Transaction :: "'a num_type \<Rightarrow> (nat \<Rightarrow> 'a FA \<Rightarrow> 'a FA) \<Rightarrow> ('a \<Rightarrow> 'a outcome) \<Rightarrow> 'a FA \<Rightarrow> ('a \<times> 'a FA) outcome" where
  "NFA_Transaction = FA_Transaction"

definition NFA_Version :: "'a FA \<Rightarrow> uint64" where
  "NFA_Version = FA_Version"

definition NFA_ChangedSince :: "'a FA \<Rightarrow> uint64 \<Rightarrow> bool" where
  "NFA_ChangedSince = FA_ChangedSince"

definition NFA_Merge :: "'a num_type \<Rightarrow> (nat \<Rightarrow> 'a FA \<Rightarrow> 'a FA) \<Rightarrow> (nat \<Rightarrow> 'a) \<Rightarrow> ('a \<Rightarrow> 'a \<Rightarrow> 'a outcome) \<Rightarrow> 'a FA \<Rightarrow> 'a FA outcome" where
  "NFA_Merge = FA_Merge"

definition NFA_History :: "16 word \<Rightarrow> 'a FA \<Rightarrow> 'a list" where
  "NFA_History = FA_History"

definition NFA_Delta :: "uint64 \<Rightarrow> 'a FA \<Rightarrow> go_err + 'a list" where
  "NFA_Delta = FA_Delta"

definition NFA_GetWithContext :: "go_err option \<Rightarrow> 'a num_type \<Rightarrow> 'a FA \<Rightarrow> 'a \<times> go_err option" where
  "NFA_GetWithContext = FA_GetWithContext"

definition NFA_SetWithContext :: "go_err option \<Rightarrow> 'a num_type \<Rightarrow> 'a \<Rightarrow> 'a FA \<Rightarrow> (go_err option \<times> 'a FA) outcome" where
  "NFA_SetWithContext = FA_SetWithContext"

definition NFA_Serialize :: "('a \<Rightarrow> go_err + string) \<Rightarrow> 'a FA \<Rightarrow> go_err + string" where
  "NFA_Serialize = FA_Serialize"

definition NFA_Deserialize :: "'a num_type \<Rightarrow> (string \<Rightarrow> go_err + 'a) \<Rightarrow> string \<Rightarrow> 'a FA \<Rightarrow> (go_err option \<times> 'a FA) outcome" where
  "NFA_Deserialize = FA_Deserialize"

definition NFA_Clone :: "'a num_type \<Rightarrow> 'a FA \<Rightarrow> 'a FA outcome" where
  "NFA_Clone = FA_Clone"

lemmas NFA_forwards = NFA_Get_def NFA_Set_def NFA_Lock_def NFA_Unlock_def NFA_RLock_def NFA_RUnlock_def NFA_TryLock_def NFA_Subscribe_def NFA_SubscribeIf_def NFA_SubscribeCh_def NFA_SubscribeIfCh_def NFA_CompareAndSwap_def NFA_Swap_def NFA_Transaction_def NFA_Version_def NFA_ChangedSince_def NFA_Merge_def NFA_History_def NFA_Delta_def NFA_GetWithContext_def NFA_SetWithContext_def NFA_Serialize_def NFA_Deserialize_def NFA_Clone_def

section \<open>Slice fields\<close>

text \<open>Where the field needs to know the type of its values, it is the type of slices.\<close>

definition SFA_Lock :: "nat \<Rightarrow> rw_mutex \<Rightarrow> rw_mutex" where
  "SFA_Lock = FA_Lock"

definition SFA_Unlock :: "rw_mutex \<Rightarrow> rw_mutex outcome" where
  "SFA_Unlock = FA_Unlock"

definition SFA_RLock :: "rw_mutex \<Rightarrow> rw_mutex" where
  "SFA_RLock = FA_RLock"

definition SFA_RUnlock :: "rw_mutex \<Rightarrow> rw_mutex outcome" where
  "SFA_RUnlock = FA_RUnlock"

definition SFA_TryLock :: "nat \<Rightarrow> (rw_mutex \<Rightarrow> rw_mutex) \<Rightarrow> rw_mutex \<Rightarrow> bool \<times> rw_mutex" where
  "SFA_TryLock = FA_TryLock"

definition SFA_Subscribe :: "nat \<Rightarrow> slice FA \<Rightarrow> uint64 \<times> slice FA" where
  "SFA_Subscribe = FA_Subscribe"

definition SFA_SubscribeIf :: "nat \<Rightarrow> (slice \<Rightarrow> bool) option \<Rightarrow> slice FA \<Rightarrow> uint64 \<times> slice FA" where
  "SFA_SubscribeIf = FA_SubscribeIf"

definition SFA_SubscribeIfCh :: "(slice \<Rightarrow> bool) option \<Rightarrow> slice ch_subscription" where
  "SFA_SubscribeIfCh = FA_SubscribeIfCh"

definition SFA_Version :: "slice FA \<Rightarrow> uint64" where
  "SFA_Version = FA_Version"

definition SFA_ChangedSince :: "slice FA \<Rightarrow> uint64 \<Rightarrow> bool" where
  "SFA_ChangedSince = FA_ChangedSince"

definition SFA_Merge :: "(nat \<Rightarrow> slice FA \<Rightarrow> slice FA) \<Rightarrow> (nat \<Rightarrow> slice) \<Rightarrow> (slice \<Rightarrow> slice \<Rightarrow> slice outcome) \<Rightarrow> slice FA \<Rightarrow> slice FA outcome" where
  "SFA_Merge = FA_Merge slice_type"

definition SFA_History :: "16 word \<Rightarrow> slice FA \<Rightarrow> slice list" where
  "SFA_History = FA_History"

definition SFA_Delta :: "uint64 \<Rightarrow> slice FA \<Rightarrow> go_err + slice list" where
  "SFA_Delta = FA_Delta"

definition SFA_GetWithContext :: "go_err option \<Rightarrow> slice FA \<Rightarrow> slice \<times> go_err option" where
  "SFA_GetWithContext ctx = FA_GetWithContext ctx slice_type"

definition SFA_SetWithContext :: "go_err option \<Rightarrow> slice \<Rightarrow> slice FA \<Rightarrow> (go_err option \<times> slice FA) outcome" where
  "SFA_SetWithContext ctx = FA_SetWithContext ctx slice_type"

definition SFA_Serialize :: "(slice \<Rightarrow> go_err + string) \<Rightarrow> slice FA \<Rightarrow> go_err + string" where
  "SFA_Serialize = FA_Serialize"

definition SFA_Deserialize :: "(string \<Rightarrow> go_err + slice) \<Rightarrow> string \<Rightarrow> slice FA \<Rightarrow> (go_err option \<times> slice FA) outcome" where
  "SFA_Deserialize = FA_Deserialize slice_type"

definition SFA_Clone :: "slice FA \<Rightarrow> slice FA outcome" where
  "SFA_Clone = FA_Clone slice_type"

section \<open>The interface\<close>

text \<open>
  What a client of a field relies on, when the values of the type can be compared and are never nil:
  what the writes answer, and that every one that writes counts the version up by one.
\<close>

locale field_accessor =
  fixes get :: "'s \<Rightarrow> 'a" and put :: "'a \<Rightarrow> 's \<Rightarrow> 's outcome" and swap :: "'a \<Rightarrow> 's \<Rightarrow> ('a \<times> 's) outcome"
    and cas :: "'a \<Rightarrow> 'a \<Rightarrow> 's \<Rightarrow> (bool \<times> 's) outcome" and version :: "'s \<Rightarrow> uint64"
  assumes put: "\<exists>s'. put v s = Ret s' \<and> get s' = v \<and> version s' = version s + 1"
    and swap: "swap v s = bind_outcome (put v s) (\<lambda>s'. Ret (get s, s'))"
    and cas: "cas e v s = (if get s = e then bind_outcome (put v s) (\<lambda>s'. Ret (True, s')) else Ret (False, s))"
begin

fun puts :: "'a list \<Rightarrow> 's \<Rightarrow> 's outcome" where
  "puts [] s = Ret s"
| "puts (v # vs) s = bind_outcome (put v s) (puts vs)"

lemma puts_last: "\<exists>s'. puts vs s = Ret s' \<and> get s' = (if vs = [] then get s else last vs) \<and> version s' = version s + of_nat (length vs)"
proof (induction vs arbitrary: s)
  case (Cons v vs)
  obtain s1 where s1: "put v s = Ret s1" "get s1 = v" "version s1 = version s + 1" using put by blast
  obtain s2 where "puts vs s1 = Ret s2" "get s2 = (if vs = [] then get s1 else last vs)" "version s2 = version s1 + of_nat (length vs)"
    using Cons by blast
  with s1 show ?case by auto
qed simp

text \<open>An exchange of the present value succeeds, and one that fails leaves the field as it is.\<close>

lemma cas_present: "\<exists>s'. cas (get s) v s = Ret (True, s') \<and> get s' = v \<and> version s' = version s + 1"
  using put [of v s] by (auto simp: cas)

lemma cas_unchanged: "cas e v s = Ret (False, s') \<Longrightarrow> s' = s \<and> get s \<noteq> e"
  using put [of v s] by (auto simp: cas split: if_splits)

text \<open>A swap and a second one with its result bring the value back, two versions later.\<close>

lemma swap_back: "\<exists>s1 s2. swap v s = Ret (get s, s1) \<and> swap (get s) s1 = Ret (v, s2) \<and> get s2 = get s \<and> version s2 = version s + 2"
proof -
  obtain s1 where s1: "put v s = Ret s1" "get s1 = v" "version s1 = version s + 1" using put by blast
  obtain s2 where "put (get s) s1 = Ret s2" "get s2 = get s" "version s2 = version s1 + 1" using put by blast
  with s1 show ?thesis by (auto simp: swap)
qed

end

lemma written_get: "fa_value (written v a) = fa_value a \<and> fa_version (written v a) = fa_version a + 1"
  by (simp add: written_def notifySubscribers_def addToHistory_def Let_def)

lemma plain_field:
  assumes "\<And>x. ty_dyn T x = Some d" and "\<And>x y. ty_eq T x y = Ret (x = y)"
  shows "field_accessor FA_Get (FA_Set T) (FA_Swap T) (FA_CompareAndSwap T) FA_Version"
  by unfold_locales
    (simp_all add: FA_Get_def FA_Set_def FA_Swap_def FA_CompareAndSwap_def FA_Version_def value_Store_def
      value_CompareAndSwap_def assms written_get)

interpretation fa: field_accessor FA_Get "FA_Set (plain_type z)" "FA_Swap (plain_type z)" "FA_CompareAndSwap (plain_type z)" FA_Version
  for z
  by (rule plain_field) (simp_all add: plain_type_def)

interpretation nfa: field_accessor NFA_Get "NFA_Set int64_type" "NFA_Swap int64_type" "NFA_CompareAndSwap int64_type" NFA_Version
  unfolding NFA_forwards by (rule plain_field) (simp_all add: int64_type_def)

text \<open>
  A numeric field next to its arithmetic: writes through the handed-on methods and additions mix, each
  adding one to the version, and the value is the last one written plus what was added since.
\<close>

lemma NFA_put_add:
  "\<exists>a1 a2. NFA_Set int64_type v a = Ret a1 \<and> NFA_Add int64_type (\<lambda>i a. a) x a1 = Ret a2 \<and>
    NFA_Get a2 = v + x \<and> NFA_Version a2 = NFA_Version a + 2"
proof -
  obtain a1 where a1: "NFA_Set int64_type v a = Ret a1" "NFA_Get a1 = v" "NFA_Version a1 = NFA_Version a + 1"
    using nfa.put by blast
  obtain a2 where a2: "NFA_CompareAndSwap int64_type v (v + x) a1 = Ret (True, a2)" "NFA_Get a2 = v + x" "NFA_Version a2 = NFA_Version a1 + 1"
    using nfa.cas_present [of a1 "v + x"] a1(2) by auto
  have n: "maxRetries = Suc 9" by (simp add: maxRetries_def)
  have "NFA_Add int64_type (\<lambda>i a. a) x a1 = Ret a2"
    unfolding NFA_Add_def FA_Transaction_def n transaction_loop.simps(2)
    using a1(2) a2(1) by (simp add: NFA_forwards int64_type_def)
  with a1 a2 show ?thesis by auto
qed

end
