(* ===== verification/Root_Factory.thy ===== *)
theory Root_Factory
  imports Wrappers Var_Channel Var_Priority Var_Broadcast
begin

text \<open>
  The factory of the second version, \<open>core/syncv2/interfaces/factory.go\<close>, with the configuration of \<open>core/syncv2/types\<close>: which root a
  value gets, which wrapper the root, and the variable around it. The roots are those of the theories of the variables, the wrappers those of
  \<open>Wrappers\<close>: a variable of the factory is their composition.
\<close>

section \<open>Configuration\<close>

text \<open>The enumerations, which Go has as bytes; the two that a switch of the factory reads have a constructor for the bytes without a name.\<close>

datatype StorageStrategy_v2 = StrategyAtomic | StrategyMutex | StrategyChannels | StrategySharded | StrategyLockFree | StrategyPersisted
  | StrategyReplicated | StrategyWriteOptimized | StrategyReadOptimized | StrategyMemoryOptimized | OtherStrategy nat

datatype AccessPattern_v2 = PatternRandom | PatternBurst | PatternSteady | PatternReadHeavy | PatternWriteHeavy | PatternMixed | PatternRareAccess

datatype AtomicType = AtomicValue | AtomicInt64 | AtomicInt32 | AtomicUint64 | AtomicUint32 | AtomicPointer | AtomicBool | AtomicString

datatype MutexType = StandardMutex | SpinlockMutex | AdaptiveMutex | PriorityMutex

datatype ShardedType = HashSharded | ConsistentHashSharded | RangeSharded | AdaptiveSharded

datatype ChannelType = BufferedChannel | UnbufferedChannel | PriorityChannel | BroadcastChannel | CycleChannel | OtherChannel nat

datatype LockFreeType = CASLockFree | RCULockFree | HazardPointerLockFree | EpochBasedLockFree

datatype PersistedType = FileSystemPersisted | DatabasePersisted | MemoryMappedPersisted | CompressedPersisted | RemotePersisted

datatype ReplicatedType = RaftReplicated | GossipReplicated | MasterSlaveReplicated | MultiMasterReplicated

datatype WriteOptimizedType = BatchedWrites | AsyncWrites | WriteCoalescing | WriteBuffering

datatype ReadOptimizedTypes = CachedReads | PreloadedReads | CompressedReads | TieredReads

datatype MemoryOptimizedType = CompressedMemory | PooledMemory | CompactMemory | LazyMemory

record Configuration =
  cf_AtomicType :: AtomicType
  cf_MutexType :: MutexType
  cf_ShardedType :: ShardedType
  cf_ChannelType :: ChannelType
  cf_LockFreeType :: LockFreeType
  cf_PersistedType :: PersistedType
  cf_ReplicatedType :: ReplicatedType
  cf_WriteOptimizedType :: WriteOptimizedType
  cf_ReadOptimizedType :: ReadOptimizedTypes
  cf_MemoryOptimizedType :: MemoryOptimizedType
  cf_ShardCount :: int
  cf_BufferSize :: int
  cf_StoragePath :: string
  cf_NodeID :: string
  cf_CacheSize :: int
  cf_MemoryLimit :: int

text \<open>\<open>types.Configuration{}\<close>, and that of the global factory.\<close>

definition zero_Configuration :: Configuration where
  "zero_Configuration = \<lparr>cf_AtomicType = AtomicValue, cf_MutexType = StandardMutex, cf_ShardedType = HashSharded, cf_ChannelType = BufferedChannel,
     cf_LockFreeType = CASLockFree, cf_PersistedType = FileSystemPersisted, cf_ReplicatedType = RaftReplicated,
     cf_WriteOptimizedType = BatchedWrites, cf_ReadOptimizedType = CachedReads, cf_MemoryOptimizedType = CompressedMemory,
     cf_ShardCount = 0, cf_BufferSize = 0, cf_StoragePath = [], cf_NodeID = [], cf_CacheSize = 0, cf_MemoryLimit = 0\<rparr>"

definition GlobalFactory :: Configuration where
  "GlobalFactory = zero_Configuration\<lparr>cf_AtomicType := AtomicValue, cf_MutexType := StandardMutex, cf_ShardedType := HashSharded, cf_ShardCount := 16\<rparr>"

section \<open>Values\<close>

text \<open>
  The values the factory distinguishes, with their dynamic type: the four kinds it has roots for, values of a type defined on another type (with a
  number for the name), all others (with a number for the type), and the nil interface. The type parameter is an interface type or it is
  the type of the value.
\<close>

datatype 'x go_val = GInt64 int64 | GInt32 int32 | GUint64 uint64 | GBool bool | GOther nat 'x | GDefined nat "'x go_val" | GNil

datatype go_ty = TyInt64 | TyInt32 | TyUint64 | TyBool | TyOther nat | TyDefined nat go_ty

primrec type_of :: "'x go_val \<Rightarrow> go_ty option" where
  "type_of (GInt64 i) = Some TyInt64"
| "type_of (GInt32 i) = Some TyInt32"
| "type_of (GUint64 u) = Some TyUint64"
| "type_of (GBool b) = Some TyBool"
| "type_of (GOther t x) = Some (TyOther t)"
| "type_of (GDefined n v) = map_option (TyDefined n) (type_of v)"
| "type_of GNil = None"

primrec type_Kind :: "go_ty \<Rightarrow> go_ty" where
  "type_Kind TyInt64 = TyInt64"
| "type_Kind TyInt32 = TyInt32"
| "type_Kind TyUint64 = TyUint64"
| "type_Kind TyBool = TyBool"
| "type_Kind (TyOther t) = TyOther t"
| "type_Kind (TyDefined n t) = type_Kind t"

text \<open>A store into an \<open>atomic.Value\<close> that holds a value already.\<close>

definition stored :: "'x go_val \<Rightarrow> 'x go_val \<Rightarrow> 'r outcome \<Rightarrow> 'r outcome" where
  "stored old new r =
     (if type_of new = None then Panic NilStore else if type_of new \<noteq> type_of old then Panic InconsistentType else r)"

section \<open>Atomic roots\<close>

datatype 'x AtomicRoot = RootInt64 "int64 Atomic" | RootInt32 "int32 Atomic" | RootUint64 "uint64 Atomic" | RootBool "bool Atomic"
  | RootValue "'x go_val Atomic"

text \<open>
  The type assertions: a value of one of the four kinds is taken as the type of that name, which fails for a defined type; the root made is then a root of
  the type parameter, unless that is an interface type.
\<close>

definition CreateAtomicRoot :: "bool \<Rightarrow> 'x go_val \<Rightarrow> 'x AtomicRoot outcome" where
  "CreateAtomicRoot isInterface initialValue = (case type_of initialValue of
       None \<Rightarrow> Panic NilDereference
     | Some t \<Rightarrow> (case (type_Kind t, initialValue) of
           (TyInt64, GInt64 i) \<Rightarrow> Ret (if isInterface then RootValue (NewAtomicValue initialValue) else RootInt64 (NewAtomicInt64 i))
         | (TyInt32, GInt32 i) \<Rightarrow> Ret (if isInterface then RootValue (NewAtomicValue initialValue) else RootInt32 (NewAtomicInt32 i))
         | (TyUint64, GUint64 u) \<Rightarrow> Ret (if isInterface then RootValue (NewAtomicValue initialValue) else RootUint64 (NewAtomicUint64 u))
         | (TyBool, GBool b) \<Rightarrow> Ret (if isInterface then RootValue (NewAtomicValue initialValue) else RootBool (NewAtomicBool b))
         | (TyOther k, v) \<Rightarrow> Ret (RootValue (NewAtomicValue initialValue))
         | _ \<Rightarrow> Panic InconsistentType))"

text \<open>The methods a wrapper calls; a value of another type than the root's cannot be given to a typed root.\<close>

primrec root_Get :: "'x AtomicRoot \<Rightarrow> 'x go_val" where
  "root_Get (RootInt64 a) = GInt64 (AtomicInt64_Get a)"
| "root_Get (RootInt32 a) = GInt32 (AtomicInt32_Get a)"
| "root_Get (RootUint64 a) = GUint64 (AtomicUint64_Get a)"
| "root_Get (RootBool a) = GBool (AtomicBool_Get a)"
| "root_Get (RootValue a) = AtomicValue_Get a"

fun root_Set :: "'x AtomicRoot \<Rightarrow> 'x go_val \<Rightarrow> 'x AtomicRoot outcome" where
  "root_Set (RootInt64 a) (GInt64 i) = Ret (RootInt64 (AtomicInt64_Set a i))"
| "root_Set (RootInt32 a) (GInt32 i) = Ret (RootInt32 (AtomicInt32_Set a i))"
| "root_Set (RootUint64 a) (GUint64 u) = Ret (RootUint64 (AtomicUint64_Set a u))"
| "root_Set (RootBool a) (GBool b) = Ret (RootBool (AtomicBool_Set a b))"
| "root_Set (RootValue a) v = stored (AtomicValue_Get a) v (Ret (RootValue (AtomicValue_Set a v)))"
| "root_Set r v = Panic InconsistentType"

primrec root_Version :: "'x AtomicRoot \<Rightarrow> uint64" where
  "root_Version (RootInt64 a) = AtomicInt64_Version a"
| "root_Version (RootInt32 a) = AtomicInt32_Version a"
| "root_Version (RootUint64 a) = AtomicUint64_Version a"
| "root_Version (RootBool a) = AtomicBool_Version a"
| "root_Version (RootValue a) = AtomicValue_Version a"

primrec root_IsDirty :: "'x AtomicRoot \<Rightarrow> bool" where
  "root_IsDirty (RootInt64 a) = AtomicInt64_IsDirty a"
| "root_IsDirty (RootInt32 a) = AtomicInt32_IsDirty a"
| "root_IsDirty (RootUint64 a) = AtomicUint64_IsDirty a"
| "root_IsDirty (RootBool a) = AtomicBool_IsDirty a"
| "root_IsDirty (RootValue a) = AtomicValue_IsDirty a"

primrec root_MarkClean :: "'x AtomicRoot \<Rightarrow> 'x AtomicRoot" where
  "root_MarkClean (RootInt64 a) = RootInt64 (AtomicInt64_MarkClean a)"
| "root_MarkClean (RootInt32 a) = RootInt32 (AtomicInt32_MarkClean a)"
| "root_MarkClean (RootUint64 a) = RootUint64 (AtomicUint64_MarkClean a)"
| "root_MarkClean (RootBool a) = RootBool (AtomicBool_MarkClean a)"
| "root_MarkClean (RootValue a) = RootValue (AtomicValue_MarkClean a)"

definition atomic_root_ops :: "('x AtomicRoot, 'x go_val) root_ops" where
  "atomic_root_ops = \<lparr>ro_Get = \<lambda>r. Ret (root_Get r, r), ro_Set = root_Set, ro_Version = root_Version, ro_IsDirty = root_IsDirty,
     ro_MarkClean = root_MarkClean\<rparr>"

section \<open>Channel roots\<close>

datatype 'x ChannelRoot = RootBuffered "'x go_val ChannelVar" | RootUnbuffered "'x go_val ChannelVar"
  | RootPriority "'x go_val PriorityChannel" | RootBroadcast "'x go_val BroadcastChannel"

text \<open>A new channel stores its value after it has made its buffer; nil cannot be stored.\<close>

definition CreateChannelRoot :: "Configuration \<Rightarrow> 'x go_val \<Rightarrow> int \<Rightarrow> 'x ChannelRoot outcome" where
  "CreateChannelRoot config initialValue bufferSize =
     bind_outcome (case cf_ChannelType config of
         UnbufferedChannel \<Rightarrow> bind_outcome (NewUnbufferedChannel initialValue) (\<lambda>c. Ret (RootUnbuffered c))
       | PriorityChannel \<Rightarrow> Ret (RootPriority (NewPriorityChannel bufferSize initialValue))
       | BroadcastChannel \<Rightarrow> Ret (RootBroadcast (NewBroadcastChannel bufferSize initialValue))
       | _ \<Rightarrow> bind_outcome (NewBufferedChannel bufferSize initialValue) (\<lambda>c. Ret (RootBuffered c)))
     (\<lambda>r. if type_of initialValue = None then Panic NilStore else Ret r)"

primrec chan_Get :: "'x ChannelRoot \<Rightarrow> 'x go_val" where
  "chan_Get (RootBuffered c) = BufferedChannel_Get c"
| "chan_Get (RootUnbuffered c) = UnbufferedChannel_Get c"
| "chan_Get (RootPriority c) = PriorityChannel_Get c"
| "chan_Get (RootBroadcast c) = BroadcastChannel_Get c"

text \<open>Nobody else has the channel of a variable, and so no goroutine is woken.\<close>

definition chan_Set :: "'x ChannelRoot \<Rightarrow> 'x go_val \<Rightarrow> 'x ChannelRoot outcome" where
  "chan_Set r v = stored (chan_Get r) v (case r of
       RootBuffered c \<Rightarrow> bind_outcome (BufferedChannel_Set c v) (\<lambda>(sent, ws, c). Ret (RootBuffered c))
     | RootUnbuffered c \<Rightarrow> Ret (RootUnbuffered (UnbufferedChannel_Set c v))
     | RootPriority c \<Rightarrow> Ret (RootPriority (PriorityChannel_Set c v))
     | RootBroadcast c \<Rightarrow> Ret (RootBroadcast (BroadcastChannel_Set c v)))"

primrec chan_Version :: "'x ChannelRoot \<Rightarrow> uint64" where
  "chan_Version (RootBuffered c) = BufferedChannel_Version c"
| "chan_Version (RootUnbuffered c) = UnbufferedChannel_Version c"
| "chan_Version (RootPriority c) = PriorityChannel_Version c"
| "chan_Version (RootBroadcast c) = BroadcastChannel_Version c"

primrec chan_IsDirty :: "'x ChannelRoot \<Rightarrow> bool" where
  "chan_IsDirty (RootBuffered c) = BufferedChannel_IsDirty c"
| "chan_IsDirty (RootUnbuffered c) = UnbufferedChannel_IsDirty c"
| "chan_IsDirty (RootPriority c) = PriorityChannel_IsDirty c"
| "chan_IsDirty (RootBroadcast c) = BroadcastChannel_IsDirty c"

primrec chan_MarkClean :: "'x ChannelRoot \<Rightarrow> 'x ChannelRoot" where
  "chan_MarkClean (RootBuffered c) = RootBuffered (BufferedChannel_MarkClean c)"
| "chan_MarkClean (RootUnbuffered c) = RootUnbuffered (UnbufferedChannel_MarkClean c)"
| "chan_MarkClean (RootPriority c) = RootPriority (PriorityChannel_MarkClean c)"
| "chan_MarkClean (RootBroadcast c) = RootBroadcast (BroadcastChannel_MarkClean c)"

primrec chan_Close :: "'x ChannelRoot \<Rightarrow> 'x ChannelRoot outcome" where
  "chan_Close (RootBuffered c) = bind_outcome (BufferedChannel_Close GNil c) (\<lambda>(ws, c). Ret (RootBuffered c))"
| "chan_Close (RootUnbuffered c) = bind_outcome (UnbufferedChannel_Close GNil c) (\<lambda>(ws, c). Ret (RootUnbuffered c))"
| "chan_Close (RootPriority c) = Ret (RootPriority (PriorityChannel_Close c))"
| "chan_Close (RootBroadcast c) = bind_outcome (BroadcastChannel_Close GNil c) (\<lambda>c. Ret (RootBroadcast c))"

definition channel_root_ops :: "('x ChannelRoot, 'x go_val) root_ops" where
  "channel_root_ops = \<lparr>ro_Get = \<lambda>r. Ret (chan_Get r, r), ro_Set = chan_Set, ro_Version = chan_Version, ro_IsDirty = chan_IsDirty,
     ro_MarkClean = chan_MarkClean\<rparr>"

section \<open>Variables\<close>

datatype 'x Core = AtomicCore "('x AtomicRoot, 'x go_val) Wrapper" | ChannelCore "('x ChannelRoot, 'x go_val) Wrapper"

text \<open>The methods of the two wrappers that a variable calls; the close of a channel wrapper is that of \<open>ChannelWrapper_Close\<close>.\<close>

primrec core_Get :: "'x Core \<Rightarrow> ('x go_val \<times> 'x Core) outcome" where
  "core_Get (AtomicCore w) = bind_outcome (AtomicWrapper_Get atomic_root_ops w) (\<lambda>(v, w). Ret (v, AtomicCore w))"
| "core_Get (ChannelCore w) = bind_outcome (ChannelWrapper_Get channel_root_ops w) (\<lambda>(v, w). Ret (v, ChannelCore w))"

primrec core_Set :: "'x Core \<Rightarrow> 'x go_val \<Rightarrow> 'x Core outcome" where
  "core_Set (AtomicCore w) v = bind_outcome (AtomicWrapper_Set atomic_root_ops w v) (\<lambda>w. Ret (AtomicCore w))"
| "core_Set (ChannelCore w) v = bind_outcome (ChannelWrapper_Set channel_root_ops w v) (\<lambda>w. Ret (ChannelCore w))"

primrec core_Close :: "'x Core \<Rightarrow> (go_err option \<times> 'x Core) outcome" where
  "core_Close (AtomicCore w) = Ret (None, AtomicCore (AtomicWrapper_Close w))"
| "core_Close (ChannelCore w) =
     bind_outcome (chan_Close (w_root w)) (\<lambda>r. Ret (None, ChannelCore ((wrapper_Close w)\<lparr>w_root := r\<rparr>)))"

definition made_core_ops :: "('x Core, 'x go_val) core_ops" where
  "made_core_ops = \<lparr>ro_Get = core_Get, ro_Set = core_Set,
     ro_Version = case_Core (AtomicWrapper_Version atomic_root_ops) (ChannelWrapper_Version channel_root_ops),
     ro_IsDirty = case_Core (AtomicWrapper_IsDirty atomic_root_ops) (ChannelWrapper_IsDirty channel_root_ops),
     ro_MarkClean = case_Core (AtomicCore \<circ> AtomicWrapper_MarkClean atomic_root_ops) (ChannelCore \<circ> ChannelWrapper_MarkClean channel_root_ops),
     co_CompareAndSwap = None, co_Close = core_Close\<rparr>"

text \<open>
  \<open>CreateVariable\<close>. For a mutex and for shards no core is made, and the variable is wrapped around nil. \<open>options\<close> are the configurations of
  the options.
\<close>

type_synonym 'x Variable = "('x Core option, 'x go_val) VariableWrapper"

definition VariableFactory_CreateVariable ::
  "Configuration \<Rightarrow> bool \<Rightarrow> StorageStrategy_v2 \<Rightarrow> 'x go_val \<Rightarrow> Configuration list \<Rightarrow> (go_err + 'x Variable) outcome" where
  "VariableFactory_CreateVariable config isInterface strategy initialValue options = (case strategy of
       StrategyAtomic \<Rightarrow> bind_outcome (CreateAtomicRoot isInterface initialValue) (\<lambda>r.
         Ret (Inr (NewVariableWrapper (Some (AtomicCore (NewAtomicWrapper r))))))
     | StrategyMutex \<Rightarrow> Ret (Inr (NewVariableWrapper None))
     | StrategyChannels \<Rightarrow>
         (let bufferSize = (case options of opt # opts \<Rightarrow> if cf_BufferSize opt > 0 then cf_BufferSize opt else 10 | [] \<Rightarrow> 10)
          in bind_outcome (CreateChannelRoot config initialValue bufferSize) (\<lambda>r.
            Ret (Inr (NewVariableWrapper (Some (ChannelCore (NewChannelWrapper r)))))))
     | StrategySharded \<Rightarrow> Ret (Inr (NewVariableWrapper None))
     | _ \<Rightarrow> Ret (Inl (Err ''unsupported storage strategy'')))"

definition CreateVariable_v2 :: "bool \<Rightarrow> StorageStrategy_v2 \<Rightarrow> 'x go_val \<Rightarrow> Configuration list \<Rightarrow> (go_err + 'x Variable) outcome" where
  "CreateVariable_v2 isInterface strategy initialValue options =
     VariableFactory_CreateVariable zero_Configuration isInterface strategy initialValue options"

text \<open>A method of a variable dereferences its core.\<close>

definition on_core :: "(('x Core, 'x go_val) VariableWrapper \<Rightarrow> ('b \<times> ('x Core, 'x go_val) VariableWrapper) outcome) \<Rightarrow> 'x Variable \<Rightarrow> ('b \<times> 'x Variable) outcome" where
  "on_core f v = (case v_core v of
       None \<Rightarrow> Panic NilDereference
     | Some c \<Rightarrow> bind_outcome (f \<lparr>v_core = c, v_subscribers = v_subscribers v, v_calls = v_calls v\<rparr>)
         (\<lambda>(x, w). Ret (x, \<lparr>v_core = Some (v_core w), v_subscribers = v_subscribers w, v_calls = v_calls w\<rparr>)))"

definition variable_Get :: "'x Variable \<Rightarrow> ('x go_val \<times> 'x Variable) outcome" where
  "variable_Get v = on_core (VariableWrapper_Get made_core_ops) v"

definition variable_Set :: "'x go_val \<Rightarrow> 'x Variable \<Rightarrow> (unit \<times> 'x Variable) outcome" where
  "variable_Set x v = on_core (\<lambda>w. bind_outcome (VariableWrapper_Set made_core_ops w x) (\<lambda>w. Ret ((), w))) v"

definition variable_GetVersion :: "'x Variable \<Rightarrow> (uint64 \<times> 'x Variable) outcome" where
  "variable_GetVersion v = on_core (\<lambda>w. Ret (VariableWrapper_GetVersion made_core_ops w, w)) v"

definition variable_Close :: "'x Variable \<Rightarrow> (go_err option \<times> 'x Variable) outcome" where
  "variable_Close v = on_core (VariableWrapper_Close made_core_ops) v"

section \<open>The other methods of the factory\<close>

definition NewDefaultFactory :: "Configuration \<Rightarrow> Configuration" where
  "NewDefaultFactory config = config"

text \<open>The methods that are not implemented yet. Their results would be roots.\<close>

definition CreateMutexRoot :: "'x go_val \<Rightarrow> unit outcome" where "CreateMutexRoot initialValue = Panic NotImplemented"
definition CreateShardedRoot :: "'x go_val \<Rightarrow> int \<Rightarrow> unit outcome" where "CreateShardedRoot initialValue shardCount = Panic NotImplemented"
definition CreateLockFreeRoot :: "'x go_val \<Rightarrow> unit outcome" where "CreateLockFreeRoot initialValue = Panic NotImplemented"
definition CreatePersistedRoot :: "'x go_val \<Rightarrow> string \<Rightarrow> unit outcome" where "CreatePersistedRoot initialValue storagePath = Panic NotImplemented"
definition CreateReplicatedRoot :: "'x go_val \<Rightarrow> string \<Rightarrow> unit outcome" where "CreateReplicatedRoot initialValue nodeID = Panic NotImplemented"
definition CreateWriteOptimizedRoot :: "'x go_val \<Rightarrow> unit outcome" where "CreateWriteOptimizedRoot initialValue = Panic NotImplemented"
definition CreateReadOptimizedRoot :: "'x go_val \<Rightarrow> unit outcome" where "CreateReadOptimizedRoot initialValue = Panic NotImplemented"
definition CreateMemoryOptimizedRoot :: "'x go_val \<Rightarrow> unit outcome" where "CreateMemoryOptimizedRoot initialValue = Panic NotImplemented"
definition CreateUint32Atomic :: "uint32 \<Rightarrow> unit outcome" where "CreateUint32Atomic initialValue = Panic NotImplemented"
definition CreatePointerAtomic :: "nat \<Rightarrow> unit outcome" where "CreatePointerAtomic initialValue = Panic NotImplemented"

text \<open>The roots of a given type.\<close>

definition CreateInt64Atomic :: "int64 \<Rightarrow> int64 Atomic" where "CreateInt64Atomic i = NewAtomicInt64 i"
definition CreateInt32Atomic :: "int32 \<Rightarrow> int32 Atomic" where "CreateInt32Atomic i = NewAtomicInt32 i"
definition CreateUint64Atomic :: "uint64 \<Rightarrow> uint64 Atomic" where "CreateUint64Atomic u = NewAtomicUint64 u"
definition CreateBoolAtomic :: "bool \<Rightarrow> bool Atomic" where "CreateBoolAtomic b = NewAtomicBool b"
definition CreateStringAtomic :: "string \<Rightarrow> string Atomic" where "CreateStringAtomic s = NewAtomicValue s"
definition CreateFloatAtomic :: "'f \<Rightarrow> 'f Atomic" where "CreateFloatAtomic f = NewAtomicValue f"

section \<open>What a variable of the factory does\<close>

lemma root_Set_typed:
  assumes "type_of (root_Get r) = Some t" "type_of v = Some t"
  shows "\<exists>r'. root_Set r v = Ret r' \<and> root_Get r' = v \<and> root_Version r' = root_Version r + 1"
  using assms
  by (cases r; cases v)
    (auto simp: stored_def AtomicInt64_Set_def AtomicInt32_Set_def AtomicUint64_Set_def AtomicBool_Set_def AtomicValue_Set_def atomic_Set_def
      AtomicInt64_Get_def AtomicInt32_Get_def AtomicUint64_Get_def AtomicBool_Get_def AtomicValue_Get_def
      AtomicInt64_Version_def AtomicInt32_Version_def AtomicUint64_Version_def AtomicBool_Version_def AtomicValue_Version_def)

text \<open>
  A channel root that is open, or has no buffer to put a value into. Its \<open>Set\<close> needs the channel open only if it is buffered.
\<close>

definition settable :: "'x ChannelRoot \<Rightarrow> bool" where
  "settable r \<longleftrightarrow> (case r of RootBuffered c \<Rightarrow> \<not> gc_closed (cv_ch c) | _ \<Rightarrow> True)"

lemma chan_Set_typed:
  assumes "type_of (chan_Get r) = Some t" "type_of v = Some t" "settable r"
  shows "\<exists>r'. chan_Set r v = Ret r' \<and> chan_Get r' = v \<and> chan_Version r' = chan_Version r + 1 \<and> settable r'"
  using assms
  by (cases r)
    (auto simp: chan_Set_def stored_def settable_def BufferedChannel_Set_def BufferedChannel_Get_def BufferedChannel_Version_def chan_offer_def
      UnbufferedChannel_Set_def UnbufferedChannel_Get_def UnbufferedChannel_Version_def PriorityChannel_Set_def PriorityChannel_Get_def
      PriorityChannel_Version_def BroadcastChannel_Set_def BroadcastChannel_Get_def BroadcastChannel_Version_def Let_def split: list.split)

definition core_ok :: "go_ty \<Rightarrow> 'x Core \<Rightarrow> bool" where
  "core_ok t c \<longleftrightarrow> (case c of
       AtomicCore w \<Rightarrow> type_of (root_Get (w_root w)) = Some t
     | ChannelCore w \<Rightarrow> type_of (chan_Get (w_root w)) = Some t \<and> settable (w_root w))"

definition core_value :: "'x Core \<Rightarrow> 'x go_val" where
  "core_value c = (case c of AtomicCore w \<Rightarrow> root_Get (w_root w) | ChannelCore w \<Rightarrow> chan_Get (w_root w))"

definition core_version :: "'x Core \<Rightarrow> uint64" where
  "core_version c = (case c of AtomicCore w \<Rightarrow> root_Version (w_root w) | ChannelCore w \<Rightarrow> chan_Version (w_root w))"

lemmas core_observed = core_ok_def core_value_def core_version_def

lemma core_Get_ok:
  "\<exists>c'. core_Get c = Ret (core_value c, c') \<and> core_ok t c' = core_ok t c \<and> core_value c' = core_value c \<and> core_version c' = core_version c"
  by (cases c) (simp_all add: core_observed AtomicWrapper_Get_def ChannelWrapper_Get_def wrapper_Get_def count_read_def atomic_root_ops_def
      channel_root_ops_def)

lemma core_Set_ok:
  assumes "core_ok t c" "type_of v = Some t"
  shows "\<exists>c'. core_Set c v = Ret c' \<and> core_ok t c' \<and> core_value c' = v \<and> core_version c' = core_version c + 1"
proof (cases c)
  case (AtomicCore w)
  then obtain r where "root_Set (w_root w) v = Ret r" "root_Get r = v" "root_Version r = root_Version (w_root w) + 1"
    using assms root_Set_typed [of "w_root w" t v] by (auto simp: core_ok_def)
  with AtomicCore assms(2) show ?thesis
    by (simp add: core_observed AtomicWrapper_Set_def batched_Set_serial serial_Set_def set_root_def notify_in_turn_def count_write_def atomic_root_ops_def)
next
  case (ChannelCore w)
  then obtain r where "chan_Set (w_root w) v = Ret r" "chan_Get r = v" "chan_Version r = chan_Version (w_root w) + 1" "settable r"
    using assms chan_Set_typed [of "w_root w" t v] by (auto simp: core_ok_def)
  with ChannelCore assms(2) show ?thesis
    by (simp add: core_observed ChannelWrapper_Set_def serial_Set_def set_root_def notify_in_turn_def count_write_def channel_root_ops_def)
qed

lemma variable_ops:
  "variable_Get v = (case v_core v of None \<Rightarrow> Panic NilDereference
     | Some c \<Rightarrow> bind_outcome (core_Get c) (\<lambda>(x, c). Ret (x, v\<lparr>v_core := Some c\<rparr>)))"
  "variable_GetVersion v = (case v_core v of None \<Rightarrow> Panic NilDereference | Some c \<Rightarrow> Ret (core_version c, v))"
proof -
  have "on_core (VariableWrapper_Get made_core_ops) v = bind_outcome (core_Get c) (\<lambda>(x, c). Ret (x, v\<lparr>v_core := Some c\<rparr>))" if "v_core v = Some c" for c
    using that by (cases v; cases "core_Get c") (auto simp: on_core_def VariableWrapper_Get_def made_core_ops_def)
  then show "variable_Get v = (case v_core v of None \<Rightarrow> Panic NilDereference
     | Some c \<Rightarrow> bind_outcome (core_Get c) (\<lambda>(x, c). Ret (x, v\<lparr>v_core := Some c\<rparr>)))"
    by (simp add: variable_Get_def on_core_def split: option.split)
  show "variable_GetVersion v = (case v_core v of None \<Rightarrow> Panic NilDereference | Some c \<Rightarrow> Ret (core_version c, v))"
    by (cases v) (simp add: variable_GetVersion_def on_core_def VariableWrapper_GetVersion_def made_core_ops_def
        core_version_def AtomicWrapper_Version_def ChannelWrapper_Version_def atomic_root_ops_def channel_root_ops_def
        split: option.split Core.split)
qed

lemma variable_Set_ok:
  assumes "v_core v = Some c" "core_ok t c" "type_of x = Some t"
  shows "\<exists>v' c'. variable_Set x v = Ret ((), v') \<and> v_core v' = Some c' \<and> core_ok t c' \<and> core_value c' = x \<and> core_version c' = core_version c + 1"
proof -
  obtain c1 where c1: "core_Get c = Ret (core_value c, c1)" "core_ok t c1" "core_version c1 = core_version c"
    using core_Get_ok [of c t] assms(2) by auto
  obtain c2 where "core_Set c1 x = Ret c2" "core_ok t c2" "core_value c2 = x" "core_version c2 = core_version c1 + 1"
    using core_Set_ok [OF c1(2) assms(3)] by blast
  with c1 assms(1) show ?thesis
    by (simp add: variable_Set_def on_core_def VariableWrapper_Set_def made_core_ops_def v_notify_def)
qed

fun set_all :: "'x go_val list \<Rightarrow> 'x Variable \<Rightarrow> 'x Variable outcome" where
  "set_all [] v = Ret v"
| "set_all (x # xs) v = bind_outcome (variable_Set x v) (\<lambda>(u, v). set_all xs v)"

lemma set_all_ok:
  "v_core v = Some c \<Longrightarrow> core_ok t c \<Longrightarrow> \<forall>x\<in>set xs. type_of x = Some t \<Longrightarrow>
     \<exists>v' c'. set_all xs v = Ret v' \<and> v_core v' = Some c' \<and> core_ok t c' \<and> core_value c' = last (core_value c # xs) \<and>
       core_version c' = core_version c + of_nat (length xs)"
proof (induction xs arbitrary: v c)
  case (Cons x xs)
  obtain v1 c1 where one: "variable_Set x v = Ret ((), v1)" "v_core v1 = Some c1" "core_ok t c1" "core_value c1 = x"
    "core_version c1 = core_version c + 1"
    using variable_Set_ok [OF Cons.prems(1,2)] Cons.prems(3) by fastforce
  with Cons.IH [OF one(2,3)] Cons.prems(3) show ?case by (auto simp: algebra_simps)
qed simp

text \<open>The types a value may have for an atomic root: not those defined on one of the four types with a root of their own.\<close>

definition has_root :: "go_ty \<Rightarrow> bool" where
  "has_root t \<longleftrightarrow> (case type_Kind t of TyOther k \<Rightarrow> True | k \<Rightarrow> t = k)"

lemma type_Kind_basic [simp]: "type_Kind t \<noteq> TyDefined n u" "TyDefined n u \<noteq> type_Kind t"
  by (induction t) auto

lemma CreateAtomicRoot_ok:
  assumes "type_of v = Some t" "has_root t"
  shows "\<exists>r. CreateAtomicRoot isInterface v = Ret r \<and> root_Get r = v \<and> root_Version r = 1"
proof (cases "\<exists>k. type_Kind t = TyOther k")
  case True
  then show ?thesis
    using assms(1) by (auto simp: CreateAtomicRoot_def NewAtomicValue_def AtomicValue_Get_def AtomicValue_Version_def atomic_New_def)
next
  case False
  with assms have t: "t \<in> {TyInt64, TyInt32, TyUint64, TyBool}" by (cases "type_Kind t") (auto simp: has_root_def)
  show ?thesis
    using assms(1) t
    by (cases v) (auto simp: CreateAtomicRoot_def NewAtomicValue_def NewAtomicInt64_def NewAtomicInt32_def NewAtomicUint64_def NewAtomicBool_def
        atomic_New_def AtomicInt64_Get_def AtomicInt32_Get_def AtomicUint64_Get_def AtomicBool_Get_def AtomicValue_Get_def
        AtomicInt64_Version_def AtomicInt32_Version_def AtomicUint64_Version_def AtomicBool_Version_def AtomicValue_Version_def)
qed

lemma CreateChannelRoot_ok:
  assumes "type_of v = Some t" "0 \<le> n"
  shows "\<exists>r. CreateChannelRoot config v n = Ret r \<and> chan_Get r = v \<and> chan_Version r = 1 \<and> settable r"
  using assms
  by (cases "cf_ChannelType config")
    (simp_all add: CreateChannelRoot_def NewBufferedChannel_def NewUnbufferedChannel_def NewPriorityChannel_def NewBroadcastChannel_def make_chan_def
      settable_def BufferedChannel_Get_def UnbufferedChannel_Get_def PriorityChannel_Get_def BroadcastChannel_Get_def
      BufferedChannel_Version_def UnbufferedChannel_Version_def PriorityChannel_Version_def BroadcastChannel_Version_def)

text \<open>
  A variable of the factory is a cell. Whatever the configuration, the options and the type of the values, an atomic or a channel variable that is created with a value and
  set to others of its type returns the last of them, with a version that counts the writes; no call panics or blocks. The exception is an atomic variable for a type defined on
  \<open>int64\<close>, \<open>int32\<close>, \<open>uint64\<close> or \<open>bool\<close>, whose creation panics. The strategies for a mutex and for shards give a
  variable without an error, and every method of it panics.
\<close>

theorem created_variable:
  assumes "type_of v = Some t" "\<forall>x\<in>set xs. type_of x = Some t"
  shows "(strategy = StrategyChannels \<or> strategy = StrategyAtomic \<and> has_root t \<longrightarrow>
      (\<exists>var var'. VariableFactory_CreateVariable config isInterface strategy v options = Ret (Inr var) \<and> set_all xs var = Ret var' \<and>
        (\<exists>var''. variable_Get var' = Ret (last (v # xs), var'')) \<and> variable_GetVersion var' = Ret (1 + of_nat (length xs), var'))) \<and>
    (\<not> has_root t \<longrightarrow> VariableFactory_CreateVariable config isInterface StrategyAtomic v options = Panic InconsistentType) \<and>
    (strategy = StrategyMutex \<or> strategy = StrategySharded \<longrightarrow>
      (\<exists>var. VariableFactory_CreateVariable config isInterface strategy v options = Ret (Inr var) \<and> variable_Get var = Panic NilDereference \<and>
        variable_Set x var = Panic NilDereference \<and> variable_GetVersion var = Panic NilDereference \<and> variable_Close var = Panic NilDereference))"
proof -
  let ?make = "VariableFactory_CreateVariable config isInterface"
  have cell: "\<exists>var'. set_all xs var = Ret var' \<and> (\<exists>var''. variable_Get var' = Ret (last (v # xs), var'')) \<and>
      variable_GetVersion var' = Ret (1 + of_nat (length xs), var')"
    if var: "v_core var = Some c" "core_ok t c" "core_value c = v" "core_version c = 1" for var :: "'a Variable" and c
  proof -
    obtain v' c' where "set_all xs var = Ret v'" "v_core v' = Some c'" "core_value c' = last (v # xs)" "core_version c' = 1 + of_nat (length xs)"
      using set_all_ok [OF var(1,2) assms(2)] var(3,4) by auto
    moreover from this obtain c'' where "core_Get c' = Ret (last (v # xs), c'')" using core_Get_ok [of c' t] by auto
    ultimately show ?thesis by (simp add: variable_ops)
  qed
  have atomic: "\<exists>var c. ?make StrategyAtomic v options = Ret (Inr var) \<and> v_core var = Some c \<and> core_ok t c \<and> core_value c = v \<and> core_version c = 1"
    if "has_root t"
    using CreateAtomicRoot_ok [OF assms(1) that, of isInterface] assms(1)
    by (auto simp: VariableFactory_CreateVariable_def NewVariableWrapper_def NewAtomicWrapper_def wrapper_New_def core_observed)
  define n where "n = (case options of opt # opts \<Rightarrow> if cf_BufferSize opt > 0 then cf_BufferSize opt else 10 | [] \<Rightarrow> 10)"
  have "0 \<le> n" by (simp add: n_def split: list.split)
  then have channels: "\<exists>var c. ?make StrategyChannels v options = Ret (Inr var) \<and> v_core var = Some c \<and> core_ok t c \<and> core_value c = v \<and> core_version c = 1"
    using CreateChannelRoot_ok [OF assms(1), of n config] assms(1)
    by (auto simp: VariableFactory_CreateVariable_def NewVariableWrapper_def NewChannelWrapper_def wrapper_New_def core_observed n_def [symmetric])
  have undefined_kind: "?make StrategyAtomic v options = Panic InconsistentType" if "\<not> has_root t"
    using that assms(1)
    by (cases v) (auto simp: VariableFactory_CreateVariable_def CreateAtomicRoot_def has_root_def split: go_ty.splits)
  show ?thesis
    using cell atomic channels undefined_kind
    by (auto simp: VariableFactory_CreateVariable_def NewVariableWrapper_def variable_ops variable_Set_def variable_Close_def on_core_def)
qed

theorem created_variable_witness:
  "\<exists>var var' :: nat Variable. CreateVariable_v2 False StrategyAtomic (GInt64 3) [] = Ret (Inr var) \<and> set_all [GInt64 4, GInt64 5] var = Ret var' \<and>
     (\<exists>var''. variable_Get var' = Ret (GInt64 5, var'')) \<and> variable_GetVersion var' = Ret (3, var')"
proof -
  have t: "type_of (GInt64 3 :: nat go_val) = Some TyInt64" "\<forall>x\<in>set [GInt64 4, GInt64 5 :: nat go_val]. type_of x = Some TyInt64" by simp_all
  have "\<exists>var var' :: nat Variable. VariableFactory_CreateVariable zero_Configuration False StrategyAtomic (GInt64 3) [] = Ret (Inr var) \<and>
      set_all [GInt64 4, GInt64 5] var = Ret var' \<and> (\<exists>var''. variable_Get var' = Ret (GInt64 5, var'')) \<and>
      variable_GetVersion var' = Ret (3, var')"
    using created_variable [OF t, of StrategyAtomic zero_Configuration False "[]"] by (simp add: has_root_def del: set_all.simps)
  then show ?thesis unfolding CreateVariable_v2_def .
qed

text \<open>
  What the factory refuses: the nil interface, in two different ways, and the strategies it does not know, the only ones with an error.
\<close>

theorem factory_refuses:
  fixes v :: "'x go_val"
  shows "VariableFactory_CreateVariable config isInterface StrategyAtomic (GNil :: 'x go_val) options = Panic NilDereference \<and>
   VariableFactory_CreateVariable config isInterface StrategyChannels (GNil :: 'x go_val) options = Panic NilStore \<and>
   (strategy \<notin> {StrategyAtomic, StrategyMutex, StrategyChannels, StrategySharded} \<longrightarrow>
     VariableFactory_CreateVariable config isInterface strategy v options = Ret (Inl (Err ''unsupported storage strategy'')))"
  by (cases strategy; cases "cf_ChannelType config")
    (auto simp: VariableFactory_CreateVariable_def CreateAtomicRoot_def CreateChannelRoot_def NewBufferedChannel_def NewUnbufferedChannel_def
      make_chan_def Let_def split: list.split)

theorem factory_refuses_witness:
  "VariableFactory_CreateVariable zero_Configuration True StrategyLockFree (GBool True :: nat go_val) [] = Ret (Inl (Err ''unsupported storage strategy''))"
  using factory_refuses [of zero_Configuration True "[]" StrategyLockFree "GBool True :: nat go_val"] by simp

end
