(* ===== verification/Sync_Stubs.thy ===== *)
theory Sync_Stubs
  imports Sync_Contract Sync_Sharded
begin

text \<open>
  What is left of the first version in \<open>core/sync/vars/sharded.go\<close>, \<open>complex.go\<close> and \<open>core/sync/resolver\<close>: the methods that are there to satisfy
  the interface, which do nothing or panic, and the two resolvers.
\<close>

section \<open>Complex\<close>

definition Complex_IsDirty :: "'v Complex \<Rightarrow> bool" where "Complex_IsDirty v = cx_dirty v"
definition Complex_GetVersion :: "'v Complex \<Rightarrow> uint64" where "Complex_GetVersion v = cx_version v"
definition Complex_GetDelta :: "uint64 \<Rightarrow> 'v Complex \<Rightarrow> go_err + 'v var_delta list" where "Complex_GetDelta sinceVersion v = Inr []"
definition Complex_ApplyDelta :: "'v var_delta list \<Rightarrow> 'v Complex \<Rightarrow> go_err option \<times> 'v Complex" where "Complex_ApplyDelta ds v = (None, v)"
definition Complex_SetConflictResolver :: "'v resolver \<Rightarrow> 'v Complex \<Rightarrow> 'v Complex" where "Complex_SetConflictResolver f v = v"
definition Complex_OnChange :: "nat \<Rightarrow> 'v Complex \<Rightarrow> 'v Complex" where "Complex_OnChange h v = v"
definition Complex_OnConflict :: "'v resolver \<Rightarrow> 'v Complex \<Rightarrow> 'v Complex" where "Complex_OnConflict f v = v"
definition Complex_GetPermissions :: "'v Complex \<Rightarrow> permission_mask" where "Complex_GetPermissions v = PermissionWrite"
definition Complex_SetPermissions :: "permission_mask \<Rightarrow> 'v Complex \<Rightarrow> 'v Complex" where "Complex_SetPermissions permissions v = v"
definition Complex_GetMetrics :: "'v Complex \<Rightarrow> VariableMetrics_v1" where "Complex_GetMetrics v = no_metrics"
definition Complex_GetStorageStrategy :: "'v Complex \<Rightarrow> StorageStrategy" where "Complex_GetStorageStrategy v = StrategyPersisted"
definition Complex_CanMigrateTo :: "StorageStrategy \<Rightarrow> 'v Complex \<Rightarrow> bool" where "Complex_CanMigrateTo strategy v \<longleftrightarrow> strategy = StrategyPersisted"

text \<open>The type is that of a pointer to the value; \<open>binary.Size\<close> is the argument \<open>size_of\<close>.\<close>

definition Complex_GetType :: "string \<Rightarrow> 'v Complex \<Rightarrow> string" where "Complex_GetType t v = CHR ''*'' # t"
definition Complex_GetHistory :: "'v Complex \<Rightarrow> 'v HistoryEntry list" where "Complex_GetHistory v = []"
definition Complex_Close :: "'v Complex \<Rightarrow> go_err option" where "Complex_Close v = None"
definition Complex_Size :: "('v \<Rightarrow> int) \<Rightarrow> 'v Complex \<Rightarrow> int64" where "Complex_Size size_of v = of_int (size_of (cx_value v))"

section \<open>Sharded\<close>

definition Sharded_GetDelta :: "uint64 \<Rightarrow> 'v Sharded \<Rightarrow> go_err + 'v var_delta list" where "Sharded_GetDelta sinceVersion v = Inr []"

definition Sharded_ApplyDelta :: "'v var_delta list \<Rightarrow> 'v Sharded \<Rightarrow> (go_err option \<times> 'v Sharded) outcome" where "Sharded_ApplyDelta ds v = Panic NotImplemented"
definition Sharded_SetConflictResolver :: "'v resolver \<Rightarrow> 'v Sharded \<Rightarrow> ('v Sharded) outcome" where "Sharded_SetConflictResolver f v = Panic NotImplemented"
definition Sharded_OnChange :: "nat \<Rightarrow> 'v Sharded \<Rightarrow> ('v Sharded) outcome" where "Sharded_OnChange h v = Panic NotImplemented"
definition Sharded_OnConflict :: "'v resolver \<Rightarrow> 'v Sharded \<Rightarrow> ('v Sharded) outcome" where "Sharded_OnConflict f v = Panic NotImplemented"
definition Sharded_SetPermissions :: "permission_mask \<Rightarrow> 'v Sharded \<Rightarrow> ('v Sharded) outcome" where "Sharded_SetPermissions perms v = Panic NotImplemented"
definition Sharded_CanMigrateTo :: "StorageStrategy \<Rightarrow> 'v Sharded \<Rightarrow> (bool) outcome" where "Sharded_CanMigrateTo strategy v = Panic NotImplemented"
definition Sharded_GetPermissions :: "'v Sharded \<Rightarrow> (permission_mask) outcome" where "Sharded_GetPermissions v = Panic NotImplemented"
definition Sharded_GetMetrics :: "'v Sharded \<Rightarrow> (VariableMetrics_v1) outcome" where "Sharded_GetMetrics v = Panic NotImplemented"
definition Sharded_GetStorageStrategy :: "'v Sharded \<Rightarrow> (StorageStrategy) outcome" where "Sharded_GetStorageStrategy v = Panic NotImplemented"
definition Sharded_GetType :: "'v Sharded \<Rightarrow> (string) outcome" where "Sharded_GetType v = Panic NotImplemented"
definition Sharded_GetHistory :: "'v Sharded \<Rightarrow> ('v HistoryEntry list) outcome" where "Sharded_GetHistory v = Panic NotImplemented"
definition Sharded_Close :: "'v Sharded \<Rightarrow> (go_err option) outcome" where "Sharded_Close v = Panic NotImplemented"
definition Sharded_Size :: "'v Sharded \<Rightarrow> (int64) outcome" where "Sharded_Size v = Panic NotImplemented"

section \<open>Resolvers\<close>

text \<open>A resolver as its three methods.\<close>

record 'v resolver_methods =
  rm_Resolve :: "'v resolver"
  rm_CanResolve :: "'v any_value \<Rightarrow> 'v any_value \<Rightarrow> bool"
  rm_Priority :: int

definition Resolver_Resolve :: "'v resolver" where "Resolver_Resolve local remote = local"
definition Resolver_CanResolve :: "'v any_value \<Rightarrow> 'v any_value \<Rightarrow> bool" where "Resolver_CanResolve local remote \<longleftrightarrow> True"
definition Resolver_Priority :: "int \<Rightarrow> int" where "Resolver_Priority priority = priority"

definition Resolver :: "int \<Rightarrow> 'v resolver_methods" where
  "Resolver priority = \<lparr>rm_Resolve = Resolver_Resolve, rm_CanResolve = Resolver_CanResolve, rm_Priority = Resolver_Priority priority\<rparr>"

text \<open>A typed resolver for the type of name \<open>t\<close>; \<open>NewTypedResolver\<close> keeps the resolver it is given.\<close>

definition NewTypedResolver :: "'v resolver_methods \<Rightarrow> 'v resolver_methods" where "NewTypedResolver r = r"

definition TypedResolver_Resolve :: "string \<Rightarrow> 'v resolver_methods \<Rightarrow> 'v \<Rightarrow> 'v \<Rightarrow> 'v outcome" where
  "TypedResolver_Resolve t r local remote = (case rm_Resolve r (Some (t, local)) (Some (t, remote)) of
       Some (u, x) \<Rightarrow> if u = t then Ret x else Panic InconsistentType
     | None \<Rightarrow> Panic InconsistentType)"

definition TypedResolver_CanResolve :: "string \<Rightarrow> 'v resolver_methods \<Rightarrow> 'v \<Rightarrow> 'v \<Rightarrow> bool" where
  "TypedResolver_CanResolve t r local remote = rm_CanResolve r (Some (t, local)) (Some (t, remote))"

definition TypedResolver_Priority :: "'v resolver_methods \<Rightarrow> int" where "TypedResolver_Priority r = rm_Priority r"

section \<open>What these variables do not keep\<close>

text \<open>
  Against the contract of \<open>Sync_Contract\<close>: a complex variable counts a write of the value it has as a change, writes for a caller without permission, and hands on no delta,
  so that a replica that applies the deltas keeps its own value without an error.
\<close>

theorem complex_breaks_contract:
  "Complex_GetPermissions (Complex_SetPermissions PermissionRead v) = PermissionWrite \<and>
   cell_run same [Permit PermissionRead, Put x] (new_cell PermissionWrite (Some y)) =
     ([None, Some ErrPermissionDenied], (new_cell PermissionRead (Some y))) \<and>
   Complex_Get (Complex_Set x (Complex_SetPermissions PermissionRead v)) = x \<and>
   Complex_GetVersion (Complex_Set (Complex_Get v) v) = Complex_GetVersion v + 1 \<and>
   (case Complex_GetDelta n (Complex_Set x v) of Inr ds \<Rightarrow> Complex_ApplyDelta ds w = (None, w) | Inl e \<Rightarrow> False)"
  by (simp add: Complex_GetPermissions_def Complex_SetPermissions_def Complex_Get_def Complex_Set_def Complex_GetVersion_def Complex_GetDelta_def
      Complex_ApplyDelta_def new_cell_def cell_Put_def checkPermissions_def PermissionWrite_def PermissionRead_def)

text \<open>With the default resolver a conflict is settled for the local value, typed or not.\<close>

lemma default_resolver:
  "TypedResolver_Resolve t (NewTypedResolver (Resolver p)) x y = Ret x" "TypedResolver_CanResolve t (NewTypedResolver (Resolver p)) x y"
  "TypedResolver_Priority (NewTypedResolver (Resolver p)) = p"
  by (simp_all add: TypedResolver_Resolve_def TypedResolver_CanResolve_def TypedResolver_Priority_def NewTypedResolver_def Resolver_def
      Resolver_Resolve_def Resolver_CanResolve_def Resolver_Priority_def)

end
