(* ===== verification/Spec2Isabelle.thy ===== *)
theory Spec2Isabelle
  imports Npc_Play Zeus_Prelude Seq_Iterator Seq_Priority_Queue Sync_Root Var_Cycle Var_Channel Var_Priority Var_Broadcast Concurrent Var_Atomic Var_Sharded Var_Adaptive Npc_Config Event_Bus Wrappers
    Field_Slice Field_Utils Protocol_Errors Protocol_Group Protocol_Message Quic_Stream Protocol_Transport Quic_Connection Server Client_SDK Json_Control End_To_End
    Sync_Variables Sync_Contract Sync_Locks Sync_Sharded Sync_Manager Sync_Analysis Sync_Collector Protocol_Client Quic_Transport Client_Demo Log_Slog Game_Support Field_Forwards Root_Factory Sync_Stubs
begin

text \<open>
  This library models the Go program \<open>zeusync\<close>: synchronized variables in two versions, fields with subscriptions, iterators and their parallel
  consumers, agents driven by behaviour trees, an event bus, and a messaging stack from frames on QUIC streams up to a game server and its client.
  Every definition is a translation of code under \<open>src/\<close>; file names below are relative to it, \<open>core\<close> stands for \<open>internal/core\<close>. Definitions
  keep the name of the function or type they translate, with the type as prefix of a method (\<open>CycleChannel_Send\<close>) and another prefix or
  suffix where a name is taken (\<open>Memory_Reset\<close>, \<open>VariableMetrics_v1\<close>). The properties are the numbered theorems; the number is that of the
  manifest of the library.

  \<^bold>\<open>The parts of the program.\<close>
  The variables of \<open>core/syncv2\<close> (atomics, channels, sharded maps) share an interface, the root; wrappers put permissions, deltas,
  conflicts, encoding and metrics around a root. The first version, \<open>core/sync\<close>, has variables with a ring of past values, which a manager creates
  through a factory and migrates between implementations on the advice of an analyzer. The fields of \<open>core/fields\<close> are optimistic cells
  with subscribers. \<open>pkg/sequence\<close> has iterators and a priority queue, which the sharded variables, the priority channel and
  \<open>pkg/concurrent\<close> use. Agents (\<open>core/npc\<close>) read sensors into a blackboard and tick a tree built from a configuration by a registry. The
  protocol (\<open>core/protocol\<close>) frames pooled messages, sends them over streams of a connection of a transport, and keeps groups and scopes of
  clients; the server (\<open>internal/server\<close>) serves sessions over it and the client library (\<open>sdk/go/client\<close>) speaks to the server.

  \<^bold>\<open>How Go is modelled (Zeus_Prelude, Go_Channel, Job_Pool).\<close>
  Integers of the program whose width matters are words of that width; \<open>int\<close> is used where only bounds are compared. A call
  returns, panics or blocks: the type \<open>outcome\<close>. State is a record that is passed on; pointers that are shared are indices into a list or a heap
  in the state. A Go map is an association list or a finite function; where its order of iteration matters it is an argument. Slices check
  their bounds; a slice that shares its array is a view into an explicit store (\<open>Field_Slice\<close>). A channel is its buffer with the queues of
  parked goroutines, and an operation on it lists the goroutines it wakes. A goroutine is a function or a rule for one round of its loop, and all interleavings
  are the runs of a step relation or of a list of calls; goroutines started together and joined are jobs of a pool with an arbitrary
  schedule, and the locale of independent jobs shows once that the schedule does not matter. Library calls that are not part of Go are parameters:
  the hash of the sharded variables, the answers of the QUIC library, encoders. Floating-point operations, the clock and random draws are parameters or
  inputs as well.

  \<^bold>\<open>Iterators and queues.\<close>
  \<open>Seq_Iterator\<close> (\<open>pkg/sequence/functional.go\<close>): an iterator is a function of its callback, so that stopping early can be observed; pipelines equal list
  functions. \<open>Seq_Priority_Queue\<close> (\<open>queue.go\<close>): the heap operations of the standard library over items known by pointers; order,
  bookkeeping of indices, sorting. \<open>Concurrent\<close> (\<open>pkg/concurrent\<close>): parallel map, filter, pipeline and the rest, equal to their sequential
  counterparts in every interleaving.

  \<^bold>\<open>Variables of the second version.\<close>
  \<open>Sync_Root\<close> states the interfaces as locales (roots, atomic roots, sharded roots, first-in-first-out channels), which the theories of the variables
  interpret: \<open>Var_Atomic\<close> (\<open>vars/atomic*.go\<close>, \<open>custom.go\<close>), \<open>Var_Channel\<close>, \<open>Var_Cycle\<close>, \<open>Var_Priority\<close>, \<open>Var_Broadcast\<close>
  (\<open>vars/channel.go\<close>), \<open>Var_Sharded\<close> and \<open>Var_Adaptive\<close> (\<open>vars/sharded.go\<close>). Their lemmas show the order and conservation of values,
  the bounds of the buffers, the effect of closing and resizing, and what the wrap-around of counters does. \<open>Wrappers\<close>
  (\<open>core/syncv2/wrappers\<close>) has the three wrappers over one record of operations of a root, and \<open>VariableWrapper\<close> over a core; \<open>Root_Factory\<close>
  (\<open>core/syncv2/interfaces/factory.go\<close>, \<open>types\<close>) the variables its factory composes of them. In \<open>Var_Adaptive\<close> the shards are at addresses of a
  heap and reads, writes and resizes are goroutines whose steps interleave, between the load of the count and the lookup of the shard too.

  \<^bold>\<open>Variables of the first version.\<close>
  \<open>Sync_Variables\<close> (\<open>core/sync/vars/mutex.go\<close>, \<open>atomic.go\<close>, \<open>int.go\<close>): one record for the three, as they have the same fields; a variable
  refines the list of the values written to it, its ring holds the last of their deltas, and deltas replicate as far as the code lets them.
  \<open>Sync_Contract\<close>: the interface as a locale over an abstract cell, with its five implementations as interpretations; \<open>Sync_Stubs\<close>: the methods of
  \<open>sharded.go\<close> and \<open>complex.go\<close> that only satisfy it, and \<open>resolver/resolver.go\<close>.
  \<open>Sync_Locks\<close>: the same methods as sequences of lock operations, for deadlocks. \<open>Sync_Sharded\<close> (\<open>sharded.go\<close>, \<open>complex.go\<close>). \<open>Sync_Manager\<close>
  (\<open>metrics/metrics.go\<close>, \<open>analyzer\<close>, \<open>factory\<close>, \<open>migrator\<close>, \<open>manager\<close>): what a migration keeps, when one happens, all-or-nothing creation, and
  how stopping can wait for good; \<open>Sync_Analysis\<close>: the rest of these packages, with the monitor of a variable. \<open>Sync_Collector\<close> (\<open>metrics/collector.go\<close>): every event taken is counted once.

  \<^bold>\<open>Fields.\<close>
  \<open>Field_Accessor\<close> (\<open>field_accessor.go\<close>, \<open>numeric_filed_accessor.go\<close>): a field refines the log of its writes, with the bounds of its history
  and of its retries. \<open>Field_Slice\<close> (\<open>slice_field_accessor.go\<close>): sharing of arrays, and why every mutation panics. \<open>Field_Utils\<close>
  (\<open>utils.go\<close>): aggregators that settle and synchronizers that do not, batches, debouncers, throttlers. \<open>Field_Forwards\<close>: the methods that numeric and slice fields
  forward, and the interface of fields as a locale.

  \<^bold>\<open>Agents and events.\<close>
  \<open>Npc_Blackboard\<close>, \<open>Npc_Memory\<close>, \<open>Npc_Tree\<close> (nodes and their ticks), \<open>Npc_Behaviour\<close> (what ticks do), \<open>Npc_Agent\<close> (sensors, step), \<open>Npc_Config\<close>
  (registry, built-in nodes, loader: building is expansion of the configuration). \<open>Event_Bus\<close> (\<open>core/events/bus\<close>): subscriptions, delivery to
  topic and type handlers that may call the bus again. The web demo of the agents (\<open>examples/npc_web/main.go\<close>) runs on them: \<open>Npc_World\<close> (the grid
  and its random generation, whose draws are an input and whose retries are fuel), \<open>Npc_Game\<close> (its sensor, actions, conditions and tree), \<open>Npc_Play\<close> (a step of the agent
  is a plan of the grid, and what holds after any number of steps). \<open>Game_Support\<close>: \<open>core/systems\<close> and \<open>pkg/generic\<close>.

  \<^bold>\<open>Protocol, server, client.\<close>
  \<open>Protocol_Errors\<close> (\<open>errors.go\<close>: codes through wrapping, and the table of the sentinels with those it lacks, \<open>sentinel_codes\<close>), \<open>Protocol_Group\<close> (\<open>group.go\<close>: bounds of groups and scopes, also under races), \<open>Protocol_Message\<close>
  (\<open>message.go\<close>: the pool hands out no message that is held), \<open>Quic_Stream\<close> (\<open>stream.go\<close>, \<open>quic/stream.go\<close>: frames, with a locale for a fixed field and
  three interpretations), \<open>Protocol_Transport\<close> (\<open>transport.go\<close>, \<open>protocol.go\<close>), \<open>Quic_Connection\<close> (\<open>connection.go\<close>, \<open>quic/connection.go\<close>:
  queues, streams, ping, closing), \<open>Quic_Transport\<close> (\<open>quic/transport.go\<close>, \<open>quic/listener.go\<close>: configuration, dialing, accepting, statistics),
  \<open>Protocol_Client\<close> (\<open>client.go\<close>, and the message queue of the agents), \<open>Server\<close> (\<open>internal/server\<close>: groups, scopes and sessions stay
  consistent in every reachable state), \<open>Client_SDK\<close> (\<open>sdk/go/client\<close>: connecting, reconnecting, closing), \<open>Log_Fields\<close>
  and \<open>Log_Slog\<close> (\<open>core/observability/log\<close>: levels, fields, the shared logger, \<open>slog\<close>). \<open>Json_Control\<close>: the text of control messages; the codec is a locale, which an encoder
  and a decoder written out for this one type satisfy. \<open>End_To_End\<close> composes client, the connections of both ends and the server, and relates the books of the
  two. \<open>Programs\<close> (\<open>quic/quic.go\<close>, \<open>cmd/server\<close>, \<open>examples/server\<close>) and \<open>Client_Demo\<close> (\<open>examples/client\<close>): the mains as the sequence of their calls.

  \<^bold>\<open>Refinements.\<close>
  The abstract specifications are: a queue that keeps the latest values for \<open>CycleChannel\<close>, a bounded queue for the channels, the log of writes for a field, the list of
  written values with their deltas for a variable of the first version, list functions for iterators and parallel consumers, the expansion of a
  configuration for the loader, the multiset of the values in a priority channel. Each is related to the code's definitions by a simulation
  or an equation over arbitrary sequences of calls.

  \<^bold>\<open>Bounds and fuel.\<close>
  Ticks of a tree, handlers that call the bus, the construction of a tree, the generation of a grid, a step of the demo and the retries of \<open>Update\<close> take fuel, and \<open>None\<close> is fuel that did
  not suffice; that enough fuel gives a result is a theorem (\<open>tick_terminates\<close>, \<open>build_is_expansion\<close>, \<open>generation_fills\<close>, \<open>game_step\<close>; for the bus \<open>bus_lists_active\<close>,
  where the depth needed is two more than the rank of the events published, and \<open>echo_never_returns\<close> for a handler that publishes what it handles), and so is that none does where the code does not return
  (\<open>until_without_limit\<close>, \<open>build_cycle\<close>). The retries of a field are bounded by the constant of the source, those of a
  pool of jobs by the work the jobs have left. Some theorems bound a number of calls by \<open>2 ^ 32\<close> or \<open>2 ^ 64\<close>, where a counter of the program wraps; what happens at the
  wrap is stated separately where it matters. The analyzer compares quotients of counts as rationals, which agrees with its floating-point numbers
  for counts below \<open>2 ^ 49\<close>.

  \<^bold>\<open>What the properties say where the code does not do what it seems to mean.\<close>
  The properties describe the code as it is. Several state a defect: a client that never finishes closing, a connection that sends at most
  \<open>MaxStreams\<close> messages in its life, a ping that cannot succeed, synchronized fields that notify each other for good, mutations of slice fields that panic, locks
  taken in opposite orders, a lock held while waiting for its user. The findings of the manifest list them with their places.

  \<^bold>\<open>Limits of the models.\<close>
  Some steps are coarser than the code, and the properties hold for these steps. \<open>net_do\<close> (\<open>Quic_Transport\<close>) runs the calls on a transport one after the other, without the goroutines
  of the connections; what they do while a connection closes is in \<open>Quic_Connection\<close> (\<open>close_crashes\<close>). \<open>Connect\<close> and \<open>connection_lost\<close> (\<open>Client_SDK\<close>), with the dial,
  the sleeps and the retries, are one step each: a \<open>Close\<close> during a dial, or between the flag \<open>connected\<close> and \<open>workerGroup.Add\<close>, is not covered. A round of a client in
  \<open>server_step\<close> is one step, up to and including its removal from clients, groups and scopes. \<open>lock_step\<close> (\<open>Sync_Locks\<close>) has no preference for writers. \<open>syncValue\<close> sets and
  clears its flag in one locked step. \<open>BufferedChannel_Send\<close> stores its value in a cell that takes any value; the panics of \<open>atomic.Value\<close> for nil and for values of another type, possible when the
  type parameter is an interface, are in \<open>Root_Factory\<close> and \<open>Sync_Variables\<close>. In \<open>link_step\<close> (\<open>End_To_End\<close>) enqueueing a message and retaining it are one step (their race is
  \<open>retain_after_release\<close>), names are ASCII and frames at most 1 MB, and there are no timeouts, pings, heartbeats and no end of the session. \<open>agent_step\<close> asks of the functions
  given to sensors and nodes that they leave the history alone; the built-in ones do. The goroutines of \<open>adaptive_safe\<close> do not change the limits of the shards, \<open>SetShardLimits\<close> is not among its events.

  \<^bold>\<open>Not modelled.\<close>
  The generation of certificates (\<open>quic/quic.go\<close>; of a certificate only whether there is one), HTTP and WebSocket glue and the page of the web demo, the generated wiring
  (\<open>internal/injector\<close>). The packages \<open>core/storage\<close>, \<open>core/schema\<close>, \<open>core/cluster\<close>, \<open>core/models\<close> and the interfaces of
  \<open>core/sync\<close> and \<open>core/syncv2\<close> declare interfaces and types without code; some files are empty. Sizes in memory, time stamps of entries nobody reads and the
  texts of log lines are left out of the components that are modelled. Memory is sequentially consistent in the model: a read or write of a
  single variable is one step.
\<close>

end
